(* ===== verification/Prelude.thy ===== *)
theory Prelude
  imports Complex_Main "HOL-Library.Word" "HOL-Library.Monad_Syntax"
    "HOL-Library.Signed_Division" "HOL-Library.Product_Lexorder"
begin

section \<open>Shared vocabulary of the arena model\<close>

text \<open>
  What the component theories share.

  \<^item> Machine integers. A signed Rust integer is an \<^typ>\<open>int\<close>, an unsigned one a \<^typ>\<open>nat\<close>; the
    range is a predicate (\<open>in_i32\<close>, \<open>in_i128\<close>). The workspace builds every profile with
    \<^verbatim>\<open>overflow-checks = true\<close> (\<^verbatim>\<open>src/arena/Cargo.toml\<close>), so an overflowing \<open>+\<close>, \<open>-\<close>, \<open>*\<close> or
    unary minus is a panic: it is written with a checked operation (\<open>ck_i32\<close>, \<open>ck_i128\<close>, \<open>ck_u\<close>)
    wherever the operand types alone do not exclude it. A cast \<^verbatim>\<open>as i32\<close> wraps (\<open>as_i32\<close>), a
    \<^verbatim>\<open>saturating_\<close> operation saturates, \<^verbatim>\<open>clamp\<close> panics when its bounds are crossed
    (\<open>clamp_panics\<close>). Rust's \<open>/\<close> on signed integers truncates toward zero: \<open>sdiv\<close>.
  \<^item> Panics. A computation that may panic returns an \<open>option\<close>, \<open>None\<close> being the panic; loops over
    such a computation are \<open>foldM\<close>.
  \<^item> Standard containers. \<^verbatim>\<open>BTreeMap\<close> is a key-sorted association list and \<^verbatim>\<open>BTreeSet\<close> a sorted
    list, both with the insertion the source uses; \<open>ordered_map\<close> is the interface its clients rely on.
  \<^item> Three reusable interfaces stated as locales: \<open>ordered_map\<close>, \<open>panic_machine\<close> (a state machine
    whose steps may panic and keep an invariant) and \<open>codec\<close> (a self-delimiting byte encoding).
\<close>

named_theorems panic_simps \<open>unfolding of the panic monad\<close>
named_theorems int_ranges \<open>definitions of the machine-integer ranges\<close>

subsection \<open>Machine integers\<close>

type_synonym u8 = nat
type_synonym u16 = nat
type_synonym u32 = nat
type_synonym u64 = nat
type_synonym i32 = int
type_synonym i64 = int

definition in_i32 :: "int \<Rightarrow> bool" where
  "in_i32 x \<longleftrightarrow> - (2 ^ 31) \<le> x \<and> x < 2 ^ 31"

definition in_i64 :: "int \<Rightarrow> bool" where
  "in_i64 x \<longleftrightarrow> - (2 ^ 63) \<le> x \<and> x < 2 ^ 63"

definition in_i128 :: "int \<Rightarrow> bool" where
  "in_i128 x \<longleftrightarrow> - (2 ^ 127) \<le> x \<and> x < 2 ^ 127"

definition as_i32 :: "int \<Rightarrow> int" where
  "as_i32 x = (x + 2 ^ 31) mod 2 ^ 32 - 2 ^ 31"

definition ck_i32 :: "int \<Rightarrow> int option" where
  "ck_i32 x = (if in_i32 x then Some x else None)"

definition ck_i128 :: "int \<Rightarrow> int option" where
  "ck_i128 x = (if in_i128 x then Some x else None)"

definition ck_u :: "nat \<Rightarrow> nat \<Rightarrow> nat option" where
  "ck_u w x = (if x < 2 ^ w then Some x else None)"

definition sat_i32 :: "int \<Rightarrow> int" where
  "sat_i32 x = max (- (2 ^ 31)) (min (2 ^ 31 - 1) x)"

definition sat_u16 :: "nat \<Rightarrow> nat" where
  "sat_u16 x = min 65535 x"

definition clampi :: "int \<Rightarrow> int \<Rightarrow> int \<Rightarrow> int" where
  "clampi lo hi x = (if x < lo then lo else if x > hi then hi else x)"

definition clamp_panics :: "int \<Rightarrow> int \<Rightarrow> int \<Rightarrow> int option" where
  "clamp_panics lo hi x = (if lo \<le> hi then Some (clampi lo hi x) else None)"

lemmas [int_ranges] = in_i32_def in_i64_def in_i128_def

lemma in_i32_as_i32 [simp, intro]: "in_i32 (as_i32 x)"
  unfolding in_i32_def as_i32_def
  using pos_mod_bound [of "2 ^ 32" "x + 2 ^ 31"] pos_mod_sign [of "2 ^ 32" "x + 2 ^ 31"] by simp

lemma as_i32_id [simp]: "in_i32 x \<Longrightarrow> as_i32 x = x"
  unfolding in_i32_def as_i32_def by simp

lemma as_i32_high:
  assumes "2 ^ 31 \<le> x" "x < 2 ^ 32"
  shows "as_i32 x = x - 2 ^ 32"
proof -
  have "(x + 2 ^ 31) mod 2 ^ 32 = (x + 2 ^ 31 - 2 ^ 32) mod 2 ^ 32" by (rule minus_mod_self2 [symmetric])
  also have "\<dots> = x + 2 ^ 31 - 2 ^ 32" using assms by (intro mod_pos_pos_trivial) auto
  finally show ?thesis by (simp add: as_i32_def)
qed

lemma ck_i32_eq_Some [simp]: "ck_i32 x = Some y \<longleftrightarrow> in_i32 x \<and> y = x"
  by (auto simp: ck_i32_def)

lemma ck_i128_eq_Some [simp]: "ck_i128 x = Some y \<longleftrightarrow> in_i128 x \<and> y = x"
  by (auto simp: ck_i128_def)

lemma ck_u_eq_Some [simp]: "ck_u w x = Some y \<longleftrightarrow> x < 2 ^ w \<and> y = x"
  by (auto simp: ck_u_def)

lemma in_i32_sat [simp, intro]: "in_i32 (sat_i32 x)"
  by (auto simp: in_i32_def sat_i32_def)

lemma sat_i32_id [simp]: "in_i32 x \<Longrightarrow> sat_i32 x = x"
  by (auto simp: in_i32_def sat_i32_def)

lemma clampi_bounds: "lo \<le> hi \<Longrightarrow> lo \<le> clampi lo hi x \<and> clampi lo hi x \<le> hi"
  by (auto simp: clampi_def)

lemma clampi_id [simp]: "lo \<le> x \<Longrightarrow> x \<le> hi \<Longrightarrow> clampi lo hi x = x"
  by (auto simp: clampi_def)

lemma clamp_panics_eq_Some [simp]:
  "clamp_panics lo hi x = Some y \<longleftrightarrow> lo \<le> hi \<and> y = clampi lo hi x"
  by (auto simp: clamp_panics_def)

text \<open>Truncating division: magnitude and sign.\<close>

lemma abs_sdiv: "\<bar>(a::int) sdiv b\<bar> = \<bar>a\<bar> div \<bar>b\<bar>"
  by (cases "b = 0")
    (auto simp: signed_divide_int_def abs_mult sgn_if pos_imp_zdiv_nonneg_iff zdiv_zminus1_eq_if)

lemma sdiv_nonneg: "0 \<le> (a::int) \<Longrightarrow> 0 \<le> b \<Longrightarrow> a sdiv b = a div b"
  by (cases "a = 0"; cases "b = 0") (auto simp: signed_divide_int_def sgn_if)

lemma sdiv_neg_num: "0 \<le> (a::int) \<Longrightarrow> 0 \<le> b \<Longrightarrow> (- a) sdiv b = - (a div b)"
  by (cases "a = 0"; cases "b = 0") (auto simp: signed_divide_int_def sgn_if)

lemma sdiv_minus_left: "(- a) sdiv b = - ((a::int) sdiv b)"
  by (simp add: signed_divide_int_def)

subsection \<open>Panics\<close>

primrec foldM :: "('a \<Rightarrow> 's \<Rightarrow> 's option) \<Rightarrow> 'a list \<Rightarrow> 's \<Rightarrow> 's option" where
  "foldM f [] s = Some s"
| "foldM f (x # xs) s = Option.bind (f x s) (foldM f xs)"

lemma bind_eq_Some [panic_simps]: "Option.bind x f = Some y \<longleftrightarrow> (\<exists>a. x = Some a \<and> f a = Some y)"
  by (cases x) auto

lemma foldM_append: "foldM f (xs @ ys) s = Option.bind (foldM f xs s) (foldM f ys)"
proof (induction xs arbitrary: s)
  case (Cons x xs)
  then show ?case by (cases "f x s") auto
qed simp

lemma foldM_cong [fundef_cong]:
  assumes "xs = ys" "s = t" "\<And>x u. x \<in> set ys \<Longrightarrow> f x u = g x u"
  shows "foldM f xs s = foldM g ys t"
  unfolding assms(1,2) using assms(3)
proof (induction ys arbitrary: t)
  case (Cons y ys)
  then show ?case by (cases "g y t") auto
qed simp

lemma foldM_rel:
  assumes "foldM f xs s = Some s'" and "R s s"
    and "\<And>x t t'. x \<in> set xs \<Longrightarrow> R s t \<Longrightarrow> f x t = Some t' \<Longrightarrow> R s t'"
  shows "R s s'"
proof -
  have "R s t \<Longrightarrow> foldM f ys t = Some s' \<Longrightarrow> set ys \<subseteq> set xs \<Longrightarrow> R s s'" for ys t
  proof (induction ys arbitrary: t)
    case (Cons y ys)
    from Cons.prems obtain u where u: "f y t = Some u" "foldM f ys u = Some s'"
      by (auto simp: panic_simps)
    have "R s u" using Cons.prems u(1) assms(3) by auto
    with u(2) Cons show ?case by auto
  qed simp
  with assms(1,2) show ?thesis by blast
qed

lemma foldM_safe:
  assumes "P s" and "\<And>x t. x \<in> set xs \<Longrightarrow> P t \<Longrightarrow> \<exists>t'. f x t = Some t' \<and> P t'"
  shows "\<exists>s'. foldM f xs s = Some s' \<and> P s'"
  using assms
proof (induction xs arbitrary: s)
  case (Cons x xs)
  from Cons.prems(2) [of x s] Cons.prems(1) obtain t where "f x s = Some t" "P t" by auto
  with Cons.IH [of t] Cons.prems(2) show ?case by auto
qed simp

text \<open>
  The interface of a state machine whose step may panic: a contract every operation of the
  simulation shares. An invariant kept by each returning step is kept by each returning run.
\<close>

locale panic_machine =
  fixes step_fun :: "'e \<Rightarrow> 's \<Rightarrow> 's option"
    and inv :: "'s \<Rightarrow> bool"
  assumes step_keeps: "inv s \<Longrightarrow> step_fun e s = Some s' \<Longrightarrow> inv s'"
begin

lemma run_keeps: "inv s \<Longrightarrow> foldM step_fun es s = Some s' \<Longrightarrow> inv s'"
proof (induction es arbitrary: s)
  case (Cons e es)
  then show ?case by (auto simp: panic_simps intro: step_keeps)
qed simp

end

subsection \<open>Iterator searches\<close>

text \<open>The position of the first match, as \<^verbatim>\<open>iter_mut().find(..)\<close> hands out for an update in place.\<close>

fun find_index :: "('a \<Rightarrow> bool) \<Rightarrow> 'a list \<Rightarrow> nat option" where
  "find_index P [] = None"
| "find_index P (x # xs) = (if P x then Some 0 else map_option Suc (find_index P xs))"

lemma find_index_Some: "find_index P xs = Some i \<Longrightarrow> i < length xs \<and> P (xs ! i)"
  by (induction P xs arbitrary: i rule: find_index.induct) (auto split: if_splits)

lemma find_index_None: "find_index P xs = None \<longleftrightarrow> (\<forall>x\<in>set xs. \<not> P x)"
  by (induction P xs rule: find_index.induct) auto

text \<open>A loop body that reads and replaces one element keeps any pointwise relation.\<close>

lemma list_all2_update:
  assumes "list_all2 R xs ys" "i < length ys" "\<And>x. x \<in> set xs \<Longrightarrow> R x (ys ! i) \<Longrightarrow> R x y"
  shows "list_all2 R xs (ys[i := y])"
  using assms by (auto simp: list_all2_conv_all_nth nth_list_update)

subsection \<open>BTreeMap and BTreeSet\<close>

type_synonym ('k, 'v) btree = "('k \<times> 'v) list"

fun bt_insert :: "'k::linorder \<Rightarrow> 'v \<Rightarrow> ('k, 'v) btree \<Rightarrow> ('k, 'v) btree" where
  "bt_insert k v [] = [(k, v)]"
| "bt_insert k v ((a, b) # m) =
     (if k < a then (k, v) # (a, b) # m else if k = a then (k, v) # m else (a, b) # bt_insert k v m)"

definition bt_get :: "('k, 'v) btree \<Rightarrow> 'k \<Rightarrow> 'v option" where
  "bt_get m k = map_of m k"

definition bt_remove :: "'k \<Rightarrow> ('k, 'v) btree \<Rightarrow> ('k, 'v) btree" where
  "bt_remove k m = filter (\<lambda>(a, _). a \<noteq> k) m"

definition bt_collect :: "('k::linorder \<times> 'v) list \<Rightarrow> ('k, 'v) btree" where
  "bt_collect xs = fold (\<lambda>(k, v). bt_insert k v) xs []"

definition bt_inv :: "('k::linorder, 'v) btree \<Rightarrow> bool" where
  "bt_inv m \<longleftrightarrow> sorted_wrt (<) (map fst m)"

fun bs_insert :: "'k::linorder \<Rightarrow> 'k list \<Rightarrow> 'k list" where
  "bs_insert k [] = [k]"
| "bs_insert k (a # s) = (if k < a then k # a # s else if k = a then a # s else a # bs_insert k s)"

definition bs_collect :: "'k::linorder list \<Rightarrow> 'k list" where
  "bs_collect xs = fold bs_insert xs []"

lemma assoc_list_by_keys:
  "distinct (map fst xs) \<Longrightarrow> map (\<lambda>k. (k, the (map_of xs k))) (map fst xs) = xs"
  by (auto intro!: map_idI simp: comp_def)

lemma strict_sorted_map_of_unique:
  fixes xs ys :: "('k::linorder \<times> 'v) list"
  assumes "sorted_wrt (<) (map fst xs)" "sorted_wrt (<) (map fst ys)" "map_of xs = map_of ys"
  shows "xs = ys"
proof -
  have d: "distinct (map fst xs)" "distinct (map fst ys)"
    using assms(1,2) strict_sorted_iff by blast+
  have "set (map fst xs) = set (map fst ys)"
    using assms(3) by (metis dom_map_of_conv_image_fst list.set_map)
  then have "map fst xs = map fst ys"
    using assms(1,2) strict_sorted_equal by blast
  then show ?thesis
    using assoc_list_by_keys [OF d(1)] assoc_list_by_keys [OF d(2)] assms(3) by simp
qed

lemma map_of_rev_eq: "distinct (map fst xs) \<Longrightarrow> map_of (rev xs) = map_of xs"
  by (metis distinct_rev map_of_inject_set rev_map set_rev)

text \<open>
  The interface the clients of a sorted map use: an insertion, a lookup, and the entries in key
  order. Two sorted maps with the same lookups have the same entries, and collecting an already
  sorted stream of pairs gives it back.
\<close>

locale ordered_map =
  fixes empty :: "'m"
    and insert :: "'k::linorder \<Rightarrow> 'v \<Rightarrow> 'm \<Rightarrow> 'm"
    and lookup :: "'m \<Rightarrow> 'k \<Rightarrow> 'v option"
    and entries :: "'m \<Rightarrow> ('k \<times> 'v) list"
    and inv :: "'m \<Rightarrow> bool"
  assumes inv_empty: "inv empty"
    and inv_insert: "inv m \<Longrightarrow> inv (insert k v m)"
    and entries_empty: "entries empty = []"
    and lookup_insert: "inv m \<Longrightarrow> lookup (insert k v m) = (lookup m)(k \<mapsto> v)"
    and lookup_entries: "inv m \<Longrightarrow> lookup m = map_of (entries m)"
    and entries_sorted: "inv m \<Longrightarrow> sorted_wrt (<) (map fst (entries m))"
begin

definition collect_in :: "('k \<times> 'v) list \<Rightarrow> 'm \<Rightarrow> 'm" where
  "collect_in xs m = fold (\<lambda>(k, v). insert k v) xs m"

lemma inv_collect: "inv m \<Longrightarrow> inv (collect_in xs m)"
  unfolding collect_in_def by (induction xs arbitrary: m) (auto intro: inv_insert)

lemma lookup_collect: "inv m \<Longrightarrow> lookup (collect_in xs m) = lookup m ++ map_of (rev xs)"
  unfolding collect_in_def
proof (induction xs arbitrary: m)
  case (Cons x xs)
  obtain k v where x: "x = (k, v)" by (cases x)
  with Cons.prems Cons.IH [of "insert k v m"] show ?case
    by (simp add: x inv_insert lookup_insert del: fun_upd_apply)
qed simp

lemma entries_unique: "inv m \<Longrightarrow> inv n \<Longrightarrow> lookup m = lookup n \<Longrightarrow> entries m = entries n"
  by (metis entries_sorted lookup_entries strict_sorted_map_of_unique)

lemma entries_collect_sorted:
  assumes "sorted_wrt (<) (map fst xs)"
  shows "entries (collect_in xs empty) = xs"
proof (rule strict_sorted_map_of_unique)
  have d: "distinct (map fst xs)" using assms strict_sorted_iff by blast
  show "sorted_wrt (<) (map fst (entries (collect_in xs empty)))"
    by (intro entries_sorted inv_collect inv_empty)
  show "map_of (entries (collect_in xs empty)) = map_of xs"
    using lookup_collect [OF inv_empty, of xs] lookup_entries [OF inv_collect, OF inv_empty, of xs]
      lookup_entries [OF inv_empty] d
    by (simp add: entries_empty map_of_rev_eq)
qed (rule assms)

end

lemma bt_insert_set: "set (map fst (bt_insert k v m)) = insert k (set (map fst m))"
  by (induction k v m rule: bt_insert.induct) auto

lemma bt_inv_insert: "bt_inv m \<Longrightarrow> bt_inv (bt_insert k v m)"
proof (unfold bt_inv_def, induction k v m rule: bt_insert.induct)
  case (2 k v a b m)
  then show ?case using bt_insert_set [of k v m] by force
qed simp

lemma bt_get_insert: "bt_inv m \<Longrightarrow> bt_get (bt_insert k v m) = (bt_get m)(k \<mapsto> v)"
  unfolding bt_get_def fun_eq_iff
  by (induction k v m rule: bt_insert.induct) (auto simp: bt_inv_def)

interpretation bt: ordered_map "[]" bt_insert bt_get "\<lambda>m. m" bt_inv
proof unfold_locales
  show "bt_inv []" by (simp add: bt_inv_def)
qed (auto simp: bt_inv_insert bt_get_insert simp del: fun_upd_apply,
  auto simp: bt_inv_def bt_get_def fun_eq_iff)

lemma bt_collect_eq: "bt_collect xs = bt.collect_in xs []"
  by (simp add: bt_collect_def bt.collect_in_def)

lemma bt_inv_collect [simp, intro]: "bt_inv (bt_collect xs)"
  by (simp add: bt_collect_eq bt.inv_collect bt.inv_empty)

lemma bt_collect_sorted: "sorted_wrt (<) (map fst xs) \<Longrightarrow> bt_collect xs = xs"
  by (simp add: bt_collect_eq bt.entries_collect_sorted)

lemma bt_inv_filter: "bt_inv m \<Longrightarrow> bt_inv (filter P m)"
  unfolding bt_inv_def sorted_wrt_map by (rule sorted_wrt_filter)

lemma bt_inv_remove: "bt_inv m \<Longrightarrow> bt_inv (bt_remove k m)"
  by (simp add: bt_remove_def bt_inv_filter)

lemma bt_get_remove: "bt_get (bt_remove k m) = (bt_get m)(k := None)"
  unfolding bt_get_def bt_remove_def fun_eq_iff by (induction m) auto

lemma bs_insert_set [simp]: "set (bs_insert k s) = insert k (set s)"
  by (induction k s rule: bs_insert.induct) auto

lemma bs_insert_sorted [simp]: "sorted_wrt (<) s \<Longrightarrow> sorted_wrt (<) (bs_insert k s)"
  by (induction k s rule: bs_insert.induct) auto

lemma bs_insert_present: "sorted_wrt (<) s \<Longrightarrow> k \<in> set s \<Longrightarrow> bs_insert k s = s"
  by (induction k s rule: bs_insert.induct) (auto)

lemma fold_bs_insert:
  "set (fold bs_insert xs s) = set xs \<union> set s"
  "sorted_wrt (<) s \<Longrightarrow> sorted_wrt (<) (fold bs_insert xs s)"
  by (induction xs arbitrary: s) auto

lemma bs_collect_sorted: "sorted_wrt (<) xs \<Longrightarrow> bs_collect xs = xs"
  unfolding bs_collect_def by (rule strict_sorted_equal) (auto simp: fold_bs_insert)

lemma set_bs_collect [simp]: "set (bs_collect xs) = set xs"
  by (simp add: bs_collect_def fold_bs_insert)

lemma sorted_bs_collect [simp]: "sorted_wrt (<) (bs_collect xs)"
  by (simp add: bs_collect_def fold_bs_insert)

lemma distinct_bs_collect [simp]: "distinct (bs_collect xs)"
  using sorted_bs_collect strict_sorted_iff by blast

lemma length_bs_collect: "length (bs_collect xs) = card (set xs)"
  by (metis distinct_bs_collect distinct_card set_bs_collect)

subsection \<open>Byte encodings\<close>

text \<open>
  Rust's \<^verbatim>\<open>to_be_bytes\<close> on an unsigned and on a signed 32-bit integer, and the interface of a
  self-delimiting encoding: from a stream that starts with an encoded value, the value and the rest
  of the stream are determined. Encodings compose by concatenation, and a length prefix makes a
  list of encoded items self-delimiting too.
\<close>

primrec be_bytes :: "nat \<Rightarrow> nat \<Rightarrow> nat list" where
  "be_bytes 0 x = []"
| "be_bytes (Suc n) x = (x div 256 ^ n) mod 256 # be_bytes n x"

definition be_i32 :: "i32 \<Rightarrow> nat list" where
  "be_i32 x = be_bytes 4 (nat (x mod 2 ^ 32))"

locale codec =
  fixes enc :: "'a \<Rightarrow> nat list"
    and valid :: "'a \<Rightarrow> bool"
  assumes self_delimiting:
    "valid a \<Longrightarrow> valid b \<Longrightarrow> enc a @ xs = enc b @ ys \<Longrightarrow> a = b \<and> xs = ys"
begin

lemma enc_inj: "valid a \<Longrightarrow> valid b \<Longrightarrow> enc a = enc b \<Longrightarrow> a = b"
  using self_delimiting [of a b "[]" "[]"] by simp

lemma list_self_delimiting:
  assumes "length as = length bs" "list_all valid as" "list_all valid bs"
    and "concat (map enc as) @ xs = concat (map enc bs) @ ys"
  shows "as = bs \<and> xs = ys"
  using assms
proof (induction as bs rule: list_induct2)
  case (Cons a as b bs)
  from Cons.prems have "enc a @ (concat (map enc as) @ xs) = enc b @ (concat (map enc bs) @ ys)"
    by simp
  with Cons.prems self_delimiting [of a b] have "a = b"
    and "concat (map enc as) @ xs = concat (map enc bs) @ ys"
    by fastforce+
  with Cons show ?case by auto
qed simp

end

lemma length_be_bytes [simp]: "length (be_bytes n x) = n"
  by (induction n) auto

lemma be_bytes_inj: "be_bytes n x = be_bytes n y \<Longrightarrow> x mod 256 ^ n = y mod 256 ^ n"
proof (induction n)
  case (Suc n)
  have base: "z mod 256 ^ Suc n = (z div 256 ^ n mod 256) * 256 ^ n + z mod 256 ^ n" for z :: nat
    using mod_mult2_eq [of z "256 ^ n" 256] by (simp add: mult.commute)
  from Suc show ?case by (simp add: base del: power_Suc)
qed simp

lemma be_bytes_inj_lt:
  "be_bytes n x = be_bytes n y \<Longrightarrow> x < 256 ^ n \<Longrightarrow> y < 256 ^ n \<Longrightarrow> x = y"
  using be_bytes_inj [of n x y] by simp

lemma fixed_width_codec:
  assumes "\<And>a. length (enc a) = n" "\<And>a b. valid a \<Longrightarrow> valid b \<Longrightarrow> enc a = enc b \<Longrightarrow> a = b"
  shows "codec enc valid"
  by unfold_locales (use assms in \<open>auto simp: append_eq_append_conv\<close>)

interpretation u8_codec: codec "be_bytes 1" "\<lambda>x. x < 2 ^ 8"
  by (rule fixed_width_codec [of _ 1]) (auto dest!: be_bytes_inj_lt)

interpretation u16_codec: codec "be_bytes 2" "\<lambda>x. x < 2 ^ 16"
  by (rule fixed_width_codec [of _ 2]) (auto dest!: be_bytes_inj_lt)

interpretation u32_codec: codec "be_bytes 4" "\<lambda>x. x < 2 ^ 32"
  by (rule fixed_width_codec [of _ 4]) (auto dest!: be_bytes_inj_lt)

interpretation u64_codec: codec "be_bytes 8" "\<lambda>x. x < 2 ^ 64"
  by (rule fixed_width_codec [of _ 8]) (auto dest!: be_bytes_inj_lt)

interpretation i32_codec: codec be_i32 in_i32
proof (rule fixed_width_codec [of _ 4])
  fix a b assume "in_i32 a" "in_i32 b" "be_i32 a = be_i32 b"
  then have "nat (a mod 2 ^ 32) = nat (b mod 2 ^ 32)"
    using u32_codec.enc_inj [of "nat (a mod 2 ^ 32)" "nat (b mod 2 ^ 32)"]
    by (simp add: be_i32_def nat_less_iff)
  then have "a mod 2 ^ 32 = b mod 2 ^ 32" by (simp add: eq_nat_nat_iff)
  with \<open>in_i32 a\<close> \<open>in_i32 b\<close> show "a = b"
    by (metis as_i32_id as_i32_def mod_add_left_eq)
qed (simp add: be_i32_def)

end
