(* ===== verification/Proto.thy ===== *)
theory Proto
  imports Prelude
begin

section \<open>The Agent Gateway protocol (\<^verbatim>\<open>src/arena/proto/src/lib.rs\<close>)\<close>

text \<open>
  The wire types of the protocol as records and datatypes, the version check of the handshake, the
  integer square root and the canonical move clamp every implementation shares.
  A \<^verbatim>\<open>Uuid\<close> is its sixteen bytes; a \<^verbatim>\<open>String\<close> its UTF-8 bytes as characters.
\<close>

type_synonym bam = u16
type_synonym team_id = u16
type_synonym seat_id = u8
type_synonym uuid = "nat list"

definition PROTOCOL_VERSION :: u32 where "PROTOCOL_VERSION = 1"
definition POSITION_SCALE :: i32 where "POSITION_SCALE = 1000"
definition MOVE_INTENT_SCALE :: i32 where "MOVE_INTENT_SCALE = 1000"

record vec2 =
  vx :: i32
  vy :: i32

definition vec2_zero :: vec2 where
  "vec2_zero = \<lparr>vx = 0, vy = 0\<rparr>"

datatype match_phase = Lobby | Starting | Live | Ended

datatype match_mode = Mode_Human | Mode_Agent | Mode_Mixed

datatype controller_kind = Ctl_Human | Ctl_Agent

record version_mismatch =
  ours :: u32
  theirs :: u32

definition check_version :: "u32 \<Rightarrow> version_mismatch + unit" where
  "check_version t =
     (if t = PROTOCOL_VERSION then Inr () else Inl \<lparr>ours = PROTOCOL_VERSION, theirs = t\<rparr>)"

datatype entity_kind = Player | Projectile_Entity | Pickup_Entity

record self_state =
  own_seat :: seat_id
  own_team :: team_id
  own_position :: vec2
  own_z :: i32
  own_z_vel :: i32
  own_facing :: bam
  own_velocity :: vec2
  own_health :: u16
  own_max_health :: u16
  own_shield :: u16
  own_ammo :: u16
  own_cooldown :: u16
  own_dash_cooldown :: u16
  own_score :: i32
  own_alive :: bool

record visible_entity =
  ve_entity_id :: u32
  ve_kind :: entity_kind
  ve_team :: team_id
  ve_position :: vec2
  ve_z :: i32
  ve_facing :: bam
  ve_in_line_of_sight :: bool

record observation =
  obs_protocol_version :: u32
  obs_match_id :: uuid
  obs_seat :: seat_id
  obs_tick :: u64
  obs_phase :: match_phase
  obs_starting_remaining :: u32
  obs_deadline_micros :: u32
  obs_own :: self_state
  obs_visible :: "visible_entity list"

record broadcast_entity =
  be_entity_id :: u32
  be_kind :: entity_kind
  be_team :: team_id
  be_position :: vec2
  be_z :: i32
  be_facing :: bam
  be_health :: u16
  be_max_health :: u16
  be_score :: i32
  be_alive :: bool

record broadcast =
  bc_protocol_version :: u32
  bc_match_id :: uuid
  bc_tick :: u64
  bc_phase :: match_phase
  bc_starting_remaining :: u32
  bc_entities :: "broadcast_entity list"

record action_buttons =
  btn_fire :: bool
  btn_jump :: bool
  btn_ability :: bool
  btn_reload :: bool

record action_intent =
  move_dir :: vec2
  aim :: bam
  buttons :: action_buttons

text \<open>
  \<^verbatim>\<open>isqrt_u64\<close>: Newton's iteration. The \<^verbatim>\<open>while\<close> loop is the recursion \<open>isqrt_loop\<close> on the pair of
  loop variables; it stops because \<open>x\<close> decreases. No intermediate value leaves \<^verbatim>\<open>u64\<close>
  (\<open>isqrt_loop_u64\<close> below), so plain \<^typ>\<open>nat\<close> arithmetic is the code's arithmetic.
\<close>

definition div_ceil :: "nat \<Rightarrow> nat \<Rightarrow> nat" where
  "div_ceil a b = (if a mod b > 0 then a div b + 1 else a div b)"

function isqrt_loop :: "nat \<Rightarrow> nat \<Rightarrow> nat \<Rightarrow> nat" where
  "isqrt_loop n x y = (if y < x then isqrt_loop n y ((y + n div y) div 2) else x)"
  by pat_completeness auto
termination
  by (relation "measure (\<lambda>(n, x, y). x)") auto

declare isqrt_loop.simps [simp del]

definition isqrt_u64 :: "u64 \<Rightarrow> u64" where
  "isqrt_u64 n = (if n < 2 then n else isqrt_loop n n (div_ceil n 2))"

text \<open>
  \<^verbatim>\<open>ActionIntent::clamped\<close>. The squares are taken in \<^verbatim>\<open>i64\<close> and summed in \<^verbatim>\<open>u64\<close>, which cannot
  overflow; the quotient truncates toward zero and is cast to \<^verbatim>\<open>i32\<close>.
\<close>

definition clamp_move :: "vec2 \<Rightarrow> vec2" where
  "clamp_move d =
     (let x = vx d; y = vy d;
          mag_sq = nat (x * x) + nat (y * y);
          mx = MOVE_INTENT_SCALE;
          max_sq = nat (mx * mx)
      in if mag_sq \<le> max_sq then d
         else let mag = int (max (isqrt_u64 mag_sq) 1)
              in \<lparr>vx = as_i32 ((x * mx) sdiv mag), vy = as_i32 ((y * mx) sdiv mag)\<rparr>)"

definition clamped :: "action_intent \<Rightarrow> action_intent" where
  "clamped a = \<lparr>move_dir = clamp_move (move_dir a), aim = aim a, buttons = buttons a\<rparr>"

record action =
  act_protocol_version :: u32
  act_match_id :: uuid
  act_seat :: seat_id
  act_tick :: u64
  act_intent :: action_intent

datatype action_error = Action_Version version_mismatch

definition action_validate :: "action \<Rightarrow> action_error + unit" where
  "action_validate a = map_sum Action_Version id (check_version (act_protocol_version a))"

definition button_bits :: "action_buttons \<Rightarrow> u8" where
  "button_bits b = of_bool (btn_fire b) + 2 * of_bool (btn_jump b)
     + 4 * of_bool (btn_ability b) + 8 * of_bool (btn_reload b)"

record seat_info =
  si_seat :: seat_id
  si_team :: team_id
  si_controller :: string

record seat_action =
  sa_seat :: seat_id
  sa_intent :: action_intent

record tick_record =
  tr_tick :: u64
  tr_actions :: "seat_action list"
  tr_forfeits :: "seat_id list"

record blocker =
  b_min :: vec2
  b_max :: vec2
  b_height :: i32

datatype pickup_kind = Health | Ammo | Shield

record pickup_spawn =
  ps_kind :: pickup_kind
  ps_position :: vec2
  ps_amount :: u16

record match_config =
  tick_hz :: u16
  max_ticks :: u64
  bounds :: vec2
  cfg_seats :: u8

record replay_record =
  rr_protocol_version :: u32
  rr_match_id :: uuid
  rr_seed :: u64
  rr_seats :: "seat_info list"
  rr_blockers :: "blocker list"
  rr_pickups :: "pickup_spawn list"
  rr_rules_commit :: "nat list"
  rr_config :: match_config
  rr_ticks :: "tick_record list"

record seat_outcome =
  so_seat :: seat_id
  so_team :: team_id
  so_placement :: u16
  so_score :: i32
  so_alive_at_end :: bool
  so_forfeited :: bool

record match_result =
  mr_protocol_version :: u32
  mr_match_id :: uuid
  mr_final_tick :: u64
  mr_outcomes :: "seat_outcome list"
  mr_replay_hash :: string

datatype spectator_msg = Frame broadcast | End match_result

subsection \<open>The integer square root\<close>

lemma newton_step_ge:
  assumes "0 < x" "s * s \<le> n"
  shows "s \<le> (x + n div x) div (2::nat)"
proof -
  have "2 * s \<le> x + n div x"
  proof (cases "2 * s \<le> x")
    case False
    have "(2 * s - x) * x \<le> s * s"
    proof -
      have "int ((2 * s - x) * x) = (2 * int s - int x) * int x"
        using False by (simp add: of_nat_diff)
      also have "\<dots> \<le> int s * int s"
        using zero_le_square [of "int s - int x"] by (simp add: algebra_simps)
      finally show ?thesis by (metis of_nat_le_iff of_nat_mult)
    qed
    with assms have "2 * s - x \<le> n div x"
      by (simp add: less_eq_div_iff_mult_less_eq)
    then show ?thesis by simp
  qed simp
  then show ?thesis by linarith
qed

lemma isqrt_loop_correct:
  assumes "0 < s" "s * s \<le> n" "n < (s + 1) * (s + 1)" "s \<le> x"
  shows "isqrt_loop n x ((x + n div x) div 2) = s"
  using assms(4)
proof (induction x rule: less_induct)
  case (less x)
  let ?y = "(x + n div x) div 2"
  have x: "0 < x" using assms(1) less.prems by simp
  have y: "s \<le> ?y" using newton_step_ge [OF x assms(2)] .
  show ?case
  proof (cases "?y < x")
    case True
    with less.IH [OF True y] show ?thesis by (simp add: isqrt_loop.simps [of n x])
  next
    case False
    then have "x \<le> n div x" by linarith
    then have "x * x \<le> n" using x by (simp add: less_eq_div_iff_mult_less_eq)
    with assms(3) have "x < s + 1"
      by (metis mult_le_mono linorder_not_less order_trans order_less_le_trans less_irrefl)
    with less.prems False show ?thesis by (simp add: isqrt_loop.simps [of n x])
  qed
qed

lemma nat_sqrt_exists: "\<exists>s::nat. s * s \<le> n \<and> n < (s + 1) * (s + 1)"
proof (induction n)
  case 0
  show ?case by (intro exI [of _ 0]) simp
next
  case (Suc n)
  then obtain s where s: "s * s \<le> n" "n < (s + 1) * (s + 1)" by blast
  show ?case
  proof (cases "Suc n < (s + 1) * (s + 1)")
    case True
    with s show ?thesis by (intro exI [of _ s]) simp
  next
    case False
    with s have "Suc n = (s + 1) * (s + 1)" by simp
    then show ?thesis by (intro exI [of _ "s + 1"]) simp
  qed
qed

lemma isqrt_bounds: "isqrt_u64 n * isqrt_u64 n \<le> n \<and> n < (isqrt_u64 n + 1) * (isqrt_u64 n + 1)"
proof (cases "n < 2")
  case True
  then have "n = 0 \<or> n = 1" by auto
  then show ?thesis by (auto simp: isqrt_u64_def)
next
  case False
  obtain s where s: "s * s \<le> n" "n < (s + 1) * (s + 1)" using nat_sqrt_exists by blast
  have pos: "0 < s" using s(2) False by (cases s) auto
  have le: "s \<le> n" using s(1) pos by (metis le_trans le_square)
  have "div_ceil n 2 = (n + n div n) div 2"
    using False by (simp add: div_ceil_def) presburger
  with isqrt_loop_correct [OF pos s le] False have "isqrt_u64 n = s"
    by (simp add: isqrt_u64_def)
  with s show ?thesis by simp
qed

lemma isqrt_unique: "s * s \<le> n \<Longrightarrow> n < (s + 1) * (s + 1) \<Longrightarrow> isqrt_u64 n = s"
  using isqrt_bounds [of n]
  by (metis add.commute le_neq_implies_less less_Suc_eq_le linorder_not_less mult_le_mono
      order_less_le_trans plus_1_eq_Suc order_less_irrefl linorder_less_linear Suc_leI)

text \<open>
  The Newton iteration of \<^verbatim>\<open>isqrt_u64\<close> returns the floor of the square root, for
  every input.
\<close>

theorem isqrt_u64_floor: "int (isqrt_u64 n) = \<lfloor>sqrt (real n)\<rfloor>"
proof -
  let ?s = "isqrt_u64 n"
  have "real (?s * ?s) \<le> real n" "real n < real ((?s + 1) * (?s + 1))"
    using isqrt_bounds [of n] by (simp_all only: of_nat_le_iff of_nat_less_iff)
  then have "real ?s * real ?s \<le> real n" "real n < (real ?s + 1) * (real ?s + 1)"
    by (simp_all add: algebra_simps)
  then have "real ?s \<le> sqrt (real n)" "sqrt (real n) < real ?s + 1"
    by (auto intro!: real_le_rsqrt real_less_lsqrt simp: power2_eq_square)
  then show ?thesis by (intro floor_unique [symmetric]) auto
qed

text \<open>No sum the loop forms leaves \<^verbatim>\<open>u64\<close>: the checked addition \<^verbatim>\<open>x + n / x\<close> cannot panic.\<close>

lemma isqrt_loop_u64:
  assumes "n < 2 ^ 64" "2 \<le> n" "isqrt_u64 n \<le> y" "y \<le> div_ceil n 2"
  shows "y + n div y < 2 ^ 64"
proof -
  let ?s = "isqrt_u64 n"
  have b: "?s * ?s \<le> n" "n < (?s + 1) * (?s + 1)" using isqrt_bounds by auto
  have pos: "0 < ?s" using b(2) assms(2) by (cases "?s = 0") auto
  have "n div y \<le> n div ?s" using assms(3) pos by (simp add: div_le_mono2)
  also have "n div ?s < ?s + 3"
    using b(2) pos by (simp add: less_mult_imp_div_less algebra_simps)
  finally have nd: "n div y < ?s + 3" .
  have "?s < 2 ^ 32"
  proof (rule ccontr)
    assume "\<not> ?s < 2 ^ 32"
    then have "2 ^ 32 * 2 ^ 32 \<le> ?s * ?s" by (intro mult_le_mono) auto
    with b(1) assms(1) show False by simp
  qed
  moreover have "div_ceil n 2 \<le> n div 2 + 1" by (simp add: div_ceil_def)
  ultimately show ?thesis using assms(1,4) nd by simp
qed

subsection \<open>The move clamp\<close>

lemma move_scale [simp]: "MOVE_INTENT_SCALE = 1000"
  by (simp add: MOVE_INTENT_SCALE_def)

definition norm_sq :: "vec2 \<Rightarrow> int" where
  "norm_sq d = vx d * vx d + vy d * vy d"

lemma norm_sq_nat: "nat (vx d * vx d) + nat (vy d * vy d) = nat (norm_sq d)"
  by (simp add: norm_sq_def nat_add_distrib)

lemma clamp_move_short: "norm_sq d \<le> 1000000 \<Longrightarrow> clamp_move d = d"
  by (simp add: clamp_move_def Let_def norm_sq_nat nat_le_iff)

lemma clamp_move_long:
  assumes "1000000 < norm_sq d"
  defines "s \<equiv> int (isqrt_u64 (nat (norm_sq d)))"
  shows "clamp_move d = \<lparr>vx = as_i32 ((vx d * 1000) sdiv s), vy = as_i32 ((vy d * 1000) sdiv s)\<rparr>"
    and "1000 \<le> s" "s * s \<le> norm_sq d" "norm_sq d < (s + 1) * (s + 1)"
proof -
  let ?n = "nat (norm_sq d)"
  have b: "isqrt_u64 ?n * isqrt_u64 ?n \<le> ?n" "?n < (isqrt_u64 ?n + 1) * (isqrt_u64 ?n + 1)"
    using isqrt_bounds by auto
  then show 1: "s * s \<le> norm_sq d" and 2: "norm_sq d < (s + 1) * (s + 1)"
    using assms(1) by (auto simp: s_def le_nat_iff nat_less_iff algebra_simps)
  show s: "1000 \<le> s"
  proof (rule ccontr)
    assume "\<not> 1000 \<le> s"
    then have "(s + 1) * (s + 1) \<le> 1000 * 1000" by (intro mult_mono) (auto simp: s_def)
    with 2 assms(1) show False by simp
  qed
  then show "clamp_move d = \<lparr>vx = as_i32 ((vx d * 1000) sdiv s), vy = as_i32 ((vy d * 1000) sdiv s)\<rparr>"
    using assms(1)
    by (auto simp: clamp_move_def Let_def norm_sq_nat nat_le_iff s_def max_def)
qed

lemma scaled_component:
  assumes "0 < (s::int)"
  shows "\<bar>(x * 1000) sdiv s\<bar> * s \<le> 1000 * \<bar>x\<bar>"
proof -
  have "\<bar>(x * 1000) sdiv s\<bar> = (\<bar>x\<bar> * 1000) div s" using assms by (simp add: abs_sdiv abs_mult)
  moreover have "(\<bar>x\<bar> * 1000) div s * s \<le> \<bar>x\<bar> * 1000"
    by (metis assms div_times_less_eq_dividend less_eq_int_code(1) linorder_not_less
        minus_mod_eq_div_mult diff_le_eq le_add_same_cancel1 pos_mod_sign)
  ultimately show ?thesis by simp
qed

lemma scaled_norm:
  assumes s: "1000 \<le> (s::int)" and n: "x * x + y * y < (s + 1) * (s + 1)"
  defines "a \<equiv> (x * 1000) sdiv s" and "b \<equiv> (y * 1000) sdiv s"
  shows "a * a + b * b < 1001 * 1001"
proof -
  have "0 < s" using s by simp
  have sq: "(\<bar>u\<bar> * s) * (\<bar>u\<bar> * s) \<le> (1000 * \<bar>v\<bar>) * (1000 * \<bar>v\<bar>)"
    if "\<bar>u\<bar> * s \<le> 1000 * \<bar>v\<bar>" for u v :: int
    using that \<open>0 < s\<close> by (intro mult_mono [OF that that]) auto
  have sq_eq: "u * u * (s * s) = (\<bar>u\<bar> * s) * (\<bar>u\<bar> * s)" for u :: int
  proof -
    have "(\<bar>u\<bar> * s) * (\<bar>u\<bar> * s) = (\<bar>u\<bar> * \<bar>u\<bar>) * (s * s)" by (simp only: mult_ac)
    then show ?thesis by (simp only: abs_mult_self_eq)
  qed
  have "(a * a + b * b) * (s * s) = (\<bar>a\<bar> * s) * (\<bar>a\<bar> * s) + (\<bar>b\<bar> * s) * (\<bar>b\<bar> * s)"
    by (simp only: distrib_right sq_eq)
  also have "\<dots> \<le> (1000 * \<bar>x\<bar>) * (1000 * \<bar>x\<bar>) + (1000 * \<bar>y\<bar>) * (1000 * \<bar>y\<bar>)"
    unfolding a_def b_def by (intro add_mono sq scaled_component \<open>0 < s\<close>)
  also have "\<dots> = 1000000 * (x * x + y * y)"
    using abs_mult_self_eq [of x] abs_mult_self_eq [of y] by (simp del: abs_mult_self_eq)
  also have "\<dots> < 1000000 * ((s + 1) * (s + 1))" using n by simp
  also have "\<dots> = (1000 * (s + 1)) * (1000 * (s + 1))" by (simp add: algebra_simps)
  also have "\<dots> \<le> (1001 * s) * (1001 * s)"
  proof -
    have "1000 * (s + 1) \<le> 1001 * s" using s by simp
    from mult_mono [OF this this] s show ?thesis by simp
  qed
  finally have "(a * a + b * b) * (s * s) < (1001 * 1001) * (s * s)" by (simp add: algebra_simps)
  then show ?thesis using \<open>0 < s\<close> by (simp add: mult_less_cancel_right)
qed

lemma small_sq_in_i32: "a * a + b * b < 1001 * 1001 \<Longrightarrow> in_i32 a \<and> in_i32 (b::int)"
proof -
  assume *: "a * a + b * b < 1001 * 1001"
  have "\<bar>u\<bar> < 1001" if "u * u < 1001 * 1001" for u :: int
    using that by (metis abs_ge_zero abs_mult_self_eq linorder_not_less mult_mono zero_le_numeral)
  moreover have "a * a < 1001 * 1001" "b * b < 1001 * 1001"
    using * zero_le_square [of a] zero_le_square [of b] by linarith+
  ultimately have "\<bar>a\<bar> < 1001" "\<bar>b\<bar> < 1001" by blast+
  then show ?thesis by (auto simp: in_i32_def)
qed

lemma norm_clamp_move: "norm_sq (clamp_move d) < 1001 * 1001"
proof (cases "norm_sq d \<le> 1000000")
  case True
  then show ?thesis by (simp add: clamp_move_short)
next
  case False
  let ?s = "int (isqrt_u64 (nat (norm_sq d)))"
  from False have long: "1000000 < norm_sq d" by simp
  note c = clamp_move_long [OF long]
  have "norm_sq \<lparr>vx = (vx d * 1000) sdiv ?s, vy = (vy d * 1000) sdiv ?s\<rparr> < 1001 * 1001"
    using scaled_norm [OF c(2), of "vx d" "vy d"] c(4) by (simp add: norm_sq_def)
  with small_sq_in_i32 c(1) show ?thesis by (simp add: norm_sq_def)
qed

lemma clamp_move_in_i32: "in_i32 (vx d) \<Longrightarrow> in_i32 (vy d) \<Longrightarrow> in_i32 (vx (clamp_move d)) \<and> in_i32 (vy (clamp_move d))"
  using norm_clamp_move [of d] small_sq_in_i32 by (simp add: norm_sq_def)

lemma clamp_move_idem [simp]: "clamp_move (clamp_move d) = clamp_move d"
proof (cases "norm_sq (clamp_move d) \<le> 1000000")
  case True
  then show ?thesis by (simp add: clamp_move_short)
next
  case False
  define e where "e = clamp_move d"
  have e: "1000000 < norm_sq e" "norm_sq e < 1001 * 1001"
    using False norm_clamp_move [of d] by (auto simp: e_def)
  have s: "isqrt_u64 (nat (norm_sq e)) = 1000"
    using e by (intro isqrt_unique) (auto simp: le_nat_iff nat_less_iff)
  have id: "(u * 1000) sdiv 1000 = (u::int)" for u
    by (cases "0 \<le> u") (use sdiv_nonneg [of "u * 1000" 1000] sdiv_neg_num [of "- (u * 1000)" 1000] in auto)
  have "in_i32 (vx e)" "in_i32 (vy e)"
    using small_sq_in_i32 e(2) by (auto simp: norm_sq_def)
  with clamp_move_long(1) [OF e(1)] have "clamp_move e = e"
    by (simp add: s id)
  then show ?thesis by (simp add: e_def)
qed

lemma clamped_idem [simp]: "clamped (clamped a) = clamped a"
  by (simp add: clamped_def)

end
