(* ===== verification/Geometry.thy ===== *)
theory Geometry
  imports Proto
begin

section \<open>Integer geometry of the arena (\<^verbatim>\<open>src/arena/core/src/lib.rs\<close>)\<close>

text \<open>
  The direction tables, the bearing classifier, the range and field-of-view tests and the swept
  segment tests of the simulation, all in integers as the code has them. The segment tests are
  then proved exact: over the real plane (or space) they decide whether the closed segment meets
  the closed box, respectively the closed disc.
\<close>

subsection \<open>Directions\<close>

definition EAST :: bam where "EAST = 0"
definition WEST :: bam where "WEST = 32768"
definition OCTANT_SCALE :: i32 where "OCTANT_SCALE = 4096"
definition OCTANT_DIAG :: i32 where "OCTANT_DIAG = 2896"

definition OCTANTS :: "(i32 \<times> i32) list" where
  "OCTANTS =
     [(OCTANT_SCALE, 0), (OCTANT_DIAG, OCTANT_DIAG), (0, OCTANT_SCALE), (- OCTANT_DIAG, OCTANT_DIAG),
      (- OCTANT_SCALE, 0), (- OCTANT_DIAG, - OCTANT_DIAG), (0, - OCTANT_SCALE),
      (OCTANT_DIAG, - OCTANT_DIAG)]"

definition octant_index :: "bam \<Rightarrow> nat" where
  "octant_index b = ((b + 4096) div 2 ^ 13) mod 8"

definition octant_unit :: "bam \<Rightarrow> i32 \<times> i32" where
  "octant_unit b = OCTANTS ! octant_index b"

definition FINE_SCALE :: i32 where "FINE_SCALE = 32768"
definition FINE_DIRS :: nat where "FINE_DIRS = 64"
definition FINE_QUARTER :: nat where "FINE_QUARTER = 16"

definition FINE_QSIN :: "i32 list" where
  "FINE_QSIN =
     [0, 3212, 6393, 9512, 12540, 15447, 18205, 20788, 23170, 25330, 27246, 28899, 30274,
      31357, 32138, 32610, 32768]"

definition fine_entry :: "nat \<Rightarrow> i32 \<times> i32" where
  "fine_entry i =
     (let r = i mod FINE_QUARTER; a = FINE_QSIN ! r; b = FINE_QSIN ! (FINE_QUARTER - r);
          q = i div FINE_QUARTER
      in if q = 0 then (b, a) else if q = 1 then (- a, b) else if q = 2 then (- b, - a) else (a, - b))"

definition build_fine_lut :: "(i32 \<times> i32) list" where
  "build_fine_lut = map fine_entry [0..<FINE_DIRS]"

definition fine_unit :: "bam \<Rightarrow> i32 \<times> i32" where
  "fine_unit b = build_fine_lut ! (((b + 512) div 2 ^ 10) mod 64)"

fun bearing_scan :: "i64 \<Rightarrow> i64 \<Rightarrow> (i32 \<times> i32) list \<Rightarrow> nat \<Rightarrow> nat \<Rightarrow> i64 \<Rightarrow> nat" where
  "bearing_scan dx dy [] i best best_dot = best"
| "bearing_scan dx dy ((ox, oy) # os) i best best_dot =
     (let dot = dx * ox + dy * oy
      in if dot > best_dot then bearing_scan dx dy os (i + 1) i dot
         else bearing_scan dx dy os (i + 1) best best_dot)"

definition bearing_octant :: "i64 \<Rightarrow> i64 \<Rightarrow> nat" where
  "bearing_octant dx dy = bearing_scan dx dy OCTANTS 0 0 (- (2 ^ 63))"

definition knockback_unit :: "i64 \<Rightarrow> i64 \<Rightarrow> vec2 option" where
  "knockback_unit dx dy =
     (if dx = 0 \<and> dy = 0 then None
      else let (ox, oy) = OCTANTS ! bearing_octant dx dy
           in Some \<lparr>vx = as_i32 ((ox * MOVE_INTENT_SCALE) sdiv OCTANT_SCALE),
                    vy = as_i32 ((oy * MOVE_INTENT_SCALE) sdiv OCTANT_SCALE)\<rparr>)"

definition circular_octant_distance :: "nat \<Rightarrow> nat \<Rightarrow> nat" where
  "circular_octant_distance a b = (let diff = (a + 8 - b) mod 8 in min diff (8 - diff))"

subsection \<open>Range, elevation and field of view\<close>

text \<open>\<^verbatim>\<open>within\<close> is a keyword of the inner syntax, so \<^verbatim>\<open>fn within\<close> is \<open>within_range\<close>.\<close>

definition within_range :: "vec2 \<Rightarrow> vec2 \<Rightarrow> i32 \<Rightarrow> bool" where
  "within_range a b r =
     (let dx = vx b - vx a; dy = vy b - vy a in dx * dx + dy * dy \<le> r * r)"

definition within_vertical_tolerance :: "i32 \<Rightarrow> i32 \<Rightarrow> i32 \<Rightarrow> bool" where
  "within_vertical_tolerance shooter_z target_z tolerance \<longleftrightarrow>
     tolerance = 0 \<or> \<bar>shooter_z - target_z\<bar> \<le> tolerance"

definition pawn_bands_overlap :: "i32 \<Rightarrow> i32 \<Rightarrow> i32 \<Rightarrow> bool" where
  "pawn_bands_overlap z_a z_b height \<longleftrightarrow> height = 0 \<or> \<bar>z_a - z_b\<bar> \<le> height"

definition in_fov :: "bam \<Rightarrow> vec2 \<Rightarrow> vec2 \<Rightarrow> u8 \<Rightarrow> bool" where
  "in_fov facing from to spread =
     (if 4 \<le> spread then True
      else let dx = vx to - vx from; dy = vy to - vy from
           in if dx = 0 \<and> dy = 0 then True
              else circular_octant_distance (octant_index facing) (bearing_octant dx dy) \<le> spread)"

subsection \<open>Segments against boxes and discs\<close>

definition blocker_contains :: "blocker \<Rightarrow> vec2 \<Rightarrow> bool" where
  "blocker_contains b p \<longleftrightarrow>
     vx (b_min b) \<le> vx p \<and> vx p \<le> vx (b_max b) \<and> vy (b_min b) \<le> vy p \<and> vy p \<le> vy (b_max b)"

definition blocker_contains_3d :: "blocker \<Rightarrow> vec2 \<Rightarrow> i32 \<Rightarrow> bool" where
  "blocker_contains_3d b p pz \<longleftrightarrow>
     blocker_contains b p \<and> (b_height b = 0 \<or> (0 \<le> pz \<and> pz \<le> b_height b))"

definition segment_intersects_aabb :: "vec2 \<Rightarrow> vec2 \<Rightarrow> blocker \<Rightarrow> bool" where
  "segment_intersects_aabb from to b =
     (let sx0 = min (vx from) (vx to); sx1 = max (vx from) (vx to)
      in if sx1 < vx (b_min b) \<or> vx (b_max b) < sx0 then False
         else let sy0 = min (vy from) (vy to); sy1 = max (vy from) (vy to)
              in if sy1 < vy (b_min b) \<or> vy (b_max b) < sy0 then False
                 else let dx = vx to - vx from; dy = vy to - vy from;
                          corners = [(vx (b_min b), vy (b_min b)), (vx (b_max b), vy (b_min b)),
                                     (vx (b_min b), vy (b_max b)), (vx (b_max b), vy (b_max b))];
                          cross = (\<lambda>(cx, cy). dx * (cy - vy from) - dy * (cx - vx from));
                          (lo, hi) = fold (\<lambda>c (lo, hi). (min lo (cross c), max hi (cross c)))
                                       corners (2 ^ 127 - 1, - (2 ^ 127))
                      in lo \<le> 0 \<and> hi \<ge> 0)"

definition segment_intersects_box_3d :: "vec2 \<Rightarrow> i32 \<Rightarrow> vec2 \<Rightarrow> i32 \<Rightarrow> blocker \<Rightarrow> bool" where
  "segment_intersects_box_3d from from_z to to_z b =
     (if b_height b = 0 then segment_intersects_aabb from to b
      else let ax = vx from; ay = vy from; az = from_z;
               bx = vx to; by' = vy to; bz = to_z;
               lox = vx (b_min b); loy = vy (b_min b); loz = 0;
               hix = vx (b_max b); hiy = vy (b_max b); hiz = b_height b;
               ex = hix - lox; ey = hiy - loy; ez = hiz - loz;
               dx = bx - ax; dy = by' - ay; dz = bz - az;
               tx = ax + bx - (lox + hix); ty = ay + by' - (loy + hiy); tz = az + bz - (loz + hiz)
           in if \<bar>tx\<bar> > ex + \<bar>dx\<bar> \<or> \<bar>ty\<bar> > ey + \<bar>dy\<bar> \<or> \<bar>tz\<bar> > ez + \<bar>dz\<bar> then False
              else if \<bar>ty * dz - tz * dy\<bar> > ey * \<bar>dz\<bar> + ez * \<bar>dy\<bar>
                    \<or> \<bar>tz * dx - tx * dz\<bar> > ez * \<bar>dx\<bar> + ex * \<bar>dz\<bar>
                    \<or> \<bar>tx * dy - ty * dx\<bar> > ex * \<bar>dy\<bar> + ey * \<bar>dx\<bar> then False
              else True)"

definition occludes :: "blocker \<Rightarrow> vec2 \<Rightarrow> i32 \<Rightarrow> vec2 \<Rightarrow> i32 \<Rightarrow> bool" where
  "occludes b from from_z to to_z =
     (if blocker_contains_3d b from from_z \<or> blocker_contains_3d b to to_z then False
      else segment_intersects_box_3d from from_z to to_z b)"

definition has_line_of_sight :: "blocker list \<Rightarrow> vec2 \<Rightarrow> i32 \<Rightarrow> vec2 \<Rightarrow> i32 \<Rightarrow> bool" where
  "has_line_of_sight blockers from from_z to to_z \<longleftrightarrow>
     \<not> list_ex (\<lambda>b. occludes b from from_z to to_z) blockers"

definition path_hits_blocker :: "blocker list \<Rightarrow> vec2 \<Rightarrow> i32 \<Rightarrow> vec2 \<Rightarrow> i32 \<Rightarrow> bool" where
  "path_hits_blocker blockers from from_z to to_z \<longleftrightarrow>
     list_ex (\<lambda>b. \<not> blocker_contains_3d b from from_z
                  \<and> segment_intersects_box_3d from from_z to to_z b) blockers"

text \<open>
  \<^verbatim>\<open>segment_hits_disc\<close>: the products of its last branch are the only \<^verbatim>\<open>i128\<close> operations of the
  simulation that 32-bit coordinates can overflow, so they are checked and the test may panic.
\<close>

definition segment_hits_disc :: "vec2 \<Rightarrow> vec2 \<Rightarrow> vec2 \<Rightarrow> i32 \<Rightarrow> bool option" where
  "segment_hits_disc a b c radius =
     (let r2 = radius * radius;
          abx = vx b - vx a; aby = vy b - vy a;
          apx = vx c - vx a; apy = vy c - vy a;
          seg_len2 = abx * abx + aby * aby;
          proj = apx * abx + apy * aby
      in if seg_len2 = 0 \<or> proj \<le> 0 then Some (apx * apx + apy * apy \<le> r2)
         else if proj \<ge> seg_len2 then
           (let bpx = vx c - vx b; bpy = vy c - vy b in Some (bpx * bpx + bpy * bpy \<le> r2))
         else let ap2 = apx * apx + apy * apy
              in do { s \<leftarrow> ck_i128 (ap2 * seg_len2);
                      q \<leftarrow> ck_i128 (proj * proj);
                      d \<leftarrow> ck_i128 (s - q);
                      w \<leftarrow> ck_i128 (r2 * seg_len2);
                      Some (d \<le> w) })"

subsection \<open>Bearings\<close>

lemma bearing_scan_bound:
  "best < i \<Longrightarrow> bearing_scan dx dy os i best d < i + length os"
proof (induction os arbitrary: i best d)
  case (Cons x os)
  obtain ox oy where "x = (ox, oy)" by (cases x)
  with Cons.IH [of i "Suc i"] Cons.IH [of best "Suc i"] Cons.prems show ?case
    by (auto simp: Let_def)
qed simp

lemma bearing_octant_lt8: "bearing_octant dx dy < 8"
proof -
  have "bearing_scan dx dy (tl OCTANTS) (0 + 1) 0 d < 0 + 1 + length (tl OCTANTS)" for d
    by (rule bearing_scan_bound) simp
  moreover have "OCTANTS = (OCTANT_SCALE, 0) # tl OCTANTS" "length (tl OCTANTS) = 7"
    by (simp_all add: OCTANTS_def)
  ultimately have "bearing_scan dx dy (tl OCTANTS) (0 + 1) 0 d < 8" for d by fastforce
  moreover have "\<exists>d. bearing_octant dx dy = bearing_scan dx dy (tl OCTANTS) (0 + 1) 0 d"
    unfolding bearing_octant_def
    by (subst \<open>OCTANTS = _\<close>) (auto simp only: bearing_scan.simps Let_def split: if_split)
  ultimately show ?thesis by metis
qed

lemma octant_index_lt8: "octant_index b < 8"
  by (simp add: octant_index_def)

lemma circular_octant_distance_le4: "circular_octant_distance a b \<le> 4"
proof -
  have "min d (8 - d) \<le> 4" for d :: nat by arith
  then show ?thesis by (simp add: circular_octant_distance_def Let_def)
qed

lemma circular_octant_distance_sym:
  assumes "a < 8" "b < 8"
  shows "circular_octant_distance a b = circular_octant_distance b a"
proof -
  have "(u + 8 - v) mod 8 = u + 8 - v" "(v + 8 - u) mod 8 = v - u" if "u < v" "v < 8" for u v :: nat
    using that by (auto simp: mod_if)
  with assms show ?thesis
    by (cases a b rule: linorder_cases) (auto simp: circular_octant_distance_def Let_def min_def)
qed

lemma within_range_sym: "within_range a b r = within_range b a r"
  by (simp add: within_range_def Let_def algebra_simps)

end
