(* ===== verification/Geometry_Exact.thy ===== *)
theory Geometry_Exact
  imports Geometry
begin

section \<open>Exactness of the integer segment tests\<close>

text \<open>
  The separating-axis tests of \<^verbatim>\<open>segment_intersects_aabb\<close> and \<^verbatim>\<open>segment_intersects_box_3d\<close> and the
  distance test of \<^verbatim>\<open>segment_hits_disc\<close> decide their geometric meaning over the reals, boundary
  contact included. A box is an intersection of slabs, a slab cuts the line of the segment in a
  convex set of parameters, and convex sets of reals that meet pairwise meet together (Helly in
  dimension one), which is why the axes the code tests suffice.
\<close>

subsection \<open>Slabs along a line\<close>

definition slab :: "real \<Rightarrow> real \<Rightarrow> real \<Rightarrow> real \<Rightarrow> real \<Rightarrow> bool" where
  "slab a d lo hi t \<longleftrightarrow> lo \<le> a + t * d \<and> a + t * d \<le> hi"

definition unit_par :: "real \<Rightarrow> bool" where
  "unit_par t \<longleftrightarrow> 0 \<le> t \<and> t \<le> 1"

definition convex_par :: "(real \<Rightarrow> bool) \<Rightarrow> bool" where
  "convex_par P \<longleftrightarrow> (\<forall>s t u. P s \<longrightarrow> P u \<longrightarrow> s \<le> t \<longrightarrow> t \<le> u \<longrightarrow> P t)"

lemma convex_unit [intro]: "convex_par unit_par"
  by (auto simp: convex_par_def unit_par_def)

lemma convex_slab [intro]: "convex_par (slab a d lo hi)"
  unfolding convex_par_def slab_def
proof (intro allI impI)
  fix s t u
  assume *: "lo \<le> a + s * d \<and> a + s * d \<le> hi" "lo \<le> a + u * d \<and> a + u * d \<le> hi" "s \<le> t" "t \<le> u"
  show "lo \<le> a + t * d \<and> a + t * d \<le> hi"
  proof (cases "0 \<le> d")
    case True
    then have "s * d \<le> t * d" "t * d \<le> u * d" using * by (auto intro: mult_right_mono)
    with * show ?thesis by linarith
  next
    case False
    then have "u * d \<le> t * d" "t * d \<le> s * d" using * by (auto intro: mult_right_mono_neg)
    with * show ?thesis by linarith
  qed
qed

lemma convex_conj [intro]: "convex_par P \<Longrightarrow> convex_par Q \<Longrightarrow> convex_par (\<lambda>t. P t \<and> Q t)"
  unfolding convex_par_def by blast

lemma helly3:
  assumes "convex_par P" "convex_par Q" "convex_par R"
    and "\<exists>t. P t \<and> Q t" "\<exists>t. Q t \<and> R t" "\<exists>t. P t \<and> R t"
  shows "\<exists>t. P t \<and> Q t \<and> R t"
proof -
  obtain x y z where x: "P x" "Q x" and y: "Q y" "R y" and z: "P z" "R z" using assms(4-6) by blast
  have mid: "C t" if "convex_par C" "C u" "C v" "u \<le> t \<and> t \<le> v \<or> v \<le> t \<and> t \<le> u" for C t u v
    using that unfolding convex_par_def by blast
  consider "y \<le> x \<and> x \<le> z \<or> z \<le> x \<and> x \<le> y" | "x \<le> y \<and> y \<le> z \<or> z \<le> y \<and> y \<le> x"
    | "x \<le> z \<and> z \<le> y \<or> y \<le> z \<and> z \<le> x" by linarith
  then show ?thesis
  proof cases
    case 1
    then have "R x" by (rule mid [OF assms(3) y(2) z(2)])
    with x show ?thesis by blast
  next
    case 2
    then have "P y" by (rule mid [OF assms(1) x(1) z(1)])
    with y show ?thesis by blast
  next
    case 3
    then have "Q z" by (rule mid [OF assms(2) x(2) y(1)])
    with z show ?thesis by blast
  qed
qed

lemma helly4:
  assumes "convex_par P" "convex_par Q" "convex_par R" "convex_par S"
    and "\<exists>t. P t \<and> Q t" "\<exists>t. P t \<and> R t" "\<exists>t. P t \<and> S t" "\<exists>t. Q t \<and> R t" "\<exists>t. Q t \<and> S t"
    and "\<exists>t. R t \<and> S t"
  shows "\<exists>t. P t \<and> Q t \<and> R t \<and> S t"
proof -
  have "\<exists>t. (P t \<and> Q t) \<and> (P t \<and> R t) \<and> (P t \<and> S t)"
    by (rule helly3)
      (use helly3 [of P Q R] helly3 [of P Q S] helly3 [of P R S] assms in blast)+
  then show ?thesis by blast
qed

text \<open>A face normal as separating axis: the unit interval against one slab.\<close>

lemma unit_slab_iff:
  assumes "lo \<le> hi"
  shows "(\<exists>t. unit_par t \<and> slab a d lo hi t) \<longleftrightarrow> \<bar>2 * a + d - (lo + hi)\<bar> \<le> hi - lo + \<bar>d\<bar>"
    (is "?L = ?R")
proof
  assume ?L
  then obtain t where t: "0 \<le> t" "t \<le> 1" "lo \<le> a + t * d" "a + t * d \<le> hi"
    by (auto simp: unit_par_def slab_def)
  have "\<bar>(2 * t - 1) * d\<bar> \<le> 1 * \<bar>d\<bar>"
    unfolding abs_mult using t by (intro mult_right_mono) auto
  then have "\<bar>2 * (a + t * d) - (2 * a + d)\<bar> \<le> \<bar>d\<bar>" by (simp add: algebra_simps)
  then show ?R using t(3,4) by (simp add: abs_le_iff)
next
  assume R: ?R
  consider "lo \<le> a" "a \<le> hi" | "lo \<le> a + d" "a + d \<le> hi" | "a < lo" "hi < a + d" | "hi < a" "a + d < lo"
    using R assms by linarith
  then show ?L
  proof cases
    case 1
    then show ?thesis by (intro exI [of _ 0]) (simp add: unit_par_def slab_def)
  next
    case 2
    then show ?thesis by (intro exI [of _ 1]) (simp add: unit_par_def slab_def)
  next
    case 3
    then show ?thesis using assms
      by (intro exI [of _ "(lo - a) / d"]) (auto simp: unit_par_def slab_def field_simps)
  next
    case 4
    then show ?thesis using assms
      by (intro exI [of _ "(lo - a) / d"]) (auto simp: unit_par_def slab_def field_simps)
  qed
qed

text \<open>A cross product as separating axis: two slabs of different axes against each other.\<close>

lemma slab_centred:
  assumes "d \<noteq> 0"
  shows "slab a d lo hi t \<longleftrightarrow> \<bar>t - ((lo + hi) / 2 - a) / d\<bar> \<le> (hi - lo) / 2 / \<bar>d\<bar>"
proof -
  have "\<bar>t - ((lo + hi) / 2 - a) / d\<bar> = \<bar>a + t * d - (lo + hi) / 2\<bar> / \<bar>d\<bar>"
  proof -
    have "t - ((lo + hi) / 2 - a) / d = (a + t * d - (lo + hi) / 2) / d"
      using assms by (simp add: field_simps)
    then show ?thesis by (simp add: abs_divide)
  qed
  then have "\<bar>t - ((lo + hi) / 2 - a) / d\<bar> \<le> (hi - lo) / 2 / \<bar>d\<bar>
      \<longleftrightarrow> \<bar>a + t * d - (lo + hi) / 2\<bar> \<le> (hi - lo) / 2"
    using assms by (simp only: divide_le_cancel) auto
  then show ?thesis unfolding slab_def by (auto simp: abs_le_iff field_simps)
qed

lemma centred_meet:
  assumes "\<bar>c - c'\<bar> \<le> r + r'" "0 \<le> r" "0 \<le> (r'::real)"
  shows "\<exists>t. \<bar>t - c\<bar> \<le> r \<and> \<bar>t - c'\<bar> \<le> r'"
  using assms by (intro exI [of _ "max (c - r) (c' - r')"]) (auto simp: max_def abs_le_iff)

lemma slab_slab_iff:
  assumes wf: "lo \<le> hi" "lo' \<le> hi'"
    and ne: "\<exists>t. slab a d lo hi t" "\<exists>t. slab a' d' lo' hi' t"
  shows "(\<exists>t. slab a d lo hi t \<and> slab a' d' lo' hi' t) \<longleftrightarrow>
    \<bar>(2 * a - (lo + hi)) * d' - (2 * a' - (lo' + hi')) * d\<bar> \<le> (hi - lo) * \<bar>d'\<bar> + (hi' - lo') * \<bar>d\<bar>"
    (is "?L = (\<bar>?c\<bar> \<le> ?r)")
proof
  assume ?L
  then obtain t where sl: "slab a d lo hi t" "slab a' d' lo' hi' t" by blast
  have t: "\<bar>2 * (a + t * d) - (lo + hi)\<bar> \<le> hi - lo" "\<bar>2 * (a' + t * d') - (lo' + hi')\<bar> \<le> hi' - lo'"
    using sl by (auto simp: slab_def abs_le_iff)
  have "?c = (2 * (a + t * d) - (lo + hi)) * d' - (2 * (a' + t * d') - (lo' + hi')) * d"
    by (simp add: algebra_simps)
  also have "\<bar>\<dots>\<bar> \<le> \<bar>2 * (a + t * d) - (lo + hi)\<bar> * \<bar>d'\<bar> + \<bar>2 * (a' + t * d') - (lo' + hi')\<bar> * \<bar>d\<bar>"
    by (metis abs_mult abs_triangle_ineq4)
  also have "\<dots> \<le> ?r" using t by (intro add_mono mult_right_mono) auto
  finally show "\<bar>?c\<bar> \<le> ?r" .
next
  assume R: "\<bar>?c\<bar> \<le> ?r"
  show ?L
  proof (cases "d = 0 \<or> d' = 0")
    case True
    with ne show ?thesis by (auto simp: slab_def)
  next
    case False
    then have nz: "d \<noteq> 0" "d' \<noteq> 0" by auto
    let ?u = "((lo + hi) / 2 - a) / d" and ?v = "((lo' + hi') / 2 - a') / d'"
    have "?u - ?v = - ?c / (2 * d * d')" using nz by (simp add: field_simps)
    then have "\<bar>?u - ?v\<bar> = \<bar>?c\<bar> / (2 * \<bar>d\<bar> * \<bar>d'\<bar>)" by (simp add: abs_divide abs_mult abs_minus_commute)
    also have "\<dots> \<le> ?r / (2 * \<bar>d\<bar> * \<bar>d'\<bar>)" using R by (intro divide_right_mono) auto
    also have "\<dots> = (hi - lo) / 2 / \<bar>d\<bar> + (hi' - lo') / 2 / \<bar>d'\<bar>" using nz by (simp add: field_simps)
    finally have "\<exists>t. \<bar>t - ?u\<bar> \<le> (hi - lo) / 2 / \<bar>d\<bar> \<and> \<bar>t - ?v\<bar> \<le> (hi' - lo') / 2 / \<bar>d'\<bar>"
      using wf by (intro centred_meet) auto
    then show ?thesis by (simp add: slab_centred nz)
  qed
qed

subsection \<open>Segment against box\<close>

definition wf_blocker :: "blocker \<Rightarrow> bool" where
  "wf_blocker b \<longleftrightarrow> vx (b_min b) \<le> vx (b_max b) \<and> vy (b_min b) \<le> vy (b_max b) \<and> 0 \<le> b_height b"

text \<open>
  The meaning of the tests: some point of the closed segment lies in the closed box, whose vertical
  extent is \<open>[0, height]\<close>, or all elevations when the height is \<open>0\<close>.
\<close>

definition segment_meets_box :: "vec2 \<Rightarrow> i32 \<Rightarrow> vec2 \<Rightarrow> i32 \<Rightarrow> blocker \<Rightarrow> bool" where
  "segment_meets_box from from_z to to_z b \<longleftrightarrow>
     (\<exists>t::real. 0 \<le> t \<and> t \<le> 1
        \<and> vx (b_min b) \<le> vx from + t * (vx to - vx from) \<and> vx from + t * (vx to - vx from) \<le> vx (b_max b)
        \<and> vy (b_min b) \<le> vy from + t * (vy to - vy from) \<and> vy from + t * (vy to - vy from) \<le> vy (b_max b)
        \<and> (b_height b = 0 \<or> (0 \<le> from_z + t * (to_z - from_z) \<and> from_z + t * (to_z - from_z) \<le> b_height b)))"

definition axis_gap :: "int \<Rightarrow> int \<Rightarrow> int \<Rightarrow> int \<Rightarrow> bool" where
  "axis_gap a b lo hi \<longleftrightarrow> \<bar>a + b - (lo + hi)\<bar> > hi - lo + \<bar>b - a\<bar>"

definition cross_gap :: "int \<Rightarrow> int \<Rightarrow> int \<Rightarrow> int \<Rightarrow> int \<Rightarrow> int \<Rightarrow> int \<Rightarrow> int \<Rightarrow> bool" where
  "cross_gap a b lo hi a' b' lo' hi' \<longleftrightarrow>
     \<bar>(a + b - (lo + hi)) * (b' - a') - (a' + b' - (lo' + hi')) * (b - a)\<bar>
       > (hi - lo) * \<bar>b' - a'\<bar> + (hi' - lo') * \<bar>b - a\<bar>"

lemma axis_gap_iff:
  assumes "lo \<le> hi"
  shows "\<not> axis_gap a b lo hi \<longleftrightarrow> (\<exists>t. unit_par t \<and> slab a (b - a) lo hi t)"
proof -
  have "(\<exists>t. unit_par t \<and> slab a (b - a) lo hi t) \<longleftrightarrow>
      \<bar>2 * real_of_int a + (b - a) - (lo + hi)\<bar> \<le> hi - lo + \<bar>real_of_int b - a\<bar>"
    using assms by (subst unit_slab_iff) auto
  also have "\<dots> \<longleftrightarrow> real_of_int \<bar>a + b - (lo + hi)\<bar> \<le> real_of_int (hi - lo + \<bar>b - a\<bar>)"
    by (simp add: algebra_simps)
  also have "\<dots> \<longleftrightarrow> \<not> axis_gap a b lo hi" unfolding of_int_le_iff by (auto simp: axis_gap_def)
  finally show ?thesis by simp
qed

lemma cross_gap_iff:
  assumes "lo \<le> hi" "lo' \<le> hi'" "\<not> axis_gap a b lo hi" "\<not> axis_gap a' b' lo' hi'"
  shows "\<not> cross_gap a b lo hi a' b' lo' hi' \<longleftrightarrow>
    (\<exists>t. slab a (b - a) lo hi t \<and> slab a' (b' - a') lo' hi' t)"
proof -
  have "(\<exists>t. slab a (b - a) lo hi t \<and> slab a' (b' - a') lo' hi' t) \<longleftrightarrow>
      \<bar>(2 * real_of_int a - (lo + hi)) * (b' - a') - (2 * a' - (lo' + hi')) * (b - a)\<bar>
        \<le> (hi - lo) * \<bar>real_of_int b' - a'\<bar> + (hi' - lo') * \<bar>real_of_int b - a\<bar>"
    using assms by (subst slab_slab_iff) (auto simp: axis_gap_iff)
  also have "\<dots> \<longleftrightarrow> real_of_int \<bar>(a + b - (lo + hi)) * (b' - a') - (a' + b' - (lo' + hi')) * (b - a)\<bar>
      \<le> real_of_int ((hi - lo) * \<bar>b' - a'\<bar> + (hi' - lo') * \<bar>b - a\<bar>)"
    by (simp add: algebra_simps)
  also have "\<dots> \<longleftrightarrow> \<not> cross_gap a b lo hi a' b' lo' hi'"
    unfolding of_int_le_iff by (auto simp: cross_gap_def)
  finally show ?thesis by simp
qed

lemma slab_overlap_axis_gap:
  "lo \<le> hi \<Longrightarrow> (max a b < lo \<or> hi < min a b) \<longleftrightarrow> axis_gap a b lo hi"
  unfolding axis_gap_def by linarith

text \<open>The four-corner form of the planar cross axis.\<close>

lemma corner_signs:
  fixes A A' B B' :: int
  shows "(A - B \<le> 0 \<or> A - B' \<le> 0 \<or> A' - B \<le> 0 \<or> A' - B' \<le> 0)
       \<and> (A - B \<ge> 0 \<or> A - B' \<ge> 0 \<or> A' - B \<ge> 0 \<or> A' - B' \<ge> 0)
    \<longleftrightarrow> \<bar>(A + A') - (B + B')\<bar> \<le> \<bar>A' - A\<bar> + \<bar>B' - B\<bar>"
  by linarith

lemma fold_corners:
  "(case fold (\<lambda>c (lo, hi). (min lo (f c), max hi (f c))) [c1, c2, c3, c4] (2 ^ 127 - 1, - (2 ^ 127)) of
      (lo, hi) \<Rightarrow> lo \<le> (0::int) \<and> 0 \<le> hi)
   \<longleftrightarrow> (f c1 \<le> 0 \<or> f c2 \<le> 0 \<or> f c3 \<le> 0 \<or> f c4 \<le> 0)
     \<and> (0 \<le> f c1 \<or> 0 \<le> f c2 \<or> 0 \<le> f c3 \<or> 0 \<le> f c4)"
  by (simp add: min_le_iff_disj le_max_iff_disj disj_ac)

lemma segment_intersects_aabb_axes:
  assumes "wf_blocker b"
  shows "segment_intersects_aabb from to b \<longleftrightarrow>
    \<not> axis_gap (vx from) (vx to) (vx (b_min b)) (vx (b_max b)) \<and>
    \<not> axis_gap (vy from) (vy to) (vy (b_min b)) (vy (b_max b)) \<and>
    \<not> cross_gap (vx from) (vx to) (vx (b_min b)) (vx (b_max b))
        (vy from) (vy to) (vy (b_min b)) (vy (b_max b))"
proof -
  define ax bx lox hix where x: "ax = vx from" "bx = vx to" "lox = vx (b_min b)" "hix = vx (b_max b)"
  define ay cy loy hiy where y: "ay = vy from" "cy = vy to" "loy = vy (b_min b)" "hiy = vy (b_max b)"
  have wf: "lox \<le> hix" "loy \<le> hiy" using assms by (auto simp: wf_blocker_def x y)
  let ?f = "\<lambda>(cx, c). (bx - ax) * (c - ay) - (cy - ay) * (cx - ax)"
  let ?A = "(bx - ax) * (loy - ay)" and ?A' = "(bx - ax) * (hiy - ay)"
  let ?B = "(cy - ay) * (lox - ax)" and ?B' = "(cy - ay) * (hix - ax)"
  have e1: "(?A + ?A') - (?B + ?B') = (ax + bx - (lox + hix)) * (cy - ay) - (ay + cy - (loy + hiy)) * (bx - ax)"
    by (simp add: algebra_simps)
  have d: "?A' - ?A = (hiy - loy) * (bx - ax)" "?B' - ?B = (hix - lox) * (cy - ay)"
    by (simp_all add: algebra_simps)
  have e2: "\<bar>?A' - ?A\<bar> + \<bar>?B' - ?B\<bar> = (hix - lox) * \<bar>cy - ay\<bar> + (hiy - loy) * \<bar>bx - ax\<bar>"
    unfolding d abs_mult using wf by simp
  have "(?f (lox, loy) \<le> 0 \<or> ?f (hix, loy) \<le> 0 \<or> ?f (lox, hiy) \<le> 0 \<or> ?f (hix, hiy) \<le> 0)
      \<and> (0 \<le> ?f (lox, loy) \<or> 0 \<le> ?f (hix, loy) \<or> 0 \<le> ?f (lox, hiy) \<or> 0 \<le> ?f (hix, hiy))
      \<longleftrightarrow> \<not> cross_gap ax bx lox hix ay cy loy hiy"
    using corner_signs [of ?A ?B ?B' ?A'] unfolding cross_gap_def e1 e2 not_less by auto
  then show ?thesis
    unfolding segment_intersects_aabb_def Let_def x [symmetric] y [symmetric] fold_corners
    using slab_overlap_axis_gap [OF wf(1), of ax bx] slab_overlap_axis_gap [OF wf(2), of ay cy] by auto
qed

lemma segment_meets_box_slabs:
  "segment_meets_box from from_z to to_z b \<longleftrightarrow>
     (\<exists>t. unit_par t \<and> slab (vx from) (vx to - vx from) (vx (b_min b)) (vx (b_max b)) t
        \<and> slab (vy from) (vy to - vy from) (vy (b_min b)) (vy (b_max b)) t
        \<and> (b_height b = 0 \<or> slab from_z (to_z - from_z) 0 (b_height b) t))"
  unfolding segment_meets_box_def unit_par_def slab_def by (simp add: conj_ac)

lemma box_test_exact:
  assumes "wf_blocker b"
  shows "segment_intersects_box_3d from from_z to to_z b \<longleftrightarrow> segment_meets_box from from_z to to_z b"
proof -
  have wf: "vx (b_min b) \<le> vx (b_max b)" "vy (b_min b) \<le> vy (b_max b)" "0 \<le> b_height b"
    using assms by (auto simp: wf_blocker_def)
  let ?X = "slab (vx from) (vx to - vx from) (vx (b_min b)) (vx (b_max b))"
  let ?Y = "slab (vy from) (vy to - vy from) (vy (b_min b)) (vy (b_max b))"
  let ?Z = "slab from_z (to_z - from_z) 0 (b_height b)"
  let ?gx = "axis_gap (vx from) (vx to) (vx (b_min b)) (vx (b_max b))"
  let ?gy = "axis_gap (vy from) (vy to) (vy (b_min b)) (vy (b_max b))"
  let ?gz = "axis_gap from_z to_z 0 (b_height b)"
  note gx = axis_gap_iff [OF wf(1), of "vx from" "vx to"]
    and gy = axis_gap_iff [OF wf(2), of "vy from" "vy to"] and gz = axis_gap_iff [OF wf(3), of from_z to_z]
  note xy = cross_gap_iff [OF wf(1,2), of "vx from" "vx to" "vy from" "vy to"]
    and yz = cross_gap_iff [OF wf(2,3), of "vy from" "vy to" from_z to_z]
    and zx = cross_gap_iff [OF wf(3,1), of from_z to_z "vx from" "vx to"]
  show ?thesis
  proof (cases "b_height b = 0")
    case True
    have "segment_intersects_box_3d from from_z to to_z b \<longleftrightarrow>
        (\<exists>t. unit_par t \<and> ?X t) \<and> (\<exists>t. unit_par t \<and> ?Y t) \<and> (\<exists>t. ?X t \<and> ?Y t)"
      using True xy gx gy
      unfolding segment_intersects_box_3d_def segment_intersects_aabb_axes [OF assms] by simp blast
    also have "\<dots> \<longleftrightarrow> (\<exists>t. unit_par t \<and> ?X t \<and> ?Y t)"
      using helly3 [of unit_par ?X ?Y] by blast
    finally show ?thesis using True by (simp add: segment_meets_box_slabs)
  next
    case False
    have "segment_intersects_box_3d from from_z to to_z b \<longleftrightarrow> \<not> ?gx \<and> \<not> ?gy \<and> \<not> ?gz
        \<and> \<not> cross_gap (vy from) (vy to) (vy (b_min b)) (vy (b_max b)) from_z to_z 0 (b_height b)
        \<and> \<not> cross_gap from_z to_z 0 (b_height b) (vx from) (vx to) (vx (b_min b)) (vx (b_max b))
        \<and> \<not> cross_gap (vx from) (vx to) (vx (b_min b)) (vx (b_max b))
             (vy from) (vy to) (vy (b_min b)) (vy (b_max b))"
      using False by (simp add: segment_intersects_box_3d_def Let_def axis_gap_def cross_gap_def)
    also have "\<dots> \<longleftrightarrow> (\<exists>t. unit_par t \<and> ?X t) \<and> (\<exists>t. unit_par t \<and> ?Y t) \<and> (\<exists>t. unit_par t \<and> ?Z t)
        \<and> (\<exists>t. ?Y t \<and> ?Z t) \<and> (\<exists>t. ?Z t \<and> ?X t) \<and> (\<exists>t. ?X t \<and> ?Y t)"
      using yz zx xy gx gy gz by simp blast
    also have "\<dots> \<longleftrightarrow> (\<exists>t. unit_par t \<and> ?X t \<and> ?Y t \<and> ?Z t)"
      using helly4 [of unit_par ?X ?Y ?Z] by blast
    finally show ?thesis using False by (simp add: segment_meets_box_slabs)
  qed
qed

text \<open>
  Property C35. The integer separating-axis test of \<^verbatim>\<open>segment_intersects_box_3d\<close> (and through its
  first branch \<^verbatim>\<open>segment_intersects_aabb\<close>) is exact: for every well-formed blocker it answers
  whether some real point of the closed segment lies in the closed box, an infinitely tall box when
  the height is 0. Sight, movement and projectile flight all rest on this test.
\<close>

theorem segment_intersects_box_3d_exact:
  assumes "wf_blocker b"
  shows "segment_intersects_box_3d from from_z to to_z b \<longleftrightarrow> segment_meets_box from from_z to to_z b"
  using box_test_exact [OF assms] .

text \<open>A shot over a waist-high wall from elevation 1500 to 500 clears it; one at 500 meets it.\<close>

theorem segment_intersects_box_3d_exact_witness:
  "wf_blocker \<lparr>b_min = \<lparr>vx = 10, vy = - 5\<rparr>, b_max = \<lparr>vx = 12, vy = 5\<rparr>, b_height = 1000\<rparr>
   \<and> \<not> segment_meets_box \<lparr>vx = 0, vy = 0\<rparr> 1500 \<lparr>vx = 30, vy = 0\<rparr> 500
        \<lparr>b_min = \<lparr>vx = 10, vy = - 5\<rparr>, b_max = \<lparr>vx = 12, vy = 5\<rparr>, b_height = 1000\<rparr>
   \<and> segment_meets_box \<lparr>vx = 0, vy = 0\<rparr> 500 \<lparr>vx = 30, vy = 0\<rparr> 500
        \<lparr>b_min = \<lparr>vx = 10, vy = - 5\<rparr>, b_max = \<lparr>vx = 12, vy = 5\<rparr>, b_height = 1000\<rparr>"
proof -
  let ?b = "\<lparr>b_min = \<lparr>vx = 10, vy = - 5\<rparr>, b_max = \<lparr>vx = 12, vy = 5\<rparr>, b_height = 1000\<rparr> :: blocker"
  have wf: "wf_blocker ?b" by (simp add: wf_blocker_def)
  from segment_intersects_box_3d_exact [OF wf, of "\<lparr>vx = 0, vy = 0\<rparr>" 1500 "\<lparr>vx = 30, vy = 0\<rparr>" 500]
    segment_intersects_box_3d_exact [OF wf, of "\<lparr>vx = 0, vy = 0\<rparr>" 500 "\<lparr>vx = 30, vy = 0\<rparr>" 500] wf
  show ?thesis by (simp add: segment_intersects_box_3d_def segment_intersects_aabb_def Let_def)
qed

subsection \<open>Segment against disc\<close>

definition segment_meets_disc :: "vec2 \<Rightarrow> vec2 \<Rightarrow> vec2 \<Rightarrow> i32 \<Rightarrow> bool" where
  "segment_meets_disc a b c r \<longleftrightarrow>
     (\<exists>t::real. 0 \<le> t \<and> t \<le> 1 \<and>
        (vx a + t * (vx b - vx a) - vx c)\<^sup>2 + (vy a + t * (vy b - vy a) - vy c)\<^sup>2 \<le> (real_of_int r)\<^sup>2)"

text \<open>
  The squared distance from \<open>c\<close> to the point at parameter \<open>t\<close> is a quadratic in \<open>t\<close>; where it is
  least on \<open>[0, 1]\<close> depends on the projection \<open>P\<close> of \<open>c\<close> against the squared length \<open>L\<close>.
\<close>

definition dist2_at :: "real \<Rightarrow> real \<Rightarrow> real \<Rightarrow> real \<Rightarrow> real" where
  "dist2_at L P Q t = t * t * L - 2 * t * P + Q"

lemma dist2_at_expand:
  "(ax + t * dx - cx)\<^sup>2 + (ay + t * dy - cy)\<^sup>2 =
     dist2_at (dx * dx + dy * dy) ((cx - ax) * dx + (cy - ay) * dy)
       ((cx - ax) * (cx - ax) + (cy - ay) * (cy - ay)) t"
  unfolding dist2_at_def by (simp add: power2_eq_square algebra_simps)

lemma dist2_min_start:
  assumes "0 \<le> L" "L = 0 \<and> P = 0 \<or> P \<le> 0"
  shows "(\<exists>t. 0 \<le> t \<and> t \<le> 1 \<and> dist2_at L P Q t \<le> R) \<longleftrightarrow> Q \<le> R"
proof
  assume "\<exists>t. 0 \<le> t \<and> t \<le> 1 \<and> dist2_at L P Q t \<le> R"
  then obtain t where t: "0 \<le> t" "dist2_at L P Q t \<le> R" by blast
  have "0 \<le> t * t * L" "2 * t * P \<le> 0" using t(1) assms by (auto simp: mult_nonneg_nonpos mult_nonpos_nonneg)
  with t(2) show "Q \<le> R" unfolding dist2_at_def by linarith
next
  assume "Q \<le> R"
  then show "\<exists>t. 0 \<le> t \<and> t \<le> 1 \<and> dist2_at L P Q t \<le> R"
    by (intro exI [of _ 0]) (simp add: dist2_at_def)
qed

lemma dist2_min_end:
  assumes "0 < L" "L \<le> P"
  shows "(\<exists>t. 0 \<le> t \<and> t \<le> 1 \<and> dist2_at L P Q t \<le> R) \<longleftrightarrow> L - 2 * P + Q \<le> R"
proof
  assume "\<exists>t. 0 \<le> t \<and> t \<le> 1 \<and> dist2_at L P Q t \<le> R"
  then obtain t where t: "0 \<le> t" "t \<le> 1" "dist2_at L P Q t \<le> R" by blast
  have "(1 + t) * L \<le> 2 * P"
    using assms t mult_right_mono [of "1 + t" 2 L] by linarith
  then have "0 \<le> (1 - t) * (2 * P - (1 + t) * L)" using t by (intro mult_nonneg_nonneg) auto
  also have "\<dots> = dist2_at L P Q t - (L - 2 * P + Q)" by (simp add: dist2_at_def algebra_simps)
  finally show "L - 2 * P + Q \<le> R" using t(3) by linarith
next
  assume "L - 2 * P + Q \<le> R"
  then show "\<exists>t. 0 \<le> t \<and> t \<le> 1 \<and> dist2_at L P Q t \<le> R"
    by (intro exI [of _ 1]) (simp add: dist2_at_def)
qed

lemma dist2_min_inside:
  assumes "0 < P" "P < L"
  shows "(\<exists>t. 0 \<le> t \<and> t \<le> 1 \<and> dist2_at L P Q t \<le> R) \<longleftrightarrow> Q * L - P * P \<le> R * L"
proof
  assume "\<exists>t. 0 \<le> t \<and> t \<le> 1 \<and> dist2_at L P Q t \<le> R"
  then obtain t where "dist2_at L P Q t \<le> R" by blast
  then have "dist2_at L P Q t * L \<le> R * L" using assms by (intro mult_right_mono) auto
  moreover have "dist2_at L P Q t * L = (t * L - P)\<^sup>2 + (Q * L - P * P)"
    by (simp add: dist2_at_def power2_eq_square algebra_simps)
  ultimately show "Q * L - P * P \<le> R * L" using zero_le_power2 [of "t * L - P"] by linarith
next
  assume "Q * L - P * P \<le> R * L"
  moreover have "dist2_at L P Q (P / L) * L = Q * L - P * P"
    using assms by (simp add: dist2_at_def field_simps)
  ultimately have "dist2_at L P Q (P / L) \<le> R" using assms by (metis less_trans mult_le_cancel_right_pos)
  then show "\<exists>t. 0 \<le> t \<and> t \<le> 1 \<and> dist2_at L P Q t \<le> R"
    using assms by (intro exI [of _ "P / L"]) simp
qed

lemma segment_meets_disc_quadratic:
  fixes a b c :: vec2
  defines "L \<equiv> (vx b - vx a) * (vx b - vx a) + (vy b - vy a) * (vy b - vy a)"
    and "P \<equiv> (vx c - vx a) * (vx b - vx a) + (vy c - vy a) * (vy b - vy a)"
    and "Q \<equiv> (vx c - vx a) * (vx c - vx a) + (vy c - vy a) * (vy c - vy a)"
  shows "segment_meets_disc a b c r \<longleftrightarrow>
    (\<exists>t. 0 \<le> t \<and> t \<le> 1 \<and> dist2_at (real_of_int L) (real_of_int P) (real_of_int Q) t \<le> real_of_int (r * r))"
  unfolding segment_meets_disc_def dist2_at_expand L_def P_def Q_def by (simp add: power2_eq_square)

lemma disc_test_exact:
  assumes "segment_hits_disc a b c r = Some v"
  shows "v \<longleftrightarrow> segment_meets_disc a b c r"
proof -
  define abx aby where ab: "abx = vx b - vx a" "aby = vy b - vy a"
  define apx apy where ap: "apx = vx c - vx a" "apy = vy c - vy a"
  define L where "L = abx * abx + aby * aby"
  define P where "P = apx * abx + apy * aby"
  define Q where "Q = apx * apx + apy * apy"
  have disc: "segment_meets_disc a b c r \<longleftrightarrow>
      (\<exists>t. 0 \<le> t \<and> t \<le> 1 \<and> dist2_at (real_of_int L) (real_of_int P) (real_of_int Q) t \<le> real_of_int (r * r))"
    unfolding L_def P_def Q_def ab ap by (rule segment_meets_disc_quadratic)
  have L0: "0 \<le> L" "L = 0 \<Longrightarrow> P = 0"
    by (auto simp: L_def P_def sum_squares_eq_zero_iff)
  note v = assms [unfolded segment_hits_disc_def Let_def, folded ab ap, folded L_def P_def Q_def]
  show ?thesis
  proof (cases "L = 0 \<or> P \<le> 0")
    case True
    then have "v \<longleftrightarrow> Q \<le> r * r" using v by auto
    moreover have "real_of_int L = 0 \<and> real_of_int P = 0 \<or> real_of_int P \<le> 0" using True L0 by auto
    ultimately show ?thesis
      unfolding disc using L0 by (subst dist2_min_start) (auto simp flip: of_int_mult)
  next
    case False
    then have pos: "0 < L" "0 < P" using L0 by auto
    show ?thesis
    proof (cases "L \<le> P")
      case True
      have "(vx c - vx b) * (vx c - vx b) + (vy c - vy b) * (vy c - vy b) = L - 2 * P + Q"
        by (simp add: L_def P_def Q_def ab ap algebra_simps)
      then have "v \<longleftrightarrow> L - 2 * P + Q \<le> r * r" using v False True by auto
      also have "\<dots> \<longleftrightarrow> real_of_int (L - 2 * P + Q) \<le> real_of_int (r * r)" by (simp only: of_int_le_iff)
      finally show ?thesis
        unfolding disc using pos True by (subst dist2_min_end) auto
    next
      case less: False
      have "v \<longleftrightarrow> Q * L - P * P \<le> r * r * L"
        using v False less by (auto simp: panic_simps)
      also have "\<dots> \<longleftrightarrow> real_of_int (Q * L - P * P) \<le> real_of_int (r * r * L)" by (simp only: of_int_le_iff)
      finally show ?thesis
        unfolding disc using pos less by (subst dist2_min_inside) auto
    qed
  qed
qed

text \<open>
  Whenever \<^verbatim>\<open>segment_hits_disc\<close> returns, its answer is exact: some real point of the
  closed segment is within \<open>radius\<close> of the centre. A fast shot or a long step cannot tunnel through
  a body.
\<close>

theorem segment_hits_disc_exact:
  assumes "segment_hits_disc a b c r = Some v"
  shows "v \<longleftrightarrow> segment_meets_disc a b c r"
  using disc_test_exact [OF assms] .

theorem segment_hits_disc_exact_witness:
  "segment_hits_disc \<lparr>vx = 0, vy = 0\<rparr> \<lparr>vx = 10000, vy = 0\<rparr> \<lparr>vx = 5000, vy = 300\<rparr> 400 = Some True
   \<and> segment_meets_disc \<lparr>vx = 0, vy = 0\<rparr> \<lparr>vx = 10000, vy = 0\<rparr> \<lparr>vx = 5000, vy = 300\<rparr> 400"
proof -
  have "segment_hits_disc \<lparr>vx = 0, vy = 0\<rparr> \<lparr>vx = 10000, vy = 0\<rparr> \<lparr>vx = 5000, vy = 300\<rparr> 400 = Some True"
    by (simp add: segment_hits_disc_def Let_def ck_i128_def in_i128_def)
  with segment_hits_disc_exact [OF this] show ?thesis by simp
qed

text \<open>Coordinates within half the \<^verbatim>\<open>i32\<close> range keep every product in \<^verbatim>\<open>i128\<close>.\<close>

definition moderate :: "vec2 \<Rightarrow> bool" where
  "moderate p \<longleftrightarrow> \<bar>vx p\<bar> \<le> 2 ^ 30 \<and> \<bar>vy p\<bar> \<le> 2 ^ 30"

lemma abs_mult_bound: "\<bar>x\<bar> \<le> a \<Longrightarrow> \<bar>y\<bar> \<le> b \<Longrightarrow> \<bar>x * y\<bar> \<le> a * (b::int)"
  unfolding abs_mult by (rule mult_mono) auto

lemma i128_of_abs: "\<bar>x\<bar> \<le> 2 ^ 126 \<Longrightarrow> in_i128 x"
  by (auto simp: in_i128_def)

lemma segment_hits_disc_safe:
  assumes "moderate a" "moderate b" "moderate c" "in_i32 r"
  shows "\<exists>v. segment_hits_disc a b c r = Some v"
proof -
  define abx aby where ab: "abx = vx b - vx a" "aby = vy b - vy a"
  define apx apy where ap: "apx = vx c - vx a" "apy = vy c - vy a"
  define L where "L = abx * abx + aby * aby"
  define P where "P = apx * abx + apy * aby"
  define Q where "Q = apx * apx + apy * apy"
  have c: "\<bar>abx\<bar> \<le> 2 ^ 31" "\<bar>aby\<bar> \<le> 2 ^ 31" "\<bar>apx\<bar> \<le> 2 ^ 31" "\<bar>apy\<bar> \<le> 2 ^ 31" "\<bar>r\<bar> \<le> 2 ^ 31"
    using assms by (auto simp: moderate_def ab ap in_i32_def)
  have two: "\<bar>u * v + w * x\<bar> \<le> 2 ^ 63"
    if "\<bar>u\<bar> \<le> 2 ^ 31" "\<bar>v\<bar> \<le> 2 ^ 31" "\<bar>w\<bar> \<le> 2 ^ 31" "\<bar>x\<bar> \<le> 2 ^ 31" for u v w x :: int
    using abs_mult_bound [OF that(1,2)] abs_mult_bound [OF that(3,4)] by simp
  have b: "\<bar>L\<bar> \<le> 2 ^ 63" "\<bar>P\<bar> \<le> 2 ^ 63" "\<bar>Q\<bar> \<le> 2 ^ 63"
    unfolding L_def P_def Q_def by (rule two; fact c)+
  have prods: "\<bar>Q * L\<bar> \<le> 2 ^ 126" "\<bar>P * P\<bar> \<le> 2 ^ 126" "\<bar>r * r * L\<bar> \<le> 2 ^ 125"
    using abs_mult_bound [OF b(3,1)] abs_mult_bound [OF b(2,2)]
      abs_mult_bound [OF abs_mult_bound [OF c(5,5)] b(1)] by simp_all
  have lagrange: "Q * L - P * P = (apx * aby - apy * abx) * (apx * aby - apy * abx)"
    by (simp add: L_def P_def Q_def algebra_simps)
  have "0 \<le> Q * L - P * P" unfolding lagrange by (rule zero_le_square)
  moreover have "0 \<le> P * P" by (rule zero_le_square)
  ultimately have "\<bar>Q * L - P * P\<bar> \<le> 2 ^ 126" using prods(1) by linarith
  moreover have "\<bar>r * r * L\<bar> \<le> 2 ^ 126" using prods(3) by simp
  ultimately have "in_i128 (Q * L)" "in_i128 (P * P)" "in_i128 (Q * L - P * P)" "in_i128 (r * r * L)"
    using prods(1,2) i128_of_abs by blast+
  then show ?thesis
    by (simp add: segment_hits_disc_def Let_def ck_i128_def flip: ab ap L_def P_def Q_def)
qed

end
