(* ===== verification/Rules.thy ===== *)
theory Rules
  imports Proto
begin

section \<open>Tuning and randomness (\<^verbatim>\<open>src/arena/core/src/lib.rs\<close>)\<close>

text \<open>
  The combat tuning \<^verbatim>\<open>Rules\<close> with its defaults, the compile-time constants of the simulation, and
  the SplitMix64 generator the spawns are drawn from. Field names carry the prefix \<open>r_\<close> because
  Isabelle record fields share one name space.
\<close>

unbundle bit_operations_syntax

subsection \<open>SplitMix64\<close>

definition next_u64 :: "64 word \<Rightarrow> 64 word \<times> 64 word" where
  "next_u64 s =
     (let s' = s + 0x9E3779B97F4A7C15;
          z = (s' XOR drop_bit 30 s') * 0xBF58476D1CE4E5B9;
          z = (z XOR drop_bit 27 z) * 0x94D049BB133111EB
      in (z XOR drop_bit 31 z, s'))"

text \<open>
  \<^verbatim>\<open>range_i32\<close>: the remainder by a zero span and the final 32-bit addition panic when they
  overflow; the cast of the drawn value to \<^verbatim>\<open>i32\<close> wraps.
\<close>

definition range_i32 :: "i32 \<Rightarrow> i32 \<Rightarrow> 64 word \<Rightarrow> (i32 \<times> 64 word) option" where
  "range_i32 lo hi s =
     (let span = nat ((hi - lo + 1) mod 2 ^ 64); (v, s') = next_u64 s
      in if span = 0 then None
         else do { x \<leftarrow> ck_i32 (lo + as_i32 (int (unat v mod span))); Some (x, s') })"

subsection \<open>Rules\<close>

datatype weapon_mode = Hitscan | Projectile_Mode | Melee

datatype aim_mode = Octant | Fine

definition PROJECTILE_ID_BASE :: u32 where "PROJECTILE_ID_BASE = 2 ^ 16"
definition MAX_LIVE_PROJECTILES :: nat where "MAX_LIVE_PROJECTILES = 1024"
definition MAX_PROJECTILE_LIFETIME :: u16 where "MAX_PROJECTILE_LIFETIME = 600"
definition MAX_PROJECTILE_SPEED :: i32 where "MAX_PROJECTILE_SPEED = 2 ^ 20"
definition PICKUP_ID_BASE :: u32 where "PICKUP_ID_BASE = 2 ^ 24"
definition MELEE_ARC_SPREAD :: u8 where "MELEE_ARC_SPREAD = 1"
definition JUMP_VELOCITY :: i32 where "JUMP_VELOCITY = 1200"
definition DASH_DISTANCE :: i32 where "DASH_DISTANCE = 3000"

definition default_projectile_speed :: i32 where "default_projectile_speed = 2 * POSITION_SCALE"
definition default_pickup_radius :: i32 where "default_pickup_radius = POSITION_SCALE"
definition default_pickup_respawn_cooldown :: u16 where "default_pickup_respawn_cooldown = 300"
definition default_melee_range :: i32 where "default_melee_range = 2 * POSITION_SCALE"
definition default_melee_damage :: u16 where "default_melee_damage = 50"
definition default_melee_cooldown :: u16 where "default_melee_cooldown = 15"
definition full_circle_fov :: u8 where "full_circle_fov = 4"

record rules =
  r_max_speed :: i32
  r_weapon_range :: i32
  r_hit_radius :: i32
  r_weapon_mode :: weapon_mode
  r_projectile_speed :: i32
  r_aim_mode :: aim_mode
  r_damage :: u16
  r_fire_cooldown :: u16
  r_mag_size :: u16
  r_friendly_fire :: bool
  r_perception_range :: i32
  r_fov_octant_spread :: u8
  r_start_health :: u16
  r_spawn_radius :: i32
  r_spawn_jitter :: i32
  r_action_deadline_micros :: u32
  r_pickup_radius :: i32
  r_pickup_respawn_cooldown :: u16
  r_melee_range :: i32
  r_melee_damage :: u16
  r_melee_cooldown :: u16
  r_max_shield :: u16
  r_gravity :: i32
  r_dash_cooldown :: u16
  r_wall_slide :: bool
  r_perception_memory_ticks :: u16
  r_vertical_hit_tolerance :: i32
  r_knockback_velocity :: i32
  r_knockback_horizontal :: i32
  r_pawn_radius :: i32
  r_fall_damage :: u16
  r_fall_damage_threshold :: i32
  r_pawn_height :: i32
  r_starting_ticks :: u32

definition default_rules :: rules where
  "default_rules = \<lparr>
     r_max_speed = 200,
     r_weapon_range = 30 * POSITION_SCALE,
     r_hit_radius = 1500,
     r_weapon_mode = Hitscan,
     r_projectile_speed = default_projectile_speed,
     r_aim_mode = Octant,
     r_damage = 25,
     r_fire_cooldown = 6,
     r_mag_size = 30,
     r_friendly_fire = False,
     r_perception_range = 40 * POSITION_SCALE,
     r_fov_octant_spread = full_circle_fov,
     r_start_health = 100,
     r_spawn_radius = 20 * POSITION_SCALE,
     r_spawn_jitter = 2 * POSITION_SCALE,
     r_action_deadline_micros = 50000,
     r_pickup_radius = default_pickup_radius,
     r_pickup_respawn_cooldown = default_pickup_respawn_cooldown,
     r_melee_range = default_melee_range,
     r_melee_damage = default_melee_damage,
     r_melee_cooldown = default_melee_cooldown,
     r_max_shield = 0,
     r_gravity = 0,
     r_dash_cooldown = 0,
     r_wall_slide = False,
     r_perception_memory_ticks = 0,
     r_vertical_hit_tolerance = 0,
     r_knockback_velocity = 0,
     r_knockback_horizontal = 0,
     r_pawn_radius = 0,
     r_fall_damage = 0,
     r_fall_damage_threshold = 0,
     r_pawn_height = 0,
     r_starting_ticks = 0\<rparr>"

lemmas default_rules_defs = default_rules_def POSITION_SCALE_def default_projectile_speed_def
  default_pickup_radius_def default_pickup_respawn_cooldown_def default_melee_range_def
  default_melee_damage_def default_melee_cooldown_def full_circle_fov_def

subsection \<open>Draws stay in range\<close>

lemma draw_bounds: "0 < k \<Longrightarrow> 0 \<le> int (u mod nat k) \<and> int (u mod nat k) < k"
  using mod_less_divisor [of "nat k" u] by linarith

lemma range_i32_in_range:
  assumes "lo \<le> hi" "in_i32 lo" "in_i32 hi" "range_i32 lo hi s = Some (x, s')"
  shows "lo \<le> x \<and> x \<le> hi"
proof -
  let ?v = "int (unat (fst (next_u64 s)) mod nat (hi - lo + 1))"
  have span: "(hi - lo + 1) mod 2 ^ 64 = hi - lo + 1" using assms(1-3) by (simp add: in_i32_def)
  have v: "0 \<le> ?v" "?v < hi - lo + 1"
    using draw_bounds [of "hi - lo + 1"] assms(1) by auto
  have x: "x = lo + as_i32 ?v" "in_i32 x"
    using assms(4) unfolding range_i32_def Let_def span
    by (auto simp: panic_simps split: prod.splits if_splits)
  show ?thesis
  proof (cases "?v < 2 ^ 31")
    case True
    then have "as_i32 ?v = ?v" using v by (simp add: in_i32_def)
    with x v show ?thesis by simp
  next
    case False
    then have "as_i32 ?v = ?v - 2 ^ 32"
      using v assms(2,3) by (intro as_i32_high) (auto simp: in_i32_def)
    with x v assms(2,3) show ?thesis by (simp add: in_i32_def)
  qed
qed

text \<open>A span of at most half the 32-bit range never panics.\<close>

lemma range_i32_safe:
  assumes "lo \<le> hi" "hi - lo < 2 ^ 31" "in_i32 lo" "in_i32 hi"
  shows "\<exists>x s'. range_i32 lo hi s = Some (x, s') \<and> lo \<le> x \<and> x \<le> hi"
proof -
  let ?v = "int (unat (fst (next_u64 s)) mod nat (hi - lo + 1))"
  have span: "(hi - lo + 1) mod 2 ^ 64 = hi - lo + 1" using assms by (simp add: in_i32_def)
  have v: "0 \<le> ?v" "?v < hi - lo + 1" using draw_bounds [of "hi - lo + 1"] assms(1) by auto
  then have "as_i32 ?v = ?v" using assms(2) by (simp add: in_i32_def)
  with v assms have "range_i32 lo hi s = Some (lo + ?v, snd (next_u64 s))"
    unfolding range_i32_def Let_def span by (auto simp: ck_i32_def in_i32_def split: prod.splits)
  with v show ?thesis by auto
qed

end
