(* ===== verification/Codec.thy ===== *)
theory Codec
  imports Rules
begin

section \<open>Canonical encodings and digests\<close>

text \<open>
  The byte strings the two digests of the protocol commit to: \<^verbatim>\<open>ReplayRecord::digest\<close> and
  \<^verbatim>\<open>join_digest\<close> (\<^verbatim>\<open>src/arena/proto/src/lib.rs\<close>), and \<^verbatim>\<open>Rules::canonical_encoding\<close>
  (\<^verbatim>\<open>src/arena/core/src/lib.rs\<close>), which the replay digest folds. Keccak-256 and the hex codec are
  third-party crates: they are fields of the parameter record \<open>crates\<close>. The encodings are proved
  self-delimiting, so a digest determines, up to a collision of the hash, every field it folds.
\<close>

record crates =
  keccak256 :: "nat list \<Rightarrow> nat list"
  hex_encode :: "nat list \<Rightarrow> string"

subsection \<open>Encodings\<close>

definition str_bytes :: "string \<Rightarrow> nat list" where
  "str_bytes s = map of_char s"

definition weapon_mode_byte :: "weapon_mode \<Rightarrow> nat" where
  "weapon_mode_byte w = (case w of Hitscan \<Rightarrow> 0 | Projectile_Mode \<Rightarrow> 1 | Melee \<Rightarrow> 2)"

definition aim_mode_byte :: "aim_mode \<Rightarrow> nat" where
  "aim_mode_byte a = (case a of Octant \<Rightarrow> 0 | Fine \<Rightarrow> 1)"

definition canonical_encoding :: "rules \<Rightarrow> nat list" where
  "canonical_encoding r =
     be_i32 (r_max_speed r) @ be_i32 (r_weapon_range r) @ be_i32 (r_hit_radius r) @
     [weapon_mode_byte (r_weapon_mode r)] @ be_i32 (r_projectile_speed r) @
     [aim_mode_byte (r_aim_mode r)] @ be_bytes 2 (r_damage r) @ be_bytes 2 (r_fire_cooldown r) @
     be_bytes 2 (r_mag_size r) @ [of_bool (r_friendly_fire r)] @ be_i32 (r_perception_range r) @
     be_bytes 1 (r_fov_octant_spread r) @ be_bytes 2 (r_start_health r) @ be_i32 (r_spawn_radius r) @
     be_i32 (r_spawn_jitter r) @ be_bytes 4 (r_action_deadline_micros r) @
     be_i32 (r_pickup_radius r) @ be_bytes 2 (r_pickup_respawn_cooldown r) @
     be_i32 (r_melee_range r) @ be_bytes 2 (r_melee_damage r) @ be_bytes 2 (r_melee_cooldown r) @
     be_bytes 2 (r_max_shield r) @ be_i32 (r_gravity r) @ be_bytes 2 (r_dash_cooldown r) @
     [of_bool (r_wall_slide r)] @ be_bytes 2 (r_perception_memory_ticks r) @
     be_i32 (r_vertical_hit_tolerance r) @ be_i32 (r_knockback_velocity r) @
     be_i32 (r_knockback_horizontal r) @ be_i32 (r_pawn_radius r) @ be_bytes 2 (r_fall_damage r) @
     be_i32 (r_fall_damage_threshold r) @ be_i32 (r_pawn_height r)"

definition len_u32 :: "'a list \<Rightarrow> nat list" where
  "len_u32 xs = be_bytes 4 (length xs mod 2 ^ 32)"

definition enc_list :: "('a \<Rightarrow> nat list) \<Rightarrow> 'a list \<Rightarrow> nat list" where
  "enc_list enc xs = len_u32 xs @ concat (map enc xs)"

definition enc_vec2 :: "vec2 \<Rightarrow> nat list" where
  "enc_vec2 v = be_i32 (vx v) @ be_i32 (vy v)"

definition enc_str :: "string \<Rightarrow> nat list" where
  "enc_str s = len_u32 s @ str_bytes s"

definition enc_seat_info :: "seat_info \<Rightarrow> nat list" where
  "enc_seat_info s = be_bytes 1 (si_seat s) @ be_bytes 2 (si_team s) @ enc_str (si_controller s)"

definition enc_blocker :: "blocker \<Rightarrow> nat list" where
  "enc_blocker b = enc_vec2 (b_min b) @ enc_vec2 (b_max b) @ be_i32 (b_height b)"

definition pickup_kind_byte :: "pickup_kind \<Rightarrow> nat" where
  "pickup_kind_byte k = (case k of Health \<Rightarrow> 0 | Ammo \<Rightarrow> 1 | Shield \<Rightarrow> 2)"

definition enc_pickup_spawn :: "pickup_spawn \<Rightarrow> nat list" where
  "enc_pickup_spawn p =
     [pickup_kind_byte (ps_kind p)] @ enc_vec2 (ps_position p) @ be_bytes 2 (ps_amount p)"

definition enc_seat_action :: "seat_action \<Rightarrow> nat list" where
  "enc_seat_action a =
     be_bytes 1 (sa_seat a) @ enc_vec2 (move_dir (sa_intent a)) @ be_bytes 2 (aim (sa_intent a))
       @ [button_bits (buttons (sa_intent a))]"

definition enc_tick_record :: "tick_record \<Rightarrow> nat list" where
  "enc_tick_record t =
     be_bytes 8 (tr_tick t) @ enc_list enc_seat_action (tr_actions t)
       @ enc_list (be_bytes 1) (tr_forfeits t)"

definition replay_preimage :: "replay_record \<Rightarrow> nat list" where
  "replay_preimage r =
     str_bytes ''blackfield/arena/replay/v7'' @ be_bytes 4 (rr_protocol_version r) @ rr_match_id r @
     be_bytes 8 (rr_seed r) @ enc_list enc_seat_info (rr_seats r) @
     enc_list enc_blocker (rr_blockers r) @ enc_list enc_pickup_spawn (rr_pickups r) @
     len_u32 (rr_rules_commit r) @ rr_rules_commit r @
     be_i32 (vx (bounds (rr_config r))) @ be_i32 (vy (bounds (rr_config r))) @
     be_bytes 8 (max_ticks (rr_config r)) @ enc_list enc_tick_record (rr_ticks r)"

definition replay_digest :: "crates \<Rightarrow> replay_record \<Rightarrow> nat list" where
  "replay_digest X r = keccak256 X (replay_preimage r)"

definition join_preimage :: "u32 \<Rightarrow> string \<Rightarrow> nat list \<Rightarrow> nat list" where
  "join_preimage protocol_version agent_id nonce =
     str_bytes ''blackfield/arena/join/v1'' @ be_bytes 4 protocol_version @
     len_u32 agent_id @ str_bytes agent_id @ len_u32 nonce @ nonce"

definition join_digest :: "crates \<Rightarrow> u32 \<Rightarrow> string \<Rightarrow> nat list \<Rightarrow> nat list" where
  "join_digest X protocol_version agent_id nonce =
     keccak256 X (join_preimage protocol_version agent_id nonce)"

subsection \<open>Ranges of the encoded types\<close>

definition ok_vec2 :: "vec2 \<Rightarrow> bool" where
  "ok_vec2 v \<longleftrightarrow> in_i32 (vx v) \<and> in_i32 (vy v)"

definition ok_str :: "string \<Rightarrow> bool" where
  "ok_str s \<longleftrightarrow> length s < 2 ^ 32"

definition ok_list :: "('a \<Rightarrow> bool) \<Rightarrow> 'a list \<Rightarrow> bool" where
  "ok_list P xs \<longleftrightarrow> length xs < 2 ^ 32 \<and> list_all P xs"

definition ok_seat_info :: "seat_info \<Rightarrow> bool" where
  "ok_seat_info s \<longleftrightarrow> si_seat s < 2 ^ 8 \<and> si_team s < 2 ^ 16 \<and> ok_str (si_controller s)"

definition ok_blocker :: "blocker \<Rightarrow> bool" where
  "ok_blocker b \<longleftrightarrow> ok_vec2 (b_min b) \<and> ok_vec2 (b_max b) \<and> in_i32 (b_height b)"

definition ok_pickup_spawn :: "pickup_spawn \<Rightarrow> bool" where
  "ok_pickup_spawn p \<longleftrightarrow> ok_vec2 (ps_position p) \<and> ps_amount p < 2 ^ 16"

definition ok_intent :: "action_intent \<Rightarrow> bool" where
  "ok_intent a \<longleftrightarrow> ok_vec2 (move_dir a) \<and> aim a < 2 ^ 16"

definition ok_seat_action :: "seat_action \<Rightarrow> bool" where
  "ok_seat_action a \<longleftrightarrow> sa_seat a < 2 ^ 8 \<and> ok_intent (sa_intent a)"

definition ok_tick_record :: "tick_record \<Rightarrow> bool" where
  "ok_tick_record t \<longleftrightarrow> tr_tick t < 2 ^ 64 \<and> ok_list ok_seat_action (tr_actions t)
     \<and> ok_list (\<lambda>s. s < 2 ^ 8) (tr_forfeits t)"

definition ok_replay :: "replay_record \<Rightarrow> bool" where
  "ok_replay r \<longleftrightarrow> rr_protocol_version r < 2 ^ 32 \<and> length (rr_match_id r) = 16 \<and> rr_seed r < 2 ^ 64
     \<and> ok_list ok_seat_info (rr_seats r) \<and> ok_list ok_blocker (rr_blockers r)
     \<and> ok_list ok_pickup_spawn (rr_pickups r) \<and> length (rr_rules_commit r) < 2 ^ 32
     \<and> ok_vec2 (bounds (rr_config r)) \<and> max_ticks (rr_config r) < 2 ^ 64
     \<and> ok_list ok_tick_record (rr_ticks r)"

definition ok_rules :: "rules \<Rightarrow> bool" where
  "ok_rules r \<longleftrightarrow>
     list_all in_i32 [r_max_speed r, r_weapon_range r, r_hit_radius r, r_projectile_speed r,
       r_perception_range r, r_spawn_radius r, r_spawn_jitter r, r_pickup_radius r, r_melee_range r,
       r_gravity r, r_vertical_hit_tolerance r, r_knockback_velocity r, r_knockback_horizontal r,
       r_pawn_radius r, r_fall_damage_threshold r, r_pawn_height r]
     \<and> list_all (\<lambda>x. x < 2 ^ 16) [r_damage r, r_fire_cooldown r, r_mag_size r, r_start_health r,
       r_pickup_respawn_cooldown r, r_melee_damage r, r_melee_cooldown r, r_max_shield r,
       r_dash_cooldown r, r_perception_memory_ticks r, r_fall_damage r]
     \<and> r_fov_octant_spread r < 2 ^ 8 \<and> r_action_deadline_micros r < 2 ^ 32
     \<and> r_starting_ticks r < 2 ^ 32"

subsection \<open>Self-delimitation\<close>

context codec
begin

lemma enc_append_iff:
  "valid a \<Longrightarrow> valid b \<Longrightarrow> enc a @ xs = enc b @ ys \<longleftrightarrow> a = b \<and> xs = ys"
  using self_delimiting by blast

lemma enc_iff: "valid a \<Longrightarrow> valid b \<Longrightarrow> enc a = enc b \<longleftrightarrow> a = b"
  using enc_inj by blast

end

named_theorems codec_iffs \<open>an encoded field at the head of a stream can be cancelled\<close>

lemma be_bytes_iff [codec_iffs]:
  "a < 256 \<Longrightarrow> b < 256 \<Longrightarrow> be_bytes 1 a = be_bytes 1 b \<longleftrightarrow> a = b"
  "a < 65536 \<Longrightarrow> b < 65536 \<Longrightarrow> be_bytes 2 a = be_bytes 2 b \<longleftrightarrow> a = b"
  "a < 4294967296 \<Longrightarrow> b < 4294967296 \<Longrightarrow> be_bytes 4 a = be_bytes 4 b \<longleftrightarrow> a = b"
  "a < 18446744073709551616 \<Longrightarrow> b < 18446744073709551616 \<Longrightarrow> be_bytes 8 a = be_bytes 8 b \<longleftrightarrow> a = b"
  using u8_codec.enc_iff [of a b] u16_codec.enc_iff [of a b] u32_codec.enc_iff [of a b]
    u64_codec.enc_iff [of a b]
  by simp_all

lemma length_be_i32 [simp]: "length (be_i32 x) = 4"
  by (simp add: be_i32_def)

lemmas [codec_iffs] = i32_codec.enc_append_iff i32_codec.enc_iff

lemma length_len_u32 [simp]: "length (len_u32 xs) = 4"
  by (simp add: len_u32_def)

lemma len_u32_iff [codec_iffs]:
  "length xs < 4294967296 \<Longrightarrow> length ys < 4294967296 \<Longrightarrow>
   len_u32 xs = len_u32 ys \<longleftrightarrow> length xs = length ys"
  by (simp add: len_u32_def be_bytes_iff)

lemma codec_enc_list:
  assumes "codec enc valid"
  shows "codec (enc_list enc) (ok_list valid)"
proof (unfold_locales, goal_cases)
  case (1 a b xs ys)
  then have "length a = length b" "concat (map enc a) @ xs = concat (map enc b) @ ys"
    by (simp_all add: enc_list_def ok_list_def len_u32_iff)
  with 1(1,2) codec.list_self_delimiting [OF assms, of a b xs ys] show ?case
    unfolding ok_list_def by blast
qed

interpretation vec2_codec: codec enc_vec2 ok_vec2
  by unfold_locales (auto simp: enc_vec2_def ok_vec2_def codec_iffs)

lemmas [codec_iffs] = vec2_codec.enc_append_iff vec2_codec.enc_iff

interpretation str_codec: codec enc_str ok_str
proof (unfold_locales, goal_cases)
  case (1 a b xs ys)
  then have "length a = length b" "str_bytes a @ xs = str_bytes b @ ys"
    by (simp_all add: enc_str_def ok_str_def len_u32_iff)
  then show ?case
    by (auto simp: str_bytes_def append_eq_append_conv inj_map_eq_map inj_of_char)
qed

lemmas [codec_iffs] = str_codec.enc_append_iff str_codec.enc_iff

interpretation seat_info_codec: codec enc_seat_info ok_seat_info
  by unfold_locales (auto simp: enc_seat_info_def ok_seat_info_def codec_iffs)

interpretation blocker_codec: codec enc_blocker ok_blocker
  by unfold_locales (auto simp: enc_blocker_def ok_blocker_def codec_iffs)

lemma pickup_kind_byte_inj [simp]: "pickup_kind_byte a = pickup_kind_byte b \<longleftrightarrow> a = b"
  by (cases a; cases b) (auto simp: pickup_kind_byte_def)

interpretation pickup_spawn_codec: codec enc_pickup_spawn ok_pickup_spawn
  by unfold_locales (auto simp: enc_pickup_spawn_def ok_pickup_spawn_def codec_iffs)

lemma button_bits_inj [simp]: "button_bits a = button_bits b \<longleftrightarrow> a = b"
  by (cases a; cases b) (auto simp: button_bits_def of_bool_def split: if_splits)

interpretation seat_action_codec: codec enc_seat_action ok_seat_action
proof (unfold_locales, goal_cases)
  case (1 a b xs ys)
  then show ?case
    by (cases a; cases b; cases "sa_intent a"; cases "sa_intent b")
      (auto simp: enc_seat_action_def ok_seat_action_def ok_intent_def codec_iffs)
qed

interpretation actions_codec: codec "enc_list enc_seat_action" "ok_list ok_seat_action"
  by (rule codec_enc_list) unfold_locales

interpretation seats_codec: codec "enc_list enc_seat_info" "ok_list ok_seat_info"
  by (rule codec_enc_list) unfold_locales

interpretation blockers_codec: codec "enc_list enc_blocker" "ok_list ok_blocker"
  by (rule codec_enc_list) unfold_locales

interpretation pickups_codec: codec "enc_list enc_pickup_spawn" "ok_list ok_pickup_spawn"
  by (rule codec_enc_list) unfold_locales

interpretation forfeits_codec: codec "enc_list (be_bytes 1)" "ok_list (\<lambda>s. s < 2 ^ 8)"
  by (rule codec_enc_list) unfold_locales

lemmas [codec_iffs] = actions_codec.enc_append_iff seats_codec.enc_append_iff
  blockers_codec.enc_append_iff pickups_codec.enc_append_iff
  forfeits_codec.enc_append_iff [simplified]

interpretation tick_record_codec: codec enc_tick_record ok_tick_record
  by unfold_locales (auto simp: enc_tick_record_def ok_tick_record_def codec_iffs)

interpretation ticks_codec: codec "enc_list enc_tick_record" "ok_list ok_tick_record"
  by (rule codec_enc_list) unfold_locales

lemmas [codec_iffs] = ticks_codec.enc_append_iff ticks_codec.enc_iff

subsection \<open>What the digests commit to\<close>

lemma mode_bytes_inj [simp]:
  "weapon_mode_byte w = weapon_mode_byte w' \<longleftrightarrow> w = w'"
  "aim_mode_byte a = aim_mode_byte a' \<longleftrightarrow> a = a'"
  by (cases w; cases w'; simp add: weapon_mode_byte_def)
    (cases a; cases a'; simp add: aim_mode_byte_def)

definition committed :: "replay_record \<Rightarrow> replay_record" where
  "committed r = r\<lparr>rr_config := (rr_config r)\<lparr>tick_hz := 0, cfg_seats := 0\<rparr>\<rparr>"

text \<open>
  \<^verbatim>\<open>Rules::canonical_encoding\<close> is injective on every field but \<^verbatim>\<open>starting_ticks\<close>: two
  rule sets have the same encoding exactly when they differ in the starting delay at most.
\<close>

theorem canonical_encoding_inj:
  assumes "ok_rules r" "ok_rules r'"
  shows "canonical_encoding r = canonical_encoding r'
     \<longleftrightarrow> r\<lparr>r_starting_ticks := 0\<rparr> = r'\<lparr>r_starting_ticks := 0\<rparr>"
proof
  assume "canonical_encoding r = canonical_encoding r'"
  with assms show "r\<lparr>r_starting_ticks := 0\<rparr> = r'\<lparr>r_starting_ticks := 0\<rparr>"
    by (cases r; cases r') (simp add: canonical_encoding_def ok_rules_def codec_iffs of_bool_eq_iff)
next
  assume "r\<lparr>r_starting_ticks := 0\<rparr> = r'\<lparr>r_starting_ticks := 0\<rparr>"
  then show "canonical_encoding r = canonical_encoding r'"
    by (cases r; cases r') (simp add: canonical_encoding_def)
qed

theorem canonical_encoding_inj_witness:
  "ok_rules default_rules \<and> ok_rules (default_rules\<lparr>r_starting_ticks := 60\<rparr>)
   \<and> canonical_encoding default_rules = canonical_encoding (default_rules\<lparr>r_starting_ticks := 60\<rparr>)
   \<and> canonical_encoding default_rules \<noteq> canonical_encoding (default_rules\<lparr>r_damage := 26\<rparr>)"
proof -
  have ok: "ok_rules default_rules" "ok_rules (default_rules\<lparr>r_starting_ticks := 60\<rparr>)"
    "ok_rules (default_rules\<lparr>r_damage := 26\<rparr>)"
    by (simp_all add: ok_rules_def default_rules_defs in_i32_def)
  show ?thesis
    using ok canonical_encoding_inj [OF ok(1,2)] canonical_encoding_inj [OF ok(1,3)]
    by (simp add: default_rules_defs)
qed

lemma replay_preimage_inj:
  assumes "ok_replay r" "ok_replay r'" "replay_preimage r = replay_preimage r'"
  shows "committed r = committed r'"
  using assms
  by (cases r; cases r'; cases "rr_config r"; cases "rr_config r'"; cases "bounds (rr_config r)";
      cases "bounds (rr_config r')")
    (simp add: committed_def replay_preimage_def ok_replay_def codec_iffs ok_vec2_def)

text \<open>
  Property C36. The byte string a replay digest hashes determines the whole replay record, except the
  tick rate and the seat count of its configuration, which it does not fold: two records whose
  digests agree either agree on everything committed or exhibit a Keccak collision.
\<close>

theorem replay_digest_commits:
  assumes "ok_replay r" "ok_replay r'" "replay_digest X r = replay_digest X r'"
  shows "committed r = committed r'
     \<or> (replay_preimage r \<noteq> replay_preimage r'
        \<and> keccak256 X (replay_preimage r) = keccak256 X (replay_preimage r'))"
proof (cases "replay_preimage r = replay_preimage r'")
  case True
  with replay_preimage_inj [OF assms(1,2)] show ?thesis by blast
next
  case False
  with assms(3) show ?thesis by (simp add: replay_digest_def)
qed

definition sample_replay :: replay_record where
  "sample_replay = \<lparr>rr_protocol_version = 1, rr_match_id = replicate 16 7, rr_seed = 42,
     rr_seats = [\<lparr>si_seat = 0, si_team = 0, si_controller = ''human''\<rparr>,
                 \<lparr>si_seat = 1, si_team = 1, si_controller = ''agent''\<rparr>],
     rr_blockers = [], rr_pickups = [], rr_rules_commit = canonical_encoding default_rules,
     rr_config = \<lparr>tick_hz = 20, max_ticks = 600, bounds = \<lparr>vx = 50000, vy = 50000\<rparr>, cfg_seats = 2\<rparr>,
     rr_ticks = [\<lparr>tr_tick = 1, tr_actions = [], tr_forfeits = [1]\<rparr>]\<rparr>"

text \<open>Under a digest that keeps only the first byte, dropping a forfeit from the log is a collision.\<close>

theorem replay_digest_commits_witness:
  "let X = \<lparr>keccak256 = (\<lambda>bs. take 1 bs), hex_encode = map char_of\<rparr>;
       r' = sample_replay\<lparr>rr_ticks := []\<rparr>
   in ok_replay sample_replay \<and> ok_replay r' \<and> replay_digest X sample_replay = replay_digest X r'
      \<and> replay_preimage sample_replay \<noteq> replay_preimage r'"
proof -
  let ?X = "\<lparr>keccak256 = (\<lambda>bs. take 1 bs), hex_encode = map char_of\<rparr>"
  let ?r = "sample_replay\<lparr>rr_ticks := []\<rparr>"
  have ok: "ok_replay sample_replay" "ok_replay ?r"
    by (simp_all add: sample_replay_def ok_replay_def ok_list_def ok_seat_info_def ok_str_def
        ok_vec2_def ok_tick_record_def canonical_encoding_def in_i32_def be_i32_def)
  have "replay_digest ?X sample_replay = replay_digest ?X ?r"
    by (simp add: replay_digest_def replay_preimage_def str_bytes_def)
  with ok replay_digest_commits [OF ok this] show ?thesis
    by (auto simp: Let_def committed_def sample_replay_def)
qed

text \<open>
  The message a seated agent signs determines the protocol version, the identity and the
  nonce it was built from, and no join message is a replay message: a signature obtained for one
  purpose cannot be replayed for another without a Keccak collision.
\<close>

theorem join_preimage_separates:
  assumes "v < 2 ^ 32" "v' < 2 ^ 32" "ok_str a" "ok_str a'" "length n < 2 ^ 32" "length n' < 2 ^ 32"
  shows "(join_preimage v a n = join_preimage v' a' n' \<longleftrightarrow> v = v' \<and> a = a' \<and> n = n')
     \<and> join_preimage v a n \<noteq> replay_preimage r"
proof
  have "str_bytes a = str_bytes a' \<longleftrightarrow> a = a'"
    by (simp add: str_bytes_def inj_map_eq_map inj_of_char)
  moreover have "length a = length a' \<Longrightarrow> length (str_bytes a) = length (str_bytes a')"
    by (simp add: str_bytes_def)
  ultimately show "join_preimage v a n = join_preimage v' a' n' \<longleftrightarrow> v = v' \<and> a = a' \<and> n = n'"
    using assms by (auto simp: join_preimage_def codec_iffs ok_str_def)
  show "join_preimage v a n \<noteq> replay_preimage r"
    by (simp add: join_preimage_def replay_preimage_def str_bytes_def of_char_def)
qed

theorem join_preimage_separates_witness:
  "ok_str ''agent-a'' \<and> ok_str ''agent-b''
   \<and> join_preimage 1 ''agent-a'' [1, 2, 3] \<noteq> join_preimage 1 ''agent-b'' [1, 2, 3]
   \<and> join_preimage 1 ''agent-a'' [1, 2, 3] \<noteq> replay_preimage sample_replay"
  using join_preimage_separates [of 1 1 "''agent-a''" "''agent-b''" "[1, 2, 3]" "[1, 2, 3]" sample_replay]
  by (simp add: ok_str_def)

end
