(* ===== verification/Arena_State.thy ===== *)
theory Arena_State
  imports Geometry_Exact Rules Codec
begin

section \<open>The state of a match (\<^verbatim>\<open>src/arena/core/src/lib.rs\<close>)\<close>

text \<open>
  The records of the simulation, the construction of a match (\<^verbatim>\<open>Match::new_with_pickups\<close>) and the
  accessors. Construction may panic: negating the spawn jitter, drawing from its range and adding
  the jitter to the spawn column are checked 32-bit operations.
\<close>

record pawn =
  p_seat :: seat_id
  p_team :: team_id
  p_pos :: vec2
  p_z :: i32
  p_z_vel :: i32
  p_facing :: bam
  p_vel :: vec2
  p_health :: u16
  p_max_health :: u16
  p_shield :: u16
  p_ammo :: u16
  p_cooldown :: u16
  p_dash_cooldown :: u16
  p_launched_by :: "seat_id option"
  p_score :: i32
  p_alive :: bool
  p_forfeited :: bool

record projectile =
  pj_id :: u32
  pj_shooter :: seat_id
  pj_team :: team_id
  pj_origin :: vec2
  pj_pos :: vec2
  pj_vel :: vec2
  pj_facing :: bam
  pj_z :: i32
  pj_age :: u16

record pickup =
  pk_id :: u32
  pk_kind :: pickup_kind
  pk_pos :: vec2
  pk_amount :: u16
  pk_active :: bool
  pk_respawn_in :: u16

record remembered =
  rm_kind :: entity_kind
  rm_team :: team_id
  rm_pos :: vec2
  rm_z :: i32
  rm_facing :: bam
  rm_last_seen :: u64

record arena_match =
  m_match_id :: uuid
  m_config :: match_config
  m_rules :: rules
  m_seats :: "seat_info list"
  m_blockers :: "blocker list"
  m_pawns :: "pawn list"
  m_projectiles :: "projectile list"
  m_next_projectile_id :: u32
  m_pickup_config :: "pickup_spawn list"
  m_pickups :: "pickup list"
  m_seat_memory :: "(u32, remembered) btree list"
  m_tick :: u64
  m_phase :: match_phase
  m_starting_remaining :: u32
  m_seed :: u64
  m_pending_forfeits :: "seat_id list"
  m_ticks :: "tick_record list"
  m_result :: "match_result option"

subsection \<open>Construction\<close>

primrec live_pickups :: "nat \<Rightarrow> pickup_spawn list \<Rightarrow> pickup list option" where
  "live_pickups i [] = Some []"
| "live_pickups i (p # ps) = do {
     id \<leftarrow> ck_u 32 (PICKUP_ID_BASE + i mod 2 ^ 32);
     rest \<leftarrow> live_pickups (i + 1) ps;
     Some (\<lparr>pk_id = id, pk_kind = ps_kind p, pk_pos = ps_position p, pk_amount = ps_amount p,
            pk_active = True, pk_respawn_in = 0\<rparr> # rest) }"

definition spawn_column :: "rules \<Rightarrow> nat \<Rightarrow> nat \<Rightarrow> i32" where
  "spawn_column r n i =
     (if n \<le> 1 then 0
      else as_i32 (- r_spawn_radius r + (int i * (2 * r_spawn_radius r)) sdiv (int n - 1)))"

definition spawn_pawn :: "rules \<Rightarrow> nat \<Rightarrow> nat \<Rightarrow> seat_info \<Rightarrow> 64 word \<Rightarrow> (pawn \<times> 64 word) option" where
  "spawn_pawn r n i s g = do {
     lo \<leftarrow> ck_i32 (- r_spawn_jitter r);
     (jx, g) \<leftarrow> range_i32 lo (r_spawn_jitter r) g;
     (jy, g) \<leftarrow> range_i32 lo (r_spawn_jitter r) g;
     x \<leftarrow> ck_i32 (spawn_column r n i + jx);
     Some (\<lparr>p_seat = si_seat s, p_team = si_team s, p_pos = \<lparr>vx = x, vy = jy\<rparr>, p_z = 0, p_z_vel = 0,
            p_facing = (if x > 0 then WEST else EAST), p_vel = vec2_zero,
            p_health = r_start_health r, p_max_health = r_start_health r, p_shield = 0,
            p_ammo = r_mag_size r, p_cooldown = 0, p_dash_cooldown = 0, p_launched_by = None,
            p_score = 0, p_alive = True, p_forfeited = False\<rparr>, g) }"

primrec spawn_pawns :: "rules \<Rightarrow> nat \<Rightarrow> nat \<Rightarrow> seat_info list \<Rightarrow> 64 word \<Rightarrow> pawn list option" where
  "spawn_pawns r n i [] g = Some []"
| "spawn_pawns r n i (s # ss) g = do {
     (p, g) \<leftarrow> spawn_pawn r n i s g;
     rest \<leftarrow> spawn_pawns r n (i + 1) ss g;
     Some (p # rest) }"

definition new_with_pickups ::
  "uuid \<Rightarrow> match_config \<Rightarrow> rules \<Rightarrow> seat_info list \<Rightarrow> blocker list \<Rightarrow> pickup_spawn list \<Rightarrow> u64
   \<Rightarrow> arena_match option" where
  "new_with_pickups match_id config rules seats blockers pickups seed = do {
     live \<leftarrow> live_pickups 0 pickups;
     pawns \<leftarrow> spawn_pawns rules (length seats) 0 seats (of_nat seed);
     Some \<lparr>m_match_id = match_id, m_config = config, m_rules = rules, m_seats = seats,
       m_blockers = blockers, m_pawns = pawns, m_projectiles = [],
       m_next_projectile_id = PROJECTILE_ID_BASE, m_pickup_config = pickups, m_pickups = live,
       m_seat_memory = replicate (length seats) [], m_tick = 0,
       m_phase = (if r_starting_ticks rules > 0 then Starting else Live),
       m_starting_remaining = r_starting_ticks rules, m_seed = seed, m_pending_forfeits = [],
       m_ticks = [], m_result = None\<rparr> }"

definition match_new ::
  "uuid \<Rightarrow> match_config \<Rightarrow> rules \<Rightarrow> seat_info list \<Rightarrow> blocker list \<Rightarrow> u64 \<Rightarrow> arena_match option" where
  "match_new match_id config rules seats blockers seed =
     new_with_pickups match_id config rules seats blockers [] seed"

subsection \<open>Accessors\<close>

definition find_pawn :: "arena_match \<Rightarrow> seat_id \<Rightarrow> pawn option" where
  "find_pawn m seat = List.find (\<lambda>p. p_seat p = seat) (m_pawns m)"

definition pawn_alive :: "arena_match \<Rightarrow> seat_id \<Rightarrow> bool" where
  "pawn_alive m seat = list_ex (\<lambda>p. p_seat p = seat \<and> p_alive p) (m_pawns m)"

definition set_pawn :: "nat \<Rightarrow> pawn \<Rightarrow> arena_match \<Rightarrow> arena_match" where
  "set_pawn i p m = m\<lparr>m_pawns := (m_pawns m)[i := p]\<rparr>"

lemma set_pawn_simps [simp]:
  "m_pawns (set_pawn i p m) = (m_pawns m)[i := p]"
  "m_rules (set_pawn i p m) = m_rules m" "m_config (set_pawn i p m) = m_config m"
  "m_blockers (set_pawn i p m) = m_blockers m" "m_projectiles (set_pawn i p m) = m_projectiles m"
  "m_seats (set_pawn i p m) = m_seats m" "m_seat_memory (set_pawn i p m) = m_seat_memory m"
  "m_tick (set_pawn i p m) = m_tick m" "m_phase (set_pawn i p m) = m_phase m"
  "m_pickups (set_pawn i p m) = m_pickups m" "m_ticks (set_pawn i p m) = m_ticks m"
  "m_pending_forfeits (set_pawn i p m) = m_pending_forfeits m"
  "m_result (set_pawn i p m) = m_result m" "m_match_id (set_pawn i p m) = m_match_id m"
  "m_seed (set_pawn i p m) = m_seed m" "m_pickup_config (set_pawn i p m) = m_pickup_config m"
  "m_starting_remaining (set_pawn i p m) = m_starting_remaining m"
  "m_next_projectile_id (set_pawn i p m) = m_next_projectile_id m"
  by (simp_all add: set_pawn_def)

subsection \<open>Spawned pawns\<close>

definition fresh_pawn :: "rules \<Rightarrow> seat_info \<Rightarrow> pawn \<Rightarrow> bool" where
  "fresh_pawn r s p \<longleftrightarrow> p_seat p = si_seat s \<and> p_team p = si_team s \<and> p_alive p \<and> \<not> p_forfeited p
     \<and> p_health p = r_start_health r \<and> p_max_health p = r_start_health r \<and> p_shield p = 0
     \<and> p_ammo p = r_mag_size r \<and> p_score p = 0 \<and> p_z p = 0 \<and> p_z_vel p = 0"

lemma spawn_pawns_fresh:
  "spawn_pawns r n i ss g = Some ps \<Longrightarrow> list_all2 (fresh_pawn r) ss ps"
proof (induction ss arbitrary: i g ps)
  case (Cons s ss)
  then show ?case
    by (auto simp: panic_simps spawn_pawn_def fresh_pawn_def split: prod.splits)
qed (simp add: list_all2_conv_all_nth)

lemma new_with_pickups_fresh:
  assumes "new_with_pickups i c r ss bs pks sd = Some m"
  shows "list_all2 (fresh_pawn r) ss (m_pawns m)" "m_match_id m = i" "m_config m = c"
    "m_rules m = r" "m_seats m = ss" "m_blockers m = bs" "m_pickup_config m = pks" "m_seed m = sd"
    "m_projectiles m = []" "m_tick m = 0" "m_ticks m = []" "m_result m = None"
    "m_pending_forfeits m = []" "m_seat_memory m = replicate (length ss) []"
    "m_phase m = (if r_starting_ticks r > 0 then Starting else Live)"
    "m_starting_remaining m = r_starting_ticks r"
  using assms by (auto simp: new_with_pickups_def panic_simps dest: spawn_pawns_fresh)

lemma spawn_column_bounds:
  assumes "0 \<le> r_spawn_radius r" "r_spawn_radius r < 2 ^ 31" "i < n"
  shows "\<bar>spawn_column r n i\<bar> \<le> r_spawn_radius r"
proof (cases "n \<le> 1")
  case True
  then show ?thesis using assms(1) by (simp add: spawn_column_def)
next
  case False
  let ?R = "r_spawn_radius r"
  let ?q = "(int i * (2 * ?R)) div (int n - 1)"
  have n: "0 < int n - 1" using False by simp
  have "int i * (2 * ?R) \<le> (int n - 1) * (2 * ?R)"
    using assms by (intro mult_right_mono) auto
  then have "?q \<le> 2 * ?R"
    using zdiv_mono1 [OF _ n, of "int i * (2 * ?R)" "(int n - 1) * (2 * ?R)"] n by simp
  moreover have "0 \<le> ?q" using assms n by (simp add: pos_imp_zdiv_nonneg_iff)
  moreover have "(int i * (2 * ?R)) sdiv (int n - 1) = ?q"
    using assms n by (intro sdiv_nonneg) auto
  ultimately have "\<bar>- ?R + (int i * (2 * ?R)) sdiv (int n - 1)\<bar> \<le> ?R" by linarith
  moreover from this have "in_i32 (- ?R + (int i * (2 * ?R)) sdiv (int n - 1))"
    using assms(2) by (auto simp: in_i32_def)
  ultimately show ?thesis using False by (simp add: spawn_column_def)
qed

definition spawn_ok :: "rules \<Rightarrow> bool" where
  "spawn_ok r \<longleftrightarrow> 0 \<le> r_spawn_radius r \<and> 0 \<le> r_spawn_jitter r \<and> r_spawn_jitter r < 2 ^ 30
     \<and> r_spawn_radius r + r_spawn_jitter r < 2 ^ 31"

definition spawned_within :: "rules \<Rightarrow> pawn \<Rightarrow> bool" where
  "spawned_within r p \<longleftrightarrow> \<bar>vx (p_pos p)\<bar> \<le> r_spawn_radius r + r_spawn_jitter r
     \<and> \<bar>vy (p_pos p)\<bar> \<le> r_spawn_jitter r"

lemma spawn_pawn_safe:
  assumes "spawn_ok r" "i < n"
  shows "\<exists>p g'. spawn_pawn r n i s g = Some (p, g') \<and> spawned_within r p"
proof -
  let ?J = "r_spawn_jitter r"
  have J: "- ?J \<le> ?J" "?J - - ?J < 2 ^ 31" "in_i32 (- ?J)" "in_i32 ?J"
    using assms(1) by (auto simp: spawn_ok_def in_i32_def)
  obtain jx g1 where jx: "range_i32 (- ?J) ?J g = Some (jx, g1)" "- ?J \<le> jx" "jx \<le> ?J"
    using range_i32_safe [OF J] by blast
  obtain jy g2 where jy: "range_i32 (- ?J) ?J g1 = Some (jy, g2)" "- ?J \<le> jy" "jy \<le> ?J"
    using range_i32_safe [OF J] by blast
  have c: "\<bar>spawn_column r n i\<bar> \<le> r_spawn_radius r"
    using assms by (intro spawn_column_bounds) (auto simp: spawn_ok_def)
  then have x: "\<bar>spawn_column r n i + jx\<bar> \<le> r_spawn_radius r + ?J" using jx by linarith
  then have "in_i32 (spawn_column r n i + jx)"
    using assms(1) by (auto simp: spawn_ok_def in_i32_def)
  with J jx(1) jy x show ?thesis
    by (auto simp: spawn_pawn_def ck_i32_def spawned_within_def)
qed

lemma spawn_pawns_safe:
  assumes "spawn_ok r" "i + length ss \<le> n"
  shows "\<exists>ps. spawn_pawns r n i ss g = Some ps \<and> (\<forall>p\<in>set ps. spawned_within r p)"
  using assms(2)
proof (induction ss arbitrary: i g)
  case (Cons s ss)
  then have "i < n" by simp
  with spawn_pawn_safe [OF assms(1)] obtain p g' where
    p: "spawn_pawn r n i s g = Some (p, g')" "spawned_within r p" by blast
  from Cons.IH [of "i + 1" g'] Cons.prems obtain ps where
    "spawn_pawns r n (i + 1) ss g' = Some ps" "\<forall>p\<in>set ps. spawned_within r p" by auto
  with p show ?case by auto
qed simp

lemma live_pickups_safe: "i + length ps < 2 ^ 31 \<Longrightarrow> \<exists>qs. live_pickups i ps = Some qs"
proof (induction ps arbitrary: i)
  case (Cons p ps)
  from Cons.IH [of "i + 1"] Cons.prems obtain qs where "live_pickups (i + 1) ps = Some qs" by auto
  with Cons.prems show ?case by (auto simp: ck_u_def PICKUP_ID_BASE_def)
qed simp

text \<open>
  With a non-negative spawn radius and jitter that together fit a coordinate, building a
  match never panics, and every pawn spawns alive at full health within the spawn radius plus the
  jitter on the first axis and within the jitter on the second, whatever the seed.
\<close>

theorem new_match_spawns:
  assumes "spawn_ok r" "length pickups < 2 ^ 31"
  shows "\<exists>m. new_with_pickups match_id config r seats blockers pickups seed = Some m
     \<and> list_all2 (fresh_pawn r) seats (m_pawns m) \<and> (\<forall>p\<in>set (m_pawns m). spawned_within r p)"
proof -
  obtain qs where qs: "live_pickups 0 pickups = Some qs"
    using live_pickups_safe [of 0 pickups] assms(2) by auto
  obtain ps where ps: "spawn_pawns r (length seats) 0 seats (of_nat seed) = Some ps"
    "\<forall>p\<in>set ps. spawned_within r p"
    using spawn_pawns_safe [OF assms(1), of 0 seats "length seats" "of_nat seed"] by auto
  with qs spawn_pawns_fresh [OF ps(1)] show ?thesis by (simp add: new_with_pickups_def)
qed

definition duel_seats :: "seat_info list" where
  "duel_seats = [\<lparr>si_seat = 0, si_team = 0, si_controller = ''human''\<rparr>,
                 \<lparr>si_seat = 1, si_team = 1, si_controller = ''agent''\<rparr>]"

definition duel_config :: match_config where
  "duel_config = \<lparr>tick_hz = 20, max_ticks = 600, bounds = \<lparr>vx = 50000, vy = 50000\<rparr>, cfg_seats = 2\<rparr>"

theorem new_match_spawns_witness:
  "spawn_ok default_rules
   \<and> (\<exists>m. new_with_pickups [] duel_config default_rules duel_seats [] [] 7 = Some m
        \<and> list_all2 (fresh_pawn default_rules) duel_seats (m_pawns m)
        \<and> (\<forall>p\<in>set (m_pawns m). spawned_within default_rules p))"
proof
  show ok: "spawn_ok default_rules" by (simp add: spawn_ok_def default_rules_defs)
  show "\<exists>m. new_with_pickups [] duel_config default_rules duel_seats [] [] 7 = Some m
      \<and> list_all2 (fresh_pawn default_rules) duel_seats (m_pawns m)
      \<and> (\<forall>p\<in>set (m_pawns m). spawned_within default_rules p)"
    by (rule new_match_spawns [OF ok]) simp
qed

end
