(* ===== verification/Perception.thy ===== *)
theory Perception
  imports Arena_State
begin

section \<open>What a seat perceives (\<^verbatim>\<open>src/arena/core/src/lib.rs\<close>)\<close>

text \<open>
  The perception gate, the per-seat memory refreshed at each step, the observation handed to a
  controller and the omniscient broadcast handed to spectators. The index
  \<^verbatim>\<open>self.seat_memory[seat as usize]\<close> panics past the roster length, and \<^verbatim>\<open>self.pawn(seat)\<close> panics on
  an unknown seat: both are \<open>None\<close>.
\<close>

definition perceives :: "arena_match \<Rightarrow> vec2 \<Rightarrow> i32 \<Rightarrow> bam \<Rightarrow> vec2 \<Rightarrow> i32 \<Rightarrow> bool" where
  "perceives m eye eye_z facing target target_z \<longleftrightarrow>
     within_range eye target (r_perception_range (m_rules m))
     \<and> in_fov facing eye target (r_fov_octant_spread (m_rules m))
     \<and> has_line_of_sight (m_blockers m) eye eye_z target target_z"

definition seen_pawns :: "arena_match \<Rightarrow> pawn \<Rightarrow> pawn list" where
  "seen_pawns m me = filter (\<lambda>p. p_seat p \<noteq> p_seat me \<and> p_alive p
     \<and> perceives m (p_pos me) (p_z me) (p_facing me) (p_pos p) (p_z p)) (m_pawns m)"

definition seen_projectiles :: "arena_match \<Rightarrow> pawn \<Rightarrow> projectile list" where
  "seen_projectiles m me = filter (\<lambda>q.
     perceives m (p_pos me) (p_z me) (p_facing me) (pj_pos q) (pj_z q)) (m_projectiles m)"

definition seen_pickups :: "arena_match \<Rightarrow> pawn \<Rightarrow> pickup list" where
  "seen_pickups m me = filter (\<lambda>k. pk_active k
     \<and> perceives m (p_pos me) (p_z me) (p_facing me) (pk_pos k) 0) (m_pickups m)"

subsection \<open>Memory\<close>

definition remember_pawn :: "u64 \<Rightarrow> pawn \<Rightarrow> u32 \<times> remembered" where
  "remember_pawn tick p = (p_seat p, \<lparr>rm_kind = Player, rm_team = p_team p, rm_pos = p_pos p,
     rm_z = p_z p, rm_facing = p_facing p, rm_last_seen = tick\<rparr>)"

definition remember_projectile :: "u64 \<Rightarrow> projectile \<Rightarrow> u32 \<times> remembered" where
  "remember_projectile tick q = (pj_id q, \<lparr>rm_kind = Projectile_Entity, rm_team = 0,
     rm_pos = pj_pos q, rm_z = 0, rm_facing = pj_facing q, rm_last_seen = tick\<rparr>)"

definition remember_pickup :: "u64 \<Rightarrow> pickup \<Rightarrow> u32 \<times> remembered" where
  "remember_pickup tick k = (pk_id k, \<lparr>rm_kind = Pickup_Entity, rm_team = 0, rm_pos = pk_pos k,
     rm_z = 0, rm_facing = 0, rm_last_seen = tick\<rparr>)"

definition seen_now :: "arena_match \<Rightarrow> u64 \<Rightarrow> pawn \<Rightarrow> (u32 \<times> remembered) list" where
  "seen_now m tick me = map (remember_pawn tick) (seen_pawns m me)
     @ map (remember_projectile tick) (seen_projectiles m me)
     @ map (remember_pickup tick) (seen_pickups m me)"

definition refresh_mem ::
  "u64 \<Rightarrow> u64 \<Rightarrow> (u32 \<times> remembered) list \<Rightarrow> (u32, remembered) btree \<Rightarrow> (u32, remembered) btree" where
  "refresh_mem window tick seen mem =
     filter (\<lambda>(_, r). tick - rm_last_seen r \<le> window) (fold (\<lambda>(k, v). bt_insert k v) seen mem)"

definition refresh_seat :: "u64 \<Rightarrow> pawn \<Rightarrow> arena_match \<Rightarrow> arena_match option" where
  "refresh_seat tick me m =
     (let i = p_seat me; mems = m_seat_memory m; window = r_perception_memory_ticks (m_rules m)
      in if i < length mems
         then Some (m\<lparr>m_seat_memory := mems[i := refresh_mem window tick (seen_now m tick me) (mems ! i)]\<rparr>)
         else None)"

definition refresh_perception_memory :: "u64 \<Rightarrow> arena_match \<Rightarrow> arena_match option" where
  "refresh_perception_memory tick m = foldM (refresh_seat tick) (filter p_alive (m_pawns m)) m"

subsection \<open>Observation\<close>

definition visible_pawn :: "pawn \<Rightarrow> visible_entity" where
  "visible_pawn p = \<lparr>ve_entity_id = p_seat p, ve_kind = Player, ve_team = p_team p,
     ve_position = p_pos p, ve_z = p_z p, ve_facing = p_facing p, ve_in_line_of_sight = True\<rparr>"

definition visible_projectile :: "projectile \<Rightarrow> visible_entity" where
  "visible_projectile q = \<lparr>ve_entity_id = pj_id q, ve_kind = Projectile_Entity, ve_team = 0,
     ve_position = pj_pos q, ve_z = 0, ve_facing = pj_facing q, ve_in_line_of_sight = True\<rparr>"

definition visible_pickup :: "pickup \<Rightarrow> visible_entity" where
  "visible_pickup k = \<lparr>ve_entity_id = pk_id k, ve_kind = Pickup_Entity, ve_team = 0,
     ve_position = pk_pos k, ve_z = 0, ve_facing = 0, ve_in_line_of_sight = True\<rparr>"

definition visible_memory :: "u32 \<times> remembered \<Rightarrow> visible_entity" where
  "visible_memory e = (case e of (eid, r) \<Rightarrow> \<lparr>ve_entity_id = eid, ve_kind = rm_kind r,
     ve_team = rm_team r, ve_position = rm_pos r, ve_z = rm_z r, ve_facing = rm_facing r,
     ve_in_line_of_sight = False\<rparr>)"

definition visible_live :: "arena_match \<Rightarrow> pawn \<Rightarrow> visible_entity list" where
  "visible_live m me = map visible_pawn (seen_pawns m me)
     @ map visible_projectile (seen_projectiles m me) @ map visible_pickup (seen_pickups m me)"

definition visible_remembered ::
  "arena_match \<Rightarrow> seat_id \<Rightarrow> visible_entity list \<Rightarrow> visible_entity list option" where
  "visible_remembered m seat live =
     (let window = r_perception_memory_ticks (m_rules m); mems = m_seat_memory m
      in if window > 0
         then if seat < length mems
              then Some (map visible_memory (filter (\<lambda>(eid, r).
                     \<not> List.member (map ve_entity_id live) eid
                     \<and> m_tick m - rm_last_seen r \<ge> 1 \<and> m_tick m - rm_last_seen r \<le> window)
                     (mems ! seat)))
              else None
         else Some [])"

definition own_state :: "pawn \<Rightarrow> self_state" where
  "own_state me = \<lparr>own_seat = p_seat me, own_team = p_team me, own_position = p_pos me,
     own_z = p_z me, own_z_vel = p_z_vel me, own_facing = p_facing me, own_velocity = p_vel me,
     own_health = p_health me, own_max_health = p_max_health me, own_shield = p_shield me,
     own_ammo = p_ammo me, own_cooldown = p_cooldown me - 1,
     own_dash_cooldown = p_dash_cooldown me - 1, own_score = p_score me, own_alive = p_alive me\<rparr>"

definition observe :: "arena_match \<Rightarrow> seat_id \<Rightarrow> observation option" where
  "observe m seat = do {
     me \<leftarrow> find_pawn m seat;
     remembered \<leftarrow> visible_remembered m seat (visible_live m me);
     Some \<lparr>obs_protocol_version = PROTOCOL_VERSION, obs_match_id = m_match_id m, obs_seat = seat,
       obs_tick = m_tick m, obs_phase = m_phase m, obs_starting_remaining = m_starting_remaining m,
       obs_deadline_micros = r_action_deadline_micros (m_rules m), obs_own = own_state me,
       obs_visible = sort_key ve_entity_id (visible_live m me @ remembered)\<rparr> }"

subsection \<open>Broadcast\<close>

definition broadcast_pawn :: "pawn \<Rightarrow> broadcast_entity" where
  "broadcast_pawn p = \<lparr>be_entity_id = p_seat p, be_kind = Player, be_team = p_team p,
     be_position = p_pos p, be_z = p_z p, be_facing = p_facing p, be_health = p_health p,
     be_max_health = p_max_health p, be_score = p_score p, be_alive = p_alive p\<rparr>"

definition broadcast_projectile :: "projectile \<Rightarrow> broadcast_entity" where
  "broadcast_projectile q = \<lparr>be_entity_id = pj_id q, be_kind = Projectile_Entity, be_team = 0,
     be_position = pj_pos q, be_z = 0, be_facing = pj_facing q, be_health = 0, be_max_health = 0,
     be_score = 0, be_alive = True\<rparr>"

definition broadcast_pickup :: "pickup \<Rightarrow> broadcast_entity" where
  "broadcast_pickup k = \<lparr>be_entity_id = pk_id k, be_kind = Pickup_Entity, be_team = 0,
     be_position = pk_pos k, be_z = 0, be_facing = 0, be_health = 0, be_max_health = 0,
     be_score = 0, be_alive = True\<rparr>"

definition match_broadcast :: "arena_match \<Rightarrow> broadcast" where
  "match_broadcast m = \<lparr>bc_protocol_version = PROTOCOL_VERSION, bc_match_id = m_match_id m,
     bc_tick = m_tick m, bc_phase = m_phase m, bc_starting_remaining = m_starting_remaining m,
     bc_entities = sort_key be_entity_id (map broadcast_pawn (m_pawns m)
       @ map broadcast_projectile (m_projectiles m)
       @ map broadcast_pickup (filter pk_active (m_pickups m)))\<rparr>"

end
