(* ===== verification/Combat.thy ===== *)
theory Combat
  imports Perception
begin

section \<open>Movement, damage, weapons and pickups (\<^verbatim>\<open>src/arena/core/src/lib.rs\<close>)\<close>

text \<open>
  The mutating helpers of \<^verbatim>\<open>Match::step\<close>, one definition per method, each returning the new match or
  the panic \<open>None\<close>. The panics that remain possible are the crossed bounds of \<^verbatim>\<open>clamp\<close>, the
  128-bit products of \<^verbatim>\<open>segment_hits_disc\<close>, and the checked additions to a score, to the projectile
  id and to a projectile's age. Distances are taken in \<^verbatim>\<open>i128\<close> on 32-bit coordinates and cannot
  overflow, so they are plain \<^typ>\<open>int\<close> arithmetic.
\<close>

subsection \<open>Movement\<close>

definition blocks_path :: "arena_match \<Rightarrow> seat_id \<Rightarrow> vec2 \<Rightarrow> i32 \<Rightarrow> vec2 \<Rightarrow> pawn \<Rightarrow> bool option" where
  "blocks_path m mover from z to p =
     (let r = r_pawn_radius (m_rules m); h = r_pawn_height (m_rules m)
      in if p_alive p \<and> p_seat p \<noteq> mover \<and> \<not> within_range from (p_pos p) r
         then do { hit \<leftarrow> segment_hits_disc from to (p_pos p) r; Some (hit \<and> pawn_bands_overlap z (p_z p) h) }
         else Some False)"

primrec anyM :: "('a \<Rightarrow> bool option) \<Rightarrow> 'a list \<Rightarrow> bool option" where
  "anyM f [] = Some False"
| "anyM f (x # xs) = do { b \<leftarrow> f x; if b then Some True else anyM f xs }"

definition path_obstructed :: "arena_match \<Rightarrow> seat_id \<Rightarrow> vec2 \<Rightarrow> i32 \<Rightarrow> vec2 \<Rightarrow> bool option" where
  "path_obstructed m mover from z to =
     (if path_hits_blocker (m_blockers m) from z to z then Some True
      else if r_pawn_radius (m_rules m) > 0 then anyM (blocks_path m mover from z to) (m_pawns m)
      else Some False)"

definition slide_target :: "arena_match \<Rightarrow> vec2 \<Rightarrow> i64 \<Rightarrow> i64 \<Rightarrow> vec2 option" where
  "slide_target m from ddx ddy = do {
     x \<leftarrow> clamp_panics (- vx (bounds (m_config m))) (vx (bounds (m_config m))) (vx from + ddx);
     y \<leftarrow> clamp_panics (- vy (bounds (m_config m))) (vy (bounds (m_config m))) (vy from + ddy);
     Some \<lparr>vx = as_i32 x, vy = as_i32 y\<rparr> }"

definition slide :: "arena_match \<Rightarrow> seat_id \<Rightarrow> vec2 \<Rightarrow> i32 \<Rightarrow> vec2 \<Rightarrow> i32 \<Rightarrow> vec2 option" where
  "slide m mover from z dir magnitude = do {
     let dx = (vx dir * magnitude) sdiv MOVE_INTENT_SCALE;
     let dy = (vy dir * magnitude) sdiv MOVE_INTENT_SCALE;
     to \<leftarrow> slide_target m from dx dy;
     blocked \<leftarrow> path_obstructed m mover from z to;
     if \<not> blocked then Some to
     else if r_wall_slide (m_rules m) \<and> dx \<noteq> 0 \<and> dy \<noteq> 0 then do {
       sx \<leftarrow> slide_target m from dx 0;
       bx \<leftarrow> path_obstructed m mover from z sx;
       if \<not> bx then Some sx
       else do {
         sy \<leftarrow> slide_target m from 0 dy;
         by \<leftarrow> path_obstructed m mover from z sy;
         Some (if \<not> by then sy else from) } }
     else Some from }"

subsection \<open>Damage\<close>

definition hp_damage :: "u16 \<Rightarrow> pawn \<Rightarrow> pawn \<times> u16" where
  "hp_damage raw p =
     (let absorbed = min raw (p_shield p);
          to_health = min (raw - absorbed) (p_health p);
          health = p_health p - to_health
      in (p\<lparr>p_shield := p_shield p - absorbed, p_health := health,
            p_alive := (if health = 0 then False else p_alive p)\<rparr>, absorbed + to_health))"

definition apply_hp_damage :: "nat \<Rightarrow> u16 \<Rightarrow> arena_match \<Rightarrow> arena_match \<times> u16" where
  "apply_hp_damage idx raw m =
     (let (p, dealt) = hp_damage raw (m_pawns m ! idx) in (set_pawn idx p m, dealt))"

definition damage_pawn :: "nat \<Rightarrow> u16 \<Rightarrow> seat_id \<Rightarrow> arena_match \<Rightarrow> arena_match \<times> u16" where
  "damage_pawn idx raw attacker m =
     (let gravity = r_gravity (m_rules m); knockback = r_knockback_velocity (m_rules m);
          (m, effective) = apply_hp_damage idx raw m;
          p = m_pawns m ! idx
      in (if knockback > 0 \<and> gravity > 0 \<and> effective > 0 \<and> p_alive p
          then set_pawn idx (p\<lparr>p_z_vel := sat_i32 (p_z_vel p + knockback),
                               p_launched_by := Some attacker\<rparr>) m
          else m, effective))"

definition add_score :: "nat \<Rightarrow> u16 \<Rightarrow> arena_match \<Rightarrow> arena_match option" where
  "add_score i dealt m = do {
     s \<leftarrow> ck_i32 (p_score (m_pawns m ! i) + int dealt);
     Some (set_pawn i ((m_pawns m ! i)\<lparr>p_score := s\<rparr>) m) }"

definition credit_fall_kill :: "nat \<Rightarrow> u16 \<Rightarrow> arena_match \<Rightarrow> arena_match option" where
  "credit_fall_kill victim dealt m =
     (case p_launched_by (m_pawns m ! victim) of
        None \<Rightarrow> Some m
      | Some launcher \<Rightarrow>
          (case find_index (\<lambda>p. p_seat p = launcher) (m_pawns m) of
             None \<Rightarrow> Some m
           | Some i \<Rightarrow>
               if p_team (m_pawns m ! i) \<noteq> p_team (m_pawns m ! victim) then add_score i dealt m
               else Some m))"

definition knock_back_horizontal :: "nat \<Rightarrow> vec2 \<Rightarrow> arena_match \<Rightarrow> arena_match option" where
  "knock_back_horizontal target dir m =
     (let p = m_pawns m ! target in
      if r_knockback_horizontal (m_rules m) \<le> 0 \<or> \<not> p_alive p then Some m
      else do {
        pos \<leftarrow> slide m (p_seat p) (p_pos p) (p_z p) dir (r_knockback_horizontal (m_rules m));
        Some (set_pawn target (p\<lparr>p_pos := pos\<rparr>) m) })"

definition knock_back_along :: "i64 \<Rightarrow> i64 \<Rightarrow> nat \<Rightarrow> u16 \<Rightarrow> arena_match \<Rightarrow> arena_match option" where
  "knock_back_along dx dy target dealt m =
     (if dealt > 0 then
        (case knockback_unit dx dy of
           None \<Rightarrow> Some m
         | Some dir \<Rightarrow> knock_back_horizontal target dir m)
      else Some m)"

subsection \<open>Hitscan\<close>

definition aim_unit :: "aim_mode \<Rightarrow> bam \<Rightarrow> i32 \<times> i32 \<times> i32" where
  "aim_unit a facing =
     (case a of
        Octant \<Rightarrow> (let (x, y) = octant_unit facing in (x, y, OCTANT_SCALE))
      | Fine \<Rightarrow> (let (x, y) = fine_unit facing in (x, y, FINE_SCALE)))"

definition may_target :: "rules \<Rightarrow> team_id \<Rightarrow> pawn \<Rightarrow> bool" where
  "may_target r team t \<longleftrightarrow> p_alive t \<and> (r_friendly_fire r \<or> p_team t \<noteq> team)"

definition fire_dist2 :: "vec2 \<Rightarrow> vec2 \<Rightarrow> int" where
  "fire_dist2 a b = (vx b - vx a) * (vx b - vx a) + (vy b - vy a) * (vy b - vy a)"

definition fire_hits :: "arena_match \<Rightarrow> pawn \<Rightarrow> pawn \<Rightarrow> bool" where
  "fire_hits m s t =
     (let r = m_rules m;
          (fx, fy, scale) = aim_unit (r_aim_mode r) (p_facing s);
          dx = vx (p_pos t) - vx (p_pos s); dy = vy (p_pos t) - vy (p_pos s);
          dist2 = dx * dx + dy * dy;
          dot = dx * fx + dy * fy;
          proj = dot sdiv scale;
          perp2 = dist2 - proj * proj
      in may_target r (p_team s) t \<and> \<not> dist2 > (r_weapon_range r)\<^sup>2 \<and> \<not> dot \<le> 0
         \<and> \<not> perp2 > (r_hit_radius r)\<^sup>2
         \<and> has_line_of_sight (m_blockers m) (p_pos s) (p_z s) (p_pos t) (p_z t)
         \<and> within_vertical_tolerance (p_z s) (p_z t) (r_vertical_hit_tolerance r))"

fun nearest :: "(nat \<times> int) option \<Rightarrow> (nat \<times> int) list \<Rightarrow> (nat \<times> int) option" where
  "nearest best [] = best"
| "nearest best ((j, d) # xs) =
     nearest (case best of None \<Rightarrow> Some (j, d) | Some (k, e) \<Rightarrow> if d < e then Some (j, d) else Some (k, e)) xs"

definition fire_target :: "arena_match \<Rightarrow> nat \<Rightarrow> nat option" where
  "fire_target m shooter =
     (let s = m_pawns m ! shooter;
          cands = filter (\<lambda>(j, t). j \<noteq> shooter \<and> fire_hits m s t) (enumerate 0 (m_pawns m))
      in map_option fst (nearest None (map (\<lambda>(j, t). (j, fire_dist2 (p_pos s) (p_pos t))) cands)))"

definition land_hit :: "nat \<Rightarrow> u16 \<Rightarrow> pawn \<Rightarrow> nat \<Rightarrow> arena_match \<Rightarrow> arena_match option" where
  "land_hit shooter raw s j m = do {
     let friendly = (p_team (m_pawns m ! j) = p_team s);
     let (m, dealt) = damage_pawn j raw (p_seat s) m;
     m \<leftarrow> (if friendly then Some m else add_score shooter dealt m);
     knock_back_along (vx (p_pos (m_pawns m ! j)) - vx (p_pos s))
       (vy (p_pos (m_pawns m ! j)) - vy (p_pos s)) j dealt m }"

definition resolve_fire :: "nat \<Rightarrow> arena_match \<Rightarrow> arena_match option" where
  "resolve_fire shooter m =
     (case fire_target m shooter of
        None \<Rightarrow> Some m
      | Some j \<Rightarrow> land_hit shooter (r_damage (m_rules m)) (m_pawns m ! shooter) j m)"

subsection \<open>Melee\<close>

definition melee_hits :: "arena_match \<Rightarrow> pawn \<Rightarrow> pawn \<Rightarrow> bool" where
  "melee_hits m s t \<longleftrightarrow>
     may_target (m_rules m) (p_team s) t
     \<and> \<not> fire_dist2 (p_pos s) (p_pos t) > (r_melee_range (m_rules m))\<^sup>2
     \<and> in_fov (p_facing s) (p_pos s) (p_pos t) MELEE_ARC_SPREAD
     \<and> has_line_of_sight (m_blockers m) (p_pos s) (p_z s) (p_pos t) (p_z t)
     \<and> within_vertical_tolerance (p_z s) (p_z t) (r_vertical_hit_tolerance (m_rules m))"

definition melee_targets :: "arena_match \<Rightarrow> nat \<Rightarrow> nat list" where
  "melee_targets m shooter =
     map fst (filter (\<lambda>(j, t). j \<noteq> shooter \<and> melee_hits m (m_pawns m ! shooter) t)
       (enumerate 0 (m_pawns m)))"

definition resolve_melee :: "nat \<Rightarrow> arena_match \<Rightarrow> arena_match option" where
  "resolve_melee shooter m =
     foldM (land_hit shooter (r_melee_damage (m_rules m)) (m_pawns m ! shooter))
       (melee_targets m shooter) m"

subsection \<open>Projectiles\<close>

definition spawn_projectile :: "nat \<Rightarrow> arena_match \<Rightarrow> arena_match option" where
  "spawn_projectile shooter m =
     (if length (m_projectiles m) \<ge> MAX_LIVE_PROJECTILES then Some m
      else do {
        let s = m_pawns m ! shooter;
        let oct = octant_index (p_facing s);
        let (ox, oy) = OCTANTS ! oct;
        let speed = clampi 0 MAX_PROJECTILE_SPEED (r_projectile_speed (m_rules m));
        let vel = \<lparr>vx = as_i32 ((ox * speed) sdiv OCTANT_SCALE), vy = as_i32 ((oy * speed) sdiv OCTANT_SCALE)\<rparr>;
        next \<leftarrow> ck_u 32 (m_next_projectile_id m + 1);
        Some (m\<lparr>m_next_projectile_id := next,
          m_projectiles := m_projectiles m @
            [\<lparr>pj_id = m_next_projectile_id m, pj_shooter = p_seat s, pj_team = p_team s,
              pj_origin = p_pos s, pj_pos = p_pos s, pj_vel = vel,
              pj_facing = (oct * 8192) mod 2 ^ 16, pj_z = p_z s, pj_age = 0\<rparr>]\<rparr>) })"

definition flight_end :: "projectile \<Rightarrow> vec2" where
  "flight_end q = \<lparr>vx = sat_i32 (vx (pj_pos q) + vx (pj_vel q)), vy = sat_i32 (vy (pj_pos q) + vy (pj_vel q))\<rparr>"

definition flight_hits :: "arena_match \<Rightarrow> projectile \<Rightarrow> pawn \<Rightarrow> bool option" where
  "flight_hits m q t =
     (let r = m_rules m; from = pj_pos q; to = flight_end q;
          along = (vx (p_pos t) - vx from) * vx (pj_vel q) + (vy (p_pos t) - vy from) * vy (pj_vel q)
      in if \<not> may_target r (pj_team q) t \<or> p_seat t = pj_shooter q \<or> along < 0 then Some False
         else do {
           hit \<leftarrow> segment_hits_disc from to (p_pos t) (r_hit_radius r);
           Some (hit \<and> has_line_of_sight (m_blockers m) from (pj_z q) (p_pos t) (p_z t)
             \<and> within_vertical_tolerance (pj_z q) (p_z t) (r_vertical_hit_tolerance r)) })"

primrec flight_cands :: "arena_match \<Rightarrow> projectile \<Rightarrow> (nat \<times> pawn) list \<Rightarrow> (nat \<times> int) list option" where
  "flight_cands m q [] = Some []"
| "flight_cands m q (jt # jts) = do {
     hit \<leftarrow> flight_hits m q (snd jt);
     rest \<leftarrow> flight_cands m q jts;
     Some (if hit then (fst jt, fire_dist2 (pj_pos q) (p_pos (snd jt))) # rest else rest) }"

definition strike_pawn :: "projectile \<Rightarrow> nat \<Rightarrow> arena_match \<Rightarrow> arena_match option" where
  "strike_pawn q j m = do {
     let friendly = (p_team (m_pawns m ! j) = pj_team q);
     let (m, dealt) = damage_pawn j (r_damage (m_rules m)) (pj_shooter q) m;
     m \<leftarrow> (if friendly then Some m
          else case find_index (\<lambda>p. p_seat p = pj_shooter q) (m_pawns m) of
                 None \<Rightarrow> Some m
               | Some i \<Rightarrow> add_score i dealt m);
     knock_back_along (vx (pj_vel q)) (vy (pj_vel q)) j dealt m }"

definition advance_projectile ::
  "projectile \<Rightarrow> arena_match \<times> projectile list \<Rightarrow> (arena_match \<times> projectile list) option" where
  "advance_projectile q ms = (case ms of (m, survivors) \<Rightarrow> do {
     cands \<leftarrow> flight_cands m q (enumerate 0 (m_pawns m));
     case nearest None cands of
       Some (j, _) \<Rightarrow> do { m \<leftarrow> strike_pawn q j m; Some (m, survivors) }
     | None \<Rightarrow>
         let to = flight_end q in
         if path_hits_blocker (m_blockers m) (pj_pos q) (pj_z q) to (pj_z q) then Some (m, survivors)
         else do {
           age \<leftarrow> ck_u 16 (pj_age q + 1);
           let q = q\<lparr>pj_pos := to, pj_age := age\<rparr>;
           if fire_dist2 (pj_origin q) to > (r_weapon_range (m_rules m))\<^sup>2 \<or> age \<ge> MAX_PROJECTILE_LIFETIME
           then Some (m, survivors)
           else Some (m, survivors @ [q]) } })"

definition advance_projectiles :: "arena_match \<Rightarrow> arena_match option" where
  "advance_projectiles m =
     (if m_projectiles m = [] then Some m
      else do {
        (m, survivors) \<leftarrow> foldM advance_projectile (m_projectiles m) (m\<lparr>m_projectiles := []\<rparr>, []);
        Some (m\<lparr>m_projectiles := survivors\<rparr>) })"

subsection \<open>Pickups\<close>

definition respawn_pickup :: "pickup \<Rightarrow> pickup" where
  "respawn_pickup k =
     (if \<not> pk_active k
      then let left = pk_respawn_in k - 1
           in k\<lparr>pk_respawn_in := left, pk_active := (left = 0)\<rparr>
      else k)"

definition apply_pickup :: "rules \<Rightarrow> pickup \<Rightarrow> pawn \<Rightarrow> pawn" where
  "apply_pickup r k p =
     (case pk_kind k of
        Health \<Rightarrow> p\<lparr>p_health := min (sat_u16 (p_health p + pk_amount k)) (p_max_health p)\<rparr>
      | Ammo \<Rightarrow> p\<lparr>p_ammo := min (sat_u16 (p_ammo p + pk_amount k)) (r_mag_size r)\<rparr>
      | Shield \<Rightarrow> p\<lparr>p_shield := min (sat_u16 (p_shield p + pk_amount k)) (r_max_shield r)\<rparr>)"

fun collect_pickups :: "rules \<Rightarrow> pickup list \<Rightarrow> pawn \<Rightarrow> pickup list \<times> pawn" where
  "collect_pickups r [] p = ([], p)"
| "collect_pickups r (k # ks) p =
     (if \<not> pk_active k \<or> \<not> within_range (p_pos p) (pk_pos k) (r_pickup_radius r)
      then let (ks', p') = collect_pickups r ks p in (k # ks', p')
      else let (ks', p') = collect_pickups r ks (apply_pickup r k p)
           in (k\<lparr>pk_active := False, pk_respawn_in := r_pickup_respawn_cooldown r\<rparr> # ks', p'))"

definition pickup_turn :: "nat \<Rightarrow> arena_match \<Rightarrow> arena_match" where
  "pickup_turn i m =
     (let p = m_pawns m ! i in
      if \<not> p_alive p then m
      else let (ks, p') = collect_pickups (m_rules m) (m_pickups m) p
           in set_pawn i p' (m\<lparr>m_pickups := ks\<rparr>))"

definition process_pickups :: "arena_match \<Rightarrow> arena_match" where
  "process_pickups m =
     (if m_pickups m = [] then m
      else fold pickup_turn [0..<length (m_pawns m)]
             (m\<lparr>m_pickups := map respawn_pickup (m_pickups m)\<rparr>))"

end
