(* ===== verification/Match_Step.thy ===== *)
theory Match_Step
  imports Combat
begin

section \<open>The match state machine (\<^verbatim>\<open>src/arena/core/src/lib.rs\<close>)\<close>

text \<open>
  The authoritative gate for actions (\<^verbatim>\<open>Match::ingest\<close>), forfeits, and \<^verbatim>\<open>Match::step\<close> with its phases
  in the order of the source: perception memory, forfeits, accepted intents, cooldowns, movement,
  gravity, pickups, weapons, projectiles, the tick record and the end of the match with its ranking.
\<close>

subsection \<open>The action gate\<close>

datatype reject_reason =
    Rej_Version version_mismatch
  | Rej_WrongMatch uuid uuid
  | Rej_WrongSeat seat_id seat_id
  | Rej_StaleTick u64 u64
  | Rej_SeatDown seat_id
  | Rej_NotLive

definition ingest :: "arena_match \<Rightarrow> seat_id \<Rightarrow> action \<Rightarrow> reject_reason + action_intent" where
  "ingest m seat a =
     (case action_validate a of
        Inl (Action_Version v) \<Rightarrow> Inl (Rej_Version v)
      | Inr _ \<Rightarrow>
          if m_phase m \<noteq> Live then Inl Rej_NotLive
          else if act_match_id a \<noteq> m_match_id m then Inl (Rej_WrongMatch (m_match_id m) (act_match_id a))
          else if act_seat a \<noteq> seat then Inl (Rej_WrongSeat seat (act_seat a))
          else if act_tick a \<noteq> m_tick m then Inl (Rej_StaleTick (m_tick m) (act_tick a))
          else if \<not> pawn_alive m seat then Inl (Rej_SeatDown seat)
          else Inr (clamped (act_intent a)))"

subsection \<open>Forfeits\<close>

definition forfeit :: "seat_id \<Rightarrow> arena_match \<Rightarrow> arena_match \<times> bool" where
  "forfeit seat m =
     (if m_phase m = Ended \<or> \<not> pawn_alive m seat then (m, False)
      else (m\<lparr>m_pending_forfeits := bs_insert seat (m_pending_forfeits m)\<rparr>,
            \<not> List.member (m_pending_forfeits m) seat))"

definition down_seat :: "seat_id \<Rightarrow> pawn list \<times> seat_id list \<Rightarrow> pawn list \<times> seat_id list" where
  "down_seat seat pd =
     (case pd of (ps, downed) \<Rightarrow>
        case find_index (\<lambda>p. p_seat p = seat \<and> p_alive p) ps of
          None \<Rightarrow> (ps, downed)
        | Some i \<Rightarrow> (ps[i := (ps ! i)\<lparr>p_alive := False, p_forfeited := True\<rparr>], downed @ [seat]))"

definition drain_forfeits :: "arena_match \<Rightarrow> arena_match \<times> seat_id list" where
  "drain_forfeits m =
     (let (ps, downed) = fold down_seat (m_pending_forfeits m) (m_pawns m, [])
      in (m\<lparr>m_pawns := ps, m_pending_forfeits := []\<rparr>, downed))"

subsection \<open>The phases of a step\<close>

definition accept_intents ::
  "arena_match \<Rightarrow> (seat_id, action_intent) btree \<Rightarrow> (seat_id, action_intent) btree" where
  "accept_intents m intents =
     bt_collect (map (\<lambda>(seat, intent). (seat, clamped intent))
       (filter (\<lambda>(seat, _). pawn_alive m seat) intents))"

definition tick_cooldown :: "pawn \<Rightarrow> pawn" where
  "tick_cooldown p =
     (if p_alive p then p\<lparr>p_cooldown := p_cooldown p - 1, p_dash_cooldown := p_dash_cooldown p - 1\<rparr> else p)"

definition dashing :: "rules \<Rightarrow> pawn \<Rightarrow> action_intent \<Rightarrow> bool" where
  "dashing r p intent \<longleftrightarrow> r_dash_cooldown r > 0 \<and> p_dash_cooldown p = 0
     \<and> btn_ability (buttons intent) \<and> move_dir intent \<noteq> vec2_zero"

definition move_pawn :: "(seat_id, action_intent) btree \<Rightarrow> nat \<Rightarrow> arena_match \<Rightarrow> arena_match option" where
  "move_pawn accepted i m =
     (let p = m_pawns m ! i in
      if \<not> p_alive p then Some m
      else case bt_get accepted (p_seat p) of
        None \<Rightarrow> Some (set_pawn i (p\<lparr>p_vel := vec2_zero\<rparr>) m)
      | Some intent \<Rightarrow> do {
          let from = p_pos p;
          to \<leftarrow> slide m (p_seat p) from (p_z p) (move_dir intent) (r_max_speed (m_rules m));
          let m = set_pawn i (p\<lparr>p_facing := aim intent\<rparr>) m;
          let m = (if dashing (m_rules m) p intent
                   then set_pawn i ((m_pawns m ! i)\<lparr>p_dash_cooldown := r_dash_cooldown (m_rules m)\<rparr>) m
                   else m);
          landed \<leftarrow> (if dashing (m_rules m) p intent
                     then slide m (p_seat p) to (p_z p) (move_dir intent) DASH_DISTANCE
                     else Some to);
          velx \<leftarrow> ck_i32 (vx landed - vx from);
          vely \<leftarrow> ck_i32 (vy landed - vy from);
          Some (set_pawn i ((m_pawns m ! i)\<lparr>p_vel := \<lparr>vx = velx, vy = vely\<rparr>, p_pos := landed\<rparr>) m) })"

definition jump_pawn :: "(seat_id, action_intent) btree \<Rightarrow> pawn \<Rightarrow> pawn" where
  "jump_pawn accepted p =
     (if p_z p = 0 \<and> p_z_vel p = 0
         \<and> (case bt_get accepted (p_seat p) of None \<Rightarrow> False | Some a \<Rightarrow> btn_jump (buttons a))
      then p\<lparr>p_z_vel := JUMP_VELOCITY\<rparr> else p)"

definition fall_pawn :: "(seat_id, action_intent) btree \<Rightarrow> nat \<Rightarrow> arena_match \<Rightarrow> arena_match option" where
  "fall_pawn accepted i m =
     (if \<not> p_alive (m_pawns m ! i) then Some m
      else let p = jump_pawn accepted (m_pawns m ! i); nz = p_z p + p_z_vel p; r = m_rules m in
        if nz \<le> 0 then do {
          let impact = - p_z_vel p;
          let m = set_pawn i (p\<lparr>p_z := 0, p_z_vel := 0\<rparr>) m;
          m \<leftarrow> (if r_fall_damage r > 0 \<and> impact > 0 \<and> impact > r_fall_damage_threshold r
               then let (m, dealt) = apply_hp_damage i (r_fall_damage r) m
                    in if \<not> p_alive (m_pawns m ! i) then credit_fall_kill i dealt m else Some m
               else Some m);
          Some (set_pawn i ((m_pawns m ! i)\<lparr>p_launched_by := None\<rparr>) m) }
        else Some (set_pawn i (p\<lparr>p_z := as_i32 nz, p_z_vel := sat_i32 (p_z_vel p - r_gravity r)\<rparr>) m))"

definition reload_weapon :: "rules \<Rightarrow> pawn \<Rightarrow> pawn" where
  "reload_weapon r p = p\<lparr>p_ammo := r_mag_size r,
     p_cooldown := (if r_weapon_mode r \<noteq> Melee then r_fire_cooldown r else p_cooldown p)\<rparr>"

definition fire_weapon :: "nat \<Rightarrow> arena_match \<Rightarrow> arena_match option" where
  "fire_weapon i m =
     (let p = m_pawns m ! i; r = m_rules m;
          spent = set_pawn i (p\<lparr>p_ammo := p_ammo p - 1, p_cooldown := r_fire_cooldown r\<rparr>) m
      in case r_weapon_mode r of
           Melee \<Rightarrow> resolve_melee i (set_pawn i (p\<lparr>p_cooldown := r_melee_cooldown r\<rparr>) m)
         | Hitscan \<Rightarrow> if p_ammo p > 0 then resolve_fire i spent else Some m
         | Projectile_Mode \<Rightarrow> if p_ammo p > 0 then spawn_projectile i spent else Some m)"

definition act_pawn :: "(seat_id, action_intent) btree \<Rightarrow> nat \<Rightarrow> arena_match \<Rightarrow> arena_match option" where
  "act_pawn accepted i m =
     (let p = m_pawns m ! i in
      if \<not> p_alive p then Some m
      else case bt_get accepted (p_seat p) of
        None \<Rightarrow> Some m
      | Some intent \<Rightarrow>
          if btn_reload (buttons intent) then Some (set_pawn i (reload_weapon (m_rules m) p) m)
          else if btn_fire (buttons intent) \<and> p_cooldown p = 0 then fire_weapon i m
          else Some m)"

subsection \<open>Ranking and the end of the match\<close>

type_synonym standing = "bool \<times> nat \<times> int \<times> seat_id"

definition fold_standing :: "pawn \<Rightarrow> (team_id, standing) btree \<Rightarrow> (team_id, standing) btree" where
  "fold_standing p teams =
     (let (dq, surv, tot, low) =
            (case bt_get teams (p_team p) of None \<Rightarrow> (False, 0, 0, p_seat p) | Some s \<Rightarrow> s)
      in bt_insert (p_team p) (dq \<or> p_forfeited p, surv + of_bool (p_alive p), tot + p_score p,
           min low (p_seat p)) teams)"

definition standings :: "pawn list \<Rightarrow> (team_id, standing) btree" where
  "standings ps = fold fold_standing ps []"

definition rank_key :: "team_id \<times> standing \<Rightarrow> bool \<times> int \<times> int \<times> nat" where
  "rank_key ts = (case ts of (_, dq, surv, tot, low) \<Rightarrow> (dq, - int surv, - tot, low))"

definition tie_key :: "standing \<Rightarrow> bool \<times> nat \<times> int" where
  "tie_key s = (case s of (dq, surv, tot, _) \<Rightarrow> (dq, surv, tot))"

fun place_teams ::
  "nat \<Rightarrow> u16 \<Rightarrow> (bool \<times> nat \<times> int) option \<Rightarrow> (team_id \<times> standing) list
   \<Rightarrow> (team_id, u16) btree \<Rightarrow> (team_id, u16) btree" where
  "place_teams i place prev [] out = out"
| "place_teams i place prev ((t, s) # rest) out =
     (let place = (if prev \<noteq> Some (tie_key s) then (i + 1) mod 2 ^ 16 else place)
      in place_teams (i + 1) place (Some (tie_key s)) rest (bt_insert t place out))"

definition placement_of_team :: "pawn list \<Rightarrow> (team_id, u16) btree" where
  "placement_of_team ps = place_teams 0 0 None (sort_key rank_key (standings ps)) []"

definition seat_outcome_of :: "(team_id, u16) btree \<Rightarrow> pawn \<Rightarrow> seat_outcome" where
  "seat_outcome_of places p =
     \<lparr>so_seat = p_seat p, so_team = p_team p, so_placement = the (bt_get places (p_team p)),
      so_score = p_score p, so_alive_at_end = p_alive p, so_forfeited = p_forfeited p\<rparr>"

definition outcomes :: "pawn list \<Rightarrow> seat_outcome list" where
  "outcomes ps = sort_key so_seat (map (seat_outcome_of (placement_of_team ps)) ps)"

definition build_replay :: "arena_match \<Rightarrow> replay_record" where
  "build_replay m = \<lparr>rr_protocol_version = PROTOCOL_VERSION, rr_match_id = m_match_id m,
     rr_seed = m_seed m, rr_seats = m_seats m, rr_blockers = m_blockers m,
     rr_pickups = m_pickup_config m, rr_rules_commit = canonical_encoding (m_rules m),
     rr_config = m_config m, rr_ticks = m_ticks m\<rparr>"

definition build_result :: "crates \<Rightarrow> arena_match \<Rightarrow> match_result" where
  "build_result X m = \<lparr>mr_protocol_version = PROTOCOL_VERSION, mr_match_id = m_match_id m,
     mr_final_tick = m_tick m, mr_outcomes = outcomes (m_pawns m),
     mr_replay_hash = hex_encode X (replay_digest X (build_replay m))\<rparr>"

definition maybe_finish :: "crates \<Rightarrow> arena_match \<Rightarrow> arena_match" where
  "maybe_finish X m =
     (if length (bs_collect (map p_team (filter p_alive (m_pawns m)))) \<le> 1
         \<or> m_tick m \<ge> max_ticks (m_config m)
      then m\<lparr>m_phase := Ended, m_result := Some (build_result X (m\<lparr>m_phase := Ended\<rparr>))\<rparr>
      else m)"

subsection \<open>Step\<close>

definition step_starting :: "arena_match \<Rightarrow> arena_match" where
  "step_starting m =
     (let left = m_starting_remaining m - 1
      in m\<lparr>m_starting_remaining := left, m_phase := (if left = 0 then Live else m_phase m)\<rparr>)"

definition run_tick :: "(seat_id, action_intent) btree \<Rightarrow> arena_match \<Rightarrow> arena_match option" where
  "run_tick accepted m = do {
     let m = m\<lparr>m_pawns := map tick_cooldown (m_pawns m)\<rparr>;
     m \<leftarrow> foldM (move_pawn accepted) [0..<length (m_pawns m)] m;
     m \<leftarrow> (if r_gravity (m_rules m) > 0 then foldM (fall_pawn accepted) [0..<length (m_pawns m)] m
          else Some m);
     let m = process_pickups m;
     m \<leftarrow> foldM (act_pawn accepted) [0..<length (m_pawns m)] m;
     advance_projectiles m }"

definition close_tick ::
  "crates \<Rightarrow> u64 \<Rightarrow> (seat_id, action_intent) btree \<Rightarrow> seat_id list \<Rightarrow> arena_match \<Rightarrow> arena_match option" where
  "close_tick X current accepted forfeited m = do {
     let m = m\<lparr>m_ticks := m_ticks m @ [\<lparr>tr_tick = current,
       tr_actions = map (\<lambda>(seat, intent). \<lparr>sa_seat = seat, sa_intent = intent\<rparr>) accepted,
       tr_forfeits = forfeited\<rparr>]\<rparr>;
     t \<leftarrow> ck_u 64 (m_tick m + 1);
     Some (maybe_finish X (m\<lparr>m_tick := t\<rparr>)) }"

definition step :: "crates \<Rightarrow> (seat_id, action_intent) btree \<Rightarrow> arena_match \<Rightarrow> arena_match option" where
  "step X intents m =
     (case m_phase m of
        Starting \<Rightarrow> Some (step_starting m)
      | Live \<Rightarrow> do {
          let current = m_tick m;
          m \<leftarrow> (if r_perception_memory_ticks (m_rules m) > 0 then refresh_perception_memory current m
               else Some m);
          let (m, forfeited) = drain_forfeits m;
          let accepted = accept_intents m intents;
          m \<leftarrow> run_tick accepted m;
          close_tick X current accepted forfeited m }
      | _ \<Rightarrow> Some m)"

end
