(* ===== verification/Match_Inv.thy ===== *)
theory Match_Inv
  imports Match_Step
begin

section \<open>How the operations of a step change a match\<close>

text \<open>
  One relation, \<open>evolves\<close>, bounds what any operation inside a step may do to a match: the setup and
  the clock are untouched, and every pawn keeps its identity, never revives, never loses score, stays
  frozen once down, and keeps its well-formedness (health, shield and ammunition within their caps,
  alive only with health left) and its place inside the arena. The relation is reflexive and
  transitive, each operation is shown to respect it, and loops inherit it.
\<close>

definition in_bounds :: "match_config \<Rightarrow> vec2 \<Rightarrow> bool" where
  "in_bounds c v \<longleftrightarrow> \<bar>vx v\<bar> \<le> vx (bounds c) \<and> \<bar>vy v\<bar> \<le> vy (bounds c)"

definition pawn_wf :: "rules \<Rightarrow> pawn \<Rightarrow> bool" where
  "pawn_wf r p \<longleftrightarrow> p_health p \<le> p_max_health p \<and> p_shield p \<le> r_max_shield r \<and> p_ammo p \<le> r_mag_size r
     \<and> (p_alive p \<longrightarrow> 0 < p_health p)"

definition pawn_evolves :: "rules \<Rightarrow> match_config \<Rightarrow> pawn \<Rightarrow> pawn \<Rightarrow> bool" where
  "pawn_evolves r c p p' \<longleftrightarrow>
     p_seat p' = p_seat p \<and> p_team p' = p_team p \<and> p_max_health p' = p_max_health p
     \<and> p_forfeited p' = p_forfeited p \<and> (p_alive p' \<longrightarrow> p_alive p) \<and> p_score p \<le> p_score p'
     \<and> (\<not> p_alive p \<longrightarrow> p_pos p' = p_pos p \<and> p_z p' = p_z p \<and> p_facing p' = p_facing p
           \<and> p_health p' = p_health p \<and> p_shield p' = p_shield p \<and> p_ammo p' = p_ammo p)
     \<and> (pawn_wf r p \<longrightarrow> pawn_wf r p') \<and> (in_bounds c (p_pos p) \<longrightarrow> in_bounds c (p_pos p'))"

definition same_frame :: "arena_match \<Rightarrow> arena_match \<Rightarrow> bool" where
  "same_frame m m' \<longleftrightarrow>
     m_match_id m' = m_match_id m \<and> m_config m' = m_config m \<and> m_rules m' = m_rules m
     \<and> m_seats m' = m_seats m \<and> m_blockers m' = m_blockers m \<and> m_pickup_config m' = m_pickup_config m
     \<and> m_seed m' = m_seed m \<and> m_tick m' = m_tick m \<and> m_phase m' = m_phase m
     \<and> m_starting_remaining m' = m_starting_remaining m
     \<and> m_pending_forfeits m' = m_pending_forfeits m \<and> m_ticks m' = m_ticks m
     \<and> m_result m' = m_result m \<and> m_seat_memory m' = m_seat_memory m"

definition evolves :: "arena_match \<Rightarrow> arena_match \<Rightarrow> bool" where
  "evolves m m' \<longleftrightarrow> same_frame m m'
     \<and> list_all2 (pawn_evolves (m_rules m) (m_config m)) (m_pawns m) (m_pawns m')"

definition same_items :: "arena_match \<Rightarrow> arena_match \<Rightarrow> bool" where
  "same_items m m' \<longleftrightarrow> m_projectiles m' = m_projectiles m \<and> m_pickups m' = m_pickups m
     \<and> m_next_projectile_id m' = m_next_projectile_id m"

lemma pawn_evolves_refl [simp]: "pawn_evolves r c p p"
  by (simp add: pawn_evolves_def)

lemma pawn_evolves_trans: "pawn_evolves r c p q \<Longrightarrow> pawn_evolves r c q s \<Longrightarrow> pawn_evolves r c p s"
  unfolding pawn_evolves_def by (cases "p_alive p"; cases "p_alive q") auto

lemma evolves_refl [simp]: "evolves m m"
  by (simp add: evolves_def same_frame_def list.rel_refl)

lemma evolves_trans: "evolves m n \<Longrightarrow> evolves n u \<Longrightarrow> evolves m u"
  unfolding evolves_def same_frame_def
  by (auto intro: list_all2_trans [OF pawn_evolves_trans])

lemma same_items_refl [simp]: "same_items m m"
  by (simp add: same_items_def)

lemma same_items_trans: "same_items m n \<Longrightarrow> same_items n u \<Longrightarrow> same_items m u"
  by (simp add: same_items_def)

lemma same_items_set_pawn [simp]: "same_items m (set_pawn i p m)"
  by (simp add: same_items_def)

lemma evolves_set_pawn:
  assumes "i < length (m_pawns m)" "pawn_evolves (m_rules m) (m_config m) (m_pawns m ! i) p"
  shows "evolves m (set_pawn i p m)"
  using assms
  by (auto simp: evolves_def same_frame_def list_all2_conv_all_nth nth_list_update)

lemma evolves_length: "evolves m m' \<Longrightarrow> length (m_pawns m') = length (m_pawns m)"
  by (auto simp: evolves_def list_all2_lengthD)

lemma evolves_setup:
  "evolves m m' \<Longrightarrow> m_rules m' = m_rules m" "evolves m m' \<Longrightarrow> m_config m' = m_config m"
  "evolves m m' \<Longrightarrow> m_blockers m' = m_blockers m" "evolves m m' \<Longrightarrow> m_seats m' = m_seats m"
  by (auto simp: evolves_def same_frame_def)

lemma evolves_foldM:
  assumes "foldM f xs m = Some m'"
    and "\<And>x t t'. x \<in> set xs \<Longrightarrow> evolves m t \<Longrightarrow> f x t = Some t' \<Longrightarrow> evolves t t'"
  shows "evolves m m'"
  by (rule foldM_rel [where R = evolves, OF assms(1)]) (auto intro: evolves_trans assms(2))

subsection \<open>Slides\<close>

lemma as_i32_clamp: "0 \<le> b \<Longrightarrow> \<bar>x\<bar> \<le> b \<Longrightarrow> \<bar>as_i32 x\<bar> \<le> b"
proof -
  assume b: "0 \<le> b" "\<bar>x\<bar> \<le> b"
  show ?thesis
  proof (cases "in_i32 x")
    case False
    then have "2 ^ 31 \<le> b" using b(2) by (auto simp: in_i32_def)
    moreover have "\<bar>as_i32 x\<bar> \<le> 2 ^ 31" using in_i32_as_i32 [of x] unfolding in_i32_def by linarith
    ultimately show ?thesis by linarith
  qed (use b in simp)
qed

lemma slide_target_in_bounds: "slide_target m from dx dy = Some to \<Longrightarrow> in_bounds (m_config m) to"
proof -
  have *: "\<bar>as_i32 (clampi (- b) b x)\<bar> \<le> b" if "- b \<le> b" for b x
  proof (rule as_i32_clamp)
    show "0 \<le> b" using that by simp
    show "\<bar>clampi (- b) b x\<bar> \<le> b" using clampi_bounds [OF that, of x] by linarith
  qed
  assume "slide_target m from dx dy = Some to"
  then show ?thesis by (auto simp: slide_target_def panic_simps in_bounds_def *)
qed

lemma slide_cases:
  assumes "slide m mover from z dir mag = Some to"
  obtains "to = from"
  | dx dy where "slide_target m from dx dy = Some to" "path_obstructed m mover from z to = Some False"
  using assms by (auto simp: slide_def Let_def panic_simps split: if_splits)

lemma slide_in_bounds:
  "slide m mover from z dir mag = Some to \<Longrightarrow> in_bounds (m_config m) from \<Longrightarrow> in_bounds (m_config m) to"
  by (erule slide_cases) (auto dest: slide_target_in_bounds)

subsection \<open>Damage\<close>

lemma hp_damage_evolves:
  "p_alive p \<Longrightarrow> pawn_evolves r c p (fst (hp_damage raw p))"
  by (auto simp: hp_damage_def Let_def pawn_evolves_def pawn_wf_def)

lemma damage_pawn_evolves:
  assumes "j < length (m_pawns m)" "p_alive (m_pawns m ! j)"
  shows "evolves m (fst (damage_pawn j raw a m))" "same_items m (fst (damage_pawn j raw a m))"
proof -
  let ?p = "m_pawns m ! j"
  let ?q = "fst (hp_damage raw ?p)"
  have q: "pawn_evolves (m_rules m) (m_config m) ?p ?q" by (rule hp_damage_evolves [OF assms(2)])
  then have 1: "evolves m (set_pawn j ?q m)" by (rule evolves_set_pawn [OF assms(1)])
  have "pawn_evolves (m_rules m) (m_config m) ?q (?q\<lparr>p_z_vel := v, p_launched_by := Some a\<rparr>)" if "p_alive ?q" for v
    using that by (auto simp: pawn_evolves_def pawn_wf_def)
  then have "evolves (set_pawn j ?q m) (set_pawn j (?q\<lparr>p_z_vel := v, p_launched_by := Some a\<rparr>) (set_pawn j ?q m))"
    if "p_alive ?q" for v
    using assms(1) that by (intro evolves_set_pawn) auto
  with 1 show "evolves m (fst (damage_pawn j raw a m))"
    using assms(1)
    by (auto simp: damage_pawn_def apply_hp_damage_def Let_def split: prod.splits
        intro: evolves_trans)
  show "same_items m (fst (damage_pawn j raw a m))"
    by (auto simp: damage_pawn_def apply_hp_damage_def Let_def same_items_def split: prod.splits)
qed

lemma add_score_evolves:
  assumes "add_score i d m = Some m'" "i < length (m_pawns m)"
  shows "evolves m m'" "same_items m m'"
  using assms
  by (auto simp: add_score_def panic_simps intro!: evolves_set_pawn)
    (auto simp: pawn_evolves_def pawn_wf_def)

lemma knock_back_evolves:
  assumes "knock_back_horizontal j dir m = Some m'" "j < length (m_pawns m)"
  shows "evolves m m'" "same_items m m'"
  using assms
  by (auto simp: knock_back_horizontal_def Let_def panic_simps split: if_splits intro!: evolves_set_pawn)
    (auto simp: pawn_evolves_def pawn_wf_def dest: slide_in_bounds)

lemma knock_back_along_evolves:
  assumes "knock_back_along dx dy j d m = Some m'" "j < length (m_pawns m)"
  shows "evolves m m'" "same_items m m'"
  using assms by (auto simp: knock_back_along_def split: if_splits option.splits dest: knock_back_evolves)

lemma land_hit_evolves:
  assumes "land_hit i raw s j m = Some m'" "i < length (m_pawns m)" "j < length (m_pawns m)"
    "p_alive (m_pawns m ! j)"
  shows "evolves m m' \<and> same_items m m'"
proof -
  obtain m1 d where d: "damage_pawn j raw (p_seat s) m = (m1, d)" by fastforce
  have 1: "evolves m m1" "same_items m m1" using damage_pawn_evolves [OF assms(3,4), of raw "p_seat s"] d by auto
  obtain m2 where m2: "m2 = m1 \<or> add_score i d m1 = Some m2"
    and m': "\<exists>dx dy. knock_back_along dx dy j d m2 = Some m'"
    using assms(1) by (auto simp: land_hit_def Let_def d panic_simps split: if_splits)
  have 2: "evolves m1 m2" "same_items m1 m2"
    using m2 add_score_evolves [of i d m1 m2] assms(2) evolves_length [OF 1(1)] by auto
  have 3: "evolves m2 m'" "same_items m2 m'"
    using m' knock_back_along_evolves [of _ _ j d m2 m'] assms(3) evolves_length [OF 1(1)] evolves_length [OF 2(1)]
    by auto
  from 1 2 3 show ?thesis by (blast intro: evolves_trans same_items_trans)
qed

subsection \<open>Weapons\<close>

lemma nearest_in:
  "nearest b xs = Some jd \<Longrightarrow> b = Some jd \<or> jd \<in> set xs"
  by (induction b xs rule: nearest.induct) (auto split: option.splits if_splits)

lemma fire_target_hits:
  assumes "fire_target m i = Some j"
  shows "j < length (m_pawns m)" "j \<noteq> i" "fire_hits m (m_pawns m ! i) (m_pawns m ! j)"
  using assms
  by (auto simp: fire_target_def Let_def in_set_enumerate_eq dest!: nearest_in)

lemma fire_hits_alive: "fire_hits m s t \<Longrightarrow> p_alive t"
  by (auto simp: fire_hits_def Let_def may_target_def split: prod.splits)

lemma resolve_fire_evolves:
  "resolve_fire i m = Some m' \<Longrightarrow> i < length (m_pawns m) \<Longrightarrow> evolves m m' \<and> same_items m m'"
  by (auto simp: resolve_fire_def split: option.splits
      dest!: land_hit_evolves dest: fire_target_hits fire_hits_alive)

lemma melee_targets_hits:
  "j \<in> set (melee_targets m i) \<Longrightarrow> j < length (m_pawns m) \<and> j \<noteq> i \<and> melee_hits m (m_pawns m ! i) (m_pawns m ! j)"
  by (auto simp: melee_targets_def in_set_enumerate_eq)

lemma distinct_melee_targets: "distinct (melee_targets m i)"
  unfolding melee_targets_def by (rule distinct_map_filter) simp

lemma nth_set_pawn_alive:
  "p_alive p = p_alive (m_pawns m ! i) \<Longrightarrow> p_alive (m_pawns (set_pawn i p m) ! k) = p_alive (m_pawns m ! k)"
  by (cases "i < length (m_pawns m)"; cases "k = i") (auto simp: list_update_beyond)

lemma damage_pawn_other:
  "k \<noteq> j \<Longrightarrow> m_pawns (fst (damage_pawn j raw a m)) ! k = m_pawns m ! k"
  by (auto simp: damage_pawn_def apply_hp_damage_def Let_def split: prod.splits)

lemma add_score_alive:
  "add_score i d m = Some m' \<Longrightarrow> p_alive (m_pawns m' ! k) = p_alive (m_pawns m ! k)"
  by (auto simp: add_score_def panic_simps intro!: nth_set_pawn_alive simp del: set_pawn_simps)

lemma knock_back_along_alive:
  "knock_back_along dx dy j d m = Some m' \<Longrightarrow> p_alive (m_pawns m' ! k) = p_alive (m_pawns m ! k)"
  by (auto simp: knock_back_along_def knock_back_horizontal_def Let_def panic_simps
      split: if_splits option.splits intro!: nth_set_pawn_alive simp del: set_pawn_simps)

lemma land_hit_other_alive:
  assumes "land_hit i raw s j m = Some m'" "k \<noteq> j"
  shows "p_alive (m_pawns m' ! k) = p_alive (m_pawns m ! k)"
proof -
  obtain m1 d where d: "damage_pawn j raw (p_seat s) m = (m1, d)" by fastforce
  then have "m_pawns m1 ! k = m_pawns m ! k" using damage_pawn_other [OF assms(2), of raw "p_seat s" m] by simp
  with assms(1) d show ?thesis
    by (auto simp: land_hit_def Let_def panic_simps split: if_splits
        dest!: knock_back_along_alive [where k = k] add_score_alive [where k = k])
qed

lemma land_hits_evolve:
  assumes "foldM (land_hit i raw s) js m = Some m'" "i < length (m_pawns m)" "distinct js"
    "\<forall>j\<in>set js. j < length (m_pawns m) \<and> p_alive (m_pawns m ! j)"
  shows "evolves m m' \<and> same_items m m'"
  using assms
proof (induction js arbitrary: m)
  case (Cons j js)
  then obtain n where n: "land_hit i raw s j m = Some n" "foldM (land_hit i raw s) js n = Some m'"
    by (auto simp: panic_simps)
  have 1: "evolves m n \<and> same_items m n" using land_hit_evolves [OF n(1)] Cons.prems by auto
  then have len: "length (m_pawns n) = length (m_pawns m)" using evolves_length by blast
  have "p_alive (m_pawns n ! k) = p_alive (m_pawns m ! k)" if "k \<in> set js" for k
    using land_hit_other_alive [OF n(1), of k] that Cons.prems(3) by (cases "k = j") auto
  with Cons.IH [OF n(2)] Cons.prems len have "evolves n m' \<and> same_items n m'" by auto
  with 1 show ?case by (blast intro: evolves_trans same_items_trans)
qed simp

lemma resolve_melee_evolves:
  "resolve_melee i m = Some m' \<Longrightarrow> i < length (m_pawns m) \<Longrightarrow> evolves m m' \<and> same_items m m'"
  unfolding resolve_melee_def
  by (erule land_hits_evolve)
    (auto simp: distinct_melee_targets melee_hits_def may_target_def dest!: melee_targets_hits)

lemma spawn_projectile_evolves:
  "spawn_projectile i m = Some m' \<Longrightarrow> evolves m m'"
  by (auto simp: spawn_projectile_def Let_def panic_simps evolves_def same_frame_def list.rel_refl
      split: if_splits prod.splits)

subsection \<open>Projectiles\<close>

lemma flight_cands_in:
  "flight_cands m q jts = Some cs \<Longrightarrow> (j, d) \<in> set cs \<Longrightarrow>
   \<exists>t. (j, t) \<in> set jts \<and> flight_hits m q t = Some True"
proof (induction jts arbitrary: cs)
  case (Cons jt jts)
  then show ?case by (cases jt) (fastforce simp: panic_simps split: if_splits)
qed simp

lemma flight_hits_alive: "flight_hits m q t = Some True \<Longrightarrow> p_alive t"
  by (auto simp: flight_hits_def Let_def may_target_def split: if_splits)

lemma strike_pawn_evolves:
  assumes "strike_pawn q j m = Some m'" "j < length (m_pawns m)" "p_alive (m_pawns m ! j)"
  shows "evolves m m' \<and> same_items m m'"
proof -
  obtain m1 d where d: "damage_pawn j (r_damage (m_rules m)) (pj_shooter q) m = (m1, d)" by fastforce
  have 1: "evolves m m1" "same_items m m1" using damage_pawn_evolves [OF assms(2,3), of _ "pj_shooter q"] d
    by (metis fst_conv)+
  obtain m2 where m2: "m2 = m1 \<or> (\<exists>i<length (m_pawns m1). add_score i d m1 = Some m2)"
    and m': "\<exists>dx dy. knock_back_along dx dy j d m2 = Some m'"
    using assms(1)
    by (auto simp: strike_pawn_def Let_def d panic_simps split: if_splits option.splits
        dest!: find_index_Some)
  have 2: "evolves m1 m2" "same_items m1 m2" using m2 add_score_evolves by auto
  have 3: "evolves m2 m'" "same_items m2 m'"
    using m' knock_back_along_evolves [of _ _ j d m2 m'] assms(2) evolves_length [OF 1(1)] evolves_length [OF 2(1)]
    by auto
  from 1 2 3 show ?thesis by (blast intro: evolves_trans same_items_trans)
qed

lemma advance_projectile_evolves:
  assumes "advance_projectile q (m, sv) = Some (m', sv')"
  shows "evolves m m' \<and> same_items m m' \<and> (sv' = sv
     \<or> (m' = m \<and> sv' = sv @ [q\<lparr>pj_pos := flight_end q, pj_age := pj_age q + 1\<rparr>]
        \<and> pj_age q + 1 < MAX_PROJECTILE_LIFETIME
        \<and> \<not> path_hits_blocker (m_blockers m) (pj_pos q) (pj_z q) (flight_end q) (pj_z q)))"
proof -
  obtain cs where cs: "flight_cands m q (enumerate 0 (m_pawns m)) = Some cs"
    using assms by (auto simp: advance_projectile_def panic_simps)
  show ?thesis
  proof (cases "nearest None cs")
    case None
    with assms cs show ?thesis
      by (auto simp: advance_projectile_def panic_simps Let_def split: if_splits)
  next
    case (Some jd)
    obtain j d where jd: "jd = (j, d)" by fastforce
    from nearest_in [OF Some] jd have "(j, d) \<in> set cs" by simp
    from flight_cands_in [OF cs this] have "j < length (m_pawns m)" "p_alive (m_pawns m ! j)"
      by (auto simp: in_set_enumerate_eq dest: flight_hits_alive)
    with Some jd cs assms strike_pawn_evolves [of q j m] show ?thesis
      by (auto simp: advance_projectile_def panic_simps)
  qed
qed

lemma advance_fold_evolves:
  "foldM advance_projectile qs (m, sv) = Some (m', sv') \<Longrightarrow> evolves m m' \<and> same_items m m'"
proof (induction qs arbitrary: m sv)
  case (Cons q qs)
  then obtain n sw where "advance_projectile q (m, sv) = Some (n, sw)"
    "foldM advance_projectile qs (n, sw) = Some (m', sv')"
    by (auto simp: panic_simps)
  with Cons.IH advance_projectile_evolves show ?case by (meson evolves_trans same_items_trans)
qed simp

lemma evolves_items [simp]:
  "evolves m (m'\<lparr>m_projectiles := qs\<rparr>) = evolves m m'" "evolves (m\<lparr>m_projectiles := qs\<rparr>) m' = evolves m m'"
  "evolves m (m'\<lparr>m_pickups := ks\<rparr>) = evolves m m'" "evolves (m\<lparr>m_pickups := ks\<rparr>) m' = evolves m m'"
  by (auto simp: evolves_def same_frame_def)

lemma advance_projectiles_evolves: "advance_projectiles m = Some m' \<Longrightarrow> evolves m m'"
  by (auto simp: advance_projectiles_def panic_simps split: if_splits dest!: advance_fold_evolves)

subsection \<open>Pickups\<close>

lemma apply_pickup_evolves: "p_alive p \<Longrightarrow> pawn_evolves r c p (apply_pickup r k p)"
  by (auto simp: apply_pickup_def pawn_evolves_def pawn_wf_def sat_u16_def split: pickup_kind.splits)

lemma apply_pickup_alive [simp]: "p_alive (apply_pickup r k p) = p_alive p"
  by (simp add: apply_pickup_def split: pickup_kind.splits)

lemma collect_pickups_evolves:
  "p_alive p \<Longrightarrow> pawn_evolves r c p (snd (collect_pickups r ks p))"
proof (induction r ks p rule: collect_pickups.induct)
  case (2 r k ks p)
  then show ?case
    by (auto simp: Let_def split: prod.splits intro: pawn_evolves_trans apply_pickup_evolves)
qed simp

lemma pickup_turn_evolves: "i < length (m_pawns m) \<Longrightarrow> evolves m (pickup_turn i m)"
  using collect_pickups_evolves [of "m_pawns m ! i" "m_rules m" "m_config m" "m_pickups m"]
  by (auto simp: pickup_turn_def Let_def split: prod.splits
      intro: evolves_trans [OF _ evolves_set_pawn])

lemma process_pickups_evolves: "evolves m (process_pickups m)"
proof -
  have *: "evolves m n \<Longrightarrow> set is \<subseteq> {..<length (m_pawns m)} \<Longrightarrow> evolves m (fold pickup_turn is n)" for n "is"
  proof (induction "is" arbitrary: n)
    case (Cons i js)
    then have "evolves n (pickup_turn i n)" by (intro pickup_turn_evolves) (auto simp: evolves_length)
    with Cons show ?case by (auto intro: evolves_trans)
  qed simp
  show ?thesis by (auto simp: process_pickups_def intro!: *)
qed

end
