(* ===== verification/Step_Inv.thy ===== *)
theory Step_Inv
  imports Match_Inv
begin

section \<open>The phases of a step respect the evolution of a match\<close>

text \<open>
  Movement, gravity, weapons and the whole body of a live tick (\<open>run_tick\<close>) are shown to respect the
  relation \<open>evolves\<close>, by one lemma per phase.
\<close>

subsection \<open>The phases of a step\<close>

lemma evolves_set_pawn_alive:
  assumes "i < length (m_pawns m)" "p_alive (m_pawns m ! i)" "p_seat p = p_seat (m_pawns m ! i)"
    "p_team p = p_team (m_pawns m ! i)" "p_max_health p = p_max_health (m_pawns m ! i)"
    "p_forfeited p = p_forfeited (m_pawns m ! i)" "p_score p = p_score (m_pawns m ! i)"
    "p_health p = p_health (m_pawns m ! i)" "p_shield p = p_shield (m_pawns m ! i)"
    "p_ammo p \<le> p_ammo (m_pawns m ! i) \<or> p_ammo p \<le> r_mag_size (m_rules m)"
    "in_bounds (m_config m) (p_pos (m_pawns m ! i)) \<Longrightarrow> in_bounds (m_config m) (p_pos p)"
  shows "evolves m (set_pawn i p m)"
  using assms by (intro evolves_set_pawn) (auto simp: pawn_evolves_def pawn_wf_def)

lemmas [trans] = evolves_trans

lemma move_pawn_cases:
  assumes "move_pawn acc i m = Some m'" "i < length (m_pawns m)"
  defines "p \<equiv> m_pawns m ! i"
  obtains (idle) "m' = m \<or> (p_alive p \<and> m' = set_pawn i (p\<lparr>p_vel := vec2_zero\<rparr>) m)"
  | (moved) intent to landed n fc dc v where "bt_get acc (p_seat p) = Some intent" "p_alive p"
    "slide m (p_seat p) (p_pos p) (p_z p) (move_dir intent) (r_max_speed (m_rules m)) = Some to"
    "landed = to \<or> slide n (p_seat p) to (p_z p) (move_dir intent) DASH_DISTANCE = Some landed"
    "m_config n = m_config m" "m_blockers n = m_blockers m"
    "m' = set_pawn i (p\<lparr>p_facing := fc, p_dash_cooldown := dc, p_vel := v, p_pos := landed\<rparr>) m"
proof (cases "p_alive p \<and> bt_get acc (p_seat p) \<noteq> None")
  case False
  with assms(1) idle show ?thesis
    by (auto simp: move_pawn_def Let_def simp flip: p_def split: if_splits option.splits)
next
  case True
  then obtain intent where int: "bt_get acc (p_seat p) = Some intent" "p_alive p" by auto
  define p2 where "p2 = (if dashing (m_rules m) p intent
    then p\<lparr>p_facing := aim intent, p_dash_cooldown := r_dash_cooldown (m_rules m)\<rparr>
    else p\<lparr>p_facing := aim intent\<rparr>)"
  have upd: "set_pawn i a (set_pawn i b m) = set_pawn i a m" for a b
    by (simp add: set_pawn_def)
  obtain to landed vel where
    "slide m (p_seat p) (p_pos p) (p_z p) (move_dir intent) (r_max_speed (m_rules m)) = Some to"
    "landed = to \<or> slide (set_pawn i p2 m) (p_seat p) to (p_z p) (move_dir intent) DASH_DISTANCE = Some landed"
    "m' = set_pawn i (p2\<lparr>p_vel := vel, p_pos := landed\<rparr>) m"
    using assms(1,2) int
    by (auto simp: move_pawn_def Let_def panic_simps upd p2_def simp flip: p_def split: if_splits)
  then show ?thesis
    using int
    by (intro moved [where intent = intent and to = to and landed = landed and n = "set_pawn i p2 m"
          and fc = "aim intent" and dc = "p_dash_cooldown p2" and v = vel])
      (auto simp: p2_def intro!: arg_cong [where f = "\<lambda>q. set_pawn i q m"])
qed

lemma move_pawn_evolves:
  assumes "move_pawn acc i m = Some m'" "i < length (m_pawns m)"
  shows "evolves m m' \<and> same_items m m'"
  using assms
proof (cases rule: move_pawn_cases)
  case idle
  with assms(2) show ?thesis by (auto intro!: evolves_set_pawn_alive)
next
  case (moved intent to landed n fc dc v)
  have "in_bounds (m_config m) (p_pos (m_pawns m ! i)) \<Longrightarrow> in_bounds (m_config m) landed"
    using slide_in_bounds [OF moved(3)] moved(4,5) slide_in_bounds [of n _ to] by auto
  with assms(2) moved show ?thesis
    by (simp, intro evolves_set_pawn_alive) simp_all
qed

lemma apply_hp_damage_evolves:
  assumes "i < length (m_pawns m)" "p_alive (m_pawns m ! i)"
  shows "evolves m (fst (apply_hp_damage i raw m)) \<and> same_items m (fst (apply_hp_damage i raw m))"
  using evolves_set_pawn [OF assms(1) hp_damage_evolves [OF assms(2)], of raw]
  by (simp add: apply_hp_damage_def split_beta)

lemma credit_fall_kill_evolves:
  assumes "credit_fall_kill v d m = Some m'"
  shows "evolves m m' \<and> same_items m m'"
  using assms
  by (auto simp: credit_fall_kill_def split: option.splits if_splits
      dest!: find_index_Some intro: add_score_evolves)

lemma unlaunch_evolves:
  "i < length (m_pawns m) \<Longrightarrow> evolves m (set_pawn i ((m_pawns m ! i)\<lparr>p_launched_by := None\<rparr>) m)"
  by (rule evolves_set_pawn) (auto simp: pawn_evolves_def pawn_wf_def)

definition land_pawn :: "nat \<Rightarrow> int \<Rightarrow> arena_match \<Rightarrow> arena_match option" where
  "land_pawn i impact m =
     (let r = m_rules m in
      if r_fall_damage r > 0 \<and> impact > 0 \<and> impact > r_fall_damage_threshold r
      then let (m, dealt) = apply_hp_damage i (r_fall_damage r) m
           in if \<not> p_alive (m_pawns m ! i) then credit_fall_kill i dealt m else Some m
      else Some m)"

lemma land_pawn_evolves:
  assumes "land_pawn i impact m = Some m'" "i < length (m_pawns m)" "p_alive (m_pawns m ! i)"
  shows "evolves m m' \<and> same_items m m'"
proof -
  obtain n d where n: "apply_hp_damage i (r_fall_damage (m_rules m)) m = (n, d)" by fastforce
  have 1: "evolves m n \<and> same_items m n"
    using apply_hp_damage_evolves [OF assms(2,3), of "r_fall_damage (m_rules m)"] n by simp
  have "m' = m \<or> m' = n \<or> credit_fall_kill i d n = Some m'"
    using assms(1) by (auto simp: land_pawn_def Let_def n split: if_splits)
  with 1 credit_fall_kill_evolves [of i d n m'] show ?thesis
    by (auto intro: evolves_trans same_items_trans)
qed

lemma fall_pawn_eq:
  "fall_pawn acc i m =
     (if \<not> p_alive (m_pawns m ! i) then Some m
      else let p = jump_pawn acc (m_pawns m ! i); nz = p_z p + p_z_vel p in
        if nz \<le> 0 then do {
          n \<leftarrow> land_pawn i (- p_z_vel p) (set_pawn i (p\<lparr>p_z := 0, p_z_vel := 0\<rparr>) m);
          Some (set_pawn i ((m_pawns n ! i)\<lparr>p_launched_by := None\<rparr>) n) }
        else Some (set_pawn i (p\<lparr>p_z := as_i32 nz, p_z_vel := sat_i32 (p_z_vel p - r_gravity (m_rules m))\<rparr>) m))"
  by (simp add: fall_pawn_def land_pawn_def Let_def)

lemma jump_pawn_simps [simp]:
  "p_seat (jump_pawn a p) = p_seat p" "p_team (jump_pawn a p) = p_team p"
  "p_max_health (jump_pawn a p) = p_max_health p" "p_forfeited (jump_pawn a p) = p_forfeited p"
  "p_score (jump_pawn a p) = p_score p" "p_health (jump_pawn a p) = p_health p"
  "p_shield (jump_pawn a p) = p_shield p" "p_ammo (jump_pawn a p) = p_ammo p"
  "p_pos (jump_pawn a p) = p_pos p" "p_alive (jump_pawn a p) = p_alive p" "p_z (jump_pawn a p) = p_z p"
  by (simp_all add: jump_pawn_def)

lemma fall_pawn_evolves:
  assumes "fall_pawn acc i m = Some m'" "i < length (m_pawns m)"
  shows "evolves m m' \<and> same_items m m'"
proof (cases "p_alive (m_pawns m ! i)")
  case False
  with assms show ?thesis by (simp add: fall_pawn_eq)
next
  case True
  let ?p = "jump_pawn acc (m_pawns m ! i)"
  let ?n = "set_pawn i (?p\<lparr>p_z := 0, p_z_vel := 0\<rparr>) m"
  have n: "evolves m ?n" using assms(2) True by (intro evolves_set_pawn_alive) simp_all
  show ?thesis
  proof (cases "p_z ?p + p_z_vel ?p \<le> 0")
    case False
    with assms True show ?thesis
      unfolding fall_pawn_eq Let_def by (auto intro!: evolves_set_pawn_alive)
  next
    case below: True
    then obtain u where u: "land_pawn i (- p_z_vel ?p) ?n = Some u"
      "m' = set_pawn i ((m_pawns u ! i)\<lparr>p_launched_by := None\<rparr>) u"
      using assms(1) True unfolding fall_pawn_eq Let_def by (auto simp: panic_simps)
    have "evolves ?n u \<and> same_items ?n u"
      using land_pawn_evolves [OF u(1)] assms(2) True by simp
    moreover from this have "length (m_pawns u) = length (m_pawns m)"
      using evolves_length [of ?n u] by simp
    then have "evolves u m'" using u(2) unlaunch_evolves [of i u] assms(2) by simp
    ultimately show ?thesis
      using n u(2) by (meson evolves_trans same_items_trans same_items_set_pawn)
  qed
qed

lemma fire_weapon_evolves:
  assumes "fire_weapon i m = Some m'" "i < length (m_pawns m)" "p_alive (m_pawns m ! i)"
  shows "evolves m m'"
proof -
  let ?p = "m_pawns m ! i" and ?r = "m_rules m"
  let ?spent = "set_pawn i (?p\<lparr>p_ammo := p_ammo ?p - 1, p_cooldown := r_fire_cooldown ?r\<rparr>) m"
  let ?swing = "set_pawn i (?p\<lparr>p_cooldown := r_melee_cooldown ?r\<rparr>) m"
  have e: "evolves m ?spent" "evolves m ?swing"
    using assms(2,3) by (intro evolves_set_pawn_alive; simp)+
  have "m' = m \<or> resolve_fire i ?spent = Some m' \<or> spawn_projectile i ?spent = Some m'
    \<or> resolve_melee i ?swing = Some m'"
    using assms(1) unfolding fire_weapon_def Let_def
    by (cases "r_weapon_mode ?r"; cases "p_ammo ?p > 0") simp_all
  then show ?thesis
  proof (elim disjE)
    assume "resolve_fire i ?spent = Some m'"
    from resolve_fire_evolves [OF this] assms(2) e show ?thesis by (auto intro: evolves_trans)
  next
    assume "spawn_projectile i ?spent = Some m'"
    from spawn_projectile_evolves [OF this] e show ?thesis by (auto intro: evolves_trans)
  next
    assume "resolve_melee i ?swing = Some m'"
    from resolve_melee_evolves [OF this] assms(2) e show ?thesis by (auto intro: evolves_trans)
  qed simp
qed

lemma act_pawn_evolves:
  assumes "act_pawn acc i m = Some m'" "i < length (m_pawns m)"
  shows "evolves m m'"
proof -
  have "evolves m (set_pawn i (reload_weapon (m_rules m) (m_pawns m ! i)) m)"
    if "p_alive (m_pawns m ! i)"
    using assms(2) that by (intro evolves_set_pawn_alive) (simp_all add: reload_weapon_def)
  with assms fire_weapon_evolves [of i m m'] show ?thesis
    by (auto simp: act_pawn_def Let_def split: option.splits if_splits)
qed

lemma tick_cooldown_evolves: "pawn_evolves r c p (tick_cooldown p)"
  by (auto simp: tick_cooldown_def pawn_evolves_def pawn_wf_def)

lemma cooldowns_evolve: "evolves m (m\<lparr>m_pawns := map tick_cooldown (m_pawns m)\<rparr>)"
  by (auto simp: evolves_def same_frame_def list_all2_conv_all_nth tick_cooldown_evolves)

lemma run_tick_evolves:
  assumes "run_tick acc m = Some m'"
  shows "evolves m m'"
proof -
  let ?m0 = "m\<lparr>m_pawns := map tick_cooldown (m_pawns m)\<rparr>"
  obtain m1 m2 m3 where
    1: "foldM (move_pawn acc) [0..<length (m_pawns ?m0)] ?m0 = Some m1" and
    2: "m2 = m1 \<or> foldM (fall_pawn acc) [0..<length (m_pawns m1)] m1 = Some m2" and
    3: "foldM (act_pawn acc) [0..<length (m_pawns (process_pickups m2))] (process_pickups m2) = Some m3" and
    4: "advance_projectiles m3 = Some m'"
    using assms by (auto simp: run_tick_def Let_def panic_simps split: if_splits)
  note cooldowns_evolve [of m]
  also have "evolves ?m0 m1"
    by (rule evolves_foldM [OF 1]) (auto dest: move_pawn_evolves simp: evolves_length)
  also have "evolves m1 m2"
  proof (cases "m2 = m1")
    case False
    with 2 have "foldM (fall_pawn acc) [0..<length (m_pawns m1)] m1 = Some m2" by simp
    then show ?thesis
      by (rule evolves_foldM) (auto dest: fall_pawn_evolves simp: evolves_length)
  qed simp
  also have "evolves m2 (process_pickups m2)" by (rule process_pickups_evolves)
  also have "evolves (process_pickups m2) m3"
    by (rule evolves_foldM [OF 3]) (auto dest: act_pawn_evolves simp: evolves_length)
  also have "evolves m3 m'" by (rule advance_projectiles_evolves [OF 4])
  finally show ?thesis .
qed

end
