(* ===== verification/Match_Machine.thy ===== *)
theory Match_Machine
  imports Step_Inv
begin

section \<open>The match as a state machine\<close>

text \<open>
  The match under an arbitrary sequence of events. The drain of the queued forfeits and the acceptance
  of intents are characterised, a live step is taken apart (\<open>step_live_cases\<close>), and the invariant
  \<open>match_ok\<close> is carried through every event: \<open>match_step\<close> is the step relation, and the machine
  interprets \<open>panic_machine\<close>.
\<close>

subsection \<open>Forfeits and accepted intents\<close>

definition down_pawn :: "pawn \<Rightarrow> pawn" where
  "down_pawn p = p\<lparr>p_alive := False, p_forfeited := True\<rparr>"

definition downs :: "pawn \<Rightarrow> pawn \<Rightarrow> bool" where
  "downs p p' \<longleftrightarrow> p' = p \<or> (p_alive p \<and> p' = down_pawn p)"

lemma downs_refl [simp]: "downs p p"
  by (simp add: downs_def)

lemma downs_trans: "downs p q \<Longrightarrow> downs q s \<Longrightarrow> downs p s"
  by (auto simp: downs_def down_pawn_def)

lemma down_seat_downs:
  "down_seat s (ps, d) = (qs, e) \<Longrightarrow> list_all2 downs ps qs
     \<and> (e = d \<or> e = d @ [s] \<and> s \<in> set (map p_seat ps))"
proof (cases "find_index (\<lambda>p. p_seat p = s \<and> p_alive p) ps")
  case None
  assume "down_seat s (ps, d) = (qs, e)"
  with None show ?thesis by (simp add: down_seat_def list.rel_refl)
next
  case (Some i)
  from find_index_Some [OF Some] have i: "i < length ps" "p_seat (ps ! i) = s" "p_alive (ps ! i)" by auto
  have "list_all2 downs ps (ps[i := down_pawn (ps ! i)])"
    using i by (auto simp: list_all2_conv_all_nth nth_list_update downs_def)
  moreover assume "down_seat s (ps, d) = (qs, e)"
  ultimately show ?thesis using Some i nth_mem [OF i(1)] by (auto simp: down_seat_def down_pawn_def)
qed

lemma downs_seats: "list_all2 downs ps qs \<Longrightarrow> map p_seat qs = map p_seat ps \<and> map p_team qs = map p_team ps"
  by (induction rule: list_all2_induct) (auto simp: downs_def down_pawn_def)

lemma fold_down_seat:
  "fold down_seat pend (ps, d) = (qs, e) \<Longrightarrow>
   list_all2 downs ps qs \<and> (\<exists>ds. e = d @ ds \<and> set ds \<subseteq> set pend \<inter> set (map p_seat ps)
     \<and> (sorted_wrt (<) pend \<longrightarrow> sorted_wrt (<) ds))"
proof (induction pend arbitrary: ps d)
  case Nil
  then show ?case by (auto simp: downs_def list.rel_refl)
next
  case (Cons s pend)
  obtain ps1 d1 where 1: "down_seat s (ps, d) = (ps1, d1)" by fastforce
  note h = down_seat_downs [OF 1]
  have "fold down_seat pend (ps1, d1) = (qs, e)" using Cons.prems 1 by simp
  from Cons.IH [OF this] obtain ds where
    ds: "list_all2 downs ps1 qs" "e = d1 @ ds" "set ds \<subseteq> set pend \<inter> set (map p_seat ps1)"
      "sorted_wrt (<) pend \<longrightarrow> sorted_wrt (<) ds" by blast
  have seats: "set (map p_seat ps1) = set (map p_seat ps)" using h downs_seats by metis
  have "list_all2 downs ps qs" by (rule list_all2_trans [OF downs_trans _ ds(1)]) (use h in auto)
  moreover have "\<exists>es. e = d @ es \<and> set es \<subseteq> set (s # pend) \<inter> set (map p_seat ps)
     \<and> (sorted_wrt (<) (s # pend) \<longrightarrow> sorted_wrt (<) es)"
  proof (cases "d1 = d")
    case True
    with ds show ?thesis unfolding seats by (intro exI [of _ ds]) auto
  next
    case False
    with h have "d1 = d @ [s]" "s \<in> set (map p_seat ps)" by auto
    with ds show ?thesis unfolding seats by (intro exI [of _ "s # ds"]) auto
  qed
  ultimately show ?case by blast
qed

lemma drain_forfeits_props:
  assumes "drain_forfeits m = (n, ds)"
  shows "list_all2 downs (m_pawns m) (m_pawns n)" "n = m\<lparr>m_pawns := m_pawns n, m_pending_forfeits := []\<rparr>"
    "set ds \<subseteq> set (m_pending_forfeits m) \<inter> set (map p_seat (m_pawns m))"
    "sorted_wrt (<) (m_pending_forfeits m) \<Longrightarrow> sorted_wrt (<) ds"
  using assms fold_down_seat [of "m_pending_forfeits m" "m_pawns m" "[]"]
  by (auto simp: drain_forfeits_def split: prod.splits)

text \<open>On a roster of distinct seats the drain has a closed form.\<close>

definition seat_up :: "pawn list \<Rightarrow> seat_id \<Rightarrow> bool" where
  "seat_up ps s \<longleftrightarrow> (\<exists>p\<in>set ps. p_seat p = s \<and> p_alive p)"

definition down_all :: "seat_id set \<Rightarrow> pawn list \<Rightarrow> pawn list" where
  "down_all S ps = map (\<lambda>p. if p_seat p \<in> S \<and> p_alive p then down_pawn p else p) ps"

lemma down_pawn_simps [simp]: "p_seat (down_pawn p) = p_seat p" "p_alive (down_pawn p) = False"
  "p_team (down_pawn p) = p_team p"
  by (simp_all add: down_pawn_def)

lemma down_all_simps:
  "map p_seat (down_all S ps) = map p_seat ps"
  "seat_up (down_all S ps) t \<longleftrightarrow> seat_up ps t \<and> t \<notin> S"
  "down_all S (down_all T ps) = down_all (T \<union> S) ps"
  "down_all {} ps = ps"
  by (auto simp: down_all_def seat_up_def)

lemma down_all_cong: "(\<And>s. seat_up ps s \<Longrightarrow> s \<in> S \<longleftrightarrow> s \<in> T) \<Longrightarrow> down_all S ps = down_all T ps"
  by (auto simp: down_all_def seat_up_def)

lemma down_seat_distinct:
  assumes "distinct (map p_seat ps)"
  shows "down_seat s (ps, d) = (down_all {s} ps, if seat_up ps s then d @ [s] else d)"
proof (cases "find_index (\<lambda>p. p_seat p = s \<and> p_alive p) ps")
  case None
  then have "\<not> seat_up ps s" by (auto simp: seat_up_def find_index_None)
  moreover from this have "down_all {s} ps = down_all {} ps" by (intro down_all_cong) auto
  ultimately show ?thesis using None by (simp add: down_seat_def down_all_simps)
next
  case (Some i)
  from find_index_Some [OF Some] have i: "i < length ps" "p_seat (ps ! i) = s" "p_alive (ps ! i)" by auto
  have "ps[i := down_pawn (ps ! i)] = down_all {s} ps"
  proof (rule nth_equalityI)
    fix k assume "k < length (ps[i := down_pawn (ps ! i)])"
    then have k: "k < length ps" by simp
    with i assms have "p_seat (ps ! k) = s \<longleftrightarrow> k = i"
      by (metis distinct_conv_nth length_map nth_map)
    with i k show "ps[i := down_pawn (ps ! i)] ! k = down_all {s} ps ! k"
      by (cases "k = i") (auto simp: down_all_def)
  qed (simp add: down_all_def)
  moreover have "seat_up ps s" using i by (auto simp: seat_up_def)
  ultimately show ?thesis using Some by (simp add: down_seat_def down_pawn_def)
qed

lemma fold_down_seat_distinct:
  assumes "distinct (map p_seat ps)" "distinct pend"
  shows "fold down_seat pend (ps, d) = (down_all (set pend) ps, d @ filter (seat_up ps) pend)"
  using assms
proof (induction pend arbitrary: ps d)
  case (Cons s pend)
  have "filter (seat_up (down_all {s} ps)) pend = filter (seat_up ps) pend"
    using Cons.prems(2) by (intro filter_cong) (auto simp: down_all_simps)
  moreover have "distinct (map p_seat (down_all {s} ps))"
    using Cons.prems(1) unfolding down_all_simps .
  ultimately show ?case
    using Cons.IH [of "down_all {s} ps"] Cons.prems
    by (simp add: down_seat_distinct down_all_simps(3))
qed (simp add: down_all_simps)

lemma set_bt_insert: "set (bt_insert k v m) \<subseteq> insert (k, v) (set m)"
  by (induction k v m rule: bt_insert.induct) auto

lemma set_bt_collect: "set (bt_collect xs) \<subseteq> set xs"
proof -
  have "set (fold (\<lambda>(k, v). bt_insert k v) xs m) \<subseteq> set xs \<union> set m" for m
  proof (induction xs arbitrary: m)
    case (Cons x xs)
    then show ?case using set_bt_insert [of "fst x" "snd x" m] by (cases x) fastforce
  qed simp
  from this [of "[]"] show ?thesis by (simp add: bt_collect_def)
qed

lemma accept_intents_props:
  "bt_inv (accept_intents m is)"
  "(s, a) \<in> set (accept_intents m is) \<Longrightarrow> pawn_alive m s \<and> clamped a = a"
  using set_bt_collect [of "map (\<lambda>(seat, intent). (seat, clamped intent)) (filter (\<lambda>(seat, _). pawn_alive m seat) is)"]
  by (auto simp: accept_intents_def)

lemma accept_intents_idem: "accept_intents m (accept_intents m is) = accept_intents m is"
proof -
  have "map (\<lambda>(seat, intent). (seat, clamped intent))
      (filter (\<lambda>(seat, _). pawn_alive m seat) (accept_intents m is)) = accept_intents m is"
  proof -
    have "filter (\<lambda>(seat, _). pawn_alive m seat) (accept_intents m is) = accept_intents m is"
      using accept_intents_props(2) by (intro filter_True) auto
    then show ?thesis using accept_intents_props(2) by (auto intro!: map_idI)
  qed
  then show ?thesis
    using accept_intents_props(1) [of m "is"]
    by (subst accept_intents_def) (simp add: bt_inv_def bt_collect_sorted)
qed

lemma pawn_alive_iff: "pawn_alive m s \<longleftrightarrow> seat_up (m_pawns m) s"
  by (auto simp: pawn_alive_def list_ex_iff seat_up_def)

subsection \<open>Anatomy of a live step\<close>

definition memory_only :: "arena_match \<Rightarrow> arena_match \<Rightarrow> bool" where
  "memory_only m m' \<longleftrightarrow>
     (\<exists>mem. m' = m\<lparr>m_seat_memory := mem\<rparr> \<and> length mem = length (m_seat_memory m))"

lemma refresh_memory_only:
  assumes "refresh_perception_memory t m = Some m'"
  shows "memory_only m m'"
proof (rule foldM_rel [where R = memory_only])
  fix x u v
  assume "memory_only m u" "refresh_seat t x u = Some v"
  then show "memory_only m v"
    by (auto simp: memory_only_def refresh_seat_def Let_def split: if_splits)
next
  show "memory_only m m" by (auto simp: memory_only_def intro!: exI [of _ "m_seat_memory m"])
qed (use assms in \<open>simp add: refresh_perception_memory_def\<close>)

definition tick_entry :: "u64 \<Rightarrow> (seat_id, action_intent) btree \<Rightarrow> seat_id list \<Rightarrow> tick_record" where
  "tick_entry t acc ds = \<lparr>tr_tick = t,
     tr_actions = map (\<lambda>(seat, intent). \<lparr>sa_seat = seat, sa_intent = intent\<rparr>) acc, tr_forfeits = ds\<rparr>"

lemma step_live_cases:
  assumes "step X is m = Some m'" "m_phase m = Live"
  obtains mem n ds acc u where
    "length mem = length (m_seat_memory m)" "drain_forfeits (m\<lparr>m_seat_memory := mem\<rparr>) = (n, ds)"
    "acc = accept_intents n is" "run_tick acc n = Some u" "m_tick m + 1 < 2 ^ 64"
    "m' = maybe_finish X (u\<lparr>m_ticks := m_ticks u @ [tick_entry (m_tick m) acc ds], m_tick := m_tick m + 1\<rparr>)"
proof -
  let ?mem = "if r_perception_memory_ticks (m_rules m) > 0 then refresh_perception_memory (m_tick m) m else Some m"
  from assms obtain m1 where m1: "?mem = Some m1"
    by (auto simp: step_def panic_simps Let_def split: if_splits)
  have "memory_only m m1"
    using m1 refresh_memory_only [of "m_tick m" m m1]
    by (auto simp: memory_only_def intro!: exI [of _ "m_seat_memory m"] split: if_splits)
  then obtain mem where mem: "m1 = m\<lparr>m_seat_memory := mem\<rparr>" "length mem = length (m_seat_memory m)"
    by (auto simp: memory_only_def)
  obtain n ds where n: "drain_forfeits m1 = (n, ds)" by fastforce
  from assms m1 n obtain u where u: "run_tick (accept_intents n is) n = Some u"
    "close_tick X (m_tick m) (accept_intents n is) ds u = Some m'"
    by (auto simp: step_def panic_simps Let_def split: if_splits prod.splits)
  have "m_tick u = m_tick n" using run_tick_evolves [OF u(1)] by (simp add: evolves_def same_frame_def)
  moreover have "m_tick n = m_tick m" using n by (auto simp: drain_forfeits_def mem(1) split: prod.splits)
  ultimately have "m_tick u = m_tick m" by simp
  then show ?thesis
    using that [OF mem(2) _ refl u(1)] n mem(1) u(2)
    by (auto simp: close_tick_def tick_entry_def Let_def panic_simps)
qed

lemma maybe_finish_simps [simp]:
  "m_pawns (maybe_finish X m) = m_pawns m" "m_rules (maybe_finish X m) = m_rules m"
  "m_config (maybe_finish X m) = m_config m" "m_seats (maybe_finish X m) = m_seats m"
  "m_blockers (maybe_finish X m) = m_blockers m" "m_seat_memory (maybe_finish X m) = m_seat_memory m"
  "m_tick (maybe_finish X m) = m_tick m" "m_ticks (maybe_finish X m) = m_ticks m"
  "m_pending_forfeits (maybe_finish X m) = m_pending_forfeits m" "m_seed (maybe_finish X m) = m_seed m"
  "m_match_id (maybe_finish X m) = m_match_id m" "m_pickup_config (maybe_finish X m) = m_pickup_config m"
  "m_projectiles (maybe_finish X m) = m_projectiles m" "m_pickups (maybe_finish X m) = m_pickups m"
  "m_next_projectile_id (maybe_finish X m) = m_next_projectile_id m"
  by (simp_all add: maybe_finish_def)

lemma build_result_phase [simp]: "build_result X (m\<lparr>m_phase := x\<rparr>) = build_result X m"
  "build_result X (m\<lparr>m_result := y\<rparr>) = build_result X m"
  by (simp_all add: build_result_def build_replay_def)

lemma maybe_finish_result:
  assumes "m_phase m = Live" "m_result m = None"
  shows "m_phase (maybe_finish X m) = Live \<and> m_result (maybe_finish X m) = None \<and> m_tick m < max_ticks (m_config m)
    \<or> m_phase (maybe_finish X m) = Ended
       \<and> m_result (maybe_finish X m) = Some (build_result X (maybe_finish X m))"
  using assms by (auto simp: maybe_finish_def)

lemmas step_frame = evolves_def same_frame_def

lemma step_live_frame:
  assumes "step X is m = Some m'" "m_phase m = Live"
  shows "m_match_id m' = m_match_id m" "m_config m' = m_config m" "m_rules m' = m_rules m"
    "m_seats m' = m_seats m" "m_blockers m' = m_blockers m" "m_pickup_config m' = m_pickup_config m"
    "m_seed m' = m_seed m" "m_tick m' = m_tick m + 1" "m_pending_forfeits m' = []"
    "length (m_seat_memory m') = length (m_seat_memory m)"
    "m_starting_remaining m' = m_starting_remaining m"
proof -
  from assms obtain mem n ds acc u where
    1: "length mem = length (m_seat_memory m)" "drain_forfeits (m\<lparr>m_seat_memory := mem\<rparr>) = (n, ds)"
      "run_tick acc n = Some u"
      "m' = maybe_finish X (u\<lparr>m_ticks := m_ticks u @ [tick_entry (m_tick m) acc ds], m_tick := m_tick m + 1\<rparr>)"
    by (rule step_live_cases)
  have n: "\<exists>ps. n = m\<lparr>m_seat_memory := mem, m_pawns := ps, m_pending_forfeits := []\<rparr>"
    using 1(2) by (auto simp: drain_forfeits_def split: prod.splits)
  show "m_match_id m' = m_match_id m" "m_config m' = m_config m" "m_rules m' = m_rules m"
    "m_seats m' = m_seats m" "m_blockers m' = m_blockers m" "m_pickup_config m' = m_pickup_config m"
    "m_seed m' = m_seed m" "m_tick m' = m_tick m + 1" "m_pending_forfeits m' = []"
    "length (m_seat_memory m') = length (m_seat_memory m)"
    "m_starting_remaining m' = m_starting_remaining m"
    using run_tick_evolves [OF 1(3)] n 1(1)
    by (auto simp: 1(4) step_frame maybe_finish_def)
qed

subsection \<open>The invariant\<close>

definition roster :: "arena_match \<Rightarrow> seat_id set" where
  "roster m = set (map si_seat (m_seats m))"

definition tick_ok :: "seat_id set \<Rightarrow> nat \<Rightarrow> tick_record \<Rightarrow> bool" where
  "tick_ok R i t \<longleftrightarrow> tr_tick t = i
     \<and> sorted_wrt (<) (map sa_seat (tr_actions t)) \<and> set (map sa_seat (tr_actions t)) \<subseteq> R
     \<and> (\<forall>a\<in>set (tr_actions t). clamped (sa_intent a) = sa_intent a)
     \<and> sorted_wrt (<) (tr_forfeits t) \<and> set (tr_forfeits t) \<subseteq> R"

definition seated :: "seat_info \<Rightarrow> pawn \<Rightarrow> bool" where
  "seated s p \<longleftrightarrow> p_seat p = si_seat s \<and> p_team p = si_team s"

definition pawn_sound :: "rules \<Rightarrow> pawn \<Rightarrow> bool" where
  "pawn_sound r p \<longleftrightarrow> pawn_wf r p \<and> (p_forfeited p \<longrightarrow> \<not> p_alive p)"

definition match_ok :: "crates \<Rightarrow> arena_match \<Rightarrow> bool" where
  "match_ok X m \<longleftrightarrow>
     list_all2 seated (m_seats m) (m_pawns m)
     \<and> list_all (pawn_sound (m_rules m)) (m_pawns m)
     \<and> length (m_seat_memory m) = length (m_seats m)
     \<and> sorted_wrt (<) (m_pending_forfeits m)
     \<and> length (m_ticks m) = m_tick m \<and> (\<forall>i<m_tick m. tick_ok (roster m) i (m_ticks m ! i))
     \<and> m_tick m \<le> max 1 (max_ticks (m_config m))
     \<and> m_phase m \<noteq> Lobby \<and> (m_phase m = Starting \<longrightarrow> m_tick m = 0)
     \<and> (m_phase m = Live \<longrightarrow> m_tick m = 0 \<or> m_tick m < max_ticks (m_config m))
     \<and> m_result m = (if m_phase m = Ended then Some (build_result X m) else None)"

lemma seated_seats: "list_all2 seated ss ps \<Longrightarrow> map p_seat ps = map si_seat ss"
  by (induction rule: list_all2_induct) (auto simp: seated_def)

lemma downs_seated: "seated s p \<Longrightarrow> downs p q \<Longrightarrow> seated s q"
  by (auto simp: seated_def downs_def)

lemma evolves_seated: "seated s p \<Longrightarrow> pawn_evolves r c p q \<Longrightarrow> seated s q"
  by (simp add: seated_def pawn_evolves_def)

definition pawn_progress :: "pawn \<Rightarrow> pawn \<Rightarrow> bool" where
  "pawn_progress p p' \<longleftrightarrow>
     p_seat p' = p_seat p \<and> p_team p' = p_team p \<and> p_max_health p' = p_max_health p
     \<and> (p_forfeited p \<longrightarrow> p_forfeited p') \<and> (p_alive p' \<longrightarrow> p_alive p) \<and> p_score p \<le> p_score p'
     \<and> (\<not> p_alive p \<longrightarrow> p_forfeited p' = p_forfeited p \<and> p_pos p' = p_pos p \<and> p_z p' = p_z p
          \<and> p_facing p' = p_facing p \<and> p_health p' = p_health p \<and> p_shield p' = p_shield p
          \<and> p_ammo p' = p_ammo p)"

lemma pawn_progress_downs: "downs p q \<Longrightarrow> pawn_evolves r c q s \<Longrightarrow> pawn_progress p s"
  by (auto simp: pawn_progress_def downs_def down_pawn_def pawn_evolves_def)

definition live_change :: "rules \<Rightarrow> match_config \<Rightarrow> pawn \<Rightarrow> pawn \<Rightarrow> bool" where
  "live_change r c p s \<longleftrightarrow> (\<exists>q. downs p q \<and> pawn_evolves r c q s)"

lemma live_change_keeps:
  assumes "live_change r c p s"
  shows "pawn_progress p s" "seated i p \<Longrightarrow> seated i s" "pawn_sound r p \<Longrightarrow> pawn_sound r s"
    "in_bounds c (p_pos p) \<Longrightarrow> in_bounds c (p_pos s)"
proof -
  obtain q where q: "downs p q" "pawn_evolves r c q s" using assms by (auto simp: live_change_def)
  show "pawn_progress p s" by (rule pawn_progress_downs [OF q])
  show "seated i p \<Longrightarrow> seated i s" using downs_seated evolves_seated q by blast
  show "pawn_sound r p \<Longrightarrow> pawn_sound r s"
    using q by (auto simp: pawn_sound_def downs_def down_pawn_def pawn_evolves_def pawn_wf_def)
  show "in_bounds c (p_pos p) \<Longrightarrow> in_bounds c (p_pos s)"
    using q by (auto simp: downs_def down_pawn_def pawn_evolves_def)
qed

lemma live_change_all:
  assumes "list_all2 (live_change r c) ps qs"
  shows "list_all (pawn_sound r) ps \<Longrightarrow> list_all (pawn_sound r) qs"
    "list_all (\<lambda>p. in_bounds c (p_pos p)) ps \<Longrightarrow> list_all (\<lambda>p. in_bounds c (p_pos p)) qs"
    "list_all2 pawn_progress ps qs"
  using assms by (induction rule: list_all2_induct) (auto dest: live_change_keeps)

lemma step_live_pawns:
  assumes "step X is m = Some m'" "m_phase m = Live"
  shows "list_all2 (live_change (m_rules m) (m_config m)) (m_pawns m) (m_pawns m')"
proof -
  from assms obtain mem n ds acc u where
    1: "drain_forfeits (m\<lparr>m_seat_memory := mem\<rparr>) = (n, ds)" "run_tick acc n = Some u"
      "m' = maybe_finish X (u\<lparr>m_ticks := m_ticks u @ [tick_entry (m_tick m) acc ds], m_tick := m_tick m + 1\<rparr>)"
    by (rule step_live_cases)
  have "m_rules n = m_rules m" "m_config n = m_config m"
    using 1(1) by (auto simp: drain_forfeits_def split: prod.splits)
  then have e: "list_all2 (pawn_evolves (m_rules m) (m_config m)) (m_pawns n) (m_pawns m')"
    using run_tick_evolves [OF 1(2)] by (simp add: evolves_def 1(3))
  have "list_all2 downs (m_pawns m) (m_pawns n)" using drain_forfeits_props(1) [OF 1(1)] by simp
  then show ?thesis
    by (rule list_all2_trans [rotated, OF _ e]) (auto simp: live_change_def)
qed

lemma step_live_record:
  assumes "step X is m = Some m'" "m_phase m = Live" "list_all2 seated (m_seats m) (m_pawns m)"
    "sorted_wrt (<) (m_pending_forfeits m)"
  shows "\<exists>t. m_ticks m' = m_ticks m @ [t] \<and> tick_ok (roster m) (m_tick m) t"
proof -
  from assms(1,2) obtain mem n ds acc u where
    1: "drain_forfeits (m\<lparr>m_seat_memory := mem\<rparr>) = (n, ds)" "acc = accept_intents n is"
      "run_tick acc n = Some u"
      "m' = maybe_finish X (u\<lparr>m_ticks := m_ticks u @ [tick_entry (m_tick m) acc ds], m_tick := m_tick m + 1\<rparr>)"
    by (rule step_live_cases)
  have seats: "set (map p_seat (m_pawns m)) = roster m"
    using seated_seats [OF assms(3)] by (simp add: roster_def)
  have seats_n: "set (map p_seat (m_pawns n)) = roster m"
    using downs_seats [OF drain_forfeits_props(1) [OF 1(1)]] seats by simp
  have ticks: "m_ticks u = m_ticks m"
    using run_tick_evolves [OF 1(3)] 1(1) by (auto simp: step_frame drain_forfeits_def split: prod.splits)
  have acc: "sorted_wrt (<) (map fst acc)" "\<forall>(s, a)\<in>set acc. s \<in> roster m \<and> clamped a = a"
    using accept_intents_props(1) [of n "is"] accept_intents_props(2) [of _ _ n "is"] seats_n
    by (auto simp: 1(2) bt_inv_def pawn_alive_iff seat_up_def)
  have "sorted_wrt (<) ds" "set ds \<subseteq> roster m"
    using drain_forfeits_props(3,4) [OF 1(1)] assms(4) seats by auto
  with acc have "tick_ok (roster m) (m_tick m) (tick_entry (m_tick m) acc ds)"
    by (auto simp: tick_ok_def tick_entry_def comp_def split_beta)
  then show ?thesis using 1(4) ticks by simp
qed

lemma step_live_ok:
  assumes "match_ok X m" "step X is m = Some m'" "m_phase m = Live"
  shows "match_ok X m'"
proof -
  note f = step_live_frame [OF assms(2,3)]
  note ch = step_live_pawns [OF assms(2,3)]
  from step_live_record [OF assms(2,3)] assms(1) obtain t where
    t: "m_ticks m' = m_ticks m @ [t]" "tick_ok (roster m) (m_tick m) t" by (auto simp: match_ok_def)
  have seated: "list_all2 seated (m_seats m) (m_pawns m')"
    using list_all2_trans [of seated "live_change (m_rules m) (m_config m)" seated, OF _ _ ch]
      live_change_keeps(2) assms(1) by (auto simp: match_ok_def)
  have sound: "list_all (pawn_sound (m_rules m)) (m_pawns m')"
    using live_change_all(1) [OF ch] assms(1) by (simp add: match_ok_def)
  have "tick_ok (roster m) i (m_ticks m' ! i)" if "i < m_tick m'" for i
    using that assms(1) t by (cases "i < m_tick m") (auto simp: f match_ok_def nth_append less_Suc_eq)
  moreover have "m_phase m' = Live \<and> m_result m' = None \<and> m_tick m' < max_ticks (m_config m')
    \<or> m_phase m' = Ended \<and> m_result m' = Some (build_result X m')"
  proof -
    from assms(2,3) obtain mem n ds acc u where
      1: "drain_forfeits (m\<lparr>m_seat_memory := mem\<rparr>) = (n, ds)" "run_tick acc n = Some u"
        "m' = maybe_finish X (u\<lparr>m_ticks := m_ticks u @ [tick_entry (m_tick m) acc ds], m_tick := m_tick m + 1\<rparr>)"
      by (rule step_live_cases)
    have "m_phase u = Live" "m_result u = None"
      using run_tick_evolves [OF 1(2)] 1(1) assms(1,3)
      by (auto simp: step_frame drain_forfeits_def match_ok_def split: prod.splits)
    then show ?thesis
      using maybe_finish_result [of "u\<lparr>m_ticks := m_ticks u @ [tick_entry (m_tick m) acc ds], m_tick := m_tick m + 1\<rparr>" X]
      by (simp add: 1(3))
  qed
  moreover have "m_tick m' \<le> max 1 (max_ticks (m_config m'))"
    using assms(1,3) by (auto simp: match_ok_def f)
  ultimately show ?thesis
    using assms(1) t(1) seated sound unfolding match_ok_def roster_def by (auto simp: f)
qed

subsection \<open>Events and runs\<close>

text \<open>
  What can happen to a match after its construction: a queued forfeit, or a step with a map of
  intents. The machine's contract is \<open>panic_machine\<close>, with \<open>match_ok\<close> as its invariant.
\<close>

datatype match_event = Ev_Forfeit seat_id | Ev_Step "(seat_id \<times> action_intent) list"

definition apply_event :: "crates \<Rightarrow> match_event \<Rightarrow> arena_match \<Rightarrow> arena_match option" where
  "apply_event X e m = (case e of Ev_Forfeit s \<Rightarrow> Some (fst (forfeit s m)) | Ev_Step is \<Rightarrow> step X is m)"

inductive match_step :: "crates \<Rightarrow> arena_match \<Rightarrow> arena_match \<Rightarrow> bool" for X where
  Forfeit: "m_phase m \<noteq> Ended \<Longrightarrow> pawn_alive m s \<Longrightarrow>
     match_step X m (m\<lparr>m_pending_forfeits := bs_insert s (m_pending_forfeits m)\<rparr>)"
| Ignored: "match_step X m m"
| Countdown: "m_phase m = Starting \<Longrightarrow> match_step X m (step_starting m)"
| Tick: "m_phase m = Live \<Longrightarrow> step X is m = Some m' \<Longrightarrow> match_step X m m'"

inductive_cases match_step_elim [elim]: "match_step X m m'"

lemma apply_event_step: "apply_event X e m = Some m' \<Longrightarrow> match_step X m m'"
  by (auto simp: apply_event_def forfeit_def step_def
      intro: match_step.intros split: match_event.splits match_phase.splits)

lemma pawn_progress_refl [simp]: "pawn_progress p p"
  by (simp add: pawn_progress_def)

lemma build_result_frame [simp]:
  "build_result X (m\<lparr>m_pending_forfeits := ps\<rparr>) = build_result X m"
  by (simp add: build_result_def build_replay_def)

lemma match_step_ok:
  assumes "match_step X m m'" "match_ok X m"
  shows "match_ok X m'"
  using assms(1)
proof cases
  case (Forfeit s)
  with assms(2) show ?thesis by (simp add: match_ok_def roster_def)
next
  case Countdown
  with assms(2) show ?thesis
    by (auto simp: match_ok_def roster_def step_starting_def Let_def)
next
  case (Tick "is")
  with assms(2) step_live_ok show ?thesis by blast
qed (use assms(2) in simp)

interpretation match_machine: panic_machine "apply_event X" "match_ok X" for X
  by unfold_locales (blast dest: apply_event_step match_step_ok)

lemma fresh_match_ok:
  assumes "new_with_pickups i c r ss bs pks sd = Some m" "0 < r_start_health r"
  shows "match_ok X m"
proof -
  note f = new_with_pickups_fresh [OF assms(1)]
  have "list_all2 seated ss (m_pawns m)"
    using f(1) by (rule list_all2_mono) (simp add: fresh_pawn_def seated_def)
  moreover have "list_all (pawn_sound r) (m_pawns m)"
    using f(1) assms(2)
    by (auto simp: list_all_length list_all2_conv_all_nth fresh_pawn_def pawn_sound_def pawn_wf_def)
  ultimately show ?thesis by (simp add: match_ok_def f)
qed

subsection \<open>A concrete duel\<close>

text \<open>Two pawns face each other across the arena; the second one leaves before the first tick.\<close>

definition toy_crates :: crates where
  "toy_crates = \<lparr>keccak256 = (\<lambda>bs. [length bs mod 256]), hex_encode = map char_of\<rparr>"

definition duel_rules :: rules where
  "duel_rules = default_rules\<lparr>r_spawn_jitter := 0\<rparr>"

definition duel_pawn :: "nat \<Rightarrow> int \<Rightarrow> bam \<Rightarrow> pawn" where
  "duel_pawn s x f = \<lparr>p_seat = s, p_team = s, p_pos = \<lparr>vx = x, vy = 0\<rparr>, p_z = 0, p_z_vel = 0, p_facing = f,
     p_vel = \<lparr>vx = 0, vy = 0\<rparr>, p_health = 100, p_max_health = 100, p_shield = 0, p_ammo = 30, p_cooldown = 0,
     p_dash_cooldown = 0, p_launched_by = None, p_score = 0, p_alive = True, p_forfeited = False\<rparr>"

definition duel_start :: arena_match where
  "duel_start = \<lparr>m_match_id = [], m_config = duel_config, m_rules = duel_rules, m_seats = duel_seats,
     m_blockers = [], m_pawns = [duel_pawn 0 (- 20000) 0, duel_pawn 1 20000 32768], m_projectiles = [],
     m_next_projectile_id = 65536, m_pickup_config = [], m_pickups = [], m_seat_memory = [[], []],
     m_tick = 0, m_phase = Live, m_starting_remaining = 0, m_seed = 7, m_pending_forfeits = [],
     m_ticks = [], m_result = None\<rparr>"

lemma range_i32_zero: "range_i32 0 0 g = Some (0, snd (next_u64 g))"
  by (simp add: range_i32_def Let_def split_beta ck_i32_def in_i32_def as_i32_def)

lemma duel_start_new: "new_with_pickups [] duel_config duel_rules duel_seats [] [] 7 = Some duel_start"
  by (simp add: new_with_pickups_def duel_seats_def spawn_pawn_def duel_rules_def default_rules_defs
      range_i32_zero ck_i32_def in_i32_def spawn_column_def sdiv_nonneg as_i32_def duel_start_def duel_pawn_def
      vec2_zero_def WEST_def EAST_def PROJECTILE_ID_BASE_def)

lemmas step_defs = step_def drain_forfeits_def down_seat_def accept_intents_def bt_collect_def
  run_tick_def close_tick_def tick_cooldown_def move_pawn_def act_pawn_def process_pickups_def
  advance_projectiles_def maybe_finish_def Let_def bt_get_def set_pawn_def

definition duel_end :: arena_match where
  "duel_end = the (foldM (apply_event toy_crates) [Ev_Forfeit 1, Ev_Step []] duel_start)"

lemma duel_end_run:
  "foldM (apply_event toy_crates) [Ev_Forfeit 1, Ev_Step []] duel_start = Some duel_end"
  "m_phase duel_end = Ended" "m_tick duel_end = 1" "map p_forfeited (m_pawns duel_end) = [False, True]"
  by (simp_all add: duel_end_def apply_event_def forfeit_def duel_start_def duel_pawn_def pawn_alive_def
      duel_rules_def default_rules_defs step_defs ck_u_def upt_rec bs_collect_def vec2_zero_def)

subsection \<open>Invariant and progress of every run\<close>

text \<open>
  Property C7. Whatever sequence of forfeits and steps a match goes through, as long as none of them
  panics: the pawns still sit in the roster's order with their seats and teams; health, shield and
  ammunition never exceed their caps, nobody is alive at zero health or after a forfeit; the log has one
  record per tick, numbered from zero, with strictly increasing seats of the roster and clamped
  intents; and a result exists exactly when the match has ended, and is the one built from the final
  state.
\<close>

theorem match_invariant:
  assumes "new_with_pickups i c r ss bs pks sd = Some m0" "0 < r_start_health r"
    and "foldM (apply_event X) es m0 = Some m"
  shows "match_ok X m"
  using match_machine.run_keeps [OF fresh_match_ok [OF assms(1,2)] assms(3)] .

theorem match_invariant_witness:
  "new_with_pickups [] duel_config duel_rules duel_seats [] [] 7 = Some duel_start
   \<and> foldM (apply_event toy_crates) [Ev_Forfeit 1, Ev_Step []] duel_start = Some duel_end
   \<and> match_ok toy_crates duel_end \<and> m_phase duel_end = Ended"
  using match_invariant [OF duel_start_new _ duel_end_run(1)] duel_start_new duel_end_run
  by (simp add: duel_rules_def default_rules_defs)

definition phase_rank :: "match_phase \<Rightarrow> nat" where
  "phase_rank p = (case p of Lobby \<Rightarrow> 0 | Starting \<Rightarrow> 1 | Live \<Rightarrow> 2 | Ended \<Rightarrow> 3)"

text \<open>
  No event can undo what happened: a downed pawn stays down, where it fell, with the
  health it had; a forfeit is never lifted and no score ever shrinks; the phase only moves forward
  from the countdown to live play to the end; the tick never goes back, and advances by exactly one
  in a live step; and once the match has ended nothing changes at all.
\<close>

theorem match_progress:
  assumes "apply_event X e m = Some m'" "match_ok X m"
  shows "list_all2 pawn_progress (m_pawns m) (m_pawns m')
    \<and> phase_rank (m_phase m) \<le> phase_rank (m_phase m')
    \<and> m_tick m' = (if m_phase m = Live \<and> (\<exists>is. e = Ev_Step is) then m_tick m + 1 else m_tick m)
    \<and> (m_phase m = Ended \<longrightarrow> m' = m)"
proof (cases "m_phase m = Live \<and> (\<exists>is. e = Ev_Step is)")
  case True
  then obtain "is" where s: "step X is m = Some m'" "m_phase m = Live"
    using assms(1) by (auto simp: apply_event_def)
  have "m_phase m' = Live \<or> m_phase m' = Ended"
    using step_live_ok [OF assms(2) s] step_live_frame(8) [OF s]
    by (cases "m_phase m'") (auto simp: match_ok_def)
  with live_change_all(3) [OF step_live_pawns [OF s]] step_live_frame(8) [OF s] True
  show ?thesis by (auto simp: phase_rank_def s(2))
next
  case False
  with assms(1) show ?thesis
    by (auto simp: apply_event_def forfeit_def step_def step_starting_def Let_def phase_rank_def
        list.rel_refl split: match_event.splits match_phase.splits if_splits)
qed


theorem match_progress_witness:
  "apply_event toy_crates (Ev_Forfeit 0) duel_end = Some duel_end \<and> match_ok toy_crates duel_end
   \<and> list_all2 pawn_progress (m_pawns duel_end) (m_pawns duel_end)"
proof -
  have ev: "apply_event toy_crates (Ev_Forfeit 0) duel_end = Some duel_end"
    using duel_end_run(2) by (simp add: apply_event_def forfeit_def)
  have ok: "match_ok toy_crates duel_end"
    by (rule match_machine.run_keeps [OF fresh_match_ok [OF duel_start_new] duel_end_run(1)])
      (simp add: duel_rules_def default_rules_defs)
  from match_progress [OF ev ok] ev ok show ?thesis by blast
qed

end
