(* ===== verification/Replay.thy ===== *)
theory Replay
  imports Match_Machine
begin

section \<open>Driving, recording, replaying and verifying a match (\<^verbatim>\<open>src/arena/core/src/lib.rs\<close>)\<close>

text \<open>
  The driver \<^verbatim>\<open>run_match\<close>, the self-contained \<^verbatim>\<open>MatchRecord\<close>, \<^verbatim>\<open>replay_match\<close> and
  \<^verbatim>\<open>MatchRecord::verify\<close> with every error of \<^verbatim>\<open>ReplayError\<close>. The driver's loops are bounded: the
  countdown by its remaining ticks, live play by the tick cap. A policy is the caller's code: it is a
  parameter, a state transformer from an observation to an optional action.
\<close>

record match_record =
  rec_config :: match_config
  rec_rules :: rules
  rec_replay :: replay_record
  rec_result :: match_result

datatype replay_error =
    RE_Version version_mismatch
  | RE_MatchIdMismatch uuid uuid
  | RE_InvalidRoster
  | RE_MalformedSetup
  | RE_MalformedBlocker nat
  | RE_TooManyBlockers nat nat
  | RE_TooManyPickups nat nat
  | RE_TooManyTicks nat nat
  | RE_TooManyStartingTicks u32 u32
  | RE_TooManySeats nat nat
  | RE_UnknownSeat u64 seat_id
  | RE_SeatOrder u64
  | RE_ForfeitUnknownSeat u64 seat_id
  | RE_ForfeitOrder u64
  | RE_TickOrder nat u64
  | RE_NotTerminal
  | RE_ResultMismatch
  | RE_HashMismatch string string
  | RE_RulesCommitMismatch
  | RE_ConfigMismatch

definition MAX_REPLAY_TICKS :: nat where "MAX_REPLAY_TICKS = 100000"
definition MAX_REPLAY_SEATS :: nat where "MAX_REPLAY_SEATS = 64"
definition MAX_REPLAY_BLOCKERS :: nat where "MAX_REPLAY_BLOCKERS = 1024"
definition MAX_REPLAY_PICKUPS :: nat where "MAX_REPLAY_PICKUPS = 256"
definition MAX_REPLAY_STARTING_TICKS :: u32 where "MAX_REPLAY_STARTING_TICKS = 100000"

definition to_record :: "arena_match \<Rightarrow> match_record option" where
  "to_record m = map_option (\<lambda>res. \<lparr>rec_config = m_config m, rec_rules = m_rules m,
     rec_replay = build_replay m, rec_result = res\<rparr>) (m_result m)"

subsection \<open>The countdown\<close>

text \<open>
  \<^verbatim>\<open>while m.phase() == Starting { m.step(&BTreeMap::new()) }\<close>. Each iteration lowers the remaining
  countdown, and a countdown at zero leaves the phase, so the loop stops.
\<close>

lemma step_starting_measure:
  "m_phase (step_starting m) = Starting \<Longrightarrow> m_starting_remaining (step_starting m) < m_starting_remaining m"
  by (auto simp: step_starting_def Let_def split: if_splits)

function burn_countdown :: "crates \<Rightarrow> arena_match \<Rightarrow> arena_match option" where
  "burn_countdown X m =
     (if m_phase m = Starting then do { m' \<leftarrow> step X [] m; burn_countdown X m' } else Some m)"
  by pat_completeness auto
termination
proof (relation "measure (\<lambda>(X, m). if m_phase m = Starting then Suc (m_starting_remaining m) else 0)")
  fix X :: crates and m m' :: arena_match
  assume *: "m_phase m = Starting" "step X [] m = Some m'"
  then have "m' = step_starting m" by (simp add: step_def)
  with * step_starting_measure [of m]
  show "((X, m'), X, m) \<in> measure (\<lambda>(X, m). if m_phase m = Starting then Suc (m_starting_remaining m) else 0)"
    by auto
qed simp

declare burn_countdown.simps [simp del]

subsection \<open>Replay and verification\<close>

definition queue_forfeits :: "seat_id list \<Rightarrow> arena_match \<Rightarrow> arena_match" where
  "queue_forfeits ss m = fold (\<lambda>s m. fst (forfeit s m)) ss m"

definition action_map :: "seat_action list \<Rightarrow> (seat_id, action_intent) btree" where
  "action_map as = bt_collect (map (\<lambda>a. (sa_seat a, sa_intent a)) as)"

primrec replay_ticks :: "crates \<Rightarrow> tick_record list \<Rightarrow> arena_match \<Rightarrow> arena_match option" where
  "replay_ticks X [] m = Some m"
| "replay_ticks X (tr # trs) m =
     (if m_phase m \<noteq> Live then Some m
      else do {
        m' \<leftarrow> step X (action_map (tr_actions tr)) (queue_forfeits (tr_forfeits tr) m);
        replay_ticks X trs m' })"

definition replay_match :: "crates \<Rightarrow> arena_match \<Rightarrow> replay_record \<Rightarrow> arena_match option" where
  "replay_match X m replay = do { m' \<leftarrow> burn_countdown X m; replay_ticks X (rr_ticks replay) m' }"

fun check_blockers :: "nat \<Rightarrow> blocker list \<Rightarrow> replay_error option" where
  "check_blockers i [] = None"
| "check_blockers i (b # bs) =
     (if vx (b_min b) > vx (b_max b) \<or> vy (b_min b) > vy (b_max b) then Some (RE_MalformedBlocker i)
      else check_blockers (i + 1) bs)"

fun check_actions :: "seat_id list \<Rightarrow> u64 \<Rightarrow> seat_id option \<Rightarrow> seat_action list \<Rightarrow> replay_error option" where
  "check_actions R t prev [] = None"
| "check_actions R t prev (a # as) =
     (if \<not> List.member R (sa_seat a) then Some (RE_UnknownSeat t (sa_seat a))
      else if (case prev of None \<Rightarrow> False | Some p \<Rightarrow> p \<ge> sa_seat a) then Some (RE_SeatOrder t)
      else check_actions R t (Some (sa_seat a)) as)"

fun check_forfeits :: "seat_id list \<Rightarrow> u64 \<Rightarrow> seat_id option \<Rightarrow> seat_id list \<Rightarrow> replay_error option" where
  "check_forfeits R t prev [] = None"
| "check_forfeits R t prev (s # ss) =
     (if \<not> List.member R s then Some (RE_ForfeitUnknownSeat t s)
      else if (case prev of None \<Rightarrow> False | Some p \<Rightarrow> p \<ge> s) then Some (RE_ForfeitOrder t)
      else check_forfeits R t (Some s) ss)"

fun check_ticks :: "seat_id list \<Rightarrow> nat \<Rightarrow> tick_record list \<Rightarrow> replay_error option" where
  "check_ticks R i [] = None"
| "check_ticks R i (tr # trs) =
     (if tr_tick tr \<noteq> i then Some (RE_TickOrder i (tr_tick tr))
      else case check_actions R (tr_tick tr) None (tr_actions tr) of
        Some e \<Rightarrow> Some e
      | None \<Rightarrow>
          (case check_forfeits R (tr_tick tr) None (tr_forfeits tr) of
             Some e \<Rightarrow> Some e
           | None \<Rightarrow> check_ticks R (i + 1) trs))"

definition check_record :: "match_record \<Rightarrow> replay_error option" where
  "check_record r =
     (let rp = rec_replay r; rules = rec_rules r; cfg = rec_config r; seats = rr_seats rp in
      case check_version (rr_protocol_version rp) of Inl v \<Rightarrow> Some (RE_Version v) | Inr _ \<Rightarrow>
      case check_version (mr_protocol_version (rec_result r)) of Inl v \<Rightarrow> Some (RE_Version v) | Inr _ \<Rightarrow>
      if rr_match_id rp \<noteq> mr_match_id (rec_result r)
      then Some (RE_MatchIdMismatch (rr_match_id rp) (mr_match_id (rec_result r)))
      else if length seats > MAX_REPLAY_SEATS then Some (RE_TooManySeats (length seats) MAX_REPLAY_SEATS)
      else if length (rr_ticks rp) > MAX_REPLAY_TICKS
      then Some (RE_TooManyTicks (length (rr_ticks rp)) MAX_REPLAY_TICKS)
      else if r_starting_ticks rules > MAX_REPLAY_STARTING_TICKS
      then Some (RE_TooManyStartingTicks (r_starting_ticks rules) MAX_REPLAY_STARTING_TICKS)
      else if length (rr_blockers rp) > MAX_REPLAY_BLOCKERS
      then Some (RE_TooManyBlockers (length (rr_blockers rp)) MAX_REPLAY_BLOCKERS)
      else if length (rr_pickups rp) > MAX_REPLAY_PICKUPS
      then Some (RE_TooManyPickups (length (rr_pickups rp)) MAX_REPLAY_PICKUPS)
      else if seats = [] \<or> cfg_seats cfg \<noteq> length seats \<or> \<not> distinct (map si_seat seats)
      then Some RE_InvalidRoster
      else if vx (bounds cfg) < 0 \<or> vy (bounds cfg) < 0 \<or> r_spawn_radius rules < 0 \<or> r_spawn_jitter rules < 0
      then Some RE_MalformedSetup
      else case check_blockers 0 (rr_blockers rp) of
        Some e \<Rightarrow> Some e
      | None \<Rightarrow> check_ticks (map si_seat seats) 0 (rr_ticks rp))"

definition compare_result :: "match_record \<Rightarrow> match_result \<Rightarrow> replay_error + match_result" where
  "compare_result r reproduced =
     (let claimed = rec_result r in
      if mr_outcomes reproduced \<noteq> mr_outcomes claimed \<or> mr_final_tick reproduced \<noteq> mr_final_tick claimed
      then Inl RE_ResultMismatch
      else if mr_replay_hash reproduced \<noteq> mr_replay_hash claimed
      then Inl (RE_HashMismatch (mr_replay_hash claimed) (mr_replay_hash reproduced))
      else if rr_rules_commit (rec_replay r) \<noteq> canonical_encoding (rec_rules r)
      then Inl RE_RulesCommitMismatch
      else if rr_config (rec_replay r) \<noteq> rec_config r then Inl RE_ConfigMismatch
      else Inr reproduced)"

definition verify :: "crates \<Rightarrow> match_record \<Rightarrow> (replay_error + match_result) option" where
  "verify X r =
     (case check_record r of
        Some e \<Rightarrow> Some (Inl e)
      | None \<Rightarrow> do {
          let rp = rec_replay r;
          fresh \<leftarrow> new_with_pickups (rr_match_id rp) (rec_config r) (rec_rules r) (rr_seats rp)
                    (rr_blockers rp) (rr_pickups rp) (rr_seed rp);
          rerun \<leftarrow> replay_match X fresh rp;
          Some (case m_result rerun of
                  None \<Rightarrow> Inl RE_NotTerminal
                | Some reproduced \<Rightarrow> compare_result r reproduced) })"

subsection \<open>Pending forfeits do not influence a step before the drain\<close>

lemma foldM_commute:
  assumes "\<And>x t. f x (g t) = map_option g (f x t)"
  shows "foldM f xs (g s) = map_option g (foldM f xs s)"
proof (induction xs arbitrary: s)
  case (Cons x xs)
  show ?case by (cases "f x s") (simp_all add: assms Cons.IH)
qed simp

lemma seen_now_pending [simp]: "seen_now (m\<lparr>m_pending_forfeits := P\<rparr>) t me = seen_now m t me"
  by (simp add: seen_now_def seen_pawns_def seen_projectiles_def seen_pickups_def perceives_def)

lemma refresh_pending:
  "refresh_perception_memory t (m\<lparr>m_pending_forfeits := P\<rparr>)
   = map_option (\<lambda>m. m\<lparr>m_pending_forfeits := P\<rparr>) (refresh_perception_memory t m)"
  unfolding refresh_perception_memory_def
  by (subst foldM_commute [where g = "\<lambda>m. m\<lparr>m_pending_forfeits := P\<rparr>", symmetric])
    (simp_all add: refresh_seat_def Let_def)

definition refresh_if :: "arena_match \<Rightarrow> arena_match option" where
  "refresh_if m = (if r_perception_memory_ticks (m_rules m) > 0 then refresh_perception_memory (m_tick m) m
     else Some m)"

definition tick_body ::
  "crates \<Rightarrow> u64 \<Rightarrow> (seat_id, action_intent) btree \<Rightarrow> arena_match \<times> seat_id list \<Rightarrow> arena_match option" where
  "tick_body X t is nd = do {
     m \<leftarrow> run_tick (accept_intents (fst nd) is) (fst nd);
     close_tick X t (accept_intents (fst nd) is) (snd nd) m }"

lemma step_live_eq:
  "m_phase m = Live \<Longrightarrow>
   step X is m = Option.bind (refresh_if m) (\<lambda>n. tick_body X (m_tick m) is (drain_forfeits n))"
  by (simp add: step_def refresh_if_def tick_body_def Let_def split_beta)

lemma refresh_if_pending:
  "refresh_if (m\<lparr>m_pending_forfeits := P\<rparr>) = map_option (\<lambda>m. m\<lparr>m_pending_forfeits := P\<rparr>) (refresh_if m)"
  by (simp add: refresh_if_def refresh_pending)

lemma refresh_if_pawns:
  assumes "refresh_if m = Some n"
  shows "m_pawns n = m_pawns m \<and> m_ticks n = m_ticks m"
  using assms refresh_memory_only [of "m_tick m" m n]
  by (auto simp: refresh_if_def memory_only_def split: if_splits)

lemma drain_distinct:
  assumes "distinct (map p_seat (m_pawns m))" "distinct P"
  shows "drain_forfeits (m\<lparr>m_pending_forfeits := P\<rparr>)
    = (m\<lparr>m_pawns := down_all (set P) (m_pawns m), m_pending_forfeits := []\<rparr>, filter (seat_up (m_pawns m)) P)"
  using fold_down_seat_distinct [OF assms, of "[]"] by (simp add: drain_forfeits_def)

lemma drain_filter:
  assumes "distinct (map p_seat (m_pawns m))" "distinct P"
  shows "drain_forfeits (m\<lparr>m_pending_forfeits := filter (seat_up (m_pawns m)) P\<rparr>)
    = drain_forfeits (m\<lparr>m_pending_forfeits := P\<rparr>)"
proof -
  have "down_all (set (filter (seat_up (m_pawns m)) P)) (m_pawns m) = down_all (set P) (m_pawns m)"
    by (rule down_all_cong) auto
  then show ?thesis using assms by (simp add: drain_distinct)
qed

lemma tick_body_record:
  assumes "tick_body X t is nd = Some m'"
  shows "m_ticks m' = m_ticks (fst nd) @ [tick_entry t (accept_intents (fst nd) is) (snd nd)]"
proof -
  obtain u where "run_tick (accept_intents (fst nd) is) (fst nd) = Some u"
    "close_tick X t (accept_intents (fst nd) is) (snd nd) u = Some m'"
    using assms by (auto simp: tick_body_def panic_simps)
  with run_tick_evolves [of _ "fst nd" u] show ?thesis
    by (auto simp: close_tick_def Let_def panic_simps tick_entry_def step_frame)
qed

lemma action_map_entry: "bt_inv acc \<Longrightarrow> action_map (tr_actions (tick_entry t acc ds)) = acc"
  by (simp add: action_map_def tick_entry_def comp_def split_beta bt_inv_def bt_collect_sorted)

text \<open>A recorded tick, fed back, reproduces the step that recorded it.\<close>

lemma step_replays:
  assumes "m_phase r = Live" "distinct (map p_seat (m_pawns r))" "sorted_wrt (<) P"
    and "step X is (r\<lparr>m_pending_forfeits := P\<rparr>) = Some m'"
  shows "\<exists>t. m_ticks m' = m_ticks r @ [t] \<and> tr_forfeits t = filter (seat_up (m_pawns r)) P
    \<and> step X (action_map (tr_actions t)) (r\<lparr>m_pending_forfeits := tr_forfeits t\<rparr>) = Some m'"
proof -
  have P: "distinct P" using assms(3) strict_sorted_iff by blast
  obtain n where n: "refresh_if r = Some n"
    "tick_body X (m_tick r) is (drain_forfeits (n\<lparr>m_pending_forfeits := P\<rparr>)) = Some m'"
    using assms(1,4) by (auto simp: step_live_eq refresh_if_pending panic_simps)
  have pn: "m_pawns n = m_pawns r" "m_ticks n = m_ticks r" using refresh_if_pawns [OF n(1)] by auto
  define Q where "Q = filter (seat_up (m_pawns r)) P"
  define nd where "nd = drain_forfeits (n\<lparr>m_pending_forfeits := P\<rparr>)"
  define acc where "acc = accept_intents (fst nd) is"
  define t where "t = tick_entry (m_tick r) acc (snd nd)"
  have nd: "snd nd = Q" "m_ticks (fst nd) = m_ticks r"
    using drain_distinct [of n P] assms(2) P pn by (simp_all add: nd_def Q_def)
  have "m_ticks m' = m_ticks r @ [t]"
    using tick_body_record [OF n(2)] nd by (simp add: t_def acc_def nd_def)
  moreover have ft: "tr_forfeits t = Q" by (simp add: t_def tick_entry_def nd)
  moreover have "step X (action_map (tr_actions t)) (r\<lparr>m_pending_forfeits := Q\<rparr>) = Some m'"
  proof -
    have "action_map (tr_actions t) = acc"
      unfolding t_def acc_def by (rule action_map_entry [OF accept_intents_props(1)])
    moreover have "drain_forfeits (n\<lparr>m_pending_forfeits := Q\<rparr>) = nd"
      using drain_filter [of n P] assms(2) P pn by (simp add: nd_def Q_def)
    moreover have "tick_body X (m_tick r) acc nd = tick_body X (m_tick r) is nd"
      by (simp add: tick_body_def acc_def accept_intents_idem)
    ultimately show ?thesis
      using assms(1) n by (simp add: step_live_eq refresh_if_pending nd_def)
  qed
  ultimately show ?thesis unfolding Q_def by auto
qed

lemma queue_forfeits_sorted:
  assumes "m_phase r = Live" "m_pending_forfeits r = []" "sorted_wrt (<) Q" "\<forall>s\<in>set Q. seat_up (m_pawns r) s"
  shows "queue_forfeits Q r = r\<lparr>m_pending_forfeits := Q\<rparr>"
proof -
  have "m_phase m = Live \<Longrightarrow> \<forall>s\<in>set Q. seat_up (m_pawns m) s \<Longrightarrow>
    queue_forfeits Q m = m\<lparr>m_pending_forfeits := fold bs_insert Q (m_pending_forfeits m)\<rparr>" for Q m
    unfolding queue_forfeits_def
    by (induction Q arbitrary: m) (auto simp: forfeit_def pawn_alive_iff)
  with assms bs_collect_sorted [OF assms(3)] show ?thesis by (simp add: bs_collect_def)
qed

subsection \<open>A recorded run can be replayed\<close>

lemma replay_ticks_append:
  "replay_ticks X (ts @ us) m = Option.bind (replay_ticks X ts m) (replay_ticks X us)"
proof (induction ts arbitrary: m)
  case (Cons t ts)
  show ?case
  proof (cases "m_phase m = Live")
    case True
    then show ?thesis
      by (cases "step X (action_map (tr_actions t)) (queue_forfeits (tr_forfeits t) m)") (simp_all add: Cons.IH)
  next
    case False
    then show ?thesis by (cases us) simp_all
  qed
qed simp

lemma burn_countdown_starting:
  "m_phase m = Starting \<Longrightarrow>
   burn_countdown X m = Some (m\<lparr>m_starting_remaining := 0, m_phase := Live\<rparr>)"
proof (induction "m_starting_remaining m" arbitrary: m rule: less_induct)
  case less
  show ?case
  proof (cases "m_starting_remaining m - 1 = 0")
    case True
    then have "step_starting m = m\<lparr>m_starting_remaining := 0, m_phase := Live\<rparr>"
      by (simp add: step_starting_def)
    with less.prems show ?thesis
      by (simp add: burn_countdown.simps [of X m] step_def) (simp add: burn_countdown.simps)
  next
    case False
    then have s: "step_starting m = m\<lparr>m_starting_remaining := m_starting_remaining m - 1\<rparr>"
      using less.prems by (simp add: step_starting_def)
    with less.hyps [of "step_starting m"] less.prems False show ?thesis
      by (simp add: burn_countdown.simps [of X m] step_def)
  qed
qed

definition live_start :: "arena_match \<Rightarrow> arena_match" where
  "live_start m = (if m_phase m = Starting then m\<lparr>m_starting_remaining := 0, m_phase := Live\<rparr> else m)"

lemma burn_countdown_live: "burn_countdown X m = Some (live_start m)"
  by (cases "m_phase m = Starting")
    (simp_all add: live_start_def burn_countdown_starting, simp add: burn_countdown.simps)

text \<open>
  What is known of a match in the middle of a recorded run: before live play it is the fresh match
  with some countdown burnt; afterwards, replaying its own log from the live start leads to it, up to
  the forfeits queued since the last step.
\<close>

definition replayable :: "crates \<Rightarrow> arena_match \<Rightarrow> arena_match \<Rightarrow> bool" where
  "replayable X m0 m \<longleftrightarrow>
     (m_phase m = Starting \<and> m_phase m0 = Starting
        \<and> m\<lparr>m_starting_remaining := 0, m_pending_forfeits := []\<rparr> = m0\<lparr>m_starting_remaining := 0\<rparr>)
     \<or> (m_phase m \<noteq> Starting
        \<and> replay_ticks X (m_ticks m) (live_start m0) = Some (m\<lparr>m_pending_forfeits := []\<rparr>))"

lemma replayable_tick:
  assumes "replayable X m0 m" "match_ok X m" "distinct (map si_seat (m_seats m))"
    and "m_phase m = Live" "step X is m = Some m'"
  shows "replayable X m0 m'"
proof -
  let ?r = "m\<lparr>m_pending_forfeits := []\<rparr>"
  have r: "replay_ticks X (m_ticks m) (live_start m0) = Some ?r"
    using assms(1,4) by (simp add: replayable_def)
  have d: "distinct (map p_seat (m_pawns ?r))"
    using assms(2,3) seated_seats by (fastforce simp: match_ok_def)
  have P: "sorted_wrt (<) (m_pending_forfeits m)" using assms(2) by (simp add: match_ok_def)
  from step_replays [of ?r "m_pending_forfeits m" X "is" m'] d P assms(4,5) obtain t where
    t: "m_ticks m' = m_ticks m @ [t]" "tr_forfeits t = filter (seat_up (m_pawns m)) (m_pending_forfeits m)"
      "step X (action_map (tr_actions t)) (?r\<lparr>m_pending_forfeits := tr_forfeits t\<rparr>) = Some m'"
    by auto
  have "queue_forfeits (tr_forfeits t) ?r = ?r\<lparr>m_pending_forfeits := tr_forfeits t\<rparr>"
    using assms(4) P t(2) by (intro queue_forfeits_sorted) (auto simp: sorted_wrt_filter)
  with t r assms(4) have "replay_ticks X (m_ticks m') (live_start m0) = Some m'"
    by (simp add: replay_ticks_append)
  moreover have "m'\<lparr>m_pending_forfeits := []\<rparr> = m'"
    using step_live_frame(9) [OF assms(5,4)] by (metis arena_match.surjective arena_match.update_convs(16))
  moreover have "m_phase m' \<noteq> Starting"
    using step_live_ok [OF assms(2,5,4)] step_live_frame(8) [OF assms(5,4)] by (auto simp: match_ok_def)
  ultimately show ?thesis by (simp add: replayable_def)
qed

lemma replayable_step:
  assumes "match_step X m m'" "replayable X m0 m" "match_ok X m" "distinct (map si_seat (m_seats m))"
    "m_ticks m0 = []"
  shows "replayable X m0 m'"
  using assms(1)
proof cases
  case (Forfeit s)
  with assms(2) show ?thesis by (auto simp: replayable_def)
next
  case Countdown
  let ?c = "\<lambda>m. m\<lparr>m_starting_remaining := 0, m_pending_forfeits := []\<rparr>"
  have m0: "m_phase m0 = Starting" "?c m = m0\<lparr>m_starting_remaining := 0\<rparr>"
    using assms(2) Countdown(2) by (auto simp: replayable_def)
  have ticks: "m_ticks m = []" using arg_cong [OF m0(2), of m_ticks] assms(5) by simp
  show ?thesis
  proof (cases "m_starting_remaining m - 1 = 0")
    case True
    then have m': "m' = m\<lparr>m_starting_remaining := 0, m_phase := Live\<rparr>"
      using Countdown by (simp add: step_starting_def)
    have "m'\<lparr>m_pending_forfeits := []\<rparr> = (?c m)\<lparr>m_phase := Live\<rparr>" by (simp add: m')
    also have "\<dots> = live_start m0" using m0 by (simp add: live_start_def)
    finally show ?thesis using ticks by (simp add: replayable_def m')
  next
    case False
    then have m': "m' = m\<lparr>m_starting_remaining := m_starting_remaining m - 1\<rparr>"
      using Countdown by (simp add: step_starting_def)
    then show ?thesis using m0 Countdown(2) by (simp add: replayable_def)
  qed
next
  case (Tick "is")
  with replayable_tick assms show ?thesis by blast
qed (use assms(2) in simp)

definition same_setup :: "arena_match \<Rightarrow> arena_match \<Rightarrow> bool" where
  "same_setup m m' \<longleftrightarrow> m_match_id m' = m_match_id m \<and> m_config m' = m_config m \<and> m_rules m' = m_rules m
     \<and> m_seats m' = m_seats m \<and> m_blockers m' = m_blockers m \<and> m_pickup_config m' = m_pickup_config m
     \<and> m_seed m' = m_seed m"

lemma match_step_setup: "match_step X m m' \<Longrightarrow> same_setup m m'"
  by (erule match_step_elim) (auto simp: same_setup_def step_starting_def Let_def step_live_frame)

definition recorded :: "crates \<Rightarrow> arena_match \<Rightarrow> arena_match \<Rightarrow> bool" where
  "recorded X m0 m \<longleftrightarrow> match_ok X m \<and> replayable X m0 m \<and> same_setup m0 m
     \<and> distinct (map si_seat (m_seats m0)) \<and> m_ticks m0 = []"

interpretation recorded_run: panic_machine "apply_event X" "recorded X m0" for X m0
proof
  fix m e m'
  assume r: "recorded X m0 m" and "apply_event X e m = Some m'"
  then have s: "match_step X m m'" by (simp add: apply_event_step)
  from r match_step_ok [OF s] replayable_step [OF s, of m0] match_step_setup [OF s]
  show "recorded X m0 m'" by (auto simp: recorded_def same_setup_def)
qed

lemma fresh_recorded:
  assumes "new_with_pickups i c r ss bs pks sd = Some m0" "0 < r_start_health r" "distinct (map si_seat ss)"
  shows "recorded X m0 m0"
  using fresh_match_ok [OF assms(1,2)] assms(3) new_with_pickups_fresh [OF assms(1)]
  by (auto simp: recorded_def replayable_def same_setup_def live_start_def)

subsection \<open>The checks accept what a run records\<close>

lemma check_actions_ok:
  "sorted_wrt (<) (map sa_seat as) \<Longrightarrow> set (map sa_seat as) \<subseteq> set R \<Longrightarrow>
   (\<And>p. prev = Some p \<Longrightarrow> \<forall>a\<in>set as. p < sa_seat a) \<Longrightarrow> check_actions R t prev as = None"
  by (induction R t prev as rule: check_actions.induct) (auto split: option.splits)

lemma check_forfeits_ok:
  "sorted_wrt (<) ss \<Longrightarrow> set ss \<subseteq> set R \<Longrightarrow>
   (\<And>p. prev = Some p \<Longrightarrow> \<forall>s\<in>set ss. p < s) \<Longrightarrow> check_forfeits R t prev ss = None"
  by (induction R t prev ss rule: check_forfeits.induct) (auto split: option.splits)

lemma check_ticks_ok:
  "\<forall>k<length ts. tick_ok (set R) (i + k) (ts ! k) \<Longrightarrow> check_ticks R i ts = None"
proof (induction R i ts rule: check_ticks.induct)
  case (2 R i tr trs)
  have "tick_ok (set R) i tr" using 2(2) by (metis add.right_neutral length_greater_0_conv list.discI nth_Cons_0)
  moreover have "\<forall>k<length trs. tick_ok (set R) (i + 1 + k) (trs ! k)" using 2(2) by auto
  ultimately show ?case
    using 2(1) check_actions_ok [of "tr_actions tr" R None] check_forfeits_ok [of "tr_forfeits tr" R None]
    by (auto simp: tick_ok_def)
qed simp

lemma check_blockers_None:
  "check_blockers i bs = None \<longleftrightarrow>
   (\<forall>b\<in>set bs. vx (b_min b) \<le> vx (b_max b) \<and> vy (b_min b) \<le> vy (b_max b))"
  by (induction i bs rule: check_blockers.induct) auto

definition hostable :: "match_config \<Rightarrow> rules \<Rightarrow> seat_info list \<Rightarrow> blocker list \<Rightarrow> pickup_spawn list \<Rightarrow> bool" where
  "hostable c r ss bs pks \<longleftrightarrow>
     0 < r_start_health r \<and> ss \<noteq> [] \<and> distinct (map si_seat ss) \<and> cfg_seats c = length ss
     \<and> length ss \<le> MAX_REPLAY_SEATS \<and> r_starting_ticks r \<le> MAX_REPLAY_STARTING_TICKS
     \<and> length bs \<le> MAX_REPLAY_BLOCKERS \<and> length pks \<le> MAX_REPLAY_PICKUPS
     \<and> 0 \<le> vx (bounds c) \<and> 0 \<le> vy (bounds c) \<and> 0 \<le> r_spawn_radius r \<and> 0 \<le> r_spawn_jitter r
     \<and> check_blockers 0 bs = None"

lemma to_record_ended:
  assumes "match_ok X m"
  shows "to_record m = Some rec \<longleftrightarrow> m_phase m = Ended \<and> rec = \<lparr>rec_config = m_config m,
     rec_rules = m_rules m, rec_replay = build_replay m, rec_result = build_result X m\<rparr>"
proof -
  have "m_result m = (if m_phase m = Ended then Some (build_result X m) else None)"
    using assms by (simp add: match_ok_def)
  then show ?thesis by (auto simp: to_record_def)
qed

lemma check_record_ok:
  assumes "hostable c r ss bs pks" "match_ok X m" "length (m_ticks m) \<le> MAX_REPLAY_TICKS"
    "m_config m = c" "m_rules m = r" "m_seats m = ss" "m_blockers m = bs" "m_pickup_config m = pks"
    "to_record m = Some rec"
  shows "check_record rec = None"
proof -
  have rec: "rec = \<lparr>rec_config = c, rec_rules = r, rec_replay = build_replay m, rec_result = build_result X m\<rparr>"
    using assms to_record_ended [OF assms(2)] by simp
  have "check_ticks (map si_seat ss) 0 (m_ticks m) = None"
    using assms(2,6) by (intro check_ticks_ok) (auto simp: match_ok_def roster_def)
  with assms show ?thesis
    by (simp add: rec check_record_def Let_def check_version_def build_replay_def build_result_def hostable_def)
qed

lemma recorded_match_verifies:
  assumes "new_with_pickups i c r ss bs pks sd = Some m0" "hostable c r ss bs pks"
    and "foldM (apply_event X) es m0 = Some m" "length (m_ticks m) \<le> MAX_REPLAY_TICKS"
    and "to_record m = Some rec"
  shows "verify X rec = Some (Inr (rec_result rec))"
proof -
  note f = new_with_pickups_fresh [OF assms(1)]
  have "recorded X m0 m"
    by (rule recorded_run.run_keeps [OF fresh_recorded [OF assms(1)] assms(3)])
      (use assms(2) in \<open>auto simp: hostable_def\<close>)
  then have ok: "match_ok X m" and rp: "replayable X m0 m" and ss: "same_setup m0 m"
    by (auto simp: recorded_def)
  have ended: "m_phase m = Ended" and rec: "rec = \<lparr>rec_config = c, rec_rules = r,
    rec_replay = build_replay m, rec_result = build_result X m\<rparr>"
    using assms(5) to_record_ended [OF ok] ss f by (simp_all add: same_setup_def)
  have "check_record rec = None"
    using check_record_ok [OF assms(2) ok assms(4) _ _ _ _ _ assms(5)] ss f by (simp add: same_setup_def)
  moreover have "replay_match X m0 (build_replay m) = Some (m\<lparr>m_pending_forfeits := []\<rparr>)"
    using rp ended by (simp add: replay_match_def burn_countdown_live replayable_def build_replay_def)
  moreover have "m_result m = Some (build_result X m)" using ok ended by (simp add: match_ok_def)
  ultimately show ?thesis
    using assms(1) ss f
    by (simp add: verify_def rec build_replay_def same_setup_def compare_result_def Let_def)
qed

text \<open>
  Property C1. A verifier accepts every honest record. Host a match with a valid setup, within the verifier's own limits
  (seats, countdown, blockers and pickups, and ticks logged), drive it with any interleaving of forfeits and
  steps, and take its record once it has ended: re-running the log from the seed terminates without a
  panic and reproduces the very same state, so verification returns the recorded result itself.
\<close>

theorem verify_accepts_recorded_match:
  assumes "new_with_pickups i c r ss bs pks sd = Some m0" "hostable c r ss bs pks"
    and "foldM (apply_event X) es m0 = Some m" "length (m_ticks m) \<le> MAX_REPLAY_TICKS"
    and "to_record m = Some rec"
  shows "verify X rec = Some (Inr (rec_result rec))"
  using recorded_match_verifies [OF assms] .

definition duel_record :: match_record where
  "duel_record = \<lparr>rec_config = m_config duel_end, rec_rules = m_rules duel_end,
     rec_replay = build_replay duel_end, rec_result = the (m_result duel_end)\<rparr>"

lemma duel_end_result: "m_result duel_end = Some (the (m_result duel_end))" "length (m_ticks duel_end) = 1"
  by (simp_all add: duel_end_def apply_event_def forfeit_def duel_start_def duel_pawn_def pawn_alive_def
      duel_rules_def default_rules_defs step_defs ck_u_def upt_rec bs_collect_def vec2_zero_def)

lemma duel_record: "to_record duel_end = Some duel_record"
  using duel_end_result(1) by (auto simp: to_record_def duel_record_def)

lemma duel_hostable: "hostable duel_config duel_rules duel_seats [] []"
  by (simp add: hostable_def duel_config_def duel_rules_def default_rules_defs duel_seats_def
      MAX_REPLAY_SEATS_def MAX_REPLAY_STARTING_TICKS_def)

theorem verify_accepts_recorded_match_witness:
  "hostable duel_config duel_rules duel_seats [] []
   \<and> foldM (apply_event toy_crates) [Ev_Forfeit 1, Ev_Step []] duel_start = Some duel_end
   \<and> to_record duel_end = Some duel_record
   \<and> verify toy_crates duel_record = Some (Inr (rec_result duel_record))"
  using verify_accepts_recorded_match [OF duel_start_new duel_hostable duel_end_run(1) _ duel_record]
    duel_hostable duel_end_run(1) duel_record duel_end_result(2)
  by (simp add: MAX_REPLAY_TICKS_def)

subsection \<open>What an accepted record proves\<close>

lemma forfeit_step: "match_step X m (fst (forfeit s m))"
  using apply_event_step [of X "Ev_Forfeit s" m] by (simp add: apply_event_def)

lemma step_step: "step X is m = Some m' \<Longrightarrow> match_step X m m'"
  using apply_event_step [of X "Ev_Step is" m] by (simp add: apply_event_def)

lemma queue_forfeits_keeps:
  assumes "\<And>m m'. match_step X m m' \<Longrightarrow> P m \<Longrightarrow> P m'"
  shows "P m \<Longrightarrow> P (queue_forfeits ss m)"
  unfolding queue_forfeits_def by (induction ss arbitrary: m) (auto intro: assms forfeit_step)

lemma replay_match_keeps:
  assumes "\<And>m m'. match_step X m m' \<Longrightarrow> P m \<Longrightarrow> P m'" "P m" "replay_match X m rp = Some m'"
  shows "P m'"
proof -
  have burn: "P m \<Longrightarrow> burn_countdown X m = Some n \<Longrightarrow> P n" for m n
  proof (induction "if m_phase m = Starting then Suc (m_starting_remaining m) else 0" arbitrary: m rule: less_induct)
    case less
    show ?case
    proof (cases "m_phase m = Starting")
      case True
      with less.prems(2) have "burn_countdown X (step_starting m) = Some n"
        by (simp add: burn_countdown.simps [of X m] step_def)
      moreover have "P (step_starting m)" using assms(1) Countdown [OF True] less.prems(1) by blast
      ultimately show ?thesis using less.hyps [of "step_starting m"] True step_starting_measure [of m] by simp
    qed (use less.prems in \<open>simp add: burn_countdown.simps\<close>)
  qed
  have ticks: "P m \<Longrightarrow> replay_ticks X ts m = Some n \<Longrightarrow> P n" for ts m n
  proof (induction ts arbitrary: m)
    case (Cons t ts)
    show ?case
    proof (cases "m_phase m = Live")
      case True
      with Cons.prems obtain u where
        "step X (action_map (tr_actions t)) (queue_forfeits (tr_forfeits t) m) = Some u"
        "replay_ticks X ts u = Some n" by (auto simp: panic_simps)
      moreover have "P (queue_forfeits (tr_forfeits t) m)"
        by (rule queue_forfeits_keeps [of X P, OF assms(1) Cons.prems(1)])
      ultimately show ?thesis using Cons.IH [of u] step_step assms(1) by blast
    qed (use Cons.prems in simp)
  qed simp
  from assms(3) show ?thesis
    using burn [OF assms(2)] ticks by (auto simp: replay_match_def panic_simps)
qed

definition result_honest :: "crates \<Rightarrow> uuid \<Rightarrow> arena_match \<Rightarrow> bool" where
  "result_honest X i m \<longleftrightarrow>
     m_match_id m = i \<and> m_result m = (if m_phase m = Ended then Some (build_result X m) else None)"

lemma result_honest_step:
  assumes "match_step X m m'" "result_honest X i m"
  shows "result_honest X i m'"
  using assms(1)
proof cases
  case (Tick "is")
  from Tick(2,1) obtain mem n ds acc u where
    1: "drain_forfeits (m\<lparr>m_seat_memory := mem\<rparr>) = (n, ds)" "run_tick acc n = Some u"
      "m' = maybe_finish X (u\<lparr>m_ticks := m_ticks u @ [tick_entry (m_tick m) acc ds], m_tick := m_tick m + 1\<rparr>)"
    by (rule step_live_cases)
  have "m_phase u = Live" "m_result u = None"
    using run_tick_evolves [OF 1(2)] 1(1) Tick(1) assms(2)
    by (auto simp: step_frame drain_forfeits_def result_honest_def split: prod.splits)
  with maybe_finish_result [of "u\<lparr>m_ticks := m_ticks u @ [tick_entry (m_tick m) acc ds], m_tick := m_tick m + 1\<rparr>" X]
    step_live_frame(1) [OF Tick(2,1)] assms(2)
  show ?thesis by (auto simp: result_honest_def 1(3))
qed (use assms(2) in \<open>auto simp: result_honest_def step_starting_def Let_def\<close>)

text \<open>
  Property C4. An accepted record cannot lie. When verification succeeds, the result it returns is the
  recorded result in full, the recorded rules are the ones the log commits to, the recorded
  configuration is the log's, and a fresh match built from the record and fed its log ends with exactly
  that result, whose hash is the digest of the log the re-run produced.
\<close>

theorem verify_sound:
  assumes "verify X rec = Some (Inr res)"
  shows "res = rec_result rec
    \<and> rr_rules_commit (rec_replay rec) = canonical_encoding (rec_rules rec)
    \<and> rr_config (rec_replay rec) = rec_config rec
    \<and> (\<exists>fresh rerun. new_with_pickups (rr_match_id (rec_replay rec)) (rec_config rec) (rec_rules rec)
          (rr_seats (rec_replay rec)) (rr_blockers (rec_replay rec)) (rr_pickups (rec_replay rec))
          (rr_seed (rec_replay rec)) = Some fresh
        \<and> replay_match X fresh (rec_replay rec) = Some rerun \<and> m_result rerun = Some res
        \<and> res = build_result X rerun)"
proof -
  let ?rp = "rec_replay rec"
  obtain fresh rerun rep where
    1: "check_record rec = None"
      "new_with_pickups (rr_match_id ?rp) (rec_config rec) (rec_rules rec) (rr_seats ?rp)
         (rr_blockers ?rp) (rr_pickups ?rp) (rr_seed ?rp) = Some fresh"
      "replay_match X fresh ?rp = Some rerun" "m_result rerun = Some rep" "compare_result rec rep = Inr res"
    using assms by (auto simp: verify_def Let_def panic_simps split: option.splits)
  have "mr_protocol_version (rec_result rec) = PROTOCOL_VERSION" "rr_match_id ?rp = mr_match_id (rec_result rec)"
    using 1(1) by (auto simp: check_record_def Let_def check_version_def split: if_splits)
  moreover have "rep = res" "mr_outcomes res = mr_outcomes (rec_result rec)"
    "mr_final_tick res = mr_final_tick (rec_result rec)" "mr_replay_hash res = mr_replay_hash (rec_result rec)"
    "rr_rules_commit ?rp = canonical_encoding (rec_rules rec)" "rr_config ?rp = rec_config rec"
    using 1(5) by (auto simp: compare_result_def Let_def split: if_splits)
  moreover have "result_honest X (rr_match_id ?rp) rerun"
    by (rule replay_match_keeps [OF _ _ 1(3)])
      (use new_with_pickups_fresh [OF 1(2)] result_honest_step in \<open>auto simp: result_honest_def\<close>)
  then have "rep = build_result X rerun" "m_match_id rerun = rr_match_id ?rp"
    using 1(4) by (auto simp: result_honest_def split: if_splits)
  ultimately show ?thesis
    using 1(2-4) by (auto simp: build_result_def intro!: match_result.equality)
qed

theorem verify_sound_witness:
  "verify toy_crates duel_record = Some (Inr (rec_result duel_record))
   \<and> rr_rules_commit (rec_replay duel_record) = canonical_encoding (rec_rules duel_record)
   \<and> (\<exists>fresh rerun. replay_match toy_crates fresh (rec_replay duel_record) = Some rerun
        \<and> m_result rerun = Some (rec_result duel_record))"
proof -
  have v: "verify toy_crates duel_record = Some (Inr (rec_result duel_record))"
    by (rule recorded_match_verifies [OF duel_start_new duel_hostable duel_end_run(1) _ duel_record])
      (simp add: duel_end_result(2) MAX_REPLAY_TICKS_def)
  from verify_sound [OF v] v show ?thesis by blast
qed

subsection \<open>What verification does not see\<close>

definition reclamp :: "tick_record \<Rightarrow> tick_record" where
  "reclamp t = t\<lparr>tr_actions := map (\<lambda>a. a\<lparr>sa_intent := clamped (sa_intent a)\<rparr>) (tr_actions t)\<rparr>"

definition reclamped :: "match_record \<Rightarrow> match_record" where
  "reclamped r = r\<lparr>rec_replay := (rec_replay r)\<lparr>rr_ticks := map reclamp (rr_ticks (rec_replay r))\<rparr>\<rparr>"

lemma bt_insert_map: "map (map_prod id f) (bt_insert k v m) = bt_insert k (f v) (map (map_prod id f) m)"
  by (induction k v m rule: bt_insert.induct) auto

lemma bt_collect_map: "bt_collect (map (map_prod id f) xs) = map (map_prod id f) (bt_collect xs)"
proof -
  have "fold (\<lambda>(k, v). bt_insert k v) (map (map_prod id f) xs) (map (map_prod id f) m)
      = map (map_prod id f) (fold (\<lambda>(k, v). bt_insert k v) xs m)" for m
    by (induction xs arbitrary: m) (auto simp: bt_insert_map [symmetric])
  from this [of "[]"] show ?thesis by (simp add: bt_collect_def)
qed

lemma accept_reclamp:
  "accept_intents m (action_map (tr_actions (reclamp t))) = accept_intents m (action_map (tr_actions t))"
proof -
  let ?xs = "map (\<lambda>a. (sa_seat a, sa_intent a)) (tr_actions t)"
  have "action_map (tr_actions (reclamp t)) = map (map_prod id clamped) (action_map (tr_actions t))"
    by (simp add: action_map_def reclamp_def bt_collect_map [symmetric] comp_def)
  moreover have "map (\<lambda>(seat, intent). (seat, clamped intent))
      (filter (\<lambda>(seat, _). pawn_alive m seat) (map (map_prod id clamped) ys))
    = map (\<lambda>(seat, intent). (seat, clamped intent)) (filter (\<lambda>(seat, _). pawn_alive m seat) ys)" for ys
    by (induction ys) auto
  ultimately show ?thesis by (simp add: accept_intents_def)
qed

lemma step_reclamp:
  "step X (action_map (tr_actions (reclamp t))) m = step X (action_map (tr_actions t)) m"
  unfolding step_def accept_reclamp ..

lemma replay_ticks_reclamp: "replay_ticks X (map reclamp ts) m = replay_ticks X ts m"
proof (induction ts arbitrary: m)
  case (Cons t ts)
  have "tr_forfeits (reclamp t) = tr_forfeits t" by (simp add: reclamp_def)
  moreover have "replay_ticks X (map reclamp ts) = replay_ticks X ts" by (rule ext) (rule Cons.IH)
  ultimately show ?case by (simp add: step_reclamp)
qed simp

lemma reclamped_simps:
  "rr_ticks (rec_replay (reclamped r)) = map reclamp (rr_ticks (rec_replay r))"
  "rr_seats (rec_replay (reclamped r)) = rr_seats (rec_replay r)"
  "rr_blockers (rec_replay (reclamped r)) = rr_blockers (rec_replay r)"
  "rr_pickups (rec_replay (reclamped r)) = rr_pickups (rec_replay r)"
  "rr_match_id (rec_replay (reclamped r)) = rr_match_id (rec_replay r)"
  "rr_seed (rec_replay (reclamped r)) = rr_seed (rec_replay r)"
  "rr_protocol_version (rec_replay (reclamped r)) = rr_protocol_version (rec_replay r)"
  "rr_rules_commit (rec_replay (reclamped r)) = rr_rules_commit (rec_replay r)"
  "rr_config (rec_replay (reclamped r)) = rr_config (rec_replay r)"
  "rec_config (reclamped r) = rec_config r" "rec_rules (reclamped r) = rec_rules r"
  "rec_result (reclamped r) = rec_result r"
  by (simp_all add: reclamped_def)

lemma check_actions_reclamp:
  "check_actions R t prev (map (\<lambda>a. a\<lparr>sa_intent := clamped (sa_intent a)\<rparr>) as) = check_actions R t prev as"
proof (induction R t prev as rule: check_actions.induct)
  case (2 R t prev a as)
  have "sa_seat (a\<lparr>sa_intent := clamped (sa_intent a)\<rparr>) = sa_seat a" by simp
  with 2 show ?case by (cases prev) auto
qed simp

lemma check_ticks_reclamp: "check_ticks R i (map reclamp ts) = check_ticks R i ts"
  by (induction R i ts rule: check_ticks.induct) (simp_all add: reclamp_def check_actions_reclamp split: option.splits)

text \<open>
  Verification is blind to the magnitude of a recorded move: a record whose log holds
  over-long move vectors is judged exactly as the record with those vectors clamped, because the re-run
  clamps every intent before it logs it. Such a record is accepted although its own log is not the
  log its hash commits to.
\<close>

theorem verify_clamps_log: "verify X (reclamped r) = verify X r"
proof -
  have a: "check_record (reclamped r) = check_record r"
    unfolding check_record_def Let_def reclamped_simps check_ticks_reclamp length_map ..
  have b: "replay_match X m (rec_replay (reclamped r)) = replay_match X m (rec_replay r)" for m
    unfolding replay_match_def reclamped_simps replay_ticks_reclamp ..
  have c: "compare_result (reclamped r) = compare_result r"
    unfolding compare_result_def reclamped_simps ..
  show ?thesis unfolding verify_def Let_def a b c reclamped_simps ..
qed

subsection \<open>A record that panics the verifier\<close>

text \<open>
  The roster check asks for distinct seats only, but the perception memory is indexed by the seat
  number: a roster with a gap and a rule set with a memory window reach an out-of-range index.
\<close>

definition sparse_seats :: "seat_info list" where
  "sparse_seats = [\<lparr>si_seat = 0, si_team = 0, si_controller = ''human''\<rparr>,
                   \<lparr>si_seat = 5, si_team = 1, si_controller = ''agent''\<rparr>]"

definition sparse_record :: match_record where
  "sparse_record = \<lparr>rec_config = duel_config, rec_rules = duel_rules\<lparr>r_perception_memory_ticks := 1\<rparr>,
     rec_replay = \<lparr>rr_protocol_version = 1, rr_match_id = [], rr_seed = 7, rr_seats = sparse_seats,
       rr_blockers = [], rr_pickups = [], rr_rules_commit = [], rr_config = duel_config,
       rr_ticks = [\<lparr>tr_tick = 0, tr_actions = [], tr_forfeits = []\<rparr>]\<rparr>,
     rec_result = \<lparr>mr_protocol_version = 1, mr_match_id = [], mr_final_tick = 1, mr_outcomes = [],
       mr_replay_hash = []\<rparr>\<rparr>"

text \<open>
  Verification can panic: the record with seats 0 and 5 and a perception memory of one
  tick passes every structural check, and its re-run indexes the memory of two seats at position 5.
\<close>

theorem verify_panics_on_sparse_roster: "check_record sparse_record = None \<and> verify X sparse_record = None"
proof
  show c: "check_record sparse_record = None"
    by (simp add: check_record_def sparse_record_def sparse_seats_def duel_config_def duel_rules_def
        default_rules_defs check_version_def PROTOCOL_VERSION_def MAX_REPLAY_SEATS_def MAX_REPLAY_TICKS_def
        MAX_REPLAY_STARTING_TICKS_def)
  have "replay_match X m (rec_replay sparse_record) = None"
    if "new_with_pickups [] duel_config (duel_rules\<lparr>r_perception_memory_ticks := 1\<rparr>) sparse_seats [] [] 7 = Some m" for m
  proof -
    note f = new_with_pickups_fresh [OF that]
    obtain p q where pq: "m_pawns m = [p, q]" "p_alive p" "p_alive q" "p_seat p = 0" "p_seat q = 5"
      using f(1) by (auto simp: sparse_seats_def list_all2_Cons1 fresh_pawn_def)
    have "m_phase m = Live" "m_tick m = 0" using f by (simp_all add: duel_rules_def default_rules_def)
    moreover have "refresh_perception_memory 0 m = None"
      using pq f(14) by (simp add: refresh_perception_memory_def refresh_seat_def Let_def sparse_seats_def)
    ultimately show ?thesis
      using f(4)
      by (simp add: replay_match_def burn_countdown.simps sparse_record_def queue_forfeits_def step_def)
  qed
  with c show "verify X sparse_record = None"
    unfolding verify_def
    by (cases "new_with_pickups [] duel_config (duel_rules\<lparr>r_perception_memory_ticks := 1\<rparr>) sparse_seats [] [] 7")
      (simp_all add: sparse_record_def)
qed

end
