(* ===== verification/Driver.thy ===== *)
theory Driver
  imports Replay
begin

section \<open>The match driver (\<^verbatim>\<open>src/arena/core/src/lib.rs\<close>)\<close>

text \<open>
  \<^verbatim>\<open>run_match\<close>: each tick every seat is observed, its policy answers, the answer passes the action
  gate, and the match steps. A policy is the caller's code: \<open>act\<close> maps its state and an observation to
  an optional action and a new state. The live loop terminates because each step advances the tick and
  a match still live is below its tick cap.
\<close>

definition drive_seat ::
  "('p \<Rightarrow> observation \<Rightarrow> action option \<times> 'p) \<Rightarrow> arena_match \<Rightarrow> nat \<times> seat_id
   \<Rightarrow> (seat_id, action_intent) btree \<times> 'p list \<Rightarrow> ((seat_id, action_intent) btree \<times> 'p list) option" where
  "drive_seat act m is st = (case is of (idx, seat) \<Rightarrow> case st of (intents, ps) \<Rightarrow> do {
     obs \<leftarrow> observe m seat;
     let (a, p) = act (ps ! idx) obs;
     Some (case a of
             None \<Rightarrow> intents
           | Some a \<Rightarrow> (case ingest m seat a of Inl _ \<Rightarrow> intents | Inr intent \<Rightarrow> bt_insert seat intent intents),
           ps[idx := p]) })"

definition gather_intents ::
  "('p \<Rightarrow> observation \<Rightarrow> action option \<times> 'p) \<Rightarrow> seat_id list \<Rightarrow> arena_match \<Rightarrow> 'p list
   \<Rightarrow> ((seat_id, action_intent) btree \<times> 'p list) option" where
  "gather_intents act seats m ps = foldM (drive_seat act m) (enumerate 0 seats) ([], ps)"

lemma step_live_cap:
  assumes "step X is m = Some m'" "m_phase m = Live" "m_phase m' = Live"
  shows "m_tick m' = m_tick m + 1 \<and> m_config m' = m_config m \<and> m_tick m' < max_ticks (m_config m)"
proof -
  from assms(1,2) obtain mem n ds acc u where
    1: "m' = maybe_finish X (u\<lparr>m_ticks := m_ticks u @ [tick_entry (m_tick m) acc ds], m_tick := m_tick m + 1\<rparr>)"
    by (rule step_live_cases)
  note f = step_live_frame [OF assms(1,2)]
  have "m_config u = m_config m" using f(2) by (simp add: 1)
  with assms(3) f show ?thesis by (auto simp: 1 maybe_finish_def split: if_splits)
qed

function live_loop ::
  "crates \<Rightarrow> ('p \<Rightarrow> observation \<Rightarrow> action option \<times> 'p) \<Rightarrow> seat_id list \<Rightarrow> arena_match \<Rightarrow> 'p list
   \<Rightarrow> arena_match option" where
  "live_loop X act seats m ps =
     (if m_phase m = Live
      then (case gather_intents act seats m ps of
              None \<Rightarrow> None
            | Some (intents, ps') \<Rightarrow>
                (case step X intents m of
                   None \<Rightarrow> None
                 | Some m' \<Rightarrow> live_loop X act seats m' ps'))
      else Some m)"
  by pat_completeness auto
termination
proof (relation "measure (\<lambda>(X, act, seats, m, ps). if m_phase m = Live then Suc (max_ticks (m_config m) - m_tick m) else 0)",
    goal_cases)
  case (2 X act seats m ps ab intents ps' m')
  then have "m_phase m' = Live \<Longrightarrow> max_ticks (m_config m') - m_tick m' < max_ticks (m_config m) - m_tick m"
    using step_live_cap [of X intents m m'] by (auto simp: diff_less_mono2)
  with 2 show ?case by auto
qed simp

declare live_loop.simps [simp del]

definition run_match ::
  "crates \<Rightarrow> ('p \<Rightarrow> observation \<Rightarrow> action option \<times> 'p) \<Rightarrow> arena_match \<Rightarrow> 'p list \<Rightarrow> arena_match option" where
  "run_match X act m policies =
     (let seat_ids = map si_seat (m_seats m) in
      if length policies \<noteq> length seat_ids then None
      else do { m \<leftarrow> burn_countdown X m; live_loop X act seat_ids m policies })"

subsection \<open>A driven match ends, and its record verifies\<close>

lemma live_loop_run:
  "live_loop X act seats m ps = Some m' \<Longrightarrow> m_phase m \<noteq> Starting \<Longrightarrow> match_ok X m \<Longrightarrow>
   (\<exists>es. foldM (apply_event X) es m = Some m') \<and> m_phase m' = Ended \<and> match_ok X m'"
proof (induction X act seats m ps arbitrary: m' rule: live_loop.induct)
  case (1 X act seats m ps)
  show ?case
  proof (cases "m_phase m = Live")
    case False
    with "1.prems" have "m' = m" by (simp add: live_loop.simps [of X act seats m])
    with False "1.prems" show ?thesis
      by (cases "m_phase m") (auto simp: match_ok_def intro!: exI [of _ "[]"])
  next
    case True
    obtain is' ps' u where g: "gather_intents act seats m ps = Some (is', ps')" "step X is' m = Some u"
      "live_loop X act seats u ps' = Some m'"
      using "1.prems"(1) True by (auto simp: live_loop.simps [of X act seats m] split: option.splits)
    have u: "match_ok X u" using step_live_ok [OF "1.prems"(3) g(2) True] .
    moreover have "m_phase u \<noteq> Starting"
      using u step_live_frame(8) [OF g(2) True] by (auto simp: match_ok_def)
    ultimately obtain es where "foldM (apply_event X) es u = Some m'" "m_phase m' = Ended" "match_ok X m'"
      using "1.IH" [OF True g(1) refl g(2) g(3)] by blast
    moreover have "apply_event X (Ev_Step is') m = Some u" using g(2) by (simp add: apply_event_def)
    ultimately show ?thesis by (intro conjI exI [of _ "Ev_Step is' # es"]) auto
  qed
qed

lemma burn_countdown_run: "\<exists>es. foldM (apply_event X) es m = burn_countdown X m"
proof (induction "m_starting_remaining m" arbitrary: m rule: less_induct)
  case less
  show ?case
  proof (cases "m_phase m = Starting")
    case False
    then show ?thesis by (intro exI [of _ "[]"]) (simp add: burn_countdown.simps)
  next
    case True
    let ?n = "step_starting m"
    have b: "burn_countdown X m = burn_countdown X ?n"
      using True by (simp add: burn_countdown.simps [of X m] step_def)
    have ev: "apply_event X (Ev_Step []) m = Some ?n" using True by (simp add: apply_event_def step_def)
    show ?thesis
    proof (cases "m_phase ?n = Starting")
      case True': True
      with less [of ?n] step_starting_measure [of m] obtain es where
        "foldM (apply_event X) es ?n = burn_countdown X ?n" by blast
      with b ev show ?thesis by (intro exI [of _ "Ev_Step [] # es"]) simp
    next
      case False
      with b ev show ?thesis by (intro exI [of _ "[Ev_Step []]"]) (simp add: burn_countdown.simps [of X ?n])
    qed
  qed
qed

lemma run_match_run:
  assumes "run_match X act m ps = Some m'" "match_ok X m"
  shows "\<exists>es. foldM (apply_event X) es m = Some m'" "m_phase m' = Ended" "match_ok X m'"
proof -
  obtain n where n: "burn_countdown X m = Some n" "live_loop X act (map si_seat (m_seats m)) n ps = Some m'"
    using assms(1) by (auto simp: run_match_def Let_def panic_simps split: if_splits)
  obtain es where es: "foldM (apply_event X) es m = Some n" using burn_countdown_run [of X m] n(1) by auto
  have ok: "match_ok X n" by (rule match_machine.run_keeps [OF assms(2) es])
  have "m_phase n \<noteq> Starting" using n(1) by (auto simp: burn_countdown_live live_start_def split: if_splits)
  from live_loop_run [OF n(2) this ok] obtain fs where
    "foldM (apply_event X) fs n = Some m'" "m_phase m' = Ended" "match_ok X m'" by blast
  with es show "\<exists>es. foldM (apply_event X) es m = Some m'" "m_phase m' = Ended" "match_ok X m'"
    by (auto simp: foldM_append intro!: exI [of _ "es @ fs"])
qed

lemma run_match_recorded:
  assumes "new_with_pickups i c r ss bs pks sd = Some m0" "hostable c r ss bs pks" "run_match X act m0 policies = Some m"
  shows "recorded X m0 m"
proof -
  have ok0: "match_ok X m0" using fresh_match_ok [OF assms(1)] assms(2) by (simp add: hostable_def)
  obtain es where es: "foldM (apply_event X) es m0 = Some m" using run_match_run(1) [OF assms(3) ok0] by blast
  show ?thesis
    by (rule recorded_run.run_keeps [OF fresh_recorded [OF assms(1)] es]) (use assms(2) in \<open>auto simp: hostable_def\<close>)
qed

text \<open>
  Whatever the policies answer, a hosted match that is driven without a panic always ends,
  within the tick cap (a match with cap zero still plays one tick), and the record it leaves behind
  passes verification. The loop itself terminates for every policy and every match.
\<close>

theorem run_match_ends:
  assumes "new_with_pickups i c r ss bs pks sd = Some m0" "hostable c r ss bs pks"
    and "max_ticks c \<le> MAX_REPLAY_TICKS" "run_match X act m0 policies = Some m"
  shows "m_phase m = Ended \<and> m_tick m \<le> max 1 (max_ticks c)
    \<and> (\<exists>rec. to_record m = Some rec \<and> verify X rec = Some (Inr (rec_result rec)))"
proof -
  have ok0: "match_ok X m0" using fresh_match_ok [OF assms(1)] assms(2) by (simp add: hostable_def)
  obtain es where es: "foldM (apply_event X) es m0 = Some m" using run_match_run(1) [OF assms(4) ok0] by blast
  have m: "m_phase m = Ended" "match_ok X m" using run_match_run(2,3) [OF assms(4) ok0] .
  have "m_config m = c"
    using run_match_recorded [OF assms(1,2,4)] new_with_pickups_fresh(3) [OF assms(1)] by (simp add: recorded_def same_setup_def)
  then have t: "m_tick m \<le> max 1 (max_ticks c)" "length (m_ticks m) = m_tick m"
    using m(2) by (auto simp: match_ok_def)
  obtain rec where rec: "to_record m = Some rec" using to_record_ended [OF m(2)] m(1) by blast
  have "length (m_ticks m) \<le> MAX_REPLAY_TICKS" using t assms(3) by (simp add: MAX_REPLAY_TICKS_def)
  from recorded_match_verifies [OF assms(1,2) es this rec] rec m(1) t(1) show ?thesis by blast
qed

subsection \<open>A driven duel\<close>

definition blitz_config :: match_config where
  "blitz_config = duel_config\<lparr>max_ticks := 1\<rparr>"

definition blitz_start :: arena_match where
  "blitz_start = duel_start\<lparr>m_config := blitz_config\<rparr>"

definition blitz_end :: arena_match where
  "blitz_end = the (run_match toy_crates (\<lambda>p _. (None, p)) blitz_start [(), ()])"

lemma new_with_config:
  "new_with_pickups i c r ss bs pks sd = Some m \<Longrightarrow>
   new_with_pickups i c' r ss bs pks sd = Some (m\<lparr>m_config := c'\<rparr>)"
  by (auto simp: new_with_pickups_def panic_simps)

lemma blitz_new: "new_with_pickups [] blitz_config duel_rules duel_seats [] [] 7 = Some blitz_start"
  using new_with_config [OF duel_start_new] by (simp add: blitz_start_def)

lemma blitz_hostable: "hostable blitz_config duel_rules duel_seats [] []"
  using duel_hostable by (simp add: hostable_def blitz_config_def)

lemma blitz_run: "run_match toy_crates (\<lambda>p _. (None, p)) blitz_start [(), ()] = Some blitz_end"
  unfolding blitz_end_def
  by (simp add: run_match_def burn_countdown.simps live_loop.simps gather_intents_def drive_seat_def
      observe_def find_pawn_def visible_remembered_def blitz_start_def blitz_config_def duel_start_def
      duel_seats_def duel_config_def duel_pawn_def duel_rules_def default_rules_defs step_defs ck_u_def
      upt_rec bs_collect_def vec2_zero_def)

theorem run_match_ends_witness:
  "hostable blitz_config duel_rules duel_seats [] []
   \<and> run_match toy_crates (\<lambda>p _. (None, p)) blitz_start [(), ()] = Some blitz_end
   \<and> m_phase blitz_end = Ended \<and> m_tick blitz_end \<le> 1"
  using run_match_ends [OF blitz_new blitz_hostable _ blitz_run] blitz_hostable blitz_run
  by (simp add: blitz_config_def MAX_REPLAY_TICKS_def)

end
