(* ===== verification/Rating.thy ===== *)
theory Rating
  imports Match_Step
begin

section \<open>Settlement and ranked ratings (\<^verbatim>\<open>src/arena/core/src/lib.rs\<close>)\<close>

text \<open>
  The classification of a finished match for settlement, the integer Elo curve and the zero-sum rating
  deltas of a duel and of a whole field. All inputs are 32-bit: the rating difference saturates, the
  product by \<open>k\<close> is taken in \<^verbatim>\<open>i64\<close>, and the per-seat tot are taken in \<^verbatim>\<open>i64\<close> and clamped back.
\<close>

datatype settlement = Win seat_id | Draw_Settlement

fun settle_scan :: "seat_id option \<Rightarrow> seat_outcome list \<Rightarrow> settlement" where
  "settle_scan winner [] = (case winner of Some seat \<Rightarrow> Win seat | None \<Rightarrow> Draw_Settlement)"
| "settle_scan winner (o' # os) =
     (if so_placement o' \<noteq> 1 then settle_scan winner os
      else if so_forfeited o' then Draw_Settlement
      else if winner \<noteq> None then Draw_Settlement
      else settle_scan (Some (so_seat o')) os)"

definition settlement_of :: "match_result \<Rightarrow> settlement" where
  "settlement_of r = settle_scan None (mr_outcomes r)"

definition DEFAULT_RATING :: i32 where "DEFAULT_RATING = 1500"
definition RATING_SCALE :: i32 where "RATING_SCALE = 10000"
definition RATING_DIFF_CAP :: i32 where "RATING_DIFF_CAP = 800"
definition RATING_DIFF_STEP :: i32 where "RATING_DIFF_STEP = 40"

definition EXPECTED_SCORE_TABLE :: "i32 list" where
  "EXPECTED_SCORE_TABLE =
     [5000, 5573, 6131, 6661, 7153, 7597, 7992, 8337, 8632, 8882, 9091, 9264, 9406, 9523, 9617, 9693,
      9755, 9804, 9844, 9876, 9901]"

definition expected_score_pos :: "i32 \<Rightarrow> i32" where
  "expected_score_pos mag =
     (let i = nat (mag sdiv RATING_DIFF_STEP) in
      if i \<ge> length EXPECTED_SCORE_TABLE - 1
      then EXPECTED_SCORE_TABLE ! (length EXPECTED_SCORE_TABLE - 1)
      else let lo = EXPECTED_SCORE_TABLE ! i; hi = EXPECTED_SCORE_TABLE ! (i + 1)
           in lo + ((hi - lo) * (mag smod RATING_DIFF_STEP)) sdiv RATING_DIFF_STEP)"

definition expected_score_bp :: "i32 \<Rightarrow> i32" where
  "expected_score_bp diff =
     (let d = clampi (- RATING_DIFF_CAP) RATING_DIFF_CAP diff;
          e_pos = expected_score_pos \<bar>d\<bar>
      in if d < 0 then RATING_SCALE - e_pos else e_pos)"

datatype match_outcome = WinA | Draw | WinB

record rating_deltas =
  rd_a :: i32
  rd_b :: i32

definition outcome_score :: "match_outcome \<Rightarrow> i32" where
  "outcome_score w = (case w of WinA \<Rightarrow> RATING_SCALE | Draw \<Rightarrow> RATING_SCALE sdiv 2 | WinB \<Rightarrow> 0)"

definition rating_delta :: "i32 \<Rightarrow> i32 \<Rightarrow> match_outcome \<Rightarrow> i32 \<Rightarrow> rating_deltas" where
  "rating_delta rating_a rating_b w k =
     (let k = max k 0;
          e_a = expected_score_bp (sat_i32 (rating_a - rating_b));
          raw = k * (outcome_score w - e_a);
          a = as_i32 (raw sdiv RATING_SCALE)
      in \<lparr>rd_a = a, rd_b = - a\<rparr>)"

definition ranked_delta :: "match_result \<Rightarrow> i32 \<Rightarrow> i32 \<Rightarrow> i32 \<Rightarrow> rating_deltas option" where
  "ranked_delta r rating_a rating_b k =
     (case mr_outcomes r of
        [a, b] \<Rightarrow>
          (case settlement_of r of
             Win seat \<Rightarrow>
               if seat = so_seat a then Some (rating_delta rating_a rating_b WinA k)
               else if seat = so_seat b then Some (rating_delta rating_a rating_b WinB k)
               else None
           | Draw_Settlement \<Rightarrow> Some (rating_delta rating_a rating_b Draw k))
      | _ \<Rightarrow> None)"

record seat_delta =
  sd_seat :: seat_id
  sd_delta :: i32

definition dq_teams :: "seat_outcome list \<Rightarrow> team_id list" where
  "dq_teams os = bs_collect (map so_team (filter so_forfeited os))"

definition pair_outcome :: "seat_outcome list \<Rightarrow> seat_outcome \<Rightarrow> seat_outcome \<Rightarrow> match_outcome" where
  "pair_outcome os a b =
     (if List.member (dq_teams os) (so_team a) \<and> List.member (dq_teams os) (so_team b) then Draw
      else if so_placement a < so_placement b then WinA
      else if so_placement a > so_placement b then WinB
      else Draw)"

definition play_pair :: "seat_outcome list \<Rightarrow> i32 list \<Rightarrow> i32 \<Rightarrow> nat \<times> nat \<Rightarrow> i64 list \<Rightarrow> i64 list" where
  "play_pair os ratings k ij tot = (case ij of (i, j) \<Rightarrow>
     (let d = rating_delta (ratings ! i) (ratings ! j) (pair_outcome os (os ! i) (os ! j)) k;
          tot = tot[i := tot ! i + rd_a d]
      in tot[j := tot ! j + rd_b d]))"

definition field_pairs :: "nat \<Rightarrow> (nat \<times> nat) list" where
  "field_pairs n = concat (map (\<lambda>i. map (Pair i) [i + 1..<n]) [0..<n])"

definition field_sums :: "seat_outcome list \<Rightarrow> i32 list \<Rightarrow> i32 \<Rightarrow> i64 list" where
  "field_sums os ratings k =
     fold (play_pair os ratings k) (field_pairs (length os)) (replicate (length os) 0)"

definition ranked_field_delta :: "match_result \<Rightarrow> i32 list \<Rightarrow> i32 \<Rightarrow> seat_delta list option" where
  "ranked_field_delta r ratings k =
     (let os = mr_outcomes r in
      if length os < 2 \<or> length ratings \<noteq> length os then None
      else Some (map (\<lambda>(o', s). \<lparr>sd_seat = so_seat o', sd_delta = sat_i32 s\<rparr>)
             (zip os (field_sums os ratings k))))"

subsection \<open>The expected score\<close>

lemmas rating_consts = RATING_SCALE_def RATING_DIFF_CAP_def RATING_DIFF_STEP_def

lemma table_steps: "i < 20 \<Longrightarrow> EXPECTED_SCORE_TABLE ! i \<le> EXPECTED_SCORE_TABLE ! (i + 1)
   \<and> 5000 \<le> EXPECTED_SCORE_TABLE ! i \<and> EXPECTED_SCORE_TABLE ! (i + 1) \<le> 9901"
proof -
  have "\<forall>i\<in>set [0..<20]. EXPECTED_SCORE_TABLE ! i \<le> EXPECTED_SCORE_TABLE ! (i + 1)
     \<and> 5000 \<le> EXPECTED_SCORE_TABLE ! i \<and> EXPECTED_SCORE_TABLE ! (i + 1) \<le> 9901"
    by (simp add: EXPECTED_SCORE_TABLE_def upt_rec)
  then show "i < 20 \<Longrightarrow> ?thesis" by simp
qed

definition score_curve :: "nat \<Rightarrow> int" where
  "score_curve m =
     (if m div 40 \<ge> 20 then 9901
      else EXPECTED_SCORE_TABLE ! (m div 40)
        + ((EXPECTED_SCORE_TABLE ! (m div 40 + 1) - EXPECTED_SCORE_TABLE ! (m div 40)) * int (m mod 40)) div 40)"

lemma expected_score_pos_curve: "0 \<le> mag \<Longrightarrow> expected_score_pos mag = score_curve (nat mag)"
proof -
  assume "0 \<le> mag"
  then obtain m where m: "mag = int m" by (metis nonneg_int_cases)
  have i: "nat (int m sdiv 40) = m div 40" by (simp add: sdiv_nonneg nat_div_distrib)
  have r: "int m smod 40 = int (m mod 40)"
    by (cases "m = 0") (simp_all add: signed_modulo_int_def sdiv_nonneg minus_div_mult_eq_mod zmod_int)
  have nn: "0 \<le> (EXPECTED_SCORE_TABLE ! (m div 40 + 1) - EXPECTED_SCORE_TABLE ! (m div 40)) * int (m mod 40)"
    if "m div 40 < 20" using table_steps [OF that] by simp
  have len: "length EXPECTED_SCORE_TABLE = 21" "EXPECTED_SCORE_TABLE ! 20 = 9901"
    by (simp_all add: EXPECTED_SCORE_TABLE_def)
  show ?thesis
    using nn unfolding m expected_score_pos_def score_curve_def Let_def rating_consts i r len
    by (auto simp: sdiv_nonneg len)
qed

lemma score_curve_step: "score_curve m \<le> score_curve (Suc m)"
proof (cases "m div 40 \<ge> 20")
  case True
  then have "Suc m div 40 \<ge> 20" using div_le_mono [of m "Suc m" 40] by simp
  with True show ?thesis by (simp add: score_curve_def)
next
  case False
  let ?i = "m div 40" and ?T = "EXPECTED_SCORE_TABLE"
  have T: "?T ! ?i \<le> ?T ! (?i + 1)" using table_steps [of ?i] False by simp
  have top: "score_curve m \<le> ?T ! (?i + 1)"
  proof -
    have "(?T ! (?i + 1) - ?T ! ?i) * int (m mod 40) \<le> (?T ! (?i + 1) - ?T ! ?i) * 40"
      using T by (intro mult_left_mono) auto
    then have "((?T ! (?i + 1) - ?T ! ?i) * int (m mod 40)) div 40 \<le> ?T ! (?i + 1) - ?T ! ?i"
      using zdiv_mono1 [of _ "(?T ! (?i + 1) - ?T ! ?i) * 40" 40] by simp
    then show ?thesis using False by (simp add: score_curve_def)
  qed
  show ?thesis
  proof (cases "m mod 40 = 39")
    case True
    then have s: "Suc m div 40 = ?i + 1" "Suc m mod 40 = 0" by (simp_all add: div_Suc mod_Suc)
    show ?thesis
    proof (cases "?i + 1 \<ge> 20")
      case True
      then have "?i = 19" using False by simp
      with top s show ?thesis by (simp add: score_curve_def EXPECTED_SCORE_TABLE_def)
    next
      case False
      with top s show ?thesis by (simp add: score_curve_def)
    qed
  next
    case False': False
    then have s: "Suc m div 40 = ?i" "Suc m mod 40 = Suc (m mod 40)" by (simp_all add: div_Suc mod_Suc)
    have "(?T ! (?i + 1) - ?T ! ?i) * int (m mod 40) \<le> (?T ! (?i + 1) - ?T ! ?i) * int (Suc (m mod 40))"
      using T by (intro mult_left_mono) auto
    then have "((?T ! (?i + 1) - ?T ! ?i) * int (m mod 40)) div 40
        \<le> ((?T ! (?i + 1) - ?T ! ?i) * int (Suc (m mod 40))) div 40"
      by (intro zdiv_mono1) auto
    with False s show ?thesis by (simp add: score_curve_def)
  qed
qed

lemma score_curve_mono: "m \<le> n \<Longrightarrow> score_curve m \<le> score_curve n"
  by (rule lift_Suc_mono_le [of score_curve]) (auto intro: score_curve_step)

lemma score_curve_range: "5000 \<le> score_curve m \<and> score_curve m \<le> 9901"
proof -
  have "score_curve 0 \<le> score_curve m" "score_curve m \<le> score_curve (max m 800)"
    by (auto intro: score_curve_mono)
  moreover have "score_curve 0 = 5000" by (simp add: score_curve_def EXPECTED_SCORE_TABLE_def)
  moreover have "score_curve (max m 800) = 9901"
    using div_le_mono [of 800 "max m 800" 40] by (simp add: score_curve_def)
  ultimately show ?thesis by simp
qed

lemma expected_score_curve:
  "expected_score_bp d = (if d < 0 then 10000 - score_curve (nat (min 800 (- d))) else score_curve (nat (min 800 d)))"
proof -
  have "clampi (- 800) 800 d = (if d < 0 then - min 800 (- d) else min 800 d)" by (auto simp: clampi_def)
  then show ?thesis
    by (auto simp: expected_score_bp_def Let_def rating_consts expected_score_pos_curve abs_if)
qed

lemma expected_score_mono: "d \<le> d' \<Longrightarrow> expected_score_bp d \<le> expected_score_bp d'"
  unfolding expected_score_curve
  using score_curve_range [of "nat (min 800 (- d))"] score_curve_range [of "nat (min 800 d')"]
    score_curve_mono [of "nat (min 800 d)" "nat (min 800 d')"]
    score_curve_mono [of "nat (min 800 (- d'))" "nat (min 800 (- d))"]
  by (auto simp: nat_le_iff min_def split: if_splits)

lemma expected_score_range: "99 \<le> expected_score_bp d \<and> expected_score_bp d \<le> 9901"
  unfolding expected_score_curve
  using score_curve_range [of "nat (min 800 (- d))"] score_curve_range [of "nat (min 800 d)"] by auto

lemma score_curve_0: "score_curve 0 = 5000"
  by (simp add: score_curve_def EXPECTED_SCORE_TABLE_def)

lemma expected_score_mirror: "expected_score_bp (- d) = 10000 - expected_score_bp d"
  unfolding expected_score_curve using score_curve_0 by (cases "d = 0") (auto simp: min_def)

text \<open>
  The integer Elo curve is a fair expectation: it lies strictly between a certain loss and a
  certain win, the two sides' expectations always sum to the scale, and a larger rating gap never
  lowers the favourite's expectation.
\<close>

theorem expected_score_fair:
  "99 \<le> expected_score_bp d \<and> expected_score_bp d \<le> 9901
   \<and> expected_score_bp d + expected_score_bp (- d) = RATING_SCALE
   \<and> (d \<le> d' \<longrightarrow> expected_score_bp d \<le> expected_score_bp d')"
  using expected_score_range [of d] expected_score_mirror [of d] expected_score_mono [of d d']
  by (simp add: RATING_SCALE_def)

theorem expected_score_fair_witness:
  "expected_score_bp 100 \<le> expected_score_bp 300 \<and> expected_score_bp 100 + expected_score_bp (- 100) = RATING_SCALE"
  using expected_score_fair [of 100 300] by simp

subsection \<open>The delta of a duel\<close>

definition flip_outcome :: "match_outcome \<Rightarrow> match_outcome" where
  "flip_outcome w = (case w of WinA \<Rightarrow> WinB | Draw \<Rightarrow> Draw | WinB \<Rightarrow> WinA)"

lemma outcome_score_simps [simp]:
  "outcome_score WinA = 10000" "outcome_score Draw = 5000" "outcome_score WinB = 0"
  by (simp_all add: outcome_score_def RATING_SCALE_def sdiv_nonneg)

lemma abs_scaled_le:
  assumes "0 \<le> (k::int)" "\<bar>x\<bar> \<le> 10000"
  shows "\<bar>(k * x) sdiv 10000\<bar> \<le> k"
proof -
  have "\<bar>k * x\<bar> \<le> k * 10000" using assms by (simp add: abs_mult mult_left_mono)
  then have "\<bar>k * x\<bar> div 10000 \<le> k" using zdiv_mono1 [of "\<bar>k * x\<bar>" "k * 10000" 10000] by simp
  then show ?thesis by (simp add: abs_sdiv)
qed

lemma rating_delta_eq:
  assumes "0 \<le> k" "in_i32 k"
  shows "rd_a (rating_delta ra rb w k) = (k * (outcome_score w - expected_score_bp (sat_i32 (ra - rb)))) sdiv 10000"
    "\<bar>rd_a (rating_delta ra rb w k)\<bar> \<le> k"
proof -
  let ?x = "outcome_score w - expected_score_bp (sat_i32 (ra - rb))"
  have "\<bar>?x\<bar> \<le> 10000" using expected_score_range [of "sat_i32 (ra - rb)"] by (cases w) auto
  from abs_scaled_le [OF assms(1) this] have b: "\<bar>(k * ?x) sdiv 10000\<bar> \<le> k" .
  then have "in_i32 ((k * ?x) sdiv 10000)" using assms(2) unfolding in_i32_def by linarith
  then show "rd_a (rating_delta ra rb w k) = (k * ?x) sdiv 10000"
    using assms(1) by (simp add: rating_delta_def Let_def RATING_SCALE_def max_def)
  with b show "\<bar>rd_a (rating_delta ra rb w k)\<bar> \<le> k" by simp
qed

lemma rd_b_eq: "rd_b (rating_delta ra rb w k) = - rd_a (rating_delta ra rb w k)"
  by (simp add: rating_delta_def Let_def)

lemma rating_delta_negative_k: "k \<le> 0 \<Longrightarrow> rd_a (rating_delta ra rb w k) = 0"
  by (simp add: rating_delta_def Let_def max_def as_i32_def)

lemma sat_i32_diff: "in_i32 a \<Longrightarrow> in_i32 b \<Longrightarrow>
   expected_score_bp (sat_i32 (b - a)) = 10000 - expected_score_bp (sat_i32 (a - b))"
proof -
  assume ab: "in_i32 a" "in_i32 b"
  have cap: "expected_score_bp (sat_i32 x) = expected_score_bp x" for x
  proof -
    have "clampi (- 800) 800 (sat_i32 x) = clampi (- 800) 800 x"
      by (auto simp: sat_i32_def clampi_def min_def max_def)
    then show ?thesis by (simp add: expected_score_bp_def rating_consts)
  qed
  show ?thesis using expected_score_mirror [of "a - b"] by (simp add: cap)
qed

text \<open>
  The rating delta of a duel is a fair zero-sum exchange: what one side gains the other
  loses, nobody moves by more than \<open>k\<close>, a winner never loses rating, and naming the players in the
  other order gives the mirrored delta.
\<close>

theorem rating_delta_zero_sum:
  assumes "0 \<le> k" "in_i32 k" "in_i32 ra" "in_i32 rb"
  shows "rd_a (rating_delta ra rb w k) + rd_b (rating_delta ra rb w k) = 0
    \<and> \<bar>rd_a (rating_delta ra rb w k)\<bar> \<le> k
    \<and> 0 \<le> rd_a (rating_delta ra rb WinA k) \<and> rd_a (rating_delta ra rb WinB k) \<le> 0
    \<and> rd_a (rating_delta rb ra (flip_outcome w) k) = rd_b (rating_delta ra rb w k)"
proof -
  let ?e = "expected_score_bp (sat_i32 (ra - rb))"
  have e: "99 \<le> ?e" "?e \<le> 9901" using expected_score_range by auto
  have "0 \<le> (k * (10000 - ?e)) sdiv 10000" using assms(1) e by (subst sdiv_nonneg) (auto simp: pos_imp_zdiv_nonneg_iff)
  moreover have "(k * (0 - ?e)) sdiv 10000 \<le> 0"
    using assms(1) e sdiv_minus_left [of "k * ?e" 10000]
    by (simp add: sdiv_nonneg pos_imp_zdiv_nonneg_iff)
  moreover have "rd_a (rating_delta rb ra (flip_outcome w) k) = - rd_a (rating_delta ra rb w k)"
  proof -
    have "outcome_score (flip_outcome w) = 10000 - outcome_score w" by (cases w) (simp_all add: flip_outcome_def)
    then have "outcome_score (flip_outcome w) - expected_score_bp (sat_i32 (rb - ra)) = - (outcome_score w - ?e)"
      using sat_i32_diff [OF assms(3,4)] by simp
    then show ?thesis
      unfolding rating_delta_eq(1) [OF assms(1,2)] by (simp only: mult_minus_right sdiv_minus_left)
  qed
  ultimately show ?thesis
    using rating_delta_eq [OF assms(1,2)] by (simp add: rd_b_eq)
qed

theorem rating_delta_zero_sum_witness:
  "rd_a (rating_delta 1500 1900 WinA 32) + rd_b (rating_delta 1500 1900 WinA 32) = 0
   \<and> \<bar>rd_a (rating_delta 1500 1900 WinA 32)\<bar> \<le> 32"
  using rating_delta_zero_sum [of 32 1500 1900 WinA] by (simp add: in_i32_def abs_le_iff)

subsection \<open>The deltas of a field\<close>

lemma set_field_pairs: "set (field_pairs n) = {(i, j). i < j \<and> j < n}"
  unfolding field_pairs_def by fastforce

lemma distinct_field_pairs: "distinct (field_pairs n)"
proof -
  have "distinct (concat (map (\<lambda>i. map (Pair i) [i + 1..<n]) xs))" if "distinct xs" for xs
    using that by (induction xs) (auto simp: distinct_map inj_on_def)
  then show ?thesis by (simp add: field_pairs_def)
qed

lemma sum_list_update: "i < length xs \<Longrightarrow> sum_list (xs[i := y]) = sum_list xs - xs ! i + (y::int)"
  by (induction xs arbitrary: i) (auto split: nat.splits)

lemma play_pair_sum:
  assumes "i < j" "j < length xs"
  shows "sum_list (play_pair os rs k (i, j) xs) = sum_list xs" "length (play_pair os rs k (i, j) xs) = length xs"
  using assms by (auto simp: play_pair_def Let_def sum_list_update rd_b_eq)

lemma field_sums_zero: "sum_list (field_sums os rs k) = 0 \<and> length (field_sums os rs k) = length os"
proof -
  have "sum_list (fold (play_pair os rs k) ps xs) = sum_list xs \<and> length (fold (play_pair os rs k) ps xs) = length xs"
    if "\<forall>(i, j)\<in>set ps. i < j \<and> j < length xs" for ps xs
    using that
  proof (induction ps arbitrary: xs)
    case (Cons p ps)
    obtain i j where p: "p = (i, j)" by fastforce
    with Cons.prems play_pair_sum [of i j xs os rs k] Cons.IH [of "play_pair os rs k p xs"] show ?case by auto
  qed simp
  from this [of "field_pairs (length os)" "replicate (length os) 0"] show ?thesis
    by (auto simp: field_sums_def set_field_pairs sum_list_replicate)
qed

definition pairs_with :: "nat \<Rightarrow> (nat \<times> nat) list \<Rightarrow> nat" where
  "pairs_with i ps = length (filter (\<lambda>(a, b). a = i \<or> b = i) ps)"

lemma pairs_with_field: "pairs_with i (field_pairs n) \<le> n - 1"
proof (cases "i < n")
  case True
  let ?S = "{p \<in> set (field_pairs n). fst p = i \<or> snd p = i}"
  have "pairs_with i (field_pairs n) = card ?S"
    using distinct_card [OF distinct_filter [OF distinct_field_pairs], of "\<lambda>(a, b). a = i \<or> b = i" n]
    by (simp add: pairs_with_def split_beta)
  also have "\<dots> \<le> card ({..<n} - {i})"
    by (rule card_inj_on_le [of "\<lambda>(a, b). if a = i then b else a"])
      (auto simp: inj_on_def set_field_pairs split: if_splits)
  finally show ?thesis using True by simp
next
  case False
  then have "filter (\<lambda>(a, b). a = i \<or> b = i) (field_pairs n) = []"
    by (auto simp: filter_empty_conv set_field_pairs)
  then show ?thesis by (simp add: pairs_with_def)
qed

lemma field_sums_bound:
  assumes "0 \<le> k" "in_i32 k" "i < length os"
  shows "\<bar>field_sums os rs k ! i\<bar> \<le> int (length os - 1) * k"
proof -
  have "\<bar>fold (play_pair os rs k) ps xs ! i\<bar> \<le> \<bar>xs ! i\<bar> + int (pairs_with i ps) * k"
    if "\<forall>(a, b)\<in>set ps. a < b \<and> b < length xs" "i < length xs" for ps xs
    using that
  proof (induction ps arbitrary: xs)
    case (Cons p ps)
    obtain a b where p: "p = (a, b)" by fastforce
    let ?ys = "play_pair os rs k p xs"
    have ab: "a < b" "b < length xs" using Cons.prems p by auto
    have "\<bar>?ys ! i\<bar> \<le> \<bar>xs ! i\<bar> + (if a = i \<or> b = i then k else 0)"
      using rating_delta_eq(2) [OF assms(1,2), of "rs ! a" "rs ! b" "pair_outcome os (os ! a) (os ! b)"] ab
      by (auto simp: p play_pair_def Let_def nth_list_update rd_b_eq)
    moreover have "\<bar>fold (play_pair os rs k) ps ?ys ! i\<bar> \<le> \<bar>?ys ! i\<bar> + int (pairs_with i ps) * k"
      using Cons.IH [of ?ys] Cons.prems play_pair_sum(2) [OF ab] by (auto simp: p)
    ultimately show ?case by (auto simp: p pairs_with_def distrib_right)
  qed (simp add: pairs_with_def)
  from this [of "field_pairs (length os)" "replicate (length os) 0"] assms(3)
  have "\<bar>field_sums os rs k ! i\<bar> \<le> int (pairs_with i (field_pairs (length os))) * k"
    by (auto simp: field_sums_def set_field_pairs)
  also have "\<dots> \<le> int (length os - 1) * k"
    using pairs_with_field assms(1) by (intro mult_right_mono) auto
  finally show ?thesis .
qed

text \<open>
  The ratings a whole field exchanges sum to zero: as long as \<open>k\<close> times the number of
  opponents fits 32 bits, the deltas of \<^verbatim>\<open>ranked_field_delta\<close> conserve the total rating exactly, there is
  one delta per seat in the order of the outcomes, and none exceeds \<open>k\<close> per opponent.
\<close>

theorem ranked_field_zero_sum:
  assumes "ranked_field_delta r ratings k = Some ds" "0 \<le> k"
    "int (length (mr_outcomes r) - 1) * k < 2 ^ 31"
  shows "sum_list (map sd_delta ds) = 0 \<and> map sd_seat ds = map so_seat (mr_outcomes r)
    \<and> (\<forall>d\<in>set ds. \<bar>sd_delta d\<bar> \<le> int (length (mr_outcomes r) - 1) * k)"
proof -
  let ?os = "mr_outcomes r"
  let ?s = "field_sums ?os ratings k"
  have n: "2 \<le> length ?os" and ds: "ds = map (\<lambda>(o', s). \<lparr>sd_seat = so_seat o', sd_delta = sat_i32 s\<rparr>) (zip ?os ?s)"
    using assms(1) by (auto simp: ranked_field_delta_def Let_def split: if_splits)
  have "1 * k \<le> int (length ?os - 1) * k" using n assms(2) by (intro mult_right_mono) auto
  then have k: "in_i32 k" using assms(2,3) by (auto simp: in_i32_def)
  have len: "length ?s = length ?os" "sum_list ?s = 0" using field_sums_zero by auto
  have b: "\<forall>x\<in>set ?s. \<bar>x\<bar> \<le> int (length ?os - 1) * k"
    using field_sums_bound [OF assms(2) k, of _ ?os ratings] len(1) by (auto simp: in_set_conv_nth)
  have "sat_i32 x = x" if "x \<in> set ?s" for x
  proof (rule sat_i32_id)
    have "\<bar>x\<bar> < 2 ^ 31" using b that assms(3) by fastforce
    then show "in_i32 x" by (auto simp: in_i32_def)
  qed
  then have "map sat_i32 ?s = ?s" by (auto intro: map_idI)
  moreover have "map sd_delta ds = map sat_i32 ?s"
    using len by (simp add: ds comp_def split_beta map_snd_zip flip: map_map [of sat_i32 snd, unfolded comp_def])
  ultimately have d: "map sd_delta ds = ?s" by simp
  have "map sd_seat ds = map so_seat ?os"
    using len by (simp add: ds comp_def split_beta flip: map_map [of so_seat fst, unfolded comp_def])
  moreover have "\<forall>x\<in>set ds. \<bar>sd_delta x\<bar> \<le> int (length ?os - 1) * k"
    using b d by (metis imageI list.set_map)
  ultimately show ?thesis using d len by simp
qed

definition duel_outcome :: "seat_id \<Rightarrow> u16 \<Rightarrow> bool \<Rightarrow> seat_outcome" where
  "duel_outcome s pl f = \<lparr>so_seat = s, so_team = s, so_placement = pl, so_score = 0,
     so_alive_at_end = (\<not> f), so_forfeited = f\<rparr>"

definition duel_result :: "seat_outcome list \<Rightarrow> match_result" where
  "duel_result os = \<lparr>mr_protocol_version = 1, mr_match_id = [], mr_final_tick = 10, mr_outcomes = os,
     mr_replay_hash = []\<rparr>"

lemma field_pairs_2: "field_pairs (Suc (Suc 0)) = [(0, 1)]"
  by (simp add: field_pairs_def)

lemma underdog_draw: "rating_delta 1500 1900 Draw 32 = \<lparr>rd_a = 13, rd_b = - 13\<rparr>"
  by (simp add: rating_delta_def expected_score_curve score_curve_def EXPECTED_SCORE_TABLE_def sat_i32_def
      Let_def RATING_SCALE_def sdiv_nonneg as_i32_def)

theorem ranked_field_zero_sum_witness:
  "\<exists>ds. ranked_field_delta (duel_result [duel_outcome 0 1 False, duel_outcome 1 2 False, duel_outcome 2 3 True])
        [1500, 1900, 1400] 32 = Some ds \<and> sum_list (map sd_delta ds) = 0"
proof -
  let ?r = "duel_result [duel_outcome 0 1 False, duel_outcome 1 2 False, duel_outcome 2 3 True]"
  obtain ds where ds: "ranked_field_delta ?r [1500, 1900, 1400] 32 = Some ds"
    by (simp add: ranked_field_delta_def duel_result_def Let_def)
  from ranked_field_zero_sum [OF ds] ds show ?thesis by (simp add: duel_result_def)
qed

text \<open>
  Two seats that both abandoned the match still exchange rating: their game is scored as a
  draw, and a draw moves the favourite down. An underdog 400 points behind who forfeits together with
  the favourite gains 13 points at \<open>k = 32\<close>, so a field in which every team is disqualified is not the
  no-contest of zero deltas.
\<close>

theorem all_forfeit_field_moves_ratings:
  "ranked_field_delta (duel_result [duel_outcome 0 1 True, duel_outcome 1 1 True]) [1500, 1900] 32
   = Some [\<lparr>sd_seat = 0, sd_delta = 13\<rparr>, \<lparr>sd_seat = 1, sd_delta = - 13\<rparr>]"
  by (simp add: ranked_field_delta_def duel_result_def Let_def field_sums_def field_pairs_2 play_pair_def
      pair_outcome_def dq_teams_def bs_collect_def duel_outcome_def underdog_draw sat_i32_def)

subsection \<open>Settlement\<close>

lemma settle_scan_Some:
  "settle_scan (Some s) os = (if \<exists>o'\<in>set os. so_placement o' = 1 then Draw_Settlement else Win s)"
  by (induction "Some s" os rule: settle_scan.induct) auto

lemma settle_scan_None:
  "settle_scan None os = Win s \<longleftrightarrow>
   (\<exists>o'. filter (\<lambda>o'. so_placement o' = 1) os = [o'] \<and> \<not> so_forfeited o' \<and> so_seat o' = s)"
proof (induction os)
  case (Cons a os)
  then show ?case
    by (auto simp: settle_scan_Some filter_empty_conv)
qed simp

text \<open>
  Settlement crowns a seat exactly when that seat alone holds first place and did not
  forfeit; every other result, a shared first place or an abandoned match, settles as a draw.
\<close>

theorem settlement_winner:
  "settlement_of r = Win s \<longleftrightarrow>
   (\<exists>o'. filter (\<lambda>o'. so_placement o' = 1) (mr_outcomes r) = [o'] \<and> \<not> so_forfeited o' \<and> so_seat o' = s)"
  unfolding settlement_of_def by (rule settle_scan_None)

end
