(* ===== verification/Ranking.thy ===== *)
theory Ranking
  imports Match_Step Rating
begin

section \<open>The ranking of a finished match\<close>

text \<open>
  The specification of \<^verbatim>\<open>Match::outcomes\<close>: a team's key is whether it forfeited, then its survivors,
  then its total score, and its placement is one more than the number of teams with a strictly better
  key. The code reaches the same numbers by folding the pawns into a map, sorting it and walking the
  sorted list.
\<close>

definition team_key :: "pawn list \<Rightarrow> team_id \<Rightarrow> bool \<times> int \<times> int" where
  "team_key ps t =
     (list_ex (\<lambda>p. p_team p = t \<and> p_forfeited p) ps,
      - int (length (filter (\<lambda>p. p_team p = t \<and> p_alive p) ps)),
      - sum_list (map p_score (filter (\<lambda>p. p_team p = t) ps)))"

definition teams_of :: "pawn list \<Rightarrow> team_id set" where
  "teams_of ps = p_team ` set ps"

definition ideal_placement :: "pawn list \<Rightarrow> team_id \<Rightarrow> nat" where
  "ideal_placement ps t = 1 + card {u \<in> teams_of ps. team_key ps u < team_key ps t}"

subsection \<open>The fold computes the keys\<close>

definition entry_key :: "team_id \<times> standing \<Rightarrow> bool \<times> int \<times> int" where
  "entry_key e = (case e of (_, dq, surv, tot, _) \<Rightarrow> (dq, - int surv, - tot))"

lemma entry_key_tie: "entry_key (t, s) = entry_key (u, s') \<longleftrightarrow> tie_key s = tie_key s'"
  by (auto simp: entry_key_def tie_key_def split: prod.splits)

lemma rank_key_entry: "rank_key e \<le> rank_key e' \<Longrightarrow> entry_key e \<le> entry_key e'"
  by (auto simp: rank_key_def entry_key_def split: prod.splits)

lemma standings_snoc: "standings (ps @ [p]) = fold_standing p (standings ps)"
  by (simp add: standings_def)

lemma bt_inv_fold_standing: "bt_inv m \<Longrightarrow> bt_inv (fold_standing p m)"
  by (simp add: fold_standing_def bt_inv_insert Let_def split: prod.splits)

lemma bt_inv_standings: "bt_inv (standings ps)"
proof (induction ps rule: rev_induct)
  case Nil
  then show ?case by (simp add: standings_def bt_inv_def)
qed (simp add: standings_snoc bt_inv_fold_standing)

lemma standings_get:
  "case bt_get (standings ps) t of
     None \<Rightarrow> t \<notin> teams_of ps
   | Some s \<Rightarrow> t \<in> teams_of ps \<and> entry_key (t, s) = team_key ps t"
proof (induction ps rule: rev_induct)
  case Nil
  then show ?case by (simp add: standings_def bt_get_def teams_of_def)
next
  case (snoc p ps)
  show ?case
  proof (cases "t = p_team p")
    case True
    have none: "filter (\<lambda>q. p_team q = t) ps = []" "filter (\<lambda>q. p_team q = t \<and> p_alive q) ps = []"
      "\<not> list_ex (\<lambda>q. p_team q = t \<and> p_forfeited q) ps" if "t \<notin> teams_of ps"
      using that by (auto simp: teams_of_def filter_empty_conv list_ex_iff)
    show ?thesis
      using snoc True none
      by (auto simp: standings_snoc fold_standing_def Let_def bt_get_insert bt_inv_standings teams_of_def
          entry_key_def team_key_def split: prod.splits option.splits)
  next
    case False
    then have "bt_get (standings (ps @ [p])) t = bt_get (standings ps) t"
      by (simp add: standings_snoc fold_standing_def Let_def bt_get_insert bt_inv_standings split: prod.splits)
    with snoc False show ?thesis by (auto simp: teams_of_def team_key_def split: option.splits)
  qed
qed

lemma standings_keys: "fst ` set (standings ps) = teams_of ps"
proof -
  have "t \<in> fst ` set (standings ps) \<longleftrightarrow> t \<in> teams_of ps" for t
    using standings_get [of t ps] map_of_eq_None_iff [of "standings ps" t]
    by (cases "bt_get (standings ps) t") (auto simp: bt_get_def)
  then show ?thesis by auto
qed

lemma standings_entry: "(t, s) \<in> set (standings ps) \<Longrightarrow> entry_key (t, s) = team_key ps t"
proof -
  assume "(t, s) \<in> set (standings ps)"
  moreover have "distinct (map fst (standings ps))"
    using bt_inv_standings [of ps] strict_sorted_iff unfolding bt_inv_def by blast
  ultimately have "bt_get (standings ps) t = Some s" by (simp add: bt_get_def)
  with standings_get [of t ps] show ?thesis by simp
qed

subsection \<open>The walk over the sorted list computes the placements\<close>

lemma place_teams_get:
  assumes "sorted_wrt (\<lambda>a b. entry_key a \<le> entry_key b) (ys @ xs)" "distinct (map fst (ys @ xs))"
    "bt_inv out" "length (ys @ xs) < 65536"
    "prev = (if ys = [] then None else Some (tie_key (snd (last ys))))"
    "ys \<noteq> [] \<Longrightarrow> place = 1 + length (filter (\<lambda>e. entry_key e < entry_key (last ys)) (ys @ xs))"
  shows "bt_get (place_teams (length ys) place prev xs out) t =
    (case map_of xs t of
       None \<Rightarrow> bt_get out t
     | Some s \<Rightarrow> Some (1 + length (filter (\<lambda>e. entry_key e < entry_key (t, s)) (ys @ xs))))"
  using assms
proof (induction xs arbitrary: ys place prev out)
  case (Cons x xs)
  obtain u s where x: "x = (u, s)" by (cases x)
  let ?L = "ys @ x # xs"
  let ?c = "1 + length (filter (\<lambda>e. entry_key e < entry_key x) ?L)"
  define place' where "place' = (if prev \<noteq> Some (tie_key s) then (length ys + 1) mod 2 ^ 16 else place)"
  have low: "\<forall>e\<in>set ys. entry_key e \<le> entry_key x" "\<forall>e\<in>set xs. entry_key x \<le> entry_key e"
    using Cons.prems(1) by (auto simp: sorted_wrt_append)
  have place': "place' = ?c"
  proof (cases "prev = Some (tie_key s)")
    case True
    then have ne: "ys \<noteq> []" "tie_key (snd (last ys)) = tie_key s"
      using Cons.prems(5) by (auto split: if_splits)
    then have "entry_key (last ys) = entry_key x"
      unfolding x by (metis entry_key_tie prod.collapse)
    with True ne Cons.prems(6) show ?thesis by (simp add: place'_def)
  next
    case False
    have "entry_key e < entry_key x" if "e \<in> set ys" for e
    proof -
      have ne: "ys \<noteq> []" using that by auto
      then have "tie_key (snd (last ys)) \<noteq> tie_key s" using False Cons.prems(5) by auto
      then have "entry_key (last ys) \<noteq> entry_key x" unfolding x by (metis entry_key_tie prod.collapse)
      moreover have "entry_key (last ys) \<le> entry_key x" using low(1) ne by simp
      moreover have "entry_key e \<le> entry_key (last ys)"
      proof (cases "e = last ys")
        case False
        have "sorted_wrt (\<lambda>a b. entry_key a \<le> entry_key b) (butlast ys @ [last ys])"
          using Cons.prems(1) ne by (simp add: sorted_wrt_append)
        moreover have "e \<in> set (butlast ys)"
          using that False ne by (metis append_butlast_last_id in_set_butlast_appendI insert_iff list.simps(15)
              rotate1.simps(2) set_ConsD set_append set_rotate1 Un_iff empty_iff empty_set)
        ultimately show ?thesis by (simp add: sorted_wrt_append)
      qed simp
      ultimately show ?thesis by order
    qed
    then have "filter (\<lambda>e. entry_key e < entry_key x) ys = ys" by (intro filter_True) auto
    moreover have "filter (\<lambda>e. entry_key e < entry_key x) xs = []"
      using low(2) by (auto simp: filter_empty_conv not_less)
    ultimately show ?thesis using False Cons.prems(4) by (simp add: place'_def)
  qed
  have step: "place_teams (length ys) place prev (x # xs) out
    = place_teams (length (ys @ [x])) place' (Some (tie_key s)) xs (bt_insert u place' out)"
    by (simp add: x place'_def Let_def)
  have "bt_get (place_teams (length (ys @ [x])) place' (Some (tie_key s)) xs (bt_insert u place' out)) t =
    (case map_of xs t of
       None \<Rightarrow> bt_get (bt_insert u place' out) t
     | Some s \<Rightarrow> Some (1 + length (filter (\<lambda>e. entry_key e < entry_key (t, s)) ((ys @ [x]) @ xs))))"
    using Cons.prems place' by (intro Cons.IH) (auto simp: bt_inv_insert x)
  moreover have "map_of xs u = None" using Cons.prems(2) by (auto simp: x map_of_eq_None_iff)
  ultimately show ?case
    unfolding step using Cons.prems(3) place'
    by (cases "t = u") (auto simp: x bt_get_insert split: option.splits)
qed simp

subsection \<open>The placements meet the specification\<close>

lemma bt_get_placement:
  assumes "length ps < 65536"
  shows "bt_get (placement_of_team ps) t = (if t \<in> teams_of ps then Some (ideal_placement ps t) else None)"
proof -
  let ?L = "sort_key rank_key (standings ps)"
  have d: "distinct (map fst (standings ps))"
    using bt_inv_standings [of ps] strict_sorted_iff unfolding bt_inv_def by blast
  then have dL: "distinct (map fst ?L)" by (simp add: distinct_map)
  have sL: "sorted_wrt (\<lambda>a b. entry_key a \<le> entry_key b) ?L"
  proof (rule sorted_wrt_mono_rel)
    show "sorted_wrt (\<lambda>a b. rank_key a \<le> rank_key b) ?L"
      using sorted_sort_key [of rank_key "standings ps"] by (simp add: sorted_map)
  qed (rule rank_key_entry)
  have "length (standings ps) = card (teams_of ps)"
    using distinct_card [OF d] standings_keys [of ps] by simp
  also have "\<dots> \<le> length ps" by (auto simp: teams_of_def intro: le_trans [OF card_image_le] card_length)
  finally have len: "length ?L < 65536" using assms by simp
  have g: "bt_get (placement_of_team ps) t =
    (case map_of ?L t of None \<Rightarrow> None
     | Some s \<Rightarrow> Some (1 + length (filter (\<lambda>e. entry_key e < entry_key (t, s)) ?L)))"
    unfolding placement_of_team_def
    using place_teams_get [of "[]" ?L "[]" None 0 t] sL dL len
    by (simp add: bt_inv_def bt_get_def) (simp add: bt_get_def split: option.splits)
  show ?thesis
  proof (cases "map_of ?L t")
    case None
    then have "t \<notin> teams_of ps" by (simp add: map_of_eq_None_iff standings_keys)
    with None g show ?thesis by simp
  next
    case (Some s)
    then have m: "(t, s) \<in> set (standings ps)" by (auto dest: map_of_SomeD)
    then have t: "t \<in> teams_of ps" using standings_keys [of ps] by force
    let ?S = "{e \<in> set (standings ps). entry_key e < entry_key (t, s)}"
    have "length (filter (\<lambda>e. entry_key e < entry_key (t, s)) ?L) = card ?S"
      using distinct_card [OF distinct_filter, of ?L "\<lambda>e. entry_key e < entry_key (t, s)"] dL
      by (auto simp: distinct_map)
    also have "\<dots> = card (fst ` ?S)"
      using d by (intro card_image [symmetric]) (auto simp: distinct_map intro: inj_on_subset)
    also have "fst ` ?S = {u \<in> fst ` set (standings ps). team_key ps u < team_key ps t}"
    proof -
      have "?S = {e \<in> set (standings ps). team_key ps (fst e) < team_key ps t}"
        using standings_entry [OF m] standings_entry by (metis (no_types, lifting) Collect_cong prod.collapse)
      then show ?thesis by auto
    qed
    finally have "length (filter (\<lambda>e. entry_key e < entry_key (t, s)) ?L)
      = card {u \<in> teams_of ps. team_key ps u < team_key ps t}" by (simp add: standings_keys)
    then show ?thesis using g Some t by (simp add: ideal_placement_def)
  qed
qed

lemma outcomes_placement:
  assumes "length ps < 65536" "o' \<in> set (outcomes ps)"
  shows "\<exists>p\<in>set ps. o' = \<lparr>so_seat = p_seat p, so_team = p_team p,
     so_placement = ideal_placement ps (p_team p), so_score = p_score p, so_alive_at_end = p_alive p,
     so_forfeited = p_forfeited p\<rparr>"
proof -
  obtain p where p: "p \<in> set ps" "o' = seat_outcome_of (placement_of_team ps) p"
    using assms(2) by (auto simp: outcomes_def)
  then have "p_team p \<in> teams_of ps" by (simp add: teams_of_def)
  with p bt_get_placement [OF assms(1)] show ?thesis by (auto simp: seat_outcome_of_def)
qed

text \<open>
  Property C34. The outcomes of a match are the competition ranking of its teams: there is one outcome per
  pawn, in seat order, and each seat's placement is one more than the number of teams that beat its
  team on the key (forfeited, survivors, total score). So teammates share a placement, tied teams
  share a placement, and a forfeiting team never places above a team that stayed.
\<close>

theorem outcomes_are_ranking:
  assumes "length ps < 65536"
  shows "outcomes ps = sort_key so_seat (map (\<lambda>p. \<lparr>so_seat = p_seat p, so_team = p_team p,
     so_placement = ideal_placement ps (p_team p), so_score = p_score p, so_alive_at_end = p_alive p,
     so_forfeited = p_forfeited p\<rparr>) ps)"
proof -
  have "seat_outcome_of (placement_of_team ps) p = \<lparr>so_seat = p_seat p, so_team = p_team p,
     so_placement = ideal_placement ps (p_team p), so_score = p_score p, so_alive_at_end = p_alive p,
     so_forfeited = p_forfeited p\<rparr>" if "p \<in> set ps" for p
    using that bt_get_placement [OF assms, of "p_team p"] by (simp add: seat_outcome_of_def teams_of_def)
  then show ?thesis unfolding outcomes_def by (intro arg_cong [where f = "sort_key so_seat"] map_cong) auto
qed

lemma ideal_placement_less:
  assumes "t \<in> teams_of ps" "u \<in> teams_of ps"
  shows "ideal_placement ps t < ideal_placement ps u \<longleftrightarrow> team_key ps t < team_key ps u"
proof -
  let ?B = "\<lambda>t. {v \<in> teams_of ps. team_key ps v < team_key ps t}"
  have fin: "finite (?B t)" for t by (simp add: teams_of_def)
  have "card (?B t) < card (?B u)" if "team_key ps t < team_key ps u"
  proof (rule psubset_card_mono [OF fin])
    show "?B t \<subset> ?B u" using that assms(1) by (auto intro: less_trans)
  qed
  moreover have "card (?B u) \<le> card (?B t)" if "\<not> team_key ps t < team_key ps u"
    using that by (intro card_mono [OF fin]) (auto intro: less_le_trans)
  ultimately show ?thesis using assms by (auto simp: ideal_placement_def not_less [symmetric])
qed

subsection \<open>A duel is a field of two\<close>

definition duel_ranked :: "seat_outcome \<Rightarrow> seat_outcome \<Rightarrow> bool" where
  "duel_ranked a b \<longleftrightarrow>
     (so_placement a = 1 \<and> so_placement b = 1)
     \<or> (so_team a \<noteq> so_team b \<and> so_placement a = 1 \<and> so_placement b = 2 \<and> (so_forfeited a \<longrightarrow> so_forfeited b))
     \<or> (so_team a \<noteq> so_team b \<and> so_placement a = 2 \<and> so_placement b = 1 \<and> (so_forfeited b \<longrightarrow> so_forfeited a))"

lemma duel_ranked_sym: "duel_ranked a b \<Longrightarrow> duel_ranked b a"
  by (auto simp: duel_ranked_def)

lemma ranked_delta_pair:
  assumes "mr_outcomes r = [a, b]" "duel_ranked a b" "so_seat a \<noteq> so_seat b"
  shows "ranked_delta r ra rb k = Some (rating_delta ra rb (pair_outcome [a, b] a b) k)"
  using assms
  by (auto simp: ranked_delta_def settlement_of_def duel_ranked_def pair_outcome_def dq_teams_def)

lemma two_pawns_ranked:
  assumes "ps = [p, q]" "o1 = seat_outcome_of (placement_of_team ps) p"
    "o2 = seat_outcome_of (placement_of_team ps) q"
  shows "duel_ranked o1 o2"
proof -
  have o: "so_placement o1 = ideal_placement ps (p_team p)" "so_placement o2 = ideal_placement ps (p_team q)"
    "so_team o1 = p_team p" "so_team o2 = p_team q" "so_forfeited o1 = p_forfeited p" "so_forfeited o2 = p_forfeited q"
    using assms bt_get_placement [of ps] by (auto simp: seat_outcome_of_def teams_of_def)
  let ?B = "\<lambda>t. {u \<in> {p_team p, p_team q}. team_key ps u < team_key ps t}"
  have i: "ideal_placement ps t = 1 + card (?B t)" for t by (simp add: ideal_placement_def teams_of_def assms(1))
  have forf: "p_team p \<noteq> p_team q \<Longrightarrow> fst (team_key ps (p_team p)) = p_forfeited p"
    "p_team p \<noteq> p_team q \<Longrightarrow> fst (team_key ps (p_team q)) = p_forfeited q"
    by (auto simp: team_key_def assms(1))
  have fst_le: "fst x \<le> fst y" if "x < y" for x y :: "bool \<times> int \<times> int"
    using that by (cases x; cases y) (auto simp: less_prod_def)
  consider (lt) "team_key ps (p_team p) < team_key ps (p_team q)"
    | (gt) "team_key ps (p_team q) < team_key ps (p_team p)"
    | (eq) "team_key ps (p_team p) = team_key ps (p_team q)" using less_linear by blast
  then show ?thesis
  proof cases
    case lt
    then have "?B (p_team p) = {}" "?B (p_team q) = {p_team p}" "p_team p \<noteq> p_team q" by auto
    with fst_le [OF lt] forf show ?thesis by (auto simp: duel_ranked_def o i)
  next
    case gt
    then have "?B (p_team q) = {}" "?B (p_team p) = {p_team q}" "p_team p \<noteq> p_team q" by auto
    with fst_le [OF gt] forf show ?thesis by (auto simp: duel_ranked_def o i)
  next
    case eq
    then have "?B (p_team q) = {}" "?B (p_team p) = {}" by auto
    then show ?thesis by (simp add: duel_ranked_def o i)
  qed
qed

text \<open>
  On a two-seat match the field rating and the duel rating agree bit for bit, whoever won,
  forfeited or tied, and whether or not the two share a team: the duel reads the winner from the
  settlement and the field from the placements, and the ranking keeps the two consistent.
\<close>

theorem field_delta_agrees_with_duel:
  assumes "mr_outcomes r = outcomes ps" "length ps = 2" "distinct (map p_seat ps)" "0 \<le> k" "in_i32 k"
  shows "\<exists>a b d. mr_outcomes r = [a, b] \<and> ranked_delta r ra rb k = Some d
    \<and> ranked_field_delta r [ra, rb] k
      = Some [\<lparr>sd_seat = so_seat a, sd_delta = rd_a d\<rparr>, \<lparr>sd_seat = so_seat b, sd_delta = rd_b d\<rparr>]"
proof -
  obtain p q where ps: "ps = [p, q]" using assms(2) by (auto simp: length_Suc_conv numeral_2_eq_2)
  let ?o = "seat_outcome_of (placement_of_team ps)"
  have "so_seat (?o p) = p_seat p" "so_seat (?o q) = p_seat q" by (simp_all add: seat_outcome_of_def)
  moreover have "p_seat p \<noteq> p_seat q" using assms(3) ps by simp
  ultimately have ne: "so_seat (?o p) \<noteq> so_seat (?o q)" by simp
  note dr = two_pawns_ranked [OF ps refl refl]
  have "outcomes ps = [?o p, ?o q] \<or> outcomes ps = [?o q, ?o p]"
    unfolding outcomes_def by (subst (2 4) ps) (simp add: seat_outcome_of_def)
  then obtain a b where ab: "mr_outcomes r = [a, b]" "duel_ranked a b" "so_seat a \<noteq> so_seat b"
    using dr duel_ranked_sym [OF dr] ne assms(1) by (metis (no_types))
  let ?d = "rating_delta ra rb (pair_outcome [a, b] a b) k"
  have "\<bar>rd_a ?d\<bar> \<le> k" using rating_delta_eq(2) [OF assms(4,5)] .
  then have "in_i32 (rd_a ?d)" "in_i32 (- rd_a ?d)" using assms(4,5) unfolding in_i32_def by linarith+
  with ranked_delta_pair [OF ab] ab(1) show ?thesis
    by (auto simp: ranked_field_delta_def Let_def field_sums_def field_pairs_2 play_pair_def rd_b_eq)
qed

definition ranking_pawn :: "seat_id \<Rightarrow> team_id \<Rightarrow> i32 \<Rightarrow> bool \<Rightarrow> bool \<Rightarrow> pawn" where
  "ranking_pawn s t sc al fo = \<lparr>p_seat = s, p_team = t, p_pos = vec2_zero, p_z = 0, p_z_vel = 0, p_facing = 0,
     p_vel = vec2_zero, p_health = of_bool al, p_max_health = 1, p_shield = 0, p_ammo = 0, p_cooldown = 0,
     p_dash_cooldown = 0, p_launched_by = None, p_score = sc, p_alive = al, p_forfeited = fo\<rparr>"

lemma ranking_pawn_simps:
  "p_seat (ranking_pawn s t sc al fo) = s" "p_team (ranking_pawn s t sc al fo) = t"
  by (simp_all add: ranking_pawn_def)

definition ranking_sample :: "pawn list" where
  "ranking_sample = [ranking_pawn 2 7 50 False True, ranking_pawn 0 3 10 True False,
     ranking_pawn 1 3 0 False False, ranking_pawn 3 9 10 True False]"

theorem outcomes_are_ranking_witness:
  "length ranking_sample < 65536
   \<and> map (\<lambda>o'. (so_seat o', so_placement o')) (outcomes ranking_sample) = [(0, 1), (1, 1), (2, 3), (3, 1)]"
proof -
  let ?k = "team_key ranking_sample"
  have k: "?k 3 = (False, - 1, - 10)" "?k 7 = (True, 0, - 50)" "?k 9 = (False, - 1, - 10)"
    by (simp_all add: team_key_def ranking_sample_def ranking_pawn_def)
  have t: "teams_of ranking_sample = {3, 7, 9}"
    by (auto simp: teams_of_def ranking_sample_def ranking_pawn_simps)
  have "{u \<in> {3, 7, 9}. ?k u < ?k 3} = {}" "{u \<in> {3, 7, 9}. ?k u < ?k 7} = {3, 9}" "{u \<in> {3, 7, 9}. ?k u < ?k 9} = {}"
    using k by auto
  then have "ideal_placement ranking_sample 3 = 1" "ideal_placement ranking_sample 7 = 3"
    "ideal_placement ranking_sample 9 = 1"
    by (simp_all add: ideal_placement_def t)
  moreover have "length ranking_sample < 65536" by (simp add: ranking_sample_def)
  moreover from outcomes_are_ranking [OF this]
  have "map (\<lambda>o'. (so_seat o', so_placement o')) (outcomes ranking_sample)
      = map (\<lambda>p. (p_seat p, ideal_placement ranking_sample (p_team p))) (sort_key p_seat ranking_sample)"
    by (simp add: ranking_sample_def ranking_pawn_simps)
  moreover have "sort_key p_seat ranking_sample = [ranking_pawn 0 3 10 True False,
     ranking_pawn 1 3 0 False False, ranking_pawn 2 7 50 False True, ranking_pawn 3 9 10 True False]"
    by (simp add: ranking_sample_def ranking_pawn_simps)
  ultimately show ?thesis by (simp add: ranking_pawn_simps)
qed

theorem field_delta_agrees_with_duel_witness:
  "\<exists>(a::seat_outcome) (b::seat_outcome) d. ranked_delta (duel_result (outcomes [ranking_pawn 0 0 50 True False, ranking_pawn 1 1 0 False False]))
       1500 1900 32 = Some d
     \<and> ranked_field_delta (duel_result (outcomes [ranking_pawn 0 0 50 True False, ranking_pawn 1 1 0 False False]))
       [1500, 1900] 32
       = Some [\<lparr>sd_seat = so_seat a, sd_delta = rd_a d\<rparr>, \<lparr>sd_seat = so_seat b, sd_delta = rd_b d\<rparr>]"
proof -
  let ?ps = "[ranking_pawn 0 0 50 True False, ranking_pawn 1 1 0 False False]"
  let ?r = "duel_result (outcomes ?ps)"
  have "mr_outcomes ?r = outcomes ?ps" by (simp add: duel_result_def)
  moreover have "length ?ps = 2" "distinct (map p_seat ?ps)" by (simp_all add: ranking_pawn_simps)
  moreover have "0 \<le> (32::int)" "in_i32 32" by (simp_all add: in_i32_def)
  ultimately show ?thesis using field_delta_agrees_with_duel [of ?r ?ps 32 1500 1900] by blast
qed

end
