(* ===== verification/Movement.thy ===== *)
theory Movement
  imports Match_Inv
begin

section \<open>Movement is collision free\<close>

text \<open>
  The meaning of a slide in the plane of the arena: wherever \<^verbatim>\<open>Match::slide\<close> puts a pawn, the straight
  path it took avoids every wall the pawn did not already stand in and every living body it did not
  already overlap. Rests on the exactness of the two segment tests.
\<close>

lemma point_meets_box:
  "segment_meets_box p z p z b \<longleftrightarrow> blocker_contains_3d b p z"
  by (auto simp: segment_meets_box_def blocker_contains_3d_def blocker_contains_def)

lemma point_meets_disc: "segment_meets_disc p p c r \<longleftrightarrow> within_range p c r"
proof -
  have "segment_meets_disc p p c r \<longleftrightarrow>
      (real_of_int (vx p - vx c))\<^sup>2 + (real_of_int (vy p - vy c))\<^sup>2 \<le> (real_of_int r)\<^sup>2"
    by (auto simp: segment_meets_disc_def intro!: exI [of _ 0])
  also have "\<dots> \<longleftrightarrow> (vx p - vx c)\<^sup>2 + (vy p - vy c)\<^sup>2 \<le> r\<^sup>2"
    by (simp only: of_int_power [symmetric] of_int_add [symmetric] of_int_le_iff)
  also have "\<dots> \<longleftrightarrow> within_range p c r"
    by (simp add: within_range_def Let_def power2_eq_square algebra_simps)
  finally show ?thesis .
qed

lemma path_clear_blockers:
  assumes "\<not> path_hits_blocker bs from z to z" "b \<in> set bs" "wf_blocker b" "\<not> blocker_contains_3d b from z"
  shows "\<not> segment_meets_box from z to z b"
  using assms box_test_exact [OF assms(3)]
  by (auto simp: path_hits_blocker_def list_ex_iff)

lemma anyM_False: "anyM f xs = Some False \<Longrightarrow> x \<in> set xs \<Longrightarrow> f x = Some False"
  by (induction xs) (auto simp: panic_simps split: if_splits)

definition solid_for :: "arena_match \<Rightarrow> seat_id \<Rightarrow> vec2 \<Rightarrow> i32 \<Rightarrow> pawn \<Rightarrow> bool" where
  "solid_for m mover from z p \<longleftrightarrow> 0 < r_pawn_radius (m_rules m) \<and> p_alive p \<and> p_seat p \<noteq> mover
     \<and> \<not> within_range from (p_pos p) (r_pawn_radius (m_rules m))
     \<and> pawn_bands_overlap z (p_z p) (r_pawn_height (m_rules m))"

lemma path_clear_pawns:
  assumes "path_obstructed m mover from z to = Some False" "p \<in> set (m_pawns m)" "solid_for m mover from z p"
  shows "\<not> segment_meets_disc from to (p_pos p) (r_pawn_radius (m_rules m))"
proof -
  let ?r = "r_pawn_radius (m_rules m)"
  have "anyM (blocks_path m mover from z to) (m_pawns m) = Some False"
    using assms(1,3) by (auto simp: path_obstructed_def solid_for_def split: if_splits)
  from anyM_False [OF this assms(2)] assms(3) have "segment_hits_disc from to (p_pos p) ?r = Some False"
    by (auto simp: blocks_path_def Let_def solid_for_def panic_simps)
  from disc_test_exact [OF this] show ?thesis by simp
qed

text \<open>
  Property C33. A slide never passes through anything solid. Whenever \<^verbatim>\<open>Match::slide\<close> returns, the pawn
  that was inside the arena is still inside, the whole straight path from the old position to the new
  one misses every well-formed wall the pawn did not already stand in, and keeps at least the body
  radius from every other living pawn it did not already overlap, at any speed.
\<close>

theorem slide_collision_free:
  assumes "slide m mover from z dir mag = Some to"
  shows "(in_bounds (m_config m) from \<longrightarrow> in_bounds (m_config m) to)
    \<and> (\<forall>b\<in>set (m_blockers m). wf_blocker b \<longrightarrow> \<not> blocker_contains_3d b from z
          \<longrightarrow> \<not> segment_meets_box from z to z b)
    \<and> (\<forall>p\<in>set (m_pawns m). solid_for m mover from z p
          \<longrightarrow> \<not> segment_meets_disc from to (p_pos p) (r_pawn_radius (m_rules m)))"
proof (intro conjI)
  show "in_bounds (m_config m) from \<longrightarrow> in_bounds (m_config m) to"
    using slide_in_bounds [OF assms] by blast
  from assms show "\<forall>b\<in>set (m_blockers m). wf_blocker b \<longrightarrow> \<not> blocker_contains_3d b from z
      \<longrightarrow> \<not> segment_meets_box from z to z b"
  proof (cases rule: slide_cases)
    case (2 dx dy)
    then have "\<not> path_hits_blocker (m_blockers m) from z to z"
      by (auto simp: path_obstructed_def split: if_splits)
    then show ?thesis using path_clear_blockers by blast
  qed (simp add: point_meets_box)
  from assms show "\<forall>p\<in>set (m_pawns m). solid_for m mover from z p
      \<longrightarrow> \<not> segment_meets_disc from to (p_pos p) (r_pawn_radius (m_rules m))"
  proof (cases rule: slide_cases)
    case (2 dx dy)
    then show ?thesis using path_clear_pawns by blast
  qed (auto simp: point_meets_disc solid_for_def)
qed

definition corridor :: arena_match where
  "corridor = \<lparr>m_match_id = [], m_config = duel_config, m_rules = default_rules, m_seats = duel_seats,
     m_blockers = [\<lparr>b_min = \<lparr>vx = 100, vy = - 50\<rparr>, b_max = \<lparr>vx = 120, vy = 50\<rparr>, b_height = 0\<rparr>],
     m_pawns = [], m_projectiles = [], m_next_projectile_id = 65536, m_pickup_config = [], m_pickups = [],
     m_seat_memory = [], m_tick = 0, m_phase = Live, m_starting_remaining = 0, m_seed = 0,
     m_pending_forfeits = [], m_ticks = [], m_result = None\<rparr>"

theorem slide_collision_free_witness:
  "slide corridor 0 \<lparr>vx = 0, vy = 0\<rparr> 0 \<lparr>vx = 1000, vy = 0\<rparr> 200 = Some \<lparr>vx = 0, vy = 0\<rparr>
   \<and> slide corridor 0 \<lparr>vx = 0, vy = 0\<rparr> 0 \<lparr>vx = 0, vy = 1000\<rparr> 200 = Some \<lparr>vx = 0, vy = 200\<rparr>
   \<and> in_bounds duel_config \<lparr>vx = 0, vy = 200\<rparr>"
proof -
  have s: "slide corridor 0 \<lparr>vx = 0, vy = 0\<rparr> 0 \<lparr>vx = 1000, vy = 0\<rparr> 200 = Some \<lparr>vx = 0, vy = 0\<rparr>"
    "slide corridor 0 \<lparr>vx = 0, vy = 0\<rparr> 0 \<lparr>vx = 0, vy = 1000\<rparr> 200 = Some \<lparr>vx = 0, vy = 200\<rparr>"
    by (simp_all add: slide_def corridor_def duel_config_def default_rules_defs slide_target_def
        clamp_panics_def clampi_def as_i32_def path_obstructed_def path_hits_blocker_def
        blocker_contains_3d_def blocker_contains_def segment_intersects_box_3d_def
        segment_intersects_aabb_def sdiv_nonneg)
  from slide_collision_free [OF s(2)] s show ?thesis
    by (simp add: corridor_def in_bounds_def duel_config_def)
qed

end
