(* ===== verification/Fog_Of_War.thy ===== *)
theory Fog_Of_War
  imports Match_Machine
begin

section \<open>A seat learns only what it perceived\<close>

text \<open>
  The history of a run is kept as a ghost: \<open>visited\<close> lists the states a match went through. Every entry
  of a seat's perception memory is shown to be a snapshot of something that very seat perceived, alive,
  in one of those states, and so is everything an observation reveals.
\<close>

inductive visited :: "crates \<Rightarrow> arena_match \<Rightarrow> arena_match list \<Rightarrow> arena_match \<Rightarrow> bool" for X m0 where
  Start: "visited X m0 [m0] m0"
| Next: "visited X m0 H m \<Longrightarrow> match_step X m m' \<Longrightarrow> visited X m0 (m' # H) m'"

inductive_cases visited_elim: "visited X m0 H m"

definition perceived_at :: "arena_match \<Rightarrow> seat_id \<Rightarrow> u32 \<times> remembered \<Rightarrow> bool" where
  "perceived_at n seat e \<longleftrightarrow>
     (\<exists>me\<in>set (m_pawns n). p_seat me = seat \<and> p_alive me \<and> e \<in> set (seen_now n (m_tick n) me))"

definition memory_sound :: "arena_match list \<Rightarrow> arena_match \<Rightarrow> bool" where
  "memory_sound H m \<longleftrightarrow>
     (\<forall>i<length (m_seat_memory m). \<forall>e\<in>set (m_seat_memory m ! i).
        \<exists>n\<in>set H. perceived_at n i e \<and> m_tick n = rm_last_seen (snd e) \<and> m_tick n \<le> m_tick m)"

lemma visited_head: "visited X m0 H m \<Longrightarrow> m \<in> set H"
  by (erule visited_elim) auto

lemma seen_now_last_seen: "e \<in> set (seen_now m t me) \<Longrightarrow> rm_last_seen (snd e) = t"
  by (auto simp: seen_now_def remember_pawn_def remember_projectile_def remember_pickup_def)

lemma seen_now_memory [simp]: "seen_now (m\<lparr>m_seat_memory := mem\<rparr>) t me = seen_now m t me"
  by (simp add: seen_now_def seen_pawns_def seen_projectiles_def seen_pickups_def perceives_def)

lemma set_refresh_mem: "set (refresh_mem w t seen mem) \<subseteq> set seen \<union> set mem"
proof -
  have "set (fold (\<lambda>(k, v). bt_insert k v) seen mem) \<subseteq> set seen \<union> set mem"
  proof (induction seen arbitrary: mem)
    case (Cons x xs)
    then show ?case using set_bt_insert [of "fst x" "snd x" mem] by (cases x) fastforce
  qed simp
  then show ?thesis by (auto simp: refresh_mem_def)
qed

definition memory_grows :: "arena_match \<Rightarrow> arena_match \<Rightarrow> bool" where
  "memory_grows m m' \<longleftrightarrow> (\<exists>mem. m' = m\<lparr>m_seat_memory := mem\<rparr> \<and> length mem = length (m_seat_memory m)
     \<and> (\<forall>i<length mem. \<forall>e\<in>set (mem ! i). e \<in> set (m_seat_memory m ! i) \<or> perceived_at m i e))"

lemma refresh_memory_grows:
  assumes "refresh_perception_memory (m_tick m) m = Some m'"
  shows "memory_grows m m'"
proof (rule foldM_rel [where R = memory_grows])
  fix me u v
  assume me: "me \<in> set (filter p_alive (m_pawns m))" and u: "memory_grows m u"
    and v: "refresh_seat (m_tick m) me u = Some v"
  obtain mem where mem: "u = m\<lparr>m_seat_memory := mem\<rparr>" "length mem = length (m_seat_memory m)"
    "\<forall>i<length mem. \<forall>e\<in>set (mem ! i). e \<in> set (m_seat_memory m ! i) \<or> perceived_at m i e"
    using u by (auto simp: memory_grows_def)
  let ?i = "p_seat me"
  let ?new = "refresh_mem (r_perception_memory_ticks (m_rules m)) (m_tick m) (seen_now m (m_tick m) me) (mem ! ?i)"
  have v': "?i < length mem" "v = m\<lparr>m_seat_memory := mem[?i := ?new]\<rparr>"
    using v by (auto simp: refresh_seat_def Let_def mem(1) split: if_splits)
  have "perceived_at m ?i e" if "e \<in> set (seen_now m (m_tick m) me)" for e
    using me that by (auto simp: perceived_at_def)
  then have "\<forall>e\<in>set ?new. e \<in> set (m_seat_memory m ! ?i) \<or> perceived_at m ?i e"
    using set_refresh_mem mem(3) v'(1) by blast
  with mem(3) v'(1) have "\<forall>i<length mem. \<forall>e\<in>set (mem[?i := ?new] ! i).
      e \<in> set (m_seat_memory m ! i) \<or> perceived_at m i e"
    by (metis nth_list_update_eq nth_list_update_neq)
  with mem(2) v'(2) show "memory_grows m v"
    unfolding memory_grows_def by (intro exI [of _ "mem[?i := ?new]"]) simp
next
  show "memory_grows m m" by (auto simp: memory_grows_def intro!: exI [of _ "m_seat_memory m"])
qed (use assms in \<open>simp add: refresh_perception_memory_def\<close>)

lemma step_memory_grows:
  assumes "step X is m = Some m'" "m_phase m = Live"
  shows "\<exists>n. memory_grows m n \<and> m_seat_memory m' = m_seat_memory n"
proof -
  let ?mem = "if r_perception_memory_ticks (m_rules m) > 0 then refresh_perception_memory (m_tick m) m else Some m"
  from assms obtain n where n: "?mem = Some n"
    by (auto simp: step_def panic_simps Let_def split: if_splits)
  have g: "memory_grows m n"
    using n refresh_memory_grows [of m n]
    by (auto simp: memory_grows_def intro!: exI [of _ "m_seat_memory m"] split: if_splits)
  obtain d ds where d: "drain_forfeits n = (d, ds)" by fastforce
  from assms n d obtain u where u: "run_tick (accept_intents d is) d = Some u"
    "close_tick X (m_tick m) (accept_intents d is) ds u = Some m'"
    by (auto simp: step_def panic_simps Let_def split: if_splits prod.splits)
  have "m_seat_memory m' = m_seat_memory u" using u(2) by (auto simp: close_tick_def Let_def panic_simps)
  also have "\<dots> = m_seat_memory d" using run_tick_evolves [OF u(1)] by (simp add: step_frame)
  also have "\<dots> = m_seat_memory n" using d by (auto simp: drain_forfeits_def split: prod.splits)
  finally show ?thesis using g by blast
qed

lemma memory_sound_step:
  assumes "match_step X m m'" "memory_sound H m" "m \<in> set H"
  shows "memory_sound (m' # H) m'"
  using assms(1)
proof cases
  case (Tick "is")
  obtain n where n: "memory_grows m n" "m_seat_memory m' = m_seat_memory n"
    using step_memory_grows [OF Tick(2,1)] by blast
  have t: "m_tick m' = m_tick m + 1" by (rule step_live_frame(8) [OF Tick(2,1)])
  show ?thesis
    unfolding memory_sound_def
  proof (intro allI impI ballI)
    fix i e assume i: "i < length (m_seat_memory m')" "e \<in> set (m_seat_memory m' ! i)"
    then have "i < length (m_seat_memory m)" "e \<in> set (m_seat_memory m ! i) \<or> perceived_at m i e"
      using n unfolding memory_grows_def by fastforce+
    then show "\<exists>n\<in>set (m' # H). perceived_at n i e \<and> m_tick n = rm_last_seen (snd e) \<and> m_tick n \<le> m_tick m'"
    proof (elim disjE)
      assume "i < length (m_seat_memory m)" "e \<in> set (m_seat_memory m ! i)"
      with assms(2) t show ?thesis by (fastforce simp: memory_sound_def)
    next
      assume p: "perceived_at m i e"
      then have "m_tick m = rm_last_seen (snd e)"
        by (auto simp: perceived_at_def dest: seen_now_last_seen)
      with p assms(3) t show ?thesis by auto
    qed
  qed
qed (use assms(2) in \<open>auto simp: memory_sound_def step_starting_def Let_def\<close>)

lemma visited_memory_sound:
  assumes "visited X m0 H m" "new_with_pickups i c r ss bs pks sd = Some m0"
  shows "memory_sound H m"
  using assms(1)
proof induction
  case Start
  then show ?case using new_with_pickups_fresh(14) [OF assms(2)] by (simp add: memory_sound_def)
next
  case (Next H m m')
  then show ?case using memory_sound_step visited_head by blast
qed

text \<open>
  Property C27. No controller ever learns more than its pawn perceived. In every state a match can reach,
  each entity of a seat's observation is either in line of sight, and then it is a living rival, a shot
  or an active pickup that passes the range, cone and wall tests from the seat's own eye right now; or it
  is flagged as remembered, and then it is the exact snapshot of something this seat perceived while
  alive in an earlier state of this match, between one tick and the memory window ago.
\<close>

theorem observation_reveals_only_perceived:
  assumes "new_with_pickups i c r ss bs pks sd = Some m0" "visited X m0 H m"
    "observe m seat = Some obs" "e \<in> set (obs_visible obs)"
  shows "\<exists>me\<in>set (m_pawns m). p_seat me = seat \<and>
    (if ve_in_line_of_sight e then
       (\<exists>p\<in>set (m_pawns m). p_alive p \<and> p_seat p \<noteq> seat \<and> e = visible_pawn p
          \<and> perceives m (p_pos me) (p_z me) (p_facing me) (p_pos p) (p_z p))
       \<or> (\<exists>q\<in>set (m_projectiles m). e = visible_projectile q
          \<and> perceives m (p_pos me) (p_z me) (p_facing me) (pj_pos q) (pj_z q))
       \<or> (\<exists>k\<in>set (m_pickups m). pk_active k \<and> e = visible_pickup k
          \<and> perceives m (p_pos me) (p_z me) (p_facing me) (pk_pos k) 0)
     else
       \<exists>n\<in>set H. \<exists>s. perceived_at n seat s \<and> e = visible_memory s
          \<and> 1 \<le> m_tick m - m_tick n \<and> m_tick m - m_tick n \<le> r_perception_memory_ticks (m_rules m))"
proof -
  obtain me rem where o: "find_pawn m seat = Some me" "visible_remembered m seat (visible_live m me) = Some rem"
    "obs_visible obs = sort_key ve_entity_id (visible_live m me @ rem)"
    using assms(3) by (auto simp: observe_def panic_simps)
  have me: "me \<in> set (m_pawns m)" "p_seat me = seat"
    using o(1) by (auto simp: find_pawn_def find_Some_iff)
  consider "e \<in> set (visible_live m me)" | "e \<in> set rem" using assms(4) o(3) by auto
  then show ?thesis
  proof cases
    case 1
    then have "ve_in_line_of_sight e"
      by (auto simp: visible_live_def visible_pawn_def visible_projectile_def visible_pickup_def)
    with 1 me show ?thesis
      by (intro bexI [of _ me])
        (auto simp: visible_live_def seen_pawns_def seen_projectiles_def seen_pickups_def)
  next
    case 2
    let ?w = "r_perception_memory_ticks (m_rules m)"
    obtain s where s: "e = visible_memory s" "s \<in> set (m_seat_memory m ! seat)" "seat < length (m_seat_memory m)"
      "1 \<le> m_tick m - rm_last_seen (snd s)" "m_tick m - rm_last_seen (snd s) \<le> ?w"
      using 2 o(2) by (auto simp: visible_remembered_def Let_def split: if_splits)
    obtain n where n: "n \<in> set H" "perceived_at n seat s" "m_tick n = rm_last_seen (snd s)"
      using visited_memory_sound [OF assms(2,1)] s(2,3) by (auto simp: memory_sound_def)
    have "\<not> ve_in_line_of_sight e" using s(1) by (simp add: visible_memory_def split: prod.splits)
    moreover have "\<exists>n\<in>set H. \<exists>s. perceived_at n seat s \<and> e = visible_memory s
        \<and> 1 \<le> m_tick m - m_tick n \<and> m_tick m - m_tick n \<le> ?w"
      using n s by metis
    ultimately show ?thesis using me by auto
  qed
qed

theorem observation_reveals_only_perceived_witness:
  "\<exists>obs. visited toy_crates duel_start [duel_start] duel_start \<and> observe duel_start 0 = Some obs
     \<and> visible_pawn (duel_pawn 1 20000 32768) \<in> set (obs_visible obs)
     \<and> (\<exists>me\<in>set (m_pawns duel_start). p_seat me = 0)"
proof -
  have v: "visited toy_crates duel_start [duel_start] duel_start" by (rule Start)
  obtain obs where o: "observe duel_start 0 = Some obs" "visible_pawn (duel_pawn 1 20000 32768) \<in> set (obs_visible obs)"
    by (simp add: observe_def find_pawn_def duel_start_def duel_pawn_def visible_remembered_def visible_live_def
        seen_pawns_def seen_projectiles_def seen_pickups_def perceives_def within_range_def in_fov_def has_line_of_sight_def duel_rules_def
        default_rules_defs)
  from observation_reveals_only_perceived [OF duel_start_new v o] v o show ?thesis by blast
qed

end
