(* ===== verification/Weapons.thy ===== *)
theory Weapons
  imports Match_Machine
begin

section \<open>Damage, targeting and projectiles\<close>

text \<open>
  The functional behaviour of the combat helpers: where damage goes, whom a hitscan shot hits, and the
  invariant of the projectiles in flight (their number, their identities and their age) over every run.
\<close>

subsection \<open>Damage\<close>

text \<open>
  Damage is accounted for exactly: what \<^verbatim>\<open>apply_hp_damage\<close> reports is what the shield and the
  health lost together, never more than the raw damage nor than the pawn had left; the shield is spent
  before the health; and the pawn is down afterwards exactly when it was down before or has no health.
\<close>

theorem hp_damage_accounting:
  "let (p', dealt) = hp_damage raw p in
     dealt = min raw (p_shield p + p_health p)
     \<and> p_shield p' + p_health p' + dealt = p_shield p + p_health p
     \<and> (p_health p' < p_health p \<longrightarrow> p_shield p' = 0)
     \<and> (p_alive p' \<longleftrightarrow> p_alive p \<and> 0 < p_health p')"
  by (auto simp: hp_damage_def Let_def)

theorem hp_damage_accounting_witness:
  "hp_damage 30 (duel_pawn 0 0 0\<lparr>p_shield := 20\<rparr>) = (duel_pawn 0 0 0\<lparr>p_shield := 0, p_health := 90\<rparr>, 30)
   \<and> p_shield (fst (hp_damage 30 (duel_pawn 0 0 0\<lparr>p_shield := 20\<rparr>))) = 0"
  using hp_damage_accounting [of 30 "duel_pawn 0 0 0\<lparr>p_shield := 20\<rparr>"]
  by (simp add: hp_damage_def duel_pawn_def Let_def)

subsection \<open>Hitscan\<close>

lemma nearest_best:
  "nearest best xs = Some (j, d) \<Longrightarrow>
   (\<forall>k e. best = Some (k, e) \<longrightarrow> d \<le> e) \<and> (\<forall>(k, e)\<in>set xs. d \<le> e)"
proof (induction best xs arbitrary: j d rule: nearest.induct)
  case (2 best k e xs)
  let ?b = "case best of None \<Rightarrow> Some (k, e) | Some (k', e') \<Rightarrow> if e < e' then Some (k, e) else Some (k', e')"
  from 2(2) have "nearest ?b xs = Some (j, d)" by simp
  from 2(1) [OF this] show ?case by (auto split: option.splits if_splits)
qed auto

lemma nearest_None: "nearest best xs = None \<longleftrightarrow> best = None \<and> xs = []"
  by (induction best xs rule: nearest.induct) (auto split: option.splits if_splits)

text \<open>
  A hitscan shot hits the nearest eligible target: it finds nobody exactly when no pawn other
  than the shooter passes the fire test, and otherwise the pawn it hits passes the test and no pawn
  that passes it is closer.
\<close>

theorem fire_target_nearest:
  "case fire_target m i of
     None \<Rightarrow> \<forall>k<length (m_pawns m). k = i \<or> \<not> fire_hits m (m_pawns m ! i) (m_pawns m ! k)
   | Some j \<Rightarrow> j < length (m_pawns m) \<and> j \<noteq> i \<and> fire_hits m (m_pawns m ! i) (m_pawns m ! j)
       \<and> (\<forall>k<length (m_pawns m). k \<noteq> i \<and> fire_hits m (m_pawns m ! i) (m_pawns m ! k) \<longrightarrow>
            fire_dist2 (p_pos (m_pawns m ! i)) (p_pos (m_pawns m ! j))
            \<le> fire_dist2 (p_pos (m_pawns m ! i)) (p_pos (m_pawns m ! k)))"
proof -
  let ?s = "m_pawns m ! i"
  define cands where "cands = map (\<lambda>(j, t). (j, fire_dist2 (p_pos ?s) (p_pos t)))
    (filter (\<lambda>(j, t). j \<noteq> i \<and> fire_hits m ?s t) (enumerate 0 (m_pawns m)))"
  have c: "(k, d) \<in> set cands \<longleftrightarrow> k < length (m_pawns m) \<and> k \<noteq> i \<and> fire_hits m ?s (m_pawns m ! k)
      \<and> d = fire_dist2 (p_pos ?s) (p_pos (m_pawns m ! k))" for k d
    by (auto simp: cands_def in_set_enumerate_eq image_iff)
  have f: "fire_target m i = map_option fst (nearest None cands)"
    by (simp add: fire_target_def Let_def cands_def)
  show ?thesis
  proof (cases "nearest None cands")
    case None
    then have "cands = []" by (simp add: nearest_None)
    with c f None show ?thesis by auto
  next
    case (Some jd)
    obtain j d where jd: "jd = (j, d)" by (cases jd)
    have "(j, d) \<in> set cands" using nearest_in [OF Some] jd by simp
    moreover have "\<forall>(k, e)\<in>set cands. d \<le> e" using nearest_best [of None cands j d] Some jd by simp
    ultimately show ?thesis using f Some jd c by auto
  qed
qed

theorem fire_target_nearest_witness:
  "fire_hits (duel_start\<lparr>m_rules := duel_rules\<lparr>r_weapon_range := 50000\<rparr>\<rparr>) (duel_pawn 0 (- 20000) 0) (duel_pawn 1 20000 32768)
   \<and> fire_target (duel_start\<lparr>m_rules := duel_rules\<lparr>r_weapon_range := 50000\<rparr>\<rparr>) 0 = Some 1"
proof -
  let ?m = "duel_start\<lparr>m_rules := duel_rules\<lparr>r_weapon_range := 50000\<rparr>\<rparr>"
  have h: "fire_hits ?m (duel_pawn 0 (- 20000) 0) (duel_pawn 1 20000 32768)"
    by (simp add: fire_hits_def Let_def duel_start_def duel_rules_def default_rules_defs aim_unit_def
        octant_unit_def octant_index_def OCTANTS_def OCTANT_SCALE_def duel_pawn_def may_target_def
        has_line_of_sight_def within_vertical_tolerance_def sdiv_nonneg)
  have p: "m_pawns ?m = [duel_pawn 0 (- 20000) 0, duel_pawn 1 20000 32768]" by (simp add: duel_start_def)
  from fire_target_nearest [of ?m 0] h have "fire_target ?m 0 = Some 1"
    by (auto simp: p less_Suc_eq split: option.splits)
  with h show ?thesis by simp
qed

subsection \<open>Projectiles\<close>

definition shots_ok :: "arena_match \<Rightarrow> bool" where
  "shots_ok m \<longleftrightarrow> length (m_projectiles m) \<le> MAX_LIVE_PROJECTILES
     \<and> sorted_wrt (<) (map pj_id (m_projectiles m))
     \<and> (\<forall>q\<in>set (m_projectiles m). PROJECTILE_ID_BASE \<le> pj_id q \<and> pj_id q < m_next_projectile_id m
          \<and> pj_age q < MAX_PROJECTILE_LIFETIME)
     \<and> PROJECTILE_ID_BASE \<le> m_next_projectile_id m"

definition same_shots :: "arena_match \<Rightarrow> arena_match \<Rightarrow> bool" where
  "same_shots m m' \<longleftrightarrow> m_projectiles m' = m_projectiles m \<and> m_next_projectile_id m' = m_next_projectile_id m"

lemma same_shots_ok: "same_shots m m' \<Longrightarrow> shots_ok m \<Longrightarrow> shots_ok m'"
  by (simp add: same_shots_def shots_ok_def)

lemma same_items_shots: "same_items m m' \<Longrightarrow> same_shots m m'"
  by (simp add: same_items_def same_shots_def)

lemma same_shots_trans: "same_shots m n \<Longrightarrow> same_shots n u \<Longrightarrow> same_shots m u"
  by (simp add: same_shots_def)

lemma spawn_projectile_shots:
  assumes "spawn_projectile i m = Some m'" "shots_ok m"
  shows "shots_ok m'"
proof (cases "length (m_projectiles m) \<ge> MAX_LIVE_PROJECTILES")
  case True
  with assms show ?thesis by (simp add: spawn_projectile_def)
next
  case False
  then obtain q where "m' = m\<lparr>m_next_projectile_id := m_next_projectile_id m + 1,
      m_projectiles := m_projectiles m @ [q]\<rparr>" "pj_id q = m_next_projectile_id m" "pj_age q = 0"
    using assms(1) by (auto simp: spawn_projectile_def Let_def panic_simps split: prod.splits)
  with False assms(2) show ?thesis
    by (auto simp: shots_ok_def sorted_wrt_append less_Suc_eq MAX_PROJECTILE_LIFETIME_def)
qed

lemma act_pawn_shots:
  assumes "act_pawn acc i m = Some m'" "i < length (m_pawns m)" "shots_ok m"
  shows "shots_ok m'"
proof -
  let ?spent = "\<lambda>p c. set_pawn i (p\<lparr>p_ammo := p_ammo p - 1, p_cooldown := c\<rparr>) m"
  have set: "shots_ok (set_pawn i p m)" for p using assms(3) by (simp add: shots_ok_def)
  have "shots_ok m'" if "fire_weapon i m = Some m'"
    using that assms(2) set assms(3)
    unfolding fire_weapon_def Let_def
    by (cases "r_weapon_mode (m_rules m)"; cases "p_ammo (m_pawns m ! i) > 0")
      (auto dest!: spawn_projectile_shots resolve_fire_evolves resolve_melee_evolves
        intro: same_shots_ok [OF same_items_shots])
  with assms set show ?thesis by (auto simp: act_pawn_def Let_def split: if_splits option.splits)
qed

lemma advance_fold_survivors:
  assumes "foldM advance_projectile qs (m, sv) = Some (m', sv')"
  shows "\<exists>ks. sv' = sv @ ks \<and> length ks \<le> length qs \<and> set (map pj_id ks) \<subseteq> set (map pj_id qs)
    \<and> (sorted_wrt (<) (map pj_id qs) \<longrightarrow> sorted_wrt (<) (map pj_id ks))
    \<and> (\<forall>k\<in>set ks. pj_age k < MAX_PROJECTILE_LIFETIME)"
  using assms
proof (induction qs arbitrary: m sv)
  case (Cons q qs)
  obtain n sw where n: "advance_projectile q (m, sv) = Some (n, sw)"
    "foldM advance_projectile qs (n, sw) = Some (m', sv')" using Cons.prems by (auto simp: panic_simps)
  from Cons.IH [OF n(2)] obtain ks where ks: "sv' = sw @ ks" "length ks \<le> length qs"
    "set (map pj_id ks) \<subseteq> set (map pj_id qs)" "sorted_wrt (<) (map pj_id qs) \<longrightarrow> sorted_wrt (<) (map pj_id ks)"
    "\<forall>k\<in>set ks. pj_age k < MAX_PROJECTILE_LIFETIME" by blast
  let ?q = "q\<lparr>pj_pos := flight_end q, pj_age := pj_age q + 1\<rparr>"
  consider "sw = sv" | "sw = sv @ [?q]" "pj_age q + 1 < MAX_PROJECTILE_LIFETIME"
    using advance_projectile_evolves [OF n(1)] by blast
  then show ?case
  proof cases
    case 1
    with ks show ?thesis by (intro exI [of _ ks]) auto
  next
    case 2
    with ks show ?thesis by (intro exI [of _ "?q # ks"]) auto
  qed
qed simp

lemma advance_projectiles_shots:
  assumes "advance_projectiles m = Some m'" "shots_ok m"
  shows "shots_ok m'"
proof (cases "m_projectiles m = []")
  case True
  with assms show ?thesis by (simp add: advance_projectiles_def)
next
  case False
  then obtain n ks where n: "foldM advance_projectile (m_projectiles m) (m\<lparr>m_projectiles := []\<rparr>, []) = Some (n, ks)"
    "m' = n\<lparr>m_projectiles := ks\<rparr>"
    using assms(1) by (auto simp: advance_projectiles_def panic_simps)
  have "m_next_projectile_id n = m_next_projectile_id m"
    using advance_fold_evolves [OF n(1)] by (simp add: same_items_def)
  moreover have "length ks \<le> length (m_projectiles m)"
    "set (map pj_id ks) \<subseteq> set (map pj_id (m_projectiles m))" "sorted_wrt (<) (map pj_id ks)"
    "\<forall>k\<in>set ks. pj_age k < MAX_PROJECTILE_LIFETIME"
    using advance_fold_survivors [OF n(1)] assms(2) by (auto simp: shots_ok_def)
  ultimately show ?thesis
    using assms(2) n(2) by (fastforce simp: shots_ok_def)
qed

lemma process_pickups_shots: "same_shots m (process_pickups m)"
proof -
  have turn: "same_shots m (pickup_turn i m)" for i m
    by (auto simp: pickup_turn_def Let_def same_shots_def split: prod.splits)
  have "same_shots m (fold pickup_turn is m)" for "is" m
  proof (induction "is" arbitrary: m)
    case (Cons i js)
    show ?case using same_shots_trans [OF turn Cons.IH] by simp
  qed (simp add: same_shots_def)
  then show ?thesis by (auto simp: process_pickups_def same_shots_def)
qed

lemma seat_loop_shots:
  assumes "foldM f [0..<length (m_pawns m)] m = Some m'" "shots_ok m"
    and f: "\<And>i t t'. f i t = Some t' \<Longrightarrow> i < length (m_pawns t) \<Longrightarrow> shots_ok t \<Longrightarrow> evolves t t' \<and> shots_ok t'"
  shows "shots_ok m'"
proof -
  have "evolves m m' \<and> shots_ok m'"
  proof (rule foldM_rel [where R = "\<lambda>m m'. evolves m m' \<and> shots_ok m'", OF assms(1)])
    fix i t t'
    assume "i \<in> set [0..<length (m_pawns m)]" "evolves m t \<and> shots_ok t" "f i t = Some t'"
    then show "evolves m t' \<and> shots_ok t'"
      using f [of i t t'] by (auto simp: evolves_length intro: evolves_trans)
  qed (use assms(2) in \<open>auto\<close>)
  then show ?thesis ..
qed

lemma run_tick_shots:
  assumes "run_tick acc m = Some m'" "shots_ok m"
  shows "shots_ok m'"
proof -
  let ?m0 = "m\<lparr>m_pawns := map tick_cooldown (m_pawns m)\<rparr>"
  obtain m1 m2 m3 where
    1: "foldM (move_pawn acc) [0..<length (m_pawns ?m0)] ?m0 = Some m1" and
    2: "m2 = m1 \<or> foldM (fall_pawn acc) [0..<length (m_pawns m1)] m1 = Some m2" and
    3: "foldM (act_pawn acc) [0..<length (m_pawns (process_pickups m2))] (process_pickups m2) = Some m3" and
    4: "advance_projectiles m3 = Some m'"
    using assms(1) by (auto simp: run_tick_def Let_def panic_simps split: if_splits)
  have "shots_ok ?m0" using assms(2) by (simp add: shots_ok_def)
  with 1 have m1: "shots_ok m1"
    by (rule seat_loop_shots) (blast dest: move_pawn_evolves intro: same_shots_ok [OF same_items_shots])
  have "shots_ok m2" if "foldM (fall_pawn acc) [0..<length (m_pawns m1)] m1 = Some m2"
    using that m1
    by (rule seat_loop_shots) (blast dest: fall_pawn_evolves intro: same_shots_ok [OF same_items_shots])
  with 2 m1 have "shots_ok m2" by blast
  then have "shots_ok (process_pickups m2)" by (rule same_shots_ok [OF process_pickups_shots])
  with 3 have "shots_ok m3"
    by (rule seat_loop_shots) (blast dest: act_pawn_evolves act_pawn_shots)
  with 4 show ?thesis by (rule advance_projectiles_shots)
qed

lemma match_step_shots:
  assumes "match_step X m m'" "shots_ok m"
  shows "shots_ok m'"
  using assms(1)
proof cases
  case (Tick "is")
  from Tick(2,1) obtain mem n ds acc u where
    1: "drain_forfeits (m\<lparr>m_seat_memory := mem\<rparr>) = (n, ds)" "run_tick acc n = Some u"
      "m' = maybe_finish X (u\<lparr>m_ticks := m_ticks u @ [tick_entry (m_tick m) acc ds], m_tick := m_tick m + 1\<rparr>)"
    by (rule step_live_cases)
  have "shots_ok n" using 1(1) assms(2) by (auto simp: drain_forfeits_def shots_ok_def split: prod.splits)
  from run_tick_shots [OF 1(2) this] show ?thesis by (simp add: 1(3) shots_ok_def)
qed (use assms(2) in \<open>auto simp: shots_ok_def step_starting_def Let_def\<close>)

interpretation shots_machine: panic_machine "apply_event X" shots_ok for X
  by unfold_locales (blast dest: apply_event_step match_step_shots)

text \<open>
  In every state a match can reach, at most 1024 projectiles are in flight, their ids are
  distinct, increasing, never reused and never collide with a seat, and none outlives its lifetime, so
  neither the store of projectiles nor a projectile's age can grow without bound.
\<close>

theorem projectiles_bounded:
  assumes "new_with_pickups i c r ss bs pks sd = Some m0" "foldM (apply_event X) es m0 = Some m"
  shows "length (m_projectiles m) \<le> 1024 \<and> sorted_wrt (<) (map pj_id (m_projectiles m))
    \<and> (\<forall>q\<in>set (m_projectiles m). 65536 \<le> pj_id q \<and> pj_id q < m_next_projectile_id m \<and> pj_age q < 600)"
proof -
  have "shots_ok m0" using assms(1) by (auto simp: new_with_pickups_def panic_simps shots_ok_def)
  from shots_machine.run_keeps [OF this assms(2)] show ?thesis
    by (auto simp: shots_ok_def MAX_LIVE_PROJECTILES_def PROJECTILE_ID_BASE_def MAX_PROJECTILE_LIFETIME_def)
qed

theorem projectiles_bounded_witness:
  "foldM (apply_event toy_crates) [Ev_Forfeit 1, Ev_Step []] duel_start = Some duel_end
   \<and> length (m_projectiles duel_end) \<le> 1024"
  using projectiles_bounded [OF duel_start_new duel_end_run(1)] duel_end_run(1) by blast

end
