(* ===== verification/Mesh_Proto.thy ===== *)
theory Mesh_Proto
  imports Codec
begin

section \<open>The mesh wire protocol (\<^verbatim>\<open>src/mesh/proto/src/lib.rs\<close>)\<close>

text \<open>
  The types the coordinator and the earners exchange, and the two messages an earner signs: a result
  attestation (\<^verbatim>\<open>signing_digest\<close>) and a registration (\<^verbatim>\<open>hello_digest\<close>). The JSON value of a job's inputs
  is represented by its serialisation. The third-party crates the mesh calls are the fields of
  \<open>mesh_crates\<close>: the hash and the hex codec, and the four steps of a recoverable secp256k1
  verification.
\<close>

record mesh_crates = crates +
  hex_decode :: "string \<Rightarrow> nat list option"
  sig_from_slice :: "nat list \<Rightarrow> nat list option"
  sig_is_high_s :: "nat list \<Rightarrow> bool"
  recid_from_byte :: "nat \<Rightarrow> nat option"
  recover_key :: "nat list \<Rightarrow> nat list \<Rightarrow> nat \<Rightarrow> nat list option"

subsection \<open>Job kinds\<close>

datatype job_kind = Terrain | Foliage | NpcTick | DiffusionTile | Optimization

definition as_u16 :: "job_kind \<Rightarrow> u16" where
  "as_u16 k = (case k of Terrain \<Rightarrow> 0 | Foliage \<Rightarrow> 1 | NpcTick \<Rightarrow> 2 | DiffusionTile \<Rightarrow> 3 | Optimization \<Rightarrow> 4)"

definition from_u16 :: "u16 \<Rightarrow> job_kind option" where
  "from_u16 v =
     (if v = 0 then Some Terrain else if v = 1 then Some Foliage else if v = 2 then Some NpcTick
      else if v = 3 then Some DiffusionTile else if v = 4 then Some Optimization else None)"

definition job_kind_ALL :: "job_kind list" where
  "job_kind_ALL = [Terrain, Foliage, NpcTick, DiffusionTile, Optimization]"

definition as_str :: "job_kind \<Rightarrow> string" where
  "as_str k = (case k of Terrain \<Rightarrow> ''terrain'' | Foliage \<Rightarrow> ''foliage'' | NpcTick \<Rightarrow> ''npc_tick''
     | DiffusionTile \<Rightarrow> ''diffusion_tile'' | Optimization \<Rightarrow> ''optimization'')"

definition job_kind_from_str :: "string \<Rightarrow> job_kind option" where
  "job_kind_from_str s =
     (if s = ''terrain'' then Some Terrain else if s = ''foliage'' then Some Foliage
      else if s = ''npc_tick'' then Some NpcTick else if s = ''diffusion_tile'' then Some DiffusionTile
      else if s = ''optimization'' then Some Optimization else None)"

subsection \<open>Messages\<close>

record region_coord =
  rc_x :: i32
  rc_y :: i32
  rc_layer :: u8

record job_spec =
  js_id :: uuid
  js_kind :: job_kind
  js_region :: region_coord
  js_deadline_secs :: u32
  js_max_payout_wei :: string
  js_inputs :: string

record job_result =
  jr_job_id :: uuid
  jr_earner_address :: string
  jr_output_hash :: string
  jr_output_url :: string
  jr_render_seconds :: u32
  jr_signature_hex :: string

datatype coordinator_msg =
    Msg_Challenge string
  | Msg_JobOffer job_spec
  | Msg_Accepted uuid string
  | Msg_Rejected uuid string

datatype earner_msg =
    Msg_Hello string string u32 "job_kind list" string
  | Msg_Accept uuid
  | Msg_Decline uuid string
  | Msg_Submit job_result
  | Msg_Heartbeat "uuid option" u8

subsection \<open>Signed digests\<close>

definition signing_preimage :: "uuid \<Rightarrow> string \<Rightarrow> nat list" where
  "signing_preimage job_id output_hash =
     str_bytes ''blackfield/result/v1'' @ job_id @ len_u32 output_hash @ str_bytes output_hash"

definition signing_digest :: "mesh_crates \<Rightarrow> uuid \<Rightarrow> string \<Rightarrow> nat list" where
  "signing_digest X job_id output_hash = keccak256 X (signing_preimage job_id output_hash)"

definition hello_preimage :: "string \<Rightarrow> string \<Rightarrow> u32 \<Rightarrow> job_kind list \<Rightarrow> nat list \<Rightarrow> nat list" where
  "hello_preimage earner_address gpu_model vram_gb supported nonce =
     str_bytes ''blackfield/hello/v2'' @ len_u32 earner_address @ str_bytes earner_address @
     len_u32 gpu_model @ str_bytes gpu_model @ be_bytes 4 vram_gb @
     len_u32 supported @ concat (map (\<lambda>k. be_bytes 2 (as_u16 k)) supported) @ len_u32 nonce @ nonce"

definition hello_digest ::
  "mesh_crates \<Rightarrow> string \<Rightarrow> string \<Rightarrow> u32 \<Rightarrow> job_kind list \<Rightarrow> nat list \<Rightarrow> nat list" where
  "hello_digest X earner_address gpu_model vram_gb supported nonce =
     keccak256 X (hello_preimage earner_address gpu_model vram_gb supported nonce)"

subsection \<open>What a signature commits to\<close>

lemma as_u16_iff [simp]: "as_u16 a = as_u16 b \<longleftrightarrow> a = b"
  by (cases a; cases b) (auto simp: as_u16_def)

lemma from_as_u16 [simp]: "from_u16 (as_u16 k) = Some k"
  by (cases k) (auto simp: as_u16_def from_u16_def)

lemma from_str_as_str [simp]: "job_kind_from_str (as_str k) = Some k"
  by (cases k) (auto simp: as_str_def job_kind_from_str_def)

lemma as_u16_bound: "as_u16 k < 5"
  by (cases k) (auto simp: as_u16_def)

interpretation kind_codec: codec "\<lambda>k. be_bytes 2 (as_u16 k)" "\<lambda>_. True"
proof (rule fixed_width_codec [of _ 2])
  fix a b assume "be_bytes 2 (as_u16 a) = be_bytes 2 (as_u16 b)"
  then show "a = b"
    using as_u16_bound [of a] as_u16_bound [of b] by (simp add: be_bytes_iff)
qed simp

interpretation kinds_codec: codec "enc_list (\<lambda>k. be_bytes 2 (as_u16 k))" "ok_list (\<lambda>_. True)"
  by (rule codec_enc_list) unfold_locales

lemma hello_preimage_stream:
  "hello_preimage a g v ks n = str_bytes ''blackfield/hello/v2'' @ enc_str a @ enc_str g @ be_bytes 4 v
     @ enc_list (\<lambda>k. be_bytes 2 (as_u16 k)) ks @ len_u32 n @ n"
  by (simp add: hello_preimage_def enc_str_def enc_list_def)

lemma signing_preimage_stream:
  "signing_preimage j h = str_bytes ''blackfield/result/v1'' @ j @ enc_str h"
  by (simp add: signing_preimage_def enc_str_def)

text \<open>
  What an earner signs is unambiguous: the registration message determines the address, the
  hardware, the whole list of supported kinds and the challenge it answers; the result message
  determines the job and the output hash; and no registration message is a result message, so a
  signature given for one purpose, one job or one challenge is worthless for any other.
\<close>

theorem signed_messages_unambiguous:
  assumes "ok_str a" "ok_str a'" "ok_str g" "ok_str g'" "v < 2 ^ 32" "v' < 2 ^ 32"
    "length ks < 2 ^ 32" "length ks' < 2 ^ 32" "length n < 2 ^ 32" "length n' < 2 ^ 32"
    "length j = 16" "length j' = 16" "ok_str h" "ok_str h'"
  shows "(hello_preimage a g v ks n = hello_preimage a' g' v' ks' n'
            \<longleftrightarrow> a = a' \<and> g = g' \<and> v = v' \<and> ks = ks' \<and> n = n')
     \<and> (signing_preimage j h = signing_preimage j' h' \<longleftrightarrow> j = j' \<and> h = h')
     \<and> hello_preimage a g v ks n \<noteq> signing_preimage j h"
proof (intro conjI)
  have "ok_list (\<lambda>_. True) ks" "ok_list (\<lambda>_. True) ks'"
    using assms by (simp_all add: ok_list_def list_all_iff)
  then show "hello_preimage a g v ks n = hello_preimage a' g' v' ks' n'
            \<longleftrightarrow> a = a' \<and> g = g' \<and> v = v' \<and> ks = ks' \<and> n = n'"
    using assms by (auto simp: hello_preimage_stream codec_iffs kinds_codec.enc_append_iff)
  show "signing_preimage j h = signing_preimage j' h' \<longleftrightarrow> j = j' \<and> h = h'"
    using assms by (auto simp: signing_preimage_stream codec_iffs)
  show "hello_preimage a g v ks n \<noteq> signing_preimage j h"
    by (simp add: hello_preimage_def signing_preimage_def str_bytes_def of_char_def)
qed

theorem signed_messages_unambiguous_witness:
  "hello_preimage ''0xab'' ''cd'' 24 [Terrain] [1, 2] \<noteq> hello_preimage ''0xabcd'' '''' 24 [Terrain] [1, 2]
   \<and> signing_preimage (replicate 16 0) ''aa'' \<noteq> signing_preimage (replicate 16 1) ''aa''"
  using signed_messages_unambiguous [of "''0xab''" "''0xabcd''" "''cd''" "''''" 24 24 "[Terrain]" "[Terrain]"
      "[1, 2]" "[1, 2]" "replicate 16 0" "replicate 16 1" "''aa''" "''aa''"]
  by (simp add: ok_str_def)

end
