(* ===== verification/Mesh_Gate.thy ===== *)
theory Mesh_Gate
  imports Mesh_Proto
begin

section \<open>The gates of the coordinator\<close>

text \<open>
  The pure checks a request passes before it may touch the store, and the two records a settled result
  is turned into: \<^verbatim>\<open>src/mesh/coordinator/src/validate.rs\<close>, \<^verbatim>\<open>verify.rs\<close>, \<^verbatim>\<open>eas.rs\<close> and
  \<^verbatim>\<open>PendingDebit::build\<close> of \<^verbatim>\<open>meter.rs\<close>. Strings are byte strings; decimal parsing and printing, case
  folding and splitting are those of Rust's standard library.
\<close>

subsection \<open>Strings\<close>

definition is_ascii_digit :: "char \<Rightarrow> bool" where
  "is_ascii_digit c \<longleftrightarrow> 48 \<le> (of_char c :: nat) \<and> (of_char c :: nat) \<le> 57"

definition is_ascii_lower :: "char \<Rightarrow> bool" where
  "is_ascii_lower c \<longleftrightarrow> 97 \<le> (of_char c :: nat) \<and> (of_char c :: nat) \<le> 122"

definition is_ascii_upper :: "char \<Rightarrow> bool" where
  "is_ascii_upper c \<longleftrightarrow> 65 \<le> (of_char c :: nat) \<and> (of_char c :: nat) \<le> 90"

definition is_ascii_alphanumeric :: "char \<Rightarrow> bool" where
  "is_ascii_alphanumeric c \<longleftrightarrow> is_ascii_digit c \<or> is_ascii_lower c \<or> is_ascii_upper c"

definition is_ascii_hexdigit :: "char \<Rightarrow> bool" where
  "is_ascii_hexdigit c \<longleftrightarrow> is_ascii_digit c \<or> (97 \<le> (of_char c :: nat) \<and> (of_char c :: nat) \<le> 102)
     \<or> (65 \<le> (of_char c :: nat) \<and> (of_char c :: nat) \<le> 70)"

definition to_ascii_lowercase :: "string \<Rightarrow> string" where
  "to_ascii_lowercase = map (\<lambda>c. if is_ascii_upper c then char_of (of_char c + 32 :: nat) else c)"

definition eq_ignore_ascii_case :: "string \<Rightarrow> string \<Rightarrow> bool" where
  "eq_ignore_ascii_case s t \<longleftrightarrow> to_ascii_lowercase s = to_ascii_lowercase t"

fun strip_prefix :: "string \<Rightarrow> string \<Rightarrow> string option" where
  "strip_prefix [] s = Some s"
| "strip_prefix (p # ps) [] = None"
| "strip_prefix (p # ps) (c # s) = (if p = c then strip_prefix ps s else None)"

fun split_once :: "string \<Rightarrow> string \<Rightarrow> (string \<times> string) option" where
  "split_once pat s =
     (case strip_prefix pat s of
        Some rest \<Rightarrow> Some ([], rest)
      | None \<Rightarrow> (case s of [] \<Rightarrow> None
                 | c # s' \<Rightarrow> map_option (\<lambda>(a, b). (c # a, b)) (split_once pat s')))"

declare split_once.simps [simp del]

definition digit_value :: "char \<Rightarrow> nat" where
  "digit_value c = of_char c - 48"

definition decimal_value :: "string \<Rightarrow> nat" where
  "decimal_value s = foldl (\<lambda>n c. 10 * n + digit_value c) 0 s"

definition parse_u128 :: "string \<Rightarrow> nat option" where
  "parse_u128 s =
     (let ds = (case s of [] \<Rightarrow> [] | c # r \<Rightarrow> if c = CHR ''+'' then r else s)
      in if ds \<noteq> [] \<and> list_all is_ascii_digit ds \<and> decimal_value ds < 2 ^ 128
         then Some (decimal_value ds) else None)"

fun decimal :: "nat \<Rightarrow> string" where
  "decimal n = (if n < 10 then [char_of (n + 48)] else decimal (n div 10) @ [char_of (n mod 10 + 48)])"

declare decimal.simps [simp del]

definition decimal_int :: "int \<Rightarrow> string" where
  "decimal_int n = (if n < 0 then CHR ''-'' # decimal (nat (- n)) else decimal (nat n))"

subsection \<open>Content gates\<close>

datatype validation_error =
    MalformedOutputHash | MalformedOutputUrl | ZeroRenderSeconds | ImplausibleRenderSeconds

definition validation_reason :: "validation_error \<Rightarrow> string" where
  "validation_reason e = (case e of
       MalformedOutputHash \<Rightarrow> ''output_hash is not a 256-bit lowercase-hex digest''
     | MalformedOutputUrl \<Rightarrow> ''output_url is not a fetchable scheme://'' @ [CHR 0xE2, CHR 0x80, CHR 0xA6] @ '' url''
     | ZeroRenderSeconds \<Rightarrow> ''render_seconds is zero''
     | ImplausibleRenderSeconds \<Rightarrow> ''render_seconds exceeds the job's deadline budget'')"

datatype job_spec_error =
    ZeroDeadline | DeadlineTooLong | MalformedPayout | PayoutTooLarge | InputsTooLarge

definition MAX_DEADLINE_SECS :: u32 where "MAX_DEADLINE_SECS = 86400"
definition MAX_PAYOUT_WEI :: nat where "MAX_PAYOUT_WEI = 10 ^ 30"
definition MAX_INPUTS_BYTES :: nat where "MAX_INPUTS_BYTES = 16 * 1024"

definition validate_job_spec :: "u32 \<Rightarrow> string \<Rightarrow> string \<Rightarrow> job_spec_error + unit" where
  "validate_job_spec deadline_secs max_payout_wei inputs =
     (if deadline_secs = 0 then Inl ZeroDeadline
      else if deadline_secs > MAX_DEADLINE_SECS then Inl DeadlineTooLong
      else case parse_u128 max_payout_wei of
        None \<Rightarrow> Inl MalformedPayout
      | Some wei \<Rightarrow>
          if wei > MAX_PAYOUT_WEI then Inl PayoutTooLarge
          else if length inputs > MAX_INPUTS_BYTES then Inl InputsTooLarge
          else Inr ())"

definition OUTPUT_HASH_LEN :: nat where "OUTPUT_HASH_LEN = 64"
definition RENDER_SECONDS_DEADLINE_SLACK :: nat where "RENDER_SECONDS_DEADLINE_SLACK = 2"

definition is_lower_hex :: "char \<Rightarrow> bool" where
  "is_lower_hex c \<longleftrightarrow> is_ascii_digit c \<or> (97 \<le> (of_char c :: nat) \<and> (of_char c :: nat) \<le> 102)"

definition is_digest_hex :: "string \<Rightarrow> bool" where
  "is_digest_hex s \<longleftrightarrow> length s = OUTPUT_HASH_LEN \<and> list_all is_lower_hex s"

definition is_fetchable_url :: "string \<Rightarrow> bool" where
  "is_fetchable_url s =
     (case split_once ''://'' s of
        None \<Rightarrow> False
      | Some (scheme, rest) \<Rightarrow> scheme \<noteq> [] \<and> rest \<noteq> []
          \<and> list_all (\<lambda>c. is_ascii_alphanumeric c \<or> c = CHR ''+'' \<or> c = CHR ''-'' \<or> c = CHR ''.'') scheme)"

definition validate_result :: "job_result \<Rightarrow> validation_error + unit" where
  "validate_result r =
     (if \<not> is_digest_hex (jr_output_hash r) then Inl MalformedOutputHash
      else if \<not> is_fetchable_url (jr_output_url r) then Inl MalformedOutputUrl
      else if jr_render_seconds r = 0 then Inl ZeroRenderSeconds
      else Inr ())"

definition validate_render_seconds :: "u32 \<Rightarrow> u32 \<Rightarrow> validation_error + unit" where
  "validate_render_seconds render_seconds deadline_secs =
     (if deadline_secs = 0 then Inr ()
      else if render_seconds > min (deadline_secs * RENDER_SECONDS_DEADLINE_SLACK) (2 ^ 64 - 1)
      then Inl ImplausibleRenderSeconds
      else Inr ())"

subsection \<open>Signatures\<close>

datatype verify_error = BadSignatureEncoding | NonCanonicalSignature | Unrecoverable | AddressMismatch

definition address_from_verifying_key :: "mesh_crates \<Rightarrow> nat list \<Rightarrow> string" where
  "address_from_verifying_key X point = ''0x'' @ hex_encode X (drop 12 (keccak256 X (drop 1 point)))"

definition canonical_earner_address :: "string \<Rightarrow> string" where
  "canonical_earner_address address = to_ascii_lowercase address"

definition verify_recovered_address ::
  "mesh_crates \<Rightarrow> nat list \<Rightarrow> string \<Rightarrow> string \<Rightarrow> verify_error + unit" where
  "verify_recovered_address X digest claimed_address signature_hex =
     (case hex_decode X (case strip_prefix ''0x'' signature_hex of Some s \<Rightarrow> s | None \<Rightarrow> signature_hex) of
        None \<Rightarrow> Inl BadSignatureEncoding
      | Some raw \<Rightarrow>
          if length raw \<noteq> 65 then Inl BadSignatureEncoding
          else case sig_from_slice X (take 64 raw) of
            None \<Rightarrow> Inl BadSignatureEncoding
          | Some sig \<Rightarrow>
              if sig_is_high_s X sig then Inl NonCanonicalSignature
              else case recid_from_byte X (raw ! 64) of
                None \<Rightarrow> Inl BadSignatureEncoding
              | Some recid \<Rightarrow>
                  (case recover_key X digest sig recid of
                     None \<Rightarrow> Inl Unrecoverable
                   | Some vk \<Rightarrow>
                       if eq_ignore_ascii_case (address_from_verifying_key X vk) claimed_address
                       then Inr () else Inl AddressMismatch))"

definition verify_signature :: "mesh_crates \<Rightarrow> uuid \<Rightarrow> string \<Rightarrow> string \<Rightarrow> string \<Rightarrow> verify_error + unit" where
  "verify_signature X job_id output_hash claimed_address signature_hex =
     verify_recovered_address X (signing_digest X job_id output_hash) claimed_address signature_hex"

definition verify_hello_signature ::
  "mesh_crates \<Rightarrow> string \<Rightarrow> string \<Rightarrow> u32 \<Rightarrow> job_kind list \<Rightarrow> nat list \<Rightarrow> string \<Rightarrow> verify_error + unit" where
  "verify_hello_signature X earner_address gpu_model vram_gb supported nonce signature_hex =
     verify_recovered_address X (hello_digest X earner_address gpu_model vram_gb supported nonce)
       earner_address signature_hex"

subsection \<open>Receipts and debits\<close>

definition job_id_hex :: "mesh_crates \<Rightarrow> uuid \<Rightarrow> string" where
  "job_id_hex X job_id = hex_encode X (replicate 16 0 @ job_id)"

definition region_id_hex :: "mesh_crates \<Rightarrow> region_coord \<Rightarrow> string" where
  "region_id_hex X r = hex_encode X (be_i32 (rc_x r) @ be_i32 (rc_y r) @ [rc_layer r] @ replicate 23 0)"

record pending_attestation =
  pa_earner :: string
  pa_job_id :: string
  pa_render_seconds :: u64
  pa_job_kind :: u16
  pa_output_hash :: string
  pa_region_id :: string

definition is_bytes32_hex :: "string \<Rightarrow> bool" where
  "is_bytes32_hex s \<longleftrightarrow> length s = 64 \<and> list_all is_lower_hex s"

definition build_attestation :: "mesh_crates \<Rightarrow> job_spec \<Rightarrow> job_result \<Rightarrow> pending_attestation option" where
  "build_attestation X spec result =
     (if \<not> is_bytes32_hex (jr_output_hash result) then None
      else Some \<lparr>pa_earner = jr_earner_address result, pa_job_id = job_id_hex X (jr_job_id result),
        pa_render_seconds = jr_render_seconds result, pa_job_kind = as_u16 (js_kind spec),
        pa_output_hash = jr_output_hash result, pa_region_id = region_id_hex X (js_region spec)\<rparr>)"

record pending_debit =
  pd_buyer :: string
  pd_amount_wei :: string
  pd_job_id :: string

definition build_debit :: "mesh_crates \<Rightarrow> string option \<Rightarrow> job_result \<Rightarrow> nat \<Rightarrow> pending_debit option" where
  "build_debit X buyer result rate_wei_per_render_second =
     (case buyer of
        None \<Rightarrow> None
      | Some buyer \<Rightarrow>
          let amount = min (rate_wei_per_render_second * jr_render_seconds result) (2 ^ 128 - 1)
          in if amount = 0 then None
             else Some \<lparr>pd_buyer = buyer, pd_amount_wei = decimal amount,
                        pd_job_id = job_id_hex X (jr_job_id result)\<rparr>)"

subsection \<open>Decimal strings\<close>

lemma of_char_digit [simp]: "n < 10 \<Longrightarrow> (of_char (char_of (n + 48 :: nat)) :: nat) = n + 48"
  by simp

lemma digit_char [simp]: "n < 10 \<Longrightarrow> is_ascii_digit (char_of (n + 48 :: nat))"
  by (simp add: is_ascii_digit_def)

lemma decimal_digits: "decimal n \<noteq> [] \<and> list_all is_ascii_digit (decimal n)"
proof (induction n rule: decimal.induct)
  case (1 n)
  then show ?case by (cases "n < 10") (simp_all add: decimal.simps [of n])
qed

lemma decimal_value_snoc: "decimal_value (s @ [c]) = 10 * decimal_value s + digit_value c"
  by (simp add: decimal_value_def)

lemma decimal_value_decimal [simp]: "decimal_value (decimal n) = n"
proof (induction n rule: decimal.induct)
  case (1 n)
  show ?case
  proof (cases "n < 10")
    case True
    then show ?thesis by (simp add: decimal.simps [of n] decimal_value_def digit_value_def)
  next
    case False
    with 1 have "decimal_value (decimal n) = 10 * (n div 10) + n mod 10"
      by (simp add: decimal.simps [of n] decimal_value_snoc digit_value_def)
    then show ?thesis by simp
  qed
qed

lemma parse_decimal:
  assumes "n < 2 ^ 128"
  shows "parse_u128 (decimal n) = Some n"
proof -
  obtain c r where c: "decimal n = c # r" "list_all is_ascii_digit (c # r)"
    using decimal_digits [of n] by (cases "decimal n") auto
  then have "c \<noteq> CHR ''+''" by (auto simp: is_ascii_digit_def of_char_def)
  moreover have "decimal_value (c # r) = n" using decimal_value_decimal [of n] by (simp only: c(1))
  ultimately show ?thesis
    using c(2) assms unfolding c(1) by (simp add: parse_u128_def)
qed

text \<open>Rust's \<^verbatim>\<open>u128\<close> parser takes a leading plus sign, so the ingestion gate lets a signed payout through.\<close>

lemma signed_payout_accepted: "validate_job_spec 60 ''+5'' ''{}'' = Inr ()"
  by (simp add: validate_job_spec_def MAX_DEADLINE_SECS_def parse_u128_def is_ascii_digit_def decimal_value_def
      digit_value_def MAX_PAYOUT_WEI_def MAX_INPUTS_BYTES_def of_char_def)

subsection \<open>Case folding\<close>

lemma lower_char:
  "is_ascii_upper c \<Longrightarrow> \<not> is_ascii_upper (char_of (of_char c + 32 :: nat))"
  by (auto simp: is_ascii_upper_def)

lemma lowercase_idem [simp]: "to_ascii_lowercase (to_ascii_lowercase s) = to_ascii_lowercase s"
  by (auto simp: to_ascii_lowercase_def lower_char)

lemma canonical_idem [simp]:
  "canonical_earner_address (canonical_earner_address a) = canonical_earner_address a"
  by (simp add: canonical_earner_address_def)

definition signer_of :: "mesh_crates \<Rightarrow> nat list \<Rightarrow> string \<Rightarrow> string \<Rightarrow> bool" where
  "signer_of X digest signature_hex address \<longleftrightarrow>
     (\<exists>raw sig recid vk.
        hex_decode X (case strip_prefix ''0x'' signature_hex of Some s \<Rightarrow> s | None \<Rightarrow> signature_hex) = Some raw
        \<and> length raw = 65 \<and> sig_from_slice X (take 64 raw) = Some sig \<and> \<not> sig_is_high_s X sig
        \<and> recid_from_byte X (raw ! 64) = Some recid \<and> recover_key X digest sig recid = Some vk
        \<and> address = canonical_earner_address (address_from_verifying_key X vk))"

lemma verify_recovered_iff:
  "verify_recovered_address X d a s = Inr () \<longleftrightarrow> signer_of X d s (canonical_earner_address a)"
  by (auto simp: verify_recovered_address_def signer_of_def eq_ignore_ascii_case_def
      canonical_earner_address_def split: option.splits if_splits)

lemma signer_unique: "signer_of X d s a \<Longrightarrow> signer_of X d s b \<Longrightarrow> a = b"
  by (auto simp: signer_of_def)

lemmas verify_signature_iff = verify_recovered_iff [of X "signing_digest X j h" for X j h, folded verify_signature_def]
lemmas verify_hello_iff = verify_recovered_iff [of X "hello_digest X a g v ks n" a for X a g v ks n,
    folded verify_hello_signature_def]

lemma Inr_unit_cases: "(\<exists>e. x = Inl e) \<or> x = Inr ()"
  by (cases x) auto

end
