(* ===== verification/Mesh_Registry.thy ===== *)
theory Mesh_Registry
  imports Mesh_Gate "HOL-Library.AList" "HOL-Library.Word"
begin

unbundle bit_operations_syntax

section \<open>The earner registry and its guards (\<^verbatim>\<open>src/mesh/coordinator/src/main.rs\<close>)\<close>

text \<open>
  What stands between the network and the store: the registry of earners with its cap, the per-source
  rate limiter, the single-use registration challenges, and the resolution of a request's source
  address behind trusted proxies. A \<^verbatim>\<open>HashMap\<close> is an association list with one entry per key; the order
  of the list is the map's iteration order, which only decides ties and on which no theorem depends. The
  clock and the random bytes are arguments. The text forms of addresses (\<^verbatim>\<open>std::net\<close>'s \<^verbatim>\<open>FromStr\<close>) are the
  parameter record \<open>ip_text\<close>. Trimming strips ASCII white space, which is all a header value can hold.
\<close>

definition sat_i64 :: "int \<Rightarrow> i64" where
  "sat_i64 x = max (- (2 ^ 63)) (min (2 ^ 63 - 1) x)"

fun min_by_key :: "('a \<Rightarrow> i64) \<Rightarrow> 'a list \<Rightarrow> 'a option" where
  "min_by_key f [] = None"
| "min_by_key f (x # xs) = (case min_by_key f xs of None \<Rightarrow> Some x | Some y \<Rightarrow> if f x \<le> f y then Some x else Some y)"

lemma min_by_key_None [simp]: "min_by_key f xs = None \<longleftrightarrow> xs = []"
  by (cases xs) (auto split: option.splits if_splits)

lemma min_by_key_Some: "min_by_key f xs = Some x \<Longrightarrow> x \<in> set xs \<and> (\<forall>y\<in>set xs. f x \<le> f y)"
  by (induction xs arbitrary: x) (fastforce split: option.splits if_splits)+

subsection \<open>Earners\<close>

record earner_info =
  ei_gpu_model :: string
  ei_vram_gb :: u32
  ei_supported :: "job_kind list"
  ei_last_seen :: i64
  ei_poll_token :: string

type_synonym registry = "(string \<times> earner_info) list"

definition is_live :: "earner_info \<Rightarrow> i64 \<Rightarrow> i64 \<Rightarrow> bool" where
  "is_live e now ttl_secs \<longleftrightarrow> sat_i64 (now - ei_last_seen e) \<le> ttl_secs"

definition prune_stale_earners :: "registry \<Rightarrow> i64 \<Rightarrow> i64 \<Rightarrow> registry \<times> nat" where
  "prune_stale_earners earners now ttl_secs =
     (let kept = filter (\<lambda>(_, e). is_live e now ttl_secs) earners in (kept, length earners - length kept))"

datatype admission = Inserted | Upserted | Evicted | Rejected

definition admitted :: "admission \<Rightarrow> bool" where
  "admitted a \<longleftrightarrow> a \<noteq> Rejected"

definition admit_earner ::
  "registry \<Rightarrow> string \<Rightarrow> earner_info \<Rightarrow> nat \<Rightarrow> i64 \<Rightarrow> i64 \<Rightarrow> registry \<times> admission" where
  "admit_earner earners address info max_earners now ttl_secs =
     (if map_of earners address = None \<and> length earners \<ge> max_earners
      then case min_by_key (\<lambda>(_, e). ei_last_seen e) (filter (\<lambda>(_, e). \<not> is_live e now ttl_secs) earners) of
             None \<Rightarrow> (earners, Rejected)
           | Some (key, _) \<Rightarrow> (AList.update address info (AList.delete key earners), Evicted)
      else case map_of earners address of
             Some _ \<Rightarrow> (AList.update address info earners, Upserted)
           | None \<Rightarrow> (AList.update address info earners, Inserted))"

subsection \<open>The registration rate limiter\<close>

record rate_bucket =
  rb_level :: i64
  rb_last_refill :: i64

definition refill_bucket :: "rate_bucket \<Rightarrow> i64 \<Rightarrow> u32 \<Rightarrow> i64 \<Rightarrow> rate_bucket" where
  "refill_bucket b now capacity cap_level =
     (let elapsed = sat_i64 (now - rb_last_refill b) in
      if elapsed \<le> 0 then b
      else let credit = sat_i64 (elapsed * int capacity)
           in \<lparr>rb_level = min (sat_i64 (rb_level b + credit)) cap_level, rb_last_refill = now\<rparr>)"

datatype ip_addr = V4 "32 word" | V6 "128 word"

type_synonym buckets = "(ip_addr \<times> rate_bucket) list"

definition not_refilled :: "i64 \<Rightarrow> u32 \<Rightarrow> i64 \<Rightarrow> rate_bucket \<Rightarrow> bool" where
  "not_refilled now capacity cap_level b \<longleftrightarrow>
     (let elapsed = max (sat_i64 (now - rb_last_refill b)) 0
      in sat_i64 (rb_level b + sat_i64 (elapsed * int capacity)) < cap_level)"

definition make_room :: "buckets \<Rightarrow> i64 \<Rightarrow> u32 \<Rightarrow> i64 \<Rightarrow> nat \<Rightarrow> buckets" where
  "make_room bs now capacity cap_level max_buckets =
     (let bs' = (if length bs \<ge> max_buckets then filter (\<lambda>(_, b). not_refilled now capacity cap_level b) bs else bs)
      in if length bs' \<ge> max_buckets
         then case min_by_key (\<lambda>(_, b). rb_last_refill b) bs' of
                Some (stalest, _) \<Rightarrow> AList.delete stalest bs'
              | None \<Rightarrow> bs'
         else bs')"

definition check_registration_rate ::
  "buckets \<Rightarrow> ip_addr \<Rightarrow> i64 \<Rightarrow> u32 \<Rightarrow> i64 \<Rightarrow> nat \<Rightarrow> buckets \<times> bool" where
  "check_registration_rate bs source now capacity window_secs max_buckets =
     (let cap_level = sat_i64 (int capacity * window_secs);
          bs1 = (if map_of bs source = None
                 then AList.update source \<lparr>rb_level = cap_level, rb_last_refill = now\<rparr>
                        (make_room bs now capacity cap_level max_buckets)
                 else bs);
          bucket = refill_bucket (the (map_of bs1 source)) now capacity cap_level
      in if rb_level bucket < window_secs then (AList.update source bucket bs1, False)
         else (AList.update source (bucket\<lparr>rb_level := rb_level bucket - window_secs\<rparr>) bs1, True))"

subsection \<open>Trusted proxies and the source address\<close>

record trusted_cidr =
  tc_network :: ip_addr
  tc_prefix :: u8

definition cidr_contains :: "trusted_cidr \<Rightarrow> ip_addr \<Rightarrow> bool" where
  "cidr_contains c peer =
     (case (tc_network c, peer) of
        (V4 net, V4 p) \<Rightarrow>
          let mask = (if tc_prefix c = 0 then 0 else push_bit (32 - tc_prefix c) (- 1)) in net AND mask = p AND mask
      | (V6 net, V6 p) \<Rightarrow>
          let mask = (if tc_prefix c = 0 then 0 else push_bit (128 - tc_prefix c) (- 1)) in net AND mask = p AND mask
      | _ \<Rightarrow> False)"

record ip_text =
  parse_ip :: "string \<Rightarrow> ip_addr option"
  parse_socket :: "string \<Rightarrow> ip_addr option"

definition is_space :: "char \<Rightarrow> bool" where
  "is_space c \<longleftrightarrow> c = CHR '' '' \<or> (9 \<le> (of_char c :: nat) \<and> (of_char c :: nat) \<le> 13)"

definition trim :: "string \<Rightarrow> string" where
  "trim s = rev (dropWhile is_space (rev (dropWhile is_space s)))"

definition parse_u8 :: "string \<Rightarrow> nat option" where
  "parse_u8 s = Option.bind (parse_u128 s) (\<lambda>n. if n < 256 then Some n else None)"

definition is_ipv4 :: "ip_addr \<Rightarrow> bool" where
  "is_ipv4 a = (case a of V4 _ \<Rightarrow> True | V6 _ \<Rightarrow> False)"

datatype entry_error = BlankEntry | BadCidrAddress | BadCidrPrefix | PrefixTooLong | BadIp

definition parse_trusted_entry :: "ip_text \<Rightarrow> string \<Rightarrow> entry_error + trusted_cidr" where
  "parse_trusted_entry T entry =
     (let entry = trim entry in
      if entry = [] then Inl BlankEntry
      else case split_once ''/'' entry of
        Some (addr, prefix) \<Rightarrow>
          (case parse_ip T addr of
             None \<Rightarrow> Inl BadCidrAddress
           | Some network \<Rightarrow>
               (case parse_u8 prefix of
                  None \<Rightarrow> Inl BadCidrPrefix
                | Some p \<Rightarrow>
                    if p \<le> (if is_ipv4 network then 32 else 128)
                    then Inr \<lparr>tc_network = network, tc_prefix = p\<rparr> else Inl PrefixTooLong))
      | None \<Rightarrow>
          (case parse_ip T entry of
             None \<Rightarrow> Inl BadIp
           | Some network \<Rightarrow> Inr \<lparr>tc_network = network, tc_prefix = (if is_ipv4 network then 32 else 128)\<rparr>))"

fun parse_trusted_proxies :: "ip_text \<Rightarrow> string list \<Rightarrow> entry_error + trusted_cidr list" where
  "parse_trusted_proxies T [] = Inr []"
| "parse_trusted_proxies T (e # es) =
     (if trim e = [] then parse_trusted_proxies T es
      else case parse_trusted_entry T (trim e) of
        Inl err \<Rightarrow> Inl err
      | Inr c \<Rightarrow> (case parse_trusted_proxies T es of Inl err \<Rightarrow> Inl err | Inr cs \<Rightarrow> Inr (c # cs)))"

definition proxies_contain :: "trusted_cidr list \<Rightarrow> ip_addr \<Rightarrow> bool" where
  "proxies_contain trusted peer \<longleftrightarrow> list_ex (\<lambda>c. cidr_contains c peer) trusted"

text \<open>Headers are the list of field lines in order, with lower-case names.\<close>

type_synonym header_map = "(string \<times> string) list"

definition header_all :: "header_map \<Rightarrow> string \<Rightarrow> string list" where
  "header_all hs name = map snd (filter (\<lambda>(n, _). n = name) hs)"

definition header_text :: "string \<Rightarrow> string option" where
  "header_text v = (if list_all (\<lambda>c. c = CHR 0x09 \<or> 32 \<le> (of_char c :: nat) \<and> (of_char c :: nat) \<le> 126) v then Some v else None)"

definition header_get :: "header_map \<Rightarrow> string \<Rightarrow> string option" where
  "header_get hs name = map_of hs name"

definition header_str :: "header_map \<Rightarrow> string \<Rightarrow> string option" where
  "header_str hs name = Option.bind (header_get hs name) header_text"

fun split_on :: "char \<Rightarrow> string \<Rightarrow> string list" where
  "split_on d [] = [[]]"
| "split_on d (c # s) =
     (if c = d then [] # split_on d s
      else case split_on d s of [] \<Rightarrow> [[c]] | p # ps \<Rightarrow> (c # p) # ps)"

definition parse_forwarded_node :: "ip_text \<Rightarrow> string \<Rightarrow> ip_addr option" where
  "parse_forwarded_node T token =
     (let t = trim token in case parse_ip T t of Some ip \<Rightarrow> Some ip | None \<Rightarrow> parse_socket T t)"

definition strip_suffix_char :: "char \<Rightarrow> string \<Rightarrow> string option" where
  "strip_suffix_char c s = (if s \<noteq> [] \<and> last s = c then Some (butlast s) else None)"

definition parse_forwarded_element :: "ip_text \<Rightarrow> string \<Rightarrow> ip_addr option" where
  "parse_forwarded_element T element = do {
     kv \<leftarrow> List.find (\<lambda>(k, _). eq_ignore_ascii_case (trim k) ''for'')
            (List.map_filter (split_once ''='') (split_on (CHR '';'') element));
     let raw = trim (snd kv);
     v \<leftarrow> (case raw of
             c # inner \<Rightarrow> if c = CHR 0x22 then map_option trim (strip_suffix_char (CHR 0x22) inner) else Some raw
           | [] \<Rightarrow> Some raw);
     if list_ex (\<lambda>c. c = CHR 0x22) v then None
     else case v of
       c # inner \<Rightarrow> if c = CHR ''['' then parse_ip T (hd (split_on (CHR '']'') inner)) else parse_forwarded_node T v
     | [] \<Rightarrow> parse_forwarded_node T v }"

definition header_items :: "header_map \<Rightarrow> string \<Rightarrow> string list" where
  "header_items hs name = concat (map (split_on (CHR '','')) (List.map_filter header_text (header_all hs name)))"

definition parse_forwarded_for_nodes :: "ip_text \<Rightarrow> header_map \<Rightarrow> ip_addr option list" where
  "parse_forwarded_for_nodes T hs = map (parse_forwarded_element T) (header_items hs ''forwarded'')"

definition parse_xff_nodes :: "ip_text \<Rightarrow> header_map \<Rightarrow> ip_addr option list" where
  "parse_xff_nodes T hs = map (parse_forwarded_node T) (header_items hs ''x-forwarded-for'')"

fun select_untrusted_hop :: "ip_addr option list \<Rightarrow> ip_addr \<Rightarrow> trusted_cidr list \<Rightarrow> ip_addr" where
  "select_untrusted_hop [] peer trusted = peer"
| "select_untrusted_hop (None # hops) peer trusted = peer"
| "select_untrusted_hop (Some ip # hops) peer trusted =
     (if proxies_contain trusted ip then select_untrusted_hop hops peer trusted else ip)"

definition resolve_source_ip :: "ip_text \<Rightarrow> ip_addr \<Rightarrow> header_map \<Rightarrow> trusted_cidr list \<Rightarrow> ip_addr" where
  "resolve_source_ip T peer hs trusted =
     (if \<not> proxies_contain trusted peer then peer
      else if header_get hs ''x-forwarded-for'' \<noteq> None
      then select_untrusted_hop (rev (parse_xff_nodes T hs)) peer trusted
      else let forwarded = parse_forwarded_for_nodes T hs
           in if forwarded = [] then peer else select_untrusted_hop (rev forwarded) peer trusted)"

subsection \<open>Challenges and tokens\<close>

definition REGISTER_CHALLENGE_TTL_SECS :: i64 where "REGISTER_CHALLENGE_TTL_SECS = 30"
definition MAX_REGISTER_CHALLENGES :: nat where "MAX_REGISTER_CHALLENGES = 65536"
definition REGISTRATION_WINDOW_SECS :: i64 where "REGISTRATION_WINDOW_SECS = 60"
definition MAX_REGISTRATION_BUCKETS :: nat where "MAX_REGISTRATION_BUCKETS = 65536"
definition HELLO_NONCE_BYTES :: nat where "HELLO_NONCE_BYTES = 16"

type_synonym challenges = "(nat list \<times> i64) list"

definition mint_register_challenge :: "nat list option \<Rightarrow> challenges \<Rightarrow> i64 \<Rightarrow> nat \<Rightarrow> challenges \<times> nat list option" where
  "mint_register_challenge rng cs now max_challenges =
     (case rng of
        None \<Rightarrow> (cs, None)
      | Some nonce \<Rightarrow>
          let cs1 = (if length cs \<ge> max_challenges
                     then filter (\<lambda>(_, issued). sat_i64 (now - issued) \<le> REGISTER_CHALLENGE_TTL_SECS) cs else cs);
              cs2 = (if length cs1 \<ge> max_challenges
                     then case min_by_key snd cs1 of Some (oldest, _) \<Rightarrow> AList.delete oldest cs1 | None \<Rightarrow> cs1
                     else cs1)
          in (AList.update nonce now cs2, Some nonce))"

definition is_evm_address :: "string \<Rightarrow> bool" where
  "is_evm_address s =
     (case strip_prefix ''0x'' s of None \<Rightarrow> False | Some h \<Rightarrow> length h = 40 \<and> list_all is_ascii_hexdigit h)"

definition bearer_token :: "header_map \<Rightarrow> string option" where
  "bearer_token hs = Option.bind (header_str hs ''authorization'') (strip_prefix ''Bearer '')"

definition ingest_authorized :: "header_map \<Rightarrow> string \<Rightarrow> bool" where
  "ingest_authorized hs expected \<longleftrightarrow> bearer_token hs = Some expected"

definition MAX_GPU_MODEL_LEN :: nat where "MAX_GPU_MODEL_LEN = 128"
definition MAX_VRAM_GB :: u32 where "MAX_VRAM_GB = 1024"

datatype hello_error =
    NotAnAddress | GpuModelTooLong | NoSupportedKinds | DuplicateKinds | ZeroVram | VramTooLarge
  | HelloSignature verify_error

definition validate_hello ::
  "mesh_crates \<Rightarrow> string \<Rightarrow> string \<Rightarrow> u32 \<Rightarrow> job_kind list \<Rightarrow> nat list \<Rightarrow> string \<Rightarrow> hello_error + unit" where
  "validate_hello X earner_address gpu_model vram_gb supported nonce signature_hex =
     (if \<not> is_evm_address earner_address then Inl NotAnAddress
      else if length gpu_model > MAX_GPU_MODEL_LEN then Inl GpuModelTooLong
      else if supported = [] then Inl NoSupportedKinds
      else if \<not> distinct supported then Inl DuplicateKinds
      else if vram_gb = 0 then Inl ZeroVram
      else if vram_gb > MAX_VRAM_GB then Inl VramTooLarge
      else case verify_hello_signature X earner_address gpu_model vram_gb supported nonce signature_hex of
             Inl e \<Rightarrow> Inl (HelloSignature e)
           | Inr _ \<Rightarrow> Inr ())"

end
