(* ===== verification/Mesh_Store.thy ===== *)
theory Mesh_Store
  imports Mesh_Gate "HOL-Library.Option_ord"
begin

section \<open>The job store (\<^verbatim>\<open>src/mesh/coordinator/src/store.rs\<close>)\<close>

text \<open>
  The coordinator's persistent state: five SQLite tables behind one mutex. A table is the list of its
  rows in \<^verbatim>\<open>rowid\<close> order; a statement is a function on that list, written with the combinators below
  (\<^verbatim>\<open>UPDATE .. WHERE\<close>, \<^verbatim>\<open>DELETE .. WHERE\<close>, \<^verbatim>\<open>COUNT\<close>, \<^verbatim>\<open>INSERT .. ON CONFLICT\<close>). The JSON columns hold the
  values they encode. The clock is an argument: \<^verbatim>\<open>strftime('%s','now')\<close> and \<^verbatim>\<open>SystemTime::now\<close> are \<open>now\<close>.
  Every operation is one critical section of the mutex, so a run of the coordinator is a sequence of
  them. Failures of the database itself (\<^verbatim>\<open>rusqlite::Error\<close>) are not modelled, except the primary-key
  conflict \<^verbatim>\<open>enqueue_within_cap\<close> can meet.
\<close>

subsection \<open>Tables and statements\<close>

definition update_where :: "('r \<Rightarrow> bool) \<Rightarrow> ('r \<Rightarrow> 'r) \<Rightarrow> 'r list \<Rightarrow> 'r list" where
  "update_where P f rows = map (\<lambda>r. if P r then f r else r) rows"

definition delete_where :: "('r \<Rightarrow> bool) \<Rightarrow> 'r list \<Rightarrow> 'r list" where
  "delete_where P rows = filter (\<lambda>r. \<not> P r) rows"

definition count_where :: "('r \<Rightarrow> bool) \<Rightarrow> 'r list \<Rightarrow> nat" where
  "count_where P rows = length (filter P rows)"

definition insert_new :: "('r \<Rightarrow> 'k) \<Rightarrow> 'r \<Rightarrow> 'r list \<Rightarrow> 'r list" where
  "insert_new key r rows = (if List.member (map key rows) (key r) then rows else rows @ [r])"

definition find_row :: "('r \<Rightarrow> 'k) \<Rightarrow> 'k \<Rightarrow> 'r list \<Rightarrow> 'r option" where
  "find_row key k rows = List.find (\<lambda>r. key r = k) rows"

definition min_of :: "i64 list \<Rightarrow> i64 option" where
  "min_of xs = (if xs = [] then None else Some (Min (set xs)))"

datatype job_status = Queued | In_Flight | Done | Failed

record job_row =
  j_id :: uuid
  j_spec :: job_spec
  j_status :: job_status
  j_started_at :: "i64 option"
  j_attempts :: nat
  j_faults :: nat
  j_dispatch_seq :: i64
  j_created_at :: "i64 option"
  j_dispatched_to :: "string option"
  j_buyer :: "string option"
  j_progress_pct :: nat

record result_row =
  res_job_id :: uuid
  res_result :: job_result
  res_earner :: string
  res_created_at :: i64

record att_row =
  at_job_id :: uuid
  at_att :: pending_attestation
  at_created_at :: i64
  at_uid :: "string option"
  at_submitted_at :: "i64 option"
  at_dead_lettered_at :: "i64 option"
  at_redrive_count :: nat
  at_revocation_requested_at :: "i64 option"
  at_revoked_at :: "i64 option"
  at_revocation_dead_lettered_at :: "i64 option"
  at_revocation_redrive_count :: nat

record debit_row =
  db_job_id :: uuid
  db_debit :: pending_debit
  db_created_at :: i64
  db_submitted_at :: "i64 option"
  db_tx_hash :: "string option"
  db_dead_lettered_at :: "i64 option"
  db_redrive_count :: nat

record store =
  st_jobs :: "job_row list"
  st_results :: "result_row list"
  st_earner_faults :: "(string \<times> nat) list"
  st_attestations :: "att_row list"
  st_debits :: "debit_row list"
  st_compute_rate_wei :: nat

definition store_init :: store where
  "store_init = \<lparr>st_jobs = [], st_results = [], st_earner_faults = [], st_attestations = [], st_debits = [],
     st_compute_rate_wei = 0\<rparr>"

definition with_compute_rate_wei :: "nat \<Rightarrow> store \<Rightarrow> store" where
  "with_compute_rate_wei rate S = S\<lparr>st_compute_rate_wei := rate\<rparr>"

subsection \<open>Ingestion\<close>

definition jobs_empty :: "store \<Rightarrow> bool" where
  "jobs_empty S \<longleftrightarrow> count_where (\<lambda>_. True) (st_jobs S) = 0"

definition new_row :: "job_spec \<Rightarrow> i64 \<Rightarrow> string option \<Rightarrow> job_row" where
  "new_row job now buyer = \<lparr>j_id = js_id job, j_spec = job, j_status = Queued, j_started_at = None,
     j_attempts = 0, j_faults = 0, j_dispatch_seq = 0, j_created_at = Some now, j_dispatched_to = None,
     j_buyer = buyer, j_progress_pct = 0\<rparr>"

definition enqueue :: "job_spec \<Rightarrow> i64 \<Rightarrow> store \<Rightarrow> store" where
  "enqueue job now S = S\<lparr>st_jobs :=
     (if List.member (map j_id (st_jobs S)) (js_id job)
      then update_where (\<lambda>r. j_id r = js_id job) (\<lambda>r. r\<lparr>j_spec := job, j_status := Queued\<rparr>) (st_jobs S)
      else st_jobs S @ [new_row job now None])\<rparr>"

datatype store_error = PrimaryKeyConflict

definition enqueue_within_cap ::
  "job_spec \<Rightarrow> nat \<Rightarrow> string option \<Rightarrow> i64 \<Rightarrow> store \<Rightarrow> store \<times> (store_error + bool)" where
  "enqueue_within_cap job max_queued buyer now S =
     (if count_where (\<lambda>r. j_status r = Queued) (st_jobs S) < max_queued
      then if List.member (map j_id (st_jobs S)) (js_id job) then (S, Inl PrimaryKeyConflict)
           else (S\<lparr>st_jobs := st_jobs S @ [new_row job now buyer]\<rparr>, Inr True)
      else (S, Inr False))"

definition job_buyer :: "uuid \<Rightarrow> store \<Rightarrow> string option" where
  "job_buyer i S = (case find_row j_id i (st_jobs S) of None \<Rightarrow> None | Some r \<Rightarrow> j_buyer r)"

subsection \<open>Dispatch\<close>

definition dispatch_row :: "string option \<Rightarrow> i64 \<Rightarrow> i64 \<Rightarrow> job_row \<Rightarrow> job_row" where
  "dispatch_row holder new_seq now r = r\<lparr>j_status := In_Flight, j_started_at := Some now,
     j_attempts := j_attempts r + 1, j_dispatch_seq := new_seq, j_dispatched_to := holder,
     j_progress_pct := 0\<rparr>"

definition take_next_inner ::
  "string option \<Rightarrow> (job_spec \<Rightarrow> bool) \<Rightarrow> i64 \<Rightarrow> store \<Rightarrow> store \<times> (job_spec \<times> i64) option" where
  "take_next_inner holder accept now S =
     (case List.find (\<lambda>r. accept (j_spec r))
             (sort_key j_created_at (filter (\<lambda>r. j_status r = Queued) (st_jobs S))) of
        None \<Rightarrow> (S, None)
      | Some r \<Rightarrow>
          let new_seq = j_dispatch_seq r + 1
          in (S\<lparr>st_jobs := update_where (\<lambda>q. j_id q = j_id r) (dispatch_row holder new_seq now) (st_jobs S)\<rparr>,
              Some (j_spec r, new_seq)))"

definition take_next :: "(job_spec \<Rightarrow> bool) \<Rightarrow> i64 \<Rightarrow> store \<Rightarrow> store \<times> (job_spec \<times> i64) option" where
  "take_next accept now S = take_next_inner None accept now S"

definition take_next_for ::
  "string \<Rightarrow> (job_spec \<Rightarrow> bool) \<Rightarrow> i64 \<Rightarrow> store \<Rightarrow> store \<times> (job_spec \<times> i64) option" where
  "take_next_for holder accept now S = take_next_inner (Some holder) accept now S"

subsection \<open>Requeue and faults\<close>

definition park :: "job_status \<Rightarrow> job_row \<Rightarrow> job_row" where
  "park s r = r\<lparr>j_status := s, j_started_at := None\<rparr>"

definition store_requeue :: "job_spec \<Rightarrow> nat \<Rightarrow> store \<Rightarrow> store \<times> bool" where
  "store_requeue job max_attempts S =
     (case find_row j_id (js_id job) (st_jobs S) of
        None \<Rightarrow> (S, False)
      | Some r \<Rightarrow>
          if j_status r \<noteq> In_Flight then (S, False)
          else let new_status = (if j_attempts r \<ge> max_attempts then Failed else Queued)
               in (S\<lparr>st_jobs := update_where (\<lambda>q. j_id q = js_id job \<and> j_status q = In_Flight)
                                  (park new_status) (st_jobs S)\<rparr>,
                   new_status = Failed))"

definition record_earner_fault :: "string \<Rightarrow> store \<Rightarrow> store" where
  "record_earner_fault earner S = S\<lparr>st_earner_faults :=
     (if List.member (map fst (st_earner_faults S)) earner
      then update_where (\<lambda>r. fst r = earner) (\<lambda>r. (fst r, snd r + 1)) (st_earner_faults S)
      else st_earner_faults S @ [(earner, 1)])\<rparr>"

definition fault_row :: "job_status \<Rightarrow> nat \<Rightarrow> job_row \<Rightarrow> job_row" where
  "fault_row s new_faults r =
     (park s r)\<lparr>j_attempts := j_attempts r - 1, j_faults := new_faults\<rparr>"

definition requeue_earner_fault :: "job_spec \<Rightarrow> nat \<Rightarrow> string option \<Rightarrow> store \<Rightarrow> store \<times> bool" where
  "requeue_earner_fault job max_faults attribute_to S =
     (case find_row j_id (js_id job) (st_jobs S) of
        None \<Rightarrow> (S, False)
      | Some r \<Rightarrow>
          if j_status r \<noteq> In_Flight then (S, False)
          else let S' = (case attribute_to of None \<Rightarrow> S | Some earner \<Rightarrow> record_earner_fault earner S);
                   new_faults = j_faults r + 1;
                   new_status = (if new_faults \<ge> max_faults then Failed else Queued)
               in (S'\<lparr>st_jobs := update_where (\<lambda>q. j_id q = js_id job \<and> j_status q = In_Flight)
                                   (fault_row new_status new_faults) (st_jobs S')\<rparr>,
                   new_status = Failed))"

subsection \<open>Settlement\<close>

definition new_att_row :: "uuid \<Rightarrow> pending_attestation \<Rightarrow> i64 \<Rightarrow> att_row" where
  "new_att_row i att now = \<lparr>at_job_id = i, at_att = att, at_created_at = now, at_uid = None,
     at_submitted_at = None, at_dead_lettered_at = None, at_redrive_count = 0,
     at_revocation_requested_at = None, at_revoked_at = None, at_revocation_dead_lettered_at = None,
     at_revocation_redrive_count = 0\<rparr>"

definition new_debit_row :: "uuid \<Rightarrow> pending_debit \<Rightarrow> i64 \<Rightarrow> debit_row" where
  "new_debit_row i debit now = \<lparr>db_job_id = i, db_debit = debit, db_created_at = now,
     db_submitted_at = None, db_tx_hash = None, db_dead_lettered_at = None, db_redrive_count = 0\<rparr>"

definition record_completed :: "mesh_crates \<Rightarrow> job_result \<Rightarrow> i64 \<Rightarrow> store \<Rightarrow> store \<times> bool" where
  "record_completed X result now S =
     (let job_id = jr_job_id result; buyer = job_buyer job_id S in
      case find_row j_id job_id (st_jobs S) of
        None \<Rightarrow> (S, False)
      | Some r \<Rightarrow>
          if j_status r \<noteq> In_Flight then (S, False)
          else (S\<lparr>st_results := insert_new res_job_id
                   \<lparr>res_job_id = job_id, res_result = result, res_earner = jr_earner_address result,
                    res_created_at = now\<rparr> (st_results S),
                  st_jobs := update_where (\<lambda>q. j_id q = job_id) (park Done) (st_jobs S),
                  st_attestations := (case build_attestation X (j_spec r) result of
                     None \<Rightarrow> st_attestations S
                   | Some att \<Rightarrow> insert_new at_job_id (new_att_row job_id att now) (st_attestations S)),
                  st_debits := (case build_debit X buyer result (st_compute_rate_wei S) of
                     None \<Rightarrow> st_debits S
                   | Some debit \<Rightarrow> insert_new db_job_id (new_debit_row job_id debit now) (st_debits S))\<rparr>,
                True))"

subsection \<open>Recovery, reapers and heartbeats\<close>

definition recover_in_flight :: "store \<Rightarrow> store \<times> nat" where
  "recover_in_flight S =
     (S\<lparr>st_jobs := update_where (\<lambda>r. j_status r = In_Flight) (park Queued) (st_jobs S)\<rparr>,
      count_where (\<lambda>r. j_status r = In_Flight) (st_jobs S))"

record reap_outcome =
  ro_requeued :: "uuid list"
  ro_failed :: "uuid list"

definition reap_row :: "job_status \<Rightarrow> job_row \<Rightarrow> store \<times> reap_outcome \<Rightarrow> store \<times> reap_outcome" where
  "reap_row new_status r so =
     (case so of (S, out) \<Rightarrow>
        let hit = (\<lambda>q. j_id q = j_id r \<and> j_status q = In_Flight);
            S' = S\<lparr>st_jobs := update_where hit (park new_status) (st_jobs S)\<rparr>
        in if count_where hit (st_jobs S) > 0
           then (S', if new_status = Failed then out\<lparr>ro_failed := ro_failed out @ [js_id (j_spec r)]\<rparr>
                     else out\<lparr>ro_requeued := ro_requeued out @ [js_id (j_spec r)]\<rparr>)
           else (S', out))"

definition reap_expired :: "i64 \<Rightarrow> nat \<Rightarrow> store \<Rightarrow> store \<times> reap_outcome" where
  "reap_expired now max_attempts S =
     fold (\<lambda>r so. if now - the (j_started_at r) \<ge> int (js_deadline_secs (j_spec r))
                  then reap_row (if j_attempts r \<ge> max_attempts then Failed else Queued) r so else so)
       (filter (\<lambda>r. j_status r = In_Flight \<and> j_started_at r \<noteq> None) (st_jobs S))
       (S, \<lparr>ro_requeued = [], ro_failed = []\<rparr>)"

definition ttl_secs :: "job_spec \<Rightarrow> nat \<Rightarrow> i64" where
  "ttl_secs job ttl_multiple = min (int (js_deadline_secs job) * int ttl_multiple) (2 ^ 63 - 1)"

definition ttl_row :: "job_row \<Rightarrow> store \<times> uuid list \<Rightarrow> store \<times> uuid list" where
  "ttl_row r so =
     (case so of (S, expired) \<Rightarrow>
        let hit = (\<lambda>q. j_id q = j_id r \<and> (j_status q = Queued \<or> j_status q = In_Flight));
            S' = S\<lparr>st_jobs := update_where hit (park Failed) (st_jobs S)\<rparr>
        in (S', if count_where hit (st_jobs S) > 0 then expired @ [js_id (j_spec r)] else expired))"

definition reap_ttl_expired :: "i64 \<Rightarrow> nat \<Rightarrow> store \<Rightarrow> store \<times> uuid list" where
  "reap_ttl_expired now ttl_multiple S =
     fold (\<lambda>r so. if js_deadline_secs (j_spec r) = 0 then so
                  else if now - the (j_created_at r) \<ge> ttl_secs (j_spec r) ttl_multiple then ttl_row r so
                  else so)
       (filter (\<lambda>r. (j_status r = Queued \<or> j_status r = In_Flight) \<and> j_created_at r \<noteq> None) (st_jobs S))
       (S, [])"

definition reap_stale_holders :: "string list \<Rightarrow> i64 \<Rightarrow> i64 \<Rightarrow> nat \<Rightarrow> store \<Rightarrow> store \<times> reap_outcome" where
  "reap_stale_holders live now grace_secs max_attempts S =
     fold (\<lambda>r so. if List.member live (the (j_dispatched_to r)) then so
                  else if now - the (j_started_at r) < grace_secs then so
                  else reap_row (if j_attempts r \<ge> max_attempts then Failed else Queued) r so)
       (filter (\<lambda>r. j_status r = In_Flight \<and> j_dispatched_to r \<noteq> None \<and> j_started_at r \<noteq> None) (st_jobs S))
       (S, \<lparr>ro_requeued = [], ro_failed = []\<rparr>)"

definition touch :: "uuid \<Rightarrow> i64 \<Rightarrow> i64 \<Rightarrow> u8 \<Rightarrow> store \<Rightarrow> store \<times> bool" where
  "touch i seq now progress_pct S =
     (let pct = min progress_pct 100;
          hit = (\<lambda>r. j_id r = i \<and> j_status r = In_Flight \<and> j_dispatch_seq r = seq)
      in (S\<lparr>st_jobs := update_where hit (\<lambda>r. r\<lparr>j_started_at := Some now, j_progress_pct := pct\<rparr>) (st_jobs S)\<rparr>,
          count_where hit (st_jobs S) > 0))"

subsection \<open>Retention\<close>

definition prunable :: "i64 \<Rightarrow> store \<Rightarrow> job_row \<Rightarrow> bool" where
  "prunable cutoff S r \<longleftrightarrow> (j_status r = Done \<or> j_status r = Failed)
     \<and> (case j_created_at r of None \<Rightarrow> False | Some t \<Rightarrow> t \<le> cutoff)
     \<and> \<not> (\<exists>a\<in>set (st_attestations S). at_job_id a = j_id r \<and> at_uid a = None)
     \<and> \<not> (\<exists>a\<in>set (st_attestations S). at_job_id a = j_id r
            \<and> at_revocation_requested_at a \<noteq> None \<and> at_revoked_at a = None)
     \<and> \<not> (\<exists>d\<in>set (st_debits S). db_job_id d = j_id r \<and> db_tx_hash d = None)"

definition delete_job :: "uuid \<Rightarrow> store \<Rightarrow> store" where
  "delete_job i S = S\<lparr>st_results := delete_where (\<lambda>r. res_job_id r = i) (st_results S),
     st_attestations := delete_where (\<lambda>a. at_job_id a = i) (st_attestations S),
     st_debits := delete_where (\<lambda>d. db_job_id d = i) (st_debits S),
     st_jobs := delete_where (\<lambda>r. j_id r = i) (st_jobs S)\<rparr>"

text \<open>The candidate query has no \<^verbatim>\<open>ORDER BY\<close>: \<open>plan\<close> is the order in which SQLite returns its rows.\<close>

definition prune_terminal_jobs ::
  "(job_row list \<Rightarrow> job_row list) \<Rightarrow> i64 \<Rightarrow> i64 \<Rightarrow> nat \<Rightarrow> store \<Rightarrow> store \<times> nat" where
  "prune_terminal_jobs plan now horizon_secs batch S =
     (let cutoff = max (now - horizon_secs) (- (2 ^ 63));
          ids = map j_id (take batch (plan (filter (prunable cutoff S) (st_jobs S))))
      in (fold delete_job ids S, length ids))"

subsection \<open>Lookups\<close>

definition job_status_of :: "uuid \<Rightarrow> store \<Rightarrow> job_status option" where
  "job_status_of i S = map_option j_status (find_row j_id i (st_jobs S))"

definition current_dispatch_seq :: "uuid \<Rightarrow> store \<Rightarrow> i64 option" where
  "current_dispatch_seq i S = map_option j_dispatch_seq (find_row j_id i (st_jobs S))"

definition get_job :: "uuid \<Rightarrow> store \<Rightarrow> job_spec option" where
  "get_job i S = map_option j_spec (find_row j_id i (st_jobs S))"

definition get_result :: "uuid \<Rightarrow> store \<Rightarrow> job_result option" where
  "get_result i S = map_option res_result (find_row res_job_id i (st_results S))"

definition list_jobs :: "nat \<Rightarrow> job_status option \<Rightarrow> store \<Rightarrow> (uuid \<times> job_kind \<times> job_status) list" where
  "list_jobs limit status S =
     map (\<lambda>r. (js_id (j_spec r), js_kind (j_spec r), j_status r))
       (take limit (rev (filter (\<lambda>r. case status of None \<Rightarrow> True | Some s \<Rightarrow> j_status r = s) (st_jobs S))))"

end
