(* ===== verification/Mesh_Ledger.thy ===== *)
theory Mesh_Ledger
  imports Mesh_Store
begin

section \<open>Receipts, debits and statistics (\<^verbatim>\<open>src/mesh/coordinator/src/store.rs\<close>)\<close>

text \<open>
  The two outboxes of the store, one row per settled job: the receipts owed to \<^verbatim>\<open>RenderReceipts\<close> with
  their later revocations, and the debits owed to \<^verbatim>\<open>ComputeMeter\<close>. A row is claimed by a pure read,
  marked once the chain has it, or quarantined until an operator re-drives it. The second half are the
  read-only aggregates behind \<^verbatim>\<open>/stats\<close> and \<^verbatim>\<open>/earners\<close>; an overflowing checked sum is \<open>None\<close>.
\<close>

subsection \<open>Receipts\<close>

definition att_drainable :: "att_row \<Rightarrow> bool" where
  "att_drainable a \<longleftrightarrow> at_uid a = None \<and> at_dead_lettered_at a = None"

definition att_stuck :: "att_row \<Rightarrow> bool" where
  "att_stuck a \<longleftrightarrow> at_dead_lettered_at a \<noteq> None \<and> at_uid a = None"

definition pending_attestation_count :: "store \<Rightarrow> nat" where
  "pending_attestation_count S = count_where att_drainable (st_attestations S)"

definition dead_lettered_attestation_count :: "store \<Rightarrow> nat" where
  "dead_lettered_attestation_count S = count_where (\<lambda>a. at_dead_lettered_at a \<noteq> None) (st_attestations S)"

definition claim_oldest_pending_batch :: "nat \<Rightarrow> store \<Rightarrow> (uuid \<times> pending_attestation) list" where
  "claim_oldest_pending_batch limit S =
     map (\<lambda>a. (at_job_id a, at_att a))
       (take limit (sort_key at_created_at (filter att_drainable (st_attestations S))))"

definition mark_submitted :: "uuid \<Rightarrow> string \<Rightarrow> i64 \<Rightarrow> store \<Rightarrow> store \<times> bool" where
  "mark_submitted i uid now S =
     (let hit = (\<lambda>a. at_job_id a = i \<and> at_uid a = None)
      in (S\<lparr>st_attestations := update_where hit (\<lambda>a. a\<lparr>at_uid := Some uid, at_submitted_at := Some now\<rparr>)
              (st_attestations S)\<rparr>,
          count_where hit (st_attestations S) > 0))"

definition mark_attestation_dead_lettered :: "uuid \<Rightarrow> i64 \<Rightarrow> store \<Rightarrow> store \<times> bool" where
  "mark_attestation_dead_lettered i now S =
     (let hit = (\<lambda>a. at_job_id a = i \<and> at_uid a = None \<and> at_dead_lettered_at a = None)
      in (S\<lparr>st_attestations := update_where hit (\<lambda>a. a\<lparr>at_dead_lettered_at := Some now\<rparr>) (st_attestations S)\<rparr>,
          count_where hit (st_attestations S) > 0))"

definition rearm_att :: "att_row \<Rightarrow> att_row" where
  "rearm_att a = a\<lparr>at_dead_lettered_at := None, at_redrive_count := at_redrive_count a + 1\<rparr>"

definition redrive_dead_lettered_attestation :: "uuid \<Rightarrow> store \<Rightarrow> store \<times> bool" where
  "redrive_dead_lettered_attestation i S =
     (let hit = (\<lambda>a. at_job_id a = i \<and> at_dead_lettered_at a \<noteq> None \<and> at_uid a = None)
      in (S\<lparr>st_attestations := update_where hit rearm_att (st_attestations S)\<rparr>,
          count_where hit (st_attestations S) > 0))"

definition redrive_all_dead_lettered_attestations :: "store \<Rightarrow> store \<times> nat" where
  "redrive_all_dead_lettered_attestations S =
     (S\<lparr>st_attestations := update_where att_stuck rearm_att (st_attestations S)\<rparr>,
      count_where att_stuck (st_attestations S))"

definition list_dead_lettered_attestations ::
  "nat \<Rightarrow> store \<Rightarrow> (uuid \<times> string \<times> u64 \<times> u16 \<times> i64 \<times> nat) list" where
  "list_dead_lettered_attestations limit S =
     map (\<lambda>a. (at_job_id a, pa_earner (at_att a), pa_render_seconds (at_att a), pa_job_kind (at_att a),
               the (at_dead_lettered_at a), at_redrive_count a))
       (take limit (sort_key at_created_at (filter att_stuck (st_attestations S))))"

definition attestation_readback :: "uuid \<Rightarrow> store \<Rightarrow> (string option \<times> i64 option \<times> i64 option) option" where
  "attestation_readback i S =
     map_option (\<lambda>a. (at_uid a, at_submitted_at a, at_revoked_at a)) (find_row at_job_id i (st_attestations S))"

subsection \<open>Revocations\<close>

definition rev_drainable :: "att_row \<Rightarrow> bool" where
  "rev_drainable a \<longleftrightarrow> at_revocation_requested_at a \<noteq> None \<and> at_revoked_at a = None
     \<and> at_revocation_dead_lettered_at a = None"

definition rev_stuck :: "att_row \<Rightarrow> bool" where
  "rev_stuck a \<longleftrightarrow> at_revocation_dead_lettered_at a \<noteq> None \<and> at_revoked_at a = None"

definition request_revocation :: "uuid \<Rightarrow> i64 \<Rightarrow> store \<Rightarrow> store \<times> bool" where
  "request_revocation i now S =
     (let hit = (\<lambda>a. at_job_id a = i \<and> at_uid a \<noteq> None \<and> at_revoked_at a = None
                    \<and> at_revocation_requested_at a = None \<and> at_revocation_dead_lettered_at a = None)
      in (S\<lparr>st_attestations := update_where hit (\<lambda>a. a\<lparr>at_revocation_requested_at := Some now\<rparr>) (st_attestations S)\<rparr>,
          count_where hit (st_attestations S) > 0))"

definition claim_oldest_pending_revocation_batch :: "nat \<Rightarrow> store \<Rightarrow> (uuid \<times> string) list" where
  "claim_oldest_pending_revocation_batch limit S =
     map (\<lambda>a. (at_job_id a, pa_job_id (at_att a)))
       (take limit (sort_key at_revocation_requested_at (filter rev_drainable (st_attestations S))))"

definition mark_revoked :: "uuid \<Rightarrow> i64 \<Rightarrow> store \<Rightarrow> store \<times> bool" where
  "mark_revoked i now S =
     (let hit = (\<lambda>a. at_job_id a = i \<and> at_uid a \<noteq> None \<and> at_revocation_requested_at a \<noteq> None
                    \<and> at_revoked_at a = None)
      in (S\<lparr>st_attestations := update_where hit (\<lambda>a. a\<lparr>at_revoked_at := Some now\<rparr>) (st_attestations S)\<rparr>,
          count_where hit (st_attestations S) > 0))"

definition mark_revocation_dead_lettered :: "uuid \<Rightarrow> i64 \<Rightarrow> store \<Rightarrow> store \<times> bool" where
  "mark_revocation_dead_lettered i now S =
     (let hit = (\<lambda>a. at_job_id a = i \<and> at_revocation_requested_at a \<noteq> None \<and> at_revoked_at a = None
                    \<and> at_revocation_dead_lettered_at a = None)
      in (S\<lparr>st_attestations := update_where hit (\<lambda>a. a\<lparr>at_revocation_dead_lettered_at := Some now\<rparr>)
              (st_attestations S)\<rparr>,
          count_where hit (st_attestations S) > 0))"

definition rearm_rev :: "att_row \<Rightarrow> att_row" where
  "rearm_rev a = a\<lparr>at_revocation_dead_lettered_at := None,
     at_revocation_redrive_count := at_revocation_redrive_count a + 1\<rparr>"

definition redrive_dead_lettered_revocation :: "uuid \<Rightarrow> store \<Rightarrow> store \<times> bool" where
  "redrive_dead_lettered_revocation i S =
     (let hit = (\<lambda>a. at_job_id a = i \<and> at_revocation_dead_lettered_at a \<noteq> None \<and> at_revoked_at a = None)
      in (S\<lparr>st_attestations := update_where hit rearm_rev (st_attestations S)\<rparr>,
          count_where hit (st_attestations S) > 0))"

definition redrive_all_dead_lettered_revocations :: "store \<Rightarrow> store \<times> nat" where
  "redrive_all_dead_lettered_revocations S =
     (S\<lparr>st_attestations := update_where rev_stuck rearm_rev (st_attestations S)\<rparr>,
      count_where rev_stuck (st_attestations S))"

definition list_dead_lettered_revocations ::
  "nat \<Rightarrow> store \<Rightarrow> (uuid \<times> string \<times> u64 \<times> u16 \<times> i64 \<times> nat) list" where
  "list_dead_lettered_revocations limit S =
     map (\<lambda>a. (at_job_id a, pa_earner (at_att a), pa_render_seconds (at_att a), pa_job_kind (at_att a),
               the (at_revocation_dead_lettered_at a), at_revocation_redrive_count a))
       (take limit (sort_key at_created_at (filter rev_stuck (st_attestations S))))"

definition revoked_attestation_count :: "store \<Rightarrow> nat" where
  "revoked_attestation_count S = count_where (\<lambda>a. at_revoked_at a \<noteq> None) (st_attestations S)"

definition pending_revocation_count :: "store \<Rightarrow> nat" where
  "pending_revocation_count S = count_where rev_drainable (st_attestations S)"

definition dead_lettered_revocation_count :: "store \<Rightarrow> nat" where
  "dead_lettered_revocation_count S =
     count_where (\<lambda>a. at_revocation_dead_lettered_at a \<noteq> None) (st_attestations S)"

subsection \<open>Debits\<close>

definition debit_drainable :: "debit_row \<Rightarrow> bool" where
  "debit_drainable d \<longleftrightarrow> db_tx_hash d = None \<and> db_dead_lettered_at d = None"

definition debit_stuck :: "debit_row \<Rightarrow> bool" where
  "debit_stuck d \<longleftrightarrow> db_dead_lettered_at d \<noteq> None \<and> db_tx_hash d = None"

definition pending_debit_count :: "store \<Rightarrow> nat" where
  "pending_debit_count S = count_where debit_drainable (st_debits S)"

definition dead_lettered_debit_count :: "store \<Rightarrow> nat" where
  "dead_lettered_debit_count S = count_where (\<lambda>d. db_dead_lettered_at d \<noteq> None) (st_debits S)"

definition claim_oldest_pending_debit_batch :: "nat \<Rightarrow> store \<Rightarrow> (uuid \<times> pending_debit) list" where
  "claim_oldest_pending_debit_batch limit S =
     map (\<lambda>d. (db_job_id d, db_debit d))
       (take limit (sort_key db_created_at (filter debit_drainable (st_debits S))))"

definition mark_debit_submitted :: "uuid \<Rightarrow> string \<Rightarrow> i64 \<Rightarrow> store \<Rightarrow> store \<times> bool" where
  "mark_debit_submitted i tx_hash now S =
     (let hit = (\<lambda>d. db_job_id d = i \<and> db_tx_hash d = None)
      in (S\<lparr>st_debits := update_where hit (\<lambda>d. d\<lparr>db_tx_hash := Some tx_hash, db_submitted_at := Some now\<rparr>)
              (st_debits S)\<rparr>,
          count_where hit (st_debits S) > 0))"

definition mark_debit_dead_lettered :: "uuid \<Rightarrow> i64 \<Rightarrow> store \<Rightarrow> store \<times> bool" where
  "mark_debit_dead_lettered i now S =
     (let hit = (\<lambda>d. db_job_id d = i \<and> db_tx_hash d = None \<and> db_dead_lettered_at d = None)
      in (S\<lparr>st_debits := update_where hit (\<lambda>d. d\<lparr>db_dead_lettered_at := Some now\<rparr>) (st_debits S)\<rparr>,
          count_where hit (st_debits S) > 0))"

definition rearm_debit :: "debit_row \<Rightarrow> debit_row" where
  "rearm_debit d = d\<lparr>db_dead_lettered_at := None, db_redrive_count := db_redrive_count d + 1\<rparr>"

definition redrive_dead_lettered_debit :: "uuid \<Rightarrow> store \<Rightarrow> store \<times> bool" where
  "redrive_dead_lettered_debit i S =
     (let hit = (\<lambda>d. db_job_id d = i \<and> db_dead_lettered_at d \<noteq> None \<and> db_tx_hash d = None)
      in (S\<lparr>st_debits := update_where hit rearm_debit (st_debits S)\<rparr>, count_where hit (st_debits S) > 0))"

definition redrive_all_dead_lettered_debits :: "store \<Rightarrow> store \<times> nat" where
  "redrive_all_dead_lettered_debits S =
     (S\<lparr>st_debits := update_where debit_stuck rearm_debit (st_debits S)\<rparr>, count_where debit_stuck (st_debits S))"

definition list_dead_lettered_debits :: "nat \<Rightarrow> store \<Rightarrow> (uuid \<times> string \<times> string \<times> i64 \<times> nat) list" where
  "list_dead_lettered_debits limit S =
     map (\<lambda>d. (db_job_id d, pd_buyer (db_debit d), pd_amount_wei (db_debit d), the (db_dead_lettered_at d),
               db_redrive_count d))
       (take limit (sort_key db_created_at (filter debit_stuck (st_debits S))))"

definition debit_readback :: "uuid \<Rightarrow> store \<Rightarrow> (string \<times> string option \<times> i64 option) option" where
  "debit_readback i S =
     map_option (\<lambda>d. (pd_amount_wei (db_debit d), db_tx_hash d, db_submitted_at d)) (find_row db_job_id i (st_debits S))"

subsection \<open>Statistics\<close>

definition count_by_kind :: "job_status \<Rightarrow> store \<Rightarrow> job_kind \<Rightarrow> nat option" where
  "count_by_kind s S k =
     (let n = count_where (\<lambda>r. j_status r = s \<and> js_kind (j_spec r) = k) (st_jobs S)
      in if n = 0 then None else Some n)"

definition queued_count :: "store \<Rightarrow> nat" where
  "queued_count S = count_where (\<lambda>r. j_status r = Queued) (st_jobs S)"

definition in_flight_count :: "store \<Rightarrow> nat" where
  "in_flight_count S = count_where (\<lambda>r. j_status r = In_Flight) (st_jobs S)"

definition failed_count :: "store \<Rightarrow> nat" where
  "failed_count S = count_where (\<lambda>r. j_status r = Failed) (st_jobs S)"

definition completed_count :: "store \<Rightarrow> nat" where
  "completed_count S = count_where (\<lambda>_. True) (st_results S)"

definition oldest_in_flight_started_at :: "store \<Rightarrow> i64 option" where
  "oldest_in_flight_started_at S =
     min_of (List.map_filter j_started_at (filter (\<lambda>r. j_status r = In_Flight) (st_jobs S)))"

definition oldest_dead_lettered_attestation_at :: "store \<Rightarrow> i64 option" where
  "oldest_dead_lettered_attestation_at S =
     min_of (List.map_filter at_dead_lettered_at (filter (\<lambda>a. at_uid a = None) (st_attestations S)))"

definition oldest_dead_lettered_debit_at :: "store \<Rightarrow> i64 option" where
  "oldest_dead_lettered_debit_at S =
     min_of (List.map_filter db_dead_lettered_at (filter (\<lambda>d. db_tx_hash d = None) (st_debits S)))"

definition oldest_dead_lettered_revocation_at :: "store \<Rightarrow> i64 option" where
  "oldest_dead_lettered_revocation_at S =
     min_of (List.map_filter at_revocation_dead_lettered_at (filter (\<lambda>a. at_revoked_at a = None) (st_attestations S)))"

text \<open>
  The average is computed in floating point and rounded half away from zero; with at most a hundred
  percent per row the quotient is exact enough for that to be the rounding of the true average.
\<close>

definition in_flight_progress_pct_avg :: "store \<Rightarrow> nat option" where
  "in_flight_progress_pct_avg S =
     (let ps = map j_progress_pct (filter (\<lambda>r. j_status r = In_Flight) (st_jobs S))
      in if ps = [] then None else Some ((2 * sum_list ps + length ps) div (2 * length ps)))"

definition redispatched_count :: "store \<Rightarrow> nat" where
  "redispatched_count S = count_where (\<lambda>r. j_attempts r > 1) (st_jobs S)"

definition attempt_fault_totals :: "store \<Rightarrow> nat \<times> nat" where
  "attempt_fault_totals S = (sum_list (map j_attempts (st_jobs S)), sum_list (map j_faults (st_jobs S)))"

definition total_render_seconds :: "store \<Rightarrow> nat option" where
  "total_render_seconds S = foldM (\<lambda>r t. ck_u 64 (t + jr_render_seconds (res_result r))) (st_results S) 0"

definition total_payout_wei :: "store \<Rightarrow> nat option" where
  "total_payout_wei S =
     foldM (\<lambda>r t. do { wei \<leftarrow> parse_u128 (js_max_payout_wei (j_spec r)); ck_u 128 (t + wei) })
       (filter (\<lambda>r. j_status r = Done) (st_jobs S)) 0"

definition add_total :: "nat \<Rightarrow> string \<Rightarrow> nat \<Rightarrow> (string \<Rightarrow> nat option) \<Rightarrow> (string \<Rightarrow> nat option) option" where
  "add_total w earner n totals = do {
     v \<leftarrow> ck_u w ((case totals earner of None \<Rightarrow> 0 | Some t \<Rightarrow> t) + n);
     Some (totals(earner \<mapsto> v)) }"

definition completed_count_by_earner :: "store \<Rightarrow> string \<Rightarrow> nat option" where
  "completed_count_by_earner S e =
     (let n = count_where (\<lambda>r. res_earner r = e) (st_results S) in if n = 0 then None else Some n)"

definition render_seconds_by_earner :: "store \<Rightarrow> (string \<Rightarrow> nat option) option" where
  "render_seconds_by_earner S =
     foldM (\<lambda>r. add_total 64 (res_earner r) (jr_render_seconds (res_result r))) (st_results S) Map.empty"

definition faults_by_earner :: "store \<Rightarrow> string \<Rightarrow> nat option" where
  "faults_by_earner S = map_of (st_earner_faults S)"

definition payout_wei_by_earner :: "store \<Rightarrow> (string \<Rightarrow> nat option) option" where
  "payout_wei_by_earner S =
     foldM (\<lambda>(r, q) totals. do {
              wei \<leftarrow> parse_u128 (js_max_payout_wei (j_spec q));
              add_total 128 (res_earner r) wei totals })
       (concat (map (\<lambda>r. map (Pair r) (filter (\<lambda>q. res_job_id r = j_id q) (st_jobs S))) (st_results S)))
       Map.empty"

end
