(* ===== verification/Store_Inv.thy ===== *)
theory Store_Inv
  imports Mesh_Ledger
begin

section \<open>The store as a state machine\<close>

text \<open>
  Every critical section of the store's mutex is a step; the coordinator's handlers, reapers and drains,
  in any interleaving, are sequences of them. This theory proves the invariant all of them keep, and
  that each refines the abstract life cycle of a job.
\<close>

subsection \<open>Tables\<close>

lemma update_where_simps [simp]:
  "update_where P f [] = []" "length (update_where P f rows) = length rows"
  "set (update_where P f rows) = (\<lambda>r. if P r then f r else r) ` set rows"
  by (simp_all add: update_where_def)

lemma map_update_where:
  "(\<And>r. P r \<Longrightarrow> key (f r) = key r) \<Longrightarrow> map key (update_where P f rows) = map key rows"
  by (simp add: update_where_def)

lemma find_row_update:
  "(\<And>r. P r \<Longrightarrow> key (f r) = key r) \<Longrightarrow>
   find_row key k (update_where P f rows) = map_option (\<lambda>r. if P r then f r else r) (find_row key k rows)"
  by (induction rows) (auto simp: find_row_def update_where_def)

lemma find_SomeD: "List.find P xs = Some x \<Longrightarrow> x \<in> set xs \<and> P x"
  by (auto simp: find_Some_iff)

lemma find_row_None: "find_row key k rows = None \<longleftrightarrow> k \<notin> key ` set rows"
  by (auto simp: find_row_def find_None_iff)

lemma find_row_Some: "find_row key k rows = Some r \<Longrightarrow> r \<in> set rows \<and> key r = k"
  by (auto simp: find_row_def find_Some_iff)

lemma find_row_unique:
  "distinct (map key rows) \<Longrightarrow> r \<in> set rows \<Longrightarrow> find_row key (key r) rows = Some r"
  by (induction rows) (auto simp: find_row_def rev_image_eqI)

lemma find_row_append:
  "find_row key k (xs @ ys) = (case find_row key k xs of None \<Rightarrow> find_row key k ys | Some r \<Rightarrow> Some r)"
  by (induction xs) (auto simp: find_row_def)

lemma find_row_delete:
  "find_row key k (delete_where (\<lambda>r. key r = i) rows) = (if k = i then None else find_row key k rows)"
  by (induction rows) (auto simp: find_row_def delete_where_def)

lemma find_row_small [simp]:
  "find_row key k [] = None" "find_row key k [r] = (if key r = k then Some r else None)"
  by (simp_all add: find_row_def)

lemma insert_new_fresh [simp]: "key r \<notin> key ` set rows \<Longrightarrow> insert_new key r rows = rows @ [r]"
  by (simp add: insert_new_def)

lemma delete_where_simps:
  "set (delete_where P rows) = {r \<in> set rows. \<not> P r}"
  "distinct (map key rows) \<Longrightarrow> distinct (map key (delete_where P rows))"
  by (auto simp: delete_where_def distinct_map_filter)

lemma count_where_pos: "count_where P rows > 0 \<longleftrightarrow> (\<exists>r\<in>set rows. P r)"
  by (auto simp: count_where_def filter_empty_conv)

lemma list_all2_update_where:
  "(\<And>r. r \<in> set rows \<Longrightarrow> R r r) \<Longrightarrow> (\<And>r. r \<in> set rows \<Longrightarrow> P r \<Longrightarrow> R r (f r)) \<Longrightarrow>
   list_all2 R rows (update_where P f rows)"
  by (induction rows) (auto simp: update_where_def)

lemma list_all2_find_row:
  "list_all2 R xs ys \<Longrightarrow> (\<And>x y. R x y \<Longrightarrow> key y = key x) \<Longrightarrow>
   rel_option R (find_row key k xs) (find_row key k ys)"
  by (induction rule: list_all2_induct) (auto simp: find_row_def)

lemma list_all2_keys: "list_all2 R xs ys \<Longrightarrow> (\<And>x y. R x y \<Longrightarrow> key y = key x) \<Longrightarrow> map key ys = map key xs"
  by (induction rule: list_all2_induct) auto

lemma list_all2_right: "list_all2 R xs ys \<Longrightarrow> y \<in> set ys \<Longrightarrow> \<exists>x\<in>set xs. R x y"
  by (induction rule: list_all2_induct) auto

lemma fold_keeps:
  "I s \<Longrightarrow> (\<And>x s. x \<in> set xs \<Longrightarrow> I s \<Longrightarrow> I (f x s)) \<Longrightarrow> I (fold f xs s)"
  by (induction xs arbitrary: s) auto

subsection \<open>The life cycle of a job\<close>

text \<open>
  What the coordinator promises about one job, as an abstract machine: absent, or a status with the
  number of times it has been handed out.
\<close>

type_synonym life = "(job_status \<times> i64) option"

inductive life_step :: "life \<Rightarrow> life \<Rightarrow> bool" where
  L_Enqueue: "life_step None (Some (Queued, 0))"
| L_Dispatch: "life_step (Some (Queued, n)) (Some (In_Flight, n + 1))"
| L_Return: "life_step (Some (In_Flight, n)) (Some (Queued, n))"
| L_Settle: "life_step (Some (In_Flight, n)) (Some (Done, n))"
| L_Fail: "s = Queued \<or> s = In_Flight \<Longrightarrow> life_step (Some (s, n)) (Some (Failed, n))"
| L_Prune: "s = Done \<or> s = Failed \<Longrightarrow> life_step (Some (s, n)) None"

inductive_cases life_step_from_Done: "life_step (Some (Done, n)) l"
inductive_cases life_step_from_Failed: "life_step (Some (Failed, n)) l"
inductive_cases life_step_from_Some: "life_step (Some (s, n)) (Some (s', n'))"

abbreviation life_move :: "life \<Rightarrow> life \<Rightarrow> bool" where
  "life_move \<equiv> life_step\<^sup>=\<^sup>="

definition life_of :: "job_row \<Rightarrow> life" where
  "life_of r = Some (j_status r, j_dispatch_seq r)"

definition life :: "store \<Rightarrow> uuid \<Rightarrow> life" where
  "life S i = Option.bind (find_row j_id i (st_jobs S)) life_of"

subsection \<open>The invariant\<close>

definition job_row_ok :: "job_row \<Rightarrow> bool" where
  "job_row_ok r \<longleftrightarrow> js_id (j_spec r) = j_id r \<and> j_created_at r \<noteq> None \<and> 0 \<le> j_dispatch_seq r
     \<and> j_progress_pct r \<le> 100
     \<and> (if j_status r = In_Flight then j_started_at r \<noteq> None \<and> 1 \<le> j_attempts r \<and> 1 \<le> j_dispatch_seq r
        else j_started_at r = None)"

definition att_row_ok :: "att_row \<Rightarrow> bool" where
  "att_row_ok a \<longleftrightarrow> (at_uid a = None \<longleftrightarrow> at_submitted_at a = None)
     \<and> (at_revocation_requested_at a \<noteq> None \<longrightarrow> at_uid a \<noteq> None)
     \<and> (at_revoked_at a \<noteq> None \<longrightarrow> at_revocation_requested_at a \<noteq> None)
     \<and> (at_revocation_dead_lettered_at a \<noteq> None \<longrightarrow> at_revocation_requested_at a \<noteq> None)"

definition debit_row_ok :: "debit_row \<Rightarrow> bool" where
  "debit_row_ok d \<longleftrightarrow> (db_tx_hash d = None \<longleftrightarrow> db_submitted_at d = None)"

definition settled_row :: "mesh_crates \<Rightarrow> store \<Rightarrow> job_row \<Rightarrow> bool" where
  "settled_row X S r \<longleftrightarrow> (\<exists>x\<in>set (st_results S). res_job_id x = j_id r
     \<and> jr_job_id (res_result x) = j_id r \<and> jr_earner_address (res_result x) = res_earner x
     \<and> map_option at_att (find_row at_job_id (j_id r) (st_attestations S))
         = build_attestation X (j_spec r) (res_result x)
     \<and> (\<exists>rate. map_option db_debit (find_row db_job_id (j_id r) (st_debits S))
         = build_debit X (j_buyer r) (res_result x) rate))"

definition done_ids :: "store \<Rightarrow> uuid set" where
  "done_ids S = j_id ` {r \<in> set (st_jobs S). j_status r = Done}"

definition store_ok :: "mesh_crates \<Rightarrow> store \<Rightarrow> bool" where
  "store_ok X S \<longleftrightarrow> distinct (map j_id (st_jobs S)) \<and> (\<forall>r\<in>set (st_jobs S). job_row_ok r)
     \<and> distinct (map res_job_id (st_results S)) \<and> res_job_id ` set (st_results S) = done_ids S
     \<and> (\<forall>r\<in>set (st_jobs S). j_status r = Done \<longrightarrow> settled_row X S r)
     \<and> distinct (map at_job_id (st_attestations S)) \<and> at_job_id ` set (st_attestations S) \<subseteq> done_ids S
     \<and> (\<forall>a\<in>set (st_attestations S). att_row_ok a)
     \<and> distinct (map db_job_id (st_debits S)) \<and> db_job_id ` set (st_debits S) \<subseteq> done_ids S
     \<and> (\<forall>d\<in>set (st_debits S). debit_row_ok d)
     \<and> distinct (map fst (st_earner_faults S))"

lemma store_ok_row: "store_ok X S \<Longrightarrow> r \<in> set (st_jobs S) \<Longrightarrow> find_row j_id (j_id r) (st_jobs S) = Some r"
  by (auto simp: store_ok_def intro: find_row_unique)

subsection \<open>Steps that move jobs\<close>

definition row_move :: "job_row \<Rightarrow> job_row \<Rightarrow> bool" where
  "row_move q q' \<longleftrightarrow> j_id q' = j_id q \<and> j_spec q' = j_spec q \<and> j_buyer q' = j_buyer q
     \<and> j_created_at q' = j_created_at q \<and> (j_status q' = Done \<longleftrightarrow> j_status q = Done)
     \<and> life_move (life_of q) (life_of q') \<and> (job_row_ok q \<longrightarrow> job_row_ok q')"

definition jobs_move :: "store \<Rightarrow> store \<Rightarrow> bool" where
  "jobs_move S S' \<longleftrightarrow> list_all2 row_move (st_jobs S) (st_jobs S') \<and> st_results S' = st_results S
     \<and> st_attestations S' = st_attestations S \<and> st_debits S' = st_debits S
     \<and> (distinct (map fst (st_earner_faults S)) \<longrightarrow> distinct (map fst (st_earner_faults S')))"

lemma row_move_refl [simp]: "row_move q q"
  by (simp add: row_move_def)

lemma jobs_move_refl [simp]: "jobs_move S S"
  by (simp add: jobs_move_def list_all2_refl)

lemma jobs_move_update:
  "(\<And>r. r \<in> set (st_jobs S) \<Longrightarrow> P r \<Longrightarrow> row_move r (f r)) \<Longrightarrow>
   jobs_move S (S\<lparr>st_jobs := update_where P f (st_jobs S)\<rparr>)"
  by (auto simp: jobs_move_def intro!: list_all2_update_where)

lemma jobs_move_ids: "jobs_move S S' \<Longrightarrow> map j_id (st_jobs S') = map j_id (st_jobs S)"
  unfolding jobs_move_def by (auto intro: list_all2_keys simp: row_move_def)

lemma done_ids_keys: "done_ids S = fst ` {p \<in> set (map (\<lambda>r. (j_id r, j_status r = Done)) (st_jobs S)). snd p}"
  by (force simp: done_ids_def)

lemma jobs_move_done: "jobs_move S S' \<Longrightarrow> done_ids S' = done_ids S"
proof -
  assume "jobs_move S S'"
  then have "list_all2 row_move (st_jobs S) (st_jobs S')" by (simp add: jobs_move_def)
  then have "map (\<lambda>r. (j_id r, j_status r = Done)) (st_jobs S') = map (\<lambda>r. (j_id r, j_status r = Done)) (st_jobs S)"
    by (rule list_all2_keys) (simp add: row_move_def)
  then show ?thesis by (simp only: done_ids_keys)
qed

lemma jobs_move_life: "jobs_move S S' \<Longrightarrow> life_move (life S i) (life S' i)"
proof -
  assume "jobs_move S S'"
  then have "rel_option row_move (find_row j_id i (st_jobs S)) (find_row j_id i (st_jobs S'))"
    by (auto simp: jobs_move_def row_move_def intro: list_all2_find_row)
  then show ?thesis by (cases rule: option.rel_cases) (auto simp: life_def row_move_def)
qed

lemma jobs_move_ok:
  assumes "store_ok X S" "jobs_move S S'"
  shows "store_ok X S'"
proof -
  have r: "\<exists>q\<in>set (st_jobs S). row_move q r" if "r \<in> set (st_jobs S')" for r
    using assms(2) that by (auto simp: jobs_move_def dest: list_all2_right)
  have "job_row_ok r" if "r \<in> set (st_jobs S')" for r
    using r [OF that] assms(1) by (auto simp: store_ok_def row_move_def)
  moreover have "settled_row X S' r" if "r \<in> set (st_jobs S')" "j_status r = Done" for r
    using r [OF that(1)] assms that(2) by (auto simp: store_ok_def row_move_def settled_row_def jobs_move_def)
  ultimately show ?thesis
    using assms jobs_move_ids [OF assms(2)] jobs_move_done [OF assms(2)]
    by (auto simp: store_ok_def jobs_move_def)
qed

subsection \<open>The job operations\<close>

lemma row_move_park:
  "j_status r = In_Flight \<or> j_status r = Queued \<and> s = Failed \<Longrightarrow> s = Queued \<or> s = Failed \<Longrightarrow> row_move r (park s r)"
  by (auto simp: row_move_def park_def life_of_def job_row_ok_def intro: life_step.intros)

lemma row_move_dispatch:
  "j_status r = Queued \<Longrightarrow> row_move r (dispatch_row h (j_dispatch_seq r + 1) now r)"
  by (auto simp: row_move_def dispatch_row_def life_of_def job_row_ok_def intro: life_step.intros)

lemma row_move_fault: "j_status r = In_Flight \<Longrightarrow> s = Queued \<or> s = Failed \<Longrightarrow> row_move r (fault_row s n r)"
  by (auto simp: row_move_def fault_row_def park_def life_of_def job_row_ok_def intro: life_step.intros)

lemma row_move_touch:
  "j_status r = In_Flight \<Longrightarrow> p \<le> 100 \<Longrightarrow> row_move r (r\<lparr>j_started_at := Some now, j_progress_pct := p\<rparr>)"
  by (auto simp: row_move_def life_of_def job_row_ok_def)

lemmas row_moves = row_move_park row_move_dispatch row_move_fault row_move_touch

lemma take_next_found:
  assumes "take_next_inner h accept now S = (S', Some (job, n))"
  obtains r where "r \<in> set (st_jobs S)" "j_status r = Queued" "accept (j_spec r)" "j_spec r = job"
    "n = j_dispatch_seq r + 1"
    "S' = S\<lparr>st_jobs := update_where (\<lambda>q. j_id q = j_id r) (dispatch_row h n now) (st_jobs S)\<rparr>"
  using assms by (auto simp: take_next_inner_def Let_def split: option.splits dest!: find_SomeD)

lemma take_next_move:
  assumes "distinct (map j_id (st_jobs S))"
  shows "jobs_move S (fst (take_next_inner h accept now S))"
proof (cases "take_next_inner h accept now S")
  case (Pair S' o')
  show ?thesis
  proof (cases o')
    case None
    with Pair show ?thesis by (auto simp: take_next_inner_def Let_def split: option.splits)
  next
    case (Some jn)
    then obtain job n where "take_next_inner h accept now S = (S', Some (job, n))"
      using Pair by (cases jn) auto
    then obtain r where r: "r \<in> set (st_jobs S)" "j_status r = Queued" "n = j_dispatch_seq r + 1"
      and S': "S' = S\<lparr>st_jobs := update_where (\<lambda>q. j_id q = j_id r) (dispatch_row h n now) (st_jobs S)\<rparr>"
      by (rule take_next_found)
    have "q = r" if "q \<in> set (st_jobs S)" "j_id q = j_id r" for q
      using that r(1) assms by (metis distinct_map inj_onD)
    with r S' Pair show ?thesis by (auto intro!: jobs_move_update row_move_dispatch)
  qed
qed

lemma store_requeue_move: "jobs_move S (fst (store_requeue job m S))"
  by (auto simp: store_requeue_def Let_def split: option.splits intro!: jobs_move_update row_moves)

lemma record_fault_fields:
  "st_jobs (record_earner_fault e S) = st_jobs S" "st_results (record_earner_fault e S) = st_results S"
  "st_attestations (record_earner_fault e S) = st_attestations S" "st_debits (record_earner_fault e S) = st_debits S"
  "distinct (map fst (st_earner_faults S)) \<Longrightarrow> distinct (map fst (st_earner_faults (record_earner_fault e S)))"
  by (auto simp: record_earner_fault_def map_update_where)

lemma requeue_fault_move: "jobs_move S (fst (requeue_earner_fault job m e S))"
proof -
  define S0 where "S0 = (case e of None \<Rightarrow> S | Some a \<Rightarrow> record_earner_fault a S)"
  have S0: "st_jobs S0 = st_jobs S" "st_results S0 = st_results S" "st_attestations S0 = st_attestations S"
    "st_debits S0 = st_debits S" "distinct (map fst (st_earner_faults S)) \<Longrightarrow> distinct (map fst (st_earner_faults S0))"
    by (auto simp: S0_def record_fault_fields split: option.splits)
  have "jobs_move S (S0\<lparr>st_jobs := update_where (\<lambda>q. j_id q = js_id job \<and> j_status q = In_Flight)
      (fault_row s n) (st_jobs S0)\<rparr>)" if "s = Queued \<or> s = Failed" for s n
    using that by (auto simp: jobs_move_def S0 intro!: list_all2_update_where row_moves)
  then show ?thesis
    by (auto simp: requeue_earner_fault_def Let_def S0_def [symmetric] split: option.splits)
qed

lemma recover_move: "jobs_move S (fst (recover_in_flight S))"
  by (auto simp: recover_in_flight_def intro!: jobs_move_update row_moves)

lemma touch_move: "jobs_move S (fst (touch i n now p S))"
  by (auto simp: touch_def Let_def intro!: jobs_move_update row_moves)

subsection \<open>The reapers\<close>

text \<open>
  A reaper reads its candidates once and updates them one by one, re-checking each row; on a table with
  unique ids that is one update of the whole table.
\<close>

lemma fold_rows:
  assumes step: "\<And>r S out. step r (S, out) =
      (if c r then (S\<lparr>st_jobs := update_where (\<lambda>q. j_id q = j_id r \<and> g q) (f r) (st_jobs S)\<rparr>,
         if count_where (\<lambda>q. j_id q = j_id r \<and> g q) (st_jobs S) > 0 then h r out else out) else (S, out))"
    and f: "\<And>r q. j_id (f r q) = j_id q"
  shows "distinct (map j_id (st_jobs S)) \<Longrightarrow> distinct (map j_id rs) \<Longrightarrow> set rs \<subseteq> set (st_jobs S) \<Longrightarrow> \<forall>r\<in>set rs. g r \<Longrightarrow>
    fold step rs (S, out) =
      (S\<lparr>st_jobs := map (\<lambda>q. if q \<in> set rs \<and> c q then f q q else q) (st_jobs S)\<rparr>, fold h (filter c rs) out)"
proof (induction rs arbitrary: S out)
  case Nil
  show ?case by simp
next
  case (Cons r rs)
  have uniq: "q = r" if "q \<in> set (st_jobs S)" "j_id q = j_id r" for q
    using that Cons.prems(1,3) by (metis distinct_map inj_onD list.set_intros(1) subsetD)
  have g: "g r" using Cons.prems(4) by simp
  show ?case
  proof (cases "c r")
    case False
    have "q \<in> set (r # rs) \<and> c q \<longleftrightarrow> q \<in> set rs \<and> c q" for q using False by auto
    then show ?thesis using False Cons.IH [of S out] Cons.prems by (simp add: step)
  next
    case True
    let ?u = "\<lambda>q. if q = r then f r r else q"
    let ?S = "S\<lparr>st_jobs := map ?u (st_jobs S)\<rparr>"
    have u: "update_where (\<lambda>q. j_id q = j_id r \<and> g q) (f r) (st_jobs S) = map ?u (st_jobs S)"
      unfolding update_where_def by (rule map_cong) (auto simp: g dest: uniq)
    have hit: "0 < count_where (\<lambda>q. j_id q = j_id r \<and> g q) (st_jobs S)"
      using Cons.prems(3) g by (auto simp: count_where_pos)
    have ids: "map j_id (st_jobs ?S) = map j_id (st_jobs S)" by (auto simp: f)
    have notin: "r \<notin> set rs" "f r r \<notin> set rs"
      using Cons.prems(2) f [of r r] by (auto simp: image_iff)
    have "set rs \<subseteq> set (st_jobs ?S)" using Cons.prems(3) notin(1) by auto
    then have "fold step rs (?S, h r out) =
        (?S\<lparr>st_jobs := map (\<lambda>q. if q \<in> set rs \<and> c q then f q q else q) (st_jobs ?S)\<rparr>, fold h (filter c rs) (h r out))"
      using Cons.prems by (intro Cons.IH) (simp_all only: ids, auto)
    moreover have "map (\<lambda>q. if q \<in> set rs \<and> c q then f q q else q) (st_jobs ?S) =
        map (\<lambda>q. if q \<in> set (r # rs) \<and> c q then f q q else q) (st_jobs S)"
      using notin True by auto
    ultimately show ?thesis using True hit by (simp add: step u)
  qed
qed

lemma fold_rows_where:
  assumes "\<And>r S out. step r (S, out) =
      (if c r then (S\<lparr>st_jobs := update_where (\<lambda>q. j_id q = j_id r \<and> g q) (f r) (st_jobs S)\<rparr>,
         if count_where (\<lambda>q. j_id q = j_id r \<and> g q) (st_jobs S) > 0 then h r out else out) else (S, out))"
    and "\<And>r q. j_id (f r q) = j_id q" "\<And>r. d r \<Longrightarrow> g r" "distinct (map j_id (st_jobs S))"
  shows "fold step (filter d (st_jobs S)) (S, out) =
      (S\<lparr>st_jobs := update_where (\<lambda>q. d q \<and> c q) (\<lambda>q. f q q) (st_jobs S)\<rparr>, fold h (filter (\<lambda>q. d q \<and> c q) (st_jobs S)) out)"
proof -
  have "fold step (filter d (st_jobs S)) (S, out) =
      (S\<lparr>st_jobs := map (\<lambda>q. if q \<in> set (filter d (st_jobs S)) \<and> c q then f q q else q) (st_jobs S)\<rparr>,
       fold h (filter c (filter d (st_jobs S))) out)"
    using assms(3,4) by (intro fold_rows [OF assms(1,2)]) (auto simp: distinct_map_filter)
  moreover have "map (\<lambda>q. if q \<in> set (filter d (st_jobs S)) \<and> c q then f q q else q) (st_jobs S)
      = update_where (\<lambda>q. d q \<and> c q) (\<lambda>q. f q q) (st_jobs S)"
    by (auto simp: update_where_def)
  ultimately show ?thesis by simp
qed

definition spent_status :: "nat \<Rightarrow> job_row \<Rightarrow> job_status" where
  "spent_status m r = (if j_attempts r \<ge> m then Failed else Queued)"

definition overdue :: "i64 \<Rightarrow> job_row \<Rightarrow> bool" where
  "overdue now r \<longleftrightarrow> j_status r = In_Flight \<and> j_started_at r \<noteq> None
     \<and> int (js_deadline_secs (j_spec r)) \<le> now - the (j_started_at r)"

definition abandoned :: "string list \<Rightarrow> i64 \<Rightarrow> i64 \<Rightarrow> job_row \<Rightarrow> bool" where
  "abandoned live now grace r \<longleftrightarrow> j_status r = In_Flight \<and> j_dispatched_to r \<noteq> None \<and> j_started_at r \<noteq> None
     \<and> the (j_dispatched_to r) \<notin> set live \<and> grace \<le> now - the (j_started_at r)"

definition ttl_due :: "i64 \<Rightarrow> nat \<Rightarrow> job_row \<Rightarrow> bool" where
  "ttl_due now k r \<longleftrightarrow> (j_status r = Queued \<or> j_status r = In_Flight) \<and> j_created_at r \<noteq> None
     \<and> js_deadline_secs (j_spec r) \<noteq> 0 \<and> ttl_secs (j_spec r) k \<le> now - the (j_created_at r)"

definition reaped :: "nat \<Rightarrow> job_row list \<Rightarrow> reap_outcome" where
  "reaped m rs = \<lparr>ro_requeued = map (\<lambda>r. js_id (j_spec r)) (filter (\<lambda>r. spent_status m r = Queued) rs),
     ro_failed = map (\<lambda>r. js_id (j_spec r)) (filter (\<lambda>r. spent_status m r = Failed) rs)\<rparr>"

definition reap_note :: "nat \<Rightarrow> job_row \<Rightarrow> reap_outcome \<Rightarrow> reap_outcome" where
  "reap_note m r out = (if spent_status m r = Failed then out\<lparr>ro_failed := ro_failed out @ [js_id (j_spec r)]\<rparr>
     else out\<lparr>ro_requeued := ro_requeued out @ [js_id (j_spec r)]\<rparr>)"

lemma fold_reap_note:
  "fold (reap_note m) rs out = \<lparr>ro_requeued = ro_requeued out @ ro_requeued (reaped m rs),
     ro_failed = ro_failed out @ ro_failed (reaped m rs)\<rparr>"
  by (induction rs arbitrary: out) (auto simp: reap_note_def reaped_def spent_status_def)

lemma fold_snoc: "fold (\<lambda>r out. out @ [k r]) rs out = out @ map k rs"
  by (induction rs arbitrary: out) auto

lemma reap_expired_eq:
  assumes "distinct (map j_id (st_jobs S))"
  shows "reap_expired now m S =
    (S\<lparr>st_jobs := update_where (overdue now) (\<lambda>r. park (spent_status m r) r) (st_jobs S)\<rparr>,
     reaped m (filter (overdue now) (st_jobs S)))"
  unfolding reap_expired_def
  by (subst fold_rows_where [where g = "\<lambda>q. j_status q = In_Flight" and f = "\<lambda>r. park (spent_status m r)"
        and h = "reap_note m" and c = "\<lambda>r. int (js_deadline_secs (j_spec r)) \<le> now - the (j_started_at r)", OF _ _ _ assms])
    (auto simp: reap_row_def Let_def spent_status_def reap_note_def park_def fold_reap_note overdue_def [abs_def] reaped_def
      conj_assoc)

lemma reap_stale_eq:
  assumes "distinct (map j_id (st_jobs S))"
  shows "reap_stale_holders live now grace m S =
    (S\<lparr>st_jobs := update_where (abandoned live now grace) (\<lambda>r. park (spent_status m r) r) (st_jobs S)\<rparr>,
     reaped m (filter (abandoned live now grace) (st_jobs S)))"
  unfolding reap_stale_holders_def
  by (subst fold_rows_where [where g = "\<lambda>q. j_status q = In_Flight" and f = "\<lambda>r. park (spent_status m r)"
        and h = "reap_note m" and c = "\<lambda>r. the (j_dispatched_to r) \<notin> set live \<and> grace \<le> now - the (j_started_at r)",
        OF _ _ _ assms])
    (auto simp: reap_row_def Let_def spent_status_def reap_note_def park_def fold_reap_note abandoned_def [abs_def] reaped_def
      conj_assoc)

lemma reap_ttl_eq:
  assumes "distinct (map j_id (st_jobs S))"
  shows "reap_ttl_expired now k S =
    (S\<lparr>st_jobs := update_where (ttl_due now k) (park Failed) (st_jobs S)\<rparr>,
     map (\<lambda>r. js_id (j_spec r)) (filter (ttl_due now k) (st_jobs S)))"
  unfolding reap_ttl_expired_def
  by (subst fold_rows_where [where g = "\<lambda>q. j_status q = Queued \<or> j_status q = In_Flight" and f = "\<lambda>r. park Failed"
        and h = "\<lambda>r out. out @ [js_id (j_spec r)]"
        and c = "\<lambda>r. js_deadline_secs (j_spec r) \<noteq> 0 \<and> ttl_secs (j_spec r) k \<le> now - the (j_created_at r)", OF _ _ _ assms])
    (auto simp: ttl_row_def Let_def park_def fold_snoc ttl_due_def [abs_def] conj_assoc)

lemmas reapers_eq = reap_expired_eq reap_stale_eq reap_ttl_eq

lemma reap_moves:
  assumes "distinct (map j_id (st_jobs S))"
  shows "jobs_move S (fst (reap_expired now m S))" "jobs_move S (fst (reap_stale_holders live now g m S))"
    "jobs_move S (fst (reap_ttl_expired now k S))"
  unfolding reapers_eq [OF assms]
  by (auto simp: overdue_def abandoned_def ttl_due_def spent_status_def intro!: jobs_move_update row_moves)

end
