(* ===== verification/Store_Machine.thy ===== *)
theory Store_Machine
  imports Store_Inv
begin

section \<open>The steps of the store\<close>

text \<open>
  The remaining operations (ingestion, settlement, retention and the outboxes) against the invariant,
  the step relation with one rule per operation, and the two theorems that span them all: the invariant
  holds in every reachable store, and every step refines the life cycle of each job.
\<close>

subsection \<open>Steps that move obligations\<close>

definition att_move :: "att_row \<Rightarrow> att_row \<Rightarrow> bool" where
  "att_move a a' \<longleftrightarrow> at_job_id a' = at_job_id a \<and> at_att a' = at_att a \<and> at_created_at a' = at_created_at a
     \<and> (at_uid a \<noteq> None \<longrightarrow> at_uid a' = at_uid a \<and> at_submitted_at a' = at_submitted_at a)
     \<and> (at_revoked_at a \<noteq> None \<longrightarrow> at_revoked_at a' = at_revoked_at a)
     \<and> (att_row_ok a \<longrightarrow> att_row_ok a')"

definition debit_move :: "debit_row \<Rightarrow> debit_row \<Rightarrow> bool" where
  "debit_move d d' \<longleftrightarrow> db_job_id d' = db_job_id d \<and> db_debit d' = db_debit d \<and> db_created_at d' = db_created_at d
     \<and> (db_tx_hash d \<noteq> None \<longrightarrow> db_tx_hash d' = db_tx_hash d \<and> db_submitted_at d' = db_submitted_at d)
     \<and> (debit_row_ok d \<longrightarrow> debit_row_ok d')"

definition ledger_move :: "store \<Rightarrow> store \<Rightarrow> bool" where
  "ledger_move S S' \<longleftrightarrow> st_jobs S' = st_jobs S \<and> st_results S' = st_results S
     \<and> st_earner_faults S' = st_earner_faults S \<and> st_compute_rate_wei S' = st_compute_rate_wei S
     \<and> list_all2 att_move (st_attestations S) (st_attestations S')
     \<and> list_all2 debit_move (st_debits S) (st_debits S')"

lemma att_move_refl [simp]: "att_move a a"
  by (simp add: att_move_def)

lemma att_move_trans: "att_move a b \<Longrightarrow> att_move b c \<Longrightarrow> att_move a c"
  by (auto simp: att_move_def)

lemma debit_move_refl [simp]: "debit_move d d"
  by (simp add: debit_move_def)

lemma debit_move_trans: "debit_move d e \<Longrightarrow> debit_move e f \<Longrightarrow> debit_move d f"
  by (auto simp: debit_move_def)

lemma ledger_move_refl [simp]: "ledger_move S S"
  by (simp add: ledger_move_def list_all2_refl)

lemma ledger_move_trans [trans]: "ledger_move S T \<Longrightarrow> ledger_move T U \<Longrightarrow> ledger_move S U"
  by (auto simp: ledger_move_def intro: list_all2_trans [OF att_move_trans] list_all2_trans [OF debit_move_trans])

lemma ledger_move_atts:
  "(\<And>a. P a \<Longrightarrow> att_move a (f a)) \<Longrightarrow> ledger_move S (S\<lparr>st_attestations := update_where P f (st_attestations S)\<rparr>)"
  by (auto simp: ledger_move_def list_all2_refl intro!: list_all2_update_where)

lemma ledger_move_debits:
  "(\<And>d. P d \<Longrightarrow> debit_move d (f d)) \<Longrightarrow> ledger_move S (S\<lparr>st_debits := update_where P f (st_debits S)\<rparr>)"
  by (auto simp: ledger_move_def list_all2_refl intro!: list_all2_update_where)

lemma receipt_moves:
  "ledger_move S (fst (mark_submitted i u now S))" "ledger_move S (fst (mark_attestation_dead_lettered i now S))"
  "ledger_move S (fst (redrive_dead_lettered_attestation i S))"
  "ledger_move S (fst (redrive_all_dead_lettered_attestations S))"
  by (auto simp: mark_submitted_def mark_attestation_dead_lettered_def redrive_dead_lettered_attestation_def
      redrive_all_dead_lettered_attestations_def Let_def att_stuck_def att_move_def att_row_ok_def rearm_att_def
      intro!: ledger_move_atts)

lemma revocation_moves:
  "ledger_move S (fst (request_revocation i now S))" "ledger_move S (fst (mark_revoked i now S))"
  "ledger_move S (fst (mark_revocation_dead_lettered i now S))"
  "ledger_move S (fst (redrive_dead_lettered_revocation i S))"
  "ledger_move S (fst (redrive_all_dead_lettered_revocations S))"
  by (auto simp: request_revocation_def mark_revoked_def mark_revocation_dead_lettered_def rev_stuck_def
      redrive_dead_lettered_revocation_def redrive_all_dead_lettered_revocations_def Let_def att_move_def
      att_row_ok_def rearm_rev_def intro!: ledger_move_atts)

lemma debit_moves:
  "ledger_move S (fst (mark_debit_submitted i u now S))" "ledger_move S (fst (mark_debit_dead_lettered i now S))"
  "ledger_move S (fst (redrive_dead_lettered_debit i S))" "ledger_move S (fst (redrive_all_dead_lettered_debits S))"
  by (auto simp: mark_debit_submitted_def mark_debit_dead_lettered_def redrive_dead_lettered_debit_def
      redrive_all_dead_lettered_debits_def Let_def debit_stuck_def debit_move_def debit_row_ok_def rearm_debit_def
      intro!: ledger_move_debits)

lemmas ledger_moves = receipt_moves revocation_moves debit_moves

lemma ledger_move_keys:
  assumes "ledger_move S S'"
  shows "map at_job_id (st_attestations S') = map at_job_id (st_attestations S)"
    "map db_job_id (st_debits S') = map db_job_id (st_debits S)"
    "map_option at_att (find_row at_job_id i (st_attestations S')) = map_option at_att (find_row at_job_id i (st_attestations S))"
    "map_option db_debit (find_row db_job_id i (st_debits S')) = map_option db_debit (find_row db_job_id i (st_debits S))"
proof -
  have a: "list_all2 att_move (st_attestations S) (st_attestations S')"
    and d: "list_all2 debit_move (st_debits S) (st_debits S')" using assms by (auto simp: ledger_move_def)
  show "map at_job_id (st_attestations S') = map at_job_id (st_attestations S)"
    using a by (rule list_all2_keys) (simp add: att_move_def)
  show "map db_job_id (st_debits S') = map db_job_id (st_debits S)"
    using d by (rule list_all2_keys) (simp add: debit_move_def)
  have "rel_option att_move (find_row at_job_id i (st_attestations S)) (find_row at_job_id i (st_attestations S'))"
    using a by (rule list_all2_find_row) (simp add: att_move_def)
  then show "map_option at_att (find_row at_job_id i (st_attestations S')) = map_option at_att (find_row at_job_id i (st_attestations S))"
    by (cases rule: option.rel_cases) (auto simp: att_move_def)
  have "rel_option debit_move (find_row db_job_id i (st_debits S)) (find_row db_job_id i (st_debits S'))"
    using d by (rule list_all2_find_row) (simp add: debit_move_def)
  then show "map_option db_debit (find_row db_job_id i (st_debits S')) = map_option db_debit (find_row db_job_id i (st_debits S))"
    by (cases rule: option.rel_cases) (auto simp: debit_move_def)
qed

lemma ledger_move_ok:
  assumes "store_ok X S" "ledger_move S S'"
  shows "store_ok X S'"
proof -
  have a: "list_all2 att_move (st_attestations S) (st_attestations S')"
    and d: "list_all2 debit_move (st_debits S) (st_debits S')"
    and j: "st_jobs S' = st_jobs S" "st_results S' = st_results S" "st_earner_faults S' = st_earner_faults S"
    using assms by (auto simp: ledger_move_def)
  have "att_row_ok x" if "x \<in> set (st_attestations S')" for x
    using list_all2_right [OF a that] assms(1) by (auto simp: att_move_def store_ok_def)
  moreover have "debit_row_ok x" if "x \<in> set (st_debits S')" for x
    using list_all2_right [OF d that] assms(1) by (auto simp: debit_move_def store_ok_def)
  moreover have "settled_row X S' r \<longleftrightarrow> settled_row X S r" for r
    by (simp add: settled_row_def j ledger_move_keys [OF assms(2)])
  moreover have "done_ids S' = done_ids S" by (simp add: done_ids_def j)
  moreover have "at_job_id ` set (st_attestations S') = at_job_id ` set (st_attestations S)"
    "db_job_id ` set (st_debits S') = db_job_id ` set (st_debits S)"
    using ledger_move_keys(1,2) [OF assms(2), THEN arg_cong [of _ _ set]] by simp_all
  ultimately show ?thesis
    using assms(1) by (simp add: store_ok_def j ledger_move_keys [OF assms(2)])
qed

lemma ledger_move_life: "ledger_move S S' \<Longrightarrow> life S' i = life S i"
  by (simp add: ledger_move_def life_def)


subsection \<open>Ingestion\<close>

lemma append_new_row_ok:
  assumes "store_ok X S" "js_id job \<notin> j_id ` set (st_jobs S)"
  shows "store_ok X (S\<lparr>st_jobs := st_jobs S @ [new_row job now buyer]\<rparr>)"
proof -
  let ?S = "S\<lparr>st_jobs := st_jobs S @ [new_row job now buyer]\<rparr>"
  have "done_ids ?S = done_ids S" by (auto simp: done_ids_def new_row_def)
  moreover have "settled_row X ?S r = settled_row X S r" for r by (simp add: settled_row_def)
  moreover have "job_row_ok (new_row job now buyer)" "j_status (new_row job now buyer) = Queued"
    "j_id (new_row job now buyer) = js_id job"
    by (simp_all add: job_row_ok_def new_row_def)
  ultimately show ?thesis using assms by (auto simp: store_ok_def)
qed

lemma append_new_row_life:
  "js_id job \<notin> j_id ` set (st_jobs S) \<Longrightarrow>
   life_move (life S i) (life (S\<lparr>st_jobs := st_jobs S @ [new_row job now buyer]\<rparr>) i)"
  by (auto simp: life_def find_row_append new_row_def life_of_def find_row_None [symmetric] split: option.splits
      intro: life_step.intros)

lemma enqueue_fresh:
  "js_id job \<notin> j_id ` set (st_jobs S) \<Longrightarrow> enqueue job now S = S\<lparr>st_jobs := st_jobs S @ [new_row job now None]\<rparr>"
  by (simp add: enqueue_def)

lemma enqueue_within_cap_cases:
  obtains "fst (enqueue_within_cap job m b now S) = S"
  | "js_id job \<notin> j_id ` set (st_jobs S)"
    "fst (enqueue_within_cap job m b now S) = S\<lparr>st_jobs := st_jobs S @ [new_row job now b]\<rparr>"
  by (cases "count_where (\<lambda>r. j_status r = Queued) (st_jobs S) < m \<and> js_id job \<notin> j_id ` set (st_jobs S)")
    (auto simp: enqueue_within_cap_def)

subsection \<open>Settlement\<close>

lemma record_completed_noop:
  "(case find_row j_id (jr_job_id result) (st_jobs S) of None \<Rightarrow> True | Some r \<Rightarrow> j_status r \<noteq> In_Flight) \<Longrightarrow>
   record_completed X result now S = (S, False)"
  by (auto simp: record_completed_def Let_def split: option.splits)

text \<open>What a settlement does to a well-formed store: the conflict clauses never fire.\<close>

lemma record_completed_settles:
  assumes ok: "store_ok X S" and r: "find_row j_id (jr_job_id result) (st_jobs S) = Some r" "j_status r = In_Flight"
  shows "record_completed X result now S =
    (S\<lparr>st_results := st_results S @ [\<lparr>res_job_id = jr_job_id result, res_result = result,
          res_earner = jr_earner_address result, res_created_at = now\<rparr>],
       st_jobs := update_where (\<lambda>q. j_id q = jr_job_id result) (park Done) (st_jobs S),
       st_attestations := st_attestations S @
         (case build_attestation X (j_spec r) result of None \<Rightarrow> [] | Some att \<Rightarrow> [new_att_row (jr_job_id result) att now]),
       st_debits := st_debits S @
         (case build_debit X (j_buyer r) result (st_compute_rate_wei S) of None \<Rightarrow> []
          | Some debit \<Rightarrow> [new_debit_row (jr_job_id result) debit now])\<rparr>, True)"
proof -
  have i: "r \<in> set (st_jobs S)" "j_id r = jr_job_id result" using find_row_Some [OF r(1)] by auto
  have "jr_job_id result \<notin> done_ids S"
  proof
    assume "jr_job_id result \<in> done_ids S"
    then obtain q where "q \<in> set (st_jobs S)" "j_id q = j_id r" "j_status q = Done" by (auto simp: done_ids_def i(2))
    moreover have "distinct (map j_id (st_jobs S))" using ok by (simp add: store_ok_def)
    ultimately have "q = r" using i(1) by (metis distinct_map inj_onD)
    with \<open>j_status q = Done\<close> r(2) show False by simp
  qed
  then have "jr_job_id result \<notin> res_job_id ` set (st_results S)" "jr_job_id result \<notin> at_job_id ` set (st_attestations S)"
    "jr_job_id result \<notin> db_job_id ` set (st_debits S)"
    using ok by (auto simp: store_ok_def)
  then show ?thesis
    using r by (simp add: record_completed_def Let_def job_buyer_def new_att_row_def new_debit_row_def split: option.splits)
qed

lemma in_done_ids: "i \<in> done_ids S \<longleftrightarrow> (\<exists>r\<in>set (st_jobs S). j_id r = i \<and> j_status r = Done)"
  by (auto simp: done_ids_def)

lemma park_simps [simp]:
  "j_id (park s r) = j_id r" "j_status (park s r) = s" "j_spec (park s r) = j_spec r" "j_buyer (park s r) = j_buyer r"
  by (simp_all add: park_def)

lemma job_row_ok_park: "job_row_ok r \<Longrightarrow> s \<noteq> In_Flight \<Longrightarrow> job_row_ok (park s r)"
  by (auto simp: job_row_ok_def park_def split: if_splits)

lemma done_ids_settle:
  assumes "r \<in> set (st_jobs S)" "st_jobs S' = update_where (\<lambda>q. j_id q = j_id r) (park Done) (st_jobs S)"
  shows "done_ids S' = insert (j_id r) (done_ids S)"
proof -
  have "i \<in> done_ids S' \<longleftrightarrow> (\<exists>q\<in>set (st_jobs S). if j_id q = j_id r then j_id q = i else j_id q = i \<and> j_status q = Done)" for i
    using assms(2) by (auto simp: in_done_ids simp del: if_image_distrib)
  moreover have "(\<exists>q\<in>set (st_jobs S). if j_id q = j_id r then j_id q = i else j_id q = i \<and> j_status q = Done) \<longleftrightarrow> i = j_id r \<or> i \<in> done_ids S" for i
    using assms(1) by (cases "i = j_id r") (auto simp: in_done_ids)
  ultimately show ?thesis by blast
qed

lemma record_completed_ok:
  assumes ok: "store_ok X S"
  shows "store_ok X (fst (record_completed X result now S))"
proof (cases "\<exists>r. find_row j_id (jr_job_id result) (st_jobs S) = Some r \<and> j_status r = In_Flight")
  case False
  then show ?thesis using ok record_completed_noop [of result S X now] by (auto split: option.splits)
next
  case True
  then obtain r where r: "find_row j_id (jr_job_id result) (st_jobs S) = Some r" "j_status r = In_Flight" by blast
  have i: "r \<in> set (st_jobs S)" "j_id r = jr_job_id result" using find_row_Some [OF r(1)] by auto
  define S' where "S' = fst (record_completed X result now S)"
  note S' = S'_def [unfolded record_completed_settles [OF ok r], simplified]
  have d: "done_ids S' = insert (j_id r) (done_ids S)"
    by (rule done_ids_settle [OF i(1)]) (simp add: S' i(2))
  have uniq: "q = r" if "q \<in> set (st_jobs S)" "j_id q = j_id r" for q
    using that i(1) ok by (metis distinct_map inj_onD store_ok_def)
  then have new: "j_id r \<notin> done_ids S" using r(2) by (force simp: in_done_ids)
  have out: "j_id r \<notin> res_job_id ` set (st_results S)" "j_id r \<notin> at_job_id ` set (st_attestations S)"
    "j_id r \<notin> db_job_id ` set (st_debits S)"
    using ok new by (auto simp: store_ok_def)
  have "settled_row X S' q" if "q \<in> set (st_jobs S')" "j_status q = Done" for q
  proof -
    have "q \<in> (\<lambda>p. if j_id p = j_id r then park Done p else p) ` set (st_jobs S)"
      using that(1) by (simp add: S' i(2) del: if_image_distrib)
    then obtain p where p: "p \<in> set (st_jobs S)" "q = (if j_id p = j_id r then park Done p else p)"
      by (elim imageE)
    show ?thesis
    proof (cases "j_id p = j_id r")
      case True
      with p uniq have q: "q = park Done r" by auto
      have "find_row at_job_id (j_id r) (st_attestations S) = None" "find_row db_job_id (j_id r) (st_debits S) = None"
        using out by (auto simp: find_row_None)
      then show ?thesis
        by (auto simp: settled_row_def S' q i(2) find_row_append new_att_row_def new_debit_row_def split: option.splits
            intro!: exI [of _ "st_compute_rate_wei S"])
    next
      case False
      with p that have "settled_row X S q" "q = p" using ok by (auto simp: store_ok_def)
      then show ?thesis using False
        by (fastforce simp: settled_row_def S' find_row_append new_att_row_def new_debit_row_def i(2) split: option.splits)
    qed
  qed
  moreover have "job_row_ok q" if "q \<in> set (st_jobs S')" for q
    using that ok by (auto simp: S' store_ok_def job_row_ok_park)
  ultimately show ?thesis
    using ok out d unfolding S'_def [symmetric]
    by (auto simp: store_ok_def S' i(2) map_update_where new_att_row_def new_debit_row_def att_row_ok_def debit_row_ok_def
        split: option.splits)
qed

lemma record_completed_life:
  assumes "distinct (map j_id (st_jobs S))"
  shows "life_move (life S i) (life (fst (record_completed X result now S)) i)"
proof (cases "\<exists>r. find_row j_id (jr_job_id result) (st_jobs S) = Some r \<and> j_status r = In_Flight")
  case False
  then show ?thesis using record_completed_noop [of result S X now] by (auto split: option.splits)
next
  case True
  then obtain r where r: "find_row j_id (jr_job_id result) (st_jobs S) = Some r" "j_status r = In_Flight" by blast
  then have "st_jobs (fst (record_completed X result now S)) =
      update_where (\<lambda>q. j_id q = jr_job_id result) (park Done) (st_jobs S)"
    by (simp add: record_completed_def Let_def)
  then have "find_row j_id i (st_jobs (fst (record_completed X result now S))) =
      map_option (\<lambda>q. if j_id q = jr_job_id result then park Done q else q) (find_row j_id i (st_jobs S))"
    by (simp add: find_row_update)
  moreover have "life_move (life_of r) (life_of (park Done r))"
    by (simp add: life_of_def park_def r(2) life_step.intros)
  ultimately show ?thesis
    using r(1) by (cases "find_row j_id i (st_jobs S)") (auto simp: life_def dest: find_row_Some)
qed

subsection \<open>Retention\<close>

lemma fold_delete_job:
  "fold delete_job ids S = S\<lparr>st_results := delete_where (\<lambda>r. res_job_id r \<in> set ids) (st_results S),
     st_attestations := delete_where (\<lambda>a. at_job_id a \<in> set ids) (st_attestations S),
     st_debits := delete_where (\<lambda>d. db_job_id d \<in> set ids) (st_debits S),
     st_jobs := delete_where (\<lambda>r. j_id r \<in> set ids) (st_jobs S)\<rparr>"
  by (induction ids arbitrary: S) (auto simp: delete_job_def delete_where_def intro!: arg_cong2 [of _ _ _ _ filter])

lemma find_row_keep:
  "k \<notin> K \<Longrightarrow> find_row key k (delete_where (\<lambda>r. key r \<in> K) rows) = find_row key k rows"
  by (induction rows) (auto simp: find_row_def delete_where_def)

lemma delete_jobs_ok:
  assumes "store_ok X S"
  shows "store_ok X (fold delete_job ids S)"
proof -
  let ?S = "fold delete_job ids S"
  have d: "done_ids ?S = done_ids S - set ids"
    by (auto simp: fold_delete_job done_ids_def delete_where_simps)
  have "settled_row X ?S r" if "r \<in> set (st_jobs ?S)" "j_status r = Done" for r
  proof -
    have "settled_row X S r" "j_id r \<notin> set ids"
      using that assms by (auto simp: fold_delete_job delete_where_simps store_ok_def)
    then show ?thesis by (auto simp: settled_row_def fold_delete_job delete_where_simps find_row_keep)
  qed
  then show ?thesis
    using assms d [unfolded fold_delete_job] by (auto simp: store_ok_def fold_delete_job delete_where_simps)
qed

lemma delete_jobs_life:
  assumes "distinct (map j_id (st_jobs S))"
    and "\<And>r. r \<in> set (st_jobs S) \<Longrightarrow> j_id r \<in> set ids \<Longrightarrow> j_status r = Done \<or> j_status r = Failed"
  shows "life_move (life S i) (life (fold delete_job ids S) i)"
proof (cases "i \<in> set ids")
  case False
  then show ?thesis by (simp add: life_def fold_delete_job find_row_keep)
next
  case True
  then have "find_row j_id i (st_jobs (fold delete_job ids S)) = None"
    by (auto simp: fold_delete_job find_row_None delete_where_simps)
  then show ?thesis
    using True assms(2) by (cases "find_row j_id i (st_jobs S)")
      (auto simp: life_def life_of_def dest!: find_row_Some intro: life_step.intros)
qed

lemma pruned_ids:
  assumes "\<And>rs. set (plan rs) \<subseteq> set rs" "distinct (map j_id (st_jobs S))"
  obtains ids where "fst (prune_terminal_jobs plan now h b S) = fold delete_job ids S"
    "\<And>r. r \<in> set (st_jobs S) \<Longrightarrow> j_id r \<in> set ids \<Longrightarrow> prunable (max (now - h) (- (2 ^ 63))) S r"
    "snd (prune_terminal_jobs plan now h b S) = length ids"
proof -
  let ?c = "max (now - h) (- (2 ^ 63))"
  let ?rs = "take b (plan (filter (prunable ?c S) (st_jobs S)))"
  have rs: "r \<in> set (st_jobs S) \<and> prunable ?c S r" if "r \<in> set ?rs" for r
    using subsetD [OF assms(1) in_set_takeD [OF that]] by simp
  have p: "prunable ?c S r" if "r \<in> set (st_jobs S)" "j_id r \<in> set (map j_id ?rs)" for r
  proof -
    from that(2) obtain q where q: "q \<in> set ?rs" "j_id r = j_id q" unfolding set_map by (rule imageE)
    then have "q = r" using rs [OF q(1)] that(1) assms(2) by (metis distinct_map inj_onD)
    then show ?thesis using rs [OF q(1)] by simp
  qed
  have f: "fst (prune_terminal_jobs plan now h b S) = fold delete_job (map j_id ?rs) S"
    "snd (prune_terminal_jobs plan now h b S) = length (map j_id ?rs)"
    by (simp_all only: prune_terminal_jobs_def Let_def fst_conv snd_conv)
  show ?thesis by (rule that [OF f(1) p f(2)])
qed

subsection \<open>The step relation\<close>

text \<open>
  One rule per operation. A job enters under an id the store does not hold (the coordinator draws a
  fresh UUID; \<^verbatim>\<open>enqueue_within_cap\<close> checks it itself); the order in which the pruning query returns its
  rows is any selection of them. A restart re-opens the database with a possibly different rate.
\<close>

inductive store_step :: "mesh_crates \<Rightarrow> store \<Rightarrow> store \<Rightarrow> bool" for X where
  Restart: "store_step X S (with_compute_rate_wei rate (fst (recover_in_flight S)))"
| Enqueue: "js_id job \<notin> j_id ` set (st_jobs S) \<Longrightarrow> store_step X S (enqueue job now S)"
| Enqueue_Within_Cap: "store_step X S (fst (enqueue_within_cap job cap buyer now S))"
| Take_Next: "store_step X S (fst (take_next_inner holder accept now S))"
| Requeue: "store_step X S (fst (store_requeue job m S))"
| Requeue_Fault: "store_step X S (fst (requeue_earner_fault job m attribute_to S))"
| Complete: "store_step X S (fst (record_completed X result now S))"
| Touch: "store_step X S (fst (touch i seq now pct S))"
| Reap_Expired: "store_step X S (fst (reap_expired now m S))"
| Reap_Ttl: "store_step X S (fst (reap_ttl_expired now k S))"
| Reap_Stale: "store_step X S (fst (reap_stale_holders live now grace m S))"
| Prune: "(\<And>rs. set (plan rs) \<subseteq> set rs) \<Longrightarrow> store_step X S (fst (prune_terminal_jobs plan now h b S))"
| Mark_Submitted: "store_step X S (fst (mark_submitted i uid now S))"
| Quarantine_Receipt: "store_step X S (fst (mark_attestation_dead_lettered i now S))"
| Redrive_Receipt: "store_step X S (fst (redrive_dead_lettered_attestation i S))"
| Redrive_Receipts: "store_step X S (fst (redrive_all_dead_lettered_attestations S))"
| Request_Revocation: "store_step X S (fst (request_revocation i now S))"
| Mark_Revoked: "store_step X S (fst (mark_revoked i now S))"
| Quarantine_Revocation: "store_step X S (fst (mark_revocation_dead_lettered i now S))"
| Redrive_Revocation: "store_step X S (fst (redrive_dead_lettered_revocation i S))"
| Redrive_Revocations: "store_step X S (fst (redrive_all_dead_lettered_revocations S))"
| Mark_Debit: "store_step X S (fst (mark_debit_submitted i tx now S))"
| Quarantine_Debit: "store_step X S (fst (mark_debit_dead_lettered i now S))"
| Redrive_Debit: "store_step X S (fst (redrive_dead_lettered_debit i S))"
| Redrive_Debits: "store_step X S (fst (redrive_all_dead_lettered_debits S))"

abbreviation store_steps :: "mesh_crates \<Rightarrow> store \<Rightarrow> store \<Rightarrow> bool" where
  "store_steps X \<equiv> (store_step X)\<^sup>*\<^sup>*"

lemma rate_move: "jobs_move S T \<Longrightarrow> jobs_move S (with_compute_rate_wei rate T)"
  by (simp add: with_compute_rate_wei_def jobs_move_def)

lemma store_init_ok: "store_ok X store_init"
  by (simp add: store_ok_def store_init_def done_ids_def)

text \<open>The twenty-five rules fall into five kinds, which is all a proof about every step has to look at.\<close>

lemma store_step_kinds:
  assumes "store_step X S S'" "store_ok X S"
  obtains (jobs) "jobs_move S S'"
  | (ledger) "ledger_move S S'"
  | (ingest) job now buyer where "js_id job \<notin> j_id ` set (st_jobs S)"
      "S' = S\<lparr>st_jobs := st_jobs S @ [new_row job now buyer]\<rparr>"
  | (settle) result now where "S' = fst (record_completed X result now S)"
  | (prune) ids c where "S' = fold delete_job ids S"
      "\<And>r. r \<in> set (st_jobs S) \<Longrightarrow> j_id r \<in> set ids \<Longrightarrow> prunable c S r"
proof -
  have d: "distinct (map j_id (st_jobs S))" using assms(2) by (simp add: store_ok_def)
  show ?thesis using assms(1)
  proof cases
    case (Restart rate)
    then show ?thesis by (auto intro!: jobs rate_move recover_move)
  next
    case (Enqueue job now)
    then show ?thesis by (auto intro!: ingest simp: enqueue_fresh)
  next
    case (Enqueue_Within_Cap job cap buyer now)
    then show ?thesis
      by (cases rule: enqueue_within_cap_cases [of job cap buyer now S]) (auto intro: jobs ingest)
  next
    case (Prune plan now h b)
    obtain ids where "S' = fold delete_job ids S"
      "\<And>r. r \<in> set (st_jobs S) \<Longrightarrow> j_id r \<in> set ids \<Longrightarrow> prunable (max (now - h) (- (2 ^ 63))) S r"
      using pruned_ids [OF Prune(2) d] Prune(1) by metis
    then show ?thesis by (rule prune)
  qed (auto intro: jobs ledger settle take_next_move [OF d] store_requeue_move requeue_fault_move touch_move reap_moves [OF d]
      ledger_moves)
qed

lemma store_step_ok: "store_step X S S' \<Longrightarrow> store_ok X S \<Longrightarrow> store_ok X S'"
  by (erule (1) store_step_kinds)
    (auto intro: jobs_move_ok ledger_move_ok append_new_row_ok record_completed_ok delete_jobs_ok)

lemma store_step_life:
  assumes "store_step X S S'" "store_ok X S"
  shows "life_move (life S i) (life S' i)"
proof -
  have d: "distinct (map j_id (st_jobs S))" using assms(2) by (simp add: store_ok_def)
  from assms show ?thesis
  proof (cases rule: store_step_kinds)
    case (prune ids c)
    then show ?thesis using delete_jobs_life [OF d, of ids] by (auto simp: prunable_def)
  next
    case ledger
    then show ?thesis by (simp add: ledger_move_life)
  next
    case (ingest job now buyer)
    show ?thesis unfolding ingest(2) using ingest(1) by (rule append_new_row_life)
  qed (simp_all only: record_completed_life [OF d] jobs_move_life)
qed

lemma store_steps_ok: "store_steps X S S' \<Longrightarrow> store_ok X S \<Longrightarrow> store_ok X S'"
  by (induction rule: rtranclp_induct) (auto intro: store_step_ok)

subsection \<open>A run of the store\<close>

text \<open>Crates that compute, and a job that is enqueued, dispatched and settled.\<close>

definition toy_hex :: "nat list \<Rightarrow> string" where
  "toy_hex bs = concat (map (\<lambda>b. [''0123456789abcdef'' ! (b div 16 mod 16), ''0123456789abcdef'' ! (b mod 16)]) bs)"

definition toy_nibble :: "char \<Rightarrow> nat" where
  "toy_nibble c = (if is_ascii_digit c then of_char c - 48 else of_char c - 87)"

fun toy_unhex :: "string \<Rightarrow> nat list option" where
  "toy_unhex [] = Some []"
| "toy_unhex [_] = None"
| "toy_unhex (c # d # s) = map_option ((#) (16 * toy_nibble c + toy_nibble d)) (toy_unhex s)"

definition toy_mesh :: mesh_crates where
  "toy_mesh = \<lparr>keccak256 = (\<lambda>bs. take 32 (bs @ replicate 32 0)), hex_encode = toy_hex, hex_decode = toy_unhex,
     sig_from_slice = Some, sig_is_high_s = (\<lambda>_. False), recid_from_byte = (\<lambda>b. if b < 4 then Some b else None),
     recover_key = (\<lambda>_ sig _. Some (4 # sig))\<rparr>"

definition toy_job :: job_spec where
  "toy_job = \<lparr>js_id = replicate 16 7, js_kind = Foliage, js_region = \<lparr>rc_x = 1, rc_y = -2, rc_layer = 0\<rparr>,
     js_deadline_secs = 60, js_max_payout_wei = ''500'', js_inputs = ''{}''\<rparr>"

definition toy_earner :: string where
  "toy_earner = ''0x'' @ replicate 40 CHR ''0''"

definition toy_result :: job_result where
  "toy_result = \<lparr>jr_job_id = replicate 16 7, jr_earner_address = toy_earner, jr_output_hash = replicate 64 CHR ''a'',
     jr_output_url = ''s3://x'', jr_render_seconds = 5, jr_signature_hex = replicate 130 CHR ''0''\<rparr>"

definition toy_queued :: store where
  "toy_queued = fst (enqueue_within_cap toy_job 10 (Some ''0xb'') 100 (with_compute_rate_wei 3 (fst (recover_in_flight store_init))))"

definition toy_flying :: store where
  "toy_flying = fst (take_next_inner (Some toy_earner) (\<lambda>_. True) 110 toy_queued)"

definition toy_settled :: store where
  "toy_settled = fst (record_completed toy_mesh toy_result 120 toy_flying)"

lemma toy_steps:
  "store_steps toy_mesh store_init toy_queued" "store_step toy_mesh toy_queued toy_flying"
  "store_step toy_mesh toy_flying toy_settled"
proof -
  have "store_step toy_mesh store_init (with_compute_rate_wei 3 (fst (recover_in_flight store_init)))"
    by (rule Restart)
  moreover have "store_step toy_mesh (with_compute_rate_wei 3 (fst (recover_in_flight store_init))) toy_queued"
    unfolding toy_queued_def by (rule Enqueue_Within_Cap)
  ultimately show "store_steps toy_mesh store_init toy_queued" by (meson rtranclp.simps)
  show "store_step toy_mesh toy_queued toy_flying" unfolding toy_flying_def by (rule Take_Next)
  show "store_step toy_mesh toy_flying toy_settled" unfolding toy_settled_def by (rule Complete)
qed

lemma toy_reached: "store_steps toy_mesh store_init toy_flying" "store_steps toy_mesh store_init toy_settled"
  using toy_steps by (meson rtranclp.rtrancl_into_rtrancl)+

lemma toy_queued_rows:
  "st_jobs toy_queued = [new_row toy_job 100 (Some ''0xb'')]" "st_results toy_queued = []"
  "st_attestations toy_queued = []" "st_debits toy_queued = []" "st_compute_rate_wei toy_queued = 3"
  by (simp_all add: toy_queued_def store_init_def with_compute_rate_wei_def recover_in_flight_def enqueue_within_cap_def
      count_where_def)

lemma toy_flying_rows:
  "st_jobs toy_flying = [dispatch_row (Some toy_earner) 1 110 (new_row toy_job 100 (Some ''0xb''))]"
  "st_results toy_flying = []" "st_attestations toy_flying = []" "st_debits toy_flying = []" "st_compute_rate_wei toy_flying = 3"
  by (simp_all add: toy_flying_def take_next_inner_def toy_queued_rows new_row_def update_where_def)

lemma toy_settled_jobs:
  "st_jobs toy_settled = [park Done (dispatch_row (Some toy_earner) 1 110 (new_row toy_job 100 (Some ''0xb'')))]"
  by (simp add: toy_settled_def record_completed_def toy_flying_rows dispatch_row_def new_row_def update_where_def
      toy_job_def toy_result_def Let_def)

lemma toy_life:
  "life toy_queued (replicate 16 7) = Some (Queued, 0)" "life toy_flying (replicate 16 7) = Some (In_Flight, 1)"
  "life toy_settled (replicate 16 7) = Some (Done, 1)"
  by (simp_all add: life_def life_of_def toy_queued_rows toy_flying_rows toy_settled_jobs new_row_def dispatch_row_def
      park_def toy_job_def)

subsection \<open>Invariant and refinement\<close>

text \<open>
  Every store the coordinator can reach, through any interleaving of requests, reapers, drains,
  operator actions and restarts, is consistent: ids are unique; an in-flight job has a lease, an attempt
  and a dispatch number, any other job has no lease; exactly the done jobs have a result, one each, and
  with it exactly the receipt and the debit that the job, its buyer and the result call for; receipts
  and debits belong to done jobs only, are marked with a uid and a time together, and are revoked only
  after landing and on request.
\<close>

theorem store_invariant:
  assumes "store_steps X store_init S"
  shows "store_ok X S"
  using assms store_init_ok by (rule store_steps_ok)

theorem store_invariant_witness:
  "store_ok toy_mesh toy_settled \<and> done_ids toy_settled = {replicate 16 7}"
proof -
  have "done_ids toy_settled = {replicate 16 7}"
    by (auto simp: in_done_ids toy_settled_jobs dispatch_row_def new_row_def toy_job_def)
  then show ?thesis using store_invariant [OF toy_reached(2)] by simp
qed

text \<open>
  Property C5. The store implements the life cycle of a job: whatever operation runs, every job stays where
  it was or takes one transition of the abstract machine. A job enters queued and undispatched, each dispatch
  raises its number by one, only an in-flight job is settled, only an open one fails, a settled or
  failed job never comes back to life, and only those two are ever deleted.
\<close>

theorem store_refines_life_cycle:
  assumes "store_steps X store_init S" "store_step X S S'"
  shows "life_move (life S i) (life S' i)"
  using store_step_life [OF assms(2) store_steps_ok [OF assms(1) store_init_ok]] .

theorem store_refines_life_cycle_witness:
  "life_move (Some (In_Flight, 1)) (life toy_settled (replicate 16 7)) \<and> life toy_settled (replicate 16 7) = Some (Done, 1)"
  using store_refines_life_cycle [OF toy_reached(1) toy_steps(3), of "replicate 16 7"] by (simp add: toy_life)

end
