(* ===== verification/Mesh_Relay.thy ===== *)
theory Mesh_Relay
  imports Store_Machine
begin

section \<open>The on-chain transports and the drains\<close>

text \<open>
  The boundary to the chain: the \<^verbatim>\<open>Relay\<close> trait with its mock (\<^verbatim>\<open>src/mesh/coordinator/src/relay.rs\<close>),
  the \<^verbatim>\<open>Spender\<close> trait with its mock (\<^verbatim>\<open>meter.rs\<close>), and the three drain loops of \<^verbatim>\<open>main.rs\<close> that empty the
  outboxes through them. A transport is a record of functions on its own state \<open>'w\<close>, and a parameter of
  the model. A \<open>host\<close> is what runs around a task: \<open>h_turn\<close> is what the other tasks do to the store while
  this one waits for the lock or for the chain, \<open>h_clock\<close> reads the clock. Failures of the database are
  not modelled, so the helpers that report one always succeed.
\<close>

subsection \<open>Transports\<close>

datatype relay_error = AlreadyIssued | RelayNotAuthorized | RelayTransient string | RelayPermanent string

datatype batch_error = BatchReverted string | BatchTransient string | BatchPermanent string

datatype revoke_error = AlreadyRevoked | RevokeNotAuthorized | RevokeTransient string | RevokePermanent string

datatype spend_error = AlreadySpent | SpendNotAuthorized | SpendTransient string | SpendPermanent string

definition ALREADY_ISSUED_UID :: string where "ALREADY_ISSUED_UID = ''already-issued''"
definition ALREADY_SPENT_TX :: string where "ALREADY_SPENT_TX = ''already-spent''"

record 'w relay =
  r_submit :: "pending_attestation \<Rightarrow> 'w \<Rightarrow> 'w \<times> (relay_error + string)"
  r_submit_batch :: "pending_attestation list \<Rightarrow> 'w \<Rightarrow> 'w \<times> (batch_error + string list)"
  r_revoke :: "string \<Rightarrow> 'w \<Rightarrow> 'w \<times> (revoke_error + unit)"

record 'w spender =
  s_spend :: "pending_debit \<Rightarrow> 'w \<Rightarrow> 'w \<times> (spend_error + string)"
  s_spend_batch :: "pending_debit list \<Rightarrow> 'w \<Rightarrow> 'w \<times> (batch_error + string list)"

text \<open>The trait's provided methods: a batch as a sequence of single calls.\<close>

fun default_submit_batch ::
  "(pending_attestation \<Rightarrow> 'w \<Rightarrow> 'w \<times> (relay_error + string)) \<Rightarrow> pending_attestation list \<Rightarrow> string list \<Rightarrow> 'w
    \<Rightarrow> 'w \<times> (batch_error + string list)" where
  "default_submit_batch submit [] uids w = (w, Inr uids)"
| "default_submit_batch submit (att # atts) uids w =
     (case submit att w of
        (w', Inr uid) \<Rightarrow> default_submit_batch submit atts (uids @ [uid]) w'
      | (w', Inl AlreadyIssued) \<Rightarrow> default_submit_batch submit atts (uids @ [ALREADY_ISSUED_UID]) w'
      | (w', Inl RelayNotAuthorized) \<Rightarrow> (w', Inl (BatchPermanent ''coordinator signer not authorized on RenderReceipts''))
      | (w', Inl (RelayTransient m)) \<Rightarrow> (w', Inl (BatchTransient m))
      | (w', Inl (RelayPermanent m)) \<Rightarrow> (w', Inl (BatchPermanent m)))"

fun default_spend_batch ::
  "(pending_debit \<Rightarrow> 'w \<Rightarrow> 'w \<times> (spend_error + string)) \<Rightarrow> pending_debit list \<Rightarrow> string list \<Rightarrow> 'w
    \<Rightarrow> 'w \<times> (batch_error + string list)" where
  "default_spend_batch spend [] hashes w = (w, Inr hashes)"
| "default_spend_batch spend (d # ds) hashes w =
     (case spend d w of
        (w', Inr tx) \<Rightarrow> default_spend_batch spend ds (hashes @ [tx]) w'
      | (w', Inl AlreadySpent) \<Rightarrow> default_spend_batch spend ds (hashes @ [ALREADY_SPENT_TX]) w'
      | (w', Inl SpendNotAuthorized) \<Rightarrow> (w', Inl (BatchPermanent ''spender key not authorized on ComputeMeter''))
      | (w', Inl (SpendTransient m)) \<Rightarrow> (w', Inl (BatchTransient m))
      | (w', Inl (SpendPermanent m)) \<Rightarrow> (w', Inl (BatchPermanent m)))"

subsection \<open>The mock relay\<close>

record mock_inner =
  mi_transient_remaining :: nat
  mi_permanent :: bool
  mi_not_authorized :: bool
  mi_already_issued :: bool
  mi_already_issued_jobs :: "string list"
  mi_permanent_jobs :: "string list"
  mi_batch_reverts :: bool
  mi_batch_transient :: bool
  mi_batch_permanent :: bool
  mi_calls :: nat
  mi_batch_calls :: nat
  mi_submitted :: "string list"
  mi_batch_submitted :: "string list"
  mi_revoke_transient_remaining :: nat
  mi_revoke_permanent :: bool
  mi_revoke_not_authorized :: bool
  mi_revoke_already_revoked :: bool
  mi_revoke_permanent_jobs :: "string list"
  mi_revoke_calls :: nat
  mi_revoked :: "string list"

definition mock_relay_succeeding :: mock_inner where
  "mock_relay_succeeding = \<lparr>mi_transient_remaining = 0, mi_permanent = False, mi_not_authorized = False,
     mi_already_issued = False, mi_already_issued_jobs = [], mi_permanent_jobs = [], mi_batch_reverts = False,
     mi_batch_transient = False, mi_batch_permanent = False, mi_calls = 0, mi_batch_calls = 0, mi_submitted = [],
     mi_batch_submitted = [], mi_revoke_transient_remaining = 0, mi_revoke_permanent = False,
     mi_revoke_not_authorized = False, mi_revoke_already_revoked = False, mi_revoke_permanent_jobs = [],
     mi_revoke_calls = 0, mi_revoked = []\<rparr>"

definition mock_uid :: "pending_attestation \<Rightarrow> string" where
  "mock_uid att = ''0xmock-'' @ pa_job_id att"

definition batch_uid :: "pending_attestation \<Rightarrow> string" where
  "batch_uid att = ''0xmockbatch-'' @ pa_job_id att"

definition mock_submit :: "pending_attestation \<Rightarrow> mock_inner \<Rightarrow> mock_inner \<times> (relay_error + string)" where
  "mock_submit att m =
     (let m = m\<lparr>mi_calls := mi_calls m + 1\<rparr> in
      if mi_not_authorized m then (m, Inl RelayNotAuthorized)
      else if mi_permanent m \<or> List.member (mi_permanent_jobs m) (pa_job_id att)
        then (m, Inl (RelayPermanent ''mock permanent''))
      else if mi_already_issued m \<or> List.member (mi_already_issued_jobs m) (pa_job_id att) then (m, Inl AlreadyIssued)
      else if mi_transient_remaining m > 0
        then (m\<lparr>mi_transient_remaining := mi_transient_remaining m - 1\<rparr>, Inl (RelayTransient ''mock transient''))
      else (m\<lparr>mi_submitted := mi_submitted m @ [pa_job_id att]\<rparr>, Inr (mock_uid att)))"

definition mock_submit_batch :: "pending_attestation list \<Rightarrow> mock_inner \<Rightarrow> mock_inner \<times> (batch_error + string list)" where
  "mock_submit_batch atts m =
     (let m = m\<lparr>mi_batch_calls := mi_batch_calls m + 1\<rparr> in
      if mi_batch_permanent m then (m, Inl (BatchPermanent ''mock batch permanent''))
      else if mi_batch_reverts m then (m, Inl (BatchReverted ''mock batch revert''))
      else if mi_batch_transient m then (m, Inl (BatchTransient ''mock batch transient''))
      else (m\<lparr>mi_batch_submitted := mi_batch_submitted m @ map pa_job_id atts\<rparr>, Inr (map batch_uid atts)))"

definition mock_revoke :: "string \<Rightarrow> mock_inner \<Rightarrow> mock_inner \<times> (revoke_error + unit)" where
  "mock_revoke job_id m =
     (let m = m\<lparr>mi_revoke_calls := mi_revoke_calls m + 1\<rparr> in
      if mi_revoke_not_authorized m then (m, Inl RevokeNotAuthorized)
      else if mi_revoke_permanent m \<or> List.member (mi_revoke_permanent_jobs m) job_id
        then (m, Inl (RevokePermanent ''mock revoke permanent''))
      else if mi_revoke_already_revoked m then (m, Inl AlreadyRevoked)
      else if mi_revoke_transient_remaining m > 0
        then (m\<lparr>mi_revoke_transient_remaining := mi_revoke_transient_remaining m - 1\<rparr>,
              Inl (RevokeTransient ''mock revoke transient''))
      else (m\<lparr>mi_revoked := mi_revoked m @ [job_id]\<rparr>, Inr ()))"

definition mock_relay :: "mock_inner relay" where
  "mock_relay = \<lparr>r_submit = mock_submit, r_submit_batch = mock_submit_batch, r_revoke = mock_revoke\<rparr>"

subsection \<open>The mock spender\<close>

record mock_spender_inner =
  ms_transient_remaining :: nat
  ms_permanent :: bool
  ms_permanent_for :: "string option"
  ms_not_authorized :: bool
  ms_already_spent :: bool
  ms_batch_reverts :: bool
  ms_batch_transient :: bool
  ms_batch_permanent :: bool
  ms_batch_short_count :: bool
  ms_calls :: nat
  ms_batch_calls :: nat
  ms_spent :: "pending_debit list"
  ms_batch_spent :: "pending_debit list"

definition mock_spender_succeeding :: mock_spender_inner where
  "mock_spender_succeeding = \<lparr>ms_transient_remaining = 0, ms_permanent = False, ms_permanent_for = None,
     ms_not_authorized = False, ms_already_spent = False, ms_batch_reverts = False, ms_batch_transient = False,
     ms_batch_permanent = False, ms_batch_short_count = False, ms_calls = 0, ms_batch_calls = 0, ms_spent = [],
     ms_batch_spent = []\<rparr>"

definition mock_tx_hash :: "pending_debit \<Rightarrow> string" where
  "mock_tx_hash d = ''0xspend-'' @ pd_job_id d"

definition batch_tx_hash :: "pending_debit \<Rightarrow> string" where
  "batch_tx_hash d = ''0xspendbatch-'' @ pd_job_id d"

definition mock_spend :: "pending_debit \<Rightarrow> mock_spender_inner \<Rightarrow> mock_spender_inner \<times> (spend_error + string)" where
  "mock_spend d m =
     (let m = m\<lparr>ms_calls := ms_calls m + 1\<rparr> in
      if ms_permanent m then (m, Inl (SpendPermanent ''mock permanent''))
      else if ms_permanent_for m = Some (pd_job_id d) then (m, Inl (SpendPermanent ''mock permanent (poison row)''))
      else if ms_not_authorized m then (m, Inl SpendNotAuthorized)
      else if ms_already_spent m then (m, Inl AlreadySpent)
      else if ms_transient_remaining m > 0
        then (m\<lparr>ms_transient_remaining := ms_transient_remaining m - 1\<rparr>, Inl (SpendTransient ''mock transient''))
      else (m\<lparr>ms_spent := ms_spent m @ [d]\<rparr>, Inr (mock_tx_hash d)))"

definition mock_spend_batch ::
  "pending_debit list \<Rightarrow> mock_spender_inner \<Rightarrow> mock_spender_inner \<times> (batch_error + string list)" where
  "mock_spend_batch ds m =
     (let m = m\<lparr>ms_batch_calls := ms_batch_calls m + 1\<rparr> in
      if ms_batch_permanent m then (m, Inl (BatchPermanent ''mock batch permanent''))
      else if ms_batch_transient m then (m, Inl (BatchTransient ''mock batch transient''))
      else if ms_batch_reverts m then (m, Inl (BatchReverted ''mock batch revert''))
      else if ms_not_authorized m then (m, Inl (BatchPermanent ''spender key not authorized on ComputeMeter''))
      else if ms_permanent m \<or> ms_already_spent m \<or> list_ex (\<lambda>d. ms_permanent_for m = Some (pd_job_id d)) ds
        then (m, Inl (BatchReverted ''mock batch element reverted''))
      else if ms_transient_remaining m > 0
        then (m\<lparr>ms_transient_remaining := ms_transient_remaining m - 1\<rparr>, Inl (BatchTransient ''mock batch transient''))
      else let hashes = map batch_tx_hash ds
           in (m\<lparr>ms_batch_spent := ms_batch_spent m @ ds\<rparr>,
               Inr (if ms_batch_short_count m then butlast hashes else hashes)))"

definition mock_spender :: "mock_spender_inner spender" where
  "mock_spender = \<lparr>s_spend = mock_spend, s_spend_batch = mock_spend_batch\<rparr>"

subsection \<open>Waiting\<close>

record 'w host =
  h_turn :: "'w \<Rightarrow> store \<Rightarrow> 'w \<times> store"
  h_clock :: "'w \<Rightarrow> i64"

type_synonym 'w task_state = "'w \<times> store"

definition locked :: "'w host \<Rightarrow> (i64 \<Rightarrow> store \<Rightarrow> store \<times> 'a) \<Rightarrow> 'w task_state \<Rightarrow> 'w task_state \<times> 'a" where
  "locked H section st =
     (let (w, S) = h_turn H (fst st) (snd st); (S', x) = section (h_clock H w) S in ((w, S'), x))"

definition on_chain :: "'w host \<Rightarrow> ('w \<Rightarrow> 'w \<times> 'a) \<Rightarrow> 'w task_state \<Rightarrow> 'w task_state \<times> 'a" where
  "on_chain H request st = (let (w, answer) = request (fst st) in (h_turn H w (snd st), answer))"

subsection \<open>The drains\<close>

definition mark_relayed :: "'w host \<Rightarrow> uuid \<Rightarrow> string \<Rightarrow> 'w task_state \<Rightarrow> 'w task_state" where
  "mark_relayed H i uid st = fst (locked H (mark_submitted i uid) st)"

definition dead_letter_attestation :: "'w host \<Rightarrow> uuid \<Rightarrow> 'w task_state \<Rightarrow> 'w task_state" where
  "dead_letter_attestation H i st = fst (locked H (mark_attestation_dead_lettered i) st)"

fun drain_singly ::
  "'w host \<Rightarrow> 'w relay \<Rightarrow> (uuid \<times> pending_attestation) list \<Rightarrow> 'w task_state \<Rightarrow> 'w task_state \<times> bool" where
  "drain_singly H R [] st = (st, True)"
| "drain_singly H R ((i, att) # rest) st =
     (case on_chain H (r_submit R att) st of
        (st', Inr uid) \<Rightarrow> drain_singly H R rest (mark_relayed H i uid st')
      | (st', Inl AlreadyIssued) \<Rightarrow> drain_singly H R rest (mark_relayed H i ALREADY_ISSUED_UID st')
      | (st', Inl RelayNotAuthorized) \<Rightarrow> (st', False)
      | (st', Inl (RelayTransient _)) \<Rightarrow> (st', False)
      | (st', Inl (RelayPermanent _)) \<Rightarrow> drain_singly H R rest (dead_letter_attestation H i st'))"

definition relay_chunk ::
  "'w host \<Rightarrow> 'w relay \<Rightarrow> (uuid \<times> pending_attestation) list \<Rightarrow> 'w task_state \<Rightarrow> 'w task_state \<times> bool" where
  "relay_chunk H R claimed st =
     (case on_chain H (r_submit_batch R (map snd claimed)) st of
        (st', Inr uids) \<Rightarrow>
          if length uids \<noteq> length claimed then (st', False)
          else (fold (\<lambda>((i, _), uid). mark_relayed H i uid) (zip claimed uids) st', True)
      | (st', Inl (BatchReverted _)) \<Rightarrow> drain_singly H R claimed st'
      | (st', Inl (BatchTransient _)) \<Rightarrow> (st', False)
      | (st', Inl (BatchPermanent _)) \<Rightarrow> (st', False))"

text \<open>
  The loop the three drains share: claim a chunk under the lock, stop when there is none, otherwise
  handle it with the lock released and go on unless the handler stopped the tick.
\<close>

partial_function (option) drain_loop ::
  "'w host \<Rightarrow> (store \<Rightarrow> 'c list) \<Rightarrow> ('c list \<Rightarrow> 'w task_state \<Rightarrow> 'w task_state \<times> bool) \<Rightarrow> 'w task_state
    \<Rightarrow> 'w task_state option" where
  "drain_loop H claim handle st =
     (let r = locked H (\<lambda>_ S. (S, claim S)) st in
      if snd r = [] then Some (fst r)
      else let c = handle (snd r) (fst r) in if snd c then drain_loop H claim handle (fst c) else Some (fst c))"

definition drain_attestations :: "'w host \<Rightarrow> 'w relay \<Rightarrow> nat \<Rightarrow> 'w task_state \<Rightarrow> 'w task_state option" where
  "drain_attestations H R batch_size st = drain_loop H (claim_oldest_pending_batch batch_size) (relay_chunk H R) st"

definition mark_revoked_row :: "'w host \<Rightarrow> uuid \<Rightarrow> 'w task_state \<Rightarrow> 'w task_state" where
  "mark_revoked_row H i st = fst (locked H (mark_revoked i) st)"

definition dead_letter_revocation :: "'w host \<Rightarrow> uuid \<Rightarrow> 'w task_state \<Rightarrow> 'w task_state" where
  "dead_letter_revocation H i st = fst (locked H (mark_revocation_dead_lettered i) st)"

fun revoke_chunk :: "'w host \<Rightarrow> 'w relay \<Rightarrow> (uuid \<times> string) list \<Rightarrow> 'w task_state \<Rightarrow> 'w task_state \<times> bool" where
  "revoke_chunk H R [] st = (st, True)"
| "revoke_chunk H R ((i, b32) # rest) st =
     (case on_chain H (r_revoke R b32) st of
        (st', Inr _) \<Rightarrow> revoke_chunk H R rest (mark_revoked_row H i st')
      | (st', Inl AlreadyRevoked) \<Rightarrow> revoke_chunk H R rest (mark_revoked_row H i st')
      | (st', Inl RevokeNotAuthorized) \<Rightarrow> (st', False)
      | (st', Inl (RevokeTransient _)) \<Rightarrow> (st', False)
      | (st', Inl (RevokePermanent _)) \<Rightarrow> revoke_chunk H R rest (dead_letter_revocation H i st'))"

definition drain_revocations :: "'w host \<Rightarrow> 'w relay \<Rightarrow> nat \<Rightarrow> 'w task_state \<Rightarrow> 'w task_state option" where
  "drain_revocations H R batch_size st =
     drain_loop H (claim_oldest_pending_revocation_batch batch_size) (revoke_chunk H R) st"

definition mark_debited :: "'w host \<Rightarrow> uuid \<Rightarrow> string \<Rightarrow> 'w task_state \<Rightarrow> 'w task_state" where
  "mark_debited H i tx_hash st = fst (locked H (mark_debit_submitted i tx_hash) st)"

definition dead_letter_debit :: "'w host \<Rightarrow> uuid \<Rightarrow> 'w task_state \<Rightarrow> 'w task_state" where
  "dead_letter_debit H i st = fst (locked H (mark_debit_dead_lettered i) st)"

fun drain_debits_singly ::
  "'w host \<Rightarrow> 'w spender \<Rightarrow> (uuid \<times> pending_debit) list \<Rightarrow> 'w task_state \<Rightarrow> 'w task_state \<times> bool" where
  "drain_debits_singly H P [] st = (st, True)"
| "drain_debits_singly H P ((i, d) # rest) st =
     (case on_chain H (s_spend P d) st of
        (st', Inr tx) \<Rightarrow> drain_debits_singly H P rest (mark_debited H i tx st')
      | (st', Inl AlreadySpent) \<Rightarrow> drain_debits_singly H P rest (mark_debited H i ALREADY_SPENT_TX st')
      | (st', Inl SpendNotAuthorized) \<Rightarrow> (st', False)
      | (st', Inl (SpendTransient _)) \<Rightarrow> (st', False)
      | (st', Inl (SpendPermanent _)) \<Rightarrow> drain_debits_singly H P rest (dead_letter_debit H i st'))"

definition debit_chunk ::
  "'w host \<Rightarrow> 'w spender \<Rightarrow> (uuid \<times> pending_debit) list \<Rightarrow> 'w task_state \<Rightarrow> 'w task_state \<times> bool" where
  "debit_chunk H P claimed st =
     (case on_chain H (s_spend_batch P (map snd claimed)) st of
        (st', Inr hashes) \<Rightarrow>
          if length hashes \<noteq> length claimed then (st', False)
          else (fold (\<lambda>((i, _), tx). mark_debited H i tx) (zip claimed hashes) st', True)
      | (st', Inl (BatchReverted _)) \<Rightarrow> drain_debits_singly H P claimed st'
      | (st', Inl (BatchTransient _)) \<Rightarrow> (st', False)
      | (st', Inl (BatchPermanent _)) \<Rightarrow> (st', False))"

definition drain_debits :: "'w host \<Rightarrow> 'w spender \<Rightarrow> nat \<Rightarrow> 'w task_state \<Rightarrow> 'w task_state option" where
  "drain_debits H P batch_size st = drain_loop H (claim_oldest_pending_debit_batch batch_size) (debit_chunk H P) st"

text \<open>One tick of the relayer: issue what is owed, then retract what was armed.\<close>

definition relayer_tick :: "'w host \<Rightarrow> 'w relay \<Rightarrow> nat \<Rightarrow> 'w task_state \<Rightarrow> 'w task_state option" where
  "relayer_tick H R batch_size st =
     Option.bind (drain_attestations H R batch_size st) (drain_revocations H R batch_size)"

end
