(* ===== verification/Mesh_Coordinator.thy ===== *)
theory Mesh_Coordinator
  imports Mesh_Registry Mesh_Relay
begin

section \<open>The coordinator's handlers (\<^verbatim>\<open>src/mesh/coordinator/src/main.rs\<close>)\<close>

text \<open>
  The HTTP handlers, the WebSocket session and the background reaper, on the state they share. A handler
  is a function on that state; wherever the code awaits a lock, \<open>e_turn\<close> of the environment says what the
  other tasks do to the state before the lock is granted, numbered by the await, and \<open>e_clock\<close> what the
  clock reads there. Random bytes and fresh UUIDs come from the environment too. A response is its status
  or its payload; logging and the JSON encoding are not modelled.
\<close>

subsection \<open>Shared state\<close>

record store_config =
  cf_max_attempts :: nat
  cf_max_faults :: nat
  cf_earner_ttl_secs :: i64
  cf_ttl_deadline_multiple :: nat
  cf_retention_secs :: i64
  cf_handshake_timeout :: nat
  cf_session_idle_timeout :: nat
  cf_ingest_token :: "string option"
  cf_max_queued_jobs :: nat
  cf_max_earners :: nat
  cf_max_registrations :: u32
  cf_trusted_proxies :: "trusted_cidr list"

datatype config_error =
    ZeroTtlMultiple | ZeroRetention | ZeroHandshakeTimeout | ZeroIdleTimeout | BlankIngestToken
  | ZeroQueueCap | ZeroEarnerCap | ZeroRegistrationCap

definition config_validate :: "store_config \<Rightarrow> config_error + unit" where
  "config_validate c =
     (if cf_ttl_deadline_multiple c = 0 then Inl ZeroTtlMultiple
      else if \<not> cf_retention_secs c > 0 then Inl ZeroRetention
      else if cf_handshake_timeout c = 0 then Inl ZeroHandshakeTimeout
      else if cf_session_idle_timeout c = 0 then Inl ZeroIdleTimeout
      else if (case cf_ingest_token c of Some t \<Rightarrow> trim t = [] | None \<Rightarrow> False) then Inl BlankIngestToken
      else if cf_max_queued_jobs c = 0 then Inl ZeroQueueCap
      else if cf_max_earners c = 0 then Inl ZeroEarnerCap
      else if cf_max_registrations c = 0 then Inl ZeroRegistrationCap
      else Inr ())"

record app_state =
  as_store :: store
  as_earners :: registry
  as_registration_buckets :: buckets
  as_register_challenges :: challenges
  as_config :: store_config
  as_registrations_shed :: nat
  as_jobs_shed :: nat
  as_earners_shed :: nat
  as_earners_evicted :: nat

record env =
  e_turn :: "nat \<Rightarrow> app_state \<Rightarrow> app_state"
  e_clock :: "nat \<Rightarrow> i64"
  e_random :: "nat list option"
  e_uuids :: "nat \<Rightarrow> uuid"

definition seed_jobs :: "(nat \<Rightarrow> uuid) \<Rightarrow> job_spec list" where
  "seed_jobs uuids =
     map (\<lambda>(i, kind). \<lparr>js_id = uuids i, js_kind = kind, js_region = \<lparr>rc_x = 42 + int i, rc_y = -17, rc_layer = 0\<rparr>,
            js_deadline_secs = 60, js_max_payout_wei = ''1000000000000000000'',
            js_inputs = ''{'' @ [CHR 0x22] @ ''seed'' @ [CHR 0x22] @ '':'' @ decimal i @ ''}''\<rparr>)
       (List.enumerate 0 job_kind_ALL)"

definition with_store :: "env \<Rightarrow> store \<Rightarrow> store_config \<Rightarrow> config_error + app_state" where
  "with_store E S cfg =
     (case config_validate cfg of
        Inl e \<Rightarrow> Inl e
      | Inr _ \<Rightarrow>
          let S1 = fst (recover_in_flight S);
              S2 = (if jobs_empty S1 then fold (\<lambda>(k, job). enqueue job (e_clock E k)) (List.enumerate 0 (seed_jobs (e_uuids E))) S1 else S1)
          in Inr \<lparr>as_store = S2, as_earners = [], as_registration_buckets = [], as_register_challenges = [],
                  as_config = cfg, as_registrations_shed = 0, as_jobs_shed = 0, as_earners_shed = 0,
                  as_earners_evicted = 0\<rparr>)"

datatype http_status =
    BAD_REQUEST | UNAUTHORIZED | NOT_FOUND | CONFLICT | UNPROCESSABLE_ENTITY | TOO_MANY_REQUESTS
  | INTERNAL_SERVER_ERROR | SERVICE_UNAVAILABLE

subsection \<open>Registration\<close>

definition register_challenge :: "mesh_crates \<Rightarrow> env \<Rightarrow> app_state \<Rightarrow> app_state \<times> (http_status + string)" where
  "register_challenge X E s =
     (let s1 = e_turn E 0 s;
          (cs, minted) = mint_register_challenge (e_random E) (as_register_challenges s1) (e_clock E 0) MAX_REGISTER_CHALLENGES
      in case minted of
           None \<Rightarrow> (s1, Inl INTERNAL_SERVER_ERROR)
         | Some nonce \<Rightarrow> (s1\<lparr>as_register_challenges := cs\<rparr>, Inr (hex_encode X nonce)))"

definition rate_section :: "ip_addr \<Rightarrow> i64 \<Rightarrow> app_state \<Rightarrow> app_state \<times> bool" where
  "rate_section source now s =
     (let (bs, ok) = check_registration_rate (as_registration_buckets s) source now
                       (cf_max_registrations (as_config s)) REGISTRATION_WINDOW_SECS MAX_REGISTRATION_BUCKETS;
          s' = s\<lparr>as_registration_buckets := bs\<rparr>
      in (if ok then s' else s'\<lparr>as_registrations_shed := as_registrations_shed s' + 1\<rparr>, ok))"

definition challenge_section :: "nat list \<Rightarrow> i64 \<Rightarrow> app_state \<Rightarrow> app_state \<times> bool" where
  "challenge_section nonce now s =
     (case map_of (as_register_challenges s) nonce of
        None \<Rightarrow> (s, False)
      | Some issued \<Rightarrow>
          (s\<lparr>as_register_challenges := AList.delete nonce (as_register_challenges s)\<rparr>,
           sat_i64 (now - issued) \<le> REGISTER_CHALLENGE_TTL_SECS))"

definition admit_section :: "string \<Rightarrow> earner_info \<Rightarrow> i64 \<Rightarrow> app_state \<Rightarrow> app_state \<times> admission" where
  "admit_section address info now s =
     (let (es, a) = admit_earner (as_earners s) address info (cf_max_earners (as_config s)) now
                      (cf_earner_ttl_secs (as_config s));
          s' = s\<lparr>as_earners := es\<rparr>
      in (case a of
            Rejected \<Rightarrow> s'\<lparr>as_earners_shed := as_earners_shed s' + 1\<rparr>
          | Evicted \<Rightarrow> s'\<lparr>as_earners_evicted := as_earners_evicted s' + 1\<rparr>
          | _ \<Rightarrow> s', a))"

definition decode_nonce :: "mesh_crates \<Rightarrow> string \<Rightarrow> nat list option" where
  "decode_nonce X challenge_hex =
     Option.bind (hex_decode X challenge_hex) (\<lambda>b. if length b = HELLO_NONCE_BYTES then Some b else None)"

definition register ::
  "mesh_crates \<Rightarrow> ip_text \<Rightarrow> env \<Rightarrow> ip_addr \<Rightarrow> header_map \<Rightarrow> earner_msg \<Rightarrow> app_state \<Rightarrow> app_state \<times> (http_status + string)" where
  "register X T E peer hs msg s =
     (let source = resolve_source_ip T peer hs (cf_trusted_proxies (as_config s));
          (s1, ok) = rate_section source (e_clock E 0) (e_turn E 0 s)
      in if \<not> ok then (s1, Inl TOO_MANY_REQUESTS)
         else case msg of
           Msg_Hello earner_address gpu_model vram_gb supported signature_hex \<Rightarrow>
             (case header_str hs ''x-register-challenge'' of
                None \<Rightarrow> (s1, Inl BAD_REQUEST)
              | Some challenge_hex \<Rightarrow>
                  (case decode_nonce X challenge_hex of
                     None \<Rightarrow> (s1, Inl BAD_REQUEST)
                   | Some nonce \<Rightarrow>
                       let (s2, fresh) = challenge_section nonce (e_clock E 1) (e_turn E 1 s1)
                       in if \<not> fresh then (s2, Inl UNAUTHORIZED)
                          else case validate_hello X earner_address gpu_model vram_gb supported nonce signature_hex of
                            Inl _ \<Rightarrow> (s2, Inl BAD_REQUEST)
                          | Inr _ \<Rightarrow>
                              (case e_random E of
                                 None \<Rightarrow> (s2, Inl INTERNAL_SERVER_ERROR)
                               | Some bytes \<Rightarrow>
                                   let token = hex_encode X bytes;
                                       info = \<lparr>ei_gpu_model = gpu_model, ei_vram_gb = vram_gb, ei_supported = supported,
                                               ei_last_seen = e_clock E 2, ei_poll_token = token\<rparr>;
                                       (s3, a) = admit_section (canonical_earner_address earner_address) info (e_clock E 2)
                                                   (e_turn E 2 s2)
                                   in if admitted a then (s3, Inr token) else (s3, Inl SERVICE_UNAVAILABLE))))
         | _ \<Rightarrow> (s1, Inl BAD_REQUEST))"

subsection \<open>Operator requests\<close>

definition operator_ok :: "app_state \<Rightarrow> header_map \<Rightarrow> bool" where
  "operator_ok s hs = (case cf_ingest_token (as_config s) of None \<Rightarrow> True | Some expected \<Rightarrow> ingest_authorized hs expected)"

definition on_store :: "(store \<Rightarrow> store \<times> 'a) \<Rightarrow> app_state \<Rightarrow> app_state \<times> 'a" where
  "on_store f s = (let (S, x) = f (as_store s) in (s\<lparr>as_store := S\<rparr>, x))"

record create_job_request =
  cr_kind :: job_kind
  cr_region :: region_coord
  cr_deadline_secs :: u32
  cr_max_payout_wei :: string
  cr_inputs :: string
  cr_buyer :: "string option"

definition create_job :: "env \<Rightarrow> header_map \<Rightarrow> create_job_request \<Rightarrow> app_state \<Rightarrow> app_state \<times> (http_status + uuid)" where
  "create_job E hs req s =
     (if \<not> operator_ok s hs then (s, Inl UNAUTHORIZED)
      else case validate_job_spec (cr_deadline_secs req) (cr_max_payout_wei req) (cr_inputs req) of
        Inl _ \<Rightarrow> (s, Inl UNPROCESSABLE_ENTITY)
      | Inr _ \<Rightarrow>
          if (case cr_buyer req of Some b \<Rightarrow> \<not> is_evm_address b | None \<Rightarrow> False) then (s, Inl UNPROCESSABLE_ENTITY)
          else
            let spec = \<lparr>js_id = e_uuids E 0, js_kind = cr_kind req, js_region = cr_region req,
                        js_deadline_secs = cr_deadline_secs req, js_max_payout_wei = cr_max_payout_wei req,
                        js_inputs = cr_inputs req\<rparr>;
                (s1, r) = on_store (enqueue_within_cap spec (cf_max_queued_jobs (as_config s)) (cr_buyer req) (e_clock E 0))
                            (e_turn E 0 s)
            in (case r of
                  Inr True \<Rightarrow> (s1, Inr (js_id spec))
                | Inr False \<Rightarrow> (s1\<lparr>as_jobs_shed := as_jobs_shed s1 + 1\<rparr>, Inl SERVICE_UNAVAILABLE)
                | Inl _ \<Rightarrow> (s1, Inl INTERNAL_SERVER_ERROR)))"

definition operator_request :: "env \<Rightarrow> header_map \<Rightarrow> (store \<Rightarrow> store \<times> 'a) \<Rightarrow> app_state \<Rightarrow> app_state \<times> (http_status + 'a)" where
  "operator_request E hs f s =
     (if \<not> operator_ok s hs then (s, Inl UNAUTHORIZED)
      else let (s1, x) = on_store f (e_turn E 0 s) in (s1, Inr x))"

definition redrive_debit :: "env \<Rightarrow> uuid \<Rightarrow> header_map \<Rightarrow> app_state \<Rightarrow> app_state \<times> (http_status + bool)" where
  "redrive_debit E i hs s = operator_request E hs (redrive_dead_lettered_debit i) s"

definition redrive_all_debits :: "env \<Rightarrow> header_map \<Rightarrow> app_state \<Rightarrow> app_state \<times> (http_status + nat)" where
  "redrive_all_debits E hs s = operator_request E hs redrive_all_dead_lettered_debits s"

definition redrive_receipt :: "env \<Rightarrow> uuid \<Rightarrow> header_map \<Rightarrow> app_state \<Rightarrow> app_state \<times> (http_status + bool)" where
  "redrive_receipt E i hs s = operator_request E hs (redrive_dead_lettered_attestation i) s"

definition redrive_all_receipts :: "env \<Rightarrow> header_map \<Rightarrow> app_state \<Rightarrow> app_state \<times> (http_status + nat)" where
  "redrive_all_receipts E hs s = operator_request E hs redrive_all_dead_lettered_attestations s"

definition revoke_receipt :: "env \<Rightarrow> uuid \<Rightarrow> header_map \<Rightarrow> app_state \<Rightarrow> app_state \<times> (http_status + bool)" where
  "revoke_receipt E i hs s = operator_request E hs (request_revocation i (e_clock E 0)) s"

definition redrive_revocation :: "env \<Rightarrow> uuid \<Rightarrow> header_map \<Rightarrow> app_state \<Rightarrow> app_state \<times> (http_status + bool)" where
  "redrive_revocation E i hs s = operator_request E hs (redrive_dead_lettered_revocation i) s"

definition redrive_all_revocations :: "env \<Rightarrow> header_map \<Rightarrow> app_state \<Rightarrow> app_state \<times> (http_status + nat)" where
  "redrive_all_revocations E hs s = operator_request E hs redrive_all_dead_lettered_revocations s"

definition MAX_DEAD_LETTERED_LIST :: nat where "MAX_DEAD_LETTERED_LIST = 1000"
definition RECENT_JOBS_LIMIT :: nat where "RECENT_JOBS_LIMIT = 100"

definition listing :: "(store \<Rightarrow> 'a list) \<Rightarrow> (store \<Rightarrow> nat) \<Rightarrow> store \<Rightarrow> store \<times> ('a list \<times> nat \<times> bool)" where
  "listing rows tally S = (S, rows S, tally S, tally S > length (rows S))"

definition dead_lettered_debits ::
  "env \<Rightarrow> header_map \<Rightarrow> app_state \<Rightarrow> app_state \<times> (http_status + (uuid \<times> string \<times> string \<times> i64 \<times> nat) list \<times> nat \<times> bool)" where
  "dead_lettered_debits E hs s =
     operator_request E hs (listing (list_dead_lettered_debits MAX_DEAD_LETTERED_LIST) dead_lettered_debit_count) s"

definition dead_lettered_receipts ::
  "env \<Rightarrow> header_map \<Rightarrow> app_state \<Rightarrow> app_state \<times> (http_status + (uuid \<times> string \<times> u64 \<times> u16 \<times> i64 \<times> nat) list \<times> nat \<times> bool)" where
  "dead_lettered_receipts E hs s =
     operator_request E hs (listing (list_dead_lettered_attestations MAX_DEAD_LETTERED_LIST) dead_lettered_attestation_count) s"

definition dead_lettered_revocations ::
  "env \<Rightarrow> header_map \<Rightarrow> app_state \<Rightarrow> app_state \<times> (http_status + (uuid \<times> string \<times> u64 \<times> u16 \<times> i64 \<times> nat) list \<times> nat \<times> bool)" where
  "dead_lettered_revocations E hs s =
     operator_request E hs (listing (list_dead_lettered_revocations MAX_DEAD_LETTERED_LIST) dead_lettered_revocation_count) s"

subsection \<open>Dispatch and lookups\<close>

definition bump_last_seen :: "string \<Rightarrow> i64 \<Rightarrow> app_state \<Rightarrow> app_state" where
  "bump_last_seen address now s =
     s\<lparr>as_earners := map (\<lambda>(a, e). (a, if a = address then e\<lparr>ei_last_seen := now\<rparr> else e)) (as_earners s)\<rparr>"

definition next_job :: "env \<Rightarrow> header_map \<Rightarrow> string option \<Rightarrow> app_state \<Rightarrow> app_state \<times> (job_spec \<times> i64) option" where
  "next_job E hs earner s =
     (let presented = bearer_token hs;
          (s1, supported) =
            (case earner of
               None \<Rightarrow> (s, None)
             | Some addr \<Rightarrow>
                 let a = canonical_earner_address addr; s0 = e_turn E 0 s
                 in (case map_of (as_earners s0) a of
                       None \<Rightarrow> (s0, None)
                     | Some e \<Rightarrow>
                         (if presented = Some (ei_poll_token e) then bump_last_seen a (e_clock E 0) s0 else s0,
                          Some (ei_supported e))))
      in on_store (take_next (\<lambda>job. case supported of Some kinds \<Rightarrow> List.member kinds (js_kind job) | None \<Rightarrow> True) (e_clock E 1))
           (e_turn E 1 s1))"

definition job_status_handler :: "uuid \<Rightarrow> app_state \<Rightarrow> http_status + job_status" where
  "job_status_handler i s = (case job_status_of i (as_store s) of Some st \<Rightarrow> Inr st | None \<Rightarrow> Inl NOT_FOUND)"

record job_detail =
  jd_spec :: job_spec
  jd_result :: "job_result option"
  jd_attestation :: "(string option \<times> i64 option \<times> i64 option) option"
  jd_debit :: "(string \<times> string option \<times> i64 option) option"

definition job_detail_handler :: "uuid \<Rightarrow> app_state \<Rightarrow> http_status + job_detail" where
  "job_detail_handler i s =
     (case get_job i (as_store s) of
        None \<Rightarrow> Inl NOT_FOUND
      | Some spec \<Rightarrow> Inr \<lparr>jd_spec = spec, jd_result = get_result i (as_store s),
          jd_attestation = attestation_readback i (as_store s), jd_debit = debit_readback i (as_store s)\<rparr>)"

definition job_status_from_str :: "string \<Rightarrow> job_status option" where
  "job_status_from_str t =
     (if t = ''queued'' then Some Queued else if t = ''in_flight'' then Some In_Flight
      else if t = ''done'' then Some Done else if t = ''failed'' then Some Failed else None)"

definition list_jobs_handler :: "string option \<Rightarrow> app_state \<Rightarrow> http_status + (uuid \<times> job_kind \<times> job_status) list" where
  "list_jobs_handler status s =
     (case status of
        None \<Rightarrow> Inr (list_jobs RECENT_JOBS_LIMIT None (as_store s))
      | Some t \<Rightarrow> (case job_status_from_str t of
          None \<Rightarrow> Inl BAD_REQUEST
        | Some st \<Rightarrow> Inr (list_jobs RECENT_JOBS_LIMIT (Some st) (as_store s))))"

subsection \<open>Statistics\<close>

record stats =
  sx_gpus_joined :: nat
  sx_total_vram_gb :: nat
  sx_jobs :: "nat \<times> nat \<times> nat \<times> nat"
  sx_supported_breakdown :: "job_kind \<Rightarrow> nat option"
  sx_by_kind :: "job_status \<Rightarrow> job_kind \<Rightarrow> nat option"
  sx_total_render_seconds :: nat
  sx_total_payout_wei :: string
  sx_oldest_in_flight_secs :: "i64 option"
  sx_in_flight_progress_pct_avg :: "nat option"
  sx_jobs_redispatched :: nat
  sx_total_attempts :: nat
  sx_total_faults :: nat
  sx_attestations :: "nat \<times> nat \<times> nat"
  sx_revocations :: "nat \<times> nat"
  sx_debits :: "nat \<times> nat"
  sx_oldest_dead_lettered_secs :: "i64 option \<times> i64 option \<times> i64 option"
  sx_shed :: "nat \<times> nat \<times> nat \<times> nat"

definition age_secs :: "i64 \<Rightarrow> i64 option \<Rightarrow> i64 option" where
  "age_secs now t = map_option (\<lambda>ts. max (sat_i64 (now - ts)) 0) t"

definition stats_handler :: "env \<Rightarrow> app_state \<Rightarrow> http_status + stats" where
  "stats_handler E s =
     (let now = e_clock E 0;
          live = filter (\<lambda>e. is_live e now (cf_earner_ttl_secs (as_config s))) (map snd (as_earners s));
          S = as_store s
      in case foldM (\<lambda>e v. ck_u 64 (v + ei_vram_gb e)) live 0 of
           None \<Rightarrow> Inl INTERNAL_SERVER_ERROR
         | Some vram \<Rightarrow>
             (case (total_render_seconds S, total_payout_wei S) of
                (Some render, Some payout) \<Rightarrow>
                  Inr \<lparr>sx_gpus_joined = length live, sx_total_vram_gb = vram,
                       sx_jobs = (queued_count S, in_flight_count S, completed_count S, failed_count S),
                       sx_supported_breakdown = (\<lambda>k. let n = count_where (\<lambda>k'. k' = k) (concat (map ei_supported live))
                                                     in if n = 0 then None else Some n),
                       sx_by_kind = (\<lambda>st. count_by_kind st S), sx_total_render_seconds = render,
                       sx_total_payout_wei = decimal payout,
                       sx_oldest_in_flight_secs = age_secs now (oldest_in_flight_started_at S),
                       sx_in_flight_progress_pct_avg = in_flight_progress_pct_avg S,
                       sx_jobs_redispatched = redispatched_count S,
                       sx_total_attempts = fst (attempt_fault_totals S), sx_total_faults = snd (attempt_fault_totals S),
                       sx_attestations = (pending_attestation_count S, dead_lettered_attestation_count S, revoked_attestation_count S),
                       sx_revocations = (pending_revocation_count S, dead_lettered_revocation_count S),
                       sx_debits = (pending_debit_count S, dead_lettered_debit_count S),
                       sx_oldest_dead_lettered_secs = (age_secs now (oldest_dead_lettered_attestation_at S),
                         age_secs now (oldest_dead_lettered_debit_at S), age_secs now (oldest_dead_lettered_revocation_at S)),
                       sx_shed = (as_registrations_shed s, as_jobs_shed s, as_earners_shed s, as_earners_evicted s)\<rparr>
              | _ \<Rightarrow> Inl INTERNAL_SERVER_ERROR))"

record earner_entry =
  ee_address :: string
  ee_info :: earner_info
  ee_completed :: nat
  ee_render_seconds :: nat
  ee_payout_wei :: string
  ee_faults :: nat

definition or_zero :: "nat option \<Rightarrow> nat" where
  "or_zero x = (case x of None \<Rightarrow> 0 | Some n \<Rightarrow> n)"

definition ranked_before :: "earner_entry \<Rightarrow> earner_entry \<Rightarrow> bool" where
  "ranked_before a b \<longleftrightarrow>
     (if ee_completed a \<noteq> ee_completed b then ee_completed b < ee_completed a
      else if ee_render_seconds a \<noteq> ee_render_seconds b then ee_render_seconds b < ee_render_seconds a
      else lexordp (<) (map (of_char :: char \<Rightarrow> nat) (ee_address a)) (map of_char (ee_address b)))"

fun insert_ranked :: "earner_entry \<Rightarrow> earner_entry list \<Rightarrow> earner_entry list" where
  "insert_ranked x [] = [x]"
| "insert_ranked x (y # ys) = (if ranked_before y x then y # insert_ranked x ys else x # y # ys)"

definition earners_handler :: "env \<Rightarrow> app_state \<Rightarrow> http_status + earner_entry list" where
  "earners_handler E s =
     (let now = e_clock E 0; S = as_store s in
      case (render_seconds_by_earner S, payout_wei_by_earner S) of
        (Some render, Some payout) \<Rightarrow>
          Inr (foldr insert_ranked
            (map (\<lambda>(a, info). \<lparr>ee_address = a, ee_info = info, ee_completed = or_zero (completed_count_by_earner S a),
                    ee_render_seconds = or_zero (render a), ee_payout_wei = decimal (or_zero (payout a)),
                    ee_faults = or_zero (faults_by_earner S a)\<rparr>)
              (filter (\<lambda>(_, info). is_live info now (cf_earner_ttl_secs (as_config s))) (as_earners s))) [])
      | _ \<Rightarrow> Inl INTERNAL_SERVER_ERROR)"

subsection \<open>HTTP submission\<close>

definition parse_i64 :: "string \<Rightarrow> i64 option" where
  "parse_i64 t =
     (let (neg, ds) = (case t of [] \<Rightarrow> (False, []) | c # r \<Rightarrow>
            if c = CHR ''-'' then (True, r) else if c = CHR ''+'' then (False, r) else (False, t));
          v = (if neg then - int (decimal_value ds) else int (decimal_value ds))
      in if ds \<noteq> [] \<and> list_all is_ascii_digit ds \<and> - (2 ^ 63) \<le> v \<and> v < 2 ^ 63 then Some v else None)"

definition settle_section :: "mesh_crates \<Rightarrow> uuid \<Rightarrow> i64 \<Rightarrow> job_result \<Rightarrow> i64 \<Rightarrow> store \<Rightarrow> store \<times> (http_status + unit)" where
  "settle_section X i claimed_seq result now S =
     (case job_status_of i S of
        None \<Rightarrow> (S, Inl NOT_FOUND)
      | Some st \<Rightarrow>
          if st \<noteq> In_Flight then (S, Inl CONFLICT)
          else if current_dispatch_seq i S \<noteq> Some claimed_seq then (S, Inl CONFLICT)
          else case get_job i S of
            None \<Rightarrow> (S, Inl INTERNAL_SERVER_ERROR)
          | Some spec \<Rightarrow>
              (case validate_render_seconds (jr_render_seconds result) (js_deadline_secs spec) of
                 Inl _ \<Rightarrow> (S, Inl UNPROCESSABLE_ENTITY)
               | Inr _ \<Rightarrow>
                   (case record_completed X result now S of
                      (S', True) \<Rightarrow> (S', Inr ())
                    | (S', False) \<Rightarrow> (S', Inl CONFLICT))))"

definition submit :: "mesh_crates \<Rightarrow> env \<Rightarrow> uuid \<Rightarrow> header_map \<Rightarrow> job_result \<Rightarrow> app_state \<Rightarrow> app_state \<times> (http_status + unit)" where
  "submit X E i hs result s =
     (if jr_job_id result \<noteq> i then (s, Inl BAD_REQUEST)
      else case Option.bind (header_str hs ''x-dispatch-seq'') parse_i64 of
        None \<Rightarrow> (s, Inl BAD_REQUEST)
      | Some claimed_seq \<Rightarrow>
          (case verify_signature X (jr_job_id result) (jr_output_hash result) (jr_earner_address result) (jr_signature_hex result) of
             Inl _ \<Rightarrow> (s, Inl UNAUTHORIZED)
           | Inr _ \<Rightarrow>
               let result = result\<lparr>jr_earner_address := canonical_earner_address (jr_earner_address result)\<rparr> in
               case validate_result result of
                 Inl _ \<Rightarrow> (s, Inl UNPROCESSABLE_ENTITY)
               | Inr _ \<Rightarrow>
                   let s1 = e_turn E 0 s in
                   if map_of (as_earners s1) (jr_earner_address result) = None then (s1, Inl UNAUTHORIZED)
                   else
                     let (s2, r) = on_store (settle_section X i claimed_seq result (e_clock E 1)) (e_turn E 1 s1)
                     in (case r of
                           Inl e \<Rightarrow> (s2, Inl e)
                         | Inr _ \<Rightarrow> (bump_last_seen (jr_earner_address result) (e_clock E 2) (e_turn E 2 s2), Inr ()))))"

subsection \<open>The WebSocket session\<close>

text \<open>
  Registration over the socket: the frames received until the handshake ends, each a text frame with the
  message it decodes to (\<open>None\<close> when it does not), a close, or any other frame; the list ends when the
  socket closes, fails or the handshake times out.
\<close>

datatype ws_frame = Text_Frame "earner_msg option" | Close_Frame | Other_Frame

fun recv_hello_inner ::
  "mesh_crates \<Rightarrow> env \<Rightarrow> ip_addr \<Rightarrow> nat list \<Rightarrow> ws_frame list \<Rightarrow> app_state \<Rightarrow> app_state \<times> string option" where
  "recv_hello_inner X E source nonce [] s = (s, None)"
| "recv_hello_inner X E source nonce (Close_Frame # fs) s = (s, None)"
| "recv_hello_inner X E source nonce (Other_Frame # fs) s = recv_hello_inner X E source nonce fs s"
| "recv_hello_inner X E source nonce (Text_Frame msg # fs) s =
     (case msg of
        Some (Msg_Hello earner_address gpu_model vram_gb supported signature_hex) \<Rightarrow>
          let (s1, ok) = rate_section source (e_clock E 0) (e_turn E 0 s)
          in if \<not> ok then (s1, None)
             else (case validate_hello X earner_address gpu_model vram_gb supported nonce signature_hex of
                     Inl _ \<Rightarrow> (s1, None)
                   | Inr _ \<Rightarrow>
                       (case e_random E of
                          None \<Rightarrow> (s1, None)
                        | Some bytes \<Rightarrow>
                            let address = canonical_earner_address earner_address;
                                info = \<lparr>ei_gpu_model = gpu_model, ei_vram_gb = vram_gb, ei_supported = supported,
                                        ei_last_seen = e_clock E 1, ei_poll_token = hex_encode X bytes\<rparr>;
                                (s2, a) = admit_section address info (e_clock E 1) (e_turn E 1 s1)
                            in if admitted a then (s2, Some address) else (s2, None)))
      | _ \<Rightarrow> (s, None))"

record ws_session =
  ws_earner :: string
  ws_supported :: "job_kind list"
  ws_offered :: "(job_spec \<times> i64) option"
  ws_accepted :: bool
  ws_faulted :: "uuid list"

definition ws_open :: "env \<Rightarrow> string \<Rightarrow> app_state \<Rightarrow> app_state \<times> ws_session" where
  "ws_open E address s =
     (let s1 = e_turn E 2 s in
      (s1, \<lparr>ws_earner = address,
            ws_supported = (case map_of (as_earners s1) address of Some info \<Rightarrow> ei_supported info | None \<Rightarrow> []),
            ws_offered = None, ws_accepted = False, ws_faulted = []\<rparr>))"

definition take_supported_job ::
  "env \<Rightarrow> string \<Rightarrow> job_kind list \<Rightarrow> uuid list \<Rightarrow> app_state \<Rightarrow> app_state \<times> (job_spec \<times> i64) option" where
  "take_supported_job E earner_address supported skip s =
     on_store (take_next_for earner_address
       (\<lambda>job. List.member supported (js_kind job) \<and> \<not> List.member skip (js_id job)) (e_clock E 0)) (e_turn E 0 s)"

datatype requeue_kind = Charge | EarnerFault

definition requeue_section :: "app_state \<Rightarrow> job_spec \<Rightarrow> i64 \<Rightarrow> requeue_kind \<Rightarrow> string option \<Rightarrow> store \<Rightarrow> store" where
  "requeue_section s job seq kind attribute_to S =
     (if current_dispatch_seq (js_id job) S \<noteq> Some seq then S
      else case kind of
        Charge \<Rightarrow> fst (store_requeue job (cf_max_attempts (as_config s)) S)
      | EarnerFault \<Rightarrow> fst (requeue_earner_fault job (cf_max_faults (as_config s)) attribute_to S))"

definition requeue :: "env \<Rightarrow> nat \<Rightarrow> job_spec \<Rightarrow> i64 \<Rightarrow> requeue_kind \<Rightarrow> string option \<Rightarrow> app_state \<Rightarrow> app_state" where
  "requeue E k job seq kind attribute_to s =
     fst (on_store (\<lambda>S. (requeue_section s job seq kind attribute_to S, ())) (e_turn E k s))"

definition PLACEHOLDER_ATTESTATION_UID :: string where
  "PLACEHOLDER_ATTESTATION_UID = ''0x'' @ replicate 64 CHR ''0''"

datatype submit_outcome =
    Accepted_Outcome coordinator_msg
  | Requeue_Outcome coordinator_msg requeue_kind
  | Drop_Outcome coordinator_msg

definition reply :: "submit_outcome \<Rightarrow> coordinator_msg" where
  "reply oc = (case oc of Accepted_Outcome m \<Rightarrow> m | Requeue_Outcome m _ \<Rightarrow> m | Drop_Outcome m \<Rightarrow> m)"

definition ws_settle_section :: "mesh_crates \<Rightarrow> i64 \<Rightarrow> job_result \<Rightarrow> i64 \<Rightarrow> store \<Rightarrow> store \<times> bool" where
  "ws_settle_section X expected_seq result now S =
     (if current_dispatch_seq (jr_job_id result) S \<noteq> Some expected_seq then (S, False)
      else record_completed X result now S)"

definition handle_submit ::
  "mesh_crates \<Rightarrow> env \<Rightarrow> (job_spec \<times> i64) option \<Rightarrow> bool \<Rightarrow> job_result \<Rightarrow> string \<Rightarrow> app_state \<Rightarrow> app_state \<times> submit_outcome" where
  "handle_submit X E offered accepted result session_earner s =
     (let rejected = Msg_Rejected (jr_job_id result) in
      case offered of
        None \<Rightarrow> (s, Drop_Outcome (rejected ''no job was offered on this connection''))
      | Some (job, expected_seq) \<Rightarrow>
          if js_id job \<noteq> jr_job_id result
          then (s, Requeue_Outcome (rejected ''submit job_id does not match the offered job'') EarnerFault)
          else if \<not> accepted then (s, Requeue_Outcome (rejected ''submit before accept'') EarnerFault)
          else case verify_signature X (jr_job_id result) (jr_output_hash result) (jr_earner_address result)
                      (jr_signature_hex result) of
            Inl _ \<Rightarrow> (s, Requeue_Outcome (rejected ''attestation signature verification failed'') EarnerFault)
          | Inr _ \<Rightarrow>
              let result = result\<lparr>jr_earner_address := canonical_earner_address (jr_earner_address result)\<rparr> in
              if jr_earner_address result \<noteq> session_earner
              then (s, Requeue_Outcome (rejected ''result earner does not match the session identity'') EarnerFault)
              else case validate_result result of
                Inl e \<Rightarrow> (s, Requeue_Outcome (rejected (validation_reason e)) EarnerFault)
              | Inr _ \<Rightarrow>
                  (case validate_render_seconds (jr_render_seconds result) (js_deadline_secs job) of
                     Inl e \<Rightarrow> (s, Requeue_Outcome (rejected (validation_reason e)) EarnerFault)
                   | Inr _ \<Rightarrow>
                       let (s1, settled) = on_store (ws_settle_section X expected_seq result (e_clock E 0)) (e_turn E 0 s)
                       in if settled then (s1, Accepted_Outcome (Msg_Accepted (jr_job_id result) PLACEHOLDER_ATTESTATION_UID))
                          else (s1, Drop_Outcome (rejected ''job is no longer in flight''))))"

text \<open>One turn of the session loop: try to offer a job, then one arm of the \<^verbatim>\<open>select!\<close>.\<close>

definition ws_offer :: "env \<Rightarrow> bool \<Rightarrow> app_state \<times> ws_session \<Rightarrow> (app_state \<times> ws_session) \<times> bool" where
  "ws_offer E sent st =
     (let (s, w) = st in
      if ws_offered w \<noteq> None then (st, True)
      else case take_supported_job E (ws_earner w) (ws_supported w) (ws_faulted w) s of
        (s1, None) \<Rightarrow> ((s1, w), True)
      | (s1, Some (job, seq)) \<Rightarrow>
          if \<not> sent then ((requeue E 1 job seq Charge None s1, w), False)
          else ((s1, w\<lparr>ws_offered := Some (job, seq), ws_accepted := False\<rparr>), True))"

definition ws_submit :: "mesh_crates \<Rightarrow> env \<Rightarrow> job_result \<Rightarrow> app_state \<times> ws_session \<Rightarrow> (app_state \<times> ws_session) \<times> coordinator_msg" where
  "ws_submit X E result st =
     (let (s, w) = st;
          (s1, oc) = handle_submit X E (ws_offered w) (ws_accepted w) result (ws_earner w) s
      in (case oc of
            Requeue_Outcome m kind \<Rightarrow>
              (case ws_offered w of
                 None \<Rightarrow> (s1, w\<lparr>ws_accepted := False\<rparr>)
               | Some (job, seq) \<Rightarrow>
                   (requeue E 1 job seq kind (Some (ws_earner w)) s1,
                    w\<lparr>ws_offered := None, ws_accepted := False,
                      ws_faulted := (if kind = EarnerFault then js_id job # ws_faulted w else ws_faulted w)\<rparr>))
          | _ \<Rightarrow> (s1, w\<lparr>ws_offered := None, ws_accepted := False\<rparr>),
          reply oc))"

definition ws_message :: "mesh_crates \<Rightarrow> env \<Rightarrow> earner_msg \<Rightarrow> app_state \<times> ws_session \<Rightarrow> (app_state \<times> ws_session) \<times> coordinator_msg option" where
  "ws_message X E msg st =
     (let (s0, w) = st; s = bump_last_seen (ws_earner w) (e_clock E 2) (e_turn E 2 s0) in
      case msg of
        Msg_Hello _ _ _ _ _ \<Rightarrow> ((s, w), None)
      | Msg_Accept job_id \<Rightarrow>
          (case ws_offered w of
             Some (job, _) \<Rightarrow> ((s, if js_id job = job_id then w\<lparr>ws_accepted := True\<rparr> else w), None)
           | None \<Rightarrow> ((s, w), None))
      | Msg_Decline job_id _ \<Rightarrow>
          (case ws_offered w of
             Some (job, seq) \<Rightarrow>
               if js_id job = job_id
               then ((requeue E 0 job seq EarnerFault None s,
                      w\<lparr>ws_offered := None, ws_accepted := False, ws_faulted := js_id job # ws_faulted w\<rparr>), None)
               else ((s, w), None)
           | None \<Rightarrow> ((s, w), None))
      | Msg_Submit result \<Rightarrow> (case ws_submit X E result (s, w) of (st', m) \<Rightarrow> (st', Some m))
      | Msg_Heartbeat job_id progress_pct \<Rightarrow>
          (case (job_id, ws_offered w) of
             (Some jid, Some (job, seq)) \<Rightarrow>
               if jid = js_id job
               then ((fst (on_store (touch jid seq (e_clock E 0) progress_pct) (e_turn E 0 s)), w), None)
               else ((s, w), None)
           | _ \<Rightarrow> ((s, w), None)))"

definition ws_tick :: "env \<Rightarrow> i64 \<Rightarrow> app_state \<times> ws_session \<Rightarrow> app_state \<times> ws_session" where
  "ws_tick E last_liveness_bump st =
     (let (s, w) = st in
      if ws_offered w = None \<and> e_clock E 0 - last_liveness_bump \<ge> 1 then (bump_last_seen (ws_earner w) (e_clock E 0) (e_turn E 0 s), w) else st)"

definition ws_close :: "env \<Rightarrow> app_state \<times> ws_session \<Rightarrow> app_state" where
  "ws_close E st =
     (let (s, w) = st in
      case ws_offered w of None \<Rightarrow> s | Some (job, seq) \<Rightarrow> requeue E 0 job seq Charge None s)"

subsection \<open>The reaper\<close>

definition RETENTION_BATCH :: nat where "RETENTION_BATCH = 256"
definition RETENTION_MAX_BATCHES_PER_TICK :: nat where "RETENTION_MAX_BATCHES_PER_TICK = 16"

fun prune_batches :: "env \<Rightarrow> (job_row list \<Rightarrow> job_row list) \<Rightarrow> nat \<Rightarrow> app_state \<times> nat \<Rightarrow> app_state \<times> nat" where
  "prune_batches E plan 0 st = st"
| "prune_batches E plan (Suc k) (s, pruned) =
     (let (s1, n) = on_store (prune_terminal_jobs plan (e_clock E (Suc k)) (cf_retention_secs (as_config s)) RETENTION_BATCH)
                      (e_turn E (Suc k) s)
      in if n < RETENTION_BATCH then (s1, pruned + n) else prune_batches E plan k (s1, pruned + n))"

definition prune_terminal_history :: "env \<Rightarrow> (job_row list \<Rightarrow> job_row list) \<Rightarrow> app_state \<Rightarrow> app_state \<times> nat" where
  "prune_terminal_history E plan s = prune_batches E plan RETENTION_MAX_BATCHES_PER_TICK (s, 0)"

definition live_addresses :: "app_state \<Rightarrow> i64 \<Rightarrow> string list" where
  "live_addresses s now = map fst (filter (\<lambda>(_, e). is_live e now (cf_earner_ttl_secs (as_config s))) (as_earners s))"

definition reap_section :: "store_config \<Rightarrow> string list \<Rightarrow> i64 \<Rightarrow> i64 \<Rightarrow> i64 \<Rightarrow> store \<Rightarrow> store" where
  "reap_section c live now1 now2 now3 S =
     fst (reap_stale_holders live now3 (cf_earner_ttl_secs c) (cf_max_attempts c)
       (fst (reap_ttl_expired now2 (cf_ttl_deadline_multiple c)
         (fst (reap_expired now1 (cf_max_attempts c) S)))))"

definition reaper_tick :: "env \<Rightarrow> (job_row list \<Rightarrow> job_row list) \<Rightarrow> app_state \<Rightarrow> app_state" where
  "reaper_tick E plan s =
     (let s1 = e_turn E 20 s;
          live = live_addresses s1 (e_clock E 20);
          s2 = fst (on_store (\<lambda>S. (reap_section (as_config s1) live (e_clock E 21) (e_clock E 22) (e_clock E 23) S, ()))
                 (e_turn E 21 s1));
          s3 = e_turn E 22 s2;
          s4 = s3\<lparr>as_earners := fst (prune_stale_earners (as_earners s3) (e_clock E 24) (cf_earner_ttl_secs (as_config s3)))\<rparr>
      in fst (prune_terminal_history E plan s4))"

end
