(* ===== verification/Store_Props.thy ===== *)
theory Store_Props
  imports Store_Machine "HOL-Library.Multiset"
begin

section \<open>What the store guarantees\<close>

text \<open>
  The behaviour of the operations the handlers rest on: settlement credits a job once and for good,
  dispatch is first in first out with dispatch numbers that never repeat, the reapers act on exactly the
  rows they should, pruning drops no open obligation, and the reported totals agree with the tables.
\<close>

subsection \<open>Settlement\<close>

lemma done_iff_status: "store_ok X S \<Longrightarrow> i \<in> done_ids S \<longleftrightarrow> job_status_of i S = Some Done"
  using store_ok_row [of X S] by (auto simp: in_done_ids job_status_of_def dest!: find_row_Some)

lemma settle_lookups:
  assumes ok: "store_ok X S" and st: "job_status_of (jr_job_id result) S = Some In_Flight"
    and S': "S' = fst (record_completed X result now S)"
  shows "job_status_of (jr_job_id result) S' = Some Done" "get_result (jr_job_id result) S' = Some result"
    "map_option at_att (find_row at_job_id (jr_job_id result) (st_attestations S')) =
       build_attestation X (the (get_job (jr_job_id result) S)) result"
    "map_option db_debit (find_row db_job_id (jr_job_id result) (st_debits S')) =
       build_debit X (job_buyer (jr_job_id result) S) result (st_compute_rate_wei S)"
    "completed_count S' = completed_count S + 1" "snd (record_completed X result now S)"
proof -
  obtain r where r: "find_row j_id (jr_job_id result) (st_jobs S) = Some r" "j_status r = In_Flight"
    using st by (auto simp: job_status_of_def)
  have i: "r \<in> set (st_jobs S)" "j_id r = jr_job_id result" using find_row_Some [OF r(1)] by auto
  note eq = record_completed_settles [OF ok r, of now]
  have new: "jr_job_id result \<notin> done_ids S"
    using st by (simp add: done_iff_status [OF ok])
  have f: "find_row res_job_id (jr_job_id result) (st_results S) = None"
    "find_row at_job_id (jr_job_id result) (st_attestations S) = None"
    "find_row db_job_id (jr_job_id result) (st_debits S) = None"
    unfolding find_row_None using ok new by (auto simp: store_ok_def)
  show "job_status_of (jr_job_id result) S' = Some Done"
    using i(2) by (simp add: S' eq job_status_of_def find_row_update r(1))
  show "get_result (jr_job_id result) S' = Some result" by (simp add: S' eq get_result_def find_row_append f)
  show "map_option at_att (find_row at_job_id (jr_job_id result) (st_attestations S')) =
       build_attestation X (the (get_job (jr_job_id result) S)) result"
    by (simp add: S' eq find_row_append f get_job_def r(1) new_att_row_def split: option.splits)
  show "map_option db_debit (find_row db_job_id (jr_job_id result) (st_debits S')) =
       build_debit X (job_buyer (jr_job_id result) S) result (st_compute_rate_wei S)"
    by (simp add: S' eq find_row_append f job_buyer_def r(1) new_debit_row_def split: option.splits)
  show "completed_count S' = completed_count S + 1"
    by (simp add: S' eq completed_count_def count_where_def)
  show "snd (record_completed X result now S)" by (simp add: eq)
qed

lemma settle_frame:
  assumes "k \<noteq> jr_job_id result" "S' = fst (record_completed X result now S)"
  shows "find_row j_id k (st_jobs S') = find_row j_id k (st_jobs S)"
    "find_row res_job_id k (st_results S') = find_row res_job_id k (st_results S)"
    "find_row at_job_id k (st_attestations S') = find_row at_job_id k (st_attestations S)"
    "find_row db_job_id k (st_debits S') = find_row db_job_id k (st_debits S)"
proof -
  have u: "map_option (\<lambda>r. if j_id r = jr_job_id result then park Done r else r) (find_row j_id k (st_jobs S))
      = find_row j_id k (st_jobs S)"
    using assms(1) by (cases "find_row j_id k (st_jobs S)") (auto dest: find_row_Some)
  show "find_row j_id k (st_jobs S') = find_row j_id k (st_jobs S)"
    "find_row res_job_id k (st_results S') = find_row res_job_id k (st_results S)"
    "find_row at_job_id k (st_attestations S') = find_row at_job_id k (st_attestations S)"
    "find_row db_job_id k (st_debits S') = find_row db_job_id k (st_debits S)"
    using assms u by (auto simp: record_completed_def Let_def insert_new_def find_row_append find_row_update
        new_att_row_def new_debit_row_def split: option.splits)
qed

lemma settle_refused:
  "job_status_of (jr_job_id result) S \<noteq> Some In_Flight \<Longrightarrow> record_completed X result now S = (S, False)"
  by (rule record_completed_noop) (auto simp: job_status_of_def split: option.splits)

text \<open>
  Property C3. Settlement happens exactly once. A result is credited when, and only when, its job is in
  flight; then the job is done, the result is stored, the receipt and the debit written are the ones
  the job, its buyer and the current rate call for, nothing of any other job changes, and a second
  result for the job, whatever it says, changes nothing and is not credited.
\<close>

theorem settle_exactly_once:
  assumes "store_steps X store_init S" "record_completed X result now S = (S', credited)" "i = jr_job_id result"
  shows "credited = (job_status_of i S = Some In_Flight) \<and> (\<not> credited \<longrightarrow> S' = S)
    \<and> (credited \<longrightarrow> job_status_of i S' = Some Done \<and> get_result i S' = Some result
        \<and> map_option at_att (find_row at_job_id i (st_attestations S')) = build_attestation X (the (get_job i S)) result
        \<and> map_option db_debit (find_row db_job_id i (st_debits S'))
            = build_debit X (job_buyer i S) result (st_compute_rate_wei S)
        \<and> completed_count S' = completed_count S + 1)
    \<and> (\<forall>result' now'. jr_job_id result' = i \<longrightarrow> record_completed X result' now' S' = (S', False))
    \<and> (\<forall>k. k \<noteq> i \<longrightarrow> find_row j_id k (st_jobs S') = find_row j_id k (st_jobs S)
        \<and> find_row res_job_id k (st_results S') = find_row res_job_id k (st_results S)
        \<and> find_row at_job_id k (st_attestations S') = find_row at_job_id k (st_attestations S)
        \<and> find_row db_job_id k (st_debits S') = find_row db_job_id k (st_debits S))"
proof -
  have ok: "store_ok X S" using assms(1) store_init_ok by (rule store_steps_ok)
  have S': "S' = fst (record_completed X result now S)" "credited = snd (record_completed X result now S)"
    using assms(2) by simp_all
  have frame: "\<forall>k. k \<noteq> i \<longrightarrow> find_row j_id k (st_jobs S') = find_row j_id k (st_jobs S)
        \<and> find_row res_job_id k (st_results S') = find_row res_job_id k (st_results S)
        \<and> find_row at_job_id k (st_attestations S') = find_row at_job_id k (st_attestations S)
        \<and> find_row db_job_id k (st_debits S') = find_row db_job_id k (st_debits S)"
    using settle_frame [OF _ S'(1)] assms(3) by blast
  show ?thesis
  proof (cases "job_status_of i S = Some In_Flight")
    case True
    then show ?thesis
      using settle_lookups [OF ok True [unfolded assms(3)] S'(1)] S'(2) frame assms(3) by (auto intro!: settle_refused)
  next
    case False
    then have "record_completed X result' now' S = (S, False)" if "jr_job_id result' = i" for result' now'
      using that by (intro settle_refused) simp
    with False frame assms(2,3) show ?thesis by auto
  qed
qed

theorem settle_exactly_once_witness:
  "job_status_of (replicate 16 7) toy_settled = Some Done
   \<and> record_completed toy_mesh (toy_result\<lparr>jr_output_hash := []\<rparr>) 130 toy_settled = (toy_settled, False)"
proof -
  have "record_completed toy_mesh toy_result 120 toy_flying =
      (toy_settled, snd (record_completed toy_mesh toy_result 120 toy_flying))"
    by (simp add: toy_settled_def)
  note once = settle_exactly_once [OF toy_reached(1) this, of "replicate 16 7"]
  have "job_status_of (replicate 16 7) toy_flying = Some In_Flight"
    using toy_life(2) by (auto simp: life_def job_status_of_def life_of_def bind_eq_Some_conv)
  moreover have "replicate 16 7 = jr_job_id toy_result" "jr_job_id (toy_result\<lparr>jr_output_hash := []\<rparr>) = replicate 16 7"
    by (simp_all add: toy_result_def)
  ultimately show ?thesis using once by blast
qed

lemma receipt_kept:
  "ledger_move S S' \<Longrightarrow> attestation_readback i S = Some (Some uid, t, v) \<Longrightarrow>
   \<exists>v'. attestation_readback i S' = Some (Some uid, t, v') \<and> (v \<noteq> None \<longrightarrow> v' = v)"
proof -
  assume "ledger_move S S'" and r: "attestation_readback i S = Some (Some uid, t, v)"
  then have "rel_option att_move (find_row at_job_id i (st_attestations S)) (find_row at_job_id i (st_attestations S'))"
    by (auto simp: ledger_move_def att_move_def intro: list_all2_find_row)
  then show ?thesis
    using r by (cases rule: option.rel_cases) (auto simp: attestation_readback_def att_move_def)
qed

lemma result_needs_done: "store_ok X S \<Longrightarrow> get_result i S \<noteq> None \<Longrightarrow> job_status_of i S = Some Done"
proof -
  assume ok: "store_ok X S" and "get_result i S \<noteq> None"
  then have "i \<in> res_job_id ` set (st_results S)" by (auto simp: get_result_def dest!: find_row_Some)
  then show ?thesis using ok by (simp add: done_iff_status [OF ok, symmetric] store_ok_def)
qed

text \<open>
  A credit is final. Whatever the coordinator does next, the stored result of a job stays the
  same and the job stays done, or the job has been pruned; and a receipt that landed keeps its uid and
  its landing time, and stays revoked once revoked, for as long as the job is there.
\<close>

theorem credit_is_final:
  assumes "store_steps X store_init S" "store_step X S S'" "get_result i S = Some x"
  shows "job_status_of i S' = None
    \<or> job_status_of i S' = Some Done \<and> get_result i S' = Some x
      \<and> (\<forall>uid t v. attestation_readback i S = Some (Some uid, t, v) \<longrightarrow>
          (\<exists>v'. attestation_readback i S' = Some (Some uid, t, v') \<and> (v \<noteq> None \<longrightarrow> v' = v)))"
proof -
  have ok: "store_ok X S" using assms(1) store_init_ok by (rule store_steps_ok)
  have ok': "store_ok X S'" using assms(2) ok by (rule store_step_ok)
  have d: "job_status_of i S = Some Done" using result_needs_done [OF ok] assms(3) by simp
  have stay: "job_status_of i S' = Some Done" if "get_result i S' = Some x"
    using that result_needs_done [OF ok'] by simp
  have keep: ?thesis if "get_result i S' = get_result i S" "attestation_readback i S' = attestation_readback i S"
    using that assms(3) stay by auto
  have same: ?thesis if "st_results S' = st_results S" "st_attestations S' = st_attestations S"
    using that by (intro keep) (simp_all add: get_result_def attestation_readback_def)
  from assms(2) ok show ?thesis
  proof (cases rule: store_step_kinds)
    case jobs
    then have "st_results S' = st_results S" "st_attestations S' = st_attestations S" by (simp_all add: jobs_move_def)
    then show ?thesis using same by simp
  next
    case ledger
    then have "get_result i S' = Some x" using assms(3) by (simp add: ledger_move_def get_result_def)
    then show ?thesis using stay receipt_kept [OF ledger] by blast
  next
    case (ingest job now buyer)
    then show ?thesis using same by simp
  next
    case (settle result now)
    show ?thesis
    proof (cases "i = jr_job_id result")
      case True
      then show ?thesis using settle settle_refused [of result S X now] d assms(3) stay by simp
    next
      case False
      then show ?thesis
        using settle_frame [OF False settle] by (intro keep) (simp_all add: get_result_def attestation_readback_def)
    qed
  next
    case (prune ids c)
    show ?thesis
    proof (cases "i \<in> set ids")
      case True
      then have "find_row j_id i (st_jobs S') = None"
        by (auto simp: prune(1) fold_delete_job find_row_None delete_where_simps)
      then show ?thesis by (simp add: job_status_of_def)
    next
      case False
      then show ?thesis
        by (intro keep) (simp_all add: prune(1) fold_delete_job find_row_keep get_result_def attestation_readback_def)
    qed
  qed
qed

theorem credit_is_final_witness:
  "get_result (replicate 16 7) (fst (mark_submitted (replicate 16 7) ''0xu'' 125 toy_settled)) = Some toy_result"
proof -
  let ?S = "fst (mark_submitted (replicate 16 7) ''0xu'' 125 toy_settled)"
  have r: "get_result (replicate 16 7) toy_settled = Some toy_result"
    by (simp add: toy_settled_def record_completed_def toy_flying_rows dispatch_row_def new_row_def toy_job_def
        get_result_def insert_new_def toy_result_def Let_def)
  have "job_status_of (replicate 16 7) ?S \<noteq> None"
    by (simp add: mark_submitted_def Let_def job_status_of_def toy_settled_jobs dispatch_row_def new_row_def toy_job_def)
  moreover have "store_step toy_mesh toy_settled ?S" by (rule Mark_Submitted)
  from credit_is_final [OF toy_reached(2) this r]
  have "job_status_of (replicate 16 7) ?S = None \<or> get_result (replicate 16 7) ?S = Some toy_result" by blast
  ultimately show ?thesis by (elim disjE) (erule (1) notE, assumption)
qed

subsection \<open>Dispatch\<close>

lemma sort_key_head:
  "sort_key k ys = r # rest \<Longrightarrow>
   \<exists>a b. ys = a @ r # b \<and> (\<forall>q\<in>set a. k r < k q) \<and> (\<forall>q\<in>set b. k r \<le> k q)"
proof (induction ys arbitrary: r rest)
  case (Cons y ys)
  show ?case
  proof (cases "sort_key k ys")
    case Nil
    then have "ys = []" by (metis set_empty set_sort)
    with Cons.prems show ?thesis by force
  next
    case (Cons s t)
    obtain a b where ab: "ys = a @ s # b" "\<forall>q\<in>set a. k s < k q" "\<forall>q\<in>set b. k s \<le> k q"
      using Cons.IH [OF Cons] by blast
    show ?thesis
    proof (cases "k y \<le> k s")
      case True
      then have "r = y" using Cons.prems Cons by simp
      moreover have "k y \<le> k q" if "q \<in> set ys" for q
        using that ab True by (auto intro: order_trans less_imp_le dest: order.strict_implies_order)
      ultimately show ?thesis by (intro exI [of _ "[]"] exI [of _ ys]) simp
    next
      case False
      then have "r = s" using Cons.prems Cons by simp
      with ab False show ?thesis by (intro exI [of _ "y # a"] exI [of _ b]) auto
    qed
  qed
qed simp

lemma find_is_hd_filter: "List.find P xs = (case filter P xs of [] \<Rightarrow> None | x # _ \<Rightarrow> Some x)"
  by (induction xs) auto

lemma filter_split:
  "filter P xs = a @ r # b \<Longrightarrow> \<exists>us vs. xs = us @ r # vs \<and> P r \<and> filter P us = a \<and> filter P vs = b"
proof (induction xs arbitrary: a)
  case (Cons x xs)
  show ?case
  proof (cases "P x \<and> a = []")
    case True
    with Cons.prems show ?thesis by (intro exI [of _ "[]"] exI [of _ xs]) auto
  next
    case False
    then obtain a' where "filter P xs = a' @ r # b" "a = (if P x then x # a' else a')"
      using Cons.prems by (cases a) (auto split: if_splits)
    with Cons.IH obtain us vs where "xs = us @ r # vs" "P r" "filter P us = a'" "filter P vs = b" by blast
    then show ?thesis
      using \<open>a = (if P x then x # a' else a')\<close> by (intro exI [of _ "x # us"] exI [of _ vs]) auto
  qed
qed simp

lemma find_sorted:
  "List.find P (sort_key k (filter Q xs)) = None \<Longrightarrow> \<not> (\<exists>q\<in>set xs. Q q \<and> P q)"
  "List.find P (sort_key k (filter Q xs)) = Some r \<Longrightarrow>
     \<exists>a b. xs = a @ r # b \<and> Q r \<and> P r \<and> (\<forall>q\<in>set a. Q q \<longrightarrow> P q \<longrightarrow> k r < k q)
       \<and> (\<forall>q\<in>set b. Q q \<longrightarrow> P q \<longrightarrow> k r \<le> k q)"
proof -
  show "List.find P (sort_key k (filter Q xs)) = None \<Longrightarrow> \<not> (\<exists>q\<in>set xs. Q q \<and> P q)"
    by (auto simp: find_None_iff)
  assume "List.find P (sort_key k (filter Q xs)) = Some r"
  then obtain rest where "sort_key k (filter (\<lambda>q. Q q \<and> P q) xs) = r # rest"
    by (auto simp: find_is_hd_filter filter_sort split: list.splits)
  from sort_key_head [OF this] obtain a b where ab: "filter (\<lambda>q. Q q \<and> P q) xs = a @ r # b"
    "\<forall>q\<in>set a. k r < k q" "\<forall>q\<in>set b. k r \<le> k q" by blast
  from filter_split [OF ab(1)] obtain us vs where "xs = us @ r # vs" "Q r" "P r"
    "filter (\<lambda>q. Q q \<and> P q) us = a" "filter (\<lambda>q. Q q \<and> P q) vs = b" by blast
  then show "\<exists>a b. xs = a @ r # b \<and> Q r \<and> P r \<and> (\<forall>q\<in>set a. Q q \<longrightarrow> P q \<longrightarrow> k r < k q)
       \<and> (\<forall>q\<in>set b. Q q \<longrightarrow> P q \<longrightarrow> k r \<le> k q)"
    using ab(2,3) by (intro exI [of _ us] exI [of _ vs]) auto
qed

lemma update_where_at:
  "distinct (map key (a @ r # b)) \<Longrightarrow> update_where (\<lambda>q. key q = key r) f (a @ r # b) = a @ f r # b"
  by (auto simp: update_where_def image_iff intro!: map_idI)

text \<open>
  Dispatch is first in, first out among the jobs a worker accepts. When no queued job is
  acceptable nothing changes. Otherwise the job handed out is the acceptable queued one created first,
  the earliest inserted among equals; its row alone changes: it is in flight, leased from now by the
  holder, with one more attempt and the next dispatch number, which is the number handed out.
\<close>

theorem take_next_is_fifo:
  assumes "store_steps X store_init S" "take_next_inner holder accept now S = (S', out)"
  shows "case out of
      None \<Rightarrow> S' = S \<and> \<not> (\<exists>r\<in>set (st_jobs S). j_status r = Queued \<and> accept (j_spec r))
    | Some (job, n) \<Rightarrow> \<exists>pre r post. st_jobs S = pre @ r # post \<and> j_spec r = job \<and> j_status r = Queued \<and> accept job
        \<and> n = j_dispatch_seq r + 1
        \<and> S' = S\<lparr>st_jobs := pre @ dispatch_row holder n now r # post\<rparr>
        \<and> (\<forall>q\<in>set pre. j_status q = Queued \<longrightarrow> accept (j_spec q) \<longrightarrow> j_created_at r < j_created_at q)
        \<and> (\<forall>q\<in>set post. j_status q = Queued \<longrightarrow> accept (j_spec q) \<longrightarrow> j_created_at r \<le> j_created_at q)"
proof -
  have d: "distinct (map j_id (st_jobs S))"
    using store_steps_ok [OF assms(1) store_init_ok] by (simp add: store_ok_def)
  let ?f = "List.find (\<lambda>r. accept (j_spec r)) (sort_key j_created_at (filter (\<lambda>r. j_status r = Queued) (st_jobs S)))"
  show ?thesis
  proof (cases ?f)
    case None
    then show ?thesis using assms(2) find_sorted(1) [OF None] by (auto simp: take_next_inner_def)
  next
    case (Some r)
    then have out: "out = Some (j_spec r, j_dispatch_seq r + 1)"
      and S': "S' = S\<lparr>st_jobs := update_where (\<lambda>q. j_id q = j_id r) (dispatch_row holder (j_dispatch_seq r + 1) now) (st_jobs S)\<rparr>"
      using assms(2) by (auto simp: take_next_inner_def Let_def)
    from find_sorted(2) [OF Some] obtain a b where ab: "st_jobs S = a @ r # b" "j_status r = Queued" "accept (j_spec r)"
      "\<forall>q\<in>set a. j_status q = Queued \<longrightarrow> accept (j_spec q) \<longrightarrow> j_created_at r < j_created_at q"
      "\<forall>q\<in>set b. j_status q = Queued \<longrightarrow> accept (j_spec q) \<longrightarrow> j_created_at r \<le> j_created_at q" by blast
    have "S' = S\<lparr>st_jobs := a @ dispatch_row holder (j_dispatch_seq r + 1) now r # b\<rparr>"
      using d unfolding S' ab(1) by (simp only: update_where_at)
    with ab out show ?thesis by auto
  qed
qed

theorem take_next_is_fifo_witness:
  "\<not> (\<exists>r\<in>set (st_jobs toy_flying). j_status r = Queued \<and> js_kind (j_spec r) = Foliage)"
proof -
  have "take_next_inner None (\<lambda>s. js_kind s = Foliage) 115 toy_flying = (toy_flying, None)"
    by (simp add: take_next_inner_def toy_flying_rows dispatch_row_def)
  from take_next_is_fifo [OF toy_reached(1) this] show ?thesis by simp
qed

definition kept_step :: "mesh_crates \<Rightarrow> uuid \<Rightarrow> store \<Rightarrow> store \<Rightarrow> bool" where
  "kept_step X i S S' \<longleftrightarrow> store_step X S S' \<and> job_status_of i S' \<noteq> None"

lemma life_move_seq: "life_move (Some (s, n)) (Some (s', n')) \<Longrightarrow> n \<le> n'"
  by (auto elim: life_step.cases)

lemma life_iff: "life S i = Some (s, n) \<longleftrightarrow> job_status_of i S = Some s \<and> current_dispatch_seq i S = Some n"
  by (auto simp: life_def life_of_def job_status_of_def current_dispatch_seq_def bind_eq_Some_conv)

lemma seq_total: "job_status_of i S \<noteq> None \<longleftrightarrow> (\<exists>n. current_dispatch_seq i S = Some n)"
  by (auto simp: job_status_of_def current_dispatch_seq_def)

lemma kept_seq:
  assumes "(kept_step X i)\<^sup>*\<^sup>* S T" "store_ok X S" "current_dispatch_seq i S = Some n"
  shows "store_ok X T \<and> (\<exists>n'. current_dispatch_seq i T = Some n' \<and> n \<le> n')"
  using assms(1)
proof (induction rule: rtranclp_induct)
  case base
  show ?case using assms by simp
next
  case (step T U)
  then obtain n' where n': "store_ok X T" "current_dispatch_seq i T = Some n'" "n \<le> n'" by blast
  have st: "store_step X T U" "job_status_of i U \<noteq> None" using step(2) by (auto simp: kept_step_def)
  obtain s s' n'' where "life T i = Some (s, n')" "life U i = Some (s', n'')" "current_dispatch_seq i U = Some n''"
    using st(2) n'(2) seq_total [of i T] seq_total [of i U] by (auto simp: life_iff)
  with store_step_life [OF st(1) n'(1), of i] have "n' \<le> n''" by (simp only: life_move_seq)
  with n' store_step_ok [OF st(1) n'(1)] \<open>current_dispatch_seq i U = Some n''\<close> show ?case by auto
qed

lemma take_next_seq:
  assumes "store_ok X S" "take_next_inner h a now S = (S', Some (job, n))"
  shows "current_dispatch_seq (js_id job) S = Some (n - 1) \<and> current_dispatch_seq (js_id job) S' = Some n"
proof -
  obtain r where r: "r \<in> set (st_jobs S)" "j_spec r = job" "n = j_dispatch_seq r + 1"
    "S' = S\<lparr>st_jobs := update_where (\<lambda>q. j_id q = j_id r) (dispatch_row h n now) (st_jobs S)\<rparr>"
    using assms(2) by (rule take_next_found)
  have "js_id job = j_id r" "find_row j_id (j_id r) (st_jobs S) = Some r"
    using assms(1) r(1,2) store_ok_row [OF assms(1) r(1)] by (auto simp: store_ok_def job_row_ok_def)
  then show ?thesis
    using r(3,4) by (simp add: current_dispatch_seq_def find_row_update dispatch_row_def)
qed

text \<open>
  Dispatch numbers never repeat while a job exists: between two hand-outs of the same job, with
  any requests, requeues, faults, reaps and restarts in between, the number strictly grows. So the
  number an earner holds is the current one only if nobody has been handed the job since.
\<close>

theorem dispatch_numbers_fresh:
  assumes "store_steps X store_init S" "take_next_inner h a now S = (S1, Some (job, n))"
    "(kept_step X (js_id job))\<^sup>*\<^sup>* S1 T" "take_next_inner h' a' now' T = (T', Some (job', n'))"
    "js_id job' = js_id job"
  shows "n < n' \<and> current_dispatch_seq (js_id job) S1 = Some n \<and> current_dispatch_seq (js_id job) T' = Some n'"
proof -
  have ok: "store_ok X S" using assms(1) store_init_ok by (rule store_steps_ok)
  have "store_step X S S1" using assms(2) Take_Next [of X S h a now] by simp
  then have ok1: "store_ok X S1" using ok by (rule store_step_ok)
  have n: "current_dispatch_seq (js_id job) S1 = Some n" using take_next_seq [OF ok assms(2)] by simp
  obtain m where "store_ok X T" "current_dispatch_seq (js_id job) T = Some m" "n \<le> m"
    using kept_seq [OF assms(3) ok1 n] by blast
  with take_next_seq [OF _ assms(4)] assms(5) n show ?thesis by auto
qed

definition toy_returned :: store where
  "toy_returned = fst (store_requeue toy_job 5 toy_flying)"

lemma toy_returned_rows:
  "st_jobs toy_returned = [park Queued (dispatch_row (Some toy_earner) 1 110 (new_row toy_job 100 (Some ''0xb'')))]"
  by (simp add: toy_returned_def store_requeue_def toy_flying_rows dispatch_row_def new_row_def update_where_def toy_job_def)

theorem dispatch_numbers_fresh_witness: "(1::int) < 2 \<and> current_dispatch_seq (replicate 16 7)
    (fst (take_next_inner None (\<lambda>_. True) 140 toy_returned)) = Some 2"
proof -
  have id: "js_id toy_job = replicate 16 7" by (simp add: toy_job_def)
  have t: "take_next_inner (Some toy_earner) (\<lambda>_. True) 110 toy_queued = (toy_flying, Some (toy_job, 1))"
    unfolding toy_flying_def by (simp add: take_next_inner_def toy_queued_rows new_row_def)
  have k: "(kept_step toy_mesh (js_id toy_job))\<^sup>*\<^sup>* toy_flying toy_returned"
    using Requeue [of toy_mesh toy_flying toy_job 5]
    by (intro r_into_rtranclp) (simp add: kept_step_def toy_returned_def [symmetric] job_status_of_def toy_returned_rows
        dispatch_row_def new_row_def)
  have u: "take_next_inner None (\<lambda>_. True) 140 toy_returned =
      (fst (take_next_inner None (\<lambda>_. True) 140 toy_returned), Some (toy_job, 2))"
    by (simp add: take_next_inner_def toy_returned_rows dispatch_row_def new_row_def park_def)
  show ?thesis using dispatch_numbers_fresh [OF toy_steps(1) t k u refl] unfolding id by blast
qed

subsection \<open>Reapers\<close>

text \<open>
  The reapers act on exactly the rows they should. The lease reaper takes back every in-flight
  job whose lease has run for its deadline, the liveness reaper every in-flight job whose holder is no
  longer live and past the grace period, and both fail a job that has spent its attempts and requeue it
  otherwise; the time-to-live reaper fails every open job past its total budget. No other row changes,
  and what they report is what they did, in table order.
\<close>

theorem reapers_exact:
  assumes "store_steps X store_init S"
  shows "reap_expired now m S =
      (S\<lparr>st_jobs := update_where (overdue now) (\<lambda>r. park (spent_status m r) r) (st_jobs S)\<rparr>,
       reaped m (filter (overdue now) (st_jobs S)))
    \<and> reap_stale_holders live now grace m S =
      (S\<lparr>st_jobs := update_where (abandoned live now grace) (\<lambda>r. park (spent_status m r) r) (st_jobs S)\<rparr>,
       reaped m (filter (abandoned live now grace) (st_jobs S)))
    \<and> reap_ttl_expired now k S =
      (S\<lparr>st_jobs := update_where (ttl_due now k) (park Failed) (st_jobs S)\<rparr>,
       map (\<lambda>r. js_id (j_spec r)) (filter (ttl_due now k) (st_jobs S)))"
proof -
  have "distinct (map j_id (st_jobs S))"
    using store_steps_ok [OF assms store_init_ok] by (simp add: store_ok_def)
  then show ?thesis by (simp add: reapers_eq)
qed

theorem reapers_exact_witness:
  "ro_requeued (snd (reap_expired 170 3 toy_flying)) = [replicate 16 7] \<and> ro_requeued (snd (reap_expired 169 3 toy_flying)) = []"
  using reapers_exact [OF toy_reached(1), of 170 3] reapers_exact [OF toy_reached(1), of 169 3]
  by (simp add: toy_flying_rows reaped_def overdue_def spent_status_def dispatch_row_def new_row_def toy_job_def)

text \<open>
  Property C32. No job outlives its budget. Once a job with a deadline is as old as the deadline times the
  configured multiple, the next pass of the time-to-live reaper leaves it done or failed, however often
  it was requeued, re-dispatched or kept alive by heartbeats.
\<close>

theorem every_job_ends:
  assumes "store_steps X store_init S" "r \<in> set (st_jobs S)" "j_created_at r = Some t"
    "js_deadline_secs (j_spec r) \<noteq> 0" "t + int (js_deadline_secs (j_spec r)) * int k \<le> now"
  shows "job_status_of (j_id r) (fst (reap_ttl_expired now k S)) \<in> {Some Done, Some Failed}"
proof -
  have ok: "store_ok X S" using assms(1) store_init_ok by (rule store_steps_ok)
  then have "distinct (map j_id (st_jobs S))" by (simp add: store_ok_def)
  then have "find_row j_id (j_id r) (st_jobs (fst (reap_ttl_expired now k S))) =
      Some (if ttl_due now k r then park Failed r else r)"
    by (simp add: reap_ttl_eq find_row_update store_ok_row [OF ok assms(2)])
  moreover have "ttl_secs (j_spec r) k \<le> now - t"
    using assms(5) unfolding ttl_secs_def by (simp add: min.coboundedI1)
  then have "ttl_due now k r \<longleftrightarrow> j_status r = Queued \<or> j_status r = In_Flight"
    using assms(3,4) by (simp add: ttl_due_def)
  ultimately show ?thesis by (cases "j_status r") (auto simp: job_status_of_def)
qed

theorem every_job_ends_witness:
  "job_status_of (replicate 16 7) (fst (reap_ttl_expired 220 2 toy_flying)) \<in> {Some Done, Some Failed}"
proof -
  let ?r = "dispatch_row (Some toy_earner) 1 110 (new_row toy_job 100 (Some ''0xb''))"
  have "?r \<in> set (st_jobs toy_flying)" "j_created_at ?r = Some 100" "js_deadline_secs (j_spec ?r) \<noteq> 0"
    "100 + int (js_deadline_secs (j_spec ?r)) * int 2 \<le> 220" "j_id ?r = replicate 16 7"
    by (simp_all add: toy_flying_rows dispatch_row_def new_row_def toy_job_def)
  then show ?thesis using every_job_ends [OF toy_reached(1), of ?r 100 2 220] by metis
qed

text \<open>
  A zero deadline is not an unlimited one to the lease reaper: an in-flight job that has it is taken back by
  the very next pass.
\<close>

lemma zero_deadline_reaped_at_once:
  assumes "store_steps X store_init S" "r \<in> set (st_jobs S)" "j_status r = In_Flight" "j_started_at r = Some t" "t \<le> now"
    "js_deadline_secs (j_spec r) = 0"
  shows "job_status_of (j_id r) (fst (reap_expired now m S)) = Some (spent_status m r)"
proof -
  have ok: "store_ok X S" using assms(1) store_init_ok by (rule store_steps_ok)
  then have "distinct (map j_id (st_jobs S))" by (simp add: store_ok_def)
  moreover have "overdue now r" using assms(3-6) by (simp add: overdue_def)
  ultimately show ?thesis
    by (simp add: reap_expired_eq job_status_of_def find_row_update store_ok_row [OF ok assms(2)])
qed

subsection \<open>Retention\<close>

lemma filter_delete_where: "(\<And>x. x \<in> set xs \<Longrightarrow> P x \<Longrightarrow> \<not> D x) \<Longrightarrow> filter P (delete_where D xs) = filter P xs"
  by (auto simp: delete_where_def intro: filter_cong)

text \<open>
  Property C30. Pruning forgets nothing that is still owed. Whatever selection of candidates the query
  returns, every receipt not yet landed, every revocation requested and not yet made, every debit not
  yet landed and every open job survives unchanged, quarantined ones included, so no pending count
  moves; and only done or failed jobs older than the horizon go, at most a batch of them.
\<close>

theorem prune_keeps_obligations:
  assumes "store_steps X store_init S" "\<And>rs. set (plan rs) \<subseteq> set rs" "prune_terminal_jobs plan now h b S = (S', n)"
  shows "filter (\<lambda>a. at_uid a = None) (st_attestations S') = filter (\<lambda>a. at_uid a = None) (st_attestations S)
    \<and> filter (\<lambda>a. at_revocation_requested_at a \<noteq> None \<and> at_revoked_at a = None) (st_attestations S')
        = filter (\<lambda>a. at_revocation_requested_at a \<noteq> None \<and> at_revoked_at a = None) (st_attestations S)
    \<and> filter (\<lambda>d. db_tx_hash d = None) (st_debits S') = filter (\<lambda>d. db_tx_hash d = None) (st_debits S)
    \<and> filter (\<lambda>r. j_status r = Queued \<or> j_status r = In_Flight) (st_jobs S')
        = filter (\<lambda>r. j_status r = Queued \<or> j_status r = In_Flight) (st_jobs S)
    \<and> pending_attestation_count S' = pending_attestation_count S \<and> pending_revocation_count S' = pending_revocation_count S
    \<and> pending_debit_count S' = pending_debit_count S \<and> queued_count S' = queued_count S
    \<and> n \<le> b \<and> (\<forall>r. r \<in> set (st_jobs S) \<and> r \<notin> set (st_jobs S') \<longrightarrow>
          (j_status r = Done \<or> j_status r = Failed) \<and> (\<exists>t. j_created_at r = Some t \<and> t \<le> max (now - h) (- (2 ^ 63))))"
proof -
  have ok: "store_ok X S" using assms(1) store_init_ok by (rule store_steps_ok)
  then have d: "distinct (map j_id (st_jobs S))" by (simp add: store_ok_def)
  obtain ids where S': "S' = fold delete_job ids S" and p: "\<And>r. r \<in> set (st_jobs S) \<Longrightarrow> j_id r \<in> set ids \<Longrightarrow>
      prunable (max (now - h) (- (2 ^ 63))) S r"
    using pruned_ids [OF assms(2) d, of now h b] assms(3) by (metis fst_conv)
  have a: "at_uid a \<noteq> None \<and> (at_revocation_requested_at a = None \<or> at_revoked_at a \<noteq> None)"
    if "a \<in> set (st_attestations S)" "at_job_id a \<in> set ids" for a
  proof -
    have "at_job_id a \<in> done_ids S" using ok that(1) by (auto simp: store_ok_def)
    then obtain r where "r \<in> set (st_jobs S)" "j_id r = at_job_id a" by (auto simp: in_done_ids)
    with p [of r] that show ?thesis by (auto simp: prunable_def)
  qed
  have b: "db_tx_hash a \<noteq> None" if "a \<in> set (st_debits S)" "db_job_id a \<in> set ids" for a
  proof -
    have "db_job_id a \<in> done_ids S" using ok that(1) by (auto simp: store_ok_def)
    then obtain r where "r \<in> set (st_jobs S)" "j_id r = db_job_id a" by (auto simp: in_done_ids)
    with p [of r] that show ?thesis by (auto simp: prunable_def)
  qed
  have j: "j_status r = Done \<or> j_status r = Failed" if "r \<in> set (st_jobs S)" "j_id r \<in> set ids" for r
    using p [OF that] by (auto simp: prunable_def)
  have n: "n \<le> b" using assms(3) by (auto simp: prune_terminal_jobs_def Let_def)
  have gone: "(j_status r = Done \<or> j_status r = Failed) \<and> (\<exists>t. j_created_at r = Some t \<and> t \<le> max (now - h) (- (2 ^ 63)))"
    if "r \<in> set (st_jobs S)" "r \<notin> set (st_jobs S')" for r
    using p [of r] that by (auto simp: prunable_def S' fold_delete_job delete_where_simps split: option.splits)
  have tables: "st_attestations S' = delete_where (\<lambda>a. at_job_id a \<in> set ids) (st_attestations S)"
    "st_debits S' = delete_where (\<lambda>d. db_job_id d \<in> set ids) (st_debits S)"
    "st_jobs S' = delete_where (\<lambda>r. j_id r \<in> set ids) (st_jobs S)"
    by (simp_all add: S' fold_delete_job)
  have fa: "filter P (st_attestations S') = filter P (st_attestations S)"
    if "\<And>x. P x \<Longrightarrow> at_uid x = None \<or> at_revocation_requested_at x \<noteq> None \<and> at_revoked_at x = None" for P
    unfolding tables by (rule filter_delete_where) (metis a that)
  have fb: "filter P (st_debits S') = filter P (st_debits S)" if "\<And>x. P x \<Longrightarrow> db_tx_hash x = None" for P
    unfolding tables by (rule filter_delete_where) (metis b that)
  have fj: "filter P (st_jobs S') = filter P (st_jobs S)" if "\<And>x. P x \<Longrightarrow> j_status x = Queued \<or> j_status x = In_Flight" for P
    unfolding tables by (rule filter_delete_where) (metis j that job_status.distinct)
  have counts: "pending_attestation_count S' = pending_attestation_count S" "pending_revocation_count S' = pending_revocation_count S"
    "pending_debit_count S' = pending_debit_count S" "queued_count S' = queued_count S"
    unfolding pending_attestation_count_def pending_revocation_count_def pending_debit_count_def queued_count_def count_where_def
    by (subst fa fb fj; simp add: att_drainable_def rev_drainable_def debit_drainable_def)+
  show ?thesis
    by (intro conjI counts n) ((rule fa fb fj; simp)+, use gone in blast)
qed

theorem prune_keeps_obligations_witness:
  "pending_attestation_count (fst (prune_terminal_jobs rev 9000 10 100 toy_settled)) = pending_attestation_count toy_settled"
proof -
  have "\<And>rs. set (rev rs) \<subseteq> set rs" by simp
  from prune_keeps_obligations [OF toy_reached(2) this prod.collapse [symmetric]] show ?thesis by blast
qed

subsection \<open>Statistics\<close>

lemma count_partition:
  "count_where (\<lambda>r. j_status r = Queued) rows + count_where (\<lambda>r. j_status r = In_Flight) rows
   + count_where (\<lambda>r. j_status r = Failed) rows + count_where (\<lambda>r. j_status r = Done) rows = length rows"
proof (induction rows)
  case (Cons r rows)
  then show ?case by (cases "j_status r") (simp_all add: count_where_def)
qed (simp add: count_where_def)

lemma filter_unique:
  "distinct (map key xs) \<Longrightarrow> x \<in> set xs \<Longrightarrow> filter (\<lambda>y. key x = key y) xs = [x]"
  by (induction xs) (auto simp: filter_empty_conv image_iff)

text \<open>The join of results and jobs lists each done job once.\<close>

lemma results_join:
  assumes "store_ok X S"
  shows "\<exists>f. concat (map (\<lambda>r. map (Pair r) (filter (\<lambda>q. res_job_id r = j_id q) (st_jobs S))) (st_results S))
      = map (\<lambda>r. (r, f r)) (st_results S)
    \<and> mset (map f (st_results S)) = mset (filter (\<lambda>q. j_status q = Done) (st_jobs S))"
proof -
  let ?f = "\<lambda>r. the (find_row j_id (res_job_id r) (st_jobs S))"
  have d: "distinct (map j_id (st_jobs S))" "distinct (map res_job_id (st_results S))"
    using assms by (auto simp: store_ok_def)
  have f: "?f r \<in> set (st_jobs S) \<and> j_id (?f r) = res_job_id r \<and> j_status (?f r) = Done" if "r \<in> set (st_results S)" for r
  proof -
    have "res_job_id r \<in> done_ids S" using assms that by (auto simp: store_ok_def)
    then have "job_status_of (res_job_id r) S = Some Done" by (simp add: done_iff_status [OF assms])
    then show ?thesis using find_row_Some by (fastforce simp: job_status_of_def)
  qed
  have "filter (\<lambda>q. res_job_id r = j_id q) (st_jobs S) = [?f r]" if "r \<in> set (st_results S)" for r
    using f [OF that] filter_unique [OF d(1), of "?f r"] by simp
  then have "concat (map (\<lambda>r. map (Pair r) (filter (\<lambda>q. res_job_id r = j_id q) (st_jobs S))) (st_results S))
      = concat (map (\<lambda>r. [(r, ?f r)]) (st_results S))"
    by (intro arg_cong [of _ _ concat] map_cong) simp_all
  moreover have "\<dots> = map (\<lambda>r. (r, ?f r)) (st_results S)" by (induction "st_results S") simp_all
  moreover have "mset (map ?f (st_results S)) = mset (filter (\<lambda>q. j_status q = Done) (st_jobs S))"
  proof (rule set_eq_iff_mset_eq_distinct [THEN iffD1])
    have "map j_id (map ?f (st_results S)) = map res_job_id (st_results S)" using f by simp
    then show "distinct (map ?f (st_results S))" using d(2) by (metis distinct_map)
    show "distinct (filter (\<lambda>q. j_status q = Done) (st_jobs S))" using d(1) by (simp add: distinct_map)
    show "set (map ?f (st_results S)) = set (filter (\<lambda>q. j_status q = Done) (st_jobs S))"
    proof (intro equalityI subsetI)
      fix q assume q: "q \<in> set (filter (\<lambda>q. j_status q = Done) (st_jobs S))"
      then have "j_id q \<in> res_job_id ` set (st_results S)" using assms by (auto simp: store_ok_def in_done_ids)
      then obtain r where "r \<in> set (st_results S)" "res_job_id r = j_id q" by auto
      with store_ok_row [OF assms, of q] q show "q \<in> set (map ?f (st_results S))" by (auto simp: image_iff) force
    qed (use f in auto)
  qed
  ultimately show ?thesis by (intro exI [of _ ?f]) simp
qed

lemma sum_list_mset: "mset xs = mset ys \<Longrightarrow> sum_list (map g xs) = (sum_list (map g ys) :: nat)"
  by (simp flip: sum_mset_sum_list)

lemma foldM_sum:
  "foldM (\<lambda>x t. do { w \<leftarrow> f x; ck_u n (t + w) }) xs t0 = Some t \<Longrightarrow>
   (\<forall>x\<in>set xs. f x \<noteq> None) \<and> t = t0 + sum_list (map (\<lambda>x. the (f x)) xs) \<and> (t0 < 2 ^ n \<longrightarrow> t < 2 ^ n)"
proof (induction xs arbitrary: t0)
  case (Cons x xs)
  then obtain w where "f x = Some w" "t0 + w < 2 ^ n" "foldM (\<lambda>x t. do { w \<leftarrow> f x; ck_u n (t + w) }) xs (t0 + w) = Some t"
    by (auto simp: bind_eq_Some_conv)
  with Cons.IH [of "t0 + w"] show ?case by auto
qed simp

lemma map_total_update:
  "finite (dom T) \<Longrightarrow> (\<Sum>e\<in>dom (T(a \<mapsto> (case T a of None \<Rightarrow> 0 | Some t \<Rightarrow> t) + w)). the ((T(a \<mapsto> (case T a of None \<Rightarrow> 0 | Some t \<Rightarrow> t) + w)) e))
   = (\<Sum>e\<in>dom T. the (T e)) + (w :: nat)"
  by (cases "T a") (auto simp: sum.insert_remove sum.remove [of "dom T" a] domIff intro!: sum.cong)

lemma foldM_totals:
  assumes "\<forall>x\<in>set xs. f x \<noteq> None" "finite (dom T)"
    "(\<Sum>e\<in>dom T. the (T e)) + sum_list (map (\<lambda>x. the (f x)) xs) < 2 ^ n"
  shows "\<exists>T'. foldM (\<lambda>x T. do { w \<leftarrow> f x; add_total n (k x) w T }) xs T = Some T' \<and> finite (dom T')
    \<and> dom T' = dom T \<union> k ` set xs
    \<and> (\<Sum>e\<in>dom T'. the (T' e)) = (\<Sum>e\<in>dom T. the (T e)) + sum_list (map (\<lambda>x. the (f x)) xs)"
  using assms
proof (induction xs arbitrary: T)
  case (Cons x xs)
  then obtain w where w: "f x = Some w" by auto
  let ?v = "(case T (k x) of None \<Rightarrow> 0 | Some t \<Rightarrow> t) + w"
  have "(case T (k x) of None \<Rightarrow> 0 | Some t \<Rightarrow> t) \<le> (\<Sum>e\<in>dom T. the (T e))"
    using Cons.prems(2) member_le_sum [of "k x" "dom T" "\<lambda>e. the (T e)"] by (auto simp: domI split: option.splits)
  then have "?v < 2 ^ n" using Cons.prems(3) w by simp
  then obtain T1 where T1: "add_total n (k x) w T = Some T1" "finite (dom T1)" "dom T1 = insert (k x) (dom T)"
    "(\<Sum>e\<in>dom T1. the (T1 e)) = (\<Sum>e\<in>dom T. the (T e)) + w"
    using map_total_update [OF Cons.prems(2), of "k x" w] Cons.prems(2)
    by (auto simp: add_total_def ck_u_def simp del: fun_upd_apply)
  then show ?case using Cons.IH [of T1] Cons.prems(1,3) w by (auto simp: add.assoc)
qed simp

text \<open>
  The reported totals agree with each other. In every reachable store the queued, in-flight,
  failed and completed counts add up to the number of jobs, the completed count is the number of done
  jobs, and whenever the total payout is reported the payouts per earner are reported too, one entry
  for each credited earner, and add up to exactly that total.
\<close>

theorem totals_agree:
  assumes "store_steps X store_init S" "total_payout_wei S = Some t"
  shows "completed_count S = count_where (\<lambda>r. j_status r = Done) (st_jobs S)
    \<and> queued_count S + in_flight_count S + failed_count S + completed_count S = length (st_jobs S)
    \<and> (\<exists>T. payout_wei_by_earner S = Some T \<and> finite (dom T) \<and> dom T = res_earner ` set (st_results S)
        \<and> (\<Sum>e\<in>dom T. the (T e)) = t)"
proof -
  have ok: "store_ok X S" using assms(1) store_init_ok by (rule store_steps_ok)
  obtain f where f: "concat (map (\<lambda>r. map (Pair r) (filter (\<lambda>q. res_job_id r = j_id q) (st_jobs S))) (st_results S))
      = map (\<lambda>r. (r, f r)) (st_results S)"
    "mset (map f (st_results S)) = mset (filter (\<lambda>q. j_status q = Done) (st_jobs S))"
    using results_join [OF ok] by blast
  have c: "completed_count S = count_where (\<lambda>r. j_status r = Done) (st_jobs S)"
    using f(2) [THEN mset_eq_length] by (simp add: completed_count_def count_where_def)
  let ?p = "\<lambda>q. parse_u128 (js_max_payout_wei (j_spec q))"
  note s = foldM_sum [OF assms(2) [unfolded total_payout_wei_def]]
  have "set (map f (st_results S)) = set (filter (\<lambda>q. j_status q = Done) (st_jobs S))"
    using f(2) by (metis set_mset_mset)
  then have a: "\<forall>x\<in>set (map (\<lambda>r. (r, f r)) (st_results S)). ?p (snd x) \<noteq> None" using s by auto
  have "sum_list (map (\<lambda>q. the (?p q)) (map f (st_results S))) = sum_list (map (\<lambda>q. the (?p q)) (filter (\<lambda>q. j_status q = Done) (st_jobs S)))"
    using f(2) by (rule sum_list_mset)
  then have sum: "sum_list (map (\<lambda>x. the (?p (snd x))) (map (\<lambda>r. (r, f r)) (st_results S))) = t"
    using s by (simp add: comp_def)
  have "payout_wei_by_earner S = foldM (\<lambda>x T. do { w \<leftarrow> ?p (snd x); add_total 128 (res_earner (fst x)) w T })
      (map (\<lambda>r. (r, f r)) (st_results S)) Map.empty"
    unfolding payout_wei_by_earner_def f(1) by (simp add: case_prod_beta')
  moreover have "\<exists>T. foldM (\<lambda>x T. do { w \<leftarrow> ?p (snd x); add_total 128 (res_earner (fst x)) w T })
      (map (\<lambda>r. (r, f r)) (st_results S)) Map.empty = Some T \<and> finite (dom T)
      \<and> dom T = (\<lambda>x. res_earner (fst x)) ` set (map (\<lambda>r. (r, f r)) (st_results S)) \<and> (\<Sum>e\<in>dom T. the (T e)) = t"
    using foldM_totals [where f = "\<lambda>x. ?p (snd x)" and k = "\<lambda>x. res_earner (fst x)" and T = Map.empty and n = 128, OF a]
      sum s unfolding sum by simp
  ultimately have "\<exists>T. payout_wei_by_earner S = Some T \<and> finite (dom T) \<and> dom T = res_earner ` set (st_results S)
        \<and> (\<Sum>e\<in>dom T. the (T e)) = t"
    using sum by (auto simp: image_image)
  with c count_partition [of "st_jobs S"] show ?thesis
    by (simp add: queued_count_def in_flight_count_def failed_count_def)
qed

theorem totals_agree_witness:
  "completed_count toy_settled = 1 \<and> total_payout_wei toy_settled = Some 500"
proof -
  have "parse_u128 ''500'' = Some 500"
    by (simp add: parse_u128_def is_ascii_digit_def decimal_value_def digit_value_def of_char_def)
  then have t: "total_payout_wei toy_settled = Some 500"
    by (simp add: total_payout_wei_def toy_settled_jobs dispatch_row_def new_row_def toy_job_def ck_u_def)
  then show ?thesis
    using totals_agree [OF toy_reached(2) t] by (simp add: toy_settled_jobs count_where_def)
qed

end
