(* ===== verification/Drain.thy ===== *)
theory Drain
  imports Mesh_Relay
begin

section \<open>The drains empty the outboxes\<close>

text \<open>
  The laws an outbox offers a drain, as a locale: a claim shows exactly the pending obligations, and a
  chunk handled without stopping leaves exactly the others pending. From them the loop is proved to end,
  and to end with nothing pending unless a chunk stopped it. Receipts, debits and revocations provide
  the laws. \<open>alone H\<close> is the host in which no other task touches the store during the drain; what the
  other tasks may do in between is covered by the step relation.
\<close>

definition alone :: "'w host \<Rightarrow> 'w host" where
  "alone H = H\<lparr>h_turn := \<lambda>w S. (w, S)\<rparr>"

lemma locked_alone: "locked (alone H) sec (w, S) = (let (S', x) = sec (h_clock H w) S in ((w, S'), x))"
  by (simp add: locked_def alone_def)

lemma on_chain_alone: "on_chain (alone H) req st = ((fst (req (fst st)), snd st), snd (req (fst st)))"
  by (simp add: on_chain_def alone_def split: prod.splits)

locale outbox =
  fixes H :: "'w host"
    and claim :: "nat \<Rightarrow> store \<Rightarrow> (uuid \<times> 'o) list"
    and pending :: "store \<Rightarrow> uuid set"
    and handle :: "(uuid \<times> 'o) list \<Rightarrow> 'w task_state \<Rightarrow> 'w task_state \<times> bool"
    and good :: "store \<Rightarrow> bool"
  assumes finite_pending: "finite (pending S)"
    and claim_pending: "fst ` set (claim n S) \<subseteq> pending S"
    and claim_none: "claim n S = [] \<Longrightarrow> 0 < n \<Longrightarrow> pending S = {}"
    and handled: "good S \<Longrightarrow> fst ` set cs \<subseteq> pending S \<Longrightarrow> handle cs (w, S) = ((w', S'), go) \<Longrightarrow>
      good S' \<and> ledger_move S S' \<and> pending S' \<subseteq> pending S \<and> (go \<longrightarrow> pending S' = pending S - fst ` set cs)"
begin

lemma drain_ends:
  "good S \<Longrightarrow> \<exists>w' S'. drain_loop (alone H) (claim n) handle (w, S) = Some (w', S') \<and> good S' \<and> ledger_move S S'
     \<and> pending S' \<subseteq> pending S
     \<and> (0 < n \<longrightarrow> (\<forall>cs w S. cs \<noteq> [] \<longrightarrow> snd (handle cs (w, S))) \<longrightarrow> pending S' = {})"
proof (induction "card (pending S)" arbitrary: w S rule: less_induct)
  case less
  show ?case
  proof (cases "claim n S")
    case Nil
    then show ?thesis
      using less.prems claim_none [OF Nil]
      by (subst drain_loop.simps) (auto simp: locked_alone)
  next
    case (Cons c cs)
    obtain w1 S1 go where h: "handle (claim n S) (w, S) = ((w1, S1), go)" by (metis surj_pair)
    have 1: "good S1" "ledger_move S S1" "pending S1 \<subseteq> pending S" "go \<Longrightarrow> pending S1 = pending S - fst ` set (claim n S)"
      using handled [OF less.prems claim_pending h] by auto
    show ?thesis
    proof (cases go)
      case False
      then have "\<not> (\<forall>cs w S. cs \<noteq> [] \<longrightarrow> snd (handle cs (w, S)))"
        using h Cons by (metis list.distinct(1) snd_conv)
      with False show ?thesis using 1 h Cons by (subst drain_loop.simps) (auto simp: locked_alone)
    next
      case True
      have "fst c \<in> pending S" using claim_pending [of n S] Cons by auto
      then have "pending S1 \<subset> pending S" using 1(4) [OF True] Cons by auto
      then have "card (pending S1) < card (pending S)" using finite_pending by (rule psubset_card_mono [rotated])
      from less.hyps [OF this 1(1), of w1] obtain w' S' where
        "drain_loop (alone H) (claim n) handle (w1, S1) = Some (w', S')" "good S'" "ledger_move S1 S'"
        "pending S' \<subseteq> pending S1"
        "0 < n \<longrightarrow> (\<forall>cs w S. cs \<noteq> [] \<longrightarrow> snd (handle cs (w, S))) \<longrightarrow> pending S' = {}" by blast
      then show ?thesis using 1 h Cons True
        by (subst drain_loop.simps) (auto simp: locked_alone intro: ledger_move_trans)
    qed
  qed
qed

end

subsection \<open>Claims\<close>

lemma claim_shape:
  "set (take n (sort_key k (filter P rows))) \<subseteq> {r \<in> set rows. P r}"
  "take n (sort_key k (filter P rows)) = [] \<Longrightarrow> 0 < n \<Longrightarrow> \<forall>r\<in>set rows. \<not> P r"
proof -
  show "set (take n (sort_key k (filter P rows))) \<subseteq> {r \<in> set rows. P r}" by (auto dest: in_set_takeD)
  assume "take n (sort_key k (filter P rows)) = []" "0 < n"
  then have "sort_key k (filter P rows) = []" by simp
  then have "filter P rows = []" by (metis set_empty set_sort)
  then show "\<forall>r\<in>set rows. \<not> P r" by (simp add: filter_empty_conv)
qed

definition pending_receipts :: "store \<Rightarrow> uuid set" where
  "pending_receipts S = at_job_id ` {a \<in> set (st_attestations S). att_drainable a}"

definition pending_revocations :: "store \<Rightarrow> uuid set" where
  "pending_revocations S = at_job_id ` {a \<in> set (st_attestations S). rev_drainable a}"

definition pending_debits :: "store \<Rightarrow> uuid set" where
  "pending_debits S = db_job_id ` {d \<in> set (st_debits S). debit_drainable d}"

definition receipts_ok :: "store \<Rightarrow> bool" where
  "receipts_ok S \<longleftrightarrow> (\<forall>a\<in>set (st_attestations S). att_row_ok a)"

lemma ledger_move_receipts_ok: "ledger_move S S' \<Longrightarrow> receipts_ok S \<Longrightarrow> receipts_ok S'"
  unfolding ledger_move_def receipts_ok_def by (auto dest!: list_all2_right simp: att_move_def)

lemma pending_after:
  "key ` {r \<in> set (update_where (\<lambda>r. key r = i \<and> P r) f rows). Q r} = key ` {r \<in> set rows. Q r} - {i}"
  if "\<And>r. key (f r) = key r" "\<And>r. r \<in> set rows \<Longrightarrow> Q r \<Longrightarrow> P r" "\<And>r. P r \<Longrightarrow> \<not> Q (f r)"
proof -
  let ?g = "\<lambda>r. if key r = i \<and> P r then f r else r"
  have "{r \<in> ?g ` set rows. Q r} = ?g ` {r \<in> set rows. Q (?g r)}" by blast
  then have "key ` {r \<in> set (update_where (\<lambda>r. key r = i \<and> P r) f rows). Q r} = (\<lambda>r. key (?g r)) ` {r \<in> set rows. Q (?g r)}"
    by (simp add: image_image del: if_image_distrib)
  also have "\<dots> = key ` {r \<in> set rows. Q (?g r)}" by (rule image_cong) (auto simp: that(1))
  also have "\<dots> = key ` {r \<in> set rows. Q r} - {i}" using that(2,3) by auto
  finally show ?thesis .
qed

subsection \<open>Chunks\<close>

text \<open>
  \<open>settles\<close>: a helper takes one id out of the pending set and does nothing else of note; \<open>works\<close>: a
  chunk handler does so for all its ids, or stops early having taken out some of them.
\<close>

definition settles :: "(store \<Rightarrow> uuid set) \<Rightarrow> uuid \<Rightarrow> store \<Rightarrow> store \<Rightarrow> bool" where
  "settles pend i S S' \<longleftrightarrow> ledger_move S S' \<and> pend S' = pend S - {i}"

definition works :: "(store \<Rightarrow> uuid set) \<Rightarrow> uuid set \<Rightarrow> store \<Rightarrow> 'w task_state \<times> bool \<Rightarrow> bool" where
  "works pend is S r \<longleftrightarrow> ledger_move S (snd (fst r)) \<and> pend (snd (fst r)) \<subseteq> pend S
     \<and> (snd r \<longrightarrow> pend (snd (fst r)) = pend S - is)"

lemma works_done: "works pend {} S ((w, S), go)"
  by (simp add: works_def)

lemma works_stop: "works pend is S ((w, S), False)"
  by (simp add: works_def)

lemma works_step: "settles pend i S S1 \<Longrightarrow> works pend is S1 r \<Longrightarrow> works pend (insert i is) S r"
  by (auto simp: works_def settles_def intro: ledger_move_trans)

lemma works_fold:
  assumes "\<And>p st. settles pend (k p) (snd st) (snd (f p st))"
  shows "works pend (k ` set ps) (snd st) (fold f ps st, True)"
proof (induction ps arbitrary: st)
  case Nil
  show ?case by (cases st) (simp add: works_done)
next
  case (Cons p ps)
  show ?case using works_step [OF assms [of p st] Cons.IH] by simp
qed

lemma zip_keys: "length uids = length claimed \<Longrightarrow> (\<lambda>p. fst (fst p)) ` set (zip claimed uids) = fst ` set claimed"
  by (induction uids claimed rule: list_induct2) auto

lemma alone_ops:
  "snd (mark_relayed (alone H) i uid st) = fst (mark_submitted i uid (h_clock H (fst st)) (snd st))"
  "snd (dead_letter_attestation (alone H) i st) = fst (mark_attestation_dead_lettered i (h_clock H (fst st)) (snd st))"
  "snd (mark_revoked_row (alone H) i st) = fst (mark_revoked i (h_clock H (fst st)) (snd st))"
  "snd (dead_letter_revocation (alone H) i st) = fst (mark_revocation_dead_lettered i (h_clock H (fst st)) (snd st))"
  "snd (mark_debited (alone H) i uid st) = fst (mark_debit_submitted i uid (h_clock H (fst st)) (snd st))"
  "snd (dead_letter_debit (alone H) i st) = fst (mark_debit_dead_lettered i (h_clock H (fst st)) (snd st))"
  by (simp_all add: mark_relayed_def dead_letter_attestation_def mark_revoked_row_def dead_letter_revocation_def
      mark_debited_def dead_letter_debit_def locked_def alone_def Let_def split: prod.splits)

lemma settles_atts:
  assumes "ledger_move S S'" "st_attestations S' = update_where (\<lambda>a. at_job_id a = i \<and> P a) f (st_attestations S)"
    "\<And>a. at_job_id (f a) = at_job_id a" "\<And>a. a \<in> set (st_attestations S) \<Longrightarrow> Q a \<Longrightarrow> P a" "\<And>a. P a \<Longrightarrow> \<not> Q (f a)"
  shows "settles (\<lambda>S. at_job_id ` {a \<in> set (st_attestations S). Q a}) i S S'"
  unfolding settles_def assms(2) using assms(1) pending_after [of at_job_id f "st_attestations S" Q P i] assms(3-5) by blast

lemma settles_debits:
  assumes "ledger_move S S'" "st_debits S' = update_where (\<lambda>d. db_job_id d = i \<and> P d) f (st_debits S)"
    "\<And>d. db_job_id (f d) = db_job_id d" "\<And>d. d \<in> set (st_debits S) \<Longrightarrow> Q d \<Longrightarrow> P d" "\<And>d. P d \<Longrightarrow> \<not> Q (f d)"
  shows "settles (\<lambda>S. db_job_id ` {d \<in> set (st_debits S). Q d}) i S S'"
  unfolding settles_def assms(2) using assms(1) pending_after [of db_job_id f "st_debits S" Q P i] assms(3-5) by blast

lemma receipt_settles:
  "settles pending_receipts i S (fst (mark_submitted i uid now S))"
  "settles pending_receipts i S (fst (mark_attestation_dead_lettered i now S))"
  unfolding pending_receipts_def [abs_def]
  by (rule settles_atts [OF receipt_moves(1)], simp add: mark_submitted_def Let_def; auto simp: att_drainable_def)
    (rule settles_atts [OF receipt_moves(2)], simp add: mark_attestation_dead_lettered_def Let_def; auto simp: att_drainable_def)

lemma revocation_settles:
  assumes "receipts_ok S"
  shows "settles pending_revocations i S (fst (mark_revoked i now S))"
    "settles pending_revocations i S (fst (mark_revocation_dead_lettered i now S))"
proof -
  have *: "at_uid a \<noteq> None" if "a \<in> set (st_attestations S)" "at_revocation_requested_at a \<noteq> None" for a
    using assms that by (auto simp: receipts_ok_def att_row_ok_def)
  show "settles pending_revocations i S (fst (mark_revoked i now S))"
    unfolding pending_revocations_def [abs_def]
    by (rule settles_atts [OF revocation_moves(2)], simp add: mark_revoked_def Let_def; (auto simp: rev_drainable_def dest: *)?)
  show "settles pending_revocations i S (fst (mark_revocation_dead_lettered i now S))"
    unfolding pending_revocations_def [abs_def]
    by (rule settles_atts [OF revocation_moves(3)], simp add: mark_revocation_dead_lettered_def Let_def;
        auto simp: rev_drainable_def)
qed

lemma debit_settles:
  "settles pending_debits i S (fst (mark_debit_submitted i tx now S))"
  "settles pending_debits i S (fst (mark_debit_dead_lettered i now S))"
  unfolding pending_debits_def [abs_def]
  by (rule settles_debits [OF debit_moves(1)], simp add: mark_debit_submitted_def Let_def; auto simp: debit_drainable_def)
    (rule settles_debits [OF debit_moves(2)], simp add: mark_debit_dead_lettered_def Let_def; auto simp: debit_drainable_def)

lemma drain_singly_works: "works pending_receipts (fst ` set cs) (snd st) (drain_singly (alone H) R cs st)"
proof (induction cs arbitrary: st)
  case Nil
  show ?case by (cases st) (simp add: works_done)
next
  case (Cons c cs)
  obtain i att where c: "c = (i, att)" by (cases c)
  obtain w a where a: "on_chain (alone H) (r_submit R att) st = ((w, snd st), a)"
    by (rule that) (rule on_chain_alone)
  have m: "works pending_receipts (insert i (fst ` set cs)) (snd st)
      (drain_singly (alone H) R cs (mark_relayed (alone H) i uid (w, snd st)))" for uid
    using works_step [OF _ Cons.IH] receipt_settles(1) by (metis alone_ops(1) snd_conv)
  have d: "works pending_receipts (insert i (fst ` set cs)) (snd st)
      (drain_singly (alone H) R cs (dead_letter_attestation (alone H) i (w, snd st)))"
    using works_step [OF _ Cons.IH] receipt_settles(2) by (metis alone_ops(2) snd_conv)
  show ?case using m d by (auto simp: c a works_stop split: sum.splits relay_error.splits)
qed

lemma relay_chunk_works: "works pending_receipts (fst ` set cs) (snd st) (relay_chunk (alone H) R cs st)"
proof -
  obtain w a where a: "on_chain (alone H) (r_submit_batch R (map snd cs)) st = ((w, snd st), a)"
    by (rule that) (rule on_chain_alone)
  have "works pending_receipts (fst ` set cs) (snd st)
      (fold (\<lambda>((i, _), uid). mark_relayed (alone H) i uid) (zip cs uids) (w, snd st), True)" if "length uids = length cs" for uids
    using works_fold [of pending_receipts "\<lambda>p. fst (fst p)" "\<lambda>((i, _), uid). mark_relayed (alone H) i uid" "zip cs uids" "(w, snd st)"]
      zip_keys [OF that] by (simp add: receipt_settles alone_ops case_prod_beta')
  then show ?thesis
    using drain_singly_works [of cs "(w, snd st)" H R]
    by (auto simp: relay_chunk_def a works_stop split: sum.splits batch_error.splits)
qed

lemma drain_debits_singly_works: "works pending_debits (fst ` set cs) (snd st) (drain_debits_singly (alone H) P cs st)"
proof (induction cs arbitrary: st)
  case Nil
  show ?case by (cases st) (simp add: works_done)
next
  case (Cons c cs)
  obtain i d where c: "c = (i, d)" by (cases c)
  obtain w a where a: "on_chain (alone H) (s_spend P d) st = ((w, snd st), a)"
    by (rule that) (rule on_chain_alone)
  have m: "works pending_debits (insert i (fst ` set cs)) (snd st)
      (drain_debits_singly (alone H) P cs (mark_debited (alone H) i tx (w, snd st)))" for tx
    using works_step [OF _ Cons.IH] debit_settles(1) by (metis alone_ops(5) snd_conv)
  have q: "works pending_debits (insert i (fst ` set cs)) (snd st)
      (drain_debits_singly (alone H) P cs (dead_letter_debit (alone H) i (w, snd st)))"
    using works_step [OF _ Cons.IH] debit_settles(2) by (metis alone_ops(6) snd_conv)
  show ?case using m q by (auto simp: c a works_stop split: sum.splits spend_error.splits)
qed

lemma debit_chunk_works: "works pending_debits (fst ` set cs) (snd st) (debit_chunk (alone H) P cs st)"
proof -
  obtain w a where a: "on_chain (alone H) (s_spend_batch P (map snd cs)) st = ((w, snd st), a)"
    by (rule that) (rule on_chain_alone)
  have "works pending_debits (fst ` set cs) (snd st)
      (fold (\<lambda>((i, _), tx). mark_debited (alone H) i tx) (zip cs hs) (w, snd st), True)" if "length hs = length cs" for hs
    using works_fold [of pending_debits "\<lambda>p. fst (fst p)" "\<lambda>((i, _), tx). mark_debited (alone H) i tx" "zip cs hs" "(w, snd st)"]
      zip_keys [OF that] by (simp add: debit_settles alone_ops case_prod_beta')
  then show ?thesis
    using drain_debits_singly_works [of cs "(w, snd st)" H P]
    by (auto simp: debit_chunk_def a works_stop split: sum.splits batch_error.splits)
qed

lemma revoke_chunk_works:
  "receipts_ok (snd st) \<Longrightarrow> works pending_revocations (fst ` set cs) (snd st) (revoke_chunk (alone H) R cs st)"
proof (induction cs arbitrary: st)
  case Nil
  show ?case by (cases st) (simp add: works_done)
next
  case (Cons c cs)
  obtain i b32 where c: "c = (i, b32)" by (cases c)
  obtain w b where a: "on_chain (alone H) (r_revoke R b32) st = ((w, snd st), b)"
    by (rule that) (rule on_chain_alone)
  have step: "works pending_revocations (insert i (fst ` set cs)) (snd st) (revoke_chunk (alone H) R cs st1)"
    if "settles pending_revocations i (snd st) (snd st1)" for st1
    using that Cons.prems by (intro works_step [OF that] Cons.IH) (auto simp: settles_def intro: ledger_move_receipts_ok)
  have "works pending_revocations (insert i (fst ` set cs)) (snd st)
      (revoke_chunk (alone H) R cs (mark_revoked_row (alone H) i (w, snd st)))"
    by (rule step) (simp add: alone_ops revocation_settles [OF Cons.prems])
  moreover have "works pending_revocations (insert i (fst ` set cs)) (snd st)
      (revoke_chunk (alone H) R cs (dead_letter_revocation (alone H) i (w, snd st)))"
    by (rule step) (simp add: alone_ops revocation_settles [OF Cons.prems])
  ultimately show ?case by (cases b) (simp_all add: c a works_stop split: revoke_error.splits)
qed

subsection \<open>The three outboxes\<close>

interpretation receipts: outbox H claim_oldest_pending_batch pending_receipts "relay_chunk (alone H) R" "\<lambda>_. True" for H R
proof
  show "finite (pending_receipts S)" for S by (simp add: pending_receipts_def)
  show "fst ` set (claim_oldest_pending_batch n S) \<subseteq> pending_receipts S" for n S
    using claim_shape(1) [of n at_created_at att_drainable "st_attestations S"]
    by (auto simp: claim_oldest_pending_batch_def pending_receipts_def)
  show "claim_oldest_pending_batch n S = [] \<Longrightarrow> 0 < n \<Longrightarrow> pending_receipts S = {}" for n S
    unfolding claim_oldest_pending_batch_def pending_receipts_def map_is_Nil_conv using claim_shape(2) [of n at_created_at att_drainable "st_attestations S"] by blast
  show "relay_chunk (alone H) R cs (w, S) = ((w', S'), go) \<Longrightarrow> True \<and> ledger_move S S' \<and> pending_receipts S' \<subseteq> pending_receipts S
      \<and> (go \<longrightarrow> pending_receipts S' = pending_receipts S - fst ` set cs)" for S cs w w' S' go
    using relay_chunk_works [of cs "(w, S)" H R] by (auto simp: works_def)
qed

interpretation debits: outbox H claim_oldest_pending_debit_batch pending_debits "debit_chunk (alone H) P" "\<lambda>_. True" for H P
proof
  show "finite (pending_debits S)" for S by (simp add: pending_debits_def)
  show "fst ` set (claim_oldest_pending_debit_batch n S) \<subseteq> pending_debits S" for n S
    using claim_shape(1) [of n db_created_at debit_drainable "st_debits S"]
    by (auto simp: claim_oldest_pending_debit_batch_def pending_debits_def)
  show "claim_oldest_pending_debit_batch n S = [] \<Longrightarrow> 0 < n \<Longrightarrow> pending_debits S = {}" for n S
    unfolding claim_oldest_pending_debit_batch_def pending_debits_def map_is_Nil_conv using claim_shape(2) [of n db_created_at debit_drainable "st_debits S"] by blast
  show "debit_chunk (alone H) P cs (w, S) = ((w', S'), go) \<Longrightarrow> True \<and> ledger_move S S' \<and> pending_debits S' \<subseteq> pending_debits S
      \<and> (go \<longrightarrow> pending_debits S' = pending_debits S - fst ` set cs)" for S cs w w' S' go
    using debit_chunk_works [of cs "(w, S)" H P] by (auto simp: works_def)
qed

interpretation revocations:
  outbox H claim_oldest_pending_revocation_batch pending_revocations "revoke_chunk (alone H) R" receipts_ok for H R
proof
  show "finite (pending_revocations S)" for S by (simp add: pending_revocations_def)
  show "fst ` set (claim_oldest_pending_revocation_batch n S) \<subseteq> pending_revocations S" for n S
    using claim_shape(1) [of n at_revocation_requested_at rev_drainable "st_attestations S"]
    by (auto simp: claim_oldest_pending_revocation_batch_def pending_revocations_def)
  show "claim_oldest_pending_revocation_batch n S = [] \<Longrightarrow> 0 < n \<Longrightarrow> pending_revocations S = {}" for n S
    unfolding claim_oldest_pending_revocation_batch_def pending_revocations_def map_is_Nil_conv using claim_shape(2) [of n at_revocation_requested_at rev_drainable "st_attestations S"] by blast
  show "receipts_ok S' \<and> ledger_move S S' \<and> pending_revocations S' \<subseteq> pending_revocations S
      \<and> (go \<longrightarrow> pending_revocations S' = pending_revocations S - fst ` set cs)"
    if "receipts_ok S" "revoke_chunk (alone H) R cs (w, S) = ((w', S'), go)" for S cs w w' S' go
    using that revoke_chunk_works [of "(w, S)" cs H R] by (auto simp: works_def intro: ledger_move_receipts_ok)
qed

subsection \<open>Every drain returns\<close>

lemma pending_counts:
  "pending_attestation_count S = 0 \<longleftrightarrow> pending_receipts S = {}"
  "pending_revocation_count S = 0 \<longleftrightarrow> pending_revocations S = {}"
  "pending_debit_count S = 0 \<longleftrightarrow> pending_debits S = {}"
  by (auto simp: pending_attestation_count_def pending_receipts_def pending_revocation_count_def pending_revocations_def
      pending_debit_count_def pending_debits_def count_where_def filter_empty_conv)

lemma ledger_move_readbacks:
  assumes "ledger_move S S'"
  shows "st_jobs S' = st_jobs S" "st_results S' = st_results S"
    "attestation_readback i S = Some (Some uid, t, v) \<Longrightarrow> \<exists>v'. attestation_readback i S' = Some (Some uid, t, v') \<and> (v \<noteq> None \<longrightarrow> v' = v)"
    "debit_readback i S = Some (amount, Some tx, t) \<Longrightarrow> debit_readback i S' = Some (amount, Some tx, t)"
proof -
  show "st_jobs S' = st_jobs S" "st_results S' = st_results S" using assms by (auto simp: ledger_move_def)
  have "rel_option att_move (find_row at_job_id i (st_attestations S)) (find_row at_job_id i (st_attestations S'))"
    using assms by (auto simp: ledger_move_def att_move_def intro: list_all2_find_row)
  then show "attestation_readback i S = Some (Some uid, t, v) \<Longrightarrow>
      \<exists>v'. attestation_readback i S' = Some (Some uid, t, v') \<and> (v \<noteq> None \<longrightarrow> v' = v)"
    by (cases rule: option.rel_cases) (auto simp: attestation_readback_def att_move_def)
  have "rel_option debit_move (find_row db_job_id i (st_debits S)) (find_row db_job_id i (st_debits S'))"
    using assms by (auto simp: ledger_move_def debit_move_def intro: list_all2_find_row)
  then show "debit_readback i S = Some (amount, Some tx, t) \<Longrightarrow> debit_readback i S' = Some (amount, Some tx, t)"
    by (cases rule: option.rel_cases) (auto simp: debit_readback_def debit_move_def)
qed

definition landed_kept :: "store \<Rightarrow> store \<Rightarrow> bool" where
  "landed_kept S S' \<longleftrightarrow> st_jobs S' = st_jobs S \<and> st_results S' = st_results S
     \<and> (\<forall>i uid t v. attestation_readback i S = Some (Some uid, t, v) \<longrightarrow>
          (\<exists>v'. attestation_readback i S' = Some (Some uid, t, v') \<and> (v \<noteq> None \<longrightarrow> v' = v)))
     \<and> (\<forall>i amount tx t. debit_readback i S = Some (amount, Some tx, t) \<longrightarrow>
          debit_readback i S' = Some (amount, Some tx, t))"

lemma ledger_move_landed: "ledger_move S S' \<Longrightarrow> landed_kept S S'"
  unfolding landed_kept_def using ledger_move_readbacks by blast

text \<open>
  The drains always return. Whatever the transports answer, errors and wrong counts included, a
  drain of receipts, of debits or of revocations, with no other task at the store meanwhile, ends after
  finitely many chunks; it touches no job and no result, never replaces the uid of a landed receipt or the hash of a
  landed debit, and never makes anything pending that was not.
\<close>

theorem drains_return:
  assumes "store_ok X S"
  shows "(\<exists>w' S'. drain_attestations (alone H) R n (w, S) = Some (w', S') \<and> landed_kept S S' \<and> pending_receipts S' \<subseteq> pending_receipts S)
    \<and> (\<exists>v' S'. drain_debits (alone K) P n (v, S) = Some (v', S') \<and> landed_kept S S' \<and> pending_debits S' \<subseteq> pending_debits S)
    \<and> (\<exists>w' S'. drain_revocations (alone H) R n (w, S) = Some (w', S') \<and> landed_kept S S'
         \<and> pending_revocations S' \<subseteq> pending_revocations S)"
proof -
  have "receipts_ok S" using assms by (simp add: store_ok_def receipts_ok_def)
  then show ?thesis
    unfolding drain_attestations_def drain_debits_def drain_revocations_def
    using receipts.drain_ends [where S = S and H = H and n = n and R = R and w = w]
      debits.drain_ends [where S = S and H = K and n = n and P = P and w = v]
      revocations.drain_ends [where S = S and H = H and n = n and R = R and w = w]
      ledger_move_landed by blast
qed

theorem drains_return_witness:
  "\<exists>w' S'. drain_debits (alone \<lparr>h_turn = \<lambda>w S. (w, S), h_clock = \<lambda>_. 200\<rparr>) mock_spender 10
     (mock_spender_succeeding, toy_settled) = Some (w', S') \<and> landed_kept toy_settled S'"
proof -
  let ?K = "\<lparr>h_turn = \<lambda>w S. (w, S), h_clock = \<lambda>_. 200\<rparr> :: mock_spender_inner host"
  have "store_ok toy_mesh toy_settled" using toy_reached(2) store_init_ok by (rule store_steps_ok)
  from drains_return [OF this, of "\<lparr>h_turn = \<lambda>w S. (w, S), h_clock = \<lambda>_. 200\<rparr>" mock_relay 10 mock_relay_succeeding ?K mock_spender
      mock_spender_succeeding]
  show ?thesis by blast
qed

subsection \<open>Decisive transports\<close>

definition relay_decisive :: "'w relay \<Rightarrow> bool" where
  "relay_decisive R \<longleftrightarrow>
     (\<forall>atts w. case snd (r_submit_batch R atts w) of
        Inr uids \<Rightarrow> length uids = length atts | Inl e \<Rightarrow> (\<exists>m. e = BatchReverted m))
     \<and> (\<forall>att w. case snd (r_submit R att w) of
        Inr _ \<Rightarrow> True | Inl e \<Rightarrow> e = AlreadyIssued \<or> (\<exists>m. e = RelayPermanent m))
     \<and> (\<forall>b w. case snd (r_revoke R b w) of
        Inr _ \<Rightarrow> True | Inl e \<Rightarrow> e = AlreadyRevoked \<or> (\<exists>m. e = RevokePermanent m))"

definition spender_decisive :: "'w spender \<Rightarrow> bool" where
  "spender_decisive P \<longleftrightarrow>
     (\<forall>ds w. case snd (s_spend_batch P ds w) of
        Inr hs \<Rightarrow> length hs = length ds | Inl e \<Rightarrow> (\<exists>m. e = BatchReverted m))
     \<and> (\<forall>d w. case snd (s_spend P d w) of
        Inr _ \<Rightarrow> True | Inl e \<Rightarrow> e = AlreadySpent \<or> (\<exists>m. e = SpendPermanent m))"

lemma drain_singly_decisive: "relay_decisive R \<Longrightarrow> snd (drain_singly (alone H) R cs st)"
proof (induction cs arbitrary: st)
  case (Cons c cs)
  obtain i att where c: "c = (i, att)" by (cases c)
  have "case snd (r_submit R att (fst st)) of Inr _ \<Rightarrow> True | Inl e \<Rightarrow> e = AlreadyIssued \<or> (\<exists>m. e = RelayPermanent m)"
    using Cons.prems unfolding relay_decisive_def by blast
  then show ?case by (auto simp: c on_chain_alone Cons.IH [OF Cons.prems] split: sum.splits)
qed simp

lemma revoke_chunk_decisive: "relay_decisive R \<Longrightarrow> snd (revoke_chunk (alone H) R cs st)"
proof (induction cs arbitrary: st)
  case (Cons c cs)
  obtain i b where c: "c = (i, b)" by (cases c)
  have "case snd (r_revoke R b (fst st)) of Inr _ \<Rightarrow> True | Inl e \<Rightarrow> e = AlreadyRevoked \<or> (\<exists>m. e = RevokePermanent m)"
    using Cons.prems unfolding relay_decisive_def by blast
  then show ?case by (auto simp: c on_chain_alone Cons.IH [OF Cons.prems] split: sum.splits)
qed simp

lemma drain_debits_singly_decisive: "spender_decisive P \<Longrightarrow> snd (drain_debits_singly (alone H) P cs st)"
proof (induction cs arbitrary: st)
  case (Cons c cs)
  obtain i d where c: "c = (i, d)" by (cases c)
  have "case snd (s_spend P d (fst st)) of Inr _ \<Rightarrow> True | Inl e \<Rightarrow> e = AlreadySpent \<or> (\<exists>m. e = SpendPermanent m)"
    using Cons.prems unfolding spender_decisive_def by blast
  then show ?case by (auto simp: c on_chain_alone Cons.IH [OF Cons.prems] split: sum.splits)
qed simp

lemma relay_chunk_decisive: "relay_decisive R \<Longrightarrow> snd (relay_chunk (alone H) R cs st)"
proof -
  assume R: "relay_decisive R"
  then have "case snd (r_submit_batch R (map snd cs) (fst st)) of
      Inr uids \<Rightarrow> length uids = length (map snd cs) | Inl e \<Rightarrow> (\<exists>m. e = BatchReverted m)"
    unfolding relay_decisive_def by blast
  then show ?thesis
    by (auto simp: relay_chunk_def on_chain_alone drain_singly_decisive [OF R] split: sum.splits)
qed

lemma debit_chunk_decisive: "spender_decisive P \<Longrightarrow> snd (debit_chunk (alone H) P cs st)"
proof -
  assume P: "spender_decisive P"
  then have "case snd (s_spend_batch P (map snd cs) (fst st)) of
      Inr hs \<Rightarrow> length hs = length (map snd cs) | Inl e \<Rightarrow> (\<exists>m. e = BatchReverted m)"
    unfolding spender_decisive_def by blast
  then show ?thesis
    by (auto simp: debit_chunk_def on_chain_alone drain_debits_singly_decisive [OF P] split: sum.splits)
qed

text \<open>
  Property C31. A drain leaves nothing behind. When the chain gives decisive answers (accepted, already there,
  permanently refused, or a reverted batch, but no transient, authorisation or configuration failure)
  and no other task adds to the backlog meanwhile, a drain with a positive batch size empties it: every receipt, debit or revocation that
  was pending has landed or is quarantined, and one bad element blocks none of the others.
\<close>

theorem drains_clear_backlog:
  assumes "store_ok X S" "0 < n" "relay_decisive R" "spender_decisive P"
  shows "(\<exists>w' S'. drain_attestations (alone H) R n (w, S) = Some (w', S') \<and> pending_attestation_count S' = 0)
    \<and> (\<exists>w' S'. drain_revocations (alone H) R n (w, S) = Some (w', S') \<and> pending_revocation_count S' = 0)
    \<and> (\<exists>v' S'. drain_debits (alone K) P n (v, S) = Some (v', S') \<and> pending_debit_count S' = 0)"
proof -
  have "receipts_ok S" using assms(1) by (simp add: store_ok_def receipts_ok_def)
  then show ?thesis
    unfolding drain_attestations_def drain_debits_def drain_revocations_def pending_counts
    using receipts.drain_ends [where S = S and H = H and n = n and R = R and w = w]
      debits.drain_ends [where S = S and H = K and n = n and P = P and w = v]
      revocations.drain_ends [where S = S and H = H and n = n and R = R and w = w]
      assms(2) relay_chunk_decisive [OF assms(3)] revoke_chunk_decisive [OF assms(3)] debit_chunk_decisive [OF assms(4)]
    by blast
qed

theorem drains_clear_backlog_witness:
  "\<exists>w' S'. drain_attestations (alone \<lparr>h_turn = \<lambda>w S. (w, S), h_clock = \<lambda>_. 200\<rparr>)
     \<lparr>r_submit = \<lambda>_ w. (w, Inl (RelayPermanent ''refused'')), r_submit_batch = \<lambda>_ w. (w, Inl (BatchReverted ''no'')),
      r_revoke = \<lambda>_ w. (w, Inr ())\<rparr> 1 ((), toy_settled) = Some (w', S') \<and> pending_attestation_count S' = 0"
proof -
  have ok: "store_ok toy_mesh toy_settled" using toy_reached(2) store_init_ok by (rule store_steps_ok)
  have r: "relay_decisive (\<lparr>r_submit = \<lambda>_ w. (w, Inl (RelayPermanent ''refused'')),
      r_submit_batch = \<lambda>_ w. (w, Inl (BatchReverted ''no'')), r_revoke = \<lambda>_ w. (w, Inr ())\<rparr> :: unit relay)"
    by (simp add: relay_decisive_def)
  have "spender_decisive (\<lparr>s_spend = \<lambda>d w. (w, Inr (mock_tx_hash d)),
      s_spend_batch = \<lambda>ds w. (w, Inr (map batch_tx_hash ds))\<rparr> :: unit spender)"
    by (simp add: spender_decisive_def)
  from drains_clear_backlog [OF ok zero_less_one r this] show ?thesis by blast
qed

subsection \<open>Each receipt gets its own uid\<close>

lemma mark_relayed_find:
  "find_row at_job_id k (st_attestations (snd (mark_relayed (alone H) i uid st))) =
   map_option (\<lambda>a. if at_job_id a = i \<and> at_uid a = None
                   then a\<lparr>at_uid := Some uid, at_submitted_at := Some (h_clock H (fst st))\<rparr> else a)
     (find_row at_job_id k (st_attestations (snd st)))"
  by (simp add: alone_ops mark_submitted_def Let_def find_row_update)

lemma mark_relayed_world: "fst (mark_relayed (alone H) i uid st) = fst st"
  by (simp add: mark_relayed_def locked_def alone_def split: prod.splits)

lemma mark_all_find:
  assumes "length uids = length cs" "distinct (map fst cs)"
  shows "find_row at_job_id k (st_attestations (snd (fold (\<lambda>((i, _), uid). mark_relayed (alone H) i uid) (zip cs uids) st))) =
    (case map_of (zip (map fst cs) uids) k of
       None \<Rightarrow> find_row at_job_id k (st_attestations (snd st))
     | Some uid \<Rightarrow> map_option (\<lambda>a. if at_uid a = None
                   then a\<lparr>at_uid := Some uid, at_submitted_at := Some (h_clock H (fst st))\<rparr> else a)
         (find_row at_job_id k (st_attestations (snd st))))"
  using assms
proof (induction uids cs arbitrary: st rule: list_induct2)
  case (Cons u us c cs)
  obtain i att where c: "c = (i, att)" by (cases c)
  let ?st = "mark_relayed (alone H) i u st"
  have keep: "find_row at_job_id k (st_attestations (snd ?st)) = find_row at_job_id k (st_attestations (snd st))" if "k \<noteq> i"
    using that by (cases "find_row at_job_id k (st_attestations (snd st))") (auto simp: mark_relayed_find dest: find_row_Some)
  have new: "find_row at_job_id i (st_attestations (snd ?st)) = map_option (\<lambda>a. if at_uid a = None
      then a\<lparr>at_uid := Some u, at_submitted_at := Some (h_clock H (fst st))\<rparr> else a) (find_row at_job_id i (st_attestations (snd st)))"
    by (cases "find_row at_job_id i (st_attestations (snd st))") (auto simp: mark_relayed_find dest: find_row_Some)
  have "map_of (zip (map fst cs) us) i = None" using Cons.prems Cons.hyps c by (simp add: map_of_zip_is_None)
  then show ?case
    using Cons.IH [of ?st, unfolded mark_relayed_world] Cons.prems keep new
    by (cases "k = i"; cases "map_of (zip (map fst cs) us) k") (auto simp: c)
qed (simp split: option.splits)

lemma claim_distinct:
  assumes "distinct (map key rows)"
  shows "distinct (map fst (map (\<lambda>a. (key a, g a)) (take n (sort_key k (filter P rows)))))"
proof -
  have "distinct (map key (sort_key k (filter P rows)))"
    using assms by (simp add: distinct_map inj_on_def)
  then show ?thesis by (simp add: comp_def take_map [symmetric] flip: take_map)
qed

text \<open>
  A successful batch marks every claimed receipt with its own uid. When the transport answers a
  chunk with as many uids as it was given receipts, the k-th receipt claimed carries the k-th uid and the
  time of the call, every other receipt is as before, and the loop goes on; when the count is wrong
  nothing is marked at all and the drain stops.
\<close>

theorem batch_uids_in_order:
  assumes "store_ok X S" "cs = claim_oldest_pending_batch n S" "r_submit_batch R (map snd cs) w = (w', Inr uids)"
    "relay_chunk (alone H) R cs (w, S) = ((w2, S2), go)"
  shows "if length uids = length cs
    then go \<and> (\<forall>k < length cs. \<exists>v. attestation_readback (fst (cs ! k)) S2 = Some (Some (uids ! k), Some (h_clock H w'), v))
      \<and> (\<forall>i. i \<notin> fst ` set cs \<longrightarrow> attestation_readback i S2 = attestation_readback i S)
    else \<not> go \<and> S2 = S"
proof (cases "length uids = length cs")
  case False
  then show ?thesis using assms(3,4) by (auto simp: relay_chunk_def on_chain_alone)
next
  case True
  have d: "distinct (map at_job_id (st_attestations S))" using assms(1) by (simp add: store_ok_def)
  have dc: "distinct (map fst cs)" unfolding assms(2) claim_oldest_pending_batch_def by (rule claim_distinct [OF d])
  have st: "go" "(w2, S2) = fold (\<lambda>((i, _), uid). mark_relayed (alone H) i uid) (zip cs uids) (w', S)"
    using assms(3,4) True by (auto simp: relay_chunk_def on_chain_alone)
  note f = mark_all_find [OF True dc, where st = "(w', S)" and H = H, folded st(2)]
  have "\<exists>v. attestation_readback (fst (cs ! k)) S2 = Some (Some (uids ! k), Some (h_clock H w'), v)" if k: "k < length cs" for k
  proof -
    have "map_of (zip (map fst cs) uids) (fst (cs ! k)) = Some (uids ! k)"
      using map_of_zip_nth [of "map fst cs" uids k] True dc k by simp
    moreover have "fst (cs ! k) \<in> pending_receipts S"
      using receipts.claim_pending [of n S] k unfolding assms(2) [symmetric] by auto
    then obtain a where "find_row at_job_id (fst (cs ! k)) (st_attestations S) = Some a" "at_uid a = None"
      using find_row_unique [OF d] by (auto simp: pending_receipts_def att_drainable_def)
    ultimately show ?thesis using f [of "fst (cs ! k)"] by (simp add: attestation_readback_def)
  qed
  moreover have "attestation_readback i S2 = attestation_readback i S" if "i \<notin> fst ` set cs" for i
    using f [of i] that True by (simp add: attestation_readback_def map_of_zip_is_None [of "map fst cs" uids, THEN iffD2])
  ultimately show ?thesis using True st(1) by simp
qed

lemma toy_receipt: "\<exists>att. st_attestations toy_settled = [new_att_row (replicate 16 7) att 120]"
proof -
  have "is_bytes32_hex (jr_output_hash toy_result)"
    by (simp add: is_bytes32_hex_def toy_result_def is_lower_hex_def is_ascii_digit_def of_char_def list_all_iff)
  then obtain att where "build_attestation toy_mesh toy_job toy_result = Some att"
    by (simp add: build_attestation_def)
  then have "st_attestations toy_settled = [new_att_row (replicate 16 7) att 120]"
    by (simp add: toy_settled_def record_completed_def toy_flying_rows dispatch_row_def new_row_def Let_def insert_new_def)
      (simp add: toy_job_def toy_result_def)
  then show ?thesis ..
qed

theorem batch_uids_in_order_witness:
  "\<exists>v. attestation_readback (replicate 16 7)
     (snd (fst (relay_chunk (alone \<lparr>h_turn = \<lambda>w S. (w, S), h_clock = \<lambda>_. 200\<rparr>)
       \<lparr>r_submit = \<lambda>_ w. (w, Inl AlreadyIssued), r_submit_batch = \<lambda>atts w. (w, Inr (map (\<lambda>_. ''0xu'') atts)),
        r_revoke = \<lambda>_ w. (w, Inr ())\<rparr> (claim_oldest_pending_batch 1 toy_settled) ((), toy_settled))))
   = Some (Some ''0xu'', Some 200, v)"
proof -
  let ?H = "\<lparr>h_turn = \<lambda>w S. (w, S), h_clock = \<lambda>_. 200\<rparr> :: unit host"
  let ?R = "\<lparr>r_submit = \<lambda>_ w. (w, Inl AlreadyIssued), r_submit_batch = \<lambda>atts w. (w, Inr (map (\<lambda>_. ''0xu'') atts)),
        r_revoke = \<lambda>_ w. (w, Inr ())\<rparr> :: unit relay"
  let ?c = "claim_oldest_pending_batch 1 toy_settled"
  have ok: "store_ok toy_mesh toy_settled" using toy_reached(2) store_init_ok by (rule store_steps_ok)
  obtain att where c: "claim_oldest_pending_batch 1 toy_settled = [(replicate 16 7, att)]"
    using toy_receipt by (auto simp: claim_oldest_pending_batch_def new_att_row_def att_drainable_def)
  have r: "r_submit_batch ?R (map snd ?c) () = ((), Inr [''0xu''])" unfolding c by simp
  obtain w2 S2 go where rc: "relay_chunk (alone ?H) ?R ?c ((), toy_settled) = ((w2, S2), go)" by (metis surj_pair)
  from batch_uids_in_order [OF ok refl r rc] show ?thesis unfolding rc unfolding c by simp
qed

subsection \<open>Drains among the other tasks\<close>

definition fair_host :: "mesh_crates \<Rightarrow> 'w host \<Rightarrow> bool" where
  "fair_host X H \<longleftrightarrow> (\<forall>w S. store_steps X S (snd (h_turn H w S)))"

lemma locked_steps:
  assumes "fair_host X H" "\<And>now S. store_steps X S (fst (sec now S))"
  shows "store_steps X (snd st) (snd (fst (locked H sec st)))"
proof -
  have "store_steps X (snd st) (snd (h_turn H (fst st) (snd st)))" using assms(1) by (simp add: fair_host_def)
  also have "store_steps X (snd (h_turn H (fst st) (snd st))) (snd (fst (locked H sec st)))"
    using assms(2) by (auto simp: locked_def Let_def split: prod.splits) (metis fst_conv)
  finally show ?thesis .
qed

lemma on_chain_steps: "fair_host X H \<Longrightarrow> store_steps X (snd st) (snd (fst (on_chain H req st)))"
  by (auto simp: fair_host_def on_chain_def Let_def split: prod.splits)

lemma helper_steps:
  assumes "fair_host X H"
  shows "store_steps X (snd st) (snd (mark_relayed H i uid st))" "store_steps X (snd st) (snd (dead_letter_attestation H i st))"
    "store_steps X (snd st) (snd (mark_revoked_row H i st))" "store_steps X (snd st) (snd (dead_letter_revocation H i st))"
    "store_steps X (snd st) (snd (mark_debited H i uid st))" "store_steps X (snd st) (snd (dead_letter_debit H i st))"
  unfolding mark_relayed_def dead_letter_attestation_def mark_revoked_row_def dead_letter_revocation_def mark_debited_def
    dead_letter_debit_def
  by (rule locked_steps [OF assms]; intro r_into_rtranclp; rule store_step.intros)+

lemma fold_steps:
  assumes "\<And>p st. store_steps X (snd st) (snd (f p st))"
  shows "store_steps X (snd st) (snd (fold f ps st))"
proof (induction ps arbitrary: st)
  case (Cons p ps)
  show ?case using rtranclp_trans [OF assms [of st p] Cons.IH] by simp
qed simp

lemma drain_singly_steps: "fair_host X H \<Longrightarrow> store_steps X (snd st) (snd (fst (drain_singly H R cs st)))"
proof (induction cs arbitrary: st)
  case (Cons c cs)
  obtain i att where c: "c = (i, att)" by (cases c)
  obtain st1 a where a: "on_chain H (r_submit R att) st = (st1, a)" by (cases "on_chain H (r_submit R att) st")
  have 1: "store_steps X (snd st) (snd st1)" using on_chain_steps [OF Cons.prems, of st "r_submit R att"] a by simp
  have "store_steps X (snd st) (snd (fst (drain_singly H R cs (mark_relayed H i uid st1))))"
    "store_steps X (snd st) (snd (fst (drain_singly H R cs (dead_letter_attestation H i st1))))" for uid
    using 1 helper_steps [OF Cons.prems] Cons.IH [OF Cons.prems] by (meson rtranclp_trans)+
  with 1 show ?case by (auto simp: c a split: sum.splits relay_error.splits)
qed simp

lemma drain_debits_singly_steps: "fair_host X H \<Longrightarrow> store_steps X (snd st) (snd (fst (drain_debits_singly H P cs st)))"
proof (induction cs arbitrary: st)
  case (Cons c cs)
  obtain i d where c: "c = (i, d)" by (cases c)
  obtain st1 a where a: "on_chain H (s_spend P d) st = (st1, a)" by (cases "on_chain H (s_spend P d) st")
  have 1: "store_steps X (snd st) (snd st1)" using on_chain_steps [OF Cons.prems, of st "s_spend P d"] a by simp
  have "store_steps X (snd st) (snd (fst (drain_debits_singly H P cs (mark_debited H i tx st1))))"
    "store_steps X (snd st) (snd (fst (drain_debits_singly H P cs (dead_letter_debit H i st1))))" for tx
    using 1 helper_steps [OF Cons.prems] Cons.IH [OF Cons.prems] by (meson rtranclp_trans)+
  with 1 show ?case by (auto simp: c a split: sum.splits spend_error.splits)
qed simp

lemma revoke_chunk_steps: "fair_host X H \<Longrightarrow> store_steps X (snd st) (snd (fst (revoke_chunk H R cs st)))"
proof (induction cs arbitrary: st)
  case (Cons c cs)
  obtain i b where c: "c = (i, b)" by (cases c)
  obtain st1 a where a: "on_chain H (r_revoke R b) st = (st1, a)" by (cases "on_chain H (r_revoke R b) st")
  have 1: "store_steps X (snd st) (snd st1)" using on_chain_steps [OF Cons.prems, of st "r_revoke R b"] a by simp
  have "store_steps X (snd st) (snd (fst (revoke_chunk H R cs (mark_revoked_row H i st1))))"
    "store_steps X (snd st) (snd (fst (revoke_chunk H R cs (dead_letter_revocation H i st1))))"
    using 1 helper_steps [OF Cons.prems] Cons.IH [OF Cons.prems] by (meson rtranclp_trans)+
  with 1 show ?case by (auto simp: c a split: sum.splits revoke_error.splits)
qed simp

lemma batch_chunk_steps:
  assumes "fair_host X H"
  shows "store_steps X (snd st) (snd (fst (relay_chunk H R cs st)))" "store_steps X (snd st) (snd (fst (debit_chunk H P ds st)))"
proof -
  obtain st1 a where a: "on_chain H (r_submit_batch R (map snd cs)) st = (st1, a)"
    by (cases "on_chain H (r_submit_batch R (map snd cs)) st")
  have 1: "store_steps X (snd st) (snd st1)" using on_chain_steps [OF assms, of st "r_submit_batch R (map snd cs)"] a by simp
  have "store_steps X (snd st) (snd (fold (\<lambda>((i, _), uid). mark_relayed H i uid) ps st1))" for ps
    by (rule rtranclp_trans [OF 1 fold_steps]) (simp add: helper_steps [OF assms] case_prod_beta')
  moreover have "store_steps X (snd st) (snd (fst (drain_singly H R cs st1)))"
    by (rule rtranclp_trans [OF 1 drain_singly_steps [OF assms]])
  ultimately show "store_steps X (snd st) (snd (fst (relay_chunk H R cs st)))"
    using 1 by (auto simp: relay_chunk_def a split: sum.splits batch_error.splits)
next
  obtain st1 a where a: "on_chain H (s_spend_batch P (map snd ds)) st = (st1, a)"
    by (cases "on_chain H (s_spend_batch P (map snd ds)) st")
  have 1: "store_steps X (snd st) (snd st1)" using on_chain_steps [OF assms, of st "s_spend_batch P (map snd ds)"] a by simp
  have "store_steps X (snd st) (snd (fold (\<lambda>((i, _), tx). mark_debited H i tx) ps st1))" for ps
    by (rule rtranclp_trans [OF 1 fold_steps]) (simp add: helper_steps [OF assms] case_prod_beta')
  moreover have "store_steps X (snd st) (snd (fst (drain_debits_singly H P ds st1)))"
    by (rule rtranclp_trans [OF 1 drain_debits_singly_steps [OF assms]])
  ultimately show "store_steps X (snd st) (snd (fst (debit_chunk H P ds st)))"
    using 1 by (auto simp: debit_chunk_def a split: sum.splits batch_error.splits)
qed

lemma drain_loop_steps:
  assumes "fair_host X H" "\<And>cs st. store_steps X (snd st) (snd (fst (handle cs st)))"
    "drain_loop H claim handle st = Some st'"
  shows "store_steps X (snd st) (snd st')"
proof -
  let ?P = "\<lambda>H' claim' handle' st st'. H' = H \<longrightarrow> claim' = claim \<longrightarrow> handle' = handle \<longrightarrow> store_steps X (snd st) (snd st')"
  have "?P H claim handle st st'"
  proof (rule drain_loop.raw_induct [where P = ?P, OF _ assms(3)], intro impI)
    fix loop H' claim' handle' st st'
    assume IH: "\<And>H' claim' handle' st st'. loop H' claim' handle' st = Some st' \<Longrightarrow> ?P H' claim' handle' st st'"
      and body: "(let r = locked H' (\<lambda>_ S. (S, claim' S)) st in if snd r = [] then Some (fst r)
        else let c = handle' (snd r) (fst r) in if snd c then loop H' claim' handle' (fst c) else Some (fst c)) = Some st'"
      and eq: "H' = H" "claim' = claim" "handle' = handle"
    let ?r = "locked H (\<lambda>_ S. (S, claim S)) st"
    have r: "store_steps X (snd st) (snd (fst ?r))" by (rule locked_steps [OF assms(1)]) simp
    have "store_steps X (snd st) (snd (fst (handle (snd ?r) (fst ?r))))"
      by (rule rtranclp_trans [OF r assms(2)])
    moreover have "store_steps X (snd (fst (handle (snd ?r) (fst ?r)))) (snd st')"
      if "loop H claim handle (fst (handle (snd ?r) (fst ?r))) = Some st'"
      using IH [OF that] by simp
    ultimately show "store_steps X (snd st) (snd st')"
      using body r by (auto simp: eq Let_def split: if_splits intro: rtranclp_trans)
  qed
  then show ?thesis by simp
qed

text \<open>
  The drains are safe among the other tasks. Whatever operations the handlers, reapers and the
  other drain run on the store while a drain waits for the lock or for the chain, a drain takes the
  store through the operations of the step relation only, so the store it leaves is consistent and every
  guarantee proved of the steps holds across it.
\<close>

theorem drains_interleave_safely:
  assumes "fair_host X H" "fair_host X K" "store_ok X S"
  shows "(drain_attestations H R n (w, S) = Some (w', S') \<longrightarrow> store_steps X S S' \<and> store_ok X S')
    \<and> (drain_revocations H R n (w, S) = Some (w', S') \<longrightarrow> store_steps X S S' \<and> store_ok X S')
    \<and> (drain_debits K P n (v, S) = Some (v', S') \<longrightarrow> store_steps X S S' \<and> store_ok X S')"
proof -
  have "store_steps X S S' \<and> store_ok X S'" if "drain_attestations H R n (w, S) = Some (w', S')"
    using drain_loop_steps [OF assms(1) batch_chunk_steps(1) [OF assms(1)] that [unfolded drain_attestations_def]]
      store_steps_ok [OF _ assms(3)] by simp
  moreover have "store_steps X S S' \<and> store_ok X S'" if "drain_revocations H R n (w, S) = Some (w', S')"
    using drain_loop_steps [OF assms(1) revoke_chunk_steps [OF assms(1)] that [unfolded drain_revocations_def]]
      store_steps_ok [OF _ assms(3)] by simp
  moreover have "store_steps X S S' \<and> store_ok X S'" if "drain_debits K P n (v, S) = Some (v', S')"
    using drain_loop_steps [OF assms(2) batch_chunk_steps(2) [OF assms(2)] that [unfolded drain_debits_def]]
      store_steps_ok [OF _ assms(3)] by simp
  ultimately show ?thesis by blast
qed

theorem drains_interleave_safely_witness:
  "\<exists>v' S'. drain_debits (alone \<lparr>h_turn = \<lambda>w S. (w, S), h_clock = \<lambda>_. 200\<rparr>) mock_spender 10
     (mock_spender_succeeding, toy_settled) = Some (v', S') \<and> store_steps toy_mesh toy_settled S'"
proof -
  let ?K = "alone \<lparr>h_turn = \<lambda>w S. (w, S), h_clock = \<lambda>_. 200\<rparr> :: mock_spender_inner host"
  have ok: "store_ok toy_mesh toy_settled" using toy_reached(2) store_init_ok by (rule store_steps_ok)
  have f: "fair_host toy_mesh ?K" "fair_host toy_mesh (alone \<lparr>h_turn = \<lambda>w S. (w, S), h_clock = \<lambda>_. 200\<rparr> :: mock_inner host)"
    by (simp_all add: fair_host_def alone_def)
  obtain v' S' where d: "drain_debits ?K mock_spender 10 (mock_spender_succeeding, toy_settled) = Some (v', S')"
    using debits.drain_ends [where S = toy_settled and n = 10 and P = mock_spender and w = mock_spender_succeeding
        and H = "\<lparr>h_turn = \<lambda>w S. (w, S), h_clock = \<lambda>_. 200\<rparr>"]
    unfolding drain_debits_def by blast
  from drains_interleave_safely [OF f(2) f(1) ok] d show ?thesis by blast
qed

end

