(* ===== verification/Registry_Props.thy ===== *)
theory Registry_Props
  imports Mesh_Registry
begin

unbundle bit_operations_syntax

section \<open>What the registry and its guards guarantee\<close>

text \<open>
  The cap on the registry never costs a live earner its place; the rate limiter lets a source through at
  the configured rate and no faster, but for the deficits it is made to forget; the source address is the
  nearest hop no trusted proxy vouches for; and a network mask means what it should.
\<close>

lemma sat_i64_mono: "x \<le> y \<Longrightarrow> sat_i64 x \<le> sat_i64 y"
  by (simp add: sat_i64_def)

lemma sat_i64_id: "- (2 ^ 63) \<le> x \<Longrightarrow> x < 2 ^ 63 \<Longrightarrow> sat_i64 x = x"
  by (simp add: sat_i64_def)

lemma sat_i64_le: "0 \<le> x \<Longrightarrow> sat_i64 x \<le> x \<and> 0 \<le> sat_i64 x"
  by (simp add: sat_i64_def)

subsection \<open>Admission\<close>

lemma length_update_new: "map_of al k = None \<Longrightarrow> length (AList.update k v al) = Suc (length al)"
  by (induction al) auto

lemma length_update_old: "map_of al k \<noteq> None \<Longrightarrow> length (AList.update k v al) = length al"
  by (induction al) auto

lemma length_delete: "distinct (map fst al) \<Longrightarrow> k \<in> fst ` set al \<Longrightarrow> Suc (length (AList.delete k al)) = length al"
  by (induction al) (auto simp: delete_id)

lemma distinct_update: "distinct (map fst al) \<Longrightarrow> distinct (map fst (AList.update k v al))"
  by (rule AList.distinct_update)

lemma distinct_delete: "distinct (map fst al) \<Longrightarrow> distinct (map fst (AList.delete k al))"
  by (rule AList.distinct_delete)

text \<open>
  The cap on the registry never costs a live earner its place. Registering keeps one entry per
  address and at most the configured number of them; a live earner's entry is untouched by anybody
  else's registration; the newcomer is refused exactly when it is unknown, the registry is full and
  everybody in it is live, and then nothing changes; otherwise its entry is the one it sent, and what
  was evicted for it, if anything, is a stalest expired entry.
\<close>

theorem admission_spares_the_live:
  assumes "distinct (map fst earners)" "length earners \<le> max_earners"
    "admit_earner earners address info max_earners now ttl = (earners', a)"
  shows "distinct (map fst earners') \<and> length earners' \<le> max_earners
    \<and> (\<forall>k e. k \<noteq> address \<longrightarrow> map_of earners k = Some e \<longrightarrow> is_live e now ttl \<longrightarrow> map_of earners' k = Some e)
    \<and> (a = Rejected \<longleftrightarrow> map_of earners address = None \<and> length earners = max_earners
         \<and> (\<forall>(k, e)\<in>set earners. is_live e now ttl))
    \<and> (a = Rejected \<longrightarrow> earners' = earners) \<and> (a \<noteq> Rejected \<longrightarrow> map_of earners' address = Some info)
    \<and> (\<forall>k e. k \<noteq> address \<longrightarrow> map_of earners k = Some e \<longrightarrow> map_of earners' k = None \<longrightarrow>
         \<not> is_live e now ttl \<and> (\<forall>(k', e')\<in>set earners. \<not> is_live e' now ttl \<longrightarrow> ei_last_seen e \<le> ei_last_seen e'))"
proof (cases "map_of earners address = None \<and> max_earners \<le> length earners")
  case False
  then show ?thesis
    using assms by (auto simp: admit_earner_def update_conv' distinct_update length_update_new length_update_old
        split: option.splits)
next
  case full: True
  let ?stale = "filter (\<lambda>(_, e). \<not> is_live e now ttl) earners"
  show ?thesis
  proof (cases "min_by_key (\<lambda>(_, e). ei_last_seen e) ?stale")
    case None
    then have "?stale = []" by simp
    then show ?thesis using full None assms by (auto simp: admit_earner_def filter_empty_conv)
  next
    case (Some p)
    obtain key e0 where p: "p = (key, e0)" by (cases p)
    have e0: "(key, e0) \<in> set earners" "\<not> is_live e0 now ttl"
      "\<forall>(k', e')\<in>set earners. \<not> is_live e' now ttl \<longrightarrow> ei_last_seen e0 \<le> ei_last_seen e'"
      using min_by_key_Some [OF Some] by (auto simp: p)
    have m: "map_of earners key = Some e0" using e0(1) assms(1) by simp
    have eq: "earners' = AList.update address info (AList.delete key earners)" "a = Evicted"
      using full Some p assms(3) by (auto simp: admit_earner_def)
    have "Suc (length (AList.delete key earners)) = length earners"
      using assms(1) e0(1) by (intro length_delete) force+
    moreover have "map_of (AList.delete key earners) address = None" using full by (auto simp: delete_conv')
    ultimately have "length earners' = length earners" by (simp add: eq length_update_new)
    moreover have "distinct (map fst earners')" using assms(1) by (simp add: eq distinct_update distinct_delete)
    moreover have "map_of earners' k = (if k = address then Some info else if k = key then None else map_of earners k)" for k
      by (simp add: eq update_conv' delete_conv')
    ultimately show ?thesis using assms(2) e0 m eq(2) by auto
  qed
qed

definition toy_info :: "i64 \<Rightarrow> earner_info" where
  "toy_info t = \<lparr>ei_gpu_model = ''rtx'', ei_vram_gb = 24, ei_supported = [Terrain], ei_last_seen = t, ei_poll_token = ''t''\<rparr>"

theorem admission_spares_the_live_witness:
  "map_of (fst (admit_earner [(''0xa'', toy_info 5), (''0xb'', toy_info 90)] ''0xc'' (toy_info 100) 2 100 30)) ''0xb'' = Some (toy_info 90)"
  using admission_spares_the_live [of "[(''0xa'', toy_info 5), (''0xb'', toy_info 90)]" 2 "''0xc''" "toy_info 100" 100 30]
  by (simp add: toy_info_def is_live_def sat_i64_def prod_eq_iff)

subsection \<open>The rate limiter\<close>

text \<open>
  A run of the limiter: its buckets, the answers given in order, and the sources whose bucket was dropped before it
  had refilled, each time with a deficit forgotten.
\<close>

type_synonym rate_run = "buckets \<times> (ip_addr \<times> bool) list \<times> ip_addr list"

definition forgotten :: "u32 \<Rightarrow> i64 \<Rightarrow> i64 \<Rightarrow> buckets \<Rightarrow> buckets \<Rightarrow> ip_addr list" where
  "forgotten capacity window now bs bs' =
     map fst (filter (\<lambda>(k, b). map_of bs' k = None \<and> not_refilled now capacity (int capacity * window) b) bs)"

definition rate_step :: "u32 \<Rightarrow> i64 \<Rightarrow> nat \<Rightarrow> ip_addr \<times> i64 \<Rightarrow> rate_run \<Rightarrow> rate_run" where
  "rate_step capacity window m call st =
     (let (bs, ls, fs) = st; (bs', ok) = check_registration_rate bs (fst call) (snd call) capacity window m
      in (bs', ls @ [(fst call, ok)], fs @ forgotten capacity window (snd call) bs bs'))"

definition tries :: "ip_addr \<Rightarrow> (ip_addr \<times> bool) list \<Rightarrow> nat" where
  "tries s ls = length (filter (\<lambda>p. fst p = s) ls)"

definition passes :: "ip_addr \<Rightarrow> (ip_addr \<times> bool) list \<Rightarrow> nat" where
  "passes s ls = length (filter (\<lambda>p. fst p = s \<and> snd p) ls)"

definition deficits :: "ip_addr \<Rightarrow> ip_addr list \<Rightarrow> nat" where
  "deficits s fs = length (filter (\<lambda>k. k = s) fs)"

text \<open>How far the clock has moved forward in all, over a sequence of readings; where it steps back, nothing.\<close>

fun advance :: "i64 \<Rightarrow> i64 list \<Rightarrow> int" where
  "advance t [] = 0"
| "advance t (u # us) = max 0 (u - t) + advance u us"

lemma advance_sorted: "sorted (t # us) \<Longrightarrow> advance t us = last (t # us) - t"
  by (induction us arbitrary: t) auto

lemma passes_tries: "passes s ls \<le> tries s ls"
  unfolding passes_def tries_def by (induction ls) auto

lemma log_snoc:
  "tries s (ls @ [(u, ok)]) = (if u = s then Suc (tries s ls) else tries s ls)"
  "passes s (ls @ [(u, ok)]) = (if u = s \<and> ok then Suc (passes s ls) else passes s ls)"
  by (simp_all add: tries_def passes_def)

lemma refill_bucket_bounds:
  fixes b :: rate_bucket and now :: i64 and capacity :: u32
  assumes "0 \<le> rb_level b" "rb_level b \<le> cap" "cap < 2 ^ 63"
  defines "b' \<equiv> refill_bucket b now capacity cap"
  shows "rb_level b \<le> rb_level b'" "rb_level b' \<le> cap" "rb_last_refill b' = max (rb_last_refill b) now"
    "rb_level b' \<le> rb_level b + int capacity * (rb_last_refill b' - rb_last_refill b)"
proof -
  let ?e = "sat_i64 (now - rb_last_refill b)"
  let ?c = "sat_i64 (?e * int capacity)"
  have e: "?e \<le> 0 \<longleftrightarrow> now \<le> rb_last_refill b" by (auto simp: sat_i64_def min_def)
  show "rb_last_refill b' = max (rb_last_refill b) now"
    using e by (auto simp: b'_def refill_bucket_def Let_def)
  have c: "0 \<le> ?c \<and> ?c \<le> (now - rb_last_refill b) * int capacity" if "\<not> ?e \<le> 0"
  proof -
    have "0 \<le> ?e" "?e \<le> now - rb_last_refill b" using that e sat_i64_le [of "now - rb_last_refill b"] by auto
    then have "0 \<le> ?e * int capacity" "?e * int capacity \<le> (now - rb_last_refill b) * int capacity"
      by (auto intro: mult_right_mono)
    then show ?thesis using sat_i64_le [of "?e * int capacity"] by linarith
  qed
  have s: "rb_level b \<le> sat_i64 (rb_level b + ?c) \<and> sat_i64 (rb_level b + ?c) \<le> rb_level b + ?c" if "\<not> ?e \<le> 0"
    using c [OF that] assms(1-3) unfolding sat_i64_def by linarith
  show "rb_level b \<le> rb_level b'" using s assms by (auto simp: b'_def refill_bucket_def Let_def)
  show "rb_level b' \<le> cap" using assms by (auto simp: b'_def refill_bucket_def Let_def)
  show "rb_level b' \<le> rb_level b + int capacity * (rb_last_refill b' - rb_last_refill b)"
    using s c by (auto simp: b'_def refill_bucket_def Let_def mult.commute min_def)
qed

text \<open>A bucket that counts as refilled would be full by now.\<close>

lemma refilled_full:
  assumes "\<not> not_refilled now capacity cap b" "0 \<le> rb_level b"
  shows "cap \<le> rb_level b + int capacity * max 0 (now - rb_last_refill b)"
proof -
  let ?e = "max (sat_i64 (now - rb_last_refill b)) 0"
  have e: "0 \<le> ?e" "?e \<le> max 0 (now - rb_last_refill b)" by (auto simp: sat_i64_def)
  then have c: "0 \<le> ?e * int capacity" "?e * int capacity \<le> max 0 (now - rb_last_refill b) * int capacity"
    by (auto intro: mult_right_mono)
  have "cap \<le> sat_i64 (rb_level b + sat_i64 (?e * int capacity))"
    using assms(1) by (simp add: not_refilled_def Let_def)
  then show ?thesis
    using sat_i64_le [OF c(1)] sat_i64_le [of "rb_level b + sat_i64 (?e * int capacity)"] c(2) assms(2)
    by (simp add: mult.commute)
qed

subsubsection \<open>Making room\<close>

text \<open>What is dropped to make room was refilled, or was the stalest that was not; what stays is untouched.\<close>

lemma map_of_filter_None:
  "distinct (map fst al) \<Longrightarrow> map_of (filter (\<lambda>(k, b). P b) al) k = None \<longleftrightarrow> map_of al k = None \<or> (\<exists>b. map_of al k = Some b \<and> \<not> P b)"
  by (induction al) (auto simp: map_of_eq_None_iff split: if_splits dest: map_of_SomeD)

lemma map_of_filter_Some:
  "distinct (map fst al) \<Longrightarrow> map_of (filter P al) k = Some b \<longleftrightarrow> map_of al k = Some b \<and> P (k, b)"
  by (simp add: distinct_map_filter)

lemma make_room_keeps:
  assumes "distinct (map fst bs)"
  shows "distinct (map fst (make_room bs now capacity cap m))"
    "map_of (make_room bs now capacity cap m) k = Some b \<Longrightarrow> map_of bs k = Some b"
    "length bs < m \<Longrightarrow> make_room bs now capacity cap m = bs"
proof -
  let ?kept = "filter (\<lambda>(_, b). not_refilled now capacity cap b) bs"
  have d: "distinct (map fst ?kept)" using assms by (rule distinct_map_filter)
  have k: "map_of ?kept k = Some b \<Longrightarrow> map_of bs k = Some b" for k b
    using map_of_filter_Some [OF assms] by blast
  show "distinct (map fst (make_room bs now capacity cap m))"
    using assms d by (auto simp: make_room_def Let_def distinct_delete split: option.splits prod.splits)
  show "map_of (make_room bs now capacity cap m) k = Some b \<Longrightarrow> map_of bs k = Some b"
    using k by (auto simp: make_room_def Let_def delete_conv' split: option.splits prod.splits if_splits)
  show "length bs < m \<Longrightarrow> make_room bs now capacity cap m = bs" by (simp add: make_room_def)
qed

lemma update_twice: "AList.update k v (AList.update k u al) = AList.update k v al"
  by (induction al) auto

text \<open>One call: the source's bucket is its own or a fresh full one, and no other bucket changes but may be dropped.\<close>

lemma check_rate_bucket:
  assumes "distinct (map fst bs)" "check_registration_rate bs s now capacity window m = (bs', ok)"
    "0 < window" "int capacity * window < 2 ^ 63"
  defines "b0 \<equiv> (case map_of bs s of None \<Rightarrow> \<lparr>rb_level = int capacity * window, rb_last_refill = now\<rparr> | Some b \<Rightarrow> b)"
  defines "b \<equiv> refill_bucket b0 now capacity (int capacity * window)"
  shows "ok \<longleftrightarrow> window \<le> rb_level b" "distinct (map fst bs')"
    "map_of bs' s = Some (if ok then b\<lparr>rb_level := rb_level b - window\<rparr> else b)"
    "k \<noteq> s \<Longrightarrow> map_of bs' k = map_of bs k \<or> map_of bs' k = None"
    "length bs < m \<Longrightarrow> k \<noteq> s \<Longrightarrow> map_of bs' k = map_of bs k"
proof -
  have cap: "sat_i64 (int capacity * window) = int capacity * window"
    using assms(3,4) by (intro sat_i64_id) (auto intro: order_trans [of _ 0])
  let ?room = "if map_of bs s = None then make_room bs now capacity (int capacity * window) m else bs"
  note room = make_room_keeps [OF assms(1), where now = now and capacity = capacity and cap = "int capacity * window" and m = m]
  have eq: "(bs', ok) = (if rb_level b < window then (AList.update s b ?room, False)
      else (AList.update s (b\<lparr>rb_level := rb_level b - window\<rparr>) ?room, True))"
    unfolding assms(2) [symmetric] check_registration_rate_def cap Let_def b_def b0_def
    by (cases "map_of bs s") (simp_all add: update_conv' update_twice)
  have d: "distinct (map fst ?room)" using room(1) assms(1) by simp
  have keep: "map_of ?room k = map_of bs k \<or> map_of ?room k = None" for k
    using room(2) [of k] by (cases "map_of bs s = None"; cases "map_of (make_room bs now capacity (int capacity * window) m) k") auto
  show "ok \<longleftrightarrow> window \<le> rb_level b" using eq by (auto split: if_splits)
  show "distinct (map fst bs')" using eq d by (auto simp: distinct_update split: if_splits)
  show "map_of bs' s = Some (if ok then b\<lparr>rb_level := rb_level b - window\<rparr> else b)"
    using eq by (auto simp: update_conv' split: if_splits)
  have frame: "k \<noteq> s \<Longrightarrow> map_of bs' k = map_of ?room k"
    using eq by (auto simp: update_conv' split: if_splits)
  then show "k \<noteq> s \<Longrightarrow> map_of bs' k = map_of bs k \<or> map_of bs' k = None" using keep [of k] by simp
  show "length bs < m \<Longrightarrow> k \<noteq> s \<Longrightarrow> map_of bs' k = map_of bs k" using frame room(3) by simp
qed

lemma deficits_forgotten:
  assumes "distinct (map fst bs)"
  shows "deficits k (forgotten capacity window now bs bs') =
    (case map_of bs k of Some b \<Rightarrow> if map_of bs' k = None \<and> not_refilled now capacity (int capacity * window) b then 1 else 0 | None \<Rightarrow> 0)"
  using assms
proof (induction bs)
  case (Cons x bs)
  have "deficits k (forgotten capacity window now bs bs') = 0" if "k \<notin> fst ` set bs"
    using that by (auto simp: deficits_def forgotten_def filter_empty_conv)
  with Cons show ?case
    by (cases x) (auto simp: deficits_def forgotten_def map_of_eq_None_iff split: option.splits)
qed (simp add: deficits_def forgotten_def)

subsubsection \<open>The potential of a source\<close>

text \<open>
  What a source has passed, the level of its bucket and the credit the bucket has not been given yet never exceed one
  burst for every life of its bucket and what the clock has refilled.
\<close>

definition source_inv :: "u32 \<Rightarrow> i64 \<Rightarrow> i64 \<Rightarrow> int \<Rightarrow> nat \<Rightarrow> nat \<Rightarrow> nat \<Rightarrow> rate_bucket option \<Rightarrow> bool" where
  "source_inv capacity window t gone tried passed lost bucket \<longleftrightarrow>
     (tried \<le> capacity \<longrightarrow> passed = tried)
     \<and> (case bucket of
          None \<Rightarrow> int passed * window \<le> int lost * (int capacity * window) + int capacity * gone
        | Some b \<Rightarrow> 0 \<le> rb_level b \<and> rb_level b \<le> int capacity * window
            \<and> int capacity * window - window * int tried \<le> rb_level b
            \<and> int passed * window + rb_level b + int capacity * max 0 (t - rb_last_refill b)
              \<le> (1 + int lost) * (int capacity * window) + int capacity * gone)"

text \<open>The clock moves on; a bucket is dropped; a bucket is refilled and asked.\<close>

lemma source_inv_clock:
  assumes "source_inv capacity window t gone tried passed lost bucket"
  shows "source_inv capacity window now (gone + max 0 (now - t)) tried passed lost bucket"
proof -
  define e where "e = int capacity * max 0 (now - t)"
  have e: "0 \<le> e" "int capacity * (gone + max 0 (now - t)) = int capacity * gone + e" by (simp_all add: e_def distrib_left)
  have m: "int capacity * max 0 (now - r) \<le> int capacity * max 0 (t - r) + e" for r
    unfolding e_def distrib_left [symmetric] by (intro mult_left_mono) auto
  show ?thesis
  proof (cases bucket)
    case None
    then show ?thesis using assms e(1) by (simp add: source_inv_def e(2))
  next
    case (Some b)
    then show ?thesis using assms m [of "rb_last_refill b"] by (simp add: source_inv_def e(2))
  qed
qed

lemma source_inv_dropped:
  assumes "source_inv capacity window now gone tried passed lost (Some b)"
  shows "source_inv capacity window now gone tried passed
     (lost + (if not_refilled now capacity (int capacity * window) b then 1 else 0)) None"
proof (cases "not_refilled now capacity (int capacity * window) b")
  case True
  have "0 \<le> int capacity * max 0 (now - rb_last_refill b)" by simp
  then have "int passed * window \<le> (1 + int lost) * (int capacity * window) + int capacity * gone"
    using assms unfolding source_inv_def option.case by linarith
  then show ?thesis using assms True by (simp add: source_inv_def add.commute)
next
  case False
  then show ?thesis using assms refilled_full [OF False] by (auto simp: source_inv_def algebra_simps)
qed

lemma source_inv_asked:
  assumes "source_inv capacity window now gone tried passed lost bucket" "0 < window" "int capacity * window < 2 ^ 63"
  defines "b0 \<equiv> (case bucket of None \<Rightarrow> \<lparr>rb_level = int capacity * window, rb_last_refill = now\<rparr> | Some b \<Rightarrow> b)"
  defines "b \<equiv> refill_bucket b0 now capacity (int capacity * window)"
  defines "ok \<equiv> window \<le> rb_level b"
  shows "source_inv capacity window now gone (Suc tried) (if ok then Suc passed else passed) lost
     (Some (if ok then b\<lparr>rb_level := rb_level b - window\<rparr> else b))"
proof -
  have i: "0 \<le> rb_level b0" "rb_level b0 \<le> int capacity * window" "tried \<le> capacity \<Longrightarrow> passed = tried"
    "int capacity * window - window * int tried \<le> rb_level b0"
    "int passed * window + rb_level b0 + int capacity * max 0 (now - rb_last_refill b0)
      \<le> (1 + int lost) * (int capacity * window) + int capacity * gone"
    using assms(1,2) by (auto simp: source_inv_def b0_def algebra_simps split: option.splits)
  note r = refill_bucket_bounds [OF i(1,2) assms(3), of now capacity, folded b_def]
  have "max 0 (now - rb_last_refill b) = 0" "rb_last_refill b - rb_last_refill b0 = max 0 (now - rb_last_refill b0)" using r(3) by auto
  then have pot: "int passed * window + rb_level b + int capacity * max 0 (now - rb_last_refill b)
      \<le> (1 + int lost) * (int capacity * window) + int capacity * gone"
    using i(5) r(4) by simp
  have full: "ok" if "Suc tried \<le> capacity"
  proof -
    have "window * (int tried + 1) \<le> window * int capacity" using that assms(2) by (intro mult_left_mono) auto
    then show ?thesis unfolding ok_def using i(4) r(1) by (simp add: algebra_simps)
  qed
  show ?thesis
  proof (cases ok)
    case True
    then show ?thesis using i(3,4) r(1,2) pot assms(2) by (auto simp: source_inv_def ok_def algebra_simps)
  next
    case False
    then show ?thesis using full i(1,4) r(1,2) pot assms(2) by (auto simp: source_inv_def algebra_simps)
  qed
qed

definition rate_inv :: "u32 \<Rightarrow> i64 \<Rightarrow> i64 \<Rightarrow> int \<Rightarrow> rate_run \<Rightarrow> bool" where
  "rate_inv capacity window t gone st \<longleftrightarrow> (case st of (bs, ls, fs) \<Rightarrow> distinct (map fst bs)
     \<and> (\<forall>k. source_inv capacity window t gone (tries k ls) (passes k ls) (deficits k fs) (map_of bs k)))"

lemma rate_step_keeps:
  assumes "rate_inv capacity window t gone st" "0 < window" "int capacity * window < 2 ^ 63"
  shows "rate_inv capacity window (snd call) (gone + max 0 (snd call - t)) (rate_step capacity window m call st)"
proof -
  obtain s now where call: "call = (s, now)" by (cases call)
  obtain bs ls fs where st: "st = (bs, ls, fs)" by (cases st)
  obtain bs' ok where c: "check_registration_rate bs s now capacity window m = (bs', ok)" by (metis surj_pair)
  let ?gone = "gone + max 0 (now - t)" and ?fs = "fs @ forgotten capacity window now bs bs'"
  have d: "distinct (map fst bs)" using assms(1) by (simp add: rate_inv_def st)
  have i: "source_inv capacity window now ?gone (tries k ls) (passes k ls) (deficits k fs) (map_of bs k)" for k
    using assms(1) by (intro source_inv_clock) (simp add: rate_inv_def st)
  note k = check_rate_bucket [OF d c assms(2,3)]
  have f: "deficits k ?fs = deficits k fs + deficits k (forgotten capacity window now bs bs')" for k
    by (simp add: deficits_def)
  have "source_inv capacity window now ?gone (tries k (ls @ [(s, ok)])) (passes k (ls @ [(s, ok)])) (deficits k ?fs) (map_of bs' k)" for k
  proof (cases "k = s")
    case True
    have "deficits s (forgotten capacity window now bs bs') = 0"
      using k(3) by (simp add: deficits_forgotten [OF d] split: option.splits)
    then show ?thesis
      using source_inv_asked [OF i [of s] assms(2,3)] k(1,3) unfolding True f log_snoc by simp
  next
    case False
    consider "map_of bs' k = map_of bs k" | b where "map_of bs k = Some b" "map_of bs' k = None"
      using k(4) [OF False] by fastforce
    then show ?thesis
    proof cases
      case 1
      then have "deficits k (forgotten capacity window now bs bs') = 0"
        by (simp add: deficits_forgotten [OF d] split: option.splits)
      then show ?thesis using i [of k] 1 False unfolding f log_snoc by simp
    next
      case 2
      then show ?thesis using source_inv_dropped i [of k] False unfolding f log_snoc deficits_forgotten [OF d] by fastforce
    qed
  qed
  then show ?thesis using k(2) by (simp add: rate_inv_def rate_step_def call st c)
qed

lemma rate_run_keeps:
  assumes "rate_inv capacity window t gone st" "0 < window" "int capacity * window < 2 ^ 63"
  shows "\<exists>u. rate_inv capacity window u (gone + advance t (map snd calls)) (fold (rate_step capacity window m) calls st)"
  using assms(1)
proof (induction calls arbitrary: t gone st)
  case (Cons c cs)
  from Cons.IH [OF rate_step_keeps [OF Cons.prems assms(2,3), of c m]] show ?case by (simp add: add.assoc)
qed auto

text \<open>With a bucket for every source nothing is ever dropped.\<close>

lemma rate_run_room:
  assumes "card A \<le> m" "finite A" "fst ` set calls \<subseteq> A" "0 < window" "int capacity * window < 2 ^ 63"
    and "fst ` set bs \<subseteq> A" "distinct (map fst bs)" "fold (rate_step capacity window m) calls (bs, ls, fs) = (bs', ls', fs')"
  shows "fs' = fs"
  using assms(3,6-)
proof (induction calls arbitrary: bs ls fs)
  case (Cons c cs)
  obtain s now where call: "c = (s, now)" by (cases c)
  obtain bs1 ok where c: "check_registration_rate bs s now capacity window m = (bs1, ok)" by (metis surj_pair)
  note k = check_rate_bucket [OF Cons.prems(3) c assms(4,5)]
  have s: "s \<in> A" using Cons.prems(1) by (simp add: call)
  have kept: "map_of bs1 k = map_of bs k" if "k \<noteq> s" for k
  proof (cases "map_of bs s")
    case None
    then have "fst ` set bs \<subset> A" using Cons.prems(2) s by (auto simp: map_of_eq_None_iff)
    then have "card (fst ` set bs) < card A" using assms(2) by (rule psubset_card_mono [rotated])
    moreover have "card (fst ` set bs) = length bs" using Cons.prems(3) by (metis distinct_card length_map set_map)
    ultimately show ?thesis using k(5) that assms(1) by simp
  next
    case (Some b)
    then show ?thesis using c that by (auto simp: check_registration_rate_def Let_def update_conv' split: if_splits)
  qed
  have "map_of bs1 k \<noteq> None \<longrightarrow> k \<in> A" for k
    using kept [of k] s Cons.prems(2) by (cases "k = s") (auto simp: map_of_eq_None_iff)
  then have sub: "fst ` set bs1 \<subseteq> A" by (auto simp: map_of_eq_None_iff image_iff)
  have "map_of bs1 k = None \<Longrightarrow> map_of bs k = None" for k using kept [of k] k(3) by (cases "k = s") auto
  then have "forgotten capacity window now bs bs1 = []"
    by (force simp: forgotten_def filter_empty_conv map_of_eq_None_iff)
  then have "rate_step capacity window m (s, now) (bs, ls, fs) = (bs1, ls @ [(s, ok)], fs)" by (simp add: rate_step_def c)
  then have "fold (rate_step capacity window m) cs (bs1, ls @ [(s, ok)], fs) = (bs', ls', fs')"
    using Cons.prems(4) by (simp add: call)
  then show ?case using Cons.IH [OF _ sub k(2)] Cons.prems(1) by simp
qed simp

text \<open>
  Property C37. The rate limiter is exact at both ends, however many sources there are and however its clock jumps. A
  source passes at most its burst, once more for every time its bucket was evicted before it had refilled, plus what
  the forward movement of the clock refills at the configured rate; a bucket dropped because it had refilled costs
  nothing. Nothing is evicted while the sources are no more than the buckets. And a source that has asked no more
  often than the burst allows has never been refused.
\<close>

theorem rate_limit_two_sided:
  assumes "0 < window" "int capacity * window < 2 ^ 63" "fold (rate_step capacity window m) calls ([], [], []) = (bs, ls, fs)"
  shows "int (passes s ls) * window \<le> int capacity * (window * (1 + int (deficits s fs)) + advance t0 (map snd calls))
    \<and> (card (fst ` set calls) \<le> m \<longrightarrow> fs = [])
    \<and> (tries s ls \<le> capacity \<longrightarrow> passes s ls = tries s ls)"
proof -
  have "rate_inv capacity window t0 0 ([], [], [])"
    by (simp add: rate_inv_def source_inv_def tries_def passes_def deficits_def)
  from rate_run_keeps [OF this assms(1,2), of calls m] obtain u
    where "rate_inv capacity window u (advance t0 (map snd calls)) (bs, ls, fs)" unfolding assms(3) by auto
  then have I: "source_inv capacity window u (advance t0 (map snd calls)) (tries s ls) (passes s ls) (deficits s fs) (map_of bs s)"
    by (simp add: rate_inv_def)
  have "int (passes s ls) * window \<le> (1 + int (deficits s fs)) * (int capacity * window) + int capacity * advance t0 (map snd calls)"
  proof (cases "map_of bs s")
    case None
    have "0 \<le> int capacity * window" using assms(1) by simp
    with I [unfolded None] show ?thesis unfolding source_inv_def distrib_right option.case by linarith
  next
    case (Some b)
    have "0 \<le> int capacity * max 0 (u - rb_last_refill b)" by simp
    with I [unfolded Some] show ?thesis unfolding source_inv_def option.case by linarith
  qed
  then have "int (passes s ls) * window \<le> int capacity * (window * (1 + int (deficits s fs)) + advance t0 (map snd calls))"
    by (simp add: algebra_simps)
  moreover have "fs = []" if "card (fst ` set calls) \<le> m"
    using rate_run_room [OF that _ _ assms(1,2) _ _ assms(3)] by simp
  ultimately show ?thesis using I by (simp add: source_inv_def)
qed

text \<open>One bucket, two sources in turn: the first passes twice at one instant, a deficit of its having been forgotten.\<close>

theorem rate_limit_two_sided_witness:
  "let (bs, ls, fs) = fold (rate_step 1 60 1) [(V4 7, 100), (V4 9, 100), (V4 7, 100)] ([], [], [])
   in deficits (V4 7) fs = 1 \<and> passes (V4 7) ls = 2 \<and> int (passes (V4 7) ls) * 60 \<le> int 1 * (60 * (1 + int (deficits (V4 7) fs)) + 0)"
proof -
  let ?a = "\<lambda>t. (V4 7, \<lparr>rb_level = 0, rb_last_refill = t\<rparr>)" and ?b = "(V4 9, \<lparr>rb_level = 0, rb_last_refill = 100\<rparr>)"
  have "check_registration_rate [] (V4 7) 100 1 60 1 = ([?a 100], True)"
    "check_registration_rate [?a 100] (V4 9) 100 1 60 1 = ([?b], True)"
    "check_registration_rate [?b] (V4 7) 100 1 60 1 = ([?a 100], True)"
    by (simp_all add: check_registration_rate_def make_room_def not_refilled_def refill_bucket_def sat_i64_def)
  then have run: "fold (rate_step 1 60 1) [(V4 7, 100), (V4 9, 100), (V4 7, 100)] ([], [], [])
      = ([?a 100], [(V4 7, True), (V4 9, True), (V4 7, True)], [V4 7, V4 9])"
    by (simp add: rate_step_def forgotten_def not_refilled_def sat_i64_def)
  show ?thesis
    using rate_limit_two_sided [OF _ _ run, of "V4 7" 100] unfolding run by (simp add: deficits_def passes_def)
qed

subsection \<open>Network masks\<close>

lemma mask_iff:
  fixes a b :: "'w::len word"
  assumes "n \<le> LENGTH('w)"
  shows "a AND push_bit n (- 1) = b AND push_bit n (- 1) \<longleftrightarrow> drop_bit n a = drop_bit n b"
proof -
  have "a AND push_bit n (- 1) = push_bit n (drop_bit n a)" for a :: "'w word"
    by (rule bit_word_eqI) (auto simp: bit_simps)
  moreover have "push_bit n (drop_bit n a) = push_bit n (drop_bit n b) \<longleftrightarrow> drop_bit n a = drop_bit n b"
  proof
    assume "push_bit n (drop_bit n a) = push_bit n (drop_bit n b)"
    then have "drop_bit n (push_bit n (drop_bit n a)) = drop_bit n (push_bit n (drop_bit n b))" by simp
    then show "drop_bit n a = drop_bit n b"
      by (auto simp: bit_eq_iff bit_simps) (metis add.commute bit_imp_le_length)+
  qed simp
  ultimately show ?thesis by simp
qed

lemma drop_all_bits: "drop_bit LENGTH('w) (a :: 'w::len word) = 0"
  by (rule bit_word_eqI) (auto simp: bit_simps dest: bit_imp_le_length)

lemma masked_iff:
  fixes a b :: "'w::len word"
  assumes "p \<le> LENGTH('w)"
  shows "a AND (if p = 0 then 0 else push_bit (LENGTH('w) - p) (- 1)) = b AND (if p = 0 then 0 else push_bit (LENGTH('w) - p) (- 1))
    \<longleftrightarrow> drop_bit (LENGTH('w) - p) a = drop_bit (LENGTH('w) - p) b"
  by (cases "p = 0") (simp_all only: mask_iff drop_all_bits if_True if_False and_zero_eq diff_zero diff_le_self refl)

definition same_network :: "trusted_cidr \<Rightarrow> ip_addr \<Rightarrow> bool" where
  "same_network c peer \<longleftrightarrow>
     (\<exists>net p. tc_network c = V4 net \<and> peer = V4 p \<and> drop_bit (32 - tc_prefix c) net = drop_bit (32 - tc_prefix c) p)
     \<or> (\<exists>net p. tc_network c = V6 net \<and> peer = V6 p \<and> drop_bit (128 - tc_prefix c) net = drop_bit (128 - tc_prefix c) p)"

definition cidr_ok :: "trusted_cidr \<Rightarrow> bool" where
  "cidr_ok c \<longleftrightarrow> tc_prefix c \<le> (if is_ipv4 (tc_network c) then 32 else 128)"

lemma cidr_contains_iff:
  assumes "cidr_ok c"
  shows "cidr_contains c peer \<longleftrightarrow> same_network c peer"
proof (cases "tc_network c")
  case (V4 net)
  have "LENGTH(32) = 32" by simp
  note m = masked_iff [where 'w = 32, of "tc_prefix c" net, unfolded this]
  show ?thesis
    using assms m V4 by (cases peer) (simp_all add: cidr_contains_def same_network_def cidr_ok_def is_ipv4_def Let_def)
next
  case (V6 net)
  have "LENGTH(128) = 128" by simp
  note m = masked_iff [where 'w = 128, of "tc_prefix c" net, unfolded this]
  show ?thesis
    using assms m V6 by (cases peer) (simp_all add: cidr_contains_def same_network_def cidr_ok_def is_ipv4_def Let_def)
qed

lemma parse_trusted_entry_ok: "parse_trusted_entry T e = Inr c \<Longrightarrow> cidr_ok c"
  by (auto simp: parse_trusted_entry_def cidr_ok_def Let_def split: if_splits option.splits)

lemma parse_trusted_proxies_ok: "parse_trusted_proxies T es = Inr cs \<Longrightarrow> \<forall>c\<in>set cs. cidr_ok c"
proof (induction es arbitrary: cs)
  case (Cons e es)
  then show ?case by (auto split: if_splits sum.splits dest: parse_trusted_entry_ok)
qed simp

subsection \<open>The source address\<close>

lemma select_through_trusted:
  "\<forall>p\<in>set ps. proxies_contain trusted p \<Longrightarrow>
   select_untrusted_hop (map Some ps @ hops) peer trusted = select_untrusted_hop hops peer trusted"
  by (induction ps) auto

text \<open>Every chain of hops ends, seen from the peer, at a first hop no trusted proxy vouches for, or has none.\<close>

definition first_untrusted :: "trusted_cidr list \<Rightarrow> ip_addr option list \<Rightarrow> ip_addr option \<Rightarrow> bool" where
  "first_untrusted trusted hops hop \<longleftrightarrow>
     (\<exists>far proxies. hops = far @ hop # map Some proxies \<and> (\<forall>p\<in>set proxies. proxies_contain trusted p))
     \<and> (\<forall>a. hop = Some a \<longrightarrow> \<not> proxies_contain trusted a)"

definition all_trusted :: "trusted_cidr list \<Rightarrow> ip_addr option list \<Rightarrow> bool" where
  "all_trusted trusted hops \<longleftrightarrow> (\<forall>h\<in>set hops. \<exists>p. h = Some p \<and> proxies_contain trusted p)"

lemma select_first_untrusted:
  assumes "first_untrusted trusted hops hop"
  shows "select_untrusted_hop (rev hops) peer trusted = (case hop of None \<Rightarrow> peer | Some a \<Rightarrow> a)"
proof -
  obtain far proxies where h: "hops = far @ hop # map Some proxies" "\<forall>p\<in>set proxies. proxies_contain trusted p"
    using assms by (auto simp: first_untrusted_def)
  then have "rev hops = map Some (rev proxies) @ hop # rev far" by (simp add: rev_map)
  moreover have "select_untrusted_hop (map Some (rev proxies) @ hop # rev far) peer trusted = select_untrusted_hop (hop # rev far) peer trusted"
    using h(2) by (intro select_through_trusted) simp
  ultimately show ?thesis using assms by (cases hop) (simp_all add: first_untrusted_def)
qed

lemma select_all_trusted: "all_trusted trusted hops \<Longrightarrow> select_untrusted_hop (rev hops) peer trusted = peer"
proof (induction hops rule: rev_induct)
  case (snoc h hops)
  then obtain p where "h = Some p" "proxies_contain trusted p" by (auto simp: all_trusted_def)
  with snoc show ?case by (simp add: all_trusted_def)
qed simp

text \<open>The chain is exhaustive: one of the two applies to every list of hops.\<close>

lemma hop_decided: "all_trusted trusted hops \<or> (\<exists>hop. first_untrusted trusted hops hop)"
proof (induction hops rule: rev_induct)
  case (snoc h hops)
  show ?case
  proof (cases "\<exists>p. h = Some p \<and> proxies_contain trusted p")
    case True
    then obtain p where p: "h = Some p" "proxies_contain trusted p" by blast
    have "first_untrusted trusted (hops @ [h]) hop" if u: "first_untrusted trusted hops hop" for hop
    proof -
      obtain far proxies where "hops = far @ hop # map Some proxies" "\<forall>p\<in>set proxies. proxies_contain trusted p"
        using u by (auto simp: first_untrusted_def)
      then have "hops @ [h] = far @ hop # map Some (proxies @ [p])" "\<forall>q\<in>set (proxies @ [p]). proxies_contain trusted q"
        using p by simp_all
      then show ?thesis using u unfolding first_untrusted_def by blast
    qed
    with snoc p show ?thesis by (auto simp: all_trusted_def)
  next
    case False
    then have "first_untrusted trusted (hops @ [h]) h"
      unfolding first_untrusted_def by (intro conjI exI [of _ hops] exI [of _ "[]"]) auto
    then show ?thesis by blast
  qed
qed (simp add: all_trusted_def)

text \<open>Hops are read in the order of the header lines, and of the commas within a line.\<close>

lemma header_items_append:
  "header_items (hs @ [(name, v)]) name = header_items hs name @ (case header_text v of Some t \<Rightarrow> split_on (CHR '','') t | None \<Rightarrow> [])"
  by (simp add: header_items_def header_all_def List.map_filter_def header_text_def split: option.splits)

lemma header_items_other: "n \<noteq> name \<Longrightarrow> header_items (hs @ [(n, v)]) name = header_items hs name"
  by (simp add: header_items_def header_all_def)

definition hops_of :: "ip_text \<Rightarrow> header_map \<Rightarrow> ip_addr option list" where
  "hops_of T hs = (if header_get hs ''x-forwarded-for'' \<noteq> None then parse_xff_nodes T hs else parse_forwarded_for_nodes T hs)"

text \<open>
  Property C38. The source address is the one the trust boundary saw. The proxy list accepted at start-up trusts a peer
  exactly when the peer shares the network prefix of one of its entries. A peer outside it is taken at its own
  address, whatever headers it sends. Behind a trusted peer one header is authoritative, \<^verbatim>\<open>X-Forwarded-For\<close> when
  there is any and \<^verbatim>\<open>Forwarded\<close> else, and in either the source is the last hop that is not a trusted proxy, whatever
  stands before it; it is the peer when that hop cannot be read, or when every hop is trusted; and one of these
  always is the case. A line appended to the authoritative header adds its hops at the near end, in their order. So
  what a client puts in front of a proxy's entry counts for nothing; but whoever writes the first
  \<^verbatim>\<open>X-Forwarded-For\<close> behind a proxy that appends to \<^verbatim>\<open>Forwarded\<close> alone chooses the source.
\<close>

theorem source_ip_from_authoritative_chain:
  assumes "parse_trusted_proxies T entries = Inr trusted"
  shows "(proxies_contain trusted a \<longleftrightarrow> (\<exists>c\<in>set trusted. same_network c a))
    \<and> (\<not> proxies_contain trusted peer \<longrightarrow> resolve_source_ip T peer hs trusted = peer)
    \<and> (proxies_contain trusted peer \<longrightarrow>
         (\<forall>hop. first_untrusted trusted (hops_of T hs) hop \<longrightarrow>
            resolve_source_ip T peer hs trusted = (case hop of None \<Rightarrow> peer | Some client \<Rightarrow> client))
         \<and> (all_trusted trusted (hops_of T hs) \<longrightarrow> resolve_source_ip T peer hs trusted = peer)
         \<and> (all_trusted trusted (hops_of T hs) \<or> (\<exists>hop. first_untrusted trusted (hops_of T hs) hop)))
    \<and> (header_text v = Some v \<longrightarrow>
         hops_of T (hs @ [(''x-forwarded-for'', v)]) = parse_xff_nodes T hs @ map (parse_forwarded_node T) (split_on (CHR '','') v)
         \<and> (header_get hs ''x-forwarded-for'' = None \<longrightarrow>
              hops_of T (hs @ [(''forwarded'', v)]) = hops_of T hs @ map (parse_forwarded_element T) (split_on (CHR '','') v)))"
proof (intro conjI impI)
  show "proxies_contain trusted a \<longleftrightarrow> (\<exists>c\<in>set trusted. same_network c a)"
    using parse_trusted_proxies_ok [OF assms] by (auto simp: proxies_contain_def list_ex_iff cidr_contains_iff)
  show "\<not> proxies_contain trusted peer \<Longrightarrow> resolve_source_ip T peer hs trusted = peer"
    by (simp add: resolve_source_ip_def)
  have sel: "resolve_source_ip T peer hs trusted = select_untrusted_hop (rev (hops_of T hs)) peer trusted" if "proxies_contain trusted peer"
    using that by (simp add: resolve_source_ip_def hops_of_def Let_def)
  show "\<forall>hop. first_untrusted trusted (hops_of T hs) hop \<longrightarrow>
      resolve_source_ip T peer hs trusted = (case hop of None \<Rightarrow> peer | Some client \<Rightarrow> client)" if "proxies_contain trusted peer"
    using sel [OF that] select_first_untrusted by metis
  show "resolve_source_ip T peer hs trusted = peer" if "proxies_contain trusted peer" "all_trusted trusted (hops_of T hs)"
    using sel [OF that(1)] select_all_trusted [OF that(2)] by simp
  show "all_trusted trusted (hops_of T hs) \<or> (\<exists>hop. first_untrusted trusted (hops_of T hs) hop)" by (rule hop_decided)
  show "hops_of T (hs @ [(''x-forwarded-for'', v)]) = parse_xff_nodes T hs @ map (parse_forwarded_node T) (split_on (CHR '','') v)"
    if "header_text v = Some v"
    using that by (simp add: hops_of_def parse_xff_nodes_def header_items_append header_get_def map_add_def split: option.splits)
  show "hops_of T (hs @ [(''forwarded'', v)]) = hops_of T hs @ map (parse_forwarded_element T) (split_on (CHR '','') v)"
    if "header_text v = Some v" "header_get hs ''x-forwarded-for'' = None"
    using that by (simp add: hops_of_def parse_forwarded_for_nodes_def header_items_append header_get_def map_add_def)
qed

definition toy_text :: ip_text where
  "toy_text = \<lparr>parse_ip = map_of [(''10.0.0.0'', V4 0x0A000000), (''10.0.0.2'', V4 0x0A000002), (''6.6.6.6'', V4 0x06060606),
     (''7.7.7.7'', V4 0x07070707)], parse_socket = (\<lambda>_. None)\<rparr>"

lemma toy_trusted: "parse_trusted_proxies toy_text [''10.0.0.0/8''] = Inr [\<lparr>tc_network = V4 0x0A000000, tc_prefix = 8\<rparr>]"
  by (simp add: parse_trusted_entry_def trim_def is_space_def split_once.simps parse_u8_def parse_u128_def is_ascii_digit_def
      decimal_value_def digit_value_def toy_text_def is_ipv4_def of_char_def)

text \<open>The client in the middle of a chain, in either header; and the peer, for a hop that cannot be read.\<close>

lemma toy_hops:
  "hops_of toy_text [(''x-forwarded-for'', ''6.6.6.6, 7.7.7.7, 10.0.0.2'')] = [Some (V4 0x06060606)] @ Some (V4 0x07070707) # map Some [V4 0x0A000002]"
  "hops_of toy_text [(''forwarded'', ''for=6.6.6.6, for=7.7.7.7;proto=http, for=10.0.0.2'')]
    = [Some (V4 0x06060606)] @ Some (V4 0x07070707) # map Some [V4 0x0A000002]"
  "hops_of toy_text [(''x-forwarded-for'', ''7.7.7.7, unknown'')] = [Some (V4 0x07070707)] @ None # map Some []"
  by (simp_all add: hops_of_def header_get_def parse_xff_nodes_def parse_forwarded_for_nodes_def header_items_def header_all_def header_text_def
      parse_forwarded_node_def parse_forwarded_element_def trim_def is_space_def toy_text_def of_char_def List.map_filter_def split_once.simps
      eq_ignore_ascii_case_def)

theorem source_ip_from_authoritative_chain_witness:
  "let ip = (\<lambda>hs. resolve_source_ip toy_text (V4 0x0A000001) hs [\<lparr>tc_network = V4 0x0A000000, tc_prefix = 8\<rparr>]) in
     ip [(''x-forwarded-for'', ''6.6.6.6, 7.7.7.7, 10.0.0.2'')] = V4 0x07070707
     \<and> ip [(''forwarded'', ''for=6.6.6.6, for=7.7.7.7;proto=http, for=10.0.0.2'')] = V4 0x07070707
     \<and> ip [(''x-forwarded-for'', ''7.7.7.7, unknown'')] = V4 0x0A000001"
proof -
  let ?tr = "[\<lparr>tc_network = V4 0x0A000000, tc_prefix = 8\<rparr>]"
  have trust: "proxies_contain ?tr (V4 0x0A000001)" "proxies_contain ?tr (V4 0x0A000002)" "\<not> proxies_contain ?tr (V4 0x07070707)"
    by (simp_all add: proxies_contain_def cidr_contains_iff cidr_ok_def is_ipv4_def same_network_def)
  then have u: "first_untrusted ?tr ([Some (V4 0x06060606)] @ Some (V4 0x07070707) # map Some [V4 0x0A000002]) (Some (V4 0x07070707))"
    "first_untrusted ?tr ([Some (V4 0x07070707)] @ None # map Some []) None"
    unfolding first_untrusted_def by fastforce+
  have ip: "resolve_source_ip toy_text (V4 0x0A000001) hs ?tr = (case hop of None \<Rightarrow> V4 0x0A000001 | Some client \<Rightarrow> client)"
    if "first_untrusted ?tr (hops_of toy_text hs) hop" for hs hop
    using source_ip_from_authoritative_chain [OF toy_trusted] trust(1) that by blast
  show ?thesis unfolding Let_def
    using ip [OF u(1) [folded toy_hops(1)]] ip [OF u(1) [folded toy_hops(2)]] ip [OF u(2) [folded toy_hops(3)]] by (simp only: option.case simp_thms)
qed

subsection \<open>Challenges\<close>

text \<open>
  Minting never lets the table grow past its cap, records the new nonce with its time, and takes nothing
  from the others unless the table is full, and then an expired one or the oldest.
\<close>

lemma mint_bounded:
  assumes "distinct (map fst cs)" "length cs \<le> m" "0 < m" "mint_register_challenge (Some nonce) cs now m = (cs', Some n)"
  shows "n = nonce \<and> distinct (map fst cs') \<and> length cs' \<le> m \<and> map_of cs' nonce = Some now
    \<and> (length cs < m \<longrightarrow> (\<forall>k. k \<noteq> nonce \<longrightarrow> map_of cs' k = map_of cs k))"
proof -
  define c1 where "c1 = (if length cs \<ge> m then filter (\<lambda>(_, issued). sat_i64 (now - issued) \<le> REGISTER_CHALLENGE_TTL_SECS) cs else cs)"
  define c2 where "c2 = (if length c1 \<ge> m then case min_by_key snd c1 of Some (oldest, _) \<Rightarrow> AList.delete oldest c1 | None \<Rightarrow> c1 else c1)"
  have cs': "cs' = AList.update nonce now c2" "n = nonce"
    using assms(4) unfolding mint_register_challenge_def Let_def option.case c1_def [symmetric] c2_def [symmetric] by auto
  have d1: "distinct (map fst c1)" "length c1 \<le> m"
    using assms(1,2) by (auto simp: c1_def distinct_map_filter intro: order_trans [OF length_filter_le])
  have "distinct (map fst c2) \<and> length c2 < m"
  proof (cases "length c1 \<ge> m")
    case True
    then obtain k t where k: "min_by_key snd c1 = Some (k, t)" "(k, t) \<in> set c1"
      using assms(3) min_by_key_Some [of snd c1] by (cases "min_by_key snd c1") auto
    then have "Suc (length (AList.delete k c1)) = length c1" using d1(1) by (intro length_delete) force+
    then show ?thesis using True d1 k by (simp add: c2_def distinct_delete)
  qed (use d1 in \<open>simp add: c2_def\<close>)
  moreover have "length (AList.update nonce now c2) \<le> Suc (length c2)"
    by (cases "map_of c2 nonce") (auto simp: length_update_new length_update_old)
  ultimately show ?thesis
    using cs' by (auto simp: distinct_update update_conv' c1_def c2_def split: if_splits)
qed

end
