(* ===== verification/Coordinator_Props.thy ===== *)
theory Coordinator_Props
  imports Mesh_Coordinator Store_Props Drain Registry_Props
begin

section \<open>What the coordinator guarantees\<close>

text \<open>
  The properties that span the gates, the registry, the store and the handlers: who can be credited for
  what, over HTTP and over a session; that a challenge registers once; that a session which lost its
  lease can do no harm and one that ends strands no job; and that every handler, in any interleaving,
  keeps the coordinator's state consistent.
\<close>

lemma on_store_simps [simp]:
  "as_store (fst (on_store f s)) = fst (f (as_store s))" "snd (on_store f s) = snd (f (as_store s))"
  "as_earners (fst (on_store f s)) = as_earners s" "as_config (fst (on_store f s)) = as_config s"
  "as_register_challenges (fst (on_store f s)) = as_register_challenges s"
  "as_registration_buckets (fst (on_store f s)) = as_registration_buckets s"
  by (simp_all add: on_store_def split: prod.splits)

lemma bump_simps [simp]:
  "as_store (bump_last_seen a t s) = as_store s" "as_config (bump_last_seen a t s) = as_config s"
  "as_register_challenges (bump_last_seen a t s) = as_register_challenges s"
  "as_registration_buckets (bump_last_seen a t s) = as_registration_buckets s"
  "map fst (as_earners (bump_last_seen a t s)) = map fst (as_earners s)"
  "length (as_earners (bump_last_seen a t s)) = length (as_earners s)"
  by (auto simp: bump_last_seen_def comp_def case_prod_beta)

subsection \<open>Submission over HTTP\<close>

definition folded_result :: "job_result \<Rightarrow> job_result" where
  "folded_result r = r\<lparr>jr_earner_address := canonical_earner_address (jr_earner_address r)\<rparr>"

lemma settle_section_exact:
  "snd (settle_section X i n r now S) = Inr () \<longleftrightarrow>
     (\<exists>spec. job_status_of i S = Some In_Flight \<and> current_dispatch_seq i S = Some n \<and> get_job i S = Some spec
       \<and> validate_render_seconds (jr_render_seconds r) (js_deadline_secs spec) = Inr ())"
  if "jr_job_id r = i"
proof -
  have "snd (record_completed X r now S)" if "job_status_of i S = Some In_Flight"
    using that \<open>jr_job_id r = i\<close> by (auto simp: record_completed_def job_status_of_def Let_def)
  then show ?thesis
    using that by (auto simp: settle_section_def split: option.splits sum.splits prod.splits bool.splits)
qed

lemma settle_section_fail: "snd (settle_section X i n r now S) = Inl e \<Longrightarrow> fst (settle_section X i n r now S) = S"
  if "jr_job_id r = i"
  using that by (auto simp: settle_section_def record_completed_def Let_def job_status_of_def
      split: option.splits sum.splits prod.splits bool.splits if_splits)

lemma settle_section_ok:
  "snd (settle_section X i n r now S) = Inr () \<Longrightarrow> fst (settle_section X i n r now S) = fst (record_completed X r now S)"
  by (auto simp: settle_section_def split: option.splits sum.splits prod.splits bool.splits if_splits)

lemma validate_folded [simp]: "validate_result (folded_result r) = validate_result r"
  by (simp add: validate_result_def folded_result_def)

lemma folded_simps [simp]:
  "jr_job_id (folded_result r) = jr_job_id r" "jr_render_seconds (folded_result r) = jr_render_seconds r"
  "jr_earner_address (folded_result r) = canonical_earner_address (jr_earner_address r)"
  "jr_output_hash (folded_result r) = jr_output_hash r"
  by (simp_all add: folded_result_def)

definition gates_pass :: "mesh_crates \<Rightarrow> job_result \<Rightarrow> bool" where
  "gates_pass X r \<longleftrightarrow> validate_result r = Inr ()
     \<and> signer_of X (signing_digest X (jr_job_id r) (jr_output_hash r)) (jr_signature_hex r)
         (canonical_earner_address (jr_earner_address r))"

lemma submit_eq:
  assumes "jr_job_id r = i" "Option.bind (header_str hs ''x-dispatch-seq'') parse_i64 = Some n" "gates_pass X r"
  shows "submit X E i hs r s =
    (let s1 = e_turn E 0 s; a = canonical_earner_address (jr_earner_address r) in
     if map_of (as_earners s1) a = None then (s1, Inl UNAUTHORIZED)
     else let (s2, x) = on_store (settle_section X i n (folded_result r) (e_clock E 1)) (e_turn E 1 s1)
          in case x of Inl e \<Rightarrow> (s2, Inl e) | Inr _ \<Rightarrow> (bump_last_seen a (e_clock E 2) (e_turn E 2 s2), Inr ()))"
proof -
  have "verify_signature X (jr_job_id r) (jr_output_hash r) (jr_earner_address r) (jr_signature_hex r) = Inr ()"
    using assms(3) by (simp add: gates_pass_def verify_signature_iff)
  moreover have "validate_result (folded_result r) = Inr ()" using assms(3) by (simp add: gates_pass_def)
  ultimately show ?thesis
    using assms(1,2) by (simp add: submit_def Let_def folded_result_def [symmetric])
qed

lemma submit_refused:
  assumes "jr_job_id r = i \<Longrightarrow> Option.bind (header_str hs ''x-dispatch-seq'') parse_i64 \<noteq> None \<Longrightarrow> \<not> gates_pass X r"
  shows "fst (submit X E i hs r s) = s \<and> snd (submit X E i hs r s) \<noteq> Inr ()"
proof -
  have "verify_signature X (jr_job_id r) (jr_output_hash r) (jr_earner_address r) (jr_signature_hex r) \<noteq> Inr ()
      \<or> validate_result (folded_result r) \<noteq> Inr ()"
    if "jr_job_id r = i" "Option.bind (header_str hs ''x-dispatch-seq'') parse_i64 \<noteq> None"
    using assms that by (auto simp: gates_pass_def verify_signature_iff)
  then show ?thesis
    by (auto simp: submit_def Let_def folded_result_def [symmetric] split: option.splits sum.splits)
qed

text \<open>
  Property C6. Over HTTP a result is credited exactly when it should be: the body names the job of the
  path, the \<^verbatim>\<open>x-dispatch-seq\<close> header is a number, the result is well formed and signed, over its job and
  output hash, by the key of the address it names, that address is registered when the registry is
  looked up, and when the store is locked the job is in flight under that very dispatch number with
  a plausible render time. Then the settlement of that result under the canonical address is the one
  thing the handler writes to the store; otherwise the handler writes nothing at all.
\<close>

theorem submit_credits_exactly:
  assumes "submit X E i hs r s = (s', out)"
  defines "s1 \<equiv> e_turn E 0 s" and "a \<equiv> canonical_earner_address (jr_earner_address r)"
  defines "s2 \<equiv> e_turn E 1 s1"
  shows "(out = Inr () \<longleftrightarrow>
      (\<exists>n spec. jr_job_id r = i \<and> Option.bind (header_str hs ''x-dispatch-seq'') parse_i64 = Some n
        \<and> validate_result r = Inr ()
        \<and> signer_of X (signing_digest X i (jr_output_hash r)) (jr_signature_hex r) a
        \<and> map_of (as_earners s1) a \<noteq> None
        \<and> job_status_of i (as_store s2) = Some In_Flight \<and> current_dispatch_seq i (as_store s2) = Some n
        \<and> get_job i (as_store s2) = Some spec
        \<and> validate_render_seconds (jr_render_seconds r) (js_deadline_secs spec) = Inr ()))
    \<and> (out = Inr () \<longrightarrow> s' = bump_last_seen a (e_clock E 2) (e_turn E 2
         (s2\<lparr>as_store := fst (record_completed X (r\<lparr>jr_earner_address := a\<rparr>) (e_clock E 1) (as_store s2))\<rparr>)))
    \<and> (out \<noteq> Inr () \<longrightarrow> s' \<in> {s, s1, s2})"
proof (cases "jr_job_id r = i \<and> Option.bind (header_str hs ''x-dispatch-seq'') parse_i64 \<noteq> None \<and> gates_pass X r")
  case False
  then have "s' = s" "out \<noteq> Inr ()" using submit_refused [of r i hs X E s] assms(1) by auto
  then show ?thesis using False by (auto simp: gates_pass_def a_def)
next
  case True
  then obtain n where n: "Option.bind (header_str hs ''x-dispatch-seq'') parse_i64 = Some n" by blast
  note eq = submit_eq [OF conjunct1 [OF True] n, of X E s, unfolded assms(1) Let_def, folded s1_def a_def, folded s2_def]
  let ?x = "settle_section X i n (folded_result r) (e_clock E 1) (as_store s2)"
  have o: "on_store (settle_section X i n (folded_result r) (e_clock E 1)) s2 = (s2\<lparr>as_store := fst ?x\<rparr>, snd ?x)"
    by (simp add: on_store_def split: prod.splits)
  note eq = eq [unfolded o]
  have g: "gates_pass X r" "jr_job_id (folded_result r) = i" using True by auto
  show ?thesis
  proof (cases "map_of (as_earners s1) a = None")
    case True
    then show ?thesis using eq g(1) by simp
  next
    case known: False
    show ?thesis
    proof (cases "snd ?x")
      case (Inl e)
      then have "s' = s2" "out = Inl e" using eq g(1) known settle_section_fail [OF g(2) Inl] by simp_all
      then show ?thesis using settle_section_exact [OF g(2), of X n "e_clock E 1" "as_store s2"] Inl n by auto
    next
      case (Inr u)
      then have "snd ?x = Inr ()" by simp
      note k = this settle_section_ok [OF this]
      then show ?thesis
        using eq g known settle_section_exact [OF g(2), of X n "e_clock E 1" "as_store s2"] n
        by (auto simp: folded_result_def gates_pass_def a_def)
    qed
  qed
qed

text \<open>A coordinator at rest, with the toy job in flight to a registered earner.\<close>

definition toy_config :: store_config where
  "toy_config = \<lparr>cf_max_attempts = 3, cf_max_faults = 3, cf_earner_ttl_secs = 60, cf_ttl_deadline_multiple = 10,
     cf_retention_secs = 1000, cf_handshake_timeout = 10, cf_session_idle_timeout = 120, cf_ingest_token = None,
     cf_max_queued_jobs = 10, cf_max_earners = 8, cf_max_registrations = 5, cf_trusted_proxies = []\<rparr>"

definition toy_app :: "store \<Rightarrow> app_state" where
  "toy_app S = \<lparr>as_store = S, as_earners = [(toy_earner, toy_info 100)], as_registration_buckets = [],
     as_register_challenges = [], as_config = toy_config, as_registrations_shed = 0, as_jobs_shed = 0,
     as_earners_shed = 0, as_earners_evicted = 0\<rparr>"

definition quiet :: "i64 \<Rightarrow> env" where
  "quiet t = \<lparr>e_turn = \<lambda>_ s. s, e_clock = \<lambda>_. t, e_random = Some (replicate 16 9), e_uuids = \<lambda>n. replicate 16 n\<rparr>"

lemma toy_app_simps [simp]:
  "as_store (toy_app S) = S" "as_earners (toy_app S) = [(toy_earner, toy_info 100)]" "as_config (toy_app S) = toy_config"
  by (simp_all add: toy_app_def)

lemma quiet_simps [simp]:
  "e_turn (quiet t) k s = s" "e_clock (quiet t) k = t" "e_random (quiet t) = Some (replicate 16 9)"
  by (simp_all add: quiet_def)

lemma canonical_toy [simp]: "canonical_earner_address toy_earner = toy_earner"
  by (simp add: toy_earner_def canonical_earner_address_def to_ascii_lowercase_def is_ascii_upper_def of_char_def)

lemma toy_unhex_zeros: "toy_unhex (replicate (2 * n) CHR ''0'') = Some (replicate n 0)"
  by (induction n) (simp_all add: toy_nibble_def is_ascii_digit_def of_char_def numeral_2_eq_2)

lemma toy_hex_zeros: "toy_hex (replicate n 0) = replicate (2 * n) CHR ''0''"
  by (induction n) (simp_all add: toy_hex_def)

lemma strip_zeros: "strip_prefix ''0x'' (replicate n CHR ''0'') = None"
proof (cases n)
  case (Suc m)
  then show ?thesis by (cases m) simp_all
qed simp

lemma toy_key: "signer_of toy_mesh d (replicate 130 CHR ''0'') toy_earner"
proof -
  have "hex_decode toy_mesh (replicate 130 CHR ''0'') = Some (replicate 65 0)"
    using toy_unhex_zeros [of 65] by (simp add: toy_mesh_def)
  moreover have "address_from_verifying_key toy_mesh (4 # replicate 64 0) = toy_earner"
    using toy_hex_zeros [of 20] by (simp add: address_from_verifying_key_def toy_mesh_def toy_earner_def)
  ultimately show ?thesis
    unfolding signer_of_def
    by (intro exI [of _ "replicate 65 0"] exI [of _ "replicate 64 0"] exI [of _ 0] exI [of _ "4 # replicate 64 0"])
      (simp add: strip_zeros, simp add: toy_mesh_def)
qed

lemma toy_signed: "gates_pass toy_mesh toy_result"
  using toy_key
  by (simp add: gates_pass_def toy_result_def validate_result_def is_digest_hex_def OUTPUT_HASH_LEN_def is_lower_hex_def
      is_ascii_digit_def is_fetchable_url_def split_once.simps is_ascii_alphanumeric_def is_ascii_lower_def of_char_def
      list_all_iff)

lemma toy_flying_job:
  "job_status_of (replicate 16 7) toy_flying = Some In_Flight" "current_dispatch_seq (replicate 16 7) toy_flying = Some 1"
  "get_job (replicate 16 7) toy_flying = Some toy_job" "validate_render_seconds 5 (js_deadline_secs toy_job) = Inr ()"
  using toy_life(2) by (simp_all add: life_iff get_job_def toy_flying_rows dispatch_row_def new_row_def toy_job_def
      validate_render_seconds_def RENDER_SECONDS_DEADLINE_SLACK_def)

lemma toy_result_simps [simp]:
  "jr_job_id toy_result = replicate 16 7" "jr_earner_address toy_result = toy_earner" "jr_render_seconds toy_result = 5"
  "toy_result\<lparr>jr_earner_address := toy_earner\<rparr> = toy_result"
  by (simp_all add: toy_result_def)

theorem submit_credits_exactly_witness:
  "snd (submit toy_mesh (quiet 120) (replicate 16 7) [(''x-dispatch-seq'', ''1'')] toy_result (toy_app toy_flying)) = Inr ()
   \<and> as_store (fst (submit toy_mesh (quiet 120) (replicate 16 7) [(''x-dispatch-seq'', ''1'')] toy_result (toy_app toy_flying)))
       = toy_settled"
proof -
  let ?h = "[(''x-dispatch-seq'', ''1'')]"
  note k = submit_credits_exactly [of toy_mesh "quiet 120" "replicate 16 7" ?h toy_result "toy_app toy_flying",
      OF prod.collapse [symmetric]]
  have h: "Option.bind (header_str ?h ''x-dispatch-seq'') parse_i64 = Some 1"
    by (simp add: header_str_def header_get_def header_text_def parse_i64_def is_ascii_digit_def decimal_value_def
        digit_value_def of_char_def)
  have g: "validate_result toy_result = Inr ()"
    "signer_of toy_mesh (signing_digest toy_mesh (replicate 16 7) (jr_output_hash toy_result)) (jr_signature_hex toy_result) toy_earner"
    using toy_signed by (simp_all add: gates_pass_def)
  from k show ?thesis
    by (simp add: h g toy_flying_job toy_settled_def)
qed

subsection \<open>Submission over a session\<close>

definition session_gates :: "mesh_crates \<Rightarrow> (job_spec \<times> i64) option \<Rightarrow> bool \<Rightarrow> job_result \<Rightarrow> string \<Rightarrow> bool" where
  "session_gates X offered accepted r earner \<longleftrightarrow>
     (\<exists>job n. offered = Some (job, n) \<and> js_id job = jr_job_id r \<and> accepted \<and> gates_pass X r
        \<and> validate_render_seconds (jr_render_seconds r) (js_deadline_secs job) = Inr ()
        \<and> canonical_earner_address (jr_earner_address r) = earner)"

lemma ws_settle_section_exact:
  "snd (ws_settle_section X n r now S) \<longleftrightarrow>
     job_status_of (jr_job_id r) S = Some In_Flight \<and> current_dispatch_seq (jr_job_id r) S = Some n"
  "snd (ws_settle_section X n r now S) \<Longrightarrow> fst (ws_settle_section X n r now S) = fst (record_completed X r now S)"
  "\<not> snd (ws_settle_section X n r now S) \<Longrightarrow> fst (ws_settle_section X n r now S) = S"
  by (auto simp: ws_settle_section_def record_completed_def Let_def job_status_of_def split: option.splits if_splits)

lemma handle_submit_eq:
  assumes "session_gates X (Some (job, n)) accepted r earner"
  shows "handle_submit X E (Some (job, n)) accepted r earner s =
    (let s1 = e_turn E 0 s; x = ws_settle_section X n (folded_result r) (e_clock E 0) (as_store s1)
     in (s1\<lparr>as_store := fst x\<rparr>,
         if snd x then Accepted_Outcome (Msg_Accepted (jr_job_id r) PLACEHOLDER_ATTESTATION_UID)
         else Drop_Outcome (Msg_Rejected (jr_job_id r) ''job is no longer in flight'')))"
proof -
  have "verify_signature X (jr_job_id r) (jr_output_hash r) (jr_earner_address r) (jr_signature_hex r) = Inr ()"
    "validate_result (folded_result r) = Inr ()"
    using assms by (auto simp: session_gates_def gates_pass_def verify_signature_iff)
  then show ?thesis
    using assms unfolding handle_submit_def Let_def folded_result_def [symmetric]
    by (auto simp: session_gates_def on_store_def case_prod_beta)
qed

lemma handle_submit_refused:
  assumes "\<not> session_gates X offered accepted r earner"
  shows "fst (handle_submit X E offered accepted r earner s) = s
    \<and> (\<nexists>m. snd (handle_submit X E offered accepted r earner s) = Accepted_Outcome m)
    \<and> (offered \<noteq> None \<longrightarrow> (\<exists>m. snd (handle_submit X E offered accepted r earner s) = Requeue_Outcome m EarnerFault))"
proof (cases offered)
  case None
  then show ?thesis by (simp add: handle_submit_def Let_def)
next
  case (Some p)
  obtain job n where p: "p = (job, n)" by (cases p)
  have "verify_signature X (jr_job_id r) (jr_output_hash r) (jr_earner_address r) (jr_signature_hex r) \<noteq> Inr ()
      \<or> validate_result (folded_result r) \<noteq> Inr ()
      \<or> validate_render_seconds (jr_render_seconds (folded_result r)) (js_deadline_secs job) \<noteq> Inr ()
      \<or> jr_earner_address (folded_result r) \<noteq> earner" if "js_id job = jr_job_id r" accepted
    using assms that by (auto simp: Some p session_gates_def gates_pass_def verify_signature_iff)
  then show ?thesis
    unfolding Some p handle_submit_def Let_def folded_result_def [symmetric]
    by (auto split: sum.splits)
qed

text \<open>
  Over a session a result is credited exactly when it should be: the session holds the offer of
  that job and has accepted it, the result is well formed, its render time fits the job's deadline, it
  is signed by the identity the session registered with, and when the store is locked the job is
  still in flight under the dispatch number it was offered with. Then the settlement under the
  session's identity is what the handler writes; otherwise it writes nothing.
\<close>

theorem session_submit_credits_exactly:
  assumes "handle_submit X E offered accepted r earner s = (s', oc)"
  defines "s1 \<equiv> e_turn E 0 s"
  shows "((\<exists>m. oc = Accepted_Outcome m) \<longleftrightarrow>
      (\<exists>job n. offered = Some (job, n) \<and> js_id job = jr_job_id r \<and> accepted
        \<and> validate_result r = Inr () \<and> validate_render_seconds (jr_render_seconds r) (js_deadline_secs job) = Inr ()
        \<and> canonical_earner_address (jr_earner_address r) = earner
        \<and> signer_of X (signing_digest X (js_id job) (jr_output_hash r)) (jr_signature_hex r) earner
        \<and> job_status_of (js_id job) (as_store s1) = Some In_Flight
        \<and> current_dispatch_seq (js_id job) (as_store s1) = Some n))
    \<and> ((\<exists>m. oc = Accepted_Outcome m) \<longrightarrow>
        s' = s1\<lparr>as_store := fst (record_completed X (r\<lparr>jr_earner_address := earner\<rparr>) (e_clock E 0) (as_store s1))\<rparr>)
    \<and> ((\<nexists>m. oc = Accepted_Outcome m) \<longrightarrow> s' \<in> {s, s1})"
proof (cases "session_gates X offered accepted r earner")
  case False
  then have "s' = s" "\<nexists>m. oc = Accepted_Outcome m" using handle_submit_refused [of X offered accepted r earner E s] assms(1) by auto
  then show ?thesis using False by (auto simp: session_gates_def gates_pass_def)
next
  case True
  then obtain job n where o: "offered = Some (job, n)" by (auto simp: session_gates_def)
  let ?x = "ws_settle_section X n (folded_result r) (e_clock E 0) (as_store s1)"
  note x = ws_settle_section_exact [of X n "folded_result r" "e_clock E 0" "as_store s1"]
  note eq = handle_submit_eq [OF True [unfolded o], of E s, folded o, unfolded assms(1) Let_def, folded s1_def]
  have g: "js_id job = jr_job_id r" accepted "gates_pass X r" "canonical_earner_address (jr_earner_address r) = earner"
    "validate_render_seconds (jr_render_seconds r) (js_deadline_secs job) = Inr ()"
    using True by (auto simp: session_gates_def o)
  have f: "folded_result r = r\<lparr>jr_earner_address := earner\<rparr>" by (simp add: folded_result_def g(4))
  show ?thesis
    using eq x g by (cases "snd ?x") (auto simp: o gates_pass_def f)
qed

theorem session_submit_credits_exactly_witness:
  "\<exists>m. snd (handle_submit toy_mesh (quiet 120) (Some (toy_job, 1)) True toy_result toy_earner (toy_app toy_flying)) = Accepted_Outcome m"
proof -
  have "js_id toy_job = replicate 16 7" by (simp add: toy_job_def)
  then show ?thesis
    using session_submit_credits_exactly [of toy_mesh "quiet 120" "Some (toy_job, 1)" True toy_result toy_earner
        "toy_app toy_flying", OF prod.collapse [symmetric]] toy_signed toy_flying_job
    by (simp add: gates_pass_def)
qed

end
