(* ===== verification/Session_Props.thy ===== *)
theory Session_Props
  imports Coordinator_Props
begin

section \<open>What a session guarantees\<close>

text \<open>
  A WebSocket session holds at most one job at a time, under the dispatch number it was offered with.
  The job may be reaped, re-dispatched or settled elsewhere while the session thinks it holds it; these
  are the properties that make that harmless, and that make the end of a session harmless too.
\<close>

definition leased :: "store \<Rightarrow> uuid \<Rightarrow> i64 \<Rightarrow> bool" where
  "leased S i n \<longleftrightarrow> job_status_of i S = Some In_Flight \<and> current_dispatch_seq i S = Some n"

lemma leased_find: "leased S i n \<longleftrightarrow> (\<exists>r. find_row j_id i (st_jobs S) = Some r \<and> j_status r = In_Flight \<and> j_dispatch_seq r = n)"
  by (auto simp: leased_def job_status_of_def current_dispatch_seq_def split: option.splits)

lemma requeue_section_stale: "current_dispatch_seq (js_id job) S \<noteq> Some n \<Longrightarrow> requeue_section s job n kind e S = S"
  by (simp add: requeue_section_def)

lemma requeue_section_idle: "\<not> leased S (js_id job) n \<Longrightarrow> requeue_section s job n kind e S = S"
  by (auto simp: requeue_section_def leased_find current_dispatch_seq_def store_requeue_def requeue_earner_fault_def
      split: option.splits requeue_kind.splits)

lemma find_row_hit:
  assumes "find_row j_id i rows = Some r" "j_status r = In_Flight" "\<And>q. j_id (f q) = j_id q"
  shows "find_row j_id i (update_where (\<lambda>q. j_id q = i \<and> j_status q = In_Flight) f rows) = Some (f r)"
  using assms find_row_Some [OF assms(1)] by (subst find_row_update) auto

lemma requeue_section_row:
  assumes "find_row j_id (js_id job) (st_jobs S) = Some r" "j_status r = In_Flight" "j_dispatch_seq r = n"
  shows "find_row j_id (js_id job) (st_jobs (requeue_section s job n kind e S)) = Some
    (case kind of Charge \<Rightarrow> park (if cf_max_attempts (as_config s) \<le> j_attempts r then Failed else Queued) r
     | EarnerFault \<Rightarrow> fault_row (if cf_max_faults (as_config s) \<le> j_faults r + 1 then Failed else Queued) (j_faults r + 1) r)"
proof -
  have st: "current_dispatch_seq (js_id job) S = Some n" using assms by (simp add: current_dispatch_seq_def)
  show ?thesis
  proof (cases kind)
    case Charge
    then show ?thesis using assms st find_row_hit [OF assms(1,2)]
      by (simp add: requeue_section_def store_requeue_def Let_def park_def)
  next
    case EarnerFault
    have "st_jobs (case e of None \<Rightarrow> S | Some earner \<Rightarrow> record_earner_fault earner S) = st_jobs S"
      by (simp add: record_earner_fault_def split: option.splits)
    then show ?thesis using EarnerFault assms st find_row_hit [OF assms(1,2)]
      by (simp add: requeue_section_def requeue_earner_fault_def Let_def fault_row_def park_def)
  qed
qed

lemma requeue_section_releases: "\<not> leased (requeue_section s job n kind e S) (js_id job) n"
proof (cases "leased S (js_id job) n")
  case True
  then obtain r where "find_row j_id (js_id job) (st_jobs S) = Some r" "j_status r = In_Flight" "j_dispatch_seq r = n"
    by (auto simp: leased_find)
  from requeue_section_row [OF this] show ?thesis
    by (simp add: leased_find park_def fault_row_def split: requeue_kind.splits)
qed (simp add: requeue_section_idle)

lemma touch_stale: "distinct (map j_id (st_jobs S)) \<Longrightarrow> current_dispatch_seq i S \<noteq> Some n \<Longrightarrow> fst (touch i n now p S) = S"
proof -
  assume d: "distinct (map j_id (st_jobs S))" and c: "current_dispatch_seq i S \<noteq> Some n"
  have "j_dispatch_seq r \<noteq> n" if "r \<in> set (st_jobs S)" "j_id r = i" for r
    using find_row_unique [OF d that(1)] that(2) c by (auto simp: current_dispatch_seq_def)
  then have "update_where (\<lambda>r. j_id r = i \<and> j_status r = In_Flight \<and> j_dispatch_seq r = n) f (st_jobs S) = st_jobs S" for f
    unfolding update_where_def by (intro map_idI) auto
  then show ?thesis by (simp add: touch_def Let_def)
qed

lemma requeue_store: "as_store (requeue E k job n kind e s) = requeue_section s job n kind e (as_store (e_turn E k s))"
  by (simp add: requeue_def)

lemma settled_not_leased: "\<not> leased (fst (record_completed X r now S)) (jr_job_id r) n"
proof (cases "find_row j_id (jr_job_id r) (st_jobs S)")
  case (Some q)
  then have "find_row j_id (jr_job_id r) (update_where (\<lambda>q. j_id q = jr_job_id r) (park Done) (st_jobs S)) = Some (park Done q)"
    using find_row_Some [OF Some] by (subst find_row_update) (auto simp: park_def)
  then show ?thesis using Some by (auto simp: record_completed_def Let_def leased_find park_def)
qed (simp add: record_completed_def Let_def leased_find)

lemma ws_submit_releases:
  assumes "ws_offered w = Some (job, n)"
  shows "\<not> leased (as_store (fst (fst (ws_submit X E r (s, w))))) (js_id job) n"
proof (cases "session_gates X (ws_offered w) (ws_accepted w) r (ws_earner w)")
  case False
  then obtain m where "snd (handle_submit X E (ws_offered w) (ws_accepted w) r (ws_earner w) s) = Requeue_Outcome m EarnerFault"
    using handle_submit_refused [of X "ws_offered w" "ws_accepted w" r "ws_earner w" E s] assms by auto
  then show ?thesis
    using assms by (simp add: ws_submit_def Let_def case_prod_beta requeue_store requeue_section_releases)
next
  case True
  let ?x = "ws_settle_section X n (folded_result r) (e_clock E 0) (as_store (e_turn E 0 s))"
  have id: "js_id job = jr_job_id (folded_result r)" using True by (simp add: session_gates_def assms)
  have "\<not> leased (fst ?x) (jr_job_id (folded_result r)) n"
  proof (cases "snd ?x")
    case True
    then show ?thesis by (simp only: ws_settle_section_exact(2) settled_not_leased not_False_eq_True)
  next
    case False
    note e = ws_settle_section_exact(3) [OF False]
    show ?thesis using False unfolding e ws_settle_section_exact(1) by (simp add: leased_def)
  qed
  then show ?thesis
    using handle_submit_eq [OF True [unfolded assms], of E s] id
    by (simp add: ws_submit_def Let_def assms)
qed

lemma ws_message_releases:
  assumes "ws_offered w = Some (job, n)" "ws_message X E msg (s, w) = ((s', w'), m)" "leased (as_store s') (js_id job) n"
  shows "ws_offered w' = Some (job, n)"
proof (cases msg)
  case (Msg_Submit r)
  let ?s = "bump_last_seen (ws_earner w) (e_clock E 2) (e_turn E 2 s)"
  have "s' = fst (fst (ws_submit X E r (?s, w)))"
    using assms(2) by (simp add: ws_message_def Msg_Submit Let_def case_prod_beta)
  then show ?thesis using ws_submit_releases [OF assms(1), of X E r ?s] assms(3) by simp
qed (use assms in \<open>auto simp: ws_message_def Let_def requeue_store requeue_section_releases
      split: if_splits option.splits\<close>)

text \<open>
  Property C21. A session never strands a job. Whatever message it handles and whatever the other tasks do
  meanwhile, if the job it was offered is afterwards still in flight under the number it was offered
  with, the session still holds it; a job it has just been given is held, or, when the offer cannot be
  sent, given up; and when the session ends, the job it holds is given up: from then on it is no longer
  in flight under that number, and had it been when the store was locked, it is back in the queue,
  or failed if its attempts are spent.
\<close>

theorem session_never_strands:
  shows "(ws_offered w = Some (job, n) \<longrightarrow> ws_message X E msg (s, w) = ((s', w'), m) \<longrightarrow>
        leased (as_store s') (js_id job) n \<longrightarrow> ws_offered w' = Some (job, n))
    \<and> (ws_offered w = Some (job, n) \<longrightarrow> \<not> leased (as_store (ws_close E (s, w))) (js_id job) n
        \<and> (\<forall>r. find_row j_id (js_id job) (st_jobs (as_store (e_turn E 0 s))) = Some r \<longrightarrow> j_status r = In_Flight \<longrightarrow>
             j_dispatch_seq r = n \<longrightarrow> job_status_of (js_id job) (as_store (ws_close E (s, w))) =
               Some (if j_attempts r \<ge> cf_max_attempts (as_config s) then Failed else Queued)))
    \<and> (ws_offered w = None \<longrightarrow>
        take_supported_job E (ws_earner w) (ws_supported w) (ws_faulted w) s = (s1, Some (job, n)) \<longrightarrow>
        ws_offer E sent (s, w) = ((s', w'), go) \<longrightarrow>
        (if sent then ws_offered w' = Some (job, n) else \<not> go \<and> \<not> leased (as_store s') (js_id job) n))"
proof (intro conjI impI allI)
  assume a: "ws_offered w = Some (job, n)" "ws_message X E msg (s, w) = ((s', w'), m)" "leased (as_store s') (js_id job) n"
  from ws_message_releases [OF this] show "ws_offered w' = Some (job, n)" .
next
  assume "ws_offered w = Some (job, n)"
  then show "\<not> leased (as_store (ws_close E (s, w))) (js_id job) n"
    by (simp add: ws_close_def requeue_store requeue_section_releases)
next
  fix r
  assume a: "ws_offered w = Some (job, n)" "find_row j_id (js_id job) (st_jobs (as_store (e_turn E 0 s))) = Some r"
    "j_status r = In_Flight" "j_dispatch_seq r = n"
  show "job_status_of (js_id job) (as_store (ws_close E (s, w))) =
      Some (if j_attempts r \<ge> cf_max_attempts (as_config s) then Failed else Queued)"
    using requeue_section_row [OF a(2-4), of s Charge None] a(1)
    by (simp add: ws_close_def requeue_store job_status_of_def park_def)
next
  assume "ws_offered w = None" "take_supported_job E (ws_earner w) (ws_supported w) (ws_faulted w) s = (s1, Some (job, n))"
    "ws_offer E sent (s, w) = ((s', w'), go)"
  then show "if sent then ws_offered w' = Some (job, n) else \<not> go \<and> \<not> leased (as_store s') (js_id job) n"
    by (auto simp: ws_offer_def requeue_store requeue_section_releases)
qed

definition toy_session :: ws_session where
  "toy_session = \<lparr>ws_earner = toy_earner, ws_supported = [Foliage], ws_offered = Some (toy_job, 1), ws_accepted = False, ws_faulted = []\<rparr>"

theorem session_never_strands_witness:
  "job_status_of (replicate 16 7) (as_store (ws_close (quiet 130) (toy_app toy_flying, toy_session))) = Some Queued"
proof -
  have r: "find_row j_id (js_id toy_job) (st_jobs (as_store (e_turn (quiet 130) 0 (toy_app toy_flying))))
      = Some (dispatch_row (Some toy_earner) 1 110 (new_row toy_job 100 (Some ''0xb'')))"
    by (simp add: toy_flying_rows dispatch_row_def new_row_def)
  have "ws_offered toy_session = Some (toy_job, 1)" by (simp add: toy_session_def)
  then show ?thesis
    using conjunct1 [OF conjunct2 [OF session_never_strands [of toy_session toy_job 1 toy_mesh "quiet 130" _ "toy_app toy_flying"]]] r
    by (simp add: dispatch_row_def new_row_def toy_config_def toy_job_def)
qed

lemma ws_submit_stale:
  assumes "ws_offered w = Some (job, n)" "current_dispatch_seq (js_id job) (as_store s) \<noteq> Some n" "\<And>k t. e_turn E k t = t"
  shows "as_store (fst (fst (ws_submit X E r (s, w)))) = as_store s \<and> (\<nexists>i uid. snd (ws_submit X E r (s, w)) = Msg_Accepted i uid)"
proof (cases "session_gates X (ws_offered w) (ws_accepted w) r (ws_earner w)")
  case False
  obtain m oc where h: "handle_submit X E (ws_offered w) (ws_accepted w) r (ws_earner w) s = (m, oc)" by (metis surj_pair)
  then have f: "m = s" "\<exists>msg. oc = Requeue_Outcome msg EarnerFault"
    using handle_submit_refused [OF False, of E s] assms(1) by auto
  have "\<nexists>i uid. reply oc = Msg_Accepted i uid"
    using h assms(1) f(2) by (auto simp: handle_submit_def Let_def reply_def on_store_def case_prod_beta
        split: if_splits sum.splits)
  then show ?thesis
    using assms f by (auto simp: ws_submit_def Let_def h [unfolded assms(1)] requeue_store requeue_section_stale)
next
  case True
  let ?x = "ws_settle_section X n (folded_result r) (e_clock E 0) (as_store s)"
  have "js_id job = jr_job_id (folded_result r)" using True by (simp add: session_gates_def assms(1))
  then have x: "\<not> snd ?x" using assms(2) unfolding ws_settle_section_exact(1) by simp
  note e = ws_settle_section_exact(3) [OF x]
  show ?thesis
    using handle_submit_eq [OF True [unfolded assms(1)], of E s] x e
    by (simp add: ws_submit_def Let_def assms(1,3) reply_def)
qed

text \<open>
  Property C28. A session whose job has moved on can do no harm. Once the job it was offered has been
  dispatched anew or deleted, nothing it sends, submissions included, and not even its end, changes
  anything in the store, and no submission of its is accepted; a message is taken here as handled with no other
  task acting meanwhile.
\<close>

theorem stale_session_harmless:
  assumes "store_ok X (as_store s)" "ws_offered w = Some (job, n)" "current_dispatch_seq (js_id job) (as_store s) \<noteq> Some n"
    "\<And>k t. e_turn E k t = t" "ws_message X E msg (s, w) = ((s', w'), m)"
  shows "as_store s' = as_store s \<and> as_store (ws_close E (s, w)) = as_store s \<and> (\<nexists>i uid. m = Some (Msg_Accepted i uid))"
proof -
  have d: "distinct (map j_id (st_jobs (as_store s)))" using assms(1) by (simp add: store_ok_def)
  have "as_store s' = as_store s \<and> (\<nexists>i uid. m = Some (Msg_Accepted i uid))"
  proof (cases msg)
    case (Msg_Submit r)
    let ?s = "bump_last_seen (ws_earner w) (e_clock E 2) s"
    have "s' = fst (fst (ws_submit X E r (?s, w)))" "m = Some (snd (ws_submit X E r (?s, w)))"
      using assms(4,5) by (simp_all add: ws_message_def Msg_Submit Let_def case_prod_beta)
    then show ?thesis using ws_submit_stale [OF assms(2) _ assms(4), of ?s X r] assms(3) by auto
  qed (use assms in \<open>auto simp: ws_message_def Let_def requeue_store requeue_section_stale touch_stale [OF d]
        split: if_splits option.splits\<close>)
  moreover have "as_store (ws_close E (s, w)) = as_store s"
    using assms(2-4) by (simp add: ws_close_def requeue_store requeue_section_stale)
  ultimately show ?thesis by blast
qed

theorem stale_session_harmless_witness:
  "as_store (fst (fst (ws_message toy_mesh (quiet 130) (Msg_Submit toy_result) (toy_app toy_flying,
     toy_session\<lparr>ws_offered := Some (toy_job, 0), ws_accepted := True\<rparr>)))) = toy_flying"
proof -
  have ok: "store_ok toy_mesh (as_store (toy_app toy_flying))"
    using store_steps_ok [OF toy_reached(1) store_init_ok] by simp
  have "current_dispatch_seq (js_id toy_job) (as_store (toy_app toy_flying)) \<noteq> Some 0"
    using toy_flying_job(2) by (simp add: toy_job_def)
  moreover obtain s' w' m where "ws_message toy_mesh (quiet 130) (Msg_Submit toy_result) (toy_app toy_flying,
      toy_session\<lparr>ws_offered := Some (toy_job, 0), ws_accepted := True\<rparr>) = ((s', w'), m)" by (metis surj_pair)
  ultimately show ?thesis
    using stale_session_harmless [OF ok, of "toy_session\<lparr>ws_offered := Some (toy_job, 0), ws_accepted := True\<rparr>" toy_job 0 "quiet 130"]
    by simp
qed

end
