(* ===== verification/Registration.thy ===== *)
theory Registration
  imports Coordinator_Props
begin

section \<open>Registration\<close>

text \<open>
  What a successful registration over HTTP proves about the caller, and that the challenge it answers is
  spent by the attempt.
\<close>

lemma rate_section_keeps [simp]:
  "as_register_challenges (fst (rate_section source now s)) = as_register_challenges s"
  "as_earners (fst (rate_section source now s)) = as_earners s"
  by (simp_all add: rate_section_def Let_def case_prod_beta)

lemma challenge_section_exact:
  "snd (challenge_section nonce now s) \<longleftrightarrow>
     (\<exists>issued. map_of (as_register_challenges s) nonce = Some issued \<and> sat_i64 (now - issued) \<le> REGISTER_CHALLENGE_TTL_SECS)"
  "map_of (as_register_challenges (fst (challenge_section nonce now s))) nonce = None"
  "k \<noteq> nonce \<Longrightarrow> map_of (as_register_challenges (fst (challenge_section nonce now s))) k = map_of (as_register_challenges s) k"
  by (auto simp: challenge_section_def delete_conv' split: option.splits)

lemma admit_section_keeps [simp]: "as_register_challenges (fst (admit_section a i now s)) = as_register_challenges s"
  by (simp add: admit_section_def Let_def case_prod_beta split: admission.splits)

lemma admit_section_entry:
  "admitted (snd (admit_section a i now s)) \<Longrightarrow> map_of (as_earners (fst (admit_section a i now s))) a = Some i"
  by (auto simp: admit_section_def Let_def case_prod_beta admitted_def admit_earner_def update_conv'
      split: admission.splits option.splits if_splits)

lemma validate_hello_iff:
  "validate_hello X a g v ks nonce sig = Inr () \<longleftrightarrow>
     is_evm_address a \<and> length g \<le> MAX_GPU_MODEL_LEN \<and> ks \<noteq> [] \<and> distinct ks \<and> 0 < v \<and> v \<le> MAX_VRAM_GB
     \<and> signer_of X (hello_digest X a g v ks nonce) sig (canonical_earner_address a)"
  by (auto simp: validate_hello_def verify_hello_iff [symmetric] split: sum.splits)

definition answers :: "mesh_crates \<Rightarrow> header_map \<Rightarrow> nat list option" where
  "answers X hs = Option.bind (header_str hs ''x-register-challenge'') (decode_nonce X)"

lemma register_accepts:
  assumes "register X T E peer hs msg s = (s', Inr token)"
  defines "s1 \<equiv> fst (rate_section (resolve_source_ip T peer hs (cf_trusted_proxies (as_config s))) (e_clock E 0) (e_turn E 0 s))"
  obtains a g v ks sig nonce bytes where "msg = Msg_Hello a g v ks sig" "answers X hs = Some nonce"
    "snd (challenge_section nonce (e_clock E 1) (e_turn E 1 s1))" "validate_hello X a g v ks nonce sig = Inr ()"
    "e_random E = Some bytes" "token = hex_encode X bytes"
    "(s', True) = map_prod id admitted (admit_section (canonical_earner_address a)
       \<lparr>ei_gpu_model = g, ei_vram_gb = v, ei_supported = ks, ei_last_seen = e_clock E 2, ei_poll_token = token\<rparr> (e_clock E 2)
       (e_turn E 2 (fst (challenge_section nonce (e_clock E 1) (e_turn E 1 s1)))))"
  using assms unfolding register_def answers_def s1_def Let_def
  by (auto simp: case_prod_beta map_prod_def prod_eq_iff split: if_splits earner_msg.splits option.splits sum.splits)

lemma register_redeems:
  assumes "snd (register X T E peer hs msg s) = Inr token" "\<And>k t. e_turn E k t = t"
  shows "\<exists>nonce. answers X hs = Some nonce \<and> map_of (as_register_challenges s) nonce \<noteq> None"
proof -
  have "register X T E peer hs msg s = (fst (register X T E peer hs msg s), Inr token)" using assms(1) by (simp add: prod_eq_iff)
  then show ?thesis
    by (rule register_accepts) (use assms(2) in \<open>auto simp: challenge_section_exact\<close>)
qed

text \<open>
  Property C29. A successful registration proves possession of the key, once. The message is a hello that
  passes every check; the caller signed it, with the key of the address it registers, over a challenge
  that was outstanding and fresh when it was redeemed; the registry holds the entry it sent under
  the canonical address with the new poll token; and its challenge is gone, so that the next request
  answering the same challenge registers nobody. Both requests are taken as handled with no other task acting
  meanwhile.
\<close>

theorem registration_proves_key_once:
  assumes "register X T E peer hs msg s = (s', Inr token)" "\<And>k t. e_turn E k t = t" "\<And>k t. e_turn E' k t = t"
    "answers X hs' = answers X hs"
  shows "(\<exists>a g v ks sig nonce issued. msg = Msg_Hello a g v ks sig \<and> answers X hs = Some nonce
      \<and> is_evm_address a \<and> length g \<le> MAX_GPU_MODEL_LEN \<and> ks \<noteq> [] \<and> distinct ks \<and> 0 < v \<and> v \<le> MAX_VRAM_GB
      \<and> map_of (as_register_challenges s) nonce = Some issued \<and> sat_i64 (e_clock E 1 - issued) \<le> REGISTER_CHALLENGE_TTL_SECS
      \<and> signer_of X (hello_digest X a g v ks nonce) sig (canonical_earner_address a)
      \<and> map_of (as_earners s') (canonical_earner_address a) = Some
          \<lparr>ei_gpu_model = g, ei_vram_gb = v, ei_supported = ks, ei_last_seen = e_clock E 2, ei_poll_token = token\<rparr>)
    \<and> (\<nexists>token'. snd (register X T E' peer' hs' msg' s') = Inr token')"
proof (rule register_accepts [OF assms(1)])
  fix a g v ks sig nonce bytes
  let ?i = "\<lparr>ei_gpu_model = g, ei_vram_gb = v, ei_supported = ks, ei_last_seen = e_clock E 2, ei_poll_token = token\<rparr>"
  let ?s1 = "fst (rate_section (resolve_source_ip T peer hs (cf_trusted_proxies (as_config s))) (e_clock E 0) (e_turn E 0 s))"
  let ?s2 = "fst (challenge_section nonce (e_clock E 1) (e_turn E 1 ?s1))"
  assume a: "msg = Msg_Hello a g v ks sig" "answers X hs = Some nonce"
    "snd (challenge_section nonce (e_clock E 1) (e_turn E 1 ?s1))" "validate_hello X a g v ks nonce sig = Inr ()"
    "(s', True) = map_prod id admitted (admit_section (canonical_earner_address a) ?i (e_clock E 2) (e_turn E 2 ?s2))"
  obtain issued where i: "map_of (as_register_challenges s) nonce = Some issued"
    "sat_i64 (e_clock E 1 - issued) \<le> REGISTER_CHALLENGE_TTL_SECS"
    using a(3) assms(2) by (auto simp: challenge_section_exact)
  have s': "s' = fst (admit_section (canonical_earner_address a) ?i (e_clock E 2) ?s2)"
    "admitted (snd (admit_section (canonical_earner_address a) ?i (e_clock E 2) ?s2))"
    using a(5) assms(2) by (simp_all add: map_prod_def case_prod_beta)
  have gone: "map_of (as_register_challenges s') nonce = None" by (simp add: s'(1) challenge_section_exact)
  then have "snd (register X T E' peer' hs' msg' s') \<noteq> Inr token'" for token'
    using register_redeems [of X T E' peer' hs' msg' s' token'] assms(3,4) a(2) by auto
  then show ?thesis
    using a(1,2,4) i admit_section_entry [OF s'(2)] by (auto simp: validate_hello_iff s'(1))
qed

definition toy_hello :: earner_msg where
  "toy_hello = Msg_Hello toy_earner ''rtx'' 24 [Terrain] (replicate 130 CHR ''0'')"

definition toy_challenged :: app_state where
  "toy_challenged = (toy_app toy_flying)\<lparr>as_register_challenges := [(replicate 16 0, 100)]\<rparr>"

theorem registration_proves_key_once_witness:
  "(\<exists>s' token. register toy_mesh toy_text (quiet 110) (V4 7) [(''x-register-challenge'', replicate 32 CHR ''0'')] toy_hello
      toy_challenged = (s', Inr token)
    \<and> (\<nexists>token'. snd (register toy_mesh toy_text (quiet 111) (V4 8) [(''x-register-challenge'', replicate 32 CHR ''0'')] toy_hello s')
        = Inr token'))"
proof -
  let ?h = "[(''x-register-challenge'', replicate 32 CHR ''0'')]"
  have h: "header_str ?h ''x-register-challenge'' = Some (replicate 32 CHR ''0'')"
    by (simp add: header_str_def header_get_def header_text_def list_all_iff)
  have d: "decode_nonce toy_mesh (replicate 32 CHR ''0'') = Some (replicate 16 0)"
    using toy_unhex_zeros [of 16] by (simp add: decode_nonce_def toy_mesh_def HELLO_NONCE_BYTES_def)
  have "is_evm_address toy_earner"
    by (simp add: is_evm_address_def toy_earner_def is_ascii_hexdigit_def is_ascii_digit_def list_all_iff)
  then have v: "validate_hello toy_mesh toy_earner ''rtx'' 24 [Terrain] n (replicate 130 CHR ''0'') = Inr ()" for n
    using toy_key by (simp add: validate_hello_iff MAX_GPU_MODEL_LEN_def MAX_VRAM_GB_def)
  obtain s' token where r: "register toy_mesh toy_text (quiet 110) (V4 7) ?h toy_hello toy_challenged = (s', Inr token)"
    using that by (simp add: register_def toy_hello_def h d v toy_challenged_def Let_def rate_section_def toy_app_def toy_config_def
        check_registration_rate_def make_room_def refill_bucket_def sat_i64_def MAX_REGISTRATION_BUCKETS_def
        REGISTRATION_WINDOW_SECS_def challenge_section_def REGISTER_CHALLENGE_TTL_SECS_def admit_section_def admit_earner_def
        admitted_def)
  from registration_proves_key_once [OF r quiet_simps(1) quiet_simps(1) refl] r show ?thesis by blast
qed

end
