(* ===== verification/Coordinator_Machine.thy ===== *)
theory Coordinator_Machine
  imports Coordinator_Props
begin

section \<open>The coordinator as a concurrent program\<close>

text \<open>
  Every task of the coordinator works on the shared state in critical sections: one lock, one change. The
  relation \<open>app_step\<close> is the changes a critical section can make; a run of the coordinator is an
  interleaving of them. A handler relies on the other tasks making only such changes while it waits
  for a lock (\<open>fair\<close>), and guarantees to make only such changes itself.
\<close>

inductive app_step :: "mesh_crates \<Rightarrow> app_state \<Rightarrow> app_state \<Rightarrow> bool" for X where
  On_Store: "store_step X (as_store s) S \<Longrightarrow> app_step X s (s\<lparr>as_store := S\<rparr>)"
| Rate_Limit: "app_step X s (fst (rate_section source now s))"
| Mint: "app_step X s (s\<lparr>as_register_challenges :=
      fst (mint_register_challenge rng (as_register_challenges s) now MAX_REGISTER_CHALLENGES)\<rparr>)"
| Redeem: "app_step X s (fst (challenge_section nonce now s))"
| Admit: "app_step X s (fst (admit_section address info now s))"
| Bump: "app_step X s (bump_last_seen address now s)"
| Forget: "app_step X s (s\<lparr>as_earners := fst (prune_stale_earners (as_earners s) now ttl)\<rparr>)"
| Shed: "app_step X s (s\<lparr>as_jobs_shed := Suc (as_jobs_shed s)\<rparr>)"

abbreviation app_steps :: "mesh_crates \<Rightarrow> app_state \<Rightarrow> app_state \<Rightarrow> bool" where
  "app_steps X \<equiv> (app_step X)\<^sup>*\<^sup>*"

definition fair :: "mesh_crates \<Rightarrow> env \<Rightarrow> bool" where
  "fair X E \<longleftrightarrow> (\<forall>k s. app_steps X s (e_turn E k s))"

subsection \<open>The invariant\<close>

definition table_ok :: "('k \<times> 'v) list \<Rightarrow> nat \<Rightarrow> bool" where
  "table_ok al m \<longleftrightarrow> distinct (map fst al) \<and> length al \<le> m"

definition app_ok :: "mesh_crates \<Rightarrow> app_state \<Rightarrow> bool" where
  "app_ok X s \<longleftrightarrow> store_ok X (as_store s) \<and> config_validate (as_config s) = Inr ()
     \<and> table_ok (as_earners s) (cf_max_earners (as_config s))
     \<and> table_ok (as_registration_buckets s) MAX_REGISTRATION_BUCKETS
     \<and> table_ok (as_register_challenges s) MAX_REGISTER_CHALLENGES"

lemma table_ok_filter: "table_ok al m \<Longrightarrow> table_ok (filter P al) m"
  by (auto simp: table_ok_def distinct_map_filter intro: order_trans [OF length_filter_le])

lemma table_ok_delete: "table_ok al m \<Longrightarrow> table_ok (AList.delete k al) m"
  using AList.length_delete_le [of k al] by (auto simp: table_ok_def distinct_delete)

lemma table_ok_update_old: "table_ok al m \<Longrightarrow> map_of al k \<noteq> None \<Longrightarrow> table_ok (AList.update k v al) m"
  by (auto simp: table_ok_def distinct_update length_update_old)

lemma table_ok_update: "table_ok al m \<Longrightarrow> length al < m \<Longrightarrow> table_ok (AList.update k v al) m"
  by (cases "map_of al k") (auto simp: table_ok_def distinct_update length_update_new length_update_old)

lemma delete_makes_room: "table_ok al m \<Longrightarrow> (k, v) \<in> set al \<Longrightarrow> length (AList.delete k al) < m"
  using length_delete [of al k] by (force simp: table_ok_def)

lemma admit_bounded:
  assumes "table_ok es m"
  shows "table_ok (fst (admit_earner es a i m now ttl)) m"
proof (cases "min_by_key (\<lambda>(_, e). ei_last_seen e) (filter (\<lambda>(_, e). \<not> is_live e now ttl) es)")
  case (Some p)
  then obtain k e where p: "p = (k, e)" "(k, e) \<in> set es" using min_by_key_Some by (cases p) fastforce
  show ?thesis
    using assms p Some delete_makes_room [OF assms p(2)] table_ok_delete [OF assms, of k]
    by (auto simp: admit_earner_def table_ok_update table_ok_update_old split: option.splits)
qed (use assms in \<open>auto simp: admit_earner_def table_ok_update table_ok_update_old split: option.splits\<close>)

lemma make_room_bounded:
  assumes "table_ok bs m" "0 < m"
  shows "table_ok (make_room bs now c l m) m \<and> length (make_room bs now c l m) < m"
proof -
  define b where "b = (if length bs \<ge> m then filter (\<lambda>(_, b). not_refilled now c l b) bs else bs)"
  have b: "table_ok b m" using assms by (simp add: b_def table_ok_filter)
  show ?thesis
  proof (cases "length b \<ge> m")
    case True
    then obtain k v where k: "min_by_key (\<lambda>(_, b). rb_last_refill b) b = Some (k, v)" "(k, v) \<in> set b"
      using assms(2) min_by_key_Some [of _ b] by (cases "min_by_key (\<lambda>(_, b). rb_last_refill b) b") auto
    then show ?thesis
      using True delete_makes_room [OF b k(2)] table_ok_delete [OF b] by (simp add: make_room_def b_def [symmetric])
  qed (use b in \<open>simp add: make_room_def b_def [symmetric]\<close>)
qed

lemma rate_bounded:
  assumes "table_ok bs m" "0 < m"
  shows "table_ok (fst (check_registration_rate bs source now c w m)) m"
proof -
  have "table_ok (AList.update source v (if map_of bs source = None then AList.update source u (make_room bs now c l m) else bs)) m"
    for u v l
    using make_room_bounded [OF assms, of now c l] assms(1)
    by (auto simp: update_twice table_ok_update table_ok_update_old)
  then show ?thesis by (simp add: check_registration_rate_def Let_def)
qed

lemma mint_table_ok:
  assumes "table_ok cs m" "0 < m"
  shows "table_ok (fst (mint_register_challenge rng cs now m)) m"
proof (cases rng)
  case (Some nonce)
  then have "mint_register_challenge (Some nonce) cs now m = (fst (mint_register_challenge rng cs now m), Some nonce)"
    by (simp add: mint_register_challenge_def Let_def)
  from mint_bounded [OF _ _ assms(2) this] show ?thesis using assms(1) by (simp add: table_ok_def)
qed (use assms in \<open>simp add: mint_register_challenge_def\<close>)

lemma app_step_config: "app_step X s s' \<Longrightarrow> as_config s' = as_config s"
  by (erule app_step.cases) (auto simp: rate_section_def challenge_section_def admit_section_def Let_def
      split: prod.splits option.splits admission.splits)

lemma app_step_ok: "app_step X s s' \<Longrightarrow> app_ok X s \<Longrightarrow> app_ok X s'"
proof (induction rule: app_step.induct)
  case (Rate_Limit s source now)
  then show ?case
    using rate_bounded [of "as_registration_buckets s" MAX_REGISTRATION_BUCKETS source now
        "cf_max_registrations (as_config s)" REGISTRATION_WINDOW_SECS]
    by (simp add: app_ok_def rate_section_def Let_def case_prod_beta MAX_REGISTRATION_BUCKETS_def)
next
  case (Admit s address info now)
  then show ?case
    using admit_bounded [of "as_earners s" "cf_max_earners (as_config s)" address info now "cf_earner_ttl_secs (as_config s)"]
    by (simp add: app_ok_def admit_section_def Let_def case_prod_beta split: admission.splits)
next
  case (Mint s rng now)
  then show ?case using mint_table_ok [of "as_register_challenges s" MAX_REGISTER_CHALLENGES rng now]
    by (simp add: app_ok_def MAX_REGISTER_CHALLENGES_def)
next
  case (Redeem s nonce now)
  then show ?case by (simp add: app_ok_def challenge_section_def table_ok_delete split: option.splits)
next
  case (Forget s now ttl)
  then show ?case by (simp add: app_ok_def prune_stale_earners_def Let_def table_ok_filter)
qed (auto simp: app_ok_def store_step_ok table_ok_def)

lemma app_steps_ok: "app_steps X s s' \<Longrightarrow> app_ok X s \<Longrightarrow> app_ok X s' \<and> as_config s' = as_config s"
  by (induction rule: rtranclp_induct) (auto simp: app_step_ok app_step_config)

subsection \<open>Handlers\<close>

text \<open>Every request, message and tick the coordinator serves, with what it leaves behind.\<close>

inductive handled :: "mesh_crates \<Rightarrow> ip_text \<Rightarrow> env \<Rightarrow> app_state \<Rightarrow> app_state \<Rightarrow> bool" for X T E where
  "handled X T E s (fst (register_challenge X E s))"
| "handled X T E s (fst (register X T E peer hs msg s))"
| "handled X T E s (fst (create_job E hs req s))"
| "handled X T E s (fst (redrive_debit E i hs s))"
| "handled X T E s (fst (redrive_all_debits E hs s))"
| "handled X T E s (fst (redrive_receipt E i hs s))"
| "handled X T E s (fst (redrive_all_receipts E hs s))"
| "handled X T E s (fst (revoke_receipt E i hs s))"
| "handled X T E s (fst (redrive_revocation E i hs s))"
| "handled X T E s (fst (redrive_all_revocations E hs s))"
| "handled X T E s (fst (dead_lettered_debits E hs s))"
| "handled X T E s (fst (dead_lettered_receipts E hs s))"
| "handled X T E s (fst (dead_lettered_revocations E hs s))"
| "handled X T E s (fst (next_job E hs earner s))"
| "handled X T E s (fst (submit X E i hs result s))"
| "handled X T E s (fst (recv_hello_inner X E source nonce frames s))"
| "handled X T E s (fst (ws_open E address s))"
| "handled X T E s (fst (fst (ws_offer E sent (s, w))))"
| "handled X T E s (fst (fst (ws_message X E msg (s, w))))"
| "handled X T E s (fst (ws_tick E since (s, w)))"
| "handled X T E s (ws_close E (s, w))"
| "(\<And>rs. set (plan rs) \<subseteq> set rs) \<Longrightarrow> handled X T E s (reaper_tick E plan s)"

lemma steps_then: "app_steps X s t \<Longrightarrow> app_step X t u \<Longrightarrow> app_steps X s u"
  by (rule rtranclp.rtrancl_into_rtrancl)

lemma turn_then: "fair X E \<Longrightarrow> app_steps X s t \<Longrightarrow> app_steps X s (e_turn E k t)"
  unfolding fair_def by (meson rtranclp_trans)

lemma store_then: "app_steps X s t \<Longrightarrow> store_steps X (as_store t) S \<Longrightarrow> app_steps X s (t\<lparr>as_store := S\<rparr>)"
proof (rotate_tac 1, induction rule: rtranclp_induct)
  case (step y z)
  then have "app_step X (t\<lparr>as_store := y\<rparr>) (t\<lparr>as_store := y\<rparr>\<lparr>as_store := z\<rparr>)" by (intro On_Store) simp
  then show ?case using step by (auto intro: steps_then)
qed simp

lemma on_store_then:
  assumes "app_steps X s t" "\<And>S. store_steps X S (fst (f S))"
  shows "app_steps X s (fst (on_store f t))"
proof -
  have "fst (on_store f t) = t\<lparr>as_store := fst (f (as_store t))\<rparr>" by (simp add: on_store_def case_prod_beta)
  then show ?thesis using store_then [OF assms(1) assms(2)] by simp
qed

lemmas section_then = steps_then [OF _ Rate_Limit] steps_then [OF _ Mint] steps_then [OF _ Redeem] steps_then [OF _ Admit]
  steps_then [OF _ Bump] steps_then [OF _ Forget] steps_then [OF _ Shed]

lemma one_step: "store_step X S S' \<Longrightarrow> store_steps X S S'"
  by (rule r_into_rtranclp)

lemma settle_sections_step:
  "store_steps X S (fst (settle_section X i n r now S))" "store_steps X S (fst (ws_settle_section X n r now S))"
  "store_steps X S (requeue_section s job n kind e S)"
proof -
  have "store_steps X S (fst (record_completed X r now S))" by (rule one_step [OF Complete])
  then show "store_steps X S (fst (settle_section X i n r now S))" "store_steps X S (fst (ws_settle_section X n r now S))"
    by (auto simp: settle_section_def ws_settle_section_def split: option.splits sum.splits bool.splits prod.splits)
  show "store_steps X S (requeue_section s job n kind e S)"
    by (auto simp: requeue_section_def intro: one_step [OF Requeue] one_step [OF Requeue_Fault] split: requeue_kind.splits)
qed

lemma operator_request_steps:
  assumes "fair X E" "\<And>S. store_steps X S (fst (f S))"
  shows "app_steps X s (fst (operator_request E hs f s))"
  using on_store_then [OF turn_then [OF assms(1)] assms(2), of s s 0] by (simp add: operator_request_def case_prod_beta Let_def)

lemma requeue_then: "fair X E \<Longrightarrow> app_steps X s t \<Longrightarrow> app_steps X s (requeue E k job n kind e t)"
  unfolding requeue_def by (intro on_store_then turn_then) (simp_all add: settle_sections_step)

lemma register_steps:
  assumes "fair X E"
  shows "app_steps X s (fst (register X T E peer hs msg s))"
  using assms by (auto simp: register_def Let_def case_prod_beta intro!: section_then turn_then
      split: earner_msg.splits option.splits sum.splits)

lemma hello_steps:
  assumes "fair X E"
  shows "app_steps X s (fst (recv_hello_inner X E source nonce frames s))"
  using assms by (induction X E source nonce frames s rule: recv_hello_inner.induct)
    (auto simp: Let_def case_prod_beta intro!: section_then turn_then split: earner_msg.splits option.splits sum.splits)

lemma submit_steps:
  assumes "fair X E"
  shows "app_steps X s (fst (submit X E i hs r s))"
proof (cases "jr_job_id r = i \<and> Option.bind (header_str hs ''x-dispatch-seq'') parse_i64 \<noteq> None \<and> gates_pass X r")
  case False
  then show ?thesis using submit_refused [of r i hs X E s] by auto
next
  case True
  then obtain n where n: "Option.bind (header_str hs ''x-dispatch-seq'') parse_i64 = Some n" by blast
  show ?thesis
    using assms True unfolding submit_eq [OF conjunct1 [OF True] n conjunct2 [OF conjunct2 [OF True]]]
    by (auto simp: Let_def case_prod_beta intro!: section_then on_store_then turn_then settle_sections_step split: sum.splits)
qed

lemma handle_submit_steps:
  assumes "fair X E"
  shows "app_steps X s (fst (handle_submit X E offered accepted r earner s))"
proof (cases "session_gates X offered accepted r earner")
  case False
  then show ?thesis using handle_submit_refused [of X offered accepted r earner E s] by simp
next
  case True
  then obtain job n where o: "offered = Some (job, n)" by (auto simp: session_gates_def)
  show ?thesis
    using assms by (auto simp: o handle_submit_eq [OF True [unfolded o]] Let_def intro!: store_then turn_then settle_sections_step)
qed

lemma ws_message_steps:
  assumes "fair X E"
  shows "app_steps X s (fst (fst (ws_message X E msg (s, w))))"
proof (cases msg)
  case (Msg_Submit r)
  let ?s = "bump_last_seen (ws_earner w) (e_clock E 2) (e_turn E 2 s)"
  have "app_steps X s ?s" using assms by (auto intro!: section_then turn_then)
  moreover have "app_steps X ?s (fst (handle_submit X E (ws_offered w) (ws_accepted w) r (ws_earner w) ?s))"
    using assms by (rule handle_submit_steps)
  ultimately have "app_steps X s (fst (handle_submit X E (ws_offered w) (ws_accepted w) r (ws_earner w) ?s))"
    by (rule rtranclp_trans)
  then show ?thesis using assms
    by (auto simp: ws_message_def Msg_Submit ws_submit_def Let_def case_prod_beta intro!: requeue_then
        split: submit_outcome.splits option.splits)
qed (use assms in \<open>auto simp: ws_message_def Let_def intro!: section_then turn_then requeue_then on_store_then
       one_step [OF Touch] split: option.splits\<close>)

lemma prune_batches_steps:
  assumes "fair X E" "\<And>rs. set (plan rs) \<subseteq> set rs" "app_steps X s (fst st)"
  shows "app_steps X s (fst (prune_batches E plan k st))"
  using assms(3)
proof (induction k arbitrary: st)
  case (Suc k)
  obtain t pruned where st: "st = (t, pruned)" by (cases st)
  have "app_steps X s (fst (on_store (prune_terminal_jobs plan (e_clock E (Suc k)) (cf_retention_secs (as_config t)) RETENTION_BATCH)
      (e_turn E (Suc k) t)))"
    using Suc.prems assms by (auto simp: st intro!: on_store_then turn_then one_step [OF Prune])
  then show ?case using Suc.IH by (simp add: st case_prod_beta Let_def)
qed simp

lemma reaper_tick_steps:
  assumes "fair X E" "\<And>rs. set (plan rs) \<subseteq> set rs"
  shows "app_steps X s (reaper_tick E plan s)"
proof -
  have "store_steps X S (reap_section c live n1 n2 n3 S)" for c live n1 n2 n3 S
    unfolding reap_section_def
    by (meson Reap_Expired Reap_Ttl Reap_Stale rtranclp.rtrancl_into_rtrancl rtranclp.rtrancl_refl)
  then show ?thesis
    unfolding reaper_tick_def Let_def prune_terminal_history_def
    using assms by (intro prune_batches_steps) (auto intro!: section_then turn_then on_store_then)
qed

lemma next_job_steps:
  assumes "fair X E"
  shows "app_steps X s (fst (next_job E hs earner s))"
  using assms unfolding next_job_def Let_def take_next_def
  by (auto simp: case_prod_beta intro!: on_store_then turn_then one_step [OF Take_Next] section_then split: option.splits)

lemma ws_offer_steps:
  assumes "fair X E"
  shows "app_steps X s (fst (fst (ws_offer E sent (s, w))))"
proof -
  have "app_steps X s (fst (take_supported_job E a ks skip s))" for a ks skip
    using assms by (auto simp: take_supported_job_def take_next_for_def intro!: on_store_then turn_then one_step [OF Take_Next])
  then show ?thesis using assms
    by (auto simp: ws_offer_def Let_def intro!: requeue_then split: prod.splits option.splits) (metis fst_conv)+
qed

lemma listing_steps: "store_steps X S (fst (listing rows tally S))"
  by (simp add: listing_def)

lemma handled_steps:
  assumes "handled X T E s s'" "fair X E"
  shows "app_steps X s s'"
  using assms
proof (induction rule: handled.induct)
  case (1 s)
  then show ?case by (auto simp: register_challenge_def Let_def case_prod_beta intro!: section_then turn_then split: option.splits)
next
  case (3 s hs req)
  then show ?case
    by (auto simp: create_job_def Let_def case_prod_beta intro!: section_then on_store_then turn_then one_step [OF Enqueue_Within_Cap]
        split: option.splits sum.splits bool.splits)
next
  case (17 s address)
  then show ?case by (auto simp: ws_open_def Let_def intro!: turn_then)
next
  case (20 s since w)
  then show ?case by (auto simp: ws_tick_def intro!: section_then turn_then)
next
  case (21 s w)
  then show ?case by (auto simp: ws_close_def intro!: requeue_then split: option.splits)
qed (auto simp: redrive_debit_def redrive_all_debits_def redrive_receipt_def redrive_all_receipts_def revoke_receipt_def
    redrive_revocation_def redrive_all_revocations_def dead_lettered_debits_def dead_lettered_receipts_def
    dead_lettered_revocations_def intro!: operator_request_steps register_steps next_job_steps submit_steps hello_steps
    ws_offer_steps ws_message_steps reaper_tick_steps listing_steps intro: one_step store_step.intros)

subsection \<open>From boot on\<close>

lemma app_steps_store: "app_steps X s s' \<Longrightarrow> store_steps X (as_store s) (as_store s')"
proof (induction rule: rtranclp_induct)
  case (step t u)
  from step.hyps(2) have "store_steps X (as_store t) (as_store u)"
    by cases (auto simp: rate_section_def challenge_section_def admit_section_def Let_def
        split: prod.splits option.splits admission.splits)
  with step.IH show ?case by (rule rtranclp_trans)
qed simp

lemma seed_steps:
  assumes "distinct (map (\<lambda>(k, job). js_id job) jobs)" "\<forall>(k, job)\<in>set jobs. js_id job \<notin> j_id ` set (st_jobs S)"
  shows "store_steps X S (fold (\<lambda>(k, job). enqueue job (clock k)) jobs S)"
  using assms
proof (induction jobs arbitrary: S)
  case (Cons p jobs)
  obtain k job where p: "p = (k, job)" by (cases p)
  have new: "js_id job \<notin> j_id ` set (st_jobs S)" using Cons.prems(2) by (simp add: p)
  have step: "store_step X S (enqueue job (clock k) S)" using new by (rule Enqueue)
  have "j_id ` set (st_jobs (enqueue job (clock k) S)) = insert (js_id job) (j_id ` set (st_jobs S))"
    using new by (simp add: enqueue_fresh new_row_def)
  moreover have "js_id job' \<noteq> js_id job \<and> js_id job' \<notin> j_id ` set (st_jobs S)" if "(k', job') \<in> set jobs" for k' job'
    using Cons.prems that imageI [OF that, of "\<lambda>(k, job). js_id job"] unfolding p by auto
  ultimately have "\<forall>(k', job')\<in>set jobs. js_id job' \<notin> j_id ` set (st_jobs (enqueue job (clock k) S))"
    by auto
  with Cons have "store_steps X (enqueue job (clock k) S) (fold (\<lambda>(k, job). enqueue job (clock k)) jobs (enqueue job (clock k) S))"
    by simp
  with step show ?case by (simp add: p converse_rtranclp_into_rtranclp)
qed simp

lemma enumerate_snd: "map (\<lambda>(k, x). f x) (List.enumerate n xs) = map f xs"
  by (induction xs arbitrary: n) auto

lemma enumerate_fst: "map (\<lambda>p. f (fst p)) (List.enumerate n xs) = map f [n..<n + length xs]"
  by (induction xs arbitrary: n) (auto simp: upt_conv_Cons simp del: upt_Suc)

lemma with_store_boots:
  assumes "with_store E S cfg = Inr s" "inj (e_uuids E)"
  shows "store_steps X S (as_store s)" "as_config s = cfg" "config_validate cfg = Inr ()"
    "as_earners s = []" "as_registration_buckets s = []" "as_register_challenges s = []"
proof -
  let ?S = "fst (recover_in_flight S)" and ?jobs = "List.enumerate 0 (seed_jobs (e_uuids E))"
  have ids: "map js_id (seed_jobs (e_uuids E)) = map (e_uuids E) [0..<length job_kind_ALL]"
    using enumerate_fst [of "e_uuids E" 0 job_kind_ALL] by (simp add: seed_jobs_def comp_def case_prod_beta)
  show v: "config_validate cfg = Inr ()" using assms(1) by (cases "config_validate cfg") (simp_all add: with_store_def)
  have "with_compute_rate_wei (st_compute_rate_wei S) ?S = ?S"
    by (simp add: with_compute_rate_wei_def recover_in_flight_def)
  then have "store_step X S ?S" using Restart [of X S "st_compute_rate_wei S"] by simp
  moreover have "store_steps X ?S (fold (\<lambda>(k, job). enqueue job (e_clock E k)) ?jobs ?S)" if "jobs_empty ?S"
  proof (rule seed_steps)
    have "map (\<lambda>(k, job). js_id job) ?jobs = map (e_uuids E) [0..<length job_kind_ALL]"
      by (simp only: ids [symmetric] enumerate_snd)
    then show "distinct (map (\<lambda>(k, job). js_id job) ?jobs)" using assms(2) by (auto simp: distinct_map intro: inj_on_subset)
    show "\<forall>(k, job)\<in>set ?jobs. js_id job \<notin> j_id ` set (st_jobs ?S)"
      using that by (simp add: jobs_empty_def count_where_def)
  qed
  moreover have "as_store s = (if jobs_empty ?S then fold (\<lambda>(k, job). enqueue job (e_clock E k)) ?jobs ?S else ?S)"
    using assms(1) v by (auto simp: with_store_def Let_def)
  ultimately show "store_steps X S (as_store s)" by (auto intro: converse_rtranclp_into_rtranclp)
  show "as_config s = cfg" "as_earners s = []" "as_registration_buckets s = []" "as_register_challenges s = []"
    using assms(1) v by (auto simp: with_store_def Let_def)
qed

lemma boot_ok:
  assumes "store_steps X store_init S" "with_store E S cfg = Inr s" "inj (e_uuids E)"
  shows "app_ok X s"
  using with_store_boots [OF assms(2,3)] store_steps_ok [OF rtranclp_trans [OF assms(1) with_store_boots(1) [OF assms(2,3)]]]
    store_init_ok by (simp add: app_ok_def table_ok_def)

text \<open>
  Property C2. The coordinator stays consistent under any interleaving. Boot it on any store it can have left
  behind, with a valid configuration and fresh ids, let any sequence of critical sections happen, and
  then let any request, session message or background tick run, with the other tasks making only
  such changes while it waits for its locks. Then it too has made only such changes; the store is one the
  store's own operations reach, so it keeps the store's invariant and everything proved of store runs;
  the registry, the rate buckets and the outstanding challenges have one entry per key and stay within
  their caps; and the configuration is the one it was booted with.
\<close>

theorem coordinator_invariant:
  assumes "store_steps X store_init S" "with_store E0 S cfg = Inr s0" "inj (e_uuids E0)" "app_steps X s0 s"
    "fair X E" "handled X T E s s'"
  shows "app_steps X s s' \<and> app_ok X s' \<and> store_steps X store_init (as_store s') \<and> as_config s' = cfg"
proof -
  have s: "app_steps X s s'" using assms(6,5) by (rule handled_steps)
  then have r: "app_steps X s0 s'" using assms(4) by (rule rtranclp_trans [rotated])
  note ok = app_steps_ok [OF r boot_ok [OF assms(1-3)]]
  have "store_steps X store_init (as_store s')"
    using assms(1) with_store_boots(1) [OF assms(2,3)] app_steps_store [OF r] by (meson rtranclp_trans)
  then show ?thesis using s ok with_store_boots(2) [OF assms(2,3)] by simp
qed

lemma quiet_fair: "fair X (quiet t)"
  by (simp add: fair_def)

theorem coordinator_invariant_witness:
  "\<exists>s0. with_store (quiet 200) toy_flying toy_config = Inr s0 \<and> app_ok toy_mesh (reaper_tick (quiet 300) (\<lambda>rs. rs) s0)"
proof -
  have "config_validate toy_config = Inr ()" by (simp add: config_validate_def toy_config_def)
  then obtain s0 where s0: "with_store (quiet 200) toy_flying toy_config = Inr s0" by (simp add: with_store_def Let_def)
  have i: "inj (e_uuids (quiet 200))" by (auto simp: quiet_def inj_def)
  have h: "handled toy_mesh toy_text (quiet 300) s0 (reaper_tick (quiet 300) (\<lambda>rs. rs) s0)" by (rule handled.intros) simp
  show ?thesis using coordinator_invariant [OF toy_reached(1) s0 i rtranclp.rtrancl_refl quiet_fair h] s0 by blast
qed

end
