(* ===== verification/Coordinator_Main.thy ===== *)
theory Coordinator_Main
  imports Coordinator_Machine
begin

section \<open>The coordinator's process (\<^verbatim>\<open>src/mesh/coordinator/src/main.rs\<close>)\<close>

text \<open>
  \<^verbatim>\<open>main\<close> from its parsed arguments: what it refuses, the state it builds, the background tasks it spawns; and
  the accept loop \<^verbatim>\<open>serve\<close>. Opening the database and binding the socket succeed. The loop is a machine over what
  the network, the connections and the operator do: a connection holds its permit until it is served, and a
  WebSocket is served, as far as the loop is concerned, once its upgrade is handed off; the session runs on by itself.
\<close>

subsection \<open>Arguments\<close>

record coordinator_args =
  ca_reap_interval_secs :: u64
  ca_max_attempts :: u32
  ca_max_faults :: u32
  ca_earner_ttl_secs :: u64
  ca_ttl_deadline_multiple :: u32
  ca_retention_secs :: u64
  ca_handshake_timeout_secs :: u64
  ca_session_idle_timeout_secs :: u64
  ca_http_header_timeout_secs :: u64
  ca_http_body_timeout_secs :: u64
  ca_max_connections :: nat
  ca_relay_interval_secs :: u64
  ca_relay_dev_mock :: bool
  ca_relay_batch_size :: nat
  ca_spender_interval_secs :: u64
  ca_spender_dev_mock :: bool
  ca_debit_batch_size :: nat
  ca_ingest_token :: "string option"
  ca_max_queued_jobs :: nat
  ca_max_earners :: nat
  ca_max_registrations :: u32
  ca_trusted_proxies :: "string list"
  ca_compute_rate_wei :: nat

datatype startup_error =
    ZeroReapInterval | ZeroRelayBatch | RelayBatchTooLarge | ZeroDebitBatch | DebitBatchTooLarge | ZeroBodyTimeout
  | BadProxies entry_error | BadConfig config_error | ZeroHeaderTimeout | ZeroConnections

definition RELAY_BATCH_SIZE_MAX :: nat where "RELAY_BATCH_SIZE_MAX = 64"
definition DEBIT_BATCH_SIZE_MAX :: nat where "DEBIT_BATCH_SIZE_MAX = 64"

definition validate_args :: "coordinator_args \<Rightarrow> startup_error + unit" where
  "validate_args a =
     (if \<not> ca_reap_interval_secs a > 0 then Inl ZeroReapInterval
      else if \<not> ca_relay_batch_size a > 0 then Inl ZeroRelayBatch
      else if \<not> ca_relay_batch_size a \<le> RELAY_BATCH_SIZE_MAX then Inl RelayBatchTooLarge
      else if \<not> ca_debit_batch_size a > 0 then Inl ZeroDebitBatch
      else if \<not> ca_debit_batch_size a \<le> DEBIT_BATCH_SIZE_MAX then Inl DebitBatchTooLarge
      else if \<not> ca_http_body_timeout_secs a > 0 then Inl ZeroBodyTimeout
      else Inr ())"

text \<open>\<^verbatim>\<open>as i64\<close> of an unsigned 64-bit number.\<close>

definition as_i64 :: "u64 \<Rightarrow> i64" where
  "as_i64 n = (if int n < 2 ^ 63 then int n else int n - 2 ^ 64)"

definition store_config_of :: "coordinator_args \<Rightarrow> trusted_cidr list \<Rightarrow> store_config" where
  "store_config_of a proxies = \<lparr>cf_max_attempts = ca_max_attempts a, cf_max_faults = ca_max_faults a,
     cf_earner_ttl_secs = as_i64 (ca_earner_ttl_secs a), cf_ttl_deadline_multiple = ca_ttl_deadline_multiple a,
     cf_retention_secs = as_i64 (ca_retention_secs a), cf_handshake_timeout = ca_handshake_timeout_secs a,
     cf_session_idle_timeout = ca_session_idle_timeout_secs a, cf_ingest_token = ca_ingest_token a,
     cf_max_queued_jobs = ca_max_queued_jobs a, cf_max_earners = ca_max_earners a,
     cf_max_registrations = ca_max_registrations a, cf_trusted_proxies = proxies\<rparr>"

subsection \<open>Boot\<close>

text \<open>The background tasks, with their intervals in seconds and their batch sizes.\<close>

datatype background = Reaper nat | Relayer nat nat | Debit_Relayer nat nat

definition spawn_relayer :: "u64 \<Rightarrow> nat \<Rightarrow> background" where
  "spawn_relayer interval_secs batch_size = Relayer (max interval_secs 1) batch_size"

definition spawn_debit_relayer :: "u64 \<Rightarrow> nat \<Rightarrow> background" where
  "spawn_debit_relayer interval_secs batch_size = Debit_Relayer (max interval_secs 1) batch_size"

definition coordinator_boot ::
  "ip_text \<Rightarrow> env \<Rightarrow> coordinator_args \<Rightarrow> store \<Rightarrow> startup_error + app_state \<times> background list" where
  "coordinator_boot T E a S =
     (case validate_args a of
        Inl e \<Rightarrow> Inl e
      | Inr _ \<Rightarrow>
          let S = with_compute_rate_wei (ca_compute_rate_wei a) S in
          (case parse_trusted_proxies T (ca_trusted_proxies a) of
             Inl e \<Rightarrow> Inl (BadProxies e)
           | Inr proxies \<Rightarrow>
               (case with_store E S (store_config_of a proxies) of
                  Inl e \<Rightarrow> Inl (BadConfig e)
                | Inr s \<Rightarrow>
                    Inr (s, Reaper (ca_reap_interval_secs a)
                      # (if ca_relay_dev_mock a then [spawn_relayer (ca_relay_interval_secs a) (ca_relay_batch_size a)] else [])
                      @ (if ca_spender_dev_mock a then [spawn_debit_relayer (ca_spender_interval_secs a) (ca_debit_batch_size a)] else [])))))"

subsection \<open>The accept loop\<close>

text \<open>
  \<open>sv_conns\<close> are the connections being served, each holding a permit, \<open>sv_sessions\<close> the upgraded WebSockets.
\<close>

record server =
  sv_next :: nat
  sv_conns :: "(nat \<times> ip_addr) list"
  sv_sessions :: "(nat \<times> ip_addr) list"
  sv_refused :: nat
  sv_draining :: bool

datatype net_event = Net_Accepted ip_addr | Net_Accept_Failed | Net_Finished nat | Net_Upgraded nat | Net_Closed nat | Net_Shutdown

definition server_start :: server where
  "server_start = \<lparr>sv_next = 0, sv_conns = [], sv_sessions = [], sv_refused = 0, sv_draining = False\<rparr>"

definition serve_event :: "nat \<Rightarrow> net_event \<Rightarrow> server \<Rightarrow> server" where
  "serve_event max_connections e v =
     (case e of
        Net_Accepted peer \<Rightarrow>
          if sv_draining v then v
          else if length (sv_conns v) < max_connections
          then v\<lparr>sv_next := sv_next v + 1, sv_conns := sv_conns v @ [(sv_next v, peer)]\<rparr>
          else v\<lparr>sv_refused := sv_refused v + 1\<rparr>
      | Net_Accept_Failed \<Rightarrow> v
      | Net_Finished i \<Rightarrow> v\<lparr>sv_conns := filter (\<lambda>c. fst c \<noteq> i) (sv_conns v)\<rparr>
      | Net_Upgraded i \<Rightarrow>
          v\<lparr>sv_conns := filter (\<lambda>c. fst c \<noteq> i) (sv_conns v), sv_sessions := sv_sessions v @ filter (\<lambda>c. fst c = i) (sv_conns v)\<rparr>
      | Net_Closed i \<Rightarrow> v\<lparr>sv_sessions := filter (\<lambda>c. fst c \<noteq> i) (sv_sessions v)\<rparr>
      | Net_Shutdown \<Rightarrow> v\<lparr>sv_draining := True\<rparr>)"

definition serve_returned :: "server \<Rightarrow> bool" where
  "serve_returned v \<longleftrightarrow> sv_draining v \<and> sv_conns v = []"

text \<open>The state of the loop after some events, up to the one with which it returns.\<close>

fun serve_run :: "nat \<Rightarrow> net_event list \<Rightarrow> server \<Rightarrow> server" where
  "serve_run max_connections [] v = v"
| "serve_run max_connections (e # es) v =
     (if serve_returned v then v else serve_run max_connections es (serve_event max_connections e v))"

definition serve :: "u64 \<Rightarrow> nat \<Rightarrow> net_event list \<Rightarrow> startup_error + server" where
  "serve header_read_timeout max_connections es =
     (if header_read_timeout = 0 then Inl ZeroHeaderTimeout
      else if \<not> max_connections > 0 then Inl ZeroConnections
      else Inr (serve_run max_connections es server_start))"

definition coordinator_main ::
  "ip_text \<Rightarrow> env \<Rightarrow> coordinator_args \<Rightarrow> store \<Rightarrow> net_event list \<Rightarrow> startup_error + app_state \<times> background list \<times> server" where
  "coordinator_main T E a S es =
     (case coordinator_boot T E a S of
        Inl e \<Rightarrow> Inl e
      | Inr (s, tasks) \<Rightarrow>
          (case serve (ca_http_header_timeout_secs a) (ca_max_connections a) es of
             Inl e \<Rightarrow> Inl e
           | Inr v \<Rightarrow> Inr (s, tasks, v)))"

subsection \<open>A coordinator that starts is sound\<close>

lemma recover_rate: "fst (recover_in_flight (with_compute_rate_wei rate S)) = with_compute_rate_wei rate (fst (recover_in_flight S))"
  by (simp add: recover_in_flight_def with_compute_rate_wei_def)

lemma recover_again: "fst (recover_in_flight (fst (recover_in_flight S))) = fst (recover_in_flight S)"
  by (simp add: recover_in_flight_def update_where_def park_def)

lemma boot_restarts:
  "with_store E (with_compute_rate_wei rate (fst (recover_in_flight S))) cfg = with_store E (with_compute_rate_wei rate S) cfg"
  by (cases "config_validate cfg") (simp_all add: with_store_def recover_rate recover_again)

definition interval_of :: "background \<Rightarrow> nat" where
  "interval_of b = (case b of Reaper n \<Rightarrow> n | Relayer n _ \<Rightarrow> n | Debit_Relayer n _ \<Rightarrow> n)"

definition task_ok :: "background \<Rightarrow> bool" where
  "task_ok b \<longleftrightarrow> 0 < interval_of b
     \<and> (case b of Reaper _ \<Rightarrow> True | Relayer _ k \<Rightarrow> 1 \<le> k \<and> k \<le> 64 | Debit_Relayer _ k \<Rightarrow> 1 \<le> k \<and> k \<le> 64)"

lemma coordinator_boot_cases:
  assumes "coordinator_boot T E a S = Inr (s, tasks)"
  obtains proxies where "parse_trusted_proxies T (ca_trusted_proxies a) = Inr proxies" "validate_args a = Inr ()"
    "with_store E (with_compute_rate_wei (ca_compute_rate_wei a) (fst (recover_in_flight S))) (store_config_of a proxies) = Inr s"
    "tasks = Reaper (ca_reap_interval_secs a)
                      # (if ca_relay_dev_mock a then [spawn_relayer (ca_relay_interval_secs a) (ca_relay_batch_size a)] else [])
                      @ (if ca_spender_dev_mock a then [spawn_debit_relayer (ca_spender_interval_secs a) (ca_debit_batch_size a)] else [])"
  using assms that unfolding boot_restarts by (auto simp: coordinator_boot_def Let_def split: sum.splits)

lemma validated_args:
  assumes "validate_args a = Inr ()"
  shows "0 < ca_reap_interval_secs a" "1 \<le> ca_relay_batch_size a \<and> ca_relay_batch_size a \<le> 64" "1 \<le> ca_debit_batch_size a \<and> ca_debit_batch_size a \<le> 64"
  using assms by (simp_all add: validate_args_def RELAY_BATCH_SIZE_MAX_def DEBIT_BATCH_SIZE_MAX_def split: if_splits)

lemma boot_tasks_ok:
  assumes "coordinator_boot T E a S = Inr (s, tasks)" "t \<in> set tasks"
  shows "task_ok t"
proof -
  obtain proxies where b: "validate_args a = Inr ()" "tasks = Reaper (ca_reap_interval_secs a)
                      # (if ca_relay_dev_mock a then [spawn_relayer (ca_relay_interval_secs a) (ca_relay_batch_size a)] else [])
                      @ (if ca_spender_dev_mock a then [spawn_debit_relayer (ca_spender_interval_secs a) (ca_debit_batch_size a)] else [])"
    using assms(1) by (rule coordinator_boot_cases)
  have "t = Reaper (ca_reap_interval_secs a) \<or> t = spawn_relayer (ca_relay_interval_secs a) (ca_relay_batch_size a)
      \<or> t = spawn_debit_relayer (ca_spender_interval_secs a) (ca_debit_batch_size a)"
    using assms(2) unfolding b(2) by (auto split: if_splits)
  then show ?thesis using validated_args [OF b(1)]
    by (elim disjE) (simp_all add: task_ok_def interval_of_def spawn_relayer_def spawn_debit_relayer_def)
qed

text \<open>The accept loop: one entry per connection ever admitted, those being served within the cap.\<close>

definition server_ok :: "nat \<Rightarrow> server \<Rightarrow> bool" where
  "server_ok max_connections v \<longleftrightarrow> length (sv_conns v) \<le> max_connections
     \<and> distinct (map fst (sv_conns v @ sv_sessions v)) \<and> (\<forall>c\<in>set (sv_conns v @ sv_sessions v). fst c < sv_next v)"

lemma serve_event_ok:
  assumes "server_ok n v"
  shows "server_ok n (serve_event n e v)"
proof (cases e)
  case (Net_Accepted peer)
  let ?v = "v\<lparr>sv_next := sv_next v + 1, sv_conns := sv_conns v @ [(sv_next v, peer)]\<rparr>"
  have old: "c \<in> set (sv_conns v @ sv_sessions v) \<Longrightarrow> fst c < sv_next v" for c using assms by (simp add: server_ok_def)
  then have "sv_next v \<notin> fst ` set (sv_conns v)" "sv_next v \<notin> fst ` set (sv_sessions v)" by fastforce+
  then have d: "distinct (map fst (sv_conns ?v @ sv_sessions ?v))" using assms by (simp add: server_ok_def)
  have "fst c < sv_next ?v" if "c \<in> set (sv_conns ?v @ sv_sessions ?v)" for c using that old [of c] by auto
  with d have "server_ok n ?v" if "length (sv_conns v) < n" using that unfolding server_ok_def by simp
  with assms Net_Accepted show ?thesis by (simp add: serve_event_def server_ok_def [of n "v\<lparr>sv_refused := _\<rparr>"]) (simp add: server_ok_def)
next
  case (Net_Upgraded i)
  have "length (filter (\<lambda>c. fst c \<noteq> i) (sv_conns v)) \<le> n" using assms by (simp add: server_ok_def) (meson le_trans length_filter_le)
  with assms Net_Upgraded show ?thesis by (auto simp: server_ok_def serve_event_def distinct_map_filter)
next
  case (Net_Finished i)
  have "length (filter (\<lambda>c. fst c \<noteq> i) (sv_conns v)) \<le> n" using assms by (simp add: server_ok_def) (meson le_trans length_filter_le)
  with assms Net_Finished show ?thesis by (auto simp: server_ok_def serve_event_def distinct_map_filter)
qed (use assms in \<open>auto simp: server_ok_def serve_event_def distinct_map_filter\<close>)

interpretation accept_loop: panic_machine "\<lambda>e v. Some (serve_event n e v)" "server_ok n" for n
  by unfold_locales (use serve_event_ok in auto)

lemma serve_run_prefix: "\<exists>fs. foldM (\<lambda>e v. Some (serve_event n e v)) fs v = Some (serve_run n es v)"
proof (induction es arbitrary: v)
  case Nil
  show ?case by (intro exI [of _ "[]"]) simp
next
  case (Cons e es)
  show ?case
  proof (cases "serve_returned v")
    case True
    then show ?thesis by (intro exI [of _ "[]"]) simp
  next
    case False
    from Cons [of "serve_event n e v"] obtain fs where "foldM (\<lambda>e v. Some (serve_event n e v)) fs (serve_event n e v) = Some (serve_run n es (serve_event n e v))"
      by blast
    with False show ?thesis by (intro exI [of _ "e # fs"]) simp
  qed
qed

lemma serve_run_ok: "server_ok n (serve_run n es server_start)"
proof -
  have "server_ok n server_start" by (simp add: server_ok_def server_start_def)
  with serve_run_prefix [of n server_start es] show ?thesis by (blast intro: accept_loop.run_keeps)
qed

text \<open>
  A coordinator that starts is sound. Whatever store an earlier process left behind, if \<^verbatim>\<open>main\<close> gets as far as
  serving, its state satisfies the coordinator's invariant on a store that the store's own operations reach, with the
  configuration of the command line; the reaper runs, no background task has an empty interval, and no batch exceeds
  what the contracts take; and however the network behaves, at most \<^verbatim>\<open>max_connections\<close> connections are being
  served at once, each accepted connection once.
\<close>

theorem coordinator_starts_sound:
  assumes "store_steps X store_init S" "inj (e_uuids E)" "coordinator_main T E a S es = Inr (s, tasks, v)"
  shows "app_ok X s \<and> store_steps X store_init (as_store s)
    \<and> (\<exists>proxies. parse_trusted_proxies T (ca_trusted_proxies a) = Inr proxies \<and> as_config s = store_config_of a proxies)
    \<and> Reaper (ca_reap_interval_secs a) \<in> set tasks \<and> (\<forall>t\<in>set tasks. task_ok t)
    \<and> length (sv_conns v) \<le> ca_max_connections a \<and> distinct (map fst (sv_conns v @ sv_sessions v))"
proof -
  have b: "coordinator_boot T E a S = Inr (s, tasks)" and v: "v = serve_run (ca_max_connections a) es server_start"
    using assms(3) by (auto simp: coordinator_main_def serve_def split: sum.splits if_splits)
  obtain proxies where c: "parse_trusted_proxies T (ca_trusted_proxies a) = Inr proxies" "Reaper (ca_reap_interval_secs a) \<in> set tasks"
    "with_store E (with_compute_rate_wei (ca_compute_rate_wei a) (fst (recover_in_flight S))) (store_config_of a proxies) = Inr s"
    using b by (rule coordinator_boot_cases) (use that in auto)
  have st: "store_steps X store_init (with_compute_rate_wei (ca_compute_rate_wei a) (fst (recover_in_flight S)))"
    using assms(1) by (rule rtranclp.rtrancl_into_rtrancl) (rule store_step.Restart)
  note w = with_store_boots [OF c(3) assms(2)]
  have "store_steps X store_init (as_store s)" using st w(1) by (rule rtranclp_trans)
  with boot_ok [OF st c(3) assms(2)] w(2) c(1,2) boot_tasks_ok [OF b] serve_run_ok [of "ca_max_connections a" es]
  show ?thesis by (auto simp: v server_ok_def)
qed

subsection \<open>Shutdown\<close>

text \<open>
  Once a shutdown is signalled nothing is accepted, and the loop returns as soon as what it serves is finished or
  handed off. WebSocket sessions are none of that: they hold no permit, so any number of them runs under a cap of
  one, and the loop returns while they run.
\<close>

lemma draining_accepts_nothing:
  assumes "sv_draining v"
  shows "sv_next (serve_run n es v) = sv_next v \<and> sv_refused (serve_run n es v) = sv_refused v \<and> sv_draining (serve_run n es v)"
  using assms
proof (induction es arbitrary: v)
  case (Cons e es)
  have "sv_draining (serve_event n e v) \<and> sv_next (serve_event n e v) = sv_next v \<and> sv_refused (serve_event n e v) = sv_refused v"
    using Cons.prems by (simp add: serve_event_def split: net_event.splits)
  with Cons show ?case by simp
qed simp

lemma drained_returns:
  "sv_draining v \<Longrightarrow> serve_returned (serve_run n (map (Net_Finished \<circ> fst) (sv_conns v)) v)"
proof -
  have "serve_returned (serve_run n (map (Net_Finished \<circ> fst) cs) u)" if "sv_draining u" "set (sv_conns u) \<subseteq> set cs" for cs u
    using that
  proof (induction cs arbitrary: u)
    case (Cons c cs)
    have "sv_draining (serve_event n (Net_Finished (fst c)) u)" "set (sv_conns (serve_event n (Net_Finished (fst c)) u)) \<subseteq> set cs"
      using Cons.prems by (auto simp: serve_event_def)
    with Cons.IH show ?case by simp
  qed (simp add: serve_returned_def)
  then show "sv_draining v \<Longrightarrow> serve_returned (serve_run n (map (Net_Finished \<circ> fst) (sv_conns v)) v)" by blast
qed

lemma sessions_escape_cap_and_drain:
  "\<exists>es v. serve 15 1 es = Inr v \<and> serve_returned v \<and> length (sv_sessions v) = k"
proof -
  define es where "es k = concat (map (\<lambda>i. [Net_Accepted (V4 0), Net_Upgraded i]) [0..<k])" for k
  define up where "up k = \<lparr>sv_next = k, sv_conns = [], sv_sessions = map (\<lambda>i. (i, V4 0)) [0..<k], sv_refused = 0, sv_draining = False\<rparr>" for k
  have "serve_run 1 (es k @ fs) server_start = serve_run 1 fs (up k)" for fs
    by (induction k arbitrary: fs) (simp_all add: es_def up_def server_start_def serve_returned_def serve_event_def)
  then have "serve_run 1 (es k @ [Net_Shutdown]) server_start = (up k)\<lparr>sv_draining := True\<rparr>"
    by (simp add: up_def serve_returned_def serve_event_def)
  then show ?thesis
    by (intro exI [of _ "es k @ [Net_Shutdown]"] exI [of _ "(up k)\<lparr>sv_draining := True\<rparr>"] conjI)
      (simp_all add: serve_def serve_returned_def up_def)
qed

definition boot_args :: coordinator_args where
  "boot_args = \<lparr>ca_reap_interval_secs = 5, ca_max_attempts = 5, ca_max_faults = 10, ca_earner_ttl_secs = 60, ca_ttl_deadline_multiple = 10,
     ca_retention_secs = 1000, ca_handshake_timeout_secs = 10, ca_session_idle_timeout_secs = 90, ca_http_header_timeout_secs = 15,
     ca_http_body_timeout_secs = 30, ca_max_connections = 2, ca_relay_interval_secs = 0, ca_relay_dev_mock = True, ca_relay_batch_size = 32,
     ca_spender_interval_secs = 10, ca_spender_dev_mock = False, ca_debit_batch_size = 32, ca_ingest_token = Some ''secret'',
     ca_max_queued_jobs = 100, ca_max_earners = 10, ca_max_registrations = 5, ca_trusted_proxies = [''10.0.0.0/8''], ca_compute_rate_wei = 3\<rparr>"

theorem coordinator_starts_sound_witness:
  "\<exists>s tasks v. coordinator_main toy_text (quiet 200) boot_args toy_flying
      [Net_Accepted (V4 1), Net_Accepted (V4 2), Net_Accepted (V4 3), Net_Finished 0, Net_Accepted (V4 4)] = Inr (s, tasks, v)
    \<and> app_ok toy_mesh s \<and> tasks = [Reaper 5, Relayer 1 32] \<and> (\<forall>t\<in>set tasks. task_ok t) \<and> sv_conns v = [(1, V4 2), (2, V4 4)]"
proof -
  let ?es = "[Net_Accepted (V4 1), Net_Accepted (V4 2), Net_Accepted (V4 3), Net_Finished 0, Net_Accepted (V4 4)]"
  let ?cfg = "store_config_of boot_args [\<lparr>tc_network = V4 0x0A000000, tc_prefix = 8\<rparr>]"
  have "config_validate ?cfg = Inr ()" by (simp add: config_validate_def store_config_of_def boot_args_def as_i64_def trim_def is_space_def)
  then obtain s where "with_store (quiet 200) (with_compute_rate_wei 3 toy_flying) ?cfg = Inr s" by (simp add: with_store_def Let_def)
  moreover have "validate_args boot_args = Inr ()"
    by (simp add: validate_args_def boot_args_def RELAY_BATCH_SIZE_MAX_def DEBIT_BATCH_SIZE_MAX_def)
  moreover have "ca_trusted_proxies boot_args = [''10.0.0.0/8'']" "ca_compute_rate_wei boot_args = 3" by (simp_all add: boot_args_def)
  ultimately have b: "coordinator_boot toy_text (quiet 200) boot_args toy_flying = Inr (s, [Reaper 5, Relayer 1 32])"
    using toy_trusted by (simp add: coordinator_boot_def spawn_relayer_def del: parse_trusted_proxies.simps) (simp add: boot_args_def)
  have "serve_run 2 ?es server_start = \<lparr>sv_next = 3, sv_conns = [(1, V4 2), (2, V4 4)], sv_sessions = [], sv_refused = 1, sv_draining = False\<rparr>"
    by (simp add: server_start_def serve_returned_def serve_event_def)
  with b have m: "coordinator_main toy_text (quiet 200) boot_args toy_flying ?es = Inr (s, [Reaper 5, Relayer 1 32],
      \<lparr>sv_next = 3, sv_conns = [(1, V4 2), (2, V4 4)], sv_sessions = [], sv_refused = 1, sv_draining = False\<rparr>)"
    by (simp add: coordinator_main_def serve_def boot_args_def)
  have i: "inj (e_uuids (quiet 200))" by (auto simp: quiet_def inj_def)
  from coordinator_starts_sound [OF toy_reached(1) i m] m show ?thesis by (intro exI conjI) auto
qed

end
