(* ===== verification/Arena_Map.thy ===== *)
theory Arena_Map
  imports Replay
begin

section \<open>Arena maps (\<^verbatim>\<open>src/arena/core/src/lib.rs\<close>)\<close>

text \<open>
  The static geometry a match plays under, authored as JSON. Parsing JSON is \<^verbatim>\<open>serde_json\<close>'s and the text of
  the reference arena is an asset embedded at compile time: both are fields of \<open>map_source\<close>. What the code
  does with a parsed map, its bounds in order and the resolution of arena keys, is modelled.
\<close>

record arena_geometry =
  am_blockers :: "blocker list"
  am_pickups :: "pickup_spawn list"

definition empty_map :: arena_geometry where
  "empty_map = \<lparr>am_blockers = [], am_pickups = []\<rparr>"

record map_source =
  parse_map :: "string \<Rightarrow> string + arena_geometry"
  reference_json :: string

datatype arena_map_error =
    Map_Parse string
  | Map_TooManyBlockers nat nat
  | Map_TooManyPickups nat nat
  | Map_DegenerateBlocker nat
  | Map_EmptyPickup nat

fun first_index :: "('a \<Rightarrow> bool) \<Rightarrow> nat \<Rightarrow> 'a list \<Rightarrow> nat option" where
  "first_index P i [] = None"
| "first_index P i (x # xs) = (if P x then Some i else first_index P (i + 1) xs)"

definition degenerate :: "blocker \<Rightarrow> bool" where
  "degenerate b \<longleftrightarrow> vx (b_min b) > vx (b_max b) \<or> vy (b_min b) > vy (b_max b)"

definition from_json :: "map_source \<Rightarrow> string \<Rightarrow> arena_map_error + arena_geometry" where
  "from_json F json =
     (case parse_map F json of
        Inl msg \<Rightarrow> Inl (Map_Parse msg)
      | Inr m \<Rightarrow>
          if length (am_blockers m) > MAX_REPLAY_BLOCKERS
          then Inl (Map_TooManyBlockers (length (am_blockers m)) MAX_REPLAY_BLOCKERS)
          else if length (am_pickups m) > MAX_REPLAY_PICKUPS
          then Inl (Map_TooManyPickups (length (am_pickups m)) MAX_REPLAY_PICKUPS)
          else case first_index degenerate 0 (am_blockers m) of
            Some i \<Rightarrow> Inl (Map_DegenerateBlocker i)
          | None \<Rightarrow> (case first_index (\<lambda>p. ps_amount p = 0) 0 (am_pickups m) of
              Some i \<Rightarrow> Inl (Map_EmptyPickup i)
            | None \<Rightarrow> Inr m))"

text \<open>\<^verbatim>\<open>expect\<close> panics when the embedded asset is not a valid map.\<close>

definition reference_arena :: "map_source \<Rightarrow> arena_geometry option" where
  "reference_arena F = (case from_json F (reference_json F) of Inr m \<Rightarrow> Some m | Inl _ \<Rightarrow> None)"

definition NAMED_ARENAS :: "(string \<times> (map_source \<Rightarrow> arena_geometry option)) list" where
  "NAMED_ARENAS = [(''reference'', reference_arena)]"

definition arena_map :: "map_source \<Rightarrow> string \<Rightarrow> arena_geometry option" where
  "arena_map F key = (case map_of NAMED_ARENAS key of None \<Rightarrow> Some empty_map | Some load \<Rightarrow> load F)"

definition named_arena :: "string \<Rightarrow> string option" where
  "named_arena key = map_option fst (List.find (\<lambda>(k, _). k = key) NAMED_ARENAS)"

subsection \<open>A loaded map passes verification\<close>

lemma first_index_None [simp]: "first_index P i xs = None \<longleftrightarrow> (\<forall>x\<in>set xs. \<not> P x)"
  by (induction P i xs rule: first_index.induct) auto

lemma first_index_Some: "first_index P i xs = Some j \<Longrightarrow> \<exists>x\<in>set xs. P x"
  using first_index_None [of P i xs] by auto

lemma blockers_well_formed: "check_blockers i bs = None \<longleftrightarrow> (\<forall>b\<in>set bs. \<not> degenerate b)"
  by (induction i bs rule: check_blockers.induct) (auto simp: degenerate_def)

text \<open>What \<^verbatim>\<open>from_json\<close> accepts is the parsed map, and one none of the geometry guards of \<^verbatim>\<open>verify\<close> refuses.\<close>

lemma from_json_accepts:
  "from_json F json = Inr m \<longleftrightarrow> parse_map F json = Inr m \<and> length (am_blockers m) \<le> MAX_REPLAY_BLOCKERS
     \<and> length (am_pickups m) \<le> MAX_REPLAY_PICKUPS \<and> check_blockers 0 (am_blockers m) = None
     \<and> (\<forall>p\<in>set (am_pickups m). ps_amount p \<noteq> 0)"
  by (auto simp: from_json_def blockers_well_formed split: sum.splits option.splits dest: first_index_Some)

lemma arena_map_ok:
  assumes "arena_map F key = Some m"
  shows "length (am_blockers m) \<le> MAX_REPLAY_BLOCKERS \<and> length (am_pickups m) \<le> MAX_REPLAY_PICKUPS
    \<and> check_blockers 0 (am_blockers m) = None"
  using assms by (auto simp: arena_map_def NAMED_ARENAS_def reference_arena_def from_json_accepts empty_map_def
      split: if_splits option.splits sum.splits)

end
