(* ===== verification/Matchmaking.thy ===== *)
theory Matchmaking
  imports Arena_Map Rating Mesh_Gate "HOL-Library.List_Lexorder" "HOL-Library.Char_ord"
begin

section \<open>Matchmaking (\<^verbatim>\<open>src/arena/match/src/lib.rs\<close>)\<close>

text \<open>
  Who may sit down, who plays whom, and what a result does to the ladder. The matchmaker's state is one
  record behind one mutex; a function on it is one critical section. Joining takes the lock twice, to
  form the roster and to register it: \<open>turn\<close> is what other callers do in between. The fresh match id is
  an argument. A \<^verbatim>\<open>BTreeMap\<close> is a key-sorted association list. An assertion that fails is \<open>None\<close>.
\<close>

subsection \<open>Identity\<close>

datatype join_verify_error =
    Join_BadSignatureEncoding | Join_NonCanonicalSignature | Join_Unrecoverable | Join_AddressMismatch

definition verify_join_signature :: "mesh_crates \<Rightarrow> u32 \<Rightarrow> string \<Rightarrow> nat list \<Rightarrow> string \<Rightarrow> join_verify_error + unit" where
  "verify_join_signature X version agent_id nonce signature_hex =
     (case hex_decode X (case strip_prefix ''0x'' signature_hex of Some s \<Rightarrow> s | None \<Rightarrow> signature_hex) of
        None \<Rightarrow> Inl Join_BadSignatureEncoding
      | Some raw \<Rightarrow>
          if length raw \<noteq> 65 then Inl Join_BadSignatureEncoding
          else case sig_from_slice X (take 64 raw) of
            None \<Rightarrow> Inl Join_BadSignatureEncoding
          | Some sig \<Rightarrow>
              if sig_is_high_s X sig then Inl Join_NonCanonicalSignature
              else case recid_from_byte X (raw ! 64) of
                None \<Rightarrow> Inl Join_BadSignatureEncoding
              | Some recid \<Rightarrow>
                  (case recover_key X (join_digest (crates.truncate X) version agent_id nonce) sig recid of
                     None \<Rightarrow> Inl Join_Unrecoverable
                   | Some vk \<Rightarrow>
                       if eq_ignore_ascii_case (address_from_verifying_key X vk) agent_id
                       then Inr () else Inl Join_AddressMismatch))"

text \<open>\<^verbatim>\<open>IdentityVerifier\<close>: agent id, the connection's nonce, and the signature or token.\<close>

type_synonym verifier = "string \<Rightarrow> nat list \<Rightarrow> string \<Rightarrow> bool"

definition signature_verifier :: "mesh_crates \<Rightarrow> verifier" where
  "signature_verifier X agent_id nonce signature_hex \<longleftrightarrow>
     verify_join_signature X PROTOCOL_VERSION agent_id nonce signature_hex = Inr ()"

definition stub_verifier :: "(string, string) btree \<Rightarrow> verifier" where
  "stub_verifier authorized agent_id nonce token \<longleftrightarrow> token \<noteq> [] \<and> bt_get authorized agent_id = Some token"

definition authorize :: "string \<Rightarrow> string \<Rightarrow> (string, string) btree \<Rightarrow> (string, string) btree" where
  "authorize agent_id token authorized = bt_insert agent_id token authorized"

type_synonym registry_snapshot = "(string, int) btree"

definition from_entries :: "(string \<times> int) list \<Rightarrow> registry_snapshot" where
  "from_entries entries = bt_collect (map (\<lambda>(a, r). (to_ascii_lowercase a, r)) entries)"

definition from_addresses :: "string list \<Rightarrow> registry_snapshot" where
  "from_addresses addrs = bt_collect (map (\<lambda>a. (to_ascii_lowercase a, 0)) addrs)"

definition is_registered :: "registry_snapshot \<Rightarrow> string \<Rightarrow> bool" where
  "is_registered reg agent_id \<longleftrightarrow> bt_get reg (to_ascii_lowercase agent_id) \<noteq> None"

definition reputation_of :: "registry_snapshot \<Rightarrow> string \<Rightarrow> int option" where
  "reputation_of reg agent_id = bt_get reg (to_ascii_lowercase agent_id)"

subsection \<open>Requests and admission\<close>

record join_request =
  jq_agent_id :: string
  jq_kind :: controller_kind
  jq_token :: "string option"

definition human_request :: "string \<Rightarrow> join_request" where
  "human_request agent_id = \<lparr>jq_agent_id = agent_id, jq_kind = Ctl_Human, jq_token = None\<rparr>"

definition casual_agent :: "string \<Rightarrow> join_request" where
  "casual_agent agent_id = \<lparr>jq_agent_id = agent_id, jq_kind = Ctl_Agent, jq_token = None\<rparr>"

definition ranked_agent :: "string \<Rightarrow> string \<Rightarrow> join_request" where
  "ranked_agent agent_id token = \<lparr>jq_agent_id = agent_id, jq_kind = Ctl_Agent, jq_token = Some token\<rparr>"

definition presented_token :: "join_request \<Rightarrow> string option" where
  "presented_token req = (case jq_token req of Some t \<Rightarrow> if t = [] then None else Some t | None \<Rightarrow> None)"

datatype join_error =
    WrongKindForMode match_mode controller_kind
  | Unauthenticated string
  | NotRegistered string
  | ReputationBelowFloor string int int

record match_params =
  mp_seats_per_match :: u8
  mp_team_size :: u8
  mp_tick_hz :: u16
  mp_max_ticks :: u64
  mp_bounds :: vec2
  mp_arena :: string
  mp_ranked_rating_tolerance :: i32
  mp_max_pending_ranked :: nat
  mp_rules :: rules
  mp_map :: "arena_geometry option"

definition default_params :: match_params where
  "default_params = \<lparr>mp_seats_per_match = 2, mp_team_size = 1, mp_tick_hz = 30, mp_max_ticks = 3600,
     mp_bounds = \<lparr>vx = 50 * POSITION_SCALE, vy = 50 * POSITION_SCALE\<rparr>, mp_arena = [],
     mp_ranked_rating_tolerance = 2 ^ 31 - 1, mp_max_pending_ranked = 4096, mp_rules = default_rules, mp_map = None\<rparr>"

text \<open>The immutable part of a \<^verbatim>\<open>Matchmaker\<close>: its verifier, parameters and ranked gates.\<close>

record maker =
  mk_verifier :: verifier
  mk_params :: match_params
  mk_ranked_registry :: "registry_snapshot option"
  mk_reputation_floor :: int

record seated =
  sd_agent_id :: string
  sd_kind :: controller_kind

record queues =
  q_human :: "seated list"
  q_agent :: "seated list"
  q_mixed :: "seated list"

definition queue_for :: "match_mode \<Rightarrow> queues \<Rightarrow> seated list" where
  "queue_for mode q = (case mode of Mode_Human \<Rightarrow> q_human q | Mode_Agent \<Rightarrow> q_agent q | Mode_Mixed \<Rightarrow> q_mixed q)"

definition set_queue :: "match_mode \<Rightarrow> seated list \<Rightarrow> queues \<Rightarrow> queues" where
  "set_queue mode xs q =
     (case mode of Mode_Human \<Rightarrow> q\<lparr>q_human := xs\<rparr> | Mode_Agent \<Rightarrow> q\<lparr>q_agent := xs\<rparr> | Mode_Mixed \<Rightarrow> q\<lparr>q_mixed := xs\<rparr>)"

record pending_ranked =
  pr_seq :: u64
  pr_agents :: "string list"

record mm_state =
  mm_queues :: queues
  mm_ratings :: "(string, i32) btree"
  mm_pending :: "(uuid, pending_ranked) btree"
  mm_next_seq :: u64
  mm_evictions :: nat

definition mm_empty :: mm_state where
  "mm_empty = \<lparr>mm_queues = \<lparr>q_human = [], q_agent = [], q_mixed = []\<rparr>, mm_ratings = [], mm_pending = [],
     mm_next_seq = 0, mm_evictions = 0\<rparr>"

definition params_ok :: "match_params \<Rightarrow> bool" where
  "params_ok p \<longleftrightarrow> mp_seats_per_match p \<ge> 2 \<and> mp_team_size p \<ge> 1
     \<and> mp_seats_per_match p mod mp_team_size p = 0 \<and> mp_seats_per_match p div mp_team_size p \<ge> 2"

definition matchmaker_new :: "verifier \<Rightarrow> match_params \<Rightarrow> (maker \<times> mm_state) option" where
  "matchmaker_new V p =
     (if params_ok p
      then Some (\<lparr>mk_verifier = V, mk_params = p, mk_ranked_registry = None, mk_reputation_floor = - (2 ^ 127)\<rparr>, mm_empty)
      else None)"

definition with_ranked_registry :: "registry_snapshot option \<Rightarrow> maker \<Rightarrow> maker" where
  "with_ranked_registry reg mk = mk\<lparr>mk_ranked_registry := reg\<rparr>"

definition with_ranked_reputation_floor :: "int \<Rightarrow> maker \<Rightarrow> maker" where
  "with_ranked_reputation_floor lowest mk = mk\<lparr>mk_reputation_floor := lowest\<rparr>"

definition LADDER_SNAPSHOT_VERSION :: u32 where "LADDER_SNAPSHOT_VERSION = 1"

record ladder_snapshot =
  ls_version :: u32
  ls_ratings :: "(string, i32) btree"

datatype snapshot_error = Snapshot_Version u32 u32

definition from_snapshot :: "verifier \<Rightarrow> match_params \<Rightarrow> ladder_snapshot \<Rightarrow> (snapshot_error + maker \<times> mm_state) option" where
  "from_snapshot V p snap =
     (if ls_version snap \<noteq> LADDER_SNAPSHOT_VERSION
      then Some (Inl (Snapshot_Version (ls_version snap) LADDER_SNAPSHOT_VERSION))
      else case matchmaker_new V p of
        None \<Rightarrow> None
      | Some (mk, st) \<Rightarrow> Some (Inr (mk, st\<lparr>mm_ratings := ls_ratings snap\<rparr>)))"

definition ladder_of :: "mm_state \<Rightarrow> ladder_snapshot" where
  "ladder_of st = \<lparr>ls_version = LADDER_SNAPSHOT_VERSION, ls_ratings = mm_ratings st\<rparr>"

definition rating :: "mm_state \<Rightarrow> string \<Rightarrow> i32 option" where
  "rating st agent_id = bt_get (mm_ratings st) agent_id"

definition waiting :: "match_mode \<Rightarrow> mm_state \<Rightarrow> nat" where
  "waiting mode st = length (queue_for mode (mm_queues st))"

definition unsettled_ranked :: "mm_state \<Rightarrow> nat" where
  "unsettled_ranked st = length (mm_pending st)"

definition admit :: "maker \<Rightarrow> match_mode \<Rightarrow> nat list \<Rightarrow> join_request \<Rightarrow> join_error + unit" where
  "admit mk mode nonce req =
     (if mode = Mode_Human \<and> jq_kind req = Ctl_Agent \<or> mode = Mode_Agent \<and> jq_kind req = Ctl_Human
      then Inl (WrongKindForMode mode (jq_kind req))
      else if jq_kind req = Ctl_Agent
      then case presented_token req of
          Some token \<Rightarrow>
            if \<not> mk_verifier mk (jq_agent_id req) nonce token then Inl (Unauthenticated (jq_agent_id req))
            else if mode = Mode_Agent
            then (case mk_ranked_registry mk of
                    None \<Rightarrow> Inr ()
                  | Some reg \<Rightarrow>
                      (case reputation_of reg (jq_agent_id req) of
                         None \<Rightarrow> Inl (NotRegistered (jq_agent_id req))
                       | Some reputation \<Rightarrow>
                           if reputation < mk_reputation_floor mk
                           then Inl (ReputationBelowFloor (jq_agent_id req) reputation (mk_reputation_floor mk))
                           else Inr ()))
            else Inr ()
        | None \<Rightarrow> if mode = Mode_Agent then Inl (Unauthenticated (jq_agent_id req)) else Inr ()
      else Inr ())"

subsection \<open>Selection\<close>

definition RANKED_FORCE_POOL_MULTIPLE :: nat where "RANKED_FORCE_POOL_MULTIPLE = 2"

definition rating_or_default :: "(string, i32) btree \<Rightarrow> string \<Rightarrow> i32" where
  "rating_or_default ratings a = (case bt_get ratings a of Some r \<Rightarrow> r | None \<Rightarrow> DEFAULT_RATING)"

definition select_ranked :: "seated list \<Rightarrow> (string, i32) btree \<Rightarrow> nat \<Rightarrow> i32 \<Rightarrow> nat list option" where
  "select_ranked queue ratings seats tolerance =
     (if seats = 0 \<or> length queue < seats then None
      else
        let gap = (\<lambda>i. \<bar>rating_or_default ratings (sd_agent_id (queue ! i)) - rating_or_default ratings (sd_agent_id (queue ! 0))\<bar>);
            others = sort_key (\<lambda>i. (gap i, i)) [1..<length queue];
            picks = 0 # take (seats - 1) others;
            max_gap = Max (set (map gap picks))
        in if max_gap \<le> tolerance \<or> length queue \<ge> min (seats * RANKED_FORCE_POOL_MULTIPLE) (2 ^ 64 - 1)
           then Some picks else None)"

definition position :: "('a \<Rightarrow> bool) \<Rightarrow> 'a list \<Rightarrow> nat option" where
  "position P xs = map_option fst (List.find (\<lambda>(_, x). P x) (List.enumerate 0 xs))"

definition select_mixed :: "seated list \<Rightarrow> nat \<Rightarrow> nat list option" where
  "select_mixed queue seats =
     (if seats < 2 then None
      else do {
        first_human \<leftarrow> position (\<lambda>s. sd_kind s = Ctl_Human) queue;
        first_agent \<leftarrow> position (\<lambda>s. sd_kind s = Ctl_Agent) queue;
        Some ([first_human, first_agent]
              @ take (seats - 2) (filter (\<lambda>i. i \<noteq> first_human \<and> i \<noteq> first_agent) [0..<length queue])) })"

definition composition_ok :: "match_mode \<Rightarrow> seated list \<Rightarrow> bool" where
  "composition_ok mode crew =
     (let agents = length (filter (\<lambda>s. sd_kind s = Ctl_Agent) crew); humans = length crew - agents
      in case mode of
           Mode_Human \<Rightarrow> agents = 0 \<and> humans > 0
         | Mode_Agent \<Rightarrow> humans = 0 \<and> agents > 0
         | Mode_Mixed \<Rightarrow> humans > 0 \<and> agents > 0)"

text \<open>\<open>picks.iter().rev().map(|i| queue.remove(i))\<close>: removal from the back.\<close>

fun remove_picks :: "nat list \<Rightarrow> 'a list \<Rightarrow> 'a list \<times> 'a list" where
  "remove_picks [] queue = ([], queue)"
| "remove_picks (i # is) queue =
     (let (rest, queue') = remove_picks is (take i queue @ drop (Suc i) queue) in (queue ! i # rest, queue'))"

definition try_form ::
  "match_mode \<Rightarrow> seated list \<Rightarrow> (string, i32) btree \<Rightarrow> nat \<Rightarrow> i32 \<Rightarrow> seated list \<times> seated list option" where
  "try_form mode queue ratings seats tolerance =
     (if seats = 0 \<or> length queue < seats then (queue, None)
      else case (case mode of
                   Mode_Human \<Rightarrow> Some [0..<seats]
                 | Mode_Agent \<Rightarrow> select_ranked queue ratings seats tolerance
                 | Mode_Mixed \<Rightarrow> select_mixed queue seats) of
        None \<Rightarrow> (queue, None)
      | Some picks \<Rightarrow>
          let (removed, queue') = remove_picks (rev (sort picks)) queue in (queue', Some (rev removed)))"

subsection \<open>Formation\<close>

definition seed_for_match :: "uuid \<Rightarrow> u64" where
  "seed_for_match match_id =
     (let value = (\<lambda>bs. foldl (\<lambda>n b. 256 * n + b) 0 bs)
      in unat ((of_nat (value (take 8 match_id)) :: 64 word) XOR of_nat (value (take 8 (drop 8 match_id)))))"

definition TEAM_ASSIGN_DOMAIN :: "64 word" where "TEAM_ASSIGN_DOMAIN = 0x7465616d5f763031"

definition swap :: "nat \<Rightarrow> nat \<Rightarrow> 'a list \<Rightarrow> 'a list" where
  "swap i j xs = xs[i := xs ! j, j := xs ! i]"

fun fisher_yates :: "nat \<Rightarrow> 64 word \<Rightarrow> 'a list \<Rightarrow> 'a list" where
  "fisher_yates 0 s xs = xs"
| "fisher_yates (Suc i) s xs =
     (let (r, s') = next_u64 s in fisher_yates i s' (swap (Suc i) (unat r mod (Suc i + 1)) xs))"

definition assign_teams :: "uuid \<Rightarrow> nat \<Rightarrow> nat \<Rightarrow> team_id list" where
  "assign_teams match_id seats team_size =
     (if team_size \<le> 1 then map (\<lambda>i. i mod 2 ^ 16) [0..<seats]
      else let labels = concat (map (\<lambda>t. replicate team_size (t mod 2 ^ 16)) [0..<seats div team_size])
           in fisher_yates (length labels - 1) (of_nat (seed_for_match match_id) XOR TEAM_ASSIGN_DOMAIN) labels)"

definition roster_seats :: "uuid \<Rightarrow> match_params \<Rightarrow> seated list \<Rightarrow> seat_info list" where
  "roster_seats match_id p crew =
     map (\<lambda>(i, s, t). \<lparr>si_seat = i mod 256, si_team = t, si_controller = sd_agent_id s\<rparr>)
       (List.enumerate 0 (zip crew (assign_teams match_id (length crew) (mp_team_size p))))"

definition oldest_pending :: "(uuid, pending_ranked) btree \<Rightarrow> uuid option" where
  "oldest_pending pend =
     (case pend of [] \<Rightarrow> None
      | p # ps \<Rightarrow> Some (fst (fold (\<lambda>q best. if pr_seq (snd q) < pr_seq (snd best) then q else best) ps p)))"

definition register_ranked :: "match_params \<Rightarrow> uuid \<Rightarrow> string list \<Rightarrow> mm_state \<Rightarrow> mm_state" where
  "register_ranked p match_id agents st =
     (let st1 = st\<lparr>mm_next_seq := min (mm_next_seq st + 1) (2 ^ 64 - 1),
                   mm_pending := bt_insert match_id \<lparr>pr_seq = mm_next_seq st, pr_agents = agents\<rparr> (mm_pending st)\<rparr>;
          cap = mp_max_pending_ranked p
      in if cap \<noteq> 0 \<and> length (mm_pending st1) > cap
         then case oldest_pending (mm_pending st1) of
                Some i \<Rightarrow> st1\<lparr>mm_pending := bt_remove i (mm_pending st1), mm_evictions := min (mm_evictions st1 + 1) (2 ^ 64 - 1)\<rparr>
              | None \<Rightarrow> st1
         else st1)"

definition build_match :: "map_source \<Rightarrow> match_params \<Rightarrow> uuid \<Rightarrow> seat_info list \<Rightarrow> arena_match option" where
  "build_match F p match_id seats =
     do { geometry \<leftarrow> (case mp_map p of Some m \<Rightarrow> Some m | None \<Rightarrow> arena_map F (mp_arena p));
          new_with_pickups match_id
            \<lparr>tick_hz = mp_tick_hz p, max_ticks = mp_max_ticks p, bounds = mp_bounds p, cfg_seats = length seats mod 256\<rparr>
            (mp_rules p) seats (am_blockers geometry) (am_pickups geometry) (seed_for_match match_id) }"

datatype join_outcome = Join_Queued | Join_Formed arena_match

definition join_section :: "maker \<Rightarrow> match_mode \<Rightarrow> seated \<Rightarrow> mm_state \<Rightarrow> mm_state \<times> seated list option" where
  "join_section mk mode s st =
     (let ratings = (if mode = Mode_Agent \<and> bt_get (mm_ratings st) (sd_agent_id s) = None
                     then bt_insert (sd_agent_id s) DEFAULT_RATING (mm_ratings st) else mm_ratings st);
          (queue, crew) = try_form mode (queue_for mode (mm_queues st) @ [s]) ratings
                              (mp_seats_per_match (mk_params mk)) (mp_ranked_rating_tolerance (mk_params mk))
      in (st\<lparr>mm_ratings := ratings, mm_queues := set_queue mode queue (mm_queues st)\<rparr>, crew))"

definition build ::
  "map_source \<Rightarrow> maker \<Rightarrow> uuid \<Rightarrow> match_mode \<Rightarrow> seated list \<Rightarrow> (mm_state \<Rightarrow> mm_state) \<Rightarrow> mm_state \<Rightarrow> (mm_state \<times> arena_match) option" where
  "build F mk match_id mode crew turn st =
     (if \<not> composition_ok mode crew then None
      else let p = mk_params mk; seats = roster_seats match_id p crew;
               st1 = (if mode = Mode_Agent then register_ranked p match_id (map si_controller seats) (turn st) else st)
           in map_option (Pair st1) (build_match F p match_id seats))"

definition join ::
  "map_source \<Rightarrow> maker \<Rightarrow> uuid \<Rightarrow> (mm_state \<Rightarrow> mm_state) \<Rightarrow> match_mode \<Rightarrow> nat list \<Rightarrow> join_request \<Rightarrow> mm_state
   \<Rightarrow> (mm_state \<times> (join_error + join_outcome)) option" where
  "join F mk match_id turn mode nonce req st =
     (case admit mk mode nonce req of
        Inl e \<Rightarrow> Some (st, Inl e)
      | Inr _ \<Rightarrow>
          (case join_section mk mode \<lparr>sd_agent_id = jq_agent_id req, sd_kind = jq_kind req\<rparr> st of
             (st1, None) \<Rightarrow> Some (st1, Inr Join_Queued)
           | (st1, Some crew) \<Rightarrow>
               map_option (\<lambda>(st2, m). (st2, Inr (Join_Formed m))) (build F mk match_id mode crew turn st1)))"

subsection \<open>Settlement into the ladder\<close>

definition nth_opt :: "'a list \<Rightarrow> nat \<Rightarrow> 'a option" where
  "nth_opt xs i = (if i < length xs then Some (xs ! i) else None)"

definition apply_ranked_result :: "match_result \<Rightarrow> i32 \<Rightarrow> mm_state \<Rightarrow> mm_state \<times> rating_deltas option" where
  "apply_ranked_result result k st =
     (case mr_outcomes result of
        [oa, ob] \<Rightarrow>
          if so_seat oa = so_seat ob then (st, None)
          else (case bt_get (mm_pending st) (mr_match_id result) of
            None \<Rightarrow> (st, None)
          | Some p \<Rightarrow>
              if length (pr_agents p) \<noteq> 2 then (st, None)
              else (case (nth_opt (pr_agents p) (so_seat oa), nth_opt (pr_agents p) (so_seat ob)) of
                 (Some a, Some b) \<Rightarrow>
                   let ra = rating_or_default (mm_ratings st) a; rb = rating_or_default (mm_ratings st) b
                   in (case ranked_delta result ra rb k of
                         None \<Rightarrow> (st, None)
                       | Some d \<Rightarrow>
                           (st\<lparr>mm_pending := bt_remove (mr_match_id result) (mm_pending st),
                               mm_ratings := bt_insert b (sat_i32 (rb + rd_b d))
                                               (bt_insert a (sat_i32 (ra + rd_a d)) (mm_ratings st))\<rparr>, Some d))
               | _ \<Rightarrow> (st, None)))
      | _ \<Rightarrow> (st, None))"

fun cover_roster :: "string list \<Rightarrow> seat_id list \<Rightarrow> seat_outcome list \<Rightarrow> string list option" where
  "cover_roster crew seen [] = Some []"
| "cover_roster crew seen (o1 # os) =
     (case nth_opt crew (so_seat o1) of
        None \<Rightarrow> None
      | Some agent \<Rightarrow>
          if List.member seen (so_seat o1) then None
          else map_option ((#) agent) (cover_roster crew (so_seat o1 # seen) os))"

definition apply_ranked_field_result :: "match_result \<Rightarrow> i32 \<Rightarrow> mm_state \<Rightarrow> mm_state \<times> seat_delta list option" where
  "apply_ranked_field_result result k st =
     (case bt_get (mm_pending st) (mr_match_id result) of
        None \<Rightarrow> (st, None)
      | Some p \<Rightarrow>
          if length (mr_outcomes result) \<noteq> length (pr_agents p) then (st, None)
          else case cover_roster (pr_agents p) [] (mr_outcomes result) of
            None \<Rightarrow> (st, None)
          | Some agents \<Rightarrow>
              let bases = map (rating_or_default (mm_ratings st)) agents
              in (case ranked_field_delta result bases k of
                    None \<Rightarrow> (st, None)
                  | Some deltas \<Rightarrow>
                      (st\<lparr>mm_pending := bt_remove (mr_match_id result) (mm_pending st),
                          mm_ratings := fold (\<lambda>(d, a, base). bt_insert a (sat_i32 (base + sd_delta d)))
                                          (zip deltas (zip agents bases)) (mm_ratings st)\<rparr>, Some deltas)))"

end
