(* ===== verification/Matchmaking_Inv.thy ===== *)
theory Matchmaking_Inv
  imports Matchmaking "HOL-Library.Multiset" "HOL-Library.Sublist"
begin

section \<open>What forming a match keeps\<close>

text \<open>
  The functional behaviour of the matchmaker's pure routines: team assignment is a balanced permutation,
  the selection of each mode seats a full roster of the right kinds, and pulling a roster out of a queue
  neither loses nor invents a participant.
\<close>

subsection \<open>Teams\<close>

lemma length_swap [simp]: "length (swap i j xs) = length xs"
  by (simp add: swap_def)

lemma mset_of_swap: "i < length xs \<Longrightarrow> j < length xs \<Longrightarrow> mset (swap i j xs) = mset xs"
  unfolding swap_def by (rule mset_swap)

lemma mset_fisher_yates: "i < length xs \<or> i = 0 \<Longrightarrow> mset (fisher_yates i s xs) = mset xs"
proof (induction i s xs rule: fisher_yates.induct)
  case (2 i s xs)
  obtain r s' where r: "next_u64 s = (r, s')" by fastforce
  have "unat r mod (Suc i + 1) < length xs"
    using 2(2) mod_less_divisor [of "Suc i + 1" "unat r"] by linarith
  with 2 r show ?case by (simp add: mset_of_swap)
qed simp

definition team_labels :: "nat \<Rightarrow> nat \<Rightarrow> team_id list" where
  "team_labels seats team_size = concat (map (\<lambda>t. replicate team_size (t mod 2 ^ 16)) [0..<seats div team_size])"

lemma length_team_labels: "team_size dvd seats \<Longrightarrow> length (team_labels seats team_size) = seats"
  by (simp add: team_labels_def length_concat comp_def sum_list_triv)

lemma mset_assign_teams:
  assumes "1 \<le> team_size"
  shows "mset (assign_teams match_id seats team_size) = mset (team_labels seats team_size)"
proof (cases "team_size = 1")
  case True
  have "concat (map (\<lambda>t. [t mod 2 ^ 16]) xs) = map (\<lambda>i. i mod 2 ^ 16) xs" for xs :: "nat list"
    by (induction xs) auto
  with True show ?thesis by (simp add: assign_teams_def team_labels_def)
next
  case False
  let ?l = "team_labels seats team_size"
  have "mset (fisher_yates (length ?l - 1) s ?l) = mset ?l" for s
    by (rule mset_fisher_yates) (cases ?l, auto)
  moreover have "\<not> team_size \<le> 1" using False assms by simp
  ultimately show ?thesis unfolding assign_teams_def Let_def team_labels_def [symmetric] by (simp only: if_False)
qed

lemma count_team_labels:
  assumes "seats < 2 ^ 16" "t < seats div team_size"
  shows "count (mset (team_labels seats team_size)) t = team_size"
proof -
  have le: "seats div team_size \<le> seats" by simp
  have "count (mset (concat (map (\<lambda>u. replicate team_size (u mod 2 ^ 16)) [0..<n]))) t = (if t < n then team_size else 0)"
    if "n \<le> seats" for n
    using that assms(1)
  proof (induction n)
    case (Suc n)
    then show ?case by (auto simp: count_replicate_mset)
  qed simp
  from this [OF le] assms(2) show ?thesis by (simp add: team_labels_def)
qed

text \<open>The assignment is a balanced permutation of the teams, whatever the match id.\<close>

lemma assign_teams_balanced:
  assumes "1 \<le> team_size" "team_size dvd seats" "seats < 2 ^ 16"
  shows "length (assign_teams match_id seats team_size) = seats"
    "t < seats div team_size \<Longrightarrow> count (mset (assign_teams match_id seats team_size)) t = team_size"
    "set (assign_teams match_id seats team_size) \<subseteq> {..<seats div team_size}"
proof -
  show "length (assign_teams match_id seats team_size) = seats"
    using mset_assign_teams [OF assms(1), of match_id seats] length_team_labels [OF assms(2)]
    by (metis size_mset)
  show "count (mset (assign_teams match_id seats team_size)) t = team_size" if "t < seats div team_size"
    using count_team_labels [OF assms(3) that] by (simp only: mset_assign_teams [OF assms(1)])
  have "set (team_labels seats team_size) \<subseteq> {..<seats div team_size}"
    using assms(3) by (auto simp: team_labels_def mod_less_eq_dividend
        intro: le_less_trans [OF mod_less_eq_dividend])
  then show "set (assign_teams match_id seats team_size) \<subseteq> {..<seats div team_size}"
    using mset_eq_setD [OF mset_assign_teams [OF assms(1), of match_id seats]] by simp
qed

subsection \<open>Removing the picks\<close>

lemma nths_agree: "(\<And>i. i < length xs \<Longrightarrow> i \<in> A \<longleftrightarrow> i \<in> B) \<Longrightarrow> nths xs A = nths xs B"
  unfolding nths_def by (rule arg_cong [where f = "map fst"], rule filter_cong) (auto simp: set_zip)

text \<open>Distinct picks, removed from the back: what is left and what is taken, by index.\<close>

lemma remove_picks_spec:
  assumes "sorted_wrt (>) is" "\<forall>i\<in>set is. i < length queue"
  shows "remove_picks is queue = (map ((!) queue) is, nths queue (- set is))"
  using assms
proof (induction "is" arbitrary: queue)
  case (Cons i "is")
  let ?q = "take i queue @ drop (Suc i) queue"
  have lt: "\<forall>j\<in>set is. j < i" and i: "i < length queue" using Cons.prems by auto
  have "remove_picks is ?q = (map ((!) ?q) is, nths ?q (- set is))"
    using Cons.prems by (intro Cons.IH) auto
  moreover have "map ((!) ?q) is = map ((!) queue) is"
    using lt i by (auto simp: nth_append)
  moreover have "nths ?q (- set is) = nths queue (- set (i # is))"
  proof -
    have q: "queue = take i queue @ queue ! i # drop (Suc i) queue" using i by (simp add: id_take_nth_drop)
    have a: "nths (take i queue) (- set is) = nths (take i queue) (- set (i # is))"
      by (rule nths_agree) (use i in auto)
    have b: "nths (drop (Suc i) queue) {j. j + i \<in> - set is} = drop (Suc i) queue"
      by (rule nths_all) (use lt in auto)
    have c: "nths (drop (Suc i) queue) {j. Suc j + i \<in> - set (i # is)} = drop (Suc i) queue"
      by (rule nths_all) (use lt in fastforce)
    have "nths queue (- set (i # is)) = nths (take i queue) (- set (i # is)) @ drop (Suc i) queue"
      by (subst q, subst nths_append) (use i c in \<open>simp add: nths_Cons min_absorb2\<close>)
    moreover have "nths ?q (- set is) = nths (take i queue) (- set is) @ drop (Suc i) queue"
      by (subst nths_append) (use i b in \<open>simp add: min_absorb2\<close>)
    ultimately show ?thesis using a by simp
  qed
  ultimately show ?case by (simp add: Let_def)
qed (simp add: nths_all)

lemma nths_eq_map_sorted:
  assumes "sorted_wrt (<) is" "\<forall>i\<in>set is. i < length xs"
  shows "nths xs (set is) = map ((!) xs) is"
proof -
  have "filter (\<lambda>i. i \<in> set is) [0..<length xs] = is"
    using assms by (intro sorted_distinct_set_unique) (auto simp: strict_sorted_iff sorted_wrt_filter)
  moreover have "nths xs A = map ((!) xs) (filter (\<lambda>i. i \<in> A) [0..<length xs])" for A
  proof -
    have "zip xs [0..<length xs] = map (\<lambda>i. (xs ! i, i)) [0..<length xs]"
      by (rule nth_equalityI) auto
    then show ?thesis unfolding nths_def by (simp add: filter_map comp_def)
  qed
  ultimately show ?thesis by simp
qed

lemma mset_nths_Compl: "mset (nths xs A) + mset (nths xs (- A)) = mset xs"
proof (induction xs arbitrary: A)
  case (Cons x xs)
  have "{i. Suc i \<in> - A} = - {i. Suc i \<in> A}" by auto
  with Cons [of "{i. Suc i \<in> A}"] show ?case by (auto simp: nths_Cons)
qed simp

definition picks_ok :: "nat \<Rightarrow> nat \<Rightarrow> nat list \<Rightarrow> bool" where
  "picks_ok n seats picks \<longleftrightarrow> distinct picks \<and> length picks = seats \<and> set picks \<subseteq> {..<n}"

lemma remove_sorted_picks:
  assumes "picks_ok (length queue) seats picks"
  shows "remove_picks (rev (sort picks)) queue = (rev (nths queue (set picks)), nths queue (- set picks))"
    "length (nths queue (set picks)) = seats"
proof -
  have s: "sorted_wrt (<) (sort picks)" using assms by (simp add: picks_ok_def strict_sorted_iff)
  then have "sorted_wrt (>) (rev (sort picks))" by (simp add: sorted_wrt_rev)
  moreover have lt: "\<forall>i\<in>set picks. i < length queue" using assms by (auto simp: picks_ok_def)
  ultimately show "remove_picks (rev (sort picks)) queue = (rev (nths queue (set picks)), nths queue (- set picks))"
    using remove_picks_spec [of "rev (sort picks)" queue] nths_eq_map_sorted [OF s, of queue] by (simp add: rev_map)
  show "length (nths queue (set picks)) = seats"
    using nths_eq_map_sorted [OF s, of queue] lt assms by (simp add: picks_ok_def)
qed

subsection \<open>Selection\<close>

definition rating_gap :: "(string, i32) btree \<Rightarrow> seated list \<Rightarrow> nat \<Rightarrow> int" where
  "rating_gap ratings queue i =
     \<bar>rating_or_default ratings (sd_agent_id (queue ! i)) - rating_or_default ratings (sd_agent_id (queue ! 0))\<bar>"

definition nearest_picks :: "(string, i32) btree \<Rightarrow> seated list \<Rightarrow> nat \<Rightarrow> nat list" where
  "nearest_picks ratings queue seats =
     0 # take (seats - 1) (sort_key (\<lambda>i. (rating_gap ratings queue i, i)) [1..<length queue])"

lemma select_ranked_eq:
  "select_ranked queue ratings seats tolerance =
     (if seats = 0 \<or> length queue < seats then None
      else if (\<forall>i\<in>set (nearest_picks ratings queue seats). rating_gap ratings queue i \<le> tolerance)
              \<or> length queue \<ge> min (seats * 2) (2 ^ 64 - 1)
      then Some (nearest_picks ratings queue seats) else None)"
  unfolding select_ranked_def nearest_picks_def Let_def RANKED_FORCE_POOL_MULTIPLE_def
    rating_gap_def [abs_def, symmetric]
  by (auto simp: rating_gap_def)

lemma nearest_picks_ok: "seats \<noteq> 0 \<Longrightarrow> seats \<le> length queue \<Longrightarrow> picks_ok (length queue) seats (nearest_picks ratings queue seats)"
  by (auto simp: nearest_picks_def picks_ok_def dest!: in_set_takeD)

text \<open>No unpicked agent is closer to the head than a picked one.\<close>

lemma nearest_picks_nearest:
  assumes "i \<in> set (nearest_picks ratings queue seats)" "i \<noteq> 0"
    "j < length queue" "j \<notin> set (nearest_picks ratings queue seats)"
  shows "(rating_gap ratings queue i, i) < (rating_gap ratings queue j, j)"
proof -
  let ?key = "\<lambda>i. (rating_gap ratings queue i, i)"
  let ?others = "sort_key ?key [1..<length queue]"
  have i: "i \<in> set (take (seats - 1) ?others)" using assms(1,2) by (simp add: nearest_picks_def)
  have "j \<in> set ?others" "j \<notin> set (take (seats - 1) ?others)" using assms(3,4) by (auto simp: nearest_picks_def)
  then have j: "j \<in> set (drop (seats - 1) ?others)"
    by (metis Un_iff append_take_drop_id set_append)
  have "sorted (map ?key ?others)" by simp
  then have "sorted (map ?key (take (seats - 1) ?others) @ map ?key (drop (seats - 1) ?others))"
    by (simp flip: map_append)
  then have "?key i \<le> ?key j" using i j by (auto simp: sorted_append)
  moreover have "i \<noteq> j" using assms(1,4) by auto
  ultimately show ?thesis by auto
qed

lemma position_Some: "position P xs = Some i \<Longrightarrow> i < length xs \<and> P (xs ! i)"
  by (auto simp: position_def find_Some_iff nth_enumerate_eq)

lemma position_None: "position P xs = None \<longleftrightarrow> (\<forall>x\<in>set xs. \<not> P x)"
  unfolding position_def by (force simp: find_None_iff in_set_conv_nth nth_enumerate_eq)

lemma select_mixed_ok:
  assumes "select_mixed queue seats = Some picks" "seats \<le> length queue"
  shows "picks_ok (length queue) seats picks"
    "\<exists>i\<in>set picks. sd_kind (queue ! i) = Ctl_Human" "\<exists>i\<in>set picks. sd_kind (queue ! i) = Ctl_Agent"
proof -
  from assms(1) obtain h a where s: "2 \<le> seats" and h: "position (\<lambda>s. sd_kind s = Ctl_Human) queue = Some h"
    and a: "position (\<lambda>s. sd_kind s = Ctl_Agent) queue = Some a"
    and picks: "picks = [h, a] @ take (seats - 2) (filter (\<lambda>i. i \<noteq> h \<and> i \<noteq> a) [0..<length queue])"
    by (auto simp: select_mixed_def panic_simps split: if_splits)
  note ha = position_Some [OF h] position_Some [OF a]
  then have ne: "h \<noteq> a" by auto
  have "filter (\<lambda>i. \<not> (i \<noteq> h \<and> i \<noteq> a)) [0..<length queue] = sort [h, a]"
    using ha ne by (intro sorted_distinct_set_unique) (auto simp: sorted_wrt_filter)
  then have "length (filter (\<lambda>i. \<not> (i \<noteq> h \<and> i \<noteq> a)) [0..<length queue]) = 2" by (simp only: length_sort) simp
  then have "length (filter (\<lambda>i. i \<noteq> h \<and> i \<noteq> a) [0..<length queue]) = length queue - 2"
    using sum_length_filter_compl [of "\<lambda>i. i \<noteq> h \<and> i \<noteq> a" "[0..<length queue]"] by simp
  then show "picks_ok (length queue) seats picks"
    using s ha ne assms(2) by (auto simp: picks_ok_def picks distinct_take dest!: in_set_takeD)
  show "\<exists>i\<in>set picks. sd_kind (queue ! i) = Ctl_Human" "\<exists>i\<in>set picks. sd_kind (queue ! i) = Ctl_Agent"
    using ha by (auto simp: picks)
qed

subsection \<open>Forming\<close>

definition all_kind :: "controller_kind \<Rightarrow> seated list \<Rightarrow> bool" where
  "all_kind k xs \<longleftrightarrow> (\<forall>s\<in>set xs. sd_kind s = k)"

definition mode_kinds :: "match_mode \<Rightarrow> seated list \<Rightarrow> bool" where
  "mode_kinds mode xs \<longleftrightarrow>
     (mode = Mode_Human \<longrightarrow> all_kind Ctl_Human xs) \<and> (mode = Mode_Agent \<longrightarrow> all_kind Ctl_Agent xs)"

lemma not_agent: "k \<noteq> Ctl_Agent \<longleftrightarrow> k = Ctl_Human"
  by (cases k) auto

lemma composition_ok_kinds:
  "composition_ok Mode_Human xs \<longleftrightarrow> all_kind Ctl_Human xs \<and> xs \<noteq> []"
  "composition_ok Mode_Agent xs \<longleftrightarrow> all_kind Ctl_Agent xs \<and> xs \<noteq> []"
  "composition_ok Mode_Mixed xs \<longleftrightarrow> \<not> all_kind Ctl_Human xs \<and> \<not> all_kind Ctl_Agent xs"
proof -
  let ?A = "filter (\<lambda>s. sd_kind s = Ctl_Agent) xs" and ?H = "filter (\<lambda>s. sd_kind s = Ctl_Human) xs"
  have h: "filter (\<lambda>s. sd_kind s \<noteq> Ctl_Agent) xs = ?H" by (simp only: not_agent)
  have split: "length xs - length ?A = length ?H"
    using sum_length_filter_compl [of "\<lambda>s. sd_kind s = Ctl_Agent" xs] unfolding h by simp
  have A: "?A = [] \<longleftrightarrow> all_kind Ctl_Human xs" by (simp add: filter_empty_conv all_kind_def not_agent)
  have H: "?H = [] \<longleftrightarrow> all_kind Ctl_Agent xs"
    by (simp add: filter_empty_conv all_kind_def flip: not_agent)
  have e: "xs = [] \<longleftrightarrow> ?A = [] \<and> ?H = []"
    by (cases xs) (auto simp: not_agent)
  show "composition_ok Mode_Human xs \<longleftrightarrow> all_kind Ctl_Human xs \<and> xs \<noteq> []"
    "composition_ok Mode_Agent xs \<longleftrightarrow> all_kind Ctl_Agent xs \<and> xs \<noteq> []"
    "composition_ok Mode_Mixed xs \<longleftrightarrow> \<not> all_kind Ctl_Human xs \<and> \<not> all_kind Ctl_Agent xs"
    using A H e unfolding composition_ok_def Let_def split by auto
qed

text \<open>What the pool of a mode may hold between joins: too few to play, or one kind missing.\<close>

definition queue_ok :: "nat \<Rightarrow> match_mode \<Rightarrow> seated list \<Rightarrow> bool" where
  "queue_ok seats mode q \<longleftrightarrow> mode_kinds mode q \<and>
     (case mode of Mode_Human \<Rightarrow> length q < seats | Mode_Agent \<Rightarrow> length q < 2 * seats
      | Mode_Mixed \<Rightarrow> length q < seats \<or> all_kind Ctl_Human q \<or> all_kind Ctl_Agent q)"

definition taken :: "nat \<Rightarrow> match_mode \<Rightarrow> seated list \<Rightarrow> nat list \<Rightarrow> bool" where
  "taken seats mode queue picks \<longleftrightarrow> picks_ok (length queue) seats picks
     \<and> (mode = Mode_Human \<longrightarrow> picks = [0..<seats]) \<and> (mode = Mode_Agent \<longrightarrow> 0 \<in> set picks)"

lemma try_form_None:
  assumes "try_form mode queue ratings seats tol = (q, None)"
  shows "q = queue"
  using assms by (auto simp: try_form_def split_beta Let_def split: if_splits option.splits)

lemma try_form_waits:
  assumes "try_form mode queue ratings seats tol = (q, None)" "mode_kinds mode queue" "2 \<le> seats" "seats < 256"
  shows "queue_ok seats mode queue"
proof (cases "length queue < seats")
  case True
  with assms show ?thesis by (auto simp: queue_ok_def split: match_mode.splits)
next
  case False
  then have none: "(case mode of Mode_Human \<Rightarrow> Some [0..<seats] | Mode_Agent \<Rightarrow> select_ranked queue ratings seats tol
      | Mode_Mixed \<Rightarrow> select_mixed queue seats) = None"
    using assms(1,3) by (auto simp: try_form_def split_beta Let_def split: option.splits)
  have m: "min (seats * 2) (2 ^ 64 - 1) = seats * 2" using assms(4) by simp
  have "length queue < 2 * seats" if "mode = Mode_Agent"
    using none that False assms(3) unfolding select_ranked_eq m by (auto split: if_splits)
  moreover have "all_kind Ctl_Human queue \<or> all_kind Ctl_Agent queue" if "mode = Mode_Mixed"
  proof -
    from none that assms(3) have "position (\<lambda>s. sd_kind s = Ctl_Human) queue = None
        \<or> position (\<lambda>s. sd_kind s = Ctl_Agent) queue = None"
      by (cases "position (\<lambda>s. sd_kind s = Ctl_Human) queue") (auto simp: select_mixed_def split: bind_splits)
    then show ?thesis by (auto simp: position_None all_kind_def not_agent simp flip: not_agent)
  qed
  ultimately show ?thesis using none assms(2) False by (cases mode) (auto simp: queue_ok_def)
qed

lemma try_form_Some:
  assumes "try_form mode queue ratings seats tol = (q, Some crew)" "mode_kinds mode queue" "2 \<le> seats"
  obtains picks where "taken seats mode queue picks" "crew = nths queue (set picks)" "q = nths queue (- set picks)"
    "length crew = seats" "composition_ok mode crew"
proof -
  obtain picks where len: "seats \<le> length queue" and picks: "(case mode of Mode_Human \<Rightarrow> Some [0..<seats]
      | Mode_Agent \<Rightarrow> select_ranked queue ratings seats tol | Mode_Mixed \<Rightarrow> select_mixed queue seats) = Some picks"
    and out: "(q, Some crew) = (let (removed, q') = remove_picks (rev (sort picks)) queue in (q', Some (rev removed)))"
    using assms(1) by (auto simp: try_form_def split: if_splits option.splits)
  have t: "taken seats mode queue picks"
  proof (cases mode)
    case Mode_Agent
    then have "picks = nearest_picks ratings queue seats"
      using picks by (auto simp: select_ranked_eq split: if_splits)
    then show ?thesis
      using Mode_Agent nearest_picks_ok [of seats queue ratings] len assms(3) by (auto simp: taken_def nearest_picks_def)
  next
    case Mode_Mixed
    then show ?thesis using select_mixed_ok(1) [OF _ len] picks by (auto simp: taken_def)
  qed (use picks len in \<open>auto simp: taken_def picks_ok_def\<close>)
  then have ok: "picks_ok (length queue) seats picks" by (simp add: taken_def)
  have crew: "crew = nths queue (set picks)" "q = nths queue (- set picks)"
    using out remove_sorted_picks(1) [OF ok] by auto
  have in_crew: "queue ! i \<in> set crew" if "i \<in> set picks" for i
    using that ok crew(1) by (auto simp: picks_ok_def set_nths)
  have l: "length crew = seats" using remove_sorted_picks(2) [OF ok] crew by simp
  have kinds: "mode_kinds mode crew"
    using assms(2) crew(1) set_nths_subset [of queue "set picks"] by (auto simp: mode_kinds_def all_kind_def)
  have "composition_ok mode crew"
  proof (cases mode)
    case Mode_Mixed
    then obtain i j where "i \<in> set picks" "sd_kind (queue ! i) = Ctl_Human" "j \<in> set picks" "sd_kind (queue ! j) = Ctl_Agent"
      using select_mixed_ok(2,3) [OF _ len, of picks] picks by auto
    then show ?thesis using in_crew [of i] in_crew [of j] by (force simp: Mode_Mixed composition_ok_kinds all_kind_def)
  qed (use kinds l assms(3) in \<open>auto simp: composition_ok_kinds mode_kinds_def\<close>)
  with t crew l that show ?thesis by blast
qed

lemma mode_kinds_nths: "mode_kinds mode q \<Longrightarrow> mode_kinds mode (nths q A)"
  using set_nths_subset [of q A] by (auto simp: mode_kinds_def all_kind_def)

lemma length_nths_Compl: "length (nths xs A) + length (nths xs (- A)) = length xs"
  using mset_nths_Compl [of xs A] by (metis size_mset size_union)

text \<open>A join leaves the pool in the same shape, whether it completes a match or not.\<close>

lemma try_form_queue_ok:
  assumes "queue_ok seats mode q" "try_form mode (q @ [s]) ratings seats tol = (q', crew)"
    "mode_kinds mode [s]" "2 \<le> seats" "seats < 256"
  shows "queue_ok seats mode q'"
proof (cases crew)
  case None
  have "mode_kinds mode (q @ [s])" using assms(1,3) by (auto simp: queue_ok_def mode_kinds_def all_kind_def)
  with assms None try_form_None [of mode "q @ [s]" ratings seats tol q'] try_form_waits [of mode "q @ [s]" ratings seats tol q']
  show ?thesis by simp
next
  case (Some cr)
  have kinds: "mode_kinds mode (q @ [s])" using assms(1,3) by (auto simp: queue_ok_def mode_kinds_def all_kind_def)
  from assms(2) Some kinds assms(4) obtain picks where p: "cr = nths (q @ [s]) (set picks)" "q' = nths (q @ [s]) (- set picks)"
    "length cr = seats" "composition_ok mode cr"
    using try_form_Some [of mode "q @ [s]" ratings seats tol q' cr] by blast
  have len: "length q' + seats = Suc (length q)" using length_nths_Compl [of "q @ [s]" "set picks"] p by simp
  have one: "all_kind k q' \<or> all_kind k' q'" if "all_kind k q" "mode = Mode_Mixed" "{k, k'} = {Ctl_Human, Ctl_Agent}" for k k'
  proof -
    have "\<not> all_kind k cr" using p(4) that(2,3) by (cases k) (auto simp: composition_ok_kinds doubleton_eq_iff)
    then obtain x where x: "x \<in> set cr" "sd_kind x \<noteq> k" by (auto simp: all_kind_def)
    have "length q \<in> set picks"
    proof (rule ccontr)
      assume "length q \<notin> set picks"
      then have "nths (q @ [s]) (set picks) = nths q (set picks)" by (simp add: nths_append nths_singleton)
      then show False using x p(1) that(1) set_nths_subset [of q "set picks"] by (auto simp: all_kind_def)
    qed
    then have "q' = nths q (- set picks)" using p(2) by (simp add: nths_append nths_singleton)
    then show ?thesis using that(1) set_nths_subset [of q "- set picks"] by (auto simp: all_kind_def)
  qed
  show ?thesis
    using assms(1) len kinds p(2) one [of Ctl_Human Ctl_Agent] one [of Ctl_Agent Ctl_Human] assms(4)
    by (cases mode) (auto simp: queue_ok_def mode_kinds_nths)
qed

end
