(* ===== verification/Matchmaking_Machine.thy ===== *)
theory Matchmaking_Machine
  imports Matchmaking_Inv
begin

section \<open>The matchmaker as a concurrent program\<close>

text \<open>
  Every caller works on the matchmaker in critical sections. A \<open>lobby\<close> is the shared state together with
  the rosters that have been pulled out of a queue by a join that has not registered its match yet, and
  the matches built so far; an event is one critical section of one caller. A run is any interleaving.
\<close>

record lobby =
  lb_state :: mm_state
  lb_forming :: "(match_mode \<times> seated list) list"
  lb_built :: "(uuid \<times> match_mode \<times> seat_info list) list"

datatype mm_event =
    Ev_Join match_mode "nat list" join_request
  | Ev_Build uuid nat
  | Ev_Settle match_result i32
  | Ev_Settle_Field match_result i32

definition seat_of :: "join_request \<Rightarrow> seated" where
  "seat_of req = \<lparr>sd_agent_id = jq_agent_id req, sd_kind = jq_kind req\<rparr>"

definition delete_nth :: "nat \<Rightarrow> 'a list \<Rightarrow> 'a list" where
  "delete_nth i xs = take i xs @ drop (Suc i) xs"

fun lobby_step :: "maker \<Rightarrow> mm_event \<Rightarrow> lobby \<Rightarrow> lobby option" where
  "lobby_step mk (Ev_Join mode nonce req) lb =
     (case admit mk mode nonce req of
        Inl _ \<Rightarrow> Some lb
      | Inr _ \<Rightarrow>
          (case join_section mk mode (seat_of req) (lb_state lb) of
             (st, None) \<Rightarrow> Some (lb\<lparr>lb_state := st\<rparr>)
           | (st, Some crew) \<Rightarrow> Some (lb\<lparr>lb_state := st, lb_forming := lb_forming lb @ [(mode, crew)]\<rparr>)))"
| "lobby_step mk (Ev_Build match_id i) lb =
     (case nth_opt (lb_forming lb) i of
        None \<Rightarrow> Some lb
      | Some (mode, crew) \<Rightarrow>
          if \<not> composition_ok mode crew then None
          else let seats = roster_seats match_id (mk_params mk) crew
               in Some \<lparr>lb_state = (if mode = Mode_Agent
                                    then register_ranked (mk_params mk) match_id (map si_controller seats) (lb_state lb)
                                    else lb_state lb),
                        lb_forming = delete_nth i (lb_forming lb),
                        lb_built = (match_id, mode, seats) # lb_built lb\<rparr>)"
| "lobby_step mk (Ev_Settle result k) lb = Some (lb\<lparr>lb_state := fst (apply_ranked_result result k (lb_state lb))\<rparr>)"
| "lobby_step mk (Ev_Settle_Field result k) lb =
     Some (lb\<lparr>lb_state := fst (apply_ranked_field_result result k (lb_state lb))\<rparr>)"

definition new_lobby :: "mm_state \<Rightarrow> lobby" where
  "new_lobby st = \<lparr>lb_state = st, lb_forming = [], lb_built = []\<rparr>"

text \<open>
  One call of \<open>join\<close> is a run of this machine: its first section, whatever the others do between its
  sections, and the registration of the roster it pulled.
\<close>

lemma nth_opt_last [simp]: "nth_opt (xs @ [x]) (length xs) = Some x"
  by (simp add: nth_opt_def)

lemma delete_nth_append [simp]: "delete_nth (length xs) (xs @ x # ys) = xs @ ys"
  by (simp add: delete_nth_def)

lemma join_is_run:
  assumes "join F mk match_id turn mode nonce req (lb_state lb) = Some (st', r)"
    and "\<And>l. \<exists>es. \<exists>l'. foldM (lobby_step mk) es l = Some l' \<and> lb_state l' = turn (lb_state l)
                 \<and> (\<exists>ys. lb_forming l' = lb_forming l @ ys)"
  shows "\<exists>es lb'. foldM (lobby_step mk) es lb = Some lb' \<and> lb_state lb' = st'"
proof (cases "admit mk mode nonce req")
  case (Inl e)
  with assms(1) show ?thesis by (intro exI [of _ "[]"]) (simp add: join_def)
next
  case (Inr u)
  obtain st1 c where sec: "join_section mk mode (seat_of req) (lb_state lb) = (st1, c)" by fastforce
  show ?thesis
  proof (cases c)
    case None
    with assms(1) Inr sec show ?thesis
      by (intro exI [of _ "[Ev_Join mode nonce req]"]) (simp add: join_def seat_of_def)
  next
    case (Some crew)
    let ?l = "lb\<lparr>lb_state := st1, lb_forming := lb_forming lb @ [(mode, crew)]\<rparr>"
    have one: "lobby_step mk (Ev_Join mode nonce req) lb = Some ?l" using Inr sec Some by simp
    obtain m where b: "build F mk match_id mode crew turn st1 = Some (st', m)"
      using assms(1) Inr sec Some by (auto simp: join_def seat_of_def)
    then have c: "composition_ok mode crew" by (auto simp: build_def split: if_splits)
    show ?thesis
    proof (cases "mode = Mode_Agent")
      case True
      obtain es l' ys where es: "foldM (lobby_step mk) es ?l = Some l'" "lb_state l' = turn st1"
        "lb_forming l' = lb_forming ?l @ ys"
        using assms(2) [of ?l] by auto
      have "nth_opt (lb_forming l') (length (lb_forming lb)) = Some (mode, crew)"
        using es(3) by (simp add: nth_opt_def nth_append)
      with b c True one es(1,2) show ?thesis
        by (intro exI [of _ "Ev_Join mode nonce req # es @ [Ev_Build match_id (length (lb_forming lb))]"])
          (auto simp: build_def Let_def foldM_append)
    next
      case False
      with b one show ?thesis
        by (intro exI [of _ "[Ev_Join mode nonce req]"]) (auto simp: build_def Let_def split: if_splits)
    qed
  qed
qed

subsection \<open>The invariant\<close>

text \<open>What admission demands of an agent that wants a ranked seat.\<close>

definition ranked_identity :: "maker \<Rightarrow> string \<Rightarrow> bool" where
  "ranked_identity mk a \<longleftrightarrow> (\<exists>nonce token. token \<noteq> [] \<and> mk_verifier mk a nonce token)
     \<and> (case mk_ranked_registry mk of None \<Rightarrow> True
        | Some reg \<Rightarrow> (\<exists>r. reputation_of reg a = Some r \<and> mk_reputation_floor mk \<le> r))"

definition maker_ok :: "maker \<Rightarrow> bool" where
  "maker_ok mk \<longleftrightarrow> params_ok (mk_params mk) \<and> mp_seats_per_match (mk_params mk) < 256"

definition known_rating :: "mm_state \<Rightarrow> string \<Rightarrow> bool" where
  "known_rating st a \<longleftrightarrow> bt_get (mm_ratings st) a \<noteq> None"

definition ladder_ok :: "mm_state \<Rightarrow> bool" where
  "ladder_ok st \<longleftrightarrow> bt_inv (mm_ratings st) \<and> (\<forall>(a, r)\<in>set (mm_ratings st). in_i32 r)"

definition pending_ok :: "maker \<Rightarrow> mm_state \<Rightarrow> bool" where
  "pending_ok mk st \<longleftrightarrow> bt_inv (mm_pending st)
     \<and> (mp_max_pending_ranked (mk_params mk) \<noteq> 0 \<longrightarrow> length (mm_pending st) \<le> mp_max_pending_ranked (mk_params mk))
     \<and> (\<forall>(i, p)\<in>set (mm_pending st). length (pr_agents p) = mp_seats_per_match (mk_params mk)
          \<and> (\<forall>a\<in>set (pr_agents p). ranked_identity mk a \<and> known_rating st a))"

definition queues_ok :: "maker \<Rightarrow> mm_state \<Rightarrow> bool" where
  "queues_ok mk st \<longleftrightarrow> (\<forall>mode. queue_ok (mp_seats_per_match (mk_params mk)) mode (queue_for mode (mm_queues st)))
     \<and> (\<forall>s\<in>set (q_agent (mm_queues st)). ranked_identity mk (sd_agent_id s) \<and> known_rating st (sd_agent_id s))"

definition forming_ok :: "maker \<Rightarrow> mm_state \<Rightarrow> match_mode \<times> seated list \<Rightarrow> bool" where
  "forming_ok mk st mc = (case mc of (mode, crew) \<Rightarrow>
     length crew = mp_seats_per_match (mk_params mk) \<and> composition_ok mode crew
     \<and> (mode = Mode_Agent \<longrightarrow> (\<forall>s\<in>set crew. ranked_identity mk (sd_agent_id s) \<and> known_rating st (sd_agent_id s))))"

definition lobby_ok :: "maker \<Rightarrow> lobby \<Rightarrow> bool" where
  "lobby_ok mk lb \<longleftrightarrow> maker_ok mk \<and> ladder_ok (lb_state lb) \<and> pending_ok mk (lb_state lb)
     \<and> queues_ok mk (lb_state lb) \<and> (\<forall>mc\<in>set (lb_forming lb). forming_ok mk (lb_state lb) mc)"

lemma admit_ranked: "admit mk Mode_Agent nonce req = Inr u \<Longrightarrow> ranked_identity mk (jq_agent_id req)"
  by (auto simp: admit_def ranked_identity_def presented_token_def not_less
      split: if_splits option.splits; cases "jq_kind req"; auto)

lemma admit_kind: "admit mk mode nonce req = Inr u \<Longrightarrow> mode_kinds mode [seat_of req]"
  by (cases mode; cases "jq_kind req") (auto simp: admit_def mode_kinds_def all_kind_def seat_of_def)

subsection \<open>Every section keeps it\<close>

text \<open>The ladder only learns: an agent that has a rating keeps one.\<close>

definition learns :: "mm_state \<Rightarrow> mm_state \<Rightarrow> bool" where
  "learns st st' \<longleftrightarrow> (\<forall>a. known_rating st a \<longrightarrow> known_rating st' a)"

lemma learns_refl [simp]: "learns st st"
  by (simp add: learns_def)

lemma forming_ok_learns: "forming_ok mk st mc \<Longrightarrow> learns st st' \<Longrightarrow> forming_ok mk st' mc"
  by (auto simp: forming_ok_def learns_def)

lemma bt_insert_in: "(a, v) \<in> set (bt_insert k w m) \<Longrightarrow> (a, v) = (k, w) \<or> (a, v) \<in> set m"
  by (induction k w m rule: bt_insert.induct) (auto split: if_splits)

lemma bt_remove_in: "x \<in> set (bt_remove k m) \<Longrightarrow> x \<in> set m"
  by (auto simp: bt_remove_def)

lemma ladder_ok_insert: "ladder_ok st \<Longrightarrow> in_i32 v \<Longrightarrow> ladder_ok (st\<lparr>mm_ratings := bt_insert a v (mm_ratings st)\<rparr>)"
  by (auto simp: ladder_ok_def bt_inv_insert dest!: bt_insert_in)

lemma learns_insert: "ladder_ok st \<Longrightarrow> learns st (st\<lparr>mm_ratings := bt_insert a v (mm_ratings st)\<rparr>)"
  by (simp add: learns_def known_rating_def ladder_ok_def bt_get_insert)

lemma known_insert: "ladder_ok st \<Longrightarrow> known_rating (st\<lparr>mm_ratings := bt_insert a v (mm_ratings st)\<rparr>) a"
  by (simp add: known_rating_def ladder_ok_def bt_get_insert)

lemma length_bt_remove: "length (bt_remove k m) \<le> length m"
  by (simp add: bt_remove_def)

lemma length_bt_insert: "length (bt_insert k v m) \<le> Suc (length m)"
  by (induction k v m rule: bt_insert.induct) auto

lemma length_bt_remove_present:
  assumes "bt_get m k \<noteq> None" shows "length (bt_remove k m) < length m"
proof -
  obtain v where "(k, v) \<in> set m" using assms by (auto simp: bt_get_def dest: map_of_SomeD)
  then show ?thesis unfolding bt_remove_def by (intro length_filter_less [of "(k, v)"]) auto
qed

lemma fold_min_in: "fold (\<lambda>q best. if f q < f best then q else best) ps p \<in> insert p (set ps)"
  by (induction ps arbitrary: p) (auto split: if_splits)

lemma oldest_pending_in: "pend \<noteq> [] \<Longrightarrow> \<exists>i p. oldest_pending pend = Some i \<and> (i, p) \<in> set pend"
proof (cases pend)
  case (Cons p ps)
  then show ?thesis
    using fold_min_in [of "\<lambda>q. pr_seq (snd q)" ps p]
    by (cases "fold (\<lambda>q best. if pr_seq (snd q) < pr_seq (snd best) then q else best) ps p")
      (auto simp: oldest_pending_def)
qed simp

definition seeded :: "match_mode \<Rightarrow> string \<Rightarrow> mm_state \<Rightarrow> mm_state" where
  "seeded mode a st =
     (if mode = Mode_Agent \<and> bt_get (mm_ratings st) a = None
      then st\<lparr>mm_ratings := bt_insert a DEFAULT_RATING (mm_ratings st)\<rparr> else st)"

lemma join_section_eq:
  "join_section mk mode s st =
     (let (q, crew) = try_form mode (queue_for mode (mm_queues st) @ [s]) (mm_ratings (seeded mode (sd_agent_id s) st))
          (mp_seats_per_match (mk_params mk)) (mp_ranked_rating_tolerance (mk_params mk))
      in ((seeded mode (sd_agent_id s) st)\<lparr>mm_queues := set_queue mode q (mm_queues st)\<rparr>, crew))"
  by (auto simp: join_section_def seeded_def Let_def split: prod.splits)

lemma seeded_ok:
  assumes "ladder_ok st"
  shows "ladder_ok (seeded mode a st)" "learns st (seeded mode a st)"
    "mode = Mode_Agent \<Longrightarrow> known_rating (seeded mode a st) a" "mm_pending (seeded mode a st) = mm_pending st"
    "mm_queues (seeded mode a st) = mm_queues st"
  using assms ladder_ok_insert [OF assms, of DEFAULT_RATING a] learns_insert [OF assms] known_insert [OF assms]
  by (auto simp: seeded_def DEFAULT_RATING_def in_i32_def known_rating_def)

lemma learns_queues [simp]: "learns st (st'\<lparr>mm_queues := q\<rparr>) = learns st st'" "ladder_ok (st\<lparr>mm_queues := q\<rparr>) = ladder_ok st"
    "known_rating (st\<lparr>mm_queues := q\<rparr>) = known_rating st"
  by (auto simp: learns_def known_rating_def ladder_ok_def fun_eq_iff)

lemma pending_ok_learns: "pending_ok mk st \<Longrightarrow> learns st st' \<Longrightarrow> mm_pending st' = mm_pending st \<Longrightarrow> pending_ok mk st'"
  unfolding pending_ok_def learns_def by fastforce

lemma queues_ok_learns: "queues_ok mk st \<Longrightarrow> learns st st' \<Longrightarrow> mm_queues st' = mm_queues st \<Longrightarrow> queues_ok mk st'"
  by (auto simp: queues_ok_def learns_def)

lemma queue_for_set_queue: "queue_for m (set_queue mode q qs) = (if m = mode then q else queue_for m qs)"
  by (cases m; cases mode) (simp_all add: queue_for_def set_queue_def)

lemma queue_for_agent: "q_agent qs = queue_for Mode_Agent qs"
  by (simp add: queue_for_def)

lemma seats_range: "maker_ok mk \<Longrightarrow> 2 \<le> mp_seats_per_match (mk_params mk) \<and> mp_seats_per_match (mk_params mk) < 256"
  by (simp add: maker_ok_def params_ok_def)

lemma join_section_ok:
  assumes "join_section mk mode s st = (st', crew)" "maker_ok mk" "ladder_ok st" "queues_ok mk st"
    "mode_kinds mode [s]" "mode = Mode_Agent \<Longrightarrow> ranked_identity mk (sd_agent_id s)"
  shows "ladder_ok st'" "learns st st'" "mm_pending st' = mm_pending st" "queues_ok mk st'"
    "crew = Some cr \<Longrightarrow> forming_ok mk st' (mode, cr)"
proof -
  let ?seats = "mp_seats_per_match (mk_params mk)" and ?q0 = "queue_for mode (mm_queues st) @ [s]"
  let ?tol = "mp_ranked_rating_tolerance (mk_params mk)"
  let ?st = "seeded mode (sd_agent_id s) st"
  note sd = seeded_ok [OF assms(3), of mode "sd_agent_id s"]
  obtain q where t: "try_form mode ?q0 (mm_ratings ?st) ?seats ?tol = (q, crew)"
    and st': "st' = ?st\<lparr>mm_queues := set_queue mode q (mm_queues st)\<rparr>"
    using assms(1) by (auto simp: join_section_eq split: prod.splits)
  show "ladder_ok st'" "learns st st'" "mm_pending st' = mm_pending st" using sd by (simp_all add: st')
  have qok: "queue_ok ?seats mode (queue_for mode (mm_queues st))" using assms(4) by (simp add: queues_ok_def)
  then have kinds: "mode_kinds mode ?q0" using assms(5) by (auto simp: queue_ok_def mode_kinds_def all_kind_def)
  have new: "queue_ok ?seats mode q"
    using try_form_queue_ok [OF qok t assms(5)] seats_range [OF assms(2)] by simp
  have parts: "set q \<union> (case crew of None \<Rightarrow> {} | Some cr \<Rightarrow> set cr) \<subseteq> set ?q0"
  proof (cases crew)
    case None
    then show ?thesis using t try_form_None [of mode ?q0 "mm_ratings ?st" ?seats ?tol q] by simp
  next
    case (Some cr)
    then show ?thesis
      using t kinds seats_range [OF assms(2)]
      by (auto elim!: try_form_Some [of mode ?q0 "mm_ratings ?st" ?seats ?tol q cr] dest: in_set_nthsD)
  qed
  have who: "ranked_identity mk (sd_agent_id x) \<and> known_rating ?st (sd_agent_id x)" if "x \<in> set ?q0" "mode = Mode_Agent" for x
    using that assms(4,6) sd(2,3) by (auto simp: queues_ok_def queue_for_agent learns_def)
  show "queues_ok mk st'"
    unfolding queues_ok_def queue_for_agent
    using assms(4) new parts who sd(2)
    by (auto simp: st' queue_for_set_queue queues_ok_def queue_for_agent learns_def split: if_splits)
  show "forming_ok mk st' (mode, cr)" if c: "crew = Some cr"
  proof -
    from t c kinds seats_range [OF assms(2)] have "length cr = ?seats" "composition_ok mode cr"
      using try_form_Some [of mode ?q0 "mm_ratings ?st" ?seats ?tol q cr] by blast+
    moreover have "set cr \<subseteq> set ?q0" using parts c by simp
    ultimately show ?thesis using who by (auto simp: forming_ok_def st')
  qed
qed

text \<open>Registering a roster: the newest registration is in, and over the cap the oldest is out.\<close>

lemma register_ranked_frame:
  "mm_ratings (register_ranked p i as st) = mm_ratings st" "mm_queues (register_ranked p i as st) = mm_queues st"
  by (auto simp: register_ranked_def Let_def split: option.splits)

lemma register_ranked_pending:
  assumes "(j, q) \<in> set (mm_pending (register_ranked p i as st))"
  shows "(j, q) \<in> set (mm_pending st) \<or> pr_agents q = as"
  using assms by (auto simp: register_ranked_def Let_def split: if_splits option.splits dest!: bt_remove_in bt_insert_in)

lemma register_ranked_pending_inv: "bt_inv (mm_pending st) \<Longrightarrow> bt_inv (mm_pending (register_ranked p i as st))"
  by (auto simp: register_ranked_def Let_def bt_inv_insert bt_inv_remove split: option.splits)

lemma register_ranked_bounded:
  assumes "length (mm_pending st) \<le> mp_max_pending_ranked p" "bt_inv (mm_pending st)" "mp_max_pending_ranked p \<noteq> 0"
  shows "length (mm_pending (register_ranked p i as st)) \<le> mp_max_pending_ranked p"
proof -
  let ?q = "\<lparr>pr_seq = mm_next_seq st, pr_agents = as\<rparr>"
  let ?m = "bt_insert i ?q (mm_pending st)"
  have inv: "bt_inv ?m" using assms(2) by (rule bt_inv_insert)
  have le: "length ?m \<le> Suc (mp_max_pending_ranked p)"
    using length_bt_insert [of i ?q "mm_pending st"] assms(1) by simp
  show ?thesis
  proof (cases "length ?m > mp_max_pending_ranked p")
    case True
    then have "?m \<noteq> []" by auto
    then obtain j r where j: "oldest_pending ?m = Some j" "(j, r) \<in> set ?m" using oldest_pending_in by blast
    then have "bt_get ?m j \<noteq> None"
      using image_eqI [of j fst "(j, r)" "set ?m"] by (simp add: bt_get_def map_of_eq_None_iff)
    with True j le assms(3) length_bt_remove_present [of ?m j] show ?thesis
      by (auto simp: register_ranked_def Let_def)
  qed (simp add: register_ranked_def Let_def)
qed

lemma register_ranked_ok:
  assumes "pending_ok mk st" "length as = mp_seats_per_match (mk_params mk)"
    "\<forall>a\<in>set as. ranked_identity mk a \<and> known_rating st a"
  shows "pending_ok mk (register_ranked (mk_params mk) i as st)"
  using assms register_ranked_pending_inv [of st "mk_params mk" i as] register_ranked_bounded [of st "mk_params mk" i as]
  unfolding pending_ok_def known_rating_def register_ranked_frame
  by (fastforce dest: register_ranked_pending)

lemma roster_seats_controllers:
  assumes "maker_ok mk" "length crew = mp_seats_per_match (mk_params mk)"
  shows "map si_controller (roster_seats i (mk_params mk) crew) = map sd_agent_id crew"
    "length (roster_seats i (mk_params mk) crew) = length crew"
proof -
  have "length (assign_teams i (length crew) (mp_team_size (mk_params mk))) = length crew"
    using assms by (intro assign_teams_balanced(1)) (auto simp: maker_ok_def params_ok_def dvd_eq_mod_eq_0)
  moreover have "map (\<lambda>x. sd_agent_id (fst (snd x))) (enumerate n (zip crew ts)) = map sd_agent_id crew"
    if "length ts = length crew" for n and ts :: "nat list"
    using that by (induction crew ts arbitrary: n rule: list_induct2') auto
  ultimately show "map si_controller (roster_seats i (mk_params mk) crew) = map sd_agent_id crew"
    "length (roster_seats i (mk_params mk) crew) = length crew"
    by (simp_all add: roster_seats_def case_prod_unfold comp_def)
qed

text \<open>A settlement consumes a registration and moves known ratings only.\<close>

definition settles :: "mm_state \<Rightarrow> mm_state \<Rightarrow> bool" where
  "settles st st' \<longleftrightarrow> mm_queues st' = mm_queues st \<and> learns st st' \<and> ladder_ok st'
     \<and> (mm_pending st' = mm_pending st \<or> (\<exists>i. mm_pending st' = bt_remove i (mm_pending st)))"

lemma settles_refl: "ladder_ok st \<Longrightarrow> settles st st"
  by (simp add: settles_def)

lemma settles_insert:
  assumes "settles st st'" "in_i32 v" shows "settles st (st'\<lparr>mm_ratings := bt_insert a v (mm_ratings st')\<rparr>)"
proof -
  have "ladder_ok st'" using assms(1) by (simp add: settles_def)
  from ladder_ok_insert [OF this assms(2), of a] learns_insert [OF this, of a v] assms(1) show ?thesis
    by (auto simp: settles_def learns_def)
qed

lemma settles_remove: "ladder_ok st \<Longrightarrow> settles st (st\<lparr>mm_pending := bt_remove i (mm_pending st)\<rparr>)"
  by (auto simp: settles_def learns_def ladder_ok_def known_rating_def)

lemma settles_ranked: "ladder_ok st \<Longrightarrow> settles st (fst (apply_ranked_result result k st))"
proof -
  assume l: "ladder_ok st"
  have "settles st (st\<lparr>mm_pending := bt_remove i (mm_pending st),
      mm_ratings := bt_insert b (sat_i32 y) (bt_insert a (sat_i32 x) (mm_ratings st))\<rparr>)" for a b x y i
    using settles_insert [OF settles_insert [OF settles_remove [OF l, of i], of "sat_i32 x" a], of "sat_i32 y" b]
    by simp
  with settles_refl [OF l] show ?thesis
    unfolding apply_ranked_result_def Let_def by (auto split: list.splits option.splits)
qed

lemma settles_fold:
  "settles st st' \<Longrightarrow>
   settles st (st'\<lparr>mm_ratings := fold (\<lambda>(d, a, base). bt_insert a (sat_i32 (base + sd_delta d))) xs (mm_ratings st')\<rparr>)"
proof (induction xs arbitrary: st')
  case (Cons x xs)
  obtain d a b where x: "x = (d, a, b)" by (cases x) auto
  have "settles st (st'\<lparr>mm_ratings := bt_insert a (sat_i32 (b + sd_delta d)) (mm_ratings st')\<rparr>)"
    by (rule settles_insert [OF Cons.prems]) simp
  from Cons.IH [OF this] show ?case by (simp add: x)
qed simp

lemma settles_field: "ladder_ok st \<Longrightarrow> settles st (fst (apply_ranked_field_result result k st))"
proof -
  assume l: "ladder_ok st"
  show ?thesis
    unfolding apply_ranked_field_result_def Let_def
    using settles_refl [OF l] settles_fold [OF settles_remove [OF l]]
    by (auto split: option.splits)
qed

lemma settles_lobby:
  assumes "lobby_ok mk lb" "settles (lb_state lb) st'" shows "lobby_ok mk (lb\<lparr>lb_state := st'\<rparr>)"
proof -
  have le: "learns (lb_state lb) st'" using assms(2) by (simp add: settles_def)
  have "pending_ok mk st'"
    using assms le length_bt_remove [where m = "mm_pending (lb_state lb)"] bt_inv_remove [of "mm_pending (lb_state lb)"]
    unfolding lobby_ok_def pending_ok_def settles_def learns_def
    by (fastforce dest: bt_remove_in intro: order_trans)
  moreover have "queues_ok mk st'"
    using assms le queues_ok_learns [of mk "lb_state lb" st'] by (simp add: lobby_ok_def settles_def)
  ultimately show ?thesis using assms le forming_ok_learns by (auto simp: lobby_ok_def settles_def)
qed

lemma in_delete_nth: "x \<in> set (delete_nth i xs) \<Longrightarrow> x \<in> set xs"
  by (auto simp: delete_nth_def dest: in_set_takeD in_set_dropD)

lemma nth_opt_in: "nth_opt xs i = Some x \<Longrightarrow> x \<in> set xs"
  by (auto simp: nth_opt_def split: if_splits)

lemma lobby_step_ok: "lobby_ok mk lb \<Longrightarrow> lobby_step mk e lb = Some lb' \<Longrightarrow> lobby_ok mk lb'"
proof (cases e)
  case (Ev_Join mode nonce req)
  assume ok: "lobby_ok mk lb" and step: "lobby_step mk e lb = Some lb'"
  show ?thesis
  proof (cases "admit mk mode nonce req")
    case (Inr u)
    obtain st' c where sec: "join_section mk mode (seat_of req) (lb_state lb) = (st', c)" by fastforce
    have id: "mode = Mode_Agent \<Longrightarrow> ranked_identity mk (sd_agent_id (seat_of req))"
      using admit_ranked [of mk nonce req u] Inr by (simp add: seat_of_def)
    have pre: "maker_ok mk" "ladder_ok (lb_state lb)" "queues_ok mk (lb_state lb)"
      using ok by (auto simp: lobby_ok_def)
    note j = join_section_ok [OF sec pre admit_kind [OF Inr] id]
    have "pending_ok mk st'" using pending_ok_learns [of mk "lb_state lb" st'] ok j(2,3) by (simp add: lobby_ok_def)
    moreover have "\<forall>mc\<in>set (lb_forming lb). forming_ok mk st' mc"
      using ok j(2) forming_ok_learns by (auto simp: lobby_ok_def)
    ultimately show ?thesis
      using step Ev_Join Inr sec j ok by (auto simp: lobby_ok_def split: option.splits)
  qed (use ok step Ev_Join in auto)
next
  case (Ev_Build i n)
  assume ok: "lobby_ok mk lb" and step: "lobby_step mk e lb = Some lb'"
  show ?thesis
  proof (cases "nth_opt (lb_forming lb) n")
    case (Some mc)
    obtain mode crew where mc: "mc = (mode, crew)" by fastforce
    have mk: "maker_ok mk" using ok by (simp add: lobby_ok_def)
    have f: "forming_ok mk (lb_state lb) (mode, crew)" using ok Some mc nth_opt_in by (fastforce simp: lobby_ok_def)
    then have len: "length crew = mp_seats_per_match (mk_params mk)" by (simp add: forming_ok_def)
    note r = roster_seats_controllers [OF mk len]
    let ?as = "map si_controller (roster_seats i (mk_params mk) crew)"
    let ?st = "register_ranked (mk_params mk) i ?as (lb_state lb)"
    have le: "learns (lb_state lb) ?st" by (simp add: learns_def known_rating_def register_ranked_frame)
    have "pending_ok mk ?st" if "mode = Mode_Agent"
      by (rule register_ranked_ok) (use ok f that r len in \<open>auto simp: lobby_ok_def forming_ok_def\<close>)
    moreover have "queues_ok mk ?st" "ladder_ok ?st"
      using ok queues_ok_learns [OF _ le] by (auto simp: lobby_ok_def ladder_ok_def register_ranked_frame)
    moreover have "\<forall>mc\<in>set (delete_nth n (lb_forming lb)). forming_ok mk (lb_state lb) mc \<and> forming_ok mk ?st mc"
      using ok forming_ok_learns [OF _ le] by (auto simp: lobby_ok_def dest!: in_delete_nth)
    ultimately show ?thesis
      using step Ev_Build Some mc f ok unfolding lobby_ok_def
      by (auto simp: forming_ok_def [of _ _ "(mode, crew)"] Let_def simp del: fold_simps split: if_splits)
  qed (use ok step Ev_Build in auto)
next
  case (Ev_Settle result k)
  assume "lobby_ok mk lb" "lobby_step mk e lb = Some lb'"
  with Ev_Settle settles_lobby [OF _ settles_ranked] show ?thesis by (auto simp: lobby_ok_def)
next
  case (Ev_Settle_Field result k)
  assume "lobby_ok mk lb" "lobby_step mk e lb = Some lb'"
  with Ev_Settle_Field settles_lobby [OF _ settles_field] show ?thesis by (auto simp: lobby_ok_def)
qed

interpretation lobby: panic_machine "lobby_step mk" "lobby_ok mk"
  by unfold_locales (rule lobby_step_ok)

end
