(* ===== verification/Matchmaking_Props.thy ===== *)
theory Matchmaking_Props
  imports Matchmaking_Machine
begin

section \<open>What the matchmaker promises\<close>

subsection \<open>The invariant, and that no assertion fires\<close>

text \<open>A matchmaker as the operator configures it, before anybody joins.\<close>

definition configured :: "verifier \<Rightarrow> match_params \<Rightarrow> registry_snapshot option \<Rightarrow> int \<Rightarrow> maker \<Rightarrow> mm_state \<Rightarrow> bool" where
  "configured V p reg lowest mk st \<longleftrightarrow> (\<exists>mk0. matchmaker_new V p = Some (mk0, st)
     \<and> mk = with_ranked_reputation_floor lowest (with_ranked_registry reg mk0))"

lemma new_lobby_ok:
  assumes "configured V p reg lowest mk st" "mp_seats_per_match p < 256"
  shows "lobby_ok mk (new_lobby st)"
proof -
  have mk: "mk_params mk = p" "params_ok p" "st = mm_empty"
    using assms(1) by (auto simp: configured_def matchmaker_new_def with_ranked_reputation_floor_def
        with_ranked_registry_def split: if_splits)
  have "queue_ok (mp_seats_per_match p) mode []" for mode
    using mk(2) by (cases mode) (auto simp: queue_ok_def mode_kinds_def all_kind_def params_ok_def)
  moreover have "queue_for mode (mm_queues mm_empty) = []" for mode
    by (cases mode) (auto simp: queue_for_def mm_empty_def)
  ultimately show ?thesis
    using mk assms(2)
    by (auto simp: lobby_ok_def new_lobby_def maker_ok_def ladder_ok_def pending_ok_def queues_ok_def
        mm_empty_def bt.inv_empty)
qed

lemma lobby_step_total: "lobby_ok mk lb \<Longrightarrow> \<exists>lb'. lobby_step mk e lb = Some lb'"
proof (cases e)
  case (Ev_Build i n)
  assume "lobby_ok mk lb"
  then have "nth_opt (lb_forming lb) n = Some (mode, crew) \<Longrightarrow> composition_ok mode crew" for mode crew
    using nth_opt_in by (fastforce simp: lobby_ok_def forming_ok_def)
  then show ?thesis using Ev_Build by (auto simp: Let_def split: option.splits)
qed (auto split: sum.splits prod.splits option.splits)

lemma lobby_run_ok:
  assumes "lobby_ok mk lb" shows "\<exists>lb'. foldM (lobby_step mk) es lb = Some lb' \<and> lobby_ok mk lb'"
  using assms
proof (rule foldM_safe)
  show "\<exists>t'. lobby_step mk x t = Some t' \<and> lobby_ok mk t'" if "lobby_ok mk t" for x t
    using lobby_step_total [OF that, of x] lobby_step_ok [OF that, of x] by auto
qed

text \<open>
  Property C15. Every interleaving of joins, registrations and settlements returns, no assertion of
  \<^verbatim>\<open>build\<close> fires, and the matchmaker, of fewer than 256 seats a match, stays well formed: the human pool holds fewer
  people than a match seats, the mixed pool fewer or only one kind, the ranked pool fewer than twice as many
  (rivals that a settlement brings within tolerance wait there until somebody joins), every roster in flight is full
  and of the mode's kinds, the registry of unsettled matches stays under its cap if it has one, and every agent
  in a ranked pool, a ranked roster or the registry has passed the identity, registration and reputation
  gates and has a rating.
\<close>

theorem matchmaker_invariant:
  assumes "configured V p reg lowest mk st" "mp_seats_per_match p < 256"
  shows "\<exists>lb. foldM (lobby_step mk) es (new_lobby st) = Some lb \<and> lobby_ok mk lb"
  using lobby_run_ok [OF new_lobby_ok [OF assms]] .

definition duel_maker :: maker where
  "duel_maker = \<lparr>mk_verifier = stub_verifier [(''0xa'', ''t''), (''0xb'', ''u'')], mk_params = default_params,
     mk_ranked_registry = None, mk_reputation_floor = 0\<rparr>"

lemma duel_configured:
  "configured (stub_verifier [(''0xa'', ''t''), (''0xb'', ''u'')]) default_params None 0 duel_maker mm_empty"
  by (simp add: configured_def matchmaker_new_def params_ok_def default_params_def duel_maker_def
      with_ranked_reputation_floor_def with_ranked_registry_def)

theorem matchmaker_invariant_witness:
  "\<exists>lb. foldM (lobby_step duel_maker)
      [Ev_Join Mode_Agent [] (ranked_agent ''0xa'' ''t''), Ev_Join Mode_Agent [] (ranked_agent ''0xb'' ''u''), Ev_Build [] 0]
      (new_lobby mm_empty) = Some lb \<and> lobby_ok duel_maker lb"
  by (rule matchmaker_invariant [OF duel_configured]) (simp add: default_params_def)

subsection \<open>Formation\<close>

lemma try_form_ranked:
  assumes "try_form Mode_Agent queue ratings seats tol = (q, Some cr)" "2 \<le> seats" "seats < 256"
    "gap = (\<lambda>s. \<bar>rating_or_default ratings (sd_agent_id s) - rating_or_default ratings (sd_agent_id (hd queue))\<bar>)"
  shows "hd cr = hd queue \<and> (\<forall>s\<in>set (tl cr). \<forall>t\<in>set q. gap s \<le> gap t)
    \<and> ((\<forall>s\<in>set cr. gap s \<le> tol) \<or> 2 * seats \<le> length queue)"
proof -
  let ?P = "nearest_picks ratings queue seats"
  have len: "seats \<le> length queue" and sel: "select_ranked queue ratings seats tol \<noteq> None"
    using assms(1) by (auto simp: try_form_def split: if_splits option.splits)
  obtain x xs where q0: "queue = x # xs" using len assms(2) by (cases queue) auto
  have ok: "picks_ok (length queue) seats ?P" using nearest_picks_ok len assms(2) by simp
  have m: "min (seats * 2) (2 ^ 64 - 1) = seats * 2" using assms(3) by simp
  have out: "cr = nths queue (set ?P)" "q = nths queue (- set ?P)"
    and within: "(\<forall>i\<in>set ?P. rating_gap ratings queue i \<le> tol) \<or> 2 * seats \<le> length queue"
    using assms(1) sel remove_sorted_picks(1) [OF ok] len unfolding select_ranked_eq m
    by (auto simp: try_form_def select_ranked_eq split: if_splits)
  have gap: "gap (queue ! i) = rating_gap ratings queue i" for i
    by (simp add: assms(4) rating_gap_def q0)
  have zero: "0 \<in> set ?P" by (simp add: nearest_picks_def)
  then have cr: "cr = x # nths xs {j. Suc j \<in> set ?P}" using out(1) by (simp add: q0 nths_Cons)
  have "gap s \<le> gap t" if "s \<in> set (tl cr)" "t \<in> set q" for s t
  proof -
    from that(1) obtain i where i: "s = queue ! Suc i" "Suc i \<in> set ?P" by (auto simp: cr set_nths q0)
    from that(2) obtain j where j: "t = queue ! j" "j < length queue" "j \<notin> set ?P" by (auto simp: out(2) set_nths)
    show ?thesis using nearest_picks_nearest [OF i(2) _ j(2,3)] by (auto simp: i(1) j(1) gap)
  qed
  moreover have "\<forall>s\<in>set cr. gap s \<le> tol" if "\<forall>i\<in>set ?P. rating_gap ratings queue i \<le> tol"
    using that by (auto simp: out(1) set_nths gap)
  ultimately show ?thesis using within by (auto simp: cr q0)
qed

lemma subseq_nths: "subseq (nths xs A) xs"
  by (auto simp: subseq_conv_nths)

text \<open>
  Property C16. A join is atomic. The joiner is appended to its mode's queue; either nobody leaves, or exactly
  one full roster does: of the mode's kinds, in order of arrival, nobody lost and nobody seated twice. The
  roster is the front of the queue for humans; for ranked agents it is led by the longest-waiting one, no
  agent left behind is closer to it in rating than one taken, and either all of them are within the
  tolerance or the pool had reached twice the seats. The other queues and the registry are untouched.
\<close>

theorem join_section_atomic:
  assumes "lobby_ok mk lb" "admit mk mode nonce req = Inr u"
    "join_section mk mode (seat_of req) (lb_state lb) = (st', crew)"
    "q0 = queue_for mode (mm_queues (lb_state lb)) @ [seat_of req]" "seats = mp_seats_per_match (mk_params mk)"
    "gap = (\<lambda>s. \<bar>rating_or_default (mm_ratings st') (sd_agent_id s)
                  - rating_or_default (mm_ratings st') (sd_agent_id (hd q0))\<bar>)"
  shows "(case crew of
      None \<Rightarrow> queue_for mode (mm_queues st') = q0
    | Some cr \<Rightarrow> length cr = seats \<and> composition_ok mode cr \<and> subseq cr q0
        \<and> mset cr + mset (queue_for mode (mm_queues st')) = mset q0
        \<and> (mode = Mode_Human \<longrightarrow> cr = take seats q0)
        \<and> (mode = Mode_Agent \<longrightarrow> hd cr = hd q0
             \<and> (\<forall>s\<in>set (tl cr). \<forall>t\<in>set (queue_for mode (mm_queues st')). gap s \<le> gap t)
             \<and> ((\<forall>s\<in>set cr. gap s \<le> mp_ranked_rating_tolerance (mk_params mk)) \<or> 2 * seats \<le> length q0)))
    \<and> (\<forall>m. m \<noteq> mode \<longrightarrow> queue_for m (mm_queues st') = queue_for m (mm_queues (lb_state lb)))
    \<and> mm_pending st' = mm_pending (lb_state lb)"
proof -
  let ?st = "seeded mode (sd_agent_id (seat_of req)) (lb_state lb)"
  let ?tol = "mp_ranked_rating_tolerance (mk_params mk)"
  have mk: "maker_ok mk" and qok: "queue_ok seats mode (queue_for mode (mm_queues (lb_state lb)))"
    using assms(1,5) by (auto simp: lobby_ok_def queues_ok_def)
  note range = seats_range [OF mk, folded assms(5)]
  obtain q where t: "try_form mode q0 (mm_ratings ?st) seats ?tol = (q, crew)"
    and st': "st' = ?st\<lparr>mm_queues := set_queue mode q (mm_queues (lb_state lb))\<rparr>"
    using assms(3) by (auto simp: join_section_eq assms(4,5) split: prod.splits)
  have q: "queue_for mode (mm_queues st') = q" "mm_ratings st' = mm_ratings ?st"
    by (simp_all add: st' queue_for_set_queue)
  have rest: "(\<forall>m. m \<noteq> mode \<longrightarrow> queue_for m (mm_queues st') = queue_for m (mm_queues (lb_state lb)))
      \<and> mm_pending st' = mm_pending (lb_state lb)"
    by (auto simp: st' queue_for_set_queue seeded_def)
  show ?thesis
  proof (cases crew)
    case None
    with t rest q try_form_None [of mode q0 "mm_ratings ?st" seats ?tol q] show ?thesis by simp
  next
    case (Some cr)
    have kinds: "mode_kinds mode q0"
      using qok admit_kind [OF assms(2)] by (auto simp: assms(4) queue_ok_def mode_kinds_def all_kind_def)
    obtain picks where p: "taken seats mode q0 picks" "cr = nths q0 (set picks)" "q = nths q0 (- set picks)"
      "length cr = seats" "composition_ok mode cr"
      using try_form_Some [OF t [unfolded Some] kinds] range by blast
    have "cr = take seats q0" if "mode = Mode_Human"
    proof -
      from that p(1) have "set picks = {..<seats}" by (auto simp: taken_def atLeast0LessThan)
      then show ?thesis using p(2) by (simp add: nths_upt_eq_take)
    qed
    moreover have "hd cr = hd q0 \<and> (\<forall>s\<in>set (tl cr). \<forall>t\<in>set q. gap s \<le> gap t)
        \<and> ((\<forall>s\<in>set cr. gap s \<le> ?tol) \<or> 2 * seats \<le> length q0)" if "mode = Mode_Agent"
      using try_form_ranked [of q0 "mm_ratings ?st" seats ?tol q cr gap] t Some that range assms(6) q(2) by simp
    moreover have "subseq cr q0" "mset cr + mset q = mset q0"
      using p(2,3) subseq_nths mset_nths_Compl by auto
    ultimately show ?thesis unfolding Some option.case q(1) using p(4,5) rest by blast
  qed
qed


lemma admit_duel: "admit duel_maker Mode_Agent [] (ranked_agent ''0xa'' ''t'') = Inr ()"
  by (simp add: admit_def ranked_agent_def presented_token_def duel_maker_def stub_verifier_def bt_get_def)

theorem join_section_atomic_witness:
  "let r = join_section duel_maker Mode_Agent (seat_of (ranked_agent ''0xa'' ''t'')) mm_empty
   in queue_for Mode_Agent (mm_queues (fst r)) = [seat_of (ranked_agent ''0xa'' ''t'')] \<and> mm_pending (fst r) = []"
proof -
  let ?s = "seat_of (ranked_agent ''0xa'' ''t'')"
  obtain st' crew where r: "join_section duel_maker Mode_Agent ?s (lb_state (new_lobby mm_empty)) = (st', crew)" by fastforce
  have ok: "lobby_ok duel_maker (new_lobby mm_empty)"
    by (rule new_lobby_ok [OF duel_configured]) (simp add: default_params_def)
  have n: "crew = None"
    using r by (auto simp: join_section_eq try_form_def new_lobby_def mm_empty_def queue_for_def duel_maker_def default_params_def)
  from join_section_atomic [OF ok admit_duel r refl refl refl] r n show ?thesis
    by (simp add: new_lobby_def mm_empty_def queue_for_def)
qed

subsection \<open>Nobody is lost\<close>

definition waiting_ids :: "mm_state \<Rightarrow> string multiset" where
  "waiting_ids st = (\<Sum>mode\<in>{Mode_Human, Mode_Agent, Mode_Mixed}. image_mset sd_agent_id (mset (queue_for mode (mm_queues st))))"

text \<open>Everybody in the lobby: waiting, in a roster on its way, or seated in a match.\<close>

definition present :: "lobby \<Rightarrow> string multiset" where
  "present lb = waiting_ids (lb_state lb)
     + (\<Sum>(mode, crew)\<leftarrow>lb_forming lb. image_mset sd_agent_id (mset crew))
     + (\<Sum>(i, mode, seats)\<leftarrow>lb_built lb. image_mset si_controller (mset seats))"

definition admitted_ids :: "maker \<Rightarrow> mm_event \<Rightarrow> string list" where
  "admitted_ids mk e = (case e of Ev_Join mode nonce req \<Rightarrow>
       (case admit mk mode nonce req of Inl _ \<Rightarrow> [] | Inr _ \<Rightarrow> [jq_agent_id req]) | _ \<Rightarrow> [])"

lemma waiting_ids_queues: "mm_queues st' = mm_queues st \<Longrightarrow> waiting_ids st' = waiting_ids st"
  by (simp add: waiting_ids_def)

lemma waiting_ids_join:
  assumes "lobby_ok mk lb" "admit mk mode nonce req = Inr u"
    "join_section mk mode (seat_of req) (lb_state lb) = (st', crew)"
  shows "waiting_ids st' + image_mset sd_agent_id (mset (case crew of None \<Rightarrow> [] | Some cr \<Rightarrow> cr))
    = waiting_ids (lb_state lb) + {#jq_agent_id req#}"
proof -
  let ?q = "\<lambda>st m. mset (queue_for m (mm_queues st))"
  note a = join_section_atomic [OF assms refl refl refl]
  have new: "?q st' mode + mset (case crew of None \<Rightarrow> [] | Some cr \<Rightarrow> cr) = ?q (lb_state lb) mode + {#seat_of req#}"
    using a by (cases crew) (auto simp: union_commute)
  have old: "?q st' m = ?q (lb_state lb) m" if "m \<noteq> mode" for m using a that by auto
  have "image_mset sd_agent_id (?q st' mode) + image_mset sd_agent_id (mset (case crew of None \<Rightarrow> [] | Some cr \<Rightarrow> cr))
    = image_mset sd_agent_id (?q (lb_state lb) mode) + {#jq_agent_id req#}"
    using arg_cong [OF new, of "image_mset sd_agent_id"] by (simp add: seat_of_def)
  moreover have "waiting_ids st = image_mset sd_agent_id (?q st mode)
      + (\<Sum>m\<in>{Mode_Human, Mode_Agent, Mode_Mixed} - {mode}. image_mset sd_agent_id (?q st m))" for st
    unfolding waiting_ids_def by (rule sum.remove) (cases mode; simp)+
  moreover have "(\<Sum>m\<in>{Mode_Human, Mode_Agent, Mode_Mixed} - {mode}. image_mset sd_agent_id (?q st' m))
      = (\<Sum>m\<in>{Mode_Human, Mode_Agent, Mode_Mixed} - {mode}. image_mset sd_agent_id (?q (lb_state lb) m))"
    by (rule sum.cong) (use old in auto)
  ultimately show ?thesis by (simp add: ac_simps)
qed

lemma sum_delete_nth:
  assumes "nth_opt xs i = Some x"
  shows "(\<Sum>y\<leftarrow>xs. f y) = f x + (\<Sum>y\<leftarrow>delete_nth i xs. f y :: 'b::comm_monoid_add)"
proof -
  have "i < length xs" "xs ! i = x" using assms by (auto simp: nth_opt_def split: if_splits)
  then have "(\<Sum>y\<leftarrow>take i xs @ x # drop (Suc i) xs. f y) = (\<Sum>y\<leftarrow>xs. f y)"
    by (metis id_take_nth_drop)
  then show ?thesis by (simp add: delete_nth_def ac_simps)
qed

lemma present_settles: "settles (lb_state lb) st' \<Longrightarrow> present (lb\<lparr>lb_state := st'\<rparr>) = present lb"
  by (simp add: present_def settles_def waiting_ids_queues [of st' "lb_state lb"])

lemma present_step:
  assumes ok: "lobby_ok mk lb" and step: "lobby_step mk e lb = Some lb'"
  shows "present lb' = present lb + mset (admitted_ids mk e)"
proof (cases e)
  case (Ev_Join mode nonce req)
  show ?thesis
  proof (cases "admit mk mode nonce req")
    case (Inr u)
    obtain st' crew where r: "join_section mk mode (seat_of req) (lb_state lb) = (st', crew)" by fastforce
    from waiting_ids_join [OF ok Inr r] step Ev_Join Inr r show ?thesis
      by (cases crew) (auto simp: present_def admitted_ids_def ac_simps)
  qed (use step Ev_Join in \<open>auto simp: admitted_ids_def\<close>)
next
  case (Ev_Build i n)
  show ?thesis
  proof (cases "nth_opt (lb_forming lb) n")
    case (Some mc)
    obtain mode crew where mc: "mc = (mode, crew)" by fastforce
    have mk: "maker_ok mk" and f: "forming_ok mk (lb_state lb) (mode, crew)"
      using ok Some mc nth_opt_in by (fastforce simp: lobby_ok_def)+
    then have "length crew = mp_seats_per_match (mk_params mk)" by (simp add: forming_ok_def)
    from roster_seats_controllers(1) [OF mk this, of i]
    have "image_mset si_controller (mset (roster_seats i (mk_params mk) crew)) = image_mset sd_agent_id (mset crew)"
      by (metis mset_map)
    moreover have "(\<Sum>(mode, crew)\<leftarrow>lb_forming lb. image_mset sd_agent_id (mset crew))
        = image_mset sd_agent_id (mset crew) + (\<Sum>(mode, crew)\<leftarrow>delete_nth n (lb_forming lb). image_mset sd_agent_id (mset crew))"
      using sum_delete_nth [OF Some, of "\<lambda>(mode, crew). image_mset sd_agent_id (mset crew)"] by (simp add: mc)
    moreover have "waiting_ids (register_ranked (mk_params mk) i as (lb_state lb)) = waiting_ids (lb_state lb)" for as
      by (rule waiting_ids_queues) (rule register_ranked_frame)
    ultimately show ?thesis
      using step Ev_Build Some mc by (auto simp: present_def admitted_ids_def Let_def add_ac split: if_splits)
  qed (use step Ev_Build in \<open>auto simp: admitted_ids_def\<close>)
next
  case (Ev_Settle result k)
  have "ladder_ok (lb_state lb)" using ok by (simp add: lobby_ok_def)
  from present_settles [OF settles_ranked [OF this]] step Ev_Settle show ?thesis by (auto simp: admitted_ids_def)
next
  case (Ev_Settle_Field result k)
  have "ladder_ok (lb_state lb)" using ok by (simp add: lobby_ok_def)
  from present_settles [OF settles_field [OF this]] step Ev_Settle_Field show ?thesis by (auto simp: admitted_ids_def)
qed

text \<open>
  Property C18. However joins, registrations and settlements interleave, the people present are exactly the
  people admitted: every admitted request is waiting, in one roster on its way or in one seat of one match,
  once each, and nobody else is.
\<close>

theorem nobody_lost_or_doubled:
  assumes "lobby_ok mk lb" "foldM (lobby_step mk) es lb = Some lb'"
  shows "present lb' = present lb + mset (concat (map (admitted_ids mk) es))"
  using assms
proof (induction es arbitrary: lb)
  case (Cons e es)
  then obtain lb1 where "lobby_step mk e lb = Some lb1" "foldM (lobby_step mk) es lb1 = Some lb'"
    by (auto simp: panic_simps)
  with Cons.IH [of lb1] Cons.prems(1) present_step [of mk lb e lb1] lobby_step_ok [of mk lb e lb1] show ?case
    by (simp add: ac_simps)
qed simp

theorem nobody_lost_or_doubled_witness:
  "\<exists>lb. foldM (lobby_step duel_maker) [Ev_Join Mode_Agent [] (ranked_agent ''0xa'' ''t''), Ev_Build [] 0] (new_lobby mm_empty)
      = Some lb \<and> present lb = {#''0xa''#}"
proof -
  let ?es = "[Ev_Join Mode_Agent [] (ranked_agent ''0xa'' ''t''), Ev_Build [] 0]"
  have ok: "lobby_ok duel_maker (new_lobby mm_empty)"
    by (rule new_lobby_ok [OF duel_configured]) (simp add: default_params_def)
  then obtain lb where r: "foldM (lobby_step duel_maker) ?es (new_lobby mm_empty) = Some lb"
    using lobby_run_ok by blast
  have "present (new_lobby mm_empty) = {#}"
    by (simp add: present_def new_lobby_def waiting_ids_def mm_empty_def queue_for_def)
  moreover have "concat (map (admitted_ids duel_maker) ?es) = [''0xa'']"
    by (simp add: admitted_ids_def admit_duel) (simp add: ranked_agent_def)
  ultimately show ?thesis using nobody_lost_or_doubled [OF ok r] r by simp
qed

subsection \<open>Nobody starves\<close>

definition joins_ranked :: "maker \<Rightarrow> mm_event \<Rightarrow> bool" where
  "joins_ranked mk e = (case e of
     Ev_Join mode nonce req \<Rightarrow> mode = Mode_Agent \<and> (case admit mk mode nonce req of Inl _ \<Rightarrow> False | Inr _ \<Rightarrow> True)
   | _ \<Rightarrow> False)"

abbreviation ranked_pool :: "lobby \<Rightarrow> seated list" where
  "ranked_pool lb \<equiv> queue_for Mode_Agent (mm_queues (lb_state lb))"

lemma ranked_pool_step:
  assumes "lobby_ok mk lb" "lobby_step mk e lb = Some lb'" "ranked_pool lb = h # rest"
  shows "if joins_ranked mk e
    then (\<exists>cr. lb_forming lb' = lb_forming lb @ [(Mode_Agent, cr)] \<and> cr \<noteq> [] \<and> hd cr = h) \<or> (\<exists>s. ranked_pool lb' = h # rest @ [s])
    else ranked_pool lb' = h # rest"
proof (cases e)
  case (Ev_Join mode nonce req)
  show ?thesis
  proof (cases "admit mk mode nonce req")
    case (Inr u)
    obtain st' crew where r: "join_section mk mode (seat_of req) (lb_state lb) = (st', crew)" by fastforce
    note a = join_section_atomic [OF assms(1) Inr r refl refl refl]
    show ?thesis
    proof (cases "mode = Mode_Agent")
      case True
      then show ?thesis
        using a assms(2,3) Ev_Join Inr r seats_range [of mk] assms(1)
        by (cases crew) (auto simp: joins_ranked_def lobby_ok_def composition_ok_kinds)
    qed (use a assms(2,3) Ev_Join Inr r in \<open>auto simp: joins_ranked_def split: option.splits\<close>)
  qed (use assms(2,3) Ev_Join in \<open>auto simp: joins_ranked_def\<close>)
next
  case (Ev_Build i n)
  with assms(2,3) show ?thesis
    by (auto simp: joins_ranked_def Let_def register_ranked_frame split: option.splits if_splits)
next
  case (Ev_Settle result k)
  have "settles (lb_state lb) (fst (apply_ranked_result result k (lb_state lb)))"
    using assms(1) by (auto simp: lobby_ok_def intro: settles_ranked)
  with assms(2,3) Ev_Settle show ?thesis by (auto simp: joins_ranked_def settles_def)
next
  case (Ev_Settle_Field result k)
  have "settles (lb_state lb) (fst (apply_ranked_field_result result k (lb_state lb)))"
    using assms(1) by (auto simp: lobby_ok_def intro: settles_field)
  with assms(2,3) Ev_Settle_Field show ?thesis by (auto simp: joins_ranked_def settles_def)
qed

lemma ranked_pool_bound: "lobby_ok mk lb \<Longrightarrow> length (ranked_pool lb) < 2 * mp_seats_per_match (mk_params mk)"
proof -
  assume "lobby_ok mk lb"
  then have "queue_ok (mp_seats_per_match (mk_params mk)) Mode_Agent (ranked_pool lb)"
    by (simp add: lobby_ok_def queues_ok_def)
  then show ?thesis by (simp add: queue_ok_def)
qed

text \<open>
  Property C20. No rating is starved: the agent at the head of the ranked pool leads the next ranked roster,
  and it is pulled at the latest when the joins admitted after it fill the pool to twice the seats of a
  match, whatever the ratings and whatever else happens in between.
\<close>

theorem ranked_head_is_seated:
  assumes "lobby_ok mk lb" "ranked_pool lb = h # rest" "foldM (lobby_step mk) es lb = Some lb'"
    "2 * mp_seats_per_match (mk_params mk) \<le> length (ranked_pool lb) + length (filter (joins_ranked mk) es)"
  shows "\<exists>es1 e es2 lb1 lb2 cr. es = es1 @ e # es2 \<and> foldM (lobby_step mk) es1 lb = Some lb1
    \<and> lobby_step mk e lb1 = Some lb2 \<and> lb_forming lb2 = lb_forming lb1 @ [(Mode_Agent, cr)] \<and> cr \<noteq> [] \<and> hd cr = h"
  using assms
proof (induction es arbitrary: lb rest)
  case Nil
  then show ?case using ranked_pool_bound [OF Nil.prems(1)] by simp
next
  case (Cons e es)
  then obtain lb1 where s: "lobby_step mk e lb = Some lb1" "foldM (lobby_step mk) es lb1 = Some lb'"
    by (auto simp: panic_simps)
  have ok: "lobby_ok mk lb1" using Cons.prems(1) s(1) by (rule lobby_step_ok)
  note p = ranked_pool_step [OF Cons.prems(1) s(1) Cons.prems(2)]
  show ?case
  proof (cases "\<exists>cr. lb_forming lb1 = lb_forming lb @ [(Mode_Agent, cr)] \<and> cr \<noteq> [] \<and> hd cr = h")
    case True
    with s(1) show ?thesis by (intro exI [of _ "[]"]) fastforce
  next
    case False
    with p obtain r where r: "ranked_pool lb1 = h # r"
      "length r = length rest + (if joins_ranked mk e then 1 else 0)" by (auto split: if_splits)
    have "2 * mp_seats_per_match (mk_params mk) \<le> length (ranked_pool lb1) + length (filter (joins_ranked mk) es)"
      using Cons.prems(2,4) r by (auto split: if_splits)
    from Cons.IH [OF ok r(1) s(2) this] obtain es1 e' es2 l1 l2 cr where i: "es = es1 @ e' # es2"
      "foldM (lobby_step mk) es1 lb1 = Some l1" "lobby_step mk e' l1 = Some l2"
      "lb_forming l2 = lb_forming l1 @ [(Mode_Agent, cr)]" "cr \<noteq> []" "hd cr = h"
      by blast
    have "e # es = (e # es1) @ e' # es2" "foldM (lobby_step mk) (e # es1) lb = Some l1" using i s(1) by simp_all
    with i show ?thesis by blast
  qed
qed

end
