(* ===== verification/Ladder.thy ===== *)
theory Ladder
  imports Matchmaking_Props Ranking
begin

section \<open>What a result does to the ladder\<close>

definition ladder_total :: "mm_state \<Rightarrow> int" where
  "ladder_total st = sum_list (map snd (mm_ratings st))"

lemma bt_insert_total:
  assumes "bt_inv m" "bt_get m a = Some base"
  shows "sum_list (map snd (bt_insert a v m)) = sum_list (map snd m) - base + (v :: int)"
  using assms
proof (induction m)
  case (Cons x m)
  obtain b w where x: "x = (b, w)" by fastforce
  show ?case
  proof (cases "a = b")
    case False
    then have m: "bt_get m a = Some base" using Cons.prems(2) by (simp add: bt_get_def x)
    then have "a \<in> fst ` set m" by (metis bt_get_def map_of_eq_None_iff option.distinct(1))
    then have "b < a" using Cons.prems(1) by (auto simp: x bt_inv_def)
    with m Cons show ?thesis by (auto simp: x bt_inv_def)
  qed (use Cons.prems(2) in \<open>simp add: x bt_get_def\<close>)
qed (simp add: bt_get_def)

definition apply_moves :: "(seat_delta \<times> string \<times> i32) list \<Rightarrow> (string, i32) btree \<Rightarrow> (string, i32) btree" where
  "apply_moves xs m = fold (\<lambda>(d, a, base). bt_insert a (sat_i32 (base + sd_delta d))) xs m"

lemma apply_moves_spec:
  "bt_inv m \<Longrightarrow> distinct (map (\<lambda>x. fst (snd x)) xs) \<Longrightarrow> bt_inv (apply_moves xs m)
   \<and> (\<forall>(d, a, base)\<in>set xs. bt_get (apply_moves xs m) a = Some (sat_i32 (base + sd_delta d)))
   \<and> (\<forall>a. a \<notin> (\<lambda>x. fst (snd x)) ` set xs \<longrightarrow> bt_get (apply_moves xs m) a = bt_get m a)"
proof (induction xs arbitrary: m)
  case (Cons x xs)
  obtain d a b where x: "x = (d, a, b)" by (cases x) auto
  let ?m = "bt_insert a (sat_i32 (b + sd_delta d)) m"
  have inv: "bt_inv ?m" using Cons.prems(1) by (rule bt_inv_insert)
  have step: "apply_moves (x # xs) m = apply_moves xs ?m" by (simp add: apply_moves_def x)
  have "bt_get (apply_moves xs ?m) a = Some (sat_i32 (b + sd_delta d))"
    using Cons.IH [OF inv] Cons.prems by (simp add: x bt_get_insert)
  with Cons.IH [OF inv] Cons.prems show ?case unfolding step by (auto simp: x bt_get_insert)
qed (simp add: apply_moves_def)

lemmas apply_moves_get = apply_moves_spec [THEN conjunct2]

lemma apply_moves_total:
  assumes "bt_inv m" "distinct (map (\<lambda>x. fst (snd x)) xs)"
    "\<forall>(d, a, base)\<in>set xs. bt_get m a = Some base \<and> in_i32 (base + sd_delta d)"
  shows "sum_list (map snd (apply_moves xs m)) = sum_list (map snd m) + sum_list (map (\<lambda>x. sd_delta (fst x)) xs)"
  using assms
proof (induction xs arbitrary: m)
  case (Cons x xs)
  obtain d a b where x: "x = (d, a, b)" by (cases x) auto
  let ?m = "bt_insert a (sat_i32 (b + sd_delta d)) m"
  have "bt_inv ?m" using Cons.prems(1) by (rule bt_inv_insert)
  moreover have "\<forall>(d, a, base)\<in>set xs. bt_get ?m a = Some base \<and> in_i32 (base + sd_delta d)"
    using Cons.prems by (force simp: x bt_get_insert)
  ultimately have "sum_list (map snd (apply_moves xs ?m)) = sum_list (map snd ?m) + sum_list (map (\<lambda>x. sd_delta (fst x)) xs)"
    using Cons.prems(2) by (intro Cons.IH) (auto simp: x)
  moreover have "sum_list (map snd ?m) = sum_list (map snd m) + sd_delta d"
    using Cons.prems by (subst bt_insert_total [of m a b]) (auto simp: x)
  ultimately show ?case by (simp add: x apply_moves_def)
qed (simp add: apply_moves_def)

lemma cover_roster_Some:
  "cover_roster crew seen os = Some as \<Longrightarrow> as = map (\<lambda>o'. crew ! so_seat o') os
     \<and> distinct (map so_seat os) \<and> set (map so_seat os) \<subseteq> {..<length crew} - set seen"
proof (induction crew seen os arbitrary: as rule: cover_roster.induct)
  case (2 crew seen o1 os)
  then show ?case by (fastforce simp: nth_opt_def split: option.splits if_splits)
qed simp

lemma permuted_roster:
  assumes "distinct seats" "set seats \<subseteq> {..<length crew}" "length seats = length crew"
  shows "mset (map ((!) crew) seats) = mset crew"
proof -
  have "set seats = {..<length crew}"
    using assms by (intro card_subset_eq) (auto simp: distinct_card)
  then have "mset seats = mset [0..<length crew]"
    using assms(1) by (metis atLeast0LessThan atLeast_upt distinct_upt set_eq_iff_mset_eq_distinct)
  then have "mset (map ((!) crew) seats) = mset (map ((!) crew) [0..<length crew])" by (metis mset_map)
  then show ?thesis by (simp add: map_nth)
qed

text \<open>Registered results: what the field route accepts, and what it does.\<close>

lemma field_result_cases:
  assumes "apply_ranked_field_result result k st = (st', r)"
  obtains (refused) "r = None" "st' = st"
  | (settled) p as ds where "r = Some ds" "bt_get (mm_pending st) (mr_match_id result) = Some p"
    "length (mr_outcomes result) = length (pr_agents p)" "as = map (\<lambda>o'. pr_agents p ! so_seat o') (mr_outcomes result)"
    "mset as = mset (pr_agents p)" "ranked_field_delta result (map (rating_or_default (mm_ratings st)) as) k = Some ds"
    "st' = st\<lparr>mm_pending := bt_remove (mr_match_id result) (mm_pending st),
       mm_ratings := apply_moves (zip ds (zip as (map (rating_or_default (mm_ratings st)) as))) (mm_ratings st)\<rparr>"
proof (cases r)
  case None
  then have "st' = st"
    using assms by (auto simp: apply_ranked_field_result_def Let_def split: option.splits if_splits)
  with None show thesis by (rule refused)
next
  case (Some ds)
  then obtain p as where p: "bt_get (mm_pending st) (mr_match_id result) = Some p"
    "length (mr_outcomes result) = length (pr_agents p)" "cover_roster (pr_agents p) [] (mr_outcomes result) = Some as"
    "ranked_field_delta result (map (rating_or_default (mm_ratings st)) as) k = Some ds"
    "st' = st\<lparr>mm_pending := bt_remove (mr_match_id result) (mm_pending st),
       mm_ratings := apply_moves (zip ds (zip as (map (rating_or_default (mm_ratings st)) as))) (mm_ratings st)\<rparr>"
    using assms unfolding apply_ranked_field_result_def Let_def apply_moves_def
    by (auto split: option.splits if_splits)
  note c = cover_roster_Some [OF p(3)]
  have as: "as = map (\<lambda>o'. pr_agents p ! so_seat o') (mr_outcomes result)" using c by simp
  have "mset (map ((!) (pr_agents p)) (map so_seat (mr_outcomes result))) = mset (pr_agents p)"
    by (rule permuted_roster) (use c p(2) in auto)
  then have "mset as = mset (pr_agents p)" by (simp only: as map_map comp_def)
  from settled [OF Some p(1,2) as this p(4,5)] show thesis .
qed

definition opponents :: "match_result \<Rightarrow> int" where
  "opponents result = int (length (mr_outcomes result) - 1)"

text \<open>
  Property C17. The ladder is zero-sum. When a field of different agents settles, the total of all ratings is
  unchanged as long as nobody is within a match's worth of the 32-bit limits; every seat's agent moves by
  exactly its delta, nobody else moves, and the registration is gone, so that no result under the same match
  id settles again.
\<close>

theorem field_settlement_zero_sum:
  assumes "lobby_ok mk lb" "st = lb_state lb"
    "apply_ranked_field_result result k st = (st', Some ds)"
    "bt_get (mm_pending st) (mr_match_id result) = Some p" "distinct (pr_agents p)" "0 \<le> k"
    "\<forall>(a, r)\<in>set (mm_ratings st). \<bar>r\<bar> + opponents result * k < 2 ^ 31"
  shows "ladder_total st' = ladder_total st
    \<and> (\<forall>(d, o')\<in>set (zip ds (mr_outcomes result)). sd_seat d = so_seat o'
         \<and> rating st' (pr_agents p ! so_seat o') = map_option (\<lambda>r. r + sd_delta d) (rating st (pr_agents p ! so_seat o')))
    \<and> (\<forall>a. a \<notin> set (pr_agents p) \<longrightarrow> rating st' a = rating st a)
    \<and> (\<forall>later k'. mr_match_id later = mr_match_id result \<longrightarrow> apply_ranked_field_result later k' st' = (st', None))"
  using assms(3)
proof (cases rule: field_result_cases)
  case (settled p' as ds')
  let ?n = "length (mr_outcomes result)" and ?base = "map (rating_or_default (mm_ratings st)) as"
  let ?xs = "zip ds (zip as ?base)"
  have eq: "p' = p" "ds' = ds" using settled(1,2) assms(4) by simp_all
  have ok: "ladder_ok st" "pending_ok mk st" using assms(1,2) by (simp_all add: lobby_ok_def)
  then have inv: "bt_inv (mm_ratings st)" by (simp add: ladder_ok_def)
  have as: "as = map (\<lambda>o'. pr_agents p ! so_seat o') (mr_outcomes result)" "length as = ?n" "set as = set (pr_agents p)"
    using settled(4) mset_eq_setD [OF settled(5)] eq by simp_all
  have dis: "distinct as" using assms(5) settled(5) eq by (metis mset_eq_imp_distinct_iff)
  have fd: "ranked_field_delta result ?base k = Some ds" using settled(6) eq by simp
  then have n: "2 \<le> ?n" by (auto simp: ranked_field_delta_def Let_def split: if_splits)
  have known: "bt_get (mm_ratings st) a = Some (rating_or_default (mm_ratings st) a)" if "a \<in> set as" for a
  proof -
    have "known_rating st a"
      using ok(2) assms(4) that as(3) by (fastforce simp: pending_ok_def bt_get_def dest: map_of_SomeD)
    then show ?thesis by (auto simp: known_rating_def rating_or_default_def split: option.splits)
  qed
  have room: "\<bar>rating_or_default (mm_ratings st) a\<bar> + opponents result * k < 2 ^ 31" if "a \<in> set as" for a
    using known [OF that] assms(7) by (auto simp: bt_get_def dest!: map_of_SomeD)
  obtain a0 where "a0 \<in> set as" using as(2) n by (cases as) auto
  from room [OF this] have small: "int (?n - 1) * k < 2 ^ 31" by (simp add: opponents_def)
  note z = ranked_field_zero_sum [OF fd assms(6) small]
  have len: "length ds = ?n" using z by (metis length_map)
  have xs: "map (\<lambda>x. fst (snd x)) ?xs = as" "map (\<lambda>x. sd_delta (fst x)) ?xs = map sd_delta ds"
    using len as(2) by (auto intro!: nth_equalityI)
  have in_xs: "bt_get (mm_ratings st) a = Some b \<and> in_i32 (b + sd_delta d)" if "(d, a, b) \<in> set ?xs" for d a b
  proof -
    have b: "a \<in> set as" "b = rating_or_default (mm_ratings st) a" "d \<in> set ds"
      using that by (auto simp: set_zip)
    have "\<bar>sd_delta d\<bar> \<le> opponents result * k" using z b(3) by (auto simp: opponents_def)
    then show ?thesis using known [OF b(1)] room [OF b(1)] b(2) by (auto simp: in_i32_def abs_less_iff)
  qed
  have st': "mm_ratings st' = apply_moves ?xs (mm_ratings st)" "mm_pending st' = bt_remove (mr_match_id result) (mm_pending st)"
    using settled(7) eq by simp_all
  have "ladder_total st' = ladder_total st"
    unfolding ladder_total_def st'(1) using z xs dis in_xs inv by (subst apply_moves_total) auto
  moreover have "sd_seat d = so_seat o' \<and> rating st' (pr_agents p ! so_seat o') = map_option (\<lambda>r. r + sd_delta d) (rating st (pr_agents p ! so_seat o'))"
    if pair: "(d, o') \<in> set (zip ds (mr_outcomes result))" for d o'
  proof -
    obtain i where i: "i < ?n" "d = ds ! i" "o' = mr_outcomes result ! i" using pair len by (force simp: set_zip)
    have "map sd_seat ds ! i = map so_seat (mr_outcomes result) ! i" using z by simp
    then have seat: "sd_seat d = so_seat o'" using i len by simp
    have a: "as ! i = pr_agents p ! so_seat o'" "as ! i \<in> set as" using i as(1,2) by simp_all
    then have mem: "(d, as ! i, rating_or_default (mm_ratings st) (as ! i)) \<in> set ?xs"
      using i len as(2) by (auto simp: set_zip)
    have "bt_get (mm_ratings st') (as ! i) = Some (sat_i32 (rating_or_default (mm_ratings st) (as ! i) + sd_delta d))"
      using apply_moves_get [OF inv, of ?xs] mem xs(1) dis unfolding st'(1) by force
    then show ?thesis using seat a known [OF a(2)] in_xs [OF mem] by (simp add: rating_def)
  qed
  moreover have "rating st' a = rating st a" if "a \<notin> set (pr_agents p)" for a
  proof -
    have "a \<notin> (\<lambda>x. fst (snd x)) ` set ?xs" using that as(3) arg_cong [OF xs(1), of set] by simp
    with apply_moves_get [OF inv, of ?xs] xs(1) dis show ?thesis unfolding rating_def st'(1) by simp
  qed
  moreover have "apply_ranked_field_result later k' st' = (st', None)" if "mr_match_id later = mr_match_id result" for later k'
    using that by (simp add: apply_ranked_field_result_def st'(2) bt_get_remove)
  ultimately show ?thesis by auto
qed simp

subsection \<open>Two agents, and one agent twice\<close>

abbreviation rated :: "string \<Rightarrow> seated" where
  "rated a \<equiv> \<lparr>sd_agent_id = a, sd_kind = Ctl_Agent\<rparr>"

definition duel_joins :: "string \<Rightarrow> string \<Rightarrow> mm_event list" where
  "duel_joins b token = [Ev_Join Mode_Agent [] (ranked_agent ''0xa'' ''t''), Ev_Join Mode_Agent [] (ranked_agent b token)]"

lemma duel_admits:
  "admit duel_maker Mode_Agent n (ranked_agent ''0xa'' ''t'') = Inr ()"
  "admit duel_maker Mode_Agent n (ranked_agent ''0xb'' ''u'') = Inr ()"
  by (simp_all add: admit_def ranked_agent_def presented_token_def duel_maker_def stub_verifier_def bt_get_def)

lemma duel_section_1: "join_section duel_maker Mode_Agent (rated ''0xa'') mm_empty =
  (mm_empty\<lparr>mm_queues := \<lparr>q_human = [], q_agent = [rated ''0xa''], q_mixed = []\<rparr>, mm_ratings := [(''0xa'', 1500)]\<rparr>, None)"
  by (simp add: join_section_def mm_empty_def duel_maker_def default_params_def try_form_def queue_for_def set_queue_def
      bt_get_def DEFAULT_RATING_def)

lemma duel_section_2: "join_section duel_maker Mode_Agent (rated b)
  (mm_empty\<lparr>mm_queues := \<lparr>q_human = [], q_agent = [rated ''0xa''], q_mixed = []\<rparr>, mm_ratings := [(''0xa'', 1500)]\<rparr>) =
  (mm_empty\<lparr>mm_ratings := (if b = ''0xa'' then [(''0xa'', 1500)] else bt_insert b 1500 [(''0xa'', 1500)])\<rparr>,
   Some [rated ''0xa'', rated b])"
  by (simp add: join_section_def mm_empty_def duel_maker_def default_params_def try_form_def queue_for_def set_queue_def
      bt_get_def DEFAULT_RATING_def select_ranked_def rating_or_default_def upt_rec Let_def)

definition duel_state :: "uuid \<Rightarrow> string \<Rightarrow> mm_state" where
  "duel_state i b = mm_empty\<lparr>mm_ratings := (if b = ''0xa'' then [(''0xa'', 1500)] else bt_insert b 1500 [(''0xa'', 1500)]),
     mm_next_seq := 1, mm_pending := [(i, \<lparr>pr_seq = 0, pr_agents = [''0xa'', b]\<rparr>)]\<rparr>"

lemma duel_run:
  assumes "(b, token) = (''0xa'', ''t'') \<or> (b, token) = (''0xb'', ''u'')"
  shows "\<exists>built. foldM (lobby_step duel_maker) (duel_joins b token @ [Ev_Build i 0]) (new_lobby mm_empty)
    = Some \<lparr>lb_state = duel_state i b, lb_forming = [], lb_built = built\<rparr>"
proof -
  have s: "seat_of (ranked_agent b token) = rated b" "admit duel_maker Mode_Agent [] (ranked_agent b token) = Inr ()" for n
    using assms duel_admits by (auto simp: seat_of_def ranked_agent_def)
  have s0: "seat_of (ranked_agent ''0xa'' ''t'') = rated ''0xa''" by (simp add: seat_of_def ranked_agent_def)
  let ?st1 = "mm_empty\<lparr>mm_queues := \<lparr>q_human = [], q_agent = [rated ''0xa''], q_mixed = []\<rparr>, mm_ratings := [(''0xa'', 1500)]\<rparr>"
  let ?st2 = "mm_empty\<lparr>mm_ratings := (if b = ''0xa'' then [(''0xa'', 1500)] else bt_insert b 1500 [(''0xa'', 1500)])\<rparr>"
  have one: "lobby_step duel_maker (Ev_Join Mode_Agent [] (ranked_agent ''0xa'' ''t'')) (new_lobby mm_empty)
      = Some \<lparr>lb_state = ?st1, lb_forming = [], lb_built = []\<rparr>"
    by (simp add: s0 duel_admits new_lobby_def duel_section_1)
  have two: "lobby_step duel_maker (Ev_Join Mode_Agent [] (ranked_agent b token)) \<lparr>lb_state = ?st1, lb_forming = [], lb_built = []\<rparr>
      = Some \<lparr>lb_state = ?st2, lb_forming = [(Mode_Agent, [rated ''0xa'', rated b])], lb_built = []\<rparr>"
    by (simp add: s duel_section_2)
  have seats: "map si_controller (roster_seats i (mk_params duel_maker) [rated ''0xa'', rated b]) = [''0xa'', b]"
    by (simp add: roster_seats_def assign_teams_def duel_maker_def default_params_def)
  have reg: "register_ranked (mk_params duel_maker) i [''0xa'', b] ?st2 = duel_state i b"
    by (simp add: register_ranked_def Let_def duel_state_def duel_maker_def default_params_def mm_empty_def)
  have three: "\<exists>built. lobby_step duel_maker (Ev_Build i 0) \<lparr>lb_state = ?st2, lb_forming = [(Mode_Agent, [rated ''0xa'', rated b])], lb_built = []\<rparr>
      = Some \<lparr>lb_state = duel_state i b, lb_forming = [], lb_built = built\<rparr>"
    by (simp add: nth_opt_def delete_nth_def composition_ok_kinds all_kind_def Let_def seats reg)
  from three show ?thesis by (auto simp: duel_joins_def one two simp del: lobby_step.simps)
qed

definition second_wins :: "uuid \<Rightarrow> match_result" where
  "second_wins i = (duel_result [duel_outcome 0 2 False, duel_outcome 1 1 False])\<lparr>mr_match_id := i\<rparr>"

lemma even_duel: "rating_delta 1500 1500 WinB 32 = \<lparr>rd_a = - 16, rd_b = 16\<rparr>"
  by (simp add: rating_delta_def expected_score_curve score_curve_def EXPECTED_SCORE_TABLE_def sat_i32_def
      Let_def RATING_SCALE_def sdiv_neg_num as_i32_def)

theorem field_settlement_zero_sum_witness:
  "let r = apply_ranked_field_result (second_wins []) 32 (duel_state [] ''0xb'')
   in ladder_total (fst r) = 3000 \<and> snd r \<noteq> None"
proof -
  let ?st = "duel_state [] ''0xb''" and ?p = "\<lparr>pr_seq = 0, pr_agents = [''0xa'', ''0xb'']\<rparr>"
  obtain built where run: "foldM (lobby_step duel_maker) (duel_joins ''0xb'' ''u'' @ [Ev_Build [] 0]) (new_lobby mm_empty)
      = Some \<lparr>lb_state = ?st, lb_forming = [], lb_built = built\<rparr>" using duel_run [of "''0xb''" "''u''" "[]"] by auto
  have "lobby_ok duel_maker (new_lobby mm_empty)"
    by (rule new_lobby_ok [OF duel_configured]) (simp add: default_params_def)
  from lobby.run_keeps [OF this run] have ok: "lobby_ok duel_maker \<lparr>lb_state = ?st, lb_forming = [], lb_built = built\<rparr>" .
  have p: "bt_get (mm_pending ?st) (mr_match_id (second_wins [])) = Some ?p"
    by (simp add: duel_state_def second_wins_def bt_get_def)
  have rs: "mm_ratings ?st = [(''0xa'', 1500), (''0xb'', 1500)]" by (simp add: duel_state_def)
  obtain st' ds where r: "apply_ranked_field_result (second_wins []) 32 ?st = (st', Some ds)"
    using p by (simp add: apply_ranked_field_result_def second_wins_def duel_result_def duel_outcome_def nth_opt_def
        ranked_field_delta_def Let_def)
  have "ladder_total st' = ladder_total ?st"
    using field_settlement_zero_sum [OF ok _ r p, simplified] rs
    by (simp add: opponents_def second_wins_def duel_result_def)
  then show ?thesis using r rs by (simp add: ladder_total_def)
qed

text \<open>
  Nothing keeps an agent from playing itself: a ranked identity that joins twice is seated on both
  sides of one match, and when that match settles both sides' ratings are written to the same ladder entry,
  the second over the first. The winner's points have no loser, so at \<open>k = 32\<close> the ladder grows by 16.
\<close>

theorem self_match_inflates_ladder:
  "\<exists>lb. foldM (lobby_step duel_maker) (duel_joins ''0xa'' ''t'' @ [Ev_Build i 0, Ev_Settle (second_wins i) 32])
      (new_lobby mm_empty) = Some lb
    \<and> mm_ratings (lb_state lb) = [(''0xa'', 1516)] \<and> ladder_total (lb_state lb) = 1500 + 16"
proof -
  obtain built where run: "foldM (lobby_step duel_maker) (duel_joins ''0xa'' ''t'' @ [Ev_Build i 0]) (new_lobby mm_empty)
      = Some \<lparr>lb_state = duel_state i ''0xa'', lb_forming = [], lb_built = built\<rparr>"
    using duel_run [of "''0xa''" "''t''" i] by auto
  have "ranked_delta (second_wins i) 1500 1500 32 = Some \<lparr>rd_a = - 16, rd_b = 16\<rparr>"
    by (simp add: ranked_delta_def second_wins_def duel_result_def duel_outcome_def settlement_of_def even_duel)
  then have settle: "apply_ranked_result (second_wins i) 32 (duel_state i ''0xa'')
      = ((duel_state i ''0xa'')\<lparr>mm_pending := [], mm_ratings := [(''0xa'', 1516)]\<rparr>, Some \<lparr>rd_a = - 16, rd_b = 16\<rparr>)"
    by (simp add: apply_ranked_result_def second_wins_def duel_result_def duel_outcome_def duel_state_def bt_get_def
        nth_opt_def rating_or_default_def bt_remove_def sat_i32_def)
  have "duel_joins ''0xa'' ''t'' @ [Ev_Build i 0, Ev_Settle (second_wins i) 32]
      = (duel_joins ''0xa'' ''t'' @ [Ev_Build i 0]) @ [Ev_Settle (second_wins i) 32]" by simp
  then show ?thesis using run settle by (simp only: foldM_append) (simp add: ladder_total_def)
qed

theorem ranked_head_is_seated_witness:
  "\<exists>lb es1 e es2 lb1 lb2 cr. replicate 3 (Ev_Join Mode_Agent [] (ranked_agent ''0xb'' ''u'')) = es1 @ e # es2
     \<and> foldM (lobby_step duel_maker) es1 lb = Some lb1
     \<and> lobby_step duel_maker e lb1 = Some lb2 \<and> lb_forming lb2 = lb_forming lb1 @ [(Mode_Agent, cr)] \<and> hd cr = rated ''0xa''"
proof -
  let ?es = "replicate 3 (Ev_Join Mode_Agent [] (ranked_agent ''0xb'' ''u''))"
  have "lobby_ok duel_maker (new_lobby mm_empty)"
    by (rule new_lobby_ok [OF duel_configured]) (simp add: default_params_def)
  moreover have "seat_of (ranked_agent ''0xa'' ''t'') = rated ''0xa''" by (simp add: seat_of_def ranked_agent_def)
  then have "\<exists>lb. lobby_step duel_maker (Ev_Join Mode_Agent [] (ranked_agent ''0xa'' ''t'')) (new_lobby mm_empty) = Some lb
      \<and> ranked_pool lb = [rated ''0xa'']"
    by (simp add: duel_admits new_lobby_def duel_section_1 queue_for_def)
  ultimately obtain lb where ok: "lobby_ok duel_maker lb" and pool: "ranked_pool lb = [rated ''0xa'']"
    using lobby_step_ok by blast
  obtain lb' where run: "foldM (lobby_step duel_maker) ?es lb = Some lb'" using lobby_run_ok [OF ok] by blast
  have "2 * mp_seats_per_match (mk_params duel_maker) \<le> length (ranked_pool lb) + length (filter (joins_ranked duel_maker) ?es)"
    by (simp add: pool joins_ranked_def duel_admits numeral_3_eq_3) (simp add: duel_maker_def default_params_def)
  from ranked_head_is_seated [OF ok pool run this] show ?thesis by blast
qed

text \<open>
  The two settlement routes agree: a result of the core's ranking of two seats moves the ladder
  and the registry in exactly the same way through \<^verbatim>\<open>apply_ranked_result\<close> and through
  \<^verbatim>\<open>apply_ranked_field_result\<close>, and each refuses what the other refuses.
\<close>

theorem settlement_routes_agree:
  assumes "mr_outcomes result = outcomes ps" "length ps = 2" "distinct (map p_seat ps)" "0 \<le> k" "in_i32 k"
  shows "fst (apply_ranked_result result k st) = fst (apply_ranked_field_result result k st)
    \<and> map_option (\<lambda>d. [rd_a d, rd_b d]) (snd (apply_ranked_result result k st))
      = map_option (map sd_delta) (snd (apply_ranked_field_result result k st))"
proof -
  obtain a b where ab: "mr_outcomes result = [a, b]"
    using field_delta_agrees_with_duel [OF assms, of 0 0] by blast
  have d: "\<exists>d. ranked_delta result ra rb k = Some d \<and> ranked_field_delta result [ra, rb] k
      = Some [\<lparr>sd_seat = so_seat a, sd_delta = rd_a d\<rparr>, \<lparr>sd_seat = so_seat b, sd_delta = rd_b d\<rparr>]" for ra rb
    using field_delta_agrees_with_duel [OF assms, of ra rb] by (auto simp: ab)
  show ?thesis
  proof (cases "bt_get (mm_pending st) (mr_match_id result)")
    case (Some p)
    define ra rb where "ra = rating_or_default (mm_ratings st) (pr_agents p ! so_seat a)"
      and "rb = rating_or_default (mm_ratings st) (pr_agents p ! so_seat b)"
    obtain d where d: "ranked_delta result ra rb k = Some d" "ranked_field_delta result [ra, rb] k
      = Some [\<lparr>sd_seat = so_seat a, sd_delta = rd_a d\<rparr>, \<lparr>sd_seat = so_seat b, sd_delta = rd_b d\<rparr>]"
      using d by blast
    have bases: "map (rating_or_default (mm_ratings st)) [pr_agents p ! so_seat a, pr_agents p ! so_seat b] = [ra, rb]"
      by (simp add: ra_def rb_def)
    show ?thesis
    proof (cases "so_seat a = so_seat b \<or> length (pr_agents p) \<noteq> 2 \<or> so_seat a \<ge> 2 \<or> so_seat b \<ge> 2")
      case True
      then show ?thesis
        by (auto simp: apply_ranked_result_def apply_ranked_field_result_def ab Some nth_opt_def)
    next
      case False
      then have "cover_roster (pr_agents p) [] [a, b] = Some [pr_agents p ! so_seat a, pr_agents p ! so_seat b]"
        by (simp add: nth_opt_def)
      then have "apply_ranked_field_result result k st = (st\<lparr>mm_pending := bt_remove (mr_match_id result) (mm_pending st),
          mm_ratings := bt_insert (pr_agents p ! so_seat b) (sat_i32 (rb + rd_b d))
            (bt_insert (pr_agents p ! so_seat a) (sat_i32 (ra + rd_a d)) (mm_ratings st))\<rparr>,
          Some [\<lparr>sd_seat = so_seat a, sd_delta = rd_a d\<rparr>, \<lparr>sd_seat = so_seat b, sd_delta = rd_b d\<rparr>])"
        using False unfolding apply_ranked_field_result_def ab Some Let_def by (simp add: bases [simplified] d(2))
      moreover have "apply_ranked_result result k st = (st\<lparr>mm_pending := bt_remove (mr_match_id result) (mm_pending st),
          mm_ratings := bt_insert (pr_agents p ! so_seat b) (sat_i32 (rb + rd_b d))
            (bt_insert (pr_agents p ! so_seat a) (sat_i32 (ra + rd_a d)) (mm_ratings st))\<rparr>, Some d)"
        using False by (simp add: apply_ranked_result_def ab Some Let_def nth_opt_def d(1) flip: ra_def rb_def)
      ultimately show ?thesis by simp
    qed
  qed (simp add: apply_ranked_result_def apply_ranked_field_result_def ab)
qed

theorem settlement_routes_agree_witness:
  "fst (apply_ranked_result (duel_result (outcomes [ranking_pawn 0 0 50 True False, ranking_pawn 1 1 0 False False])) 32 (duel_state [] ''0xb''))
   = fst (apply_ranked_field_result (duel_result (outcomes [ranking_pawn 0 0 50 True False, ranking_pawn 1 1 0 False False])) 32 (duel_state [] ''0xb''))"
  using settlement_routes_agree [of "duel_result (outcomes [ranking_pawn 0 0 50 True False, ranking_pawn 1 1 0 False False])"
      "[ranking_pawn 0 0 50 True False, ranking_pawn 1 1 0 False False]" 32 "duel_state [] ''0xb''"]
  by (simp add: ranking_pawn_simps duel_result_def in_i32_def)

end
