(* ===== verification/Spectator.thy ===== *)
theory Spectator
  imports Replay "HOL-Library.Sublist"
begin

section \<open>Live spectators and replay streams (\<^verbatim>\<open>src/arena/match/src/lib.rs\<close>)\<close>

text \<open>
  A feed holds weak references to the rings of its spectators; a ring lives as long as the spectator's handle.
  The live rings are a map from handles, and dropping a handle takes its ring out of the map. An operation
  on the feed holds the subscriber lock from start to end; each ring has a lock of its own, and since a delivery
  touches one ring only, a fan-out is one step here. The replay half re-runs a verified record and hands its
  frames to a consumer.
\<close>

subsection \<open>The feed\<close>

record spectator_inner =
  sp_ring :: "spectator_msg list"
  sp_capacity :: nat
  sp_dropped :: "64 word"

record spectator_feed =
  fd_subscribers :: "nat list"
  fd_capacity :: nat
  fd_max_spectators :: nat
  fd_live :: "(nat, spectator_inner) btree"
  fd_allocated :: nat

definition feed_new :: "nat \<Rightarrow> nat \<Rightarrow> spectator_feed option" where
  "feed_new capacity max_spectators =
     (if capacity > 0 \<and> max_spectators > 0
      then Some \<lparr>fd_subscribers = [], fd_capacity = capacity, fd_max_spectators = max_spectators, fd_live = [], fd_allocated = 0\<rparr>
      else None)"

definition retain_live :: "spectator_feed \<Rightarrow> spectator_feed" where
  "retain_live f = f\<lparr>fd_subscribers := filter (\<lambda>w. bt_get (fd_live f) w \<noteq> None) (fd_subscribers f)\<rparr>"

definition subscribe :: "spectator_feed \<Rightarrow> spectator_feed \<times> nat option" where
  "subscribe f =
     (let f = retain_live f in
      if length (fd_subscribers f) \<ge> fd_max_spectators f then (f, None)
      else let w = fd_allocated f;
               inner = \<lparr>sp_ring = [], sp_capacity = fd_capacity f, sp_dropped = 0\<rparr>
           in (f\<lparr>fd_subscribers := fd_subscribers f @ [w], fd_live := bt_insert w inner (fd_live f), fd_allocated := w + 1\<rparr>,
               Some w))"

definition deliver :: "spectator_msg \<Rightarrow> spectator_inner \<Rightarrow> spectator_inner" where
  "deliver msg inner =
     (let inner = (if length (sp_ring inner) = sp_capacity inner
                   then inner\<lparr>sp_ring := tl (sp_ring inner), sp_dropped := sp_dropped inner + 1\<rparr> else inner)
      in inner\<lparr>sp_ring := sp_ring inner @ [msg]\<rparr>)"

definition deliver_to :: "spectator_msg \<Rightarrow> nat \<Rightarrow> (nat, spectator_inner) btree \<Rightarrow> (nat, spectator_inner) btree" where
  "deliver_to msg w live = (case bt_get live w of Some inner \<Rightarrow> bt_insert w (deliver msg inner) live | None \<Rightarrow> live)"

definition fan_out :: "spectator_msg \<Rightarrow> spectator_feed \<Rightarrow> spectator_feed \<times> nat" where
  "fan_out msg f =
     (let f = retain_live f
      in (f\<lparr>fd_live := fold (deliver_to msg) (fd_subscribers f) (fd_live f)\<rparr>, length (fd_subscribers f)))"

definition publish_frame :: "broadcast \<Rightarrow> spectator_feed \<Rightarrow> spectator_feed \<times> nat" where
  "publish_frame b f = fan_out (Frame b) f"

definition publish_end :: "match_result \<Rightarrow> spectator_feed \<Rightarrow> spectator_feed \<times> nat" where
  "publish_end r f = fan_out (End r) f"

definition spectator_count :: "spectator_feed \<Rightarrow> spectator_feed \<times> nat" where
  "spectator_count f = (let f = retain_live f in (f, length (fd_subscribers f)))"

text \<open>A spectator pulls from its own ring, and may go away.\<close>

definition recv :: "nat \<Rightarrow> spectator_feed \<Rightarrow> spectator_feed \<times> spectator_msg option" where
  "recv w f =
     (case bt_get (fd_live f) w of
        None \<Rightarrow> (f, None)
      | Some inner \<Rightarrow>
          (case sp_ring inner of
             [] \<Rightarrow> (f, None)
           | msg # rest \<Rightarrow> (f\<lparr>fd_live := bt_insert w (inner\<lparr>sp_ring := rest\<rparr>) (fd_live f)\<rparr>, Some msg)))"

definition drop_spectator :: "nat \<Rightarrow> spectator_feed \<Rightarrow> spectator_feed" where
  "drop_spectator w f = f\<lparr>fd_live := bt_remove w (fd_live f)\<rparr>"

definition sp_missed :: "nat \<Rightarrow> spectator_feed \<Rightarrow> nat option" where
  "sp_missed w f = map_option (\<lambda>i. unat (sp_dropped i)) (bt_get (fd_live f) w)"

definition buffered :: "nat \<Rightarrow> spectator_feed \<Rightarrow> nat option" where
  "buffered w f = map_option (\<lambda>i. length (sp_ring i)) (bt_get (fd_live f) w)"

subsection \<open>Replay streams\<close>

text \<open>The spine: every frame of a re-run, handed to the consumer's state in order.\<close>

fun stream_ticks :: "crates \<Rightarrow> (broadcast \<Rightarrow> 's \<Rightarrow> 's) \<Rightarrow> tick_record list \<Rightarrow> arena_match \<Rightarrow> 's \<Rightarrow> (arena_match \<times> 's) option" where
  "stream_ticks X on_frame [] m s = Some (m, s)"
| "stream_ticks X on_frame (tr # trs) m s =
     (if m_phase m \<noteq> Live then Some (m, s)
      else do { m' \<leftarrow> step X (action_map (tr_actions tr)) m;
                stream_ticks X on_frame trs m' (on_frame (match_broadcast m') s) })"

definition replay_into ::
  "crates \<Rightarrow> (broadcast \<Rightarrow> 's \<Rightarrow> 's) \<Rightarrow> match_record \<Rightarrow> 's \<Rightarrow> ((replay_error + match_result) \<times> 's) option" where
  "replay_into X on_frame r s =
     do { v \<leftarrow> verify X r;
          case v of
            Inl e \<Rightarrow> Some (Inl e, s)
          | Inr result \<Rightarrow> do {
              let rp = rec_replay r;
              m \<leftarrow> new_with_pickups (rr_match_id rp) (rec_config r) (rec_rules r) (rr_seats rp)
                     (rr_blockers rp) (rr_pickups rp) (rr_seed rp);
              m \<leftarrow> burn_countdown X m;
              (m, s) \<leftarrow> stream_ticks X on_frame (rr_ticks rp) m (on_frame (match_broadcast m) s);
              Some (Inr result, s) } }"

definition replay_frames :: "crates \<Rightarrow> match_record \<Rightarrow> (replay_error + broadcast list) option" where
  "replay_frames X r =
     map_option (\<lambda>(v, frames). case v of Inl e \<Rightarrow> Inl e | Inr _ \<Rightarrow> Inr frames)
       (replay_into X (\<lambda>frame frames. frames @ [frame]) r [])"

definition replay_to_feed :: "crates \<Rightarrow> match_record \<Rightarrow> spectator_feed \<Rightarrow> (spectator_feed \<times> (replay_error + nat)) option" where
  "replay_to_feed X r feed =
     map_option (\<lambda>(v, f, published). case v of
         Inl e \<Rightarrow> (f, Inl e)
       | Inr result \<Rightarrow> (fst (publish_end result f), Inr published))
       (replay_into X (\<lambda>frame (f, published). (fst (publish_frame frame f), published + 1)) r (feed, 0))"

definition replay_to_spectator :: "crates \<Rightarrow> match_record \<Rightarrow> (replay_error + spectator_msg list) option" where
  "replay_to_spectator X r =
     map_option (\<lambda>(v, msgs). case v of Inl e \<Rightarrow> Inl e | Inr result \<Rightarrow> Inr (msgs @ [End result]))
       (replay_into X (\<lambda>frame msgs. msgs @ [Frame frame]) r [])"

end
