(* ===== verification/Spectator_Props.thy ===== *)
theory Spectator_Props
  imports Spectator Driver
begin

section \<open>What a spectator is promised\<close>

subsection \<open>The feed as a machine\<close>

datatype feed_event = Fe_Publish spectator_msg | Fe_Subscribe | Fe_Recv nat | Fe_Drop nat | Fe_Count

fun feed_step :: "feed_event \<Rightarrow> spectator_feed \<Rightarrow> spectator_feed" where
  "feed_step (Fe_Publish msg) f = fst (fan_out msg f)"
| "feed_step Fe_Subscribe f = fst (subscribe f)"
| "feed_step (Fe_Recv w) f = fst (recv w f)"
| "feed_step (Fe_Drop w) f = drop_spectator w f"
| "feed_step Fe_Count f = fst (spectator_count f)"

text \<open>What was published in a run, and what one spectator received.\<close>

fun published :: "feed_event list \<Rightarrow> spectator_msg list" where
  "published [] = []"
| "published (Fe_Publish msg # es) = msg # published es"
| "published (_ # es) = published es"

fun received :: "nat \<Rightarrow> feed_event list \<Rightarrow> spectator_feed \<Rightarrow> spectator_msg list" where
  "received w [] f = []"
| "received w (e # es) f =
     (if e = Fe_Recv w then (case snd (recv w f) of Some msg \<Rightarrow> [msg] | None \<Rightarrow> []) else [])
     @ received w es (feed_step e f)"

definition ring_ok :: "spectator_feed \<Rightarrow> spectator_inner \<Rightarrow> bool" where
  "ring_ok f i \<longleftrightarrow> sp_capacity i = fd_capacity f \<and> length (sp_ring i) \<le> fd_capacity f"

definition feed_ok :: "spectator_feed \<Rightarrow> bool" where
  "feed_ok f \<longleftrightarrow> 0 < fd_capacity f \<and> bt_inv (fd_live f) \<and> distinct (fd_subscribers f)
     \<and> length (fd_subscribers f) \<le> fd_max_spectators f
     \<and> (\<forall>w\<in>set (fd_subscribers f). w < fd_allocated f)
     \<and> (\<forall>w i. bt_get (fd_live f) w = Some i \<longrightarrow> w \<in> set (fd_subscribers f) \<and> ring_ok f i)"

lemma retain_live_simps [simp]:
  "fd_live (retain_live f) = fd_live f" "fd_capacity (retain_live f) = fd_capacity f"
  "fd_max_spectators (retain_live f) = fd_max_spectators f" "fd_allocated (retain_live f) = fd_allocated f"
  "fd_subscribers (retain_live f) = filter (\<lambda>w. bt_get (fd_live f) w \<noteq> None) (fd_subscribers f)"
  by (simp_all add: retain_live_def)

lemma ring_ok_frame [simp]:
  "ring_ok (f\<lparr>fd_live := l\<rparr>) = ring_ok f" "ring_ok (f\<lparr>fd_subscribers := ws\<rparr>) = ring_ok f"
  "ring_ok (f\<lparr>fd_allocated := n\<rparr>) = ring_ok f" "ring_ok (retain_live f) = ring_ok f"
  by (simp_all add: ring_ok_def fun_eq_iff)

lemma ring_ok_tl: "ring_ok f i \<Longrightarrow> ring_ok f (i\<lparr>sp_ring := tl (sp_ring i)\<rparr>)"
  by (auto simp: ring_ok_def)

lemma retain_live_ok: "feed_ok f \<Longrightarrow> feed_ok (retain_live f)"
  by (auto simp: feed_ok_def intro: order_trans [OF length_filter_le])

lemma deliver_to_get:
  "bt_inv live \<Longrightarrow> bt_get (deliver_to msg w live) = (bt_get live)(w := map_option (deliver msg) (bt_get live w))"
  by (auto simp: deliver_to_def bt_get_insert fun_eq_iff split: option.splits)

lemma deliver_to_inv: "bt_inv live \<Longrightarrow> bt_inv (deliver_to msg w live)"
  by (auto simp: deliver_to_def bt_inv_insert split: option.splits)

lemma deliver_all:
  "bt_inv live \<Longrightarrow> distinct ws \<Longrightarrow> bt_inv (fold (deliver_to msg) ws live)
   \<and> (\<forall>w. bt_get (fold (deliver_to msg) ws live) w
        = (if w \<in> set ws then map_option (deliver msg) (bt_get live w) else bt_get live w))"
proof (induction ws arbitrary: live)
  case (Cons w ws)
  with deliver_to_get [of live msg w] deliver_to_inv [of live msg w] Cons.IH [of "deliver_to msg w live"]
  show ?case by auto
qed simp

lemma deliver_ring:
  "sp_ring (deliver msg i) = (if length (sp_ring i) = sp_capacity i then tl (sp_ring i) else sp_ring i) @ [msg]"
  "sp_capacity (deliver msg i) = sp_capacity i"
  "sp_dropped (deliver msg i) = sp_dropped i + of_bool (length (sp_ring i) = sp_capacity i)"
  by (auto simp: deliver_def Let_def)

lemma deliver_ok: "ring_ok f i \<Longrightarrow> 0 < fd_capacity f \<Longrightarrow> ring_ok f (deliver msg i)"
  by (auto simp: ring_ok_def deliver_ring)

lemma fan_out_live:
  assumes "feed_ok f"
  shows "bt_inv (fd_live (fst (fan_out msg f)))" "bt_get (fd_live (fst (fan_out msg f))) w = map_option (deliver msg) (bt_get (fd_live f) w)"
proof -
  have f: "bt_inv (fd_live f)" "distinct (filter (\<lambda>w. bt_get (fd_live f) w \<noteq> None) (fd_subscribers f))"
    using assms by (auto simp: feed_ok_def)
  have "bt_get (fd_live f) w \<noteq> None \<Longrightarrow> w \<in> set (fd_subscribers f)" using assms by (auto simp: feed_ok_def)
  with deliver_all [OF f, of msg]
  show "bt_inv (fd_live (fst (fan_out msg f)))"
    "bt_get (fd_live (fst (fan_out msg f))) w = map_option (deliver msg) (bt_get (fd_live f) w)"
    by (cases "bt_get (fd_live f) w"; simp add: fan_out_def Let_def)+
qed

lemma fan_out_frame:
  "fd_subscribers (fst (fan_out msg f)) = filter (\<lambda>w. bt_get (fd_live f) w \<noteq> None) (fd_subscribers f)"
  "fd_capacity (fst (fan_out msg f)) = fd_capacity f" "fd_max_spectators (fst (fan_out msg f)) = fd_max_spectators f"
  "fd_allocated (fst (fan_out msg f)) = fd_allocated f"
  by (simp_all add: fan_out_def Let_def)

lemma fan_out_ok:
  assumes "feed_ok f" shows "feed_ok (fst (fan_out msg f))"
proof -
  have r: "ring_ok (fst (fan_out msg f)) = ring_ok f" by (auto simp: ring_ok_def fan_out_frame fun_eq_iff)
  show ?thesis
    unfolding feed_ok_def fan_out_frame fan_out_live [OF assms] r
    using assms fan_out_live(1) [OF assms] deliver_ok
    by (auto simp: feed_ok_def intro: order_trans [OF length_filter_le])
qed

lemma recv_live:
  assumes "feed_ok f"
  shows "feed_ok (fst (recv w f))"
    "bt_get (fd_live (fst (recv w f))) v = (if v = w then map_option (\<lambda>i. i\<lparr>sp_ring := tl (sp_ring i)\<rparr>) (bt_get (fd_live f) w)
      else bt_get (fd_live f) v)"
proof -
  have inv: "bt_inv (fd_live f)" and i: "\<And>i. bt_get (fd_live f) w = Some i \<Longrightarrow> ring_ok f i"
    using assms by (auto simp: feed_ok_def)
  show "feed_ok (fst (recv w f))"
    using assms ring_ok_tl [OF i]
    by (auto simp: recv_def feed_ok_def bt_inv_insert bt_get_insert split: option.splits list.splits if_splits)
  show "bt_get (fd_live (fst (recv w f))) v = (if v = w then map_option (\<lambda>i. i\<lparr>sp_ring := tl (sp_ring i)\<rparr>) (bt_get (fd_live f) w)
      else bt_get (fd_live f) v)"
    using inv by (auto simp: recv_def bt_get_insert split: option.splits list.splits)
qed

lemma subscribe_ok:
  assumes "feed_ok f" shows "feed_ok (fst (subscribe f))"
proof -
  have new: "ring_ok f \<lparr>sp_ring = [], sp_capacity = fd_capacity f, sp_dropped = 0\<rparr>" by (simp add: ring_ok_def)
  with assms retain_live_ok [OF assms] show ?thesis
    by (auto simp: subscribe_def Let_def feed_ok_def bt_inv_insert bt_get_insert less_Suc_eq split: if_splits)
qed

lemma feed_step_ok: "feed_ok f \<Longrightarrow> feed_ok (feed_step e f)"
proof (cases e)
  case (Fe_Drop w)
  then show "feed_ok f \<Longrightarrow> ?thesis"
    by (auto simp: drop_spectator_def feed_ok_def bt_inv_remove bt_get_remove)
qed (auto simp: fan_out_ok subscribe_ok recv_live spectator_count_def Let_def retain_live_ok)

interpretation feed: panic_machine "\<lambda>e f. Some (feed_step e f)" feed_ok
  by unfold_locales (auto simp: feed_step_ok)

subsection \<open>Lossy, but honest\<close>

text \<open>
  The specification of one subscription: the unbounded log of what was published since it began and what the
  spectator took from it. The ring holds the newest part of the log; what was taken and what is in the ring
  are in the order of the log; and every message of the log was taken, is in the ring, or is counted as dropped.
\<close>

definition follows :: "nat \<Rightarrow> spectator_msg list \<Rightarrow> spectator_msg list \<Rightarrow> spectator_feed \<Rightarrow> bool" where
  "follows w sent got f \<longleftrightarrow> (\<exists>i. bt_get (fd_live f) w = Some i
     \<and> suffix (sp_ring i) sent \<and> subseq (got @ sp_ring i) sent
     \<and> length got + unat (sp_dropped i) + length (sp_ring i) = length sent)"

lemma follows_drop_head:
  assumes "suffix (x # r) sent" "subseq (got @ x # r) sent"
  shows "suffix r sent" "subseq (got @ r) sent"
proof -
  show "suffix r sent" using assms(1) by (rule suffix_ConsD)
  have "subseq (got @ r) (got @ x # r)" by (simp add: subseq_append' list_emb_Cons)
  then show "subseq (got @ r) sent" using assms(2) by (rule subseq_order.trans)
qed

lemma follows_publish:
  assumes "feed_ok f" "follows w sent got f" "length sent + 1 < 2 ^ 64"
  shows "follows w (sent @ [msg]) got (fst (fan_out msg f))"
proof -
  obtain i where i: "bt_get (fd_live f) w = Some i" "suffix (sp_ring i) sent" "subseq (got @ sp_ring i) sent"
    "length got + unat (sp_dropped i) + length (sp_ring i) = length sent"
    using assms(2) by (auto simp: follows_def)
  have "ring_ok f i" "0 < fd_capacity f" using assms(1) i(1) by (auto simp: feed_ok_def)
  then have pos: "length (sp_ring i) = sp_capacity i \<Longrightarrow> sp_ring i \<noteq> []" by (auto simp: ring_ok_def)
  have "suffix (tl (sp_ring i)) sent" "subseq (got @ tl (sp_ring i)) sent"
    using i(2,3) follows_drop_head [of _ "tl (sp_ring i)"] by (cases "sp_ring i"; simp)+
  moreover have "length (sp_ring i) = sp_capacity i \<Longrightarrow> 0 < sp_capacity i"
    using pos by (cases "sp_ring i") auto
  moreover have "unat (sp_dropped i + 1) = unat (sp_dropped i) + 1" using i(4) assms(3) by (simp add: unat_word_ariths)
  ultimately show ?thesis
    using i pos unfolding follows_def fan_out_live(2) [OF assms(1)]
    by (auto simp: deliver_ring suffix_snoc simp flip: append_assoc)
qed

lemma follows_recv:
  assumes "feed_ok f" "follows w sent got f"
  shows "follows w sent (got @ (case snd (recv w f) of Some msg \<Rightarrow> [msg] | None \<Rightarrow> [])) (fst (recv w f))"
proof -
  obtain i where i: "bt_get (fd_live f) w = Some i" "suffix (sp_ring i) sent" "subseq (got @ sp_ring i) sent"
    "length got + unat (sp_dropped i) + length (sp_ring i) = length sent"
    using assms(2) by (auto simp: follows_def)
  have inv: "bt_inv (fd_live f)" using assms(1) by (simp add: feed_ok_def)
  show ?thesis
  proof (cases "sp_ring i")
    case (Cons m r)
    then have "suffix r sent" using i(2) suffix_ConsD by auto
    with i Cons inv show ?thesis by (auto simp: follows_def recv_def bt_get_insert)
  qed (use i in \<open>auto simp: follows_def recv_def\<close>)
qed

lemma follows_other:
  assumes "feed_ok f" "follows w sent got f" "e \<noteq> Fe_Recv w" "e \<noteq> Fe_Drop w" "\<nexists>msg. e = Fe_Publish msg"
  shows "follows w sent got (feed_step e f)"
proof -
  have "w \<in> set (fd_subscribers f)" "w < fd_allocated f" "bt_inv (fd_live f)"
    using assms(1,2) by (auto simp: follows_def feed_ok_def)
  then have "bt_get (fd_live (feed_step e f)) w = bt_get (fd_live f) w"
    using assms(3-5) recv_live(2) [OF assms(1)]
    by (cases e) (auto simp: subscribe_def Let_def bt_get_insert drop_spectator_def bt_get_remove spectator_count_def)
  then show ?thesis using assms(2) by (simp add: follows_def)
qed

lemma follows_run:
  assumes "feed_ok f" "follows w sent got f" "Fe_Drop w \<notin> set es" "length sent + length (published es) < 2 ^ 64"
  shows "follows w (sent @ published es) (got @ received w es f) (fold feed_step es f)"
  using assms
proof (induction es arbitrary: f sent got)
  case (Cons e es)
  note ok = feed_step_ok [OF Cons.prems(1), of e]
  consider (pub) msg where "e = Fe_Publish msg" | (recv) "e = Fe_Recv w"
    | (other) "e \<noteq> Fe_Recv w" "\<nexists>msg. e = Fe_Publish msg" by blast
  then show ?case
  proof cases
    case pub
    have "follows w (sent @ [msg]) got (feed_step e f)"
      using follows_publish [OF Cons.prems(1,2)] Cons.prems(4) pub by simp
    from Cons.IH [OF ok this] Cons.prems(3,4) pub show ?thesis by simp
  next
    case recv
    have "follows w sent (got @ (case snd (Spectator.recv w f) of Some msg \<Rightarrow> [msg] | None \<Rightarrow> [])) (feed_step e f)"
      using follows_recv [OF Cons.prems(1,2)] recv by simp
    from Cons.IH [OF ok this] Cons.prems(3,4) recv show ?thesis by simp
  next
    case other
    have "e \<noteq> Fe_Drop w" using Cons.prems(3) by auto
    from follows_other [OF Cons.prems(1,2) other(1) this other(2)]
    have "follows w sent got (feed_step e f)" .
    moreover have "published (e # es) = published es" using other(2) by (cases e) auto
    ultimately show ?thesis using Cons.IH [OF ok] Cons.prems(3,4) other(1) by simp
  qed
qed simp

text \<open>
  Property C19. The spectator feed is lossy but honest. From the moment a spectator subscribes until it goes
  away, whatever is published and whatever the others do, its ring holds the newest messages, at most the
  capacity; it receives messages in the order they were published, each at most once; and the messages it
  received, those still buffered and those counted as dropped add up to everything published. The number of
  subscriptions stays within the admission cap.
\<close>

theorem spectator_feed_honest:
  assumes "feed_ok f" "subscribe f = (f1, Some w)" "Fe_Drop w \<notin> set es" "length (published es) < 2 ^ 64"
    "f2 = fold feed_step es f1"
  shows "follows w (published es) (received w es f1) f2 \<and> feed_ok f2"
proof -
  have ok: "feed_ok f1" using subscribe_ok [OF assms(1)] assms(2) by simp
  have inv: "bt_inv (fd_live f)" using assms(1) by (simp add: feed_ok_def)
  have "follows w [] [] f1"
    using assms(2) inv by (auto simp: subscribe_def Let_def follows_def bt_get_insert split: if_splits)
  from follows_run [OF ok this assms(3)] assms(4,5) have "follows w (published es) (received w es f1) f2" by simp
  moreover have "feed_ok (fold feed_step es f1)"
    using ok by (induction es arbitrary: f1) (auto intro: feed_step_ok)
  ultimately show ?thesis using assms(5) by simp
qed

definition small_feed :: spectator_feed where
  "small_feed = \<lparr>fd_subscribers = [], fd_capacity = 2, fd_max_spectators = 1, fd_live = [], fd_allocated = 0\<rparr>"

lemma small_feed_ok: "feed_ok small_feed"
  by (simp add: feed_ok_def small_feed_def bt.inv_empty bt_get_def)

definition tick_msg :: "nat \<Rightarrow> spectator_msg" where
  "tick_msg n = Frame (match_broadcast (duel_start\<lparr>m_tick := of_nat n\<rparr>))"

theorem spectator_feed_honest_witness:
  "let f2 = fold feed_step [Fe_Publish (tick_msg 0), Fe_Publish (tick_msg 1), Fe_Publish (tick_msg 2), Fe_Recv 0] (fst (subscribe small_feed))
   in sp_missed 0 f2 = Some 1 \<and> buffered 0 f2 = Some 1
     \<and> follows 0 [tick_msg 0, tick_msg 1, tick_msg 2] [tick_msg 1] f2"
proof -
  let ?es = "[Fe_Publish (tick_msg 0), Fe_Publish (tick_msg 1), Fe_Publish (tick_msg 2), Fe_Recv 0]"
  let ?f1 = "fst (subscribe small_feed)"
  have s: "subscribe small_feed = (?f1, Some 0)" by (simp add: subscribe_def Let_def small_feed_def retain_live_def)
  have f1: "?f1 = \<lparr>fd_subscribers = [0], fd_capacity = 2, fd_max_spectators = 1,
      fd_live = [(0, \<lparr>sp_ring = [], sp_capacity = 2, sp_dropped = 0\<rparr>)], fd_allocated = 1\<rparr>"
    by (simp add: subscribe_def Let_def small_feed_def retain_live_def)
  have "received 0 ?es ?f1 = [tick_msg 1] \<and> sp_missed 0 (fold feed_step ?es ?f1) = Some 1 \<and> buffered 0 (fold feed_step ?es ?f1) = Some 1"
    unfolding f1 by (simp add: fan_out_def retain_live_def deliver_to_def deliver_def Let_def bt_get_def recv_def
        sp_missed_def buffered_def)
  with spectator_feed_honest [OF small_feed_ok s, of ?es] show ?thesis by simp
qed

subsection \<open>Replay streams\<close>

text \<open>The frames of a record, and what a consumer makes of them.\<close>

primrec frames_of :: "crates \<Rightarrow> tick_record list \<Rightarrow> arena_match \<Rightarrow> (arena_match \<times> broadcast list) option" where
  "frames_of X [] m = Some (m, [])"
| "frames_of X (tr # trs) m =
     (if m_phase m \<noteq> Live then Some (m, [])
      else case step X (action_map (tr_actions tr)) m of
        None \<Rightarrow> None
      | Some m' \<Rightarrow> map_option (\<lambda>(n, fs). (n, match_broadcast m' # fs)) (frames_of X trs m'))"

lemma stream_ticks_frames:
  "stream_ticks X g trs m s = map_option (\<lambda>(m', fs). (m', fold g fs s)) (frames_of X trs m)"
proof (induction trs arbitrary: m s)
  case (Cons tr trs)
  show ?case
  proof (cases "step X (action_map (tr_actions tr)) m")
    case (Some m')
    then show ?thesis
      by (cases "frames_of X trs m'") (auto simp: Cons.IH)
  qed simp
qed simp

definition rerun_frames :: "crates \<Rightarrow> match_record \<Rightarrow> (arena_match \<times> broadcast list) option" where
  "rerun_frames X r =
     (let rp = rec_replay r in
      case new_with_pickups (rr_match_id rp) (rec_config r) (rec_rules r) (rr_seats rp)
             (rr_blockers rp) (rr_pickups rp) (rr_seed rp) of
        None \<Rightarrow> None
      | Some m0 \<Rightarrow>
          (case burn_countdown X m0 of
             None \<Rightarrow> None
           | Some m \<Rightarrow> map_option (\<lambda>(m', fs). (m', match_broadcast m # fs)) (frames_of X (rr_ticks rp) m)))"

lemma replay_into_frames:
  "replay_into X g r s =
     (case verify X r of
        None \<Rightarrow> None
      | Some (Inl e) \<Rightarrow> Some (Inl e, s)
      | Some (Inr res) \<Rightarrow> map_option (\<lambda>(m, fs). (Inr res, fold g fs s)) (rerun_frames X r))"
proof (cases "verify X r")
  case (Some v)
  show ?thesis
  proof (cases v)
    case (Inr res)
    let ?rp = "rec_replay r"
    show ?thesis
    proof (cases "new_with_pickups (rr_match_id ?rp) (rec_config r) (rec_rules r) (rr_seats ?rp)
             (rr_blockers ?rp) (rr_pickups ?rp) (rr_seed ?rp)")
      case fresh: (Some m0)
      show ?thesis
      proof (cases "burn_countdown X m0")
        case live: (Some m)
        show ?thesis
          by (cases "frames_of X (rr_ticks ?rp) m")
            (auto simp: replay_into_def rerun_frames_def Let_def Some Inr fresh live stream_ticks_frames)
      qed (simp add: replay_into_def rerun_frames_def Let_def Some Inr fresh)
    qed (simp add: replay_into_def rerun_frames_def Let_def Some Inr)
  qed (simp add: replay_into_def Some)
qed (simp add: replay_into_def)

lemma fold_collect: "fold (\<lambda>f fs. fs @ [h f]) fs gs = gs @ map h fs"
  by (induction fs arbitrary: gs) auto

lemma fold_publish: "fold (\<lambda>frame (f, n). (fst (publish_frame frame f), n + 1)) fs (f, n)
    = (fold (\<lambda>frame f. fst (publish_frame frame f)) fs f, n + length fs)"
  by (induction fs arbitrary: f n) auto

lemma replay_streams:
  assumes "verify X r = Some (Inr res)" "rerun_frames X r = Some (m, fs)"
  shows "replay_frames X r = Some (Inr fs)" "replay_to_spectator X r = Some (Inr (map Frame fs @ [End res]))"
    "replay_to_feed X r f = Some (fst (publish_end res (fold (\<lambda>frame f. fst (publish_frame frame f)) fs f)), Inr (length fs))"
proof -
  have "fold (\<lambda>f fs. fs @ [f]) fs [] = fs" using fold_collect [of "\<lambda>f. f" fs "[]"] by simp
  then show "replay_frames X r = Some (Inr fs)" using assms by (simp add: replay_frames_def replay_into_frames)
  show "replay_to_spectator X r = Some (Inr (map Frame fs @ [End res]))"
    using assms by (simp add: replay_to_spectator_def replay_into_frames fold_collect)
  show "replay_to_feed X r f = Some (fst (publish_end res (fold (\<lambda>frame f. fst (publish_frame frame f)) fs f)), Inr (length fs))"
    using assms fold_publish [of fs f 0] by (simp add: replay_to_feed_def replay_into_frames)
qed

lemma frames_of_length: "frames_of X trs m = Some (m', fs) \<Longrightarrow> length fs \<le> length trs"
  by (induction trs arbitrary: m fs) (fastforce split: if_splits option.splits)+

text \<open>
  Everybody who watches a finished match sees the same thing. A record that does not verify is
  refused with the same error on every path and the feed is not touched; one that does is streamed as one
  sequence of frames, at most one per recorded tick after the opening one: collected, wrapped as messages and
  closed by the verified result, or published frame by frame and closed by exactly one end.
\<close>

theorem replay_streams_agree:
  assumes "verify X r = Some v"
  shows "case v of
      Inl e \<Rightarrow> replay_frames X r = Some (Inl e) \<and> replay_to_spectator X r = Some (Inl e)
        \<and> replay_to_feed X r f = Some (f, Inl e)
    | Inr res \<Rightarrow> replay_frames X r = None \<or> (\<exists>fs. replay_frames X r = Some (Inr fs) \<and> fs \<noteq> []
        \<and> length fs \<le> length (rr_ticks (rec_replay r)) + 1
        \<and> replay_to_spectator X r = Some (Inr (map Frame fs @ [End res]))
        \<and> replay_to_feed X r f
          = Some (fst (publish_end res (fold (\<lambda>frame f. fst (publish_frame frame f)) fs f)), Inr (length fs)))"
proof (cases v)
  case (Inl e)
  with assms show ?thesis by (simp add: replay_frames_def replay_to_spectator_def replay_to_feed_def replay_into_frames)
next
  case (Inr res)
  show ?thesis
  proof (cases "rerun_frames X r")
    case None
    with assms Inr show ?thesis by (simp add: replay_frames_def replay_into_frames)
  next
    case (Some mf)
    obtain m fs where mf: "mf = (m, fs)" by fastforce
    have "length fs \<le> length (rr_ticks (rec_replay r)) + 1" "fs \<noteq> []"
      using Some mf frames_of_length [of X "rr_ticks (rec_replay r)"]
      by (auto simp: rerun_frames_def Let_def split: option.splits)
    with replay_streams [OF assms [unfolded Inr] Some [unfolded mf]] show ?thesis by (simp add: Inr)
  qed
qed

text \<open>Without forfeits the stream re-runs exactly what verification re-runs.\<close>

lemma frames_of_replay:
  assumes "\<forall>t\<in>set trs. tr_forfeits t = []"
  shows "map_option fst (frames_of X trs m) = replay_ticks X trs m"
  using assms
proof (induction trs arbitrary: m)
  case (Cons t trs)
  show ?case
  proof (cases "step X (action_map (tr_actions t)) m")
    case (Some m')
    have "map_option fst (frames_of X trs m') = replay_ticks X trs m'" using Cons by simp
    then show ?thesis using Some Cons.prems
      by (cases "frames_of X trs m'") (auto simp: queue_forfeits_def)
  qed (use Cons.prems in \<open>simp add: queue_forfeits_def\<close>)
qed simp

lemma frames_of_last:
  "frames_of X trs m = Some (m', fs) \<Longrightarrow> last (match_broadcast m # fs) = match_broadcast m'"
proof (induction trs arbitrary: m fs)
  case (Cons t trs)
  then show ?case by (auto split: if_splits option.splits)
qed simp

lemma compare_result_same: "compare_result r x = Inr y \<Longrightarrow> y = x"
  by (simp add: compare_result_def Let_def split: if_splits)

text \<open>
  A record without forfeits is shown to the end: when it verifies, the stream exists, its last
  frame carries the ended phase and the tick at which the verified result says the match ended.
\<close>

theorem replay_shown_to_the_end:
  assumes "verify X r = Some (Inr res)" "\<forall>t\<in>set (rr_ticks (rec_replay r)). tr_forfeits t = []"
  shows "\<exists>fs. replay_frames X r = Some (Inr fs) \<and> bc_phase (last fs) = Ended \<and> bc_tick (last fs) = mr_final_tick res"
proof -
  let ?rp = "rec_replay r"
  obtain fresh rerun where 1: "new_with_pickups (rr_match_id ?rp) (rec_config r) (rec_rules r) (rr_seats ?rp)
         (rr_blockers ?rp) (rr_pickups ?rp) (rr_seed ?rp) = Some fresh"
      "replay_match X fresh ?rp = Some rerun" "m_result rerun = Some res"
    using assms(1) by (auto simp: verify_def Let_def panic_simps split: option.splits dest!: compare_result_same)
  have "result_honest X (rr_match_id ?rp) rerun"
    by (rule replay_match_keeps [OF _ _ 1(2)])
      (use new_with_pickups_fresh [OF 1(1)] result_honest_step in \<open>auto simp: result_honest_def\<close>)
  then have ended: "m_phase rerun = Ended" "mr_final_tick res = m_tick rerun"
    using 1(3) by (auto simp: result_honest_def build_result_def split: if_splits)
  obtain live where live: "burn_countdown X fresh = Some live" "replay_ticks X (rr_ticks ?rp) live = Some rerun"
    using 1(2) by (auto simp: replay_match_def panic_simps)
  obtain fs where fs: "frames_of X (rr_ticks ?rp) live = Some (rerun, fs)"
    using frames_of_replay [OF assms(2), of X live] live(2) by auto
  have "rerun_frames X r = Some (rerun, match_broadcast live # fs)"
    using 1(1) live(1) fs by (simp add: rerun_frames_def Let_def)
  note frames = replay_streams(1) [OF assms(1) this]
  have "last (match_broadcast live # fs) = match_broadcast rerun" using frames_of_last [OF fs] .
  with frames ended show ?thesis by (auto simp: match_broadcast_def)
qed

lemma duel_end_setup:
  "m_match_id duel_end = [] \<and> m_config duel_end = duel_config \<and> m_rules duel_end = duel_rules \<and> m_seats duel_end = duel_seats
   \<and> m_blockers duel_end = [] \<and> m_pickup_config duel_end = [] \<and> m_seed duel_end = 7"
proof -
  have "recorded toy_crates duel_start duel_end"
    by (rule recorded_run.run_keeps [OF fresh_recorded [OF duel_start_new] duel_end_run(1)])
      (simp_all add: duel_seats_def duel_rules_def default_rules_defs)
  then show ?thesis by (simp add: recorded_def same_setup_def duel_start_def)
qed

lemma duel_log: "m_ticks duel_end = [\<lparr>tr_tick = 0, tr_actions = [], tr_forfeits = [1]\<rparr>]"
proof -
  let ?m = "duel_start\<lparr>m_pending_forfeits := [1]\<rparr>"
  have "apply_event toy_crates (Ev_Forfeit 1) duel_start = Some ?m"
    by (simp add: apply_event_def forfeit_def duel_start_def pawn_alive_def duel_pawn_def)
  then have "step toy_crates [] ?m = Some duel_end"
    using duel_end_run(1) by (simp add: panic_simps) (simp add: apply_event_def)
  moreover have "refresh_if ?m = Some ?m"
    by (simp add: refresh_if_def duel_start_def duel_rules_def default_rules_defs)
  moreover have "m_phase ?m = Live" by (simp add: duel_start_def)
  ultimately have "tick_body toy_crates 0 [] (drain_forfeits ?m) = Some duel_end"
    by (simp add: step_live_eq) (simp add: duel_start_def)
  from tick_body_record [OF this] show ?thesis
    by (simp add: drain_forfeits_def down_seat_def duel_start_def duel_pawn_def tick_entry_def accept_intents_def bt_collect_def)
qed

lemma accept_none: "accept_intents m [] = []" by (simp add: accept_intents_def bt_collect_def)

text \<open>Two pawns facing each other in an empty arena before the first tick, whatever the setup around them.\<close>

definition facing_off :: "arena_match \<Rightarrow> bool" where
  "facing_off m \<longleftrightarrow> m_pawns m = [duel_pawn 0 (- 20000) 0, duel_pawn 1 20000 32768] \<and> r_gravity (m_rules m) = 0
     \<and> r_perception_memory_ticks (m_rules m) = 0 \<and> m_pickups m = [] \<and> m_projectiles m = [] \<and> m_phase m = Live \<and> m_tick m = 0
     \<and> m_ticks m = [] \<and> m_pending_forfeits m = []"

lemma facing_offD:
  assumes "facing_off m"
  shows "m_pawns m = [duel_pawn 0 (- 20000) 0, duel_pawn 1 20000 32768]" "r_gravity (m_rules m) = 0"
    "r_perception_memory_ticks (m_rules m) = 0" "m_pickups m = []" "m_projectiles m = []" "m_phase m = Live" "m_tick m = 0"
    "m_ticks m = []" "m_pending_forfeits m = []"
  using assms by (simp_all add: facing_off_def)

lemma same_pawns: "m\<lparr>m_pawns := m_pawns m\<rparr> = m" "m\<lparr>m_pending_forfeits := m_pending_forfeits m\<rparr> = m" by simp_all

lemma duel_drain: "facing_off m \<Longrightarrow> drain_forfeits m = (m, [])"
  using same_pawns [of m] by (simp add: drain_forfeits_def facing_offD(9))

lemma duel_cooldown: "tick_cooldown (duel_pawn s x f) = duel_pawn s x f" by (simp add: tick_cooldown_def duel_pawn_def)

lemma duel_cooldowns: "facing_off m \<Longrightarrow> m\<lparr>m_pawns := map tick_cooldown (m_pawns m)\<rparr> = m"
  using same_pawns(1) [of m] by (simp add: facing_offD(1) duel_cooldown)

lemma duel_stand: "facing_off m \<Longrightarrow> i < 2 \<Longrightarrow> move_pawn [] i m = Some m"
proof -
  assume m: "facing_off m" and i: "i < 2"
  then obtain s x f where q: "m_pawns m ! i = duel_pawn s x f" unfolding facing_offD(1) [OF m] by (cases "i = 0") auto
  have v: "(duel_pawn s x f)\<lparr>p_vel := vec2_zero\<rparr> = duel_pawn s x f" by (simp add: duel_pawn_def vec2_zero_def)
  have "set_pawn i (duel_pawn s x f) m = m" unfolding set_pawn_def q [symmetric] by simp
  then show ?thesis unfolding move_pawn_def q Let_def by (simp add: v bt_get_def)
qed

lemma act_none: "act_pawn [] i m = Some m" by (simp add: act_pawn_def Let_def bt_get_def)

lemma duel_idle_tick: "facing_off m \<Longrightarrow> run_tick [] m = Some m"
proof -
  assume m: "facing_off m"
  have n: "[0..<length (m_pawns m)] = [0, 1]" unfolding facing_offD(1) [OF m] by (simp add: upt_rec)
  show ?thesis
    unfolding run_tick_def Let_def duel_cooldowns [OF m] n
    using facing_offD(2,4,5) [OF m] n by (simp add: duel_stand [OF m] act_none process_pickups_def advance_projectiles_def)
qed

definition idle_log :: "tick_record list" where
  "idle_log = [\<lparr>tr_tick = 0, tr_actions = [], tr_forfeits = []\<rparr>]"

lemma idle_step:
  assumes "facing_off m"
  shows "step X [] m = Some (maybe_finish X (m\<lparr>m_ticks := idle_log, m_tick := 1\<rparr>))"
proof -
  have r: "refresh_if m = Some m" unfolding refresh_if_def using facing_offD(3) [OF assms] by simp
  show ?thesis
    unfolding step_live_eq [OF facing_offD(6) [OF assms]] r using facing_offD [OF assms]
    by (simp add: tick_body_def duel_drain [OF assms] accept_none duel_idle_tick [OF assms] close_tick_def ck_u_def idle_log_def)
qed

abbreviation duel_at :: "match_config \<Rightarrow> arena_match" where
  "duel_at c \<equiv> duel_start\<lparr>m_config := c\<rparr>"

lemma duel_at_simps:
  "m_pawns (duel_at c) = [duel_pawn 0 (- 20000) 0, duel_pawn 1 20000 32768]" "m_rules (duel_at c) = duel_rules"
  "m_pickups (duel_at c) = []" "m_projectiles (duel_at c) = []" "m_phase (duel_at c) = Live" "m_tick (duel_at c) = 0"
  "m_ticks (duel_at c) = []" "m_pending_forfeits (duel_at c) = []"
  by (simp_all add: duel_start_def)

lemma duel_faces_off: "facing_off (duel_at c)"
  unfolding facing_off_def duel_at_simps by (simp add: duel_rules_def default_rules_defs)

lemmas duel_idle_step = idle_step [OF duel_faces_off]

lemma duel_at_duel: "duel_start = duel_at duel_config" "blitz_start = duel_at blitz_config"
  by (simp_all add: duel_start_def blitz_start_def)

definition blitz_record :: match_record where
  "blitz_record = the (to_record (the (step toy_crates [] blitz_start)))"

theorem replay_shown_to_the_end_witness:
  "verify toy_crates blitz_record = Some (Inr (rec_result blitz_record))
   \<and> (\<exists>fs. replay_frames toy_crates blitz_record = Some (Inr fs) \<and> bc_phase (last fs) = Ended)"
proof -
  let ?m = "(duel_at blitz_config)\<lparr>m_ticks := idle_log, m_tick := 1\<rparr>"
  let ?e = "maybe_finish toy_crates ?m"
  have step: "step toy_crates [] blitz_start = Some ?e" unfolding duel_at_duel(2) by (rule duel_idle_step)
  have run: "foldM (apply_event toy_crates) [Ev_Step []] blitz_start = Some ?e" by (simp add: apply_event_def step)
  have log: "m_ticks ?e = idle_log" by simp
  have "m_result ?e \<noteq> None" by (simp add: maybe_finish_def blitz_config_def)
  then obtain rec where rec: "to_record ?e = Some rec" by (auto simp: to_record_def)
  then have r: "blitz_record = rec" by (simp add: blitz_record_def step)
  have "length (m_ticks ?e) \<le> MAX_REPLAY_TICKS" unfolding log by (simp add: idle_log_def MAX_REPLAY_TICKS_def)
  from recorded_match_verifies [OF blitz_new blitz_hostable run this rec]
  have v: "verify toy_crates blitz_record = Some (Inr (rec_result blitz_record))" by (simp add: r)
  have "rr_ticks (rec_replay blitz_record) = idle_log"
    using rec log by (auto simp: r to_record_def build_replay_def)
  then have "\<forall>t\<in>set (rr_ticks (rec_replay blitz_record)). tr_forfeits t = []" by (simp add: idle_log_def)
  from replay_shown_to_the_end [OF v this] v show ?thesis by blast
qed

lemma duel_verifies: "verify toy_crates duel_record = Some (Inr (rec_result duel_record))"
  by (rule recorded_match_verifies [OF duel_start_new duel_hostable duel_end_run(1) _ duel_record])
      (simp add: duel_end_result(2) MAX_REPLAY_TICKS_def)

lemma duel_frames:
  "\<exists>m fs. rerun_frames toy_crates duel_record = Some (m, fs) \<and> bc_phase (last fs) = Live
     \<and> map be_alive (bc_entities (last fs)) = [True, True]"
proof -
  have rec: "rr_match_id (rec_replay duel_record) = []" "rec_config duel_record = duel_config" "rec_rules duel_record = duel_rules"
    "rr_seats (rec_replay duel_record) = duel_seats" "rr_blockers (rec_replay duel_record) = []"
    "rr_pickups (rec_replay duel_record) = []" "rr_seed (rec_replay duel_record) = 7"
    "rr_ticks (rec_replay duel_record) = m_ticks duel_end"
    using duel_end_setup by (simp_all add: duel_record_def build_replay_def)
  let ?m = "duel_start\<lparr>m_ticks := idle_log, m_tick := 1\<rparr>"
  have "maybe_finish toy_crates ?m = ?m"
    by (simp add: maybe_finish_def duel_start_def duel_pawn_def bs_collect_def duel_config_def)
  then have idle: "step toy_crates [] duel_start = Some ?m"
    using duel_idle_step [of toy_crates duel_config] by (simp add: duel_at_duel(1) [symmetric])
  have m: "bc_phase (match_broadcast ?m) = Live" "map be_alive (bc_entities (match_broadcast ?m)) = [True, True]"
    by (simp_all add: match_broadcast_def duel_start_def broadcast_pawn_def duel_pawn_def)
  have "m_phase duel_start = Live" by (simp add: duel_start_def)
  then have "rerun_frames toy_crates duel_record = Some (?m, [match_broadcast duel_start, match_broadcast ?m])"
    by (simp add: idle  rerun_frames_def Let_def rec duel_start_new burn_countdown_live live_start_def duel_log
        action_map_def bt_collect_def)
  then show ?thesis using m by auto
qed

text \<open>
  A match that ended because a player walked out is not: the replay feeds the recorded actions but
  not the recorded forfeits, so the stream of a verified record in which one of two players forfeited stops
  with both standing and the match live, followed by the verified end.
\<close>

theorem replay_stream_misses_forfeits:
  "verify toy_crates duel_record = Some (Inr (rec_result duel_record))
   \<and> (\<exists>fs. replay_frames toy_crates duel_record = Some (Inr fs) \<and> bc_phase (last fs) = Live
        \<and> map be_alive (bc_entities (last fs)) = [True, True])"
  using duel_frames replay_streams(1) [OF duel_verifies] duel_verifies by auto

theorem replay_streams_agree_witness:
  "\<exists>fs. replay_frames toy_crates duel_record = Some (Inr fs) \<and> length fs \<le> 2
     \<and> replay_to_spectator toy_crates duel_record = Some (Inr (map Frame fs @ [End (rec_result duel_record)]))"
proof -
  have "replay_frames toy_crates duel_record \<noteq> None" using duel_frames replay_streams(1) [OF duel_verifies] by auto
  moreover have "length (rr_ticks (rec_replay duel_record)) = 1"
    by (simp add: duel_record_def build_replay_def duel_log)
  ultimately show ?thesis using replay_streams_agree [OF duel_verifies, of small_feed] by auto
qed

end
