(* ===== verification/Earner.thy ===== *)
theory Earner
  imports Mesh_Coordinator
begin

section \<open>The earner (\<^verbatim>\<open>src/mesh/earner/src/main.rs\<close>, \<^verbatim>\<open>runner.rs\<close>)\<close>

text \<open>
  The worker's daemon: its session key, the two signed messages, the stub renderer, the WebSocket session
  with its reconnect loop, and the legacy HTTP poll loop. The secp256k1 signer, SHA-256, the text form of a
  UUID and the JSON decoder of a poll's body are the fields of \<open>earner_crates\<close>; signing a 32-byte prehash is
  total there, as the crate documents and the code expects. What the network does is an argument: the frames
  a socket yields, each with the seconds waited for it, which sends succeed, and the answers of an HTTP server;
  so is the time a render takes.
\<close>

subsection \<open>Crates, arguments and errors\<close>

record earner_crates =
  ec_mesh :: mesh_crates
  ec_key_from_slice :: "nat list \<Rightarrow> nat list option"
  ec_verifying_point :: "nat list \<Rightarrow> nat list"
  ec_sign_prehash :: "nat list \<Rightarrow> nat list \<Rightarrow> nat list \<times> nat"
  ec_sha256 :: "nat list \<Rightarrow> nat list"
  ec_uuid_text :: "uuid \<Rightarrow> string"
  ec_uuid_parse :: "string \<Rightarrow> uuid option"
  ec_next_from_slice :: "nat list \<Rightarrow> job_spec option option"

datatype earner_mode = Http_Mode | Ws_Mode

record earner_args =
  ar_coordinator :: string
  ar_session_key :: string
  ar_poll_secs :: u64
  ar_gpu_model :: string
  ar_vram_gb :: u32
  ar_reconnect_max_secs :: u64
  ar_mode :: earner_mode
  ar_ws :: bool
  ar_heartbeat_secs :: u64

datatype earner_error =
    Key_Not_Hex | Invalid_Session_Key
  | Challenge_Timeout | Closed_Before_Challenge | Ws_Recv | Expected_Challenge coordinator_msg
  | Undecodable_Challenge | Nonce_Not_Hex | Sending string | Render_Failed
  | Transport | Http_Error nat | Missing_Nonce_Header | Body_Too_Large | Undecodable_Job

definition all_supported :: "job_kind list" where
  "all_supported = job_kind_ALL"

definition DEV_SESSION_KEY :: string where
  "DEV_SESSION_KEY = ''4c0883a69102937d6231471b5dbb6204fe5129617082792ae468d01a3f362318''"

definition effective_mode :: "earner_args \<Rightarrow> earner_mode" where
  "effective_mode args = (if ar_ws args then Ws_Mode else ar_mode args)"

subsection \<open>The session key\<close>

record earner_session =
  se_signing_key :: "nat list"
  se_address :: string

definition earner_address_of :: "earner_crates \<Rightarrow> nat list \<Rightarrow> string" where
  "earner_address_of X point = ''0x'' @ hex_encode (ec_mesh X) (drop 12 (keccak256 (ec_mesh X) (drop 1 point)))"

definition session_from_hex :: "earner_crates \<Rightarrow> string \<Rightarrow> earner_error + earner_session" where
  "session_from_hex X key_hex =
     (let trimmed = (case strip_prefix ''0x'' key_hex of Some s \<Rightarrow> s | None \<Rightarrow> key_hex) in
      case hex_decode (ec_mesh X) trimmed of
        None \<Rightarrow> Inl Key_Not_Hex
      | Some key_bytes \<Rightarrow>
          (case ec_key_from_slice X key_bytes of
             None \<Rightarrow> Inl Invalid_Session_Key
           | Some key \<Rightarrow> Inr \<lparr>se_signing_key = key, se_address = earner_address_of X (ec_verifying_point X key)\<rparr>))"

definition sign_digest :: "earner_crates \<Rightarrow> earner_session \<Rightarrow> nat list \<Rightarrow> string" where
  "sign_digest X session digest =
     (let (sig, recid) = ec_sign_prehash X (se_signing_key session) digest
      in hex_encode (ec_mesh X) (sig @ [recid]))"

definition sign_result :: "earner_crates \<Rightarrow> earner_session \<Rightarrow> uuid \<Rightarrow> string \<Rightarrow> string" where
  "sign_result X session job_id output_hash = sign_digest X session (signing_digest (ec_mesh X) job_id output_hash)"

definition sign_hello :: "earner_crates \<Rightarrow> earner_session \<Rightarrow> string \<Rightarrow> u32 \<Rightarrow> job_kind list \<Rightarrow> nat list \<Rightarrow> string" where
  "sign_hello X session gpu_model vram_gb supported nonce =
     sign_digest X session (hello_digest (ec_mesh X) (se_address session) gpu_model vram_gb supported nonce)"

definition earner_start :: "earner_crates \<Rightarrow> earner_args \<Rightarrow> earner_error + (earner_mode \<times> earner_session)" where
  "earner_start X args =
     (case session_from_hex X (ar_session_key args) of
        Inl e \<Rightarrow> Inl e
      | Inr session \<Rightarrow> Inr (effective_mode args, session))"

subsection \<open>The stub renderer\<close>

definition signed_pad5 :: "int \<Rightarrow> string" where
  "signed_pad5 x = (let ds = decimal (nat \<bar>x\<bar>)
     in (if x < 0 then CHR ''-'' else CHR ''+'') # replicate (4 - length ds) CHR ''0'' @ ds)"

definition region_id :: "region_coord \<Rightarrow> string" where
  "region_id r = ''r'' @ signed_pad5 (rc_x r) @ ''_'' @ signed_pad5 (rc_y r) @ ''_l'' @ decimal (rc_layer r)"

definition newline :: string where "newline = [CHR 10]"
definition quoted :: "string \<Rightarrow> string" where "quoted s = [CHR 0x22] @ s @ [CHR 0x22]"

definition stub_usd_layer :: "string \<Rightarrow> string \<Rightarrow> string" where
  "stub_usd_layer kind region =
     ''#usda 1.0'' @ newline @ ''('' @ newline @ ''    defaultPrim = '' @ quoted kind @ newline @ '')'' @ newline @ newline
     @ ''def Scope '' @ quoted kind @ newline @ ''{'' @ newline
     @ ''    custom string regionId = '' @ quoted region @ newline
     @ ''    custom string source = '' @ quoted ''earner-stub'' @ newline @ ''}'' @ newline"

definition runner_render :: "job_spec \<Rightarrow> earner_error + nat list" where
  "runner_render job = (case js_kind job of
       Terrain \<Rightarrow> Inr (str_bytes (stub_usd_layer ''Terrain'' (region_id (js_region job))))
     | Foliage \<Rightarrow> Inr (str_bytes (stub_usd_layer ''Foliage'' (region_id (js_region job))))
     | NpcTick \<Rightarrow> Inr (str_bytes (''{}'' @ newline))
     | DiffusionTile \<Rightarrow> Inr (replicate 1024 0)
     | Optimization \<Rightarrow> Inr (str_bytes (stub_usd_layer ''Optimization'' (region_id (js_region job)))))"

subsection \<open>Progress, charge and backoff\<close>

definition BACKOFF_BASE_SECS :: u64 where "BACKOFF_BASE_SECS = 1"
definition CHALLENGE_TIMEOUT_SECS :: u64 where "CHALLENGE_TIMEOUT_SECS = 30"
definition MAX_INBOUND_FRAME_BYTES :: nat where "MAX_INBOUND_FRAME_BYTES = 64 * 1024"
definition MAX_RESPONSE_BODY_BYTES :: nat where "MAX_RESPONSE_BODY_BYTES = 64 * 1024"

definition checked_shl_1 :: "u32 \<Rightarrow> u64 option" where
  "checked_shl_1 shift = (if shift < 64 then Some (2 ^ shift) else None)"

definition backoff_delay :: "u32 \<Rightarrow> u64 \<Rightarrow> u64" where
  "backoff_delay consecutive_failures max_secs =
     (let secs = (if consecutive_failures = 0 then BACKOFF_BASE_SECS
                  else let shift = consecutive_failures - 1;
                           scaled = (case Option.bind (checked_shl_1 shift) (\<lambda>f. ck_u 64 (f * BACKOFF_BASE_SECS)) of
                                       Some v \<Rightarrow> v | None \<Rightarrow> 2 ^ 64 - 1)
                       in min scaled max_secs)
      in min secs max_secs)"

definition estimate_progress :: "u64 \<Rightarrow> u32 \<Rightarrow> u8" where
  "estimate_progress elapsed_secs deadline_secs =
     (if deadline_secs = 0 then 0 else min (min (elapsed_secs * 100) (2 ^ 64 - 1) div deadline_secs) 99)"

definition render_seconds_charged :: "u64 \<Rightarrow> u32" where
  "render_seconds_charged elapsed_secs = max (min elapsed_secs (2 ^ 32 - 1)) 1"

subsection \<open>The socket\<close>

text \<open>
  An inbound frame is a text frame with the message it decodes to (\<open>None\<close> when it does not), a close, an error
  of the transport (a frame over the size limit of \<open>ws_config\<close> is one), or any other frame; the list ends when
  the stream does.
\<close>

datatype client_frame = In_Text "coordinator_msg option" | In_Close | In_Other | In_Error

record web_socket_config =
  wc_max_message_size :: "nat option"
  wc_max_frame_size :: "nat option"

definition ws_config :: web_socket_config where
  "ws_config = \<lparr>wc_max_message_size = Some MAX_INBOUND_FRAME_BYTES, wc_max_frame_size = Some MAX_INBOUND_FRAME_BYTES\<rparr>"

definition trim_end_slashes :: "string \<Rightarrow> string" where
  "trim_end_slashes s = rev (dropWhile (\<lambda>c. c = CHR ''/'') (rev s))"

definition ws_url :: "string \<Rightarrow> string" where
  "ws_url coordinator =
     (let base = trim_end_slashes coordinator;
          base = (case strip_prefix ''https://'' base of
                    Some rest \<Rightarrow> ''wss://'' @ rest
                  | None \<Rightarrow> (case strip_prefix ''http://'' base of Some rest \<Rightarrow> ''ws://'' @ rest | None \<Rightarrow> base))
      in base @ ''/ws'')"

fun recv_challenge :: "earner_crates \<Rightarrow> (nat \<times> client_frame) list \<Rightarrow>
    (earner_error + nat list) \<times> (nat \<times> client_frame) list" where
  "recv_challenge X [] = (Inl Closed_Before_Challenge, [])"
| "recv_challenge X ((wait, f) # fs) =
     (if wait > CHALLENGE_TIMEOUT_SECS then (Inl Challenge_Timeout, fs)
      else case f of
        In_Error \<Rightarrow> (Inl Ws_Recv, fs)
      | In_Close \<Rightarrow> (Inl Closed_Before_Challenge, fs)
      | In_Other \<Rightarrow> recv_challenge X fs
      | In_Text None \<Rightarrow> (Inl Undecodable_Challenge, fs)
      | In_Text (Some (Msg_Challenge nonce)) \<Rightarrow>
          (case hex_decode (ec_mesh X) nonce of None \<Rightarrow> Inl Nonce_Not_Hex | Some b \<Rightarrow> Inr b, fs)
      | In_Text (Some other) \<Rightarrow> (Inl (Expected_Challenge other), fs))"

text \<open>The outbound half: what was sent, and how many sends were tried; \<open>up\<close> says which of them succeed.\<close>

record client_socket =
  cs_sent :: "earner_msg list"
  cs_tries :: nat

definition client_send :: "(nat \<Rightarrow> bool) \<Rightarrow> string \<Rightarrow> earner_msg \<Rightarrow> client_socket \<Rightarrow> client_socket \<times> (earner_error + unit)" where
  "client_send up what msg k =
     (let k' = k\<lparr>cs_tries := cs_tries k + 1\<rparr>
      in if up (cs_tries k) then (k'\<lparr>cs_sent := cs_sent k @ [msg]\<rparr>, Inr ()) else (k', Inl (Sending what)))"

subsection \<open>One offer\<close>

text \<open>
  How a render went: the lateness of each heartbeat that fired before it was done, and the seconds it took. The
  beats of a \<^verbatim>\<open>tokio\<close> interval are due one period apart.
\<close>

record render_run =
  rn_late :: "nat list"
  rn_elapsed :: u64

definition heartbeat_period :: "u64 \<Rightarrow> u64" where
  "heartbeat_period heartbeat_secs = max heartbeat_secs 1"

fun heartbeats :: "(nat \<Rightarrow> bool) \<Rightarrow> uuid \<Rightarrow> u32 \<Rightarrow> u64 \<Rightarrow> u64 \<Rightarrow> nat list \<Rightarrow> client_socket \<Rightarrow> client_socket \<times> (earner_error + unit)" where
  "heartbeats up job_id deadline_secs period due [] k = (k, Inr ())"
| "heartbeats up job_id deadline_secs period due (late # ls) k =
     (case client_send up ''Heartbeat'' (Msg_Heartbeat (Some job_id) (estimate_progress (due + late) deadline_secs)) k of
        (k', Inl e) \<Rightarrow> (k', Inl e)
      | (k', Inr _) \<Rightarrow> heartbeats up job_id deadline_secs period (due + period) ls k')"

definition render_with_heartbeats ::
  "(nat \<Rightarrow> bool) \<Rightarrow> uuid \<Rightarrow> u32 \<Rightarrow> u64 \<Rightarrow> nat list \<Rightarrow> (earner_error + nat list) \<Rightarrow> client_socket \<Rightarrow>
     client_socket \<times> (earner_error + nat list)" where
  "render_with_heartbeats up job_id deadline_secs heartbeat_secs late render_fut k =
     (let period = heartbeat_period heartbeat_secs in
      case heartbeats up job_id deadline_secs period period late k of
        (k', Inl e) \<Rightarrow> (k', Inl e)
      | (k', Inr _) \<Rightarrow> (k', case render_fut of Inl _ \<Rightarrow> Inl Render_Failed | Inr bytes \<Rightarrow> Inr bytes))"

definition earner_result :: "earner_crates \<Rightarrow> earner_session \<Rightarrow> job_spec \<Rightarrow> nat list \<Rightarrow> u64 \<Rightarrow> job_result" where
  "earner_result X session job output elapsed =
     (let output_hash = hex_encode (ec_mesh X) (ec_sha256 X output);
          signature_hex = sign_result X session (js_id job) output_hash
      in \<lparr>jr_job_id = js_id job, jr_earner_address = se_address session, jr_output_hash = output_hash,
          jr_output_url = ''memory://'' @ ec_uuid_text X (js_id job),
          jr_render_seconds = render_seconds_charged elapsed, jr_signature_hex = signature_hex\<rparr>)"

definition handle_offer ::
  "earner_crates \<Rightarrow> (nat \<Rightarrow> bool) \<Rightarrow> render_run \<Rightarrow> earner_session \<Rightarrow> job_kind list \<Rightarrow> job_spec \<Rightarrow> u64 \<Rightarrow>
     client_socket \<Rightarrow> client_socket \<times> (earner_error + unit)" where
  "handle_offer X up run session supported job heartbeat_secs k =
     (if \<not> List.member supported (js_kind job)
      then client_send up ''Decline'' (Msg_Decline (js_id job) (''unsupported job kind: '' @ as_str (js_kind job))) k
      else case client_send up ''Accept'' (Msg_Accept (js_id job)) k of
        (k1, Inl e) \<Rightarrow> (k1, Inl e)
      | (k1, Inr _) \<Rightarrow>
          (case render_with_heartbeats up (js_id job) (js_deadline_secs job) heartbeat_secs (rn_late run) (runner_render job) k1 of
             (k2, Inl e) \<Rightarrow> (k2, Inl e)
           | (k2, Inr output) \<Rightarrow>
               client_send up ''Submit'' (Msg_Submit (earner_result X session job output (rn_elapsed run))) k2))"

subsection \<open>One connection\<close>

text \<open>The message loop; \<open>runs\<close> numbers the renders of the offers by their order.\<close>

fun session_loop ::
  "earner_crates \<Rightarrow> (nat \<Rightarrow> bool) \<Rightarrow> (nat \<Rightarrow> render_run) \<Rightarrow> earner_session \<Rightarrow> job_kind list \<Rightarrow> u64 \<Rightarrow> nat \<Rightarrow>
     (nat \<times> client_frame) list \<Rightarrow> client_socket \<Rightarrow> client_socket \<times> (earner_error + unit)" where
  "session_loop X up runs session supported hb n [] k = (k, Inr ())"
| "session_loop X up runs session supported hb n ((wait, f) # fs) k =
     (case f of
        In_Error \<Rightarrow> (k, Inl Ws_Recv)
      | In_Close \<Rightarrow> (k, Inr ())
      | In_Other \<Rightarrow> session_loop X up runs session supported hb n fs k
      | In_Text None \<Rightarrow> session_loop X up runs session supported hb n fs k
      | In_Text (Some msg) \<Rightarrow>
          (case msg of
             Msg_JobOffer job \<Rightarrow>
               session_loop X up runs session supported hb (n + 1) fs
                 (fst (handle_offer X up (runs n) session supported job hb k))
           | _ \<Rightarrow> session_loop X up runs session supported hb n fs k))"

definition run_session ::
  "earner_crates \<Rightarrow> (nat \<Rightarrow> bool) \<Rightarrow> (nat \<Rightarrow> render_run) \<Rightarrow> earner_args \<Rightarrow> earner_session \<Rightarrow>
     (nat \<times> client_frame) list \<Rightarrow> client_socket \<times> (earner_error + unit)" where
  "run_session X up runs args session frames =
     (let supported = all_supported; k = \<lparr>cs_sent = [], cs_tries = 0\<rparr> in
      case recv_challenge X frames of
        (Inl e, _) \<Rightarrow> (k, Inl e)
      | (Inr nonce, rest) \<Rightarrow>
          let hello = Msg_Hello (se_address session) (ar_gpu_model args) (ar_vram_gb args) supported
                        (sign_hello X session (ar_gpu_model args) (ar_vram_gb args) supported nonce)
          in (case client_send up ''Hello'' hello k of
                (k1, Inl e) \<Rightarrow> (k1, Inl e)
              | (k1, Inr _) \<Rightarrow> session_loop X up runs session supported (ar_heartbeat_secs args) 0 rest k1))"

text \<open>
  The reconnect loop, over what each attempt to connect meets: a refusal, or a socket. It yields, per attempt,
  what was sent and the seconds slept afterwards.
\<close>

record connection =
  cn_up :: "nat \<Rightarrow> bool"
  cn_runs :: "nat \<Rightarrow> render_run"
  cn_frames :: "(nat \<times> client_frame) list"

fun run_ws :: "earner_crates \<Rightarrow> earner_args \<Rightarrow> earner_session \<Rightarrow> connection option list \<Rightarrow> u32 \<Rightarrow> (earner_msg list \<times> u64) list" where
  "run_ws X args session [] consecutive_failures = []"
| "run_ws X args session (c # cs) consecutive_failures =
     (let (sent, failures) = (case c of
            Some w \<Rightarrow> (cs_sent (fst (run_session X (cn_up w) (cn_runs w) args session (cn_frames w))), 0)
          | None \<Rightarrow> ([], consecutive_failures));
          failures = min (failures + 1) (2 ^ 32 - 1);
          delay = backoff_delay failures (ar_reconnect_max_secs args)
      in (sent, delay) # run_ws X args session cs failures)"

subsection \<open>The HTTP client\<close>

text \<open>
  A server is a function on its own state. An answer carries the seconds to connect and to its head, and the
  chunks of its body, each with its arrival, or a failure of the transport; no answer at all is one too.
\<close>

datatype request_body = No_Body | Json_Hello earner_msg | Json_Result job_result

record http_request =
  rq_post :: bool
  rq_url :: string
  rq_query :: "(string \<times> string) list"
  rq_headers :: header_map
  rq_body :: request_body

record http_response =
  rp_status :: nat
  rp_headers :: header_map
  rp_connect_secs :: nat
  rp_head_secs :: nat
  rp_chunks :: "(nat \<times> nat list) option list"

type_synonym 's server = "http_request \<Rightarrow> 's \<Rightarrow> 's \<times> http_response option"

record http_client_config =
  hc_request_timeout :: nat
  hc_connect_timeout :: nat

definition HTTP_REQUEST_TIMEOUT :: nat where "HTTP_REQUEST_TIMEOUT = 45"
definition HTTP_CONNECT_TIMEOUT :: nat where "HTTP_CONNECT_TIMEOUT = 10"

definition http_client :: "nat \<Rightarrow> nat \<Rightarrow> http_client_config" where
  "http_client request_timeout connect_timeout =
     \<lparr>hc_request_timeout = request_timeout, hc_connect_timeout = connect_timeout\<rparr>"

definition http_send :: "http_client_config \<Rightarrow> 's server \<Rightarrow> http_request \<Rightarrow> 's \<Rightarrow> 's \<times> (earner_error + http_response)" where
  "http_send client call rq s =
     (case call rq s of
        (s', None) \<Rightarrow> (s', Inl Transport)
      | (s', Some rp) \<Rightarrow>
          if rp_connect_secs rp > hc_connect_timeout client \<or> rp_head_secs rp > hc_request_timeout client
          then (s', Inl Transport) else (s', Inr rp))"

definition error_for_status :: "http_response \<Rightarrow> earner_error + http_response" where
  "error_for_status rp = (if 400 \<le> rp_status rp \<and> rp_status rp < 600 then Inl (Http_Error (rp_status rp)) else Inr rp)"

definition is_success :: "nat \<Rightarrow> bool" where
  "is_success status \<longleftrightarrow> 200 \<le> status \<and> status < 300"

definition checked_send :: "http_client_config \<Rightarrow> 's server \<Rightarrow> http_request \<Rightarrow> 's \<Rightarrow> 's \<times> (earner_error + http_response)" where
  "checked_send client call rq s =
     (case http_send client call rq s of
        (s', Inl e) \<Rightarrow> (s', Inl e)
      | (s', Inr rp) \<Rightarrow> (s', error_for_status rp))"

subsection \<open>Registration over HTTP\<close>

definition fetch_register_challenge ::
  "earner_crates \<Rightarrow> http_client_config \<Rightarrow> 's server \<Rightarrow> earner_args \<Rightarrow> 's \<Rightarrow> 's \<times> (earner_error + nat list)" where
  "fetch_register_challenge X client call args s =
     (case checked_send client call \<lparr>rq_post = False, rq_url = ar_coordinator args @ ''/register/challenge'',
              rq_query = [], rq_headers = [], rq_body = No_Body\<rparr> s of
        (s1, Inl e) \<Rightarrow> (s1, Inl e)
      | (s1, Inr rp) \<Rightarrow>
          (s1, case header_str (rp_headers rp) ''x-register-challenge'' of
             None \<Rightarrow> Inl Missing_Nonce_Header
           | Some nonce_hex \<Rightarrow>
               (case hex_decode (ec_mesh X) nonce_hex of None \<Rightarrow> Inl Nonce_Not_Hex | Some b \<Rightarrow> Inr b)))"

definition earner_register ::
  "earner_crates \<Rightarrow> http_client_config \<Rightarrow> 's server \<Rightarrow> earner_args \<Rightarrow> earner_session \<Rightarrow> 's \<Rightarrow> 's \<times> (earner_error + string option)" where
  "earner_register X client call args session s =
     (case fetch_register_challenge X client call args s of
        (s1, Inl e) \<Rightarrow> (s1, Inl e)
      | (s1, Inr nonce) \<Rightarrow>
          let supported = all_supported;
              hello = Msg_Hello (se_address session) (ar_gpu_model args) (ar_vram_gb args) supported
                        (sign_hello X session (ar_gpu_model args) (ar_vram_gb args) supported nonce)
          in (case checked_send client call \<lparr>rq_post = True, rq_url = ar_coordinator args @ ''/register'', rq_query = [],
                     rq_headers = [(''x-register-challenge'', hex_encode (ec_mesh X) nonce)], rq_body = Json_Hello hello\<rparr> s1 of
                (s2, Inl e) \<Rightarrow> (s2, Inl e)
              | (s2, Inr rp) \<Rightarrow> (s2, Inr (header_str (rp_headers rp) ''x-poll-token''))))"

subsection \<open>The poll loop\<close>

definition keep_polling_after_submit :: "nat \<Rightarrow> bool" where
  "keep_polling_after_submit status = is_success status"

fun read_body :: "http_client_config \<Rightarrow> (nat \<times> nat list) option list \<Rightarrow> nat list \<Rightarrow> earner_error + nat list" where
  "read_body client [] body = Inr body"
| "read_body client (None # cs) body = Inl Transport"
| "read_body client (Some (arrival, chunk) # cs) body =
     (if arrival > hc_request_timeout client then Inl Transport
      else if length body + length chunk > MAX_RESPONSE_BODY_BYTES then Inl Body_Too_Large
      else read_body client cs (body @ chunk))"

definition poll_request :: "earner_args \<Rightarrow> earner_session \<Rightarrow> string option \<Rightarrow> http_request" where
  "poll_request args session poll_token =
     \<lparr>rq_post = False, rq_url = ar_coordinator args @ ''/jobs/next'', rq_query = [(''earner'', se_address session)],
      rq_headers = (case poll_token of Some token \<Rightarrow> [(''authorization'', ''Bearer '' @ token)] | None \<Rightarrow> []),
      rq_body = No_Body\<rparr>"

definition submit_request :: "earner_crates \<Rightarrow> earner_args \<Rightarrow> i64 \<Rightarrow> job_result \<Rightarrow> http_request" where
  "submit_request X args dispatch_seq result =
     \<lparr>rq_post = True, rq_url = ar_coordinator args @ ''/jobs/'' @ ec_uuid_text X (jr_job_id result) @ ''/submit'', rq_query = [],
      rq_headers = [(''x-dispatch-seq'', decimal_int dispatch_seq)], rq_body = Json_Result result\<rparr>"

definition poll_once ::
  "earner_crates \<Rightarrow> http_client_config \<Rightarrow> 's server \<Rightarrow> earner_args \<Rightarrow> earner_session \<Rightarrow> job_kind list \<Rightarrow> string option \<Rightarrow>
     u64 \<Rightarrow> 's \<Rightarrow> 's \<times> (earner_error + bool)" where
  "poll_once X client call args session supported poll_token elapsed s =
     (case http_send client call (poll_request args session poll_token) s of
        (s1, Inl e) \<Rightarrow> (s1, Inl e)
      | (s1, Inr resp) \<Rightarrow>
          let dispatch_seq = Option.bind (header_str (rp_headers resp) ''x-dispatch-seq'') parse_i64 in
          case read_body client (rp_chunks resp) [] of
            Inl e \<Rightarrow> (s1, Inl e)
          | Inr body \<Rightarrow>
              (case ec_next_from_slice X body of
                 None \<Rightarrow> (s1, Inl Undecodable_Job)
               | Some None \<Rightarrow> (s1, Inr False)
               | Some (Some job) \<Rightarrow>
                   if \<not> List.member supported (js_kind job) then (s1, Inr False)
                   else case dispatch_seq of
                     None \<Rightarrow> (s1, Inr False)
                   | Some seq \<Rightarrow>
                       (case runner_render job of
                          Inl _ \<Rightarrow> (s1, Inl Render_Failed)
                        | Inr output \<Rightarrow>
                            (case http_send client call (submit_request X args seq (earner_result X session job output elapsed)) s1 of
                               (s2, Inl e) \<Rightarrow> (s2, Inl e)
                             | (s2, Inr rp) \<Rightarrow> (s2, Inr (keep_polling_after_submit (rp_status rp)))))))"

text \<open>The endless loop, cut off after as many cycles as there are render times: the sleep after each cycle, if any.\<close>

fun http_cycles ::
  "earner_crates \<Rightarrow> http_client_config \<Rightarrow> 's server \<Rightarrow> earner_args \<Rightarrow> earner_session \<Rightarrow> job_kind list \<Rightarrow> string option \<Rightarrow>
     u64 list \<Rightarrow> 's \<Rightarrow> 's \<times> u64 option list" where
  "http_cycles X client call args session supported poll_token [] s = (s, [])"
| "http_cycles X client call args session supported poll_token (elapsed # es) s =
     (let (s1, r) = poll_once X client call args session supported poll_token elapsed s;
          nap = (case r of
                   Inr True \<Rightarrow> None
                 | Inr False \<Rightarrow> Some (ar_poll_secs args)
                 | Inl _ \<Rightarrow> Some (ar_poll_secs args));
          (s2, naps) = http_cycles X client call args session supported poll_token es s1
      in (s2, nap # naps))"

definition run_http ::
  "earner_crates \<Rightarrow> 's server \<Rightarrow> earner_args \<Rightarrow> earner_session \<Rightarrow> u64 list \<Rightarrow> 's \<Rightarrow> 's \<times> u64 option list" where
  "run_http X call args session cycles s =
     (let client = http_client HTTP_REQUEST_TIMEOUT HTTP_CONNECT_TIMEOUT;
          supported = all_supported;
          (s1, poll_token) = (case earner_register X client call args session s of
             (s1, Inr token) \<Rightarrow> (s1, token)
           | (s1, Inl _) \<Rightarrow> (s1, None))
      in http_cycles X client call args session supported poll_token cycles s1)"

end
