(* ===== verification/Earner_Props.thy ===== *)
theory Earner_Props
  imports Earner Session_Props Registration "HOL-Library.Sublist"
begin

section \<open>What the earner guarantees\<close>

text \<open>
  The reconnect backoff, the order in which an earner speaks on a connection, the limits of the handshake
  timeout, and the earner and the coordinator put together: an honest earner's hello is admitted, and the work it
  does on an offer is settled.
\<close>

subsection \<open>Backoff\<close>

lemma backoff_delay_eq:
  assumes "max_secs < 2 ^ 64"
  shows "backoff_delay n max_secs = min (2 ^ (n - 1)) max_secs"
proof (cases "n - 1 < 64")
  case True
  have "(2::nat) ^ (n - 1) < 2 ^ 64" using True by (rule power_strict_increasing) simp
  then show ?thesis using True
    by (auto simp: backoff_delay_def Let_def checked_shl_1_def ck_u_def BACKOFF_BASE_SECS_def)
next
  case False
  then have "(2::nat) ^ 64 \<le> 2 ^ (n - 1)" by (intro power_increasing) auto
  with False assms show ?thesis
    by (auto simp: backoff_delay_def Let_def checked_shl_1_def)
qed

lemma backoff_doubles:
  assumes "max_secs < 2 ^ 64" "0 < n" "n < 2 ^ 32"
  shows "backoff_delay (min (n + 1) (2 ^ 32 - 1)) max_secs = min (2 * backoff_delay n max_secs) max_secs"
proof (cases "n < 65")
  case True
  then have m: "min (n + 1) (2 ^ 32 - 1) = n + 1" by simp
  have "(2::nat) ^ n = 2 * 2 ^ (n - 1)" using assms(2) by (cases n) simp_all
  then show ?thesis unfolding m backoff_delay_eq [OF assms(1)] by (simp add: min_def)
next
  case False
  have big: "min (2 ^ (k - 1)) max_secs = max_secs" if "65 \<le> k" for k
  proof -
    have "(2::nat) ^ 64 \<le> 2 ^ (k - 1)" using that by (intro power_increasing) auto
    then show ?thesis using assms(1) by simp
  qed
  have k: "65 \<le> min (n + 1) (2 ^ 32 - 1)" "65 \<le> n" using False by simp_all
  show ?thesis unfolding backoff_delay_eq [OF assms(1)] big [OF k(1)] big [OF k(2)] by simp
qed

abbreviation sleeps :: "earner_crates \<Rightarrow> earner_args \<Rightarrow> earner_session \<Rightarrow> connection option list \<Rightarrow> u32 \<Rightarrow> u64 list" where
  "sleeps X args session cs n \<equiv> map snd (run_ws X args session cs n)"

lemma sleeps_Cons:
  "sleeps X args session (c # cs) n =
     backoff_delay (min ((if c = None then n else 0) + 1) (2 ^ 32 - 1)) (ar_reconnect_max_secs args)
     # sleeps X args session cs (min ((if c = None then n else 0) + 1) (2 ^ 32 - 1))"
  by (cases c) (simp_all add: Let_def)

declare run_ws.simps(2) [simp del]

lemma length_sleeps: "length (sleeps X args session cs n) = length cs"
  by (induction cs arbitrary: n) (simp, simp only: sleeps_Cons list.size)

lemma sleeps_chain:
  assumes "ar_reconnect_max_secs args < 2 ^ 64" "0 < n" "n < 2 ^ 32" "i < length cs"
  shows "sleeps X args session cs n ! i = min (if cs ! i \<noteq> None then 1
      else 2 * (backoff_delay n (ar_reconnect_max_secs args) # sleeps X args session cs n) ! i) (ar_reconnect_max_secs args)"
  using assms(2-4)
proof (induction cs arbitrary: n i)
  case (Cons c cs)
  let ?m = "ar_reconnect_max_secs args"
  let ?n = "min ((if c = None then n else 0) + 1) (2 ^ 32 - 1)"
  have n: "0 < ?n" "?n < 2 ^ 32" using Cons.prems by (auto split: if_splits)
  show ?case
  proof (cases i)
    case 0
    show ?thesis
      unfolding sleeps_Cons 0 using backoff_doubles [OF assms(1) Cons.prems(1,2)]
      by (simp add: backoff_delay_eq [OF assms(1)])
  next
    case (Suc j)
    then have "j < length cs" using Cons.prems(3) by simp
    from Cons.IH [OF n this] show ?thesis unfolding sleeps_Cons Suc by simp
  qed
qed simp

text \<open>
  The reconnect loop backs off exponentially and never past its cap. Each attempt is followed by one
  sleep; the sleep after an attempt that connected, and after the first attempt, is one second, and the sleep
  after any other refused attempt is twice the one before, both cut to the configured ceiling, however
  many failures there are in a row.
\<close>

theorem reconnect_backoff_doubles:
  assumes "ar_reconnect_max_secs args < 2 ^ 64"
  shows "length (sleeps X args session cs 0) = length cs
    \<and> (\<forall>i<length cs. sleeps X args session cs 0 ! i =
        min (if i = 0 \<or> cs ! i \<noteq> None then 1 else 2 * sleeps X args session cs 0 ! (i - 1)) (ar_reconnect_max_secs args))"
proof (intro conjI allI impI)
  show "length (sleeps X args session cs 0) = length cs" by (rule length_sleeps)
next
  fix i assume i: "i < length cs"
  then obtain c ds where cs: "cs = c # ds" by (cases cs) auto
  have s: "sleeps X args session cs 0 = backoff_delay 1 (ar_reconnect_max_secs args) # sleeps X args session ds 1"
    unfolding cs sleeps_Cons by simp
  show "sleeps X args session cs 0 ! i =
      min (if i = 0 \<or> cs ! i \<noteq> None then 1 else 2 * sleeps X args session cs 0 ! (i - 1)) (ar_reconnect_max_secs args)"
  proof (cases i)
    case 0
    then show ?thesis unfolding s by (simp add: backoff_delay_eq [OF assms])
  next
    case (Suc j)
    then show ?thesis
      using sleeps_chain [OF assms, of 1 j ds X session] i unfolding s by (simp add: cs)
  qed
qed

subsection \<open>What goes over the wire\<close>

text \<open>What an earner says about one offer when nothing goes wrong, and the offers a connection yields.\<close>

definition beats_from :: "job_spec \<Rightarrow> u64 \<Rightarrow> u64 \<Rightarrow> nat list \<Rightarrow> earner_msg list" where
  "beats_from job period due late =
     map (\<lambda>(i, l). Msg_Heartbeat (Some (js_id job)) (estimate_progress (due + i * period + l) (js_deadline_secs job)))
       (List.enumerate 0 late)"

definition rendered :: "job_spec \<Rightarrow> nat list" where
  "rendered job = (case runner_render job of Inr bytes \<Rightarrow> bytes | Inl _ \<Rightarrow> [])"

definition offer_talk :: "earner_crates \<Rightarrow> render_run \<Rightarrow> earner_session \<Rightarrow> job_kind list \<Rightarrow> u64 \<Rightarrow> job_spec \<Rightarrow> earner_msg list" where
  "offer_talk X run session supported hb job =
     (if \<not> List.member supported (js_kind job)
      then [Msg_Decline (js_id job) (''unsupported job kind: '' @ as_str (js_kind job))]
      else Msg_Accept (js_id job) # beats_from job (heartbeat_period hb) (heartbeat_period hb) (rn_late run)
        @ [Msg_Submit (earner_result X session job (rendered job) (rn_elapsed run))])"

fun offers_in :: "(nat \<times> client_frame) list \<Rightarrow> job_spec list" where
  "offers_in [] = []"
| "offers_in ((_, f) # fs) =
     (case f of
        In_Error \<Rightarrow> [] | In_Close \<Rightarrow> []
      | In_Text (Some (Msg_JobOffer job)) \<Rightarrow> job # offers_in fs
      | _ \<Rightarrow> offers_in fs)"

definition says :: "(nat \<Rightarrow> bool) \<Rightarrow> client_socket \<Rightarrow> client_socket \<Rightarrow> earner_msg list \<Rightarrow> bool" where
  "says up k k' msgs \<longleftrightarrow> (\<exists>said. cs_sent k' = cs_sent k @ said \<and> prefix said msgs \<and> ((\<forall>n. up n) \<longrightarrow> said = msgs))"

lemma runner_total: "runner_render job = Inr (rendered job)"
  by (cases "js_kind job") (simp_all add: runner_render_def rendered_def)

lemma client_send_says: "says up k (fst (client_send up what msg k)) [msg]"
  by (auto simp: says_def client_send_def Let_def)

lemma client_send_ok: "client_send up what msg k = (k', Inr u) \<Longrightarrow> cs_sent k' = cs_sent k @ [msg]"
  by (auto simp: client_send_def Let_def split: if_splits)

lemma client_send_fails: "client_send up what msg k = (k', Inl e) \<Longrightarrow> \<not> up (cs_tries k) \<and> cs_sent k' = cs_sent k"
  by (auto simp: client_send_def Let_def split: if_splits)

lemma says_failed: "cs_sent k' = cs_sent k \<Longrightarrow> \<not> up n \<Longrightarrow> says up k k' msgs"
  by (auto simp: says_def)

lemma says_then: "cs_sent k1 = cs_sent k @ msgs \<Longrightarrow> says up k1 k2 ms \<Longrightarrow> says up k k2 (msgs @ ms)"
  by (auto simp: says_def)

lemma says_weaken: "says up k k' msgs \<Longrightarrow> \<not> up n \<Longrightarrow> says up k k' (msgs @ ms)"
  by (auto simp: says_def)

lemma says_nil: "says up k k []"
  by (simp add: says_def)

lemma beats_from_simps [simp]:
  "beats_from job period due [] = []"
  "beats_from job period due (l # ls) =
     Msg_Heartbeat (Some (js_id job)) (estimate_progress (due + l) (js_deadline_secs job)) # beats_from job period (due + period) ls"
proof -
  have "List.enumerate (Suc n) ls = map (\<lambda>(i, l). (Suc i, l)) (List.enumerate n ls)" for n
    by (induction ls arbitrary: n) auto
  then show "beats_from job period due (l # ls) =
     Msg_Heartbeat (Some (js_id job)) (estimate_progress (due + l) (js_deadline_secs job)) # beats_from job period (due + period) ls"
    by (auto simp: beats_from_def algebra_simps)
qed (simp add: beats_from_def)

lemma heartbeats_say:
  "heartbeats up (js_id job) (js_deadline_secs job) period due late k = (k', r) \<Longrightarrow>
     (case r of Inr _ \<Rightarrow> cs_sent k' = cs_sent k @ beats_from job period due late
      | Inl _ \<Rightarrow> \<not> (\<forall>n. up n) \<and> says up k k' (beats_from job period due late))"
proof (induction late arbitrary: due k)
  case (Cons l ls)
  let ?m = "Msg_Heartbeat (Some (js_id job)) (estimate_progress (due + l) (js_deadline_secs job))"
  obtain k1 r1 where s: "client_send up ''Heartbeat'' ?m k = (k1, r1)" by fastforce
  show ?case
  proof (cases r1)
    case (Inl e')
    then have f: "\<not> up (cs_tries k)" "cs_sent k1 = cs_sent k" using client_send_fails s by blast+
    then show ?thesis using says_failed [OF f(2), of up] Cons.prems s Inl by auto
  next
    case (Inr v)
    have 1: "cs_sent k1 = cs_sent k @ [?m]" using client_send_ok s Inr by blast
    have "heartbeats up (js_id job) (js_deadline_secs job) period (due + period) ls k1 = (k', r)"
      using Cons.prems by (simp add: s Inr)
    from Cons.IH [OF this] 1 says_then [OF 1] show ?thesis by (cases r) fastforce+
  qed
qed auto

lemma handle_offer_says: "says up k (fst (handle_offer X up run session supported job hb k)) (offer_talk X run session supported hb job)"
proof (cases "List.member supported (js_kind job)")
  case False
  then show ?thesis by (simp add: handle_offer_def offer_talk_def client_send_says)
next
  case True
  let ?bs = "beats_from job (heartbeat_period hb) (heartbeat_period hb) (rn_late run)"
  let ?m = "Msg_Submit (earner_result X session job (rendered job) (rn_elapsed run))"
  have talk: "offer_talk X run session supported hb job = [Msg_Accept (js_id job)] @ ?bs @ [?m]"
    using True by (simp add: offer_talk_def)
  obtain k1 r1 where a: "client_send up ''Accept'' (Msg_Accept (js_id job)) k = (k1, r1)" by fastforce
  show ?thesis
  proof (cases r1)
    case (Inl e)
    then have "\<not> up (cs_tries k)" "cs_sent k1 = cs_sent k" using client_send_fails a by blast+
    then show ?thesis using True a Inl says_failed by (simp add: handle_offer_def)
  next
    case (Inr u1)
    then have k1: "cs_sent k1 = cs_sent k @ [Msg_Accept (js_id job)]" using client_send_ok a by blast
    obtain k2 r2 where h: "heartbeats up (js_id job) (js_deadline_secs job) (heartbeat_period hb) (heartbeat_period hb) (rn_late run) k1
        = (k2, r2)" by fastforce
    show ?thesis
    proof (cases r2)
      case (Inl e)
      with heartbeats_say [OF h] obtain n where "\<not> up n" "says up k1 k2 ?bs" by auto
      with says_then [OF k1 says_weaken] show ?thesis
        unfolding talk using True by (auto simp: handle_offer_def a Inr render_with_heartbeats_def h Inl)
    next
      case (Inr u2)
      with heartbeats_say [OF h] have "cs_sent k2 = cs_sent k1 @ ?bs" by simp
      from says_then [OF k1 says_then [OF this client_send_says]] show ?thesis
        unfolding talk using True \<open>r1 = Inr u1\<close> by (simp add: handle_offer_def a render_with_heartbeats_def h Inr runner_total)
    qed
  qed
qed

lemma session_loop_says:
  "\<exists>segs. cs_sent (fst (session_loop X up runs session supported hb n fs k)) = cs_sent k @ concat segs
     \<and> length segs = length (offers_in fs)
     \<and> (\<forall>i<length segs. prefix (segs ! i) (offer_talk X (runs (n + i)) session supported hb (offers_in fs ! i))
          \<and> ((\<forall>n. up n) \<longrightarrow> segs ! i = offer_talk X (runs (n + i)) session supported hb (offers_in fs ! i)))"
proof (induction fs arbitrary: n k)
  case (Cons f fs)
  obtain w fr where f: "f = (w, fr)" by (cases f)
  show ?case
  proof (cases "\<exists>job. fr = In_Text (Some (Msg_JobOffer job))")
    case True
    then obtain job where fr: "fr = In_Text (Some (Msg_JobOffer job))" by blast
    let ?k = "fst (handle_offer X up (runs n) session supported job hb k)"
    obtain said where s: "cs_sent ?k = cs_sent k @ said" "prefix said (offer_talk X (runs n) session supported hb job)"
      "(\<forall>n. up n) \<longrightarrow> said = offer_talk X (runs n) session supported hb job"
      using handle_offer_says [of up k X "runs n" session supported job hb] by (auto simp: says_def)
    obtain segs where g: "cs_sent (fst (session_loop X up runs session supported hb (n + 1) fs ?k)) = cs_sent ?k @ concat segs"
      "length segs = length (offers_in fs)"
      "\<And>i. i < length segs \<Longrightarrow> prefix (segs ! i) (offer_talk X (runs (n + 1 + i)) session supported hb (offers_in fs ! i))
         \<and> ((\<forall>n. up n) \<longrightarrow> segs ! i = offer_talk X (runs (n + 1 + i)) session supported hb (offers_in fs ! i))"
      using Cons.IH [of "n + 1" ?k] by blast
    show ?thesis
      by (rule exI [of _ "said # segs"]) (use s g in \<open>auto simp: f fr nth_Cons split: nat.splits\<close>)
  next
    case False
    then show ?thesis
      using Cons.IH [of n k] by (cases fr) (auto simp: f split: option.splits coordinator_msg.splits)
  qed
qed simp

lemma estimate_progress_bound: "estimate_progress e d \<le> 99"
  by (simp add: estimate_progress_def)

lemma render_seconds_bound: "1 \<le> render_seconds_charged e" "render_seconds_charged e < 2 ^ 32"
  by (auto simp: render_seconds_charged_def)

definition signed_hello :: "earner_crates \<Rightarrow> earner_args \<Rightarrow> earner_session \<Rightarrow> nat list \<Rightarrow> earner_msg" where
  "signed_hello X args session nonce = Msg_Hello (se_address session) (ar_gpu_model args) (ar_vram_gb args) all_supported
     (sign_hello X session (ar_gpu_model args) (ar_vram_gb args) all_supported nonce)"

text \<open>
  Property C24. On a connection an earner speaks only in turn. Whatever frames the coordinator sends and whichever of
  its own sends fail, it says nothing before it was challenged; then one hello, signed over that
  challenge; and then, for each offer in order, a prefix of one fixed exchange: the decline of a kind it did
  not advertise, or the acceptance, progress reports of at most 99 percent, and one submission charging at
  least a second. When no send fails, the exchanges are complete.
\<close>

theorem earner_speaks_in_turn:
  "cs_sent (fst (run_session X up runs args session frames)) = []
   \<or> (\<exists>nonce rest segs. recv_challenge X frames = (Inr nonce, rest)
        \<and> cs_sent (fst (run_session X up runs args session frames)) = signed_hello X args session nonce # concat segs
        \<and> length segs = length (offers_in rest)
        \<and> (\<forall>i<length segs. let talk = offer_talk X (runs i) session all_supported (ar_heartbeat_secs args) (offers_in rest ! i) in
             prefix (segs ! i) talk \<and> ((\<forall>n. up n) \<longrightarrow> segs ! i = talk)
             \<and> (\<forall>j p. Msg_Heartbeat j p \<in> set talk \<longrightarrow> j = Some (js_id (offers_in rest ! i)) \<and> p \<le> 99)
             \<and> (\<forall>r. Msg_Submit r \<in> set talk \<longrightarrow> List.member all_supported (js_kind (offers_in rest ! i))
                  \<and> jr_job_id r = js_id (offers_in rest ! i) \<and> 1 \<le> jr_render_seconds r \<and> jr_render_seconds r < 2 ^ 32)))"
proof (cases "fst (recv_challenge X frames)")
  case (Inl e)
  then obtain rest where "recv_challenge X frames = (Inl e, rest)" by (cases "recv_challenge X frames") auto
  then show ?thesis by (simp add: run_session_def)
next
  case (Inr nonce)
  then obtain rest where c: "recv_challenge X frames = (Inr nonce, rest)" by (cases "recv_challenge X frames") auto
  let ?k = "\<lparr>cs_sent = [], cs_tries = 0\<rparr>"
  show ?thesis
  proof (cases "up 0")
    case False
    then show ?thesis by (simp add: run_session_def c client_send_def)
  next
    case True
    let ?k1 = "\<lparr>cs_sent = [signed_hello X args session nonce], cs_tries = 1\<rparr>"
    have "fst (run_session X up runs args session frames)
        = fst (session_loop X up runs session all_supported (ar_heartbeat_secs args) 0 rest ?k1)"
      using True by (simp add: run_session_def c client_send_def signed_hello_def)
    with session_loop_says [of X up runs session all_supported "ar_heartbeat_secs args" 0 rest ?k1]
    obtain segs where g: "cs_sent (fst (run_session X up runs args session frames)) = signed_hello X args session nonce # concat segs"
      "length segs = length (offers_in rest)"
      "\<And>i. i < length segs \<Longrightarrow> prefix (segs ! i) (offer_talk X (runs i) session all_supported (ar_heartbeat_secs args) (offers_in rest ! i))
         \<and> ((\<forall>n. up n) \<longrightarrow> segs ! i = offer_talk X (runs i) session all_supported (ar_heartbeat_secs args) (offers_in rest ! i))"
      by auto
    show ?thesis
      by (intro disjI2 exI [of _ nonce] exI [of _ rest] exI [of _ segs])
        (use c g in \<open>auto simp: Let_def offer_talk_def beats_from_def estimate_progress_bound earner_result_def
            render_seconds_bound [simplified] split: if_splits\<close>)
  qed
qed

text \<open>
  The wait for a challenge is bounded per frame, not as a whole: a coordinator that keeps pinging holds the earner in
  the handshake for as long as it likes, and a challenge is still taken after any time.
\<close>

lemma challenge_wait_unbounded:
  "\<exists>pings. list_all (\<lambda>(w, f). w < CHALLENGE_TIMEOUT_SECS \<and> f = In_Other) pings \<and> sum_list (map fst pings) \<ge> n
     \<and> (\<forall>rest. recv_challenge X (pings @ rest) = recv_challenge X rest)"
proof (intro exI conjI allI)
  let ?pings = "replicate n (29 :: nat, In_Other)"
  show "list_all (\<lambda>(w, f). w < CHALLENGE_TIMEOUT_SECS \<and> f = In_Other) ?pings"
    by (simp add: list_all_iff CHALLENGE_TIMEOUT_SECS_def)
  show "sum_list (map fst ?pings) \<ge> n" by (simp add: sum_list_replicate)
  show "recv_challenge X (?pings @ rest) = recv_challenge X rest" for rest
    by (induction n) (simp_all add: CHALLENGE_TIMEOUT_SECS_def)
qed

end
