(* ===== verification/Earner_Coordinator.thy ===== *)
theory Earner_Coordinator
  imports Earner_Props
begin

section \<open>Earner and coordinator together\<close>

text \<open>
  The earner's messages fed to the coordinator's handlers. What the crates promise is one hypothesis,
  \<open>crates_sound\<close>: hex decodes what it encodes and has two lower-case digits per byte, the two hashes have 32 bytes,
  and a recoverable signature recovers to the signer's key, with a low \<open>s\<close>.
\<close>

subsection \<open>What an honest key signs\<close>

definition crates_sound :: "earner_crates \<Rightarrow> nat list \<Rightarrow> bool" where
  "crates_sound X key \<longleftrightarrow>
     (\<forall>bs. (\<forall>b\<in>set bs. b < 256) \<longrightarrow> hex_decode (ec_mesh X) (hex_encode (ec_mesh X) bs) = Some bs)
     \<and> (\<forall>bs. list_all is_lower_hex (hex_encode (ec_mesh X) bs) \<and> length (hex_encode (ec_mesh X) bs) = 2 * length bs)
     \<and> (\<forall>bs. length (keccak256 (ec_mesh X) bs) = 32) \<and> (\<forall>bs. length (ec_sha256 X bs) = 32)
     \<and> (\<forall>d. length d = 32 \<longrightarrow> (\<exists>sig v s. ec_sign_prehash X key d = (sig, v) \<and> length sig = 64 \<and> (\<forall>b\<in>set sig. b < 256) \<and> v < 256
          \<and> sig_from_slice (ec_mesh X) sig = Some s \<and> \<not> sig_is_high_s (ec_mesh X) s \<and> recid_from_byte (ec_mesh X) v = Some v
          \<and> recover_key (ec_mesh X) d s v = Some (ec_verifying_point X key)))"

definition session_of :: "earner_crates \<Rightarrow> nat list \<Rightarrow> earner_session" where
  "session_of X key = \<lparr>se_signing_key = key, se_address = earner_address_of X (ec_verifying_point X key)\<rparr>"

lemma from_hex_session: "session_from_hex X key_hex = Inr session \<Longrightarrow> session = session_of X (se_signing_key session)"
  by (auto simp: session_from_hex_def session_of_def Let_def split: option.splits)

lemma lower_hex_chars:
  "is_lower_hex c \<Longrightarrow> \<not> is_ascii_upper c \<and> is_ascii_hexdigit c \<and> c \<noteq> CHR ''x''"
proof -
  have "\<not> is_lower_hex (CHR ''x'')" by (simp add: is_lower_hex_def is_ascii_digit_def of_char_def)
  then show "is_lower_hex c \<Longrightarrow> ?thesis"
    by (auto simp: is_lower_hex_def is_ascii_upper_def is_ascii_digit_def is_ascii_hexdigit_def)
qed

lemma lowercase_id: "list_all (\<lambda>c. \<not> is_ascii_upper c) s \<Longrightarrow> to_ascii_lowercase s = s"
  by (induction s) (auto simp: to_ascii_lowercase_def)

lemma strip_lower_hex: "list_all is_lower_hex s \<Longrightarrow> strip_prefix ''0x'' s = None"
proof (cases s)
  case (Cons c t)
  then show "list_all is_lower_hex s \<Longrightarrow> ?thesis" using lower_hex_chars by (cases t) auto
qed simp

lemma address_shape:
  assumes "crates_sound X key"
  shows "canonical_earner_address (se_address (session_of X key)) = se_address (session_of X key)"
    "is_evm_address (se_address (session_of X key))"
proof -
  let ?h = "hex_encode (ec_mesh X) (drop 12 (keccak256 (ec_mesh X) (drop 1 (ec_verifying_point X key))))"
  have h: "list_all is_lower_hex ?h" "length ?h = 40" using assms by (simp_all add: crates_sound_def)
  then have "list_all (\<lambda>c. \<not> is_ascii_upper c) ?h" "list_all is_ascii_hexdigit ?h"
    using lower_hex_chars by (auto simp: list_all_iff)
  then show "canonical_earner_address (se_address (session_of X key)) = se_address (session_of X key)"
    "is_evm_address (se_address (session_of X key))"
    using h by (simp_all add: session_of_def earner_address_of_def canonical_earner_address_def lowercase_id
        is_ascii_upper_def of_char_def is_evm_address_def)
qed

lemma honest_signature:
  assumes "crates_sound X key" "length d = 32"
  shows "signer_of (ec_mesh X) d (sign_digest X (session_of X key) d) (se_address (session_of X key))"
proof -
  obtain sig v s where g: "ec_sign_prehash X key d = (sig, v)" "length sig = 64" "\<forall>b\<in>set sig. b < 256" "v < 256"
    "sig_from_slice (ec_mesh X) sig = Some s" "\<not> sig_is_high_s (ec_mesh X) s" "recid_from_byte (ec_mesh X) v = Some v"
    "recover_key (ec_mesh X) d s v = Some (ec_verifying_point X key)"
    using assms unfolding crates_sound_def by blast
  let ?hex = "hex_encode (ec_mesh X) (sig @ [v])"
  have "hex_decode (ec_mesh X) ?hex = Some (sig @ [v])" "list_all is_lower_hex ?hex"
    using assms(1) g(3,4) by (auto simp: crates_sound_def)
  moreover have "address_from_verifying_key (ec_mesh X) (ec_verifying_point X key) = se_address (session_of X key)"
    by (simp add: address_from_verifying_key_def session_of_def earner_address_of_def)
  ultimately show ?thesis
    unfolding signer_of_def using g address_shape(1) [OF assms(1)]
    by (intro exI [of _ "sig @ [v]"] exI [of _ s] exI [of _ v] exI [of _ "ec_verifying_point X key"])
      (simp add: strip_lower_hex sign_digest_def session_of_def nth_append)
qed

lemma digest_lengths:
  assumes "crates_sound X key"
  shows "length (hello_digest (ec_mesh X) a g v ks n) = 32" "length (signing_digest (ec_mesh X) i h) = 32"
  using assms by (simp_all add: crates_sound_def hello_digest_def signing_digest_def)

lemma honest_hello:
  assumes "crates_sound X key" "length (ar_gpu_model args) \<le> MAX_GPU_MODEL_LEN" "0 < ar_vram_gb args" "ar_vram_gb args \<le> MAX_VRAM_GB"
  defines "session \<equiv> session_of X key"
  shows "validate_hello (ec_mesh X) (se_address session) (ar_gpu_model args) (ar_vram_gb args) all_supported nonce
    (sign_hello X session (ar_gpu_model args) (ar_vram_gb args) all_supported nonce) = Inr ()"
  using assms(2-4) address_shape [OF assms(1)] honest_signature [OF assms(1) digest_lengths(1) [OF assms(1)]]
  by (simp add: validate_hello_iff session_def sign_hello_def all_supported_def job_kind_ALL_def)

lemma memory_url_fetchable: "rest \<noteq> [] \<Longrightarrow> is_fetchable_url (''memory://'' @ rest)"
  by (cases rest) (simp_all add: is_fetchable_url_def split_once.simps is_ascii_alphanumeric_def is_ascii_lower_def of_char_def)

lemma honest_result:
  assumes "crates_sound X key" "ec_uuid_text X (js_id job) \<noteq> []"
  shows "gates_pass (ec_mesh X) (earner_result X (session_of X key) job output elapsed)"
proof -
  let ?h = "hex_encode (ec_mesh X) (ec_sha256 X output)"
  have h: "list_all is_lower_hex ?h" "length ?h = 64" using assms(1) by (simp_all add: crates_sound_def)
  have "signer_of (ec_mesh X) (signing_digest (ec_mesh X) (js_id job) ?h) (sign_result X (session_of X key) (js_id job) ?h)
      (se_address (session_of X key))"
    unfolding sign_result_def by (rule honest_signature [OF assms(1) digest_lengths(2) [OF assms(1)]])
  with h address_shape(1) [OF assms(1)] memory_url_fetchable [OF assms(2)] show ?thesis
    using render_seconds_bound(1) [of elapsed]
    by (simp add: gates_pass_def validate_result_def is_digest_hex_def OUTPUT_HASH_LEN_def earner_result_def Let_def)
qed

definition in_time :: "job_spec \<Rightarrow> u64 \<Rightarrow> bool" where
  "in_time job elapsed \<longleftrightarrow> js_deadline_secs job < 2 ^ 32 \<and> elapsed \<le> 2 * js_deadline_secs job"

lemma in_time_plausible:
  "in_time job elapsed \<Longrightarrow> validate_render_seconds (jr_render_seconds (earner_result X session job output elapsed)) (js_deadline_secs job) = Inr ()"
  by (auto simp: in_time_def validate_render_seconds_def earner_result_def render_seconds_charged_def RENDER_SECONDS_DEADLINE_SLACK_def
      Let_def)

subsection \<open>A whole exchange over a socket\<close>

definition flying :: "mesh_crates \<Rightarrow> store \<Rightarrow> job_spec \<Rightarrow> i64 \<Rightarrow> bool" where
  "flying M S job n \<longleftrightarrow> store_ok M S \<and> job_status_of (js_id job) S = Some In_Flight
     \<and> current_dispatch_seq (js_id job) S = Some n \<and> get_job (js_id job) S = Some job"

lemma take_next_flying:
  assumes "store_ok M S" "take_next_inner h a now S = (S', Some (job, n))"
  shows "flying M S' job n \<and> a job"
proof -
  obtain r where r: "r \<in> set (st_jobs S)" "a (j_spec r)" "j_spec r = job" "n = j_dispatch_seq r + 1"
    "S' = S\<lparr>st_jobs := update_where (\<lambda>q. j_id q = j_id r) (dispatch_row h n now) (st_jobs S)\<rparr>"
    using assms(2) by (rule take_next_found)
  have "js_id job = j_id r" "find_row j_id (j_id r) (st_jobs S) = Some r"
    using assms(1) r(1,3) store_ok_row [OF assms(1) r(1)] by (auto simp: store_ok_def job_row_ok_def)
  moreover have "store_ok M S'"
    using store_step_ok [OF Take_Next [of M S h a now] assms(1)] assms(2) by simp
  ultimately show ?thesis
    using r by (simp add: flying_def job_status_of_def current_dispatch_seq_def get_job_def find_row_update dispatch_row_def)
qed

lemma touch_flying: "flying M S job n \<Longrightarrow> flying M (fst (touch i m now p S)) job n"
proof -
  assume a: "flying M S job n"
  have "store_ok M (fst (touch i m now p S))"
    using a store_step_ok [OF Touch [of M S i m now p]] by (simp add: flying_def)
  moreover obtain z where z: "find_row j_id (js_id job) (st_jobs S) = Some z" "j_status z = In_Flight" "j_dispatch_seq z = n"
    "j_spec z = job"
    using a by (auto simp: flying_def job_status_of_def current_dispatch_seq_def get_job_def)
  ultimately show ?thesis
    by (simp add: flying_def touch_def Let_def job_status_of_def current_dispatch_seq_def get_job_def find_row_update)
qed

definition still :: "env \<Rightarrow> bool" where
  "still E \<longleftrightarrow> (\<forall>k t. e_turn E k t = t)"

text \<open>The coordinator hears messages in order, each in an environment of its own, and answers some.\<close>

fun hears :: "mesh_crates \<Rightarrow> (env \<times> earner_msg) list \<Rightarrow> app_state \<times> ws_session \<Rightarrow>
    (app_state \<times> ws_session) \<times> coordinator_msg list" where
  "hears M [] st = (st, [])"
| "hears M ((E, msg) # ems) st =
     (let (st1, m) = ws_message M E msg st; (st2, ms) = hears M ems st1
      in (st2, (case m of Some r \<Rightarrow> [r] | None \<Rightarrow> []) @ ms))"

lemma hears_append:
  "hears M (a @ b) st = (let (st1, ms1) = hears M a st; (st2, ms2) = hears M b st1 in (st2, ms1 @ ms2))"
  by (induction a arbitrary: st) (auto simp: Let_def split: prod.splits)

lemma hears_accept:
  assumes "still E" "ws_offered w = Some (job, n)"
  shows "ws_message M E (Msg_Accept (js_id job)) (s, w) = ((bump_last_seen (ws_earner w) (e_clock E 2) s, w\<lparr>ws_accepted := True\<rparr>), None)"
  using assms by (simp add: ws_message_def still_def)

lemma hears_beats:
  assumes "ws_offered w = Some (job, n)" "flying M (as_store s) job n" "\<forall>(E, msg)\<in>set ems. still E"
    "map snd ems = beats_from job period due late"
  shows "\<exists>s'. hears M ems (s, w) = ((s', w), []) \<and> flying M (as_store s') job n"
  using assms(2-4)
proof (induction ems arbitrary: s due late)
  case (Cons em ems)
  obtain E msg where em: "em = (E, msg)" by (cases em)
  then obtain l ls where l: "late = l # ls" using Cons.prems(3) by (cases late) auto
  have msg: "msg = Msg_Heartbeat (Some (js_id job)) (estimate_progress (due + l) (js_deadline_secs job))"
    and rest: "map snd ems = beats_from job period (due + period) ls" using Cons.prems(3) by (simp_all add: em l)
  obtain s1 where s1: "ws_message M E msg (s, w) = ((s1, w), None)" "flying M (as_store s1) job n"
    using assms(1) Cons.prems(1,2) touch_flying
    by (simp add: ws_message_def em msg still_def)
  from Cons.IH [OF s1(2) _ rest] Cons.prems(2) show ?case by (auto simp: em s1(1))
qed simp

lemma hears_submit:
  assumes "still E" "ws_offered w = Some (job, n)" "ws_accepted w" "flying M (as_store s) job n"
    "gates_pass M r" "jr_job_id r = js_id job" "validate_render_seconds (jr_render_seconds r) (js_deadline_secs job) = Inr ()"
    "ws_earner w = jr_earner_address r" "canonical_earner_address (jr_earner_address r) = jr_earner_address r"
  shows "\<exists>s'. ws_message M E (Msg_Submit r) (s, w) = ((s', w\<lparr>ws_offered := None, ws_accepted := False\<rparr>),
      Some (Msg_Accepted (js_id job) PLACEHOLDER_ATTESTATION_UID))
    \<and> job_status_of (js_id job) (as_store s') = Some Done \<and> get_result (js_id job) (as_store s') = Some r"
proof -
  let ?s = "bump_last_seen (ws_earner w) (e_clock E 2) s"
  have g: "session_gates M (Some (job, n)) True r (ws_earner w)" using assms by (simp add: session_gates_def)
  have f: "folded_result r = r" using assms(9) by (simp add: folded_result_def)
  have x: "snd (ws_settle_section M n r (e_clock E 0) (as_store s))"
    using ws_settle_section_exact(1) assms(4,6) by (simp add: flying_def)
  have st: "job_status_of (jr_job_id r) (fst (ws_settle_section M n r (e_clock E 0) (as_store s))) = Some Done"
    "get_result (jr_job_id r) (fst (ws_settle_section M n r (e_clock E 0) (as_store s))) = Some r"
    using settle_lookups(1,2) [OF _ _ ws_settle_section_exact(2) [OF x]] assms(4,6) by (simp_all add: flying_def)
  have h: "handle_submit M E (Some (job, n)) True r (ws_earner w) ?s =
      (?s\<lparr>as_store := fst (ws_settle_section M n r (e_clock E 0) (as_store s))\<rparr>,
       Accepted_Outcome (Msg_Accepted (js_id job) PLACEHOLDER_ATTESTATION_UID))"
    using handle_submit_eq [OF g, of E ?s] assms(1,6) x by (simp add: f still_def)
  show ?thesis
    using assms(1,2,3) st assms(4,6) by (simp add: ws_message_def ws_submit_def h still_def reply_def flying_def)
qed

text \<open>
  Property C22. An honest earner gets paid over a socket. When the coordinator offers a job to a session of an honest
  earner and the offer is delivered, the earner charges at most the accepted slack of twice the deadline and none of
  its sends fails, then the coordinator, hearing exactly what the earner sends, with no other task in between (no
  reaper that takes the job back at its deadline, in particular), answers once, accepting; the job is done, with the earner's own result, and the session holds no offer any more.
\<close>

theorem honest_session_is_settled:
  assumes "crates_sound X key" "store_ok (ec_mesh X) (as_store s)" "ws_offered w = None"
    "ws_earner w = se_address (session_of X key)" "ws_supported w = all_supported"
    "ws_offer E True (s, w) = ((s1, w1), True)" "ws_offered w1 = Some (job, n)" "still E"
    "ec_uuid_text X (js_id job) \<noteq> []" "in_time job (rn_elapsed run)"
    "fst (handle_offer X (\<lambda>_. True) run (session_of X key) all_supported job hb \<lparr>cs_sent = [], cs_tries = 0\<rparr>) = k"
    "map snd ems = cs_sent k" "\<forall>(E, msg)\<in>set ems. still E"
  shows "\<exists>s2. hears (ec_mesh X) ems (s1, w1) = ((s2, w1\<lparr>ws_offered := None, ws_accepted := False\<rparr>),
        [Msg_Accepted (js_id job) PLACEHOLDER_ATTESTATION_UID])
    \<and> job_status_of (js_id job) (as_store s2) = Some Done
    \<and> get_result (js_id job) (as_store s2) = Some (earner_result X (session_of X key) job (rendered job) (rn_elapsed run))"
proof -
  let ?M = "ec_mesh X" and ?r = "earner_result X (session_of X key) job (rendered job) (rn_elapsed run)"
  let ?p = "heartbeat_period hb"
  obtain S' where t: "take_next_inner (Some (ws_earner w)) (\<lambda>j. List.member (ws_supported w) (js_kind j) \<and> \<not> List.member (ws_faulted w) (js_id j))
        (e_clock E 0) (as_store s) = (S', Some (job, n))" "s1 = s\<lparr>as_store := S'\<rparr>"
    "w1 = w\<lparr>ws_offered := Some (job, n), ws_accepted := False\<rparr>"
    using assms(3,6,7,8)
    by (auto simp: ws_offer_def take_supported_job_def on_store_def take_next_for_def still_def split: prod.splits option.splits)
  have fl: "flying ?M (as_store s1) job n" "List.member all_supported (js_kind job)"
    using take_next_flying [OF assms(2) t(1)] t(2) assms(5) by auto
  have "cs_sent k = offer_talk X run (session_of X key) all_supported hb job"
    using handle_offer_says [of "\<lambda>_. True" "\<lparr>cs_sent = [], cs_tries = 0\<rparr>" X run "session_of X key" all_supported job hb] assms(11)
    by (auto simp: says_def)
  then have talk: "map snd ems = Msg_Accept (js_id job) # beats_from job ?p ?p (rn_late run) @ [Msg_Submit ?r]"
    using fl(2) assms(12) by (simp add: offer_talk_def)
  then obtain Ea bs Es where ems: "ems = (Ea, Msg_Accept (js_id job)) # bs @ [(Es, Msg_Submit ?r)]"
    "map snd bs = beats_from job ?p ?p (rn_late run)"
    by (auto simp: map_eq_Cons_conv map_eq_append_conv)
  let ?w = "w1\<lparr>ws_accepted := True\<rparr>" and ?s = "bump_last_seen (ws_earner w1) (e_clock Ea 2) s1"
  obtain s2 where s2: "hears ?M bs (?s, ?w) = ((s2, ?w), [])" "flying ?M (as_store s2) job n"
    using hears_beats [of ?w job n ?M ?s bs ?p ?p "rn_late run"] assms(7,13) fl(1) ems by auto
  obtain s3 where s3: "ws_message ?M Es (Msg_Submit ?r) (s2, ?w) = ((s3, ?w\<lparr>ws_offered := None, ws_accepted := False\<rparr>),
      Some (Msg_Accepted (js_id job) PLACEHOLDER_ATTESTATION_UID))"
    "job_status_of (js_id job) (as_store s3) = Some Done" "get_result (js_id job) (as_store s3) = Some ?r"
    using hears_submit [of Es ?w job n ?M s2 ?r] s2(2) honest_result [OF assms(1,9)] in_time_plausible [OF assms(10)]
      address_shape(1) [OF assms(1)] assms(4,7,13) t(3) by (auto simp: ems(1) earner_result_def Let_def)
  have "ws_message ?M Ea (Msg_Accept (js_id job)) (s1, w1) = ((?s, ?w), None)"
    using assms(7,13) by (intro hears_accept) (auto simp: ems(1))
  then show ?thesis using s2(1) s3 by (simp add: ems(1) hears_append)
qed

end
