(* ===== verification/Earner_Http.thy ===== *)
theory Earner_Http
  imports Earner_Coordinator
begin

section \<open>The HTTP transport, end to end\<close>

text \<open>
  The four routes an earner uses, as a server for the earner's HTTP client: the router's paths, the
  extraction of a path's UUID and of the JSON body, the status of a refusal, and the headers of an answer. Each
  request is handled in the next environment; answers arrive at once, in one chunk. \<open>enc\<close> is the JSON encoder of
  \<^verbatim>\<open>/jobs/next\<close>. The body limits and timeouts of the router are left out.
\<close>

definition status_code :: "http_status \<Rightarrow> nat" where
  "status_code e = (case e of
       BAD_REQUEST \<Rightarrow> 400 | UNAUTHORIZED \<Rightarrow> 401 | NOT_FOUND \<Rightarrow> 404 | CONFLICT \<Rightarrow> 409 | UNPROCESSABLE_ENTITY \<Rightarrow> 422
     | TOO_MANY_REQUESTS \<Rightarrow> 429 | INTERNAL_SERVER_ERROR \<Rightarrow> 500 | SERVICE_UNAVAILABLE \<Rightarrow> 503)"

definition respond :: "nat \<Rightarrow> header_map \<Rightarrow> nat list \<Rightarrow> http_response" where
  "respond status hs body = \<lparr>rp_status = status, rp_headers = hs, rp_connect_secs = 0, rp_head_secs = 0, rp_chunks = [Some (0, body)]\<rparr>"

definition answer :: "(http_status + 'a) \<Rightarrow> ('a \<Rightarrow> http_response) \<Rightarrow> http_response" where
  "answer r ok = (case r of Inl e \<Rightarrow> respond (status_code e) [] [] | Inr x \<Rightarrow> ok x)"

definition submit_path :: "earner_crates \<Rightarrow> string \<Rightarrow> uuid option" where
  "submit_path X path = (case split_on (CHR ''/'') path of
       [e, jobs, i, sub] \<Rightarrow> if e = [] \<and> jobs = ''jobs'' \<and> sub = ''submit'' then ec_uuid_parse X i else None
     | _ \<Rightarrow> None)"

definition serve_post :: "earner_crates \<Rightarrow> ip_text \<Rightarrow> ip_addr \<Rightarrow> env \<Rightarrow> string \<Rightarrow> header_map \<Rightarrow> request_body \<Rightarrow> app_state \<Rightarrow> app_state \<times> http_response" where
  "serve_post X T peer E path hs body s =
     (if path = ''/register'' then
        (case body of
           Json_Hello msg \<Rightarrow> (case register (ec_mesh X) T E peer hs msg s of
               (s', r) \<Rightarrow> (s', answer r (\<lambda>token. respond 200 [(''x-poll-token'', token)] (str_bytes ''registered''))))
         | _ \<Rightarrow> (s, respond 422 [] []))
      else case submit_path X path of
        None \<Rightarrow> (s, respond 404 [] [])
      | Some i \<Rightarrow>
          (case body of
             Json_Result result \<Rightarrow> (case submit (ec_mesh X) E i hs result s of
                 (s', r) \<Rightarrow> (s', answer r (\<lambda>_. respond 200 [] (str_bytes ''accepted''))))
           | _ \<Rightarrow> (s, respond 422 [] [])))"

definition serve_get ::
  "earner_crates \<Rightarrow> (job_spec option \<Rightarrow> nat list) \<Rightarrow> env \<Rightarrow> string \<Rightarrow> (string \<times> string) list \<Rightarrow> header_map \<Rightarrow> app_state \<Rightarrow> app_state \<times> http_response" where
  "serve_get X enc E path query hs s =
     (if path = ''/register/challenge'' then
        (case register_challenge (ec_mesh X) E s of
           (s', r) \<Rightarrow> (s', answer r (\<lambda>nonce. respond 200 [(''x-register-challenge'', nonce)] [])))
      else if path = ''/jobs/next'' then
        (case next_job E hs (map_of query ''earner'') s of
           (s', Some (job, seq)) \<Rightarrow> (s', respond 200 [(''x-dispatch-seq'', decimal_int seq)] (enc (Some job)))
         | (s', None) \<Rightarrow> (s', respond 200 [] (enc None)))
      else (s, respond 404 [] []))"

definition coordinator_http ::
  "earner_crates \<Rightarrow> (job_spec option \<Rightarrow> nat list) \<Rightarrow> ip_text \<Rightarrow> ip_addr \<Rightarrow> string \<Rightarrow> (nat \<Rightarrow> env) \<Rightarrow> (nat \<times> app_state) server" where
  "coordinator_http X enc T peer base E rq ns =
     (let (n, s) = ns in
      case strip_prefix base (rq_url rq) of
        None \<Rightarrow> (ns, None)
      | Some path \<Rightarrow>
          let (s', rp) = (if rq_post rq then serve_post X T peer (E n) path (rq_headers rq) (rq_body rq) s
                          else serve_get X enc (E n) path (rq_query rq) (rq_headers rq) s)
          in ((n + 1, s'), Some rp))"

subsection \<open>Paths and numbers\<close>

lemma strip_prefix_append [simp]: "strip_prefix p (p @ s) = Some s"
  by (induction p) auto

lemma split_on_nonempty: "split_on d s \<noteq> []"
  by (induction s) (auto split: list.splits)

lemma split_on_append:
  "d \<notin> set a \<Longrightarrow> split_on d (a @ d # b) = a # split_on d b"
  by (induction a) auto

lemma split_on_plain: "d \<notin> set a \<Longrightarrow> split_on d a = [a]"
  by (induction a) auto

definition plain_uuid :: "earner_crates \<Rightarrow> uuid \<Rightarrow> bool" where
  "plain_uuid X i \<longleftrightarrow> ec_uuid_text X i \<noteq> [] \<and> CHR ''/'' \<notin> set (ec_uuid_text X i) \<and> ec_uuid_parse X (ec_uuid_text X i) = Some i"

lemma submit_path_text:
  assumes "plain_uuid X i"
  shows "submit_path X (''/jobs/'' @ ec_uuid_text X i @ ''/submit'') = Some i"
proof -
  let ?t = "ec_uuid_text X i"
  have t: "CHR ''/'' \<notin> set ?t" using assms by (simp add: plain_uuid_def)
  have "split_on (CHR ''/'') (''/jobs/'' @ ?t @ ''/submit'') = [[], ''jobs''] @ split_on (CHR ''/'') (?t @ CHR ''/'' # ''submit'')"
    using split_on_append [of "CHR ''/''" "''jobs''" "?t @ ''/submit''"] by simp
  also have "\<dots> = [[], ''jobs'', ?t, ''submit'']" using split_on_append [OF t, of "''submit''"] by simp
  finally show ?thesis using assms by (simp add: submit_path_def plain_uuid_def)
qed

lemma digit_facts: "is_ascii_digit c \<Longrightarrow> c \<noteq> CHR ''-'' \<and> c \<noteq> CHR ''+'' \<and> 32 \<le> (of_char c :: nat) \<and> (of_char c :: nat) \<le> 126"
proof -
  have "\<not> is_ascii_digit (CHR ''-'')" "\<not> is_ascii_digit (CHR ''+'')" by (simp_all add: is_ascii_digit_def of_char_def)
  then show "is_ascii_digit c \<Longrightarrow> ?thesis" by (auto simp: is_ascii_digit_def)
qed

lemma decimal_header: "header_text (decimal n) = Some (decimal n)"
  using decimal_digits [of n] digit_facts by (auto simp: header_text_def list_all_iff)

lemma decimal_int_header:
  assumes "- (2 ^ 63) \<le> n" "n < 2 ^ 63"
  shows "Option.bind (header_str [(''x-dispatch-seq'', decimal_int n)] ''x-dispatch-seq'') parse_i64 = Some n"
proof -
  have "32 \<le> (of_char (CHR ''-'') :: nat) \<and> (of_char (CHR ''-'') :: nat) \<le> 126" by (simp add: of_char_def)
  moreover have "is_ascii_digit c \<Longrightarrow> 32 \<le> (of_char c :: nat) \<and> (of_char c :: nat) \<le> 126" for c using digit_facts by blast
  ultimately have h: "header_text (decimal_int n) = Some (decimal_int n)"
    using decimal_digits [of "nat (- n)"] decimal_digits [of "nat n"]
    by (simp add: decimal_int_def header_text_def list_all_iff)
  have "parse_i64 (decimal_int n) = Some n"
  proof (cases "n < 0")
    case True
    then show ?thesis using assms decimal_digits [of "nat (- n)"] by (simp add: decimal_int_def parse_i64_def)
  next
    case False
    obtain c r where d: "decimal (nat n) = c # r" using decimal_digits [of "nat n"] by (cases "decimal (nat n)") auto
    then have "c \<noteq> CHR ''-''" "c \<noteq> CHR ''+''" using decimal_digits [of "nat n"] digit_facts by auto
    then show ?thesis
      using False assms decimal_digits [of "nat n"] decimal_value_decimal [of "nat n"] by (simp add: decimal_int_def parse_i64_def d)
  qed
  with h show ?thesis by (simp add: header_str_def header_get_def)
qed

subsection \<open>One poll\<close>

lemma respond_simps [simp]:
  "rp_status (respond st hs body) = st" "rp_headers (respond st hs body) = hs" "rp_connect_secs (respond st hs body) = 0"
  "rp_head_secs (respond st hs body) = 0" "rp_chunks (respond st hs body) = [Some (0, body)]"
  by (simp_all add: respond_def)

lemma http_send_get:
  assumes "ar_coordinator args = base"
  shows "http_send (http_client a b) (coordinator_http X enc T peer base E) (poll_request args session token) (n, s) =
    (case next_job (E n) (rq_headers (poll_request args session token)) (Some (se_address session)) s of
       (s1, Some (job, seq)) \<Rightarrow> ((n + 1, s1), Inr (respond 200 [(''x-dispatch-seq'', decimal_int seq)] (enc (Some job))))
     | (s1, None) \<Rightarrow> ((n + 1, s1), Inr (respond 200 [] (enc None))))"
  using assms
  by (auto simp: http_send_def coordinator_http_def serve_get_def poll_request_def http_client_def split: prod.splits option.splits)

lemma http_send_submit:
  assumes "ar_coordinator args = base" "submit_path X (''/jobs/'' @ ec_uuid_text X (jr_job_id r) @ ''/submit'') = Some i"
  shows "http_send (http_client a b) (coordinator_http X enc T peer base E) (submit_request X args seq r) (n, s) =
    (case submit (ec_mesh X) (E n) i [(''x-dispatch-seq'', decimal_int seq)] r s of
       (s1, y) \<Rightarrow> ((n + 1, s1), Inr (answer y (\<lambda>_. respond 200 [] (str_bytes ''accepted'')))))"
proof -
  have "\<not> rp_head_secs (answer y (\<lambda>_. respond 200 [] bs)) > 0" "\<not> rp_connect_secs (answer y (\<lambda>_. respond 200 [] bs)) > 0" for y :: "http_status + unit" and bs
    by (cases y; simp add: answer_def)+
  then show ?thesis
    using assms by (simp add: http_send_def coordinator_http_def serve_post_def submit_request_def http_client_def split: prod.splits)
qed

lemma http_send_submit_nowhere:
  assumes "ar_coordinator args = base" "submit_path X (''/jobs/'' @ ec_uuid_text X (jr_job_id r) @ ''/submit'') = None"
  shows "http_send (http_client a b) (coordinator_http X enc T peer base E) (submit_request X args seq r) (n, s) =
    ((n + 1, s), Inr (respond 404 [] []))"
  using assms by (simp add: http_send_def coordinator_http_def serve_post_def submit_request_def http_client_def)

lemma read_one_chunk:
  "read_body (http_client a b) (rp_chunks (respond c hs body)) [] = (if length body > MAX_RESPONSE_BODY_BYTES then Inl Body_Too_Large else Inr body)"
  by simp

lemma next_job_taken:
  assumes "next_job E hs who s = (s1, out)" "still E"
  shows "\<exists>accept. take_next_inner None accept (e_clock E 1) (as_store s) = (as_store s1, out)"
    "map fst (as_earners s1) = map fst (as_earners s)"
proof -
  obtain s0 accept where "on_store (take_next accept (e_clock E 1)) s0 = (s1, out)" "as_store s0 = as_store s"
    "map fst (as_earners s0) = map fst (as_earners s)"
    using assms by (auto simp: next_job_def still_def Let_def split: option.splits if_splits)
  then show "\<exists>accept. take_next_inner None accept (e_clock E 1) (as_store s) = (as_store s1, out)"
    "map fst (as_earners s1) = map fst (as_earners s)"
    by (auto simp: on_store_def take_next_def split: prod.splits)
qed

lemma registered_iff: "map fst es = map fst es' \<Longrightarrow> map_of es a = None \<longleftrightarrow> map_of es' a = None"
  by (metis map_of_eq_None_iff list.set_map)

definition poll_at ::
  "earner_crates \<Rightarrow> (job_spec option \<Rightarrow> nat list) \<Rightarrow> ip_text \<Rightarrow> ip_addr \<Rightarrow> (nat \<Rightarrow> env) \<Rightarrow> earner_args \<Rightarrow> earner_session \<Rightarrow>
     string option \<Rightarrow> u64 \<Rightarrow> nat \<times> app_state \<Rightarrow> (nat \<times> app_state) \<times> (earner_error + bool)" where
  "poll_at X enc T peer E args session token elapsed ns =
     poll_once X (http_client HTTP_REQUEST_TIMEOUT HTTP_CONNECT_TIMEOUT)
       (coordinator_http X enc T peer (ar_coordinator args) E) args session all_supported token elapsed ns"

definition readable :: "earner_crates \<Rightarrow> (job_spec option \<Rightarrow> nat list) \<Rightarrow> job_spec \<Rightarrow> bool" where
  "readable X enc job \<longleftrightarrow> ec_next_from_slice X (enc (Some job)) = Some (Some job) \<and> length (enc (Some job)) \<le> MAX_RESPONSE_BODY_BYTES
     \<and> plain_uuid X (js_id job)"

lemma all_kinds: "k \<in> set all_supported"
  by (cases k) (simp_all add: all_supported_def job_kind_ALL_def)

lemma poll_submits:
  assumes "next_job (E n) (rq_headers (poll_request args session token)) (Some (se_address session)) s = (s1, Some (job, seq))"
    "readable X enc job" "- (2 ^ 63) \<le> seq" "seq < 2 ^ 63"
    "r = earner_result X session job (rendered job) elapsed"
  shows "poll_at X enc T peer E args session token elapsed (n, s) =
    (case submit (ec_mesh X) (E (n + 1)) (js_id job) [(''x-dispatch-seq'', decimal_int seq)] r s1 of
       (s2, y) \<Rightarrow> ((n + 2, s2), Inr (y = Inr ())))"
proof -
  have id: "jr_job_id r = js_id job" by (simp add: assms(5) earner_result_def Let_def)
  then have path: "submit_path X (''/jobs/'' @ ec_uuid_text X (jr_job_id r) @ ''/submit'') = Some (js_id job)"
    using assms(2) submit_path_text by (simp add: readable_def)
  have st: "is_success (rp_status (answer y (\<lambda>_. respond 200 [] bs))) \<longleftrightarrow> y = Inr ()" for y :: "http_status + unit" and bs
    by (cases y) (simp_all add: answer_def is_success_def status_code_def split: http_status.splits)
  show ?thesis
    unfolding poll_at_def poll_once_def http_send_get [OF refl] assms(1) Let_def prod.case sum.case option.case read_one_chunk
    using assms(2-4) decimal_int_header [OF assms(3,4)]
    by (simp add: readable_def all_kinds runner_total assms(5) [symmetric] http_send_submit [OF refl path] keep_polling_after_submit_def
        st split: prod.splits)
qed

text \<open>
  What the coordinator's other tasks may do while a handler waits for a lock: anything, as long as the store stays
  consistent, this earner stays registered, this job stays in flight under this number, and a finished job
  keeps its result. The reaper breaks the second when the earner was last seen longer ago than the earner TTL, and the
  third when the job is held past its deadline.
\<close>

definition harmless :: "mesh_crates \<Rightarrow> string \<Rightarrow> job_spec \<Rightarrow> i64 \<Rightarrow> env \<Rightarrow> bool" where
  "harmless M address job seq E \<longleftrightarrow> (\<forall>k t.
     (store_ok M (as_store t) \<longrightarrow> store_ok M (as_store (e_turn E k t)))
     \<and> (map_of (as_earners t) address \<noteq> None \<longrightarrow> map_of (as_earners (e_turn E k t)) address \<noteq> None)
     \<and> (flying M (as_store t) job seq \<longrightarrow> flying M (as_store (e_turn E k t)) job seq)
     \<and> (\<forall>r. job_status_of (js_id job) (as_store t) = Some Done \<and> get_result (js_id job) (as_store t) = Some r \<longrightarrow>
          job_status_of (js_id job) (as_store (e_turn E k t)) = Some Done \<and> get_result (js_id job) (as_store (e_turn E k t)) = Some r))"

lemma harmlessD:
  assumes "harmless M address job seq E"
  shows "store_ok M (as_store t) \<Longrightarrow> store_ok M (as_store (e_turn E k t))"
    "map_of (as_earners t) address \<noteq> None \<Longrightarrow> map_of (as_earners (e_turn E k t)) address \<noteq> None"
    "flying M (as_store t) job seq \<Longrightarrow> flying M (as_store (e_turn E k t)) job seq"
    "job_status_of (js_id job) (as_store t) = Some Done \<Longrightarrow> get_result (js_id job) (as_store t) = Some r \<Longrightarrow>
     job_status_of (js_id job) (as_store (e_turn E k t)) = Some Done \<and> get_result (js_id job) (as_store (e_turn E k t)) = Some r"
  using assms by (auto simp: harmless_def)

lemma still_harmless: "still E \<Longrightarrow> harmless M address job seq E"
  by (simp add: still_def harmless_def)

text \<open>A hand-out under harmless tasks leaves the job in flight and the earner registered.\<close>

lemma handed_out:
  assumes "next_job E hs who s = (s1, Some (job, seq))" "harmless M address job seq E" "store_ok M (as_store s)"
    and "map_of (as_earners s) address \<noteq> None"
  shows "flying M (as_store s1) job seq" "map_of (as_earners s1) address \<noteq> None"
proof -
  note h = harmlessD [OF assms(2)]
  obtain s0 s0' accept where s0: "on_store (take_next accept (e_clock E 1)) (e_turn E 1 s0) = (s1, Some (job, seq))"
    "as_store s0 = as_store s0'" "map fst (as_earners s0) = map fst (as_earners s0')" "s0' = s \<or> s0' = e_turn E 0 s"
    using assms(1) by (auto simp: next_job_def Let_def split: option.splits if_splits)
  have "store_ok M (as_store s0)" using s0(2,4) h(1) [OF assms(3)] assms(3) by auto
  then have ok: "store_ok M (as_store (e_turn E 1 s0))" by (rule h(1))
  have "map_of (as_earners s0') address \<noteq> None" using s0(4) h(2) [OF assms(4)] assms(4) by auto
  then have "map_of (as_earners s0) address \<noteq> None" using registered_iff [OF s0(3)] by metis
  then have known: "map_of (as_earners (e_turn E 1 s0)) address \<noteq> None" by (rule h(2))
  have t: "take_next_inner None accept (e_clock E 1) (as_store (e_turn E 1 s0)) = (as_store s1, Some (job, seq))"
    "as_earners s1 = as_earners (e_turn E 1 s0)"
    using s0(1) by (auto simp: on_store_def take_next_def split: prod.splits)
  show "flying M (as_store s1) job seq" using take_next_flying [OF ok t(1)] by blast
  show "map_of (as_earners s1) address \<noteq> None" using known t(2) by simp
qed

text \<open>
  Property C23. An honest earner gets paid over HTTP, if it is quick enough. A registered, honest earner polls, is handed
  a job it can read and submits its rendering of it, fenced with the number of that very hand-out. Other tasks may
  run at every lock, as long as they leave this job in flight under that number, this earner registered and finished
  jobs alone: a reaper that meanwhile took the job back at its deadline, or dropped an earner not seen for its TTL,
  is excluded. Then, if the charged time is within the accepted slack of twice the deadline, the submission is
  accepted: the job is done, with the earner's own result, and the earner polls again at once.
\<close>

theorem honest_poll_is_settled:
  assumes "crates_sound X key" "session = session_of X key" "store_ok (ec_mesh X) (as_store s)"
    "harmless (ec_mesh X) (se_address session) job seq (E n)" "harmless (ec_mesh X) (se_address session) job seq (E (n + 1))"
    "map_of (as_earners s) (se_address session) \<noteq> None"
    "next_job (E n) (rq_headers (poll_request args session token)) (Some (se_address session)) s = (s1, Some (job, seq))"
    "readable X enc job" "- (2 ^ 63) \<le> seq" "seq < 2 ^ 63" "in_time job elapsed"
  shows "\<exists>s2. poll_at X enc T peer E args session token elapsed (n, s) = ((n + 2, s2), Inr True)
    \<and> job_status_of (js_id job) (as_store s2) = Some Done
    \<and> get_result (js_id job) (as_store s2) = Some (earner_result X session job (rendered job) elapsed)"
proof -
  let ?M = "ec_mesh X" and ?r = "earner_result X session job (rendered job) elapsed" and ?E = "E (n + 1)"
  note handed = handed_out [OF assms(7,4,3,6)] and h = harmlessD [OF assms(5)]
  let ?u = "e_turn ?E 1 (e_turn ?E 0 s1)"
  have fl: "flying ?M (as_store ?u) job seq" by (intro h(3) handed(1))
  have known: "map_of (as_earners (e_turn ?E 0 s1)) (se_address session) \<noteq> None" by (intro h(2) handed(2))
  have a: "canonical_earner_address (jr_earner_address ?r) = se_address session" "jr_job_id ?r = js_id job"
    using address_shape(1) [OF assms(1)] by (simp_all add: assms(2) earner_result_def Let_def)
  have f: "folded_result ?r = ?r" using a(1) by (simp add: folded_result_def earner_result_def Let_def)
  have g: "gates_pass ?M ?r" using honest_result [OF assms(1)] assms(8) by (simp add: assms(2) readable_def plain_uuid_def)
  let ?x = "settle_section ?M (js_id job) seq ?r (e_clock ?E 1) (as_store ?u)"
  have x: "snd ?x = Inr ()"
    using settle_section_exact [OF a(2)] fl in_time_plausible [OF assms(11)] by (auto simp: flying_def)
  have st: "job_status_of (js_id job) (fst ?x) = Some Done" "get_result (js_id job) (fst ?x) = Some ?r"
    using settle_lookups(1,2) [OF _ _ settle_section_ok [OF x]] fl a(2) by (simp_all add: flying_def)
  let ?w = "e_turn ?E 2 (?u\<lparr>as_store := fst ?x\<rparr>)"
  have "submit ?M ?E (js_id job) [(''x-dispatch-seq'', decimal_int seq)] ?r s1 = (bump_last_seen (se_address session) (e_clock ?E 2) ?w, Inr ())"
    unfolding submit_eq [OF a(2) decimal_int_header [OF assms(9,10)] g, of ?E s1] a(1) f Let_def
    using known x by (auto simp: on_store_def split: prod.splits)
  moreover have "job_status_of (js_id job) (as_store ?w) = Some Done \<and> get_result (js_id job) (as_store ?w) = Some ?r"
    by (rule h(4)) (use st in simp_all)
  ultimately show ?thesis using poll_submits [where E = E, OF assms(7,8,9,10) refl] by simp
qed

lemma submit_stranger:
  assumes "still E" "map_of (as_earners s) (canonical_earner_address (jr_earner_address r)) = None"
  shows "fst (submit M E i hs r s) = s" "snd (submit M E i hs r s) \<noteq> Inr ()"
  using assms by (auto simp: submit_def Let_def still_def split: option.splits sum.splits)

text \<open>
  An earner that is not registered works for nothing, and at the jobs' cost. Whenever its poll is
  handed a job, the coordinator puts the job in flight and charges it an attempt, the earner renders it,
  and the submission is refused whatever it holds; the job stays in flight until a reaper takes it back.
  The poll leaves the earner unregistered, so the next one meets the same fate.
\<close>

theorem unregistered_poll_burns_attempt:
  assumes "map_of (as_earners s) (canonical_earner_address (se_address session)) = None" "store_ok (ec_mesh X) (as_store s)"
    "still (E n)" "still (E (n + 1))"
    "next_job (E n) (rq_headers (poll_request args session token)) (Some (se_address session)) s = (s1, Some (job, seq))"
    "readable X enc job" "- (2 ^ 63) \<le> seq" "seq < 2 ^ 63"
    "find_row j_id (js_id job) (st_jobs (as_store s)) = Some row"
  shows "\<exists>s2 row'. poll_at X enc T peer E args session token elapsed (n, s) = ((n + 2, s2), Inr False)
    \<and> find_row j_id (js_id job) (st_jobs (as_store s2)) = Some row' \<and> j_status row = Queued \<and> j_status row' = In_Flight
    \<and> j_attempts row' = j_attempts row + 1
    \<and> map_of (as_earners s2) (canonical_earner_address (se_address session)) = None"
proof -
  let ?r = "earner_result X session job (rendered job) elapsed"
  obtain accept where t: "take_next_inner None accept (e_clock (E n) 1) (as_store s) = (as_store s1, Some (job, seq))"
    "map fst (as_earners s1) = map fst (as_earners s)"
    using next_job_taken [OF assms(5,3)] by blast
  have none: "map_of (as_earners s1) (canonical_earner_address (jr_earner_address ?r)) = None"
    using registered_iff [OF t(2)] assms(1) by (simp add: earner_result_def Let_def)
  obtain q where q: "q \<in> set (st_jobs (as_store s))" "j_status q = Queued" "j_spec q = job"
    "as_store s1 = as_store s\<lparr>st_jobs := update_where (\<lambda>p. j_id p = j_id q) (dispatch_row None seq (e_clock (E n) 1)) (st_jobs (as_store s))\<rparr>"
    using t(1) by (rule take_next_found)
  have "row = q" "js_id job = j_id q"
    using assms(2,9) q(1,3) store_ok_row [OF assms(2) q(1)] by (auto simp: store_ok_def job_row_ok_def)
  then have "find_row j_id (js_id job) (st_jobs (as_store s1)) = Some (dispatch_row None seq (e_clock (E n) 1) row)"
    using assms(9) by (simp add: q(4) find_row_update dispatch_row_def)
  moreover have "poll_at X enc T peer E args session token elapsed (n, s) = ((n + 2, s1), Inr False)"
    using poll_submits [where E = E, OF assms(5,6,7,8) refl] submit_stranger [OF assms(4) none]
    by (simp add: case_prod_beta)
  ultimately show ?thesis
    using q(2) \<open>row = q\<close> none by (simp add: dispatch_row_def earner_result_def Let_def)
qed

subsection \<open>A small world\<close>

definition toy_hands :: earner_crates where
  "toy_hands = \<lparr>ec_mesh = toy_mesh, ec_key_from_slice = Some, ec_verifying_point = (\<lambda>_. 4 # replicate 64 0),
     ec_sign_prehash = (\<lambda>_ _. (replicate 64 0, 0)), ec_sha256 = (\<lambda>bs. take 32 (bs @ replicate 32 0)),
     ec_uuid_text = toy_hex, ec_uuid_parse = toy_unhex,
     ec_next_from_slice = (\<lambda>bs. if bs = [] then Some None else Some (Some toy_job))\<rparr>"

definition toy_enc :: "job_spec option \<Rightarrow> nat list" where
  "toy_enc j = (if j = None then [] else [1])"

lemma toy_digit:
  assumes "n < 16"
  shows "toy_nibble (''0123456789abcdef'' ! n) = n" "is_lower_hex (''0123456789abcdef'' ! n)"
proof -
  have "n \<in> {0, 1, 2, 3, 4, 5, 6, 7, 8, 9, 10, 11, 12, 13, 14, 15}" using assms unfolding insert_iff empty_iff by presburger
  then show "toy_nibble (''0123456789abcdef'' ! n) = n" "is_lower_hex (''0123456789abcdef'' ! n)"
    by (elim insertE; simp add: toy_nibble_def is_lower_hex_def is_ascii_digit_def of_char_def)+
qed

lemma toy_hex_lower: "list_all is_lower_hex (toy_hex bs) \<and> length (toy_hex bs) = 2 * length bs"
  by (induction bs) (simp_all add: toy_hex_def toy_digit(2))

lemma toy_unhex_hex: "\<forall>b\<in>set bs. b < 256 \<Longrightarrow> toy_unhex (toy_hex bs) = Some bs"
proof (induction bs)
  case (Cons b bs)
  have "b div 16 mod 16 = b div 16" "16 * (b div 16) + b mod 16 = b" using Cons.prems by auto
  then show ?case
    using Cons toy_digit(1) [of "b div 16 mod 16"] toy_digit(1) [of "b mod 16"] by (simp add: toy_hex_def)
qed (simp add: toy_hex_def)

lemma toy_sound: "crates_sound toy_hands k"
proof -
  have "min m 32 + (32 - m) = 32" for m :: nat by simp
  then show ?thesis using toy_hex_lower toy_unhex_hex by (simp add: crates_sound_def toy_hands_def toy_mesh_def)
qed

lemma toy_hands_simps [simp]:
  "ec_mesh toy_hands = toy_mesh" "ec_uuid_text toy_hands = toy_hex" "ec_uuid_parse toy_hands = toy_unhex"
  by (simp_all add: toy_hands_def)

lemma toy_session_address: "se_address (session_of toy_hands k) = toy_earner"
  using toy_hex_zeros [of 20]
  by (simp add: session_of_def earner_address_of_def toy_hands_def toy_mesh_def toy_earner_def)

lemma toy_plain: "plain_uuid toy_hands (replicate 16 7)"
proof -
  have "\<not> is_lower_hex (CHR ''/'')" by (simp add: is_lower_hex_def is_ascii_digit_def of_char_def)
  then have "CHR ''/'' \<notin> set (toy_hex (replicate 16 7))"
    using toy_hex_lower [of "replicate 16 7"] by (auto simp: list_all_iff)
  moreover have "toy_hex (replicate 16 7) \<noteq> []" using toy_hex_lower [of "replicate 16 7"] by auto
  ultimately show ?thesis using toy_unhex_hex [of "replicate 16 7"] by (simp add: plain_uuid_def toy_hands_def)
qed

lemma toy_job_simps [simp]: "js_id toy_job = replicate 16 7" "js_kind toy_job = Foliage" "js_deadline_secs toy_job = 60"
  by (simp_all add: toy_job_def)

lemma toy_ready: "readable toy_hands toy_enc toy_job" "in_time toy_job 20"
  using toy_plain by (simp_all add: readable_def toy_hands_def toy_enc_def MAX_RESPONSE_BODY_BYTES_def in_time_def)

lemma toy_queued_ok: "store_ok toy_mesh toy_queued"
  using store_steps_ok [OF toy_steps(1) store_init_ok] .

lemma still_quiet: "still (quiet t)"
  by (simp add: still_def)

definition toy_args :: earner_args where
  "toy_args = \<lparr>ar_coordinator = ''http://c'', ar_session_key = DEV_SESSION_KEY, ar_poll_secs = 5, ar_gpu_model = ''rtx'', ar_vram_gb = 24,
     ar_reconnect_max_secs = 30, ar_mode = Http_Mode, ar_ws = False, ar_heartbeat_secs = 10\<rparr>"

definition toy_world :: "(string \<times> earner_info) list \<Rightarrow> app_state" where
  "toy_world es = (toy_app toy_queued)\<lparr>as_earners := es\<rparr>"

lemma toy_take: "accept toy_job \<Longrightarrow> \<exists>S. take_next_inner h accept 110 toy_queued = (S, Some (toy_job, 1))"
  by (simp add: take_next_inner_def toy_queued_rows new_row_def)

lemma toy_next:
  assumes "es = [] \<or> es = [(toy_earner, (toy_info 100)\<lparr>ei_supported := all_supported\<rparr>)]"
  shows "\<exists>s1. next_job (quiet 110) (rq_headers (poll_request toy_args (session_of toy_hands k) None)) (Some (se_address (session_of toy_hands k)))
    (toy_world es) = (s1, Some (toy_job, 1))"
  using assms all_kinds [of Foliage] toy_take [of "\<lambda>_. True" None] toy_take [of "\<lambda>job. List.member all_supported (js_kind job)" None]
  by (auto simp: next_job_def toy_world_def toy_session_address take_next_def poll_request_def on_store_def bearer_token_def
      header_str_def header_get_def)

theorem reconnect_backoff_doubles_witness:
  "sleeps toy_hands toy_args (session_of toy_hands []) [None, None, None] 0 ! 2 = 4"
proof -
  let ?cs = "[None, None, None] :: connection option list" and ?L = "sleeps toy_hands toy_args (session_of toy_hands []) [None, None, None] 0"
  have m: "ar_reconnect_max_secs toy_args = 30" by (simp add: toy_args_def)
  have n: "?cs ! 0 = None" "?cs ! 1 = None" "?cs ! 2 = None" "length ?cs = 3" by simp_all
  have *: "?L ! i = min (if i = 0 \<or> ?cs ! i \<noteq> None then 1 else 2 * ?L ! (i - 1)) 30" if "i < length ?cs" for i
    using conjunct2 [OF reconnect_backoff_doubles [of toy_args toy_hands "session_of toy_hands []" ?cs]] that m by (simp only:) simp
  from * [of 0] have 0: "?L ! 0 = 1" by (simp only: n) simp
  from * [of 1] have "?L ! 1 = 2" by (simp only: n 0 simp_thms diff_self_eq_0) simp
  with * [of 2] show ?thesis by (simp only: n) simp
qed

theorem honest_poll_is_settled_witness:
  "\<exists>s2. poll_at toy_hands toy_enc toy_text (V4 7) (\<lambda>_. quiet 110) toy_args (session_of toy_hands []) None 20
      (0, toy_world [(toy_earner, (toy_info 100)\<lparr>ei_supported := all_supported\<rparr>)]) = ((2, s2), Inr True)
    \<and> job_status_of (replicate 16 7) (as_store s2) = Some Done"
proof -
  let ?es = "[(toy_earner, (toy_info 100)\<lparr>ei_supported := all_supported\<rparr>)]"
  obtain s1 where n: "next_job (quiet 110) (rq_headers (poll_request toy_args (session_of toy_hands []) None))
      (Some (se_address (session_of toy_hands []))) (toy_world ?es) = (s1, Some (toy_job, 1))"
    using toy_next [of ?es "[]"] by blast
  have "store_ok (ec_mesh toy_hands) (as_store (toy_world ?es))"
    "map_of (as_earners (toy_world ?es)) (se_address (session_of toy_hands [])) \<noteq> None"
    using toy_queued_ok by (simp_all add: toy_world_def toy_session_address)
  from honest_poll_is_settled [OF toy_sound refl this(1) still_harmless [OF still_quiet] still_harmless [OF still_quiet] this(2) n
      toy_ready(1) _ _ toy_ready(2),
      where T = toy_text and peer = "V4 7" and n = 0]
  show ?thesis by (auto simp: numeral_2_eq_2)
qed

theorem unregistered_poll_burns_attempt_witness:
  "\<exists>s2 row. poll_at toy_hands toy_enc toy_text (V4 7) (\<lambda>_. quiet 110) toy_args (session_of toy_hands []) None 20 (0, toy_world [])
      = ((2, s2), Inr False)
    \<and> find_row j_id (replicate 16 7) (st_jobs (as_store s2)) = Some row \<and> j_status row = In_Flight \<and> j_attempts row = 1"
proof -
  obtain s1 where n: "next_job (quiet 110) (rq_headers (poll_request toy_args (session_of toy_hands []) None))
      (Some (se_address (session_of toy_hands []))) (toy_world []) = (s1, Some (toy_job, 1))"
    using toy_next [of "[]" "[]"] by blast
  have "store_ok (ec_mesh toy_hands) (as_store (toy_world []))" "map_of (as_earners (toy_world [])) a = None" for a
    using toy_queued_ok by (simp_all add: toy_world_def toy_hands_def)
  moreover have "find_row j_id (js_id toy_job) (st_jobs (as_store (toy_world []))) = Some (new_row toy_job 100 (Some ''0xb''))"
    by (simp add: toy_world_def toy_queued_rows new_row_def)
  ultimately show ?thesis
    using unregistered_poll_burns_attempt [OF _ _ still_quiet still_quiet n toy_ready(1), where T = toy_text and peer = "V4 7" and elapsed = 20 and n = 0]
    by (auto simp: new_row_def numeral_2_eq_2)
qed

definition toy_run :: render_run where
  "toy_run = \<lparr>rn_late = [1], rn_elapsed = 20\<rparr>"

definition toy_idle :: ws_session where
  "toy_idle = \<lparr>ws_earner = toy_earner, ws_supported = all_supported, ws_offered = None, ws_accepted = False, ws_faulted = []\<rparr>"

theorem honest_session_is_settled_witness:
  "\<exists>s1 w1 s2 msgs ms. ws_offer (quiet 110) True (toy_world [], toy_idle) = ((s1, w1), True) \<and> length msgs = 3
    \<and> hears toy_mesh (map (Pair (quiet 120)) msgs) (s1, w1) = (s2, ms)
    \<and> job_status_of (replicate 16 7) (as_store (fst s2)) = Some Done"
proof -
  let ?w = "toy_idle\<lparr>ws_offered := Some (toy_job, 1), ws_accepted := False\<rparr>"
  let ?k = "fst (handle_offer toy_hands (\<lambda>_. True) toy_run (session_of toy_hands []) all_supported toy_job 10 \<lparr>cs_sent = [], cs_tries = 0\<rparr>)"
  have "\<exists>s1. ws_offer (quiet 110) True (toy_world [], toy_idle) = ((s1, ?w), True)"
    using toy_take [of "\<lambda>job. List.member all_supported (js_kind job) \<and> \<not> List.member [] (js_id job)" "Some toy_earner"] all_kinds [of Foliage]
    by (auto simp: ws_offer_def toy_idle_def take_supported_job_def on_store_def take_next_for_def toy_world_def)
  then obtain s1 where o: "ws_offer (quiet 110) True (toy_world [], toy_idle) = ((s1, ?w), True)" by blast
  have "length (cs_sent ?k) = 3"
    using handle_offer_says [of "\<lambda>_. True" "\<lparr>cs_sent = [], cs_tries = 0\<rparr>" toy_hands toy_run "session_of toy_hands []" all_supported toy_job 10]
      all_kinds [of Foliage]
    by (auto simp: says_def offer_talk_def beats_from_def toy_run_def)
  moreover have "store_ok (ec_mesh toy_hands) (as_store (toy_world []))" "ec_uuid_text toy_hands (js_id toy_job) \<noteq> []"
    "in_time toy_job (rn_elapsed toy_run)" "ws_offered toy_idle = None" "ws_earner toy_idle = se_address (session_of toy_hands [])"
    "ws_supported toy_idle = all_supported"
    using toy_queued_ok toy_plain toy_ready(2)
    by (simp_all add: toy_world_def plain_uuid_def toy_run_def toy_idle_def toy_session_address)
  moreover have "ws_offered ?w = Some (toy_job, 1)" "\<forall>(E, msg)\<in>set (map (Pair (quiet 120)) (cs_sent ?k)). still E"
    "map snd (map (Pair (quiet 120)) (cs_sent ?k)) = cs_sent ?k"
    using still_quiet by (auto simp: comp_def)
  ultimately obtain s2 w2 ms where "hears (ec_mesh toy_hands) (map (Pair (quiet 120)) (cs_sent ?k)) (s1, ?w) = ((s2, w2), ms)"
    "job_status_of (js_id toy_job) (as_store s2) = Some Done"
    using honest_session_is_settled [OF toy_sound _ _ _ _ o _ still_quiet _ _ refl] by blast
  then show ?thesis
    using o \<open>length (cs_sent ?k) = 3\<close>
    by (intro exI [of _ s1] exI [of _ ?w] exI [of _ "(s2, w2)"] exI [of _ "cs_sent ?k"] exI [of _ ms]) (simp add: toy_hands_def)
qed

theorem earner_speaks_in_turn_witness:
  "\<exists>hello a p b. cs_sent (fst (run_session toy_hands (\<lambda>_. True) (\<lambda>_. toy_run) toy_args (session_of toy_hands [])
       [(1, In_Text (Some (Msg_Challenge []))), (1, In_Text (Some (Msg_JobOffer toy_job)))]))
     = [hello, a, Msg_Heartbeat (Some (js_id toy_job)) p, b] \<and> p \<le> 99"
proof -
  let ?fs = "[(1, In_Text (Some (Msg_Challenge []))), (1, In_Text (Some (Msg_JobOffer toy_job)))]"
  let ?r = "run_session toy_hands (\<lambda>_. True) (\<lambda>_. toy_run) toy_args (session_of toy_hands []) ?fs"
  let ?talk = "offer_talk toy_hands toy_run (session_of toy_hands []) all_supported (ar_heartbeat_secs toy_args) toy_job"
  have c: "recv_challenge toy_hands ?fs = (Inr [], tl ?fs)"
    by (simp add: CHALLENGE_TIMEOUT_SECS_def toy_mesh_def)
  obtain acc p sub where talk: "?talk = [acc, Msg_Heartbeat (Some (js_id toy_job)) p, sub]"
    using all_kinds [of Foliage] by (simp add: offer_talk_def beats_from_def toy_run_def)
  have "cs_sent (fst ?r) \<noteq> []"
    using session_loop_says [of toy_hands "\<lambda>_. True" "\<lambda>_. toy_run" "session_of toy_hands []" all_supported "ar_heartbeat_secs toy_args" 0 "tl ?fs"
        "\<lparr>cs_sent = [signed_hello toy_hands toy_args (session_of toy_hands []) []], cs_tries = 1\<rparr>"] c
    by (auto simp: run_session_def client_send_def signed_hello_def)
  with earner_speaks_in_turn [of toy_hands "\<lambda>_. True" "\<lambda>_. toy_run" toy_args "session_of toy_hands []" ?fs] c
  obtain segs where s: "cs_sent (fst ?r) = signed_hello toy_hands toy_args (session_of toy_hands []) [] # concat segs"
    "length segs = 1" "segs ! 0 = ?talk" "\<forall>j p. Msg_Heartbeat j p \<in> set ?talk \<longrightarrow> p \<le> 99"
    by (auto simp: Let_def)
  then have "segs = [?talk]" by (cases segs) auto
  with s talk show ?thesis by auto
qed

end
