(* ===== verification/Gateway.thy ===== *)
theory Gateway
  imports Spectator Driver Mesh_Registry
begin

section \<open>The gateway's match pumps (\<^verbatim>\<open>src/arena/harness/src/main.rs\<close>)\<close>

text \<open>
  The harness multiplexes every seat of a match, and an optional live spectator cast, over one pair of line
  streams. The output is a list of frames, the input a list of lines, and a line is parsed by the JSON
  library, the parameter \<open>gateway_json\<close>. A panic is \<open>None\<close>. The blocking pump waits for one line per active
  seat and tick; the enforced pump reads a channel under a deadline that all seats of a tick share. The channel
  is the list of its lines with their arrival times and the time its sender goes away, and the clock advances
  only while the pump waits: \<^verbatim>\<open>recv_timeout\<close> delivers a line that has arrived, or waits for the next one
  until the deadline.
\<close>

subsection \<open>Messages\<close>

datatype gateway_msg =
    Gw_Challenge string
  | Gw_Welcome u32 uuid seat_id
  | Gw_Reject string
  | Gw_Start uuid match_config "blocker list" "vec2 list"
  | Gw_Observe observation
  | Gw_End match_result

datatype agent_msg = Ag_Join u32 string string | Ag_Act action | Ag_Leave string

datatype out_frame = To_Seat seat_id gateway_msg | To_Spectator spectator_msg

record gateway_json =
  parse_envelope :: "string \<Rightarrow> (u64 \<times> agent_msg) option"

definition read_agent :: "gateway_json \<Rightarrow> string \<Rightarrow> (seat_id \<times> agent_msg) option" where
  "read_agent J line = map_option (\<lambda>(seat, msg). (seat mod 256, msg)) (parse_envelope J line)"

text \<open>An input line is the text of the line or a read error.\<close>

fun next_line :: "(unit + string) list \<Rightarrow> (string \<times> (unit + string) list) option" where
  "next_line [] = None"
| "next_line (Inl _ # ls) = None"
| "next_line (Inr l # ls) = (if trim l \<noteq> [] then Some (l, ls) else next_line ls)"

lemma next_line_shorter: "next_line ls = Some (l, ls') \<Longrightarrow> length ls' < length ls"
  by (induction ls rule: next_line.induct) (auto split: if_splits)

subsection \<open>The spectator cast\<close>

definition SPECTATE_RING :: nat where "SPECTATE_RING = 256"
definition SPECTATE_MAX :: nat where "SPECTATE_MAX = 64"

record spectator_cast =
  sc_feed :: spectator_feed
  sc_sink :: nat

definition with_limits :: "nat \<Rightarrow> nat \<Rightarrow> spectator_cast option" where
  "with_limits ring max_spectators = do {
     feed \<leftarrow> feed_new ring max_spectators;
     case subscribe feed of
       (_, None) \<Rightarrow> None
     | (feed, Some sink) \<Rightarrow> Some \<lparr>sc_feed = feed, sc_sink = sink\<rparr> }"

definition cast_new :: "spectator_cast option" where
  "cast_new = with_limits SPECTATE_RING SPECTATE_MAX"

text \<open>\<^verbatim>\<open>drain\<close> pulls until the sink's ring is empty; every pull shortens it.\<close>

definition ring_size :: "nat \<Rightarrow> spectator_feed \<Rightarrow> nat" where
  "ring_size w f = (case bt_get (fd_live f) w of Some i \<Rightarrow> length (sp_ring i) | None \<Rightarrow> 0)"

primrec drain_sink :: "nat \<Rightarrow> nat \<Rightarrow> spectator_feed \<Rightarrow> spectator_feed \<times> out_frame list" where
  "drain_sink 0 w f = (f, [])"
| "drain_sink (Suc k) w f =
     (case recv w f of
        (f, None) \<Rightarrow> (f, [])
      | (f, Some msg) \<Rightarrow> (let (f, out) = drain_sink k w f in (f, To_Spectator msg # out)))"

definition cast_drain :: "spectator_cast \<Rightarrow> spectator_cast \<times> out_frame list" where
  "cast_drain c =
     (let (f, out) = drain_sink (ring_size (sc_sink c) (sc_feed c) + 1) (sc_sink c) (sc_feed c)
      in (c\<lparr>sc_feed := f\<rparr>, out))"

definition cast_frame :: "spectator_cast \<Rightarrow> arena_match \<Rightarrow> spectator_cast \<times> out_frame list" where
  "cast_frame c m = cast_drain (c\<lparr>sc_feed := fst (publish_frame (match_broadcast m) (sc_feed c))\<rparr>)"

definition cast_end :: "spectator_cast \<Rightarrow> arena_match \<Rightarrow> match_result \<Rightarrow> spectator_cast \<times> out_frame list" where
  "cast_end c m result =
     (let (c, frames) = cast_drain (c\<lparr>sc_feed := fst (publish_frame (match_broadcast m) (sc_feed c))\<rparr>);
          (c, final) = cast_drain (c\<lparr>sc_feed := fst (publish_end result (sc_feed c))\<rparr>)
      in (c, frames @ final))"

definition cast_if :: "(spectator_cast \<Rightarrow> spectator_cast \<times> out_frame list) \<Rightarrow> spectator_cast option \<Rightarrow> spectator_cast option \<times> out_frame list" where
  "cast_if f c = (case c of None \<Rightarrow> (None, []) | Some c \<Rightarrow> (let (c, out) = f c in (Some c, out)))"

subsection \<open>The countdown and the end of a match\<close>

primrec observe_seats :: "arena_match \<Rightarrow> seat_id list \<Rightarrow> out_frame list option" where
  "observe_seats m [] = Some []"
| "observe_seats m (seat # seats) = do {
     obs \<leftarrow> observe m seat;
     rest \<leftarrow> observe_seats m seats;
     Some (To_Seat seat (Gw_Observe obs) # rest) }"

text \<open>What every pump carries: the match, the cast, and the frames written so far.\<close>

record pump =
  pu_match :: arena_match
  pu_cast :: "spectator_cast option"
  pu_out :: "out_frame list"

definition show_tick :: "seat_id list \<Rightarrow> pump \<Rightarrow> pump option" where
  "show_tick seats p = do {
     obs \<leftarrow> observe_seats (pu_match p) seats;
     let (c, frames) = cast_if (\<lambda>c. cast_frame c (pu_match p)) (pu_cast p);
     Some (p\<lparr>pu_cast := c, pu_out := pu_out p @ obs @ frames\<rparr>) }"

lemma show_tick_match: "show_tick seats p = Some q \<Longrightarrow> pu_match q = pu_match p"
  by (cases "cast_if (\<lambda>c. cast_frame c (pu_match p)) (pu_cast p)") (auto simp: show_tick_def panic_simps)

function pump_starting :: "crates \<Rightarrow> nat \<Rightarrow> pump \<Rightarrow> pump option" where
  "pump_starting X n p =
     (if m_phase (pu_match p) = Starting
      then (case show_tick [0..<n] p of
              None \<Rightarrow> None
            | Some q \<Rightarrow> (case step X [] (pu_match q) of
                None \<Rightarrow> None
              | Some m \<Rightarrow> pump_starting X n (q\<lparr>pu_match := m\<rparr>)))
      else Some p)"
  by pat_completeness auto
termination
proof (relation "measure (\<lambda>(X, n, p). if m_phase (pu_match p) = Starting then Suc (m_starting_remaining (pu_match p)) else 0)",
    goal_cases)
  case (2 X n p q m)
  then have "m = step_starting (pu_match p)" using show_tick_match [OF 2(2)] by (simp add: step_def)
  with 2 step_starting_measure [of "pu_match p"] show ?case by auto
qed simp

declare pump_starting.simps [simp del]

definition finish :: "nat \<Rightarrow> pump \<Rightarrow> (pump \<times> match_result) option" where
  "finish n p = do {
     result \<leftarrow> m_result (pu_match p);
     let (c, frames) = cast_if (\<lambda>c. cast_end c (pu_match p) result) (pu_cast p);
     Some (p\<lparr>pu_cast := c, pu_out := pu_out p @ map (\<lambda>seat. To_Seat seat (Gw_End result)) [0..<n] @ frames\<rparr>, result) }"

subsection \<open>The blocking pump\<close>

text \<open>
  One tick's reads: \<open>remaining\<close> slots, the seats still active, the match (a departure forfeits it at once) and the
  intents so far. A line of a departed seat takes no slot.
\<close>

function read_tick ::
  "gateway_json \<Rightarrow> nat \<Rightarrow> seat_id list \<Rightarrow> arena_match \<Rightarrow> (seat_id, action_intent) btree \<Rightarrow> (unit + string) list
   \<Rightarrow> (seat_id list \<times> arena_match \<times> (seat_id, action_intent) btree \<times> (unit + string) list) option" where
  "read_tick J remaining active m intents ls =
     (if remaining = 0 then Some (active, m, intents, ls)
      else (case next_line ls of
              None \<Rightarrow> None
            | Some (line, ls') \<Rightarrow>
                (case read_agent J line of
                   None \<Rightarrow> None
                 | Some (seat, msg) \<Rightarrow>
                     if \<not> List.member active seat then read_tick J remaining active m intents ls'
                     else (case msg of
                             Ag_Act a \<Rightarrow>
                               read_tick J (remaining - 1) active m
                                 (case ingest m seat a of Inl _ \<Rightarrow> intents | Inr i \<Rightarrow> bt_insert seat i intents) ls'
                           | Ag_Leave _ \<Rightarrow>
                               read_tick J (remaining - 1) (filter (\<lambda>s. s \<noteq> seat) active) (fst (forfeit seat m)) intents ls'
                           | Ag_Join _ _ _ \<Rightarrow> None))))"
  by pat_completeness auto
termination
  by (relation "measure (\<lambda>(J, r, a, m, i, ls). length ls)") (auto dest: next_line_shorter)

declare read_tick.simps [simp del]

lemma forfeit_frame [simp]:
  "m_phase (fst (forfeit s m)) = m_phase m" "m_tick (fst (forfeit s m)) = m_tick m"
  "m_config (fst (forfeit s m)) = m_config m" "m_pawns (fst (forfeit s m)) = m_pawns m"
  "m_match_id (fst (forfeit s m)) = m_match_id m"
  by (simp_all add: forfeit_def)

lemma queue_forfeits_frame [simp]:
  "m_phase (queue_forfeits ss m) = m_phase m" "m_tick (queue_forfeits ss m) = m_tick m"
  "m_config (queue_forfeits ss m) = m_config m" "m_pawns (queue_forfeits ss m) = m_pawns m"
  "m_match_id (queue_forfeits ss m) = m_match_id m"
  by (induction ss arbitrary: m) (simp_all add: queue_forfeits_def)

lemma read_tick_frame:
  "read_tick J r active m intents ls = Some (active', m', intents', ls') \<Longrightarrow>
   m_phase m' = m_phase m \<and> m_tick m' = m_tick m \<and> m_config m' = m_config m"
proof (induction J r active m intents ls rule: read_tick.induct)
  case (1 J r active m intents ls)
  show ?case
  proof (cases "r = 0")
    case False
    with "1.prems" obtain line ls1 seat msg where
      l: "next_line ls = Some (line, ls1)" and a: "read_agent J line = Some (seat, msg)"
      by (auto simp: read_tick.simps [of J r] split: option.splits)
    note IH = "1.IH" [OF False l refl a refl]
    from "1.prems" False l a IH show ?thesis
      by (auto simp: read_tick.simps [of J r] split: if_splits agent_msg.splits)
  qed (use "1.prems" in \<open>simp add: read_tick.simps [of J 0]\<close>)
qed

function blocking_loop :: "crates \<Rightarrow> gateway_json \<Rightarrow> seat_id list \<Rightarrow> (unit + string) list \<Rightarrow> pump \<Rightarrow> pump option" where
  "blocking_loop X J active ls p =
     (if m_phase (pu_match p) = Live
      then (case show_tick active p of
              None \<Rightarrow> None
            | Some q \<Rightarrow>
                (case read_tick J (length active) active (pu_match q) [] ls of
                   None \<Rightarrow> None
                 | Some (active', m, intents, ls') \<Rightarrow>
                     (case step X intents m of
                        None \<Rightarrow> None
                      | Some m' \<Rightarrow> blocking_loop X J active' ls' (q\<lparr>pu_match := m'\<rparr>))))
      else Some p)"
  by pat_completeness auto
termination
proof (relation "measure (\<lambda>(X, J, a, ls, p). if m_phase (pu_match p) = Live
    then Suc (max_ticks (m_config (pu_match p)) - m_tick (pu_match p)) else 0)", goal_cases)
  case (2 X J active ls p q r active' x m y intents ls' m')
  then have "m_phase m = Live" "m_tick m = m_tick (pu_match p)" "m_config m = m_config (pu_match p)"
    using show_tick_match [OF 2(2)] read_tick_frame [of J _ active _ _ _ active' m intents ls'] by auto
  moreover from this have "m_phase m' = Live \<Longrightarrow> max_ticks (m_config m') - m_tick m' < max_ticks (m_config m) - m_tick m"
    using step_live_cap [of X intents m m'] 2 by (auto simp: diff_less_mono2)
  ultimately show ?case using 2 by auto
qed simp

declare blocking_loop.simps [simp del]

definition pump_to_end :: "crates \<Rightarrow> gateway_json \<Rightarrow> nat \<Rightarrow> (unit + string) list \<Rightarrow> pump \<Rightarrow> (pump \<times> match_result) option" where
  "pump_to_end X J n ls p = do { p \<leftarrow> pump_starting X n p; p \<leftarrow> blocking_loop X J [0..<n] ls p; finish n p }"

subsection \<open>The enforced pump\<close>

text \<open>Times are microseconds. The channel's sender is the reader of standard input.\<close>

record channel =
  ch_queue :: "(nat \<times> string) list"
  ch_closed :: "nat option"
  ch_now :: nat

datatype recv_result = Rx_Line string | Rx_Timeout | Rx_Disconnected

definition recv_timeout :: "nat \<Rightarrow> channel \<Rightarrow> channel \<times> recv_result" where
  "recv_timeout wait ch =
     (let limit = ch_now ch + wait; late = (ch\<lparr>ch_now := limit\<rparr>, Rx_Timeout) in
      case ch_queue ch of
        (t, line) # rest \<Rightarrow>
          if t \<le> limit then (ch\<lparr>ch_queue := rest, ch_now := max (ch_now ch) t\<rparr>, Rx_Line line) else late
      | [] \<Rightarrow>
          (case ch_closed ch of
             Some t \<Rightarrow> if t \<le> limit then (ch\<lparr>ch_now := max (ch_now ch) t\<rparr>, Rx_Disconnected) else late
           | None \<Rightarrow> late))"

fun feed_stdin_lines :: "(nat \<times> (unit + string)) list \<Rightarrow> nat option \<Rightarrow> (nat \<times> string) list \<times> nat option" where
  "feed_stdin_lines [] eof = ([], eof)"
| "feed_stdin_lines ((t, Inl _) # ls) eof = ([], Some t)"
| "feed_stdin_lines ((t, Inr l) # ls) eof = (let (q, closed) = feed_stdin_lines ls eof in ((t, l) # q, closed))"

definition MISS_FORFEIT_THRESHOLD :: nat where "MISS_FORFEIT_THRESHOLD = 3"

definition silence_seat :: "bool \<Rightarrow> seat_id \<Rightarrow> seat_id list \<times> (seat_id, nat) btree \<Rightarrow> seat_id list \<times> (seat_id, nat) btree" where
  "silence_seat eof seat am =
     (case am of (active, misses) \<Rightarrow>
        if eof then (filter (\<lambda>s. s \<noteq> seat) active, bt_remove seat misses)
        else let streak = (case bt_get misses seat of None \<Rightarrow> 0 | Some k \<Rightarrow> k) + 1 in
             if streak \<ge> MISS_FORFEIT_THRESHOLD then (filter (\<lambda>s. s \<noteq> seat) active, bt_remove seat misses)
             else (active, bt_insert seat streak misses))"

definition forfeit_silent_seats ::
  "seat_id list \<Rightarrow> seat_id list \<Rightarrow> (seat_id, nat) btree \<Rightarrow> bool \<Rightarrow> seat_id list \<times> (seat_id, nat) btree" where
  "forfeit_silent_seats active answered misses eof =
     fold (silence_seat eof) (filter (\<lambda>s. \<not> List.member answered s) active) (active, misses)"

record tick_read =
  tk_active :: "seat_id list"
  tk_answered :: "seat_id list"
  tk_misses :: "(seat_id, nat) btree"
  tk_intents :: "(seat_id, action_intent) btree"

definition give_up :: "bool \<Rightarrow> tick_read \<Rightarrow> tick_read" where
  "give_up eof k =
     (let (active, misses) = forfeit_silent_seats (tk_active k) (tk_answered k) (tk_misses k) eof
      in k\<lparr>tk_active := active, tk_misses := misses\<rparr>)"

definition heard :: "seat_id \<Rightarrow> tick_read \<Rightarrow> tick_read" where
  "heard seat k = k\<lparr>tk_answered := bs_insert seat (tk_answered k), tk_misses := bt_remove seat (tk_misses k)\<rparr>"

lemma recv_timeout_line:
  "recv_timeout wait ch = (ch', Rx_Line l) \<Longrightarrow> length (ch_queue ch') < length (ch_queue ch)"
  by (auto simp: recv_timeout_def Let_def split: list.splits option.splits if_splits)

function tick_reads :: "gateway_json \<Rightarrow> arena_match \<Rightarrow> nat \<Rightarrow> nat \<Rightarrow> tick_read \<Rightarrow> channel \<Rightarrow> (tick_read \<times> channel) option" where
  "tick_reads J m tick_deadline remaining k ch =
     (if remaining = 0 then Some (k, ch)
      else (case recv_timeout (tick_deadline - ch_now ch) ch of
              (ch', Rx_Timeout) \<Rightarrow> Some (give_up False k, ch')
            | (ch', Rx_Disconnected) \<Rightarrow> Some (give_up True k, ch')
            | (ch', Rx_Line line) \<Rightarrow>
                (case read_agent J line of
                   None \<Rightarrow> None
                 | Some (seat, msg) \<Rightarrow>
                     if \<not> List.member (tk_active k) seat
                     then if ch_now ch' \<ge> tick_deadline then Some (give_up False k, ch')
                          else tick_reads J m tick_deadline remaining k ch'
                     else (case msg of
                             Ag_Act a \<Rightarrow>
                               tick_reads J m tick_deadline (remaining - 1)
                                 (case ingest m seat a of Inl _ \<Rightarrow> heard seat k
                                  | Inr i \<Rightarrow> (heard seat k)\<lparr>tk_intents := bt_insert seat i (tk_intents k)\<rparr>) ch'
                           | Ag_Leave _ \<Rightarrow>
                               tick_reads J m tick_deadline (remaining - 1)
                                 ((heard seat k)\<lparr>tk_active := filter (\<lambda>s. s \<noteq> seat) (tk_active k)\<rparr>) ch'
                           | Ag_Join _ _ _ \<Rightarrow> None))))"
  by pat_completeness auto
termination
  by (relation "measure (\<lambda>(J, m, d, r, k, ch). length (ch_queue ch))") (auto dest: recv_timeout_line [OF sym])

declare tick_reads.simps [simp del]

definition read_tick_deadlined ::
  "gateway_json \<Rightarrow> arena_match \<Rightarrow> seat_id list \<Rightarrow> channel \<Rightarrow> nat \<Rightarrow> (seat_id, nat) btree \<Rightarrow> (tick_read \<times> channel) option" where
  "read_tick_deadlined J m active ch deadline misses =
     tick_reads J m (ch_now ch + deadline) (length active)
       \<lparr>tk_active = active, tk_answered = [], tk_misses = misses, tk_intents = []\<rparr> ch"

function enforced_loop ::
  "crates \<Rightarrow> gateway_json \<Rightarrow> nat \<Rightarrow> seat_id list \<Rightarrow> (seat_id, nat) btree \<Rightarrow> channel \<Rightarrow> pump \<Rightarrow> (pump \<times> channel) option" where
  "enforced_loop X J deadline active misses ch p =
     (if m_phase (pu_match p) = Live
      then (case show_tick active p of
              None \<Rightarrow> None
            | Some q \<Rightarrow>
                (case read_tick_deadlined J (pu_match q) active ch deadline misses of
                   None \<Rightarrow> None
                 | Some (k, ch') \<Rightarrow>
                     (case step X (tk_intents k)
                             (queue_forfeits (filter (\<lambda>s. \<not> List.member (tk_active k) s) active) (pu_match q)) of
                        None \<Rightarrow> None
                      | Some m' \<Rightarrow> enforced_loop X J deadline (tk_active k) (tk_misses k) ch' (q\<lparr>pu_match := m'\<rparr>))))
      else Some (p, ch))"
  by pat_completeness auto
termination
proof (relation "measure (\<lambda>(X, J, d, a, ms, ch, p). if m_phase (pu_match p) = Live
    then Suc (max_ticks (m_config (pu_match p)) - m_tick (pu_match p)) else 0)", goal_cases)
  case (2 X J deadline active misses ch p q x k ch' m')
  let ?m = "queue_forfeits (filter (\<lambda>s. \<not> List.member (tk_active k) s) active) (pu_match q)"
  have "m_phase ?m = Live" "m_tick ?m = m_tick (pu_match p)" "m_config ?m = m_config (pu_match p)"
    using show_tick_match [OF 2(2)] 2(1) by simp_all
  moreover from this have "m_phase m' = Live \<Longrightarrow> max_ticks (m_config m') - m_tick m' < max_ticks (m_config ?m) - m_tick ?m"
    using step_live_cap [of X "tk_intents k" ?m m'] 2 by (auto simp: diff_less_mono2)
  ultimately show ?case using 2 by auto
qed simp

declare enforced_loop.simps [simp del]

definition pump_to_end_deadlined ::
  "crates \<Rightarrow> gateway_json \<Rightarrow> nat \<Rightarrow> channel \<Rightarrow> nat \<Rightarrow> pump \<Rightarrow> (pump \<times> match_result) option" where
  "pump_to_end_deadlined X J n ch deadline p =
     do { p \<leftarrow> pump_starting X n p; (p, ch) \<leftarrow> enforced_loop X J deadline [0..<n] [] ch p; finish n p }"

definition pump_to_end_enforced ::
  "crates \<Rightarrow> gateway_json \<Rightarrow> nat \<Rightarrow> (nat \<times> (unit + string)) list \<Rightarrow> nat option \<Rightarrow> nat \<Rightarrow> pump \<Rightarrow> (pump \<times> match_result) option" where
  "pump_to_end_enforced X J n ls eof deadline p =
     (let (q, closed) = feed_stdin_lines ls eof
      in pump_to_end_deadlined X J n \<lparr>ch_queue = q, ch_closed = closed, ch_now = 0\<rparr> deadline p)"

definition drive_pump ::
  "crates \<Rightarrow> gateway_json \<Rightarrow> nat \<Rightarrow> nat option \<Rightarrow> (nat \<times> (unit + string)) list \<Rightarrow> nat option \<Rightarrow> pump \<Rightarrow> (pump \<times> match_result) option" where
  "drive_pump X J n deadline ls eof p =
     (case deadline of
        None \<Rightarrow> pump_to_end X J n (map snd ls) p
      | Some d \<Rightarrow> pump_to_end_enforced X J n ls eof d p)"

end
