(* ===== verification/Gateway_Props.thy ===== *)
theory Gateway_Props
  imports Gateway Spectator_Props
begin

section \<open>What the pumps guarantee\<close>

subsection \<open>Both pumps drive the match by forfeits and steps\<close>

text \<open>
  The run both loops have in common. Each live tick is shown, some seats are forfeited, and the match steps on
  intents that answer it; \<open>sent\<close> tells which actions arrived for which seat.
\<close>

definition answers :: "(seat_id \<Rightarrow> action \<Rightarrow> bool) \<Rightarrow> uuid \<Rightarrow> u64 \<Rightarrow> seat_id \<times> action_intent \<Rightarrow> bool" where
  "answers sent i t si \<longleftrightarrow> (\<exists>a. sent (fst si) a \<and> act_match_id a = i \<and> act_seat a = fst si \<and> act_tick a = t
     \<and> snd si = clamped (act_intent a))"

inductive pumped ::
  "crates \<Rightarrow> (seat_id \<Rightarrow> action \<Rightarrow> bool) \<Rightarrow> arena_match \<Rightarrow> arena_match list \<Rightarrow> arena_match \<Rightarrow> bool" for X sent where
  Over: "m_phase m \<noteq> Live \<Longrightarrow> pumped X sent m [] m"
| Tick: "m_phase m = Live \<Longrightarrow> \<forall>si\<in>set is. answers sent (m_match_id m) (m_tick m) si \<Longrightarrow>
     step X is (queue_forfeits fs m) = Some m' \<Longrightarrow> pumped X sent m' ms m'' \<Longrightarrow> pumped X sent m (m # ms) m''"

lemma forfeit_events: "foldM (apply_event X) (map Ev_Forfeit fs) m = Some (queue_forfeits fs m)"
  by (induction fs arbitrary: m) (simp_all add: apply_event_def queue_forfeits_def)

lemma queue_forfeits_pending:
  "sorted_wrt (<) (m_pending_forfeits m) \<Longrightarrow>
   \<exists>P. queue_forfeits fs m = m\<lparr>m_pending_forfeits := P\<rparr> \<and> sorted_wrt (<) P \<and> set (m_pending_forfeits m) \<subseteq> set P
     \<and> (m_phase m \<noteq> Ended \<longrightarrow> (\<forall>s\<in>set fs. pawn_alive m s \<longrightarrow> s \<in> set P))"
proof (induction fs arbitrary: m)
  case Nil
  then show ?case by (intro exI [of _ "m_pending_forfeits m"]) (simp add: queue_forfeits_def)
next
  case (Cons s fs)
  let ?n = "fst (forfeit s m)"
  have q: "queue_forfeits (s # fs) m = queue_forfeits fs ?n" by (simp add: queue_forfeits_def)
  have n: "pawn_alive ?n = pawn_alive m" by (simp add: pawn_alive_def fun_eq_iff)
  have "sorted_wrt (<) (m_pending_forfeits ?n)" using Cons.prems by (simp add: forfeit_def)
  from Cons.IH [OF this] obtain P where "queue_forfeits fs ?n = ?n\<lparr>m_pending_forfeits := P\<rparr>" "sorted_wrt (<) P"
    "set (m_pending_forfeits ?n) \<subseteq> set P" "m_phase m \<noteq> Ended \<longrightarrow> (\<forall>s\<in>set fs. pawn_alive m s \<longrightarrow> s \<in> set P)"
    unfolding n by auto
  then show ?case unfolding q by (intro exI [of _ P]) (auto simp: forfeit_def split: if_splits)
qed

lemma pumped_tick:
  assumes "m_phase m = Live" "step X is (queue_forfeits fs m) = Some m'" "match_ok X m"
  shows "foldM (apply_event X) (map Ev_Forfeit fs @ [Ev_Step is]) m = Some m'" "match_ok X m'" "m_phase m' \<noteq> Starting"
    "m_pending_forfeits m' = []" "m_match_id m' = m_match_id m" "m_tick m' = m_tick m + 1" "m_seats m' = m_seats m"
proof -
  let ?q = "queue_forfeits fs m"
  have q: "match_ok X ?q" by (rule match_machine.run_keeps [OF assms(3) forfeit_events])
  have live: "m_phase ?q = Live" using assms(1) by simp
  show "foldM (apply_event X) (map Ev_Forfeit fs @ [Ev_Step is]) m = Some m'"
    using assms(2) by (simp add: foldM_append forfeit_events apply_event_def)
  note f = step_live_frame [OF assms(2) live]
  show ok: "match_ok X m'" using step_live_ok [OF q assms(2) live] .
  then show "m_phase m' \<noteq> Starting" using f(8) by (auto simp: match_ok_def)
  obtain P where "?q = m\<lparr>m_pending_forfeits := P\<rparr>"
    using queue_forfeits_pending [of m fs] assms(3) by (auto simp: match_ok_def)
  with f show "m_pending_forfeits m' = []" "m_match_id m' = m_match_id m" "m_tick m' = m_tick m + 1" "m_seats m' = m_seats m"
    by simp_all
qed

lemma pumped_run:
  assumes "pumped X sent m ms m'" "match_ok X m" "m_phase m \<noteq> Starting"
  shows "(\<exists>es. foldM (apply_event X) es m = Some m') \<and> m_phase m' = Ended \<and> match_ok X m'"
  using assms
proof induction
  case (Over m)
  then show ?case by (cases "m_phase m") (auto simp: match_ok_def intro!: exI [of _ "[]"])
next
  case (Tick m "is" fs m' ms m'')
  note t = pumped_tick [OF Tick.hyps(1,3) Tick.prems(1)]
  from Tick.IH [OF t(2,3)] obtain es where "foldM (apply_event X) es m' = Some m''" "m_phase m'' = Ended" "match_ok X m''"
    by blast
  moreover from this have "foldM (apply_event X) ((map Ev_Forfeit fs @ [Ev_Step is]) @ es) m = Some m''"
    using t(1) by (simp only: foldM_append [of _ _ es]) simp
  ultimately show ?case by blast
qed

lemma accepted_answers:
  assumes "step X is m = Some m'" "m_phase m = Live" "\<forall>si\<in>set is. answers sent i (m_tick m) si"
  shows "\<exists>t. m_ticks m' = m_ticks m @ [t]
    \<and> (\<forall>sa\<in>set (tr_actions t). answers sent i (tr_tick t) (sa_seat sa, sa_intent sa))"
proof -
  obtain n where n: "refresh_if m = Some n" "tick_body X (m_tick m) is (drain_forfeits n) = Some m'"
    using assms(1,2) by (auto simp: step_live_eq panic_simps)
  let ?t = "tick_entry (m_tick m) (accept_intents (fst (drain_forfeits n)) is) (snd (drain_forfeits n))"
  have "m_ticks (fst (drain_forfeits n)) = m_ticks m"
    using refresh_if_pawns [OF n(1)] by (simp add: drain_forfeits_def split_beta)
  with tick_body_record [OF n(2)] have "m_ticks m' = m_ticks m @ [?t]" by simp
  moreover have "answers sent i (m_tick m) (s, x)" if acc: "(s, x) \<in> set (accept_intents k is)" for s x k
  proof -
    obtain y where y: "(s, y) \<in> set is" "x = clamped y"
      using acc set_bt_collect by (fastforce simp: accept_intents_def)
    with assms(3) have "answers sent i (m_tick m) (s, y)" by blast
    with y(2) show ?thesis by (auto simp: answers_def)
  qed
  ultimately show ?thesis by (intro exI [of _ ?t]) (auto simp: tick_entry_def)
qed

lemma pumped_sent:
  assumes "pumped X sent m ms m'" "match_ok X m"
  shows "\<exists>ts. m_ticks m' = m_ticks m @ ts
    \<and> (\<forall>t\<in>set ts. \<forall>sa\<in>set (tr_actions t). answers sent (m_match_id m) (tr_tick t) (sa_seat sa, sa_intent sa))"
  using assms
proof induction
  case (Tick m "is" fs m' ms m'')
  note t = pumped_tick [OF Tick.hyps(1,3) Tick.prems(1)]
  obtain P where q: "queue_forfeits fs m = m\<lparr>m_pending_forfeits := P\<rparr>"
    using queue_forfeits_pending [of m fs] Tick.prems by (auto simp: match_ok_def)
  from accepted_answers [OF Tick.hyps(3), of sent "m_match_id m"] Tick.hyps(1,2) q obtain u where
    "m_ticks m' = m_ticks m @ [u]" "\<forall>sa\<in>set (tr_actions u). answers sent (m_match_id m) (tr_tick u) (sa_seat sa, sa_intent sa)"
    by auto
  with Tick.IH [OF t(2)] t(5) show ?case by auto
qed simp

text \<open>Without forfeits the run is the run its own log replays, frame by frame.\<close>

lemma pumped_frames:
  assumes "pumped X sent m ms m'" "match_ok X m" "m_pending_forfeits m = []" "distinct (map si_seat (m_seats m))"
    and "m_ticks m' = m_ticks m @ ts" "\<forall>t\<in>set ts. tr_forfeits t = []"
  shows "\<exists>fs. frames_of X ts m = Some (m', fs) \<and> map match_broadcast (ms @ [m']) = match_broadcast m # fs"
  using assms
proof (induction arbitrary: ts)
  case (Tick m "is" gs m' ms m'')
  note t = pumped_tick [OF Tick.hyps(1,3) Tick.prems(1)]
  obtain P where q: "queue_forfeits gs m = m\<lparr>m_pending_forfeits := P\<rparr>" "sorted_wrt (<) P"
    using queue_forfeits_pending [of m gs] Tick.prems(1) by (auto simp: match_ok_def)
  have d: "distinct (map p_seat (m_pawns m))"
    using Tick.prems(1,3) seated_seats by (fastforce simp: match_ok_def)
  from step_replays [OF Tick.hyps(1) d q(2) Tick.hyps(3) [unfolded q(1)]] obtain u where
    u: "m_ticks m' = m_ticks m @ [u]" "step X (action_map (tr_actions u)) (m\<lparr>m_pending_forfeits := tr_forfeits u\<rparr>) = Some m'"
    by blast
  obtain us where us: "m_ticks m'' = m_ticks m' @ us" using pumped_sent [OF Tick.hyps(4) t(2)] by blast
  with Tick.prems(4) u(1) have ts: "ts = u # us" by simp
  have same: "m\<lparr>m_pending_forfeits := []\<rparr> = m" using Tick.prems(2) by (metis arena_match.surjective arena_match.update_convs(16))
  from Tick.IH [OF t(2,4) _ us] t(7) Tick.prems(3,5) ts obtain fs where
    "frames_of X us m' = Some (m'', fs)" "map match_broadcast (ms @ [m'']) = match_broadcast m' # fs" by auto
  then show ?case using u(2) ts same Tick.prems(5) Tick.hyps(1) by simp
qed (auto simp: frames_of_def)

subsection \<open>The spectator cast\<close>

definition spectator_frames :: "out_frame list \<Rightarrow> spectator_msg list" where
  "spectator_frames out = concat (map (\<lambda>f. case f of To_Spectator msg \<Rightarrow> [msg] | _ \<Rightarrow> []) out)"

definition seat_frames :: "seat_id \<Rightarrow> out_frame list \<Rightarrow> gateway_msg list" where
  "seat_frames seat out = concat (map (\<lambda>f. case f of To_Seat s msg \<Rightarrow> if s = seat then [msg] else [] | _ \<Rightarrow> []) out)"

lemma frames_append [simp]:
  "spectator_frames (a @ b) = spectator_frames a @ spectator_frames b"
  "seat_frames s (a @ b) = seat_frames s a @ seat_frames s b"
  by (simp_all add: spectator_frames_def seat_frames_def)

definition cast_ok :: "spectator_cast \<Rightarrow> bool" where
  "cast_ok c \<longleftrightarrow> feed_ok (sc_feed c)
     \<and> (\<exists>i. bt_get (fd_live (sc_feed c)) (sc_sink c) = Some i \<and> sp_ring i = [] \<and> sp_dropped i = 0)"

lemma cast_publish:
  assumes "cast_ok c"
  shows "\<exists>c'. cast_drain (c\<lparr>sc_feed := fst (fan_out msg (sc_feed c))\<rparr>) = (c', [To_Spectator msg]) \<and> cast_ok c'"
proof -
  let ?w = "sc_sink c" and ?f = "fst (fan_out msg (sc_feed c))"
  obtain i where i: "bt_get (fd_live (sc_feed c)) ?w = Some i" "sp_ring i = []" "sp_dropped i = 0" and ok: "feed_ok (sc_feed c)"
    using assms by (auto simp: cast_ok_def)
  have ok1: "feed_ok ?f" using fan_out_ok [OF ok] .
  have "sp_capacity i > 0" using i(1) ok by (auto simp: feed_ok_def ring_ok_def)
  then have ring: "sp_ring (deliver msg i) = [msg]" "sp_dropped (deliver msg i) = 0" using i by (simp_all add: deliver_ring)
  have live: "bt_get (fd_live ?f) ?w = Some (deliver msg i)" using fan_out_live(2) [OF ok] i(1) by simp
  obtain g where g_def: "g = fst (recv ?w ?f)" by simp
  have r: "recv ?w ?f = (g, Some msg)" using live ring by (simp add: recv_def g_def)
  have g: "feed_ok g" "bt_get (fd_live g) ?w = Some ((deliver msg i)\<lparr>sp_ring := []\<rparr>)"
    using recv_live [OF ok1] live ring by (simp_all add: g_def)
  have "recv ?w g = (g, None)" using g(2) by (simp add: recv_def)
  with r have "drain_sink 2 ?w ?f = (g, [To_Spectator msg])" by (simp add: numeral_2_eq_2)
  moreover have "ring_size ?w ?f = 1" using live ring by (simp add: ring_size_def)
  moreover have "cast_ok (c\<lparr>sc_feed := g\<rparr>)" using g ring by (auto simp: cast_ok_def)
  ultimately show ?thesis by (simp add: cast_drain_def numeral_2_eq_2)
qed

definition cast_fine :: "spectator_cast option \<Rightarrow> bool" where
  "cast_fine co \<longleftrightarrow> (case co of None \<Rightarrow> True | Some c \<Rightarrow> cast_ok c)"

text \<open>What a part of a pump's run adds to the spectator's stream: a message list, when there is a cast.\<close>

definition shown :: "pump \<Rightarrow> spectator_msg list \<Rightarrow> pump \<Rightarrow> bool" where
  "shown p msgs q \<longleftrightarrow> (cast_fine (pu_cast p) \<longrightarrow> cast_fine (pu_cast q) \<and> (pu_cast q = None \<longleftrightarrow> pu_cast p = None)
     \<and> spectator_frames (pu_out q) = spectator_frames (pu_out p) @ (if pu_cast p = None then [] else msgs))"

lemma shown_trans: "shown p a q \<Longrightarrow> shown q b r \<Longrightarrow> shown p (a @ b) r"
  by (auto simp: shown_def)

lemma shown_none [simp]: "shown p [] p" by (simp add: shown_def)

lemma shown_match [simp]:
  "shown (p\<lparr>pu_match := m\<rparr>) msgs q = shown p msgs q" "shown p msgs (q\<lparr>pu_match := m\<rparr>) = shown p msgs q"
  by (simp_all add: shown_def)

lemma observe_seats_quiet: "observe_seats m seats = Some out \<Longrightarrow> spectator_frames out = []"
  by (induction seats arbitrary: out) (auto simp: spectator_frames_def panic_simps)

lemma spectator_frames_cast [simp]: "spectator_frames [To_Spectator msg] = [msg]"
  by (simp add: spectator_frames_def)

lemma show_tick_shown:
  assumes "show_tick seats p = Some q" shows "shown p [Frame (match_broadcast (pu_match p))] q"
proof -
  let ?c = "cast_if (\<lambda>c. cast_frame c (pu_match p)) (pu_cast p)"
  obtain obs where obs: "observe_seats (pu_match p) seats = Some obs"
    "q = p\<lparr>pu_cast := fst ?c, pu_out := pu_out p @ obs @ snd ?c\<rparr>"
    using assms by (auto simp: show_tick_def panic_simps split_beta)
  show ?thesis
  proof (cases "pu_cast p")
    case None
    then show ?thesis using obs observe_seats_quiet [OF obs(1)]
      by (simp add: shown_def cast_if_def spectator_frames_def)
  next
    case (Some c)
    then show ?thesis using obs observe_seats_quiet [OF obs(1)] cast_publish [of c "Frame (match_broadcast (pu_match p))"]
      by (auto simp: shown_def cast_if_def cast_frame_def publish_frame_def cast_fine_def)
  qed
qed

lemma finish_shown:
  assumes "finish n p = Some (q, result)"
  shows "pu_match q = pu_match p" "m_result (pu_match p) = Some result"
    "shown p [Frame (match_broadcast (pu_match p)), End result] q"
proof -
  let ?c = "cast_if (\<lambda>c. cast_end c (pu_match p) result) (pu_cast p)"
  have r: "m_result (pu_match p) = Some result"
    and q: "q = p\<lparr>pu_cast := fst ?c, pu_out := pu_out p @ map (\<lambda>seat. To_Seat seat (Gw_End result)) [0..<n] @ snd ?c\<rparr>"
    using assms by (auto simp: finish_def panic_simps split_beta)
  show "pu_match q = pu_match p" "m_result (pu_match p) = Some result" using r q by auto
  have quiet: "spectator_frames (map (\<lambda>seat. To_Seat seat (Gw_End result)) ss) = []" for ss
    by (induction ss) (simp_all add: spectator_frames_def)
  show "shown p [Frame (match_broadcast (pu_match p)), End result] q"
  proof (cases "pu_cast p")
    case None
    then show ?thesis by (simp add: q shown_def cast_if_def quiet spectator_frames_def)
  next
    case (Some c)
    show ?thesis
    proof (cases "cast_ok c")
      case True
      obtain d where d: "cast_drain (c\<lparr>sc_feed := fst (publish_frame (match_broadcast (pu_match p)) (sc_feed c))\<rparr>)
          = (d, [To_Spectator (Frame (match_broadcast (pu_match p)))])" "cast_ok d"
        using cast_publish [OF True] by (auto simp: publish_frame_def)
      obtain e where e: "cast_drain (d\<lparr>sc_feed := fst (publish_end result (sc_feed d))\<rparr>)
          = (e, [To_Spectator (End result)])" "cast_ok e"
        using cast_publish [OF d(2)] by (auto simp: publish_end_def)
      have "?c = (Some e, [To_Spectator (Frame (match_broadcast (pu_match p))), To_Spectator (End result)])"
        using Some d e by (simp add: cast_if_def cast_end_def)
      then show ?thesis using Some e(2) by (simp add: q shown_def cast_fine_def quiet) (simp add: spectator_frames_def)
    qed (use Some in \<open>simp add: shown_def cast_fine_def\<close>)
  qed
qed

lemma drain_sink_quiet: "seat_frames s (snd (drain_sink k w f)) = []"
proof (induction k arbitrary: f)
  case (Suc k)
  obtain g mo where "recv w f = (g, mo)" by fastforce
  with Suc [of g] show ?case by (cases mo) (simp_all add: split_beta seat_frames_def)
qed (simp add: seat_frames_def)

lemma finish_quiet:
  assumes "finish n p = Some (q, result)"
  shows "\<exists>frames. pu_out q = pu_out p @ map (\<lambda>seat. To_Seat seat (Gw_End result)) [0..<n] @ frames \<and> seat_frames s frames = []"
  using assms drain_sink_quiet
  by (auto simp: finish_def panic_simps split_beta cast_if_def cast_end_def cast_drain_def Let_def seat_frames_def split: option.splits)

lemma seat_frames_upt: "seat < n \<Longrightarrow> seat_frames seat (map (\<lambda>seat. To_Seat seat msg) [0..<n]) = [msg]"
proof (induction n)
  case (Suc n)
  have "seat_frames s (map (\<lambda>seat. To_Seat seat msg) [0..<k]) = []" if "k \<le> s" for s k
    using that by (induction k) (auto simp: seat_frames_def)
  with Suc show ?case by (cases "seat = n") (auto simp: seat_frames_def)
qed simp

lemma cast_new_fine: "\<exists>c. cast_new = Some c \<and> cast_ok c"
proof -
  have "feed_ok \<lparr>fd_subscribers = [], fd_capacity = SPECTATE_RING, fd_max_spectators = SPECTATE_MAX, fd_live = [], fd_allocated = 0\<rparr>"
    by (simp add: feed_ok_def bt_inv_def bt_get_def SPECTATE_RING_def SPECTATE_MAX_def)
  from subscribe_ok [OF this] show ?thesis
    by (auto simp: cast_new_def with_limits_def feed_new_def subscribe_def retain_live_def Let_def cast_ok_def
        SPECTATE_RING_def SPECTATE_MAX_def bt_get_def)
qed

subsection \<open>The loops are such runs\<close>

definition sent_in :: "gateway_json \<Rightarrow> string set \<Rightarrow> seat_id \<Rightarrow> action \<Rightarrow> bool" where
  "sent_in J lines seat a \<longleftrightarrow> (\<exists>l\<in>lines. read_agent J l = Some (seat, Ag_Act a))"

lemma answers_mono: "answers (sent_in J A) i t si \<Longrightarrow> A \<subseteq> B \<Longrightarrow> answers (sent_in J B) i t si"
  by (fastforce simp: answers_def sent_in_def)

lemma pumped_mono: "pumped X (sent_in J A) m ms m' \<Longrightarrow> A \<subseteq> B \<Longrightarrow> pumped X (sent_in J B) m ms m'"
proof (induction rule: pumped.induct)
  case (Tick m "is" fs m' ms m'')
  then show ?case
    using answers_mono [of J A _ _ _ B] by (intro pumped.Tick [OF Tick.hyps(1) _ Tick.hyps(3)]) auto
qed (rule pumped.Over)

lemma ingest_accepts:
  "ingest m seat a = Inr i \<Longrightarrow> m_phase m = Live \<and> act_match_id a = m_match_id m \<and> act_seat a = seat
     \<and> act_tick a = m_tick m \<and> pawn_alive m seat \<and> i = clamped (act_intent a)"
  by (auto simp: ingest_def split: sum.splits action_error.splits if_splits)

lemma ingest_answers:
  "ingest m seat a = Inr i \<Longrightarrow> sent seat a \<Longrightarrow> answers sent (m_match_id m) (m_tick m) (seat, i)"
  using ingest_accepts [of m seat a i] by (auto simp: answers_def)

lemma intent_answers:
  assumes "\<forall>si\<in>set intents. answers sent (m_match_id m) (m_tick m) si" "sent seat a"
  shows "\<forall>si\<in>set (case ingest m seat a of Inl _ \<Rightarrow> intents | Inr i \<Rightarrow> bt_insert seat i intents).
    answers sent (m_match_id m) (m_tick m) si"
proof (cases "ingest m seat a")
  case (Inr i)
  with ingest_answers [OF Inr, of sent] assms set_bt_insert [of seat i intents] show ?thesis by auto
qed (use assms in simp)

lemma next_line_in: "next_line ls = Some (l, ls') \<Longrightarrow> Inr l \<in> set ls \<and> set ls' \<subseteq> set ls"
  by (induction ls rule: next_line.induct) (auto split: if_splits)

definition texts :: "(unit + string) list \<Rightarrow> string set" where
  "texts ls = {l. Inr l \<in> set ls}"

lemma read_tick_run:
  "read_tick J r active m intents ls = Some (active', m', intents', ls') \<Longrightarrow>
   \<forall>si\<in>set intents. answers (sent_in J B) (m_match_id m) (m_tick m) si \<Longrightarrow> texts ls \<subseteq> B \<Longrightarrow>
   (\<exists>fs. m' = queue_forfeits fs m) \<and> set ls' \<subseteq> set ls
   \<and> (\<forall>si\<in>set intents'. answers (sent_in J B) (m_match_id m) (m_tick m) si)"
proof (induction J r active m intents ls rule: read_tick.induct)
  case (1 J r active m intents ls)
  show ?case
  proof (cases "r = 0")
    case True
    with "1.prems" show ?thesis
      by (auto simp: read_tick.simps [of J 0] queue_forfeits_def intro!: exI [of _ "[]"])
  next
    case False
    with "1.prems" obtain line ls1 seat msg where
      l: "next_line ls = Some (line, ls1)" and a: "read_agent J line = Some (seat, msg)"
      by (auto simp: read_tick.simps [of J r] split: option.splits)
    note IH = "1.IH" [OF False l refl a refl]
    have s: "line \<in> B" "texts ls1 \<subseteq> B" "set ls1 \<subseteq> set ls"
      using next_line_in [OF l] "1.prems"(3) by (auto simp: texts_def)
    show ?thesis
    proof (cases "List.member active seat")
      case out: False
      with "1.prems"(1) False l a have "read_tick J r active m intents ls1 = Some (active', m', intents', ls')"
        by (simp add: read_tick.simps [of J r active m intents ls])
      from IH(1) [OF out this "1.prems"(2) s(2)] s(3) show ?thesis by blast
    next
      case True
      then have in_: "\<not> \<not> List.member active seat" by simp
      show ?thesis
      proof (cases msg)
        case (Ag_Act act)
        with a s(1) have "sent_in J B seat act" by (auto simp: sent_in_def)
        note k = intent_answers [OF "1.prems"(2) this]
        from "1.prems"(1) False l a True Ag_Act have "read_tick J (r - 1) active m
            (case ingest m seat act of Inl _ \<Rightarrow> intents | Inr i \<Rightarrow> bt_insert seat i intents) ls1 = Some (active', m', intents', ls')"
          by (simp add: read_tick.simps [of J r active m intents ls])
        from IH(2) [OF in_ Ag_Act this k s(2)] s(3) show ?thesis by blast
      next
        case (Ag_Leave why)
        from "1.prems"(1) False l a True Ag_Leave have
          "read_tick J (r - 1) (filter (\<lambda>s. s \<noteq> seat) active) (fst (forfeit seat m)) intents ls1 = Some (active', m', intents', ls')"
          by (simp add: read_tick.simps [of J r active m intents ls])
        from IH(3) [OF in_ Ag_Leave this _ s(2)] "1.prems"(2) obtain fs where
          fs: "m' = queue_forfeits fs (fst (forfeit seat m))" "set ls' \<subseteq> set ls1"
            "\<forall>si\<in>set intents'. answers (sent_in J B) (m_match_id m) (m_tick m) si" by auto
        then have "m' = queue_forfeits (seat # fs) m" by (simp add: queue_forfeits_def)
        with fs(2,3) s(3) show ?thesis by blast
      next
        case (Ag_Join v w x)
        with "1.prems"(1) False l a True show ?thesis by (simp add: read_tick.simps [of J r active m intents ls])
      qed
    qed
  qed
qed

lemma blocking_loop_run:
  "blocking_loop X J active ls p = Some q \<Longrightarrow> texts ls \<subseteq> B \<Longrightarrow>
   \<exists>ms. pumped X (sent_in J B) (pu_match p) ms (pu_match q) \<and> shown p (map (\<lambda>m. Frame (match_broadcast m)) ms) q"
proof (induction X J active ls p arbitrary: q rule: blocking_loop.induct)
  case (1 X J active ls p)
  show ?case
  proof (cases "m_phase (pu_match p) = Live")
    case False
    with "1.prems"(1) have "q = p" by (simp add: blocking_loop.simps [of X J active ls p])
    with False show ?thesis by (auto intro!: exI [of _ "[]"] pumped.Over)
  next
    case True
    with "1.prems"(1) obtain u active' m intents ls' m' where
      u: "show_tick active p = Some u" and r: "read_tick J (length active) active (pu_match u) [] ls = Some (active', m, intents, ls')"
      and s: "step X intents m = Some m'" and l: "blocking_loop X J active' ls' (u\<lparr>pu_match := m'\<rparr>) = Some q"
      by (auto simp: blocking_loop.simps [of X J active ls p] split: option.splits prod.splits)
    have um: "pu_match u = pu_match p" using show_tick_match [OF u] .
    from read_tick_run [OF r, of B] "1.prems"(2) obtain fs where
      fs: "m = queue_forfeits fs (pu_match p)" "set ls' \<subseteq> set ls"
        "\<forall>si\<in>set intents. answers (sent_in J B) (m_match_id (pu_match p)) (m_tick (pu_match p)) si"
      by (auto simp: um)
    have "texts ls' \<subseteq> B" using fs(2) "1.prems"(2) by (auto simp: texts_def)
    from "1.IH" [OF True u r refl refl refl s l this] obtain ms where
      ms: "pumped X (sent_in J B) m' ms (pu_match q)" "shown u (map (\<lambda>m. Frame (match_broadcast m)) ms) q" by auto
    have "pumped X (sent_in J B) (pu_match p) (pu_match p # ms) (pu_match q)"
      using pumped.Tick [OF True fs(3) _ ms(1)] s fs(1) by simp
    moreover have "shown p (map (\<lambda>m. Frame (match_broadcast m)) (pu_match p # ms)) q"
      using shown_trans [OF show_tick_shown [OF u] ms(2)] by simp
    ultimately show ?thesis by blast
  qed
qed

lemma pump_starting_run:
  "pump_starting X n p = Some q \<Longrightarrow>
   burn_countdown X (pu_match p) = Some (pu_match q) \<and> (\<exists>msgs. shown p msgs q) \<and> (m_phase (pu_match p) \<noteq> Starting \<longrightarrow> q = p)"
proof (induction X n p arbitrary: q rule: pump_starting.induct)
  case (1 X n p)
  show ?case
  proof (cases "m_phase (pu_match p) = Starting")
    case False
    with "1.prems" have "q = p" by (simp add: pump_starting.simps [of X n p])
    with False show ?thesis by (auto simp: burn_countdown.simps [of X "pu_match p"] intro!: exI [of _ "[]"])
  next
    case True
    with "1.prems" obtain u m where u: "show_tick [0..<n] p = Some u" and s: "step X [] (pu_match u) = Some m"
      and l: "pump_starting X n (u\<lparr>pu_match := m\<rparr>) = Some q"
      by (auto simp: pump_starting.simps [of X n p] split: option.splits)
    from "1.IH" [OF True u s l] True s show_tick_match [OF u] shown_trans [OF show_tick_shown [OF u]]
    show ?thesis by (auto simp: burn_countdown.simps [of X "pu_match p"])
  qed
qed

definition lines_of :: "channel \<Rightarrow> string set" where
  "lines_of ch = snd ` set (ch_queue ch)"

lemma recv_timeout_lines:
  "recv_timeout w ch = (ch', r) \<Longrightarrow> lines_of ch' \<subseteq> lines_of ch \<and> (\<forall>l. r = Rx_Line l \<longrightarrow> l \<in> lines_of ch)"
  by (cases "ch_queue ch") (auto simp: recv_timeout_def lines_of_def Let_def split: option.splits if_splits prod.splits)

lemma tk_intents_simps [simp]: "tk_intents (give_up e k) = tk_intents k" "tk_intents (heard s k) = tk_intents k"
  by (simp_all add: give_up_def heard_def split_beta)

lemma tick_reads_answers:
  "tick_reads J m d r k ch = Some (k', ch') \<Longrightarrow>
   \<forall>si\<in>set (tk_intents k). answers (sent_in J B) (m_match_id m) (m_tick m) si \<Longrightarrow> lines_of ch \<subseteq> B \<Longrightarrow>
   (\<forall>si\<in>set (tk_intents k'). answers (sent_in J B) (m_match_id m) (m_tick m) si) \<and> lines_of ch' \<subseteq> lines_of ch"
proof (induction J m d r k ch rule: tick_reads.induct)
  case (1 J m d r k ch)
  obtain c1 rx where rx: "recv_timeout (d - ch_now ch) ch = (c1, rx)" by fastforce
  note sub = recv_timeout_lines [OF rx]
  show ?case
  proof (cases "r = 0 \<or> rx = Rx_Timeout \<or> rx = Rx_Disconnected")
    case True
    with "1.prems" sub show ?thesis
      by (cases "r = 0") (auto simp: tick_reads.simps [of J m d r k ch] tick_reads.simps [of J m d 0] rx)
  next
    case False
    with "1.prems"(1) obtain line seat msg where r: "r \<noteq> 0" and l: "rx = Rx_Line line" and a: "read_agent J line = Some (seat, msg)"
      by (cases rx) (auto simp: tick_reads.simps [of J m d r k ch] rx split: option.splits)
    have s: "lines_of c1 \<subseteq> B" "line \<in> B" using sub l "1.prems"(3) by auto
    note IH = "1.IH" [OF r rx [symmetric] l a refl]
    show ?thesis
    proof (cases "List.member (tk_active k) seat")
      case out: False
      show ?thesis
      proof (cases "ch_now c1 \<ge> d")
        case True
        with "1.prems" r l a out sub show ?thesis by (auto simp: tick_reads.simps [of J m d r k ch] rx)
      next
        case False
        with "1.prems"(1) r l a out have "tick_reads J m d r k c1 = Some (k', ch')"
          by (simp add: tick_reads.simps [of J m d r k ch] rx)
        from IH(1) [OF out False this "1.prems"(2) s(1)] sub show ?thesis by blast
      qed
    next
      case True
      then have in_: "\<not> \<not> List.member (tk_active k) seat" by simp
      show ?thesis
      proof (cases msg)
        case (Ag_Act act)
        let ?k = "case ingest m seat act of Inl _ \<Rightarrow> heard seat k | Inr i \<Rightarrow> (heard seat k)\<lparr>tk_intents := bt_insert seat i (tk_intents k)\<rparr>"
        have "sent_in J B seat act" using a Ag_Act s(2) by (auto simp: sent_in_def)
        then have "\<forall>si\<in>set (tk_intents ?k). answers (sent_in J B) (m_match_id m) (m_tick m) si"
          using intent_answers [OF "1.prems"(2), of seat act] by (cases "ingest m seat act") simp_all
        moreover have "tick_reads J m d (r - 1) ?k c1 = Some (k', ch')"
          using "1.prems"(1) r l a True Ag_Act by (simp add: tick_reads.simps [of J m d r k ch] rx)
        ultimately show ?thesis using IH(2) [OF in_ Ag_Act _ _ s(1)] sub by blast
      next
        case (Ag_Leave why)
        have "tick_reads J m d (r - 1) ((heard seat k)\<lparr>tk_active := filter (\<lambda>s. s \<noteq> seat) (tk_active k)\<rparr>) c1 = Some (k', ch')"
          using "1.prems"(1) r l a True Ag_Leave by (simp add: tick_reads.simps [of J m d r k ch] rx)
        from IH(3) [OF in_ Ag_Leave this _ s(1)] "1.prems"(2) sub show ?thesis by auto
      next
        case (Ag_Join v w x)
        with "1.prems"(1) r l a True show ?thesis by (simp add: tick_reads.simps [of J m d r k ch] rx)
      qed
    qed
  qed
qed

lemma enforced_loop_run:
  "enforced_loop X J d active misses ch p = Some (q, ch') \<Longrightarrow> lines_of ch \<subseteq> B \<Longrightarrow>
   \<exists>ms. pumped X (sent_in J B) (pu_match p) ms (pu_match q) \<and> shown p (map (\<lambda>m. Frame (match_broadcast m)) ms) q"
proof (induction X J d active misses ch p arbitrary: q ch' rule: enforced_loop.induct)
  case (1 X J d active misses ch p)
  show ?case
  proof (cases "m_phase (pu_match p) = Live")
    case False
    with "1.prems"(1) have "q = p" by (simp add: enforced_loop.simps [of X J d active misses ch p])
    with False show ?thesis by (auto intro!: exI [of _ "[]"] pumped.Over)
  next
    case True
    with "1.prems"(1) obtain u k c1 m' where
      u: "show_tick active p = Some u" and r: "read_tick_deadlined J (pu_match u) active ch d misses = Some (k, c1)"
      and s: "step X (tk_intents k) (queue_forfeits (filter (\<lambda>s. \<not> List.member (tk_active k) s) active) (pu_match u)) = Some m'"
      and l: "enforced_loop X J d (tk_active k) (tk_misses k) c1 (u\<lparr>pu_match := m'\<rparr>) = Some (q, ch')"
      by (auto simp: enforced_loop.simps [of X J d active misses ch p] split: option.splits prod.splits)
    have um: "pu_match u = pu_match p" using show_tick_match [OF u] .
    have a: "\<forall>si\<in>set (tk_intents k). answers (sent_in J B) (m_match_id (pu_match p)) (m_tick (pu_match p)) si"
      "lines_of c1 \<subseteq> B"
      using tick_reads_answers [OF r [unfolded read_tick_deadlined_def], of B] "1.prems"(2) by (auto simp: um)
    from "1.IH" [OF True u r refl s l a(2)] obtain ms where
      ms: "pumped X (sent_in J B) m' ms (pu_match q)" "shown u (map (\<lambda>m. Frame (match_broadcast m)) ms) q" by auto
    have "pumped X (sent_in J B) (pu_match p) (pu_match p # ms) (pu_match q)"
      using pumped.Tick [OF True a(1) _ ms(1)] s um by simp
    moreover have "shown p (map (\<lambda>m. Frame (match_broadcast m)) (pu_match p # ms)) q"
      using shown_trans [OF show_tick_shown [OF u] ms(2)] by simp
    ultimately show ?thesis by blast
  qed
qed

subsection \<open>A pumped match ends, and its record verifies\<close>

definition channel_of :: "(nat \<times> (unit + string)) list \<Rightarrow> nat option \<Rightarrow> channel" where
  "channel_of ls eof = \<lparr>ch_queue = fst (feed_stdin_lines ls eof), ch_closed = snd (feed_stdin_lines ls eof), ch_now = 0\<rparr>"

lemma feed_stdin_texts: "snd ` set (fst (feed_stdin_lines ls eof)) \<subseteq> texts (map snd ls)"
  by (induction ls eof rule: feed_stdin_lines.induct) (auto simp: texts_def split_beta)

lemma drive_pump_run:
  assumes "drive_pump X J n deadline ls eof p = Some (q, result)"
  obtains ms p1 p2 msgs where "burn_countdown X (pu_match p) = Some (pu_match p1)" "shown p msgs p1"
    "m_phase (pu_match p) \<noteq> Starting \<longrightarrow> p1 = p"
    "pumped X (sent_in J (texts (map snd ls))) (pu_match p1) ms (pu_match p2)"
    "shown p1 (map (\<lambda>m. Frame (match_broadcast m)) ms) p2" "finish n p2 = Some (q, result)"
proof (cases deadline)
  case None
  with assms obtain p1 p2 where 1: "pump_starting X n p = Some p1" "blocking_loop X J [0..<n] (map snd ls) p1 = Some p2"
    "finish n p2 = Some (q, result)"
    by (auto simp: drive_pump_def pump_to_end_def panic_simps)
  then show ?thesis using that pump_starting_run [OF 1(1)] blocking_loop_run [OF 1(2) subset_refl] by blast
next
  case (Some d)
  with assms obtain p1 p2 c where 1: "pump_starting X n p = Some p1"
    "enforced_loop X J d [0..<n] [] (channel_of ls eof) p1 = Some (p2, c)" "finish n p2 = Some (q, result)"
    by (auto simp: drive_pump_def pump_to_end_enforced_def pump_to_end_deadlined_def panic_simps channel_of_def split: prod.splits)
  have "lines_of (channel_of ls eof) \<subseteq> texts (map snd ls)"
    using feed_stdin_texts by (simp add: lines_of_def channel_of_def)
  then show ?thesis using that pump_starting_run [OF 1(1)] enforced_loop_run [OF 1(2)] 1(3) by blast
qed

definition record_of :: "match_config \<Rightarrow> rules \<Rightarrow> match_result \<Rightarrow> arena_match \<Rightarrow> match_record" where
  "record_of c r result m = \<lparr>rec_config = c, rec_rules = r, rec_replay = build_replay m, rec_result = result\<rparr>"

lemma driven:
  assumes "new_with_pickups i c r ss bs pks sd = Some m0" "hostable c r ss bs pks" "max_ticks c \<le> MAX_REPLAY_TICKS"
    and "drive_pump X J n deadline ls eof \<lparr>pu_match = m0, pu_cast = cast, pu_out = out0\<rparr> = Some (q, result)"
  shows "recorded X m0 (pu_match q)" "m_phase (pu_match q) = Ended" "m_tick (pu_match q) \<le> max 1 (max_ticks c)"
    "to_record (pu_match q) = Some (record_of c r result (pu_match q))"
    "verify X (record_of c r result (pu_match q)) = Some (Inr result)"
proof -
  let ?p = "\<lparr>pu_match = m0, pu_cast = cast, pu_out = out0\<rparr>"
  obtain ms and p1 p2 :: pump where "burn_countdown X (pu_match ?p) = Some (pu_match p1)"
    and 1: "pumped X (sent_in J (texts (map snd ls))) (pu_match p1) ms (pu_match p2)" "finish n p2 = Some (q, result)"
    by (rule drive_pump_run [OF assms(4)]) blast
  then have b: "burn_countdown X m0 = Some (pu_match p1)" by simp
  note f = new_with_pickups_fresh [OF assms(1)]
  obtain es where es: "foldM (apply_event X) es m0 = Some (pu_match p1)" using burn_countdown_run [of X m0] b by auto
  have "match_ok X m0" using fresh_match_ok [OF assms(1)] assms(2) by (simp add: hostable_def)
  then have ok1: "match_ok X (pu_match p1)" by (rule match_machine.run_keeps [OF _ es])
  have "m_phase (pu_match p1) \<noteq> Starting" using b by (auto simp: burn_countdown_live live_start_def dest!: sym [of _ "pu_match p1"] split: if_splits)
  from pumped_run [OF 1(1) ok1 this] finish_shown(1,2) [OF 1(2)] obtain fs where
    fs: "foldM (apply_event X) fs (pu_match p1) = Some (pu_match q)" "match_ok X (pu_match q)"
    and ended: "m_phase (pu_match q) = Ended" and res: "m_result (pu_match q) = Some result" by auto
  have run: "foldM (apply_event X) (es @ fs) m0 = Some (pu_match q)" using es fs(1) by (simp add: foldM_append)
  show rec: "recorded X m0 (pu_match q)"
    by (rule recorded_run.run_keeps [OF fresh_recorded [OF assms(1)] run]) (use assms(2) in \<open>auto simp: hostable_def\<close>)
  then have cr: "m_config (pu_match q) = c" "m_rules (pu_match q) = r" using f by (auto simp: recorded_def same_setup_def)
  then show t: "m_tick (pu_match q) \<le> max 1 (max_ticks c)" using fs(2) by (auto simp: match_ok_def)
  show "m_phase (pu_match q) = Ended" by (fact ended)
  show tr: "to_record (pu_match q) = Some (record_of c r result (pu_match q))"
    using res cr by (simp add: to_record_def record_of_def)
  have "length (m_ticks (pu_match q)) \<le> MAX_REPLAY_TICKS"
    using t fs(2) assms(3) by (simp add: match_ok_def MAX_REPLAY_TICKS_def)
  from recorded_match_verifies [OF assms(1,2) run this tr]
  show "verify X (record_of c r result (pu_match q)) = Some (Inr result)" by (simp add: record_of_def)
qed

text \<open>
  Property C14. Whatever the agents write and whenever they write it, a match hosted within the verifier's limits, its tick cap
  included, that either pump brings to an end without a panic has ended within the tick cap; the result goes to every seat as its last frame; the record verifies with that
  result; and every action in the record is one that arrived for that seat, named that seat, that match and that
  tick, and is recorded clamped.
\<close>

theorem pumped_match_verifies:
  assumes "new_with_pickups i c r ss bs pks sd = Some m0" "hostable c r ss bs pks" "max_ticks c \<le> MAX_REPLAY_TICKS"
    and "drive_pump X J n deadline ls eof \<lparr>pu_match = m0, pu_cast = cast, pu_out = []\<rparr> = Some (q, result)"
  shows "m_phase (pu_match q) = Ended \<and> m_tick (pu_match q) \<le> max 1 (max_ticks c)
    \<and> (\<exists>rec. to_record (pu_match q) = Some rec \<and> rec_result rec = result \<and> verify X rec = Some (Inr result))
    \<and> (\<forall>seat<n. last (seat_frames seat (pu_out q)) = Gw_End result)
    \<and> (\<forall>t\<in>set (m_ticks (pu_match q)). \<forall>sa\<in>set (tr_actions t).
         answers (sent_in J (texts (map snd ls))) i (tr_tick t) (sa_seat sa, sa_intent sa))"
proof -
  let ?p = "\<lparr>pu_match = m0, pu_cast = cast, pu_out = []\<rparr>"
  note d = driven [OF assms]
  obtain ms and p1 p2 :: pump where "burn_countdown X (pu_match ?p) = Some (pu_match p1)"
    and 1: "pumped X (sent_in J (texts (map snd ls))) (pu_match p1) ms (pu_match p2)" "finish n p2 = Some (q, result)"
    by (rule drive_pump_run [OF assms(4)]) blast
  then have p1: "pu_match p1 = live_start m0" by (simp add: burn_countdown_live)
  have ok1: "match_ok X (pu_match p1)"
    using fresh_match_ok [OF assms(1)] assms(2) burn_countdown_run [of X m0] match_machine.run_keeps [of X m0]
    by (auto simp: p1 hostable_def burn_countdown_live)
  have "last (seat_frames seat (pu_out q)) = Gw_End result" if "seat < n" for seat
    using finish_quiet [OF 1(2), of seat] seat_frames_upt [OF that] by auto
  moreover have "m_match_id (pu_match p1) = i" "m_ticks (pu_match p1) = []"
    using new_with_pickups_fresh [OF assms(1)] p1 by (simp_all add: live_start_def)
  ultimately show ?thesis
    using d pumped_sent [OF 1(1) ok1] finish_shown(1) [OF 1(2)] by (auto simp: record_of_def)
qed

text \<open>
  Property C26. Who watches a match live sees what its record shows. When a match with a cast, hosted within the verifier's limits,
  its tick cap included, starts without a countdown and nobody forfeits, the frames written for spectators are exactly the stream that replaying the record gives.
\<close>

theorem live_cast_is_the_replay:
  assumes "new_with_pickups i c r ss bs pks sd = Some m0" "hostable c r ss bs pks" "max_ticks c \<le> MAX_REPLAY_TICKS"
    and "r_starting_ticks r = 0"
    and "drive_pump X J n deadline ls eof \<lparr>pu_match = m0, pu_cast = cast_new, pu_out = []\<rparr> = Some (q, result)"
    and "\<forall>t\<in>set (m_ticks (pu_match q)). tr_forfeits t = []"
  shows "\<exists>rec. to_record (pu_match q) = Some rec \<and> replay_to_spectator X rec = Some (Inr (spectator_frames (pu_out q)))"
proof -
  let ?p = "\<lparr>pu_match = m0, pu_cast = cast_new, pu_out = []\<rparr>"
  note f = new_with_pickups_fresh [OF assms(1)] and d = driven [OF assms(1,2,3,5)]
  let ?m = "pu_match q" and ?r = "record_of c r result (pu_match q)"
  obtain ms and p1 p2 :: pump where "m_phase (pu_match ?p) \<noteq> Starting \<longrightarrow> p1 = ?p"
    and 1: "pumped X (sent_in J (texts (map snd ls))) (pu_match p1) ms (pu_match p2)"
      "shown p1 (map (\<lambda>m. Frame (match_broadcast m)) ms) p2" "finish n p2 = Some (q, result)"
    by (rule drive_pump_run [OF assms(5)]) blast
  then have p1: "p1 = ?p" using f assms(4) by simp
  note q = finish_shown [OF 1(3)]
  have "match_ok X m0" using fresh_match_ok [OF assms(1)] assms(2) by (simp add: hostable_def)
  then obtain fs where fs: "frames_of X (m_ticks ?m) m0 = Some (?m, fs)"
    "map match_broadcast (ms @ [?m]) = match_broadcast m0 # fs"
    using pumped_frames [OF 1(1)] assms(2,6) f p1 q(1) by (auto simp: hostable_def)
  have "rerun_frames X ?r = Some (?m, match_broadcast m0 # fs)"
    using assms(1,4) f d(1) fs(1)
    by (simp add: rerun_frames_def Let_def record_of_def build_replay_def recorded_def same_setup_def burn_countdown_live live_start_def)
  from replay_streams(2) [OF d(5) this] have "replay_to_spectator X ?r
      = Some (Inr (map Frame (map match_broadcast (ms @ [?m])) @ [End result]))" by (simp only: fs(2))
  moreover obtain c0 where c0: "cast_new = Some c0" "cast_ok c0" using cast_new_fine by blast
  have "spectator_frames (pu_out q) = map Frame (map match_broadcast (ms @ [?m])) @ [End result]"
    using shown_trans [OF 1(2) q(3)] p1 q(1)
    by (simp add: c0 shown_def cast_fine_def comp_def spectator_frames_def [of "[]"])
  ultimately show ?thesis using d(4) by auto
qed

subsection \<open>The deadline\<close>

lemma forfeited_down:
  assumes "m_phase m = Live" "step X is (queue_forfeits fs m) = Some m'" "match_ok X m" "distinct (map si_seat (m_seats m))"
    and "\<forall>p\<in>set (m_pawns m). p_alive p \<longrightarrow> p_seat p \<in> set fs"
  shows "m_phase m' = Ended"
proof -
  obtain P where P: "queue_forfeits fs m = m\<lparr>m_pending_forfeits := P\<rparr>" "sorted_wrt (<) P"
    "\<forall>s\<in>set fs. pawn_alive m s \<longrightarrow> s \<in> set P"
    using queue_forfeits_pending [of m fs] assms(1,3) by (auto simp: match_ok_def)
  have d: "distinct (map p_seat (m_pawns m))" using assms(3,4) seated_seats by (fastforce simp: match_ok_def)
  from assms(1,2) P(1) obtain mem n ds acc u where
    1: "drain_forfeits (m\<lparr>m_pending_forfeits := P\<rparr>\<lparr>m_seat_memory := mem\<rparr>) = (n, ds)" "run_tick acc n = Some u"
      "m' = maybe_finish X (u\<lparr>m_ticks := m_ticks u @ [tick_entry (m_tick m) acc ds], m_tick := m_tick m + 1\<rparr>)"
    by (elim step_live_cases [of X "is" "queue_forfeits fs m" m']) auto
  have "m\<lparr>m_pending_forfeits := P\<rparr>\<lparr>m_seat_memory := mem\<rparr> = m\<lparr>m_seat_memory := mem\<rparr>\<lparr>m_pending_forfeits := P\<rparr>" by simp
  with 1(1) have "drain_forfeits (m\<lparr>m_seat_memory := mem\<rparr>\<lparr>m_pending_forfeits := P\<rparr>) = (n, ds)" by (simp only:)
  then have "m_pawns n = down_all (set P) (m_pawns m)"
    using drain_distinct [of "m\<lparr>m_seat_memory := mem\<rparr>" P] d P(2) strict_sorted_iff [of P] by auto
  moreover have "p_seat p \<in> set P" if "p \<in> set (m_pawns m)" "p_alive p" for p
    using that assms(5) P(3) by (auto simp: pawn_alive_def list_ex_iff)
  ultimately have "\<forall>p\<in>set (m_pawns n). \<not> p_alive p" by (auto simp: down_all_def down_pawn_def)
  moreover have "list_all2 (pawn_evolves (m_rules n) (m_config n)) (m_pawns n) (m_pawns u)"
    using run_tick_evolves [OF 1(2)] by (simp add: evolves_def)
  ultimately have "\<forall>p\<in>set (m_pawns u). \<not> p_alive p"
    by (fastforce simp: list_all2_conv_all_nth in_set_conv_nth pawn_evolves_def)
  then have "filter p_alive (m_pawns u) = []" by (simp add: filter_empty_conv)
  then show ?thesis by (simp add: 1(3) maybe_finish_def bs_collect_def)
qed

definition streak :: "(seat_id, nat) btree \<Rightarrow> seat_id \<Rightarrow> nat" where
  "streak misses s = (case bt_get misses s of None \<Rightarrow> 0 | Some k \<Rightarrow> k)"

text \<open>
  Who goes when a tick's read ends early: on a closed stream every active seat that did not answer, on a timeout
  exactly those for which it is the third tick in a row. The streaks of the others advance or stay.
\<close>

lemma silence_fold:
  assumes "fold (silence_seat eof) ss (active, misses) = (active', misses')" "distinct ss" "bt_inv misses"
  shows "active' = filter (\<lambda>s. s \<notin> set ss \<or> \<not> eof \<and> streak misses s + 1 < MISS_FORFEIT_THRESHOLD) active"
    "bt_inv misses' \<and> (\<forall>s. bt_get misses' s = (if s \<notin> set ss then bt_get misses s
       else if eof \<or> MISS_FORFEIT_THRESHOLD \<le> streak misses s + 1 then None else Some (streak misses s + 1)))"
  using assms
proof (induction ss arbitrary: active misses)
  case (Cons s ss)
  { case 1
    obtain a1 m1 where am: "silence_seat eof s (active, misses) = (a1, m1)" by fastforce
    have m1: "bt_inv m1" "\<And>t. t \<noteq> s \<Longrightarrow> bt_get m1 t = bt_get misses t"
      "a1 = filter (\<lambda>t. t \<noteq> s \<or> \<not> eof \<and> streak misses s + 1 < MISS_FORFEIT_THRESHOLD) active"
      using am 1(3) by (auto simp: silence_seat_def Let_def streak_def bt_inv_remove bt_inv_insert bt_get_remove
          bt_get_insert filter_id_conv split: if_splits option.splits)
    have st: "streak m1 t = streak misses t" if "t \<in> set ss" for t
    proof -
      have "t \<noteq> s" using that 1(2) by auto
      then show ?thesis by (simp add: streak_def m1(2))
    qed
    have "active' = filter (\<lambda>t. t \<notin> set ss \<or> \<not> eof \<and> streak m1 t + 1 < MISS_FORFEIT_THRESHOLD) a1"
      using Cons.IH(1) [of a1 m1] 1 am m1(1) by simp
    then show ?case using m1(3) 1(2) st by (auto intro!: filter_cong) }
  { case 2
    obtain a1 m1 where am: "silence_seat eof s (active, misses) = (a1, m1)" by fastforce
    have m1: "bt_inv m1" "\<And>t. bt_get m1 t = (if t \<noteq> s then bt_get misses t
       else if eof \<or> MISS_FORFEIT_THRESHOLD \<le> streak misses s + 1 then None else Some (streak misses s + 1))"
      using am 2(3) by (auto simp: silence_seat_def Let_def streak_def bt_inv_remove bt_inv_insert bt_get_remove
          bt_get_insert split: if_splits option.splits)
    have st: "streak m1 t = streak misses t" if "t \<in> set ss" for t
    proof -
      have "t \<noteq> s" using that 2(2) by auto
      then show ?thesis by (simp add: streak_def m1(2))
    qed
    from Cons.IH(2) [of a1 m1] 2 am m1 st show ?case by auto }
qed simp_all

lemma recv_timeout_time:
  "recv_timeout wait ch = (ch', r) \<Longrightarrow> ch_now ch \<le> ch_now ch' \<and> ch_now ch' \<le> ch_now ch + wait"
  by (cases "ch_queue ch") (auto simp: recv_timeout_def Let_def split: option.splits if_splits prod.splits)

lemma tick_reads_next:
  "tick_reads J m d r k ch = Some (k', ch') \<Longrightarrow> ch' = ch
   \<or> (\<exists>c1 rx. recv_timeout (d - ch_now ch) ch = (c1, rx)
        \<and> (ch' = c1 \<or> length (ch_queue c1) < length (ch_queue ch) \<and> (\<exists>r1 k1. tick_reads J m d r1 k1 c1 = Some (k', ch'))))"
  by (cases "recv_timeout (d - ch_now ch) ch")
    (auto simp: tick_reads.simps [of J m d r k ch] split: if_splits recv_result.splits option.splits agent_msg.splits
      dest: recv_timeout_line, blast+)

lemma tick_reads_time:
  "tick_reads J m d r k ch = Some (k', ch') \<Longrightarrow> ch_now ch \<le> d \<Longrightarrow> ch_now ch \<le> ch_now ch' \<and> ch_now ch' \<le> d"
proof (induction "length (ch_queue ch)" arbitrary: r k ch rule: less_induct)
  case less
  from tick_reads_next [OF less.prems(1)] consider "ch' = ch"
    | c1 rx where "recv_timeout (d - ch_now ch) ch = (c1, rx)" "ch' = c1"
    | c1 rx r1 k1 where "recv_timeout (d - ch_now ch) ch = (c1, rx)" "length (ch_queue c1) < length (ch_queue ch)"
        "tick_reads J m d r1 k1 c1 = Some (k', ch')"
    by blast
  then show ?case
  proof cases
    case 3
    with less.hyps [OF 3(2,3)] recv_timeout_time [OF 3(1)] less.prems(2) show ?thesis by auto
  qed (use less.prems recv_timeout_time in fastforce)+
qed

lemma enforced_loop_live:
  assumes "enforced_loop X J d active misses ch p = Some (q, ch')" "m_phase (pu_match p) = Live"
  obtains u k c1 m' where "pu_match u = pu_match p" "read_tick_deadlined J (pu_match p) active ch d misses = Some (k, c1)"
    "step X (tk_intents k) (queue_forfeits (filter (\<lambda>s. \<not> List.member (tk_active k) s) active) (pu_match p)) = Some m'"
    "enforced_loop X J d (tk_active k) (tk_misses k) c1 (u\<lparr>pu_match := m'\<rparr>) = Some (q, ch')"
proof -
  from assms obtain u where u: "show_tick active p = Some u"
    by (auto simp: enforced_loop.simps [of X J d active misses ch p] split: option.splits)
  with assms that show_tick_match [OF u] show ?thesis
    by (auto simp: enforced_loop.simps [of X J d active misses ch p] split: option.splits prod.splits)
qed

lemma enforced_loop_over:
  "enforced_loop X J d active misses ch p = Some (q, ch') \<Longrightarrow> m_phase (pu_match p) \<noteq> Live \<Longrightarrow> q = p \<and> ch' = ch"
  by (simp add: enforced_loop.simps [of X J d active misses ch p])

lemma enforced_loop_time:
  "enforced_loop X J d active misses ch p = Some (q, ch') \<Longrightarrow>
   m_tick (pu_match p) \<le> m_tick (pu_match q)
   \<and> ch_now ch' \<le> ch_now ch + d * (m_tick (pu_match q) - m_tick (pu_match p))"
proof (induction X J d active misses ch p arbitrary: q ch' rule: enforced_loop.induct)
  case (1 X J d active misses ch p)
  show ?case
  proof (cases "m_phase (pu_match p) = Live")
    case False
    with enforced_loop_over [OF "1.prems"] show ?thesis by simp
  next
    case True
    then obtain u k c1 m' where
      u: "show_tick active p = Some u" and r: "read_tick_deadlined J (pu_match u) active ch d misses = Some (k, c1)"
      and s: "step X (tk_intents k) (queue_forfeits (filter (\<lambda>s. \<not> List.member (tk_active k) s) active) (pu_match u)) = Some m'"
      and l: "enforced_loop X J d (tk_active k) (tk_misses k) c1 (u\<lparr>pu_match := m'\<rparr>) = Some (q, ch')"
      using "1.prems"(1)
      by (auto simp: enforced_loop.simps [of X J d active misses ch p] split: option.splits prod.splits)
    have um: "pu_match u = pu_match p" using show_tick_match [OF u] .
    have "m_tick m' = m_tick (pu_match p) + 1"
      using step_live_frame(8) [OF s] True um by simp
    moreover have "ch_now c1 \<le> ch_now ch + d"
      using tick_reads_time [OF r [unfolded read_tick_deadlined_def]] by simp
    moreover have IH: "m_tick m' \<le> m_tick (pu_match q)" "ch_now ch' \<le> ch_now c1 + d * (m_tick (pu_match q) - m_tick m')"
      using "1.IH" [OF True u r refl s l] by simp_all
    moreover have "m_tick (pu_match q) - m_tick (pu_match p) = Suc (m_tick (pu_match q) - m_tick m')"
      using calculation(1) IH(1) by arith
    ultimately show ?thesis by auto
  qed
qed

lemma tick_reads_stray:
  "tick_reads J m d r k ch = Some (k', ch') \<Longrightarrow> r \<noteq> 0 \<Longrightarrow>
   \<forall>l\<in>lines_of ch. \<exists>seat msg. read_agent J l = Some (seat, msg) \<and> seat \<notin> set (tk_active k) \<Longrightarrow>
   (\<exists>eof. k' = give_up eof k) \<and> lines_of ch' \<subseteq> lines_of ch"
proof (induction J m d r k ch rule: tick_reads.induct)
  case (1 J m d r k ch)
  obtain c1 rx where rx: "recv_timeout (d - ch_now ch) ch = (c1, rx)" by fastforce
  note sub = recv_timeout_lines [OF rx]
  show ?case
  proof (cases rx)
    case (Rx_Line line)
    with sub "1.prems"(3) obtain seat msg where a: "read_agent J line = Some (seat, msg)" "seat \<notin> set (tk_active k)" by auto
    then have out: "\<not> List.member (tk_active k) seat" by simp
    show ?thesis
    proof (cases "ch_now c1 \<ge> d")
      case True
      with "1.prems"(1,2) Rx_Line a sub show ?thesis by (auto simp: tick_reads.simps [of J m d r k ch] rx)
    next
      case False
      with "1.prems"(1,2) Rx_Line a have "tick_reads J m d r k c1 = Some (k', ch')"
        by (simp add: tick_reads.simps [of J m d r k ch] rx)
      from "1.IH"(1) [OF "1.prems"(2) rx [symmetric] Rx_Line a(1) refl out False this "1.prems"(2)] "1.prems"(3) sub
      show ?thesis by blast
    qed
  qed (use "1.prems"(1,2) sub in \<open>auto simp: tick_reads.simps [of J m d r k ch] rx\<close>)
qed

text \<open>A tick in which only strays arrive: everybody's streak grows, or everybody goes.\<close>

lemma silent_tick:
  assumes "read_tick_deadlined J m active ch d misses = Some (k, c1)" "active \<noteq> []" "distinct active" "bt_inv misses"
    and "\<forall>l\<in>lines_of ch. \<exists>seat msg. read_agent J l = Some (seat, msg) \<and> seat \<notin> set active"
    and "\<forall>s\<in>set active. streak misses s = j"
  shows "lines_of c1 \<subseteq> lines_of ch \<and> bt_inv (tk_misses k)
    \<and> (tk_active k = [] \<or> j + 1 < MISS_FORFEIT_THRESHOLD \<and> tk_active k = active \<and> (\<forall>s\<in>set active. streak (tk_misses k) s = j + 1))"
proof -
  let ?k = "\<lparr>tk_active = active, tk_answered = [], tk_misses = misses, tk_intents = []\<rparr>"
  have "length active \<noteq> 0" using assms(2) by simp
  with tick_reads_stray [OF assms(1) [unfolded read_tick_deadlined_def]] assms(5)
  obtain eof where k: "k = give_up eof ?k" "lines_of c1 \<subseteq> lines_of ch" by auto
  obtain a1 m1 where am: "fold (silence_seat eof) active (active, misses) = (a1, m1)" by fastforce
  note f = silence_fold [OF am assms(3,4)]
  have "tk_active k = a1" "tk_misses k = m1"
    using k(1) am by (simp_all add: give_up_def forfeit_silent_seats_def split_beta)
  with f k(2) assms(6) show ?thesis
    by (cases "\<not> eof \<and> j + 1 < MISS_FORFEIT_THRESHOLD") (auto simp: streak_def filter_empty_conv filter_id_conv)
qed

lemma silent_loop:
  assumes "enforced_loop X J d [0..<n] misses ch p = Some (q, ch')" "match_ok X (pu_match p)" "0 < n"
    and "map si_seat (m_seats (pu_match p)) = [0..<n]" "bt_inv misses" "\<forall>s\<in>set [0..<n]. streak misses s = j" "j < 3"
    and "\<forall>l\<in>lines_of ch. \<exists>seat msg. read_agent J l = Some (seat, msg) \<and> seat \<notin> set [0..<n]"
  shows "m_tick (pu_match q) \<le> m_tick (pu_match p) + (3 - j)"
  using assms
proof (induction "3 - j" arbitrary: j misses ch p)
  case (Suc i)
  show ?case
  proof (cases "m_phase (pu_match p) = Live")
    case False
    with enforced_loop_over [OF Suc.prems(1)] show ?thesis by simp
  next
    case True
    then obtain u k c1 m' where
      r: "read_tick_deadlined J (pu_match p) [0..<n] ch d misses = Some (k, c1)"
      and s: "step X (tk_intents k) (queue_forfeits (filter (\<lambda>s. \<not> List.member (tk_active k) s) [0..<n]) (pu_match p)) = Some m'"
      and l: "enforced_loop X J d (tk_active k) (tk_misses k) c1 (u\<lparr>pu_match := m'\<rparr>) = Some (q, ch')"
      by (elim enforced_loop_live [OF Suc.prems(1)]) blast
    note t = pumped_tick [OF True s Suc.prems(2)]
    from silent_tick [OF r _ distinct_upt Suc.prems(5,8,6)] Suc.prems(3) consider
      "tk_active k = []" | "lines_of c1 \<subseteq> lines_of ch" "bt_inv (tk_misses k)" "j + 1 < 3" "tk_active k = [0..<n]"
        "\<forall>s\<in>set [0..<n]. streak (tk_misses k) s = j + 1"
      by (auto simp: MISS_FORFEIT_THRESHOLD_def)
    then show ?thesis
    proof cases
      case 1
      have "\<forall>x\<in>set (m_pawns (pu_match p)). p_seat x \<in> set [0..<n]"
        using Suc.prems(2,4) seated_seats [of "m_seats (pu_match p)" "m_pawns (pu_match p)"]
        by (metis image_eqI list.set_map match_ok_def)
      with forfeited_down [OF True s Suc.prems(2)] Suc.prems(4) 1 have "m_phase m' = Ended" by auto
      with enforced_loop_over [OF l] t(6) Suc.prems(7) show ?thesis by auto
    next
      case 2
      have "\<forall>l\<in>lines_of c1. \<exists>seat msg. read_agent J l = Some (seat, msg) \<and> seat \<notin> set [0..<n]"
        using Suc.prems(8) 2(1) by blast
      then have "m_tick (pu_match q) \<le> m_tick m' + (3 - (j + 1))"
        using Suc.hyps(1) [OF _ l [unfolded 2(4)], of "j + 1"] Suc.hyps(2) Suc.prems(3,4) 2(2,3,5) t(2,7) by simp
      with t(6) Suc.prems(7) show ?thesis by simp
    qed
  qed
qed simp

text \<open>
  Property C25. The enforced pump keeps time. Whatever arrives, and however many seats are slow, a run takes at most the
  deadline per tick; and when nobody in the match says anything, whatever strays write, it is over after three ticks.
\<close>

theorem enforced_pump_keeps_time:
  assumes "enforced_loop X J d [0..<n] [] ch p = Some (q, ch')"
  shows "ch_now ch' \<le> ch_now ch + d * (m_tick (pu_match q) - m_tick (pu_match p))
    \<and> (match_ok X (pu_match p) \<and> 0 < n \<and> map si_seat (m_seats (pu_match p)) = [0..<n]
         \<and> (\<forall>l\<in>lines_of ch. \<exists>seat msg. read_agent J l = Some (seat, msg) \<and> n \<le> seat)
       \<longrightarrow> m_tick (pu_match q) \<le> m_tick (pu_match p) + 3 \<and> ch_now ch' \<le> ch_now ch + 3 * d)"
proof -
  note t = enforced_loop_time [OF assms]
  moreover have "m_tick (pu_match q) \<le> m_tick (pu_match p) + 3 \<and> ch_now ch' \<le> ch_now ch + 3 * d"
    if "match_ok X (pu_match p)" "0 < n" "map si_seat (m_seats (pu_match p)) = [0..<n]"
      "\<forall>l\<in>lines_of ch. \<exists>seat msg. read_agent J l = Some (seat, msg) \<and> n \<le> seat"
  proof -
    have "\<forall>l\<in>lines_of ch. \<exists>seat msg. read_agent J l = Some (seat, msg) \<and> seat \<notin> set [0..<n]" using that(4) by fastforce
    with silent_loop [OF assms that(1-3), of 0] have three: "m_tick (pu_match q) \<le> m_tick (pu_match p) + 3"
      by (simp add: bt_inv_def streak_def bt_get_def)
    then have "d * (m_tick (pu_match q) - m_tick (pu_match p)) \<le> 3 * d"
      unfolding mult.commute [of 3 d] by (intro mult_le_mono2) simp
    then have "ch_now ch + d * (m_tick (pu_match q) - m_tick (pu_match p)) \<le> ch_now ch + 3 * d" by (rule add_left_mono)
    with t three show ?thesis by (blast intro: order_trans)
  qed
  ultimately show ?thesis by blast
qed

subsection \<open>A line too many\<close>

definition acts :: "gateway_json \<Rightarrow> string \<Rightarrow> seat_id \<Rightarrow> u64 \<Rightarrow> bool" where
  "acts J l seat t \<longleftrightarrow> trim l \<noteq> [] \<and> (\<exists>a. read_agent J l = Some (seat, Ag_Act a) \<and> act_tick a = t)"

text \<open>Two lines end a tick of two seats, also when one is stale or both are the same seat's.\<close>

lemma two_lines:
  assumes "acts J l1 s t0" "t0 \<noteq> m_tick m \<or> s = 0" "acts J l2 0 t1" "s < 2"
  shows "\<exists>intents. read_tick J 2 [0, 1] m [] (Inr l1 # Inr l2 # ls) = Some ([0, 1], m, intents, ls)
    \<and> (\<forall>si\<in>set intents. answers (\<lambda>seat a. seat = 0) (m_match_id m) (m_tick m) si)"
proof -
  obtain a b where a: "trim l1 \<noteq> []" "read_agent J l1 = Some (s, Ag_Act a)" "act_tick a = t0"
    and b: "trim l2 \<noteq> []" "read_agent J l2 = Some (0, Ag_Act b)" using assms(1,3) by (auto simp: acts_def)
  let ?add = "\<lambda>seat a intents. case ingest m seat a of Inl _ \<Rightarrow> intents | Inr i \<Rightarrow> bt_insert seat i intents"
  let ?sent = "\<lambda>(seat :: seat_id) (a :: action). seat = 0"
  have s: "s = 0 \<or> s = 1" using assms(4) by auto
  have "\<forall>si\<in>set (?add s a []). answers ?sent (m_match_id m) (m_tick m) si"
  proof (cases "s = 0")
    case True
    then show ?thesis using intent_answers [of "[]" ?sent m s a] by simp
  next
    case False
    with assms(2) a(3) show ?thesis using ingest_accepts [of m s a] by (cases "ingest m s a") auto
  qed
  then have "\<forall>si\<in>set (?add 0 b (?add s a [])). answers ?sent (m_match_id m) (m_tick m) si"
    by (rule intent_answers) simp
  moreover have "read_tick J 2 [0, 1] m [] (Inr l1 # Inr l2 # ls) = Some ([0, 1], m, ?add 0 b (?add s a []), ls)"
    using a b s by (auto simp: read_tick.simps [of J 2] read_tick.simps [of J "Suc 0"] read_tick.simps [of J 0])
  ultimately show ?thesis by blast
qed

text \<open>Two seats that answer every tick in turn, seat 0 first.\<close>

primrec turns :: "(u64 \<Rightarrow> string) \<Rightarrow> (u64 \<Rightarrow> string) \<Rightarrow> u64 \<Rightarrow> nat \<Rightarrow> (unit + string) list" where
  "turns f g t 0 = []"
| "turns f g t (Suc k) = Inr (f t) # Inr (g t) # turns f g (t + 1) k"

lemma blocking_loop_live:
  assumes "blocking_loop X J active ls p = Some q" "m_phase (pu_match p) = Live"
  obtains u active' m intents ls' m' where "pu_match u = pu_match p"
    "read_tick J (length active) active (pu_match p) [] ls = Some (active', m, intents, ls')"
    "step X intents m = Some m'" "blocking_loop X J active' ls' (u\<lparr>pu_match := m'\<rparr>) = Some q"
proof -
  from assms obtain u where u: "show_tick active p = Some u"
    by (auto simp: blocking_loop.simps [of X J active ls p] split: option.splits)
  with assms that show_tick_match [OF u] show ?thesis
    by (auto simp: blocking_loop.simps [of X J active ls p] split: option.splits prod.splits)
qed

lemma blocking_loop_over: "blocking_loop X J active ls p = Some q \<Longrightarrow> m_phase (pu_match p) \<noteq> Live \<Longrightarrow> q = p"
  by (simp add: blocking_loop.simps [of X J active ls p])

definition muted :: "arena_match \<Rightarrow> arena_match \<Rightarrow> bool" where
  "muted m m' \<longleftrightarrow> (\<exists>ts. m_ticks m' = m_ticks m @ ts \<and> (\<forall>r\<in>set ts. \<forall>sa\<in>set (tr_actions r). sa_seat sa = 0))"

lemma muted_tick:
  assumes "step X intents m = Some m'" "m_phase m = Live" "muted m' m''"
    and "\<forall>si\<in>set intents. answers (\<lambda>seat a. seat = 0) (m_match_id m) (m_tick m) si"
  shows "muted m m''"
proof -
  from accepted_answers [OF assms(1,2,4)] obtain r where "m_ticks m' = m_ticks m @ [r]"
    "\<forall>sa\<in>set (tr_actions r). sa_seat sa = 0" by (auto simp: answers_def)
  with assms(3) show ?thesis by (auto simp: muted_def)
qed

lemma duel_tick:
  assumes "blocking_loop X J [0, 1] ls p = Some q" "m_phase (pu_match p) = Live"
    and "read_tick J 2 [0, 1] (pu_match p) [] ls = Some (active', m, intents, ls')"
  obtains u m' where "pu_match u = pu_match p" "step X intents m = Some m'"
    "blocking_loop X J active' ls' (u\<lparr>pu_match := m'\<rparr>) = Some q"
proof -
  obtain u a2 m2 i2 l2 m' where w: "pu_match u = pu_match p"
    "read_tick J (length [0 :: seat_id, 1]) [0, 1] (pu_match p) [] ls = Some (a2, m2, i2, l2)"
    "step X i2 m2 = Some m'" "blocking_loop X J a2 l2 (u\<lparr>pu_match := m'\<rparr>) = Some q"
    by (rule blocking_loop_live [OF assms(1,2)])
  moreover have "length [0 :: seat_id, 1] = 2" by simp
  ultimately show ?thesis using assms(3) that by (simp only: option.inject prod.inject)
qed

lemma behind_loop:
  assumes "blocking_loop X J [0, 1] (Inr (g t) # turns f g (t + 1) k) p = Some q" "m_tick (pu_match p) = t + 1"
    and "\<forall>u. acts J (f u) 0 u \<and> acts J (g u) 1 u"
  shows "muted (pu_match p) (pu_match q)"
  using assms
proof (induction k arbitrary: t p)
  case 0
  have "acts J (g t) 1 t" using 0(3) by blast
  then have "read_tick J 2 [0, 1] (pu_match p) [] [Inr (g t)] = None"
    by (auto simp: acts_def read_tick.simps [of J 2] read_tick.simps [of J "Suc 0"] split: sum.splits)
  then have "m_phase (pu_match p) \<noteq> Live" by (intro notI, elim blocking_loop_live [OF 0(1)]) (simp add: numeral_2_eq_2)
  with blocking_loop_over [OF 0(1)] show ?case by (simp add: muted_def)
next
  case (Suc k)
  show ?case
  proof (cases "m_phase (pu_match p) = Live")
    case False
    with blocking_loop_over [OF Suc.prems(1)] show ?thesis by (simp add: muted_def)
  next
    case True
    obtain intents where i: "read_tick J 2 [0, 1] (pu_match p) [] (Inr (g t) # turns f g (t + 1) (Suc k))
        = Some ([0, 1], pu_match p, intents, Inr (g (t + 1)) # turns f g (t + 2) k)"
      "\<forall>si\<in>set intents. answers (\<lambda>seat a. seat = 0) (m_match_id (pu_match p)) (m_tick (pu_match p)) si"
      using two_lines [of J "g t" 1 t "pu_match p" "f (t + 1)" "t + 1" "Inr (g (t + 1)) # turns f g (t + 2) k"] Suc.prems(2,3) by auto
    obtain u m' where u: "pu_match u = pu_match p" "step X intents (pu_match p) = Some m'"
      "blocking_loop X J [0, 1] (Inr (g (t + 1)) # turns f g (t + 2) k) (u\<lparr>pu_match := m'\<rparr>) = Some q"
      by (rule duel_tick [OF Suc.prems(1) True i(1)])
    have "muted m' (pu_match q)"
      using Suc.IH [of "t + 1" "u\<lparr>pu_match := m'\<rparr>"] u(3) Suc.prems(2,3) step_live_frame(8) [OF u(2) True] by simp
    then show ?thesis using muted_tick [OF u(2) True] i(2) by simp
  qed
qed

text \<open>
  Property C39. The blocking pump counts lines, not seats. In a duel in which both agents answer every tick, one repeated line of
  seat 0 silences seat 1 for the rest of the match: each of its actions is read one tick late, takes the slot and is
  refused as stale, so the record holds none.
\<close>

theorem repeated_line_silences_peer:
  assumes "blocking_loop X J [0, 1] (Inr again # turns f g t k) p = Some q" "m_tick (pu_match p) = t"
    and "acts J again 0 t" "\<forall>u. acts J (f u) 0 u \<and> acts J (g u) 1 u"
  shows "\<exists>ts. m_ticks (pu_match q) = m_ticks (pu_match p) @ ts \<and> (\<forall>r\<in>set ts. \<forall>sa\<in>set (tr_actions r). sa_seat sa = 0)"
proof (cases "m_phase (pu_match p) = Live")
  case False
  with blocking_loop_over [OF assms(1)] show ?thesis by simp
next
  case True
  show ?thesis
  proof (cases k)
    case 0
    then have "read_tick J 2 [0, 1] (pu_match p) [] (Inr again # turns f g t k) = None"
      using assms(3) by (auto simp: acts_def read_tick.simps [of J 2] read_tick.simps [of J "Suc 0"] split: sum.splits)
    then show ?thesis by - (rule blocking_loop_live [OF assms(1) True], simp add: numeral_2_eq_2)
  next
    case (Suc i)
    obtain intents where r: "read_tick J 2 [0, 1] (pu_match p) [] (Inr again # turns f g t k)
        = Some ([0, 1], pu_match p, intents, Inr (g t) # turns f g (t + 1) i)"
      "\<forall>si\<in>set intents. answers (\<lambda>seat a. seat = 0) (m_match_id (pu_match p)) (m_tick (pu_match p)) si"
      using two_lines [of J again 0 t "pu_match p" "f t" t "Inr (g t) # turns f g (t + 1) i"] assms(3,4) by (auto simp: Suc)
    obtain u m' where u: "step X intents (pu_match p) = Some m'"
      "blocking_loop X J [0, 1] (Inr (g t) # turns f g (t + 1) i) (u\<lparr>pu_match := m'\<rparr>) = Some q"
      by (rule duel_tick [OF assms(1) True r(1)])
    have "muted m' (pu_match q)"
      using behind_loop [OF u(2)] assms(2,4) step_live_frame(8) [OF u(1) True] by simp
    from muted_tick [OF u(1) True this r(2)] show ?thesis by (simp add: muted_def)
  qed
qed

text \<open>The blocking pump skips a blank line; the enforced one panics at it.\<close>

lemma blank_line_kills_enforced_pump:
  assumes "read_agent J [] = None" "m_phase (pu_match p) = Live" "active \<noteq> []" "ch_queue ch = (t, []) # rest"
    "t \<le> ch_now ch + d"
  shows "next_line (Inr [] # ls) = next_line ls" "enforced_loop X J d active misses ch p = None"
proof -
  have "read_tick_deadlined J m active ch d misses = None" for m
    using assms(1,3,4,5)
    by (simp add: read_tick_deadlined_def tick_reads.simps [of J m _ "length active"] recv_timeout_def)
  then have False if "enforced_loop X J d active misses ch p = Some (q, c)" for q c
    by - (rule enforced_loop_live [OF that assms(2)], simp)
  then show "enforced_loop X J d active misses ch p = None" by (cases "enforced_loop X J d active misses ch p") auto
qed (simp add: trim_def)

end
