(* ===== verification/Gateway_Duel.thy ===== *)
theory Gateway_Duel
  imports Gateway_Props
begin

section \<open>The pumps on a small duel\<close>

text \<open>
  A toy reading of lines: the first letter is the seat, the number of letters after it the tick, and a question
  mark leaves the match. Everybody stands still.
\<close>

definition stand :: action_intent where
  "stand = \<lparr>move_dir = vec2_zero, aim = 0, buttons = \<lparr>btn_fire = False, btn_jump = False, btn_ability = False, btn_reload = False\<rparr>\<rparr>"

definition stand_act :: "seat_id \<Rightarrow> u64 \<Rightarrow> action" where
  "stand_act seat t = \<lparr>act_protocol_version = PROTOCOL_VERSION, act_match_id = [], act_seat = seat, act_tick = t, act_intent = stand\<rparr>"

definition toy_json :: gateway_json where
  "toy_json = \<lparr>parse_envelope = (\<lambda>l. case l of
       [] \<Rightarrow> None
     | c # rest \<Rightarrow> let seat = (if c = CHR ''a'' then 0 else if c = CHR ''b'' then 1 else 7)
         in Some (seat, if rest = ''?'' then Ag_Leave [] else Ag_Act (stand_act seat (length rest))))\<rparr>"

lemma clamped_stand: "clamped stand = stand"
  by (simp add: clamped_def stand_def clamp_move_short norm_sq_def vec2_zero_def)

lemma stand_slide: "slide (duel_at blitz_config) 0 \<lparr>vx = - 20000, vy = 0\<rparr> 0 vec2_zero speed = Some \<lparr>vx = - 20000, vy = 0\<rparr>"
  by (auto simp: slide_def slide_target_def path_obstructed_def vec2_zero_def blitz_config_def duel_config_def duel_start_def
      duel_rules_def default_rules_defs as_i32_def clamp_panics_def clampi_def panic_simps)

lemma stand_accepted: "accept_intents (duel_at blitz_config) [(0, stand)] = [(0, stand)]"
  by (simp add: accept_intents_def bt_collect_def clamped_stand pawn_alive_def duel_start_def duel_pawn_def)

lemma stand_moves:
  "move_pawn [(0, stand)] 0 (duel_at blitz_config) = Some (duel_at blitz_config)" "move_pawn [(0, stand)] 1 (duel_at blitz_config) = Some (duel_at blitz_config)"
proof -
  let ?p = "duel_pawn 0 (- 20000) 0" and ?q = "duel_pawn 1 20000 32768"
  have p: "m_pawns (duel_at blitz_config) ! 0 = ?p" and q: "m_pawns (duel_at blitz_config) ! 1 = ?q" unfolding duel_at_simps by simp_all
  have p0: "m_pawns duel_start ! 0 = ?p" using p by simp
  have set0: "set_pawn 0 ?p (duel_at blitz_config) = duel_at blitz_config" unfolding set_pawn_def p [symmetric] by simp
  have set1: "set_pawn 1 ?q (duel_at blitz_config) = duel_at blitz_config" unfolding set_pawn_def q [symmetric] by simp
  have v: "?p\<lparr>p_facing := 0\<rparr> = ?p" "?p\<lparr>p_vel := \<lparr>vx = 0, vy = 0\<rparr>, p_pos := \<lparr>vx = - 20000, vy = 0\<rparr>\<rparr> = ?p"
    "?q\<lparr>p_vel := vec2_zero\<rparr> = ?q"
    by (simp_all add: duel_pawn_def vec2_zero_def)
  have pos: "p_pos ?p = \<lparr>vx = - 20000, vy = 0\<rparr>" "p_seat ?p = 0" "p_z ?p = 0" "p_alive ?p" "p_seat ?q = 1" "p_alive ?q"
    by (simp_all add: duel_pawn_def)
  have st: "move_dir stand = vec2_zero" "aim stand = 0" by (simp_all add: stand_def)
  show "move_pawn [(0, stand)] 0 (duel_at blitz_config) = Some (duel_at blitz_config)"
    unfolding move_pawn_def p Let_def using v pos st
    by (simp add: bt_get_def stand_slide dashing_def set0 p p0 in_i32_def ck_i32_def)
  show "move_pawn [(0, stand)] 1 (duel_at blitz_config) = Some (duel_at blitz_config)"
    unfolding move_pawn_def q Let_def using v pos set1 by (simp add: bt_get_def)
qed

lemma stand_acts: "i < 2 \<Longrightarrow> act_pawn [(0, stand)] i m = Some m"
  by (simp add: act_pawn_def Let_def bt_get_def stand_def)

lemma stand_tick: "run_tick [(0, stand)] (duel_at blitz_config) = Some (duel_at blitz_config)"
proof -
  have g: "r_gravity duel_rules = 0" by (simp add: duel_rules_def default_rules_defs)
  have n: "[0..<length (m_pawns (duel_at blitz_config))] = [0, 1]" unfolding duel_at_simps by (simp add: upt_rec)
  show ?thesis
    unfolding run_tick_def Let_def duel_cooldowns [OF duel_faces_off] n
    using g duel_at_simps [of blitz_config] stand_moves
    by (simp add: stand_acts process_pickups_def advance_projectiles_def)
qed

definition stand_log :: "tick_record list" where
  "stand_log = [\<lparr>tr_tick = 0, tr_actions = [\<lparr>sa_seat = 0, sa_intent = stand\<rparr>], tr_forfeits = []\<rparr>]"

definition stand_end :: arena_match where
  "stand_end = maybe_finish toy_crates ((duel_at blitz_config)\<lparr>m_ticks := stand_log, m_tick := 1\<rparr>)"

lemma stand_step: "step toy_crates [(0, stand)] blitz_start = Some stand_end"
proof -
  let ?c = blitz_config
  have r: "refresh_if (duel_at ?c) = Some (duel_at ?c)"
    unfolding refresh_if_def duel_at_simps by (simp add: duel_rules_def default_rules_defs)
  show ?thesis
    unfolding duel_at_duel(2) step_live_eq [OF duel_at_simps(5)] r using duel_at_simps [of ?c]
    by (simp add: tick_body_def duel_drain [OF duel_faces_off] stand_accepted stand_tick close_tick_def ck_u_def stand_log_def stand_end_def)
qed

lemma stand_end_simps: "m_phase stand_end = Ended" "m_ticks stand_end = stand_log" "m_result stand_end \<noteq> None" "m_tick stand_end = 1"
  by (simp_all add: stand_end_def maybe_finish_def blitz_config_def)

subsection \<open>Driving the pumps\<close>

lemma blitz_shown: "\<exists>u. show_tick [0, 1] \<lparr>pu_match = blitz_start, pu_cast = c, pu_out = out\<rparr> = Some u"
proof -
  have "\<exists>o1. observe blitz_start s = Some o1" if "s < 2" for s
    using that by (auto simp: observe_def find_pawn_def visible_remembered_def blitz_start_def duel_start_def duel_pawn_def
        duel_rules_def default_rules_defs less_2_cases_iff)
  from this [of 0] this [of 1] show ?thesis by (auto simp: show_tick_def split_beta)
qed

lemma blitz_live: "m_phase blitz_start = Live" "m_tick blitz_start = 0" "m_match_id blitz_start = []"
  by (simp_all add: blitz_start_def duel_start_def)

lemma stand_ingest: "ingest blitz_start s (stand_act s t) = (if t = 0 \<and> s < 2 then Inr stand else ingest blitz_start s (stand_act s t))"
  using clamped_stand by (auto simp: ingest_def stand_act_def action_validate_def check_version_def blitz_live pawn_alive_def
      blitz_start_def duel_start_def duel_pawn_def)

text \<open>One tick: seat 0 answers in time, seat 1 names another tick.\<close>

abbreviation blitz_pump :: "spectator_cast option \<Rightarrow> pump" where
  "blitz_pump c \<equiv> \<lparr>pu_match = blitz_start, pu_cast = c, pu_out = []\<rparr>"

abbreviation blitz_lines :: "(nat \<times> (unit + string)) list" where
  "blitz_lines \<equiv> [(0, Inr ''a''), (5, Inr ''bx'')]"

lemma blitz_reads:
  "read_agent toy_json ''a'' = Some (0, Ag_Act (stand_act 0 0))" "read_agent toy_json ''bx'' = Some (1, Ag_Act (stand_act 1 1))"
  "read_agent toy_json ''b'' = Some (1, Ag_Act (stand_act 1 0))"
  by (simp_all add: read_agent_def toy_json_def)

lemma blitz_ingests: "ingest blitz_start 0 (stand_act 0 0) = Inr stand" "\<exists>e. ingest blitz_start 1 (stand_act 1 1) = Inl e"
proof -
  show "ingest blitz_start 0 (stand_act 0 0) = Inr stand" using stand_ingest [of 0 0] by simp
  show "\<exists>e. ingest blitz_start 1 (stand_act 1 1) = Inl e"
    using ingest_accepts [of blitz_start 1 "stand_act 1 1"] blitz_live by (cases "ingest blitz_start 1 (stand_act 1 1)") (auto simp: stand_act_def)
qed

lemma blitz_tick:
  "read_tick toy_json 2 [0, 1] blitz_start [] (map snd blitz_lines) = Some ([0, 1], blitz_start, [(0, stand)], [])"
  "read_tick toy_json 2 [0, 1] blitz_start [] (Inr ''a'' # Inr ''a'' # ls) = Some ([0, 1], blitz_start, [(0, stand)], ls)"
  using blitz_ingests blitz_reads
  by (auto simp: read_tick.simps [of toy_json 2] read_tick.simps [of toy_json "Suc 0"] read_tick.simps [of toy_json 0] trim_def is_space_def)

lemma blitz_loop:
  assumes "read_tick toy_json 2 [0, 1] blitz_start [] ls = Some ([0, 1], blitz_start, [(0, stand)], ls')"
  shows "\<exists>q. blocking_loop toy_crates toy_json [0, 1] ls (blitz_pump c) = Some q \<and> pu_match q = stand_end"
proof -
  obtain u where u: "show_tick [0, 1] (blitz_pump c) = Some u" using blitz_shown by blast
  note m = show_tick_match [OF u]
  have "blocking_loop toy_crates toy_json [0, 1] ls' (u\<lparr>pu_match := stand_end\<rparr>) = Some (u\<lparr>pu_match := stand_end\<rparr>)"
    by (simp add: blocking_loop.simps [of _ _ _ ls'] stand_end_simps)
  then show ?thesis
    using assms u m blitz_live(1) stand_step by (simp add: blocking_loop.simps [of _ _ _ ls] numeral_2_eq_2)
qed

lemma blitz_driven:
  "\<exists>q result. drive_pump toy_crates toy_json 2 None blitz_lines None (blitz_pump c) = Some (q, result) \<and> pu_match q = stand_end"
proof -
  obtain q where q: "blocking_loop toy_crates toy_json [0, 1] (map snd blitz_lines) (blitz_pump c) = Some q" "pu_match q = stand_end"
    using blitz_loop [OF blitz_tick(1)] by blast
  obtain r where r: "m_result stand_end = Some r" using stand_end_simps(3) by blast
  have "pump_starting toy_crates 2 (blitz_pump c) = Some (blitz_pump c)" using blitz_live by (simp add: pump_starting.simps)
  moreover have "[0..<2] = [0, 1 :: nat]" by (simp add: upt_rec)
  ultimately show ?thesis using q r by (simp add: drive_pump_def pump_to_end_def finish_def split_beta)
qed

lemma blitz_ticks: "max_ticks blitz_config \<le> MAX_REPLAY_TICKS" by (simp add: blitz_config_def MAX_REPLAY_TICKS_def)

theorem pumped_match_verifies_witness:
  "\<exists>q result. drive_pump toy_crates toy_json 2 None blitz_lines None (blitz_pump None) = Some (q, result)
     \<and> m_ticks (pu_match q) = stand_log \<and> last (seat_frames 1 (pu_out q)) = Gw_End result
     \<and> (\<exists>rec. to_record (pu_match q) = Some rec \<and> verify toy_crates rec = Some (Inr result))"
proof -
  obtain q result where d: "drive_pump toy_crates toy_json 2 None blitz_lines None (blitz_pump None) = Some (q, result)"
    "pu_match q = stand_end" using blitz_driven by blast
  from pumped_match_verifies [OF blitz_new blitz_hostable blitz_ticks d(1)] d stand_end_simps(2) show ?thesis by auto
qed

theorem live_cast_is_the_replay_witness:
  "\<exists>q result rec fs. drive_pump toy_crates toy_json 2 None blitz_lines None (blitz_pump cast_new) = Some (q, result)
     \<and> to_record (pu_match q) = Some rec \<and> replay_to_spectator toy_crates rec = Some (Inr fs)
     \<and> spectator_frames (pu_out q) = fs"
proof -
  obtain q result where d: "drive_pump toy_crates toy_json 2 None blitz_lines None (blitz_pump cast_new) = Some (q, result)"
    "pu_match q = stand_end" using blitz_driven by blast
  have "r_starting_ticks duel_rules = 0" by (simp add: duel_rules_def default_rules_defs)
  moreover have "\<forall>t\<in>set (m_ticks (pu_match q)). tr_forfeits t = []" using d(2) stand_end_simps(2) by (simp add: stand_log_def)
  ultimately show ?thesis using live_cast_is_the_replay [OF blitz_new blitz_hostable blitz_ticks _ d(1)] d(1) by blast
qed

lemma enforced_loop_stops: "m_phase (pu_match p) \<noteq> Live \<Longrightarrow> enforced_loop X J d active misses ch p = Some (p, ch)"
  by (simp add: enforced_loop.simps [of X J d active misses ch p])

text \<open>Nobody says anything: one timeout, and the one tick is over.\<close>

theorem enforced_pump_keeps_time_witness:
  "\<exists>q ch. enforced_loop toy_crates toy_json 50 [0..<2] [] \<lparr>ch_queue = [], ch_closed = None, ch_now = 7\<rparr> (blitz_pump None) = Some (q, ch)
     \<and> m_tick (pu_match q) = 1 \<and> ch_now ch \<le> 57"
proof -
  let ?ch = "\<lparr>ch_queue = [], ch_closed = None, ch_now = 7\<rparr> :: channel"
  let ?e = "maybe_finish toy_crates ((duel_at blitz_config)\<lparr>m_ticks := idle_log, m_tick := 1\<rparr>)"
  have n: "[0..<2] = [0, 1 :: nat]" by (simp add: upt_rec)
  obtain u where u: "show_tick [0, 1] (blitz_pump None) = Some u" using blitz_shown by blast
  note m = show_tick_match [OF u]
  let ?k = "\<lparr>tk_active = [0, 1], tk_answered = [], tk_misses = [(0, 1), (1, 1)], tk_intents = []\<rparr> :: tick_read"
  have r: "read_tick_deadlined toy_json blitz_start [0, 1] ?ch 50 [] = Some (?k, ?ch\<lparr>ch_now := 57\<rparr>)"
    by (simp add: read_tick_deadlined_def tick_reads.simps recv_timeout_def give_up_def forfeit_silent_seats_def
        silence_seat_def bt_get_def MISS_FORFEIT_THRESHOLD_def)
  have s: "step toy_crates [] blitz_start = Some ?e" unfolding duel_at_duel(2) by (rule duel_idle_step)
  have e: "m_phase ?e \<noteq> Live" "m_tick ?e = 1" by (simp_all add: maybe_finish_def blitz_config_def)
  let ?q = "u\<lparr>pu_match := ?e\<rparr>"
  have over: "enforced_loop toy_crates toy_json 50 [0, 1] [(0, 1), (1, 1)] (?ch\<lparr>ch_now := 57\<rparr>) ?q = Some (?q, ?ch\<lparr>ch_now := 57\<rparr>)"
    by (rule enforced_loop_stops) (use e(1) in simp)
  have "enforced_loop toy_crates toy_json 50 [0..<2] [] ?ch (blitz_pump None) = Some (?q, ?ch\<lparr>ch_now := 57\<rparr>)"
    unfolding n using over u m r s blitz_live(1)
    by (simp add: enforced_loop.simps [of _ _ _ _ _ _ "blitz_pump None"] queue_forfeits_def)
  from enforced_pump_keeps_time [OF this] this e(2) blitz_live(2) show ?thesis by auto
qed

text \<open>Seat 0 repeats its line once; the match is recorded without a move of seat 1, although it answered.\<close>

theorem repeated_line_silences_peer_witness:
  "\<exists>q. blocking_loop toy_crates toy_json [0, 1] [Inr ''a'', Inr ''a'', Inr ''b''] (blitz_pump None) = Some q
     \<and> read_agent toy_json ''b'' = Some (1, Ag_Act (stand_act 1 0)) \<and> m_ticks (pu_match q) = stand_log
     \<and> (\<forall>r\<in>set (m_ticks (pu_match q)). \<forall>sa\<in>set (tr_actions r). sa_seat sa = 0)"
proof -
  let ?f = "\<lambda>u. CHR ''a'' # replicate u (CHR ''x'')" and ?g = "\<lambda>u. CHR ''b'' # replicate u (CHR ''x'')"
  obtain q where q: "blocking_loop toy_crates toy_json [0, 1] [Inr ''a'', Inr ''a'', Inr ''b''] (blitz_pump None) = Some q"
    "pu_match q = stand_end" using blitz_loop [OF blitz_tick(2)] by blast
  have x: "replicate u (CHR ''x'') \<noteq> ''?''" for u by (cases u) auto
  have tr: "trim (c # cs) \<noteq> []" if "\<not> is_space c" for c cs
    using that by (auto simp: trim_def dropWhile_eq_Nil_conv)
  have ab: "acts toy_json (?f u) 0 u" "acts toy_json (?g u) 1 u" for u
    using x tr [of "CHR ''a''"] tr [of "CHR ''b''"] by (auto simp: acts_def read_agent_def toy_json_def stand_act_def is_space_def)
  have again: "acts toy_json ''a'' 0 0" using ab(1) [of 0] by simp
  have "blocking_loop toy_crates toy_json [0, 1] (Inr ''a'' # turns ?f ?g 0 1) (blitz_pump None) = Some q" using q(1) by simp
  from repeated_line_silences_peer [OF this _ again] ab blitz_live(2)
  obtain ts where "m_ticks stand_end = m_ticks blitz_start @ ts" "\<forall>r\<in>set ts. \<forall>sa\<in>set (tr_actions r). sa_seat sa = 0"
    using q(2) by auto
  moreover have "m_ticks blitz_start = []" by (simp add: blitz_start_def duel_start_def)
  ultimately show ?thesis using q blitz_reads(3) stand_end_simps(2) by (intro exI [of _ q]) simp
qed

end
