(* ===== verification/Harness_Args.thy ===== *)
theory Harness_Args
  imports Arena_Map Mesh_Registry
begin

section \<open>The command line of the gateway (\<^verbatim>\<open>src/arena/harness/src/main.rs\<close>)\<close>

text \<open>
  \<^verbatim>\<open>Args\<close>, the parsers of its values and \<^verbatim>\<open>parse_args_from\<close>. A failed \<^verbatim>\<open>expect\<close> or assertion is a panic,
  \<open>None\<close>. Paths are strings. The arms of the code's one match are the two tables \<open>SWITCHES\<close> and \<open>VALUE_FLAGS\<close>;
  the match id stays text until the end, as in the code, and is parsed by the library \<^verbatim>\<open>uuid\<close>, a parameter.
\<close>

record args =
  ag_match_id :: uuid
  ag_seed :: u64
  ag_seats :: u8
  ag_teams :: u8
  ag_max_ticks :: u64
  ag_settle_dev_mock :: bool
  ag_mode :: "match_mode option"
  ag_human_seats :: "seat_id list"
  ag_ladder_file :: "string option"
  ag_emit_replay :: "string option"
  ag_replay :: "string option"
  ag_spectate :: bool
  ag_registered :: "(string \<times> int) list"
  ag_min_reputation :: "int option"
  ag_dev_auth :: bool
  ag_dev_allow :: "string list"
  ag_self_play :: bool
  ag_arena :: string
  ag_map_file :: "string option"
  ag_perception_memory :: u16
  ag_fov :: u8
  ag_aim_mode :: aim_mode
  ag_friendly_fire :: bool
  ag_gravity :: i32
  ag_starting_ticks :: u32
  ag_weapon_mode :: weapon_mode
  ag_vertical_hit_tolerance :: i32
  ag_fall_damage :: u16
  ag_knockback_velocity :: i32
  ag_wall_slide :: bool
  ag_fall_damage_threshold :: i32
  ag_knockback_horizontal :: i32
  ag_dash_cooldown :: u16
  ag_pawn_radius :: i32
  ag_pawn_height :: i32
  ag_max_shield :: u16
  ag_start_health :: u16
  ag_damage :: u16
  ag_fire_cooldown :: u16
  ag_mag_size :: u16
  ag_max_speed :: i32
  ag_perception_range :: i32
  ag_weapon_range :: i32
  ag_hit_radius :: i32
  ag_melee_cooldown :: u16
  ag_melee_damage :: u16
  ag_melee_range :: i32
  ag_projectile_speed :: i32
  ag_action_deadline_micros :: u32
  ag_enforce_deadline :: bool
  ag_pickup_radius :: i32
  ag_pickup_respawn_cooldown :: u16
  ag_spawn_jitter :: i32
  ag_spawn_radius :: i32

subsection \<open>Values\<close>

definition parse_u :: "nat \<Rightarrow> string \<Rightarrow> nat option" where
  "parse_u w s = Option.bind (parse_u128 s) (\<lambda>n. if n < 2 ^ w then Some n else None)"

definition parse_i128 :: "string \<Rightarrow> int option" where
  "parse_i128 t =
     (let (neg, ds) = (case t of [] \<Rightarrow> (False, []) | c # r \<Rightarrow>
            if c = CHR ''-'' then (True, r) else if c = CHR ''+'' then (False, r) else (False, t));
          v = (if neg then - int (decimal_value ds) else int (decimal_value ds))
      in if ds \<noteq> [] \<and> list_all is_ascii_digit ds \<and> in_i128 v then Some v else None)"

definition rsplit_once :: "char \<Rightarrow> string \<Rightarrow> (string \<times> string) option" where
  "rsplit_once c s =
     (if c \<in> set s then Some (rev (tl (dropWhile (\<lambda>x. x \<noteq> c) (rev s))), rev (takeWhile (\<lambda>x. x \<noteq> c) (rev s))) else None)"

definition parse_mode :: "string \<Rightarrow> match_mode option" where
  "parse_mode v = (if v = ''human'' then Some Mode_Human else if v = ''agent'' then Some Mode_Agent
     else if v = ''mixed'' then Some Mode_Mixed else None)"

definition parse_arena :: "string \<Rightarrow> string option" where
  "parse_arena v = named_arena v"

definition parse_fov :: "string \<Rightarrow> u8 option" where
  "parse_fov v = do { spread \<leftarrow> parse_u 8 v; if spread \<le> 4 then Some spread else None }"

definition parse_aim_mode :: "string \<Rightarrow> aim_mode option" where
  "parse_aim_mode v = (if v = ''octant'' then Some Octant else if v = ''fine'' then Some Fine else None)"

definition parse_weapon_mode :: "string \<Rightarrow> weapon_mode option" where
  "parse_weapon_mode v = (if v = ''hitscan'' then Some Hitscan else if v = ''projectile'' then Some Projectile_Mode
     else if v = ''melee'' then Some Melee else None)"

definition parse_starting_ticks :: "string \<Rightarrow> u32 option" where
  "parse_starting_ticks v = parse_u 32 v"

text \<open>\<^verbatim>\<open>value.parse::<u32>()\<close> followed by \<^verbatim>\<open>i32::try_from\<close>.\<close>

definition parse_magnitude :: "string \<Rightarrow> i32 option" where
  "parse_magnitude v = do { n \<leftarrow> parse_u 32 v; ck_i32 (int n) }"

definition parse_gravity :: "string \<Rightarrow> i32 option" where "parse_gravity = parse_magnitude"
definition parse_vertical_hit_tolerance :: "string \<Rightarrow> i32 option" where "parse_vertical_hit_tolerance = parse_magnitude"
definition parse_knockback_velocity :: "string \<Rightarrow> i32 option" where "parse_knockback_velocity = parse_magnitude"
definition parse_fall_damage_threshold :: "string \<Rightarrow> i32 option" where "parse_fall_damage_threshold = parse_magnitude"
definition parse_knockback_horizontal :: "string \<Rightarrow> i32 option" where "parse_knockback_horizontal = parse_magnitude"
definition parse_pawn_radius :: "string \<Rightarrow> i32 option" where "parse_pawn_radius = parse_magnitude"
definition parse_pawn_height :: "string \<Rightarrow> i32 option" where "parse_pawn_height = parse_magnitude"
definition parse_max_speed :: "string \<Rightarrow> i32 option" where "parse_max_speed = parse_magnitude"
definition parse_perception_range :: "string \<Rightarrow> i32 option" where "parse_perception_range = parse_magnitude"
definition parse_weapon_range :: "string \<Rightarrow> i32 option" where "parse_weapon_range = parse_magnitude"
definition parse_hit_radius :: "string \<Rightarrow> i32 option" where "parse_hit_radius = parse_magnitude"
definition parse_melee_range :: "string \<Rightarrow> i32 option" where "parse_melee_range = parse_magnitude"
definition parse_projectile_speed :: "string \<Rightarrow> i32 option" where "parse_projectile_speed = parse_magnitude"
definition parse_pickup_radius :: "string \<Rightarrow> i32 option" where "parse_pickup_radius = parse_magnitude"
definition parse_spawn_jitter :: "string \<Rightarrow> i32 option" where "parse_spawn_jitter = parse_magnitude"
definition parse_spawn_radius :: "string \<Rightarrow> i32 option" where "parse_spawn_radius = parse_magnitude"

definition parse_human_seats :: "string \<Rightarrow> seat_id list option" where
  "parse_human_seats v = those (map (parse_u 8) (filter (\<lambda>s. s \<noteq> []) (split_on (CHR '','') v)))"

definition parse_registered :: "string \<Rightarrow> (string \<times> int) option" where
  "parse_registered v =
     (let raw = trim v in
      if raw = [] then None
      else case rsplit_once (CHR '':'') raw of
        None \<Rightarrow> Some (raw, 0)
      | Some (a, r) \<Rightarrow> do { rep \<leftarrow> parse_i128 (trim r); if trim a = [] then None else Some (trim a, rep) })"

definition parse_dev_allow :: "string \<Rightarrow> string option" where
  "parse_dev_allow v = (if trim v = [] then None else Some (trim v))"

subsection \<open>Flags\<close>

text \<open>A value flag parses its value and writes one field.\<close>

definition writes :: "(string \<Rightarrow> 'v option) \<Rightarrow> (('v \<Rightarrow> 'v) \<Rightarrow> args \<Rightarrow> args) \<Rightarrow> string \<Rightarrow> args \<Rightarrow> args option" where
  "writes parse upd v a = map_option (\<lambda>x. upd (\<lambda>_. x) a) (parse v)"

definition SWITCHES :: "(string \<times> (args \<Rightarrow> args)) list" where
  "SWITCHES = [
     (''--settle-dev-mock'', \<lambda>a. a\<lparr>ag_settle_dev_mock := True\<rparr>),
     (''--spectate'', \<lambda>a. a\<lparr>ag_spectate := True\<rparr>),
     (''--dev-auth'', \<lambda>a. a\<lparr>ag_dev_auth := True\<rparr>),
     (''--self-play'', \<lambda>a. a\<lparr>ag_self_play := True\<rparr>),
     (''--friendly-fire'', \<lambda>a. a\<lparr>ag_friendly_fire := True\<rparr>),
     (''--wall-slide'', \<lambda>a. a\<lparr>ag_wall_slide := True\<rparr>),
     (''--enforce-deadline'', \<lambda>a. a\<lparr>ag_enforce_deadline := True\<rparr>)]"

definition VALUE_FLAGS :: "(string \<times> (string \<Rightarrow> args \<Rightarrow> args option)) list" where
  "VALUE_FLAGS = [
     (''--registered'', \<lambda>v a. map_option (\<lambda>r. a\<lparr>ag_registered := ag_registered a @ [r]\<rparr>) (parse_registered v)),
     (''--dev-allow'', \<lambda>v a. map_option (\<lambda>i. a\<lparr>ag_dev_allow := ag_dev_allow a @ [i]\<rparr>) (parse_dev_allow v)),
     (''--seed'', writes (parse_u 64) ag_seed_update),
     (''--seats'', writes (parse_u 8) ag_seats_update),
     (''--teams'', writes (parse_u 8) ag_teams_update),
     (''--max-ticks'', writes (parse_u 64) ag_max_ticks_update),
     (''--mode'', writes (\<lambda>v. map_option Some (parse_mode v)) ag_mode_update),
     (''--human-seats'', writes parse_human_seats ag_human_seats_update),
     (''--ladder-file'', writes (\<lambda>v. Some (Some v)) ag_ladder_file_update),
     (''--emit-replay'', writes (\<lambda>v. Some (Some v)) ag_emit_replay_update),
     (''--replay'', writes (\<lambda>v. Some (Some v)) ag_replay_update),
     (''--min-reputation'', writes (\<lambda>v. map_option Some (parse_i128 (trim v))) ag_min_reputation_update),
     (''--map'', writes parse_arena ag_arena_update),
     (''--map-file'', writes (\<lambda>v. Some (Some v)) ag_map_file_update),
     (''--fov'', writes parse_fov ag_fov_update),
     (''--aim-mode'', writes parse_aim_mode ag_aim_mode_update),
     (''--starting-ticks'', writes parse_starting_ticks ag_starting_ticks_update),
     (''--weapon-mode'', writes parse_weapon_mode ag_weapon_mode_update),
     (''--action-deadline-micros'', writes (parse_u 32) ag_action_deadline_micros_update),
     (''--perception-memory'', writes (parse_u 16) ag_perception_memory_update),
     (''--fall-damage'', writes (parse_u 16) ag_fall_damage_update),
     (''--dash-cooldown'', writes (parse_u 16) ag_dash_cooldown_update),
     (''--max-shield'', writes (parse_u 16) ag_max_shield_update),
     (''--start-health'', writes (parse_u 16) ag_start_health_update),
     (''--damage'', writes (parse_u 16) ag_damage_update),
     (''--fire-cooldown'', writes (parse_u 16) ag_fire_cooldown_update),
     (''--mag-size'', writes (parse_u 16) ag_mag_size_update),
     (''--melee-cooldown'', writes (parse_u 16) ag_melee_cooldown_update),
     (''--melee-damage'', writes (parse_u 16) ag_melee_damage_update),
     (''--pickup-respawn-cooldown'', writes (parse_u 16) ag_pickup_respawn_cooldown_update),
     (''--gravity'', writes parse_gravity ag_gravity_update),
     (''--vertical-hit-tolerance'', writes parse_vertical_hit_tolerance ag_vertical_hit_tolerance_update),
     (''--knockback-velocity'', writes parse_knockback_velocity ag_knockback_velocity_update),
     (''--fall-damage-threshold'', writes parse_fall_damage_threshold ag_fall_damage_threshold_update),
     (''--knockback-horizontal'', writes parse_knockback_horizontal ag_knockback_horizontal_update),
     (''--pawn-radius'', writes parse_pawn_radius ag_pawn_radius_update),
     (''--pawn-height'', writes parse_pawn_height ag_pawn_height_update),
     (''--max-speed'', writes parse_max_speed ag_max_speed_update),
     (''--perception-range'', writes parse_perception_range ag_perception_range_update),
     (''--weapon-range'', writes parse_weapon_range ag_weapon_range_update),
     (''--hit-radius'', writes parse_hit_radius ag_hit_radius_update),
     (''--melee-range'', writes parse_melee_range ag_melee_range_update),
     (''--projectile-speed'', writes parse_projectile_speed ag_projectile_speed_update),
     (''--pickup-radius'', writes parse_pickup_radius ag_pickup_radius_update),
     (''--spawn-jitter'', writes parse_spawn_jitter ag_spawn_jitter_update),
     (''--spawn-radius'', writes parse_spawn_radius ag_spawn_radius_update)]"

definition DEFAULT_MATCH_ID :: string where
  "DEFAULT_MATCH_ID = ''00000000-0000-4000-8000-000000000000''"

text \<open>The locals of the parser before the first flag; the match id is not known yet.\<close>

definition default_args :: args where
  "default_args = \<lparr>
     ag_match_id = [],
     ag_seed = 0,
     ag_seats = 2,
     ag_teams = 1,
     ag_max_ticks = 3600,
     ag_settle_dev_mock = False,
     ag_mode = None,
     ag_human_seats = [],
     ag_ladder_file = None,
     ag_emit_replay = None,
     ag_replay = None,
     ag_spectate = False,
     ag_registered = [],
     ag_min_reputation = None,
     ag_dev_auth = False,
     ag_dev_allow = [],
     ag_self_play = False,
     ag_arena = [],
     ag_map_file = None,
     ag_perception_memory = 0,
     ag_fov = 4,
     ag_aim_mode = Octant,
     ag_friendly_fire = False,
     ag_gravity = 0,
     ag_starting_ticks = 0,
     ag_weapon_mode = Hitscan,
     ag_vertical_hit_tolerance = 0,
     ag_fall_damage = 0,
     ag_knockback_velocity = 0,
     ag_wall_slide = False,
     ag_fall_damage_threshold = 0,
     ag_knockback_horizontal = 0,
     ag_dash_cooldown = 0,
     ag_pawn_radius = 0,
     ag_pawn_height = 0,
     ag_max_shield = 0,
     ag_start_health = r_start_health default_rules,
     ag_damage = r_damage default_rules,
     ag_fire_cooldown = r_fire_cooldown default_rules,
     ag_mag_size = r_mag_size default_rules,
     ag_max_speed = r_max_speed default_rules,
     ag_perception_range = r_perception_range default_rules,
     ag_weapon_range = r_weapon_range default_rules,
     ag_hit_radius = r_hit_radius default_rules,
     ag_melee_cooldown = r_melee_cooldown default_rules,
     ag_melee_damage = r_melee_damage default_rules,
     ag_melee_range = r_melee_range default_rules,
     ag_projectile_speed = r_projectile_speed default_rules,
     ag_action_deadline_micros = r_action_deadline_micros default_rules,
     ag_enforce_deadline = False,
     ag_pickup_radius = r_pickup_radius default_rules,
     ag_pickup_respawn_cooldown = r_pickup_respawn_cooldown default_rules,
     ag_spawn_jitter = r_spawn_jitter default_rules,
     ag_spawn_radius = r_spawn_radius default_rules\<rparr>"

fun parse_flags :: "string list \<Rightarrow> string \<times> args \<Rightarrow> (string \<times> args) option" where
  "parse_flags [] ia = Some ia"
| "parse_flags (flag # rest) ia =
     (case map_of SWITCHES flag of
        Some enable \<Rightarrow> parse_flags rest (fst ia, enable (snd ia))
      | None \<Rightarrow>
          (case rest of
             [] \<Rightarrow> None
           | v # rest' \<Rightarrow>
               if flag = ''--match-id'' then parse_flags rest' (v, snd ia)
               else (case map_of VALUE_FLAGS flag of
                       None \<Rightarrow> None
                     | Some write \<Rightarrow> (case write v (snd ia) of None \<Rightarrow> None | Some a \<Rightarrow> parse_flags rest' (fst ia, a)))))"

definition parse_args_from :: "(string \<Rightarrow> uuid option) \<Rightarrow> string list \<Rightarrow> args option" where
  "parse_args_from parse_uuid argv = do {
     (i, a) \<leftarrow> parse_flags argv (DEFAULT_MATCH_ID, default_args);
     i \<leftarrow> parse_uuid i;
     Some (a\<lparr>ag_match_id := i\<rparr>) }"

definition rules_from :: "args \<Rightarrow> rules" where
  "rules_from a = \<lparr>
     r_max_speed = ag_max_speed a,
     r_weapon_range = ag_weapon_range a,
     r_hit_radius = ag_hit_radius a,
     r_weapon_mode = ag_weapon_mode a,
     r_projectile_speed = ag_projectile_speed a,
     r_aim_mode = ag_aim_mode a,
     r_damage = ag_damage a,
     r_fire_cooldown = ag_fire_cooldown a,
     r_mag_size = ag_mag_size a,
     r_friendly_fire = ag_friendly_fire a,
     r_perception_range = ag_perception_range a,
     r_fov_octant_spread = ag_fov a,
     r_start_health = ag_start_health a,
     r_spawn_radius = ag_spawn_radius a,
     r_spawn_jitter = ag_spawn_jitter a,
     r_action_deadline_micros = ag_action_deadline_micros a,
     r_pickup_radius = ag_pickup_radius a,
     r_pickup_respawn_cooldown = ag_pickup_respawn_cooldown a,
     r_melee_range = ag_melee_range a,
     r_melee_damage = ag_melee_damage a,
     r_melee_cooldown = ag_melee_cooldown a,
     r_max_shield = ag_max_shield a,
     r_gravity = ag_gravity a,
     r_dash_cooldown = ag_dash_cooldown a,
     r_wall_slide = ag_wall_slide a,
     r_perception_memory_ticks = ag_perception_memory a,
     r_vertical_hit_tolerance = ag_vertical_hit_tolerance a,
     r_knockback_velocity = ag_knockback_velocity a,
     r_knockback_horizontal = ag_knockback_horizontal a,
     r_pawn_radius = ag_pawn_radius a,
     r_fall_damage = ag_fall_damage a,
     r_fall_damage_threshold = ag_fall_damage_threshold a,
     r_pawn_height = ag_pawn_height a,
     r_starting_ticks = ag_starting_ticks a\<rparr>"

subsection \<open>Configurations that cannot work\<close>

definition self_play_conflicts_with_mode :: "args \<Rightarrow> bool" where
  "self_play_conflicts_with_mode a \<longleftrightarrow> ag_self_play a \<and> ag_mode a \<noteq> None"

definition self_play_roster_too_small :: "args \<Rightarrow> bool" where
  "self_play_roster_too_small a \<longleftrightarrow> ag_self_play a \<and> ag_seats a < 2"

definition teams_partition_is_invalid :: "args \<Rightarrow> bool" where
  "teams_partition_is_invalid a \<longleftrightarrow>
     ag_teams a = 0 \<or> (ag_teams a > 1 \<and> (ag_seats a mod ag_teams a \<noteq> 0 \<or> ag_seats a div ag_teams a < 2))"

definition floor_without_registry_is_inert :: "args \<Rightarrow> bool" where
  "floor_without_registry_is_inert a \<longleftrightarrow> ag_min_reputation a \<noteq> None \<and> ag_registered a = []"

definition dev_auth_is_inert_without_mode :: "args \<Rightarrow> bool" where
  "dev_auth_is_inert_without_mode a \<longleftrightarrow> ag_dev_auth a \<and> ag_mode a = None"

definition dev_allow_ignored_without_dev_auth :: "args \<Rightarrow> bool" where
  "dev_allow_ignored_without_dev_auth a \<longleftrightarrow> \<not> ag_dev_auth a \<and> ag_dev_allow a \<noteq> []"

subsection \<open>What comes out of the parser\<close>

text \<open>Every field in the range of its machine type, and the code's own assertions.\<close>

definition args_ok :: "args \<Rightarrow> bool" where
  "args_ok a \<longleftrightarrow>
     ag_seed a < 2 ^ 64 \<and> ag_seats a < 2 ^ 8 \<and> ag_teams a < 2 ^ 8 \<and> ag_max_ticks a < 2 ^ 64
     \<and> (\<forall>s\<in>set (ag_human_seats a). s < 2 ^ 8) \<and> ag_fov a \<le> 4
     \<and> ag_starting_ticks a < 2 ^ 32 \<and> ag_action_deadline_micros a < 2 ^ 32
     \<and> list_all (\<lambda>n. n < 2 ^ 16) [ag_perception_memory a, ag_fall_damage a, ag_dash_cooldown a, ag_max_shield a, ag_start_health a, ag_damage a, ag_fire_cooldown a, ag_mag_size a, ag_melee_cooldown a, ag_melee_damage a, ag_pickup_respawn_cooldown a]
     \<and> list_all (\<lambda>z. 0 \<le> z \<and> in_i32 z) [ag_gravity a, ag_vertical_hit_tolerance a, ag_knockback_velocity a, ag_fall_damage_threshold a, ag_knockback_horizontal a, ag_pawn_radius a, ag_pawn_height a, ag_max_speed a, ag_perception_range a, ag_weapon_range a, ag_hit_radius a, ag_melee_range a, ag_projectile_speed a, ag_pickup_radius a, ag_spawn_jitter a, ag_spawn_radius a]
     \<and> (\<forall>(addr, rep)\<in>set (ag_registered a). addr \<noteq> [] \<and> in_i128 rep)
     \<and> (\<forall>i\<in>set (ag_dev_allow a). i \<noteq> []) \<and> (ag_arena a = [] \<or> ag_arena a = ''reference'')
     \<and> (\<forall>r. ag_min_reputation a = Some r \<longrightarrow> in_i128 r)"

lemma parse_u_bound: "parse_u w s = Some n \<Longrightarrow> n < 2 ^ w"
  by (auto simp: parse_u_def panic_simps split: if_splits)

lemma parse_magnitude_bound: "parse_magnitude s = Some z \<Longrightarrow> 0 \<le> z \<and> in_i32 z"
  by (auto simp: parse_magnitude_def panic_simps)

lemma parse_i128_bound: "parse_i128 s = Some z \<Longrightarrow> in_i128 z"
  by (auto simp: parse_i128_def Let_def split: if_splits list.splits)

lemma parse_fov_bound: "parse_fov s = Some n \<Longrightarrow> n \<le> 4"
  by (auto simp: parse_fov_def panic_simps split: if_splits)

lemma those_bound: "those xs = Some ys \<Longrightarrow> \<forall>x\<in>set xs. \<forall>y. x = Some y \<longrightarrow> P y \<Longrightarrow> \<forall>y\<in>set ys. P y"
  by (induction xs arbitrary: ys) (auto split: option.splits)

lemma parse_human_seats_bound: "parse_human_seats v = Some ss \<Longrightarrow> \<forall>s\<in>set ss. s < 2 ^ 8"
  unfolding parse_human_seats_def by (erule those_bound) (auto dest: parse_u_bound)

lemma parse_registered_bound: "parse_registered v = Some (addr, rep) \<Longrightarrow> addr \<noteq> [] \<and> in_i128 rep"
  by (auto simp: parse_registered_def Let_def panic_simps split: if_splits option.splits dest: parse_i128_bound)
    (simp add: in_i128_def)

lemma parse_arena_bound: "parse_arena v = Some k \<Longrightarrow> k = ''reference''"
  by (auto simp: parse_arena_def named_arena_def NAMED_ARENAS_def split: if_splits)

lemmas parse_bounds = parse_u_bound parse_magnitude_bound parse_i128_bound parse_fov_bound parse_human_seats_bound
  parse_registered_bound parse_arena_bound

lemmas magnitude_defs = parse_gravity_def parse_vertical_hit_tolerance_def parse_knockback_velocity_def parse_fall_damage_threshold_def parse_knockback_horizontal_def parse_pawn_radius_def parse_pawn_height_def parse_max_speed_def parse_perception_range_def parse_weapon_range_def parse_hit_radius_def parse_melee_range_def parse_projectile_speed_def parse_pickup_radius_def parse_spawn_jitter_def parse_spawn_radius_def parse_starting_ticks_def

lemma default_args_ok: "args_ok default_args"
  by (simp add: args_ok_def default_args_def default_rules_defs in_i32_def)

lemma args_ok_update_u16:
  assumes "args_ok a" "x < 2 ^ 16"
  shows
    "args_ok (ag_perception_memory_update (\<lambda>_. x) a)"
    "args_ok (ag_fall_damage_update (\<lambda>_. x) a)"
    "args_ok (ag_dash_cooldown_update (\<lambda>_. x) a)"
    "args_ok (ag_max_shield_update (\<lambda>_. x) a)"
    "args_ok (ag_start_health_update (\<lambda>_. x) a)"
    "args_ok (ag_damage_update (\<lambda>_. x) a)"
    "args_ok (ag_fire_cooldown_update (\<lambda>_. x) a)"
    "args_ok (ag_mag_size_update (\<lambda>_. x) a)"
    "args_ok (ag_melee_cooldown_update (\<lambda>_. x) a)"
    "args_ok (ag_melee_damage_update (\<lambda>_. x) a)"
    "args_ok (ag_pickup_respawn_cooldown_update (\<lambda>_. x) a)"
  using assms by (simp_all add: args_ok_def)

lemma args_ok_update_magnitude:
  assumes "args_ok a" "0 \<le> x \<and> in_i32 x"
  shows
    "args_ok (ag_gravity_update (\<lambda>_. x) a)"
    "args_ok (ag_vertical_hit_tolerance_update (\<lambda>_. x) a)"
    "args_ok (ag_knockback_velocity_update (\<lambda>_. x) a)"
    "args_ok (ag_fall_damage_threshold_update (\<lambda>_. x) a)"
    "args_ok (ag_knockback_horizontal_update (\<lambda>_. x) a)"
    "args_ok (ag_pawn_radius_update (\<lambda>_. x) a)"
    "args_ok (ag_pawn_height_update (\<lambda>_. x) a)"
    "args_ok (ag_max_speed_update (\<lambda>_. x) a)"
    "args_ok (ag_perception_range_update (\<lambda>_. x) a)"
    "args_ok (ag_weapon_range_update (\<lambda>_. x) a)"
    "args_ok (ag_hit_radius_update (\<lambda>_. x) a)"
    "args_ok (ag_melee_range_update (\<lambda>_. x) a)"
    "args_ok (ag_projectile_speed_update (\<lambda>_. x) a)"
    "args_ok (ag_pickup_radius_update (\<lambda>_. x) a)"
    "args_ok (ag_spawn_jitter_update (\<lambda>_. x) a)"
    "args_ok (ag_spawn_radius_update (\<lambda>_. x) a)"
  using assms by (simp_all add: args_ok_def)

lemma args_ok_update_word:
  "args_ok a \<Longrightarrow> x < 2 ^ 64 \<Longrightarrow> args_ok (ag_seed_update (\<lambda>_. x) a)"
  "args_ok a \<Longrightarrow> x < 2 ^ 64 \<Longrightarrow> args_ok (ag_max_ticks_update (\<lambda>_. x) a)"
  "args_ok a \<Longrightarrow> x < 2 ^ 8 \<Longrightarrow> args_ok (ag_seats_update (\<lambda>_. x) a)"
  "args_ok a \<Longrightarrow> x < 2 ^ 8 \<Longrightarrow> args_ok (ag_teams_update (\<lambda>_. x) a)"
  "args_ok a \<Longrightarrow> x < 2 ^ 32 \<Longrightarrow> args_ok (ag_starting_ticks_update (\<lambda>_. x) a)"
  "args_ok a \<Longrightarrow> x < 2 ^ 32 \<Longrightarrow> args_ok (ag_action_deadline_micros_update (\<lambda>_. x) a)"
  "args_ok a \<Longrightarrow> x \<le> 4 \<Longrightarrow> args_ok (ag_fov_update (\<lambda>_. x) a)"
  by (simp_all add: args_ok_def)

lemma args_ok_update_data:
  "args_ok a \<Longrightarrow> \<forall>s\<in>set ss. s < 2 ^ 8 \<Longrightarrow> args_ok (ag_human_seats_update (\<lambda>_. ss) a)"
  "args_ok a \<Longrightarrow> k = ''reference'' \<Longrightarrow> args_ok (ag_arena_update (\<lambda>_. k) a)"
  "args_ok a \<Longrightarrow> \<forall>r. rep = Some r \<longrightarrow> in_i128 r \<Longrightarrow> args_ok (ag_min_reputation_update (\<lambda>_. rep) a)"
  "args_ok a \<Longrightarrow> fst e \<noteq> [] \<and> in_i128 (snd e) \<Longrightarrow> args_ok (a\<lparr>ag_registered := ag_registered a @ [e]\<rparr>)"
  "args_ok a \<Longrightarrow> t \<noteq> [] \<Longrightarrow> args_ok (a\<lparr>ag_dev_allow := ag_dev_allow a @ [t]\<rparr>)"
  by (auto simp: args_ok_def split_beta)

lemma args_ok_update_free:
  assumes "args_ok a"
  shows "args_ok (ag_match_id_update (\<lambda>_. i) a)" "args_ok (ag_mode_update (\<lambda>_. md) a)" "args_ok (ag_ladder_file_update (\<lambda>_. f) a)"
    "args_ok (ag_emit_replay_update (\<lambda>_. f) a)" "args_ok (ag_replay_update (\<lambda>_. f) a)" "args_ok (ag_map_file_update (\<lambda>_. f) a)"
    "args_ok (ag_aim_mode_update (\<lambda>_. am) a)" "args_ok (ag_weapon_mode_update (\<lambda>_. wm) a)"
    "args_ok (ag_settle_dev_mock_update (\<lambda>_. b) a)" "args_ok (ag_spectate_update (\<lambda>_. b) a)" "args_ok (ag_dev_auth_update (\<lambda>_. b) a)"
    "args_ok (ag_self_play_update (\<lambda>_. b) a)" "args_ok (ag_friendly_fire_update (\<lambda>_. b) a)" "args_ok (ag_wall_slide_update (\<lambda>_. b) a)"
    "args_ok (ag_enforce_deadline_update (\<lambda>_. b) a)"
  using assms by (simp_all add: args_ok_def)

lemmas args_ok_updates = args_ok_update_u16 args_ok_update_magnitude args_ok_update_word args_ok_update_data args_ok_update_free

definition keeps_args :: "(string \<Rightarrow> args \<Rightarrow> args option) \<Rightarrow> bool" where
  "keeps_args write \<longleftrightarrow> (\<forall>v a b. write v a = Some b \<longrightarrow> args_ok a \<longrightarrow> args_ok b)"

lemma keeps_writes:
  assumes "\<And>v x a. parse v = Some x \<Longrightarrow> args_ok a \<Longrightarrow> args_ok (upd (\<lambda>_. x) a)"
  shows "keeps_args (writes parse upd)"
  using assms by (auto simp: keeps_args_def writes_def)

lemma switches_ok: "map_of SWITCHES flag = Some enable \<Longrightarrow> args_ok a \<Longrightarrow> args_ok (enable a)"
  unfolding SWITCHES_def map_of.simps by (auto simp: args_ok_update_free split: if_splits simp del: list.inject)

lemma keeps_collecting:
  "keeps_args (\<lambda>v a. map_option (\<lambda>r. a\<lparr>ag_registered := ag_registered a @ [r]\<rparr>) (parse_registered v))"
  "keeps_args (\<lambda>v a. map_option (\<lambda>t. a\<lparr>ag_dev_allow := ag_dev_allow a @ [t]\<rparr>) (parse_dev_allow v))"
  using parse_registered_bound args_ok_update_data(4,5)
  by (fastforce simp: keeps_args_def parse_dev_allow_def split: if_splits)+

lemma parse_reputation_bound: "map_option Some (parse_i128 v) = Some x \<Longrightarrow> \<forall>r. x = Some r \<longrightarrow> in_i128 r"
  using parse_i128_bound by auto

lemma value_flags_keep: "list_all (\<lambda>(f, write). keeps_args write) VALUE_FLAGS"
  unfolding VALUE_FLAGS_def magnitude_defs list.pred_inject prod.case
  by (intro conjI list.pred_inject(1) keeps_collecting keeps_writes;
      (rule args_ok_updates, assumption); (rule parse_bounds parse_reputation_bound, assumption))

lemma value_flags_ok: "map_of VALUE_FLAGS flag = Some write \<Longrightarrow> write v a = Some b \<Longrightarrow> args_ok a \<Longrightarrow> args_ok b"
  using value_flags_keep map_of_SomeD [of VALUE_FLAGS flag "write"] by (auto simp: list_all_iff keeps_args_def)

lemma parse_flags_ok: "parse_flags argv (i, a) = Some (j, b) \<Longrightarrow> args_ok a \<Longrightarrow> args_ok b"
proof (induction argv "(i, a)" arbitrary: i a rule: parse_flags.induct)
  case (2 flag rest i a)
  show ?case
  proof (cases "map_of SWITCHES flag")
    case (Some enable)
    then have "args_ok (enable a)" using switches_ok "2.prems"(2) by blast
    with 2(3) [OF Some] "2.prems"(1) Some show ?thesis by simp
  next
    case None
    then obtain v rest' where rest: "rest = v # rest'" using "2.prems"(1) by (cases rest) auto
    show ?thesis
    proof (cases "flag = ''--match-id''")
      case True
      with 2(1) [OF None rest True] "2.prems" None rest show ?thesis by simp
    next
      case False
      with "2.prems"(1) None rest obtain wr c where w: "map_of VALUE_FLAGS flag = Some wr" "wr v a = Some c"
        "parse_flags rest' (i, c) = Some (j, b)" by (auto split: option.splits)
      have "args_ok c" using value_flags_ok [OF w(1) w(2) "2.prems"(2)] .
      with 2(2) [OF None rest False w(1)] w(2,3) show ?thesis by simp
    qed
  qed
qed simp

text \<open>
  Property C40. Whatever the command line, what the parser accepts is typed: every number in the range of its machine type,
  every distance and magnitude nonnegative, the field of view a proper spread, no blank address, and rules that
  every encoding of the arena takes. An empty command line gives the defaults of the core.
\<close>

theorem parsed_args_are_typed:
  assumes "parse_args_from parse_uuid argv = Some a"
  shows "args_ok a \<and> ok_rules (rules_from a) \<and> rules_from default_args = default_rules
    \<and> 0 \<le> r_spawn_radius (rules_from a) \<and> 0 \<le> r_spawn_jitter (rules_from a) \<and> 0 \<le> r_gravity (rules_from a)"
proof -
  obtain i j b where "parse_flags argv (DEFAULT_MATCH_ID, default_args) = Some (j, b)" "a = b\<lparr>ag_match_id := i\<rparr>"
    using assms by (auto simp: parse_args_from_def panic_simps)
  then have ok: "args_ok a" using parse_flags_ok [OF _ default_args_ok] args_ok_update_free(1) by blast
  moreover have "ok_rules (rules_from a)" using ok by (simp add: ok_rules_def rules_from_def args_ok_def)
  moreover have "rules_from default_args = default_rules"
    by (simp add: rules_from_def default_args_def default_rules_def full_circle_fov_def)
  moreover have "0 \<le> ag_spawn_radius a \<and> 0 \<le> ag_spawn_jitter a \<and> 0 \<le> ag_gravity a" using ok by (simp add: args_ok_def)
  ultimately show ?thesis by (simp add: rules_from_def)
qed

lemma flag_lookups:
  "map_of SWITCHES ''--seats'' = None" "map_of SWITCHES ''--registered'' = None" "map_of SWITCHES ''--wall-slide'' = Some (\<lambda>a. a\<lparr>ag_wall_slide := True\<rparr>)"
  by (simp_all add: SWITCHES_def)

lemma map_of_hit: "map_of ((k, x) # xs) k = Some x" by simp
lemma map_of_miss: "k' \<noteq> k \<Longrightarrow> map_of xs k = y \<Longrightarrow> map_of ((k', x) # xs) k = y" by simp

lemma value_lookups:
  "map_of VALUE_FLAGS ''--registered'' = Some (\<lambda>v a. map_option (\<lambda>r. a\<lparr>ag_registered := ag_registered a @ [r]\<rparr>) (parse_registered v))"
  "map_of VALUE_FLAGS ''--seats'' = Some (writes (parse_u 8) ag_seats_update)"
  unfolding VALUE_FLAGS_def by (rule map_of_hit, (rule map_of_miss, (simp; fail))+, rule map_of_hit)

lemma value_samples: "parse_u 8 ''+4'' = Some 4" "parse_registered ''0xab:-3'' = Some (''0xab'', - 3)"
  by (simp_all add: parse_u_def parse_u128_def decimal_value_def digit_value_def is_ascii_digit_def panic_simps parse_registered_def
      trim_def is_space_def rsplit_once_def parse_i128_def in_i128_def Let_def)

theorem parsed_args_are_typed_witness:
  "\<exists>a. parse_args_from (\<lambda>_. Some (replicate 16 0)) [''--seats'', ''+4'', ''--wall-slide'', ''--registered'', ''0xab:-3''] = Some a
     \<and> ag_seats a = 4 \<and> ag_wall_slide a \<and> ag_registered a = [(''0xab'', - 3)] \<and> ok_rules (rules_from a)"
proof -
  let ?parsed = "parse_args_from (\<lambda>_. Some (replicate 16 0)) [''--seats'', ''+4'', ''--wall-slide'', ''--registered'', ''0xab:-3'']"
  have "\<exists>a. ?parsed = Some a \<and> ag_seats a = 4 \<and> ag_wall_slide a \<and> ag_registered a = [(''0xab'', - 3)]"
    by (simp add: parse_args_from_def flag_lookups value_lookups value_samples writes_def panic_simps) (simp add: default_args_def)
  then obtain a where a: "?parsed = Some a" "ag_seats a = 4" "ag_wall_slide a" "ag_registered a = [(''0xab'', - 3)]" by auto
  with parsed_args_are_typed [OF a(1)] show ?thesis by blast
qed

end
