(* ===== verification/Harness_Settle.thy ===== *)
theory Harness_Settle
  imports Gateway Ladder Harness_Args
begin

section \<open>The settlement seam (\<^verbatim>\<open>src/arena/harness/src/main.rs\<close>)\<close>

text \<open>
  A finished match goes to a settler under the identities its seats proved. The settler is in memory: a map from
  match ids to resolutions, in which the first resolution of a match stands, as on chain. A panic is \<open>None\<close>;
  the report printed to standard error is not modelled.
\<close>

subsection \<open>Settlers\<close>

datatype settle_error = AlreadyResolved | NotRankedPair | NotRankedField | RatingsMismatch

type_synonym reputation_delta = "i32 option"

record field_entry =
  fe_agent :: string
  fe_delta :: i32

datatype resolution =
    Res_Win string reputation_delta "nat list"
  | Res_Draw reputation_delta "nat list"
  | Res_Field "field_entry list" "nat list"
  | Res_Cancelled

type_synonym mock_settler = "(uuid, resolution) btree"

definition record_resolution :: "uuid \<Rightarrow> resolution \<Rightarrow> mock_settler \<Rightarrow> mock_settler \<times> (settle_error + unit)" where
  "record_resolution match_id res s =
     (if bt_get s match_id \<noteq> None then (s, Inl AlreadyResolved) else (bt_insert match_id res s, Inr ()))"

definition resolution_of :: "uuid \<Rightarrow> mock_settler \<Rightarrow> resolution option" where
  "resolution_of match_id s = bt_get s match_id"

definition settle :: "uuid \<Rightarrow> string \<Rightarrow> reputation_delta \<Rightarrow> nat list \<Rightarrow> mock_settler \<Rightarrow> mock_settler \<times> (settle_error + unit)" where
  "settle match_id winner reputation digest = record_resolution match_id (Res_Win winner reputation digest)"

definition settle_draw :: "uuid \<Rightarrow> reputation_delta \<Rightarrow> nat list \<Rightarrow> mock_settler \<Rightarrow> mock_settler \<times> (settle_error + unit)" where
  "settle_draw match_id reputation digest = record_resolution match_id (Res_Draw reputation digest)"

definition settle_field :: "uuid \<Rightarrow> field_entry list \<Rightarrow> nat list \<Rightarrow> mock_settler \<Rightarrow> mock_settler \<times> (settle_error + unit)" where
  "settle_field match_id entries digest = record_resolution match_id (Res_Field entries digest)"

definition cancel :: "uuid \<Rightarrow> mock_settler \<Rightarrow> mock_settler \<times> (settle_error + unit)" where
  "cancel match_id = record_resolution match_id Res_Cancelled"

subsection \<open>Driving a result through a settler\<close>

record ranked_context =
  rc_rating_a :: i32
  rc_rating_b :: i32
  rc_k :: i32

record field_context =
  fc_ratings :: "i32 list"
  fc_k :: i32

text \<open>The roster's controller of a seat; \<^verbatim>\<open>expect\<close> panics when the seat is not in the roster.\<close>

definition controller_of :: "seat_info list \<Rightarrow> seat_id \<Rightarrow> string option" where
  "controller_of seats seat = map_option si_controller (List.find (\<lambda>s. si_seat s = seat) seats)"

definition settle_match ::
  "crates \<Rightarrow> match_result \<Rightarrow> replay_record \<Rightarrow> ranked_context option \<Rightarrow> mock_settler
   \<Rightarrow> (mock_settler \<times> (settle_error + settlement)) option" where
  "settle_match X result replay ranked s =
     (case mr_outcomes result of
        [oa, ob] \<Rightarrow>
          let digest = replay_digest X replay; outcome = settlement_of result in do {
            delta \<leftarrow> (case ranked of None \<Rightarrow> Some None
                     | Some r \<Rightarrow> map_option Some (ranked_delta result (rc_rating_a r) (rc_rating_b r) (rc_k r)));
            (s, r) \<leftarrow> (case outcome of
               Win seat \<Rightarrow> do {
                 winner \<leftarrow> controller_of (rr_seats replay) seat;
                 let reputation = map_option (\<lambda>d. if seat = so_seat oa then rd_a d else rd_b d) delta;
                 Some (settle (mr_match_id result) winner reputation digest s) }
             | Draw_Settlement \<Rightarrow> Some (settle_draw (mr_match_id result) (map_option rd_a delta) digest s));
            Some (s, map_sum id (\<lambda>_. outcome) r) }
      | _ \<Rightarrow> Some (s, Inl NotRankedPair))"

primrec field_entries :: "seat_info list \<Rightarrow> seat_delta list \<Rightarrow> field_entry list option" where
  "field_entries seats [] = Some []"
| "field_entries seats (d # ds) = do {
     agent \<leftarrow> controller_of seats (sd_seat d);
     rest \<leftarrow> field_entries seats ds;
     Some (\<lparr>fe_agent = agent, fe_delta = sd_delta d\<rparr> # rest) }"

definition settle_field_match ::
  "crates \<Rightarrow> match_result \<Rightarrow> replay_record \<Rightarrow> field_context \<Rightarrow> mock_settler
   \<Rightarrow> (mock_settler \<times> (settle_error + nat)) option" where
  "settle_field_match X result replay field s =
     (let n = length (mr_outcomes result) in
      if n < 3 then Some (s, Inl NotRankedField)
      else if length (fc_ratings field) \<noteq> n then Some (s, Inl RatingsMismatch)
      else let digest = replay_digest X replay in do {
        deltas \<leftarrow> ranked_field_delta result (fc_ratings field) (fc_k field);
        entries \<leftarrow> field_entries (rr_seats replay) deltas;
        let (s, r) = settle_field (mr_match_id result) entries digest s;
        Some (s, map_sum id (\<lambda>_. n) r) })"

definition DEV_MOCK_K :: i32 where "DEV_MOCK_K = 32"

subsection \<open>Identities proved in the handshake\<close>

definition nonce_for :: "'x crates_scheme \<Rightarrow> uuid \<Rightarrow> seat_id \<Rightarrow> string" where
  "nonce_for X match_id seat = hex_encode X (match_id @ [seat])"

definition admit_join :: "mesh_crates \<Rightarrow> string \<Rightarrow> nat list \<Rightarrow> string \<Rightarrow> join_verify_error + string option" where
  "admit_join X agent_id nonce signature_hex =
     (if signature_hex = [] then Inr None
      else case verify_join_signature X PROTOCOL_VERSION agent_id nonce signature_hex of
        Inl e \<Rightarrow> Inl e
      | Inr _ \<Rightarrow> Inr (Some agent_id))"

fun seat_identity :: "seat_id \<Rightarrow> string \<Rightarrow> seat_info list \<Rightarrow> seat_info list" where
  "seat_identity seat address [] = []"
| "seat_identity seat address (s # ss) =
     (if si_seat s = seat then s\<lparr>si_controller := address\<rparr> # ss else s # seat_identity seat address ss)"

definition seat_recovered_identities :: "seat_info list \<Rightarrow> (seat_id \<times> string) list \<Rightarrow> seat_info list" where
  "seat_recovered_identities seats recovered = fold (\<lambda>(seat, address). seat_identity seat address) recovered seats"

definition settle_finished ::
  "crates \<Rightarrow> mock_settler option \<Rightarrow> match_result \<Rightarrow> arena_match \<Rightarrow> (seat_id \<times> string) list \<Rightarrow> mock_settler option option" where
  "settle_finished X settler result m recovered =
     (case settler of
        None \<Rightarrow> Some None
      | Some s \<Rightarrow>
          let replay = build_replay m;
              replay = replay\<lparr>rr_seats := seat_recovered_identities (rr_seats replay) recovered\<rparr>;
              seats = length (mr_outcomes result)
          in if seats > 2
             then map_option (\<lambda>(s, _). Some s) (settle_field_match X result replay
                    \<lparr>fc_ratings = replicate seats DEFAULT_RATING, fc_k = DEV_MOCK_K\<rparr> s)
             else map_option (\<lambda>(s, _). Some s) (settle_match X result replay None s))"

text \<open>The matchmaker's ladder: the state, and the line of seats, new ratings and deltas written to standard error.\<close>

definition settle_ranked_ladder ::
  "match_result \<Rightarrow> seat_info list \<Rightarrow> mm_state \<Rightarrow> mm_state \<times> (seat_id \<times> i32 \<times> i32) list option" where
  "settle_ranked_ladder result seats st =
     (let (st, moved) =
        (case mr_outcomes result of
           [oa, ob] \<Rightarrow> map_prod id (map_option (\<lambda>d. [(so_seat oa, rd_a d), (so_seat ob, rd_b d)]))
             (apply_ranked_result result DEV_MOCK_K st)
         | _ \<Rightarrow> map_prod id (map_option (map (\<lambda>d. (sd_seat d, sd_delta d)))) (apply_ranked_field_result result DEV_MOCK_K st))
      in (st, map_option (map (\<lambda>(seat, delta).
            (seat, (case Option.bind (controller_of seats seat) (rating st) of Some r \<Rightarrow> r | None \<Rightarrow> DEFAULT_RATING), delta))) moved))"

definition enforced_deadline :: "args \<Rightarrow> arena_match \<Rightarrow> nat option" where
  "enforced_deadline a m =
     (let micros = r_action_deadline_micros (m_rules m)
      in if ag_enforce_deadline a \<and> micros > 0 then Some micros else None)"

end
