(* ===== verification/Harness_Run.thy ===== *)
theory Harness_Run
  imports Harness_Settle
begin

section \<open>Runs of the gateway (\<^verbatim>\<open>src/arena/harness/src/main.rs\<close>)\<close>

text \<open>
  From the command line to the settled match. What the process reads from outside is the record \<open>outside\<close>: the
  cryptography, the JSON and UUID parsers, the files. Standard input is a list of lines with arrival times; the
  handshakes read it as it comes, and the clock of a deadline starts with the pump. Writes succeed, and what
  a run writes is in its result: the frames on standard output, the line of moved ratings, the settler, the
  record and the ladder.
  A panic is \<open>None\<close>, \<^verbatim>\<open>exit(1)\<close> is \<open>Exited\<close>. The ids the matchmaker draws are an argument.
\<close>

datatype file_content = Missing | Unreadable | Contents string

record outside =
  ou_mesh :: mesh_crates
  ou_json :: gateway_json
  ou_maps :: map_source
  ou_parse_uuid :: "string \<Rightarrow> uuid option"
  ou_parse_ladder :: "string \<Rightarrow> ladder_snapshot option"
  ou_parse_record :: "string \<Rightarrow> match_record option"
  ou_read :: "string \<Rightarrow> file_content"

type_synonym timed_lines = "(nat \<times> (unit + string)) list"

datatype 'a process = Exited "mock_settler option" "out_frame list" | Returned 'a

text \<open>The next line of the input, and the timed lines after it.\<close>

definition next_read :: "timed_lines \<Rightarrow> (string \<times> timed_lines) option" where
  "next_read ls = map_option (\<lambda>(line, rest). (line, drop (length ls - length rest) ls)) (next_line (map snd ls))"

subsection \<open>Files\<close>

definition load_arena_map_file :: "outside \<Rightarrow> string \<Rightarrow> unit + arena_geometry" where
  "load_arena_map_file W path =
     (case ou_read W path of
        Contents json \<Rightarrow> (case from_json (ou_maps W) json of Inl _ \<Rightarrow> Inl () | Inr m \<Rightarrow> Inr m)
      | _ \<Rightarrow> Inl ())"

text \<open>\<^verbatim>\<open>map_override\<close>: \<open>Inl\<close> is the exit on a file that cannot be used.\<close>

definition map_override :: "outside \<Rightarrow> args \<Rightarrow> unit + arena_geometry option" where
  "map_override W a =
     (case ag_map_file a of None \<Rightarrow> Inr None | Some path \<Rightarrow> map_sum id Some (load_arena_map_file W path))"

definition direct_map :: "outside \<Rightarrow> args \<Rightarrow> (unit + arena_geometry) option" where
  "direct_map W a =
     (case map_override W a of
        Inl _ \<Rightarrow> Some (Inl ())
      | Inr (Some m) \<Rightarrow> Some (Inr m)
      | Inr None \<Rightarrow> map_option Inr (arena_map (ou_maps W) (ag_arena a)))"

datatype ladder_file_error = Lf_Read | Lf_Parse | Lf_Restore snapshot_error

definition is_ascii_whitespace :: "char \<Rightarrow> bool" where
  "is_ascii_whitespace c \<longleftrightarrow> of_char c \<in> {9 :: nat, 10, 12, 13, 32}"

definition read_ladder_file :: "outside \<Rightarrow> string \<Rightarrow> ladder_file_error + ladder_snapshot option" where
  "read_ladder_file W path =
     (case ou_read W path of
        Missing \<Rightarrow> Inr None
      | Unreadable \<Rightarrow> Inl Lf_Read
      | Contents bytes \<Rightarrow>
          if list_all is_ascii_whitespace bytes then Inr None
          else (case ou_parse_ladder W bytes of Some snap \<Rightarrow> Inr (Some snap) | None \<Rightarrow> Inl Lf_Parse))"

definition load_record :: "outside \<Rightarrow> string \<Rightarrow> unit + match_record" where
  "load_record W path =
     (case ou_read W path of
        Contents bytes \<Rightarrow> (case ou_parse_record W bytes of Some r \<Rightarrow> Inr r | None \<Rightarrow> Inl ())
      | _ \<Rightarrow> Inl ())"

definition emit_replay_record :: "string option \<Rightarrow> arena_match \<Rightarrow> (string \<times> match_record) option" where
  "emit_replay_record path m = (case path of None \<Rightarrow> None | Some path \<Rightarrow> map_option (Pair path) (to_record m))"

definition cast_to :: "crates \<Rightarrow> match_record \<Rightarrow> (replay_error + nat \<times> out_frame list) option" where
  "cast_to X r = do {
     res \<leftarrow> replay_to_spectator X r;
     Some (case res of Inl e \<Rightarrow> Inl e
           | Inr msgs \<Rightarrow> Inr (length (filter (\<lambda>msg. case msg of Frame _ \<Rightarrow> True | End _ \<Rightarrow> False) msgs), map To_Spectator msgs)) }"

definition replay_cast :: "outside \<Rightarrow> string \<Rightarrow> out_frame list process option" where
  "replay_cast W path =
     (case load_record W path of
        Inl _ \<Rightarrow> Some (Exited None [])
      | Inr r \<Rightarrow> map_option (\<lambda>res. case res of Inl _ \<Rightarrow> Exited None [] | Inr (_, out) \<Rightarrow> Returned out)
                   (cast_to (crates.truncate (ou_mesh W)) r))"

subsection \<open>The direct match\<close>

definition direct_roster :: "args \<Rightarrow> nat \<Rightarrow> seat_info list" where
  "direct_roster a n = map (\<lambda>i. \<lparr>si_seat = i, si_team = i div ag_teams a, si_controller = ''agent-'' @ decimal i\<rparr>) [0..<n]"

definition direct_config :: "args \<Rightarrow> nat \<Rightarrow> match_config" where
  "direct_config a n = \<lparr>tick_hz = 30, max_ticks = ag_max_ticks a,
     bounds = \<lparr>vx = 50 * POSITION_SCALE, vy = 50 * POSITION_SCALE\<rparr>, cfg_seats = n\<rparr>"

definition build_direct_match :: "outside \<Rightarrow> args \<Rightarrow> nat \<Rightarrow> (unit + arena_match) option" where
  "build_direct_match W a n =
     (if ag_teams a = 0 \<and> n > 0 then None
      else do {
        loaded \<leftarrow> direct_map W a;
        case loaded of
          Inl _ \<Rightarrow> Some (Inl ())
        | Inr arena \<Rightarrow> map_option Inr (new_with_pickups (ag_match_id a) (direct_config a n) (rules_from a) (direct_roster a n)
            (am_blockers arena) (am_pickups arena) (ag_seed a)) })"

subsection \<open>The direct handshake\<close>

definition version_reason :: "u32 \<Rightarrow> string" where
  "version_reason client = ''protocol version mismatch: ours='' @ decimal PROTOCOL_VERSION @ '', theirs='' @ decimal client"

definition verify_error_text :: "join_verify_error \<Rightarrow> string" where
  "verify_error_text e = (case e of
     Join_BadSignatureEncoding \<Rightarrow> ''BadSignatureEncoding'' | Join_NonCanonicalSignature \<Rightarrow> ''NonCanonicalSignature''
   | Join_Unrecoverable \<Rightarrow> ''Unrecoverable'' | Join_AddressMismatch \<Rightarrow> ''AddressMismatch'')"

definition challenges :: "mesh_crates \<Rightarrow> uuid \<Rightarrow> nat \<Rightarrow> out_frame list" where
  "challenges X match_id n = map (\<lambda>seat. To_Seat seat (Gw_Challenge (nonce_for X match_id seat))) [0..<n]"

definition welcome_start :: "arena_match \<Rightarrow> seat_id \<Rightarrow> out_frame list" where
  "welcome_start m seat = [To_Seat seat (Gw_Welcome PROTOCOL_VERSION (m_match_id m) seat),
     To_Seat seat (Gw_Start (m_match_id m) (m_config m) (m_blockers m) (map ps_position (m_pickup_config m)))]"

definition reject_and_exit :: "mock_settler option \<Rightarrow> uuid \<Rightarrow> seat_id \<Rightarrow> string \<Rightarrow> out_frame list \<Rightarrow> 'a process" where
  "reject_and_exit settler match_id seat reason out =
     Exited (map_option (\<lambda>s. fst (cancel match_id s)) settler) (out @ [To_Seat seat (Gw_Reject reason)])"

primrec direct_joins ::
  "mesh_crates \<Rightarrow> gateway_json \<Rightarrow> mock_settler option \<Rightarrow> arena_match \<Rightarrow> nat \<Rightarrow> (seat_id \<times> string) list \<Rightarrow> timed_lines
   \<Rightarrow> out_frame list \<Rightarrow> ((seat_id \<times> string) list \<times> timed_lines \<times> out_frame list) process option" where
  "direct_joins X J settler m 0 recovered ls out = Some (Returned (recovered, ls, out))"
| "direct_joins X J settler m (Suc k) recovered ls out = do {
     (line, ls) \<leftarrow> next_read ls;
     (seat, msg) \<leftarrow> read_agent J line;
     (case msg of
        Ag_Join version agent_id signature_hex \<Rightarrow>
          if check_version version \<noteq> Inr ()
          then Some (reject_and_exit settler (m_match_id m) seat (version_reason version) out)
          else (case admit_join X agent_id (str_bytes (nonce_for X (m_match_id m) seat)) signature_hex of
             Inl e \<Rightarrow> Some (reject_and_exit settler (m_match_id m) seat (''join signature rejected: '' @ verify_error_text e) out)
           | Inr proved \<Rightarrow>
               direct_joins X J settler m k
                 (recovered @ (case proved of Some address \<Rightarrow> [(seat, address)] | None \<Rightarrow> [])) ls (out @ welcome_start m seat))
      | _ \<Rightarrow> None) }"

subsection \<open>The matchmade handshake\<close>

definition harness_verifier :: "mesh_crates \<Rightarrow> args \<Rightarrow> verifier" where
  "harness_verifier X a =
     (if \<not> ag_dev_auth a then signature_verifier X
      else stub_verifier (fold (\<lambda>agent. authorize agent agent) (ag_dev_allow a) []))"

definition matchmaker_params :: "nat \<Rightarrow> u64 \<Rightarrow> string \<Rightarrow> match_params" where
  "matchmaker_params n ticks arena =
     default_params\<lparr>mp_seats_per_match := n, mp_max_ticks := ticks, mp_arena := arena\<rparr>"

definition ranked_registry_from :: "args \<Rightarrow> registry_snapshot option" where
  "ranked_registry_from a = (if ag_registered a = [] then None else Some (from_entries (ag_registered a)))"

definition ranked_reputation_floor_from :: "args \<Rightarrow> int" where
  "ranked_reputation_floor_from a = (case ag_min_reputation a of Some r \<Rightarrow> r | None \<Rightarrow> - (2 ^ 127))"

definition build_matchmaker :: "outside \<Rightarrow> args \<Rightarrow> nat \<Rightarrow> (maker \<times> mm_state) process option" where
  "build_matchmaker W a n =
     (case map_override W a of
        Inl _ \<Rightarrow> Some (Exited None [])
      | Inr override \<Rightarrow>
          let params = (matchmaker_params n (ag_max_ticks a) (ag_arena a))
                \<lparr>mp_rules := rules_from a, mp_map := override, mp_team_size := ag_teams a\<rparr>;
              verifier = harness_verifier (ou_mesh W) a;
              ranked = (\<lambda>(mk, st). Returned (with_ranked_reputation_floor (ranked_reputation_floor_from a)
                   (with_ranked_registry (ranked_registry_from a) mk), st))
          in (case ag_ladder_file a of
                None \<Rightarrow> map_option ranked (matchmaker_new verifier params)
              | Some path \<Rightarrow>
                  (case read_ladder_file W path of
                     Inl _ \<Rightarrow> Some (Exited None [])
                   | Inr None \<Rightarrow> map_option ranked (matchmaker_new verifier params)
                   | Inr (Some snapshot) \<Rightarrow>
                       map_option (\<lambda>r. case r of Inl _ \<Rightarrow> Exited None [] | Inr mm \<Rightarrow> ranked mm)
                         (from_snapshot verifier params snapshot))))"

definition join_request_for :: "match_mode \<Rightarrow> seat_id \<Rightarrow> seat_id list \<Rightarrow> string \<Rightarrow> string \<Rightarrow> join_request" where
  "join_request_for mode seat human_seats agent_id signature_hex =
     (let is_human = (case mode of Mode_Human \<Rightarrow> signature_hex = [] | Mode_Agent \<Rightarrow> False | Mode_Mixed \<Rightarrow> List.member human_seats seat)
      in if is_human then human_request agent_id
         else if signature_hex = [] then casual_agent agent_id
         else ranked_agent agent_id signature_hex)"

definition join_error_text :: "join_error \<Rightarrow> string" where
  "join_error_text e = (case e of
     WrongKindForMode mode kind \<Rightarrow>
       ''join rejected: a '' @ (case kind of Ctl_Human \<Rightarrow> ''Human'' | Ctl_Agent \<Rightarrow> ''Agent'') @ '' seat is not allowed in ''
         @ (case mode of Mode_Human \<Rightarrow> ''Human'' | Mode_Agent \<Rightarrow> ''Agent'' | Mode_Mixed \<Rightarrow> ''Mixed'') @ '' mode''
   | Unauthenticated agent \<Rightarrow> ''join rejected: ranked seat for agent '' @ agent @ '' is unauthenticated''
   | NotRegistered agent \<Rightarrow> ''join rejected: ranked agent '' @ agent @ '' is not a registered on-chain identity''
   | ReputationBelowFloor agent reputation lowest \<Rightarrow>
       ''join rejected: ranked agent '' @ agent @ '' reputation '' @ decimal_int reputation @ '' is below the floor '' @ decimal_int lowest)"

primrec collect_joins ::
  "gateway_json \<Rightarrow> nat \<Rightarrow> timed_lines \<Rightarrow> (seat_id, string \<times> string) btree
   \<Rightarrow> ((seat_id \<times> string) + (seat_id, string \<times> string) btree \<times> timed_lines) option" where
  "collect_joins J 0 ls joins = Some (Inr (joins, ls))"
| "collect_joins J (Suc k) ls joins = do {
     (line, ls) \<leftarrow> next_read ls;
     (seat, msg) \<leftarrow> read_agent J line;
     (case msg of
        Ag_Join version agent_id signature_hex \<Rightarrow>
          if check_version version \<noteq> Inr () then Some (Inl (seat, version_reason version))
          else collect_joins J k ls (bt_insert seat (agent_id, signature_hex) joins)
      | _ \<Rightarrow> None) }"

text \<open>Each seat in turn through the matchmaker; nobody else uses it meanwhile.\<close>

primrec route_joins ::
  "outside \<Rightarrow> maker \<Rightarrow> (seat_id \<Rightarrow> uuid) \<Rightarrow> args \<Rightarrow> match_mode \<Rightarrow> (seat_id, string \<times> string) btree \<Rightarrow> seat_id list
   \<Rightarrow> mm_state \<Rightarrow> arena_match option \<Rightarrow> ((seat_id \<times> string) + mm_state \<times> arena_match option) option" where
  "route_joins W mk mids a mode joins [] st formed = Some (Inr (st, formed))"
| "route_joins W mk mids a mode joins (seat # seats) st formed = do {
     (agent_id, signature_hex) \<leftarrow> bt_get joins seat;
     (st, answer) \<leftarrow> join (ou_maps W) mk (mids seat) (\<lambda>st. st) mode (str_bytes (nonce_for (ou_mesh W) (ag_match_id a) seat))
       (join_request_for mode seat (ag_human_seats a) agent_id signature_hex) st;
     (case answer of
        Inl e \<Rightarrow> Some (Inl (seat, ''join rejected: '' @ join_error_text e))
      | Inr Join_Queued \<Rightarrow> route_joins W mk mids a mode joins seats st formed
      | Inr (Join_Formed m) \<Rightarrow> route_joins W mk mids a mode joins seats st (Some m)) }"

definition handshake_matchmade ::
  "outside \<Rightarrow> args \<Rightarrow> match_mode \<Rightarrow> nat \<Rightarrow> mock_settler option \<Rightarrow> (seat_id \<Rightarrow> uuid) \<Rightarrow> timed_lines
   \<Rightarrow> ((maker \<times> mm_state) \<times> arena_match \<times> timed_lines \<times> out_frame list) process option" where
  "handshake_matchmade W a mode n settler mids ls = do {
     built \<leftarrow> build_matchmaker W a n;
     (case built of
        Exited _ _ \<Rightarrow> Some (Exited settler [])
      | Returned (mk, st) \<Rightarrow> do {
          let out = challenges (ou_mesh W) (ag_match_id a) n;
          collected \<leftarrow> collect_joins (ou_json W) n ls [];
          (case collected of
             Inl (seat, reason) \<Rightarrow> Some (reject_and_exit settler (ag_match_id a) seat reason out)
           | Inr (joins, ls) \<Rightarrow>
               if length joins \<noteq> n then None
               else do {
                 routed \<leftarrow> route_joins W mk mids a mode joins [0..<n] st None;
                 (case routed of
                    Inl (seat, reason) \<Rightarrow> Some (reject_and_exit settler (ag_match_id a) seat reason out)
                  | Inr (st, formed) \<Rightarrow> do {
                      m \<leftarrow> formed;
                      Some (Returned ((mk, st), m, ls, out @ concat (map (welcome_start m) [0..<n]))) }) }) }) }"

subsection \<open>Self-play\<close>

definition BOT_OCTANT_SCALE :: i32 where "BOT_OCTANT_SCALE = 4096"
definition BOT_OCTANT_DIAG :: i32 where "BOT_OCTANT_DIAG = 2896"

definition BOT_OCTANTS :: "(i32 \<times> i32) list" where
  "BOT_OCTANTS = [(BOT_OCTANT_SCALE, 0), (BOT_OCTANT_DIAG, BOT_OCTANT_DIAG), (0, BOT_OCTANT_SCALE), (- BOT_OCTANT_DIAG, BOT_OCTANT_DIAG),
     (- BOT_OCTANT_SCALE, 0), (- BOT_OCTANT_DIAG, - BOT_OCTANT_DIAG), (0, - BOT_OCTANT_SCALE), (BOT_OCTANT_DIAG, - BOT_OCTANT_DIAG)]"

fun bot_scan :: "int \<Rightarrow> int \<Rightarrow> nat \<Rightarrow> (i32 \<times> i32) list \<Rightarrow> nat \<times> int \<Rightarrow> nat \<times> int" where
  "bot_scan dx dy i [] best = best"
| "bot_scan dx dy i ((ox, oy) # os) best =
     (let dot = dx * ox + dy * oy in bot_scan dx dy (i + 1) os (if dot > snd best then (i, dot) else best))"

definition bot_octant_toward :: "int \<Rightarrow> int \<Rightarrow> nat" where
  "bot_octant_toward dx dy = fst (bot_scan dx dy 0 BOT_OCTANTS (0, - (2 ^ 63)))"

definition dist2 :: "vec2 \<Rightarrow> vec2 \<Rightarrow> int" where
  "dist2 a b = (vx b - vx a) * (vx b - vx a) + (vy b - vy a) * (vy b - vy a)"

text \<open>In an arena the differences of coordinates and their products stay far from the ends of 32 and 64 bits.\<close>

definition bot_act :: "observation \<Rightarrow> action option" where
  "bot_act obs =
     (let me = obs_own obs in
      if \<not> own_alive me then None
      else do {
        target \<leftarrow> min_by_key (\<lambda>e. dist2 (own_position me) (ve_position e)) (filter (\<lambda>e. ve_team e \<noteq> own_team me) (obs_visible obs));
        let dx = vx (ve_position target) - vx (own_position me);
        let dy = vy (ve_position target) - vy (own_position me);
        let in_range = dist2 (own_position me) (ve_position target) \<le> r_weapon_range default_rules ^ 2;
        let oct = bot_octant_toward dx dy;
        let dir = (if in_range then vec2_zero
                   else \<lparr>vx = (fst (BOT_OCTANTS ! oct) * MOVE_INTENT_SCALE) sdiv BOT_OCTANT_SCALE,
                         vy = (snd (BOT_OCTANTS ! oct) * MOVE_INTENT_SCALE) sdiv BOT_OCTANT_SCALE\<rparr>);
        Some \<lparr>act_protocol_version = obs_protocol_version obs, act_match_id = obs_match_id obs, act_seat = obs_seat obs,
          act_tick = obs_tick obs, act_intent = \<lparr>move_dir = dir, aim = (oct * 8192) mod 2 ^ 16,
            buttons = \<lparr>btn_fire = in_range, btn_jump = False, btn_ability = False, btn_reload = False\<rparr>\<rparr>\<rparr> })"

definition self_play_policies :: "nat \<Rightarrow> unit list" where
  "self_play_policies n = map (\<lambda>_. ()) [0..<n]"

subsection \<open>The process\<close>

record run_report =
  rp_out :: "out_frame list"
  rp_match :: arena_match
  rp_result :: match_result
  rp_settler :: "mock_settler option"
  rp_record :: "(string \<times> match_record) option"
  rp_moved :: "(seat_id \<times> i32 \<times> i32) list option"
  rp_ladder :: "(string \<times> ladder_snapshot) option"

definition run_self_play :: "outside \<Rightarrow> args \<Rightarrow> nat \<Rightarrow> mock_settler option \<Rightarrow> run_report process option" where
  "run_self_play W a n settler = do {
     built \<leftarrow> build_direct_match W a n;
     (case built of
        Inl _ \<Rightarrow> Some (Exited settler [])
      | Inr m \<Rightarrow> do {
          let X = crates.truncate (ou_mesh W);
          finished \<leftarrow> run_match X (\<lambda>p obs. (bot_act obs, p)) m (self_play_policies n);
          result \<leftarrow> m_result finished;
          let emitted = emit_replay_record (ag_emit_replay a) finished;
          settler \<leftarrow> settle_finished X settler result finished [];
          Some (Returned \<lparr>rp_out = [], rp_match = finished, rp_result = result, rp_settler = settler, rp_record = emitted, rp_moved = None, rp_ladder = None\<rparr>) }) }"

definition run_matchmade ::
  "outside \<Rightarrow> args \<Rightarrow> match_mode \<Rightarrow> nat \<Rightarrow> mock_settler option \<Rightarrow> spectator_cast option \<Rightarrow> (seat_id \<Rightarrow> uuid) \<Rightarrow> timed_lines
   \<Rightarrow> nat option \<Rightarrow> run_report process option" where
  "run_matchmade W a mode n settler cast mids ls eof = do {
     shaken \<leftarrow> handshake_matchmade W a mode n settler mids ls;
     (case shaken of
        Exited s out \<Rightarrow> Some (Exited s out)
      | Returned ((mk, st), m, ls, out) \<Rightarrow> do {
          let X = crates.truncate (ou_mesh W);
          (p, result) \<leftarrow> drive_pump X (ou_json W) n (enforced_deadline a m) ls eof \<lparr>pu_match = m, pu_cast = cast, pu_out = out\<rparr>;
          let (st, moved) = settle_ranked_ladder result (m_seats (pu_match p)) st;
          let emitted = emit_replay_record (ag_emit_replay a) (pu_match p);
          settler \<leftarrow> settle_finished X settler result (pu_match p) [];
          Some (Returned \<lparr>rp_out = pu_out p, rp_match = pu_match p, rp_result = result, rp_settler = settler, rp_record = emitted,
            rp_moved = moved, rp_ladder = map_option (\<lambda>path. (path, ladder_of st)) (ag_ladder_file a)\<rparr>) }) }"

definition run_direct ::
  "outside \<Rightarrow> args \<Rightarrow> nat \<Rightarrow> mock_settler option \<Rightarrow> spectator_cast option \<Rightarrow> timed_lines \<Rightarrow> nat option
   \<Rightarrow> run_report process option" where
  "run_direct W a n settler cast ls eof = do {
     built \<leftarrow> build_direct_match W a n;
     (case built of
        Inl _ \<Rightarrow> Some (Exited settler [])
      | Inr m \<Rightarrow> do {
          shaken \<leftarrow> direct_joins (ou_mesh W) (ou_json W) settler m n [] ls (challenges (ou_mesh W) (m_match_id m) n);
          (case shaken of
             Exited s out \<Rightarrow> Some (Exited s out)
           | Returned (recovered, ls, out) \<Rightarrow> do {
               let X = crates.truncate (ou_mesh W);
               (p, result) \<leftarrow> drive_pump X (ou_json W) n (enforced_deadline a m) ls eof \<lparr>pu_match = m, pu_cast = cast, pu_out = out\<rparr>;
               let emitted = emit_replay_record (ag_emit_replay a) (pu_match p);
               settler \<leftarrow> settle_finished X settler result (pu_match p) recovered;
               Some (Returned \<lparr>rp_out = pu_out p, rp_match = pu_match p, rp_result = result, rp_settler = settler, rp_record = emitted,
                 rp_moved = None, rp_ladder = None\<rparr>) }) }) }"

datatype run = Cast_Run "out_frame list" | Match_Run run_report

definition process_map :: "('a \<Rightarrow> 'b) \<Rightarrow> 'a process \<Rightarrow> 'b process" where
  "process_map f p = (case p of Exited s out \<Rightarrow> Exited s out | Returned x \<Rightarrow> Returned (f x))"

definition gateway_main :: "outside \<Rightarrow> string list \<Rightarrow> (seat_id \<Rightarrow> uuid) \<Rightarrow> timed_lines \<Rightarrow> nat option \<Rightarrow> run process option" where
  "gateway_main W argv mids ls eof = do {
     a \<leftarrow> parse_args_from (ou_parse_uuid W) argv;
     (case ag_replay a of
        Some path \<Rightarrow> map_option (process_map Cast_Run) (replay_cast W path)
      | None \<Rightarrow>
          if self_play_conflicts_with_mode a \<or> self_play_roster_too_small a \<or> teams_partition_is_invalid a
          then Some (Exited None [])
          else do {
            let n = ag_seats a;
            let settler = (if ag_settle_dev_mock a then Some [] else None);
            cast \<leftarrow> (if ag_spectate a then map_option Some cast_new else Some None);
            map_option (process_map Match_Run)
              (if ag_self_play a then run_self_play W a n settler
               else (case ag_mode a of
                       Some mode \<Rightarrow> run_matchmade W a mode n settler cast mids ls eof
                     | None \<Rightarrow> run_direct W a n settler cast ls eof)) }) }"

end
