(* ===== verification/Harness_Settle_Props.thy ===== *)
theory Harness_Settle_Props
  imports Harness_Settle
begin

section \<open>What the settlement seam guarantees\<close>

text \<open>
  The contract of a settler as the harness uses it, and what follows from it for any sequence of submissions;
  then what is submitted for a finished match, and under whose names.
\<close>

subsection \<open>The fence\<close>

locale fenced_settler =
  fixes submit :: "'s \<Rightarrow> uuid \<times> resolution \<Rightarrow> 's \<times> (settle_error + unit)"
    and resolved :: "'s \<Rightarrow> uuid \<Rightarrow> resolution option"
    and inv :: "'s \<Rightarrow> bool"
  assumes submit_inv: "inv s \<Longrightarrow> inv (fst (submit s ir))"
    and submit_open: "inv s \<Longrightarrow> resolved s i = None \<Longrightarrow>
      snd (submit s (i, r)) = Inr () \<and> resolved (fst (submit s (i, r))) = (resolved s)(i \<mapsto> r)"
    and submit_fenced: "inv s \<Longrightarrow> resolved s i \<noteq> None \<Longrightarrow> submit s (i, r) = (s, Inl AlreadyResolved)"
begin

definition submit_all :: "(uuid \<times> resolution) list \<Rightarrow> 's \<Rightarrow> 's" where
  "submit_all rs s = fold (\<lambda>ir s. fst (submit s ir)) rs s"

lemma first_resolution_stands:
  "inv s \<Longrightarrow> inv (submit_all rs s) \<and> resolved (submit_all rs s) i
     = (case resolved s i of Some r \<Rightarrow> Some r | None \<Rightarrow> map_of rs i)"
  unfolding submit_all_def
proof (induction rs arbitrary: s)
  case (Cons ir rs)
  obtain j r where ir: "ir = (j, r)" by fastforce
  note IH = Cons.IH [OF submit_inv [OF Cons.prems, of ir]]
  show ?case
  proof (cases "resolved s j")
    case None
    with IH submit_open [OF Cons.prems None, of r] show ?thesis by (auto simp: ir split: option.splits)
  next
    case (Some q)
    with IH submit_fenced [OF Cons.prems, of j r] show ?thesis by (auto simp: ir split: option.splits)
  qed
qed (simp split: option.splits)

end

interpretation mock: fenced_settler "\<lambda>s (i, r). record_resolution i r s" "\<lambda>s i. resolution_of i s" bt_inv
  by unfold_locales (auto simp: record_resolution_def resolution_of_def bt_inv_insert bt_get_insert fun_eq_iff split: if_splits)

lemma record_resolution_effect:
  assumes "bt_inv s"
  shows "bt_inv (fst (record_resolution i r s)) \<and> resolution_of j (fst (record_resolution i r s))
    = (if j = i then Some (case resolution_of i s of Some q \<Rightarrow> q | None \<Rightarrow> r) else resolution_of j s)"
  using mock.first_resolution_stands [OF assms, of "[(i, r)]" j] by (auto simp: mock.submit_all_def split: option.splits)

subsection \<open>Identities\<close>

definition identity :: "(seat_id \<times> string) list \<Rightarrow> seat_info \<Rightarrow> seat_info" where
  "identity recovered s = (case map_of (rev recovered) (si_seat s) of Some a \<Rightarrow> s\<lparr>si_controller := a\<rparr> | None \<Rightarrow> s)"

lemma seat_identity_map:
  "distinct (map si_seat ss) \<Longrightarrow> seat_identity seat a ss = map (\<lambda>s. if si_seat s = seat then s\<lparr>si_controller := a\<rparr> else s) ss"
proof (induction seat a ss rule: seat_identity.induct)
  case (2 seat a s ss)
  then show ?case by (cases "si_seat s = seat") (auto simp: image_iff intro!: map_idI [symmetric])
qed simp

lemma identity_seat [simp]: "si_seat (identity recovered s) = si_seat s"
  by (simp add: identity_def split: option.splits)

lemma seat_recovered_map:
  "distinct (map si_seat ss) \<Longrightarrow> seat_recovered_identities ss recovered = map (identity recovered) ss"
  unfolding seat_recovered_identities_def
proof (induction recovered rule: rev_induct)
  case (snoc x rs)
  obtain seat a where x: "x = (seat, a)" by fastforce
  have "distinct (map si_seat (map (identity rs) ss))" using snoc.prems by (simp add: comp_def)
  from seat_identity_map [OF this, of seat a]
  have "seat_identity seat a (map (identity rs) ss) = map (identity (rs @ [x])) ss"
    by (auto simp: x identity_def split: option.splits)
  then show ?case using snoc by (simp add: x)
qed (simp add: identity_def map_idI)

lemma controller_of_in: "seat \<in> set (map si_seat ss) \<Longrightarrow> \<exists>s\<in>set ss. si_seat s = seat \<and> controller_of ss seat = Some (si_controller s)"
  by (induction ss) (auto simp: controller_of_def)

lemma field_entries_total:
  "\<forall>d\<in>set ds. sd_seat d \<in> set (map si_seat ss) \<Longrightarrow> \<exists>es. field_entries ss ds = Some es
     \<and> map fe_delta es = map sd_delta ds \<and> map (\<lambda>e. Some (fe_agent e)) es = map (controller_of ss \<circ> sd_seat) ds"
  by (induction ds) (use controller_of_in [of _ ss] in \<open>fastforce simp: panic_simps\<close>)+

subsection \<open>What is settled for a finished match\<close>

text \<open>The record a settlement commits to: the match's own, under the identities proved in the handshake.\<close>

definition sealed :: "arena_match \<Rightarrow> (seat_id \<times> string) list \<Rightarrow> replay_record" where
  "sealed m recovered = (build_replay m)\<lparr>rr_seats := map (identity recovered) (m_seats m)\<rparr>"

definition due_resolution :: "crates \<Rightarrow> arena_match \<Rightarrow> (seat_id \<times> string) list \<Rightarrow> resolution \<Rightarrow> bool" where
  "due_resolution X m recovered r \<longleftrightarrow>
     (let digest = replay_digest X (sealed m recovered); os = outcomes (m_pawns m);
          who = (\<lambda>seat. controller_of (rr_seats (sealed m recovered)) seat)
      in if length os = 2
         then (case settlement_of (build_result X m) of
                 Win seat \<Rightarrow> seat \<in> set (map si_seat (m_seats m)) \<and> (\<exists>w. who seat = Some w \<and> r = Res_Win w None digest)
               | Draw_Settlement \<Rightarrow> r = Res_Draw None digest)
         else 2 < length os \<and> (\<exists>es ds. r = Res_Field es digest \<and> map (\<lambda>e. Some (fe_agent e)) es = map (who \<circ> so_seat) os
            \<and> ranked_field_delta (build_result X m) (replicate (length os) DEFAULT_RATING) DEV_MOCK_K = Some ds \<and> map fe_delta es = map sd_delta ds
            \<and> sum_list (map fe_delta es) = 0 \<and> (\<forall>e\<in>set es. \<bar>fe_delta e\<bar> \<le> int (length os - 1) * DEV_MOCK_K)))"

lemma outcomes_seats: "set (map so_seat (outcomes ps)) = set (map p_seat ps)" "length (outcomes ps) = length ps"
  by (simp_all add: outcomes_def seat_outcome_of_def image_image comp_def)

lemma settlement_seat: "settlement_of r = Win s \<Longrightarrow> s \<in> set (map so_seat (mr_outcomes r))"
  unfolding settlement_winner by (force simp: filter_eq_Cons_iff)


text \<open>
  A finished match settles once and under the proven identities. Handing an ended match to the settler
  returns; no other match's resolution changes; if the match already has one, it stays; and otherwise two seats
  settle as a win of the winning seat's identity or as a draw, three or more as a field with one entry per
  outcome in seat order, with the deltas the outcomes earn among equals, which sum to zero, the identity of a seat being the address it last proved in
  the handshake and its roster label else. What is committed is the digest of the record under these identities.
\<close>

theorem finished_match_settles:
  assumes "match_ok X m" "m_result m = Some result" "distinct (map si_seat (m_seats m))" "bt_inv s"
    and "2 \<le> length (m_seats m)" "length (m_seats m) \<le> 256"
  shows "\<exists>s' r. settle_finished X (Some s) result m recovered = Some (Some s') \<and> bt_inv s'
    \<and> (\<forall>j. j \<noteq> m_match_id m \<longrightarrow> resolution_of j s' = resolution_of j s)
    \<and> resolution_of (m_match_id m) s' = Some (case resolution_of (m_match_id m) s of Some q \<Rightarrow> q | None \<Rightarrow> r)
    \<and> due_resolution X m recovered r"
proof -
  have res: "result = build_result X m" using assms(1,2) by (auto simp: match_ok_def split: if_splits)
  then have rm: "mr_outcomes result = outcomes (m_pawns m)" "mr_match_id result = m_match_id m" by (simp_all add: build_result_def)
  have seats: "map p_seat (m_pawns m) = map si_seat (m_seats m)" using assms(1) seated_seats by (auto simp: match_ok_def)
  then have len: "length (outcomes (m_pawns m)) = length (m_seats m)" using outcomes_seats(2) by (metis length_map)
  let ?os = "outcomes (m_pawns m)" and ?ss = "rr_seats (sealed m recovered)"
  have os: "set (map so_seat ?os) = set (map si_seat ?ss)"
    unfolding outcomes_seats seats by (auto simp: sealed_def)
  have sealed: "(build_replay m)\<lparr>rr_seats := seat_recovered_identities (rr_seats (build_replay m)) recovered\<rparr> = sealed m recovered"
    using seat_recovered_map [OF assms(3)] by (simp add: sealed_def build_replay_def)
  note effect = record_resolution_effect [OF assms(4), of "m_match_id m"]
  show ?thesis
  proof (cases "length ?os = 2")
    case True
    then obtain a b where ab: "?os = [a, b]" by (auto simp: length_Suc_conv numeral_2_eq_2)
    have "\<exists>r s'. settle_match X result (sealed m recovered) None s = Some s' \<and> fst s' = fst (record_resolution (m_match_id m) r s)
        \<and> due_resolution X m recovered r"
    proof (cases "settlement_of result")
      case (Win seat)
      have "seat \<in> set (map so_seat ?os)" using settlement_seat [OF Win] rm(1) by simp
      then have seat: "seat \<in> set (map si_seat ?ss)" using os by blast
      then obtain w where w: "controller_of ?ss seat = Some w" using controller_of_in by blast
      have "seat \<in> set (map si_seat (m_seats m))" using seat by (auto simp: sealed_def)
      with w Win True show ?thesis
        by (auto simp: settle_match_def rm ab settle_def panic_simps due_resolution_def Let_def res [symmetric] split: prod.splits intro!: exI)
    next
      case Draw_Settlement
      with True show ?thesis
        by (auto simp: settle_match_def rm ab settle_draw_def panic_simps due_resolution_def Let_def res [symmetric] split: prod.splits)
    qed
    then obtain r s' where r: "settle_match X result (sealed m recovered) None s = Some s'"
      "fst s' = fst (record_resolution (m_match_id m) r s)" "due_resolution X m recovered r" by blast
    then have "settle_finished X (Some s) result m recovered = Some (Some (fst (record_resolution (m_match_id m) r s)))"
      using True sealed by (simp add: settle_finished_def rm split_beta Let_def)
    with effect [of r] r(3) show ?thesis by (intro exI [of _ "fst (record_resolution (m_match_id m) r s)"] exI [of _ r]) auto
  next
    case False
    then have n: "2 < length ?os" using len assms(5) by simp
    let ?rs = "replicate (length ?os) DEFAULT_RATING"
    obtain ds where ds: "ranked_field_delta result ?rs DEV_MOCK_K = Some ds"
      using n by (auto simp: ranked_field_delta_def Let_def rm)
    have z: "sum_list (map sd_delta ds) = 0 \<and> map sd_seat ds = map so_seat ?os
        \<and> (\<forall>d\<in>set ds. \<bar>sd_delta d\<bar> \<le> int (length ?os - 1) * DEV_MOCK_K)"
      using ranked_field_zero_sum [OF ds] len assms(6) by (simp add: DEV_MOCK_K_def rm)
    have "sd_seat d \<in> set (map si_seat ?ss)" if "d \<in> set ds" for d
    proof -
      have "sd_seat d \<in> set (map sd_seat ds)" using that by simp
      then show ?thesis using z os by metis
    qed
    with field_entries_total [of ds ?ss] obtain es where es: "field_entries ?ss ds = Some es" "map fe_delta es = map sd_delta ds"
      "map (\<lambda>e. Some (fe_agent e)) es = map (controller_of ?ss \<circ> sd_seat) ds" by blast
    let ?r = "Res_Field es (replay_digest X (sealed m recovered))"
    have "settle_field_match X result (sealed m recovered) \<lparr>fc_ratings = ?rs, fc_k = DEV_MOCK_K\<rparr> s
        = Some (let (s', e) = record_resolution (m_match_id m) ?r s in (s', map_sum id (\<lambda>_. length ?os) e))"
      using n ds es(1) by (simp add: settle_field_match_def rm Let_def panic_simps settle_field_def split_beta)
    then have "settle_finished X (Some s) result m recovered = Some (Some (fst (record_resolution (m_match_id m) ?r s)))"
      using n sealed by (simp add: settle_finished_def rm split_beta Let_def)
    moreover have "due_resolution X m recovered ?r"
    proof -
      have "map (\<lambda>e. Some (fe_agent e)) es = map (controller_of ?ss) (map sd_seat ds)" using es(3) by simp
      moreover have "(\<forall>e\<in>set es. \<bar>fe_delta e\<bar> \<le> int (length ?os - 1) * DEV_MOCK_K)"
        using z es(2) by (metis (mono_tags, lifting) image_eqI image_iff list.set_map)
      moreover have "ranked_field_delta (build_result X m) ?rs DEV_MOCK_K = Some ds" using ds res by simp
      ultimately show ?thesis using n z es(2) by (auto simp: due_resolution_def Let_def comp_def)
    qed
    ultimately show ?thesis using effect [of ?r] by (intro exI [of _ "fst (record_resolution (m_match_id m) ?r s)"] exI [of _ ?r]) auto
  qed
qed


text \<open>
  A record and the settlement of its match commit to different replays as soon as an identity was proved: the result
  and the emitted record fold the roster labels, the settler the addresses. If the two digests agree all the same,
  they are a Keccak collision.
\<close>

lemma ok_identity:
  assumes "ok_replay (build_replay m)" "\<forall>(seat, a)\<in>set recovered. length a < 2 ^ 32"
  shows "ok_replay (sealed m recovered)"
proof -
  have "ok_seat_info (identity recovered s)" if "ok_seat_info s" for s
    using that assms(2) by (fastforce simp: ok_seat_info_def identity_def ok_str_def split: option.splits dest: map_of_SomeD)
  then show ?thesis using assms(1) by (auto simp: ok_replay_def sealed_def ok_list_def list_all_iff build_replay_def)
qed

theorem sealed_record_differs:
  assumes "m_result m = Some result" "match_ok X m" "ok_replay (build_replay m)" "\<forall>(seat, a)\<in>set recovered. length a < 2 ^ 32"
    and "s \<in> set (m_seats m)" "identity recovered s \<noteq> s"
  shows "\<exists>rec. to_record m = Some rec \<and> rec_result rec = result
    \<and> mr_replay_hash result = hex_encode X (replay_digest X (rec_replay rec))
    \<and> (replay_digest X (sealed m recovered) \<noteq> replay_digest X (rec_replay rec)
       \<or> (\<exists>p q. p \<noteq> q \<and> keccak256 X p = keccak256 X q))"
proof -
  have res: "result = build_result X m" "m_phase m = Ended" using assms(1,2) by (auto simp: match_ok_def split: if_splits)
  have "map (identity recovered) (m_seats m) \<noteq> m_seats m" using assms(5,6) map_eq_conv [of "identity recovered" "m_seats m" "\<lambda>s. s"] by auto
  then have "committed (sealed m recovered) \<noteq> committed (build_replay m)"
    by (auto simp: committed_def sealed_def build_replay_def)
  then have "replay_preimage (sealed m recovered) \<noteq> replay_preimage (build_replay m)"
    using replay_preimage_inj [OF ok_identity [OF assms(3,4)] assms(3)] by blast
  then have "replay_digest X (sealed m recovered) \<noteq> replay_digest X (build_replay m) \<or> (\<exists>p q. p \<noteq> q \<and> keccak256 X p = keccak256 X q)"
    by (auto simp: replay_digest_def)
  then show ?thesis using res to_record_ended [OF assms(2)] by (auto simp: build_result_def)
qed


subsection \<open>The ladder\<close>

lemma outcomes_in_seat_order: "map p_seat ps = [0..<n] \<Longrightarrow> map so_seat (outcomes ps) = [0..<n]"
proof -
  assume "map p_seat ps = [0..<n]"
  moreover have "mset (map so_seat (outcomes ps)) = mset (map p_seat ps)"
    by (simp add: outcomes_def seat_outcome_of_def comp_def image_mset.compositionality)
  moreover have "sorted (map so_seat (outcomes ps))" unfolding outcomes_def by (rule sorted_sort_key)
  ultimately show ?thesis by (metis properties_for_sort sorted_upt sort_upt)
qed

lemma cover_roster_total:
  "distinct (map so_seat os) \<Longrightarrow> set (map so_seat os) \<subseteq> {..<length crew} - set seen \<Longrightarrow> \<exists>as. cover_roster crew seen os = Some as \<and> length as = length os"
proof (induction crew seen os rule: cover_roster.induct)
  case (2 crew seen o1 os)
  then have o1: "nth_opt crew (so_seat o1) = Some (crew ! so_seat o1)" "\<not> List.member seen (so_seat o1)" by (auto simp: nth_opt_def)
  have "set (map so_seat os) \<subseteq> {..<length crew} - set (so_seat o1 # seen)" using 2(2,3) by (auto simp: image_iff)
  with 2(1) [OF o1] 2(2) obtain as where "cover_roster crew (so_seat o1 # seen) os = Some as" "length as = length os" by auto
  with o1 show ?case by simp
qed simp

lemma ranked_delta_zero_sum: "ranked_delta r ra rb k = Some d \<Longrightarrow> rd_a d + rd_b d = 0"
  by (auto simp: ranked_delta_def rating_delta_def Let_def split: list.splits settlement.splits if_splits)

text \<open>
  What a result does to the ladder: the deltas its outcomes earn at the ratings the players came with, in seat order,
  and the ladder with every seat's new rating written, one seat after the other.
\<close>

definition due_deltas :: "match_result \<Rightarrow> i32 list \<Rightarrow> i32 list option" where
  "due_deltas result ratings =
     (case ratings of
        [ra, rb] \<Rightarrow> map_option (\<lambda>d. [rd_a d, rd_b d]) (ranked_delta result ra rb DEV_MOCK_K)
      | _ \<Rightarrow> map_option (map sd_delta) (ranked_field_delta result ratings DEV_MOCK_K))"

definition write_ratings :: "(string \<times> i32) list \<Rightarrow> (string, i32) btree \<Rightarrow> (string, i32) btree" where
  "write_ratings news ratings = fold (\<lambda>(a, r). bt_insert a r) news ratings"

lemma write_ratings_get:
  "bt_inv ratings \<Longrightarrow> bt_inv (write_ratings news ratings)
   \<and> bt_get (write_ratings news ratings) a = (case map_of (rev news) a of Some r \<Rightarrow> Some r | None \<Rightarrow> bt_get ratings a)"
proof (induction news rule: rev_induct)
  case (snoc x news)
  then show ?case by (cases x) (simp add: write_ratings_def bt_inv_insert bt_get_insert)
qed (simp add: write_ratings_def)

definition new_ratings :: "(string, i32) btree \<Rightarrow> string list \<Rightarrow> i32 list \<Rightarrow> (string \<times> i32) list" where
  "new_ratings ratings who deltas = map (\<lambda>(a, d). (a, sat_i32 (rating_or_default ratings a + d))) (zip who deltas)"

lemma field_moves_written:
  assumes "length ds = length as"
  shows "fold (\<lambda>(d, a, base). bt_insert a (sat_i32 (base + sd_delta d))) (zip ds (zip as (map (rating_or_default ratings) as))) m
    = write_ratings (new_ratings ratings as (map sd_delta ds)) m"
  using assms unfolding new_ratings_def
  by (induction ds as arbitrary: m rule: list_induct2) (simp_all add: write_ratings_def)

text \<open>
  The result of the one registered match settles into the ladder: the registration is used up, the ladder is the old one
  with each seat's new rating written, and every seat has its line; the deltas cancel.
\<close>

lemma ranked_result_settles:
  assumes "match_ok X m" "m_result m = Some result" "map si_seat (m_seats m) = [0..<n]" "2 \<le> n" "n < 256"
    and "mm_pending st = [(m_match_id m, \<lparr>pr_seq = i, pr_agents = map si_controller (m_seats m)\<rparr>)]"
  defines "who \<equiv> map si_controller (m_seats m)"
  shows "\<exists>st' ds. settle_ranked_ladder result (m_seats m) st
      = (st', Some (zip [0..<n] (zip (map (rating_or_default (mm_ratings st')) who) ds))) \<and> mm_pending st' = []
    \<and> due_deltas result (map (rating_or_default (mm_ratings st)) who) = Some ds \<and> length ds = n \<and> sum_list ds = 0
    \<and> mm_ratings st' = write_ratings (new_ratings (mm_ratings st) who ds) (mm_ratings st)"
proof -
  let ?ss = "m_seats m" and ?p = "\<lparr>pr_seq = i, pr_agents = who\<rparr>"
  have res: "mr_outcomes result = outcomes (m_pawns m)" "mr_match_id result = m_match_id m"
    using assms(1,2) by (auto simp: match_ok_def build_result_def split: if_splits)
  have "map p_seat (m_pawns m) = [0..<n]" using assms(1,3) seated_seats by (auto simp: match_ok_def)
  then have seats: "map so_seat (mr_outcomes result) = [0..<n]" using outcomes_in_seat_order res by simp
  have lens: "length (mr_outcomes result) = n" "length ?ss = n" "length who = n"
    using arg_cong [OF seats, of length] arg_cong [OF assms(3), of length] by (simp_all add: who_def)
  have pend: "bt_get (mm_pending st) (m_match_id m) = Some ?p" "bt_remove (m_match_id m) (mm_pending st) = []"
    using assms(6) by (simp_all add: bt_get_def bt_remove_def who_def)
  have look: "controller_of ?ss seat = Some (who ! seat)" if "seat < n" for seat
  proof -
    have at: "si_seat (?ss ! j) = j" if "j < n" for j using assms(3) that lens(2) by (metis add_0 nth_map nth_upt)
    then have "find (\<lambda>s. si_seat s = seat) ?ss = Some (?ss ! seat)"
      unfolding find_Some_iff lens(2) by (intro exI [of _ seat] conjI allI impI) (use that at in simp_all)
    then show ?thesis using that lens(2) by (simp add: controller_of_def who_def)
  qed
  have line: "(case Option.bind (controller_of ?ss seat) (rating u) of Some r \<Rightarrow> r | None \<Rightarrow> DEFAULT_RATING)
      = rating_or_default (mm_ratings u) (who ! seat)" if "seat < n" for seat u
    using look [OF that] by (simp add: rating_def rating_or_default_def split: option.splits)
  show ?thesis
  proof (cases "n = 2")
    case True
    then obtain a b where ab: "mr_outcomes result = [a, b]" using lens(1) by (auto simp: length_Suc_conv numeral_2_eq_2)
    then have sab: "so_seat a = 0" "so_seat b = 1" using seats True by (simp_all add: upt_rec)
    obtain wa wb where w: "who = [wa, wb]" using lens(3) True by (auto simp: length_Suc_conv numeral_2_eq_2)
    obtain d where d: "ranked_delta result (rating_or_default (mm_ratings st) wa) (rating_or_default (mm_ratings st) wb) DEV_MOCK_K = Some d"
      using settlement_seat [of result] ab sab by (cases "settlement_of result") (auto simp: ranked_delta_def)
    let ?st = "st\<lparr>mm_pending := [], mm_ratings := write_ratings (new_ratings (mm_ratings st) who [rd_a d, rd_b d]) (mm_ratings st)\<rparr>"
    have "apply_ranked_result result DEV_MOCK_K st = (?st, Some d)"
      using d pend by (simp add: apply_ranked_result_def ab sab res nth_opt_def Let_def w write_ratings_def new_ratings_def)
    then have "settle_ranked_ladder result ?ss st
        = (?st, Some (zip [0..<n] (zip (map (rating_or_default (mm_ratings ?st)) who) [rd_a d, rd_b d])))"
      using line [of 0 ?st] line [of 1 ?st] True by (simp add: settle_ranked_ladder_def ab sab upt_rec w)
    moreover have "due_deltas result (map (rating_or_default (mm_ratings st)) who) = Some [rd_a d, rd_b d]"
      using d by (simp add: due_deltas_def w)
    ultimately show ?thesis using ranked_delta_zero_sum [OF d] True by (intro exI [of _ ?st] exI [of _ "[rd_a d, rd_b d]"]) simp
  next
    case False
    then have n: "2 < n" using assms(4) by simp
    have d: "distinct (map so_seat (mr_outcomes result))" "set (map so_seat (mr_outcomes result)) \<subseteq> {..<length who} - set []"
      unfolding seats using lens(3) by auto
    obtain as where as: "cover_roster who [] (mr_outcomes result) = Some as" using cover_roster_total [OF d] by auto
    have "as = map ((!) who) (map so_seat (mr_outcomes result))" using cover_roster_Some [OF as] by simp
    then have who: "as = who" unfolding seats using lens(3) map_nth [of who] by simp
    let ?bases = "map (rating_or_default (mm_ratings st)) who"
    obtain ds where ds: "ranked_field_delta result ?bases DEV_MOCK_K = Some ds"
      using n lens(1,3) by (auto simp: ranked_field_delta_def Let_def)
    have z: "sum_list (map sd_delta ds) = 0" "map sd_seat ds = [0..<n]"
      using ranked_field_zero_sum [OF ds] lens(1) assms(5) seats by (simp_all add: DEV_MOCK_K_def)
    then have len: "length ds = n" by (metis length_map length_upt minus_nat.diff_0)
    let ?st = "st\<lparr>mm_pending := [], mm_ratings := write_ratings (new_ratings (mm_ratings st) who (map sd_delta ds)) (mm_ratings st)\<rparr>"
    have st: "apply_ranked_field_result result DEV_MOCK_K st = (?st, Some ds)"
      using as ds pend lens len by (simp add: apply_ranked_field_result_def res Let_def who field_moves_written)
    obtain x y v vs where "mr_outcomes result = x # y # v # vs" using n lens(1)
      by (metis Suc_less_eq2 length_Suc_conv less_nat_zero_code list.exhaust list.size(3) not_less_eq numeral_2_eq_2)
    then have s: "settle_ranked_ladder result ?ss st = (?st, Some (map (\<lambda>d. (sd_seat d,
        (case Option.bind (controller_of ?ss (sd_seat d)) (rating ?st) of Some r \<Rightarrow> r | None \<Rightarrow> DEFAULT_RATING), sd_delta d)) ds))"
      using st by (simp add: settle_ranked_ladder_def comp_def)
    have at: "sd_seat (ds ! j) = j" if "j < n" for j using z(2) that len by (metis add_0 nth_map nth_upt)
    have "map (\<lambda>d. (sd_seat d, (case Option.bind (controller_of ?ss (sd_seat d)) (rating ?st) of Some r \<Rightarrow> r | None \<Rightarrow> DEFAULT_RATING), sd_delta d)) ds
        = zip [0..<n] (zip (map (rating_or_default (mm_ratings ?st)) who) (map sd_delta ds))"
      by (rule nth_equalityI) (use len lens(3) at line [of _ ?st] in simp_all)
    moreover have "due_deltas result ?bases = Some (map sd_delta ds)"
    proof -
      obtain x y v vs where "?bases = x # y # v # vs"
        using n lens(3) by (cases ?bases rule: remdups_adj.cases) (auto simp: length_Suc_conv neq_Nil_conv Suc_less_eq2 numeral_2_eq_2)
      then show ?thesis using ds by (simp add: due_deltas_def)
    qed
    ultimately show ?thesis using s z(1) len by (intro exI [of _ ?st] exI [of _ "map sd_delta ds"]) simp
  qed
qed

end
