(* ===== verification/Harness_Props.thy ===== *)
theory Harness_Props
  imports Harness_Run Harness_Settle_Props Gateway_Props
begin

section \<open>What a run of the gateway guarantees\<close>

subsection \<open>Reading the handshake\<close>

lemma next_read_in:
  assumes "next_read ls = Some (line, ls')"
  shows "line \<in> texts (map snd ls) \<and> texts (map snd ls') \<subseteq> texts (map snd ls)"
proof -
  obtain rest where "next_line (map snd ls) = Some (line, rest)" "ls' = drop (length ls - length rest) ls"
    using assms by (auto simp: next_read_def)
  with next_line_in [of "map snd ls" line rest] show ?thesis
    using set_drop_subset [of "length ls - length rest" ls] by (auto simp: texts_def)
qed

text \<open>What a client said when it joined a seat.\<close>

definition joined :: "gateway_json \<Rightarrow> timed_lines \<Rightarrow> seat_id \<Rightarrow> string \<Rightarrow> string \<Rightarrow> bool" where
  "joined J ls seat agent_id signature_hex \<longleftrightarrow>
     (\<exists>line\<in>texts (map snd ls). read_agent J line = Some (seat, Ag_Join PROTOCOL_VERSION agent_id signature_hex))"

lemma joined_mono: "joined J ls' seat a s \<Longrightarrow> texts (map snd ls') \<subseteq> texts (map snd ls) \<Longrightarrow> joined J ls seat a s"
  by (auto simp: joined_def)

lemma version_agrees: "check_version v = Inr () \<longleftrightarrow> v = PROTOCOL_VERSION"
  by (simp add: check_version_def)

text \<open>
  The lines a handshake reads: as many as asked for, blank ones skipped. The seats proved by them: every join with a
  signature, in the order of the lines, with the address it claims.
\<close>

primrec first_reads :: "nat \<Rightarrow> timed_lines \<Rightarrow> string list" where
  "first_reads 0 ls = []"
| "first_reads (Suc k) ls = (case next_read ls of None \<Rightarrow> [] | Some (line, ls) \<Rightarrow> line # first_reads k ls)"

definition proved_seats :: "gateway_json \<Rightarrow> string list \<Rightarrow> (seat_id \<times> string) list" where
  "proved_seats J lines =
     List.map_filter (\<lambda>line. case read_agent J line of
        Some (seat, Ag_Join version agent_id signature_hex) \<Rightarrow> if signature_hex = [] then None else Some (seat, agent_id)
      | _ \<Rightarrow> None) lines"

text \<open>A line that seats somebody: a join of this version, unsigned or signed by the address it claims over the seat's challenge.\<close>

definition seats_somebody :: "mesh_crates \<Rightarrow> gateway_json \<Rightarrow> uuid \<Rightarrow> string \<Rightarrow> bool" where
  "seats_somebody X J match_id line \<longleftrightarrow> (\<exists>seat agent_id signature_hex.
     read_agent J line = Some (seat, Ag_Join PROTOCOL_VERSION agent_id signature_hex)
     \<and> (signature_hex = [] \<or> verify_join_signature X PROTOCOL_VERSION agent_id (str_bytes (nonce_for X match_id seat)) signature_hex = Inr ()))"

lemma direct_joins_proved:
  assumes "direct_joins X J settler m k recovered ls out = Some (Returned (recovered', ls', out'))"
  shows "recovered' = recovered @ proved_seats J (first_reads k ls) \<and> length (first_reads k ls) = k
    \<and> (\<forall>line\<in>set (first_reads k ls). seats_somebody X J (m_match_id m) line)"
  using assms
proof (induction k arbitrary: recovered ls out)
  case 0
  then show ?case by (simp add: proved_seats_def)
next
  case (Suc k)
  obtain line ls1 seat msg where r: "next_read ls = Some (line, ls1)" "read_agent J line = Some (seat, msg)"
    using Suc.prems by (auto simp: panic_simps)
  with Suc.prems obtain v a s where "msg = Ag_Join v a s" "check_version v = Inr ()"
    by (cases msg) (auto simp: panic_simps reject_and_exit_def split: if_splits)
  with r have l: "next_read ls = Some (line, ls1)" "read_agent J line = Some (seat, Ag_Join v a s)" "check_version v = Inr ()" by auto
  then obtain p where p: "admit_join X a (str_bytes (nonce_for X (m_match_id m) seat)) s = Inr p"
    "direct_joins X J settler m k (recovered @ (case p of Some address \<Rightarrow> [(seat, address)] | None \<Rightarrow> [])) ls1
       (out @ welcome_start m seat) = Some (Returned (recovered', ls', out'))"
    using Suc.prems by (auto simp: panic_simps reject_and_exit_def split: sum.splits)
  have line: "seats_somebody X J (m_match_id m) line" "(case p of Some address \<Rightarrow> [(seat, address)] | None \<Rightarrow> []) = (if s = [] then [] else [(seat, a)])"
    using p(1) l by (auto simp: seats_somebody_def admit_join_def version_agrees split: if_splits sum.splits)
  from Suc.IH [OF p(2) [unfolded line(2)]] line(1) l show ?case
    by (cases "s = []") (simp_all add: proved_seats_def List.map_filter_def)
qed

lemma collect_joins_joined:
  assumes "collect_joins J k ls joins = Some (Inr (joins', ls'))"
  shows "texts (map snd ls') \<subseteq> texts (map snd ls)
    \<and> (\<forall>(seat, a, s)\<in>set joins'. (seat, a, s) \<in> set joins \<or> joined J ls seat a s)"
  using assms
proof (induction k arbitrary: joins ls)
  case (Suc k)
  obtain line ls1 seat msg where r: "next_read ls = Some (line, ls1)" "read_agent J line = Some (seat, msg)"
    using Suc.prems by (auto simp: panic_simps)
  with Suc.prems obtain v a s where "msg = Ag_Join v a s" "check_version v = Inr ()"
    "collect_joins J k ls1 (bt_insert seat (a, s) joins) = Some (Inr (joins', ls'))"
    by (cases msg) (auto simp: panic_simps split: if_splits)
  with r have l: "next_read ls = Some (line, ls1)" "read_agent J line = Some (seat, Ag_Join v a s)"
    "check_version v = Inr ()" "collect_joins J k ls1 (bt_insert seat (a, s) joins) = Some (Inr (joins', ls'))" by auto
  note n = next_read_in [OF l(1)]
  have j: "joined J ls seat a s" using l n by (auto simp: joined_def version_agrees)
  from Suc.IH [OF l(4)] have IH: "texts (map snd ls') \<subseteq> texts (map snd ls1)"
    "\<forall>(q, b, t)\<in>set joins'. (q, b, t) \<in> set (bt_insert seat (a, s) joins) \<or> joined J ls1 q b t" by auto
  have "(q, b, t) \<in> set joins \<or> joined J ls q b t" if "(q, b, t) \<in> set joins'" for q b t
    using IH(2) that j n bt_insert_in [of q "(b, t)" seat "(a, s)" joins] by (fastforce intro: joined_mono)
  then show ?case using IH(1) n by auto
qed auto

subsection \<open>The matchmade handshake\<close>

text \<open>A pool as large as a match is seated as a whole, in order.\<close>

lemma full_pool_plays:
  assumes "try_form mode queue ratings seats tol = (q, Some crew)" "mode_kinds mode queue" "2 \<le> seats" "length queue = seats"
  shows "crew = queue \<and> q = []"
proof -
  obtain picks where p: "taken seats mode queue picks" "crew = nths queue (set picks)" "q = nths queue (- set picks)"
    by (rule try_form_Some [OF assms(1-3)])
  then have "set picks \<subseteq> {..<seats}" "card (set picks) = seats"
    using assms(4) by (auto simp: taken_def picks_ok_def distinct_card)
  then have "set picks = {..<seats}" by (metis card_lessThan card_subset_eq finite_lessThan)
  then have "nths queue (set picks) = queue" using assms(4) by (simp add: nths_all)
  moreover have "nths queue (- set picks) = []"
    using length_nths_Compl [of queue "set picks"] calculation by simp
  ultimately show ?thesis using p by simp
qed

lemma short_pool_waits: "length queue < seats \<Longrightarrow> try_form mode queue ratings seats tol = (queue, None)"
  by (simp add: try_form_def)

text \<open>The request a seat's join is turned into.\<close>

definition seat_request :: "args \<Rightarrow> match_mode \<Rightarrow> (seat_id, string \<times> string) btree \<Rightarrow> seat_id \<Rightarrow> join_request" where
  "seat_request a mode joins seat = (case bt_get joins seat of
     Some (agent, signature_hex) \<Rightarrow> join_request_for mode seat (ag_human_seats a) agent signature_hex
   | None \<Rightarrow> human_request [])"

definition ranked_entry :: "match_mode \<Rightarrow> uuid \<Rightarrow> string list \<Rightarrow> (uuid, pending_ranked) btree" where
  "ranked_entry mode i agents = (if mode = Mode_Agent then [(i, \<lparr>pr_seq = 0, pr_agents = agents\<rparr>)] else [])"

lemma route_joins_run:
  assumes "route_joins W mk mids a mode joins [k..<n] st None = Some (Inr (st', Some m))"
    and "maker_ok mk" "mp_seats_per_match (mk_params mk) = n" "mp_max_pending_ranked (mk_params mk) = 4096" "k \<le> n"
    and "queue_for mode (mm_queues st) = map (seat_of \<circ> seat_request a mode joins) [0..<k]" "mm_pending st = []" "mm_next_seq st = 0"
    and "\<forall>seat<k. admit mk mode (str_bytes (nonce_for (ou_mesh W) (ag_match_id a) seat)) (seat_request a mode joins seat) = Inr ()"
  shows "(\<forall>seat<n. bt_get joins seat \<noteq> None \<or> seat < k)
    \<and> (\<forall>seat<n. admit mk mode (str_bytes (nonce_for (ou_mesh W) (ag_match_id a) seat)) (seat_request a mode joins seat) = Inr ())
    \<and> queue_for mode (mm_queues st') = []
    \<and> build_match (ou_maps W) (mk_params mk) (mids (n - 1))
        (roster_seats (mids (n - 1)) (mk_params mk) (map (seat_of \<circ> seat_request a mode joins) [0..<n])) = Some m
    \<and> mm_pending st' = ranked_entry mode (mids (n - 1)) (map (jq_agent_id \<circ> seat_request a mode joins) [0..<n])"
  using assms
proof (induction "n - k" arbitrary: k st)
  case 0
  then show ?case by simp
next
  case (Suc d)
  let ?req = "seat_request a mode joins" and ?nonce = "\<lambda>seat. str_bytes (nonce_for (ou_mesh W) (ag_match_id a) seat)"
  have k: "k < n" "[k..<n] = k # [Suc k..<n]" using Suc.hyps(2) by (simp_all add: upt_conv_Cons)
  obtain ag sg st1 answer where j: "bt_get joins k = Some (ag, sg)"
    "join (ou_maps W) mk (mids k) (\<lambda>st. st) mode (?nonce k) (?req k) st = Some (st1, answer)"
    using Suc.prems(1) unfolding k(2) by (auto simp: panic_simps seat_request_def)
  have ok: "admit mk mode (?nonce k) (?req k) = Inr ()"
  proof (cases "admit mk mode (?nonce k) (?req k)")
    case (Inl e)
    with j(2) have "answer = Inl e" by (auto simp: join_def)
    with Suc.prems(1) j show ?thesis unfolding k(2) by (auto simp: panic_simps seat_request_def)
  qed simp
  let ?queue = "map (seat_of \<circ> ?req) [0..<Suc k]"
  obtain q crew where f: "try_form mode ?queue (mm_ratings (seeded mode (jq_agent_id (?req k)) st)) n
      (mp_ranked_rating_tolerance (mk_params mk)) = (q, crew)" by fastforce
  let ?st = "(seeded mode (jq_agent_id (?req k)) st)\<lparr>mm_queues := set_queue mode q (mm_queues st)\<rparr>"
  have sec: "join_section mk mode (seat_of (?req k)) st = (?st, crew)"
    using f Suc.prems(3,6) by (simp add: join_section_eq seat_of_def)
  have frame: "queue_for mode (mm_queues ?st) = q" "mm_pending ?st = []" "mm_next_seq ?st = 0"
    using Suc.prems(7,8) by (simp_all add: queue_for_set_queue seeded_def)
  have adm: "\<forall>seat<Suc k. admit mk mode (?nonce seat) (?req seat) = Inr ()" using Suc.prems(9) ok by (auto simp: less_Suc_eq)
  have seats: "2 \<le> n" using seats_range [OF Suc.prems(2)] Suc.prems(3) by simp
  show ?case
  proof (cases "Suc k < n")
    case True
    then have "crew = None" "q = ?queue" using f short_pool_waits [of ?queue n mode] by auto
    then have "answer = Inr Join_Queued" "st1 = ?st" using j(2) ok sec by (auto simp: join_def seat_of_def)
    then have "route_joins W mk mids a mode joins [Suc k..<n] ?st None = Some (Inr (st', Some m))"
      using Suc.prems(1) j unfolding k(2) by (simp add: panic_simps seat_request_def)
    from Suc.hyps(1) [OF _ this Suc.prems(2-4)] True Suc.hyps(2) frame \<open>q = ?queue\<close> adm
    have "(\<forall>seat<n. bt_get joins seat \<noteq> None \<or> seat < Suc k)
      \<and> (\<forall>seat<n. admit mk mode (?nonce seat) (?req seat) = Inr ()) \<and> queue_for mode (mm_queues st') = []
      \<and> build_match (ou_maps W) (mk_params mk) (mids (n - 1)) (roster_seats (mids (n - 1)) (mk_params mk) (map (seat_of \<circ> ?req) [0..<n])) = Some m
      \<and> mm_pending st' = ranked_entry mode (mids (n - 1)) (map (jq_agent_id \<circ> ?req) [0..<n])" by simp
    then show ?thesis using j(1) by (auto simp: less_Suc_eq)
  next
    case False
    then have n: "n = Suc k" using k(1) by simp
    have none: "crew \<noteq> None"
    proof
      assume "crew = None"
      then have "answer = Inr Join_Queued" using j(2) ok sec by (auto simp: join_def seat_of_def)
      with Suc.prems(1) j show False unfolding k(2) n by (simp add: panic_simps seat_request_def)
    qed
    have kinds: "mode_kinds mode ?queue"
    proof -
      have "mode_kinds mode [seat_of (?req seat)]" if "seat < Suc k" for seat using adm that admit_kind by blast
      then show ?thesis by (auto simp: mode_kinds_def all_kind_def)
    qed
    obtain cr where cr: "crew = Some cr" using none by blast
    then have full: "cr = ?queue" "q = []" using full_pool_plays [OF f [unfolded cr] kinds seats] n by auto
    then obtain mm where b: "build (ou_maps W) mk (mids k) mode ?queue (\<lambda>st. st) ?st = Some (st1, mm)" "answer = Inr (Join_Formed mm)"
      using j(2) ok sec cr by (auto simp: join_def seat_of_def)
    have out: "st1 = st'" "mm = m" using Suc.prems(1) j b(2) unfolding k(2) n by (simp_all add: panic_simps seat_request_def)
    have ctl: "map si_controller (roster_seats (mids k) (mk_params mk) ?queue) = map (jq_agent_id \<circ> ?req) [0..<n]"
      using roster_seats_controllers(1) [OF Suc.prems(2), of ?queue "mids k"] Suc.prems(3) n by (simp add: seat_of_def comp_def)
    have "mm_pending st' = ranked_entry mode (mids k) (map (jq_agent_id \<circ> ?req) [0..<n])"
      using b(1) out frame Suc.prems(4) unfolding ctl [symmetric]
      by (auto simp: build_def Let_def ranked_entry_def register_ranked_def split: if_splits)
    moreover have "queue_for mode (mm_queues st') = []"
      using b(1) out frame(1) full(2) by (auto simp: build_def Let_def register_ranked_frame split: if_splits)
    moreover have "build_match (ou_maps W) (mk_params mk) (mids k) (roster_seats (mids k) (mk_params mk) ?queue) = Some m"
      using b(1) out by (auto simp: build_def Let_def split: if_splits)
    ultimately show ?thesis using adm j(1) n by (auto simp: less_Suc_eq)
  qed
qed

lemma roster_seats_seats:
  assumes "maker_ok mk" "length crew = mp_seats_per_match (mk_params mk)"
  shows "map si_seat (roster_seats i (mk_params mk) crew) = [0..<length crew]"
proof -
  let ?ts = "assign_teams i (length crew) (mp_team_size (mk_params mk))"
  have len: "length (zip crew ?ts) = length crew"
    using assms by (simp, intro min_absorb1) (simp add: assign_teams_balanced(1) maker_ok_def params_ok_def dvd_eq_mod_eq_0)
  have "length crew < 256" using seats_range [OF assms(1)] assms(2) by simp
  moreover have "map si_seat (roster_seats i (mk_params mk) crew) = map (\<lambda>x. fst x mod 256) (enumerate 0 (zip crew ?ts))"
    by (simp add: roster_seats_def split_beta comp_def)
  moreover have "\<dots> = map (\<lambda>i. i mod 256) (map fst (enumerate 0 (zip crew ?ts)))" by (simp only: map_map comp_def)
  ultimately show ?thesis unfolding map_fst_enumerate len by (auto intro!: map_idI)
qed

lemma build_matchmaker_fresh:
  assumes "build_matchmaker W a n = Some (Returned (mk, st))"
  shows "params_ok (mk_params mk)" "mp_seats_per_match (mk_params mk) = n" "mp_max_pending_ranked (mk_params mk) = 4096"
    "mk_verifier mk = harness_verifier (ou_mesh W) a" "mk_ranked_registry mk = ranked_registry_from a"
    "mk_reputation_floor mk = ranked_reputation_floor_from a" "queue_for mode (mm_queues st) = []" "mm_pending st = []" "mm_next_seq st = 0"
    "mp_rules (mk_params mk) = rules_from a" "mp_max_ticks (mk_params mk) = ag_max_ticks a" "map_override W a = Inr (mp_map (mk_params mk))"
    "mp_arena (mk_params mk) = ag_arena a" "mp_bounds (mk_params mk) = \<lparr>vx = 50 * POSITION_SCALE, vy = 50 * POSITION_SCALE\<rparr>"
proof -
  obtain override where ov: "map_override W a = Inr override" using assms by (cases "map_override W a") (auto simp: build_matchmaker_def)
  define p where "p = (matchmaker_params n (ag_max_ticks a) (ag_arena a))\<lparr>mp_rules := rules_from a, mp_map := override, mp_team_size := ag_teams a\<rparr>"
  define V where "V = harness_verifier (ou_mesh W) a"
  define gates where "gates mk = with_ranked_reputation_floor (ranked_reputation_floor_from a) (with_ranked_registry (ranked_registry_from a) mk)" for mk
  have new: "(case ag_ladder_file a of
                None \<Rightarrow> map_option (\<lambda>(mk, st). Returned (gates mk, st)) (matchmaker_new V p)
              | Some path \<Rightarrow>
                  (case read_ladder_file W path of
                     Inl _ \<Rightarrow> Some (Exited None [])
                   | Inr None \<Rightarrow> map_option (\<lambda>(mk, st). Returned (gates mk, st)) (matchmaker_new V p)
                   | Inr (Some snapshot) \<Rightarrow>
                       map_option (\<lambda>r. case r of Inl _ \<Rightarrow> Exited None [] | Inr mm \<Rightarrow> (\<lambda>(mk, st). Returned (gates mk, st)) mm)
                         (from_snapshot V p snapshot))) = Some (Returned (mk, st))"
    using assms unfolding build_matchmaker_def ov p_def V_def gates_def Let_def by simp
  obtain mk0 st0 where "mk = gates mk0" "st = st0" "matchmaker_new V p = Some (mk0, st0) \<or> (\<exists>snap. from_snapshot V p snap = Some (Inr (mk0, st0)))"
    using new by (auto simp: map_option_case split: option.splits sum.splits)
  then obtain ratings where o: "mk = gates \<lparr>mk_verifier = V, mk_params = p, mk_ranked_registry = None, mk_reputation_floor = - (2 ^ 127)\<rparr>"
    "params_ok p" "st = mm_empty\<lparr>mm_ratings := ratings\<rparr>"
    by (auto simp: matchmaker_new_def from_snapshot_def mm_empty_def split: if_splits)
  have mk: "mk_params mk = p" using o(1) by (simp add: gates_def with_ranked_reputation_floor_def with_ranked_registry_def)
  show "params_ok (mk_params mk)" unfolding mk by (fact o(2))
  show "mp_seats_per_match (mk_params mk) = n" "mp_max_pending_ranked (mk_params mk) = 4096"
    "mk_verifier mk = harness_verifier (ou_mesh W) a" "mk_ranked_registry mk = ranked_registry_from a"
    "mk_reputation_floor mk = ranked_reputation_floor_from a" "queue_for mode (mm_queues st) = []" "mm_pending st = []" "mm_next_seq st = 0"
    "mp_rules (mk_params mk) = rules_from a" "mp_max_ticks (mk_params mk) = ag_max_ticks a" "map_override W a = Inr (mp_map (mk_params mk))"
    "mp_arena (mk_params mk) = ag_arena a" "mp_bounds (mk_params mk) = \<lparr>vx = 50 * POSITION_SCALE, vy = 50 * POSITION_SCALE\<rparr>"
    unfolding mk by (simp_all add: ov o(1,3) p_def V_def gates_def with_ranked_reputation_floor_def with_ranked_registry_def matchmaker_params_def
        default_params_def mm_empty_def queue_for_def split: match_mode.splits)
qed

text \<open>The ratings a run starts from: those of the ladder file, when there is one with a snapshot in it.\<close>

definition saved_ratings :: "outside \<Rightarrow> args \<Rightarrow> (string, i32) btree" where
  "saved_ratings W a =
     (case ag_ladder_file a of
        None \<Rightarrow> []
      | Some path \<Rightarrow> (case read_ladder_file W path of Inr (Some snapshot) \<Rightarrow> ls_ratings snapshot | _ \<Rightarrow> []))"

lemma build_matchmaker_ratings:
  assumes "build_matchmaker W a n = Some (Returned (mk, st))"
  shows "mm_ratings st = saved_ratings W a"
proof -
  obtain override where ov: "map_override W a = Inr override" using assms by (cases "map_override W a") (auto simp: build_matchmaker_def)
  define found where "found = (case ag_ladder_file a of None \<Rightarrow> Inr None | Some path \<Rightarrow> read_ladder_file W path)"
  have saved: "saved_ratings W a = (case found of Inr (Some snapshot) \<Rightarrow> ls_ratings snapshot | _ \<Rightarrow> [])"
    by (simp add: saved_ratings_def found_def split: option.splits)
  consider e where "found = Inl e" | "found = Inr None" | snapshot where "found = Inr (Some snapshot)"
    by (cases found) auto
  then show ?thesis
    using assms saved
    by cases (auto simp: build_matchmaker_def ov found_def matchmaker_new_def from_snapshot_def mm_empty_def Let_def split: option.splits if_splits)
qed

text \<open>Joins seed ratings for newcomers, and touch no other.\<close>

definition seeds :: "string set \<Rightarrow> (string, i32) btree \<Rightarrow> (string, i32) btree \<Rightarrow> bool" where
  "seeds A m m' \<longleftrightarrow> (bt_inv m \<longrightarrow> bt_inv m' \<and> (\<forall>x. rating_or_default m' x = rating_or_default m x) \<and> (\<forall>x. x \<notin> A \<longrightarrow> bt_get m' x = bt_get m x))"

lemma seeds_trans: "seeds A m m' \<Longrightarrow> seeds B m' m'' \<Longrightarrow> seeds (A \<union> B) m m''"
  by (simp add: seeds_def)

lemma join_seeds:
  assumes "join F mk i (\<lambda>st. st) mode nonce req st = Some (st', answer)"
  shows "seeds {jq_agent_id req} (mm_ratings st) (mm_ratings st')"
proof -
  have "seeds {a} (mm_ratings st) (mm_ratings (seeded mode a st))" for a
    by (auto simp: seeds_def seeded_def rating_or_default_def bt_inv_insert bt_get_insert split: option.splits)
  moreover have "mm_ratings st' = mm_ratings st \<or> mm_ratings st' = mm_ratings (seeded mode (jq_agent_id req) st)"
    using assms by (auto simp: join_def join_section_eq build_def Let_def register_ranked_frame split: sum.splits option.splits prod.splits if_splits)
  ultimately show ?thesis by (auto simp: seeds_def)
qed

lemma route_joins_seeds:
  assumes "route_joins W mk mids a mode joins seats st formed = Some (Inr (st', f))"
  shows "seeds ((jq_agent_id \<circ> seat_request a mode joins) ` set seats) (mm_ratings st) (mm_ratings st')"
  using assms
proof (induction seats arbitrary: st formed)
  case Nil
  then show ?case by (simp add: seeds_def)
next
  case (Cons seat seats)
  obtain ag sg st1 answer where j: "bt_get joins seat = Some (ag, sg)"
    "join (ou_maps W) mk (mids seat) (\<lambda>st. st) mode (str_bytes (nonce_for (ou_mesh W) (ag_match_id a) seat)) (seat_request a mode joins seat) st
      = Some (st1, answer)"
    using Cons.prems by (auto simp: panic_simps seat_request_def)
  have "\<exists>formed. route_joins W mk mids a mode joins seats st1 formed = Some (Inr (st', f))"
    using Cons.prems j by (cases answer) (auto simp: panic_simps seat_request_def split: join_outcome.splits)
  then obtain formed' where "route_joins W mk mids a mode joins seats st1 formed' = Some (Inr (st', f))" by blast
  from seeds_trans [OF join_seeds [OF j(2)] Cons.IH [OF this]] show ?case by simp
qed

lemma admit_request:
  assumes "admit mk mode nonce (join_request_for mode seat humans agent sig) = Inr ()"
  shows "mode = Mode_Human \<Longrightarrow> sig = []"
    "mode = Mode_Agent \<Longrightarrow> mk_verifier mk agent nonce sig
      \<and> (case mk_ranked_registry mk of None \<Rightarrow> True
         | Some reg \<Rightarrow> \<exists>r. reputation_of reg agent = Some r \<and> mk_reputation_floor mk \<le> r)"
  using assms
  by (auto simp: admit_def join_request_for_def human_request_def casual_agent_def ranked_agent_def presented_token_def not_less
      split: if_splits option.splits)

text \<open>
  Whoever sits on a seat of a matchmade match is who joined it. When the matchmade handshake succeeds,
  seat i of the transport is seat i of the match, under the identity a join of that seat claimed; in agent mode
  that identity passed the verifier over the challenge issued to this very seat, is registered and above the
  reputation floor where these are configured, and the match is the one registration the matchmaker holds; in human
  mode no seat presented a signature. Nobody is left in the queue, and what went out is one challenge per seat and
  then welcome and start for every seat.
\<close>

lemma matchmade_handshake:
  assumes "handshake_matchmade W a mode n settler mids ls = Some (Returned ((mk, st), m, rest, out))" "n < 256"
  shows "\<exists>who sig. (\<forall>seat<n. joined (ou_json W) ls seat (who seat) (sig seat))
    \<and> map si_seat (m_seats m) = [0..<n] \<and> map si_controller (m_seats m) = map who [0..<n]
    \<and> (mode = Mode_Human \<longrightarrow> (\<forall>seat<n. sig seat = []))
    \<and> (mode = Mode_Agent \<longrightarrow> mm_pending st = [(m_match_id m, \<lparr>pr_seq = 0, pr_agents = map who [0..<n]\<rparr>)]
        \<and> (\<forall>seat<n. harness_verifier (ou_mesh W) a (who seat) (str_bytes (nonce_for (ou_mesh W) (ag_match_id a) seat)) (sig seat)
             \<and> (ag_registered a \<noteq> [] \<longrightarrow> (\<exists>r. reputation_of (from_entries (ag_registered a)) (who seat) = Some r
                  \<and> ranked_reputation_floor_from a \<le> r))))
    \<and> queue_for mode (mm_queues st) = []
    \<and> out = challenges (ou_mesh W) (ag_match_id a) n @ concat (map (welcome_start m) [0..<n])
    \<and> seeds (who ` {..<n}) (saved_ratings W a) (mm_ratings st)
    \<and> (\<exists>g ss c sd. new_with_pickups (m_match_id m) c (rules_from a) ss (am_blockers g) (am_pickups (g :: arena_geometry)) sd = Some m
        \<and> max_ticks c = ag_max_ticks a \<and> bounds c = \<lparr>vx = 50 * POSITION_SCALE, vy = 50 * POSITION_SCALE\<rparr> \<and> cfg_seats c = n
        \<and> (map_override W a = Inr (Some g) \<or> arena_map (ou_maps W) (ag_arena a) = Some g))"
proof -
  let ?nonce = "\<lambda>seat. str_bytes (nonce_for (ou_mesh W) (ag_match_id a) seat)"
  obtain built where b: "build_matchmaker W a n = Some built" using assms(1) by (auto simp: handshake_matchmade_def panic_simps Let_def)
  obtain mk0 st0 where b2: "built = Returned (mk0, st0)" using assms(1) b by (cases built) (auto simp: handshake_matchmade_def panic_simps Let_def)
  obtain collected where c: "collect_joins (ou_json W) n ls [] = Some collected"
    using assms(1) b b2 by (cases "collect_joins (ou_json W) n ls []") (auto simp: handshake_matchmade_def panic_simps Let_def)
  obtain joins ls1 where c2: "collected = Inr (joins, ls1)" "length joins = n"
    using assms(1) b b2 c by (cases collected) (auto simp: handshake_matchmade_def panic_simps Let_def reject_and_exit_def split: if_splits)
  obtain routed where r: "route_joins W mk0 mids a mode joins [0..<n] st0 None = Some routed"
    using assms(1) b b2 c c2 by (cases "route_joins W mk0 mids a mode joins [0..<n] st0 None") (auto simp: handshake_matchmade_def panic_simps Let_def)
  have r2: "routed = Inr (st, Some m) \<and> mk0 = mk \<and> ls1 = rest \<and> out = challenges (ou_mesh W) (ag_match_id a) n @ concat (map (welcome_start m) [0..<n])"
    using assms(1) b b2 c c2 r by (cases routed) (auto simp: handshake_matchmade_def panic_simps Let_def reject_and_exit_def)
  have h: "build_matchmaker W a n = Some (Returned (mk, st0))" "collect_joins (ou_json W) n ls [] = Some (Inr (joins, rest))"
    "route_joins W mk mids a mode joins [0..<n] st0 None = Some (Inr (st, Some m))"
    and out: "out = challenges (ou_mesh W) (ag_match_id a) n @ concat (map (welcome_start m) [0..<n])"
    using b b2 c c2 r r2 by simp_all
  note fresh = build_matchmaker_fresh [OF h(1)]
  have mk: "maker_ok mk" using fresh(1,2) assms(2) by (simp add: maker_ok_def)
  define who where "who seat = (case bt_get joins seat of Some (w, _) \<Rightarrow> w | None \<Rightarrow> [])" for seat
  define sig where "sig seat = (case bt_get joins seat of Some (_, s) \<Rightarrow> s | None \<Rightarrow> [])" for seat
  have run: "\<forall>seat<n. bt_get joins seat \<noteq> None"
    "\<forall>seat<n. admit mk mode (?nonce seat) (seat_request a mode joins seat) = Inr ()"
    "queue_for mode (mm_queues st) = []"
    "build_match (ou_maps W) (mk_params mk) (mids (n - 1))
        (roster_seats (mids (n - 1)) (mk_params mk) (map (seat_of \<circ> seat_request a mode joins) [0..<n])) = Some m"
    "mm_pending st = ranked_entry mode (mids (n - 1)) (map (jq_agent_id \<circ> seat_request a mode joins) [0..<n])"
    using route_joins_run [OF h(3) mk fresh(2,3) _ _ fresh(8,9)] fresh(7) by auto
  have got: "bt_get joins seat = Some (who seat, sig seat)" if "seat < n" for seat
    using run(1) that by (auto simp: who_def sig_def split: option.splits)
  then have req: "seat_request a mode joins seat = join_request_for mode seat (ag_human_seats a) (who seat) (sig seat)" if "seat < n" for seat
    using that by (simp add: seat_request_def)
  have agent: "jq_agent_id (seat_request a mode joins seat) = who seat" if "seat < n" for seat
    unfolding req [OF that] by (simp add: join_request_for_def human_request_def casual_agent_def ranked_agent_def)
  let ?crew = "map (seat_of \<circ> seat_request a mode joins) [0..<n]"
  have len: "length ?crew = mp_seats_per_match (mk_params mk)" using fresh(2) by simp
  define i where "i = mids (n - 1)"
  obtain geometry :: arena_geometry where "new_with_pickups i \<lparr>tick_hz = mp_tick_hz (mk_params mk), max_ticks = mp_max_ticks (mk_params mk),
      bounds = mp_bounds (mk_params mk), cfg_seats = length (roster_seats i (mk_params mk) ?crew) mod 256\<rparr>
      (mp_rules (mk_params mk)) (roster_seats i (mk_params mk) ?crew) (am_blockers geometry) (am_pickups geometry)
      (seed_for_match i) = Some m" "(case mp_map (mk_params mk) of Some g \<Rightarrow> Some g | None \<Rightarrow> arena_map (ou_maps W) (mp_arena (mk_params mk))) = Some geometry"
    using run(4) [folded i_def] by (auto simp: build_match_def panic_simps)
  note new = this
  note m = new_with_pickups_fresh [OF new(1)]
  have fresh_m: "\<exists>g ss c sd. new_with_pickups (m_match_id m) c (rules_from a) ss (am_blockers g) (am_pickups (g :: arena_geometry)) sd = Some m
        \<and> max_ticks c = ag_max_ticks a \<and> bounds c = \<lparr>vx = 50 * POSITION_SCALE, vy = 50 * POSITION_SCALE\<rparr> \<and> cfg_seats c = n
        \<and> (map_override W a = Inr (Some g) \<or> arena_map (ou_maps W) (ag_arena a) = Some g)"
    using new fresh(10-14) m(2) roster_seats_controllers(2) [OF mk len] fresh(2) assms(2)
    by (intro exI [of _ geometry] exI [of _ "roster_seats i (mk_params mk) ?crew"] exI [of _ "m_config m"] exI [of _ "seed_for_match i"])
      (auto simp: m(3) POSITION_SCALE_def split: option.splits)
  have seats: "map si_seat (m_seats m) = [0..<n]" using m roster_seats_seats [OF mk len] by simp
  have "map si_controller (m_seats m) = map sd_agent_id ?crew" using m roster_seats_controllers(1) [OF mk len] by simp
  then have ctl: "map si_controller (m_seats m) = map who [0..<n]" using agent by (simp add: seat_of_def)
  have join: "joined (ou_json W) ls seat (who seat) (sig seat)" if "seat < n" for seat
    using collect_joins_joined [OF h(2)] map_of_SomeD [OF got [OF that, unfolded bt_get_def]] by auto
  have adm: "admit mk mode (?nonce seat) (join_request_for mode seat (ag_human_seats a) (who seat) (sig seat)) = Inr ()" if "seat < n" for seat
    using run(2) that req by simp
  have human: "mode = Mode_Human \<longrightarrow> (\<forall>seat<n. sig seat = [])" using admit_request(1) [OF adm] by blast
  have seeded: "seeds (who ` {..<n}) (saved_ratings W a) (mm_ratings st)"
  proof -
    have "(jq_agent_id \<circ> seat_request a mode joins) ` set [0..<n] = who ` {..<n}" using agent by (auto simp: image_iff)
    then show ?thesis using route_joins_seeds [OF h(3)] build_matchmaker_ratings [OF h(1)] by simp
  qed
  have ag: "map (jq_agent_id \<circ> seat_request a mode joins) [0..<n] = map who [0..<n]" using agent by simp
  have pend: "mode = Mode_Agent \<longrightarrow> mm_pending st = [(m_match_id m, \<lparr>pr_seq = 0, pr_agents = map who [0..<n]\<rparr>)]"
    using run(5) [folded i_def, unfolded ag] m(2) by (simp add: ranked_entry_def)
  have ranked: "harness_verifier (ou_mesh W) a (who seat) (?nonce seat) (sig seat)
      \<and> (ag_registered a \<noteq> [] \<longrightarrow> (\<exists>r. reputation_of (from_entries (ag_registered a)) (who seat) = Some r
                  \<and> ranked_reputation_floor_from a \<le> r))" if "mode = Mode_Agent" "seat < n" for seat
    using admit_request(2) [OF adm [OF that(2)] that(1)] fresh(4-6) by (simp add: ranked_registry_from_def split: if_splits)
  show ?thesis
    by (intro exI [of _ who] exI [of _ sig] conjI) (use join seats ctl human pend ranked run(3) out seeded fresh_m in simp_all)
qed

subsection \<open>Whole runs\<close>

text \<open>
  Configurations whose records stay within what a verifier accepts. The gateway itself takes up to 255 seats and any
  tick cap, so it can also be made to play matches whose record is refused as over budget.
\<close>

definition playable :: "args \<Rightarrow> bool" where
  "playable a \<longleftrightarrow> args_ok a \<and> 2 \<le> ag_seats a \<and> ag_seats a \<le> MAX_REPLAY_SEATS \<and> 0 < ag_start_health a
     \<and> ag_max_ticks a \<le> MAX_REPLAY_TICKS \<and> ag_starting_ticks a \<le> MAX_REPLAY_STARTING_TICKS"

lemma geometry_fits:
  "map_override W a = Inr (Some g) \<or> arena_map F key = Some g \<Longrightarrow>
   length (am_blockers g) \<le> MAX_REPLAY_BLOCKERS \<and> length (am_pickups g) \<le> MAX_REPLAY_PICKUPS \<and> check_blockers 0 (am_blockers g) = None"
  using arena_map_ok [of F key g]
  by (auto simp: map_override_def load_arena_map_file_def from_json_accepts split: option.splits file_content.splits sum.splits)

lemma playable_hostable:
  assumes "playable a" "map si_seat ss = [0..<ag_seats a]" "0 \<le> vx (bounds c)" "0 \<le> vy (bounds c)" "cfg_seats c = length ss"
    and "length bs \<le> MAX_REPLAY_BLOCKERS" "length pks \<le> MAX_REPLAY_PICKUPS" "check_blockers 0 bs = None"
  shows "hostable c (rules_from a) ss bs pks"
proof -
  have len: "length ss = ag_seats a" using arg_cong [OF assms(2), of length] by simp
  have "0 \<le> ag_spawn_radius a" "0 \<le> ag_spawn_jitter a" using assms(1) by (simp_all add: playable_def args_ok_def)
  with assms len show ?thesis by (auto simp: hostable_def playable_def rules_from_def)
qed

lemma matchmade_fresh:
  assumes "handshake_matchmade W a mode n settler mids ls = Some (Returned ((mk, st), m, rest, out))" "playable a" "n = ag_seats a"
  obtains g c ss sd where "new_with_pickups (m_match_id m) c (rules_from a) ss (am_blockers g) (am_pickups (g :: arena_geometry)) sd = Some m"
    "hostable c (rules_from a) ss (am_blockers g) (am_pickups g)" "map si_seat ss = [0..<n]" "max_ticks c = ag_max_ticks a"
    "bounds c = \<lparr>vx = 50 * POSITION_SCALE, vy = 50 * POSITION_SCALE\<rparr>"
proof -
  have "n < 256" using assms(2,3) by (simp add: playable_def MAX_REPLAY_SEATS_def)
  from matchmade_handshake [OF assms(1) this] obtain g ss c sd where
    new: "new_with_pickups (m_match_id m) c (rules_from a) ss (am_blockers g) (am_pickups (g :: arena_geometry)) sd = Some m"
    "max_ticks c = ag_max_ticks a" "bounds c = \<lparr>vx = 50 * POSITION_SCALE, vy = 50 * POSITION_SCALE\<rparr>" "cfg_seats c = n"
    and g: "map_override W a = Inr (Some g) \<or> arena_map (ou_maps W) (ag_arena a) = Some g" and w: "map si_seat (m_seats m) = [0..<n]"
    by blast
  have "map si_seat ss = [0..<n]" using w new_with_pickups_fresh [OF new(1)] by simp
  moreover from arg_cong [OF this, of length] have "length ss = n" by simp
  ultimately have "hostable c (rules_from a) ss (am_blockers g) (am_pickups g)"
    by (intro playable_hostable [OF assms(2)]) (use geometry_fits [OF g] new(3,4) assms(3) in \<open>simp_all add: POSITION_SCALE_def\<close>)
  with that new \<open>map si_seat ss = [0..<n]\<close> show thesis by blast
qed

lemma direct_match_fresh:
  assumes "build_direct_match W a n = Some (Inr m)" "playable a" "n = ag_seats a"
  obtains g where "new_with_pickups (ag_match_id a) (direct_config a n) (rules_from a) (direct_roster a n) (am_blockers g) (am_pickups g) (ag_seed a) = Some m"
    "hostable (direct_config a n) (rules_from a) (direct_roster a n) (am_blockers g) (am_pickups (g :: arena_geometry))"
proof -
  obtain loaded where l: "direct_map W a = Some loaded"
    using assms(1) by (cases "direct_map W a") (auto simp: build_direct_match_def panic_simps split: if_splits)
  obtain g :: arena_geometry where g: "direct_map W a = Some (Inr g)" "new_with_pickups (ag_match_id a) (direct_config a n) (rules_from a)
      (direct_roster a n) (am_blockers g) (am_pickups g) (ag_seed a) = Some m"
    using assms(1) l by (cases loaded) (auto simp: build_direct_match_def panic_simps split: if_splits)
  have "map_override W a = Inr (Some g) \<or> arena_map (ou_maps W) (ag_arena a) = Some g"
    using g(1) by (auto simp: direct_map_def split: sum.splits option.splits)
  note fits = geometry_fits [OF this]
  have "hostable (direct_config a n) (rules_from a) (direct_roster a n) (am_blockers g) (am_pickups g)"
    by (rule playable_hostable [OF assms(2)])
      (use fits assms(3) in \<open>simp_all add: direct_config_def direct_roster_def POSITION_SCALE_def comp_def\<close>)
  with g(2) that show thesis by blast
qed

text \<open>What a run that played a match to its end leaves behind.\<close>

definition played_and_settled ::
  "crates \<Rightarrow> args \<Rightarrow> mock_settler \<Rightarrow> (seat_id \<times> string) list \<Rightarrow> run_report \<Rightarrow> bool" where
  "played_and_settled X a s recovered r \<longleftrightarrow>
     (\<exists>rec res s'. to_record (rp_match r) = Some rec \<and> rec_result rec = rp_result r \<and> verify X rec = Some (Inr (rp_result r))
        \<and> rp_record r = map_option (\<lambda>path. (path, rec)) (ag_emit_replay a)
        \<and> rp_settler r = Some s' \<and> (\<forall>j. j \<noteq> m_match_id (rp_match r) \<longrightarrow> resolution_of j s' = resolution_of j s)
        \<and> resolution_of (m_match_id (rp_match r)) s' = Some (case resolution_of (m_match_id (rp_match r)) s of Some q \<Rightarrow> q | None \<Rightarrow> res)
        \<and> due_resolution X (rp_match r) recovered res)"

lemma ended_settles:
  assumes "new_with_pickups i c r0 ss bs pks sd = Some m0" "hostable c r0 ss bs pks" "2 \<le> length ss" "bt_inv s"
    and "recorded X m0 m" "m_phase m = Ended" "to_record m = Some (record_of c r0 result m)" "verify X (record_of c r0 result m) = Some (Inr result)"
  shows "match_ok X m" "m_result m = Some result" "m_seats m = ss" "m_match_id m = i"
    "\<exists>s'. settle_finished X (Some s) result m recovered = Some s'
       \<and> (\<forall>r. rp_match r = m \<and> rp_result r = result \<and> rp_settler r = s' \<and> rp_record r = emit_replay_record (ag_emit_replay a) m
            \<longrightarrow> played_and_settled X a s recovered r)"
proof -
  show ok: "match_ok X m" using assms(5) by (simp add: recorded_def)
  show res: "m_result m = Some result" using assms(6,7) ok by (auto simp: to_record_def record_of_def panic_simps)
  show ss: "m_seats m = ss" "m_match_id m = i"
    using assms(5) new_with_pickups_fresh [OF assms(1)] by (simp_all add: recorded_def same_setup_def)
  have h: "distinct (map si_seat ss)" "length ss \<le> 256" using assms(2) by (simp_all add: hostable_def MAX_REPLAY_SEATS_def)
  obtain s1 res1 where f: "settle_finished X (Some s) result m recovered = Some (Some s1)"
    "\<forall>j. j \<noteq> m_match_id m \<longrightarrow> resolution_of j s1 = resolution_of j s"
    "resolution_of (m_match_id m) s1 = Some (case resolution_of (m_match_id m) s of Some q \<Rightarrow> q | None \<Rightarrow> res1)"
    "due_resolution X m recovered res1"
    using finished_match_settles [OF ok res, of s recovered] h assms(3,4) unfolding ss by blast
  have "emit_replay_record (ag_emit_replay a) m = map_option (\<lambda>path. (path, record_of c r0 result m)) (ag_emit_replay a)"
    using assms(7) by (simp add: emit_replay_record_def split: option.splits)
  then show "\<exists>s'. settle_finished X (Some s) result m recovered = Some s'
       \<and> (\<forall>r. rp_match r = m \<and> rp_result r = result \<and> rp_settler r = s' \<and> rp_record r = emit_replay_record (ag_emit_replay a) m
            \<longrightarrow> played_and_settled X a s recovered r)"
    unfolding played_and_settled_def using f assms(7,8)
    by (intro exI [of _ "Some s1"] conjI allI impI exI [of _ "record_of c r0 result m"] exI [of _ res1] exI [of _ s1]) (simp_all add: record_of_def)
qed

lemma driven_settles:
  assumes "new_with_pickups i c r0 ss bs pks sd = Some m0" "hostable c r0 ss bs pks" "max_ticks c \<le> MAX_REPLAY_TICKS" "2 \<le> length ss"
    and "drive_pump X J n deadline ls eof \<lparr>pu_match = m0, pu_cast = cast, pu_out = out\<rparr> = Some (q, result)"
    and "settle_finished X (Some s) result (pu_match q) recovered = Some s'" "bt_inv s"
    and "rp_match r = pu_match q" "rp_result r = result" "rp_settler r = s'" "rp_record r = emit_replay_record (ag_emit_replay a) (pu_match q)"
  shows "played_and_settled X a s recovered r" "match_ok X (pu_match q)" "m_result (pu_match q) = Some result" "m_seats (pu_match q) = ss" "m_match_id (pu_match q) = i"
proof -
  note d = driven [OF assms(1-3,5)]
  note e = ended_settles [OF assms(1,2,4,7) d(1,2,4,5)]
  show "played_and_settled X a s recovered r" using e(5) [of recovered a] assms(6,8-11) by auto
  show "match_ok X (pu_match q)" "m_result (pu_match q) = Some result" "m_seats (pu_match q) = ss" "m_match_id (pu_match q) = i" by (fact e(1-4))+
qed

text \<open>A run that returned, taken apart.\<close>

lemma run_direct_cases:
  assumes "run_direct W a n settler cast ls eof = Some (Returned r)"
  defines "X \<equiv> crates.truncate (ou_mesh W)"
  obtains m recovered ls1 out q result s1 where "build_direct_match W a n = Some (Inr m)"
    "direct_joins (ou_mesh W) (ou_json W) settler m n [] ls (challenges (ou_mesh W) (m_match_id m) n) = Some (Returned (recovered, ls1, out))"
    "drive_pump X (ou_json W) n (enforced_deadline a m) ls1 eof \<lparr>pu_match = m, pu_cast = cast, pu_out = out\<rparr> = Some (q, result)"
    "settle_finished X settler result (pu_match q) recovered = Some s1"
    "r = \<lparr>rp_out = pu_out q, rp_match = pu_match q, rp_result = result, rp_settler = s1,
          rp_record = emit_replay_record (ag_emit_replay a) (pu_match q), rp_moved = None, rp_ladder = None\<rparr>"
proof -
  obtain built where b: "build_direct_match W a n = Some built" using assms(1) by (auto simp: run_direct_def panic_simps)
  obtain m where b2: "built = Inr m" using assms(1) b by (cases built) (auto simp: run_direct_def panic_simps)
  obtain shaken where h: "direct_joins (ou_mesh W) (ou_json W) settler m n [] ls (challenges (ou_mesh W) (m_match_id m) n) = Some shaken"
    using assms(1) b b2 by (auto simp: run_direct_def panic_simps)
  obtain recovered ls1 out where h2: "shaken = Returned (recovered, ls1, out)"
    using assms(1) b b2 h by (cases shaken) (auto simp: run_direct_def panic_simps)
  obtain q result where p: "drive_pump X (ou_json W) n (enforced_deadline a m) ls1 eof \<lparr>pu_match = m, pu_cast = cast, pu_out = out\<rparr> = Some (q, result)"
    using assms(1) b b2 h h2 unfolding X_def
    by (cases "drive_pump X (ou_json W) n (enforced_deadline a m) ls1 eof \<lparr>pu_match = m, pu_cast = cast, pu_out = out\<rparr>")
      (auto simp: run_direct_def panic_simps X_def)
  show thesis
    using assms(1) b b2 h h2 p that unfolding X_def
    by (cases "settle_finished (crates.truncate (ou_mesh W)) settler result (pu_match q) recovered") (auto simp: run_direct_def panic_simps Let_def)
qed

lemma run_matchmade_cases:
  assumes "run_matchmade W a mode n settler cast mids ls eof = Some (Returned r)"
  defines "X \<equiv> crates.truncate (ou_mesh W)"
  obtains mk st m ls1 out q result st1 moved s1 where "handshake_matchmade W a mode n settler mids ls = Some (Returned ((mk, st), m, ls1, out))"
    "drive_pump X (ou_json W) n (enforced_deadline a m) ls1 eof \<lparr>pu_match = m, pu_cast = cast, pu_out = out\<rparr> = Some (q, result)"
    "settle_ranked_ladder result (m_seats (pu_match q)) st = (st1, moved)" "settle_finished X settler result (pu_match q) [] = Some s1"
    "r = \<lparr>rp_out = pu_out q, rp_match = pu_match q, rp_result = result, rp_settler = s1,
          rp_record = emit_replay_record (ag_emit_replay a) (pu_match q), rp_moved = moved,
          rp_ladder = map_option (\<lambda>path. (path, ladder_of st1)) (ag_ladder_file a)\<rparr>"
proof -
  obtain shaken where h: "handshake_matchmade W a mode n settler mids ls = Some shaken"
    using assms(1) by (cases "handshake_matchmade W a mode n settler mids ls") (auto simp: run_matchmade_def panic_simps)
  obtain mk st m ls1 out where h2: "shaken = Returned ((mk, st), m, ls1, out)"
    using assms(1) h by (cases shaken) (auto simp: run_matchmade_def panic_simps)
  obtain q result where p: "drive_pump X (ou_json W) n (enforced_deadline a m) ls1 eof \<lparr>pu_match = m, pu_cast = cast, pu_out = out\<rparr> = Some (q, result)"
    using assms(1) h h2 unfolding X_def
    by (cases "drive_pump X (ou_json W) n (enforced_deadline a m) ls1 eof \<lparr>pu_match = m, pu_cast = cast, pu_out = out\<rparr>")
      (auto simp: run_matchmade_def panic_simps X_def)
  obtain st1 moved where l: "settle_ranked_ladder result (m_seats (pu_match q)) st = (st1, moved)" by fastforce
  show thesis
    using assms(1) h h2 p l that unfolding X_def
    by (cases "settle_finished (crates.truncate (ou_mesh W)) settler result (pu_match q) []") (auto simp: run_matchmade_def panic_simps Let_def)
qed

text \<open>
  Property C10. The direct path pays who proved a key. When a direct run of a playable configuration ends, every line
  of its handshake seated somebody: a join of the gateway's version that claims nothing, or whose signature recovers
  to the address it claims over the challenge of that very seat. The match it played has a record that verifies with
  the reported result, and it is the record written to the file asked for. The settler holds a resolution for it:
  the one it already had, or the due one, in which a seat goes by the address its last signed join claimed, and by
  its roster label when none did. The digest in that resolution is the one of the record under these names; the
  emitted record, and the hash in its result, keep the roster labels.
\<close>

theorem direct_run_pays_who_proved:
  assumes "run_direct W a n (Some s) cast ls eof = Some (Returned r)" "playable a" "n = ag_seats a" "bt_inv s"
  shows "played_and_settled (crates.truncate (ou_mesh W)) a s (proved_seats (ou_json W) (first_reads n ls)) r
    \<and> m_match_id (rp_match r) = ag_match_id a \<and> m_seats (rp_match r) = direct_roster a n
    \<and> length (first_reads n ls) = n \<and> (\<forall>line\<in>set (first_reads n ls). seats_somebody (ou_mesh W) (ou_json W) (ag_match_id a) line)"
proof -
  let ?X = "crates.truncate (ou_mesh W)"
  obtain m recovered ls1 out q result s1 where b: "build_direct_match W a n = Some (Inr m)"
    and h: "direct_joins (ou_mesh W) (ou_json W) (Some s) m n [] ls (challenges (ou_mesh W) (m_match_id m) n) = Some (Returned (recovered, ls1, out))"
    and p: "drive_pump ?X (ou_json W) n (enforced_deadline a m) ls1 eof \<lparr>pu_match = m, pu_cast = cast, pu_out = out\<rparr> = Some (q, result)"
    and s1: "settle_finished ?X (Some s) result (pu_match q) recovered = Some s1"
      "r = \<lparr>rp_out = pu_out q, rp_match = pu_match q, rp_result = result, rp_settler = s1,
          rp_record = emit_replay_record (ag_emit_replay a) (pu_match q), rp_moved = None, rp_ladder = None\<rparr>"
    by (rule run_direct_cases [OF assms(1)])
  obtain g where g: "new_with_pickups (ag_match_id a) (direct_config a n) (rules_from a) (direct_roster a n) (am_blockers g) (am_pickups g) (ag_seed a) = Some m"
    "hostable (direct_config a n) (rules_from a) (direct_roster a n) (am_blockers g) (am_pickups (g :: arena_geometry))"
    by (rule direct_match_fresh [OF b assms(2,3)])
  have "max_ticks (direct_config a n) \<le> MAX_REPLAY_TICKS" "2 \<le> length (direct_roster a n)"
    using assms(2,3) by (simp_all add: playable_def direct_config_def direct_roster_def)
  note d = driven_settles [OF g this p s1(1) assms(4), of r a]
  have "m_match_id m = ag_match_id a" using new_with_pickups_fresh [OF g(1)] by simp
  with direct_joins_proved [OF h] d s1(2) show ?thesis by simp
qed

subsection \<open>The ladder of a run\<close>

text \<open>A new ladder: every player's last written rating, everybody else's old one.\<close>

definition moved_ladder :: "(string, i32) btree \<Rightarrow> string list \<Rightarrow> i32 list \<Rightarrow> (string, i32) btree \<Rightarrow> bool" where
  "moved_ladder before who deltas after \<longleftrightarrow> bt_inv after \<and> (\<forall>a. bt_get after a =
     (case map_of (rev (new_ratings before who deltas)) a of Some r \<Rightarrow> Some r | None \<Rightarrow> bt_get before a))"

lemma moved_ladder_each:
  assumes "moved_ladder before who deltas after" "length deltas = length who" "distinct who" "seat < length who"
  shows "bt_get after (who ! seat) = Some (sat_i32 (rating_or_default before (who ! seat) + deltas ! seat))"
proof -
  let ?news = "new_ratings before who deltas"
  have "map fst ?news = who" using assms(2) by (simp add: new_ratings_def comp_def split_def)
  then have d: "distinct (map fst ?news)" using assms(3) by simp
  have "(who ! seat, sat_i32 (rating_or_default before (who ! seat) + deltas ! seat)) \<in> set ?news"
    using assms(2,4) by (force simp: new_ratings_def set_zip)
  then have "map_of ?news (who ! seat) = Some (sat_i32 (rating_or_default before (who ! seat) + deltas ! seat))" using d by simp
  moreover have "map_of (rev ?news) = map_of ?news" using d by (rule map_of_rev_eq)
  ultimately show ?thesis using assms(1) by (simp add: moved_ladder_def)
qed

text \<open>Seeding a newcomer with the default rating changes no rating the players are taken at.\<close>

lemma moved_from_seeded:
  assumes "bt_inv start" "\<forall>x. rating_or_default start x = rating_or_default before x" "\<forall>x. x \<notin> set who \<longrightarrow> bt_get start x = bt_get before x"
    and "length deltas = length who"
  shows "moved_ladder before who deltas (write_ratings (new_ratings start who deltas) start)"
proof -
  have news: "new_ratings start who deltas = new_ratings before who deltas" using assms(2) by (simp add: new_ratings_def)
  have "map fst (new_ratings before who deltas) = who" using assms(4) by (simp add: new_ratings_def comp_def split_def)
  from arg_cong [OF this, of set] have "x \<notin> set who" if "map_of (rev (new_ratings before who deltas)) x = None" for x
    using that by (simp add: map_of_eq_None_iff)
  then show ?thesis
    using write_ratings_get [OF assms(1), of "new_ratings before who deltas"] assms(3)
    by (auto simp: moved_ladder_def news split: option.splits)
qed

text \<open>
  Property C11. A ranked run is played by proven agents, verifies, and settles everywhere. When a matchmade run in agent
  mode of a playable configuration ends, every seat's controller is an identity that joined that seat and passed the
  verifier in force over its challenge; the match has a verifying record; the settler holds the resolution it already
  had for this match or the due one, in the names of the match's own roster. The ladder moves from the one the run
  was given to the one it reports and writes: the deltas are the ones the outcomes earn at the players' ratings in the
  ladder it started from, in seat order, and they cancel; every player's entry becomes its old rating with its delta,
  and nobody else's changes. With different agents each seat's delta is so accounted for; an agent that sits on two
  seats is left with its last seat's delta alone.
\<close>

theorem ranked_run_settles:
  assumes "run_matchmade W a Mode_Agent n (Some s) cast mids ls eof = Some (Returned r)" "playable a" "n = ag_seats a" "bt_inv s"
    and "bt_inv (saved_ratings W a)"
  defines "who \<equiv> map si_controller (m_seats (rp_match r))" and "before \<equiv> saved_ratings W a"
  shows "played_and_settled (crates.truncate (ou_mesh W)) a s [] r
    \<and> length who = n
    \<and> (\<forall>seat<n. \<exists>sig. joined (ou_json W) ls seat (who ! seat) sig
         \<and> harness_verifier (ou_mesh W) a (who ! seat) (str_bytes (nonce_for (ou_mesh W) (ag_match_id a) seat)) sig)
    \<and> (\<exists>deltas after. due_deltas (rp_result r) (map (rating_or_default before) who) = Some deltas
         \<and> length deltas = n \<and> sum_list deltas = 0 \<and> moved_ladder before who deltas after
         \<and> (distinct who \<longrightarrow> (\<forall>seat<n. bt_get after (who ! seat) = Some (sat_i32 (rating_or_default before (who ! seat) + deltas ! seat))))
         \<and> rp_moved r = Some (zip [0..<n] (zip (map (rating_or_default after) who) deltas))
         \<and> rp_ladder r = map_option (\<lambda>path. (path, \<lparr>ls_version = LADDER_SNAPSHOT_VERSION, ls_ratings = after\<rparr>)) (ag_ladder_file a))"
proof -
  let ?X = "crates.truncate (ou_mesh W)"
  have n: "2 \<le> n" "n < 256" using assms(2,3) by (simp_all add: playable_def MAX_REPLAY_SEATS_def)
  obtain mk st m ls1 out q result st1 moved s1 where h: "handshake_matchmade W a Mode_Agent n (Some s) mids ls = Some (Returned ((mk, st), m, ls1, out))"
    and p: "drive_pump ?X (ou_json W) n (enforced_deadline a m) ls1 eof \<lparr>pu_match = m, pu_cast = cast, pu_out = out\<rparr> = Some (q, result)"
    and l: "settle_ranked_ladder result (m_seats (pu_match q)) st = (st1, moved)"
    and s1: "settle_finished ?X (Some s) result (pu_match q) [] = Some s1"
      "r = \<lparr>rp_out = pu_out q, rp_match = pu_match q, rp_result = result, rp_settler = s1,
          rp_record = emit_replay_record (ag_emit_replay a) (pu_match q), rp_moved = moved,
          rp_ladder = map_option (\<lambda>path. (path, ladder_of st1)) (ag_ladder_file a)\<rparr>"
    by (rule run_matchmade_cases [OF assms(1)])
  from matchmade_handshake [OF h n(2)] assms(5) obtain who' sig where w:
    "\<forall>seat<n. joined (ou_json W) ls seat (who' seat) (sig seat)" "map si_controller (m_seats m) = map who' [0..<n]"
    "mm_pending st = [(m_match_id m, \<lparr>pr_seq = 0, pr_agents = map who' [0..<n]\<rparr>)]"
    "\<forall>seat<n. harness_verifier (ou_mesh W) a (who' seat) (str_bytes (nonce_for (ou_mesh W) (ag_match_id a) seat)) (sig seat)"
    "bt_inv (mm_ratings st)" "\<forall>x. rating_or_default (mm_ratings st) x = rating_or_default before x"
    "\<forall>x. x \<notin> who' ` {..<n} \<longrightarrow> bt_get (mm_ratings st) x = bt_get before x" unfolding before_def seeds_def by blast
  obtain g c ss sd where new: "new_with_pickups (m_match_id m) c (rules_from a) ss (am_blockers g) (am_pickups (g :: arena_geometry)) sd = Some m"
    "hostable c (rules_from a) ss (am_blockers g) (am_pickups g)" "map si_seat ss = [0..<n]" "max_ticks c = ag_max_ticks a"
    by (rule matchmade_fresh [OF h assms(2,3)]) blast
  have ss: "m_seats m = ss" using new_with_pickups_fresh [OF new(1)] by simp
  have len: "length ss = n" using arg_cong [OF new(3), of length] by simp
  have ticks: "max_ticks c \<le> MAX_REPLAY_TICKS" "2 \<le> length ss" using new(4) assms(2) len n by (simp_all add: playable_def)
  note d = driven_settles [OF new(1,2) ticks p s1(1) assms(4), of r a]
  have facts: "match_ok ?X (pu_match q)" "m_result (pu_match q) = Some result" "m_seats (pu_match q) = ss" "m_match_id (pu_match q) = m_match_id m"
    using d(2-5) s1(2) by simp_all
  have who: "who = map who' [0..<n]" "map si_controller (m_seats (pu_match q)) = who"
    using s1(2) facts(3) w(2) ss by (simp_all add: who_def)
  have pend: "map si_seat (m_seats (pu_match q)) = [0..<n]"
    "mm_pending st = [(m_match_id (pu_match q), \<lparr>pr_seq = 0, pr_agents = map si_controller (m_seats (pu_match q))\<rparr>)]"
    using facts(3,4) new(3) w(3) who ss by simp_all
  from ranked_result_settles [OF facts(1,2) pend(1) n pend(2)] l obtain deltas where
    lad: "moved = Some (zip [0..<n] (zip (map (rating_or_default (mm_ratings st1)) who) deltas))"
    "due_deltas result (map (rating_or_default (mm_ratings st)) who) = Some deltas" "length deltas = n" "sum_list deltas = 0"
    "mm_ratings st1 = write_ratings (new_ratings (mm_ratings st) who deltas) (mm_ratings st)" unfolding who(2) by auto
  have mv: "moved_ladder before who deltas (mm_ratings st1)"
    unfolding lad(5) by (rule moved_from_seeded [OF w(5,6)]) (use w(7) lad(3) who(1) in \<open>simp_all add: lessThan_atLeast0\<close>)
  have "map (rating_or_default (mm_ratings st)) who = map (rating_or_default before) who" using w(6) by (intro map_cong) auto
  with lad(2) have due: "due_deltas result (map (rating_or_default before) who) = Some deltas" by simp
  have each: "\<forall>seat<n. bt_get (mm_ratings st1) (who ! seat) = Some (sat_i32 (rating_or_default before (who ! seat) + deltas ! seat))" if "distinct who"
    using moved_ladder_each [OF mv _ that] lad(3) who(1) by simp
  have "played_and_settled ?X a s [] r" using d(1) s1(2) by simp
  moreover have "\<forall>seat<n. \<exists>sig. joined (ou_json W) ls seat (who ! seat) sig
      \<and> harness_verifier (ou_mesh W) a (who ! seat) (str_bytes (nonce_for (ou_mesh W) (ag_match_id a) seat)) sig"
    using w(1,4) who(1) by auto
  moreover have "rp_result r = result" "rp_moved r = moved" "rp_ladder r = map_option (\<lambda>path. (path, ladder_of st1)) (ag_ladder_file a)"
    using s1(2) by simp_all
  ultimately show ?thesis
    using lad(1,3,4) due mv each who(1) by (intro conjI exI [of _ deltas] exI [of _ "mm_ratings st1"]) (simp_all add: ladder_of_def)
qed

end
