(* ===== verification/Weapons_Total.thy ===== *)
theory Weapons_Total
  imports Weapons
begin

section \<open>The weapons of a fit match do not panic\<close>

text \<open>
  The panics of \<^verbatim>\<open>Match::step\<close> are the crossed bounds of a clamp, the 128-bit products of the disc test, the
  index into the perception memory and the checked additions to scores, projectile ids, ages and the clock.
  None of them happens in a match that is \<open>steady\<close>: its pawns are inside an arena of moderate size, and what all
  pawns have in score, health and shield together is bounded. Hits move points from health to score and
  never make more of them, so the total is an invariant of every operation but the pickups, which refill. This theory
  holds the invariant and the operations of combat, \<open>Step_Total\<close> the rest of the step.
\<close>

definition worth :: "pawn \<Rightarrow> int" where
  "worth p = p_score p + int (p_health p) + int (p_shield p)"

definition total_worth :: "pawn list \<Rightarrow> int" where
  "total_worth ps = (\<Sum>p\<leftarrow>ps. worth p)"

definition pawn_fit :: "rules \<Rightarrow> match_config \<Rightarrow> pawn \<Rightarrow> bool" where
  "pawn_fit r c p \<longleftrightarrow> in_bounds c (p_pos p) \<and> 0 \<le> p_score p \<and> p_max_health p = r_start_health r
     \<and> p_health p \<le> r_start_health r \<and> p_shield p \<le> r_max_shield r"

definition flight_fit :: "projectile \<Rightarrow> bool" where
  "flight_fit q \<longleftrightarrow> in_i32 (vx (pj_pos q)) \<and> in_i32 (vy (pj_pos q)) \<and> \<bar>vx (pj_vel q)\<bar> \<le> 2 ^ 21 \<and> \<bar>vy (pj_vel q)\<bar> \<le> 2 ^ 21
     \<and> pj_age q < MAX_PROJECTILE_LIFETIME"

definition setup_fit :: "rules \<Rightarrow> match_config \<Rightarrow> bool" where
  "setup_fit r c \<longleftrightarrow> 0 \<le> vx (bounds c) \<and> vx (bounds c) < 2 ^ 30 \<and> 0 \<le> vy (bounds c) \<and> vy (bounds c) < 2 ^ 30
     \<and> in_i32 (r_pawn_radius r) \<and> in_i32 (r_hit_radius r)"

text \<open>\<open>K\<close> bounds the next projectile id, \<open>B\<close> the total worth; both stay below their machine ranges.\<close>

definition fit :: "nat \<Rightarrow> nat \<Rightarrow> arena_match \<Rightarrow> bool" where
  "fit n K m \<longleftrightarrow> map p_seat (m_pawns m) = [0..<n] \<and> length (m_seat_memory m) = n
     \<and> list_all (pawn_fit (m_rules m) (m_config m)) (m_pawns m) \<and> list_all flight_fit (m_projectiles m)
     \<and> m_next_projectile_id m \<le> K \<and> setup_fit (m_rules m) (m_config m)"

definition steady :: "nat \<Rightarrow> nat \<Rightarrow> int \<Rightarrow> arena_match \<Rightarrow> bool" where
  "steady n K B m \<longleftrightarrow> fit n K m \<and> total_worth (m_pawns m) \<le> B \<and> B < 2 ^ 31"

subsection \<open>Worth\<close>

lemma total_worth_update: "i < length ps \<Longrightarrow> total_worth (ps[i := p]) = total_worth ps - worth (ps ! i) + worth p"
  unfolding total_worth_def by (induction ps arbitrary: i) (auto split: nat.splits)

lemma score_le_total: "\<forall>p\<in>set ps. 0 \<le> p_score p \<Longrightarrow> q \<in> set ps \<Longrightarrow> p_score q \<le> total_worth ps"
proof (induction ps)
  case (Cons p ps)
  have "0 \<le> total_worth ps" using Cons.prems(1)
    by (auto simp: total_worth_def worth_def intro!: sum_list_nonneg)
  with Cons show ?case by (auto simp: total_worth_def worth_def)
qed simp

lemma fitD:
  assumes "fit n K m"
  shows "length (m_pawns m) = n" "i < n \<Longrightarrow> pawn_fit (m_rules m) (m_config m) (m_pawns m ! i)"
    "i < n \<Longrightarrow> p_seat (m_pawns m ! i) = i" "setup_fit (m_rules m) (m_config m)"
proof -
  have seats: "map p_seat (m_pawns m) = [0..<n]" using assms by (simp add: fit_def)
  show n: "length (m_pawns m) = n" by (metis seats diff_zero length_map length_upt)
  then show "i < n \<Longrightarrow> pawn_fit (m_rules m) (m_config m) (m_pawns m ! i)" using assms by (simp add: fit_def list_all_length)
  show "i < n \<Longrightarrow> p_seat (m_pawns m ! i) = i" using assms n by (metis add_0 diff_zero fit_def length_upt nth_map nth_upt)
  show "setup_fit (m_rules m) (m_config m)" using assms by (simp add: fit_def)
qed

lemma fit_set_pawn:
  assumes "fit n K m" "i < n" "pawn_fit (m_rules m) (m_config m) p" "p_seat p = p_seat (m_pawns m ! i)"
  shows "fit n K (set_pawn i p m)"
proof -
  have "map p_seat ((m_pawns m)[i := p]) = map p_seat (m_pawns m)"
    using assms(2,4) fitD(1) [OF assms(1)] by (metis list_update_id map_update nth_map)
  moreover have "list_all (pawn_fit (m_rules m) (m_config m)) ((m_pawns m)[i := p])"
    using assms(1,3) by (auto simp: fit_def list_all_iff dest!: set_update_subset_insert [THEN subsetD])
  ultimately show ?thesis using assms(1) by (simp add: fit_def)
qed

lemma steady_set_pawn:
  assumes "steady n K B m" "i < n" "pawn_fit (m_rules m) (m_config m) p" "p_seat p = p_seat (m_pawns m ! i)"
    and "worth p \<le> worth (m_pawns m ! i)"
  shows "steady n K B (set_pawn i p m)"
  using assms fit_set_pawn [of n K m i p] total_worth_update [of i "m_pawns m" p] fitD(1) [of n K m]
  by (auto simp: steady_def)

lemma steady_mono: "steady n K B m \<Longrightarrow> K \<le> K' \<Longrightarrow> B \<le> B' \<Longrightarrow> B' < 2 ^ 31 \<Longrightarrow> steady n K' B' m"
  by (auto simp: steady_def fit_def)

subsection \<open>The disc test and slides\<close>

lemma disc_returns:
  assumes "(vx c - vx a)\<^sup>2 + (vy c - vy a)\<^sup>2 \<le> P" "(vx b - vx a)\<^sup>2 + (vy b - vy a)\<^sup>2 \<le> S" "r\<^sup>2 \<le> P" "P * S < 2 ^ 127"
  shows "\<exists>h. segment_hits_disc a b c r = Some h"
proof -
  let ?p = "(vx c - vx a) * (vx c - vx a) + (vy c - vy a) * (vy c - vy a)"
  let ?s = "(vx b - vx a) * (vx b - vx a) + (vy b - vy a) * (vy b - vy a)"
  let ?d = "(vx c - vx a) * (vx b - vx a) + (vy c - vy a) * (vy b - vy a)"
  have nn: "0 \<le> ?p" "0 \<le> ?s" "0 \<le> r * r" by simp_all
  have le: "?p \<le> P" "?s \<le> S" "r * r \<le> P" using assms(1-3) by (simp_all add: power2_eq_square)
  have "0 \<le> P" "0 \<le> S" using le nn by linarith+
  then have ps: "?p * ?s \<le> P * S" "(r * r) * ?s \<le> P * S" using le nn by (blast intro: mult_mono)+
  have "?d * ?d \<le> ?p * ?s"
  proof -
    let ?e = "(vx c - vx a) * (vy b - vy a) - (vy c - vy a) * (vx b - vx a)"
    have "?p * ?s = ?d * ?d + ?e * ?e" by (simp add: algebra_simps)
    then show ?thesis by simp
  qed
  moreover have "0 \<le> ?d * ?d" "0 \<le> ?p * ?s" "0 \<le> (r * r) * ?s" using nn by simp_all
  ultimately have "in_i128 (?p * ?s)" "in_i128 (?d * ?d)" "in_i128 (?p * ?s - ?d * ?d)" "in_i128 ((r * r) * ?s)"
    using ps assms(4) unfolding in_i128_def by linarith+
  then show ?thesis by (auto simp: segment_hits_disc_def Let_def ck_i128_def)
qed

lemma sq_le: "\<bar>x\<bar> \<le> b \<Longrightarrow> x\<^sup>2 \<le> b\<^sup>2" for x b :: int
  by (metis abs_ge_zero order_trans power2_abs power_mono)

lemma sum_sq_le:
  fixes x y b :: int
  assumes "\<bar>x\<bar> \<le> b" "\<bar>y\<bar> \<le> b"
  shows "x\<^sup>2 + y\<^sup>2 \<le> 2 * b\<^sup>2"
  using sq_le [OF assms(1)] sq_le [OF assms(2)] by simp

lemma in_i32_abs: "in_i32 x \<Longrightarrow> \<bar>x\<bar> \<le> 2 ^ 31"
  by (auto simp: in_i32_def)

lemma in_bounds_abs: "setup_fit r c \<Longrightarrow> in_bounds c v \<Longrightarrow> \<bar>vx v\<bar> < 2 ^ 30 \<and> \<bar>vy v\<bar> < 2 ^ 30"
  by (auto simp: setup_fit_def in_bounds_def)

lemma disc_in_bounds:
  assumes "setup_fit ru co" "in_bounds co a" "in_bounds co b" "in_bounds co c" "in_i32 r"
  shows "\<exists>h. segment_hits_disc a b c r = Some h"
proof (rule disc_returns)
  have v: "\<bar>vx a\<bar> < 2 ^ 30" "\<bar>vy a\<bar> < 2 ^ 30" "\<bar>vx b\<bar> < 2 ^ 30" "\<bar>vy b\<bar> < 2 ^ 30" "\<bar>vx c\<bar> < 2 ^ 30" "\<bar>vy c\<bar> < 2 ^ 30"
    using in_bounds_abs [OF assms(1)] assms(2-4) by blast+
  show "(vx c - vx a)\<^sup>2 + (vy c - vy a)\<^sup>2 \<le> 2 * (2 ^ 31)\<^sup>2" by (rule sum_sq_le) (use v in \<open>simp; linarith\<close>)+
  show "(vx b - vx a)\<^sup>2 + (vy b - vy a)\<^sup>2 \<le> 2 * (2 ^ 31)\<^sup>2" by (rule sum_sq_le) (use v in \<open>simp; linarith\<close>)+
  show "r\<^sup>2 \<le> 2 * (2 ^ 31)\<^sup>2" using sq_le [OF in_i32_abs [OF assms(5)]] by simp
qed simp

lemma slide_returns:
  assumes "setup_fit (m_rules m) (m_config m)" "\<forall>p\<in>set (m_pawns m). in_bounds (m_config m) (p_pos p)" "in_bounds (m_config m) from"
  shows "\<exists>to. slide m mover from z dir mag = Some to"
proof -
  have target: "\<exists>to. slide_target m from dx dy = Some to" for dx dy
    using assms(1) by (simp add: slide_target_def clamp_panics_def setup_fit_def)
  have free: "\<exists>b. path_obstructed m mover from z to = Some b" if "slide_target m from dx dy = Some to" for dx dy to
  proof -
    have "\<exists>b. anyM (blocks_path m mover from z to) ps = Some b" if "set ps \<subseteq> set (m_pawns m)" for ps
      using that
    proof (induction ps)
      case (Cons p ps)
      have "\<exists>h. segment_hits_disc from to (p_pos p) (r_pawn_radius (m_rules m)) = Some h"
        by (rule disc_in_bounds [OF assms(1,3) slide_target_in_bounds [OF \<open>slide_target m from dx dy = Some to\<close>]])
          (use assms Cons.prems in \<open>auto simp: setup_fit_def\<close>)
      then have "\<exists>b. blocks_path m mover from z to p = Some b" by (auto simp: blocks_path_def Let_def)
      with Cons show ?case by auto
    qed (auto intro: exI [of _ False])
    then show ?thesis by (cases "path_hits_blocker (m_blockers m) from z to z") (auto simp: path_obstructed_def intro: exI [of _ True] exI [of _ False])
  qed
  let ?dx = "(vx dir * mag) sdiv MOVE_INTENT_SCALE" and ?dy = "(vy dir * mag) sdiv MOVE_INTENT_SCALE"
  obtain t x y where t: "slide_target m from ?dx ?dy = Some t" "slide_target m from ?dx 0 = Some x" "slide_target m from 0 ?dy = Some y"
    using target by meson
  obtain a b c where "path_obstructed m mover from z t = Some a" "path_obstructed m mover from z x = Some b" "path_obstructed m mover from z y = Some c"
    using free [OF t(1)] free [OF t(2)] free [OF t(3)] by blast
  with t show ?thesis by (simp add: slide_def Let_def)
qed

lemma slide_fit:
  assumes "fit n K m" "in_bounds (m_config m) from"
  obtains to where "slide m mover from z dir mag = Some to" "in_bounds (m_config m) to"
proof -
  have "\<forall>p\<in>set (m_pawns m). in_bounds (m_config m) (p_pos p)" using assms(1) by (auto simp: fit_def list_all_iff pawn_fit_def)
  from slide_returns [OF fitD(4) [OF assms(1)] this assms(2)] slide_in_bounds [OF _ assms(2)] that show thesis by blast
qed

subsection \<open>Hits\<close>

lemma hp_damage_worth:
  assumes "hp_damage raw p = (q, d)"
  shows "worth q + int d = worth p" "pawn_fit r c p \<Longrightarrow> pawn_fit r c q" "p_seat q = p_seat p"
  using assms by (auto simp: hp_damage_def Let_def worth_def pawn_fit_def of_nat_diff)

lemma steady_spend:
  assumes "steady n K B m" "i < n" "pawn_fit (m_rules m) (m_config m) p" "p_seat p = p_seat (m_pawns m ! i)"
    and "worth p + int d = worth (m_pawns m ! i)"
  shows "steady n K (B - int d) (set_pawn i p m)"
  using assms fit_set_pawn [of n K m i p] total_worth_update [of i "m_pawns m" p] fitD(1) [of n K m]
  by (auto simp: steady_def)

lemma set_pawn_twice: "set_pawn i p (set_pawn i q m) = set_pawn i p m"
  by (simp add: set_pawn_def)

lemma steady_fit: "steady n K B m \<Longrightarrow> i < n \<Longrightarrow> pawn_fit (m_rules m) (m_config m) (m_pawns m ! i)"
  "steady n K B m \<Longrightarrow> length (m_pawns m) = n" "steady n K B m \<Longrightarrow> fit n K m"
  using fitD by (auto simp: steady_def)

lemma damage_pawn_steady:
  assumes "steady n K B m" "j < n" "damage_pawn j raw a m = (m1, d)"
  shows "steady n K (B - int d) m1"
proof -
  obtain q e where q: "hp_damage raw (m_pawns m ! j) = (q, e)" by fastforce
  note w = hp_damage_worth [OF q]
  have fit: "pawn_fit (m_rules m) (m_config m) q" by (rule w(2) [OF steady_fit(1) [OF assms(1,2)]])
  let ?q = "q\<lparr>p_z_vel := sat_i32 (p_z_vel q + r_knockback_velocity (m_rules m)), p_launched_by := Some a\<rparr>"
  have "e = d" "m1 = set_pawn j q m \<or> m1 = set_pawn j ?q m"
    using assms(2,3) steady_fit(2) [OF assms(1)]
    by (auto simp: damage_pawn_def apply_hp_damage_def q Let_def set_pawn_twice split: if_splits)
  moreover have "worth ?q = worth q" "p_seat ?q = p_seat q" "pawn_fit (m_rules m) (m_config m) q \<Longrightarrow> pawn_fit (m_rules m) (m_config m) ?q"
    by (simp_all add: worth_def pawn_fit_def)
  ultimately have "e = d" "\<exists>p. m1 = set_pawn j p m \<and> worth p = worth q \<and> p_seat p = p_seat q \<and> pawn_fit (m_rules m) (m_config m) p"
    using fit by blast+
  then obtain p where "m1 = set_pawn j p m" "worth p + int d = worth (m_pawns m ! j)" "p_seat p = p_seat (m_pawns m ! j)"
    "pawn_fit (m_rules m) (m_config m) p" using w(1,3) by auto
  with steady_spend [OF assms(1,2)] show ?thesis by simp
qed

lemma add_score_steady:
  assumes "steady n K (B - int d) m" "i < n" "B < 2 ^ 31"
  shows "\<exists>m'. add_score i d m = Some m' \<and> steady n K B m'"
proof -
  let ?p = "m_pawns m ! i"
  have len: "i < length (m_pawns m)" using assms(2) steady_fit(2) [OF assms(1)] by simp
  have fit: "pawn_fit (m_rules m) (m_config m) ?p" by (rule steady_fit(1) [OF assms(1,2)])
  have "\<forall>p\<in>set (m_pawns m). 0 \<le> p_score p" using steady_fit(3) [OF assms(1)] by (auto simp: fit_def list_all_iff pawn_fit_def)
  from score_le_total [OF this nth_mem [OF len]] have "p_score ?p + int d \<le> B" using assms(1) by (simp add: steady_def)
  then have s: "in_i32 (p_score ?p + int d)" using fit assms(3) by (auto simp: in_i32_def pawn_fit_def)
  let ?q = "?p\<lparr>p_score := p_score ?p + int d\<rparr>"
  have "fit n K (set_pawn i ?q m)"
    by (rule fit_set_pawn [OF steady_fit(3) [OF assms(1)] assms(2)]) (use fit in \<open>simp_all add: pawn_fit_def\<close>)
  moreover have "total_worth (m_pawns (set_pawn i ?q m)) \<le> B"
    using total_worth_update [OF len, of ?q] assms(1) by (simp add: steady_def worth_def)
  ultimately show ?thesis using s assms(3) by (simp add: add_score_def ck_i32_def steady_def)
qed

lemma knock_back_steady:
  assumes "steady n K B m" "j < n"
  shows "\<exists>m'. knock_back_along dx dy j d m = Some m' \<and> steady n K B m'"
proof -
  let ?p = "m_pawns m ! j"
  note fit = steady_fit(1) [OF assms]
  then have at: "in_bounds (m_config m) (p_pos ?p)" by (simp add: pawn_fit_def)
  have "\<exists>m'. knock_back_horizontal j dir m = Some m' \<and> steady n K B m'" for dir
  proof -
    obtain to where to: "slide m (p_seat ?p) (p_pos ?p) (p_z ?p) dir (r_knockback_horizontal (m_rules m)) = Some to" "in_bounds (m_config m) to"
      by (rule slide_fit [OF steady_fit(3) [OF assms(1)] at])
    have "steady n K B (set_pawn j (?p\<lparr>p_pos := to\<rparr>) m)"
      by (rule steady_set_pawn [OF assms]) (use fit to(2) in \<open>simp_all add: pawn_fit_def worth_def\<close>)
    with to(1) assms(1) show ?thesis by (simp add: knock_back_horizontal_def Let_def)
  qed
  with assms(1) show ?thesis by (auto simp: knock_back_along_def split: option.splits)
qed

lemma land_hit_steady:
  assumes "steady n K B m" "i < n" "j < n"
  shows "\<exists>m'. land_hit i raw s j m = Some m' \<and> steady n K B m'"
proof -
  obtain m1 d where d: "damage_pawn j raw (p_seat s) m = (m1, d)" by fastforce
  note m1 = damage_pawn_steady [OF assms(1,3) d]
  have B: "B < 2 ^ 31" using assms(1) by (simp add: steady_def)
  obtain m2 where m2: "(if p_team (m_pawns m ! j) = p_team s then Some m1 else add_score i d m1) = Some m2" "steady n K B m2"
    using add_score_steady [OF m1 assms(2) B] steady_mono [OF m1, of K B] B by (cases "p_team (m_pawns m ! j) = p_team s") auto
  from knock_back_steady [OF m2(2) assms(3)] m2(1) show ?thesis by (simp add: land_hit_def d Let_def)
qed

lemma resolve_fire_steady: "steady n K B m \<Longrightarrow> i < n \<Longrightarrow> \<exists>m'. resolve_fire i m = Some m' \<and> steady n K B m'"
  using fire_target_hits(1) [of m i] steady_fit(2) [of n K B m]
  by (auto simp: resolve_fire_def split: option.splits intro: land_hit_steady)

lemma resolve_melee_steady: "steady n K B m \<Longrightarrow> i < n \<Longrightarrow> \<exists>m'. resolve_melee i m = Some m' \<and> steady n K B m'"
  unfolding resolve_melee_def
  by (rule foldM_safe) (use melee_targets_hits [of _ m i] steady_fit(2) [of n K B m] in \<open>auto intro: land_hit_steady\<close>)

subsection \<open>Projectiles\<close>

lemma spawn_projectile_steady:
  assumes "steady n K B m" "i < n" "K + 1 < 2 ^ 32"
  shows "\<exists>m'. spawn_projectile i m = Some m' \<and> steady n (K + 1) B m'"
proof (cases "length (m_projectiles m) \<ge> MAX_LIVE_PROJECTILES")
  case True
  then show ?thesis using steady_mono [OF assms(1), of "K + 1" B] assms(1) by (simp add: spawn_projectile_def steady_def)
next
  case False
  let ?s = "m_pawns m ! i"
  let ?v = "clampi 0 MAX_PROJECTILE_SPEED (r_projectile_speed (m_rules m))"
  obtain ox oy where o: "OCTANTS ! octant_index (p_facing ?s) = (ox, oy)" by fastforce
  have "(ox, oy) \<in> set OCTANTS" using o octant_index_lt8 [of "p_facing ?s"] nth_mem [of "octant_index (p_facing ?s)" OCTANTS]
    by (simp add: OCTANTS_def)
  then have oc: "\<bar>ox\<bar> \<le> 4096" "\<bar>oy\<bar> \<le> 4096" by (auto simp: OCTANTS_def OCTANT_SCALE_def OCTANT_DIAG_def)
  have v: "0 \<le> ?v" "?v \<le> 2 ^ 20" using clampi_bounds [of 0 MAX_PROJECTILE_SPEED "r_projectile_speed (m_rules m)"]
    by (simp_all add: MAX_PROJECTILE_SPEED_def)
  have vel: "\<bar>as_i32 ((o1 * ?v) sdiv OCTANT_SCALE)\<bar> \<le> 2 ^ 21" if "\<bar>o1\<bar> \<le> 4096" for o1
  proof -
    have "\<bar>o1 * ?v\<bar> \<le> 4096 * 2 ^ 20" unfolding abs_mult using that v by (intro mult_mono) auto
    then have "\<bar>(o1 * ?v) sdiv OCTANT_SCALE\<bar> \<le> 2 ^ 20" by (simp add: abs_sdiv OCTANT_SCALE_def)
    then show ?thesis using as_i32_clamp [of "2 ^ 20" "(o1 * ?v) sdiv OCTANT_SCALE"] by simp
  qed
  have at: "pawn_fit (m_rules m) (m_config m) ?s" by (rule steady_fit(1) [OF assms(1,2)])
  then have "\<bar>vx (p_pos ?s)\<bar> < 2 ^ 30 \<and> \<bar>vy (p_pos ?s)\<bar> < 2 ^ 30"
    using in_bounds_abs [OF fitD(4) [OF steady_fit(3) [OF assms(1)]]] by (simp add: pawn_fit_def)
  then have pos: "in_i32 (vx (p_pos ?s))" "in_i32 (vy (p_pos ?s))" by (auto simp: in_i32_def)
  show ?thesis
    using assms(1,3) False o vel [OF oc(1)] vel [OF oc(2)] pos
    by (auto simp: spawn_projectile_def Let_def ck_u_def steady_def fit_def flight_fit_def MAX_PROJECTILE_LIFETIME_def)
qed

lemma flight_fit_end:
  assumes "flight_fit q"
  shows "in_i32 (vx (flight_end q))" "in_i32 (vy (flight_end q))"
    "\<bar>vx (flight_end q) - vx (pj_pos q)\<bar> \<le> 2 ^ 21" "\<bar>vy (flight_end q) - vy (pj_pos q)\<bar> \<le> 2 ^ 21"
  using assms by (auto simp: flight_end_def flight_fit_def sat_i32_def in_i32_def)

lemma flight_hits_returns:
  assumes "flight_fit q" "setup_fit (m_rules m) (m_config m)" "in_bounds (m_config m) (p_pos t)"
  shows "\<exists>h. flight_hits m q t = Some h"
proof -
  have v: "\<bar>vx (p_pos t)\<bar> < 2 ^ 30" "\<bar>vy (p_pos t)\<bar> < 2 ^ 30" using in_bounds_abs [OF assms(2,3)] by simp_all
  have q: "\<bar>vx (pj_pos q)\<bar> \<le> 2 ^ 31" "\<bar>vy (pj_pos q)\<bar> \<le> 2 ^ 31" using assms(1) by (auto simp: flight_fit_def dest: in_i32_abs)
  have "\<exists>h. segment_hits_disc (pj_pos q) (flight_end q) (p_pos t) (r_hit_radius (m_rules m)) = Some h"
  proof (rule disc_returns)
    show "(vx (p_pos t) - vx (pj_pos q))\<^sup>2 + (vy (p_pos t) - vy (pj_pos q))\<^sup>2 \<le> 2 * (2 ^ 32)\<^sup>2"
      by (rule sum_sq_le) (use v q in \<open>simp; linarith\<close>)+
    show "(vx (flight_end q) - vx (pj_pos q))\<^sup>2 + (vy (flight_end q) - vy (pj_pos q))\<^sup>2 \<le> 2 * (2 ^ 21)\<^sup>2"
      by (rule sum_sq_le [OF flight_fit_end(3,4) [OF assms(1)]])
    have "in_i32 (r_hit_radius (m_rules m))" using assms(2) by (simp add: setup_fit_def)
    from sq_le [OF in_i32_abs [OF this]] show "(r_hit_radius (m_rules m))\<^sup>2 \<le> 2 * (2 ^ 32)\<^sup>2" by simp
  qed simp
  then show ?thesis by (auto simp: flight_hits_def Let_def)
qed

lemma flight_cands_returns:
  assumes "flight_fit q" "setup_fit (m_rules m) (m_config m)" "\<forall>jt\<in>set jts. in_bounds (m_config m) (p_pos (snd jt))"
  shows "\<exists>cs. flight_cands m q jts = Some cs"
  using assms(3)
proof (induction jts)
  case (Cons jt jts)
  then show ?case using flight_hits_returns [OF assms(1,2), of "snd jt"] by auto
qed simp

lemma strike_pawn_steady:
  assumes "steady n K B m" "j < n"
  shows "\<exists>m'. strike_pawn q j m = Some m' \<and> steady n K B m'"
proof -
  obtain m1 d where d: "damage_pawn j (r_damage (m_rules m)) (pj_shooter q) m = (m1, d)" by fastforce
  note m1 = damage_pawn_steady [OF assms d]
  have B: "B < 2 ^ 31" using assms(1) by (simp add: steady_def)
  have add: "\<exists>m2. add_score i d m1 = Some m2 \<and> steady n K B m2" if "find_index P (m_pawns m1) = Some i" for P i
    using add_score_steady [OF m1 _ B, of i] find_index_Some [OF that] steady_fit(2) [OF m1] by simp
  have keep: "steady n K B m1" using steady_mono [OF m1, of K B] B by simp
  obtain m2 where m2: "(if p_team (m_pawns m ! j) = pj_team q then Some m1
      else case find_index (\<lambda>p. p_seat p = pj_shooter q) (m_pawns m1) of None \<Rightarrow> Some m1 | Some i \<Rightarrow> add_score i d m1) = Some m2"
    "steady n K B m2"
  proof (cases "p_team (m_pawns m ! j) = pj_team q \<or> find_index (\<lambda>p. p_seat p = pj_shooter q) (m_pawns m1) = None")
    case True
    with keep that [of m1] show thesis by auto
  next
    case False
    then obtain i where i: "find_index (\<lambda>p. p_seat p = pj_shooter q) (m_pawns m1) = Some i" "p_team (m_pawns m ! j) \<noteq> pj_team q" by auto
    with add [OF i(1)] that show thesis by auto
  qed
  from knock_back_steady [OF m2(2) assms(2)] m2(1) show ?thesis by (simp add: strike_pawn_def d Let_def)
qed

lemma advance_projectile_steady:
  assumes "steady n K B m" "list_all flight_fit sv" "flight_fit q"
  shows "\<exists>m' sv'. advance_projectile q (m, sv) = Some (m', sv') \<and> steady n K B m' \<and> list_all flight_fit sv'"
proof -
  have "\<forall>jt\<in>set (enumerate 0 (m_pawns m)). in_bounds (m_config m) (p_pos (snd jt))"
    using steady_fit(3) [OF assms(1)] by (auto simp: fit_def list_all_length in_set_enumerate_eq pawn_fit_def)
  from flight_cands_returns [OF assms(3) fitD(4) [OF steady_fit(3) [OF assms(1)]] this]
  obtain cs where cs: "flight_cands m q (enumerate 0 (m_pawns m)) = Some cs" by blast
  show ?thesis
  proof (cases "nearest None cs")
    case None
    have "pj_age q + 1 < 2 ^ 16" using assms(3) by (simp add: flight_fit_def MAX_PROJECTILE_LIFETIME_def)
    moreover have "flight_fit (q\<lparr>pj_pos := flight_end q, pj_age := pj_age q + 1\<rparr>)" if "pj_age q + 1 < MAX_PROJECTILE_LIFETIME"
      using assms(3) flight_fit_end(1,2) [OF assms(3)] that by (simp add: flight_fit_def)
    ultimately show ?thesis using cs None assms by (auto simp: advance_projectile_def Let_def ck_u_def)
  next
    case (Some jd)
    obtain j d where jd: "jd = (j, d)" by fastforce
    from nearest_in [OF Some] jd have "(j, d) \<in> set cs" by simp
    from flight_cands_in [OF cs this] have "j < n" using steady_fit(2) [OF assms(1)] by (auto simp: in_set_enumerate_eq)
    from strike_pawn_steady [OF assms(1) this, of q] Some jd cs assms(2) show ?thesis by (auto simp: advance_projectile_def)
  qed
qed

lemma advance_projectiles_steady:
  assumes "steady n K B m"
  shows "\<exists>m'. advance_projectiles m = Some m' \<and> steady n K B m'"
proof -
  have "\<exists>s'. foldM advance_projectile (m_projectiles m) (m\<lparr>m_projectiles := []\<rparr>, []) = Some s'
      \<and> (case s' of (m', sv) \<Rightarrow> steady n K B m' \<and> list_all flight_fit sv)"
  proof (rule foldM_safe)
    fix q t
    assume "q \<in> set (m_projectiles m)" and t: "case t of (m', sv) \<Rightarrow> steady n K B m' \<and> list_all flight_fit sv"
    then have q: "flight_fit q" using assms by (auto simp: steady_def fit_def list_all_iff)
    obtain m' sv where "t = (m', sv)" by fastforce
    with advance_projectile_steady [OF _ _ q, of n K B m' sv] t
    show "\<exists>t'. advance_projectile q t = Some t' \<and> (case t' of (m', sv) \<Rightarrow> steady n K B m' \<and> list_all flight_fit sv)" by auto
  qed (use assms in \<open>simp add: steady_def fit_def\<close>)
  then show ?thesis using assms by (auto simp: advance_projectiles_def steady_def fit_def)
qed

end
