(* ===== verification/Step_Total.thy ===== *)
theory Step_Total
  imports Weapons_Total
begin

section \<open>A step of a fit match does not panic\<close>

text \<open>
  Movement, gravity, pickups and weapons keep a match \<open>steady\<close>. Pickups raise the bound on the total worth by one
  refill per pawn, and every pawn may fire one projectile; with these allowances a whole step returns.
\<close>

lemma foldM_safe_count:
  assumes "P k s" and "\<And>x t i. x \<in> set xs \<Longrightarrow> i < k + length xs \<Longrightarrow> P i t \<Longrightarrow> \<exists>t'. f x t = Some t' \<and> P (i + 1) t'"
  shows "\<exists>s'. foldM f xs s = Some s' \<and> P (k + length xs) s'"
  using assms
proof (induction xs arbitrary: k s)
  case (Cons x xs)
  from Cons.prems(2) [of x k s] Cons.prems(1) obtain t where "f x s = Some t" "P (k + 1) t" by auto
  with Cons.IH [of "k + 1" t] Cons.prems(2) show ?case by auto
qed simp

subsection \<open>Movement and gravity\<close>

lemma move_pawn_steady:
  assumes "steady n K B m" "i < n"
  shows "\<exists>m'. move_pawn acc i m = Some m' \<and> steady n K B m'"
proof -
  let ?p = "m_pawns m ! i"
  have len: "i < length (m_pawns m)" using assms(2) steady_fit(2) [OF assms(1)] by simp
  have fit: "pawn_fit (m_rules m) (m_config m) ?p" by (rule steady_fit(1) [OF assms])
  then have at: "in_bounds (m_config m) (p_pos ?p)" by (simp add: pawn_fit_def)
  have put: "steady n K B (set_pawn i q m)"
    if "pawn_fit (m_rules m) (m_config m) q" "p_seat q = p_seat ?p" "worth q = worth ?p" for q
    by (rule steady_set_pawn [OF assms that(1,2)]) (simp add: that(3))
  show ?thesis
  proof (cases "p_alive ?p \<and> bt_get acc (p_seat ?p) \<noteq> None")
    case False
    have "steady n K B (set_pawn i (?p\<lparr>p_vel := vec2_zero\<rparr>) m)"
      by (rule put) (use fit in \<open>simp_all add: pawn_fit_def worth_def\<close>)
    with False assms(1) show ?thesis by (auto simp: move_pawn_def Let_def)
  next
    case True
    then obtain intent where int: "bt_get acc (p_seat ?p) = Some intent" "p_alive ?p" by auto
    define q where "q = (if dashing (m_rules m) ?p intent
      then ?p\<lparr>p_facing := aim intent, p_dash_cooldown := r_dash_cooldown (m_rules m)\<rparr> else ?p\<lparr>p_facing := aim intent\<rparr>)"
    have q: "pawn_fit (m_rules m) (m_config m) q" "p_seat q = p_seat ?p" "worth q = worth ?p"
      using fit by (simp_all add: q_def pawn_fit_def worth_def)
    obtain to where to: "slide m (p_seat ?p) (p_pos ?p) (p_z ?p) (move_dir intent) (r_max_speed (m_rules m)) = Some to"
      "in_bounds (m_config m) to"
      by (rule slide_fit [OF steady_fit(3) [OF assms(1)] at])
    have "fit n K (set_pawn i q m)" by (rule steady_fit(3) [OF put [OF q]])
    then obtain la where la: "slide (set_pawn i q m) (p_seat ?p) to (p_z ?p) (move_dir intent) DASH_DISTANCE = Some la"
      "in_bounds (m_config m) la"
      by (rule slide_fit) (use to(2) in simp_all)
    define land where "land = (if dashing (m_rules m) ?p intent then la else to)"
    have land: "in_bounds (m_config m) land" using to(2) la(2) by (simp add: land_def)
    note b = in_bounds_abs [OF fitD(4) [OF steady_fit(3) [OF assms(1)]]]
    have v: "in_i32 (vx land - vx (p_pos ?p))" "in_i32 (vy land - vy (p_pos ?p))"
      using b [OF at] b [OF land] by (auto simp: in_i32_def)
    have "move_pawn acc i m = Some (set_pawn i (q\<lparr>p_vel := \<lparr>vx = vx land - vx (p_pos ?p), vy = vy land - vy (p_pos ?p)\<rparr>, p_pos := land\<rparr>) m)"
      using int to(1) la(1) v len
      by (cases "dashing (m_rules m) ?p intent") (simp_all add: move_pawn_def Let_def q_def land_def ck_i32_def set_pawn_twice)
    moreover have "steady n K B (set_pawn i (q\<lparr>p_vel := v, p_pos := land\<rparr>) m)" for v
      by (rule put) (use q land in \<open>simp_all add: pawn_fit_def worth_def\<close>)
    ultimately show ?thesis by simp
  qed
qed

lemma apply_hp_damage_steady:
  assumes "steady n K B m" "j < n" "apply_hp_damage j raw m = (m1, d)"
  shows "steady n K (B - int d) m1"
proof -
  obtain q e where q: "hp_damage raw (m_pawns m ! j) = (q, e)" by fastforce
  note w = hp_damage_worth [OF q]
  have "steady n K (B - int e) (set_pawn j q m)"
    by (rule steady_spend [OF assms(1,2) w(2) [OF steady_fit(1) [OF assms(1,2)]] w(3,1)])
  with assms(3) show ?thesis by (simp add: apply_hp_damage_def q)
qed

lemma fall_pawn_steady:
  assumes "steady n K B m" "i < n"
  shows "\<exists>m'. fall_pawn acc i m = Some m' \<and> steady n K B m'"
proof (cases "p_alive (m_pawns m ! i)")
  case False
  with assms(1) show ?thesis by (simp add: fall_pawn_def)
next
  case True
  let ?p = "jump_pawn acc (m_pawns m ! i)"
  have B: "B < 2 ^ 31" using assms(1) by (simp add: steady_def)
  have p: "pawn_fit (m_rules m) (m_config m) (?p\<lparr>p_z := z, p_z_vel := v\<rparr>)" "worth (?p\<lparr>p_z := z, p_z_vel := v\<rparr>) = worth (m_pawns m ! i)" for z v
    using steady_fit(1) [OF assms] by (simp_all add: pawn_fit_def worth_def)
  have up: "steady n K B (set_pawn i (?p\<lparr>p_z := z, p_z_vel := v\<rparr>) m)" for z v
    by (rule steady_set_pawn [OF assms p(1)]) (simp_all add: p(2))
  let ?m = "set_pawn i (?p\<lparr>p_z := 0, p_z_vel := 0\<rparr>) m"
  have land: "\<exists>u. land_pawn i im ?m = Some u \<and> steady n K B u" for im
  proof -
    obtain u d where u: "apply_hp_damage i (r_fall_damage (m_rules m)) ?m = (u, d)" by fastforce
    have s: "steady n K (B - int d) u" by (rule apply_hp_damage_steady [OF up assms(2) u])
    have k: "steady n K B u" using steady_mono [OF s, of K B] B by simp
    have "\<exists>m'. credit_fall_kill i d u = Some m' \<and> steady n K B m'"
      using k add_score_steady [OF s _ B] steady_fit(2) [OF s]
      by (auto simp: credit_fall_kill_def dest: find_index_Some split: option.splits)
    with k up u show ?thesis by (auto simp: land_pawn_def Let_def)
  qed
  have unlaunch: "steady n K B (set_pawn i ((m_pawns u ! i)\<lparr>p_launched_by := None\<rparr>) u)" if "steady n K B u" for u
    by (rule steady_set_pawn [OF that assms(2)]) (use steady_fit(1) [OF that assms(2)] in \<open>simp_all add: pawn_fit_def worth_def\<close>)
  show ?thesis
    using True land [of "- p_z_vel ?p"] unlaunch up by (auto simp: fall_pawn_eq Let_def)
qed

subsection \<open>Weapons\<close>

lemma fire_weapon_steady:
  assumes "steady n K B m" "i < n" "K + 1 < 2 ^ 32"
  shows "\<exists>m'. fire_weapon i m = Some m' \<and> steady n (K + 1) B m'"
proof -
  have B: "B < 2 ^ 31" using assms(1) by (simp add: steady_def)
  have put: "steady n K B (set_pawn i ((m_pawns m ! i)\<lparr>p_ammo := a, p_cooldown := c\<rparr>) m)"
    "steady n K B (set_pawn i ((m_pawns m ! i)\<lparr>p_cooldown := c\<rparr>) m)" for a c
    by (rule steady_set_pawn [OF assms(1,2)]; use steady_fit(1) [OF assms(1,2)] in \<open>simp add: pawn_fit_def worth_def\<close>)+
  have more: "steady n (K + 1) B u" if "steady n K B u" for u by (rule steady_mono [OF that]) (use B in simp_all)
  have lift: "\<exists>m'. f = Some m' \<and> steady n (K + 1) B m'" if "\<exists>m'. f = Some m' \<and> steady n K B m'" for f
    using that more by blast
  show ?thesis
  proof (cases "r_weapon_mode (m_rules m)")
    case Melee
    with lift [OF resolve_melee_steady [OF put(2) assms(2)]] show ?thesis by (auto simp: fire_weapon_def Let_def)
  next
    case Hitscan
    with lift [OF resolve_fire_steady [OF put(1) assms(2)]] more [OF assms(1)] show ?thesis
      by (auto simp: fire_weapon_def Let_def)
  next
    case Projectile_Mode
    with spawn_projectile_steady [OF put(1) assms(2,3)] more [OF assms(1)] show ?thesis
      by (auto simp: fire_weapon_def Let_def)
  qed
qed

lemma act_pawn_steady:
  assumes "steady n K B m" "i < n" "K + 1 < 2 ^ 32"
  shows "\<exists>m'. act_pawn acc i m = Some m' \<and> steady n (K + 1) B m'"
proof -
  have idle: "steady n (K + 1) B m" by (rule steady_mono [OF assms(1)]) (use assms(1) in \<open>simp_all add: steady_def\<close>)
  have "steady n (K + 1) B (set_pawn i (reload_weapon (m_rules m) (m_pawns m ! i)) m)"
    by (rule steady_set_pawn [OF idle assms(2)])
      (use steady_fit(1) [OF assms(1,2)] in \<open>simp_all add: pawn_fit_def worth_def reload_weapon_def\<close>)
  with idle fire_weapon_steady [OF assms] show ?thesis by (auto simp: act_pawn_def Let_def split: option.splits)
qed

subsection \<open>Pickups and cooldowns\<close>

lemma apply_pickup_fit:
  "pawn_fit r c p \<Longrightarrow> pawn_fit r c (apply_pickup r k p)"
  "p_seat (apply_pickup r k p) = p_seat p" "p_score (apply_pickup r k p) = p_score p"
  by (auto simp: apply_pickup_def pawn_fit_def split: pickup_kind.splits)

lemma collect_pickups_fit:
  "pawn_fit r c p \<Longrightarrow> pawn_fit r c (snd (collect_pickups r ks p)) \<and> p_seat (snd (collect_pickups r ks p)) = p_seat p
     \<and> p_score (snd (collect_pickups r ks p)) = p_score p"
  by (induction r ks p rule: collect_pickups.induct) (auto simp: Let_def apply_pickup_fit split: prod.splits)

definition refill :: "rules \<Rightarrow> nat" where
  "refill r = r_start_health r + r_max_shield r"

lemma worth_refilled:
  assumes "pawn_fit r c q" "p_score q = p_score p"
  shows "worth q \<le> worth p + int (refill r)"
  using assms by (simp add: worth_def pawn_fit_def refill_def)

lemma steady_fit_update:
  assumes "steady n K B m" "map p_seat ps = map p_seat (m_pawns m)" "list_all (pawn_fit (m_rules m) (m_config m)) ps"
    "total_worth ps \<le> B'" "B' < 2 ^ 31"
  shows "steady n K B' (m\<lparr>m_pawns := ps\<rparr>)"
  using assms by (simp add: steady_def fit_def)

lemma pickup_turn_steady:
  assumes "steady n K B m" "i < n" "B + int (refill (m_rules m)) < 2 ^ 31"
  shows "steady n K (B + int (refill (m_rules m))) (pickup_turn i m)"
proof (cases "p_alive (m_pawns m ! i)")
  case False
  with steady_mono [OF assms(1), of K "B + int (refill (m_rules m))"] assms(3) show ?thesis by (simp add: pickup_turn_def)
next
  case True
  obtain ks q where q: "collect_pickups (m_rules m) (m_pickups m) (m_pawns m ! i) = (ks, q)" by fastforce
  have len: "i < length (m_pawns m)" using assms(2) steady_fit(2) [OF assms(1)] by simp
  from collect_pickups_fit [OF steady_fit(1) [OF assms(1,2)], of "m_pickups m"] q
  have f: "pawn_fit (m_rules m) (m_config m) q" "p_seat q = p_seat (m_pawns m ! i)" "p_score q = p_score (m_pawns m ! i)" by auto
  have "total_worth ((m_pawns m)[i := q]) \<le> B + int (refill (m_rules m))"
    using total_worth_update [OF len, of q] worth_refilled [OF f(1,3)] assms(1) by (simp add: steady_def)
  moreover have "fit n K (set_pawn i q m)" by (rule fit_set_pawn [OF steady_fit(3) [OF assms(1)] assms(2) f(1,2)])
  ultimately show ?thesis using True assms(3) by (simp add: pickup_turn_def q steady_def fit_def)
qed

lemma pickup_turn_rules [simp]: "m_rules (pickup_turn i m) = m_rules m"
  by (simp add: pickup_turn_def Let_def split: prod.splits)

lemma pickup_turns_steady:
  "steady n K B m \<Longrightarrow> set is \<subseteq> {..<n} \<Longrightarrow> B + int (length is * refill (m_rules m)) < 2 ^ 31 \<Longrightarrow>
   steady n K (B + int (length is * refill (m_rules m))) (fold pickup_turn is m)"
proof (induction "is" arbitrary: B m)
  case (Cons i js)
  have "int (length (i # js) * refill (m_rules m)) = int (refill (m_rules m)) + int (length js * refill (m_rules m))"
    by (simp add: algebra_simps)
  with Cons.prems(3) have "B + int (refill (m_rules m)) < 2 ^ 31" by linarith
  then have "steady n K (B + int (refill (m_rules m))) (pickup_turn i m)"
    using pickup_turn_steady Cons.prems(1,2) by simp
  from Cons.IH [OF this] Cons.prems(2,3) show ?case by (simp add: algebra_simps)
qed simp

lemma process_pickups_steady:
  assumes "steady n K B m" "B + int (n * refill (m_rules m)) < 2 ^ 31"
  shows "steady n K (B + int (n * refill (m_rules m))) (process_pickups m)"
proof -
  have n: "length (m_pawns m) = n" by (rule steady_fit(2) [OF assms(1)])
  have "0 \<le> int (n * refill (m_rules m))" by simp
  then have "steady n K (B + int (n * refill (m_rules m))) m"
    using steady_mono [OF assms(1), of K "B + int (n * refill (m_rules m))"] assms(2) by linarith
  moreover have "steady n K B (m\<lparr>m_pickups := ks\<rparr>)" for ks using assms(1) by (simp add: steady_def fit_def)
  ultimately show ?thesis
    using pickup_turns_steady [of n K B "m\<lparr>m_pickups := map respawn_pickup (m_pickups m)\<rparr>" "[0..<n]"] assms(2)
    by (simp add: process_pickups_def n lessThan_atLeast0)
qed

lemma cooldowns_steady:
  assumes "steady n K B m"
  shows "steady n K B (m\<lparr>m_pawns := map tick_cooldown (m_pawns m)\<rparr>)"
proof -
  have t: "p_seat (tick_cooldown p) = p_seat p" "pawn_fit r c (tick_cooldown p) = pawn_fit r c p" "worth (tick_cooldown p) = worth p" for p r c
    by (simp_all add: tick_cooldown_def pawn_fit_def worth_def)
  show ?thesis
    by (rule steady_fit_update [OF assms])
      (use assms in \<open>simp_all add: t list.pred_map comp_def total_worth_def steady_def fit_def\<close>)
qed

subsection \<open>The whole step\<close>

lemma seat_loop_steady:
  assumes "steady n K B m" "\<And>i t. i < n \<Longrightarrow> steady n K B t \<Longrightarrow> \<exists>t'. f i t = Some t' \<and> steady n K B t'"
  shows "\<exists>m'. foldM f [0..<length (m_pawns m)] m = Some m' \<and> steady n K B m'"
  by (rule foldM_safe) (use assms steady_fit(2) [OF assms(1)] in auto)

lemma act_loop_steady:
  assumes "steady n K B m" "K + n < 2 ^ 32"
  shows "\<exists>m'. foldM (act_pawn acc) [0..<length (m_pawns m)] m = Some m' \<and> steady n (K + n) B m'"
proof -
  have n: "length (m_pawns m) = n" by (rule steady_fit(2) [OF assms(1)])
  have "\<exists>m'. foldM (act_pawn acc) [0..<n] m = Some m' \<and> steady n (K + length [0..<n]) B m'"
  proof (rule foldM_safe_count [where P = "\<lambda>k. steady n k B"])
    fix x t i
    assume "x \<in> set [0..<n]" "i < K + length [0..<n]" "steady n i B t"
    then show "\<exists>t'. act_pawn acc x t = Some t' \<and> steady n (i + 1) B t'" by (intro act_pawn_steady) (use assms(2) in auto)
  qed (rule assms(1))
  then show ?thesis by (simp add: n)
qed

lemma run_tick_steady:
  assumes "steady n K B m" "K + n < 2 ^ 32" "B + int (n * refill (m_rules m)) < 2 ^ 31"
  shows "\<exists>m'. run_tick acc m = Some m' \<and> steady n (K + n) (B + int (n * refill (m_rules m))) m'"
proof -
  let ?m0 = "m\<lparr>m_pawns := map tick_cooldown (m_pawns m)\<rparr>"
  obtain m1 where m1: "foldM (move_pawn acc) [0..<length (m_pawns ?m0)] ?m0 = Some m1" "steady n K B m1"
    using seat_loop_steady [OF cooldowns_steady [OF assms(1)], of "move_pawn acc"] move_pawn_steady by blast
  have "evolves m m1" by (rule evolves_trans [OF cooldowns_evolve evolves_foldM [OF m1(1)]])
    (auto dest: move_pawn_evolves simp: evolves_length)
  obtain m2 where m2: "(if r_gravity (m_rules m1) > 0 then foldM (fall_pawn acc) [0..<length (m_pawns m1)] m1 else Some m1) = Some m2"
    "steady n K B m2" "m_rules m2 = m_rules m"
  proof (cases "r_gravity (m_rules m1) > 0")
    case True
    obtain m2 where m2: "foldM (fall_pawn acc) [0..<length (m_pawns m1)] m1 = Some m2" "steady n K B m2"
      using seat_loop_steady [OF m1(2), of "fall_pawn acc"] fall_pawn_steady by blast
    have "evolves m1 m2" by (rule evolves_foldM [OF m2(1)]) (auto dest: fall_pawn_evolves simp: evolves_length)
    with m2 True that [of m2] evolves_setup(1) \<open>evolves m m1\<close> show thesis by force
  next
    case False
    with that [of m1] m1(2) evolves_setup(1) [OF \<open>evolves m m1\<close>] show thesis by simp
  qed
  have p: "steady n K (B + int (n * refill (m_rules m))) (process_pickups m2)"
    using process_pickups_steady [OF m2(2)] assms(3) by (simp only: m2(3))
  obtain m3 where m3: "foldM (act_pawn acc) [0..<length (m_pawns (process_pickups m2))] (process_pickups m2) = Some m3"
    "steady n (K + n) (B + int (n * refill (m_rules m))) m3"
    using act_loop_steady [OF p assms(2)] by blast
  from advance_projectiles_steady [OF m3(2)] m3(1) m2(1) m1(1) show ?thesis
    by (simp add: run_tick_def Let_def)
qed

lemma refresh_memory_steady:
  assumes "steady n K B m"
  shows "\<exists>m'. refresh_perception_memory t m = Some m' \<and> steady n K B m' \<and> m_rules m' = m_rules m"
  unfolding refresh_perception_memory_def
proof (rule foldM_safe)
  fix p u
  assume "p \<in> set (filter p_alive (m_pawns m))" and u: "steady n K B u \<and> m_rules u = m_rules m"
  then obtain i where "i < n" "p = m_pawns m ! i" using steady_fit(2) [OF assms] by (auto simp: in_set_conv_nth)
  then have "p_seat p < n" using fitD(3) [OF steady_fit(3) [OF assms]] by simp
  moreover have "length (m_seat_memory u) = n" using u by (simp add: steady_def fit_def)
  ultimately show "\<exists>u'. refresh_seat t p u = Some u' \<and> steady n K B u' \<and> m_rules u' = m_rules m"
    using u by (auto simp: refresh_seat_def Let_def steady_def fit_def)
qed (use assms in simp)

lemma drain_steady:
  assumes "steady n K B m" "drain_forfeits m = (m', ds)"
  shows "steady n K B m'" "m_rules m' = m_rules m"
proof -
  note d = drain_forfeits_props [OF assms(2)]
  have same: "map p_seat qs = map p_seat ps \<and> map worth qs = map worth ps
      \<and> (list_all (pawn_fit r c) ps \<longrightarrow> list_all (pawn_fit r c) qs)" if "list_all2 downs ps qs" for ps qs r c
    using that by (induction rule: list_all2_induct) (auto simp: downs_def down_pawn_def worth_def pawn_fit_def)
  have "steady n K B (m\<lparr>m_pawns := m_pawns m'\<rparr>)"
    by (rule steady_fit_update [OF assms(1)])
      (use same [OF d(1)] assms(1) in \<open>auto simp: steady_def fit_def total_worth_def\<close>)
  then show "steady n K B m'" by (subst d(2)) (simp add: steady_def fit_def)
  show "m_rules m' = m_rules m" by (subst d(2)) simp
qed

lemma maybe_finish_steady: "steady n K B m \<Longrightarrow> steady n K B (maybe_finish X m)"
  by (simp add: maybe_finish_def steady_def fit_def)

lemma step_steady:
  assumes "steady n K B m" "K + n < 2 ^ 32" "B + int (n * refill (m_rules m)) < 2 ^ 31" "m_tick m + 1 < 2 ^ 64"
  shows "\<exists>m'. step X is m = Some m' \<and> steady n (K + n) (B + int (n * refill (m_rules m))) m'"
proof -
  have "0 \<le> int (n * refill (m_rules m))" by simp
  then have idle: "steady n (K + n) (B + int (n * refill (m_rules m))) m"
    using steady_mono [OF assms(1), of "K + n" "B + int (n * refill (m_rules m))"] assms(3) by linarith
  show ?thesis
  proof (cases "m_phase m = Live")
    case False
    with idle show ?thesis by (cases "m_phase m") (simp_all add: step_def step_starting_def Let_def steady_def fit_def)
  next
    case True
    obtain u where u: "(if r_perception_memory_ticks (m_rules m) > 0 then refresh_perception_memory (m_tick m) m else Some m) = Some u"
      "steady n K B u" "m_rules u = m_rules m" "m_tick u = m_tick m"
    proof (cases "r_perception_memory_ticks (m_rules m) > 0")
      case True
      with refresh_memory_steady [OF assms(1), of "m_tick m"] that refresh_memory_only [of "m_tick m" m] show thesis
        by (auto simp: memory_only_def)
    qed (use assms(1) that in simp)
    obtain v ds where v: "drain_forfeits u = (v, ds)" by fastforce
    note d = drain_steady [OF u(2) v]
    have r: "m_rules v = m_rules m" by (simp add: d(2) u(3))
    let ?acc = "accept_intents v is"
    obtain w where w: "run_tick ?acc v = Some w" "steady n (K + n) (B + int (n * refill (m_rules m))) w"
      using run_tick_steady [OF d(1) assms(2), of ?acc] assms(3) by (auto simp: r)
    have "m_tick w = m_tick v" using run_tick_evolves [OF w(1)] by (simp add: evolves_def same_frame_def)
    also have "\<dots> = m_tick m" by (subst drain_forfeits_props(2) [OF v]) (simp add: u(4))
    finally have t: "m_tick w + 1 < 2 ^ 64" using assms(4) by simp
    have "steady n (K + n) (B + int (n * refill (m_rules m))) (w\<lparr>m_ticks := ts, m_tick := k\<rparr>)" for ts k
      using w(2) by (simp add: steady_def fit_def)
    then have "\<exists>m'. close_tick X (m_tick m) ?acc ds w = Some m' \<and> steady n (K + n) (B + int (n * refill (m_rules m))) m'"
      using t by (simp add: close_tick_def ck_u_def maybe_finish_steady)
    moreover have "step X is m = close_tick X (m_tick m) ?acc ds w"
      using True u(1) v w(1) by (simp add: step_def Let_def)
    ultimately show ?thesis by simp
  qed
qed

end
