(* ===== verification/Match_Total.thy ===== *)
theory Match_Total
  imports Step_Total Driver
begin

section \<open>A moderate match never panics\<close>

text \<open>
  The conditions under which no event panics a match, as bounds on its setup: pawns spawn inside an arena
  of moderate size, the roster is numbered from zero, and what the pawns can gather in health and shield
  over the whole match, with one refill per pawn and tick, fits a score. Then construction returns, every
  sequence of events returns, every seat can be observed, and a driven match runs to its end.
\<close>

definition moderate :: "match_config \<Rightarrow> rules \<Rightarrow> seat_info list \<Rightarrow> pickup_spawn list \<Rightarrow> bool" where
  "moderate c r ss pks \<longleftrightarrow> spawn_ok r \<and> setup_fit r c
     \<and> r_spawn_radius r + r_spawn_jitter r \<le> vx (bounds c) \<and> r_spawn_jitter r \<le> vy (bounds c)
     \<and> length pks < 2 ^ 31 \<and> map si_seat ss = [0..<length ss] \<and> max_ticks c < 2 ^ 64
     \<and> (max 1 (max_ticks c) + 1) * (length ss * refill r) < 2 ^ 31
     \<and> PROJECTILE_ID_BASE + max 1 (max_ticks c) * length ss < 2 ^ 32"

text \<open>The bounds grow with the clock: one refill and one projectile per seat and live tick.\<close>

definition in_budget :: "nat \<Rightarrow> arena_match \<Rightarrow> bool" where
  "in_budget n m \<longleftrightarrow> steady n (PROJECTILE_ID_BASE + m_tick m * n) (int ((m_tick m + 1) * (n * refill (m_rules m)))) m"

definition going :: "crates \<Rightarrow> match_config \<Rightarrow> rules \<Rightarrow> seat_info list \<Rightarrow> arena_match \<Rightarrow> bool" where
  "going X c r ss m \<longleftrightarrow> match_ok X m \<and> m_config m = c \<and> m_rules m = r \<and> m_seats m = ss \<and> in_budget (length ss) m"

lemma total_worth_le: "(\<And>p. p \<in> set ps \<Longrightarrow> worth p \<le> int k) \<Longrightarrow> total_worth ps \<le> int (length ps * k)"
  by (induction ps) (auto simp: total_worth_def add_mono)

lemma moderate_start: "moderate c r ss pks \<Longrightarrow> \<exists>m0. new_with_pickups i c r ss bs pks sd = Some m0"
  using new_match_spawns [of r pks i c ss bs sd] by (auto simp: moderate_def)

lemma fresh_match_going:
  assumes "moderate c r ss pks" "hostable c r ss bs pks" "new_with_pickups i c r ss bs pks sd = Some m"
  shows "going X c r ss m"
proof -
  note f = new_with_pickups_fresh [OF assms(3)]
  have mo: "spawn_ok r" "length pks < 2 ^ 31" "setup_fit r c" "map si_seat ss = [0..<length ss]"
    using assms(1) by (auto simp: moderate_def)
  have within: "\<forall>p\<in>set (m_pawns m). spawned_within r p"
    using new_match_spawns [OF mo(1,2), of i c ss bs sd] assms(3) by auto
  have fr: "\<exists>s. fresh_pawn r s p" if "p \<in> set (m_pawns m)" for p
    using that f(1) by (auto simp: list_all2_conv_all_nth in_set_conv_nth)
  have pf: "list_all (pawn_fit r c) (m_pawns m)"
    unfolding list_all_iff
  proof
    fix p assume p: "p \<in> set (m_pawns m)"
    obtain s where "fresh_pawn r s p" using fr [OF p] by blast
    moreover have "spawned_within r p" using within p by blast
    then have "in_bounds c (p_pos p)" using assms(1) unfolding spawned_within_def in_bounds_def moderate_def by linarith
    ultimately show "pawn_fit r c p" by (simp add: pawn_fit_def fresh_pawn_def)
  qed
  have len: "length (m_pawns m) = length ss" using f(1) by (simp add: list_all2_lengthD)
  have w: "worth p \<le> int (refill r)" if "p \<in> set (m_pawns m)" for p
    using fr [OF that] by (auto simp: fresh_pawn_def worth_def refill_def)
  have "map p_seat (m_pawns m) = map si_seat ss"
    using f(1) by (induction rule: list_all2_induct) (auto simp: fresh_pawn_def)
  then have "map p_seat (m_pawns m) = [0..<length ss]" using mo(4) by (rule trans)
  moreover have "m_next_projectile_id m = PROJECTILE_ID_BASE"
    using assms(3) by (auto simp: new_with_pickups_def panic_simps)
  ultimately have fit: "fit (length ss) PROJECTILE_ID_BASE m" using pf f mo(3) by (simp add: fit_def)
  have "(1::nat) * (length ss * refill r) \<le> (max 1 (max_ticks c) + 1) * (length ss * refill r)"
    by (intro mult_right_mono) simp_all
  also have "\<dots> < 2 ^ 31" using assms(1) unfolding moderate_def by blast
  finally have "int (length ss * refill r) < 2 ^ 31" by (simp only: mult_1 of_nat_less_numeral_power_cancel_iff)
  moreover have "total_worth (m_pawns m) \<le> int (length ss * refill r)" using total_worth_le [of "m_pawns m", OF w] len by simp
  ultimately have "in_budget (length ss) m" using fit f(4,10) by (simp add: in_budget_def steady_def)
  with fresh_match_ok [OF assms(3)] assms(2) f show ?thesis by (simp add: going_def hostable_def)
qed

lemma going_step:
  assumes "moderate c r ss pks" "going X c r ss m"
  shows "\<exists>m'. step X is m = Some m' \<and> going X c r ss m'"
proof -
  let ?n = "length ss" and ?f = "length ss * refill r"
  have g: "match_ok X m" "m_config m = c" "m_rules m = r" "m_seats m = ss" "in_budget ?n m"
    using assms(2) by (auto simp: going_def)
  show ?thesis
  proof (cases "m_phase m = Live")
    case False
    have "step X is m = Some (if m_phase m = Starting then step_starting m else m)"
      using False by (cases "m_phase m") (simp_all add: step_def)
    moreover have "match_ok X (if m_phase m = Starting then step_starting m else m)"
      using match_step_ok [OF _ g(1)] match_step.Countdown match_step.Ignored by metis
    ultimately show ?thesis
      using g by (auto simp: going_def in_budget_def steady_def fit_def step_starting_def Let_def)
  next
    case True
    have t: "m_tick m + 1 \<le> max 1 (max_ticks c)" using g(1,2) True by (auto simp: match_ok_def)
    have mo: "max_ticks c < 2 ^ 64" "(max 1 (max_ticks c) + 1) * ?f < 2 ^ 31"
      "PROJECTILE_ID_BASE + max 1 (max_ticks c) * ?n < 2 ^ 32" using assms(1) unfolding moderate_def by blast+
    have "(m_tick m + 1) * ?n \<le> max 1 (max_ticks c) * ?n" "(m_tick m + 1 + 1) * ?f \<le> (max 1 (max_ticks c) + 1) * ?f"
      using t by (intro mult_right_mono; simp)+
    then have b: "PROJECTILE_ID_BASE + (m_tick m + 1) * ?n < 2 ^ 32" "(m_tick m + 1 + 1) * ?f < 2 ^ 31"
      using mo(2,3) by linarith+
    have sums: "PROJECTILE_ID_BASE + m_tick m * ?n + ?n = PROJECTILE_ID_BASE + (m_tick m + 1) * ?n"
      "int ((m_tick m + 1) * ?f) + int ?f = int ((m_tick m + 1 + 1) * ?f)" by (simp_all add: algebra_simps)
    have "max 1 (max_ticks c) < 2 ^ 64" using mo(1) by simp
    then have tick: "m_tick m + 1 < 2 ^ 64" using t by linarith
    have "int ((m_tick m + 1 + 1) * ?f) < 2 ^ 31" using b(2) by (simp only: of_nat_less_numeral_power_cancel_iff)
    then obtain m' where m': "step X is m = Some m'"
      "steady ?n (PROJECTILE_ID_BASE + (m_tick m + 1) * ?n) (int ((m_tick m + 1 + 1) * ?f)) m'"
      using step_steady [of ?n "PROJECTILE_ID_BASE + m_tick m * ?n" "int ((m_tick m + 1) * ?f)" m X "is"] g(3,5) b(1) tick
      by (auto simp only: in_budget_def sums)
    moreover have "match_ok X m'" by (rule step_live_ok [OF g(1) m'(1) True])
    moreover note step_live_frame [OF m'(1) True]
    ultimately show ?thesis using g by (simp add: going_def in_budget_def algebra_simps)
  qed
qed

lemma going_event:
  assumes "moderate c r ss pks" "going X c r ss m"
  shows "\<exists>m'. apply_event X e m = Some m' \<and> going X c r ss m'"
proof (cases e)
  case (Ev_Forfeit s)
  have "apply_event X e m = Some (fst (forfeit s m))" using Ev_Forfeit by (simp add: apply_event_def)
  moreover from match_step_ok [OF apply_event_step [OF this]] assms(2)
  have "match_ok X (fst (forfeit s m))" by (simp add: going_def)
  ultimately show ?thesis
    using assms(2) by (auto simp: going_def forfeit_def in_budget_def steady_def fit_def)
qed (use going_step [OF assms] in \<open>simp add: apply_event_def\<close>)

subsection \<open>Driven matches\<close>

lemma going_observe:
  assumes "going X c r ss m" "seat \<in> set (map si_seat ss)"
  shows "\<exists>obs. observe m seat = Some obs"
proof -
  have "list_all2 seated ss (m_pawns m)" "steady (length ss) (PROJECTILE_ID_BASE + m_tick m * length ss)
      (int ((m_tick m + 1) * (length ss * refill (m_rules m)))) m"
    using assms(1) by (auto simp: going_def match_ok_def in_budget_def)
  then have seats: "map p_seat (m_pawns m) = map si_seat ss" "map p_seat (m_pawns m) = [0..<length ss]"
    "length (m_seat_memory m) = length ss" by (auto simp: seated_seats steady_def fit_def)
  have "seat \<in> p_seat ` set (m_pawns m)" using assms(2) unfolding seats(1) [symmetric] by simp
  then obtain me where "find_pawn m seat = Some me" unfolding find_pawn_def by (cases "List.find (\<lambda>p. p_seat p = seat) (m_pawns m)") (auto simp: find_None_iff)
  moreover have "seat < length ss" using assms(2) seats by (metis atLeastLessThan_iff set_upt)
  ultimately show ?thesis using seats(3) by (simp add: observe_def visible_remembered_def Let_def)
qed


lemma duel_moderate: "moderate duel_config duel_rules duel_seats []"
  by (simp add: moderate_def spawn_ok_def setup_fit_def duel_config_def duel_rules_def default_rules_defs duel_seats_def
      refill_def in_i32_def PROJECTILE_ID_BASE_def upt_rec)


lemma going_gather:
  fixes ps :: "'a list"
  assumes "going X c r ss m" "length ps = length ss"
  shows "\<exists>is ps'. gather_intents act (map si_seat ss) m ps = Some (is, ps') \<and> length ps' = length ss"
proof -
  have "\<exists>s'. foldM (drive_seat act m) (enumerate 0 (map si_seat ss)) ([], ps) = Some s' \<and> length (snd s') = length ss"
  proof (rule foldM_safe)
    fix x and t :: "(seat_id, action_intent) btree \<times> 'a list"
    assume x: "x \<in> set (enumerate 0 (map si_seat ss))" and t: "length (snd t) = length ss"
    obtain k seat where k: "x = (k, seat)" by fastforce
    with x have "k < length (map si_seat ss)" "seat = map si_seat ss ! k" by (simp_all add: in_set_enumerate_eq)
    then have "seat \<in> set (map si_seat ss)" using nth_mem by metis
    with going_observe [OF assms(1)] obtain obs where "observe m seat = Some obs" by blast
    with k t show "\<exists>t'. drive_seat act m x t = Some t' \<and> length (snd t') = length ss"
      by (cases t) (auto simp: drive_seat_def split: prod.splits)
  qed (use assms(2) in simp)
  then show ?thesis by (auto simp: gather_intents_def)
qed

lemma live_loop_going:
  "moderate c r ss pks \<Longrightarrow> going X c r ss m \<Longrightarrow> length ps = length ss \<Longrightarrow> seats = map si_seat ss \<Longrightarrow>
   \<exists>m'. live_loop X act seats m ps = Some m'"
proof (induction X act seats m ps rule: live_loop.induct)
  case (1 X act seats m ps)
  show ?case
  proof (cases "m_phase m = Live")
    case True
    obtain "is" ps' where g: "gather_intents act seats m ps = Some (is, ps')" "length ps' = length ss"
      using going_gather [OF "1.prems"(2,3)] "1.prems"(4) by blast
    obtain m' where m': "step X is m = Some m'" "going X c r ss m'" using going_step [OF "1.prems"(1,2)] by blast
    from "1.IH" [OF True g(1) refl m'(1) "1.prems"(1) m'(2) g(2) "1.prems"(4)] g(1) m'(1) True show ?thesis
      by (simp add: live_loop.simps [of X act seats m])
  qed (simp add: live_loop.simps [of X act seats m])
qed

lemma moderate_run_returns:
  assumes "moderate c r ss pks" "hostable c r ss bs pks" "new_with_pickups i c r ss bs pks sd = Some m0"
    "length policies = length ss"
  shows "\<exists>m. run_match X act m0 policies = Some m"
proof -
  note g0 = fresh_match_going [OF assms(1-3), of X]
  obtain es where es: "foldM (apply_event X) es m0 = burn_countdown X m0" using burn_countdown_run by blast
  have "\<exists>m. foldM (apply_event X) es m0 = Some m \<and> going X c r ss m"
    by (rule foldM_safe [where P = "going X c r ss", OF g0]) (rule going_event [OF assms(1)])
  then obtain n where n: "burn_countdown X m0 = Some n" "going X c r ss n" using es by auto
  have "m_seats m0 = ss" using g0 by (simp add: going_def)
  with n(1) live_loop_going [OF assms(1) n(2) assms(4) refl] assms(4) show ?thesis by (simp add: run_match_def)
qed

text \<open>
  Property C9. Whatever its agents answer, a match that is moderate and hosted as above, with a tick cap the verifier accepts,
  driven with one policy per seat, returns: it has ended within its tick cap, and the record it leaves behind verifies.
\<close>

theorem driven_match_ends:
  assumes "moderate c r ss pks" "hostable c r ss bs pks" "max_ticks c \<le> MAX_REPLAY_TICKS" "length policies = length ss"
  shows "\<exists>m0 m. new_with_pickups i c r ss bs pks sd = Some m0 \<and> run_match X act m0 policies = Some m
    \<and> m_phase m = Ended \<and> m_tick m \<le> max 1 (max_ticks c)
    \<and> (\<exists>rec. to_record m = Some rec \<and> verify X rec = Some (Inr (rec_result rec)))"
proof -
  obtain m0 where m0: "new_with_pickups i c r ss bs pks sd = Some m0"
    using moderate_start [OF assms(1)] by blast
  with moderate_run_returns [OF assms(1,2) m0 assms(4)] run_match_ends [OF m0 assms(2,3)] show ?thesis by blast
qed

text \<open>Two agents that turn an octant each tick and fire.\<close>

definition spinner :: "bam \<Rightarrow> observation \<Rightarrow> action option \<times> bam" where
  "spinner facing obs =
     (Some \<lparr>act_protocol_version = PROTOCOL_VERSION, act_match_id = obs_match_id obs, act_seat = obs_seat obs, act_tick = obs_tick obs,
        act_intent = \<lparr>move_dir = vec2_zero, aim = facing,
          buttons = \<lparr>btn_fire = True, btn_jump = False, btn_ability = False, btn_reload = False\<rparr>\<rparr>\<rparr>,
      (facing + 8192) mod 2 ^ 16)"

theorem driven_match_ends_witness:
  "\<exists>m. run_match toy_crates spinner duel_start [0, 32768] = Some m \<and> m_phase m = Ended \<and> m_tick m \<le> 600"
proof -
  have "max_ticks duel_config \<le> MAX_REPLAY_TICKS" "length [0 :: bam, 32768] = length duel_seats" "max 1 (max_ticks duel_config) = 600"
    by (simp_all add: duel_config_def duel_seats_def MAX_REPLAY_TICKS_def)
  with driven_match_ends [OF duel_moderate duel_hostable, of "[0, 32768]" "[]" 7 toy_crates spinner] duel_start_new
  show ?thesis by auto
qed

end
