(* ===== verification/Gateway_Total.thy ===== *)
theory Gateway_Total
  imports Match_Total Gateway_Props
begin

section \<open>The enforced pump always ends its match\<close>

text \<open>
  The blocking pump waits for its agents, and hangs or panics when one goes away. Under a deadline nothing
  an agent does or omits can hold a moderate match up, as long as every line that arrives is an action or a
  departure: whoever stays silent is given up, and the match plays on to its end.
\<close>

definition readable :: "gateway_json \<Rightarrow> string set \<Rightarrow> bool" where
  "readable J B \<longleftrightarrow> (\<forall>line\<in>B. \<exists>seat msg. read_agent J line = Some (seat, msg) \<and> (\<forall>v a s. msg \<noteq> Ag_Join v a s))"

lemma forfeit_silent_active: "set (fst (forfeit_silent_seats active answered misses eof)) \<subseteq> set active"
proof -
  have "set (fst (fold (silence_seat eof) ss am)) \<subseteq> set (fst am)" for ss am
  proof (induction ss arbitrary: am)
    case (Cons s ss)
    have "set (fst (silence_seat eof s am)) \<subseteq> set (fst am)" by (auto simp: silence_seat_def Let_def split: prod.splits)
    with Cons [of "silence_seat eof s am"] show ?case by auto
  qed simp
  from this [of _ "(active, misses)"] show ?thesis by (simp add: forfeit_silent_seats_def)
qed

lemma give_up_active: "set (tk_active (give_up eof k)) \<subseteq> set (tk_active k)"
  using forfeit_silent_active by (auto simp: give_up_def split_beta)

lemma heard_active [simp]: "tk_active (heard seat k) = tk_active k"
  by (simp add: heard_def)

lemma tick_reads_returns:
  "readable J (lines_of ch) \<Longrightarrow>
   \<exists>k' ch'. tick_reads J m d r k ch = Some (k', ch') \<and> set (tk_active k') \<subseteq> set (tk_active k) \<and> readable J (lines_of ch')"
proof (induction J m d r k ch rule: tick_reads.induct)
  case (1 J m d r k ch)
  obtain c1 rx where rx: "recv_timeout (d - ch_now ch) ch = (c1, rx)" by fastforce
  note sub = recv_timeout_lines [OF rx]
  have c1: "readable J (lines_of c1)" using sub "1.prems" by (auto simp: readable_def)
  note unf = tick_reads.simps [of J m d r k ch]
  show ?case
  proof (cases "r = 0 \<or> rx = Rx_Timeout \<or> rx = Rx_Disconnected")
    case True
    show ?thesis
    proof (cases "r = 0")
      case r: True
      have "tick_reads J m d r k ch = Some (k, ch)" by (simp add: r tick_reads.simps [of J m d 0])
      with "1.prems" show ?thesis by simp
    next
      case False
      with True obtain eof where "tick_reads J m d r k ch = Some (give_up eof k, c1)" by (auto simp: unf rx)
      with c1 give_up_active show ?thesis by simp
    qed
  next
    case False
    then obtain line where r: "r \<noteq> 0" and l: "rx = Rx_Line line" by (cases rx) auto
    have "line \<in> lines_of ch" using sub l by simp
    with "1.prems" have "\<exists>seat msg. read_agent J line = Some (seat, msg) \<and> (\<forall>v w s. msg \<noteq> Ag_Join v w s)"
      unfolding readable_def by (rule bspec)
    then obtain seat msg where a: "read_agent J line = Some (seat, msg)" and nj: "\<And>v w s. msg \<noteq> Ag_Join v w s"
      by (elim exE conjE) simp
    note IH = "1.IH" [OF r rx [symmetric] l a refl]
    show ?thesis
    proof (cases "List.member (tk_active k) seat")
      case out: False
      show ?thesis
      proof (cases "ch_now c1 \<ge> d")
        case True
        then have "tick_reads J m d r k ch = Some (give_up False k, c1)" using r l a out by (simp add: unf rx)
        with c1 give_up_active show ?thesis by simp
      next
        case False
        then have "tick_reads J m d r k ch = tick_reads J m d r k c1" using r l a out by (simp add: unf rx)
        with IH(1) [OF out False c1] show ?thesis by simp
      qed
    next
      case True
      then have in_: "\<not> \<not> List.member (tk_active k) seat" by simp
      show ?thesis
      proof (cases msg)
        case (Ag_Act act)
        let ?k = "case ingest m seat act of Inl _ \<Rightarrow> heard seat k | Inr i \<Rightarrow> (heard seat k)\<lparr>tk_intents := bt_insert seat i (tk_intents k)\<rparr>"
        have "tk_active ?k = tk_active k" by (simp split: sum.split)
        moreover have "tick_reads J m d r k ch = tick_reads J m d (r - 1) ?k c1"
          using r l a True Ag_Act by (simp add: unf rx)
        ultimately show ?thesis using IH(2) [OF in_ Ag_Act c1] by simp
      next
        case (Ag_Leave why)
        have "tick_reads J m d r k ch = tick_reads J m d (r - 1) ((heard seat k)\<lparr>tk_active := filter (\<lambda>s. s \<noteq> seat) (tk_active k)\<rparr>) c1"
          using r l a True Ag_Leave by (simp add: unf rx)
        with IH(3) [OF in_ Ag_Leave c1] show ?thesis by auto
      qed (use nj in blast)
    qed
  qed
qed

lemma show_tick_returns:
  assumes "going X c r ss (pu_match p)" "set seats \<subseteq> set (map si_seat ss)"
  shows "\<exists>q. show_tick seats p = Some q"
proof -
  have "\<exists>out. observe_seats (pu_match p) seats = Some out"
    using assms(2)
  proof (induction seats)
    case (Cons s seats)
    then show ?case using going_observe [OF assms(1), of s] by auto
  qed simp
  then show ?thesis by (auto simp: show_tick_def split_beta)
qed

lemma going_forfeits:
  assumes "moderate c r ss pks" "going X c r ss m"
  shows "going X c r ss (queue_forfeits fs m)"
proof -
  have "\<exists>m'. foldM (apply_event X) (map Ev_Forfeit fs) m = Some m' \<and> going X c r ss m'"
    by (rule foldM_safe [where P = "going X c r ss", OF assms(2)]) (rule going_event [OF assms(1)])
  then show ?thesis by (simp add: forfeit_events)
qed

lemma pump_starting_returns:
  "moderate c r ss pks \<Longrightarrow> going X c r ss (pu_match p) \<Longrightarrow> n = length ss \<Longrightarrow>
   \<exists>q. pump_starting X n p = Some q \<and> going X c r ss (pu_match q)"
proof (induction X n p rule: pump_starting.induct)
  case (1 X n p)
  show ?case
  proof (cases "m_phase (pu_match p) = Starting")
    case True
    have "set [0..<n] \<subseteq> set (map si_seat ss)" using "1.prems"(1,3) by (auto simp: moderate_def)
    then obtain u where u: "show_tick [0..<n] p = Some u" using show_tick_returns [OF "1.prems"(2)] by blast
    then obtain m where m: "step X [] (pu_match u) = Some m" "going X c r ss m"
      using going_step [OF "1.prems"(1,2)] show_tick_match [OF u] by metis
    have "pump_starting X n p = pump_starting X n (u\<lparr>pu_match := m\<rparr>)"
      using "1.prems"(3) u m(1) True by (simp add: pump_starting.simps [of X "length ss" p])
    moreover have "going X c r ss (pu_match (u\<lparr>pu_match := m\<rparr>))" using m(2) by simp
    ultimately show ?thesis using "1.IH" [OF True _ m(1) "1.prems"(1)] u "1.prems"(3) by simp
  qed (use "1.prems" in \<open>simp add: pump_starting.simps [of X "length ss" p]\<close>)
qed

lemma enforced_loop_returns:
  "moderate c r ss pks \<Longrightarrow> going X c r ss (pu_match p) \<Longrightarrow> set active \<subseteq> set (map si_seat ss) \<Longrightarrow> readable J (lines_of ch) \<Longrightarrow>
   \<exists>q ch'. enforced_loop X J d active misses ch p = Some (q, ch') \<and> going X c r ss (pu_match q) \<and> m_phase (pu_match q) \<noteq> Live"
proof (induction X J d active misses ch p rule: enforced_loop.induct)
  case (1 X J d active misses ch p)
  show ?case
  proof (cases "m_phase (pu_match p) = Live")
    case False
    with "1.prems" show ?thesis by (simp add: enforced_loop.simps [of X J d active misses ch p])
  next
    case True
    obtain u where u: "show_tick active p = Some u" using show_tick_returns [OF "1.prems"(2,3)] by blast
    have um: "pu_match u = pu_match p" by (rule show_tick_match [OF u])
    obtain k c1 where k: "read_tick_deadlined J (pu_match u) active ch d misses = Some (k, c1)"
      "set (tk_active k) \<subseteq> set active" "readable J (lines_of c1)"
      using tick_reads_returns [OF "1.prems"(4), of "pu_match u" "ch_now ch + d" "length active"
          "\<lparr>tk_active = active, tk_answered = [], tk_misses = misses, tk_intents = []\<rparr>"]
      by (auto simp: read_tick_deadlined_def)
    let ?m = "queue_forfeits (filter (\<lambda>s. \<not> List.member (tk_active k) s) active) (pu_match u)"
    have "going X c r ss ?m" using going_forfeits [OF "1.prems"(1,2)] by (simp add: um)
    then obtain m' where m': "step X (tk_intents k) ?m = Some m'" "going X c r ss m'" using going_step [OF "1.prems"(1)] by blast
    have "set (tk_active k) \<subseteq> set (map si_seat ss)" using k(2) "1.prems"(3) by blast
    from "1.IH" [OF True u k(1) refl m'(1) "1.prems"(1) _ this k(3)] m'(2) u k(1) m'(1) True show ?thesis
      by (simp add: enforced_loop.simps [of X J d active misses ch p])
  qed
qed

lemma enforced_pump_returns:
  assumes "moderate c r ss pks" "hostable c r ss bs pks" "new_with_pickups i c r ss bs pks sd = Some m0"
    and "readable J (texts (map snd ls))"
  shows "\<exists>q result. drive_pump X J (length ss) (Some d) ls eof \<lparr>pu_match = m0, pu_cast = cast, pu_out = out\<rparr> = Some (q, result)"
proof -
  let ?p = "\<lparr>pu_match = m0, pu_cast = cast, pu_out = out\<rparr>"
  have "going X c r ss (pu_match ?p)" using fresh_match_going [OF assms(1-3)] by simp
  then obtain p1 where p1: "pump_starting X (length ss) ?p = Some p1" "going X c r ss (pu_match p1)"
    using pump_starting_returns [OF assms(1)] by blast
  have "set [0..<length ss] \<subseteq> set (map si_seat ss)" using assms(1) by (auto simp: moderate_def)
  moreover have "lines_of (channel_of ls eof) \<subseteq> texts (map snd ls)"
    using feed_stdin_texts by (simp add: lines_of_def channel_of_def)
  with assms(4) have "readable J (lines_of (channel_of ls eof))" unfolding readable_def by blast
  ultimately obtain p2 c2 where p2: "enforced_loop X J d [0..<length ss] [] (channel_of ls eof) p1 = Some (p2, c2)"
    "going X c r ss (pu_match p2)" "m_phase (pu_match p2) \<noteq> Live"
    using enforced_loop_returns [OF assms(1) p1(2)] by blast
  have "burn_countdown X (pu_match ?p) = Some (pu_match p1)" using pump_starting_run [OF p1(1)] by blast
  then have "pu_match p1 = live_start (pu_match ?p)" unfolding burn_countdown_live by (rule option.inject [THEN iffD1, symmetric])
  then have live: "m_phase (pu_match p1) \<noteq> Starting" "match_ok X (pu_match p1)"
    using p1(2) by (simp_all add: going_def live_start_def)
  obtain ms where "pumped X (sent_in J (lines_of (channel_of ls eof))) (pu_match p1) ms (pu_match p2)"
    using enforced_loop_run [OF p2(1) subset_refl] by blast
  from pumped_run [OF this live(2,1)] have "match_ok X (pu_match p2)" "m_phase (pu_match p2) = Ended" by auto
  then obtain result where "m_result (pu_match p2) = Some result" by (auto simp: match_ok_def)
  then obtain q where "finish (length ss) p2 = Some (q, result)" by (simp add: finish_def split_beta)
  moreover have "drive_pump X J (length ss) (Some d) ls eof ?p = finish (length ss) p2"
    using p1(1) p2(1) by (simp add: drive_pump_def pump_to_end_enforced_def pump_to_end_deadlined_def channel_of_def split_beta)
  ultimately show ?thesis by simp
qed

end
