(* ===== verification/Harness_Total.thy ===== *)
theory Harness_Total
  imports Harness_Props Gateway_Total
begin

section \<open>Runs that always end\<close>

text \<open>
  The command lines under which the gateway cannot be brought down by its own arithmetic, and what follows for
  the runs: self-play always ends and settles, and so does a direct run under an enforced deadline once its
  handshake is done. The scripted bot of self-play plays by the rules of the match.
\<close>

subsection \<open>The bot\<close>

definition octant_dot :: "int \<Rightarrow> int \<Rightarrow> nat \<Rightarrow> int" where
  "octant_dot dx dy k = dx * fst (BOT_OCTANTS ! k) + dy * snd (BOT_OCTANTS ! k)"

lemma bot_scan_best:
  assumes "bot_scan dx dy i os (b, d) = (j, e)" "os = drop i BOT_OCTANTS"
  shows "d \<le> e \<and> (\<forall>k. i \<le> k \<and> k < length BOT_OCTANTS \<longrightarrow> octant_dot dx dy k \<le> e)
    \<and> ((j, e) = (b, d) \<or> (i \<le> j \<and> j < length BOT_OCTANTS \<and> e = octant_dot dx dy j))"
  using assms
proof (induction os arbitrary: i b d)
  case Nil
  then show ?case by auto
next
  case (Cons o1 os)
  obtain ox oy where o: "o1 = (ox, oy)" by fastforce
  have i: "i < length BOT_OCTANTS" "BOT_OCTANTS ! i = (ox, oy)" "os = drop (i + 1) BOT_OCTANTS"
    using Cons.prems(2) o by (metis drop_eq_Nil leI list.distinct(1), metis Cons_nth_drop_Suc drop_eq_Nil leI list.distinct(1) list.inject,
      metis Cons_nth_drop_Suc Suc_eq_plus1 drop_eq_Nil leI list.distinct(1) list.inject)
  let ?dot = "octant_dot dx dy i"
  have dot: "dx * ox + dy * oy = ?dot" by (simp add: octant_dot_def i(2))
  let ?b = "if ?dot > d then (i, ?dot) else (b, d)"
  have "bot_scan dx dy (i + 1) os (fst ?b, snd ?b) = (j, e)" using Cons.prems(1) by (simp add: o dot Let_def)
  note h = Cons.IH [OF this i(3)]
  show ?case
  proof (intro conjI allI impI)
    show "d \<le> e" using h by (auto split: if_splits)
    fix k assume k: "i \<le> k \<and> k < length BOT_OCTANTS"
    show "octant_dot dx dy k \<le> e"
    proof (cases "k = i")
      case True
      with h show ?thesis by (auto split: if_splits)
    next
      case False
      with k h show ?thesis by simp
    qed
  next
    show "(j, e) = (b, d) \<or> i \<le> j \<and> j < length BOT_OCTANTS \<and> e = octant_dot dx dy j"
    proof (cases "?dot > d")
      case True
      with h i(1) show ?thesis by auto
    next
      case False
      with h show ?thesis by auto
    qed
  qed
qed

lemma bot_octant_best:
  "bot_octant_toward dx dy < 8 \<and> (\<forall>k<8. octant_dot dx dy k \<le> octant_dot dx dy (bot_octant_toward dx dy))"
proof -
  obtain j e where je: "bot_scan dx dy 0 BOT_OCTANTS (0, - (2 ^ 63)) = (j, e)" by fastforce
  have len: "length BOT_OCTANTS = 8" by (simp add: BOT_OCTANTS_def)
  note b = bot_scan_best [OF je, unfolded len]
  have "octant_dot dx dy 0 \<le> e" "octant_dot dx dy 4 \<le> e" using b by auto
  moreover have "octant_dot dx dy 4 = - octant_dot dx dy 0" by (simp add: octant_dot_def BOT_OCTANTS_def)
  ultimately have "0 \<le> e" by linarith
  then have "j < 8 \<and> e = octant_dot dx dy j" using b by auto
  with b je show ?thesis by (auto simp: bot_octant_toward_def)
qed

lemma bot_move_unclamped:
  assumes "k < 8"
  shows "clamp_move \<lparr>vx = (fst (BOT_OCTANTS ! k) * MOVE_INTENT_SCALE) sdiv BOT_OCTANT_SCALE,
    vy = (snd (BOT_OCTANTS ! k) * MOVE_INTENT_SCALE) sdiv BOT_OCTANT_SCALE\<rparr> =
    \<lparr>vx = (fst (BOT_OCTANTS ! k) * MOVE_INTENT_SCALE) sdiv BOT_OCTANT_SCALE,
     vy = (snd (BOT_OCTANTS ! k) * MOVE_INTENT_SCALE) sdiv BOT_OCTANT_SCALE\<rparr>"
proof (rule clamp_move_short)
  have "k \<in> set [0..<8]" using assms by simp
  then show "norm_sq \<lparr>vx = (fst (BOT_OCTANTS ! k) * MOVE_INTENT_SCALE) sdiv BOT_OCTANT_SCALE,
    vy = (snd (BOT_OCTANTS ! k) * MOVE_INTENT_SCALE) sdiv BOT_OCTANT_SCALE\<rparr> \<le> 1000000"
    by (auto simp: upt_rec norm_sq_def BOT_OCTANTS_def BOT_OCTANT_SCALE_def BOT_OCTANT_DIAG_def signed_divide_int_def)
qed

text \<open>
  What the bot sends is never refused: whenever it acts on an observation of a live match, the
  action gate accepts its action unchanged. It goes for the nearest visible entity not of its team, aims along the
  octant that points closest to it, and either stands and fires, when that entity is within the default weapon
  range, or walks along that octant and holds its fire.
\<close>

theorem bot_plays_nearest:
  assumes "observe m seat = Some obs" "bot_act obs = Some a" "m_phase m = Live"
  shows "ingest m seat a = Inr (act_intent a)
    \<and> (\<exists>e\<in>set (obs_visible obs). ve_team e \<noteq> own_team (obs_own obs)
        \<and> (\<forall>f\<in>set (obs_visible obs). ve_team f \<noteq> own_team (obs_own obs)
             \<longrightarrow> dist2 (own_position (obs_own obs)) (ve_position e) \<le> dist2 (own_position (obs_own obs)) (ve_position f))
        \<and> (\<exists>k<8. aim (act_intent a) = k * 8192
             \<and> (\<forall>j<8. octant_dot (vx (ve_position e) - vx (own_position (obs_own obs))) (vy (ve_position e) - vy (own_position (obs_own obs))) j
                   \<le> octant_dot (vx (ve_position e) - vx (own_position (obs_own obs))) (vy (ve_position e) - vy (own_position (obs_own obs))) k)
             \<and> (if dist2 (own_position (obs_own obs)) (ve_position e) \<le> (r_weapon_range default_rules)\<^sup>2
                then btn_fire (buttons (act_intent a)) \<and> move_dir (act_intent a) = vec2_zero
                else \<not> btn_fire (buttons (act_intent a))
                  \<and> move_dir (act_intent a) = \<lparr>vx = (fst (BOT_OCTANTS ! k) * MOVE_INTENT_SCALE) sdiv BOT_OCTANT_SCALE,
                       vy = (snd (BOT_OCTANTS ! k) * MOVE_INTENT_SCALE) sdiv BOT_OCTANT_SCALE\<rparr>)))"
proof -
  let ?me = "obs_own obs"
  obtain p where p: "find_pawn m seat = Some p" "?me = own_state p" "obs_match_id obs = m_match_id m" "obs_seat obs = seat"
    "obs_tick obs = m_tick m" "obs_protocol_version obs = PROTOCOL_VERSION"
    using assms(1) by (auto simp: observe_def panic_simps)
  obtain e where alive: "own_alive ?me"
    and e: "min_by_key (\<lambda>e. dist2 (own_position ?me) (ve_position e)) (filter (\<lambda>e. ve_team e \<noteq> own_team ?me) (obs_visible obs)) = Some e"
    using assms(2) by (auto simp: bot_act_def Let_def panic_simps split: if_splits)
  define dx where "dx = vx (ve_position e) - vx (own_position ?me)"
  define dy where "dy = vy (ve_position e) - vy (own_position ?me)"
  define k where "k = bot_octant_toward dx dy"
  define near where "near \<longleftrightarrow> dist2 (own_position ?me) (ve_position e) \<le> (r_weapon_range default_rules)\<^sup>2"
  let ?dir = "\<lparr>vx = (fst (BOT_OCTANTS ! k) * MOVE_INTENT_SCALE) sdiv BOT_OCTANT_SCALE, vy = (snd (BOT_OCTANTS ! k) * MOVE_INTENT_SCALE) sdiv BOT_OCTANT_SCALE\<rparr>"
  have k: "k < 8" "\<forall>j<8. octant_dot dx dy j \<le> octant_dot dx dy k" using bot_octant_best [of dx dy] by (simp_all add: k_def)
  have a: "a = \<lparr>act_protocol_version = PROTOCOL_VERSION, act_match_id = m_match_id m, act_seat = seat, act_tick = m_tick m,
      act_intent = \<lparr>move_dir = (if near then vec2_zero else ?dir), aim = k * 8192,
        buttons = \<lparr>btn_fire = near, btn_jump = False, btn_ability = False, btn_reload = False\<rparr>\<rparr>\<rparr>"
    using assms(2) alive e p k(1) by (auto simp: bot_act_def Let_def k_def dx_def dy_def near_def)
  have "clamp_move (move_dir (act_intent a)) = move_dir (act_intent a)"
    using bot_move_unclamped [OF k(1)] by (simp add: a clamp_move_short norm_sq_def vec2_zero_def)
  then have cl: "clamped (act_intent a) = act_intent a" by (simp add: clamped_def)
  have "p_alive p" using alive p(2) by (simp add: own_state_def)
  then have "pawn_alive m seat" using p(1) by (auto simp: find_pawn_def pawn_alive_def list_ex_iff find_Some_iff)
  then have "ingest m seat a = Inr (act_intent a)"
    using assms(3) cl by (simp add: ingest_def action_validate_def check_version_def a)
  moreover note min_by_key_Some [OF e]
  ultimately show ?thesis using k by (auto simp: a near_def dx_def dy_def intro!: bexI [of _ e] exI [of _ k])
qed

text \<open>
  Pickups carry team 0, so for a bot of any other team they are enemies: it stands still and fires at a pickup.
\<close>

lemma bot_shoots_at_pickups:
  assumes "own_alive (obs_own obs)" "own_team (obs_own obs) \<noteq> 0" "obs_visible obs = map visible_pickup ks" "ks \<noteq> []"
    and "\<forall>k\<in>set ks. dist2 (own_position (obs_own obs)) (pk_pos k) \<le> (r_weapon_range default_rules)\<^sup>2"
  shows "\<exists>a. bot_act obs = Some a \<and> btn_fire (buttons (act_intent a)) \<and> move_dir (act_intent a) = vec2_zero"
proof -
  let ?f = "\<lambda>e. dist2 (own_position (obs_own obs)) (ve_position e)"
  have all: "filter (\<lambda>e. ve_team e \<noteq> own_team (obs_own obs)) (obs_visible obs) = obs_visible obs"
    using assms(2,3) by (auto simp: visible_pickup_def filter_id_conv)
  obtain e where e: "min_by_key ?f (obs_visible obs) = Some e"
    using assms(3,4) by (cases "min_by_key ?f (obs_visible obs)") auto
  then have "?f e \<le> (r_weapon_range default_rules)\<^sup>2"
    using min_by_key_Some [OF e] assms(3,5) by (auto simp: visible_pickup_def)
  with assms(1) e all show ?thesis by (simp add: bot_act_def Let_def)
qed

subsection \<open>The outcome of a driven match\<close>

lemma run_match_outcome:
  assumes "new_with_pickups i c r ss bs pks sd = Some m0" "hostable c r ss bs pks" "max_ticks c \<le> MAX_REPLAY_TICKS"
    and "run_match X act m0 policies = Some m"
  obtains result where "recorded X m0 m" "m_phase m = Ended" "m_tick m \<le> max 1 (max_ticks c)" "to_record m = Some (record_of c r result m)"
    "verify X (record_of c r result m) = Some (Inr result)"
proof -
  note e = run_match_ends [OF assms]
  note rec = run_match_recorded [OF assms(1,2,4)]
  then have "match_ok X m" "m_config m = c" "m_rules m = r"
    using new_with_pickups_fresh [OF assms(1)] by (simp_all add: recorded_def same_setup_def)
  with e have "to_record m = Some (record_of c r (build_result X m) m)" by (auto simp: to_record_ended record_of_def)
  with that [of "build_result X m"] e rec show thesis by (auto simp: record_of_def)
qed

subsection \<open>Tame command lines\<close>

definition tame :: "args \<Rightarrow> bool" where
  "tame a \<longleftrightarrow> playable a \<and> 0 < ag_teams a \<and> ag_spawn_radius a + ag_spawn_jitter a \<le> 50 * POSITION_SCALE
     \<and> (max 1 (ag_max_ticks a) + 1) * (ag_seats a * (ag_start_health a + ag_max_shield a)) < 2 ^ 31"

lemma direct_roster_facts: "map si_seat (direct_roster a n) = [0..<n]" "length (direct_roster a n) = n"
  by (simp_all add: direct_roster_def comp_def)

lemma tame_moderate:
  assumes "tame a" "length pks \<le> MAX_REPLAY_PICKUPS" "map si_seat ss = [0..<ag_seats a]" "max_ticks c = ag_max_ticks a"
    and "bounds c = \<lparr>vx = 50 * POSITION_SCALE, vy = 50 * POSITION_SCALE\<rparr>"
  shows "moderate c (rules_from a) ss pks"
proof -
  have t: "args_ok a" "ag_seats a \<le> 64" "ag_max_ticks a \<le> 100000" "ag_spawn_radius a + ag_spawn_jitter a \<le> 50000"
    "(max 1 (ag_max_ticks a) + 1) * (ag_seats a * (ag_start_health a + ag_max_shield a)) < 2 ^ 31"
    using assms(1) by (simp_all add: tame_def playable_def MAX_REPLAY_SEATS_def MAX_REPLAY_TICKS_def POSITION_SCALE_def)
  have z: "0 \<le> ag_spawn_radius a" "0 \<le> ag_spawn_jitter a" "in_i32 (ag_pawn_radius a)" "in_i32 (ag_hit_radius a)"
    using t(1) by (simp_all add: args_ok_def)
  have len: "length ss = ag_seats a" using arg_cong [OF assms(3), of length] by simp
  have "max 1 (ag_max_ticks a) * ag_seats a \<le> 100000 * 64" using t(2,3) by (intro mult_mono) simp_all
  then have id: "PROJECTILE_ID_BASE + max 1 (ag_max_ticks a) * ag_seats a < 2 ^ 32" by (simp add: PROJECTILE_ID_BASE_def)
  have pk: "length pks < 2 ^ 31" using assms(2) by (simp add: MAX_REPLAY_PICKUPS_def)
  have refill: "refill (rules_from a) = ag_start_health a + ag_max_shield a" by (simp add: refill_def rules_from_def)
  show ?thesis
    unfolding moderate_def refill len assms(4)
    using t(3-5) z id pk assms(3,5)
    by (simp add: setup_fit_def spawn_ok_def rules_from_def POSITION_SCALE_def)
qed

lemma tame_direct:
  assumes "tame a" "n = ag_seats a" "length pks \<le> MAX_REPLAY_PICKUPS"
  shows "moderate (direct_config a n) (rules_from a) (direct_roster a n) pks"
  by (rule tame_moderate [OF assms(1,3)]) (simp_all add: direct_roster_facts assms(2) direct_config_def)

lemma tame_limits:
  assumes "tame a" "n = ag_seats a"
  shows "max_ticks (direct_config a n) \<le> MAX_REPLAY_TICKS" "2 \<le> length (direct_roster a n)"
  using assms by (simp_all add: tame_def playable_def direct_config_def direct_roster_facts)

lemma self_play_returns:
  assumes "tame a" "direct_map W a = Some (Inr g)" "n = ag_seats a" "bt_inv s"
  shows "\<exists>r. run_self_play W a n (Some s) = Some (Returned r)
    \<and> played_and_settled (crates.truncate (ou_mesh W)) a s [] r
    \<and> m_match_id (rp_match r) = ag_match_id a \<and> m_tick (rp_match r) \<le> max 1 (ag_max_ticks a)"
proof -
  let ?X = "crates.truncate (ou_mesh W)" and ?c = "direct_config a n" and ?r = "rules_from a" and ?ss = "direct_roster a n"
  have "map_override W a = Inr (Some g) \<or> arena_map (ou_maps W) (ag_arena a) = Some g"
    using assms(2) by (auto simp: direct_map_def split: sum.splits option.splits)
  then have "moderate ?c ?r ?ss (am_pickups g)" using tame_direct [OF assms(1,3)] geometry_fits by blast
  from moderate_start [OF this] obtain m where "new_with_pickups (ag_match_id a) ?c ?r ?ss (am_blockers g) (am_pickups g) (ag_seed a) = Some m"
    by blast
  then have b: "build_direct_match W a n = Some (Inr m)" using assms(1,2) by (simp add: build_direct_match_def tame_def)
  have p: "playable a" using assms(1) by (simp add: tame_def)
  obtain h :: arena_geometry where m: "new_with_pickups (ag_match_id a) ?c ?r ?ss (am_blockers h) (am_pickups h) (ag_seed a) = Some m"
    "hostable ?c ?r ?ss (am_blockers h) (am_pickups h)" by (rule direct_match_fresh [OF b p assms(3)])
  then have mo: "moderate ?c ?r ?ss (am_pickups h)" using tame_direct [OF assms(1,3)] by (simp add: hostable_def)
  note lim = tame_limits [OF assms(1,3)]
  have "length (self_play_policies n) = length ?ss" by (simp add: self_play_policies_def direct_roster_facts)
  from moderate_run_returns [OF mo m(2,1) this] obtain f where f: "run_match ?X (\<lambda>p obs. (bot_act obs, p)) m (self_play_policies n) = Some f"
    by blast
  from run_match_outcome [OF m lim(1) f] obtain result where o: "recorded ?X m f" "m_phase f = Ended" "m_tick f \<le> max 1 (max_ticks ?c)"
    "to_record f = Some (record_of ?c ?r result f)" "verify ?X (record_of ?c ?r result f) = Some (Inr result)" by blast
  note e = ended_settles [OF m lim(2) assms(4) o(1,2,4,5)]
  obtain s' where s': "settle_finished ?X (Some s) result f [] = Some s'"
    "\<And>r. rp_match r = f \<Longrightarrow> rp_result r = result \<Longrightarrow> rp_settler r = s' \<Longrightarrow> rp_record r = emit_replay_record (ag_emit_replay a) f
       \<Longrightarrow> played_and_settled ?X a s [] r"
    using e(5) [of "[]" a] by blast
  have "run_self_play W a n (Some s) = Some (Returned \<lparr>rp_out = [], rp_match = f, rp_result = result, rp_settler = s',
      rp_record = emit_replay_record (ag_emit_replay a) f, rp_moved = None, rp_ladder = None\<rparr>)"
    using b f e(2) s'(1) by (simp add: run_self_play_def Let_def)
  with s'(2) e(4) o(3) show ?thesis by (simp add: direct_config_def)
qed

text \<open>
  Property C13. Self-play cannot fail. A command line that asks for self-play and a settlement, is tame and names a map that
  loads makes the process play its match to the end within the tick cap: the record it leaves verifies with the
  reported result and is the one written to the file asked for, and the settler holds the resolution due.
\<close>

theorem self_play_settles:
  assumes "parse_args_from (ou_parse_uuid W) argv = Some a" "ag_self_play a" "ag_settle_dev_mock a" "ag_mode a = None" "ag_replay a = None"
    and "tame a" "\<not> teams_partition_is_invalid a" "direct_map W a = Some (Inr g)"
  shows "\<exists>r. gateway_main W argv mids ls eof = Some (Returned (Match_Run r))
    \<and> played_and_settled (crates.truncate (ou_mesh W)) a [] [] r
    \<and> m_match_id (rp_match r) = ag_match_id a \<and> m_tick (rp_match r) \<le> max 1 (ag_max_ticks a)"
proof -
  have "2 \<le> ag_seats a" using assms(6) by (simp add: tame_def playable_def)
  then have fine: "\<not> self_play_conflicts_with_mode a" "\<not> self_play_roster_too_small a"
    using assms(4) by (simp_all add: self_play_conflicts_with_mode_def self_play_roster_too_small_def)
  obtain cast where "(if ag_spectate a then map_option Some cast_new else Some None) = Some cast"
    using cast_new_fine by (cases "ag_spectate a") auto
  moreover from self_play_returns [OF assms(6,8) refl, of "[]"] obtain r where
    "run_self_play W a (ag_seats a) (Some []) = Some (Returned r)" "played_and_settled (crates.truncate (ou_mesh W)) a [] [] r"
    "m_match_id (rp_match r) = ag_match_id a" "m_tick (rp_match r) \<le> max 1 (ag_max_ticks a)" by (auto simp: bt_inv_def)
  ultimately show ?thesis using assms(1-5,7) fine by (auto simp: gateway_main_def process_map_def)
qed

subsection \<open>Runs under a deadline\<close>

definition enforces :: "args \<Rightarrow> bool" where
  "enforces a \<longleftrightarrow> ag_enforce_deadline a \<and> 0 < ag_action_deadline_micros a"

lemma enforced_match_settles:
  fixes W a s cast
  defines "X \<equiv> crates.truncate (ou_mesh W)"
  assumes "tame a" "enforces a" "bt_inv s" "readable (ou_json W) (texts (map snd ls))" "moderate c (rules_from a) ss pks"
    and "hostable c (rules_from a) ss bs pks" "new_with_pickups i c (rules_from a) ss bs pks sd = Some m" "max_ticks c = ag_max_ticks a"
    and "map si_seat ss = [0..<ag_seats a]"
  shows "\<exists>q result s'. drive_pump X (ou_json W) (ag_seats a) (enforced_deadline a m) ls eof \<lparr>pu_match = m, pu_cast = cast, pu_out = out\<rparr> = Some (q, result)
    \<and> settle_finished X (Some s) result (pu_match q) recovered = Some s'
    \<and> (\<forall>r. rp_match r = pu_match q \<and> rp_result r = result \<and> rp_settler r = s' \<and> rp_record r = emit_replay_record (ag_emit_replay a) (pu_match q)
            \<longrightarrow> played_and_settled X a s recovered r)"
proof -
  have len: "length ss = ag_seats a" using arg_cong [OF assms(10), of length] by simp
  have "m_rules m = rules_from a" using new_with_pickups_fresh [OF assms(8)] by simp
  then have d: "enforced_deadline a m = Some (ag_action_deadline_micros a)"
    using assms(3) by (simp add: enforced_deadline_def enforces_def rules_from_def Let_def)
  obtain q result where p: "drive_pump X (ou_json W) (ag_seats a) (Some (ag_action_deadline_micros a)) ls eof \<lparr>pu_match = m, pu_cast = cast, pu_out = out\<rparr> = Some (q, result)"
    using enforced_pump_returns [OF assms(6-8,5)] unfolding len by blast
  have "max_ticks c \<le> MAX_REPLAY_TICKS" "2 \<le> length ss" using assms(2,9) len by (simp_all add: tame_def playable_def)
  note o = driven [OF assms(8,7) this(1) p] and two = this(2)
  from ended_settles(5) [OF assms(8,7) two assms(4) o(1,2,4,5), of recovered a] p show ?thesis unfolding d by blast
qed

lemma direct_run_returns:
  assumes "tame a" "enforces a" "bt_inv s" "n = ag_seats a" "build_direct_match W a n = Some (Inr m)"
    and "direct_joins (ou_mesh W) (ou_json W) (Some s) m n [] ls (challenges (ou_mesh W) (m_match_id m) n) = Some (Returned (recovered, rest, out))"
    and "readable (ou_json W) (texts (map snd rest))"
  shows "\<exists>r. run_direct W a n (Some s) cast ls eof = Some (Returned r)
    \<and> played_and_settled (crates.truncate (ou_mesh W)) a s recovered r"
proof -
  let ?X = "crates.truncate (ou_mesh W)" and ?c = "direct_config a n" and ?r = "rules_from a" and ?ss = "direct_roster a n"
  have p: "playable a" using assms(1) by (simp add: tame_def)
  obtain g :: arena_geometry where m: "new_with_pickups (ag_match_id a) ?c ?r ?ss (am_blockers g) (am_pickups g) (ag_seed a) = Some m"
    "hostable ?c ?r ?ss (am_blockers g) (am_pickups g)" by (rule direct_match_fresh [OF assms(5) p assms(4)])
  then have mo: "moderate ?c ?r ?ss (am_pickups g)" using tame_direct [OF assms(1,4)] by (simp add: hostable_def)
  have "max_ticks ?c = ag_max_ticks a" "map si_seat ?ss = [0..<ag_seats a]" by (simp_all add: direct_config_def direct_roster_facts assms(4))
  from enforced_match_settles [OF assms(1-3,7) mo m(2,1) this] obtain q result s' where
    d: "drive_pump ?X (ou_json W) n (enforced_deadline a m) rest eof \<lparr>pu_match = m, pu_cast = cast, pu_out = out\<rparr> = Some (q, result)"
      "settle_finished ?X (Some s) result (pu_match q) recovered = Some s'"
      "\<And>r. rp_match r = pu_match q \<Longrightarrow> rp_result r = result \<Longrightarrow> rp_settler r = s' \<Longrightarrow> rp_record r = emit_replay_record (ag_emit_replay a) (pu_match q)
            \<Longrightarrow> played_and_settled ?X a s recovered r"
    unfolding assms(4) by blast
  have "run_direct W a n (Some s) cast ls eof = Some (Returned \<lparr>rp_out = pu_out q, rp_match = pu_match q, rp_result = result, rp_settler = s',
      rp_record = emit_replay_record (ag_emit_replay a) (pu_match q), rp_moved = None, rp_ladder = None\<rparr>)"
    using assms(5,6) d(1,2) by (simp add: run_direct_def Let_def)
  with d(3) show ?thesis by simp
qed

lemma matchmade_run_returns:
  assumes "tame a" "enforces a" "bt_inv s" "n = ag_seats a"
    and "handshake_matchmade W a mode n (Some s) mids ls = Some (Returned ((mk, st), m, rest, out))"
    and "readable (ou_json W) (texts (map snd rest))"
  shows "\<exists>r. run_matchmade W a mode n (Some s) cast mids ls eof = Some (Returned r)
    \<and> played_and_settled (crates.truncate (ou_mesh W)) a s [] r"
proof -
  let ?X = "crates.truncate (ou_mesh W)"
  have p: "playable a" using assms(1) by (simp add: tame_def)
  obtain g c ss sd where m: "new_with_pickups (m_match_id m) c (rules_from a) ss (am_blockers g) (am_pickups (g :: arena_geometry)) sd = Some m"
    "hostable c (rules_from a) ss (am_blockers g) (am_pickups g)" "map si_seat ss = [0..<n]" "max_ticks c = ag_max_ticks a"
    "bounds c = \<lparr>vx = 50 * POSITION_SCALE, vy = 50 * POSITION_SCALE\<rparr>"
    by (rule matchmade_fresh [OF assms(5) p assms(4)])
  have mo: "moderate c (rules_from a) ss (am_pickups g)"
    by (rule tame_moderate [OF assms(1)]) (use m(2-5) assms(4) in \<open>simp_all add: hostable_def\<close>)
  from enforced_match_settles [OF assms(1-3,6) mo m(2,1,4) m(3) [unfolded assms(4)]] obtain q result s' where
    d: "drive_pump ?X (ou_json W) n (enforced_deadline a m) rest eof \<lparr>pu_match = m, pu_cast = cast, pu_out = out\<rparr> = Some (q, result)"
      "settle_finished ?X (Some s) result (pu_match q) [] = Some s'"
      "\<And>r. rp_match r = pu_match q \<Longrightarrow> rp_result r = result \<Longrightarrow> rp_settler r = s' \<Longrightarrow> rp_record r = emit_replay_record (ag_emit_replay a) (pu_match q)
            \<Longrightarrow> played_and_settled ?X a s [] r"
    unfolding assms(4) by blast
  obtain st1 moved where l: "settle_ranked_ladder result (m_seats (pu_match q)) st = (st1, moved)" by fastforce
  have "run_matchmade W a mode n (Some s) cast mids ls eof = Some (Returned \<lparr>rp_out = pu_out q, rp_match = pu_match q, rp_result = result,
      rp_settler = s', rp_record = emit_replay_record (ag_emit_replay a) (pu_match q), rp_moved = moved,
      rp_ladder = map_option (\<lambda>path. (path, ladder_of st1)) (ag_ladder_file a)\<rparr>)"
    using assms(5) d(1,2) l by (simp add: run_matchmade_def Let_def)
  with d(3) show ?thesis by simp
qed

text \<open>
  Property C12. Under an enforced deadline nobody can hold a tame run up. A command line is tame when it asks for 2 to 64 seats, a
  tick cap and a countdown the verifier accepts, health and shields whose refills over the match fit a 32-bit score, and spawns
  inside the arena. Once its handshake is through, direct or matchmade in any mode, and as long as every further
  line that arrives is an action or a departure, the run returns, whatever the agents do or omit. It has left a
  verifying record and settled its match: direct, in the names proved in the handshake, under the digest of
  the record with these names, which is not the emitted record's; matchmade, in those of the roster, under the record's own digest.
\<close>

theorem enforced_runs_settle:
  assumes "tame a" "enforces a" "bt_inv s" "n = ag_seats a" "readable (ou_json W) (texts (map snd rest))"
  shows "(build_direct_match W a n = Some (Inr m)
      \<and> direct_joins (ou_mesh W) (ou_json W) (Some s) m n [] ls (challenges (ou_mesh W) (m_match_id m) n) = Some (Returned (recovered, rest, out))
      \<longrightarrow> (\<exists>r. run_direct W a n (Some s) cast ls eof = Some (Returned r) \<and> played_and_settled (crates.truncate (ou_mesh W)) a s recovered r))
    \<and> (handshake_matchmade W a mode n (Some s) mids ls = Some (Returned (mm, m, rest, out))
      \<longrightarrow> (\<exists>r. run_matchmade W a mode n (Some s) cast mids ls eof = Some (Returned r) \<and> played_and_settled (crates.truncate (ou_mesh W)) a s [] r))"
  using direct_run_returns [OF assms(1-4) _ _ assms(5)] matchmade_run_returns [OF assms(1-4) _ assms(5)] by (cases mm) blast

end
