(* ===== verification/Harness_Duel.thy ===== *)
theory Harness_Duel
  imports Harness_Total Gateway_Duel
begin

section \<open>Whole runs of a small duel\<close>

text \<open>
  Two seats, one tick, deadlines enforced, and nobody says anything once seated: the runs below come down to one
  timeout per seat and one idle tick.
\<close>

definition duel_args :: args where
  "duel_args = default_args\<lparr>ag_match_id := replicate 16 5, ag_spawn_jitter := 0, ag_max_ticks := 1, ag_enforce_deadline := True,
     ag_settle_dev_mock := True\<rparr>"

lemma duel_args_rules: "rules_from duel_args = duel_rules"
  by (simp add: rules_from_def duel_args_def default_args_def duel_rules_def default_rules_def full_circle_fov_def)

lemma duel_args_playable: "playable duel_args"
  by (simp add: playable_def args_ok_def duel_args_def default_args_def default_rules_defs MAX_REPLAY_SEATS_def MAX_REPLAY_TICKS_def
      MAX_REPLAY_STARTING_TICKS_def in_i32_def)

definition duel_of :: "uuid \<Rightarrow> match_config \<Rightarrow> string \<Rightarrow> string \<Rightarrow> u64 \<Rightarrow> arena_match" where
  "duel_of i c a b sd = duel_start\<lparr>m_match_id := i, m_config := c,
     m_seats := [\<lparr>si_seat = 0, si_team = 0, si_controller = a\<rparr>, \<lparr>si_seat = 1, si_team = 1, si_controller = b\<rparr>], m_seed := sd\<rparr>"

lemma duel_of_fresh:
  "new_with_pickups i c duel_rules [\<lparr>si_seat = 0, si_team = 0, si_controller = a\<rparr>, \<lparr>si_seat = 1, si_team = 1, si_controller = b\<rparr>] [] [] sd
    = Some (duel_of i c a b sd)"
  by (simp add: new_with_pickups_def spawn_pawn_def duel_rules_def default_rules_defs
      range_i32_zero ck_i32_def in_i32_def spawn_column_def sdiv_nonneg as_i32_def duel_of_def duel_start_def duel_pawn_def
      vec2_zero_def WEST_def EAST_def PROJECTILE_ID_BASE_def)

lemma duel_of_simps:
  "facing_off (duel_of i c a b sd)" "m_config (duel_of i c a b sd) = c" "m_phase (duel_of i c a b sd) = Live"
  "m_rules (duel_of i c a b sd) = duel_rules"
  by (simp_all add: facing_off_def duel_of_def duel_start_def duel_rules_def default_rules_defs)

text \<open>
  Toy libraries: a string is its bytes, a digest the first 32 bytes, and a signature names the key that made it. Seat 0
  proves a key, seat 1 nothing.
\<close>

definition duel_mesh :: mesh_crates where
  "duel_mesh = \<lparr>keccak256 = (\<lambda>bs. take 32 (bs @ replicate 32 0)), hex_encode = map char_of, hex_decode = (\<lambda>s. Some (map of_char s)),
     sig_from_slice = Some, sig_is_high_s = (\<lambda>_. False), recid_from_byte = (\<lambda>b. if b < 4 then Some b else None),
     recover_key = (\<lambda>_ sig _. Some (4 # sig))\<rparr>"

definition key_address :: "char \<Rightarrow> string" where
  "key_address k = ''0x'' @ replicate 20 k"

definition key_signature :: "char \<Rightarrow> string" where
  "key_signature k = replicate 64 k @ [char_of (0 :: nat)]"

lemma key_verifies: "k \<noteq> CHR ''0'' \<Longrightarrow> verify_join_signature duel_mesh v (key_address k) nonce (key_signature k) = Inr ()"
proof -
  assume k: "k \<noteq> CHR ''0''"
  have "replicate 64 k = k # replicate 63 k" using replicate_Suc [of 63 k] by simp
  then have "strip_prefix ''0x'' (key_signature k) = None" using k by (simp add: key_signature_def)
  moreover have "address_from_verifying_key duel_mesh (4 # replicate 64 (of_char k)) = key_address k"
    by (simp add: address_from_verifying_key_def duel_mesh_def key_address_def)
  ultimately show ?thesis
    by (simp add: verify_join_signature_def) (simp add: duel_mesh_def key_signature_def nth_append eq_ignore_ascii_case_def)
qed

abbreviation A_key :: string where "A_key \<equiv> key_address (CHR ''a'')"
abbreviation B_key :: string where "B_key \<equiv> key_address (CHR ''b'')"

lemma key_signed: "key_signature k \<noteq> []" by (simp add: key_signature_def)

definition duel_json :: gateway_json where
  "duel_json = \<lparr>parse_envelope = (\<lambda>l. if l = ''a'' then Some (0, Ag_Join PROTOCOL_VERSION (key_address (CHR ''a'')) (key_signature (CHR ''a'')))
     else if l = ''b'' then Some (1, Ag_Join PROTOCOL_VERSION (key_address (CHR ''b'')) (key_signature (CHR ''b'')))
     else if l = ''guest'' then Some (1, Ag_Join PROTOCOL_VERSION ''guest'' []) else None)\<rparr>"

definition duel_world :: outside where
  "duel_world = \<lparr>ou_mesh = duel_mesh, ou_json = duel_json, ou_maps = \<lparr>parse_map = (\<lambda>_. Inl []), reference_json = []\<rparr>,
     ou_parse_uuid = (\<lambda>_. None), ou_parse_ladder = (\<lambda>_. None), ou_parse_record = (\<lambda>_. None), ou_read = (\<lambda>_. Missing)\<rparr>"

lemma duel_reads:
  "read_agent duel_json ''a'' = Some (0, Ag_Join PROTOCOL_VERSION (key_address (CHR ''a'')) (key_signature (CHR ''a'')))"
  "read_agent duel_json ''b'' = Some (1, Ag_Join PROTOCOL_VERSION (key_address (CHR ''b'')) (key_signature (CHR ''b'')))"
  "read_agent duel_json ''guest'' = Some (1, Ag_Join PROTOCOL_VERSION ''guest'' [])"
  "next_read [(0, Inr ''a''), (0, Inr ''guest'')] = Some (''a'', [(0, Inr ''guest'')])"
  "next_read [(0, Inr ''a''), (0, Inr ''b'')] = Some (''a'', [(0, Inr ''b'')])"
  "next_read [(0, Inr ''guest'')] = Some (''guest'', [])" "next_read [(0, Inr ''b'')] = Some (''b'', [])"
  by (simp_all add: read_agent_def duel_json_def next_read_def trim_def is_space_def)

lemma duel_direct: "build_direct_match duel_world duel_args 2
    = Some (Inr (duel_of (replicate 16 5) (direct_config duel_args 2) ''agent-0'' ''agent-1'' 0))"
proof -
  have "direct_roster duel_args 2 = [\<lparr>si_seat = 0, si_team = 0, si_controller = ''agent-0''\<rparr>, \<lparr>si_seat = 1, si_team = 1, si_controller = ''agent-1''\<rparr>]"
    by (simp add: direct_roster_def duel_args_def default_args_def upt_rec decimal.simps char_of_def bit_iff_odd)
  moreover have "direct_map duel_world duel_args = Some (Inr empty_map)"
    by (simp add: direct_map_def map_override_def duel_args_def default_args_def arena_map_def NAMED_ARENAS_def)
  moreover have "ag_teams duel_args = 1" "ag_match_id duel_args = replicate 16 5" "ag_seed duel_args = 0"
    by (simp_all add: duel_args_def default_args_def)
  ultimately show ?thesis
    using duel_of_fresh by (simp add: build_direct_match_def duel_args_rules empty_map_def)
qed

lemma duel_joins: "\<exists>out'. direct_joins duel_mesh duel_json s m 2 [] [(0, Inr ''a''), (0, Inr ''guest'')] out
    = Some (Returned ([(0, key_address (CHR ''a''))], [], out'))"
  by (simp add: numeral_2_eq_2 duel_reads version_agrees admit_join_def key_verifies key_signed)

lemma duel_args_tame: "tame duel_args" "enforces duel_args" "2 = ag_seats duel_args"
  using duel_args_playable
  by (simp_all add: tame_def enforces_def duel_args_def default_args_def default_rules_defs POSITION_SCALE_def)

lemma nothing_to_read: "readable J (texts (map snd []))" by (simp add: readable_def texts_def)

lemma no_resolution: "bt_inv []" by (simp add: bt_inv_def)

lemma duel_direct_run:
  "\<exists>r. run_direct duel_world duel_args 2 (Some []) None [(0, Inr ''a''), (0, Inr ''guest'')] None = Some (Returned r)"
proof -
  let ?m = "duel_of (replicate 16 5) (direct_config duel_args 2) ''agent-0'' ''agent-1'' 0"
  have w: "ou_mesh duel_world = duel_mesh" "ou_json duel_world = duel_json" by (simp_all add: duel_world_def)
  obtain out where j: "direct_joins duel_mesh duel_json (Some []) ?m 2 [] [(0, Inr ''a''), (0, Inr ''guest'')]
      (challenges duel_mesh (m_match_id ?m) 2) = Some (Returned ([(0, A_key)], [], out))" using duel_joins by blast
  from direct_run_returns [OF duel_args_tame(1,2) no_resolution duel_args_tame(3) duel_direct, unfolded w, OF j nothing_to_read]
  show ?thesis by blast
qed

theorem direct_run_pays_who_proved_witness:
  "\<exists>r. run_direct duel_world duel_args 2 (Some []) None [(0, Inr ''a''), (0, Inr ''guest'')] None = Some (Returned r)
     \<and> played_and_settled (crates.truncate duel_mesh) duel_args [] [(0, A_key)] r \<and> m_seats (rp_match r) = direct_roster duel_args 2"
proof -
  obtain r where r: "run_direct duel_world duel_args 2 (Some []) None [(0, Inr ''a''), (0, Inr ''guest'')] None = Some (Returned r)"
    using duel_direct_run by blast
  have n: "2 = ag_seats duel_args" by (simp add: duel_args_def default_args_def)
  have w: "ou_mesh duel_world = duel_mesh" "ou_json duel_world = duel_json" by (simp_all add: duel_world_def)
  have p: "proved_seats duel_json (first_reads 2 [(0, Inr ''a''), (0, Inr ''guest'')]) = [(0, A_key)]"
    by (simp add: numeral_2_eq_2 duel_reads proved_seats_def List.map_filter_def key_signed)
  from direct_run_pays_who_proved [OF r duel_args_playable n no_resolution, unfolded w p] r show ?thesis by blast
qed

subsection \<open>A ranked match\<close>

lemma two_keys: "A_key \<noteq> B_key"
proof
  assume "A_key = B_key"
  then have "hd (drop 2 A_key) = hd (drop 2 B_key)" by (rule arg_cong)
  then show False by (simp add: key_address_def)
qed

definition duel_params :: match_params where
  "duel_params = default_params\<lparr>mp_max_ticks := 1, mp_rules := duel_rules\<rparr>"

definition proven_maker :: maker where
  "proven_maker = \<lparr>mk_verifier = signature_verifier duel_mesh, mk_params = duel_params, mk_ranked_registry = None, mk_reputation_floor = - (2 ^ 127)\<rparr>"

lemma duel_matchmaker: "build_matchmaker duel_world duel_args 2 = Some (Returned (proven_maker, mm_empty))"
proof -
  have p: "(matchmaker_params 2 (ag_max_ticks duel_args) (ag_arena duel_args))\<lparr>mp_rules := rules_from duel_args, mp_map := None, mp_team_size := ag_teams duel_args\<rparr>
      = duel_params"
    unfolding duel_args_rules by (simp add: matchmaker_params_def duel_params_def default_params_def duel_args_def default_args_def)
  have "map_override duel_world duel_args = Inr None" "ag_ladder_file duel_args = None" "ag_registered duel_args = []" "ag_min_reputation duel_args = None"
    "ag_dev_auth duel_args = False"
    by (simp_all add: map_override_def duel_args_def default_args_def)
  moreover have "params_ok duel_params" by (simp add: params_ok_def duel_params_def default_params_def)
  ultimately show ?thesis
    by (simp add: build_matchmaker_def Let_def p matchmaker_new_def with_ranked_reputation_floor_def with_ranked_registry_def
        ranked_reputation_floor_from_def ranked_registry_from_def harness_verifier_def proven_maker_def) (simp add: duel_world_def)
qed

lemma proven_admits: "k \<noteq> CHR ''0'' \<Longrightarrow> admit proven_maker Mode_Agent n (ranked_agent (key_address k) (key_signature k)) = Inr ()"
  by (simp add: admit_def ranked_agent_def presented_token_def proven_maker_def signature_verifier_def key_verifies key_signed)

lemma ranked_fields: "jq_agent_id (ranked_agent a s) = a" "jq_kind (ranked_agent a s) = Ctl_Agent" by (simp_all add: ranked_agent_def)

lemma ranked_sections:
  "join_section proven_maker Mode_Agent (rated A_key) mm_empty =
    (mm_empty\<lparr>mm_queues := \<lparr>q_human = [], q_agent = [rated A_key], q_mixed = []\<rparr>, mm_ratings := [(A_key, 1500)]\<rparr>, None)"
  "join_section proven_maker Mode_Agent (rated B_key)
    (mm_empty\<lparr>mm_queues := \<lparr>q_human = [], q_agent = [rated A_key], q_mixed = []\<rparr>, mm_ratings := [(A_key, 1500)]\<rparr>) =
    (mm_empty\<lparr>mm_ratings := bt_insert B_key 1500 [(A_key, 1500)]\<rparr>, Some [rated A_key, rated B_key])"
  using two_keys
  by (simp_all add: join_section_def mm_empty_def proven_maker_def duel_params_def default_params_def try_form_def queue_for_def set_queue_def
      bt_get_def DEFAULT_RATING_def select_ranked_def rating_or_default_def upt_rec Let_def)

definition ranked_config :: match_config where
  "ranked_config = \<lparr>tick_hz = 30, max_ticks = 1, bounds = \<lparr>vx = 50 * POSITION_SCALE, vy = 50 * POSITION_SCALE\<rparr>, cfg_seats = 2\<rparr>"

lemma ranked_build:
  "\<exists>st. build (ou_maps duel_world) proven_maker i Mode_Agent [rated A_key, rated B_key] (\<lambda>st. st) st0
    = Some (st, duel_of i ranked_config A_key B_key (seed_for_match i))"
proof -
  have seats: "roster_seats i (mk_params proven_maker) [rated A_key, rated B_key]
      = [\<lparr>si_seat = 0, si_team = 0, si_controller = A_key\<rparr>, \<lparr>si_seat = 1, si_team = 1, si_controller = B_key\<rparr>]"
    by (simp add: roster_seats_def assign_teams_def proven_maker_def duel_params_def default_params_def)
  have "build_match (ou_maps duel_world) (mk_params proven_maker) i (roster_seats i (mk_params proven_maker) [rated A_key, rated B_key])
      = Some (duel_of i ranked_config A_key B_key (seed_for_match i))"
    unfolding seats using duel_of_fresh [of i ranked_config A_key B_key "seed_for_match i"]
    by (simp add: build_match_def proven_maker_def duel_params_def default_params_def arena_map_def NAMED_ARENAS_def empty_map_def ranked_config_def numeral_2_eq_2)
  then show ?thesis by (simp add: build_def composition_ok_kinds all_kind_def Let_def)
qed

lemma ranked_handshake:
  "\<exists>st out. handshake_matchmade duel_world duel_args Mode_Agent 2 s (\<lambda>_. i) [(0, Inr ''a''), (0, Inr ''b'')]
    = Some (Returned ((proven_maker, st), duel_of i ranked_config A_key B_key (seed_for_match i), [], out))"
proof -
  let ?nonce = "\<lambda>seat. str_bytes (nonce_for (ou_mesh duel_world) (ag_match_id duel_args) seat)"
  let ?joins = "[(0, A_key, key_signature (CHR ''a'')), (1, B_key, key_signature (CHR ''b''))] :: (seat_id, string \<times> string) btree"
  have reads: "collect_joins (ou_json duel_world) 2 [(0, Inr ''a''), (0, Inr ''b'')] [] = Some (Inr (?joins, []))"
    by (simp add: numeral_2_eq_2 duel_world_def duel_reads version_agrees)
  obtain st where st: "build (ou_maps duel_world) proven_maker i Mode_Agent [rated A_key, rated B_key] (\<lambda>st. st)
      (mm_empty\<lparr>mm_ratings := bt_insert B_key 1500 [(A_key, 1500)]\<rparr>) = Some (st, duel_of i ranked_config A_key B_key (seed_for_match i))"
    using ranked_build by blast
  have req: "join_request_for Mode_Agent seat hs a (key_signature k) = ranked_agent a (key_signature k)" for seat hs a k
    by (simp add: join_request_for_def key_signed)
  have routed: "route_joins duel_world proven_maker (\<lambda>_. i) duel_args Mode_Agent ?joins [0, 1] mm_empty None
      = Some (Inr (st, Some (duel_of i ranked_config A_key B_key (seed_for_match i))))"
    using st by (simp add: bt_get_def req join_def proven_admits ranked_fields ranked_sections)
  have n: "[0..<2] = [0, 1 :: nat]" by (simp add: upt_rec)
  show ?thesis
    by (simp add: handshake_matchmade_def duel_matchmaker reads n routed [unfolded One_nat_def] Let_def del: route_joins.simps)
qed

lemma duel_ranked_run:
  "\<exists>r. run_matchmade duel_world duel_args Mode_Agent 2 (Some []) None (\<lambda>_. i) [(0, Inr ''a''), (0, Inr ''b'')] None = Some (Returned r)"
  using matchmade_run_returns [OF duel_args_tame(1,2) no_resolution duel_args_tame(3)] ranked_handshake nothing_to_read by metis

theorem ranked_run_settles_witness:
  "\<exists>r deltas after. run_matchmade duel_world duel_args Mode_Agent 2 (Some []) None (\<lambda>_. replicate 16 7) [(0, Inr ''a''), (0, Inr ''b'')] None
        = Some (Returned r)
     \<and> played_and_settled (crates.truncate duel_mesh) duel_args [] [] r \<and> length deltas = 2 \<and> sum_list deltas = 0
     \<and> moved_ladder [] (map si_controller (m_seats (rp_match r))) deltas after
     \<and> rp_moved r = Some (zip [0..<2] (zip (map (rating_or_default after) (map si_controller (m_seats (rp_match r)))) deltas))"
proof -
  obtain r where r: "run_matchmade duel_world duel_args Mode_Agent 2 (Some []) None (\<lambda>_. replicate 16 7) [(0, Inr ''a''), (0, Inr ''b'')] None
      = Some (Returned r)" using duel_ranked_run by blast
  have n: "2 = ag_seats duel_args" by (simp add: duel_args_def default_args_def)
  have u: "ou_mesh duel_world = duel_mesh" by (simp add: duel_world_def)
  have l: "saved_ratings duel_world duel_args = []" by (simp add: saved_ratings_def duel_args_def default_args_def)
  have i: "bt_inv (saved_ratings duel_world duel_args)" unfolding l by (simp add: bt_inv_def)
  from ranked_run_settles [OF r duel_args_playable n no_resolution i, unfolded u l] r show ?thesis by blast
qed

text \<open>The duel, seated either way, then silent; and the self-play of the default rules, asked for on a command line.\<close>

theorem enforced_runs_settle_witness:
  "(\<exists>r. run_direct duel_world duel_args 2 (Some []) None [(0, Inr ''a''), (0, Inr ''guest'')] None = Some (Returned r)
      \<and> played_and_settled (crates.truncate duel_mesh) duel_args [] [(0, A_key)] r)
   \<and> (\<exists>r. run_matchmade duel_world duel_args Mode_Agent 2 (Some []) None (\<lambda>_. replicate 16 7) [(0, Inr ''a''), (0, Inr ''b'')] None
        = Some (Returned r) \<and> played_and_settled (crates.truncate duel_mesh) duel_args [] [] r)"
proof -
  let ?m = "duel_of (replicate 16 5) (direct_config duel_args 2) ''agent-0'' ''agent-1'' 0"
  have w: "ou_mesh duel_world = duel_mesh" "ou_json duel_world = duel_json" by (simp_all add: duel_world_def)
  obtain out where j: "direct_joins duel_mesh duel_json (Some []) ?m 2 [] [(0, Inr ''a''), (0, Inr ''guest'')]
      (challenges duel_mesh (m_match_id ?m) 2) = Some (Returned ([(0, A_key)], [], out))" using duel_joins by blast
  obtain st out' where h: "handshake_matchmade duel_world duel_args Mode_Agent 2 (Some []) (\<lambda>_. replicate 16 7) [(0, Inr ''a''), (0, Inr ''b'')]
      = Some (Returned ((proven_maker, st), duel_of (replicate 16 7) ranked_config A_key B_key (seed_for_match (replicate 16 7)), [], out'))"
    using ranked_handshake by blast
  note run = enforced_runs_settle [OF duel_args_tame(1,2) no_resolution duel_args_tame(3) nothing_to_read, of duel_world, unfolded w]
  show ?thesis using run [THEN conjunct1, rule_format, OF conjI [OF duel_direct j]] run [THEN conjunct2, rule_format, OF h] by blast
qed

definition play_world :: outside where
  "play_world = duel_world\<lparr>ou_parse_uuid := \<lambda>_. Some (replicate 16 0)\<rparr>"

definition play_args :: args where
  "play_args = default_args\<lparr>ag_match_id := replicate 16 0, ag_self_play := True, ag_settle_dev_mock := True\<rparr>"

lemma play_switches:
  "map_of SWITCHES ''--self-play'' = Some (\<lambda>a. a\<lparr>ag_self_play := True\<rparr>)"
  "map_of SWITCHES ''--settle-dev-mock'' = Some (\<lambda>a. a\<lparr>ag_settle_dev_mock := True\<rparr>)"
  by (simp_all add: SWITCHES_def)

lemma play_parsed: "parse_args_from (ou_parse_uuid play_world) [''--self-play'', ''--settle-dev-mock''] = Some play_args"
  by (simp add: parse_args_from_def play_switches play_world_def play_args_def)

theorem self_play_settles_witness:
  "\<exists>r. gateway_main play_world [''--self-play'', ''--settle-dev-mock''] (\<lambda>_. []) [] None = Some (Returned (Match_Run r))
     \<and> played_and_settled (crates.truncate duel_mesh) play_args [] [] r \<and> m_tick (rp_match r) \<le> 3600"
proof -
  have w: "ou_mesh play_world = duel_mesh" by (simp add: play_world_def duel_world_def)
  have f: "ag_self_play play_args" "ag_settle_dev_mock play_args" "ag_mode play_args = None" "ag_replay play_args = None"
    by (simp_all add: play_args_def default_args_def)
  have t: "tame play_args" "\<not> teams_partition_is_invalid play_args"
    by (simp_all add: play_args_def tame_def playable_def args_ok_def default_args_def default_rules_defs MAX_REPLAY_SEATS_def
        MAX_REPLAY_TICKS_def MAX_REPLAY_STARTING_TICKS_def in_i32_def POSITION_SCALE_def teams_partition_is_invalid_def)
  have g: "direct_map play_world play_args = Some (Inr empty_map)"
    by (simp add: direct_map_def map_override_def play_args_def default_args_def arena_map_def NAMED_ARENAS_def)
  have "max 1 (ag_max_ticks play_args) = 3600" by (simp add: play_args_def default_args_def)
  with self_play_settles [OF play_parsed f t g] show ?thesis unfolding w by metis
qed

text \<open>
  Nothing compares the spawn radius with the arena: at 60 units both players of a duel start outside its 50 units.
\<close>

lemma spawn_outside_arena:
  "\<exists>m. playable (duel_args\<lparr>ag_spawn_radius := 60000\<rparr>) \<and> build_direct_match duel_world (duel_args\<lparr>ag_spawn_radius := 60000\<rparr>) 2 = Some (Inr m)
     \<and> length (m_pawns m) = 2 \<and> (\<forall>p\<in>set (m_pawns m). \<not> in_bounds (m_config m) (p_pos p))"
proof -
  let ?a = "duel_args\<lparr>ag_spawn_radius := 60000\<rparr>"
  have r: "rules_from ?a = duel_rules\<lparr>r_spawn_radius := 60000\<rparr>"
    unfolding duel_args_rules [symmetric] by (simp add: rules_from_def)
  have "direct_roster ?a 2 = [\<lparr>si_seat = 0, si_team = 0, si_controller = ''agent-0''\<rparr>, \<lparr>si_seat = 1, si_team = 1, si_controller = ''agent-1''\<rparr>]"
    by (simp add: direct_roster_def duel_args_def default_args_def upt_rec decimal.simps char_of_def bit_iff_odd)
  moreover have "direct_map duel_world ?a = Some (Inr empty_map)"
    by (simp add: direct_map_def map_override_def duel_args_def default_args_def arena_map_def NAMED_ARENAS_def)
  moreover have "ag_teams ?a = 1" by (simp add: duel_args_def default_args_def)
  moreover have "\<exists>m. new_with_pickups i (direct_config ?a 2) (duel_rules\<lparr>r_spawn_radius := 60000\<rparr>)
      [\<lparr>si_seat = 0, si_team = 0, si_controller = a\<rparr>, \<lparr>si_seat = 1, si_team = 1, si_controller = b\<rparr>] [] [] sd = Some m
      \<and> length (m_pawns m) = 2 \<and> (\<forall>p\<in>set (m_pawns m). \<not> in_bounds (m_config m) (p_pos p))" for i a b sd
    by (simp add: new_with_pickups_def spawn_pawn_def duel_rules_def default_rules_defs range_i32_zero ck_i32_def in_i32_def
        spawn_column_def sdiv_nonneg as_i32_def direct_config_def in_bounds_def POSITION_SCALE_def)
  moreover have "playable ?a" using duel_args_playable by (simp add: playable_def args_ok_def in_i32_def)
  ultimately show ?thesis by (auto simp: build_direct_match_def r empty_map_def)
qed

subsection \<open>Two digests\<close>

definition idle_end :: arena_match where
  "idle_end = maybe_finish toy_crates ((duel_of (replicate 16 5) ranked_config ''agent-0'' ''agent-1'' 0)\<lparr>m_ticks := idle_log, m_tick := 1\<rparr>)"

lemma idle_end_ok: "match_ok toy_crates idle_end"
proof -
  have "foldM (apply_event toy_crates) [Ev_Step []] (duel_of (replicate 16 5) ranked_config ''agent-0'' ''agent-1'' 0) = Some idle_end"
    by (simp add: apply_event_def idle_step [OF duel_of_simps(1)] idle_end_def)
  from match_machine.run_keeps [OF fresh_match_ok [OF duel_of_fresh] this] show ?thesis by (simp add: duel_rules_def default_rules_defs)
qed

lemma idle_end_simps:
  "m_match_id idle_end = replicate 16 5" "m_config idle_end = ranked_config" "m_rules idle_end = duel_rules" "m_seed idle_end = 0"
  "m_seats idle_end = [\<lparr>si_seat = 0, si_team = 0, si_controller = ''agent-0''\<rparr>, \<lparr>si_seat = 1, si_team = 1, si_controller = ''agent-1''\<rparr>]"
  "m_blockers idle_end = []" "m_pickup_config idle_end = []" "m_ticks idle_end = idle_log" "m_result idle_end \<noteq> None"
  by (simp_all add: idle_end_def maybe_finish_def duel_of_def duel_start_def ranked_config_def)

lemma idle_end_encodes: "ok_replay (build_replay idle_end)"
  unfolding build_replay_def idle_end_simps
  by (simp add: ranked_config_def POSITION_SCALE_def idle_log_def duel_rules_def default_rules_defs PROTOCOL_VERSION_def ok_replay_def ok_list_def
      ok_seat_info_def ok_str_def ok_vec2_def ok_tick_record_def canonical_encoding_def in_i32_def be_i32_def)

theorem sealed_record_differs_witness:
  "let agent = \<lparr>si_seat = 0, si_team = 0, si_controller = ''agent-0''\<rparr>; proved = [(0, A_key)] in
     identity proved agent \<noteq> agent
     \<and> (\<exists>rec. to_record idle_end = Some rec
          \<and> mr_replay_hash (rec_result rec) = hex_encode toy_crates (replay_digest toy_crates (rec_replay rec))
          \<and> (replay_digest toy_crates (sealed idle_end proved) \<noteq> replay_digest toy_crates (rec_replay rec)
             \<or> (\<exists>p q. p \<noteq> q \<and> keccak256 toy_crates p = keccak256 toy_crates q)))"
proof -
  let ?agent = "\<lparr>si_seat = 0, si_team = 0, si_controller = ''agent-0''\<rparr> :: seat_info"
  have s: "?agent \<in> set (m_seats idle_end)" by (simp add: idle_end_simps)
  have d: "identity [(0, A_key)] ?agent \<noteq> ?agent" by (simp add: identity_def key_address_def)
  have l: "\<forall>(seat, a)\<in>set [(0 :: seat_id, A_key)]. length a < 2 ^ 32" by (simp add: key_address_def)
  obtain result where r: "m_result idle_end = Some result" using idle_end_simps(9) by blast
  from sealed_record_differs [OF r idle_end_ok idle_end_encodes l s d] d show ?thesis unfolding Let_def by blast
qed

end
