(* ===== verification/Spec2Isabelle.thy ===== *)
theory Spec2Isabelle
  imports Driver Ranking Movement Fog_Of_War Weapons Geometry_Exact Codec
    Session_Props Registration Coordinator_Main Ladder Spectator_Props
    Earner_Http Gateway_Duel Harness_Duel
begin

text \<open>
  Verification of Blackfield's agent operations: the arena, in which seated agents play a deterministic
  match that anybody can re-run and check, and the mesh, in which a coordinator hands render jobs to
  earners, checks what they return, and settles it on chain. Both are Rust; the models here are
  translated from the source, one definition per function, type or loop, with the source's names where
  HOL allows them.

  Modelling conventions. A struct is a record, an enum a datatype. Arithmetic that can panic (checked
  or debug-overflowing) is a value \<open>None\<close> of the \<open>option\<close> monad; saturating, wrapping and truncating
  operations are written out; random numbers, hashes and network masks are words. Errors are the left
  side of a sum. The hash, the hex codec, the four steps of secp256k1 recovery and the text forms of
  network addresses are not in the repository: they are the fields of the parameter records
  \<open>crates\<close>, \<open>mesh_crates\<close>, \<open>earner_crates\<close>, \<open>map_source\<close>, \<open>ip_text\<close> and \<open>outside\<close>, and a theorem that relies on more than their types says so in
  a hypothesis.

  The arena (\<^verbatim>\<open>src/arena\<close>).
  \<^item> \<open>Prelude\<close>: the panic monad, checked arithmetic, generic lemmas on lists and options.
  \<^item> \<open>Proto\<close> and \<open>Codec\<close> (\<^verbatim>\<open>proto/src/lib.rs\<close>): the wire types, the version handshake, the integer square
    root and the move clamp; the canonical encodings and digests, with what a digest commits to.
  \<^item> \<open>Geometry\<close>, \<open>Geometry_Exact\<close> (\<^verbatim>\<open>core/src/lib.rs\<close>, direction tables to swept shapes, and
    \<^verbatim>\<open>SplitMix64\<close>): the integer tests, and that the box and disc tests decide the real-valued questions.
  \<^item> \<open>Rules\<close>, \<open>Arena_State\<close>, \<open>Perception\<close>, \<open>Combat\<close>, \<open>Match_Step\<close>: the state of a match and every
    function of \<^verbatim>\<open>Match\<close>, from spawning to the result. \<open>Match_Inv\<close>, \<open>Step_Inv\<close> prove the invariant of a
    step, \<open>Match_Machine\<close> makes it one of every run and shows that nothing is ever undone.
  \<^item> \<open>Movement\<close>, \<open>Fog_Of_War\<close>, \<open>Weapons\<close>, \<open>Ranking\<close>, \<open>Rating\<close>: what each subsystem guarantees: slides
    stay clear, observations show only what is perceived, projectiles are bounded, outcomes are a
    ranking, ratings are zero-sum.
  \<^item> \<open>Replay\<close>, \<open>Driver\<close>: \<^verbatim>\<open>MatchRecord::verify\<close>, \<^verbatim>\<open>replay_match\<close> and \<^verbatim>\<open>run_match\<close>; a recorded match
    verifies, what verifies is genuine, and a driven match ends.
  \<^item> \<open>Arena_Map\<close>: the bounds of a loaded arena (\<^verbatim>\<open>ArenaMap::from_json\<close>). \<open>Matchmaking\<close> (\<^verbatim>\<open>match/src/lib.rs\<close>):
    identity, admission, selection, team assignment, the registry of unsettled matches and both settlement
    routes. \<open>Matchmaking_Inv\<close> proves what forming a match keeps; \<open>Matchmaking_Machine\<close> makes joins,
    registrations and settlements the critical sections of concurrent callers, with the invariant \<open>lobby_ok\<close>
    (\<open>join_is_run\<close>: a call of \<^verbatim>\<open>join\<close> is a run of it); \<open>Matchmaking_Props\<close> shows that nobody is lost, doubled
    or starved, \<open>Ladder\<close> what a settlement does to the ratings.
  \<^item> \<open>Spectator\<close>, \<open>Spectator_Props\<close>: the lossy feed with its rings and the streams of a replay.
  \<^item> \<open>Gateway\<close> (\<^verbatim>\<open>harness/src/main.rs\<close>): the line protocol that connects the agents to a match, the blocking
    pump, the pump under a deadline and the live spectator cast. Standard input is a list of lines with their
    arrival times, the JSON parser the record \<open>gateway_json\<close>, the clock advances only while a pump waits, and
    writing to standard output succeeds. \<open>Gateway_Props\<close> abstracts both pumps into the relation \<open>pumped\<close> and
    concludes that what they play verifies, that a live cast is the stream of the replay, and how long a match
    can take; \<open>Gateway_Duel\<close> plays a small duel through them.
  \<^item> \<open>Harness_Args\<close>, \<open>Harness_Settle\<close>, \<open>Harness_Run\<close> (\<^verbatim>\<open>harness/src/main.rs\<close>): the command line, the settlers and
    what a finished match submits to them, both handshakes, the self-play bot, and \<^verbatim>\<open>main\<close>. What a run
    reads is the record \<open>outside\<close> (cryptography, parsers, files), what it writes is in its \<open>run_report\<close>, and
    \<^verbatim>\<open>exit(1)\<close> is a value. \<open>Harness_Settle_Props\<close> states the settlers' contract \<open>fenced_settler\<close> and what
    is settled for a match under whose name, and what its result writes to the ladder; \<open>Harness_Props\<close> takes whole
    runs from the lines of the handshake to the settled record and, for ranked ones, from the ladder file read
    to the one written; \<open>Harness_Duel\<close> runs both paths on a duel of two keys.
  \<^item> \<open>Weapons_Total\<close>, \<open>Step_Total\<close>, \<open>Match_Total\<close>, \<open>Gateway_Total\<close>, \<open>Harness_Total\<close>: when nothing panics. The
    potential \<open>total_worth\<close> (score, health and shield of all pawns) never grows but by pickups, so with the bounds
    of \<open>moderate\<close> on the setup every event of a match returns; the pump under a deadline then always ends its match,
    and so do whole runs and self-play for the command lines that are \<open>tame\<close>. What the bounds exclude are 32-bit
    overflows of scores, coordinates and ids that the code does not guard against.

  The mesh (\<^verbatim>\<open>src/mesh\<close>).
  \<^item> \<open>Mesh_Proto\<close> (\<^verbatim>\<open>proto/src/lib.rs\<close>): jobs, results, the two message enums, the two signed messages.
  \<^item> \<open>Mesh_Gate\<close> (\<^verbatim>\<open>coordinator/src/validate.rs\<close>, \<^verbatim>\<open>verify.rs\<close>, \<^verbatim>\<open>eas.rs\<close>, \<^verbatim>\<open>meter.rs\<close>): the checks a job or a
    result passes, and the receipt and the debit a settled result is turned into.
  \<^item> \<open>Mesh_Store\<close>, \<open>Mesh_Ledger\<close> (\<^verbatim>\<open>store.rs\<close>): the five tables and every statement on them. A table is the
    list of its rows, the clock an argument, an operation one critical section. \<open>Store_Inv\<close> states the
    store's invariant \<open>store_ok\<close> and the abstract life cycle of a job; \<open>Store_Machine\<close> is the relation
    \<open>store_step\<close> of all operations, with invariant and refinement; \<open>Store_Props\<close> proves settlement,
    dispatch, reapers, retention and statistics.
  \<^item> \<open>Mesh_Relay\<close> (\<^verbatim>\<open>relay.rs\<close>, \<^verbatim>\<open>meter.rs\<close>, the drains of \<^verbatim>\<open>main.rs\<close>): transports, their mocks and the three
    drains, which are \<open>partial_function (option)\<close> loops. \<open>Drain\<close> proves them once for the locale
    \<open>outbox\<close>, interpreted for receipts, debits and revocations: they return, they clear the backlog,
    they interleave safely.
  \<^item> \<open>Mesh_Registry\<close>, \<open>Registry_Props\<close> (\<^verbatim>\<open>main.rs\<close>): admission, rate limiting, trusted proxies, challenges. The limiter
    is bounded by a potential that charges a burst for every bucket evicted with a deficit; the source address is read off
    the authoritative header, \<^verbatim>\<open>X-Forwarded-For\<close> before \<^verbatim>\<open>Forwarded\<close>, up to the nearest hop that is not trusted.
  \<^item> \<open>Mesh_Coordinator\<close> (\<^verbatim>\<open>main.rs\<close>): the shared state, every handler, the turns of a WebSocket session and
    the reaper. Where the code awaits a lock, \<open>e_turn\<close> of the environment says what the other tasks do
    first. \<open>Coordinator_Props\<close> and \<open>Registration\<close> say who is credited and who is registered,
    \<open>Session_Props\<close> what a session can and cannot do to a job, and \<open>Coordinator_Machine\<close> closes the
    circle: a handler that relies on the other tasks making only \<open>app_step\<close>s makes only such steps
    itself, so everything proved of the store and the registry holds of the running coordinator. \<open>Coordinator_Main\<close>
    is the process around it, from its parsed arguments to the accept loop: a coordinator that starts is sound, and
    its cap on connections bounds what it serves over HTTP but not the sessions it has upgraded.
  \<^item> \<open>Earner\<close> (\<^verbatim>\<open>earner/src/main.rs\<close>, \<^verbatim>\<open>runner.rs\<close>): the worker's key and signatures, the stub renderer, the
    WebSocket session and its reconnect loop, the HTTP poll loop; what the network does is an argument.
    \<open>Earner_Props\<close> says in which order an earner speaks and how it backs off. \<open>Earner_Coordinator\<close> feeds its messages
    to the coordinator's session, \<open>Earner_Http\<close> connects its HTTP client to the coordinator's routes: honest work is
    settled on both transports unless a reaper or another task takes its job or its registration away first, and an unregistered
    earner works for nothing.

  Bounds and fuel. \<^verbatim>\<open>isqrt_u64\<close> and the phases of a match recurse on measures, the live loop of \<^verbatim>\<open>run_match\<close> on the
  ticks left to the cap; the drains may run for ever as written and are \<open>partial_function\<close>s whose return is a theorem. The
  handshakes recurse on the frames the socket delivers, the gateway's pumps on the countdown, the tick cap and the lines left, its handshakes on the seats still to join, the endless loops of an earner on the connections or
  polls it makes, retention on its \<^verbatim>\<open>RETENTION_MAX_BATCHES_PER_TICK\<close>.

  Not modelled. Logging and the reports on standard error, JSON text, the text of the command lines of the
  coordinator and the earner (the coordinator's parsed arguments are modelled), the routing table and its
  body timeout; failures of the database, other
  than the key conflict of \<^verbatim>\<open>enqueue_within_cap\<close>, and the migrations of old schemas; keep-alive timers
  of a session, which only decide when it ends; failing writes of the gateway and the temporary files it
  renames; the parity vectors; contracts and agents, which are not Rust.
\<close>

section \<open>The action gate\<close>

lemma clamp_component:
  assumes "1000000 < norm_sq d" "c = (u * 1000) sdiv int (isqrt_u64 (nat (norm_sq d)))"
  shows "\<bar>c\<bar> \<le> \<bar>u\<bar> \<and> 0 \<le> u * c"
proof -
  let ?s = "int (isqrt_u64 (nat (norm_sq d)))"
  have s: "1000 \<le> ?s" using clamp_move_long(2) [OF assms(1)] .
  have "\<bar>c\<bar> * ?s \<le> 1000 * \<bar>u\<bar>" using s scaled_component [of ?s u] by (simp add: assms(2))
  moreover have "\<bar>c\<bar> * 1000 \<le> \<bar>c\<bar> * ?s" using s by (intro mult_left_mono) auto
  moreover have "0 \<le> u * c"
  proof (cases "0 \<le> u")
    case True
    then show ?thesis using s by (simp add: assms(2) sdiv_nonneg pos_imp_zdiv_nonneg_iff)
  next
    case False
    then have "0 \<le> - (u * 1000) div ?s" using s by (simp add: pos_imp_zdiv_nonneg_iff)
    moreover have "c = - (- (u * 1000) div ?s)"
      using s False sdiv_neg_num [of "- (u * 1000)" ?s] by (simp add: assms(2))
    ultimately have "c \<le> 0" by linarith
    with False show ?thesis by (intro mult_nonpos_nonpos) auto
  qed
  ultimately show ?thesis by linarith
qed

lemma clamp_move_shrinks:
  "\<bar>vx (clamp_move d)\<bar> \<le> \<bar>vx d\<bar> \<and> 0 \<le> vx d * vx (clamp_move d) \<and>
   \<bar>vy (clamp_move d)\<bar> \<le> \<bar>vy d\<bar> \<and> 0 \<le> vy d * vy (clamp_move d)"
proof (cases "norm_sq d \<le> 1000000")
  case True
  then show ?thesis by (simp add: clamp_move_short)
next
  case False
  then have long: "1000000 < norm_sq d" by simp
  note c = clamp_move_long [OF long]
  have "norm_sq \<lparr>vx = (vx d * 1000) sdiv int (isqrt_u64 (nat (norm_sq d))),
      vy = (vy d * 1000) sdiv int (isqrt_u64 (nat (norm_sq d)))\<rparr> < 1001 * 1001"
    using scaled_norm [OF c(2), of "vx d" "vy d"] c(4) by (simp add: norm_sq_def)
  with c(1) have "vx (clamp_move d) = (vx d * 1000) sdiv int (isqrt_u64 (nat (norm_sq d)))"
    "vy (clamp_move d) = (vy d * 1000) sdiv int (isqrt_u64 (nat (norm_sq d)))"
    using small_sq_in_i32 by (simp_all add: norm_sq_def)
  then show ?thesis using clamp_component [OF long] by blast
qed

text \<open>
  The authoritative gate accepts an action exactly when it speaks the server's protocol
  version, the match is live, and it names this match, the seat of its own connection, the current tick
  and a living pawn; and what it lets through is the clamped intent, whose move is never longer than
  the scale plus the rounding of one unit, never turns a component around and never lengthens it, and
  which passes through a second clamp unchanged.
\<close>

theorem action_gate_exact:
  "(ingest m seat a = Inr i) =
     (act_protocol_version a = PROTOCOL_VERSION \<and> m_phase m = Live \<and> act_match_id a = m_match_id m
      \<and> act_seat a = seat \<and> act_tick a = m_tick m \<and> pawn_alive m seat \<and> i = clamped (act_intent a)
      \<and> norm_sq (move_dir i) < 1001 * 1001 \<and> clamped i = i
      \<and> aim i = aim (act_intent a) \<and> buttons i = buttons (act_intent a)
      \<and> \<bar>vx (move_dir i)\<bar> \<le> \<bar>vx (move_dir (act_intent a))\<bar> \<and> \<bar>vy (move_dir i)\<bar> \<le> \<bar>vy (move_dir (act_intent a))\<bar>
      \<and> 0 \<le> vx (move_dir (act_intent a)) * vx (move_dir i) \<and> 0 \<le> vy (move_dir (act_intent a)) * vy (move_dir i))"
  using clamp_move_shrinks [of "move_dir (act_intent a)"] norm_clamp_move [of "move_dir (act_intent a)"]
  by (auto simp: ingest_def action_validate_def check_version_def clamped_def split: if_splits)

text \<open>
  The clamp can exceed the cap: the move (1001, 44), whose length is cut to 1001, leaves the
  clamp as (1000, 43), longer than the scale of 1000.
\<close>

theorem clamp_overshoots_scale:
  "clamp_move \<lparr>vx = 1001, vy = 44\<rparr> = \<lparr>vx = 1000, vy = 43\<rparr>
   \<and> MOVE_INTENT_SCALE * MOVE_INTENT_SCALE < norm_sq (clamp_move \<lparr>vx = 1001, vy = 44\<rparr>)"
proof -
  have "isqrt_u64 1003937 = 1001" by (rule isqrt_unique) auto
  then have "clamp_move \<lparr>vx = 1001, vy = 44\<rparr> = \<lparr>vx = 1000, vy = 43\<rparr>"
    by (simp add: clamp_move_def signed_divide_int_def as_i32_def)
  then show ?thesis by (simp add: norm_sq_def)
qed

end
